(* ===== verification/Prelude.thy ===== *)
theory Prelude
  imports Main "HOL-Library.Word" "HOL-Library.Sublist" "HOL-Library.Char_ord"
    "HOL-Library.List_Lexorder" "HOL-Library.AList"
begin

text \<open>
  Shared material of the development: names for the data the program passes around, the part of
  Rust's standard library it uses on strings, options, results and machine integers, and the
  generic lemmas the component theories rely on.

  Conventions.
  \<^item> A Rust \<open>String\<close> or \<open>&str\<close> is the list of its UTF-8 bytes, a \<open>string\<close> whose characters are
    bytes; so \<open>length\<close> is \<open>str::len\<close>, and the order on strings is the byte-wise lexicographic
    order of \<open>str::cmp\<close>.
  \<^item> A \<open>Vec<u8>\<close> is a list of 8-bit words.
  \<^item> A \<open>u64\<close> quantity is a \<open>nat\<close>; every place where the code saturates or checks an addition
    says so with \<open>u64_max\<close>.
  \<^item> A \<open>Result<T, E>\<close> is \<open>'e + 'a\<close> with \<open>Inl\<close> the error.
\<close>

section \<open>Names and collections\<close>

type_synonym bytes = "8 word list"

named_theorems result_simps "facts about sequencing of fallible computations"
named_theorems string_simps "facts about the string functions of the standard library"

section \<open>Results\<close>

text \<open>The \<open>?\<close> operator: stop at the first error.\<close>

definition bindE :: "'e + 'a \<Rightarrow> ('a \<Rightarrow> 'e + 'b) \<Rightarrow> 'e + 'b" where
  "bindE m f = (case m of Inl e \<Rightarrow> Inl e | Inr x \<Rightarrow> f x)"

text \<open>\<open>Option::ok_or\<close>.\<close>

definition ok_or :: "'e \<Rightarrow> 'a option \<Rightarrow> 'e + 'a" where
  "ok_or e x = (case x of None \<Rightarrow> Inl e | Some v \<Rightarrow> Inr v)"

text \<open>\<open>Result::map_err\<close>.\<close>

definition map_err :: "('e \<Rightarrow> 'f) \<Rightarrow> 'e + 'a \<Rightarrow> 'f + 'a" where
  "map_err g m = (case m of Inl e \<Rightarrow> Inl (g e) | Inr x \<Rightarrow> Inr x)"

definition is_ok :: "'e + 'a \<Rightarrow> bool" where
  "is_ok m = (case m of Inl _ \<Rightarrow> False | Inr _ \<Rightarrow> True)"

text \<open>\<open>iter().map(f).collect::<Result<Vec<_>>>()\<close>: the first error in order wins.\<close>

fun mapE :: "('a \<Rightarrow> 'e + 'b) \<Rightarrow> 'a list \<Rightarrow> 'e + 'b list" where
  "mapE f [] = Inr []"
| "mapE f (x # xs) = bindE (f x) (\<lambda>y. bindE (mapE f xs) (\<lambda>ys. Inr (y # ys)))"

text \<open>A loop body run over a list for its checks only.\<close>

fun allE :: "('a \<Rightarrow> 'e + unit) \<Rightarrow> 'a list \<Rightarrow> 'e + unit" where
  "allE f [] = Inr ()"
| "allE f (x # xs) = bindE (f x) (\<lambda>_. allE f xs)"

lemma bindE_Inl [simp, result_simps]: "bindE (Inl e) f = Inl e"
  by (simp add: bindE_def)

lemma bindE_Inr [simp, result_simps]: "bindE (Inr x) f = f x"
  by (simp add: bindE_def)

lemma bindE_eq_Inr [result_simps]: "bindE m f = Inr y \<longleftrightarrow> (\<exists>x. m = Inr x \<and> f x = Inr y)"
  by (cases m) auto

lemma bindE_eq_Inl [result_simps]:
  "bindE m f = Inl e \<longleftrightarrow> m = Inl e \<or> (\<exists>x. m = Inr x \<and> f x = Inl e)"
  by (cases m) auto

lemma bindE_if_guard [result_simps]:
  "(if c then Inl e else m) = Inr y \<longleftrightarrow> \<not> c \<and> m = Inr y"
  by simp

lemma ok_or_eq_Inr [simp, result_simps]: "ok_or e x = Inr v \<longleftrightarrow> x = Some v"
  by (cases x) (auto simp: ok_or_def)

lemma ok_or_eq_Inl [simp, result_simps]: "ok_or e x = Inl e' \<longleftrightarrow> x = None \<and> e' = e"
  by (cases x) (auto simp: ok_or_def)

lemma ok_or_None [simp]: "ok_or e None = Inl e"
  by (simp add: ok_or_def)

lemma ok_or_Some [simp]: "ok_or e (Some v) = Inr v"
  by (simp add: ok_or_def)

lemma map_err_eq_Inr [simp, result_simps]: "map_err g m = Inr v \<longleftrightarrow> m = Inr v"
  by (cases m) (auto simp: map_err_def)

lemma map_err_eq_Inl [result_simps]: "map_err g m = Inl e \<longleftrightarrow> (\<exists>d. m = Inl d \<and> e = g d)"
  by (cases m) (auto simp: map_err_def)

lemma map_err_Inl [simp]: "map_err g (Inl e) = Inl (g e)"
  by (simp add: map_err_def)

lemma map_err_Inr [simp]: "map_err g (Inr v) = Inr v"
  by (simp add: map_err_def)

lemma is_ok_simps [simp]: "is_ok (Inr x)" "\<not> is_ok (Inl e)"
  by (simp_all add: is_ok_def)

lemma is_ok_iff: "is_ok m \<longleftrightarrow> (\<exists>x. m = Inr x)"
  by (cases m) auto

lemma mapE_eq_Inr [result_simps]:
  "mapE f xs = Inr ys \<longleftrightarrow> list_all2 (\<lambda>x y. f x = Inr y) xs ys"
  by (induction xs arbitrary: ys) (auto simp: bindE_eq_Inr list_all2_Cons1)

lemma mapE_length: "mapE f xs = Inr ys \<Longrightarrow> length ys = length xs"
  by (auto simp: mapE_eq_Inr dest: list_all2_lengthD)

lemma mapE_all_ok: "(\<And>x. x \<in> set xs \<Longrightarrow> f x = Inr (g x)) \<Longrightarrow> mapE f xs = Inr (map g xs)"
  by (induction xs) auto

lemma allE_eq_Inr [result_simps]: "allE f xs = Inr () \<longleftrightarrow> (\<forall>x \<in> set xs. f x = Inr ())"
  by (induction xs) (auto simp: bindE_eq_Inr)

section \<open>Machine integers\<close>

abbreviation u64_max :: nat where
  "u64_max \<equiv> 18446744073709551615"

abbreviation u32_max :: nat where
  "u32_max \<equiv> 4294967295"

text \<open>\<open>u64::try_from(n).unwrap_or(u64::MAX)\<close> and \<open>saturating_add\<close>, \<open>checked_add\<close> on \<open>u64\<close>.\<close>

definition sat64 :: "nat \<Rightarrow> nat" where
  "sat64 n = min n u64_max"

definition saturating_add64 :: "nat \<Rightarrow> nat \<Rightarrow> nat" where
  "saturating_add64 a b = min (a + b) u64_max"

definition checked_add64 :: "nat \<Rightarrow> nat \<Rightarrow> nat option" where
  "checked_add64 a b = (if a + b \<le> u64_max then Some (a + b) else None)"

definition sat32 :: "nat \<Rightarrow> nat" where
  "sat32 n = min n u32_max"

lemma sat64_le [simp]: "sat64 n \<le> u64_max"
  by (simp add: sat64_def)

lemma sat64_id: "n \<le> u64_max \<Longrightarrow> sat64 n = n"
  by (simp add: sat64_def)

lemma sat64_le_self: "sat64 n \<le> n"
  by (simp add: sat64_def)

lemma saturating_add64_le [simp]: "saturating_add64 a b \<le> u64_max"
  by (simp add: saturating_add64_def)

lemma saturating_add64_ge: "a \<le> u64_max \<Longrightarrow> a \<le> saturating_add64 a b"
  by (simp add: saturating_add64_def)

lemma checked_add64_Some [simp, result_simps]:
  "checked_add64 a b = Some c \<longleftrightarrow> c = a + b \<and> a + b \<le> u64_max"
  by (auto simp: checked_add64_def)

end
