(* ===== verification/Rust_String.thy ===== *)
theory Rust_String
  imports Prelude
begin

text \<open>
  The string functions of Rust's standard library that the program uses: classification of bytes,
  \<open>strip_prefix\<close>, \<open>split\<close>, \<open>rfind\<close>, \<open>join\<close>, \<open>contains\<close>, \<open>trim\<close> with the Unicode white space
  set, decimal printing and parsing of integers, and the \<open>Debug\<close> rendering of a string. Each is an
  executable function on byte strings; the lemmas give the algebra the components use.
\<close>

section \<open>Byte classes\<close>

definition byte_of :: "char \<Rightarrow> nat" where
  "byte_of c = of_char c"

definition is_ascii_digit :: "char \<Rightarrow> bool" where
  "is_ascii_digit c = (48 \<le> byte_of c \<and> byte_of c \<le> 57)"

definition is_ascii_lowercase :: "char \<Rightarrow> bool" where
  "is_ascii_lowercase c = (97 \<le> byte_of c \<and> byte_of c \<le> 122)"

definition is_ascii_uppercase :: "char \<Rightarrow> bool" where
  "is_ascii_uppercase c = (65 \<le> byte_of c \<and> byte_of c \<le> 90)"

definition is_ascii_alphanumeric :: "char \<Rightarrow> bool" where
  "is_ascii_alphanumeric c = (is_ascii_digit c \<or> is_ascii_lowercase c \<or> is_ascii_uppercase c)"

definition is_ascii_hexdigit :: "char \<Rightarrow> bool" where
  "is_ascii_hexdigit c =
     (is_ascii_digit c \<or> (97 \<le> byte_of c \<and> byte_of c \<le> 102) \<or> (65 \<le> byte_of c \<and> byte_of c \<le> 70))"

definition is_ascii_graphic :: "char \<Rightarrow> bool" where
  "is_ascii_graphic c = (33 \<le> byte_of c \<and> byte_of c \<le> 126)"

text \<open>A lower-case hexadecimal digit: what the code spells both as
  \<open>is_ascii_hexdigit() && !is_ascii_uppercase()\<close> and as \<open>b'0'..=b'9' | b'a'..=b'f'\<close>.\<close>

definition is_lower_hex :: "char \<Rightarrow> bool" where
  "is_lower_hex c = (is_ascii_digit c \<or> (97 \<le> byte_of c \<and> byte_of c \<le> 102))"

lemmas byte_class_defs =
  byte_of_def is_ascii_digit_def is_ascii_lowercase_def is_ascii_uppercase_def
  is_ascii_alphanumeric_def is_ascii_hexdigit_def is_ascii_graphic_def is_lower_hex_def

lemma is_lower_hex_alt: "is_ascii_hexdigit c \<and> \<not> is_ascii_uppercase c \<longleftrightarrow> is_lower_hex c"
  by (auto simp: byte_class_defs)

lemma is_lower_hex_hexdigit: "is_lower_hex c \<Longrightarrow> is_ascii_hexdigit c"
  by (auto simp: byte_class_defs)

text \<open>\<open>str::chars().any(char::is_control)\<close>: the C0 controls, DEL, and the C1 controls, which UTF-8
  encodes as the byte \<open>0xC2\<close> followed by a byte in \<open>0x80..=0x9F\<close>.\<close>

fun has_control :: "string \<Rightarrow> bool" where
  "has_control [] = False"
| "has_control (c # cs) =
     (byte_of c < 32 \<or> byte_of c = 127
      \<or> (byte_of c = 194 \<and> (case cs of [] \<Rightarrow> False | d # _ \<Rightarrow> 128 \<le> byte_of d \<and> byte_of d \<le> 159))
      \<or> has_control cs)"

section \<open>Prefixes, splitting and joining\<close>

definition strip_prefix :: "string \<Rightarrow> string \<Rightarrow> string option" where
  "strip_prefix p s = (if take (length p) s = p then Some (drop (length p) s) else None)"

definition starts_with :: "string \<Rightarrow> string \<Rightarrow> bool" where
  "starts_with p s = (take (length p) s = p)"

text \<open>\<open>s.split(c)\<close>: one more segment than there are separators, the empty string giving one empty
  segment.\<close>

fun split_on :: "char \<Rightarrow> string \<Rightarrow> string list" where
  "split_on c [] = [[]]"
| "split_on c (x # xs) =
     (if x = c then [] # split_on c xs
      else (case split_on c xs of [] \<Rightarrow> [[x]] | w # ws \<Rightarrow> (x # w) # ws))"

text \<open>\<open>segments.join(sep)\<close>.\<close>

fun join_with :: "string \<Rightarrow> string list \<Rightarrow> string" where
  "join_with sep [] = []"
| "join_with sep [w] = w"
| "join_with sep (w # v # ws) = w @ sep @ join_with sep (v # ws)"

text \<open>\<open>s.rfind(c)\<close> and \<open>s.split_once(c)\<close>.\<close>

fun rfind :: "char \<Rightarrow> string \<Rightarrow> nat option" where
  "rfind c [] = None"
| "rfind c (x # xs) =
     (case rfind c xs of Some i \<Rightarrow> Some (Suc i) | None \<Rightarrow> if x = c then Some 0 else None)"

fun split_once :: "char \<Rightarrow> string \<Rightarrow> (string \<times> string) option" where
  "split_once c [] = None"
| "split_once c (x # xs) =
     (if x = c then Some ([], xs) else map_option (\<lambda>(a, b). (x # a, b)) (split_once c xs))"

text \<open>\<open>s.contains(needle)\<close> for a string needle.\<close>

fun contains_str :: "string \<Rightarrow> string \<Rightarrow> bool" where
  "contains_str n [] = (n = [])"
| "contains_str n (x # xs) = (starts_with n (x # xs) \<or> contains_str n xs)"

text \<open>\<open>trim_matches(c)\<close> and \<open>trim_end_matches(c)\<close> for one character.\<close>

definition trim_end_char :: "char \<Rightarrow> string \<Rightarrow> string" where
  "trim_end_char c s = rev (dropWhile (\<lambda>x. x = c) (rev s))"

definition trim_char :: "char \<Rightarrow> string \<Rightarrow> string" where
  "trim_char c s = trim_end_char c (dropWhile (\<lambda>x. x = c) s)"

lemma starts_with_prefix: "starts_with p s \<longleftrightarrow> prefix p s"
  by (metis append_eq_conv_conj append_take_drop_id prefix_def starts_with_def)

lemma strip_prefix_eq_Some [simp, string_simps]: "strip_prefix p s = Some r \<longleftrightarrow> s = p @ r"
  by (auto simp: strip_prefix_def) (metis append_take_drop_id)

lemma strip_prefix_append [simp]: "strip_prefix p (p @ r) = Some r"
  by (simp add: strip_prefix_def)

lemma strip_prefix_eq_None: "strip_prefix p s = None \<longleftrightarrow> \<not> prefix p s"
  by (metis option.exhaust option.distinct(1) prefix_def strip_prefix_eq_Some)

lemma split_on_nonempty [simp]: "split_on c s \<noteq> []"
  by (induction s) (auto split: list.splits)

lemma split_on_no_sep: "w \<in> set (split_on c s) \<Longrightarrow> c \<notin> set w"
  by (induction s arbitrary: w) (auto split: list.splits if_splits)

lemma split_on_join [simp]: "join_with [c] (split_on c s) = s"
proof (induction s)
  case (Cons x xs)
  then show ?case
    by (cases "split_on c xs") (auto split: list.splits, (cases "tl (split_on c xs)", auto)+)
qed simp

lemma split_on_id: "c \<notin> set s \<Longrightarrow> split_on c s = [s]"
  by (induction s) auto

lemma split_on_append: "c \<notin> set a \<Longrightarrow> split_on c (a @ c # b) = a # split_on c b"
  by (induction a) auto

lemma split_on_join_with:
  "ws \<noteq> [] \<Longrightarrow> (\<And>w. w \<in> set ws \<Longrightarrow> c \<notin> set w) \<Longrightarrow> split_on c (join_with [c] ws) = ws"
  by (induction "[c]" ws rule: join_with.induct) (auto simp: split_on_id split_on_append)

lemma rfind_eq_None: "rfind c s = None \<longleftrightarrow> c \<notin> set s"
  by (induction s) (auto split: option.splits)

lemma rfind_None [simp]: "c \<notin> set s \<Longrightarrow> rfind c s = None"
  by (simp add: rfind_eq_None)

lemma rfind_append: "c \<notin> set b \<Longrightarrow> rfind c (a @ c # b) = Some (length a)"
  by (induction a) (auto split: option.splits)

lemma rfind_SomeD:
  "rfind c s = Some i \<Longrightarrow> i < length s \<and> s ! i = c \<and> c \<notin> set (drop (Suc i) s)"
proof (induction s arbitrary: i)
  case (Cons x xs)
  then show ?case by (cases "rfind c xs") (auto simp: rfind_eq_None split: if_splits)
qed simp

lemma contains_str_sublist: "contains_str n s \<longleftrightarrow> sublist n s"
  by (induction s) (auto simp: starts_with_prefix sublist_Cons_right)

section \<open>Trimming Unicode white space\<close>

text \<open>The UTF-8 encodings of the characters with the property \<open>White_Space\<close>, which is what
  \<open>str::trim\<close> removes.\<close>

definition unicode_ws :: "string list" where
  "unicode_ws =
     [[CHR 0x09], [CHR 0x0A], [CHR 0x0B], [CHR 0x0C], [CHR 0x0D], [CHR 0x20],
      [CHR 0xC2, CHR 0x85], [CHR 0xC2, CHR 0xA0], [CHR 0xE1, CHR 0x9A, CHR 0x80],
      [CHR 0xE2, CHR 0x80, CHR 0x80], [CHR 0xE2, CHR 0x80, CHR 0x81], [CHR 0xE2, CHR 0x80, CHR 0x82],
      [CHR 0xE2, CHR 0x80, CHR 0x83], [CHR 0xE2, CHR 0x80, CHR 0x84], [CHR 0xE2, CHR 0x80, CHR 0x85],
      [CHR 0xE2, CHR 0x80, CHR 0x86], [CHR 0xE2, CHR 0x80, CHR 0x87], [CHR 0xE2, CHR 0x80, CHR 0x88],
      [CHR 0xE2, CHR 0x80, CHR 0x89], [CHR 0xE2, CHR 0x80, CHR 0x8A], [CHR 0xE2, CHR 0x80, CHR 0xA8],
      [CHR 0xE2, CHR 0x80, CHR 0xA9], [CHR 0xE2, CHR 0x80, CHR 0xAF], [CHR 0xE2, CHR 0x81, CHR 0x9F],
      [CHR 0xE3, CHR 0x80, CHR 0x80]]"

text \<open>The longest run of encodings of a list \<open>ws\<close> at the front of a string is dropped; \<open>n\<close> bounds
  the number of characters, and the length of the string is always enough.\<close>

fun drop_front :: "string list \<Rightarrow> nat \<Rightarrow> string \<Rightarrow> string" where
  "drop_front ws 0 s = s"
| "drop_front ws (Suc n) s =
     (case find (\<lambda>w. starts_with w s) ws of
        None \<Rightarrow> s
      | Some w \<Rightarrow> drop_front ws n (drop (length w) s))"

definition trim_start :: "string \<Rightarrow> string" where
  "trim_start s = drop_front unicode_ws (length s) s"

definition trim_end :: "string \<Rightarrow> string" where
  "trim_end s = rev (drop_front (map rev unicode_ws) (length s) (rev s))"

definition trim :: "string \<Rightarrow> string" where
  "trim s = trim_end (trim_start s)"

lemma unicode_ws_nonempty: "[] \<notin> set unicode_ws"
  by (simp add: unicode_ws_def)

lemma drop_front_suffix: "suffix (drop_front ws n s) s"
proof (induction ws n s rule: drop_front.induct)
  case (2 ws n s)
  then show ?case
    by (auto split: option.splits intro: suffix_order.trans suffix_drop)
qed simp

text \<open>The bound is enough: the result starts with no white space character.\<close>

lemma drop_front_done:
  "[] \<notin> set ws \<Longrightarrow> length s \<le> n \<Longrightarrow> w \<in> set ws \<Longrightarrow> \<not> starts_with w (drop_front ws n s)"
proof (induction ws n s rule: drop_front.induct)
  case (1 ws s)
  then show ?case by (auto simp: starts_with_def)
next
  case (2 ws n s)
  show ?case
  proof (cases "find (\<lambda>w. starts_with w s) ws")
    case None
    then have "drop_front ws (Suc n) s = s" by simp
    with None "2.prems" show ?thesis by (auto simp: find_None_iff)
  next
    case (Some v)
    then have v: "v \<in> set ws" "starts_with v s" by (auto simp: find_Some_iff)
    with "2.prems" have "v \<noteq> []" by auto
    then have "length (drop (length v) s) \<le> n"
      using "2.prems"(2) v(2) by (cases s; cases v) (auto simp: starts_with_def)
    with "2.IH"[OF Some "2.prems"(1)] Some "2.prems"(3) show ?thesis by simp
  qed
qed

lemma drop_front_id: "(\<And>w. w \<in> set ws \<Longrightarrow> \<not> starts_with w s) \<Longrightarrow> drop_front ws n s = s"
  by (cases n) (auto simp: find_Some_iff split: option.splits)

lemma trim_start_suffix: "suffix (trim_start s) s"
  by (simp add: trim_start_def drop_front_suffix)

lemma trim_end_prefix: "prefix (trim_end s) s"
  unfolding trim_end_def using drop_front_suffix[of "map rev unicode_ws" "length s" "rev s"]
  by (simp add: suffix_to_prefix)

lemma trim_end_done: "w \<in> set unicode_ws \<Longrightarrow> \<not> suffix w (trim_end s)"
proof -
  assume w: "w \<in> set unicode_ws"
  have "[] \<notin> set (map rev unicode_ws)" using unicode_ws_nonempty by auto
  from drop_front_done[OF this, of "rev s" "length s" "rev w"] w show ?thesis
    by (auto simp: trim_end_def starts_with_prefix suffix_to_prefix)
qed

lemma trim_start_done: "w \<in> set unicode_ws \<Longrightarrow> \<not> prefix w (trim_start s)"
  using drop_front_done[OF unicode_ws_nonempty, of s "length s" w]
  by (auto simp: trim_start_def starts_with_prefix)

text \<open>Trimming is idempotent.\<close>

lemma trim_end_id: "(\<And>w. w \<in> set unicode_ws \<Longrightarrow> \<not> suffix w s) \<Longrightarrow> trim_end s = s"
proof -
  assume "\<And>w. w \<in> set unicode_ws \<Longrightarrow> \<not> suffix w s"
  then have "\<And>v. v \<in> set (map rev unicode_ws) \<Longrightarrow> \<not> starts_with v (rev s)"
    by (auto simp: starts_with_prefix suffix_to_prefix)
  then have "drop_front (map rev unicode_ws) (length s) (rev s) = rev s" by (rule drop_front_id)
  then show ?thesis by (simp add: trim_end_def)
qed

lemma trim_start_id: "(\<And>w. w \<in> set unicode_ws \<Longrightarrow> \<not> prefix w s) \<Longrightarrow> trim_start s = s"
  by (simp add: trim_start_def drop_front_id starts_with_prefix)

lemma trim_idem [simp]: "trim (trim s) = trim s"
proof -
  have "prefix (trim s) (trim_start s)" by (simp add: trim_def trim_end_prefix)
  then have "w \<in> set unicode_ws \<Longrightarrow> \<not> prefix w (trim s)" for w
    using trim_start_done prefix_order.trans by blast
  then have "trim_start (trim s) = trim s" by (rule trim_start_id)
  moreover have "trim_end (trim s) = trim s"
    by (rule trim_end_id) (simp add: trim_def trim_end_done)
  ultimately show ?thesis by (simp add: trim_def)
qed

lemma set_trim: "set (trim s) \<subseteq> set s"
  using trim_start_suffix[of s] trim_end_prefix[of "trim_start s"]
  by (auto simp: trim_def dest!: set_mono_prefix set_mono_suffix)

lemma length_trim: "length (trim s) \<le> length s"
  using suffix_length_le[OF trim_start_suffix[of s]] prefix_length_le[OF trim_end_prefix[of "trim_start s"]]
  by (simp add: trim_def)

text \<open>A string of printable ASCII characters is not changed by trimming.\<close>

lemma trim_graphic:
  assumes "\<And>c. c \<in> set s \<Longrightarrow> is_ascii_graphic c"
  shows "trim s = s"
proof -
  have ws: "\<exists>c \<in> set w. \<not> is_ascii_graphic c" if "w \<in> set unicode_ws" for w
    using that by (auto simp: unicode_ws_def byte_class_defs)
  then have "\<not> prefix w s" "\<not> suffix w s" if "w \<in> set unicode_ws" for w
    using that assms by (meson set_mono_prefix set_mono_suffix subsetD)+
  then show ?thesis by (simp add: trim_def trim_start_id trim_end_id)
qed

section \<open>Numbers and debug output\<close>

definition digit_char :: "nat \<Rightarrow> char" where
  "digit_char d = char_of (48 + d)"

fun show_nat :: "nat \<Rightarrow> string" where
  "show_nat n = (if n < 10 then [digit_char n] else show_nat (n div 10) @ [digit_char (n mod 10)])"

declare show_nat.simps [simp del]

text \<open>\<open>str::parse::<u64>\<close>: an optional \<open>+\<close>, at least one digit, and no overflow.\<close>

definition digits_val :: "string \<Rightarrow> nat" where
  "digits_val s = foldl (\<lambda>a c. 10 * a + (byte_of c - 48)) 0 s"

definition parse_u64 :: "string \<Rightarrow> nat option" where
  "parse_u64 s =
     (let ds = (case s of [] \<Rightarrow> [] | c # cs \<Rightarrow> if c = CHR ''+'' then cs else s) in
      if ds \<noteq> [] \<and> list_all is_ascii_digit ds \<and> digits_val ds \<le> u64_max
      then Some (digits_val ds) else None)"

lemma byte_of_digit_char: "d < 10 \<Longrightarrow> byte_of (digit_char d) = 48 + d"
  by (simp add: byte_of_def digit_char_def)

lemma digit_char_digit: "d < 10 \<Longrightarrow> is_ascii_digit (digit_char d)"
  by (simp add: is_ascii_digit_def byte_of_digit_char)

lemma show_nat_digits: "list_all is_ascii_digit (show_nat n) \<and> show_nat n \<noteq> []"
proof (induction n rule: show_nat.induct)
  case (1 n)
  then show ?case by (subst (1 2) show_nat.simps) (auto simp: digit_char_digit)
qed

lemma digits_val_show_nat: "digits_val (show_nat n) = n"
proof (induction n rule: show_nat.induct)
  case (1 n)
  show ?case
  proof (cases "n < 10")
    case True
    then show ?thesis by (subst show_nat.simps) (simp add: digits_val_def byte_of_digit_char)
  next
    case False
    with 1 show ?thesis
      by (subst show_nat.simps) (simp add: digits_val_def byte_of_digit_char)
  qed
qed

text \<open>Printing and parsing a \<open>u64\<close> round-trips.\<close>

lemma parse_show_nat: "n \<le> u64_max \<Longrightarrow> parse_u64 (show_nat n) = Some n"
proof -
  assume n: "n \<le> u64_max"
  obtain c cs where s: "show_nat n = c # cs" using show_nat_digits[of n] by (cases "show_nat n") auto
  then have "is_ascii_digit c" using show_nat_digits[of n] by auto
  then have "c \<noteq> CHR ''+''" by (auto simp: byte_class_defs)
  with s n show ?thesis
    using show_nat_digits[of n] digits_val_show_nat[of n] by (simp add: parse_u64_def Let_def)
qed

text \<open>\<open>format!("{:?}", s)\<close> on a string: quotes, the escapes of \<open>char::escape_debug\<close> for ASCII, and
  other bytes as they are.\<close>

definition escape_debug :: "char \<Rightarrow> string" where
  "escape_debug c =
     (if c = CHR 0x22 then [CHR 0x5C, CHR 0x22]
      else if c = CHR 0x5C then [CHR 0x5C, CHR 0x5C]
      else if c = CHR 0x0A then [CHR 0x5C, CHR ''n'']
      else if c = CHR 0x0D then [CHR 0x5C, CHR ''r'']
      else if c = CHR 0x09 then [CHR 0x5C, CHR ''t'']
      else if c = CHR 0x00 then [CHR 0x5C, CHR ''0'']
      else if byte_of c < 32 \<or> byte_of c = 127 then
        [CHR 0x5C, CHR ''u'', CHR 0x7B]
        @ (if byte_of c < 16 then [] else [''0123456789abcdef'' ! (byte_of c div 16)])
        @ [''0123456789abcdef'' ! (byte_of c mod 16), CHR 0x7D]
      else [c])"

definition debug_str :: "string \<Rightarrow> string" where
  "debug_str s = [CHR 0x22] @ concat (map escape_debug s) @ [CHR 0x22]"

section \<open>Strings as bytes\<close>

definition string_bytes :: "string \<Rightarrow> bytes" where
  "string_bytes s = map (\<lambda>c. of_nat (byte_of c)) s"

definition bytes_string :: "bytes \<Rightarrow> string" where
  "bytes_string b = map (\<lambda>x. char_of (unat x)) b"

text \<open>Well-formed UTF-8, as \<open>read_to_string\<close> demands.\<close>

fun utf8_valid :: "nat list \<Rightarrow> bool" where
  "utf8_valid [] = True"
| "utf8_valid (a # r) =
     (let cont = (\<lambda>x. 128 \<le> x \<and> x \<le> (191 :: nat)) in
      if a \<le> 127 then utf8_valid r
      else if 194 \<le> a \<and> a \<le> 223 then (case r of b # r' \<Rightarrow> cont b \<and> utf8_valid r' | _ \<Rightarrow> False)
      else if 224 \<le> a \<and> a \<le> 239 then
        (case r of b # c # r' \<Rightarrow>
           cont b \<and> cont c \<and> (a = 224 \<longrightarrow> 160 \<le> b) \<and> (a = 237 \<longrightarrow> b \<le> 159) \<and> utf8_valid r' | _ \<Rightarrow> False)
      else if 240 \<le> a \<and> a \<le> 244 then
        (case r of b # c # d # r' \<Rightarrow>
           cont b \<and> cont c \<and> cont d \<and> (a = 240 \<longrightarrow> 144 \<le> b) \<and> (a = 244 \<longrightarrow> b \<le> 143) \<and> utf8_valid r' | _ \<Rightarrow> False)
      else False)"

lemma unat_byte_less: "unat (y :: 8 word) < 256"
  using unsigned_less [of y] by simp

lemma byte_of_less: "byte_of c < 256"
  by (simp add: byte_of_def)

lemma unat_byte_of: "unat (of_nat (byte_of c) :: 8 word) = byte_of c"
  using byte_of_less [of c] by (simp add: unsigned_of_nat take_bit_eq_mod)

lemma string_bytes_inverse: "bytes_string (string_bytes s) = s" "string_bytes (bytes_string b) = b"
  "map unat (string_bytes s) = map byte_of s" "length (string_bytes s) = length s" "length (bytes_string b) = length b"
proof -
  show "bytes_string (string_bytes s) = s" by (induction s) (simp_all add: bytes_string_def string_bytes_def unat_byte_of, simp add: byte_of_def)
  show "string_bytes (bytes_string b) = b"
    by (induction b) (simp_all add: bytes_string_def string_bytes_def byte_of_def unat_byte_less of_char_mod_256)
  show "map unat (string_bytes s) = map byte_of s" by (simp add: string_bytes_def unat_byte_of)
qed (simp_all add: string_bytes_def bytes_string_def)

lemma utf8_ascii: "list_all (\<lambda>c. byte_of c < 128) s \<Longrightarrow> utf8_valid (map byte_of s)"
  by (induction s) (auto simp: Let_def)

end
