(* ===== verification/Errors.thy ===== *)
theory Errors
  imports Rust_String
begin

text \<open>
  The error vocabulary of the daemon (\<open>src/error.rs\<close>): the \<open>LiveError\<close> enum, its stable codes, the
  wire form \<open>ApiError\<close>, and what survives a trip over the wire.
\<close>

section \<open>LiveError\<close>

datatype live_error =
    Io string
  | Config string
  | Protocol string
  | Transport string
  | Authentication string
  | Authorization string
  | Capability string
  | NotFound string
  | Conflict string
  | InvalidHolo string
  | UnknownCommitState string

type_synonym 'a live_result = "live_error + 'a"

fun error_code :: "live_error \<Rightarrow> string" where
  "error_code (Io _) = ''LIVE_IO''"
| "error_code (Config _) = ''LIVE_CONFIG_INVALID''"
| "error_code (Protocol _) = ''LIVE_PROTOCOL_ERROR''"
| "error_code (Transport _) = ''LIVE_TRANSPORT_UNAVAILABLE''"
| "error_code (Authentication _) = ''LIVE_AUTHENTICATION_FAILED''"
| "error_code (Authorization _) = ''LIVE_AUTHORIZATION_DENIED''"
| "error_code (Capability _) = ''LIVE_CAPABILITY_MISSING''"
| "error_code (NotFound _) = ''LIVE_NOT_FOUND''"
| "error_code (Conflict _) = ''LIVE_CONFLICT''"
| "error_code (InvalidHolo _) = ''LIVE_HOLO_INVALID''"
| "error_code (UnknownCommitState _) = ''LIVE_UNKNOWN_COMMIT_STATE''"

text \<open>\<open>fmt::Display\<close>: the message alone.\<close>

fun error_message :: "live_error \<Rightarrow> string" where
  "error_message (Io m) = m"
| "error_message (Config m) = m"
| "error_message (Protocol m) = m"
| "error_message (Transport m) = m"
| "error_message (Authentication m) = m"
| "error_message (Authorization m) = m"
| "error_message (Capability m) = m"
| "error_message (NotFound m) = m"
| "error_message (Conflict m) = m"
| "error_message (InvalidHolo m) = m"
| "error_message (UnknownCommitState m) = m"

text \<open>\<open>LiveError::io\<close>: the path and the text of the I/O error.\<close>

definition error_io :: "string \<Rightarrow> string \<Rightarrow> live_error" where
  "error_io path err = Io (path @ '': '' @ err)"

section \<open>ApiError\<close>

record api_error =
  api_code :: string
  api_message :: string

definition to_api_error :: "live_error \<Rightarrow> api_error" where
  "to_api_error e = \<lparr>api_code = error_code e, api_message = error_message e\<rparr>"

definition from_api_error :: "api_error \<Rightarrow> live_error" where
  "from_api_error e =
     (if api_code e = ''LIVE_AUTHENTICATION_FAILED'' then Authentication (api_message e)
      else if api_code e = ''LIVE_AUTHORIZATION_DENIED'' then Authorization (api_message e)
      else if api_code e = ''LIVE_CAPABILITY_MISSING'' then Capability (api_message e)
      else if api_code e = ''LIVE_NOT_FOUND'' then NotFound (api_message e)
      else if api_code e = ''LIVE_CONFLICT'' then Conflict (api_message e)
      else if api_code e = ''LIVE_HOLO_INVALID'' then InvalidHolo (api_message e)
      else if api_code e = ''LIVE_UNKNOWN_COMMIT_STATE'' then UnknownCommitState (api_message e)
      else Protocol (api_code e @ '': '' @ api_message e))"

section \<open>What the wire keeps\<close>

text \<open>The variants that have a code of their own on the receiving side.\<close>

definition wire_stable :: "live_error \<Rightarrow> bool" where
  "wire_stable e = (case e of Io _ \<Rightarrow> False | Config _ \<Rightarrow> False | Protocol _ \<Rightarrow> False | Transport _ \<Rightarrow> False | _ \<Rightarrow> True)"

lemma from_to_api_error:
  "from_api_error (to_api_error e) =
     (if wire_stable e then e else Protocol (error_code e @ '': '' @ error_message e))"
  by (cases e) (auto simp: from_api_error_def to_api_error_def wire_stable_def)

lemma error_pair_inj: "error_code a = error_code b \<Longrightarrow> error_message a = error_message b \<Longrightarrow> a = b"
  by (cases a; cases b) auto

lemma to_api_error_inj: "to_api_error a = to_api_error b \<Longrightarrow> a = b"
  by (auto simp: to_api_error_def intro: error_pair_inj)

text \<open>
  Errors round-trip over the wire: the receiving side rebuilds the seven variants that carry a
  meaning a client acts on (authentication, authorization, capability, not found, conflict, invalid
  archive, unknown commit state) exactly, and turns every other variant into a protocol error whose
  text holds both the original code and the original message; so a remote refusal is never
  mistaken for success of another kind, and two different local errors never travel as one.
\<close>
theorem api_error_round_trip:
  "from_api_error (to_api_error e) =
     (if wire_stable e then e else Protocol (error_code e @ '': '' @ error_message e))
   \<and> (to_api_error e = to_api_error e' \<longleftrightarrow> e = e')"
  using from_to_api_error to_api_error_inj by blast

end
