(* ===== verification/Util_Fs.thy ===== *)
theory Util_Fs
  imports Errors
begin

unbundle bit_operations_syntax

text \<open>
  The helpers of \<open>src/util.rs\<close>: hexadecimal printing, constant-time comparison, home expansion, and
  \<open>atomic_write\<close> over a small model of the file system. A file system is the list of its files with
  their contents, in the order a directory listing returns them, and functions that say which kinds of call
  the operating system refuses on which paths, with the text of its error, and what a refused
  write leaves in the file. \<open>atomic_write\<close> is the sequence of its four system calls, so that a crash is a
  prefix of it, and each of them may fail whatever the others did. Looking whether a file exists does not fail.
\<close>

section \<open>Bytes as text\<close>

definition hex_digit :: "nat \<Rightarrow> char" where
  "hex_digit n = ''0123456789abcdef'' ! n"

definition hex_byte :: "8 word \<Rightarrow> string" where
  "hex_byte b = [hex_digit (unat (drop_bit 4 b)), hex_digit (unat (b AND 15))]"

definition hex :: "bytes \<Rightarrow> string" where
  "hex bs = concat (map hex_byte bs)"

definition constant_time_eq :: "bytes \<Rightarrow> bytes \<Rightarrow> bool" where
  "constant_time_eq left right =
     (if length left \<noteq> length right then False
      else foldl (\<lambda>difference (l, r). difference OR (l XOR r)) 0 (zip left right) = 0)"

lemma nibble_div_mod:
  "unat (drop_bit 4 (b :: 8 word)) = unat b div 16" "unat (b AND 15) = unat b mod 16"
proof -
  have "drop_bit 4 b = b div 16" by (simp add: drop_bit_eq_div)
  then show "unat (drop_bit 4 b) = unat b div 16" by (simp add: unat_div)
  have "b AND 15 = take_bit 4 b" by (simp add: take_bit_eq_mask mask_eq_exp_minus_1)
  also have "\<dots> = b mod 16" by (simp add: take_bit_eq_mod)
  finally show "unat (b AND 15) = unat b mod 16" by (simp add: unat_mod)
qed

lemma nibbles: "unat (drop_bit 4 (b :: 8 word)) < 16" "unat (b AND 15) < 16"
proof -
  have "unat b < 256" using unsigned_less[of b] by simp
  then show "unat (drop_bit 4 b) < 16" "unat (b AND 15) < 16" by (simp_all add: nibble_div_mod)
qed

lemma byte_of_nibbles: "unat b = 16 * unat (drop_bit 4 (b :: 8 word)) + unat (b AND 15)"
  by (simp add: nibble_div_mod)

lemma hex_digit_lower: "n < 16 \<Longrightarrow> is_lower_hex (hex_digit n)"
proof -
  assume "n < 16"
  then have "n \<in> {0,1,2,3,4,5,6,7,8,9,10,11,12,13,14,15}" by simp arith
  then show ?thesis by (auto simp: hex_digit_def byte_class_defs)
qed

lemma hex_digit_inj: "m < 16 \<Longrightarrow> n < 16 \<Longrightarrow> hex_digit m = hex_digit n \<longleftrightarrow> m = n"
  unfolding hex_digit_def by (rule nth_eq_iff_index_eq) auto

lemma length_hex [simp]: "length (hex bs) = 2 * length bs"
  by (induction bs) (auto simp: hex_def hex_byte_def)

lemma hex_lower: "list_all is_lower_hex (hex bs)"
  by (induction bs) (auto simp: hex_def hex_byte_def hex_digit_lower nibbles)

lemma hex_byte_inj: "hex_byte a = hex_byte b \<longleftrightarrow> a = b"
proof
  assume "hex_byte a = hex_byte b"
  then have "unat (drop_bit 4 a) = unat (drop_bit 4 b)" "unat (a AND 15) = unat (b AND 15)"
    by (simp_all add: hex_byte_def hex_digit_inj nibbles)
  then have "unat a = unat b" using byte_of_nibbles[of a] byte_of_nibbles[of b] by simp
  then show "a = b" by (simp add: word_unat_eq_iff)
qed simp

lemma hex_inj: "hex xs = hex ys \<longleftrightarrow> xs = ys"
proof
  show "hex xs = hex ys \<Longrightarrow> xs = ys"
  proof (induction xs arbitrary: ys)
    case Nil
    then show ?case by (cases ys) (auto simp: hex_def hex_byte_def)
  next
    case (Cons x xs)
    then obtain y zs where ys: "ys = y # zs" by (cases ys) (auto simp: hex_def hex_byte_def)
    with Cons.prems have "hex_byte x @ hex xs = hex_byte y @ hex zs" by (simp add: hex_def)
    moreover have "length (hex_byte x) = length (hex_byte y)" by (simp add: hex_byte_def)
    ultimately have "hex_byte x = hex_byte y" "hex xs = hex zs" by auto
    with Cons.IH ys show ?case by (simp add: hex_byte_inj)
  qed
qed simp

lemma xor_zero_iff: "(a :: 8 word) XOR b = 0 \<longleftrightarrow> a = b"
  by (metis bit.xor_self bit.xor_left_self xor.comm_neutral)

lemma foldl_or_zero:
  fixes d :: "8 word"
  shows "foldl (\<lambda>difference (l, r). difference OR (l XOR r)) d ps = 0 \<longleftrightarrow> d = 0 \<and> (\<forall>(l, r) \<in> set ps. l = r)"
  by (induction ps arbitrary: d) (auto simp: or_eq_0_iff xor_zero_iff)

lemma constant_time_eq_iff: "constant_time_eq left right \<longleftrightarrow> left = right"
proof -
  have "(\<forall>(l, r) \<in> set (zip left right). l = r) \<longleftrightarrow> left = right" if "length left = length right"
    using that by (induction left right rule: list_induct2) auto
  then show ?thesis by (auto simp: constant_time_eq_def foldl_or_zero)
qed

text \<open>
  Comparison of secrets is exact: the constant-time comparison, which folds the differences of all
  byte pairs instead of stopping at the first, accepts exactly equal byte strings; and the hexadecimal
  rendering of a digest is twice as long, lower-case, and different for different digests.
\<close>
theorem constant_time_eq_and_hex_exact:
  "(constant_time_eq left right \<longleftrightarrow> left = right)
   \<and> length (hex bs) = 2 * length bs \<and> list_all is_lower_hex (hex bs)
   \<and> (hex bs = hex cs \<longleftrightarrow> bs = cs)"
  by (simp add: constant_time_eq_iff hex_lower hex_inj)

section \<open>Paths\<close>

text \<open>\<open>PathBuf::join\<close>, \<open>Path::parent\<close>, \<open>Path::with_extension\<close> and \<open>Path::extension\<close> on the paths of
  regular files.\<close>

definition path_join :: "string \<Rightarrow> string \<Rightarrow> string" where
  "path_join a b =
     (if starts_with ''/'' b then b
      else if a = [] \<or> last a = CHR ''/'' then a @ b else a @ ''/'' @ b)"

definition path_parent :: "string \<Rightarrow> string" where
  "path_parent p = (case rfind (CHR ''/'') p of None \<Rightarrow> [] | Some 0 \<Rightarrow> ''/'' | Some i \<Rightarrow> take i p)"

definition path_dir_prefix :: "string \<Rightarrow> string" where
  "path_dir_prefix p = (case rfind (CHR ''/'') p of None \<Rightarrow> [] | Some i \<Rightarrow> take (Suc i) p)"

definition path_file_name :: "string \<Rightarrow> string" where
  "path_file_name p = drop (length (path_dir_prefix p)) p"

definition file_stem :: "string \<Rightarrow> string" where
  "file_stem n = (case rfind (CHR ''.'') n of None \<Rightarrow> n | Some 0 \<Rightarrow> n | Some i \<Rightarrow> take i n)"

definition path_extension :: "string \<Rightarrow> string option" where
  "path_extension p =
     (let n = path_file_name p in
      case rfind (CHR ''.'') n of None \<Rightarrow> None | Some 0 \<Rightarrow> None | Some i \<Rightarrow> Some (drop (Suc i) n))"

definition with_extension :: "string \<Rightarrow> string \<Rightarrow> string" where
  "with_extension p e = path_dir_prefix p @ file_stem (path_file_name p) @ ''.'' @ e"

definition expand_home :: "string \<Rightarrow> string \<Rightarrow> string" where
  "expand_home home path =
     (if path = ''~'' then home
      else case strip_prefix ''~/'' path of
             Some rest \<Rightarrow> path_join home rest
           | None \<Rightarrow> (case strip_prefix [CHR ''~'', CHR 0x5C] path of
                       Some rest \<Rightarrow> path_join home rest
                     | None \<Rightarrow> path))"

lemma path_dir_prefix_cases:
  obtains "path_dir_prefix p = []" "CHR ''/'' \<notin> set p"
  | d where "path_dir_prefix p = d @ ''/''"
proof (cases "rfind (CHR ''/'') p")
  case None
  then have "path_dir_prefix p = []" "CHR ''/'' \<notin> set p"
    by (simp_all add: path_dir_prefix_def rfind_eq_None)
  then show ?thesis by (rule that(1))
next
  case (Some i)
  then have "path_dir_prefix p = take i p @ ''/''"
    by (auto simp: path_dir_prefix_def take_Suc_conv_app_nth dest: rfind_SomeD)
  then show ?thesis by (rule that(2))
qed

lemma path_dir_prefix_append:
  assumes "CHR ''/'' \<notin> set n"
  shows "path_dir_prefix (path_dir_prefix p @ n) = path_dir_prefix p"
proof (cases p rule: path_dir_prefix_cases)
  case 1
  from assms have "rfind (CHR ''/'') n = None" by simp
  with 1 show ?thesis by (simp add: path_dir_prefix_def)
next
  case (2 d)
  with assms have "rfind (CHR ''/'') (d @ CHR ''/'' # n) = Some (length d)" by (simp add: rfind_append)
  then have "path_dir_prefix (d @ CHR ''/'' # n) = d @ ''/''" by (simp add: path_dir_prefix_def)
  with 2 show ?thesis by simp
qed

lemma path_split: "path_dir_prefix p @ path_file_name p = p"
  by (cases "rfind (CHR ''/'') p") (auto simp: path_dir_prefix_def path_file_name_def dest: rfind_SomeD)

lemma path_file_name_no_slash: "CHR ''/'' \<notin> set (path_file_name p)"
proof (cases "rfind (CHR ''/'') p")
  case (Some i)
  then have "i < length p \<and> CHR ''/'' \<notin> set (drop (Suc i) p)" using rfind_SomeD by blast
  with Some show ?thesis by (simp add: path_file_name_def path_dir_prefix_def)
next
  case None
  then have "path_file_name p = p" by (simp add: path_file_name_def path_dir_prefix_def)
  moreover from None have "CHR ''/'' \<notin> set p" by (simp add: rfind_eq_None)
  ultimately show ?thesis by simp
qed

lemma path_file_name_append: "CHR ''/'' \<notin> set n \<Longrightarrow> path_file_name (path_dir_prefix p @ n) = n"
  by (simp add: path_file_name_def path_dir_prefix_append)

lemma set_file_stem: "set (file_stem n) \<subseteq> set n"
  by (auto simp: file_stem_def split: option.splits nat.splits dest: in_set_takeD)

lemma show_nat_no: "\<not> is_ascii_digit c \<Longrightarrow> c \<notin> set (show_nat n)"
  using show_nat_digits[of n] by (auto simp: list_all_iff)

lemma file_stem_nonempty: "n \<noteq> [] \<Longrightarrow> file_stem n \<noteq> []"
  by (auto simp: file_stem_def split: option.splits nat.splits)

text \<open>A path with an extension that has no dot and no slash in it.\<close>

lemma path_extension_with_tail:
  assumes "CHR ''.'' \<notin> set e" "CHR ''/'' \<notin> set e" "CHR ''/'' \<notin> set m" "m \<noteq> []"
  shows "path_extension (path_dir_prefix p @ m @ ''.'' @ e) = Some e"
proof -
  have "path_file_name (path_dir_prefix p @ (m @ ''.'' @ e)) = m @ ''.'' @ e"
    by (rule path_file_name_append) (use assms in auto)
  moreover have "rfind (CHR ''.'') (m @ CHR ''.'' # e) = Some (length m)"
    using assms(1) by (rule rfind_append)
  ultimately show ?thesis using assms(4) by (simp add: path_extension_def Let_def split: nat.splits)
qed

lemma path_extension_none:
  assumes "CHR ''/'' \<notin> set n" "CHR ''.'' \<notin> set n"
  shows "path_extension (path_dir_prefix p @ n) = None"
proof -
  have "rfind (CHR ''.'') n = None" using assms(2) by simp
  then show ?thesis by (simp add: path_extension_def path_file_name_append[OF assms(1)])
qed

section \<open>The file system\<close>

datatype fs_op = OpRead | OpReadDir | OpCreateDir | OpWrite | OpRemove | OpRename

text \<open>\<open>fs_torn\<close>: how many bytes a write that fails has put into the file, \<open>None\<close> when it did not open it.\<close>

record fs =
  fs_files :: "(string \<times> bytes) list"
  fs_faults :: "fs_op \<Rightarrow> string \<Rightarrow> string option"
  fs_torn :: "string \<Rightarrow> nat option"

datatype io_error = IoNotFound | IoOther string

fun io_text :: "io_error \<Rightarrow> string" where
  "io_text IoNotFound = ''No such file or directory (os error 2)''"
| "io_text (IoOther m) = m"

definition fs_get :: "fs \<Rightarrow> string \<Rightarrow> bytes option" where
  "fs_get s p = map_of (fs_files s) p"

definition fs_exists :: "fs \<Rightarrow> string \<Rightarrow> bool" where
  "fs_exists s p = (fs_get s p \<noteq> None)"

definition fs_read :: "fs \<Rightarrow> string \<Rightarrow> io_error + bytes" where
  "fs_read s p =
     (case fs_faults s OpRead p of
        Some m \<Rightarrow> Inl (IoOther m)
      | None \<Rightarrow> ok_or IoNotFound (fs_get s p))"

definition fs_put :: "string \<Rightarrow> bytes \<Rightarrow> fs \<Rightarrow> fs" where
  "fs_put p b s = s\<lparr>fs_files := AList.update p b (fs_files s)\<rparr>"

definition fs_del :: "string \<Rightarrow> fs \<Rightarrow> fs" where
  "fs_del p s = s\<lparr>fs_files := AList.delete p (fs_files s)\<rparr>"

definition fs_remove :: "fs \<Rightarrow> string \<Rightarrow> io_error + fs" where
  "fs_remove s p =
     (case fs_faults s OpRemove p of
        Some m \<Rightarrow> Inl (IoOther m)
      | None \<Rightarrow> (if fs_exists s p then Inr (fs_del p s) else Inl IoNotFound))"

lemma fs_get_put [simp]: "fs_get (fs_put p b s) q = (if q = p then Some b else fs_get s q)"
  by (simp add: fs_get_def fs_put_def update_conv')

lemma fs_get_del [simp]: "fs_get (fs_del p s) q = (if q = p then None else fs_get s q)"
  by (simp add: fs_get_def fs_del_def delete_conv')

lemma fs_faults_put [simp]: "fs_faults (fs_put p b s) = fs_faults s"
  by (simp add: fs_put_def)

lemma fs_faults_del [simp]: "fs_faults (fs_del p s) = fs_faults s"
  by (simp add: fs_del_def)

lemma fs_read_Inr [simp]: "fs_read s p = Inr b \<longleftrightarrow> fs_faults s OpRead p = None \<and> fs_get s p = Some b"
  by (cases "fs_faults s OpRead p") (auto simp: fs_read_def)

lemma fs_read_NotFound: "fs_read s p = Inl IoNotFound \<longleftrightarrow> fs_faults s OpRead p = None \<and> fs_get s p = None"
  by (cases "fs_faults s OpRead p") (auto simp: fs_read_def)

section \<open>atomic_write as its system calls\<close>

datatype fs_step =
    CreateDirAll string
  | WriteFile string bytes
  | RemoveIfExists string
  | RenameFile string string

definition fs_tear :: "string \<Rightarrow> bytes \<Rightarrow> fs \<Rightarrow> fs" where
  "fs_tear p b s = (case fs_torn s p of None \<Rightarrow> s | Some n \<Rightarrow> fs_put p (take n b) s)"

fun fs_run_step :: "fs_step \<Rightarrow> fs \<Rightarrow> fs \<times> unit live_result" where
  "fs_run_step (CreateDirAll d) s =
     (case fs_faults s OpCreateDir d of Some m \<Rightarrow> (s, Inl (error_io d m)) | None \<Rightarrow> (s, Inr ()))"
| "fs_run_step (WriteFile p b) s =
     (case fs_faults s OpWrite p of Some m \<Rightarrow> (fs_tear p b s, Inl (error_io p m)) | None \<Rightarrow> (fs_put p b s, Inr ()))"
| "fs_run_step (RemoveIfExists p) s =
     (if fs_exists s p then
        (case fs_remove s p of Inl e \<Rightarrow> (s, Inl (error_io p (io_text e))) | Inr t \<Rightarrow> (t, Inr ()))
      else (s, Inr ()))"
| "fs_run_step (RenameFile a p) s =
     (case fs_faults s OpRename p of
        Some m \<Rightarrow> (s, Inl (error_io p m))
      | None \<Rightarrow> (case fs_get s a of
                   None \<Rightarrow> (s, Inl (error_io p (io_text IoNotFound)))
                 | Some b \<Rightarrow> (fs_put p b (fs_del a s), Inr ())))"

text \<open>The calls are made in order until one fails; the file system keeps what they did.\<close>

fun fs_run :: "fs_step list \<Rightarrow> fs \<Rightarrow> fs \<times> unit live_result" where
  "fs_run [] s = (s, Inr ())"
| "fs_run (x # xs) s = (case fs_run_step x s of (t, Inl e) \<Rightarrow> (t, Inl e) | (t, Inr _) \<Rightarrow> fs_run xs t)"

definition temp_path :: "nat \<Rightarrow> string \<Rightarrow> string" where
  "temp_path pid path = with_extension path (''tmp.'' @ show_nat pid)"

text \<open>The extension of the temporary file is the process id, so it is never a stored file.\<close>

lemma path_extension_temp: "path_extension (temp_path pid p) = Some (show_nat pid)"
proof -
  let ?m = "file_stem (path_file_name p) @ ''.tmp''"
  have e: "CHR ''.'' \<notin> set (show_nat pid)" "CHR ''/'' \<notin> set (show_nat pid)"
    by (simp_all add: show_nat_no byte_class_defs)
  have m: "CHR ''/'' \<notin> set ?m"
    using set_file_stem[of "path_file_name p"] path_file_name_no_slash[of p] by auto
  from path_extension_with_tail[OF e m, of p]
  show ?thesis by (simp add: temp_path_def with_extension_def)
qed

lemma temp_path_neq [simp]: "temp_path pid p \<noteq> p" "p \<noteq> temp_path pid p"
proof -
  show "temp_path pid p \<noteq> p"
  proof
    let ?n = "path_file_name p"
    assume eq: "temp_path pid p = p"
    then have "path_dir_prefix p @ file_stem ?n @ ''.tmp.'' @ show_nat pid = path_dir_prefix p @ ?n"
      by (simp add: temp_path_def with_extension_def path_split)
    then have n: "?n = file_stem ?n @ ''.tmp.'' @ show_nat pid" by simp
    then have r: "rfind (CHR ''.'') ?n = Some (length (file_stem ?n) + 4)"
      using rfind_append[of "CHR ''.''" "show_nat pid" "file_stem ?n @ ''.tmp''"]
      by (simp add: show_nat_no byte_class_defs)
    then have "file_stem ?n = take (length (file_stem ?n) + 4) ?n"
      by (subst file_stem_def) (simp add: numeral_eq_Suc split: nat.splits)
    moreover have "length ?n > length (file_stem ?n) + 4" using r rfind_SomeD by fastforce
    ultimately have "length (file_stem ?n) = length (file_stem ?n) + 4" by (metis length_take min.absorb4)
    then show False by simp
  qed
  then show "p \<noteq> temp_path pid p" by metis
qed

definition atomic_write_steps :: "nat \<Rightarrow> string \<Rightarrow> bytes \<Rightarrow> fs_step list" where
  "atomic_write_steps pid path b =
     [CreateDirAll (path_parent path), WriteFile (temp_path pid path) b, RemoveIfExists path,
      RenameFile (temp_path pid path) path]"

definition atomic_write :: "nat \<Rightarrow> string \<Rightarrow> bytes \<Rightarrow> fs \<Rightarrow> fs \<times> unit live_result" where
  "atomic_write pid path b s = fs_run (atomic_write_steps pid path b) s"

lemma fs_tear_simps [simp]: "fs_faults (fs_tear p b s) = fs_faults s" "q \<noteq> p \<Longrightarrow> fs_get (fs_tear p b s) q = fs_get s q"
  by (simp_all add: fs_tear_def split: option.splits)

lemma fs_run_step_faults: "fs_run_step x s = (t, r) \<Longrightarrow> fs_faults t = fs_faults s"
  by (cases x) (auto simp: fs_remove_def split: option.splits if_splits sum.splits)

lemma fs_run_faults [simp]: "fs_faults (fst (fs_run xs s)) = fs_faults s"
proof (induction xs arbitrary: s)
  case (Cons x xs)
  then show ?case by (cases "fs_run_step x s") (auto dest: fs_run_step_faults split: sum.splits)
qed simp

lemma atomic_write_faults [simp]: "fs_faults (fst (atomic_write pid path b s)) = fs_faults s"
  by (simp add: atomic_write_def)

lemma fs_run_step_distinct:
  "fs_run_step x s = (t, r) \<Longrightarrow> distinct (map fst (fs_files s)) \<Longrightarrow> distinct (map fst (fs_files t))"
  by (cases x)
    (auto simp: fs_remove_def fs_put_def fs_del_def fs_tear_def distinct_update distinct_delete
      split: option.splits if_splits sum.splits)

lemma fs_run_distinct:
  "distinct (map fst (fs_files s)) \<Longrightarrow> distinct (map fst (fs_files (fst (fs_run xs s))))"
proof (induction xs arbitrary: s)
  case (Cons x xs)
  then show ?case by (cases "fs_run_step x s") (auto dest: fs_run_step_distinct split: sum.splits)
qed simp

lemmas atomic_write_defs = atomic_write_def atomic_write_steps_def fs_remove_def
lemmas atomic_write_splits = option.splits sum.splits if_splits prod.splits

text \<open>Success: the file holds exactly the new bytes, the temporary file is gone, nothing else moved.\<close>

lemma atomic_write_ok:
  assumes "atomic_write pid path b s = (t, Inr ())"
  shows "fs_get t p = (if p = path then Some b else if p = temp_path pid path then None else fs_get s p)"
  using assms temp_path_neq(1)[of pid path] by (auto simp: atomic_write_defs split: atomic_write_splits)

text \<open>Without faults on its calls, it succeeds.\<close>

lemma atomic_write_succeeds:
  assumes "fs_faults s OpCreateDir (path_parent path) = None" "fs_faults s OpWrite (temp_path pid path) = None"
    and "fs_faults s OpRemove path = None" "fs_faults s OpRename path = None"
  shows "snd (atomic_write pid path b s) = Inr ()"
  using assms temp_path_neq(1)[of pid path]
  by (auto simp: atomic_write_defs fs_exists_def split: atomic_write_splits)

text \<open>Failure: the file holds its old bytes, or a rename failed after the file was removed and its new bytes are
  in the temporary file; files other than it and the temporary are untouched, and the error is an I/O error.\<close>

lemma atomic_write_fail:
  assumes "atomic_write pid path b s = (t, Inl e)"
  shows "fs_get t path = fs_get s path
      \<or> fs_get t path = None \<and> fs_get t (temp_path pid path) = Some b \<and> (\<exists>m. fs_faults s OpRename path = Some m \<and> e = error_io path m)"
    and "p \<noteq> path \<Longrightarrow> p \<noteq> temp_path pid path \<Longrightarrow> fs_get t p = fs_get s p"
    and "\<exists>m. e = Io m"
  using assms temp_path_neq(1)[of pid path]
  by (auto simp: atomic_write_defs error_io_def split: atomic_write_splits)

lemma atomic_write_fails:
  assumes "fs_faults s OpCreateDir (path_parent path) \<noteq> None \<or> fs_faults s OpWrite (temp_path pid path) \<noteq> None
      \<or> fs_exists s path \<and> fs_faults s OpRemove path \<noteq> None \<or> fs_faults s OpRename path \<noteq> None"
  shows "\<not> is_ok (snd (atomic_write pid path b s))"
  using assms temp_path_neq(1)[of pid path]
  by (auto simp: atomic_write_defs fs_exists_def is_ok_def split: atomic_write_splits)

lemma atomic_write_crash:
  assumes "fs_get s path = Some old"
  shows "fs_get (fst (fs_run (take k (atomic_write_steps pid path b)) s)) path \<in> {Some old, Some b, None}"
proof -
  consider "k = 0" | "k = 1" | "k = 2" | "k = 3" | "k \<ge> 4" by linarith
  then show ?thesis
    using assms temp_path_neq(1)[of pid path]
    by cases (auto simp: atomic_write_steps_def numeral_eq_Suc fs_remove_def fs_exists_def split: atomic_write_splits)
qed

lemma atomic_write_frame:
  "p \<noteq> path \<Longrightarrow> p \<noteq> temp_path pid path \<Longrightarrow> fs_get (fst (atomic_write pid path b s)) p = fs_get s p"
  by (auto simp: atomic_write_defs split: atomic_write_splits)

text \<open>A rename that fails over an existing file.\<close>

lemma atomic_write_lost:
  assumes "fs_get s path = Some old" "fs_faults s OpCreateDir (path_parent path) = None" "fs_faults s OpWrite (temp_path pid path) = None"
    "fs_faults s OpRemove path = None" "fs_faults s OpRename path = Some m"
  shows "snd (atomic_write pid path b s) = Inl (error_io path m) \<and> fs_get (fst (atomic_write pid path b s)) path = None
     \<and> fs_get (fst (atomic_write pid path b s)) (temp_path pid path) = Some b"
  using assms temp_path_neq(1)[of pid path] by (auto simp: atomic_write_defs fs_exists_def split: atomic_write_splits)

text \<open>
  C40 What a whole-file write promises over an existing file, whatever calls fail. It succeeds exactly when none of
  its four calls is refused; then the path holds exactly the new bytes, the temporary file is gone and every other
  file is unchanged. When it fails the error is an I/O error, only the temporary file may be left over, and the path
  holds its old bytes, or nothing when the rename failed: the new bytes are then in the temporary file and nowhere
  else, and such a failure does lose the file, because the old one is removed before the rename. A crash after any
  number of the calls leaves the old bytes, the new bytes, or nothing at the path; without refusals the crash after
  the third call leaves nothing.
\<close>
theorem atomic_write_outcomes:
  assumes old: "fs_get s path = Some old"
  shows "(case atomic_write pid path b s of
            (t, Inr _) \<Rightarrow> fs_get t path = Some b \<and> fs_get t (temp_path pid path) = None
              \<and> (\<forall>p. p \<noteq> path \<longrightarrow> p \<noteq> temp_path pid path \<longrightarrow> fs_get t p = fs_get s p)
          | (t, Inl e) \<Rightarrow> (\<exists>m. e = Io m)
              \<and> (fs_get t path = Some old
                 \<or> fs_get t path = None \<and> fs_get t (temp_path pid path) = Some b
                   \<and> (\<exists>m. fs_faults s OpRename path = Some m \<and> e = error_io path m))
              \<and> (\<forall>p. p \<noteq> path \<longrightarrow> p \<noteq> temp_path pid path \<longrightarrow> fs_get t p = fs_get s p))
       \<and> (is_ok (snd (atomic_write pid path b s)) \<longleftrightarrow>
            fs_faults s OpCreateDir (path_parent path) = None \<and> fs_faults s OpWrite (temp_path pid path) = None
            \<and> fs_faults s OpRemove path = None \<and> fs_faults s OpRename path = None)
       \<and> (\<forall>m. fs_faults s OpCreateDir (path_parent path) = None \<and> fs_faults s OpWrite (temp_path pid path) = None
            \<and> fs_faults s OpRemove path = None \<and> fs_faults s OpRename path = Some m \<longrightarrow>
            snd (atomic_write pid path b s) = Inl (error_io path m) \<and> fs_get (fst (atomic_write pid path b s)) path = None)
       \<and> fs_get (fst (fs_run (take k (atomic_write_steps pid path b)) s)) path \<in> {Some old, Some b, None}
       \<and> ((\<forall>c p. fs_faults s c p = None) \<longrightarrow> fs_get (fst (fs_run (take 3 (atomic_write_steps pid path b)) s)) path = None)"
proof (intro conjI allI impI)
  show "case atomic_write pid path b s of
            (t, Inr _) \<Rightarrow> fs_get t path = Some b \<and> fs_get t (temp_path pid path) = None
              \<and> (\<forall>p. p \<noteq> path \<longrightarrow> p \<noteq> temp_path pid path \<longrightarrow> fs_get t p = fs_get s p)
          | (t, Inl e) \<Rightarrow> (\<exists>m. e = Io m)
              \<and> (fs_get t path = Some old
                 \<or> fs_get t path = None \<and> fs_get t (temp_path pid path) = Some b
                   \<and> (\<exists>m. fs_faults s OpRename path = Some m \<and> e = error_io path m))
              \<and> (\<forall>p. p \<noteq> path \<longrightarrow> p \<noteq> temp_path pid path \<longrightarrow> fs_get t p = fs_get s p)"
    using atomic_write_fail [of pid path b s] atomic_write_ok [of pid path b s] old by (auto split: prod.splits sum.splits)
  show "is_ok (snd (atomic_write pid path b s)) \<longleftrightarrow>
            fs_faults s OpCreateDir (path_parent path) = None \<and> fs_faults s OpWrite (temp_path pid path) = None
            \<and> fs_faults s OpRemove path = None \<and> fs_faults s OpRename path = None"
  proof -
    have "fs_exists s path" using old by (simp add: fs_exists_def)
    then show ?thesis using atomic_write_fails [of s path pid b] atomic_write_succeeds [of s path pid b] by (metis is_ok_simps(1))
  qed
  show "fs_get (fst (fs_run (take k (atomic_write_steps pid path b)) s)) path \<in> {Some old, Some b, None}"
    by (rule atomic_write_crash[OF old])
qed (use old atomic_write_lost [OF old] in \<open>simp_all add: atomic_write_steps_def numeral_eq_Suc fs_remove_def fs_exists_def\<close>)

text \<open>A write that succeeds, and one whose rename fails, over the same file.\<close>

theorem atomic_write_outcomes_witness:
  "let s = \<lparr>fs_files = [(''d/a.json'', [1])], fs_faults = \<lambda>_ _. None, fs_torn = \<lambda>_. None\<rparr>;
       t = s\<lparr>fs_faults := \<lambda>c _. if c = OpRename then Some ''busy'' else None\<rparr> in
   is_ok (snd (atomic_write 7 ''d/a.json'' [2] s))
   \<and> fs_get (fst (fs_run (take 3 (atomic_write_steps 7 ''d/a.json'' [2])) s)) ''d/a.json'' = None
   \<and> fs_get (fst (atomic_write 7 ''d/a.json'' [2] t)) ''d/a.json'' = None"
  using atomic_write_outcomes [of "\<lparr>fs_files = [(''d/a.json'', [1])], fs_faults = \<lambda>_ _. None, fs_torn = \<lambda>_. None\<rparr>" "''d/a.json''" "[1]" 7 "[2]"]
    atomic_write_outcomes [of "\<lparr>fs_files = [(''d/a.json'', [1])], fs_faults = \<lambda>c _. if c = OpRename then Some ''busy'' else None, fs_torn = \<lambda>_. None\<rparr>"
      "''d/a.json''" "[1]" 7 "[2]"]
  by (simp add: fs_get_def Let_def)

end
