(* ===== verification/Object_Query.thy ===== *)
theory Object_Query
  imports Errors
begin

text \<open>
  The object records and the search query of \<open>src/protocol.rs\<close>: \<open>ObjectMetadata\<close>, \<open>ObjectQuery\<close> with
  its page size and its filter, \<open>ObjectPage\<close> and \<open>ObjectContent\<close>.
\<close>

section \<open>Records\<close>

record object_metadata =
  md_id :: string
  md_kind :: string
  md_media_type :: string
  md_filename :: "string option"
  md_size :: nat
  md_created :: nat

record object_query =
  q_kind :: "string option"
  q_media_type :: "string option"
  q_filename_contains :: "string option"
  q_min_size :: "nat option"
  q_max_size :: "nat option"
  q_created_after :: "nat option"
  q_created_before :: "nat option"
  q_limit :: nat
  q_cursor :: "string option"

record object_page =
  page_objects :: "object_metadata list"
  page_next_cursor :: "string option"
  page_truncated :: bool

record object_content =
  content_metadata :: object_metadata
  content_bytes :: bytes

definition default_query :: object_query where
  "default_query = \<lparr>q_kind = None, q_media_type = None, q_filename_contains = None,
     q_min_size = None, q_max_size = None, q_created_after = None, q_created_before = None,
     q_limit = 0, q_cursor = None\<rparr>"

section \<open>Operations\<close>

abbreviation default_limit :: nat where
  "default_limit \<equiv> 100"

abbreviation max_limit :: nat where
  "max_limit \<equiv> 1000"

definition effective_limit :: "object_query \<Rightarrow> nat" where
  "effective_limit q = (let requested = (if q_limit q = 0 then default_limit else q_limit q) in min requested max_limit)"

definition matches :: "object_query \<Rightarrow> object_metadata \<Rightarrow> bool" where
  "matches q m =
     (if (case q_kind q of Some k \<Rightarrow> k \<noteq> md_kind m | None \<Rightarrow> False) then False
      else if (case q_media_type q of Some t \<Rightarrow> t \<noteq> md_media_type m | None \<Rightarrow> False) then False
      else if (case q_filename_contains q of
                 Some needle \<Rightarrow> (case md_filename m of Some name \<Rightarrow> \<not> contains_str needle name | None \<Rightarrow> True)
               | None \<Rightarrow> False) then False
      else if (case q_min_size q of Some lo \<Rightarrow> md_size m < lo | None \<Rightarrow> False) then False
      else if (case q_max_size q of Some hi \<Rightarrow> md_size m > hi | None \<Rightarrow> False) then False
      else if (case q_created_after q of Some t \<Rightarrow> md_created m \<le> t | None \<Rightarrow> False) then False
      else if (case q_created_before q of Some t \<Rightarrow> md_created m \<ge> t | None \<Rightarrow> False) then False
      else True)"

section \<open>Facts\<close>

lemma effective_limit_pos [simp]: "0 < effective_limit q"
  by (simp add: effective_limit_def Let_def)

lemma effective_limit_nonzero [simp]: "effective_limit q \<noteq> 0"
  using effective_limit_pos[of q] by linarith

lemma effective_limit_le: "effective_limit q \<le> max_limit"
  by (simp add: effective_limit_def Let_def)

lemma effective_limit_cursor [simp]: "effective_limit (q\<lparr>q_cursor := c\<rparr>) = effective_limit q"
  by (simp add: effective_limit_def)

lemma matches_cursor [simp]: "matches (q\<lparr>q_cursor := c\<rparr>) m = matches q m"
  by (simp add: matches_def)

text \<open>The filter as the conjunction of its independent constraints.\<close>

lemma matches_conj:
  "matches q m \<longleftrightarrow>
     (\<forall>k. q_kind q = Some k \<longrightarrow> md_kind m = k)
     \<and> (\<forall>t. q_media_type q = Some t \<longrightarrow> md_media_type m = t)
     \<and> (\<forall>n. q_filename_contains q = Some n \<longrightarrow> (\<exists>f. md_filename m = Some f \<and> sublist n f))
     \<and> (\<forall>lo. q_min_size q = Some lo \<longrightarrow> lo \<le> md_size m)
     \<and> (\<forall>hi. q_max_size q = Some hi \<longrightarrow> md_size m \<le> hi)
     \<and> (\<forall>t. q_created_after q = Some t \<longrightarrow> t < md_created m)
     \<and> (\<forall>t. q_created_before q = Some t \<longrightarrow> md_created m < t)"
  by (auto simp: matches_def contains_str_sublist split: option.splits)

end
