(* ===== verification/Host.thy ===== *)
theory Host
  imports Util_Fs Object_Query
begin

text \<open>
  The functions the object store calls that are not part of the repository, gathered in one record:
  the BLAKE3 hash with its hexadecimal rendering (crate \<open>blake3\<close>), the JSON form of a metadata record
  (crate \<open>serde_json\<close> with derived codecs) and the process id. \<open>host_ok\<close> states what the store relies
  on. The sample host at the end is a concrete instance on which the hypotheses hold and evaluate.
\<close>

record host =
  blake3_hex :: "bytes \<Rightarrow> string"
  meta_encode :: "object_metadata \<Rightarrow> bytes"
  meta_decode :: "bytes \<Rightarrow> string + object_metadata"
  host_pid :: nat

definition host_ok :: "host \<Rightarrow> bool" where
  "host_ok h \<longleftrightarrow> (\<forall>b. length (blake3_hex h b) = 64 \<and> list_all is_lower_hex (blake3_hex h b))
     \<and> (\<forall>m. meta_decode h (meta_encode h m) = Inr m)"

section \<open>A sample host\<close>

definition sample_hash :: "bytes \<Rightarrow> string" where
  "sample_hash b = hex (take 32 (b @ replicate 32 0))"

definition enc_str :: "string \<Rightarrow> bytes" where
  "enc_str s = concat (map (\<lambda>c. [1, of_nat (byte_of c)]) s) @ [0]"

fun dec_str :: "bytes \<Rightarrow> (string \<times> bytes) option" where
  "dec_str [] = None"
| "dec_str [t] = (if t = 0 then Some ([], []) else None)"
| "dec_str (t # b # r) =
     (if t = 0 then Some ([], b # r)
      else map_option (\<lambda>(s, r'). (char_of (unat b) # s, r')) (dec_str r))"

definition sample_encode :: "object_metadata \<Rightarrow> bytes" where
  "sample_encode m =
     enc_str (md_id m) @ enc_str (md_kind m) @ enc_str (md_media_type m)
     @ (case md_filename m of None \<Rightarrow> enc_str ''0'' @ enc_str [] | Some f \<Rightarrow> enc_str ''1'' @ enc_str f)
     @ enc_str (show_nat (md_size m)) @ enc_str (show_nat (md_created m))"

fun dec_strs :: "nat \<Rightarrow> bytes \<Rightarrow> string list option" where
  "dec_strs 0 b = (if b = [] then Some [] else None)"
| "dec_strs (Suc n) b =
     (case dec_str b of None \<Rightarrow> None | Some (s, r) \<Rightarrow> map_option (\<lambda>ss. s # ss) (dec_strs n r))"

definition sample_decode :: "bytes \<Rightarrow> string + object_metadata" where
  "sample_decode b =
     (case dec_strs 7 b of
        Some [i, k, t, tag, f, n, c] \<Rightarrow>
          Inr \<lparr>md_id = i, md_kind = k, md_media_type = t,
               md_filename = (if tag = ''1'' then Some f else None),
               md_size = digits_val n, md_created = digits_val c\<rparr>
      | _ \<Rightarrow> Inl ''malformed record'')"

definition sample_host :: host where
  "sample_host = \<lparr>blake3_hex = sample_hash, meta_encode = sample_encode, meta_decode = sample_decode, host_pid = 7\<rparr>"

lemma char_byte: "char_of (unat (of_nat (byte_of c) :: 8 word)) = c"
proof -
  have "byte_of c < 256" by (simp add: byte_of_def)
  then have "unat (of_nat (byte_of c) :: 8 word) = byte_of c"
    by (simp add: unsigned_of_nat take_bit_eq_mod)
  then show ?thesis by (simp add: byte_of_def)
qed

lemma dec_enc_str: "dec_str (enc_str s @ r) = Some (s, r)"
proof (induction s)
  case Nil
  show ?case by (cases r) (auto simp: enc_str_def)
next
  case (Cons c s)
  then show ?case by (simp add: enc_str_def char_byte)
qed

lemma sample_hash_shape: "length (sample_hash b) = 64 \<and> list_all is_lower_hex (sample_hash b)"
  by (simp add: sample_hash_def hex_lower)

lemma sample_codec: "sample_decode (sample_encode m) = Inr m"
  by (cases "md_filename m")
    (simp_all add: sample_decode_def sample_encode_def numeral_eq_Suc dec_enc_str digits_val_show_nat
      dec_enc_str[where r = "[]", simplified])

lemma sample_host_ok: "host_ok sample_host"
  by (simp add: host_ok_def sample_host_def sample_hash_shape sample_codec)

end
