(* ===== verification/Object_Store.thy ===== *)
theory Object_Store
  imports Host "HOL-Library.Product_Lexorder"
begin

text \<open>
  The content-addressed object store of \<open>src/store.rs\<close>. Its state is the directory tree below its
  root, the write lock (poisoned or not), and the host functions of theory \<open>Host\<close>. Every operation of \<open>ObjectStore\<close> is a function on that state; an operation
  that writes returns the new state also when it fails, since what it wrote before the failure stays.
\<close>

section \<open>State\<close>

record object_store =
  os_host :: host
  os_root :: string
  os_fs :: fs
  os_poisoned :: bool

definition kappa_prefix :: string where
  "kappa_prefix = ''blake3:''"

section \<open>Operations\<close>

definition blob_path :: "object_store \<Rightarrow> string \<Rightarrow> string" where
  "blob_path s digest = path_join (path_join (os_root s) ''blobs/blake3'') digest"

definition metadata_path :: "object_store \<Rightarrow> string \<Rightarrow> string" where
  "metadata_path s digest = path_join (path_join (os_root s) ''metadata'') (digest @ ''.json'')"

definition validate_id :: "string \<Rightarrow> string live_result" where
  "validate_id i =
     bindE (ok_or (NotFound (''unsupported object id '' @ debug_str i)) (strip_prefix kappa_prefix i))
       (\<lambda>digest.
          if length digest \<noteq> 64 \<or> \<not> list_all is_ascii_hexdigit digest
          then Inl (NotFound (''malformed object id '' @ debug_str i))
          else Inr digest)"

definition validate_filename :: "string \<Rightarrow> string live_result" where
  "validate_filename raw =
     (let filename = trim raw in
      if filename = [] then Inl (Protocol ''filename cannot be empty'')
      else if length filename > 255 then
        Inl (Protocol ''filename cannot be longer than 255 characters'')
      else if filename = ''.'' \<or> filename = ''..''
           \<or> CHR ''/'' \<in> set filename \<or> CHR 0x5C \<in> set filename \<or> has_control filename then
        Inl (Protocol ''filename cannot contain path separators, control characters, or reserved names'')
      else Inr filename)"

text \<open>\<open>ObjectStore::open\<close>: both directories are created.\<close>

definition store_open :: "host \<Rightarrow> string \<Rightarrow> fs \<Rightarrow> object_store live_result" where
  "store_open h root t =
     (case fs_faults t OpCreateDir (path_join root ''blobs/blake3'') of
        Some m \<Rightarrow> Inl (error_io root m)
      | None \<Rightarrow> (case fs_faults t OpCreateDir (path_join root ''metadata'') of
                   Some m \<Rightarrow> Inl (error_io root m)
                 | None \<Rightarrow> Inr \<lparr>os_host = h, os_root = root, os_fs = t, os_poisoned = False\<rparr>))"

definition read_metadata :: "object_store \<Rightarrow> string \<Rightarrow> object_metadata option" where
  "read_metadata s digest =
     (case fs_read (os_fs s) (metadata_path s digest) of
        Inl _ \<Rightarrow> None
      | Inr b \<Rightarrow> (case meta_decode (os_host s) b of Inl _ \<Rightarrow> None | Inr m \<Rightarrow> Some m))"

text \<open>A write through \<open>atomic_write\<close>; the new file system is kept whether it succeeds or not.\<close>

definition store_write :: "object_store \<Rightarrow> string \<Rightarrow> bytes \<Rightarrow> object_store \<times> unit live_result" where
  "store_write s path b =
     (let (t, r) = atomic_write (host_pid (os_host s)) path b (os_fs s) in (s\<lparr>os_fs := t\<rparr>, r))"

definition lock_poisoned :: live_error where
  "lock_poisoned = Conflict ''object store lock poisoned''"

definition store_put ::
  "object_store \<Rightarrow> string \<Rightarrow> string \<Rightarrow> string option \<Rightarrow> bytes \<Rightarrow> nat \<Rightarrow> object_store \<times> object_metadata live_result"
where
  "store_put s kind media_type filename b now =
     (if os_poisoned s then (s, Inl lock_poisoned)
      else
        let digest = blake3_hex (os_host s) b;
            blob = blob_path s digest;
            (s1, r1) = (if fs_exists (os_fs s) blob then (s, Inr ()) else store_write s blob b)
        in (case r1 of
              Inl e \<Rightarrow> (s1, Inl e)
            | Inr _ \<Rightarrow>
                let created = (case read_metadata s1 digest of Some existing \<Rightarrow> md_created existing | None \<Rightarrow> now);
                    m = \<lparr>md_id = kappa_prefix @ digest, md_kind = kind, md_media_type = media_type,
                          md_filename = filename, md_size = sat64 (length b), md_created = created\<rparr>;
                    (s2, r2) = store_write s1 (metadata_path s digest) (meta_encode (os_host s) m)
                in (case r2 of Inl e \<Rightarrow> (s2, Inl e) | Inr _ \<Rightarrow> (s2, Inr m))))"

text \<open>Reading a file whose absence is \<open>NotFound\<close> and whose other failures are I/O errors.\<close>

definition read_or_missing :: "object_store \<Rightarrow> string \<Rightarrow> string \<Rightarrow> bytes live_result" where
  "read_or_missing s path missing =
     map_err (\<lambda>e. case e of IoNotFound \<Rightarrow> NotFound missing | IoOther m \<Rightarrow> error_io path m)
       (fs_read (os_fs s) path)"

definition store_get :: "object_store \<Rightarrow> string \<Rightarrow> bytes live_result" where
  "store_get s i =
     bindE (validate_id i) (\<lambda>digest.
       read_or_missing s (blob_path s digest) (''object '' @ i @ '' not found''))"

definition store_cache_addressed_bounded ::
  "object_store \<Rightarrow> string \<Rightarrow> bytes \<Rightarrow> nat \<Rightarrow> object_store \<times> bool live_result"
where
  "store_cache_addressed_bounded s i b max_new_bytes =
     (case validate_id i of
        Inl e \<Rightarrow> (s, Inl e)
      | Inr digest \<Rightarrow>
          if blake3_hex (os_host s) b \<noteq> digest then
            (s, Inl (InvalidHolo (''content blob '' @ i @ '' does not match its bytes'')))
          else if os_poisoned s then (s, Inl lock_poisoned)
          else if fs_exists (os_fs s) (blob_path s digest) then (s, Inr False)
          else if sat64 (length b) > max_new_bytes then
            (s, Inl (Capability ''addressed object exceeds the permitted new-byte ceiling''))
          else (let (t, r) = store_write s (blob_path s digest) b
                in (t, bindE r (\<lambda>_. Inr True))))"

definition store_cache_addressed :: "object_store \<Rightarrow> string \<Rightarrow> bytes \<Rightarrow> object_store \<times> unit live_result" where
  "store_cache_addressed s i b =
     (let (t, r) = store_cache_addressed_bounded s i b u64_max in (t, bindE r (\<lambda>_. Inr ())))"

definition store_get_cached :: "object_store \<Rightarrow> string \<Rightarrow> bytes option live_result" where
  "store_get_cached s i =
     bindE (validate_id i) (\<lambda>digest.
       case fs_read (os_fs s) (blob_path s digest) of
         Inr b \<Rightarrow> Inr (Some b)
       | Inl IoNotFound \<Rightarrow> Inr None
       | Inl (IoOther m) \<Rightarrow> Inl (error_io (blob_path s digest) m))"

definition decode_metadata :: "object_store \<Rightarrow> bytes \<Rightarrow> object_metadata live_result" where
  "decode_metadata s b = map_err Protocol (meta_decode (os_host s) b)"

definition store_metadata :: "object_store \<Rightarrow> string \<Rightarrow> object_metadata live_result" where
  "store_metadata s i =
     bindE (validate_id i) (\<lambda>digest.
     bindE (read_or_missing s (metadata_path s digest) (''metadata for '' @ i @ '' not found''))
       (decode_metadata s))"

definition store_rename_file ::
  "object_store \<Rightarrow> string \<Rightarrow> string \<Rightarrow> object_store \<times> object_metadata live_result"
where
  "store_rename_file s i raw =
     (case validate_filename raw of
        Inl e \<Rightarrow> (s, Inl e)
      | Inr filename \<Rightarrow>
          if os_poisoned s then (s, Inl lock_poisoned)
          else (case validate_id i of
                  Inl e \<Rightarrow> (s, Inl e)
                | Inr digest \<Rightarrow>
                    (case bindE (read_or_missing s (metadata_path s digest)
                                   (''metadata for '' @ i @ '' not found'')) (decode_metadata s) of
                       Inl e \<Rightarrow> (s, Inl e)
                     | Inr m \<Rightarrow>
                         if md_kind m \<noteq> ''file'' then (s, Inl (NotFound (''file '' @ i @ '' not found'')))
                         else
                           let m' = m\<lparr>md_filename := Some filename\<rparr>;
                               (t, r) = store_write s (metadata_path s digest) (meta_encode (os_host s) m')
                           in (t, bindE r (\<lambda>_. Inr m')))))"

text \<open>The order of \<open>ObjectStore::list\<close>: newest first, then by id.\<close>

definition newest_first :: "object_metadata list \<Rightarrow> object_metadata list" where
  "newest_first ms = sort_key (\<lambda>m. (- int (md_created m), md_id m)) ms"

text \<open>The entries of a directory, in the order the operating system lists them.\<close>

definition dir_entries :: "fs \<Rightarrow> string \<Rightarrow> string list" where
  "dir_entries t dir = filter (\<lambda>p. path_dir_prefix p = path_join dir []) (map fst (fs_files t))"

definition store_list :: "object_store \<Rightarrow> string option \<Rightarrow> object_metadata list live_result" where
  "store_list s kind =
     (let dir = path_join (os_root s) ''metadata'' in
      case fs_faults (os_fs s) OpReadDir dir of
        Some m \<Rightarrow> Inl (error_io dir m)
      | None \<Rightarrow>
          bindE (mapE (\<lambda>p. bindE (map_err (\<lambda>e. error_io p (io_text e)) (fs_read (os_fs s) p)) (decode_metadata s))
                   (filter (\<lambda>p. path_extension p = Some ''json'') (dir_entries (os_fs s) dir)))
            (\<lambda>all. Inr (newest_first (filter (\<lambda>m. case kind of None \<Rightarrow> True | Some k \<Rightarrow> md_kind m = k) all))))"

definition store_remove_metadata :: "object_store \<Rightarrow> string \<Rightarrow> object_store \<times> unit live_result" where
  "store_remove_metadata s i =
     (case validate_id i of
        Inl e \<Rightarrow> (s, Inl e)
      | Inr digest \<Rightarrow>
          let path = metadata_path s digest in
          if fs_exists (os_fs s) path then
            (case fs_remove (os_fs s) path of
               Inl e \<Rightarrow> (s, Inl (error_io path (io_text e)))
             | Inr t \<Rightarrow> (s\<lparr>os_fs := t\<rparr>, Inr ()))
          else (s, Inr ()))"

definition store_verify :: "object_store \<Rightarrow> string \<Rightarrow> bool live_result" where
  "store_verify s i = bindE (store_get s i) (\<lambda>b. Inr (kappa_prefix @ blake3_hex (os_host s) b = i))"

section \<open>Paths of the store\<close>

definition valid_digest :: "string \<Rightarrow> bool" where
  "valid_digest d \<longleftrightarrow> length d = 64 \<and> list_all is_ascii_hexdigit d"

lemma validate_id_Inr: "validate_id i = Inr d \<longleftrightarrow> i = kappa_prefix @ d \<and> valid_digest d"
  by (auto simp: validate_id_def valid_digest_def bindE_eq_Inr)

lemma validate_id_kappa [simp]: "valid_digest d \<Longrightarrow> validate_id (kappa_prefix @ d) = Inr d"
  by (simp add: validate_id_Inr)

lemma validate_id_Inl: "validate_id i = Inl e \<Longrightarrow> \<exists>m. e = NotFound m"
  by (auto simp: validate_id_def bindE_eq_Inl split: if_splits)

lemma valid_digest_lower: "length d = 64 \<Longrightarrow> list_all is_lower_hex d \<Longrightarrow> valid_digest d"
  by (auto simp: valid_digest_def list_all_iff is_lower_hex_hexdigit)

lemma host_ok_digest: "host_ok h \<Longrightarrow> valid_digest (blake3_hex h b)"
  by (simp add: host_ok_def valid_digest_lower)

lemma valid_digest_chars:
  assumes "valid_digest d"
  shows "CHR ''/'' \<notin> set d" "CHR ''.'' \<notin> set d" "d \<noteq> []"
  using assms by (auto simp: valid_digest_def list_all_iff byte_class_defs)

lemma path_dir_prefix_slash: "path_dir_prefix (b @ ''/'') = b @ ''/''"
  using rfind_append[of "CHR ''/''" "[]" b] by (simp add: path_dir_prefix_def)

lemma path_join_plain:
  "a \<noteq> [] \<Longrightarrow> last a \<noteq> CHR ''/'' \<Longrightarrow> b \<noteq> [] \<Longrightarrow> hd b \<noteq> CHR ''/'' \<Longrightarrow> path_join a b = a @ ''/'' @ b"
  by (cases b) (auto simp: path_join_def starts_with_def)

lemma path_join_last: "b \<noteq> [] \<Longrightarrow> path_join a b \<noteq> [] \<and> last (path_join a b) = last b"
  by (auto simp: path_join_def)

lemma path_join_dir: "b \<noteq> [] \<Longrightarrow> last b \<noteq> CHR ''/'' \<Longrightarrow> path_join (path_join a b) [] = path_join a b @ ''/''"
  using path_join_last[of b a] by (simp add: path_join_def[of _ "[]"] starts_with_def)

lemma digest_first: "valid_digest d \<Longrightarrow> hd (d @ t) \<noteq> CHR ''/'' \<and> d @ t \<noteq> []"
  using valid_digest_chars[of d] by (cases d) auto

lemma blob_path_eq:
  "valid_digest d \<Longrightarrow> blob_path s d = path_dir_prefix (path_join (os_root s) ''blobs/blake3'' @ ''/'') @ d"
  using digest_first[of d "[]"] path_join_last[of "''blobs/blake3''" "os_root s"]
  by (simp add: blob_path_def path_join_plain path_dir_prefix_slash)

lemma metadata_path_eq:
  "valid_digest d \<Longrightarrow>
     metadata_path s d = path_dir_prefix (path_join (os_root s) ''metadata'' @ ''/'') @ d @ ''.'' @ ''json''"
  using digest_first[of d "''.json''"] path_join_last[of "''metadata''" "os_root s"]
  by (simp add: metadata_path_def path_join_plain path_dir_prefix_slash)

lemma blob_path_ext: "valid_digest d \<Longrightarrow> path_extension (blob_path s d) = None"
  by (simp only: blob_path_eq) (rule path_extension_none; simp add: valid_digest_chars)

lemma metadata_path_ext: "valid_digest d \<Longrightarrow> path_extension (metadata_path s d) = Some ''json''"
  by (simp only: metadata_path_eq) (rule path_extension_with_tail; simp add: valid_digest_chars)

lemma blob_path_inj: "valid_digest d \<Longrightarrow> valid_digest e \<Longrightarrow> blob_path s d = blob_path s e \<longleftrightarrow> d = e"
  by (simp add: blob_path_eq)

lemma metadata_path_inj: "valid_digest d \<Longrightarrow> valid_digest e \<Longrightarrow> metadata_path s d = metadata_path s e \<longleftrightarrow> d = e"
  by (simp add: metadata_path_eq)

lemma blob_neq_metadata:
  "valid_digest d \<Longrightarrow> valid_digest e \<Longrightarrow> blob_path s d \<noteq> metadata_path s e \<and> metadata_path s e \<noteq> blob_path s d"
  using blob_path_ext metadata_path_ext by (metis option.distinct(1))

lemma show_nat_neq_json: "show_nat n \<noteq> ''json''"
  using show_nat_digits[of n] by (auto simp: byte_class_defs)

lemma blob_neq_temp: "valid_digest d \<Longrightarrow> blob_path s d \<noteq> temp_path n p"
  using blob_path_ext path_extension_temp by (metis option.distinct(1))

lemma metadata_neq_temp: "valid_digest d \<Longrightarrow> metadata_path s d \<noteq> temp_path n p"
  using metadata_path_ext path_extension_temp show_nat_neq_json by (metis option.inject)

lemmas store_path_simps = blob_path_inj metadata_path_inj blob_neq_metadata blob_neq_temp metadata_neq_temp

section \<open>Abstract view and invariant\<close>

text \<open>The store as a specification sees it: the bytes under a digest, the record under a digest.\<close>

definition stored :: "object_store \<Rightarrow> string \<Rightarrow> bytes option" where
  "stored s d = fs_get (os_fs s) (blob_path s d)"

definition meta_at :: "object_store \<Rightarrow> string \<Rightarrow> bytes option" where
  "meta_at s d = fs_get (os_fs s) (metadata_path s d)"

text \<open>Same host, root and lock: what no operation but poisoning changes.\<close>

definition same_frame :: "object_store \<Rightarrow> object_store \<Rightarrow> bool" where
  "same_frame s t \<longleftrightarrow> os_host t = os_host s \<and> os_root t = os_root s \<and> os_poisoned t = os_poisoned s
     \<and> fs_faults (os_fs t) = fs_faults (os_fs s)"

lemma same_frame_refl [simp]: "same_frame s s"
  by (simp add: same_frame_def)

lemma same_frame_trans: "same_frame s t \<Longrightarrow> same_frame t u \<Longrightarrow> same_frame s u"
  by (simp add: same_frame_def)

lemma same_frame_paths: "same_frame s t \<Longrightarrow> blob_path t = blob_path s \<and> metadata_path t = metadata_path s"
  by (auto simp: same_frame_def blob_path_def metadata_path_def fun_eq_iff)

definition store_ok :: "object_store \<Rightarrow> bool" where
  "store_ok s \<longleftrightarrow> host_ok (os_host s) \<and> distinct (map fst (fs_files (os_fs s)))
     \<and> (\<forall>d b. valid_digest d \<longrightarrow> stored s d = Some b \<longrightarrow> blake3_hex (os_host s) b = d)
     \<and> (\<forall>d c. valid_digest d \<longrightarrow> meta_at s d = Some c \<longrightarrow>
              (\<exists>m. meta_decode (os_host s) c = Inr m \<and> md_id m = kappa_prefix @ d))
     \<and> (\<forall>p. fs_get (os_fs s) p \<noteq> None \<longrightarrow> path_extension p = Some ''json''
              \<longrightarrow> path_dir_prefix p = path_join (os_root s) ''metadata'' @ ''/''
              \<longrightarrow> (\<exists>d. valid_digest d \<and> p = metadata_path s d))"

lemma store_okI:
  assumes "host_ok (os_host s)" "distinct (map fst (fs_files (os_fs s)))"
    and "\<And>d b. valid_digest d \<Longrightarrow> stored s d = Some b \<Longrightarrow> blake3_hex (os_host s) b = d"
    and "\<And>d c. valid_digest d \<Longrightarrow> meta_at s d = Some c \<Longrightarrow>
           \<exists>m. meta_decode (os_host s) c = Inr m \<and> md_id m = kappa_prefix @ d"
    and "\<And>p. fs_get (os_fs s) p \<noteq> None \<Longrightarrow> path_extension p = Some ''json'' \<Longrightarrow>
           path_dir_prefix p = path_join (os_root s) ''metadata'' @ ''/'' \<Longrightarrow>
           \<exists>d. valid_digest d \<and> p = metadata_path s d"
  shows "store_ok s"
  using assms unfolding store_ok_def by blast

lemma store_okD:
  assumes "store_ok s"
  shows "host_ok (os_host s)" "distinct (map fst (fs_files (os_fs s)))"
    and "valid_digest d \<Longrightarrow> stored s d = Some b \<Longrightarrow> blake3_hex (os_host s) b = d"
    and "valid_digest d \<Longrightarrow> meta_at s d = Some c \<Longrightarrow>
           \<exists>m. meta_decode (os_host s) c = Inr m \<and> md_id m = kappa_prefix @ d"
    and "fs_get (os_fs s) p \<noteq> None \<Longrightarrow> path_extension p = Some ''json'' \<Longrightarrow>
           path_dir_prefix p = path_join (os_root s) ''metadata'' @ ''/'' \<Longrightarrow>
           \<exists>d. valid_digest d \<and> p = metadata_path s d"
  using assms unfolding store_ok_def by blast+

section \<open>Writes keep the invariant\<close>

lemma store_write_frame [simp]: "same_frame s (fst (store_write s path b))"
  by (simp add: store_write_def same_frame_def Let_def split: prod.splits)
    (metis atomic_write_faults fst_conv)

lemma store_write_same [simp]:
  "os_host (fst (store_write s path b)) = os_host s"
  "os_root (fst (store_write s path b)) = os_root s"
  "os_poisoned (fst (store_write s path b)) = os_poisoned s"
  "fs_faults (os_fs (fst (store_write s path b))) = fs_faults (os_fs s)"
  "metadata_path (fst (store_write s path b)) = metadata_path s"
  "blob_path (fst (store_write s path b)) = blob_path s"
  using store_write_frame[of s path b] same_frame_paths[OF store_write_frame[of s path b]]
  by (simp_all add: same_frame_def)

lemma store_write_get:
  "p \<noteq> path \<Longrightarrow> p \<noteq> temp_path (host_pid (os_host s)) path \<Longrightarrow>
     fs_get (os_fs (fst (store_write s path b))) p = fs_get (os_fs s) p"
  using atomic_write_frame[of p path "host_pid (os_host s)" b "os_fs s"]
  by (auto simp: store_write_def Let_def split: prod.splits)

lemma store_write_path:
  "is_ok (snd (store_write s path b)) \<Longrightarrow> fs_get (os_fs (fst (store_write s path b))) path = Some b"
  using atomic_write_ok[of "host_pid (os_host s)" path b "os_fs s" _ path]
  by (auto simp: store_write_def Let_def is_ok_def split: prod.splits sum.splits)

lemma store_write_fail_path:
  "\<not> is_ok (snd (store_write s path b)) \<Longrightarrow>
     fs_get (os_fs (fst (store_write s path b))) path \<in> {fs_get (os_fs s) path, None}"
  using atomic_write_fail(1)[of "host_pid (os_host s)" path b "os_fs s"]
  by (auto simp: store_write_def Let_def is_ok_def split: prod.splits sum.splits)

lemma store_write_distinct:
  "distinct (map fst (fs_files (os_fs s))) \<Longrightarrow> distinct (map fst (fs_files (os_fs (fst (store_write s path b)))))"
  using fs_run_distinct[of "os_fs s" "atomic_write_steps (host_pid (os_host s)) path b"]
  by (auto simp: store_write_def atomic_write_def Let_def split: prod.splits)

text \<open>A write replaces at most the one file it names, as far as the store can see.\<close>

lemma store_write_cases:
  "fs_get (os_fs (fst (store_write s path b))) path \<in> {Some b, fs_get (os_fs s) path, None}"
  using store_write_path[of s path b] store_write_fail_path[of s path b]
  by (cases "is_ok (snd (store_write s path b))") auto

lemma store_write_blob_view:
  assumes "valid_digest d" "valid_digest e"
  shows "meta_at (fst (store_write s (blob_path s d) b)) e = meta_at s e"
    and "e \<noteq> d \<Longrightarrow> stored (fst (store_write s (blob_path s d) b)) e = stored s e"
  using assms store_path_simps
  by (simp_all add: meta_at_def stored_def store_write_get)

lemma store_write_meta_view:
  assumes "valid_digest d" "valid_digest e"
  shows "stored (fst (store_write s (metadata_path s d) b)) e = stored s e"
    and "e \<noteq> d \<Longrightarrow> meta_at (fst (store_write s (metadata_path s d) b)) e = meta_at s e"
  using assms store_path_simps
  by (simp_all add: meta_at_def stored_def store_write_get)

lemma store_write_json:
  assumes "path_extension p = Some ''json''" "p \<noteq> path"
  shows "fs_get (os_fs (fst (store_write s path b))) p = fs_get (os_fs s) p"
proof (rule store_write_get[OF assms(2)])
  show "p \<noteq> temp_path (host_pid (os_host s)) path"
    using assms(1) path_extension_temp[of "host_pid (os_host s)" path]
      show_nat_neq_json[of "host_pid (os_host s)"] by auto
qed

lemma store_ok_write_blob:
  assumes ok: "store_ok s" and d: "valid_digest d" and h: "blake3_hex (os_host s) b = d"
  shows "store_ok (fst (store_write s (blob_path s d) b))" (is "store_ok ?t")
proof -
  have fr: "os_host ?t = os_host s" "os_root ?t = os_root s" "metadata_path ?t = metadata_path s"
    by simp_all
  have "stored ?t d \<in> {Some b, stored s d, None}"
    using store_write_cases[of s "blob_path s d" b]
    by (simp add: stored_def)
  then have blobs: "blake3_hex (os_host s) c = e" if "valid_digest e" "stored ?t e = Some c" for e c
    using that d h store_write_blob_view(2)[OF d that(1), of s b] store_okD(3)[OF ok, of e c]
    by (cases "e = d") auto
  have json: "fs_get (os_fs ?t) p = fs_get (os_fs s) p" if "path_extension p = Some ''json''" for p
    using that blob_path_ext[OF d, of s] by (intro store_write_json) auto
  show ?thesis
  proof (rule store_okI, unfold fr)
    show "host_ok (os_host s)" "distinct (map fst (fs_files (os_fs ?t)))"
      using store_okD(1,2)[OF ok] store_write_distinct by auto
    show "\<exists>m. meta_decode (os_host s) c = Inr m \<and> md_id m = kappa_prefix @ e"
      if "valid_digest e" "meta_at ?t e = Some c" for e c
      using store_okD(4)[OF ok that(1)] that store_write_blob_view(1)[OF d that(1)] by simp
    show "\<exists>d. valid_digest d \<and> p = metadata_path s d"
      if "fs_get (os_fs ?t) p \<noteq> None" "path_extension p = Some ''json''"
        "path_dir_prefix p = path_join (os_root s) ''metadata'' @ ''/''" for p
      using store_okD(5)[OF ok] that json by metis
  qed (rule blobs)
qed

lemma store_ok_write_meta:
  assumes ok: "store_ok s" and d: "valid_digest d"
    and m: "meta_decode (os_host s) b = Inr m" "md_id m = kappa_prefix @ d"
  shows "store_ok (fst (store_write s (metadata_path s d) b))" (is "store_ok ?t")
proof -
  have fr: "os_host ?t = os_host s" "os_root ?t = os_root s" "metadata_path ?t = metadata_path s"
    by simp_all
  have "meta_at ?t d \<in> {Some b, meta_at s d, None}"
    using store_write_cases[of s "metadata_path s d" b] fr by (simp add: meta_at_def)
  then have metas: "\<exists>m. meta_decode (os_host s) c = Inr m \<and> md_id m = kappa_prefix @ e"
    if "valid_digest e" "meta_at ?t e = Some c" for e c
    using that d m store_write_meta_view(2)[OF d that(1), of s b] store_okD(4)[OF ok, of e c]
    by (cases "e = d") auto
  have json: "\<exists>d. valid_digest d \<and> p = metadata_path s d"
    if "fs_get (os_fs ?t) p \<noteq> None" "path_extension p = Some ''json''"
      "path_dir_prefix p = path_join (os_root s) ''metadata'' @ ''/''" for p
    using that ok d store_write_json[of p "metadata_path s d" s b]
    by (cases "p = metadata_path s d") (auto dest: store_okD(5))
  show ?thesis
  proof (rule store_okI, unfold fr)
    show "host_ok (os_host s)" "distinct (map fst (fs_files (os_fs ?t)))"
      using store_okD(1,2)[OF ok] store_write_distinct by auto
    show "blake3_hex (os_host s) c = e" if "valid_digest e" "stored ?t e = Some c" for e c
      using store_okD(3)[OF ok that(1)] that store_write_meta_view(1)[OF d that(1)] by simp
  qed (rule metas json; assumption)+
qed

section \<open>put\<close>

text \<open>The two stages of \<open>put\<close>: materialise the blob, then write the record.\<close>

definition put_blob_stage :: "object_store \<Rightarrow> bytes \<Rightarrow> object_store \<times> unit live_result" where
  "put_blob_stage s b =
     (let blob = blob_path s (blake3_hex (os_host s) b) in
      if fs_exists (os_fs s) blob then (s, Inr ()) else store_write s blob b)"

definition put_record ::
  "object_store \<Rightarrow> string \<Rightarrow> string \<Rightarrow> string option \<Rightarrow> bytes \<Rightarrow> nat \<Rightarrow> object_metadata"
where
  "put_record s kind media_type filename b now =
     \<lparr>md_id = kappa_prefix @ blake3_hex (os_host s) b, md_kind = kind, md_media_type = media_type,
      md_filename = filename, md_size = sat64 (length b),
      md_created = (case read_metadata s (blake3_hex (os_host s) b) of
                      Some existing \<Rightarrow> md_created existing | None \<Rightarrow> now)\<rparr>"

lemma put_blob_stage_same [simp]:
  "os_host (fst (put_blob_stage s b)) = os_host s" "os_root (fst (put_blob_stage s b)) = os_root s"
  "os_poisoned (fst (put_blob_stage s b)) = os_poisoned s"
  "fs_faults (os_fs (fst (put_blob_stage s b))) = fs_faults (os_fs s)"
  "metadata_path (fst (put_blob_stage s b)) = metadata_path s"
  "blob_path (fst (put_blob_stage s b)) = blob_path s"
  by (simp_all add: put_blob_stage_def Let_def)

lemma store_put_stages:
  "store_put s kind media_type filename b now =
     (if os_poisoned s then (s, Inl lock_poisoned)
      else case put_blob_stage s b of
             (s1, Inl e) \<Rightarrow> (s1, Inl e)
           | (s1, Inr _) \<Rightarrow>
               let m = put_record s1 kind media_type filename b now;
                   w = store_write s1 (metadata_path s (blake3_hex (os_host s) b)) (meta_encode (os_host s) m)
               in (fst w, bindE (snd w) (\<lambda>_. Inr m)))"
proof (cases "put_blob_stage s b")
  case (Pair s1 r1)
  then have "os_host s1 = os_host s" using put_blob_stage_same(1)[of s b] by simp
  moreover have "(if fs_exists (os_fs s) (blob_path s (blake3_hex (os_host s) b)) then (s, Inr ())
      else store_write s (blob_path s (blake3_hex (os_host s) b)) b) = (s1, r1)"
    using Pair by (simp add: put_blob_stage_def Let_def)
  ultimately show ?thesis using Pair
    by (cases r1) (simp_all add: store_put_def put_record_def Let_def bindE_def split: prod.splits sum.splits)
qed

lemma put_blob_stage_ok: "store_ok s \<Longrightarrow> store_ok (fst (put_blob_stage s b))"
  by (simp add: put_blob_stage_def Let_def store_ok_write_blob host_ok_digest store_okD(1))

lemma put_blob_stage_view:
  assumes "store_ok s" "valid_digest e"
  shows "meta_at (fst (put_blob_stage s b)) e = meta_at s e"
    and "e \<noteq> blake3_hex (os_host s) b \<Longrightarrow> stored (fst (put_blob_stage s b)) e = stored s e"
  using store_write_blob_view[OF host_ok_digest[OF store_okD(1)[OF assms(1)], of b] assms(2), of s b]
  by (auto simp: put_blob_stage_def Let_def)

lemma put_blob_stage_stored:
  assumes "put_blob_stage s b = (t, Inr u)"
  shows "stored t (blake3_hex (os_host s) b) =
           Some (case stored s (blake3_hex (os_host s) b) of Some c \<Rightarrow> c | None \<Rightarrow> b)"
proof (cases "fs_exists (os_fs s) (blob_path s (blake3_hex (os_host s) b))")
  case True
  with assms show ?thesis by (auto simp: put_blob_stage_def Let_def fs_exists_def stored_def)
next
  case False
  with assms have w: "store_write s (blob_path s (blake3_hex (os_host s) b)) b = (t, Inr u)"
    by (simp add: put_blob_stage_def Let_def)
  have "fs_get (os_fs t) (blob_path s (blake3_hex (os_host s) b)) = Some b"
    using store_write_path[of s "blob_path s (blake3_hex (os_host s) b)" b] w by simp
  moreover have "blob_path t = blob_path s"
    using store_write_same(6)[of s "blob_path s (blake3_hex (os_host s) b)" b] w by simp
  ultimately show ?thesis using False by (simp add: stored_def fs_exists_def)
qed

lemma read_metadata_cong:
  "os_host t = os_host s \<Longrightarrow> os_root t = os_root s \<Longrightarrow> fs_faults (os_fs t) = fs_faults (os_fs s) \<Longrightarrow>
     meta_at t d = meta_at s d \<Longrightarrow> read_metadata t d = read_metadata s d"
  by (auto simp: read_metadata_def fs_read_def meta_at_def metadata_path_def split: option.splits sum.splits)

lemma put_record_stage:
  assumes "store_ok s"
  shows "put_record (fst (put_blob_stage s b)) k mt f b now = put_record s k mt f b now"
  using read_metadata_cong[of "fst (put_blob_stage s b)" s] put_blob_stage_view(1)[OF assms]
    host_ok_digest[OF store_okD(1)[OF assms]]
  by (simp add: put_record_def)

lemma store_put_store_ok:
  assumes ok: "store_ok s"
  shows "store_ok (fst (store_put s k mt f b now))"
proof -
  let ?t = "fst (put_blob_stage s b)"
  let ?w = "store_write ?t (metadata_path s (blake3_hex (os_host s) b))
              (meta_encode (os_host s) (put_record ?t k mt f b now))"
  have d: "valid_digest (blake3_hex (os_host s) b)" by (simp add: host_ok_digest store_okD(1)[OF ok])
  have t: "store_ok ?t" by (rule put_blob_stage_ok[OF ok])
  have "store_ok (fst ?w)"
    using store_ok_write_meta[OF t d, of "meta_encode (os_host s) (put_record ?t k mt f b now)"]
      store_okD(1)[OF ok] by (simp add: host_ok_def put_record_def)
  with ok t show ?thesis
    by (auto simp: store_put_stages Let_def split: prod.splits sum.splits)
qed

text \<open>What a successful \<open>put\<close> leaves behind.\<close>

lemma store_put_ok:
  assumes ok: "store_ok s" and put: "store_put s k mt f b now = (t, Inr m)"
  shows "m = put_record s k mt f b now"
    and "fs_faults (os_fs s) OpRead (metadata_path s (blake3_hex (os_host s) b)) = None \<Longrightarrow> store_metadata t (md_id m) = Inr m"
    and "stored t (blake3_hex (os_host s) b) =
           Some (case stored s (blake3_hex (os_host s) b) of Some c \<Rightarrow> c | None \<Rightarrow> b)"
    and "valid_digest e \<Longrightarrow> e \<noteq> blake3_hex (os_host s) b \<Longrightarrow> stored t e = stored s e \<and> meta_at t e = meta_at s e"
    and "same_frame s t"
proof -
  let ?d = "blake3_hex (os_host s) b"
  obtain t1 where st: "put_blob_stage s b = (t1, Inr ())" and np: "\<not> os_poisoned s"
    using put by (auto simp: store_put_stages split: if_splits prod.splits sum.splits)
  then have t1: "t1 = fst (put_blob_stage s b)" by simp
  let ?m = "put_record s k mt f b now"
  let ?w = "store_write t1 (metadata_path s ?d) (meta_encode (os_host s) ?m)"
  have d: "valid_digest ?d" by (simp add: host_ok_digest store_okD(1)[OF ok])
  have rec: "put_record t1 k mt f b now = ?m" using put_record_stage[OF ok] t1 by simp
  have w: "fst ?w = t" "is_ok (snd ?w)" "m = ?m"
    using put st np rec
    by (auto simp: store_put_stages Let_def bindE_eq_Inr is_ok_iff split: if_splits)
  have mp: "metadata_path t1 = metadata_path s" "os_host t1 = os_host s" "blob_path t1 = blob_path s"
    by (simp_all add: t1)
  show "m = ?m" by (rule w(3))
  have fr: "os_host t = os_host s" "os_root t = os_root s" "os_poisoned t = os_poisoned s"
    "fs_faults (os_fs t) = fs_faults (os_fs s)" "metadata_path t = metadata_path s" "blob_path t = blob_path s"
    unfolding w(1)[symmetric] by (simp_all add: t1)
  show "same_frame s t" by (simp add: same_frame_def fr)
  have "fs_get (os_fs t) (metadata_path s ?d) = Some (meta_encode (os_host s) ?m)"
    using store_write_path[OF w(2)] by (simp add: w(1))
  then show "store_metadata t (md_id m) = Inr m" if "fs_faults (os_fs s) OpRead (metadata_path s ?d) = None"
    using that d fr w(3) store_okD(1)[OF ok]
    by (simp add: store_metadata_def put_record_def bindE_eq_Inr read_or_missing_def decode_metadata_def host_ok_def)
  show "stored t ?d = Some (case stored s ?d of Some c \<Rightarrow> c | None \<Rightarrow> b)"
    using put_blob_stage_stored[OF st] store_write_meta_view(1)[OF d d, of t1]
    unfolding w(1)[symmetric] mp by simp
  show "stored t e = stored s e \<and> meta_at t e = meta_at s e" if "valid_digest e" "e \<noteq> ?d" for e
    using store_write_meta_view[OF d that(1), of t1 "meta_encode (os_host s) ?m"]
      put_blob_stage_view[OF ok that(1), of b] that(2)
    unfolding w(1)[symmetric] mp by (simp add: t1)
qed

section \<open>Cached content, renaming, removal\<close>

lemma cache_bounded_store_ok:
  "store_ok s \<Longrightarrow> store_ok (fst (store_cache_addressed_bounded s i b n))"
  by (auto simp: store_cache_addressed_bounded_def Let_def validate_id_Inr split: sum.splits prod.splits)
    (metis fst_conv store_ok_write_blob)

text \<open>The outcome of the bounded cache insertion, on every branch.\<close>

lemma cache_bounded_ok:
  assumes "store_cache_addressed_bounded s i b n = (t, Inr created)"
  obtains d where "i = kappa_prefix @ d" "valid_digest d" "blake3_hex (os_host s) b = d"
    and "created \<longleftrightarrow> stored s d = None"
    and "stored t d = Some (case stored s d of Some c \<Rightarrow> c | None \<Rightarrow> b)"
    and "created \<longrightarrow> sat64 (length b) \<le> n"
proof -
  obtain d where i: "validate_id i = Inr d"
    using assms by (auto simp: store_cache_addressed_bounded_def split: sum.splits)
  note v = i[unfolded validate_id_Inr]
  show ?thesis
  proof (cases "fs_exists (os_fs s) (blob_path s d)")
    case True
    with assms i have "t = s" "created = False" "blake3_hex (os_host s) b = d"
      by (auto simp: store_cache_addressed_bounded_def split: if_splits)
    with True v show ?thesis by (intro that[of d]) (auto simp: stored_def fs_exists_def)
  next
    case False
    let ?w = "store_write s (blob_path s d) b"
    from False assms i have h: "blake3_hex (os_host s) b = d" "sat64 (length b) \<le> n" "created"
      and w: "fst ?w = t" "is_ok (snd ?w)"
      by (auto simp: store_cache_addressed_bounded_def Let_def bindE_eq_Inr is_ok_iff split: if_splits prod.splits)
    have "fs_get (os_fs t) (blob_path s d) = Some b"
      using store_write_path[OF w(2)] by (simp add: w(1))
    moreover have "blob_path t = blob_path s" unfolding w(1)[symmetric] by simp
    ultimately show ?thesis using False v h by (intro that[of d]) (auto simp: stored_def fs_exists_def)
  qed
qed

lemma cache_bounded_frame:
  "same_frame s (fst (store_cache_addressed_bounded s i b n))"
  by (auto simp: store_cache_addressed_bounded_def Let_def split: sum.splits prod.splits)
    (metis fst_conv store_write_frame)

lemma cache_bounded_view:
  assumes "valid_digest e" "i \<noteq> kappa_prefix @ e \<or> \<not> is_ok (snd (store_cache_addressed_bounded s i b n))"
  shows "stored (fst (store_cache_addressed_bounded s i b n)) e = stored s e"
proof (cases "validate_id i")
  case (Inl x)
  then show ?thesis by (simp add: store_cache_addressed_bounded_def)
next
  case (Inr d)
  then have d: "valid_digest d" "i = kappa_prefix @ d" by (auto simp: validate_id_Inr)
  let ?w = "store_write s (blob_path s d) b"
  have "stored (fst ?w) e = stored s e" if "\<not> fs_exists (os_fs s) (blob_path s d)" "e \<noteq> d \<or> \<not> is_ok (snd ?w)"
  proof (cases "e = d")
    case True
    with that have "fs_get (os_fs (fst ?w)) (blob_path s d) = None"
      using store_write_fail_path[of s "blob_path s d" b] by (auto simp: fs_exists_def)
    with True that show ?thesis by (simp add: stored_def fs_exists_def)
  next
    case False
    then show ?thesis by (rule store_write_blob_view(2)[OF d(1) assms(1)])
  qed
  moreover have "store_cache_addressed_bounded s i b n = (fst ?w, bindE (snd ?w) (\<lambda>_. Inr True))
    \<and> \<not> fs_exists (os_fs s) (blob_path s d) \<or> fst (store_cache_addressed_bounded s i b n) = s"
    unfolding d(2) using d(1) by (simp add: store_cache_addressed_bounded_def Let_def split: prod.splits)
  ultimately show ?thesis using assms(2) d(2)
    by (cases "e = d") (auto simp: is_ok_def bindE_def split: sum.splits)
qed

lemma cache_bounded_meta: "valid_digest e \<Longrightarrow> meta_at (fst (store_cache_addressed_bounded s i b n)) e = meta_at s e"
  using store_write_blob_view(1)
  by (auto simp: store_cache_addressed_bounded_def Let_def validate_id_Inr split: sum.splits prod.splits) (metis fst_conv)

lemma rename_store_ok: "store_ok s \<Longrightarrow> store_ok (fst (store_rename_file s i f))"
proof -
  assume ok: "store_ok s"
  have "store_ok (fst (store_write s (metadata_path s d) (meta_encode (os_host s) (m\<lparr>md_filename := Some n\<rparr>))))"
    if "valid_digest d" "fs_get (os_fs s) (metadata_path s d) = Some c" "meta_decode (os_host s) c = Inr m" for d m n c
    using store_okD(4)[OF ok that(1), of c] that store_okD(1)[OF ok]
    by (intro store_ok_write_meta[OF ok that(1), of _ "m\<lparr>md_filename := Some n\<rparr>"])
      (auto simp: meta_at_def host_ok_def)
  then show ?thesis using ok
    by (auto simp: store_rename_file_def Let_def bindE_eq_Inr read_or_missing_def decode_metadata_def validate_id_Inr
        split: sum.splits prod.splits) (metis fst_conv)
qed

lemma rename_stored: "valid_digest e \<Longrightarrow> stored (fst (store_rename_file s i f)) e = stored s e"
  using store_write_meta_view(1)
  by (auto simp: store_rename_file_def Let_def validate_id_Inr split: sum.splits prod.splits) (metis fst_conv)

lemma store_ok_del_meta:
  assumes ok: "store_ok s" and d: "valid_digest d"
  shows "store_ok (s\<lparr>os_fs := fs_del (metadata_path s d) (os_fs s)\<rparr>)" (is "store_ok ?t")
proof (rule store_okI)
  have p: "blob_path ?t = blob_path s" "metadata_path ?t = metadata_path s"
    by (simp_all add: blob_path_def metadata_path_def fun_eq_iff)
  show "host_ok (os_host ?t)" using store_okD(1)[OF ok] by simp
  show "distinct (map fst (fs_files (os_fs ?t)))" using store_okD(2)[OF ok] by (simp add: fs_del_def distinct_delete)
  show "blake3_hex (os_host ?t) b = e" if "valid_digest e" "stored ?t e = Some b" for e b
    using that store_okD(3)[OF ok, of e b] d p by (simp add: stored_def store_path_simps split: if_splits)
  show "\<exists>m. meta_decode (os_host ?t) c = Inr m \<and> md_id m = kappa_prefix @ e"
    if "valid_digest e" "meta_at ?t e = Some c" for e c
    using that store_okD(4)[OF ok, of e c] d p by (simp add: meta_at_def split: if_splits)
  show "\<exists>d. valid_digest d \<and> q = metadata_path ?t d"
    if "fs_get (os_fs ?t) q \<noteq> None" "path_extension q = Some ''json''"
      "path_dir_prefix q = path_join (os_root ?t) ''metadata'' @ ''/''" for q
    using that store_okD(5)[OF ok, of q] p by (simp split: if_splits)
qed

lemma remove_store_ok: "store_ok s \<Longrightarrow> store_ok (fst (store_remove_metadata s i))"
  by (auto simp: store_remove_metadata_def Let_def fs_remove_def store_ok_del_meta validate_id_Inr
      split: sum.splits option.splits if_splits)

section \<open>The store as a state machine\<close>

text \<open>Any interleaving of the operations, of the operating system starting or ceasing to refuse calls,
  and of a panic that poisons the lock.\<close>

inductive store_step :: "object_store \<Rightarrow> object_store \<Rightarrow> bool" where
  step_put: "store_step s (fst (store_put s k mt f b now))"
| step_cache: "store_step s (fst (store_cache_addressed_bounded s i b n))"
| step_rename: "store_step s (fst (store_rename_file s i f))"
| step_remove: "store_step s (fst (store_remove_metadata s i))"
| step_faults: "store_step s (s\<lparr>os_fs := (os_fs s)\<lparr>fs_faults := g, fs_torn := n\<rparr>\<rparr>)"
| step_poison: "store_step s (s\<lparr>os_poisoned := True\<rparr>)"

inductive_cases store_stepE: "store_step s t"

lemma store_ok_faults: "store_ok s \<Longrightarrow> store_ok (s\<lparr>os_fs := (os_fs s)\<lparr>fs_faults := g, fs_torn := n\<rparr>\<rparr>)"
  by (simp add: store_ok_def stored_def meta_at_def blob_path_def metadata_path_def fs_get_def)

lemma store_ok_poison: "store_ok s \<Longrightarrow> store_ok (s\<lparr>os_poisoned := True\<rparr>)"
  by (simp add: store_ok_def stored_def meta_at_def blob_path_def metadata_path_def)

lemmas store_op_ok =
  store_put_store_ok cache_bounded_store_ok rename_store_ok remove_store_ok store_ok_faults store_ok_poison

lemma store_step_ok: "store_step s t \<Longrightarrow> store_ok s \<Longrightarrow> store_ok t"
  by (erule store_stepE) (simp_all add: store_op_ok)

lemma store_steps_ok: "store_step\<^sup>*\<^sup>* s t \<Longrightarrow> store_ok s \<Longrightarrow> store_ok t"
  by (induction rule: rtranclp_induct) (auto intro: store_step_ok)

lemma store_open_ok:
  "store_open h root t = Inr s \<Longrightarrow> host_ok h \<Longrightarrow> fs_files t = [] \<Longrightarrow> store_ok s"
  by (auto simp: store_open_def store_ok_def stored_def meta_at_def fs_get_def split: option.splits)

section \<open>The content-addressed interface\<close>

text \<open>
  What the clients of the store (artifact transfer, archive planning, storage graphs) rely on: a
  partial map from addresses to bytes that an insertion extends and never overwrites, in which every
  address is the address of its bytes, and which a refused insertion leaves alone.
\<close>

locale content_addressed =
  fixes view :: "'s \<Rightarrow> string \<Rightarrow> bytes option"
    and addr :: "'s \<Rightarrow> bytes \<Rightarrow> string"
    and ins :: "'s \<Rightarrow> string \<Rightarrow> bytes \<Rightarrow> 's \<times> unit live_result"
    and ok :: "'s \<Rightarrow> bool"
  assumes view_addr: "ok s \<Longrightarrow> view s k = Some b \<Longrightarrow> addr s b = k"
    and ins_keeps_ok: "ok s \<Longrightarrow> ok (fst (ins s k b))"
    and ins_keeps_addr: "addr (fst (ins s k b)) = addr s"
    and ins_view: "ins s k b = (t, Inr u) \<Longrightarrow> view t k = Some (case view s k of Some c \<Rightarrow> c | None \<Rightarrow> b)"
    and ins_match: "ins s k b = (t, Inr u) \<Longrightarrow> addr s b = k"
    and ins_frame: "j \<noteq> k \<or> \<not> is_ok (snd (ins s k b)) \<Longrightarrow> view (fst (ins s k b)) j = view s j"
begin

definition grows :: "'s \<Rightarrow> 's \<Rightarrow> bool" where
  "grows s t \<longleftrightarrow> (\<forall>k c. view s k = Some c \<longrightarrow> view t k = Some c) \<and> addr t = addr s \<and> (ok s \<longrightarrow> ok t)"

lemma grows_refl: "grows s s"
  by (simp add: grows_def)

lemma grows_trans: "grows s t \<Longrightarrow> grows t u \<Longrightarrow> grows s u"
  by (auto simp: grows_def)

lemma ins_grows: "grows s (fst (ins s k b))"
proof -
  have "view (fst (ins s k b)) j = Some c" if "view s j = Some c" for j c
  proof (cases "j = k \<and> is_ok (snd (ins s k b))")
    case True
    then obtain t u where "ins s k b = (t, Inr u)" by (cases "ins s k b") (auto simp: is_ok_iff)
    from ins_view[OF this] this True that show ?thesis by simp
  next
    case False
    then show ?thesis using ins_frame[of j k s b] that by auto
  qed
  then show ?thesis by (simp add: grows_def ins_keeps_ok ins_keeps_addr)
qed

lemma ins_present: "ins s k b = (t, Inr u) \<Longrightarrow> view t k \<noteq> None"
  using ins_view by fastforce

lemma ins_new_keys: "view (fst (ins s k b)) j = Some c \<Longrightarrow> view s j = Some c \<or> (j = k \<and> c = b \<and> addr s b = k)"
proof (cases "j = k \<and> is_ok (snd (ins s k b))")
  case True
  assume v: "view (fst (ins s k b)) j = Some c"
  from True obtain t u where i: "ins s k b = (t, Inr u)" by (cases "ins s k b") (auto simp: is_ok_iff)
  from ins_view[OF i] ins_match[OF i] i True v show ?thesis by (auto split: option.splits)
next
  case False
  assume "view (fst (ins s k b)) j = Some c"
  with False show ?thesis using ins_frame[of j k s b] by auto
qed

end

definition store_view :: "object_store \<Rightarrow> string \<Rightarrow> bytes option" where
  "store_view s i = (case validate_id i of Inl _ \<Rightarrow> None | Inr d \<Rightarrow> stored s d)"

definition store_addr :: "object_store \<Rightarrow> bytes \<Rightarrow> string" where
  "store_addr s b = kappa_prefix @ blake3_hex (os_host s) b"

lemma store_cache_eq:
  "fst (store_cache_addressed s i b) = fst (store_cache_addressed_bounded s i b u64_max)"
  "is_ok (snd (store_cache_addressed s i b)) = is_ok (snd (store_cache_addressed_bounded s i b u64_max))"
  by (auto simp: store_cache_addressed_def Let_def is_ok_def bindE_def split: prod.splits sum.splits)

lemma store_cache_ok:
  assumes "store_cache_addressed s i b = (t, Inr u)"
  obtains d where "i = kappa_prefix @ d" "valid_digest d" "blake3_hex (os_host s) b = d"
    and "stored t d = Some (case stored s d of Some c \<Rightarrow> c | None \<Rightarrow> b)"
proof -
  obtain r where "store_cache_addressed_bounded s i b u64_max = (t, Inr r)"
    using assms by (auto simp: store_cache_addressed_def Let_def bindE_eq_Inr split: prod.splits)
  then show ?thesis by (rule cache_bounded_ok) (rule that)
qed

interpretation cas: content_addressed store_view store_addr store_cache_addressed store_ok
proof
  fix s k b t u j
  show "store_ok s \<Longrightarrow> store_view s k = Some b \<Longrightarrow> store_addr s b = k"
    by (auto simp: store_view_def store_addr_def validate_id_Inr dest: store_okD(3) split: sum.splits)
  show "store_ok s \<Longrightarrow> store_ok (fst (store_cache_addressed s k b))"
    by (simp add: store_cache_eq cache_bounded_store_ok)
  show "store_addr (fst (store_cache_addressed s k b)) = store_addr s"
    using cache_bounded_frame[of s k b u64_max]
    by (simp add: store_cache_eq store_addr_def same_frame_def fun_eq_iff)
  show "store_cache_addressed s k b = (t, Inr u) \<Longrightarrow>
      store_view t k = Some (case store_view s k of Some c \<Rightarrow> c | None \<Rightarrow> b)"
    by (erule store_cache_ok) (simp add: store_view_def)
  show "store_cache_addressed s k b = (t, Inr u) \<Longrightarrow> store_addr s b = k"
    by (erule store_cache_ok) (simp add: store_addr_def)
  show "store_view (fst (store_cache_addressed s k b)) j = store_view s j"
    if "j \<noteq> k \<or> \<not> is_ok (snd (store_cache_addressed s k b))"
    using that cache_bounded_view[of _ k s b u64_max]
    by (auto simp: store_view_def store_cache_eq validate_id_Inr split: sum.splits)
qed

section \<open>Properties of the store\<close>

lemma stored_get:
  assumes "store_ok s" "valid_digest d" "stored s d = Some c" "fs_faults (os_fs s) OpRead (blob_path s d) = None"
  shows "store_get s (kappa_prefix @ d) = Inr c" and "store_verify s (kappa_prefix @ d) = Inr True"
  using assms store_okD(3)[OF assms(1-3)]
  by (simp_all add: store_get_def store_verify_def read_or_missing_def stored_def fs_read_def)

lemma store_write_total:
  assumes "fs_faults (os_fs s) = (\<lambda>_ _. None)"
  shows "snd (store_write s path b) = Inr ()"
  using atomic_write_succeeds[of "os_fs s" path "host_pid (os_host s)" b] assms
  by (auto simp: store_write_def Let_def split: prod.splits)

lemma store_put_total:
  assumes "\<not> os_poisoned s" "fs_faults (os_fs s) = (\<lambda>_ _. None)"
  shows "is_ok (snd (store_put s k mt f b now))"
proof -
  have "snd (put_blob_stage s b) = Inr ()"
    using assms by (simp add: put_blob_stage_def Let_def store_write_total)
  moreover have "snd (store_write (fst (put_blob_stage s b)) p c) = Inr ()" for p c
    using assms by (intro store_write_total) simp
  ultimately show ?thesis using assms
    by (auto simp: store_put_stages Let_def split: prod.splits)
qed

lemma read_metadata_of_metadata:
  "valid_digest d \<Longrightarrow> store_metadata s (kappa_prefix @ d) = Inr m \<Longrightarrow> read_metadata s d = Some m"
  by (auto simp: store_metadata_def read_metadata_def bindE_eq_Inr read_or_missing_def decode_metadata_def fs_read_def
      split: option.splits)

text \<open>The readers see a store through its frame, its blobs and its records only.\<close>

lemma store_reads_cong:
  assumes fr: "same_frame s t"
    and v: "\<And>d. validate_id i = Inr d \<Longrightarrow> stored t d = stored s d"
    and m: "\<And>d. validate_id i = Inr d \<Longrightarrow> meta_at t d = meta_at s d"
  shows "store_get t i = store_get s i" and "store_metadata t i = store_metadata s i"
    and "store_get_cached t i = store_get_cached s i"
proof -
  have eq: "decode_metadata t = decode_metadata s" "blob_path t = blob_path s" "metadata_path t = metadata_path s"
    using fr same_frame_paths[OF fr] by (simp_all add: decode_metadata_def same_frame_def fun_eq_iff)
  have f: "fs_faults (os_fs t) = fs_faults (os_fs s)" using fr by (simp add: same_frame_def)
  have rd: "fs_read (os_fs t) (blob_path s d) = fs_read (os_fs s) (blob_path s d)"
      "fs_read (os_fs t) (metadata_path s d) = fs_read (os_fs s) (metadata_path s d)" if "validate_id i = Inr d" for d
    using v[OF that] m[OF that] f eq by (simp_all add: fs_read_def stored_def meta_at_def split: option.splits)
  show "store_get t i = store_get s i" using rd eq
    by (cases "validate_id i") (simp_all add: store_get_def read_or_missing_def)
  show "store_metadata t i = store_metadata s i" using rd eq
    by (cases "validate_id i") (simp_all add: store_metadata_def read_or_missing_def)
  show "store_get_cached t i = store_get_cached s i"
    unfolding store_get_cached_def eq using rd by (cases "validate_id i") simp_all
qed

text \<open>
  C30 Putting bytes into a consistent store whose lock is sound and whose file system accepts writes
  succeeds. The returned record carries the content address of the bytes, the caller's kind, media
  type and file name, and as creation time the one already on record, if any. Afterwards the record
  is what \<open>metadata\<close> returns, \<open>get\<close> returns bytes with the same hash (the very bytes, if the address
  was new), \<open>verify\<close> accepts the id, every other object and record is as before, and putting
  the same bytes again later, under any description, keeps the creation time.
\<close>
theorem store_put_correct:
  assumes ok: "store_ok s" and up: "\<not> os_poisoned s" "fs_faults (os_fs s) = (\<lambda>_ _. None)"
  shows "\<exists>t m. store_put s k mt f b now = (t, Inr m)
     \<and> md_id m = kappa_prefix @ blake3_hex (os_host s) b
     \<and> md_kind m = k \<and> md_media_type m = mt \<and> md_filename m = f \<and> md_size m = sat64 (length b)
     \<and> md_created m = (case store_metadata s (md_id m) of Inr old \<Rightarrow> md_created old | Inl _ \<Rightarrow> now)
     \<and> store_metadata t (md_id m) = Inr m
     \<and> (\<exists>c. store_get t (md_id m) = Inr c \<and> blake3_hex (os_host s) c = blake3_hex (os_host s) b
          \<and> (store_get_cached s (md_id m) = Inr None \<longrightarrow> c = b))
     \<and> store_verify t (md_id m) = Inr True
     \<and> (\<forall>i. i \<noteq> md_id m \<longrightarrow> store_get t i = store_get s i \<and> store_metadata t i = store_metadata s i)
     \<and> (\<exists>u m'. store_put t k' mt' f' b later = (u, Inr m') \<and> md_created m' = md_created m)"
proof -
  let ?d = "blake3_hex (os_host s) b"
  obtain t m where p: "store_put s k mt f b now = (t, Inr m)"
    using store_put_total[OF up, of k mt f b now] by (cases "store_put s k mt f b now") (auto simp: is_ok_iff)
  note o = store_put_ok[OF ok p]
  have d: "valid_digest ?d" by (simp add: host_ok_digest store_okD(1)[OF ok])
  have okt: "store_ok t" using store_put_store_ok[OF ok, of k mt f b now] p by simp
  have fr: "os_host t = os_host s" "\<not> os_poisoned t" "fs_faults (os_fs t) = (\<lambda>_ _. None)"
    "blob_path t = blob_path s" "metadata_path t = metadata_path s"
    using o(5) same_frame_paths[OF o(5)] up by (simp_all add: same_frame_def)
  have o2: "store_metadata t (md_id m) = Inr m" using o(2) up by simp
  obtain c where c: "stored t ?d = Some c" "stored s ?d = None \<Longrightarrow> c = b"
    using o(3) by (auto split: option.splits)
  have hc: "blake3_hex (os_host s) c = ?d" using store_okD(3)[OF okt d c(1)] fr by simp
  note g = stored_get[OF okt d c(1)]
  have id: "md_id m = kappa_prefix @ ?d" by (simp add: o(1) put_record_def)
  obtain u m' where p': "store_put t k' mt' f' b later = (u, Inr m')"
    using store_put_total[OF fr(2,3), of k' mt' f' b later]
    by (cases "store_put t k' mt' f' b later") (auto simp: is_ok_iff)
  have "md_created m' = md_created m"
    using store_put_ok(1)[OF okt p'] read_metadata_of_metadata[OF d, of t m] o2 id fr
    by (simp add: put_record_def)
  moreover have "md_created m = (case store_metadata s (md_id m) of Inr old \<Rightarrow> md_created old | Inl _ \<Rightarrow> now)"
    using d up by (auto simp: o(1) put_record_def read_metadata_def store_metadata_def read_or_missing_def
        decode_metadata_def fs_read_def bindE_def map_err_def split: option.splits sum.splits)
  moreover have "store_get t i = store_get s i \<and> store_metadata t i = store_metadata s i" if "i \<noteq> md_id m" for i
  proof -
    have "valid_digest e \<and> e \<noteq> ?d" if "validate_id i = Inr e" for e
      using that \<open>i \<noteq> md_id m\<close> id by (auto simp: validate_id_Inr)
    then show ?thesis using store_reads_cong[OF o(5), of i] o(4) by blast
  qed
  moreover have "c = b" if "store_get_cached s (md_id m) = Inr None"
    using that d up c(2)
    by (auto simp: id store_get_cached_def fs_read_def stored_def split: option.splits sum.splits io_error.splits)
  ultimately show ?thesis
    using p p' o2 g id hc fr by (auto simp: o(1) put_record_def)
qed

definition sample_store :: object_store where
  "sample_store = \<lparr>os_host = sample_host, os_root = ''r'', os_fs = \<lparr>fs_files = [], fs_faults = \<lambda>_ _. None, fs_torn = \<lambda>_. None\<rparr>,
     os_poisoned = False\<rparr>"

lemma sample_store_open: "store_open sample_host ''r'' \<lparr>fs_files = [], fs_faults = \<lambda>_ _. None, fs_torn = \<lambda>_. None\<rparr> = Inr sample_store"
  by (simp add: store_open_def sample_store_def)

lemma sample_store_ok: "store_ok sample_store"
  by (rule store_open_ok[OF sample_store_open sample_host_ok]) simp

lemma sample_store_empty: "valid_digest d \<Longrightarrow> store_get_cached sample_store (kappa_prefix @ d) = Inr None"
  "valid_digest d \<Longrightarrow> \<not> is_ok (store_metadata sample_store (kappa_prefix @ d))"
  by (simp_all add: store_get_cached_def store_metadata_def sample_store_def fs_read_def fs_get_def read_or_missing_def)

lemma sample_store_up: "\<not> os_poisoned sample_store" "fs_faults (os_fs sample_store) = (\<lambda>_ _. None)"
  "os_host sample_store = sample_host"
  by (simp_all add: sample_store_def)

theorem store_put_correct_witness:
  "\<exists>t m. store_put sample_store ''file'' ''text/plain'' (Some ''a.txt'') [1, 2] 5 = (t, Inr m)
     \<and> md_created m = 5 \<and> store_get t (md_id m) = Inr [1, 2] \<and> store_verify t (md_id m) = Inr True"
proof -
  have d: "valid_digest (blake3_hex sample_host [1, 2])" by (rule host_ok_digest[OF sample_host_ok])
  note e = sample_store_empty[OF d]
  obtain t m where p: "store_put sample_store ''file'' ''text/plain'' (Some ''a.txt'') [1, 2] 5 = (t, Inr m)"
    "md_id m = kappa_prefix @ blake3_hex sample_host [1, 2]"
    "md_created m = (case store_metadata sample_store (md_id m) of Inr old \<Rightarrow> md_created old | Inl _ \<Rightarrow> 5)"
    "store_get_cached sample_store (md_id m) = Inr None \<longrightarrow> store_get t (md_id m) = Inr [1, 2]"
    "store_verify t (md_id m) = Inr True"
    using store_put_correct[OF sample_store_ok sample_store_up(1,2),
        of "''file''" "''text/plain''" "Some ''a.txt''" "[1, 2]" 5 "''x''" "''y''" None 9]
    unfolding sample_store_up(3) by blast
  moreover have "md_created m = 5" using p(3) e(2) unfolding p(2) by (simp add: is_ok_def split: sum.splits)
  ultimately show ?thesis using e(1) by auto
qed

subsection \<open>Every reachable store\<close>

lemma store_step_host: "store_step s t \<Longrightarrow> os_host t = os_host s"
proof (erule store_stepE)
  fix k mt f b now assume "t = fst (store_put s k mt f b now)"
  then show ?thesis
    using put_blob_stage_same(1)[of s b]
    by (cases "put_blob_stage s b") (auto simp: store_put_stages Let_def split: sum.splits)
next
  fix i b n assume "t = fst (store_cache_addressed_bounded s i b n)"
  then show ?thesis using cache_bounded_frame[of s i b n] by (simp add: same_frame_def)
next
  fix i f assume "t = fst (store_rename_file s i f)"
  then show ?thesis
    by (auto simp: store_rename_file_def Let_def store_write_def split: sum.splits prod.splits)
next
  fix i assume "t = fst (store_remove_metadata s i)"
  then show ?thesis by (auto simp: store_remove_metadata_def Let_def split: sum.splits)
qed simp_all

lemma store_steps_host: "store_step\<^sup>*\<^sup>* s t \<Longrightarrow> os_host t = os_host s"
  by (induction rule: rtranclp_induct) (auto dest: store_step_host)

lemma store_get_okD:
  assumes "store_ok s" "store_get s i = Inr b"
  shows "kappa_prefix @ blake3_hex (os_host s) b = i"
  using assms(2) store_okD(3)[OF assms(1), of _ b]
  by (auto simp: store_get_def bindE_eq_Inr validate_id_Inr read_or_missing_def stored_def)

lemma store_metadata_okD:
  assumes "store_ok s" "store_metadata s i = Inr m"
  shows "md_id m = i"
  using assms(2) store_okD(4)[OF assms(1)]
  by (fastforce simp: store_metadata_def bindE_eq_Inr validate_id_Inr read_or_missing_def decode_metadata_def meta_at_def)

text \<open>
  C3 A store opened on an empty directory is content-addressed in every state it can reach, whatever
  operations are run on it in whatever order, whichever of them fail half way, and whichever paths the
  operating system refuses meanwhile: bytes read under an id always hash to that id, so
  \<open>verify\<close> never answers false, and a metadata record read under an id always names that id.
\<close>
theorem store_reachable_content_addressed:
  assumes h: "host_ok h" and op: "store_open h root t0 = Inr s0" "fs_files t0 = []"
    and run: "store_step\<^sup>*\<^sup>* s0 s"
  shows "(\<forall>i b. store_get s i = Inr b \<longrightarrow> kappa_prefix @ blake3_hex h b = i)
     \<and> (\<forall>i. store_verify s i \<noteq> Inr False)
     \<and> (\<forall>i m. store_metadata s i = Inr m \<longrightarrow> md_id m = i)"
proof -
  have ok: "store_ok s" using store_steps_ok[OF run] store_open_ok[OF op(1) h op(2)] by simp
  have "os_host s0 = h" using op(1) by (auto simp: store_open_def split: option.splits)
  then have "os_host s = h" using store_steps_host[OF run] by simp
  then show ?thesis using store_get_okD[OF ok] store_metadata_okD[OF ok]
    by (auto simp: store_verify_def bindE_eq_Inr)
qed

theorem store_reachable_content_addressed_witness:
  "\<forall>i. store_verify (fst (store_put sample_store ''file'' ''text/plain'' None [3] 5)) i \<noteq> Inr False"
  using store_reachable_content_addressed[OF sample_host_ok sample_store_open _
      r_into_rtranclp[of store_step, OF step_put]] by simp

subsection \<open>Bounded insertion\<close>

lemma cache_bounded_total:
  assumes "\<not> os_poisoned s" "fs_faults (os_fs s) = (\<lambda>_ _. None)"
  shows "snd (store_cache_addressed_bounded s i b n) =
     (case validate_id i of Inl e \<Rightarrow> Inl e
      | Inr d \<Rightarrow> if blake3_hex (os_host s) b \<noteq> d
               then Inl (InvalidHolo (''content blob '' @ i @ '' does not match its bytes''))
               else if stored s d \<noteq> None then Inr False
               else if sat64 (length b) > n
               then Inl (Capability ''addressed object exceeds the permitted new-byte ceiling'')
               else Inr True)"
  using assms store_write_total[OF assms(2)]
  by (simp add: store_cache_addressed_bounded_def stored_def fs_exists_def case_prod_unfold Let_def split: sum.split)

text \<open>
  Caching bytes under a declared address with a ceiling on new bytes. Whatever happens, blobs under
  other addresses and all metadata stay as they are. A success means the bytes hash to the address;
  the call says it created the blob exactly when the address was vacant, then the bytes fit the
  ceiling, and afterwards the blob is there (an existing one is not replaced). A failure changes no
  blob. With the lock sound and no I/O fault the answer is determined: a malformed id is not found,
  mismatching bytes are an invalid archive, a present blob is accepted whatever the ceiling, a new one
  over the ceiling is a capability error, and any other is created.
\<close>
theorem cache_addressed_bounded_outcomes:
  assumes run: "store_cache_addressed_bounded s i b n = (t, r)"
  shows "(\<forall>j. j \<noteq> i \<longrightarrow> store_view t j = store_view s j) \<and> (\<forall>d. valid_digest d \<longrightarrow> meta_at t d = meta_at s d)
     \<and> (case r of
          Inr created \<Rightarrow> store_addr s b = i \<and> (created \<longleftrightarrow> store_view s i = None)
            \<and> (created \<longrightarrow> sat64 (length b) \<le> n)
            \<and> store_view t i = Some (case store_view s i of Some c \<Rightarrow> c | None \<Rightarrow> b)
        | Inl e \<Rightarrow> store_view t i = store_view s i)
     \<and> (\<not> os_poisoned s \<and> fs_faults (os_fs s) = (\<lambda>_ _. None) \<longrightarrow>
          map_err error_code r =
            (if \<not> is_ok (validate_id i) then Inl ''LIVE_NOT_FOUND''
             else if store_addr s b \<noteq> i then Inl ''LIVE_HOLO_INVALID''
             else if store_view s i \<noteq> None then Inr False
             else if n < sat64 (length b) then Inl ''LIVE_CAPABILITY_MISSING''
             else Inr True))"
proof (intro conjI allI impI)
  have t: "t = fst (store_cache_addressed_bounded s i b n)" "r = snd (store_cache_addressed_bounded s i b n)"
    by (simp_all add: run)
  show "store_view t j = store_view s j" if "j \<noteq> i" for j
    using that cache_bounded_view[of _ i s b n]
    by (auto simp: t(1) store_view_def validate_id_Inr split: sum.splits)
  show "meta_at t d = meta_at s d" if "valid_digest d" for d
    unfolding t(1) by (rule cache_bounded_meta[OF that])
  show "case r of
          Inr created \<Rightarrow> store_addr s b = i \<and> (created \<longleftrightarrow> store_view s i = None)
            \<and> (created \<longrightarrow> sat64 (length b) \<le> n)
            \<and> store_view t i = Some (case store_view s i of Some c \<Rightarrow> c | None \<Rightarrow> b)
        | Inl e \<Rightarrow> store_view t i = store_view s i"
  proof (cases r)
    case (Inl e)
    then have "\<not> is_ok (snd (store_cache_addressed_bounded s i b n))" by (simp add: run)
    with Inl show ?thesis using cache_bounded_view[of _ i s b n]
      by (auto simp: t(1) store_view_def validate_id_Inr split: sum.splits)
  next
    case (Inr created)
    with run have "store_cache_addressed_bounded s i b n = (t, Inr created)" by simp
    then show ?thesis by (rule cache_bounded_ok) (simp add: Inr store_addr_def store_view_def)
  qed
  assume up: "\<not> os_poisoned s \<and> fs_faults (os_fs s) = (\<lambda>_ _. None)"
  show "map_err error_code r =
            (if \<not> is_ok (validate_id i) then Inl ''LIVE_NOT_FOUND''
             else if store_addr s b \<noteq> i then Inl ''LIVE_HOLO_INVALID''
             else if store_view s i \<noteq> None then Inr False
             else if n < sat64 (length b) then Inl ''LIVE_CAPABILITY_MISSING''
             else Inr True)"
  proof (cases "validate_id i")
    case (Inl e)
    then show ?thesis using up validate_id_Inl[OF Inl] by (auto simp: t cache_bounded_total)
  next
    case (Inr d)
    moreover from Inr have "i = kappa_prefix @ d" by (simp add: validate_id_Inr)
    ultimately show ?thesis using up by (simp add: t cache_bounded_total store_addr_def store_view_def)
  qed
qed

theorem cache_addressed_bounded_outcomes_witness:
  "map_err error_code (snd (store_cache_addressed_bounded sample_store
       (kappa_prefix @ blake3_hex sample_host [1, 2, 3]) [1, 2, 3] 2)) = Inl ''LIVE_CAPABILITY_MISSING''"
proof -
  have v: "valid_digest (blake3_hex sample_host [1, 2, 3])" by (rule host_ok_digest[OF sample_host_ok])
  then have "store_view sample_store (kappa_prefix @ blake3_hex sample_host [1, 2, 3]) = None"
    by (simp add: store_view_def stored_def sample_store_def fs_get_def)
  then show ?thesis
    using cache_addressed_bounded_outcomes[of sample_store "kappa_prefix @ blake3_hex sample_host [1, 2, 3]" "[1, 2, 3]" 2,
        OF surjective_pairing] v
    by (simp add: sample_store_up store_addr_def sat64_def)
qed

end
