(* ===== verification/Store_Listing.thy ===== *)
theory Store_Listing
  imports Object_Store "HOL-Library.Multiset"
begin

text \<open>
  Renaming and listing of the object store (\<open>rename_file\<close> and \<open>list\<close> of \<open>src/store.rs\<close>): what a
  rename may change, and that a listing is complete, free of duplicates and independent of the order
  in which the operating system enumerates the directory.
\<close>

section \<open>Renaming\<close>

lemma validate_filename_Inr:
  "validate_filename raw = Inr n \<longleftrightarrow> n = trim raw \<and> n \<noteq> [] \<and> length n \<le> 255 \<and> n \<noteq> ''.'' \<and> n \<noteq> ''..''
     \<and> CHR ''/'' \<notin> set n \<and> CHR 0x5C \<notin> set n \<and> \<not> has_control n"
  by (auto simp: validate_filename_def Let_def)

lemma store_rename_frame: "same_frame s (fst (store_rename_file s i f))"
  by (auto simp: store_rename_file_def Let_def split: sum.splits prod.splits) (metis fst_conv store_write_frame)

lemma store_rename_ok:
  assumes ok: "store_ok s" and run: "store_rename_file s i raw = (t, Inr m')"
  obtains m n where "store_metadata s i = Inr m" "md_kind m = ''file''" "validate_filename raw = Inr n"
    "m' = m\<lparr>md_filename := Some n\<rparr>" "store_metadata t i = Inr m'"
    "\<And>e. valid_digest e \<Longrightarrow> i \<noteq> kappa_prefix @ e \<Longrightarrow> meta_at t e = meta_at s e"
proof -
  obtain n d m where v: "validate_filename raw = Inr n" "validate_id i = Inr d"
    "bindE (read_or_missing s (metadata_path s d) (''metadata for '' @ i @ '' not found'')) (decode_metadata s) = Inr m"
    "md_kind m = ''file''" and np: "\<not> os_poisoned s"
    using run by (auto simp: store_rename_file_def split: sum.splits if_splits)
  let ?m = "m\<lparr>md_filename := Some n\<rparr>"
  let ?w = "store_write s (metadata_path s d) (meta_encode (os_host s) ?m)"
  have w: "fst ?w = t" "is_ok (snd ?w)" "m' = ?m"
    using run v np by (auto simp: store_rename_file_def case_prod_unfold Let_def bindE_eq_Inr is_ok_iff)
  have d: "valid_digest d" "i = kappa_prefix @ d" using v(2) by (auto simp: validate_id_Inr)
  have fr: "os_host t = os_host s" "fs_faults (os_fs t) = fs_faults (os_fs s)" "metadata_path t = metadata_path s"
    unfolding w(1)[symmetric] by simp_all
  have "fs_get (os_fs t) (metadata_path s d) = Some (meta_encode (os_host s) ?m)"
    using store_write_path[OF w(2)] by (simp add: w(1))
  moreover have "fs_faults (os_fs s) OpRead (metadata_path s d) = None"
    using v(3) by (auto simp: read_or_missing_def bindE_eq_Inr fs_read_def split: option.splits sum.splits io_error.splits)
  ultimately have "store_metadata t i = Inr m'"
    using d fr store_okD(1)[OF ok]
    by (simp add: store_metadata_def w(3) bindE_eq_Inr read_or_missing_def decode_metadata_def host_ok_def)
  moreover have "store_metadata s i = Inr m" using v by (simp add: store_metadata_def)
  moreover have "meta_at t e = meta_at s e" if "valid_digest e" "i \<noteq> kappa_prefix @ e" for e
    using store_write_meta_view(2)[OF d(1) that(1)] that(2) d(2) unfolding w(1)[symmetric] by blast
  ultimately show ?thesis using that v w(3) by blast
qed

lemma store_rename_total:
  assumes "\<not> os_poisoned s" "fs_faults (os_fs s) = (\<lambda>_ _. None)"
    and "store_metadata s i = Inr m" "md_kind m = ''file''" "is_ok (validate_filename raw)"
  shows "is_ok (snd (store_rename_file s i raw))"
  using assms store_write_total[OF assms(2)]
  by (auto simp: store_rename_file_def store_metadata_def case_prod_unfold Let_def bindE_eq_Inr is_ok_iff)

text \<open>
  Renaming a file changes its display name and nothing else. On any outcome every object still
  reads the same. On success the id had a record of kind \<open>file\<close>, the new record differs from it in the
  file name only, later reads return it, the records of other ids are unchanged, and the
  name is the trimmed request: not empty, at most 255 bytes, not a relative directory name, without
  path separators or control characters. With the lock sound and no I/O fault, an acceptable name for
  a file on record is taken.
\<close>
theorem rename_file_correct:
  assumes ok: "store_ok s" and run: "store_rename_file s i raw = (t, r)"
  shows "(\<forall>j. store_get t j = store_get s j)
     \<and> (case r of Inl e \<Rightarrow> True
        | Inr m' \<Rightarrow> (\<exists>m n. store_metadata s i = Inr m \<and> md_kind m = ''file'' \<and> m' = m\<lparr>md_filename := Some n\<rparr>
            \<and> n = trim raw \<and> n \<noteq> [] \<and> length n \<le> 255 \<and> n \<noteq> ''.'' \<and> n \<noteq> ''..''
            \<and> CHR ''/'' \<notin> set n \<and> CHR 0x5C \<notin> set n \<and> \<not> has_control n)
          \<and> store_metadata t i = Inr m' \<and> (\<forall>j. j \<noteq> i \<longrightarrow> store_metadata t j = store_metadata s j))
     \<and> (\<not> os_poisoned s \<and> fs_faults (os_fs s) = (\<lambda>_ _. None) \<and> is_ok (validate_filename raw)
          \<and> (\<exists>m. store_metadata s i = Inr m \<and> md_kind m = ''file'') \<longrightarrow> is_ok r)"
proof (intro conjI impI)
  have t: "t = fst (store_rename_file s i raw)" by (simp add: run)
  have fr: "same_frame s t" unfolding t by (rule store_rename_frame)
  have st: "stored t e = stored s e" if "valid_digest e" for e unfolding t by (rule rename_stored[OF that])
  have p: "blob_path t = blob_path s" "fs_faults (os_fs t) = fs_faults (os_fs s)"
    using same_frame_paths[OF fr] fr by (simp_all add: same_frame_def)
  show "\<forall>j. store_get t j = store_get s j"
    using st p by (auto simp: store_get_def read_or_missing_def fs_read_def stored_def bindE_def validate_id_Inr
        split: sum.splits option.splits)
  show "case r of Inl e \<Rightarrow> True
        | Inr m' \<Rightarrow> (\<exists>m n. store_metadata s i = Inr m \<and> md_kind m = ''file'' \<and> m' = m\<lparr>md_filename := Some n\<rparr>
            \<and> n = trim raw \<and> n \<noteq> [] \<and> length n \<le> 255 \<and> n \<noteq> ''.'' \<and> n \<noteq> ''..''
            \<and> CHR ''/'' \<notin> set n \<and> CHR 0x5C \<notin> set n \<and> \<not> has_control n)
          \<and> store_metadata t i = Inr m' \<and> (\<forall>j. j \<noteq> i \<longrightarrow> store_metadata t j = store_metadata s j)"
  proof (cases r)
    case (Inr m')
    with run have "store_rename_file s i raw = (t, Inr m')" by simp
    with ok show ?thesis
    proof (rule store_rename_ok)
      fix m n assume a: "store_metadata s i = Inr m" "md_kind m = ''file''" "validate_filename raw = Inr n"
        "m' = m\<lparr>md_filename := Some n\<rparr>" "store_metadata t i = Inr m'"
        "\<And>e. valid_digest e \<Longrightarrow> i \<noteq> kappa_prefix @ e \<Longrightarrow> meta_at t e = meta_at s e"
      have "store_metadata t j = store_metadata s j" if "j \<noteq> i" for j
        using store_reads_cong(2)[OF fr, of j] st a(6) that by (auto simp: validate_id_Inr)
      then show ?thesis using a(1-5) Inr by (auto simp: validate_filename_Inr)
    qed
  qed simp
  show "is_ok r" if "\<not> os_poisoned s \<and> fs_faults (os_fs s) = (\<lambda>_ _. None) \<and> is_ok (validate_filename raw)
      \<and> (\<exists>m. store_metadata s i = Inr m \<and> md_kind m = ''file'')"
    using that store_rename_total[of s i _ raw] by (auto simp: run)
qed

definition sample_filled :: object_store where
  "sample_filled = fst (store_put sample_store ''file'' ''text/plain'' (Some ''a.txt'') [1, 2] 5)"

abbreviation sample_id :: string where
  "sample_id \<equiv> kappa_prefix @ blake3_hex sample_host [1, 2]"

lemma sample_filled_facts:
  "store_ok sample_filled" "\<not> os_poisoned sample_filled" "fs_faults (os_fs sample_filled) = (\<lambda>_ _. None)"
  "os_host sample_filled = sample_host"
  "\<exists>m. store_metadata sample_filled sample_id = Inr m \<and> md_kind m = ''file'' \<and> md_filename m = Some ''a.txt''"
  "store_get sample_filled sample_id = Inr [1, 2]"
proof -
  obtain m where p: "store_put sample_store ''file'' ''text/plain'' (Some ''a.txt'') [1, 2] 5 = (sample_filled, Inr m)"
    using store_put_total[OF sample_store_up(1,2), of "''file''" "''text/plain''" "Some ''a.txt''" "[1, 2]" 5]
    by (cases "store_put sample_store ''file'' ''text/plain'' (Some ''a.txt'') [1, 2] 5")
      (auto simp: is_ok_iff sample_filled_def)
  note o = store_put_ok[OF sample_store_ok p]
  show ok: "store_ok sample_filled" unfolding sample_filled_def by (rule store_put_store_ok[OF sample_store_ok])
  show fr: "\<not> os_poisoned sample_filled" "fs_faults (os_fs sample_filled) = (\<lambda>_ _. None)"
    "os_host sample_filled = sample_host"
    using o(5) sample_store_up by (simp_all add: same_frame_def)
  show "\<exists>m. store_metadata sample_filled sample_id = Inr m \<and> md_kind m = ''file'' \<and> md_filename m = Some ''a.txt''"
    using o(1,2) by (auto simp: put_record_def sample_store_up)
  have "stored sample_filled (blake3_hex sample_host [1, 2]) = Some [1, 2]"
    using o(3) by (simp add: sample_store_def stored_def fs_get_def)
  then show "store_get sample_filled sample_id = Inr [1, 2]"
    by (rule stored_get(1)[OF ok host_ok_digest[OF sample_host_ok]]) (simp add: fr)
qed

theorem rename_file_correct_witness:
  "\<exists>t m. store_rename_file sample_filled sample_id ''b.txt'' = (t, Inr m) \<and> store_metadata t sample_id = Inr m
     \<and> store_get t sample_id = store_get sample_filled sample_id"
proof -
  have t: "trim ''b.txt'' = ''b.txt''" by (rule trim_graphic) (auto simp: byte_class_defs)
  have v: "is_ok (validate_filename ''b.txt'')" by (simp add: validate_filename_def t byte_of_def)
  show ?thesis
    using rename_file_correct[OF sample_filled_facts(1), OF surjective_pairing, of sample_id "''b.txt''"]
      sample_filled_facts(2,3,5) v
    by (cases "store_rename_file sample_filled sample_id ''b.txt''") (auto simp: is_ok_def split: sum.splits)
qed

section \<open>Listing\<close>

text \<open>The record files of the store, and what reading them gives.\<close>

lemma record_files:
  assumes ok: "store_ok s" and d: "valid_digest d"
  shows "metadata_path s d \<in> set (filter (\<lambda>p. path_extension p = Some ''json'')
             (dir_entries (os_fs s) (path_join (os_root s) ''metadata''))) \<longleftrightarrow> meta_at s d \<noteq> None"
proof -
  have "path_dir_prefix (metadata_path s d) = path_join (path_join (os_root s) ''metadata'') []"
    using path_dir_prefix_append[of "d @ ''.json''" "path_join (os_root s) ''metadata'' @ ''/''"] valid_digest_chars[OF d]
    by (simp add: metadata_path_eq[OF d] path_dir_prefix_slash path_join_dir)
  then show ?thesis
    using metadata_path_ext[OF d, of s]
    by (simp add: dir_entries_def meta_at_def fs_get_def map_of_eq_None_iff)
qed

lemma record_files_only:
  assumes ok: "store_ok s"
    and p: "p \<in> set (filter (\<lambda>p. path_extension p = Some ''json'')
             (dir_entries (os_fs s) (path_join (os_root s) ''metadata'')))"
  obtains d m where "valid_digest d" "p = metadata_path s d" "meta_at s d \<noteq> None"
    "meta_decode (os_host s) (the (fs_get (os_fs s) p)) = Inr m" "md_id m = kappa_prefix @ d"
proof -
  have g: "fs_get (os_fs s) p \<noteq> None" using p by (simp add: dir_entries_def fs_get_def map_of_eq_None_iff)
  moreover have "path_extension p = Some ''json''"
    "path_dir_prefix p = path_join (os_root s) ''metadata'' @ ''/''"
    using p by (simp_all add: dir_entries_def path_join_dir)
  ultimately obtain d where d: "valid_digest d" "p = metadata_path s d" using store_okD(5)[OF ok] by blast
  with g obtain c where "meta_at s d = Some c" by (auto simp: meta_at_def)
  with store_okD(4)[OF ok d(1) this] d show ?thesis by (auto simp: meta_at_def intro: that)
qed

lemma newest_first_props:
  "mset (newest_first ms) = mset ms"
  "sorted_wrt (\<lambda>a b. md_created b < md_created a \<or> md_created a = md_created b \<and> md_id a \<le> md_id b) (newest_first ms)"
proof -
  show "mset (newest_first ms) = mset ms" by (simp add: newest_first_def)
  have "sorted (map (\<lambda>m. (- int (md_created m), md_id m)) (newest_first ms))"
    unfolding newest_first_def by (rule sorted_sort_key)
  then show "sorted_wrt (\<lambda>a b. md_created b < md_created a \<or> md_created a = md_created b \<and> md_id a \<le> md_id b) (newest_first ms)"
    unfolding sorted_map by (rule sorted_wrt_mono_rel[rotated]) auto
qed

lemma sorted_wrt_strict_ids:
  "sorted_wrt (\<lambda>a b. md_created b < md_created a \<or> md_created a = md_created b \<and> md_id a \<le> md_id b) ms \<Longrightarrow>
     distinct (map md_id ms) \<Longrightarrow>
     sorted_wrt (\<lambda>a b. md_created b < md_created a \<or> md_created a = md_created b \<and> md_id a < md_id b) ms"
  by (induction ms) (auto simp: order_less_le)

lemma store_list_facts:
  assumes ok: "store_ok s" and up: "fs_faults (os_fs s) = (\<lambda>_ _. None)"
  shows "\<exists>ms. store_list s kind = Inr ms
     \<and> set ms = {m. (\<exists>i. store_metadata s i = Inr m) \<and> (\<forall>k. kind = Some k \<longrightarrow> md_kind m = k)}
     \<and> distinct (map md_id ms)
     \<and> sorted_wrt (\<lambda>a b. md_created b < md_created a \<or> md_created a = md_created b \<and> md_id a < md_id b) ms"
proof -
  let ?ps = "filter (\<lambda>p. path_extension p = Some ''json'') (dir_entries (os_fs s) (path_join (os_root s) ''metadata''))"
  let ?m = "\<lambda>p. projr (meta_decode (os_host s) (the (fs_get (os_fs s) p)))"
  let ?k = "\<lambda>m. case kind of None \<Rightarrow> True | Some k \<Rightarrow> md_kind m = k"
  have rd: "bindE (map_err (\<lambda>e. error_io p (io_text e)) (fs_read (os_fs s) p)) (decode_metadata s) = Inr (?m p)"
    if "p \<in> set ?ps" for p
    using ok that
    by (rule record_files_only) (auto simp: bindE_eq_Inr up meta_at_def decode_metadata_def)
  have "mapE (\<lambda>p. bindE (map_err (\<lambda>e. error_io p (io_text e)) (fs_read (os_fs s) p)) (decode_metadata s)) ?ps
      = Inr (map ?m ?ps)"
    by (rule mapE_all_ok) (rule rd)
  then have l: "store_list s kind = Inr (newest_first (filter ?k (map ?m ?ps)))"
    unfolding store_list_def Let_def up by (simp only: option.case bindE_Inr)
  have mem: "m \<in> set (map ?m ?ps) \<longleftrightarrow> (\<exists>i. store_metadata s i = Inr m)" for m
  proof
    assume "m \<in> set (map ?m ?ps)"
    then obtain p where p: "p \<in> set ?ps" "m = ?m p" by auto
    from ok p(1) show "\<exists>i. store_metadata s i = Inr m"
    proof (rule record_files_only)
      fix d m' assume a: "valid_digest d" "p = metadata_path s d" "meta_at s d \<noteq> None"
        "meta_decode (os_host s) (the (fs_get (os_fs s) p)) = Inr m'"
      then have "store_metadata s (kappa_prefix @ d) = Inr m"
        using p(2) by (auto simp: store_metadata_def bindE_eq_Inr read_or_missing_def up meta_at_def decode_metadata_def)
      then show ?thesis ..
    qed
  next
    assume "\<exists>i. store_metadata s i = Inr m"
    then obtain d b where "valid_digest d" "fs_get (os_fs s) (metadata_path s d) = Some b" "meta_decode (os_host s) b = Inr m"
      by (auto simp: store_metadata_def bindE_eq_Inr read_or_missing_def decode_metadata_def validate_id_Inr)
    then show "m \<in> set (map ?m ?ps)" using record_files[OF ok, of d]
      by (auto simp: meta_at_def simp del: filter_filter set_filter intro!: image_eqI[of _ _ "metadata_path s d"])
  qed
  have inj: "md_id (?m p) = md_id (?m q) \<longrightarrow> p = q" if pq: "p \<in> set ?ps" "q \<in> set ?ps" for p q
    using ok pq(1) by (rule record_files_only) (use ok pq(2) in \<open>rule record_files_only, simp\<close>)
  have "distinct ?ps" using store_okD(2)[OF ok] by (simp add: dir_entries_def)
  then have dist: "distinct (map md_id (filter ?k (map ?m ?ps)))"
    using inj by (auto simp: distinct_map inj_on_def intro!: distinct_filter)
  let ?r = "newest_first (filter ?k (map ?m ?ps))"
  have "mset (map md_id ?r) = mset (map md_id (filter ?k (map ?m ?ps)))"
    using newest_first_props(1)[of "filter ?k (map ?m ?ps)"] by simp
  with dist have d: "distinct (map md_id ?r)" by (metis mset_eq_imp_distinct_iff)
  have "set ?r = {m. (\<exists>i. store_metadata s i = Inr m) \<and> (\<forall>k. kind = Some k \<longrightarrow> md_kind m = k)}"
    using mset_eq_setD[OF newest_first_props(1)[of "filter ?k (map ?m ?ps)"]] mem by (auto split: option.splits)
  then show ?thesis using l d newest_first_props(2)[of "filter ?k (map ?m ?ps)"] by (auto dest: sorted_wrt_strict_ids)
qed

text \<open>
  Listing a consistent store succeeds when no read is refused. The result holds exactly the records
  that \<open>metadata\<close> returns for some id and that have the wanted kind, each id once, and it is ordered
  newest first with ties broken by id; so it does not depend on the order of the directory.
\<close>
theorem store_list_correct:
  assumes ok: "store_ok s" and up: "fs_faults (os_fs s) = (\<lambda>_ _. None)"
  shows "\<exists>ms. store_list s kind = Inr ms
     \<and> set ms = {m. (\<exists>i. store_metadata s i = Inr m) \<and> (\<forall>k. kind = Some k \<longrightarrow> md_kind m = k)}
     \<and> distinct (map md_id ms)
     \<and> sorted_wrt (\<lambda>a b. md_created b < md_created a \<or> md_created a = md_created b \<and> md_id a < md_id b) ms"
  using assms by (rule store_list_facts)

theorem store_list_correct_witness:
  "\<exists>ms. store_list sample_filled (Some ''file'') = Inr ms \<and> sample_id \<in> md_id ` set ms"
proof -
  obtain m where m: "store_metadata sample_filled sample_id = Inr m" "md_kind m = ''file''"
    using sample_filled_facts(5) by blast
  have "md_id m = sample_id" by (rule store_metadata_okD[OF sample_filled_facts(1) m(1)])
  then show ?thesis
    using store_list_correct[OF sample_filled_facts(1,3), of "Some ''file''"] m by force
qed

end
