(* ===== verification/Registry_Provider.thy ===== *)
theory Registry_Provider
  imports Store_Listing
begin

text \<open>
  The storage-facing seam of the registry module (\<open>src/registry/mod.rs\<close>): the content check every
  provider applies to what its backend returns, and the contract of \<open>RegistryProvider::search\<close> as a
  locale. The contract is the one the trait documents: pages are ascending by id, a page is never
  longer than the effective limit, and following the cursors visits every match once.
\<close>

section \<open>Content check\<close>

definition verify_content :: "host \<Rightarrow> string \<Rightarrow> bytes \<Rightarrow> unit live_result" where
  "verify_content h i b =
     (let actual = kappa_prefix @ blake3_hex h b in
      if actual = i then Inr ()
      else Inl (Io (''object '' @ i @ '' is corrupt: the stored bytes hash to '' @ actual)))"

lemma verify_content_Inr: "verify_content h i b = Inr u \<longleftrightarrow> kappa_prefix @ blake3_hex h b = i"
  by (simp add: verify_content_def Let_def)

section \<open>One page of a catalogue\<close>

text \<open>What a query selects beyond its cursor.\<close>

definition after_cursor :: "object_query \<Rightarrow> object_metadata \<Rightarrow> bool" where
  "after_cursor q m \<longleftrightarrow> (case q_cursor q of None \<Rightarrow> True | Some c \<Rightarrow> c < md_id m)"

definition selected :: "object_query \<Rightarrow> object_metadata list \<Rightarrow> object_metadata list" where
  "selected q ms = filter (\<lambda>m. after_cursor q m \<and> matches q m) ms"

definition page_of :: "object_query \<Rightarrow> object_metadata list \<Rightarrow> object_page" where
  "page_of q ms =
     (let objs = take (effective_limit q) (selected q ms) in
      \<lparr>page_objects = objs,
       page_next_cursor = (if length (selected q ms) \<le> effective_limit q then None
                           else map_option md_id (if objs = [] then None else Some (last objs))),
       page_truncated = False\<rparr>)"

abbreviation by_id :: "object_metadata list \<Rightarrow> bool" where
  "by_id ms \<equiv> sorted_wrt (\<lambda>a b. md_id a < md_id b) ms"

lemma by_id_filter: "by_id ms \<Longrightarrow> by_id (filter P ms)"
  by (rule sorted_wrt_filter)

lemma page_of_bounds:
  "length (page_objects (page_of q ms)) \<le> effective_limit q"
  "set (page_objects (page_of q ms)) \<subseteq> {m \<in> set ms. after_cursor q m \<and> matches q m}"
  by (auto simp: page_of_def Let_def selected_def dest: in_set_takeD)

text \<open>In a strictly ascending list, the elements beyond the last of a prefix are the rest.\<close>

lemma filter_beyond:
  fixes f :: "'a \<Rightarrow> 'b :: linorder"
  assumes S: "sorted_wrt (\<lambda>a b. f a < f b) S" and l: "0 < l" "l \<le> length S"
  shows "filter (\<lambda>m. f (S ! (l - 1)) < f m) S = drop l S"
proof -
  have "filter (\<lambda>m. f (S ! (l - 1)) < f m) (take l S) = []"
  proof (rule filter_False, rule ballI)
    fix m assume "m \<in> set (take l S)"
    then obtain j where j: "j < l" "m = S ! j" using l by (auto simp: in_set_conv_nth)
    have "j = l - 1 \<or> f m < f (S ! (l - 1))"
      using sorted_wrt_nth_less[OF S, of j "l - 1"] j l by (cases "j = l - 1") auto
    then show "\<not> f (S ! (l - 1)) < f m" using j by auto
  qed
  moreover have "filter (\<lambda>m. f (S ! (l - 1)) < f m) (drop l S) = drop l S"
  proof (rule filter_True, rule ballI)
    fix m assume "m \<in> set (drop l S)"
    then obtain j where j: "l + j < length S" "m = S ! (l + j)"
      by (auto simp: in_set_conv_nth less_diff_conv add.commute) blast
    then show "f (S ! (l - 1)) < f m" using sorted_wrt_nth_less[OF S, of "l - 1" "l + j"] l by simp
  qed
  ultimately show ?thesis by (metis append_Nil append_take_drop_id filter_append)
qed

text \<open>The rest of a sorted catalogue after the cursor a page hands out is what the page left out.\<close>

lemma selected_next:
  assumes s: "by_id ms" and more: "effective_limit q < length (selected q ms)"
  shows "page_next_cursor (page_of q ms) = Some (md_id (selected q ms ! (effective_limit q - 1)))" (is ?c)
    and "selected (q\<lparr>q_cursor := page_next_cursor (page_of q ms)\<rparr>) ms = drop (effective_limit q) (selected q ms)"
proof -
  let ?l = "effective_limit q" and ?S = "selected q ms"
  have l: "0 < ?l" by simp
  have "last (take ?l ?S) = ?S ! (?l - 1)" using more l by (subst last_conv_nth) auto
  moreover have "?S \<noteq> []" using more by auto
  ultimately show c: ?c using more l by (simp add: page_of_def Let_def)
  have S: "by_id ?S" using s by (simp add: selected_def by_id_filter)
  let ?b = "?S ! (?l - 1)"
  have keep: "filter (\<lambda>m. md_id ?b < md_id m) ?S = drop ?l ?S"
    using filter_beyond[OF S, of ?l] more by simp
  have b: "?b \<in> set ?S" using more by (intro nth_mem) simp
  have "selected (q\<lparr>q_cursor := Some (md_id ?b)\<rparr>) ms = filter (\<lambda>m. md_id ?b < md_id m) ?S"
    using b by (auto simp: selected_def after_cursor_def intro!: filter_cong split: option.splits)
  then show "selected (q\<lparr>q_cursor := page_next_cursor (page_of q ms)\<rparr>) ms = drop ?l ?S"
    using keep c by simp
qed

section \<open>The search contract\<close>

text \<open>A cursor is opaque and valid only for the provider that issued it: \<open>issued\<close> says which are.\<close>

text \<open>A caller that follows the cursors for at most \<open>n\<close> pages; \<open>None\<close> if that was not enough.\<close>

fun walk ::
  "('s \<Rightarrow> object_query \<Rightarrow> 's \<times> object_page live_result) \<Rightarrow> nat \<Rightarrow> 's \<Rightarrow> object_query \<Rightarrow> object_metadata list option"
where
  "walk srch 0 s q = None"
| "walk srch (Suc n) s q =
     (case srch s q of
        (t, Inl _) \<Rightarrow> None
      | (t, Inr p) \<Rightarrow>
          (case page_next_cursor p of
             None \<Rightarrow> Some (page_objects p)
           | Some c \<Rightarrow> map_option (\<lambda>rest. page_objects p @ rest) (walk srch n t (q\<lparr>q_cursor := Some c\<rparr>))))"

locale registry_search =
  fixes catalog :: "'s \<Rightarrow> object_metadata list"
    and srch :: "'s \<Rightarrow> object_query \<Rightarrow> 's \<times> object_page live_result"
    and ok :: "'s \<Rightarrow> bool"
    and issued :: "string \<Rightarrow> bool"
  assumes catalog_by_id: "ok s \<Longrightarrow> by_id (catalog s)"
    and catalog_issued: "ok s \<Longrightarrow> m \<in> set (catalog s) \<Longrightarrow> issued (md_id m)"
    and search_page: "ok s \<Longrightarrow> pred_option issued (q_cursor q) \<Longrightarrow> snd (srch s q) = Inr (page_of q (catalog s))"
    and search_ok: "ok s \<Longrightarrow> ok (fst (srch s q))"
    and search_catalog: "ok s \<Longrightarrow> catalog (fst (srch s q)) = catalog s"
begin

lemma walk_complete:
  "ok s \<Longrightarrow> pred_option issued (q_cursor q) \<Longrightarrow> length (selected q (catalog s)) < n \<Longrightarrow> walk srch n s q = Some (selected q (catalog s))"
proof (induction n arbitrary: s q)
  case (Suc n)
  let ?S = "selected q (catalog s)"
  obtain t where t: "srch s q = (t, Inr (page_of q (catalog s)))"
    using search_page[OF Suc.prems(1,2)] by (cases "srch s q") auto
  have okt: "ok t" "catalog t = catalog s"
    using search_ok[OF Suc.prems(1), of q] search_catalog[OF Suc.prems(1), of q] t by simp_all
  show ?case
  proof (cases "length ?S \<le> effective_limit q")
    case True
    then show ?thesis using t by (simp add: page_of_def Let_def)
  next
    case False
    then have more: "effective_limit q < length ?S" by simp
    note nx = selected_next[OF catalog_by_id[OF Suc.prems(1)] more]
    let ?q = "q\<lparr>q_cursor := page_next_cursor (page_of q (catalog s))\<rparr>"
    have "length (selected ?q (catalog t)) < n"
      using nx(2) okt Suc.prems(3) more effective_limit_pos[of q] by (simp del: effective_limit_pos)
    moreover have "selected q (catalog s) ! (effective_limit q - 1) \<in> set ?S" using more by (intro nth_mem) simp
    then have "issued (md_id (?S ! (effective_limit q - 1)))"
      by (intro catalog_issued[OF Suc.prems(1)]) (simp add: selected_def)
    then have "pred_option issued (q_cursor ?q)" by (simp add: nx(1))
    ultimately have "walk srch n t ?q = Some (drop (effective_limit q) ?S)"
      using Suc.IH[OF okt(1), of ?q] nx(2) okt by simp
    moreover have "page_objects (page_of q (catalog s)) = take (effective_limit q) ?S"
      by (simp add: page_of_def Let_def)
    ultimately show ?thesis using t nx(1) by simp
  qed
qed simp

end

end
