(* ===== verification/Registry_Local.thy ===== *)
theory Registry_Local
  imports Registry_Provider
begin

text \<open>
  The built-in registry provider (\<open>src/registry/local.rs\<close>) over the object store: content reads with
  their check, and the search that scans the store.
\<close>

section \<open>Operations\<close>

definition local_list_objects :: "object_store \<Rightarrow> string option \<Rightarrow> object_metadata list live_result" where
  "local_list_objects s kind = store_list s kind"

definition local_put_object ::
  "object_store \<Rightarrow> string \<Rightarrow> string \<Rightarrow> string option \<Rightarrow> bytes \<Rightarrow> nat \<Rightarrow> object_store \<times> object_metadata live_result"
where
  "local_put_object s kind media_type filename b now = store_put s kind media_type filename b now"

definition local_get_object :: "object_store \<Rightarrow> string \<Rightarrow> object_content live_result" where
  "local_get_object s i =
     bindE (store_get s i) (\<lambda>b.
     bindE (verify_content (os_host s) i b) (\<lambda>_.
     bindE (store_metadata s i) (\<lambda>m. Inr \<lparr>content_metadata = m, content_bytes = b\<rparr>)))"

definition local_rename_file ::
  "object_store \<Rightarrow> string \<Rightarrow> string \<Rightarrow> object_store \<times> object_metadata live_result"
where
  "local_rename_file s i filename = store_rename_file s i filename"

text \<open>The scan loop of \<open>search\<close>: the objects kept so far, and whether the scan ran to the end.\<close>

fun search_scan ::
  "object_query \<Rightarrow> nat \<Rightarrow> object_metadata list \<Rightarrow> object_metadata list \<Rightarrow> object_metadata list \<times> bool"
where
  "search_scan q lim objects [] = (objects, True)"
| "search_scan q lim objects (m # rest) =
     (if (case q_cursor q of Some c \<Rightarrow> md_id m \<le> c | None \<Rightarrow> False) then search_scan q lim objects rest
      else if \<not> matches q m then search_scan q lim objects rest
      else if length objects = lim then (objects, False)
      else search_scan q lim (objects @ [m]) rest)"

definition local_search :: "object_store \<Rightarrow> object_query \<Rightarrow> object_page live_result" where
  "local_search s q =
     bindE (store_list s None) (\<lambda>all.
       let sorted_all = sort_key md_id all;
           (objects, exhausted) = search_scan q (effective_limit q) [] sorted_all
       in Inr \<lparr>page_objects = objects,
               page_next_cursor = (if exhausted then None
                                   else map_option md_id (if objects = [] then None else Some (last objects))),
               page_truncated = False\<rparr>)"

section \<open>The scan computes a page\<close>

lemma search_scan_eq:
  "length objects \<le> lim \<Longrightarrow>
     search_scan q lim objects ms =
       (objects @ take (lim - length objects) (selected q ms), length (selected q ms) \<le> lim - length objects)"
proof (induction ms arbitrary: objects)
  case (Cons m ms)
  have skip: "(case q_cursor q of Some c \<Rightarrow> md_id m \<le> c | None \<Rightarrow> False) \<longleftrightarrow> \<not> after_cursor q m"
    by (auto simp: after_cursor_def split: option.splits)
  show ?case
  proof (cases "after_cursor q m \<and> matches q m")
    case True
    then have sel: "selected q (m # ms) = m # selected q ms" by (simp add: selected_def)
    show ?thesis
    proof (cases "length objects = lim")
      case False
      then have "Suc (length objects) \<le> lim" using Cons.prems by simp
      then have "lim - length objects = Suc (lim - Suc (length objects))" by simp
      then show ?thesis using True False sel skip Cons.IH[of "objects @ [m]"] \<open>Suc (length objects) \<le> lim\<close> by simp
    qed (use True sel skip in simp)
  next
    case False
    then have "selected q (m # ms) = selected q ms" by (auto simp: selected_def)
    then show ?thesis using False skip Cons by auto
  qed
qed (simp add: selected_def)

lemma local_search_page:
  "store_list s None = Inr all \<Longrightarrow> local_search s q = Inr (page_of q (sort_key md_id all))"
  by (simp add: local_search_def search_scan_eq page_of_def Let_def)

definition local_catalog :: "object_store \<Rightarrow> object_metadata list" where
  "local_catalog s = (case store_list s None of Inl _ \<Rightarrow> [] | Inr all \<Rightarrow> sort_key md_id all)"

definition local_ready :: "object_store \<Rightarrow> bool" where
  "local_ready s \<longleftrightarrow> store_ok s \<and> fs_faults (os_fs s) = (\<lambda>_ _. None)"

lemma local_catalog_facts:
  assumes "local_ready s"
  shows "by_id (local_catalog s)" and "set (local_catalog s) = {m. \<exists>i. store_metadata s i = Inr m}"
    and "local_search s q = Inr (page_of q (local_catalog s))"
proof -
  obtain ms where ms: "store_list s None = Inr ms" "distinct (map md_id ms)"
    "set ms = {m. \<exists>i. store_metadata s i = Inr m}"
    using store_list_facts[of s None] assms by (auto simp: local_ready_def)
  then have c: "local_catalog s = sort_key md_id ms" by (simp add: local_catalog_def)
  have "mset (map md_id (sort_key md_id ms)) = mset (map md_id ms)" by simp
  then have "distinct (map md_id (sort_key md_id ms))" using ms(2) by (metis mset_eq_imp_distinct_iff)
  then have "sorted_wrt (<) (map md_id (sort_key md_id ms))" by (simp add: strict_sorted_iff)
  then show "by_id (local_catalog s)" unfolding c by (simp add: sorted_wrt_map)
  show "set (local_catalog s) = {m. \<exists>i. store_metadata s i = Inr m}" using ms by (simp add: c)
  show "local_search s q = Inr (page_of q (local_catalog s))" using local_search_page[OF ms(1)] by (simp add: c)
qed

interpretation local_reg: registry_search local_catalog "\<lambda>s q. (s, local_search s q)" local_ready "\<lambda>_. True"
  by unfold_locales (simp_all add: local_catalog_facts)

section \<open>Properties\<close>

text \<open>
  Searching the local registry. On a consistent store whose files are readable a search succeeds;
  its page holds matches only, ascending by id, at most the effective limit of them (never more than
  1000) and never flagged as cut short. A caller that starts without a cursor and follows the cursors it is given
  reaches the last page within a number of requests bounded by the number of matches, and has then
  collected every stored record that matches, each exactly once, in ascending order of id.
\<close>
theorem local_search_pages:
  assumes ok: "store_ok s" and up: "fs_faults (os_fs s) = (\<lambda>_ _. None)"
  shows "(\<exists>p. local_search s q = Inr p \<and> length (page_objects p) \<le> effective_limit q \<and> effective_limit q \<le> 1000
            \<and> by_id (page_objects p) \<and> \<not> page_truncated p
            \<and> (\<forall>m \<in> set (page_objects p). matches q m \<and> store_metadata s (md_id m) = Inr m))
     \<and> (q_cursor q = None \<longrightarrow>
          (\<exists>ms. set ms = {m. (\<exists>i. store_metadata s i = Inr m) \<and> matches q m} \<and> by_id ms
             \<and> (\<forall>n > length ms. walk (\<lambda>s q. (s, local_search s q)) n s q = Some ms)))"
proof
  have r: "local_ready s" using assms by (simp add: local_ready_def)
  note c = local_catalog_facts[OF r]
  let ?p = "page_of q (local_catalog s)"
  have "by_id (page_objects ?p)"
    using c(1) by (simp add: page_of_def Let_def selected_def by_id_filter sorted_wrt_take)
  moreover have "store_metadata s (md_id m) = Inr m" if "m \<in> set (page_objects ?p)" for m
    using page_of_bounds(2)[of q "local_catalog s"] that c(2) store_metadata_okD[OF ok] by blast
  moreover have "matches q m" if "m \<in> set (page_objects ?p)" for m
    using page_of_bounds(2)[of q "local_catalog s"] that by blast
  moreover have "\<not> page_truncated ?p" by (simp add: page_of_def Let_def)
  ultimately show "\<exists>p. local_search s q = Inr p \<and> length (page_objects p) \<le> effective_limit q \<and> effective_limit q \<le> 1000
            \<and> by_id (page_objects p) \<and> \<not> page_truncated p
            \<and> (\<forall>m \<in> set (page_objects p). matches q m \<and> store_metadata s (md_id m) = Inr m)"
    using c(3) page_of_bounds(1) effective_limit_le by blast
  show "q_cursor q = None \<longrightarrow>
          (\<exists>ms. set ms = {m. (\<exists>i. store_metadata s i = Inr m) \<and> matches q m} \<and> by_id ms
             \<and> (\<forall>n > length ms. walk (\<lambda>s q. (s, local_search s q)) n s q = Some ms))"
  proof
    assume "q_cursor q = None"
    then have "set (selected q (local_catalog s)) = {m. (\<exists>i. store_metadata s i = Inr m) \<and> matches q m}"
      using c(2) by (auto simp: selected_def after_cursor_def)
    moreover have "by_id (selected q (local_catalog s))" using c(1) by (simp add: selected_def by_id_filter)
    ultimately show "\<exists>ms. set ms = {m. (\<exists>i. store_metadata s i = Inr m) \<and> matches q m} \<and> by_id ms
             \<and> (\<forall>n > length ms. walk (\<lambda>s q. (s, local_search s q)) n s q = Some ms)"
      using local_reg.walk_complete[OF r, of q] \<open>q_cursor q = None\<close> by auto
  qed
qed

theorem local_search_pages_witness:
  "\<exists>ms. sample_id \<in> md_id ` set ms
     \<and> walk (\<lambda>s q. (s, local_search s q)) (Suc (length ms)) sample_filled default_query = Some ms"
proof -
  obtain m where m: "store_metadata sample_filled sample_id = Inr m" using sample_filled_facts(5) by blast
  moreover have "md_id m = sample_id" by (rule store_metadata_okD[OF sample_filled_facts(1) m])
  moreover have "matches default_query m" "q_cursor default_query = None"
    by (simp_all add: matches_def default_query_def)
  moreover obtain ms where "set ms = {m. (\<exists>i. store_metadata sample_filled i = Inr m) \<and> matches default_query m}"
    "\<forall>n > length ms. walk (\<lambda>s q. (s, local_search s q)) n sample_filled default_query = Some ms"
    using local_search_pages[OF sample_filled_facts(1,3), of default_query] \<open>q_cursor default_query = None\<close> by blast
  ultimately show ?thesis by (intro exI[of _ ms]) (metis (mono_tags, lifting) image_eqI lessI mem_Collect_eq)
qed

end
