(* ===== verification/Socket_Addr.thy ===== *)
theory Socket_Addr
  imports Rust_String
begin

text \<open>
  The part of \<open>std::net\<close> the configuration uses: parsing a \<open>SocketAddr\<close> from text and asking whether
  its address is a loopback address. Every reader takes the remaining input and returns what it read
  with the input that is left, or nothing and consumes nothing.
\<close>

section \<open>Addresses\<close>

datatype ip_addr = V4 "nat list" | V6 "nat list"

record socket_addr =
  sock_ip :: ip_addr
  sock_port :: nat

definition is_loopback :: "ip_addr \<Rightarrow> bool" where
  "is_loopback ip =
     (case ip of V4 octets \<Rightarrow> octets \<noteq> [] \<and> hd octets = 127 | V6 segments \<Rightarrow> segments = [0, 0, 0, 0, 0, 0, 0, 1])"

section \<open>Readers\<close>

type_synonym 'a reader = "string \<Rightarrow> ('a \<times> string) option"

definition to_digit :: "nat \<Rightarrow> char \<Rightarrow> nat option" where
  "to_digit radix c =
     (let d = (if is_ascii_digit c then Some (byte_of c - 48)
               else if is_ascii_lowercase c then Some (byte_of c - 87)
               else if is_ascii_uppercase c then Some (byte_of c - 55) else None)
      in case d of Some v \<Rightarrow> if v < radix then Some v else None | None \<Rightarrow> None)"

definition read_char :: "char \<Rightarrow> unit reader" where
  "read_char c s = (case s of x # xs \<Rightarrow> if x = c then Some ((), xs) else None | [] \<Rightarrow> None)"

definition digits_of :: "nat \<Rightarrow> string \<Rightarrow> string" where
  "digits_of radix s = takeWhile (\<lambda>c. to_digit radix c \<noteq> None) s"

text \<open>\<open>Parser::read_number\<close> with its digit limit, its rule for leading zeros and the target's bound.\<close>

definition read_number :: "nat \<Rightarrow> nat option \<Rightarrow> bool \<Rightarrow> nat \<Rightarrow> nat reader" where
  "read_number radix max_digits allow_zero_prefix bound s =
     (let ds = digits_of radix s;
          v = foldl (\<lambda>a c. radix * a + the (to_digit radix c)) 0 ds
      in if ds = [] then None
         else if (case max_digits of Some n \<Rightarrow> length ds > n | None \<Rightarrow> False) then None
         else if \<not> allow_zero_prefix \<and> hd ds = CHR ''0'' \<and> length ds > 1 then None
         else if v > bound then None
         else Some (v, drop (length ds) s))"

text \<open>\<open>read_separator\<close>: the separator is expected before every item but the first.\<close>

definition read_separator :: "char \<Rightarrow> nat \<Rightarrow> 'a reader \<Rightarrow> 'a reader" where
  "read_separator sep index inner s =
     (if index > 0 then (case read_char sep s of None \<Rightarrow> None | Some (_, r) \<Rightarrow> inner r) else inner s)"

fun read_octets :: "nat \<Rightarrow> nat \<Rightarrow> nat list reader" where
  "read_octets 0 index s = Some ([], s)"
| "read_octets (Suc n) index s =
     (case read_separator (CHR ''.'') index (read_number 10 (Some 3) False 255) s of
        None \<Rightarrow> None
      | Some (o1, r) \<Rightarrow> map_option (\<lambda>(os, r'). (o1 # os, r')) (read_octets n (Suc index) r))"

definition read_ipv4 :: "nat list reader" where
  "read_ipv4 s = read_octets 4 0 s"

text \<open>\<open>read_groups\<close>: the groups read, whether they ended in an IPv4 address, and the rest.\<close>

fun read_groups :: "nat \<Rightarrow> nat \<Rightarrow> string \<Rightarrow> nat list \<times> bool \<times> string" where
  "read_groups 0 i s = ([], False, s)"
| "read_groups (Suc left) i s =
     (let v4 = (if left > 0 then read_separator (CHR '':'') i read_ipv4 s else None) in
      case v4 of
        Some ([a, b, c, d], r) \<Rightarrow> ([256 * a + b, 256 * c + d], True, r)
      | _ \<Rightarrow>
          (case read_separator (CHR '':'') i (read_number 16 (Some 4) True 65535) s of
             None \<Rightarrow> ([], False, s)
           | Some (g, r) \<Rightarrow> (let (gs, v, r') = read_groups left (Suc i) r in (g # gs, v, r'))))"

definition read_ipv6 :: "nat list reader" where
  "read_ipv6 s =
     (let (head, head_v4, r) = read_groups 8 0 s in
      if length head = 8 then Some (head, r)
      else if head_v4 then None
      else case read_char (CHR '':'') r of
             None \<Rightarrow> None
           | Some (_, r1) \<Rightarrow>
               (case read_char (CHR '':'') r1 of
                  None \<Rightarrow> None
                | Some (_, r2) \<Rightarrow>
                    (let (tail, _, r3) = read_groups (8 - (length head + 1)) 0 r2
                     in Some (head @ replicate (8 - length head - length tail) 0 @ tail, r3))))"

definition read_port :: "nat reader" where
  "read_port s =
     (case read_char (CHR '':'') s of None \<Rightarrow> None | Some (_, r) \<Rightarrow> read_number 10 None True 65535 r)"

definition read_scope_id :: "nat reader" where
  "read_scope_id s =
     (case read_char (CHR ''%'') s of None \<Rightarrow> None | Some (_, r) \<Rightarrow> read_number 10 None True u32_max r)"

definition read_socket_v4 :: "socket_addr reader" where
  "read_socket_v4 s =
     (case read_ipv4 s of None \<Rightarrow> None
      | Some (ip, r) \<Rightarrow> map_option (\<lambda>(p, r'). (\<lparr>sock_ip = V4 ip, sock_port = p\<rparr>, r')) (read_port r))"

definition read_socket_v6 :: "socket_addr reader" where
  "read_socket_v6 s =
     (case read_char (CHR ''['') s of None \<Rightarrow> None
      | Some (_, r) \<Rightarrow>
          (case read_ipv6 r of None \<Rightarrow> None
           | Some (ip, r1) \<Rightarrow>
               let r2 = (case read_scope_id r1 of None \<Rightarrow> r1 | Some (_, r') \<Rightarrow> r') in
               (case read_char (CHR '']'') r2 of None \<Rightarrow> None
                | Some (_, r3) \<Rightarrow> map_option (\<lambda>(p, r'). (\<lparr>sock_ip = V6 ip, sock_port = p\<rparr>, r')) (read_port r3))))"

definition parse_socket_addr :: "string \<Rightarrow> string + socket_addr" where
  "parse_socket_addr s =
     (let r = (case read_socket_v4 s of Some x \<Rightarrow> Some x | None \<Rightarrow> read_socket_v6 s)
      in case r of Some (a, []) \<Rightarrow> Inr a | _ \<Rightarrow> Inl ''invalid socket address syntax'')"

section \<open>Facts\<close>

lemma read_octets_bounds:
  "read_octets n i s = Some (os, r) \<Longrightarrow> length os = n \<and> (\<forall>x \<in> set os. x \<le> 255)"
  by (induction n arbitrary: i s os)
    (auto simp: read_separator_def read_number_def Let_def split: option.splits if_splits)

lemma parse_socket_addr_shape:
  "parse_socket_addr s = Inr a \<Longrightarrow> (case sock_ip a of V4 os \<Rightarrow> length os = 4 | V6 gs \<Rightarrow> True)"
  using read_octets_bounds[of 4 0]
  by (auto simp: parse_socket_addr_def read_socket_v4_def read_socket_v6_def read_ipv4_def Let_def
      split: option.splits list.splits if_splits prod.splits)

text \<open>Evaluation of the parser on concrete text.\<close>

lemma read_ipv4_eval: "read_ipv4 s = read_octets (Suc (Suc (Suc (Suc 0)))) 0 s"
  by (simp add: read_ipv4_def numeral_eq_Suc)

lemmas socket_eval =
  parse_socket_addr_def read_socket_v4_def read_socket_v6_def read_ipv4_eval read_port_def
  read_separator_def read_number_def read_char_def digits_of_def to_digit_def byte_class_defs

end
