(* ===== verification/App_Config.thy ===== *)
theory App_Config
  imports Util_Fs Socket_Addr
begin

text \<open>
  The daemon's configuration (\<open>src/config.rs\<close>): its sections, their defaults, loading with schema
  upgrade, environment overrides and path expansion, and the validation that gates startup. The
  environment is a partial map; the TOML reader and writer (crate \<open>toml\<close>) are parameters.
\<close>

section \<open>Sections\<close>

datatype server_role = Node | ControlPlane

fun role_as_str :: "server_role \<Rightarrow> string" where
  "role_as_str Node = ''node''"
| "role_as_str ControlPlane = ''control_plane''"

datatype target_preference = PreferLocal | PreferRemote

record registry_config =
  reg_provider :: string
  reg_endpoint :: string
  reg_namespace :: string
  reg_token :: string
  reg_request_timeout_secs :: nat
  reg_max_scan_pages :: nat

record paths_config =
  config_dir :: string
  data_dir :: string
  state_dir :: string
  cache_dir :: string

record server_config =
  srv_listen :: string
  max_rpc_bytes :: nat
  max_http_body_bytes :: nat
  graceful_shutdown_secs :: nat
  actor_mailbox_capacity :: nat

record client_config =
  cl_preference :: target_preference
  local_endpoint :: string
  remote_endpoint :: "string option"
  allow_read_fallback :: bool
  cl_request_timeout_secs :: nat

record auth_config =
  auth_required :: bool
  token_env :: string

record tracing_config =
  trace_filter :: string
  trace_format :: string
  include_target :: bool
  include_thread_ids :: bool

record telemetry_config =
  tel_enabled :: bool
  tel_endpoint :: "string option"
  service_name :: string
  export_timeout_secs :: nat

record update_config =
  manifest_url :: "string option"
  upd_channel :: string

record inference_config =
  inf_engine :: string
  default_model :: string
  weightc_path :: string
  ollama_endpoint :: string
  inf_request_timeout_secs :: nat
  resident_sessions :: bool
  max_resident_sessions :: nat

record holo_resident_config =
  resident_kappa :: string

record holo_config =
  development_grant :: "string option"
  holo_resident :: "holo_resident_config list"

record plugin_module_config =
  plugin_id :: string
  plugin_path :: string
  plugin_sha256 :: string

record plugins_config =
  plugins_enabled :: bool
  plugin_modules :: "plugin_module_config list"

record app_config =
  schema_version :: nat
  cfg_role :: server_role
  cfg_paths :: paths_config
  cfg_server :: server_config
  cfg_client :: client_config
  cfg_auth :: auth_config
  cfg_tracing :: tracing_config
  cfg_telemetry :: telemetry_config
  cfg_modules :: "string list"
  cfg_update :: update_config
  cfg_inference :: inference_config
  cfg_holo :: holo_config
  cfg_plugins :: plugins_config
  cfg_registry :: registry_config

section \<open>Defaults\<close>

abbreviation (input) current_schema_version :: nat where
  "current_schema_version \<equiv> 2"

abbreviation (input) minimum_supported_schema_version :: nat where
  "minimum_supported_schema_version \<equiv> 1"

text \<open>The environment, as \<open>env::var_os\<close> reads it; \<open>env::var\<close> takes values that are not UTF-8 for absent.\<close>

type_synonym env = "string \<Rightarrow> string option"

definition env_var :: "env \<Rightarrow> string \<Rightarrow> string option" where
  "env_var ev k = (case ev k of Some v \<Rightarrow> if utf8_valid (map byte_of v) then Some v else None | None \<Rightarrow> None)"

definition home_dir :: "env \<Rightarrow> string" where
  "home_dir ev = (case ev ''HOME'' of Some v \<Rightarrow> v
     | None \<Rightarrow> (case ev ''USERPROFILE'' of Some v \<Rightarrow> v | None \<Rightarrow> ''.''))"

definition default_builtin_ids :: "string list" where
  "default_builtin_ids =
     [''dev.hologram.live.system'', ''dev.hologram.live.kappa-registry'', ''dev.hologram.live.files'',
      ''dev.hologram.live.holo'', ''dev.hologram.live.history'', ''dev.hologram.live.chat'',
      ''dev.hologram.live.inference'', ''dev.hologram.live.openai-compat'',
      ''dev.hologram.live.ollama-compat'', ''dev.hologram.live.control-plane'']"

definition default_registry :: registry_config where
  "default_registry = \<lparr>reg_provider = ''local'', reg_endpoint = ''http://127.0.0.1:5000'',
     reg_namespace = ''hologram'', reg_token = [], reg_request_timeout_secs = 30, reg_max_scan_pages = 20\<rparr>"

definition default_paths :: "env \<Rightarrow> paths_config" where
  "default_paths ev = (let home = home_dir ev in
     \<lparr>config_dir = path_join home ''.config/hologram'', data_dir = path_join home ''.local/share/hologram'',
      state_dir = path_join home ''.local/state/hologram'', cache_dir = path_join home ''.cache/hologram''\<rparr>)"

definition default_server :: server_config where
  "default_server = \<lparr>srv_listen = ''127.0.0.1:11435'', max_rpc_bytes = 32 * 1024 * 1024,
     max_http_body_bytes = 32 * 1024 * 1024, graceful_shutdown_secs = 30, actor_mailbox_capacity = 128\<rparr>"

definition default_client :: client_config where
  "default_client = \<lparr>cl_preference = PreferLocal, local_endpoint = ''http://127.0.0.1:11435'',
     remote_endpoint = None, allow_read_fallback = True, cl_request_timeout_secs = 30\<rparr>"

definition default_auth :: auth_config where
  "default_auth = \<lparr>auth_required = False, token_env = ''HOLOGRAM_AUTH_TOKEN''\<rparr>"

definition default_tracing :: tracing_config where
  "default_tracing = \<lparr>trace_filter = ''info,hologram_live=debug'', trace_format = ''pretty'',
     include_target = True, include_thread_ids = False\<rparr>"

definition default_telemetry :: telemetry_config where
  "default_telemetry = \<lparr>tel_enabled = True, tel_endpoint = None, service_name = ''hologram-live'',
     export_timeout_secs = 5\<rparr>"

definition default_update :: update_config where
  "default_update = \<lparr>manifest_url = None, upd_channel = ''stable''\<rparr>"

definition default_inference :: inference_config where
  "default_inference = \<lparr>inf_engine = ''echo'', default_model = [], weightc_path = ''weightc'',
     ollama_endpoint = ''http://127.0.0.1:11434'', inf_request_timeout_secs = 300,
     resident_sessions = False, max_resident_sessions = 4\<rparr>"

definition default_config :: "env \<Rightarrow> app_config" where
  "default_config ev = \<lparr>schema_version = current_schema_version, cfg_role = Node, cfg_paths = default_paths ev,
     cfg_server = default_server, cfg_client = default_client, cfg_auth = default_auth,
     cfg_tracing = default_tracing, cfg_telemetry = default_telemetry, cfg_modules = default_builtin_ids,
     cfg_update = default_update, cfg_inference = default_inference,
     cfg_holo = \<lparr>development_grant = None, holo_resident = []\<rparr>,
     cfg_plugins = \<lparr>plugins_enabled = False, plugin_modules = []\<rparr>, cfg_registry = default_registry\<rparr>"

section \<open>Validation\<close>

definition validate_endpoint :: "string \<Rightarrow> bool \<Rightarrow> unit live_result" where
  "validate_endpoint endpoint is_local =
     (if starts_with ''https://'' endpoint then Inr ()
      else if starts_with ''http://127.0.0.1'' endpoint \<or> starts_with ''http://localhost'' endpoint
           \<or> starts_with ''http://[::1]'' endpoint then Inr ()
      else let kind = (if is_local then ''local'' else ''remote'') in
           Inl (Config (kind @ '' endpoint must use HTTPS unless it is loopback: '' @ endpoint)))"

definition hex64 :: "string \<Rightarrow> bool" where
  "hex64 d \<longleftrightarrow> length d = 64 \<and> list_all is_ascii_hexdigit d"

fun resident_loop :: "string list \<Rightarrow> holo_resident_config list \<Rightarrow> unit live_result" where
  "resident_loop seen [] = Inr ()"
| "resident_loop seen (entry # rest) =
     (let kappa = trim (resident_kappa entry) in
      case strip_prefix ''blake3:'' kappa of
        None \<Rightarrow> Inl (Config (''holo.resident kappa '' @ debug_str kappa @ '' must start with '' @ debug_str ''blake3:''))
      | Some digest \<Rightarrow>
          if \<not> hex64 digest then
            Inl (Config (''holo.resident kappa '' @ debug_str kappa @ '' must be '' @ debug_str ''blake3:''
                         @ '' followed by 64 hex characters''))
          else if kappa \<in> set seen then Inl (Config (''duplicate holo.resident kappa '' @ kappa))
          else resident_loop (kappa # seen) rest)"

definition validate_holo_resident :: "app_config \<Rightarrow> unit live_result" where
  "validate_holo_resident c = resident_loop [] (holo_resident (cfg_holo c))"

fun plugins_loop :: "string list \<Rightarrow> plugin_module_config list \<Rightarrow> unit live_result" where
  "plugins_loop seen [] = Inr ()"
| "plugins_loop seen (m # rest) =
     (if trim (plugin_id m) = [] then Inl (Config ''plugins.modules entries must declare a non-empty id'')
      else if plugin_id m \<in> set default_builtin_ids then
        Inl (Config (''plugin id '' @ plugin_id m @ '' collides with a builtin module id''))
      else if plugin_id m \<in> set seen then Inl (Config (''duplicate plugin id '' @ plugin_id m))
      else if plugin_path m = [] then
        Inl (Config (''plugin '' @ plugin_id m @ '' must declare a non-empty path''))
      else if \<not> hex64 (plugin_sha256 m) then
        Inl (Config (''plugin '' @ plugin_id m @ '' sha256 must be 64 hex characters''))
      else plugins_loop (plugin_id m # seen) rest)"

definition validate_plugins :: "app_config \<Rightarrow> unit live_result" where
  "validate_plugins c = plugins_loop [] (plugin_modules (cfg_plugins c))"

definition validate_registry :: "app_config \<Rightarrow> unit live_result" where
  "validate_registry c =
     (let r = cfg_registry c in
      if reg_provider r = ''local'' then Inr ()
      else if reg_provider r = ''kappa'' then
        if trim (reg_endpoint r) = [] then
          Inl (Config (''registry.endpoint is required when registry.provider is '' @ debug_str ''kappa''))
        else if trim (reg_namespace r) = [] then
          Inl (Config (''registry.namespace is required when registry.provider is '' @ debug_str ''kappa''))
        else Inr ()
      else Inl (Config (''unsupported registry.provider '' @ debug_str (reg_provider r) @ ''; expected local or kappa'')))"

text \<open>\<open>validate\<close> in the order of the code: the listener and authentication, then the other sections.\<close>

definition validate_listener :: "env \<Rightarrow> app_config \<Rightarrow> unit live_result" where
  "validate_listener ev c =
     bindE (map_err (\<lambda>e. Config (''invalid server.listen: '' @ e)) (parse_socket_addr (srv_listen (cfg_server c))))
       (\<lambda>listen.
          if \<not> is_loopback (sock_ip listen) \<and> \<not> auth_required (cfg_auth c) then
            Inl (Config ''non-loopback server.listen requires auth.required = true'')
          else if development_grant (cfg_holo c) \<noteq> None \<and> \<not> is_loopback (sock_ip listen) then
            Inl (Config ''holo.development_grant is development-only and requires a loopback server.listen'')
          else if max_rpc_bytes (cfg_server c) = 0 \<or> max_http_body_bytes (cfg_server c) = 0 then
            Inl (Config ''message and body limits must be greater than zero'')
          else if actor_mailbox_capacity (cfg_server c) = 0 then
            Inl (Config ''server.actor_mailbox_capacity must be greater than zero'')
          else if auth_required (cfg_auth c) \<and> ev (token_env (cfg_auth c)) = None then
            Inl (Config (''auth.required is true but '' @ token_env (cfg_auth c) @ '' is not set''))
          else Inr ())"

definition validate_services :: "app_config \<Rightarrow> unit live_result" where
  "validate_services c =
     bindE (validate_endpoint (local_endpoint (cfg_client c)) True) (\<lambda>_.
     bindE (case remote_endpoint (cfg_client c) of Some r \<Rightarrow> validate_endpoint r False | None \<Rightarrow> Inr ()) (\<lambda>_.
     bindE (if trace_format (cfg_tracing c) \<in> {''pretty'', ''compact'', ''json''} then Inr ()
            else Inl (Config (''unsupported tracing.format '' @ debug_str (trace_format (cfg_tracing c))))) (\<lambda>_.
     bindE (case tel_endpoint (cfg_telemetry c) of Some r \<Rightarrow> validate_endpoint r False | None \<Rightarrow> Inr ()) (\<lambda>_.
     bindE (if inf_engine (cfg_inference c) \<in> {''echo'', ''weightc'', ''ollama''} then Inr ()
            else Inl (Config (''unsupported inference.engine '' @ debug_str (inf_engine (cfg_inference c))
                              @ ''; expected echo, weightc, or ollama''))) (\<lambda>_.
     bindE (if trim (weightc_path (cfg_inference c)) = [] then
              Inl (Config ''inference.weightc_path must not be empty'') else Inr ()) (\<lambda>_.
     bindE (validate_endpoint (ollama_endpoint (cfg_inference c)) False) (\<lambda>_.
     if inf_request_timeout_secs (cfg_inference c) = 0 then
       Inl (Config ''inference.request_timeout_secs must be greater than zero'')
     else if max_resident_sessions (cfg_inference c) = 0 then
       Inl (Config ''inference.max_resident_sessions must be greater than zero'')
     else if trim (service_name (cfg_telemetry c)) = [] then
       Inl (Config ''telemetry.service_name must not be empty'')
     else if export_timeout_secs (cfg_telemetry c) = 0 then
       Inl (Config ''telemetry.export_timeout_secs must be greater than zero'')
     else Inr ())))))))"

definition validate_config :: "env \<Rightarrow> app_config \<Rightarrow> unit live_result" where
  "validate_config ev c =
     (if schema_version c \<noteq> current_schema_version then
        Inl (Config (''unsupported configuration schema '' @ show_nat (schema_version c)))
      else bindE (validate_listener ev c) (\<lambda>_. bindE (validate_services c) (\<lambda>_.
           bindE (validate_holo_resident c) (\<lambda>_. bindE (validate_plugins c) (\<lambda>_. validate_registry c)))))"

section \<open>Loading\<close>

subsection \<open>Raw TOML tables\<close>

datatype toml =
  TInt int
| TTable "(string \<times> toml) list"
| TScalar string
| TArray "toml list"

record retired_key =
  rk_path :: string
  rk_removed_in :: nat

lemma split_once_length: "split_once c s = Some (a, b) \<Longrightarrow> length b < length s"
  by (induction s arbitrary: a b) (fastforce split: if_splits)+

text \<open>\<open>remove_dotted\<close>: the table without the path, and whether anything was there.\<close>

function remove_dotted :: "(string \<times> toml) list \<Rightarrow> string \<Rightarrow> (string \<times> toml) list \<times> bool" where
  "remove_dotted t path =
     (case split_once (CHR ''.'') path of
        None \<Rightarrow> (AList.delete path t, map_of t path \<noteq> None)
      | Some (head, rest) \<Rightarrow>
          (case map_of t head of
             Some (TTable inner) \<Rightarrow>
               (let (inner', found) = remove_dotted inner rest in (AList.update head (TTable inner') t, found))
           | _ \<Rightarrow> (t, False)))"
  by pat_completeness auto
termination
  by (relation "measure (\<lambda>(t, path). length path)") (auto dest: split_once_length)

declare remove_dotted.simps [simp del]

fun prune_loop :: "retired_key list \<Rightarrow> (string \<times> toml) list \<Rightarrow> string list \<Rightarrow> (string \<times> toml) list \<times> string list" where
  "prune_loop [] t dropped = (t, dropped)"
| "prune_loop (key # keys) t dropped =
     (let (t', found) = remove_dotted t (rk_path key) in
      prune_loop keys t' (if found then dropped @ [rk_path key] else dropped))"

definition prune_retired_keys ::
  "(string \<times> toml) list \<Rightarrow> nat \<Rightarrow> retired_key list \<Rightarrow> (string \<times> toml) list \<times> string list"
where
  "prune_retired_keys t from retired = prune_loop (filter (\<lambda>k. rk_removed_in k > from) retired) t []"

definition retired_keys :: "retired_key list" where
  "retired_keys = []"

subsection \<open>Reading, upgrading, overriding\<close>

text \<open>The TOML crate: text to table, text to configuration, table to configuration, and back to text.\<close>

record toml_codec =
  toml_table :: "string \<Rightarrow> string + (string \<times> toml) list"
  toml_config :: "string \<Rightarrow> string + app_config"
  config_of_table :: "(string \<times> toml) list \<Rightarrow> string + app_config"
  config_to_toml :: "app_config \<Rightarrow> string + string"

definition schema_of_table :: "(string \<times> toml) list \<Rightarrow> nat option" where
  "schema_of_table t =
     (case map_of t ''schema_version'' of
        Some (TInt v) \<Rightarrow> if 0 \<le> v \<and> v \<le> int u32_max then Some (nat v) else None
      | _ \<Rightarrow> None)"

definition from_source :: "toml_codec \<Rightarrow> string \<Rightarrow> bool \<Rightarrow> retired_key list \<Rightarrow> app_config live_result" where
  "from_source tc source upgrade retired =
     (if \<not> upgrade then map_err Config (toml_config tc source)
      else bindE (map_err Config (toml_table tc source)) (\<lambda>table.
        let table' = (case schema_of_table table of
                        Some from \<Rightarrow> fst (prune_retired_keys table from retired)
                      | None \<Rightarrow> table)
        in map_err Config (config_of_table tc table')))"

text \<open>\<open>migrate\<close>: the configuration at the current schema, and whether it changed.\<close>

definition migrate :: "app_config \<Rightarrow> (app_config \<times> bool) live_result" where
  "migrate c =
     (if schema_version c = current_schema_version then Inr (c, False)
      else if schema_version c > current_schema_version then
        Inl (Config (''configuration schema '' @ show_nat (schema_version c) @ '' is newer than this build supports (''
                     @ show_nat current_schema_version @ ''); upgrade hologram to read it''))
      else if schema_version c < minimum_supported_schema_version then
        Inl (Config (''configuration schema '' @ show_nat (schema_version c) @ '' predates the oldest readable schema (''
                     @ show_nat minimum_supported_schema_version @ ''); regenerate it with `hologram init --force`''))
      else Inr (c\<lparr>schema_version := current_schema_version\<rparr>, True))"

definition read_to_string :: "fs \<Rightarrow> string \<Rightarrow> string live_result" where
  "read_to_string t path =
     (case fs_read t path of
        Inl e \<Rightarrow> Inl (error_io path (io_text e))
      | Inr b \<Rightarrow> if utf8_valid (map unat b) then Inr (bytes_string b)
                 else Inl (error_io path ''stream did not contain valid UTF-8''))"

text \<open>\<open>persist_upgrade\<close>: the outcome is only logged.\<close>

definition persist_upgrade :: "toml_codec \<Rightarrow> nat \<Rightarrow> app_config \<Rightarrow> string \<Rightarrow> fs \<Rightarrow> fs" where
  "persist_upgrade tc pid c path t =
     (case config_to_toml tc c of Inl _ \<Rightarrow> t | Inr encoded \<Rightarrow> fst (atomic_write pid path (string_bytes encoded) t))"

text \<open>The message of the integer parser: the first character it cannot take decides.\<close>

fun int_error_at :: "nat \<Rightarrow> string \<Rightarrow> string" where
  "int_error_at acc [] = []"
| "int_error_at acc (c # cs) =
     (if \<not> is_ascii_digit c then ''invalid digit found in string''
      else if 10 * acc + (byte_of c - 48) > u64_max then ''number too large to fit in target type''
      else int_error_at (10 * acc + (byte_of c - 48)) cs)"

definition int_error_text :: "string \<Rightarrow> string" where
  "int_error_text s =
     (if s = [] then ''cannot parse integer from empty string''
      else if s = ''+'' \<or> s = ''-'' then ''invalid digit found in string''
      else int_error_at 0 (if hd s = CHR ''+'' then tl s else s))"

definition override :: "'a option \<Rightarrow> 'a \<Rightarrow> 'a" where
  "override x y = (case x of Some v \<Rightarrow> v | None \<Rightarrow> y)"

definition apply_environment :: "env \<Rightarrow> app_config \<Rightarrow> app_config live_result" where
  "apply_environment ev c0 =
     (let c1 = c0\<lparr>cfg_server := (cfg_server c0)\<lparr>srv_listen := override (env_var ev ''HOLOGRAM_LISTEN'') (srv_listen (cfg_server c0))\<rparr>\<rparr>
      in bindE (case env_var ev ''HOLOGRAM_MAX_RPC_BYTES'' of
           None \<Rightarrow> Inr c1
         | Some v \<Rightarrow> (case parse_u64 v of
                       None \<Rightarrow> Inl (Config (''HOLOGRAM_MAX_RPC_BYTES must be a positive byte count: '' @ int_error_text v))
                     | Some n \<Rightarrow> Inr (c1\<lparr>cfg_server := (cfg_server c1)\<lparr>max_rpc_bytes := n\<rparr>\<rparr>)))
      (\<lambda>c2.
        let client = cfg_client c2; tracing = cfg_tracing c2; telemetry = cfg_telemetry c2; paths = cfg_paths c2 in
        Inr (c2\<lparr>cfg_client := client\<lparr>remote_endpoint :=
                  (case env_var ev ''HOLOGRAM_REMOTE_ENDPOINT'' of Some v \<Rightarrow> Some v | None \<Rightarrow> remote_endpoint client)\<rparr>,
                cfg_tracing := tracing\<lparr>trace_filter :=
                  (case env_var ev ''HOLOGRAM_LOG'' of Some v \<Rightarrow> v | None \<Rightarrow> override (env_var ev ''RUST_LOG'') (trace_filter tracing))\<rparr>,
                cfg_telemetry := telemetry\<lparr>tel_endpoint :=
                  (case env_var ev ''OTEL_EXPORTER_OTLP_ENDPOINT'' of Some v \<Rightarrow> Some v | None \<Rightarrow> tel_endpoint telemetry),
                  service_name := override (env_var ev ''OTEL_SERVICE_NAME'') (service_name telemetry)\<rparr>,
                cfg_paths := paths\<lparr>data_dir := override (ev ''HOLOGRAM_DATA_DIR'') (data_dir paths),
                  state_dir := override (ev ''HOLOGRAM_STATE_DIR'') (state_dir paths),
                  cache_dir := override (ev ''HOLOGRAM_CACHE_DIR'') (cache_dir paths)\<rparr>\<rparr>)))"

definition path_is_relative :: "string \<Rightarrow> bool" where
  "path_is_relative p \<longleftrightarrow> \<not> starts_with ''/'' p"

definition expand_paths :: "env \<Rightarrow> app_config \<Rightarrow> app_config" where
  "expand_paths ev c =
     (let ex = expand_home (home_dir ev); p = cfg_paths c;
          p' = \<lparr>config_dir = ex (config_dir p), data_dir = ex (data_dir p), state_dir = ex (state_dir p),
                cache_dir = ex (cache_dir p)\<rparr>;
          ms = map (\<lambda>m. m\<lparr>plugin_path := ex (plugin_path m)\<rparr>) (plugin_modules (cfg_plugins c));
          g = (case development_grant (cfg_holo c) of
                 None \<Rightarrow> None
               | Some q \<Rightarrow> Some (if path_is_relative (ex q) then path_join (config_dir p') (ex q) else ex q))
      in c\<lparr>cfg_paths := p', cfg_plugins := (cfg_plugins c)\<lparr>plugin_modules := ms\<rparr>,
           cfg_holo := (cfg_holo c)\<lparr>development_grant := g\<rparr>\<rparr>)"

definition default_path :: "env \<Rightarrow> string" where
  "default_path ev =
     path_join (case ev ''HOLOGRAM_CONFIG_DIR'' of Some d \<Rightarrow> d | None \<Rightarrow> path_join (home_dir ev) ''.config/hologram'') ''live.toml''"

definition config_path :: "env \<Rightarrow> string option \<Rightarrow> string" where
  "config_path ev path = (case path of None \<Rightarrow> default_path ev | Some p \<Rightarrow> expand_home (home_dir ev) p)"

definition load_inner ::
  "env \<Rightarrow> toml_codec \<Rightarrow> nat \<Rightarrow> string option \<Rightarrow> bool \<Rightarrow> fs \<Rightarrow> fs \<times> (app_config \<times> string) live_result"
where
  "load_inner ev tc pid path0 upgrade t =
     (let path = config_path ev path0; exists = fs_exists t path in
      case (if exists then bindE (read_to_string t path) (\<lambda>source. from_source tc source upgrade retired_keys)
            else Inr (default_config ev)) of
        Inl e \<Rightarrow> (t, Inl e)
      | Inr c \<Rightarrow>
          (case (if upgrade then migrate c else Inr (c, False)) of
             Inl e \<Rightarrow> (t, Inl e)
           | Inr (c', changed) \<Rightarrow>
               let t' = (if changed \<and> exists then persist_upgrade tc pid c' path t else t) in
               (t', bindE (apply_environment ev c') (\<lambda>c2.
                    let c3 = expand_paths ev c2 in
                    bindE (validate_config ev c3) (\<lambda>_. Inr (c3, path))))))"

definition load_config ::
  "env \<Rightarrow> toml_codec \<Rightarrow> nat \<Rightarrow> string option \<Rightarrow> fs \<Rightarrow> fs \<times> (app_config \<times> string) live_result"
where
  "load_config ev tc pid path t = load_inner ev tc pid path True t"

definition load_for_bootstrap ::
  "env \<Rightarrow> toml_codec \<Rightarrow> nat \<Rightarrow> string option \<Rightarrow> fs \<Rightarrow> fs \<times> (app_config \<times> string) live_result"
where
  "load_for_bootstrap ev tc pid path t = load_inner ev tc pid path False t"

fun create_dirs :: "string list \<Rightarrow> fs \<Rightarrow> unit live_result" where
  "create_dirs [] t = Inr ()"
| "create_dirs (d # ds) t = (case fs_faults t OpCreateDir d of Some m \<Rightarrow> Inl (error_io d m) | None \<Rightarrow> create_dirs ds t)"

definition create_directories :: "app_config \<Rightarrow> fs \<Rightarrow> unit live_result" where
  "create_directories c t =
     (let p = cfg_paths c in create_dirs [config_dir p, data_dir p, state_dir p, cache_dir p] t)"

definition initialize_config ::
  "env \<Rightarrow> toml_codec \<Rightarrow> nat \<Rightarrow> string option \<Rightarrow> bool \<Rightarrow> fs \<Rightarrow> fs \<times> string live_result"
where
  "initialize_config ev tc pid path0 force t =
     (let path = config_path ev path0 in
      if fs_exists t path \<and> \<not> force then
        (t, Inl (Conflict (path @ '' already exists; pass --force to replace it'')))
      else
        let c = default_config ev in
        case bindE (create_directories c t) (\<lambda>_. map_err Config (config_to_toml tc c)) of
          Inl e \<Rightarrow> (t, Inl e)
        | Inr encoded \<Rightarrow>
            (let (t', r) = atomic_write pid path (string_bytes encoded) t in (t', bindE r (\<lambda>_. Inr path))))"

definition auth_token :: "env \<Rightarrow> app_config \<Rightarrow> string option" where
  "auth_token ev c = env_var ev (token_env (cfg_auth c))"

section \<open>What validation accepts\<close>

lemma validate_endpoint_Inr:
  "validate_endpoint e l = Inr () \<longleftrightarrow>
     prefix ''https://'' e \<or> prefix ''http://127.0.0.1'' e \<or> prefix ''http://localhost'' e \<or> prefix ''http://[::1]'' e"
  by (auto simp: validate_endpoint_def starts_with_prefix Let_def)

lemma resident_loop_Inr:
  "resident_loop seen rs = Inr () \<longleftrightarrow>
     (\<forall>r \<in> set rs. \<exists>d. trim (resident_kappa r) = ''blake3:'' @ d \<and> hex64 d)
     \<and> distinct (map (\<lambda>r. trim (resident_kappa r)) rs)
     \<and> set (map (\<lambda>r. trim (resident_kappa r)) rs) \<inter> set seen = {}"
proof (induction rs arbitrary: seen)
  case (Cons r rs)
  show ?case
  proof (cases "strip_prefix ''blake3:'' (trim (resident_kappa r))")
    case None
    then have "\<nexists>d. trim (resident_kappa r) = ''blake3:'' @ d" by (auto simp: strip_prefix_eq_None)
    with None show ?thesis by (auto simp: Let_def)
  next
    case (Some d)
    then have k: "trim (resident_kappa r) = ''blake3:'' @ d" by simp
    show ?thesis using Some by (auto simp: Let_def Cons.IH k simp del: strip_prefix_eq_Some)
  qed
qed simp

lemma plugins_loop_Inr:
  "plugins_loop seen ms = Inr () \<longleftrightarrow>
     (\<forall>m \<in> set ms. trim (plugin_id m) \<noteq> [] \<and> plugin_id m \<notin> set default_builtin_ids
        \<and> plugin_path m \<noteq> [] \<and> hex64 (plugin_sha256 m))
     \<and> distinct (map plugin_id ms) \<and> set (map plugin_id ms) \<inter> set seen = {}"
  by (induction ms arbitrary: seen) auto

lemma validate_listener_Inr:
  "validate_listener ev c = Inr () \<longleftrightarrow>
     (\<exists>a. parse_socket_addr (srv_listen (cfg_server c)) = Inr a
        \<and> (is_loopback (sock_ip a) \<or> auth_required (cfg_auth c) \<and> development_grant (cfg_holo c) = None))
     \<and> 0 < max_rpc_bytes (cfg_server c) \<and> 0 < max_http_body_bytes (cfg_server c)
     \<and> 0 < actor_mailbox_capacity (cfg_server c)
     \<and> (auth_required (cfg_auth c) \<longrightarrow> ev (token_env (cfg_auth c)) \<noteq> None)"
  by (auto simp: validate_listener_def bindE_eq_Inr)

lemma validate_services_Inr:
  "validate_services c = Inr () \<longleftrightarrow>
     validate_endpoint (local_endpoint (cfg_client c)) True = Inr ()
     \<and> (\<forall>e. remote_endpoint (cfg_client c) = Some e \<longrightarrow> validate_endpoint e False = Inr ())
     \<and> (\<forall>e. tel_endpoint (cfg_telemetry c) = Some e \<longrightarrow> validate_endpoint e False = Inr ())
     \<and> validate_endpoint (ollama_endpoint (cfg_inference c)) False = Inr ()
     \<and> trace_format (cfg_tracing c) \<in> {''pretty'', ''compact'', ''json''}
     \<and> inf_engine (cfg_inference c) \<in> {''echo'', ''weightc'', ''ollama''}
     \<and> trim (weightc_path (cfg_inference c)) \<noteq> [] \<and> 0 < inf_request_timeout_secs (cfg_inference c)
     \<and> 0 < max_resident_sessions (cfg_inference c) \<and> trim (service_name (cfg_telemetry c)) \<noteq> []
     \<and> 0 < export_timeout_secs (cfg_telemetry c)"
  unfolding validate_services_def bindE_eq_Inr bindE_if_guard
  by (cases "remote_endpoint (cfg_client c)"; cases "tel_endpoint (cfg_telemetry c)") (auto split: if_splits)

lemma validate_registry_Inr:
  "validate_registry c = Inr () \<longleftrightarrow>
     reg_provider (cfg_registry c) = ''local''
     \<or> reg_provider (cfg_registry c) = ''kappa'' \<and> trim (reg_endpoint (cfg_registry c)) \<noteq> []
        \<and> trim (reg_namespace (cfg_registry c)) \<noteq> []"
  by (auto simp: validate_registry_def Let_def)

end
