(* ===== verification/Json.thy ===== *)
theory Json
  imports Host
begin

text \<open>
  JSON documents as the program handles them (\<open>serde_json::Value\<close>): the value type, the ordered map
  of an object with its insertion and lookup, and the accessors the code uses. Parsing and printing
  are third-party code: a codec record with its round-trip law, and a sample codec on which it holds.
\<close>

section \<open>Values\<close>

text \<open>A number is a \<open>u64\<close>, or any other number kept as its text.\<close>

datatype json =
  JNull
| JBool bool
| JNum nat
| JOther string
| JStr string
| JArr "json list"
| JObj "(string \<times> json) list"

text \<open>\<open>serde_json::Map\<close> keeps its entries ordered by key.\<close>

fun map_insert :: "string \<Rightarrow> 'v \<Rightarrow> (string \<times> 'v) list \<Rightarrow> (string \<times> 'v) list" where
  "map_insert k v [] = [(k, v)]"
| "map_insert k v ((k', v') # m) =
     (if k < k' then (k, v) # (k', v') # m
      else if k = k' then (k, v) # m
      else (k', v') # map_insert k v m)"

definition map_build :: "(string \<times> 'v) list \<Rightarrow> (string \<times> 'v) list" where
  "map_build kvs = foldl (\<lambda>m (k, v). map_insert k v m) [] kvs"

text \<open>The \<open>json!\<close> macro on an object literal.\<close>

definition json_object :: "(string \<times> json) list \<Rightarrow> json" where
  "json_object kvs = JObj (map_build kvs)"

fun json_get :: "string \<Rightarrow> json \<Rightarrow> json option" where
  "json_get k (JObj kvs) = map_of kvs k"
| "json_get k _ = None"

fun as_str :: "json \<Rightarrow> string option" where
  "as_str (JStr s) = Some s"
| "as_str _ = None"

fun as_u64 :: "json \<Rightarrow> nat option" where
  "as_u64 (JNum n) = Some n"
| "as_u64 _ = None"

fun as_array :: "json \<Rightarrow> json list option" where
  "as_array (JArr xs) = Some xs"
| "as_array _ = None"

fun as_object :: "json \<Rightarrow> (string \<times> json) list option" where
  "as_object (JObj kvs) = Some kvs"
| "as_object _ = None"

text \<open>Values the program can build: every object's keys strictly ascend and numbers fit.\<close>

fun json_wf :: "json \<Rightarrow> bool" where
  "json_wf (JNum n) \<longleftrightarrow> n \<le> u64_max"
| "json_wf (JArr xs) \<longleftrightarrow> (\<forall>x \<in> set xs. json_wf x)"
| "json_wf (JObj kvs) \<longleftrightarrow> sorted_wrt (<) (map fst kvs) \<and> (\<forall>kv \<in> set kvs. json_wf (snd kv))"
| "json_wf (JOther s) \<longleftrightarrow> False"
| "json_wf _ \<longleftrightarrow> True"

section \<open>Facts on ordered maps\<close>

lemma map_of_map_insert [simp]: "map_of (map_insert k v m) = (map_of m)(k \<mapsto> v)"
  by (induction m) (auto simp: fun_eq_iff)

lemma map_insert_fst: "fst ` set (map_insert k v m) = insert k (fst ` set m)"
  by (induction m) (auto split: if_splits, force+)

lemma map_insert_set: "set (map_insert k v m) \<subseteq> insert (k, v) (set m)"
  by (induction m) (auto split: if_splits)

lemma map_insert_sorted: "sorted_wrt (<) (map fst m) \<Longrightarrow> sorted_wrt (<) (map fst (map_insert k v m))"
proof (induction m)
  case (Cons x m)
  obtain k' v' where x: "x = (k', v')" by force
  have "fst y = k \<or> fst y \<in> fst ` set m" if "y \<in> set (map_insert k v m)" for y
    using map_insert_fst[of k v m] that by (metis image_eqI insertE)
  then show ?case using Cons by (fastforce simp: x)
qed simp

lemma map_of_map_build [simp]: "map_of (map_build kvs) = map_of (rev kvs)"
proof -
  have "map_of (foldl (\<lambda>m (k, v). map_insert k v m) m kvs) = map_of m ++ map_of (rev kvs)" for m
    by (induction kvs arbitrary: m) (auto simp: map_add_def fun_eq_iff split: option.splits)
  then show ?thesis by (simp add: map_build_def)
qed

lemma map_build_wf:
  "sorted_wrt (<) (map fst (map_build kvs)) \<and> set (map_build kvs) \<subseteq> set kvs"
proof -
  have "sorted_wrt (<) (map fst m) \<Longrightarrow>
      sorted_wrt (<) (map fst (foldl (\<lambda>m (k, v). map_insert k v m) m kvs))
      \<and> set (foldl (\<lambda>m (k, v). map_insert k v m) m kvs) \<subseteq> set m \<union> set kvs" for m
  proof (induction kvs arbitrary: m)
    case (Cons x kvs)
    from Cons.IH[OF map_insert_sorted[OF Cons.prems, of "fst x" "snd x"]] map_insert_set[of "fst x" "snd x" m]
    show ?case by (auto simp: case_prod_unfold)
  qed simp
  from this[of "[]"] show ?thesis by (simp add: map_build_def)
qed

lemma json_object_wf [simp]: "(\<forall>kv \<in> set kvs. json_wf (snd kv)) \<Longrightarrow> json_wf (json_object kvs)"
  using map_build_wf[of kvs] by (auto simp: json_object_def)

lemma json_get_object [simp]: "json_get k (json_object kvs) = map_of (rev kvs) k"
  by (simp add: json_object_def)

section \<open>Codec\<close>

record json_codec =
  json_to_bytes :: "json \<Rightarrow> bytes"
  json_of_bytes :: "bytes \<Rightarrow> string + json"

definition json_codec_ok :: "json_codec \<Rightarrow> bool" where
  "json_codec_ok c \<longleftrightarrow> (\<forall>v. json_wf v \<longrightarrow> json_of_bytes c (json_to_bytes c v) = Inr v)"

subsection \<open>A sample codec\<close>

fun enc_json :: "json \<Rightarrow> bytes" where
  "enc_json JNull = [0]"
| "enc_json (JBool b) = [1, if b then 1 else 0]"
| "enc_json (JNum n) = 2 # enc_str (show_nat n)"
| "enc_json (JOther s) = 3 # enc_str s"
| "enc_json (JStr s) = 4 # enc_str s"
| "enc_json (JArr xs) = 5 # concat (map (\<lambda>x. 1 # enc_json x) xs) @ [0]"
| "enc_json (JObj kvs) = 6 # concat (map (\<lambda>kv. 1 # enc_str (fst kv) @ enc_json (snd kv)) kvs) @ [0]"

text \<open>The decoder; the first argument bounds its depth and is started at the input's length.\<close>

fun dec_json :: "nat \<Rightarrow> bytes \<Rightarrow> (json \<times> bytes) option"
  and dec_items :: "nat \<Rightarrow> bytes \<Rightarrow> (json list \<times> bytes) option"
  and dec_entries :: "nat \<Rightarrow> bytes \<Rightarrow> ((string \<times> json) list \<times> bytes) option"
where
  "dec_json 0 b = None"
| "dec_json (Suc n) [] = None"
| "dec_json (Suc n) (t # r) =
     (if t = 0 then Some (JNull, r)
      else if t = 1 then (case r of [] \<Rightarrow> None | b # r' \<Rightarrow> Some (JBool (b = 1), r'))
      else if t = 2 then map_option (\<lambda>(s, r'). (JNum (digits_val s), r')) (dec_str r)
      else if t = 3 then map_option (\<lambda>(s, r'). (JOther s, r')) (dec_str r)
      else if t = 4 then map_option (\<lambda>(s, r'). (JStr s, r')) (dec_str r)
      else if t = 5 then map_option (\<lambda>(xs, r'). (JArr xs, r')) (dec_items n r)
      else map_option (\<lambda>(kvs, r'). (JObj kvs, r')) (dec_entries n r))"
| "dec_items 0 b = None"
| "dec_items (Suc n) [] = None"
| "dec_items (Suc n) (t # r) =
     (if t = 0 then Some ([], r)
      else case dec_json n r of None \<Rightarrow> None
           | Some (x, r') \<Rightarrow> map_option (\<lambda>(xs, r''). (x # xs, r'')) (dec_items n r'))"
| "dec_entries 0 b = None"
| "dec_entries (Suc n) [] = None"
| "dec_entries (Suc n) (t # r) =
     (if t = 0 then Some ([], r)
      else case dec_str r of None \<Rightarrow> None
           | Some (k, r') \<Rightarrow>
               (case dec_json n r' of None \<Rightarrow> None
                | Some (x, r'') \<Rightarrow> map_option (\<lambda>(kvs, r3). ((k, x) # kvs, r3)) (dec_entries n r'')))"

lemma length_enc_json_pos: "0 < length (enc_json v)"
  by (cases v) auto

lemma dec_items_enc:
  assumes "\<And>x n r. x \<in> set xs \<Longrightarrow> length (enc_json x) \<le> n \<Longrightarrow> dec_json n (enc_json x @ r) = Some (x, r)"
    and "length (concat (map (\<lambda>x. 1 # enc_json x) xs)) < n"
  shows "dec_items n (concat (map (\<lambda>x. 1 # enc_json x) xs) @ 0 # r) = Some (xs, r)"
  using assms
proof (induction xs arbitrary: n)
  case Nil
  then show ?case by (cases n) auto
next
  case (Cons x xs)
  then obtain k where k: "n = Suc k" by (cases n) auto
  have "dec_json k (enc_json x @ concat (map (\<lambda>x. 1 # enc_json x) xs) @ 0 # r)
      = Some (x, concat (map (\<lambda>x. 1 # enc_json x) xs) @ 0 # r)"
    using Cons.prems k by simp
  moreover have "dec_items k (concat (map (\<lambda>x. 1 # enc_json x) xs) @ 0 # r) = Some (xs, r)"
    using Cons.prems k by (intro Cons.IH) auto
  ultimately show ?case by (simp add: k)
qed

lemma dec_entries_enc:
  assumes "\<And>kv n r. kv \<in> set kvs \<Longrightarrow> length (enc_json (snd kv)) \<le> n \<Longrightarrow>
      dec_json n (enc_json (snd kv) @ r) = Some (snd kv, r)"
    and "length (concat (map (\<lambda>kv. 1 # enc_str (fst kv) @ enc_json (snd kv)) kvs)) < n"
  shows "dec_entries n (concat (map (\<lambda>kv. 1 # enc_str (fst kv) @ enc_json (snd kv)) kvs) @ 0 # r) = Some (kvs, r)"
  using assms
proof (induction kvs arbitrary: n)
  case Nil
  then show ?case by (cases n) auto
next
  case (Cons kv kvs)
  then obtain k where k: "n = Suc k" by (cases n) auto
  have "dec_json k (enc_json (snd kv) @ concat (map (\<lambda>kv. 1 # enc_str (fst kv) @ enc_json (snd kv)) kvs) @ 0 # r)
      = Some (snd kv, concat (map (\<lambda>kv. 1 # enc_str (fst kv) @ enc_json (snd kv)) kvs) @ 0 # r)"
    using Cons.prems k by simp
  moreover have "dec_entries k (concat (map (\<lambda>kv. 1 # enc_str (fst kv) @ enc_json (snd kv)) kvs) @ 0 # r) = Some (kvs, r)"
    using Cons.prems k by (intro Cons.IH) auto
  ultimately show ?case by (simp add: k dec_enc_str)
qed

lemma dec_enc_json: "length (enc_json v) \<le> n \<Longrightarrow> dec_json n (enc_json v @ r) = Some (v, r)"
proof (induction v arbitrary: n r rule: enc_json.induct)
  case 1
  then show ?case by (cases n) (simp_all add: dec_enc_str digits_val_show_nat del: show_nat.simps)
next
  case (2 b)
  then show ?case by (cases n) (simp_all add: dec_enc_str digits_val_show_nat del: show_nat.simps)
next
  case (3 m)
  then show ?case by (cases n) (simp_all add: dec_enc_str digits_val_show_nat del: show_nat.simps)
next
  case (4 s)
  then show ?case by (cases n) (simp_all add: dec_enc_str digits_val_show_nat del: show_nat.simps)
next
  case (5 s)
  then show ?case by (cases n) (simp_all add: dec_enc_str digits_val_show_nat del: show_nat.simps)
next
  case (6 xs)
  then obtain k where k: "n = Suc k" by (cases n) auto
  have "dec_items k (concat (map (\<lambda>x. 1 # enc_json x) xs) @ 0 # r) = Some (xs, r)"
    by (rule dec_items_enc) (use 6 k in auto)
  then show ?case by (simp add: k)
next
  case (7 kvs)
  then obtain k where k: "n = Suc k" by (cases n) auto
  have "dec_entries k (concat (map (\<lambda>kv. 1 # enc_str (fst kv) @ enc_json (snd kv)) kvs) @ 0 # r) = Some (kvs, r)"
    by (rule dec_entries_enc) (use 7 k in auto)
  then show ?case by (simp add: k)
qed

definition sample_json :: json_codec where
  "sample_json = \<lparr>json_to_bytes = enc_json,
     json_of_bytes = (\<lambda>b. case dec_json (length b) b of Some (v, []) \<Rightarrow> Inr v | _ \<Rightarrow> Inl ''malformed document'')\<rparr>"

lemma sample_json_ok: "json_codec_ok sample_json"
  using dec_enc_json[where r = "[]"] by (simp add: json_codec_ok_def sample_json_def)

end
