(* ===== verification/Kappa_Client.thy ===== *)
theory Kappa_Client
  imports App_Config Json
begin

text \<open>
  The HTTP client of an external kappa registry (\<open>src/registry/kappa_client.rs\<close>). The transport
  (crate \<open>reqwest\<close>) and the server behind it are a parameter: a function that takes a request and the
  state of the outside world and gives an answer or a transport failure. Everything the client decides
  itself is defined here: the requests it sends, how it reads the answers, and which error each
  failure becomes.
\<close>

section \<open>Transport\<close>

datatype verb = GET | PUT | HEAD | DELETE

record http_request =
  rq_verb :: verb
  rq_url :: string
  rq_query :: "(string \<times> string) list"
  rq_headers :: "(string \<times> string) list"
  rq_body :: bytes

text \<open>A response: its status, the headers the client reads, the body or the failure of reading it, the
  body as text, and the announced length.\<close>

record http_response =
  rs_status :: nat
  rs_headers :: "(string \<times> string) list"
  rs_body :: "string + bytes"
  rs_text :: "string + string"
  rs_content_length :: "nat option"

text \<open>The world outside: sending, the two clocks, the text of a status code, and the derived decoder
  of the tag list.\<close>

record 'w net =
  net_send :: "http_request \<Rightarrow> 'w \<Rightarrow> 'w \<times> (string + http_response)"
  net_millis :: "'w \<Rightarrow> nat"
  net_instant :: "'w \<Rightarrow> nat"
  status_text :: "nat \<Rightarrow> string"
  tags_of_bytes :: "bytes \<Rightarrow> string + string list"

section \<open>Tags\<close>

definition tag_for :: "string \<Rightarrow> string" where
  "tag_for kappa = map (\<lambda>c. if c = CHR '':'' then CHR ''_'' else c) kappa"

definition kappa_for :: "string \<Rightarrow> string option" where
  "kappa_for tag =
     (case strip_prefix ''blake3_'' tag of
        None \<Rightarrow> None
      | Some digest \<Rightarrow>
          if length digest \<noteq> 64 then None
          else if \<not> list_all (\<lambda>c. is_ascii_hexdigit c \<and> \<not> is_ascii_uppercase c) digest then None
          else Some (''blake3:'' @ digest))"

section \<open>Client\<close>

record kappa_client =
  kc_endpoint :: string
  kc_namespace :: string
  kc_token :: string

text \<open>\<open>KappaClient::new\<close>; building the HTTP client may fail.\<close>

definition kappa_client_new :: "string + unit \<Rightarrow> registry_config \<Rightarrow> kappa_client live_result" where
  "kappa_client_new built config =
     bindE (map_err (\<lambda>e. Transport (''build kappa-registry client: '' @ e)) built)
       (\<lambda>_. Inr \<lparr>kc_endpoint = trim_end_char (CHR ''/'') (reg_endpoint config),
                  kc_namespace = trim_char (CHR ''/'') (reg_namespace config), kc_token = reg_token config\<rparr>)"

definition client_url :: "kappa_client \<Rightarrow> string \<Rightarrow> string" where
  "client_url c rest = kc_endpoint c @ ''/v2/'' @ kc_namespace c @ ''/'' @ rest"

definition authorize :: "kappa_client \<Rightarrow> http_request \<Rightarrow> http_request" where
  "authorize c r =
     (if kc_token c = [] then r
      else r\<lparr>rq_headers := rq_headers r @ [(''authorization'', ''Bearer '' @ kc_token c)]\<rparr>)"

definition is_success :: "nat \<Rightarrow> bool" where
  "is_success status \<longleftrightarrow> 200 \<le> status \<and> status < 300"

definition status_error :: "nat \<Rightarrow> string \<Rightarrow> live_error" where
  "status_error status message =
     (if status = 404 then NotFound message
      else if status = 401 then Authentication message
      else if status = 403 then Authorization message
      else if status = 400 \<or> status = 413 then Protocol message
      else if status = 507 then Io message
      else Transport message)"

definition status_to_result :: "'w net \<Rightarrow> http_response \<Rightarrow> string \<Rightarrow> http_response live_result" where
  "status_to_result n response context =
     (if is_success (rs_status response) then Inr response
      else
        let detail = trim (case rs_text response of Inr t \<Rightarrow> t | Inl _ \<Rightarrow> []);
            message = (if detail = [] then context @ '': HTTP '' @ status_text n (rs_status response)
                       else context @ '': HTTP '' @ status_text n (rs_status response) @ '': '' @ detail)
        in Inl (status_error (rs_status response) message))"

text \<open>Send, with a transport failure under the given description.\<close>

definition send :: "'w net \<Rightarrow> kappa_client \<Rightarrow> http_request \<Rightarrow> string \<Rightarrow> 'w \<Rightarrow> 'w \<times> http_response live_result" where
  "send n c r what w =
     (let (w', a) = net_send n (authorize c r) w in (w', map_err (\<lambda>e. Transport (what @ '': '' @ e)) a))"

definition manifest_media_type :: string where
  "manifest_media_type = ''application/vnd.oci.image.manifest.v1+json''"

definition put_at ::
  "'w net \<Rightarrow> kappa_client \<Rightarrow> string \<Rightarrow> string \<Rightarrow> bytes \<Rightarrow> string \<Rightarrow> 'w \<Rightarrow> 'w \<times> unit live_result"
where
  "put_at n c url media_type b what w =
     (let (w', a) = send n c \<lparr>rq_verb = PUT, rq_url = url, rq_query = [],
                              rq_headers = [(''content-type'', media_type)], rq_body = b\<rparr> what w
      in (w', bindE a (\<lambda>rs. bindE (status_to_result n rs what) (\<lambda>_. Inr ()))))"

definition get_bytes ::
  "'w net \<Rightarrow> kappa_client \<Rightarrow> string \<Rightarrow> string \<Rightarrow> string \<Rightarrow> 'w \<Rightarrow> 'w \<times> bytes live_result"
where
  "get_bytes n c url what reading w =
     (let (w', a) = send n c \<lparr>rq_verb = GET, rq_url = url, rq_query = [], rq_headers = [], rq_body = []\<rparr> what w
      in (w', bindE a (\<lambda>rs. bindE (status_to_result n rs what) (\<lambda>rs.
                map_err (\<lambda>e. Transport (reading @ '': '' @ e)) (rs_body rs)))))"

text \<open>A manifest request: the response, or nothing when the tag does not exist.\<close>

definition get_manifest_at ::
  "'w net \<Rightarrow> kappa_client \<Rightarrow> string \<Rightarrow> string \<Rightarrow> 'w \<Rightarrow> 'w \<times> http_response option live_result"
where
  "get_manifest_at n c url what w =
     (let (w', a) = send n c \<lparr>rq_verb = GET, rq_url = url, rq_query = [],
                              rq_headers = [(''accept'', manifest_media_type)], rq_body = []\<rparr> what w
      in (w', bindE a (\<lambda>rs. if rs_status rs = 404 then Inr None
                            else bindE (status_to_result n rs what) (\<lambda>rs. Inr (Some rs)))))"

definition put_blob ::
  "'w net \<Rightarrow> kappa_client \<Rightarrow> string \<Rightarrow> string \<Rightarrow> bytes \<Rightarrow> 'w \<Rightarrow> 'w \<times> unit live_result"
where
  "put_blob n c kappa media_type b = put_at n c (client_url c (''blobs/'' @ kappa)) media_type b (''put blob '' @ kappa)"

definition get_blob :: "'w net \<Rightarrow> kappa_client \<Rightarrow> string \<Rightarrow> 'w \<Rightarrow> 'w \<times> bytes live_result" where
  "get_blob n c kappa =
     get_bytes n c (client_url c (''blobs/'' @ kappa)) (''get blob '' @ kappa) (''read blob '' @ kappa)"

record blob_head =
  head_size :: nat
  head_media_type :: string

definition head_blob :: "'w net \<Rightarrow> kappa_client \<Rightarrow> string \<Rightarrow> 'w \<Rightarrow> 'w \<times> blob_head option live_result" where
  "head_blob n c kappa w =
     (let what = ''head blob '' @ kappa;
          (w', a) = send n c \<lparr>rq_verb = HEAD, rq_url = client_url c (''blobs/'' @ kappa), rq_query = [],
                              rq_headers = [], rq_body = []\<rparr> what w
      in (w', bindE a (\<lambda>rs. if rs_status rs = 404 then Inr None
                            else bindE (status_to_result n rs what) (\<lambda>rs.
                              Inr (Some \<lparr>head_size = (case rs_content_length rs of Some l \<Rightarrow> l | None \<Rightarrow> 0),
                                         head_media_type = (case map_of (rs_headers rs) ''content-type'' of
                                            Some t \<Rightarrow> t | None \<Rightarrow> ''application/octet-stream'')\<rparr>)))))"

definition put_manifest :: "'w net \<Rightarrow> kappa_client \<Rightarrow> string \<Rightarrow> bytes \<Rightarrow> 'w \<Rightarrow> 'w \<times> unit live_result" where
  "put_manifest n c tag b =
     put_at n c (client_url c (''manifests/'' @ tag)) manifest_media_type b (''put manifest '' @ tag)"

definition get_manifest :: "'w net \<Rightarrow> kappa_client \<Rightarrow> string \<Rightarrow> 'w \<Rightarrow> 'w \<times> bytes option live_result" where
  "get_manifest n c tag w =
     (let (w', a) = get_manifest_at n c (client_url c (''manifests/'' @ tag)) (''get manifest '' @ tag) w
      in (w', bindE a (\<lambda>m. case m of None \<Rightarrow> Inr None
               | Some rs \<Rightarrow> bindE (map_err (\<lambda>e. Transport (''read manifest '' @ tag @ '': '' @ e)) (rs_body rs)) (\<lambda>b. Inr (Some b)))))"

definition delete_manifest :: "'w net \<Rightarrow> kappa_client \<Rightarrow> string \<Rightarrow> 'w \<Rightarrow> 'w \<times> unit live_result" where
  "delete_manifest n c tag w =
     (let what = ''delete manifest '' @ tag;
          (w', a) = send n c \<lparr>rq_verb = DELETE, rq_url = client_url c (''manifests/'' @ tag), rq_query = [],
                              rq_headers = [], rq_body = []\<rparr> what w
      in (w', bindE a (\<lambda>rs. if rs_status rs = 404 then Inr ()
                            else bindE (status_to_result n rs what) (\<lambda>_. Inr ()))))"

record tag_page =
  page_tags :: "string list"
  page_next :: "string option"

definition list_tags :: "'w net \<Rightarrow> kappa_client \<Rightarrow> nat \<Rightarrow> string option \<Rightarrow> 'w \<Rightarrow> 'w \<times> tag_page live_result" where
  "list_tags n c lim last_tag w =
     (let (w', a) = send n c \<lparr>rq_verb = GET, rq_url = client_url c ''tags/list'',
                              rq_query = [(''n'', show_nat lim)]
                                @ (case last_tag of Some l \<Rightarrow> [(''last'', l)] | None \<Rightarrow> []),
                              rq_headers = [], rq_body = []\<rparr> ''list tags'' w
      in (w', bindE a (\<lambda>rs.
           if rs_status rs = 404 then Inr \<lparr>page_tags = [], page_next = None\<rparr>
           else bindE (status_to_result n rs ''list tags'') (\<lambda>rs.
                bindE (map_err (\<lambda>e. Protocol (''decode tag list: '' @ e)) (bindE (rs_body rs) (tags_of_bytes n))) (\<lambda>tags.
                  Inr \<lparr>page_tags = tags,
                       page_next = (if length tags \<le> u32_max \<and> lim \<le> length tags
                                    then (if tags = [] then None else Some (last tags)) else None)\<rparr>)))))"

section \<open>The distribution side\<close>

text \<open>\<open>LayerFetch\<close> and \<open>LayerPublish\<close>: the same server, addressed through the repository a reference
  names instead of the configured namespace.\<close>

definition fetch_manifest ::
  "'w net \<Rightarrow> kappa_client \<Rightarrow> string \<Rightarrow> string \<Rightarrow> 'w \<Rightarrow> 'w \<times> (bytes \<times> string option) option live_result"
where
  "fetch_manifest n c repository tag w =
     (let (w', a) = get_manifest_at n c (kc_endpoint c @ ''/v2/'' @ repository @ ''/manifests/'' @ tag)
                      (''resolve '' @ repository @ '':'' @ tag) w
      in (w', bindE a (\<lambda>m. case m of None \<Rightarrow> Inr None
               | Some rs \<Rightarrow> bindE (map_err (\<lambda>e. Transport (''read manifest: '' @ e)) (rs_body rs)) (\<lambda>b.
                   Inr (Some (b, map_of (rs_headers rs) ''docker-content-digest''))))))"

definition fetch_blob :: "'w net \<Rightarrow> kappa_client \<Rightarrow> string \<Rightarrow> string \<Rightarrow> 'w \<Rightarrow> 'w \<times> bytes live_result" where
  "fetch_blob n c repository kappa =
     get_bytes n c (kc_endpoint c @ ''/v2/'' @ repository @ ''/blobs/'' @ kappa) (''get layer '' @ kappa)
       (''read layer '' @ kappa)"

definition publish_blob ::
  "'w net \<Rightarrow> kappa_client \<Rightarrow> string \<Rightarrow> string \<Rightarrow> string \<Rightarrow> bytes \<Rightarrow> 'w \<Rightarrow> 'w \<times> unit live_result"
where
  "publish_blob n c repository kappa media_type b =
     put_at n c (kc_endpoint c @ ''/v2/'' @ repository @ ''/blobs/'' @ kappa) media_type b (''publish blob '' @ kappa)"

definition publish_manifest ::
  "'w net \<Rightarrow> kappa_client \<Rightarrow> string \<Rightarrow> string \<Rightarrow> bytes \<Rightarrow> 'w \<Rightarrow> 'w \<times> unit live_result"
where
  "publish_manifest n c repository tag b =
     put_at n c (kc_endpoint c @ ''/v2/'' @ repository @ ''/manifests/'' @ tag) manifest_media_type b
       (''publish manifest '' @ tag)"

definition tag_exists :: "'w net \<Rightarrow> kappa_client \<Rightarrow> string \<Rightarrow> string \<Rightarrow> 'w \<Rightarrow> 'w \<times> bool live_result" where
  "tag_exists n c repository tag w =
     (let (w', a) = get_manifest_at n c (kc_endpoint c @ ''/v2/'' @ repository @ ''/manifests/'' @ tag)
                      (''check tag '' @ tag) w
      in (w', bindE a (\<lambda>m. Inr (m \<noteq> None))))"

section \<open>Facts\<close>

lemma kappa_for_Some:
  "kappa_for t = Some k \<longleftrightarrow> (\<exists>d. t = ''blake3_'' @ d \<and> k = ''blake3:'' @ d \<and> length d = 64 \<and> list_all is_lower_hex d)"
  by (auto simp: kappa_for_def is_lower_hex_alt strip_prefix_eq_None split: option.splits)

lemma tag_for_digest: "list_all is_lower_hex d \<Longrightarrow> tag_for d = d"
proof -
  assume d: "list_all is_lower_hex d"
  have "CHR '':'' \<notin> set d"
  proof
    assume "CHR '':'' \<in> set d"
    then have "is_lower_hex (CHR '':'')" using d by (auto simp: list_all_iff)
    then show False by (simp add: byte_class_defs)
  qed
  then show "tag_for d = d" by (auto simp: tag_for_def intro!: map_idI)
qed

lemma tag_for_kappa: "list_all is_lower_hex d \<Longrightarrow> tag_for (''blake3:'' @ d) = ''blake3_'' @ d"
  using tag_for_digest[of d] by (simp add: tag_for_def)

lemma kappa_for_tag_for: "kappa_for t = Some k \<Longrightarrow> tag_for k = t"
  unfolding kappa_for_Some by (elim exE conjE) (simp only: tag_for_kappa)

lemma list_tags_next:
  "list_tags n c lim l w = (w', Inr p) \<Longrightarrow> page_next p = Some t \<Longrightarrow> page_tags p \<noteq> [] \<and> t = last (page_tags p)"
  by (auto simp: list_tags_def Let_def bindE_eq_Inr split: if_splits prod.splits)

end
