(* ===== verification/Registry_Kappa.thy ===== *)
theory Registry_Kappa
  imports Registry_Local Kappa_Client
begin

text \<open>
  The registry provider backed by an external kappa registry (\<open>src/registry/kappa.rs\<close>): the sidecar
  manifest of an object and its codec, the bounded cache of records, and the provider's operations over
  the client of theory \<open>Kappa_Client\<close>. Every operation threads the provider and the outside world.
\<close>

section \<open>Manifest codec\<close>

definition artifact_type :: string where
  "artifact_type = ''application/vnd.hologram.object.v1+json''"

definition annotation_kind :: string where
  "annotation_kind = ''dev.hologram.kind''"

definition annotation_filename :: string where
  "annotation_filename = ''dev.hologram.filename''"

definition annotation_created :: string where
  "annotation_created = ''dev.hologram.created-at-millis''"

definition manifest_descriptor :: "object_metadata \<Rightarrow> json" where
  "manifest_descriptor m =
     json_object [(''mediaType'', JStr (md_media_type m)), (''digest'', JStr (md_id m)), (''size'', JNum (md_size m))]"

definition manifest_annotations :: "object_metadata \<Rightarrow> json" where
  "manifest_annotations m =
     json_object ([(annotation_kind, JStr (md_kind m)), (annotation_created, JStr (show_nat (md_created m)))]
                  @ (case md_filename m of Some f \<Rightarrow> [(annotation_filename, JStr f)] | None \<Rightarrow> []))"

definition manifest_document :: "object_metadata \<Rightarrow> json" where
  "manifest_document m =
     json_object
       [(''schemaVersion'', JNum 2), (''mediaType'', JStr manifest_media_type), (''artifactType'', JStr artifact_type),
        (''config'', json_object [(''mediaType'', JStr ''application/vnd.oci.empty.v1+json''),
                                  (''digest'', JStr (md_id m)), (''size'', JNum (md_size m))]),
        (''layers'', JArr [manifest_descriptor m]), (''subject'', manifest_descriptor m),
        (''annotations'', manifest_annotations m)]"

definition encode_manifest :: "json_codec \<Rightarrow> object_metadata \<Rightarrow> bytes" where
  "encode_manifest jc m = json_to_bytes jc (manifest_document m)"

definition annotation :: "json \<Rightarrow> string \<Rightarrow> string option" where
  "annotation document key =
     Option.bind (Option.bind (json_get ''annotations'' document) as_object)
       (\<lambda>kvs. Option.bind (map_of kvs key) as_str)"

definition decode_document :: "json \<Rightarrow> object_metadata live_result" where
  "decode_document document =
     bindE (ok_or (Protocol ''object manifest has no subject'') (json_get ''subject'' document)) (\<lambda>subject.
     bindE (ok_or (Protocol ''object manifest subject has no digest'') (Option.bind (json_get ''digest'' subject) as_str)) (\<lambda>i.
     bindE (ok_or (Protocol (''object manifest is missing '' @ annotation_kind)) (annotation document annotation_kind)) (\<lambda>kind.
     bindE (ok_or (Protocol (''object manifest is missing '' @ annotation_created))
              (Option.bind (annotation document annotation_created) parse_u64)) (\<lambda>created.
     Inr \<lparr>md_id = i, md_kind = kind,
          md_media_type = (case Option.bind (json_get ''mediaType'' subject) as_str of
                             Some t \<Rightarrow> t | None \<Rightarrow> ''application/octet-stream''),
          md_filename = annotation document annotation_filename,
          md_size = (case Option.bind (json_get ''size'' subject) as_u64 of Some v \<Rightarrow> v | None \<Rightarrow> 0),
          md_created = created\<rparr>))))"

definition decode_manifest :: "json_codec \<Rightarrow> bytes \<Rightarrow> object_metadata live_result" where
  "decode_manifest jc body = bindE (map_err Protocol (json_of_bytes jc body)) decode_document"

section \<open>Provider\<close>

record kappa_provider =
  kp_client :: kappa_client
  kp_max_scan_pages :: nat
  kp_cache :: "(string \<times> (object_metadata \<times> nat)) list"
  kp_ttl :: nat
  kp_poisoned :: bool

abbreviation metadata_ttl :: nat where
  "metadata_ttl \<equiv> 300000"

abbreviation metadata_entries :: nat where
  "metadata_entries \<equiv> 50000"

definition kappa_provider_new :: "string + unit \<Rightarrow> registry_config \<Rightarrow> kappa_provider live_result" where
  "kappa_provider_new built config =
     bindE (kappa_client_new built config) (\<lambda>c.
       Inr \<lparr>kp_client = c, kp_max_scan_pages = max (reg_max_scan_pages config) 1, kp_cache = [],
            kp_ttl = metadata_ttl, kp_poisoned = False\<rparr>)"

text \<open>Instants are milliseconds of a monotonic clock; \<open>elapsed\<close> saturates at zero.\<close>

definition kp_cached :: "'w net \<Rightarrow> kappa_provider \<Rightarrow> 'w \<Rightarrow> string \<Rightarrow> object_metadata option" where
  "kp_cached n p w tag =
     (if kp_poisoned p then None
      else case map_of (kp_cache p) tag of
             None \<Rightarrow> None
           | Some (m, at) \<Rightarrow> if net_instant n w - at < kp_ttl p then Some m else None)"

definition kp_remember :: "'w net \<Rightarrow> kappa_provider \<Rightarrow> 'w \<Rightarrow> string \<Rightarrow> object_metadata \<Rightarrow> kappa_provider" where
  "kp_remember n p w tag m =
     (if kp_poisoned p then p
      else
        let entries = kp_cache p;
            entries1 = (if length entries \<ge> metadata_entries \<and> tag \<notin> fst ` set entries then
                          let kept = filter (\<lambda>(_, _, at). net_instant n w - at < kp_ttl p) entries in
                          if length kept \<ge> metadata_entries then [] else kept
                        else entries)
        in p\<lparr>kp_cache := AList.update tag (m, net_instant n w) entries1\<rparr>)"

definition metadata_by_tag ::
  "'w net \<Rightarrow> json_codec \<Rightarrow> kappa_provider \<Rightarrow> 'w \<Rightarrow> string \<Rightarrow> kappa_provider \<times> 'w \<times> object_metadata option live_result"
where
  "metadata_by_tag n jc p w tag =
     (case kp_cached n p w tag of
        Some m \<Rightarrow> (p, w, Inr (Some m))
      | None \<Rightarrow>
          (case get_manifest n (kp_client p) tag w of
             (w', Inl e) \<Rightarrow> (p, w', Inl e)
           | (w', Inr None) \<Rightarrow> (p, w', Inr None)
           | (w', Inr (Some body)) \<Rightarrow>
               (case decode_manifest jc body of
                  Inl e \<Rightarrow> (p, w', Inl e)
                | Inr m \<Rightarrow> (kp_remember n p w' tag m, w', Inr (Some m)))))"

section \<open>Operations\<close>

definition kappa_put_object ::
  "host \<Rightarrow> 'w net \<Rightarrow> json_codec \<Rightarrow> kappa_provider \<Rightarrow> 'w \<Rightarrow> string \<Rightarrow> string \<Rightarrow> string option \<Rightarrow> bytes
     \<Rightarrow> kappa_provider \<times> 'w \<times> object_metadata live_result"
where
  "kappa_put_object h n jc p w kind media_type filename b =
     (let i = kappa_prefix @ blake3_hex h b;
          tag = tag_for i;
          (p1, w1, existing) = metadata_by_tag n jc p w tag;
          created = (case existing of Inr (Some e) \<Rightarrow> md_created e | _ \<Rightarrow> net_millis n w1);
          m = \<lparr>md_id = i, md_kind = kind, md_media_type = media_type, md_filename = filename,
                md_size = sat64 (length b), md_created = created\<rparr>
      in case put_blob n (kp_client p1) (md_id m) (md_media_type m) b w1 of
           (w2, Inl e) \<Rightarrow> (p1, w2, Inl e)
         | (w2, Inr _) \<Rightarrow>
             (case put_manifest n (kp_client p1) tag (encode_manifest jc m) w2 of
                (w3, Inl e) \<Rightarrow> (p1, w3, Inl e)
              | (w3, Inr _) \<Rightarrow> (kp_remember n p1 w3 tag m, w3, Inr m)))"

definition kappa_get_object ::
  "host \<Rightarrow> 'w net \<Rightarrow> json_codec \<Rightarrow> kappa_provider \<Rightarrow> 'w \<Rightarrow> string \<Rightarrow> kappa_provider \<times> 'w \<times> object_content live_result"
where
  "kappa_get_object h n jc p w i =
     (case metadata_by_tag n jc p w (tag_for i) of
        (p1, w1, Inl e) \<Rightarrow> (p1, w1, Inl e)
      | (p1, w1, Inr None) \<Rightarrow> (p1, w1, Inl (NotFound (''object '' @ i @ '' not found'')))
      | (p1, w1, Inr (Some m)) \<Rightarrow>
          (case get_blob n (kp_client p1) i w1 of
             (w2, Inl e) \<Rightarrow> (p1, w2, Inl e)
           | (w2, Inr b) \<Rightarrow>
               (p1, w2, bindE (verify_content h i b) (\<lambda>_. Inr \<lparr>content_metadata = m, content_bytes = b\<rparr>))))"

definition kappa_rename_file ::
  "'w net \<Rightarrow> json_codec \<Rightarrow> kappa_provider \<Rightarrow> 'w \<Rightarrow> string \<Rightarrow> string \<Rightarrow> kappa_provider \<times> 'w \<times> object_metadata live_result"
where
  "kappa_rename_file n jc p w i filename =
     (let tag = tag_for i in
      case metadata_by_tag n jc p w tag of
        (p1, w1, Inl e) \<Rightarrow> (p1, w1, Inl e)
      | (p1, w1, Inr None) \<Rightarrow> (p1, w1, Inl (NotFound (''file '' @ i @ '' not found'')))
      | (p1, w1, Inr (Some m)) \<Rightarrow>
          if md_kind m \<noteq> ''file'' then (p1, w1, Inl (NotFound (''file '' @ i @ '' not found'')))
          else
            let m' = m\<lparr>md_filename := Some filename\<rparr> in
            (case put_manifest n (kp_client p1) tag (encode_manifest jc m') w1 of
               (w2, Inl e) \<Rightarrow> (p1, w2, Inl e)
             | (w2, Inr _) \<Rightarrow> (kp_remember n p1 w2 tag m', w2, Inr m')))"

text \<open>The inner loop of \<open>search\<close> over one page of tags: the objects so far, and whether a further
  match was seen once the limit was reached.\<close>

fun scan_tags ::
  "'w net \<Rightarrow> json_codec \<Rightarrow> object_query \<Rightarrow> kappa_provider \<Rightarrow> 'w \<Rightarrow> object_metadata list \<Rightarrow> string list
     \<Rightarrow> kappa_provider \<times> 'w \<times> (object_metadata list \<times> bool) live_result"
where
  "scan_tags n jc q p w objs [] = (p, w, Inr (objs, False))"
| "scan_tags n jc q p w objs (tag # tags) =
     (if kappa_for tag = None then scan_tags n jc q p w objs tags
      else case metadata_by_tag n jc p w tag of
             (p1, w1, Inl e) \<Rightarrow> (p1, w1, Inl e)
           | (p1, w1, Inr None) \<Rightarrow> scan_tags n jc q p1 w1 objs tags
           | (p1, w1, Inr (Some m)) \<Rightarrow>
               if \<not> matches q m then scan_tags n jc q p1 w1 objs tags
               else if length objs = effective_limit q then (p1, w1, Inr (objs, True))
               else scan_tags n jc q p1 w1 (objs @ [m]) tags)"

definition last_id :: "object_metadata list \<Rightarrow> string option" where
  "last_id objs = (if objs = [] then None else Some (md_id (last objs)))"

text \<open>The outer loop; the first argument is the number of pages it may still walk.\<close>

fun search_pages ::
  "nat \<Rightarrow> 'w net \<Rightarrow> json_codec \<Rightarrow> object_query \<Rightarrow> kappa_provider \<Rightarrow> 'w \<Rightarrow> string option \<Rightarrow> object_metadata list
     \<Rightarrow> kappa_provider \<times> 'w \<times> object_page live_result"
where
  "search_pages 0 n jc q p w cursor objs =
     (p, w, Inr \<lparr>page_objects = objs, page_next_cursor = last_id objs, page_truncated = True\<rparr>)"
| "search_pages (Suc k) n jc q p w cursor objs =
     (case list_tags n (kp_client p) max_limit cursor w of
        (w1, Inl e) \<Rightarrow> (p, w1, Inl e)
      | (w1, Inr page) \<Rightarrow>
          if page_tags page = [] then
            (p, w1, Inr \<lparr>page_objects = objs, page_next_cursor = None, page_truncated = False\<rparr>)
          else
            (case scan_tags n jc q p w1 objs (page_tags page) of
               (p2, w2, Inl e) \<Rightarrow> (p2, w2, Inl e)
             | (p2, w2, Inr (objs', True)) \<Rightarrow>
                 (p2, w2, Inr \<lparr>page_objects = objs', page_next_cursor = last_id objs', page_truncated = False\<rparr>)
             | (p2, w2, Inr (objs', False)) \<Rightarrow>
                 (case page_next page of
                    Some nx \<Rightarrow> search_pages k n jc q p2 w2 (Some nx) objs'
                  | None \<Rightarrow> (p2, w2, Inr \<lparr>page_objects = objs', page_next_cursor = None, page_truncated = False\<rparr>))))"

definition kappa_search ::
  "'w net \<Rightarrow> json_codec \<Rightarrow> object_query \<Rightarrow> kappa_provider \<Rightarrow> 'w \<Rightarrow> kappa_provider \<times> 'w \<times> object_page live_result"
where
  "kappa_search n jc q p w = search_pages (kp_max_scan_pages p) n jc q p w (map_option tag_for (q_cursor q)) []"

definition kappa_list_objects ::
  "'w net \<Rightarrow> json_codec \<Rightarrow> kappa_provider \<Rightarrow> 'w \<Rightarrow> string option \<Rightarrow> kappa_provider \<times> 'w \<times> object_metadata list live_result"
where
  "kappa_list_objects n jc p w kind =
     (let (p1, w1, r) = kappa_search n jc (default_query\<lparr>q_kind := kind, q_limit := max_limit\<rparr>) p w
      in (p1, w1, bindE r (\<lambda>page. Inr (newest_first (page_objects page)))))"

text \<open>\<open>provider_from_config\<close> of \<open>src/registry/mod.rs\<close>.\<close>

datatype registry_provider = KappaRegistryProvider kappa_provider | LocalRegistryProvider object_store

definition provider_from_config ::
  "string + unit \<Rightarrow> app_config \<Rightarrow> object_store \<Rightarrow> registry_provider live_result"
where
  "provider_from_config built config st =
     (if reg_provider (cfg_registry config) = ''kappa''
      then bindE (kappa_provider_new built (cfg_registry config)) (\<lambda>p. Inr (KappaRegistryProvider p))
      else Inr (LocalRegistryProvider st))"

section \<open>Manifest round trip\<close>

lemmas manifest_keys = annotation_kind_def annotation_filename_def annotation_created_def

lemma manifest_document_wf: "md_size m \<le> u64_max \<Longrightarrow> json_wf (manifest_document m)"
  by (cases "md_filename m")
    (auto simp: manifest_document_def manifest_descriptor_def manifest_annotations_def intro!: json_object_wf)

lemma annotation_manifest:
  "annotation (manifest_document m) annotation_kind = Some (md_kind m)"
  "annotation (manifest_document m) annotation_created = Some (show_nat (md_created m))"
  "annotation (manifest_document m) annotation_filename = md_filename m"
  by (cases "md_filename m";
      simp add: annotation_def manifest_document_def manifest_annotations_def json_object_def manifest_keys)+

lemma decode_manifest_document: "md_created m \<le> u64_max \<Longrightarrow> decode_document (manifest_document m) = Inr m"
  by (simp add: decode_document_def annotation_manifest parse_show_nat)
    (simp add: manifest_document_def manifest_descriptor_def)

lemma decode_encode_manifest:
  assumes "json_codec_ok jc" "md_size m \<le> u64_max" "md_created m \<le> u64_max"
  shows "decode_manifest jc (encode_manifest jc m) = Inr m"
  using assms by (simp add: decode_manifest_def encode_manifest_def json_codec_ok_def manifest_document_wf decode_manifest_document)

text \<open>
  An object's record survives its sidecar manifest: for sizes and times that fit 64 bits,
  decoding the encoded manifest gives the record back, with or without a file name. Its tag
  determines its id: the tag of a content address written in lower-case hexadecimal is recognised and
  maps back to it, and a recognised tag is the tag of the id it is read as.
\<close>
theorem manifest_and_tag_round_trip:
  assumes "json_codec_ok jc" "md_size m \<le> u64_max" "md_created m \<le> u64_max"
    and "host_ok h"
  shows "decode_manifest jc (encode_manifest jc m) = Inr m
     \<and> kappa_for (tag_for (kappa_prefix @ blake3_hex h b)) = Some (kappa_prefix @ blake3_hex h b)
     \<and> (\<forall>t k. kappa_for t = Some k \<longrightarrow> tag_for k = t)"
proof -
  have "length (blake3_hex h b) = 64" "list_all is_lower_hex (blake3_hex h b)" using assms(4) by (simp_all add: host_ok_def)
  then have "kappa_for (tag_for (kappa_prefix @ blake3_hex h b)) = Some (kappa_prefix @ blake3_hex h b)"
    unfolding kappa_prefix_def by (subst tag_for_kappa) (auto simp: kappa_for_Some)
  moreover have "tag_for k = t" if "kappa_for t = Some k" for t k
    using that by (rule kappa_for_tag_for)
  ultimately show ?thesis using decode_encode_manifest[OF assms(1-3)] by blast
qed

theorem manifest_and_tag_round_trip_witness:
  "decode_manifest sample_json (encode_manifest sample_json
      \<lparr>md_id = ''x'', md_kind = ''file'', md_media_type = ''t'', md_filename = Some ''n'', md_size = 3, md_created = 9\<rparr>)
     = Inr \<lparr>md_id = ''x'', md_kind = ''file'', md_media_type = ''t'', md_filename = Some ''n'', md_size = 3, md_created = 9\<rparr>"
  using manifest_and_tag_round_trip[OF sample_json_ok _ _ sample_host_ok,
      of "\<lparr>md_id = ''x'', md_kind = ''file'', md_media_type = ''t'', md_filename = Some ''n'', md_size = 3, md_created = 9\<rparr>" "[]"]
  by simp

section \<open>What a provider serves\<close>

text \<open>
  C13 Neither provider serves bytes that do not hash to the id they were asked for, whatever the disk
  or the remote registry holds: if a read succeeds, the content's BLAKE3 address is the id. On the
  local provider bytes that are present but corrupt are reported as an I/O error, and the record
  returned with sound bytes is the one on file.
\<close>
theorem served_content_is_verified:
  "(local_get_object s i = Inr c \<longrightarrow>
      kappa_prefix @ blake3_hex (os_host s) (content_bytes c) = i \<and> store_metadata s i = Inr (content_metadata c))
   \<and> (store_get s i = Inr b \<and> kappa_prefix @ blake3_hex (os_host s) b \<noteq> i \<longrightarrow> (\<exists>m. local_get_object s i = Inl (Io m)))
   \<and> (kappa_get_object h n jc p w i = (p', w', Inr c) \<longrightarrow> kappa_prefix @ blake3_hex h (content_bytes c) = i)"
proof (intro conjI impI)
  show "\<exists>m. local_get_object s i = Inl (Io m)"
    if "store_get s i = Inr b \<and> kappa_prefix @ blake3_hex (os_host s) b \<noteq> i"
    using that by (simp add: local_get_object_def verify_content_def Let_def)
  show "kappa_prefix @ blake3_hex h (content_bytes c) = i" if "kappa_get_object h n jc p w i = (p', w', Inr c)"
    using that by (auto simp: kappa_get_object_def bindE_eq_Inr verify_content_Inr
        split: prod.splits sum.splits option.splits)
qed (auto simp: local_get_object_def bindE_eq_Inr verify_content_Inr)

theorem served_content_is_verified_witness:
  "\<exists>c. local_get_object sample_filled sample_id = Inr c \<and> content_bytes c = [1, 2]
     \<and> kappa_prefix @ blake3_hex (os_host sample_filled) (content_bytes c) = sample_id"
proof -
  obtain m where m: "store_metadata sample_filled sample_id = Inr m" using sample_filled_facts(5) by blast
  have "local_get_object sample_filled sample_id = Inr \<lparr>content_metadata = m, content_bytes = [1, 2]\<rparr>"
    by (simp add: local_get_object_def sample_filled_facts m verify_content_def)
  then show ?thesis using served_content_is_verified[of sample_filled sample_id] by fastforce
qed

section \<open>The record cache\<close>

text \<open>Keys are unique and the number of entries is bounded.\<close>

definition cache_ok :: "kappa_provider \<Rightarrow> bool" where
  "cache_ok p \<longleftrightarrow> distinct (map fst (kp_cache p)) \<and> length (kp_cache p) \<le> metadata_entries"

lemma length_update_present: "k \<in> fst ` set al \<Longrightarrow> length (AList.update k v al) = length al"
  by (induction al) auto

lemma length_update_absent: "k \<notin> fst ` set al \<Longrightarrow> length (AList.update k v al) = Suc (length al)"
  by (induction al) auto

lemma length_update_le: "length (AList.update k v al) \<le> Suc (length al)"
  by (cases "k \<in> fst ` set al") (simp_all add: length_update_present length_update_absent)

lemma kp_remember_ok:
  assumes "cache_ok p"
  shows "cache_ok (kp_remember n p w tag m)"
proof -
  let ?kept = "filter (\<lambda>(_, _, at). net_instant n w - at < kp_ttl p) (kp_cache p)"
  have kept: "distinct (map fst ?kept)" using assms by (simp add: cache_ok_def distinct_map_filter)
  have "length (AList.update tag x (kp_cache p)) \<le> metadata_entries"
    if "\<not> (metadata_entries \<le> length (kp_cache p) \<and> tag \<notin> fst ` set (kp_cache p))" for x
    using that assms length_update_le[of tag x "kp_cache p"] length_update_present[of tag "kp_cache p" x]
    by (cases "tag \<in> fst ` set (kp_cache p)") (auto simp: cache_ok_def)
  moreover have "length (AList.update tag x ?kept) \<le> metadata_entries" if "length ?kept < metadata_entries" for x
    using that length_update_le[of tag x ?kept] by linarith
  ultimately show ?thesis using assms kept
    by (auto simp: kp_remember_def cache_ok_def Let_def distinct_update)
qed

lemma kp_remember_same [simp]:
  "kp_client (kp_remember n p w tag m) = kp_client p"
  "kp_max_scan_pages (kp_remember n p w tag m) = kp_max_scan_pages p"
  "kp_ttl (kp_remember n p w tag m) = kp_ttl p" "kp_poisoned (kp_remember n p w tag m) = kp_poisoned p"
  by (simp_all add: kp_remember_def Let_def)

text \<open>What a lookup can find after a record was remembered.\<close>

lemma kp_remember_hit: "\<not> kp_poisoned p \<Longrightarrow> map_of (kp_cache (kp_remember n p w tag m)) tag = Some (m, net_instant n w)"
  by (simp add: kp_remember_def Let_def update_conv')

lemma kp_remember_other:
  assumes "distinct (map fst (kp_cache p))" "t \<noteq> tag"
    and "map_of (kp_cache (kp_remember n p w tag m)) t = Some x"
  shows "map_of (kp_cache p) t = Some x"
  using assms by (auto simp: kp_remember_def Let_def update_conv' map_of_eq_Some_iff distinct_map_filter split: if_splits)

section \<open>Any server\<close>

lemma metadata_by_tag_cache: "cache_ok p \<Longrightarrow> cache_ok (fst (metadata_by_tag n jc p w t))"
  by (simp add: metadata_by_tag_def kp_remember_ok split: option.split prod.split sum.split)

lemma scan_tags_any:
  assumes "cache_ok p" "list_all (matches q) objs" "length objs \<le> effective_limit q"
    and "scan_tags n jc q p w objs ts = (p', w', r)"
  shows "cache_ok p' \<and> (\<forall>os f. r = Inr (os, f) \<longrightarrow>
    list_all (matches q) os \<and> length os \<le> effective_limit q \<and> (f \<longrightarrow> os \<noteq> []))"
  using assms
proof (induction ts arbitrary: p w objs)
  case (Cons t ts)
  show ?case
  proof (cases "kappa_for t")
    case None
    then have "scan_tags n jc q p w objs ts = (p', w', r)" using Cons.prems(4) by simp
    then show ?thesis by (rule Cons.IH[OF Cons.prems(1-3)])
  next
    case (Some k)
    obtain p1 w1 a where m: "metadata_by_tag n jc p w t = (p1, w1, a)" by (cases "metadata_by_tag n jc p w t") auto
    have c1: "cache_ok p1" using metadata_by_tag_cache[OF Cons.prems(1), of n jc w t] m by simp
    show ?thesis
    proof (cases "\<exists>md. a = Inr (Some md)")
      case False
      then show ?thesis
        using Cons.IH[OF c1 Cons.prems(2,3)] Cons.prems(4) c1 Some m by (auto split: sum.splits option.splits)
    next
      case True
      then obtain md where a: "a = Inr (Some md)" ..
      consider (skip) "\<not> matches q md" | (full) "matches q md" "length objs = effective_limit q"
        | (take) "matches q md" "length objs < effective_limit q" using Cons.prems(3) by linarith
      then show ?thesis
      proof cases
        case skip
        then have "scan_tags n jc q p1 w1 objs ts = (p', w', r)" using Cons.prems(4) Some m a by simp
        then show ?thesis by (rule Cons.IH[OF c1 Cons.prems(2,3)])
      next
        case full
        then show ?thesis using Cons.prems(2-4) c1 Some m a by auto
      next
        case take
        then have "scan_tags n jc q p1 w1 (objs @ [md]) ts = (p', w', r)" using Cons.prems(4) Some m a by simp
        then show ?thesis using Cons.IH[OF c1, of "objs @ [md]" w1] take Cons.prems(2) by simp
      qed
    qed
  qed
qed auto

lemma search_pages_any:
  assumes "cache_ok p" "list_all (matches q) objs" "length objs \<le> effective_limit q"
    and "search_pages k n jc q p w cur objs = (p', w', r)"
  shows "cache_ok p' \<and> (\<forall>pg. r = Inr pg \<longrightarrow>
    list_all (matches q) (page_objects pg) \<and> length (page_objects pg) \<le> effective_limit q
    \<and> (page_truncated pg \<longrightarrow> page_next_cursor pg = last_id (page_objects pg))
    \<and> (page_next_cursor pg \<noteq> None \<longrightarrow> page_next_cursor pg = last_id (page_objects pg)))"
  using assms
proof (induction k arbitrary: p w cur objs)
  case (Suc k)
  obtain w1 a where l: "list_tags n (kp_client p) max_limit cur w = (w1, a)" by force
  show ?case
  proof (cases "\<exists>pg. a = Inr pg \<and> page_tags pg \<noteq> []")
    case False
    then show ?thesis using Suc.prems l by (cases a) auto
  next
    case True
    then obtain pg where a: "a = Inr pg" "page_tags pg \<noteq> []" by blast
    obtain p2 w2 b where s: "scan_tags n jc q p w1 objs (page_tags pg) = (p2, w2, b)"
      by (cases "scan_tags n jc q p w1 objs (page_tags pg)") auto
    note sc = scan_tags_any[OF Suc.prems(1-3) s]
    show ?thesis
    proof (cases b)
      case (Inl e)
      then show ?thesis using Suc.prems(4) l a s sc by auto
    next
      case (Inr res)
      obtain os f where o: "res = (os, f)" by force
      then have so: "cache_ok p2" "list_all (matches q) os" "length os \<le> effective_limit q" using sc Inr by auto
      show ?thesis
      proof (cases "f \<or> page_next pg = None")
        case True
        then show ?thesis using Suc.prems(4) l a s so Inr o by (cases f) auto
      next
        case False
        then obtain nx where "page_next pg = Some nx" "\<not> f" by auto
        then have "search_pages k n jc q p2 w2 (Some nx) os = (p', w', r)" using Suc.prems(4) l a s Inr o by simp
        then show ?thesis by (rule Suc.IH[OF so])
      qed
    qed
  qed
qed auto

text \<open>
  Searching through an arbitrary, possibly misbehaving, registry. The search ends after at most
  the configured number of page requests; whatever it returns are records that match the query, no more than
  the limit; a cursor, when there is one, is the id of the last object returned; a page cut short by
  the scan bound carries that cursor, so when nothing matched it has none although it is marked as
  truncated; and the cache of records never exceeds its 50000 entries nor holds a tag twice.
\<close>
theorem kappa_search_any_server:
  assumes "cache_ok p" and "kappa_search n jc q p w = (p', w', r)"
  shows "cache_ok p' \<and> (\<forall>pg. r = Inr pg \<longrightarrow>
     list_all (matches q) (page_objects pg) \<and> length (page_objects pg) \<le> effective_limit q
     \<and> (page_next_cursor pg \<noteq> None \<longrightarrow> page_next_cursor pg = last_id (page_objects pg))
     \<and> (page_truncated pg \<longrightarrow> page_next_cursor pg = last_id (page_objects pg))
     \<and> (page_truncated pg \<and> page_objects pg = [] \<longrightarrow> page_next_cursor pg = None))"
  using search_pages_any[OF assms(1) _ _ assms(2)[unfolded kappa_search_def]] by (auto simp: last_id_def)

text \<open>A registry that always answers with a full page of foreign tags: the scan bound is reached with
  nothing found.\<close>

definition endless_net :: "unit net" where
  "endless_net = \<lparr>net_send = (\<lambda>rq w. ((), Inr \<lparr>rs_status = 200, rs_headers = [], rs_body = Inr [], rs_text = Inr [],
       rs_content_length = None\<rparr>)),
     net_millis = (\<lambda>_. 0), net_instant = (\<lambda>_. 0), status_text = show_nat,
     tags_of_bytes = (\<lambda>_. Inr (replicate 1000 ''x''))\<rparr>"

definition endless_provider :: kappa_provider where
  "endless_provider = \<lparr>kp_client = \<lparr>kc_endpoint = ''e'', kc_namespace = ''n'', kc_token = []\<rparr>, kp_max_scan_pages = 1,
     kp_cache = [], kp_ttl = metadata_ttl, kp_poisoned = False\<rparr>"

lemma scan_foreign: "scan_tags n jc q p w objs (replicate k ''x'') = (p, w, Inr (objs, False))"
  by (induction k) (simp_all add: kappa_for_def strip_prefix_def)

theorem kappa_search_any_server_witness:
  "\<exists>pg. snd (snd (kappa_search endless_net sample_json default_query endless_provider ())) = Inr pg
     \<and> page_truncated pg \<and> page_objects pg = [] \<and> page_next_cursor pg = None"
proof -
  have "list_tags endless_net (kp_client endless_provider) max_limit None () = ((), Inr \<lparr>page_tags = replicate 1000 ''x'', page_next = Some ''x''\<rparr>)"
    by (simp add: list_tags_def send_def endless_net_def status_to_result_def is_success_def last_replicate)
  then have e: "kappa_search endless_net sample_json default_query endless_provider () =
      (endless_provider, (), Inr \<lparr>page_objects = [], page_next_cursor = last_id [], page_truncated = True\<rparr>)"
    by (simp add: kappa_search_def endless_provider_def default_query_def scan_foreign)
  have c: "cache_ok endless_provider" by (simp add: cache_ok_def endless_provider_def)
  show ?thesis using kappa_search_any_server[OF c e] by (simp add: e)
qed

end
