(* ===== verification/Kappa_Search.thy ===== *)
theory Kappa_Search
  imports Registry_Kappa
begin

text \<open>
  The remote provider's search meets the same contract as the local one, when the registry lists its
  tags the way the OCI distribution specification says: in lexical order, beyond the given tag, at most
  the requested number. The scan bound must cover the namespace; when it does not, the page says so.
\<close>

section \<open>A registry that lists its tags\<close>

definition tags_request :: "kappa_client \<Rightarrow> string option \<Rightarrow> http_request" where
  "tags_request c last_tag =
     authorize c \<lparr>rq_verb = GET, rq_url = client_url c ''tags/list'',
                  rq_query = [(''n'', show_nat max_limit)] @ (case last_tag of Some l \<Rightarrow> [(''last'', l)] | None \<Rightarrow> []),
                  rq_headers = [], rq_body = []\<rparr>"

definition manifest_request :: "kappa_client \<Rightarrow> string \<Rightarrow> http_request" where
  "manifest_request c tag =
     authorize c \<lparr>rq_verb = GET, rq_url = client_url c (''manifests/'' @ tag), rq_query = [],
                  rq_headers = [(''accept'', manifest_media_type)], rq_body = []\<rparr>"

definition beyond :: "string option \<Rightarrow> string list \<Rightarrow> string list" where
  "beyond last_tag tags = filter (\<lambda>t. case last_tag of None \<Rightarrow> True | Some l \<Rightarrow> l < t) tags"

text \<open>While \<open>wok\<close> holds of the world, the namespace holds \<open>tags\<close> and the manifests \<open>mf\<close>.\<close>

definition oci_server ::
  "'w net \<Rightarrow> kappa_client \<Rightarrow> ('w \<Rightarrow> bool) \<Rightarrow> string list \<Rightarrow> (string \<Rightarrow> bytes) \<Rightarrow> bool"
where
  "oci_server n c wok tags mf \<longleftrightarrow> sorted_wrt (<) tags
     \<and> (\<forall>w l. wok w \<longrightarrow> wok (fst (net_send n (tags_request c l) w))
          \<and> (\<exists>rs. snd (net_send n (tags_request c l) w) = Inr rs \<and> rs_status rs = 200
                 \<and> bindE (rs_body rs) (tags_of_bytes n) = Inr (take max_limit (beyond l tags))))
     \<and> (\<forall>w t. wok w \<longrightarrow> t \<in> set tags \<longrightarrow> wok (fst (net_send n (manifest_request c t) w))
          \<and> (\<exists>rs. snd (net_send n (manifest_request c t) w) = Inr rs \<and> rs_status rs = 200 \<and> rs_body rs = Inr (mf t)))"

lemma list_tags_served:
  assumes "oci_server n c wok tags mf" "wok w"
  shows "\<exists>w'. wok w' \<and> list_tags n c max_limit l w =
     (w', Inr \<lparr>page_tags = take max_limit (beyond l tags),
               page_next = (if max_limit \<le> length (beyond l tags)
                            then Some (beyond l tags ! (max_limit - 1)) else None)\<rparr>)"
proof -
  obtain w' rs where r: "net_send n (tags_request c l) w = (w', Inr rs)" "rs_status rs = 200" "wok w'"
    "bindE (rs_body rs) (tags_of_bytes n) = Inr (take max_limit (beyond l tags))"
    using assms unfolding oci_server_def by (metis prod.collapse)
  have "last (take max_limit (beyond l tags)) = beyond l tags ! (max_limit - 1)" if "max_limit \<le> length (beyond l tags)"
    using that by (subst last_conv_nth) (auto simp: min_def)
  then show ?thesis using r
    by (auto simp: list_tags_def send_def tags_request_def status_to_result_def is_success_def min_def)
qed

lemma get_manifest_served:
  assumes "oci_server n c wok tags mf" "wok w" "t \<in> set tags"
  shows "\<exists>w'. wok w' \<and> get_manifest n c t w = (w', Inr (Some (mf t)))"
proof -
  obtain w' rs where "net_send n (manifest_request c t) w = (w', Inr rs)" "rs_status rs = 200" "wok w'" "rs_body rs = Inr (mf t)"
    using assms unfolding oci_server_def by (metis prod.collapse)
  then show ?thesis
    by (simp add: get_manifest_def get_manifest_at_def send_def manifest_request_def status_to_result_def is_success_def)
qed

section \<open>Catalogue\<close>

abbreviation tag_record :: "json_codec \<Rightarrow> (string \<Rightarrow> bytes) \<Rightarrow> string \<Rightarrow> object_metadata" where
  "tag_record jc mf t \<equiv> projr (decode_manifest jc (mf t))"

definition records :: "json_codec \<Rightarrow> (string \<Rightarrow> bytes) \<Rightarrow> string list \<Rightarrow> object_metadata list" where
  "records jc mf ts = map (tag_record jc mf) (filter (\<lambda>t. kappa_for t \<noteq> None) ts)"

text \<open>The provider can answer from the server or from its cache alike.\<close>

definition kappa_ready ::
  "'w net \<Rightarrow> json_codec \<Rightarrow> ('w \<Rightarrow> bool) \<Rightarrow> string list \<Rightarrow> (string \<Rightarrow> bytes) \<Rightarrow> kappa_provider \<times> 'w \<Rightarrow> bool"
where
  "kappa_ready n jc wok tags mf s \<longleftrightarrow>
     oci_server n (kp_client (fst s)) wok tags mf \<and> wok (snd s)
     \<and> length tags < max_limit * kp_max_scan_pages (fst s)
     \<and> distinct (map fst (kp_cache (fst s)))
     \<and> (\<forall>t \<in> set tags. kappa_for t \<noteq> None \<longrightarrow>
          (\<exists>m. decode_manifest jc (mf t) = Inr m \<and> kappa_for t = Some (md_id m)))
     \<and> (\<forall>t \<in> set tags. \<forall>m at. map_of (kp_cache (fst s)) t = Some (m, at) \<longrightarrow> decode_manifest jc (mf t) = Inr m)"

lemma kappa_ready_cache:
  "kappa_ready n jc wok tags mf (p, w) \<Longrightarrow> t \<in> set tags \<Longrightarrow> map_of (kp_cache p) t = Some (m, at) \<Longrightarrow>
     decode_manifest jc (mf t) = Inr m"
  unfolding kappa_ready_def fst_conv by blast

lemma kp_remember_distinct: "distinct (map fst (kp_cache p)) \<Longrightarrow> distinct (map fst (kp_cache (kp_remember n p w t m)))"
  by (auto simp: kp_remember_def Let_def distinct_update distinct_map_filter)

lemma remember_ready:
  assumes r: "kappa_ready n jc wok tags mf (p, w)" and m: "decode_manifest jc (mf t) = Inr m" and w: "wok w'"
  shows "kappa_ready n jc wok tags mf (kp_remember n p w' t m, w')"
proof -
  have d: "distinct (map fst (kp_cache p))" using r by (simp add: kappa_ready_def)
  have "decode_manifest jc (mf u) = Inr m'"
    if u: "u \<in> set tags" "map_of (kp_cache (kp_remember n p w' t m)) u = Some (m', at)" for u m' at
  proof (cases "u = t")
    case True
    show ?thesis
    proof (cases "kp_poisoned p")
      case True
      then have "map_of (kp_cache p) u = Some (m', at)" using u by (simp add: kp_remember_def)
      then show ?thesis using kappa_ready_cache[OF r u(1)] by blast
    next
      case False
      then show ?thesis using kp_remember_hit[OF False, of n w' t m] u m \<open>u = t\<close> by simp
    qed
  next
    case False
    then show ?thesis using kappa_ready_cache[OF r u(1)] kp_remember_other[OF d False u(2)] by blast
  qed
  note c = this
  show ?thesis using r w kp_remember_distinct[OF d] unfolding kappa_ready_def fst_conv snd_conv kp_remember_same
    by (elim conjE, intro conjI) (assumption | (intro ballI allI impI, erule (1) c))+
qed

lemma metadata_by_tag_served:
  assumes r: "kappa_ready n jc wok tags mf (p, w)" and t: "t \<in> set tags" "kappa_for t \<noteq> None"
  shows "\<exists>p' w'. metadata_by_tag n jc p w t = (p', w', Inr (Some (tag_record jc mf t)))
     \<and> kappa_ready n jc wok tags mf (p', w') \<and> kp_client p' = kp_client p \<and> kp_max_scan_pages p' = kp_max_scan_pages p"
proof -
  obtain m where m: "decode_manifest jc (mf t) = Inr m" using r t by (auto simp: kappa_ready_def)
  show ?thesis
  proof (cases "kp_cached n p w t")
    case None
    obtain w' where w': "wok w'" "get_manifest n (kp_client p) t w = (w', Inr (Some (mf t)))"
      using get_manifest_served[of n "kp_client p" wok tags mf w t] r t by (auto simp: kappa_ready_def)
    show ?thesis using None w' m remember_ready[OF r m w'(1)] by (simp add: metadata_by_tag_def)
  next
    case (Some c)
    then have "decode_manifest jc (mf t) = Inr c"
      using kappa_ready_cache[OF r t(1)] by (auto simp: kp_cached_def split: if_splits option.splits simp del: map_of_eq_Some_iff)
    then show ?thesis using Some r by (simp add: metadata_by_tag_def)
  qed
qed

section \<open>The loops\<close>

lemma records_Cons:
  "records jc mf (t # ts) = (if kappa_for t = None then records jc mf ts else tag_record jc mf t # records jc mf ts)"
  by (simp add: records_def)

lemma records_append: "records jc mf (xs @ ys) = records jc mf xs @ records jc mf ys"
  by (simp add: records_def)

lemma scan_tags_served:
  "kappa_ready n jc wok tags mf (p, w) \<Longrightarrow> set ts \<subseteq> set tags \<Longrightarrow> length objs \<le> effective_limit q \<Longrightarrow>
   \<exists>p' w'. scan_tags n jc q p w objs ts =
       (p', w', Inr (objs @ take (effective_limit q - length objs) (filter (matches q) (records jc mf ts)),
                     effective_limit q - length objs < length (filter (matches q) (records jc mf ts))))
     \<and> kappa_ready n jc wok tags mf (p', w') \<and> kp_client p' = kp_client p \<and> kp_max_scan_pages p' = kp_max_scan_pages p"
proof (induction ts arbitrary: p w objs)
  case (Cons t ts)
  show ?case
  proof (cases "kappa_for t = None")
    case True
    then show ?thesis using Cons by (simp add: records_Cons)
  next
    case False
    then obtain kp where kf: "kappa_for t = Some kp" by auto
    have "t \<in> set tags" using Cons.prems(2) by simp
    from metadata_by_tag_served[OF Cons.prems(1) this False] obtain p1 w1 where
      m: "metadata_by_tag n jc p w t = (p1, w1, Inr (Some (tag_record jc mf t)))"
      and r: "kappa_ready n jc wok tags mf (p1, w1)" and same: "kp_client p1 = kp_client p" "kp_max_scan_pages p1 = kp_max_scan_pages p"
      by blast
    let ?m = "tag_record jc mf t"
    have sub: "set ts \<subseteq> set tags" using Cons.prems(2) by simp
    consider (skip) "\<not> matches q ?m" | (full) "matches q ?m" "length objs = effective_limit q"
      | (take) "matches q ?m" "Suc (length objs) \<le> effective_limit q" using Cons.prems(3) by linarith
    then show ?thesis
    proof cases
      case skip
      then show ?thesis using Cons.IH[OF r sub Cons.prems(3)] kf m same by (simp add: records_Cons)
    next
      case full
      then show ?thesis using kf m r same by (simp add: records_Cons)
    next
      case take
      then have e: "effective_limit q - length objs = Suc (effective_limit q - Suc (length objs))" by simp
      have "length (objs @ [?m]) \<le> effective_limit q" using take by simp
      from Cons.IH[OF r sub this] take e kf m same show ?thesis by (simp add: records_Cons)
    qed
  qed
qed (simp add: records_def)

lemma beyond_beyond:
  assumes "sorted_wrt (<) tags" "max_limit \<le> length (beyond l tags)"
  shows "beyond (Some (beyond l tags ! (max_limit - 1))) tags = drop max_limit (beyond l tags)"
proof -
  let ?B = "beyond l tags" and ?x = "beyond l tags ! (max_limit - 1)"
  have B: "sorted_wrt (\<lambda>a b. id a < id b) ?B" using assms(1) by (simp add: beyond_def sorted_wrt_filter)
  have "?x \<in> set ?B" using assms(2) by (intro nth_mem) simp
  then have "beyond (Some ?x) tags = filter (\<lambda>t. ?x < t) ?B"
    by (auto simp: beyond_def intro!: filter_cong split: option.splits)
  then show ?thesis using filter_beyond[OF B, of max_limit] assms(2) by simp
qed

lemma search_pages_served:
  "kappa_ready n jc wok tags mf (p, w) \<Longrightarrow> length (beyond cur tags) < max_limit * k \<Longrightarrow>
   length objs \<le> effective_limit q \<Longrightarrow>
   \<exists>p' w'. search_pages k n jc q p w cur objs =
       (p', w', Inr (let F = filter (matches q) (records jc mf (beyond cur tags));
                         os = objs @ take (effective_limit q - length objs) F
                     in \<lparr>page_objects = os,
                         page_next_cursor = (if length F \<le> effective_limit q - length objs then None else last_id os),
                         page_truncated = False\<rparr>))
     \<and> kappa_ready n jc wok tags mf (p', w')"
proof (induction k arbitrary: p w cur objs)
  case (Suc k)
  let ?R = "beyond cur tags" and ?l = "effective_limit q"
  have srv: "oci_server n (kp_client p) wok tags mf" "wok w" using Suc.prems(1) by (simp_all add: kappa_ready_def)
  obtain w1 where w1: "wok w1" and lt: "list_tags n (kp_client p) max_limit cur w =
     (w1, Inr \<lparr>page_tags = take max_limit ?R,
               page_next = (if max_limit \<le> length ?R then Some (?R ! (max_limit - 1)) else None)\<rparr>)"
    using list_tags_served[OF srv, of cur] by blast
  have r1: "kappa_ready n jc wok tags mf (p, w1)" using Suc.prems(1) w1 by (simp add: kappa_ready_def)
  show ?case
  proof (cases "?R = []")
    case True
    then show ?thesis using lt r1 by (simp add: records_def)
  next
    case False
    let ?T = "take max_limit ?R"
    have sub: "set ?T \<subseteq> set tags" by (auto simp: beyond_def dest: in_set_takeD)
    let ?F1 = "filter (matches q) (records jc mf ?T)"
    let ?objs1 = "objs @ take (?l - length objs) ?F1"
    obtain p2 w2 where s: "scan_tags n jc q p w1 objs ?T = (p2, w2, Inr (?objs1, ?l - length objs < length ?F1))"
      and r2: "kappa_ready n jc wok tags mf (p2, w2)"
      using scan_tags_served[OF r1 sub Suc.prems(3)] by blast
    let ?F = "filter (matches q) (records jc mf ?R)"
    have F: "?F = ?F1 @ filter (matches q) (records jc mf (drop max_limit ?R))"
      by (metis append_take_drop_id filter_append records_append)
    show ?thesis
    proof (cases "?l - length objs < length ?F1")
      case True
      then show ?thesis using lt s r2 False F by (simp add: Let_def)
    next
      case notfull: False
      show ?thesis
      proof (cases "max_limit \<le> length ?R")
        case nonext: False
        then have "?T = ?R" by simp
        then show ?thesis using lt s r2 False notfull nonext by (simp add: Let_def)
      next
        case True
        let ?cur = "Some (?R ! (max_limit - 1))"
        have b: "beyond ?cur tags = drop max_limit ?R"
          using beyond_beyond[OF _ True] srv(1) by (simp add: oci_server_def)
        have "length (beyond ?cur tags) < max_limit * k" using Suc.prems(2) b True by simp
        moreover have "length ?objs1 \<le> ?l" using notfull Suc.prems(3) by simp
        moreover let ?F2 = "filter (matches q) (records jc mf (drop max_limit ?R))"
        have o1: "?objs1 = objs @ ?F1" using notfull by simp
        have os: "?objs1 @ take (?l - length ?objs1) ?F2 = objs @ take (?l - length objs) ?F"
          using notfull unfolding o1 F by simp
        have cond: "length ?F2 \<le> ?l - length ?objs1 \<longleftrightarrow> length ?F \<le> ?l - length objs"
          using notfull Suc.prems(3) unfolding o1 F by auto
        ultimately obtain p3 w3 where
          sp: "search_pages k n jc q p2 w2 ?cur ?objs1 =
             (p3, w3, Inr \<lparr>page_objects = objs @ take (?l - length objs) ?F,
                         page_next_cursor = (if length ?F \<le> ?l - length objs then None
                                             else last_id (objs @ take (?l - length objs) ?F)),
                         page_truncated = False\<rparr>)"
          and r3: "kappa_ready n jc wok tags mf (p3, w3)"
          using Suc.IH[OF r2, of ?cur ?objs1, unfolded b Let_def os cond] b by auto
        have "search_pages (Suc k) n jc q p w cur objs = search_pages k n jc q p2 w2 ?cur ?objs1"
          using False notfull True by (simp add: lt s)
        then show ?thesis using sp r3 by (simp only: Let_def) blast
      qed
    qed
  qed
qed simp

section \<open>The contract\<close>

lemma kappa_order:
  assumes "kappa_for t = Some k" "kappa_for u = Some j"
  shows "t < u \<longleftrightarrow> k < j"
  using assms by (auto simp: kappa_for_Some)

definition kappa_issued :: "string \<Rightarrow> bool" where
  "kappa_issued k \<longleftrightarrow> (\<exists>t. kappa_for t = Some k)"

lemma record_of_tag:
  assumes "kappa_ready n jc wok tags mf s" "t \<in> set tags" "kappa_for t \<noteq> None"
  shows "kappa_for t = Some (md_id (tag_record jc mf t))"
  using assms unfolding kappa_ready_def by fastforce

lemma records_by_id:
  assumes r: "kappa_ready n jc wok tags mf s"
  shows "by_id (records jc mf tags)"
proof -
  have "sorted_wrt (<) (filter (\<lambda>t. kappa_for t \<noteq> None) tags)"
    using r by (simp add: kappa_ready_def oci_server_def sorted_wrt_filter)
  then have "sorted_wrt (\<lambda>a b. md_id (tag_record jc mf a) < md_id (tag_record jc mf b)) (filter (\<lambda>t. kappa_for t \<noteq> None) tags)"
  proof (rule sorted_wrt_mono_rel[rotated])
    fix a b assume "a \<in> set (filter (\<lambda>t. kappa_for t \<noteq> None) tags)" "b \<in> set (filter (\<lambda>t. kappa_for t \<noteq> None) tags)" "a < b"
    then show "md_id (tag_record jc mf a) < md_id (tag_record jc mf b)"
      using kappa_order[OF record_of_tag[OF r, of a] record_of_tag[OF r, of b]] by simp
  qed
  then show ?thesis by (simp add: records_def sorted_wrt_map)
qed

lemma selected_records:
  assumes r: "kappa_ready n jc wok tags mf s" and c: "pred_option kappa_issued (q_cursor q)"
  shows "filter (matches q) (records jc mf (beyond (map_option tag_for (q_cursor q)) tags)) = selected q (records jc mf tags)"
proof -
  have "(case map_option tag_for (q_cursor q) of None \<Rightarrow> True | Some l \<Rightarrow> l < t) = after_cursor q (tag_record jc mf t)"
    if t: "t \<in> set tags" "kappa_for t \<noteq> None" for t
  proof (cases "q_cursor q")
    case (Some k)
    then obtain u where u: "kappa_for u = Some k" using c by (auto simp: kappa_issued_def)
    show ?thesis using kappa_order[OF u record_of_tag[OF r t]] kappa_for_tag_for[OF u] Some by (simp add: after_cursor_def)
  qed (simp add: after_cursor_def)
  then show ?thesis
    unfolding records_def selected_def beyond_def filter_map filter_filter comp_def
    by (intro arg_cong[where f = "map _"] filter_cong) auto
qed

definition kappa_catalog :: "json_codec \<Rightarrow> string list \<Rightarrow> (string \<Rightarrow> bytes) \<Rightarrow> kappa_provider \<times> 'w \<Rightarrow> object_metadata list" where
  "kappa_catalog jc tags mf s = records jc mf tags"

definition kappa_srch ::
  "'w net \<Rightarrow> json_codec \<Rightarrow> kappa_provider \<times> 'w \<Rightarrow> object_query \<Rightarrow> (kappa_provider \<times> 'w) \<times> object_page live_result"
where
  "kappa_srch n jc s q = (let (p, w, r) = kappa_search n jc q (fst s) (snd s) in ((p, w), r))"

lemma length_beyond: "length (beyond l tags) \<le> length tags"
  by (simp add: beyond_def)

lemma kappa_srch_served:
  assumes r: "kappa_ready n jc wok tags mf s"
  shows "kappa_ready n jc wok tags mf (fst (kappa_srch n jc s q))"
    and "pred_option kappa_issued (q_cursor q) \<Longrightarrow> snd (kappa_srch n jc s q) = Inr (page_of q (records jc mf tags))"
proof -
  obtain p w where s: "s = (p, w)" by force
  let ?F = "filter (matches q) (records jc mf (beyond (map_option tag_for (q_cursor q)) tags))"
  have "length (beyond (map_option tag_for (q_cursor q)) tags) < max_limit * kp_max_scan_pages p"
    using r length_beyond[of "map_option tag_for (q_cursor q)" tags] by (simp add: s kappa_ready_def)
  then obtain p' w' where sp: "kappa_search n jc q p w =
      (p', w', Inr (let os = take (effective_limit q) ?F
                     in \<lparr>page_objects = os,
                         page_next_cursor = (if length ?F \<le> effective_limit q then None else last_id os),
                         page_truncated = False\<rparr>))" "kappa_ready n jc wok tags mf (p', w')"
    using search_pages_served[OF r[unfolded s], of "map_option tag_for (q_cursor q)" "kp_max_scan_pages p" "[]" q]
    by (auto simp: kappa_search_def Let_def)
  then show "kappa_ready n jc wok tags mf (fst (kappa_srch n jc s q))" by (simp add: kappa_srch_def s)
  assume "pred_option kappa_issued (q_cursor q)"
  then show "snd (kappa_srch n jc s q) = Inr (page_of q (records jc mf tags))"
    using sp(1) selected_records[OF r] by (simp add: kappa_srch_def s page_of_def last_id_def Let_def)
qed

interpretation kappa_reg: registry_search "kappa_catalog jc tags mf" "kappa_srch n jc" "kappa_ready n jc wok tags mf" kappa_issued
  for n :: "'w net" and jc wok tags mf
proof
  fix s :: "kappa_provider \<times> 'w" and q m assume r: "kappa_ready n jc wok tags mf s"
  show "by_id (kappa_catalog jc tags mf s)" by (simp add: kappa_catalog_def records_by_id[OF r])
  show "m \<in> set (kappa_catalog jc tags mf s) \<Longrightarrow> kappa_issued (md_id m)"
    using record_of_tag[OF r] by (auto simp: kappa_catalog_def records_def kappa_issued_def)
  show "pred_option kappa_issued (q_cursor q) \<Longrightarrow> snd (kappa_srch n jc s q) = Inr (page_of q (kappa_catalog jc tags mf s))"
    using kappa_srch_served(2)[OF r] by (simp add: kappa_catalog_def)
  show "kappa_ready n jc wok tags mf (fst (kappa_srch n jc s q))" by (rule kappa_srch_served(1)[OF r])
  show "kappa_catalog jc tags mf (fst (kappa_srch n jc s q)) = kappa_catalog jc tags mf s" by (simp add: kappa_catalog_def)
qed

section \<open>Properties\<close>

text \<open>
  C29 Searching a remote registry. When the registry lists tags as the distribution specification says,
  the manifests under object tags decode to the object they are tagged with, and the configured scan
  bound covers the namespace, a search by the remote provider, with its cache in any consistent state,
  gives exactly the page the local provider would give for the same catalogue: the first matches in
  ascending id order after the cursor, a cursor exactly when more remain, and never a truncated page.
  Following the cursors collects every match once, and no search step disturbs this.
\<close>
theorem kappa_search_pages:
  fixes n :: "'w net"
  assumes r: "kappa_ready n jc wok tags mf (p, w)"
  shows "(pred_option kappa_issued (q_cursor q) \<longrightarrow>
            snd (snd (kappa_search n jc q p w)) = Inr (page_of q (records jc mf tags)))
     \<and> (q_cursor q = None \<longrightarrow>
          (\<forall>k > length (filter (matches q) (records jc mf tags)).
             walk (kappa_srch n jc) k (p, w) q = Some (filter (matches q) (records jc mf tags))))
     \<and> by_id (records jc mf tags)"
proof (intro conjI impI allI)
  show "snd (snd (kappa_search n jc q p w)) = Inr (page_of q (records jc mf tags))"
    if "pred_option kappa_issued (q_cursor q)"
    using kappa_srch_served(2)[OF r that] by (simp add: kappa_srch_def case_prod_unfold Let_def)
  show "walk (kappa_srch n jc) k (p, w) q = Some (filter (matches q) (records jc mf tags))"
    if "q_cursor q = None" "length (filter (matches q) (records jc mf tags)) < k" for k
    using kappa_reg.walk_complete[OF r, of q k] that
    by (simp add: kappa_catalog_def selected_def after_cursor_def)
  show "by_id (records jc mf tags)" by (rule records_by_id[OF r])
qed

text \<open>A server with one object and one foreign tag, whose world never changes.\<close>

definition demo_meta :: object_metadata where
  "demo_meta = \<lparr>md_id = ''blake3:'' @ replicate 64 (CHR ''a''), md_kind = ''file'', md_media_type = ''t'',
     md_filename = None, md_size = 1, md_created = 1\<rparr>"

definition demo_tags :: "string list" where
  "demo_tags = [''blake3_'' @ replicate 64 (CHR ''a''), ''latest'']"

definition demo_client :: kappa_client where
  "demo_client = \<lparr>kc_endpoint = ''e'', kc_namespace = ''n'', kc_token = []\<rparr>"

definition demo_reply :: "bytes \<Rightarrow> http_response" where
  "demo_reply b = \<lparr>rs_status = 200, rs_headers = [], rs_body = Inr b, rs_text = Inr [], rs_content_length = None\<rparr>"

definition demo_enc_tags :: "string list \<Rightarrow> bytes" where
  "demo_enc_tags ss = of_nat (length ss) # concat (map enc_str ss)"

definition demo_dec_tags :: "bytes \<Rightarrow> string + string list" where
  "demo_dec_tags b = (case b of [] \<Rightarrow> Inl ''empty''
     | l # r \<Rightarrow> (case dec_strs (unat l) r of Some ss \<Rightarrow> Inr ss | None \<Rightarrow> Inl ''malformed''))"

definition demo_net :: "unit net" where
  "demo_net = \<lparr>net_send = (\<lambda>rq w. ((),
       if rq_query rq = [] then Inr (demo_reply (encode_manifest sample_json demo_meta))
       else Inr (demo_reply (demo_enc_tags (take max_limit (beyond (map_of (rq_query rq) ''last'') demo_tags)))))),
     net_millis = (\<lambda>_. 0), net_instant = (\<lambda>_. 0), status_text = show_nat, tags_of_bytes = demo_dec_tags\<rparr>"

definition demo_provider :: kappa_provider where
  "demo_provider = \<lparr>kp_client = demo_client, kp_max_scan_pages = 1, kp_cache = [], kp_ttl = metadata_ttl, kp_poisoned = False\<rparr>"

lemma dec_strs_enc: "dec_strs (length ss) (concat (map enc_str ss)) = Some ss"
  by (induction ss) (simp_all add: dec_enc_str)

lemma demo_tags_codec: "length ss < 256 \<Longrightarrow> demo_dec_tags (demo_enc_tags ss) = Inr ss"
  by (simp add: demo_dec_tags_def demo_enc_tags_def dec_strs_enc unsigned_of_nat take_bit_nat_eq_self)

lemma demo_ready:
  "kappa_ready demo_net sample_json (\<lambda>_. True) demo_tags (\<lambda>_. encode_manifest sample_json demo_meta) (demo_provider, ())"
proof -
  have len: "length (take max_limit (beyond l demo_tags)) < 256" for l
    using length_beyond[of l demo_tags] by (simp add: demo_tags_def)
  have q: "map_of (rq_query (tags_request demo_client l)) ''last'' = l" "rq_query (tags_request demo_client l) \<noteq> []"
    "rq_query (manifest_request demo_client t) = []" for l t
    by (simp_all add: tags_request_def manifest_request_def authorize_def demo_client_def split: option.splits)
  have m: "decode_manifest sample_json (encode_manifest sample_json demo_meta) = Inr demo_meta"
    by (rule decode_encode_manifest[OF sample_json_ok]) (simp_all add: demo_meta_def)
  have srv: "oci_server demo_net demo_client (\<lambda>_. True) demo_tags (\<lambda>_. encode_manifest sample_json demo_meta)"
    unfolding oci_server_def using len
    by (auto simp: demo_net_def q demo_reply_def demo_tags_codec) (simp add: demo_tags_def)
  have k: "kappa_for (''blake3_'' @ replicate 64 (CHR ''a'')) = Some (md_id demo_meta)" "kappa_for ''latest'' = None"
    by (simp_all add: kappa_for_def demo_meta_def byte_class_defs strip_prefix_def list_all_iff)
  show ?thesis
    using srv k by (auto simp: kappa_ready_def demo_provider_def demo_tags_def m)
qed

theorem kappa_search_pages_witness:
  "walk (kappa_srch demo_net sample_json) 2 (demo_provider, ()) default_query = Some [demo_meta]"
proof -
  have "kappa_for (''blake3_'' @ replicate 64 (CHR ''a'')) \<noteq> None" "kappa_for ''latest'' = None"
    by (simp_all add: kappa_for_def byte_class_defs strip_prefix_def list_all_iff)
  then have "records sample_json (\<lambda>_. encode_manifest sample_json demo_meta) demo_tags = [demo_meta]"
    using decode_encode_manifest[OF sample_json_ok, of demo_meta]
    by (simp add: records_def demo_tags_def demo_meta_def)
  then show ?thesis
    using kappa_search_pages[OF demo_ready, of default_query] by (simp add: default_query_def matches_def)
qed

end
