(* ===== verification/Config_Properties.thy ===== *)
theory Config_Properties
  imports App_Config
begin

text \<open>
  Properties of the configuration of theory \<open>App_Config\<close>: what validation lets through, what loading
  does to the file, and the pruning of retired keys.
\<close>

section \<open>Validation\<close>

lemma validate_config_Inr:
  "validate_config ev c = Inr () \<longleftrightarrow>
     schema_version c = 2 \<and> validate_listener ev c = Inr () \<and> validate_services c = Inr ()
     \<and> validate_holo_resident c = Inr () \<and> validate_plugins c = Inr () \<and> validate_registry c = Inr ()"
  by (auto simp: validate_config_def bindE_eq_Inr)

text \<open>
  C25 A configuration passes validation exactly when: its schema is current; the listen address
  parses and is a loopback address, unless authentication is required and no development grant is
  configured; authentication, when required, has its token variable set in the environment; the size limits,
  the mailbox capacity, the timeouts and the session bound are positive; every endpoint starts with \<open>https://\<close> or
  with one of three loopback prefixes; the formats and the engine are known; the resident archives are
  distinct well-formed content addresses; the plugin ids are distinct, not empty and not those of
  built-in modules, with a path and a full SHA-256; and the registry provider is known and, when
  remote, has an endpoint and a namespace. Two of these conditions are weaker than their intent. The prefix of an
  endpoint says nothing of its host: every accepted configuration stays accepted with a remote
  endpoint in plain HTTP on the other machine \<open>127.0.0.1.example.com\<close>, which \<open>SECURITY.md\<close> and the
  error message rule out. And the token variable may hold a value that is not UTF-8, which passes although
  \<open>auth_token\<close> has no token then.
\<close>
theorem validate_config_exact:
  "(validate_config ev c = Inr () \<longleftrightarrow>
     schema_version c = 2
     \<and> (\<exists>a. parse_socket_addr (srv_listen (cfg_server c)) = Inr a
          \<and> (is_loopback (sock_ip a) \<or> auth_required (cfg_auth c) \<and> development_grant (cfg_holo c) = None))
     \<and> (auth_required (cfg_auth c) \<longrightarrow> ev (token_env (cfg_auth c)) \<noteq> None)
     \<and> 0 < max_rpc_bytes (cfg_server c) \<and> 0 < max_http_body_bytes (cfg_server c)
     \<and> 0 < actor_mailbox_capacity (cfg_server c)
     \<and> (\<forall>e \<in> {local_endpoint (cfg_client c), ollama_endpoint (cfg_inference c)}
            \<union> set_option (remote_endpoint (cfg_client c)) \<union> set_option (tel_endpoint (cfg_telemetry c)).
          prefix ''https://'' e \<or> prefix ''http://127.0.0.1'' e \<or> prefix ''http://localhost'' e \<or> prefix ''http://[::1]'' e)
     \<and> trace_format (cfg_tracing c) \<in> {''pretty'', ''compact'', ''json''}
     \<and> inf_engine (cfg_inference c) \<in> {''echo'', ''weightc'', ''ollama''}
     \<and> trim (weightc_path (cfg_inference c)) \<noteq> [] \<and> 0 < inf_request_timeout_secs (cfg_inference c)
     \<and> 0 < max_resident_sessions (cfg_inference c) \<and> trim (service_name (cfg_telemetry c)) \<noteq> []
     \<and> 0 < export_timeout_secs (cfg_telemetry c)
     \<and> (\<forall>r \<in> set (holo_resident (cfg_holo c)). \<exists>d. trim (resident_kappa r) = ''blake3:'' @ d \<and> hex64 d)
     \<and> distinct (map (\<lambda>r. trim (resident_kappa r)) (holo_resident (cfg_holo c)))
     \<and> (\<forall>m \<in> set (plugin_modules (cfg_plugins c)). trim (plugin_id m) \<noteq> [] \<and> plugin_id m \<notin> set default_builtin_ids
          \<and> plugin_path m \<noteq> [] \<and> hex64 (plugin_sha256 m))
     \<and> distinct (map plugin_id (plugin_modules (cfg_plugins c)))
     \<and> (reg_provider (cfg_registry c) = ''local''
        \<or> reg_provider (cfg_registry c) = ''kappa'' \<and> trim (reg_endpoint (cfg_registry c)) \<noteq> []
           \<and> trim (reg_namespace (cfg_registry c)) \<noteq> []))
   \<and> (validate_config ev c = Inr () \<longrightarrow>
        validate_config ev (c\<lparr>cfg_client := (cfg_client c)\<lparr>remote_endpoint := Some ''http://127.0.0.1.example.com/''\<rparr>\<rparr>) = Inr ())
   \<and> (auth_token ev c = None \<longleftrightarrow>
        (\<forall>v. ev (token_env (cfg_auth c)) = Some v \<longrightarrow> \<not> utf8_valid (map byte_of v)))"
proof (intro conjI, goal_cases)
  case 1
  have eps: "(\<forall>e \<in> {a, b} \<union> set_option x \<union> set_option y. P e) \<longleftrightarrow>
      P a \<and> P b \<and> (\<forall>e. x = Some e \<longrightarrow> P e) \<and> (\<forall>e. y = Some e \<longrightarrow> P e)" for a b :: string and x y P
    by (cases x; cases y) auto
  show ?case
    unfolding validate_config_Inr validate_listener_Inr validate_services_Inr validate_registry_Inr
      validate_holo_resident_def resident_loop_Inr validate_plugins_def plugins_loop_Inr eps validate_endpoint_Inr
    by (simp only: list.set Int_empty_right simp_thms conj_assoc conj_comms conj_left_commute)
next
  case 2
  show ?case
    by (auto simp: validate_config_Inr validate_listener_Inr validate_services_Inr validate_endpoint_Inr validate_holo_resident_def
        validate_plugins_def validate_registry_def)
next
  case 3
  show ?case by (auto simp: auth_token_def env_var_def split: option.splits)
qed

abbreviation no_env :: env where
  "no_env \<equiv> (\<lambda>_. None)"

lemma default_listen: "parse_socket_addr ''127.0.0.1:11435'' = Inr \<lparr>sock_ip = V4 [127, 0, 0, 1], sock_port = 11435\<rparr>"
  by (simp add: socket_eval)

lemmas default_config_defs =
  default_config_def default_server_def default_client_def default_auth_def default_tracing_def
  default_telemetry_def default_inference_def default_registry_def

lemma trim_words: "trim ''weightc'' = ''weightc''" "trim ''hologram-live'' = ''hologram-live''"
  by (rule trim_graphic; auto simp: byte_class_defs)+

theorem validate_config_exact_witness:
  "validate_config no_env (default_config no_env) = Inr ()
   \<and> validate_config no_env ((default_config no_env)\<lparr>cfg_client := (cfg_client (default_config no_env))
       \<lparr>remote_endpoint := Some ''http://127.0.0.1.example.com/''\<rparr>\<rparr>) = Inr ()"
proof -
  note exact = validate_config_exact [of no_env "default_config no_env"]
  have "validate_config no_env (default_config no_env) = Inr ()"
    by (rule exact [THEN conjunct1, THEN iffD2]) (simp add: default_config_defs default_listen is_loopback_def trim_words)
  then show ?thesis using exact by blast
qed

text \<open>
  The endpoint check compares prefixes of the text, not hosts: every endpoint that continues one of
  the loopback prefixes is accepted without HTTPS, also one whose host merely begins with it and is
  another machine; everything else without the \<open>https\<close> scheme is refused with an error that names
  the endpoint.
\<close>
theorem validate_endpoint_prefixes:
  "validate_endpoint (''http://localhost'' @ rest) is_local = Inr ()
   \<and> validate_endpoint (''http://127.0.0.1'' @ rest) is_local = Inr ()
   \<and> validate_endpoint (''http://127.0.0.1'' @ ''.example.com/'') False = Inr ()
   \<and> (validate_endpoint e is_local = Inr ()
      \<or> validate_endpoint e is_local =
          Inl (Config ((if is_local then ''local'' else ''remote'') @ '' endpoint must use HTTPS unless it is loopback: '' @ e)))"
  by (simp add: validate_endpoint_def starts_with_def)

section \<open>Retired keys\<close>

text \<open>What a table holds at a path of keys.\<close>

fun toml_at :: "(string \<times> toml) list \<Rightarrow> string list \<Rightarrow> toml option" where
  "toml_at t [] = None"
| "toml_at t [k] = map_of t k"
| "toml_at t (k # ks) = (case map_of t k of Some (TTable inner) \<Rightarrow> toml_at inner ks | _ \<Rightarrow> None)"

abbreviation keys_of :: "string \<Rightarrow> string list" where
  "keys_of p \<equiv> split_on (CHR ''.'') p"

lemma split_on_once:
  "split_on c s = (case split_once c s of None \<Rightarrow> [s] | Some (a, b) \<Rightarrow> a # split_on c b)"
  by (induction s) (auto split: option.splits list.splits)

lemma toml_at_Cons: "ks \<noteq> [] \<Longrightarrow> toml_at t (k # ks) = (case map_of t k of Some (TTable inner) \<Rightarrow> toml_at inner ks | _ \<Rightarrow> None)"
  by (cases ks) auto

lemma remove_dotted_spec:
  "toml_at (fst (remove_dotted t p)) (keys_of p) = None
   \<and> (snd (remove_dotted t p) \<longleftrightarrow> toml_at t (keys_of p) \<noteq> None)
   \<and> (\<forall>ks. \<not> prefix (keys_of p) ks \<longrightarrow> \<not> prefix ks (keys_of p) \<longrightarrow>
        toml_at (fst (remove_dotted t p)) ks = toml_at t ks)"
proof (induction t p rule: remove_dotted.induct)
  case (1 t p)
  show ?case
  proof (cases "split_once (CHR ''.'') p")
    case None
    then have k: "keys_of p = [p]" by (simp add: split_on_once)
    have r: "remove_dotted t p = (AList.delete p t, map_of t p \<noteq> None)"
      using None by (simp add: remove_dotted.simps)
    have "toml_at (AList.delete p t) ks = toml_at t ks" if "\<not> prefix [p] ks" for ks
      using that by (cases "(t, ks)" rule: toml_at.cases) (auto simp: delete_conv' toml_at_Cons split: option.splits toml.splits)
    then show ?thesis by (simp add: k r delete_conv')
  next
    case (Some hr)
    obtain h rest where hr: "hr = (h, rest)" by force
    have k: "keys_of p = h # keys_of rest" using Some by (simp add: split_on_once hr)
    show ?thesis
    proof (cases "\<exists>inner. map_of t h = Some (TTable inner)")
      case False
      then have "remove_dotted t p = (t, False)" using Some
        by (subst remove_dotted.simps) (auto simp: hr split: option.splits toml.splits)
      moreover have "toml_at t (keys_of p) = None" using False
        by (auto simp: k toml_at_Cons split: option.splits toml.splits)
      ultimately show ?thesis by simp
    next
      case True
      then obtain inner where i: "map_of t h = Some (TTable inner)" ..
      obtain inner' f where ri: "remove_dotted inner rest = (inner', f)" by force
      note IH = 1[OF Some hr[symmetric] i refl, unfolded ri fst_conv snd_conv]
      have r: "remove_dotted t p = (AList.update h (TTable inner') t, f)"
        using Some i ri by (subst remove_dotted.simps) (simp add: hr)
      have "toml_at (AList.update h (TTable inner') t) ks = toml_at t ks"
        if "\<not> prefix (h # keys_of rest) ks" "\<not> prefix ks (h # keys_of rest)" for ks
        using that IH i
        by (cases "(t, ks)" rule: toml_at.cases) (auto simp: update_conv' toml_at_Cons split: option.splits toml.splits)
      then show ?thesis using IH by (simp add: k r toml_at_Cons update_conv' i)
    qed
  qed
qed

lemma prune_loop_spec:
  assumes "prune_loop rs t dr = (t', dr')"
  shows "set dr' \<subseteq> set dr \<union> rk_path ` set rs"
    and "(\<forall>r \<in> set rs. \<not> prefix (keys_of (rk_path r)) ks \<and> \<not> prefix ks (keys_of (rk_path r))) \<Longrightarrow> toml_at t' ks = toml_at t ks"
  using assms
proof (induction rs arbitrary: t dr)
  case (Cons r rs)
  { case 1
    obtain u f where u: "remove_dotted t (rk_path r) = (u, f)" by force
    with 1 Cons.IH(1)[of u "if f then dr @ [rk_path r] else dr"] u show ?case by (auto split: if_splits) }
  { case 2
    obtain u f where u: "remove_dotted t (rk_path r) = (u, f)" by force
    have "toml_at u ks = toml_at t ks" using remove_dotted_spec[of t "rk_path r"] u 2(1) by simp
    moreover have "toml_at t' ks = toml_at u ks" using Cons.IH(2)[of u "if f then dr @ [rk_path r] else dr"] 2 u by simp
    ultimately show ?case by simp }
qed auto

text \<open>Removing a path never brings another back.\<close>

lemma toml_at_mono_remove: "toml_at t ks = None \<Longrightarrow> toml_at (fst (remove_dotted t p)) ks = None"
proof (induction t p arbitrary: ks rule: remove_dotted.induct)
  case (1 t p)
  show ?case
  proof (cases "split_once (CHR ''.'') p")
    case None
    then have r: "fst (remove_dotted t p) = AList.delete p t" by (simp add: remove_dotted.simps)
    show ?thesis unfolding r using "1.prems"
      by (cases "(t, ks)" rule: toml_at.cases) (auto simp: delete_conv' toml_at_Cons split: option.splits toml.splits if_splits)
  next
    case (Some hr)
    obtain h rest where hr: "hr = (h, rest)" by force
    show ?thesis
    proof (cases "\<exists>inner. map_of t h = Some (TTable inner)")
      case False
      then have "remove_dotted t p = (t, False)" using Some
        by (subst remove_dotted.simps) (auto simp: hr split: option.splits toml.splits)
      then show ?thesis using "1.prems" by simp
    next
      case True
      then obtain inner where i: "map_of t h = Some (TTable inner)" ..
      obtain inner' f where ri: "remove_dotted inner rest = (inner', f)" by force
      note IH = "1.IH"[OF Some hr[symmetric] i refl, unfolded ri fst_conv]
      have r: "fst (remove_dotted t p) = AList.update h (TTable inner') t"
        using Some i ri by (subst remove_dotted.simps) (simp add: hr)
      show ?thesis unfolding r using "1.prems" IH i
        by (cases "(t, ks)" rule: toml_at.cases)
          (auto simp: update_conv' toml_at_Cons split: option.splits toml.splits if_splits)
    qed
  qed
qed

lemma prune_loop_gone:
  assumes "prune_loop rs t dr = (t', dr')"
  shows "toml_at t ks = None \<Longrightarrow> toml_at t' ks = None"
    and "r \<in> set rs \<Longrightarrow> toml_at t' (keys_of (rk_path r)) = None"
  using assms
proof (induction rs arbitrary: t dr ks)
  case (Cons x rs)
  { case 1
    obtain u f where u: "remove_dotted t (rk_path x) = (u, f)" by force
    have "toml_at u ks = None" using toml_at_mono_remove[OF 1(1), of "rk_path x"] u by simp
    with Cons.IH(1)[of u ks "if f then dr @ [rk_path x] else dr"] 1 u show ?case by simp }
  { case 2
    obtain u f where u: "remove_dotted t (rk_path x) = (u, f)" by force
    have "toml_at u (keys_of (rk_path x)) = None" using remove_dotted_spec[of t "rk_path x"] u by simp
    with Cons.IH(1)[of u "keys_of (rk_path x)" "if f then dr @ [rk_path x] else dr"]
      Cons.IH(2)[of u "if f then dr @ [rk_path x] else dr"] 2 u show ?case by auto }
qed auto

text \<open>
  Upgrading an older file drops the keys that newer schemas retired and no others. After
  the pruning nothing is left at any path retired after the file's version; every path that is neither
  such a path, nor below one, nor a table above one, holds what it held; only retired paths are
  reported as dropped; and a file whose version is at least that of every retirement is left as it is.
\<close>
theorem prune_retired_keys_exact:
  assumes "prune_retired_keys t from retired = (t', dropped)"
  shows "(\<forall>r \<in> set retired. from < rk_removed_in r \<longrightarrow> toml_at t' (keys_of (rk_path r)) = None)
     \<and> (\<forall>ks. (\<forall>r \<in> set retired. from < rk_removed_in r \<longrightarrow>
                 \<not> prefix (keys_of (rk_path r)) ks \<and> \<not> prefix ks (keys_of (rk_path r))) \<longrightarrow> toml_at t' ks = toml_at t ks)
     \<and> set dropped \<subseteq> rk_path ` {r \<in> set retired. from < rk_removed_in r}
     \<and> ((\<forall>r \<in> set retired. rk_removed_in r \<le> from) \<longrightarrow> t' = t \<and> dropped = [])"
proof (intro conjI allI ballI impI)
  note run = assms[unfolded prune_retired_keys_def]
  show "toml_at t' (keys_of (rk_path r)) = None" if "r \<in> set retired" "from < rk_removed_in r" for r
    using prune_loop_gone(2)[OF run] that by simp
  show "toml_at t' ks = toml_at t ks"
    if "\<forall>r \<in> set retired. from < rk_removed_in r \<longrightarrow> \<not> prefix (keys_of (rk_path r)) ks \<and> \<not> prefix ks (keys_of (rk_path r))" for ks
    using prune_loop_spec(2)[OF run] that by simp
  show "set dropped \<subseteq> rk_path ` {r \<in> set retired. from < rk_removed_in r}"
    using prune_loop_spec(1)[OF run] by simp
next
  assume "\<forall>r \<in> set retired. rk_removed_in r \<le> from"
  then have f: "filter (\<lambda>k. from < rk_removed_in k) retired = []" by (auto simp: filter_empty_conv)
  show "t' = t" "dropped = []" using assms by (simp_all add: prune_retired_keys_def f)
qed

theorem prune_retired_keys_exact_witness:
  "let t = [(''server'', TTable [(''old'', TInt 1), (''listen'', TScalar ''x'')])];
       r = \<lparr>rk_path = ''server.old'', rk_removed_in = 2\<rparr>;
       t' = fst (prune_retired_keys t 1 [r])
   in toml_at t' [''server'', ''old''] = None \<and> toml_at t' [''server'', ''listen''] = Some (TScalar ''x'')"
proof -
  let ?t = "[(''server'', TTable [(''old'', TInt 1), (''listen'', TScalar ''x'')])]"
  let ?r = "\<lparr>rk_path = ''server.old'', rk_removed_in = 2\<rparr>"
  note p = prune_retired_keys_exact[of ?t 1 "[?r]", OF surjective_pairing]
  have "toml_at (fst (prune_retired_keys ?t 1 [?r])) (keys_of ''server.old'') = None"
    using p[THEN conjunct1] by (simp del: split_on.simps)
  moreover have "toml_at (fst (prune_retired_keys ?t 1 [?r])) [''server'', ''listen''] = toml_at ?t [''server'', ''listen'']"
    using p[THEN conjunct2, THEN conjunct1] by (rule allE) (erule mp, simp)
  ultimately show ?thesis by (simp add: Let_def)
qed

section \<open>Loading\<close>

lemma apply_environment_schema: "apply_environment ev c = Inr c' \<Longrightarrow> schema_version c' = schema_version c"
  by (auto simp: apply_environment_def Let_def bindE_eq_Inr split: option.splits)

lemma expand_paths_schema [simp]: "schema_version (expand_paths ev c) = schema_version c"
  by (simp add: expand_paths_def Let_def)

lemma apply_environment_Inl: "apply_environment ev c = Inl e \<Longrightarrow> \<exists>m. e = Config m"
  by (auto simp: apply_environment_def Let_def bindE_eq_Inl split: option.splits)

text \<open>The tail of loading: overrides, expansion, validation.\<close>

definition finish_load :: "env \<Rightarrow> string \<Rightarrow> app_config \<Rightarrow> (app_config \<times> string) live_result" where
  "finish_load ev path c =
     bindE (apply_environment ev c) (\<lambda>c2. let c3 = expand_paths ev c2 in bindE (validate_config ev c3) (\<lambda>_. Inr (c3, path)))"

lemma finish_load_Inr: "finish_load ev path c = Inr (c', q) \<Longrightarrow> q = path \<and> validate_config ev c' = Inr ()"
  by (auto simp: finish_load_def Let_def bindE_eq_Inr)

lemma finish_load_schema:
  assumes "schema_version c \<noteq> 2"
  shows "\<exists>m. finish_load ev path c = Inl (Config m)"
proof (cases "apply_environment ev c")
  case (Inl e)
  then show ?thesis using apply_environment_Inl[OF Inl] by (auto simp: finish_load_def)
next
  case (Inr c')
  then have "schema_version (expand_paths ev c') \<noteq> 2" using assms by (simp add: apply_environment_schema)
  then show ?thesis using Inr by (simp add: finish_load_def Let_def validate_config_def)
qed

text \<open>The configuration a load starts from.\<close>

definition initial_config :: "env \<Rightarrow> toml_codec \<Rightarrow> string \<Rightarrow> bool \<Rightarrow> fs \<Rightarrow> app_config live_result" where
  "initial_config ev tc path up t =
     (if fs_exists t path then bindE (read_to_string t path) (\<lambda>source. from_source tc source up retired_keys)
      else Inr (default_config ev))"

lemma load_inner_stages:
  "load_inner ev tc pid p up t =
     (let path = config_path ev p in
      case initial_config ev tc path up t of
        Inl e \<Rightarrow> (t, Inl e)
      | Inr c \<Rightarrow>
          (case (if up then migrate c else Inr (c, False)) of
             Inl e \<Rightarrow> (t, Inl e)
           | Inr (c', changed) \<Rightarrow>
               ((if changed \<and> fs_exists t path then persist_upgrade tc pid c' path t else t), finish_load ev path c')))"
  unfolding load_inner_def initial_config_def finish_load_def Let_def by (rule refl)

lemma persist_upgrade_frame:
  "q \<noteq> path \<Longrightarrow> q \<noteq> temp_path pid path \<Longrightarrow> fs_get (persist_upgrade tc pid c path t) q = fs_get t q"
  by (simp add: persist_upgrade_def atomic_write_frame split: sum.splits)

lemma persist_upgrade_writes:
  assumes "config_to_toml tc c = Inr enc" "\<forall>c q. fs_faults t c q = None"
  shows "fs_get (persist_upgrade tc pid c path t) path = Some (string_bytes enc)"
proof -
  have "snd (atomic_write pid path (string_bytes enc) t) = Inr ()" using assms(2) by (simp add: atomic_write_succeeds)
  then have "atomic_write pid path (string_bytes enc) t = (fst (atomic_write pid path (string_bytes enc) t), Inr ())"
    by (metis prod.collapse)
  from atomic_write_ok[OF this, of path] show ?thesis by (simp add: persist_upgrade_def assms(1))
qed

text \<open>
  Loading the configuration. A load that succeeds returns the resolved path and a configuration
  that passes validation. Reading for bootstrap, and loading where no file exists, change no file;
  an upgrading load changes at most the configuration file and its temporary. A file of a schema
  this build cannot read is refused as a configuration error and left untouched; a file of the
  previous schema is accepted only by an upgrading load, which writes back exactly what the user
  wrote at the current schema, without environment overrides or expanded paths.
\<close>
theorem load_config_outcomes:
  assumes run: "load_inner ev tc pid p up t = (t', r)"
  shows "(\<forall>c q. r = Inr (c, q) \<longrightarrow> q = config_path ev p \<and> validate_config ev c = Inr ())
     \<and> (\<not> up \<or> \<not> fs_exists t (config_path ev p) \<longrightarrow> t' = t)
     \<and> (\<forall>q. q \<noteq> config_path ev p \<longrightarrow> q \<noteq> temp_path pid (config_path ev p) \<longrightarrow> fs_get t' q = fs_get t q)
     \<and> (\<forall>c. initial_config ev tc (config_path ev p) up t = Inr c \<longrightarrow>
          (schema_version c \<notin> {1, 2} \<or> schema_version c = 1 \<and> \<not> up \<longrightarrow> t' = t \<and> (\<exists>m. r = Inl (Config m)))
          \<and> (schema_version c = 1 \<and> up \<and> fs_exists t (config_path ev p) \<and> (\<forall>c q. fs_faults t c q = None) \<longrightarrow>
               (\<forall>enc. config_to_toml tc (c\<lparr>schema_version := 2\<rparr>) = Inr enc \<longrightarrow>
                  fs_get t' (config_path ev p) = Some (string_bytes enc))))"
proof -
  let ?p = "config_path ev p"
  show ?thesis
  proof (cases "initial_config ev tc ?p up t")
    case (Inl e)
    then have "t' = t" "r = Inl e" using run by (simp_all add: load_inner_stages Let_def)
    then show ?thesis using Inl by simp
  next
    case (Inr c)
    note st = run[unfolded load_inner_stages Let_def Inr sum.case]
    consider (cur) "schema_version c = 2 \<or> \<not> up" | (old) "schema_version c = 1" "up" | (bad) "schema_version c \<notin> {1, 2}" "up"
      by auto
    then show ?thesis
    proof cases
      case cur
      then have e: "t' = t" "r = finish_load ev ?p c" using st by (auto simp: migrate_def split: if_splits)
      show ?thesis using cur finish_load_Inr[of ev ?p c] finish_load_schema[of c ev ?p] unfolding Inr by (auto simp: e)
    next
      case old
      then have e: "t' = (if fs_exists t ?p then persist_upgrade tc pid (c\<lparr>schema_version := 2\<rparr>) ?p t else t)"
        "r = finish_load ev ?p (c\<lparr>schema_version := 2\<rparr>)" using st by (simp_all add: migrate_def)
      show ?thesis using old finish_load_Inr[of ev ?p "c\<lparr>schema_version := 2\<rparr>"] unfolding Inr
        by (auto simp: e persist_upgrade_frame persist_upgrade_writes)
    next
      case bad
      then have "t' = t" "\<exists>m. r = Inl (Config m)" using st by (auto simp: migrate_def split: if_splits)
      then show ?thesis using bad unfolding Inr by auto
    qed
  qed
qed

text \<open>A codec that prints a configuration as its schema number, for the witness.\<close>

definition sample_toml :: toml_codec where
  "sample_toml = \<lparr>toml_table = (\<lambda>s. Inr [(''schema_version'', TInt (int (digits_val s)))]),
     toml_config = (\<lambda>s. Inr ((default_config no_env)\<lparr>schema_version := digits_val s\<rparr>)),
     config_of_table = (\<lambda>t. case schema_of_table t of
        None \<Rightarrow> Inl ''missing field''
      | Some v \<Rightarrow> Inr ((default_config no_env)\<lparr>schema_version := v\<rparr>)),
     config_to_toml = (\<lambda>c. Inr (show_nat (schema_version c)))\<rparr>"

definition sample_config_fs :: fs where
  "sample_config_fs = \<lparr>fs_files = [(''c/live.toml'', [49])], fs_faults = \<lambda>_ _. None, fs_torn = \<lambda>_. None\<rparr>"

theorem load_config_outcomes_witness:
  "fs_get (fst (load_config no_env sample_toml 7 (Some ''c/live.toml'') sample_config_fs)) ''c/live.toml''
     = Some (string_bytes ''2'')"
proof -
  let ?c = "(default_config no_env)\<lparr>schema_version := 1\<rparr>"
  have p: "config_path no_env (Some ''c/live.toml'') = ''c/live.toml''"
    by (simp add: config_path_def expand_home_def strip_prefix_def)
  have one: "bytes_string [49] = ''1''" by (simp add: bytes_string_def char_of_def bit_simps)
  have i: "initial_config no_env sample_toml ''c/live.toml'' True sample_config_fs = Inr ?c"
    by (simp add: initial_config_def sample_config_fs_def fs_exists_def fs_get_def read_to_string_def fs_read_def
        from_source_def sample_toml_def schema_of_table_def prune_retired_keys_def retired_keys_def one
        digits_val_def byte_of_def default_config_def)
  have "fs_exists sample_config_fs ''c/live.toml''" "\<forall>c q. fs_faults sample_config_fs c q = None"
    by (simp_all add: sample_config_fs_def fs_exists_def fs_get_def)
  moreover have "config_to_toml sample_toml (?c\<lparr>schema_version := 2\<rparr>) = Inr ''2''"
    by (simp add: sample_toml_def show_nat.simps digit_char_def char_of_def bit_simps)
  ultimately show ?thesis
    using load_config_outcomes[of no_env sample_toml 7 "Some ''c/live.toml''" True sample_config_fs,
        OF surjective_pairing, THEN conjunct2, THEN conjunct2, THEN conjunct2, unfolded p, rule_format, OF i]
    by (simp add: load_config_def)
qed

end
