(* ===== verification/Space.thy ===== *)
theory Space
  imports Json
begin

text \<open>
  The parts of the \<open>hologram\<close> crate the daemon calls, which is not part of this repository: content
  addressing, the application manifest with its codec, the physical archive loader, the capability set
  with its codec and its admission relation, and endpoint scopes. The record types below carry the
  fields the daemon reads; the functions are parameters.
\<close>

section \<open>Types\<close>

datatype layer_kind = WasmCodemodule | TensorPlan | RootfsImage | ViewLayer | InferenceModel

record app_layer =
  al_kind :: layer_kind
  al_content :: string
  al_entry :: string
  al_aux :: string

record app_manifest =
  am_layers :: "app_layer list"
  am_children :: "(string \<times> string) list"
  am_primary :: "nat option"
  am_requires :: string

record capabilities =
  storage_roots :: "string list"
  storage_quota_bytes :: nat
  network_fetch_endpoints :: "string list"
  network_announce_endpoints :: "string list"
  publish_channels :: "string list"
  subscribe_channels :: "string list"
  memory_max_bytes :: nat
  cpu_time_per_event_ms :: nat
  priority_weight :: nat

text \<open>A loaded archive: its footer fingerprint, the manifest section, and the two tables, whose
  reading may fail.\<close>

record holo_archive =
  ar_fingerprint :: bytes
  ar_manifest :: "bytes option"
  ar_extensions :: "string + (string \<times> bytes) list"
  ar_content_blobs :: "string + (bytes \<times> bytes) list"

record space =
  address_bytes :: "bytes \<Rightarrow> string"
  manifest_decode :: "bytes \<Rightarrow> string + app_manifest"
  manifest_validate :: "app_manifest \<Rightarrow> string + unit"
  manifest_canonicalize :: "app_manifest \<Rightarrow> bytes"
  load_archive :: "bytes \<Rightarrow> string + holo_archive"
  caps_decode :: "bytes \<Rightarrow> string + capabilities"
  caps_canonicalize :: "capabilities \<Rightarrow> bytes"
  caps_admits :: "capabilities \<Rightarrow> capabilities \<Rightarrow> bool"
  scope_parse :: "string \<Rightarrow> string + string"
  label_parse :: "string \<Rightarrow> string + string"

section \<open>What the daemon relies on\<close>

text \<open>Canonical encodings decode to what they encode.\<close>

definition caps_codec_ok :: "space \<Rightarrow> bool" where
  "caps_codec_ok sp \<longleftrightarrow> (\<forall>c. caps_decode sp (caps_canonicalize sp c) = Inr c)"

definition manifest_codec_ok :: "space \<Rightarrow> bool" where
  "manifest_codec_ok sp \<longleftrightarrow> (\<forall>m. manifest_decode sp (manifest_canonicalize sp m) = Inr m)"

text \<open>Admission is transitive: what an admitted set admits, the admitting set admits.\<close>

definition admits_trans :: "space \<Rightarrow> bool" where
  "admits_trans sp \<longleftrightarrow> (\<forall>a b c. caps_admits sp a b \<longrightarrow> caps_admits sp b c \<longrightarrow> caps_admits sp a c)"

section \<open>A sample instance\<close>

text \<open>Lists of strings and numbers, encoded with the string encoding of theory \<open>Host\<close>.\<close>

definition enc_strs :: "string list \<Rightarrow> bytes" where
  "enc_strs ss = enc_str (show_nat (length ss)) @ concat (map enc_str ss)"

fun take_strs :: "nat \<Rightarrow> bytes \<Rightarrow> (string list \<times> bytes) option" where
  "take_strs 0 b = Some ([], b)"
| "take_strs (Suc n) b =
     (case dec_str b of None \<Rightarrow> None | Some (s, r) \<Rightarrow> map_option (\<lambda>(ss, r'). (s # ss, r')) (take_strs n r))"

definition dec_strs_list :: "bytes \<Rightarrow> (string list \<times> bytes) option" where
  "dec_strs_list b = (case dec_str b of None \<Rightarrow> None | Some (n, r) \<Rightarrow> take_strs (digits_val n) r)"

lemma take_strs_enc: "take_strs (length ss) (concat (map enc_str ss) @ r) = Some (ss, r)"
  by (induction ss) (simp_all add: dec_enc_str)

lemma dec_strs_list_enc: "dec_strs_list (enc_strs ss @ r) = Some (ss, r)"
  by (simp add: dec_strs_list_def enc_strs_def dec_enc_str digits_val_show_nat take_strs_enc)

definition opt_strs :: "string option \<Rightarrow> string list" where
  "opt_strs x = (case x of None \<Rightarrow> [] | Some s \<Rightarrow> [s])"

definition strs_opt :: "string list \<Rightarrow> string option" where
  "strs_opt xs = (case xs of [] \<Rightarrow> None | s # _ \<Rightarrow> Some s)"

lemma strs_opt_strs [simp]: "strs_opt (opt_strs x) = x"
  by (cases x) (simp_all add: strs_opt_def opt_strs_def)

text \<open>A sequence of such lists.\<close>

fun take_lists :: "nat \<Rightarrow> bytes \<Rightarrow> string list list option" where
  "take_lists 0 b = (if b = [] then Some [] else None)"
| "take_lists (Suc n) b =
     (case dec_strs_list b of None \<Rightarrow> None | Some (ss, r) \<Rightarrow> map_option ((#) ss) (take_lists n r))"

definition enc_lists :: "string list list \<Rightarrow> bytes" where
  "enc_lists ls = enc_strs [show_nat (length ls)] @ concat (map enc_strs ls)"

definition dec_lists :: "bytes \<Rightarrow> string list list option" where
  "dec_lists b = (case dec_strs_list b of Some ([n], r) \<Rightarrow> take_lists (digits_val n) r | _ \<Rightarrow> None)"

lemma take_lists_enc: "take_lists (length ls) (concat (map enc_strs ls)) = Some ls"
  by (induction ls) (simp_all add: dec_strs_list_enc)

lemma dec_lists_enc: "dec_lists (enc_lists ls) = Some ls"
  by (simp add: dec_lists_def enc_lists_def dec_strs_list_enc digits_val_show_nat take_lists_enc)

definition sample_caps_enc :: "capabilities \<Rightarrow> bytes" where
  "sample_caps_enc c =
     enc_strs (storage_roots c) @ enc_strs (network_fetch_endpoints c) @ enc_strs (network_announce_endpoints c)
     @ enc_strs (publish_channels c) @ enc_strs (subscribe_channels c)
     @ enc_strs (map show_nat [storage_quota_bytes c, memory_max_bytes c, cpu_time_per_event_ms c, priority_weight c])"

definition sample_caps_dec :: "bytes \<Rightarrow> string + capabilities" where
  "sample_caps_dec b = ok_or ''malformed''
     (case dec_strs_list b of None \<Rightarrow> None | Some (sr, b1) \<Rightarrow>
      (case dec_strs_list b1 of None \<Rightarrow> None | Some (nf, b2) \<Rightarrow>
       (case dec_strs_list b2 of None \<Rightarrow> None | Some (na, b3) \<Rightarrow>
        (case dec_strs_list b3 of None \<Rightarrow> None | Some (pc, b4) \<Rightarrow>
         (case dec_strs_list b4 of None \<Rightarrow> None | Some (sc, b5) \<Rightarrow>
          (case dec_strs_list b5 of
             Some ([q, m, c, w], []) \<Rightarrow>
               Some \<lparr>storage_roots = sr, storage_quota_bytes = digits_val q, network_fetch_endpoints = nf,
                     network_announce_endpoints = na, publish_channels = pc, subscribe_channels = sc,
                     memory_max_bytes = digits_val m, cpu_time_per_event_ms = digits_val c, priority_weight = digits_val w\<rparr>
           | _ \<Rightarrow> None))))))"

definition sample_admits :: "capabilities \<Rightarrow> capabilities \<Rightarrow> bool" where
  "sample_admits a b \<longleftrightarrow>
     set (storage_roots b) \<subseteq> set (storage_roots a) \<and> storage_quota_bytes b \<le> storage_quota_bytes a
     \<and> set (network_fetch_endpoints b) \<subseteq> set (network_fetch_endpoints a)
     \<and> set (network_announce_endpoints b) \<subseteq> set (network_announce_endpoints a)
     \<and> set (publish_channels b) \<subseteq> set (publish_channels a) \<and> set (subscribe_channels b) \<subseteq> set (subscribe_channels a)
     \<and> memory_max_bytes b \<le> memory_max_bytes a \<and> cpu_time_per_event_ms b \<le> cpu_time_per_event_ms a
     \<and> priority_weight b \<le> priority_weight a"

lemma sample_caps_codec: "sample_caps_dec (sample_caps_enc c) = Inr c"
  by (simp add: sample_caps_dec_def sample_caps_enc_def dec_strs_list_enc digits_val_show_nat
      dec_strs_list_enc[where r = "[]", simplified])

fun kind_tag :: "layer_kind \<Rightarrow> string" where
  "kind_tag WasmCodemodule = ''w''"
| "kind_tag TensorPlan = ''t''"
| "kind_tag RootfsImage = ''r''"
| "kind_tag ViewLayer = ''v''"
| "kind_tag InferenceModel = ''i''"

definition tag_kind :: "string \<Rightarrow> layer_kind" where
  "tag_kind s = (if s = ''w'' then WasmCodemodule else if s = ''t'' then TensorPlan
     else if s = ''r'' then RootfsImage else if s = ''v'' then ViewLayer else InferenceModel)"

fun layers_of :: "string list \<Rightarrow> app_layer list" where
  "layers_of (k # c # e # a # r) = \<lparr>al_kind = tag_kind k, al_content = c, al_entry = e, al_aux = a\<rparr> # layers_of r"
| "layers_of _ = []"

fun pairs_of :: "string list \<Rightarrow> (string \<times> string) list" where
  "pairs_of (a # b # r) = (a, b) # pairs_of r"
| "pairs_of _ = []"

definition sample_manifest_enc :: "app_manifest \<Rightarrow> bytes" where
  "sample_manifest_enc m =
     enc_strs (concat (map (\<lambda>l. [kind_tag (al_kind l), al_content l, al_entry l, al_aux l]) (am_layers m)))
     @ enc_strs (concat (map (\<lambda>(a, b). [a, b]) (am_children m)))
     @ enc_strs ((case am_primary m of None \<Rightarrow> [] | Some p \<Rightarrow> [show_nat p]) @ [am_requires m])"

definition sample_manifest_dec :: "bytes \<Rightarrow> string + app_manifest" where
  "sample_manifest_dec b = ok_or ''malformed''
     (case dec_strs_list b of None \<Rightarrow> None | Some (ls, b1) \<Rightarrow>
      (case dec_strs_list b1 of None \<Rightarrow> None | Some (cs, b2) \<Rightarrow>
       (case dec_strs_list b2 of
          Some ([r], []) \<Rightarrow> Some \<lparr>am_layers = layers_of ls, am_children = pairs_of cs, am_primary = None, am_requires = r\<rparr>
        | Some ([p, r], []) \<Rightarrow>
            Some \<lparr>am_layers = layers_of ls, am_children = pairs_of cs, am_primary = Some (digits_val p), am_requires = r\<rparr>
        | _ \<Rightarrow> None)))"

lemma tag_kind_tag: "tag_kind (kind_tag k) = k"
  by (cases k) (simp_all add: tag_kind_def)

lemma layers_of_concat:
  "layers_of (concat (map (\<lambda>l. [kind_tag (al_kind l), al_content l, al_entry l, al_aux l]) ls)) = ls"
  by (induction ls) (simp_all add: tag_kind_tag)

lemma pairs_of_concat: "pairs_of (concat (map (\<lambda>(a, b). [a, b]) ps)) = ps"
  by (induction ps) auto

lemma sample_manifest_codec: "sample_manifest_dec (sample_manifest_enc m) = Inr m"
  by (cases "am_primary m")
    (simp_all add: sample_manifest_dec_def sample_manifest_enc_def dec_strs_list_enc layers_of_concat pairs_of_concat
      digits_val_show_nat dec_strs_list_enc[where r = "[]", simplified])

definition sample_space :: space where
  "sample_space = \<lparr>address_bytes = (\<lambda>b. ''blake3:'' @ sample_hash b), manifest_decode = sample_manifest_dec,
     manifest_validate = (\<lambda>_. Inr ()), manifest_canonicalize = sample_manifest_enc,
     load_archive = (\<lambda>b. Inr \<lparr>ar_fingerprint = [], ar_manifest = Some (drop 6 b), ar_extensions = Inr [],
                               ar_content_blobs = Inr []\<rparr>),
     caps_decode = sample_caps_dec, caps_canonicalize = sample_caps_enc, caps_admits = sample_admits,
     scope_parse = Inr, label_parse = Inr\<rparr>"

lemma sample_space_ok: "caps_codec_ok sample_space" "manifest_codec_ok sample_space" "admits_trans sample_space"
  by (auto simp: caps_codec_ok_def manifest_codec_ok_def admits_trans_def sample_space_def sample_caps_codec
      sample_manifest_codec sample_admits_def)

end
