(* ===== verification/Capability.thy ===== *)
theory Capability
  imports Space
begin

text \<open>
  Capability documents, requests, delegations and grants (\<open>src/holo_capability.rs\<close>): compiling a
  human-authored source into the canonical set, decoding a canonical set, and the admission checks
  that decide whether an application may run under a grant. Log lines are left out; the decisions
  handed to an observer are values.
\<close>

section \<open>Source documents\<close>

text \<open>The Greek letter the messages use, in UTF-8.\<close>

abbreviation kappa_sign :: string where
  "kappa_sign \<equiv> [CHR 0xCE, CHR 0xBA]"

record capability_source =
  cs_schema_version :: nat
  cs_storage_roots :: "string list"
  cs_storage_quota_bytes :: nat
  cs_network_fetch_endpoints :: "string list"
  cs_network_announce_endpoints :: "string list"
  cs_network_fetch :: "bool option"
  cs_network_announce :: "bool option"
  cs_publish_channels :: "string list"
  cs_subscribe_channels :: "string list"
  cs_memory_max_bytes :: nat
  cs_cpu_time_per_event_ms :: nat
  cs_priority_weight :: nat

definition default_capability_source :: capability_source where
  "default_capability_source = \<lparr>cs_schema_version = 2, cs_storage_roots = [], cs_storage_quota_bytes = 0,
     cs_network_fetch_endpoints = [], cs_network_announce_endpoints = [], cs_network_fetch = None,
     cs_network_announce = None, cs_publish_channels = [], cs_subscribe_channels = [],
     cs_memory_max_bytes = 0, cs_cpu_time_per_event_ms = 0, cs_priority_weight = 0\<rparr>"

definition source_error :: "string \<Rightarrow> string \<Rightarrow> string \<Rightarrow> live_error" where
  "source_error path field message = Config (''capability source '' @ path @ '' field '' @ field @ '': '' @ message)"

definition indexed :: "string \<Rightarrow> nat \<Rightarrow> string" where
  "indexed field i = field @ ''['' @ show_nat i @ '']''"

text \<open>\<open>windows(2)\<close>: every value is strictly above the one before it.\<close>

fun check_ascending :: "string \<Rightarrow> string \<Rightarrow> nat \<Rightarrow> string list \<Rightarrow> unit live_result" where
  "check_ascending path field i (a # b # rest) =
     (if a \<ge> b then
        Inl (source_error path (indexed field (i + 1))
          (if a = b then ''duplicates the previous value'' else ''is not in ascending lexical order''))
      else check_ascending path field (i + 1) (b # rest))"
| "check_ascending path field i _ = Inr ()"

fun map_indexed :: "(nat \<Rightarrow> 'a \<Rightarrow> 'b live_result) \<Rightarrow> nat \<Rightarrow> 'a list \<Rightarrow> 'b list live_result" where
  "map_indexed f i [] = Inr []"
| "map_indexed f i (x # xs) = bindE (f i x) (\<lambda>y. bindE (map_indexed f (Suc i) xs) (\<lambda>ys. Inr (y # ys)))"

definition parse_endpoints :: "space \<Rightarrow> string \<Rightarrow> string \<Rightarrow> string list \<Rightarrow> string list live_result" where
  "parse_endpoints sp path field values =
     bindE (check_ascending path field 0 values) (\<lambda>_.
       map_indexed (\<lambda>i v. map_err (\<lambda>e. source_error path (indexed field i)
           (''expected canonical https://host:port/path-prefix scope: '' @ e)) (scope_parse sp v)) 0 values)"

definition canonical_label :: "string \<Rightarrow> bool" where
  "canonical_label v \<longleftrightarrow> length v = 71 \<and> starts_with ''blake3:'' v
     \<and> list_all (\<lambda>c. is_ascii_digit c \<or> 97 \<le> byte_of c \<and> byte_of c \<le> 102) (drop 7 v)"

definition parse_label :: "space \<Rightarrow> string \<Rightarrow> string \<Rightarrow> string \<Rightarrow> string live_result" where
  "parse_label sp path field v =
     (if \<not> canonical_label v then Inl (source_error path field (''expected canonical blake3:<64 lowercase hex> '' @ kappa_sign))
      else map_err (\<lambda>e. source_error path field (''invalid '' @ kappa_sign @ '' label: '' @ e)) (label_parse sp v))"

definition parse_labels :: "space \<Rightarrow> string \<Rightarrow> string \<Rightarrow> string list \<Rightarrow> string list live_result" where
  "parse_labels sp path field values =
     bindE (check_ascending path field 0 values) (\<lambda>_. map_indexed (\<lambda>i v. parse_label sp path (indexed field i) v) 0 values)"

definition check_schema :: "string \<Rightarrow> capability_source \<Rightarrow> unit live_result" where
  "check_schema path d =
     (if cs_schema_version d = 2 then
        if cs_network_fetch d \<noteq> None \<or> cs_network_announce d \<noteq> None then
          Inl (source_error path (if cs_network_fetch d \<noteq> None then ''network_fetch'' else ''network_announce'')
                 ''schema 2 uses network_fetch_endpoints and network_announce_endpoints'')
        else Inr ()
      else if cs_schema_version d = 1 then
        if cs_network_fetch_endpoints d \<noteq> [] \<or> cs_network_announce_endpoints d \<noteq> [] then
          Inl (source_error path ''network_fetch_endpoints'' ''endpoint scopes require schema_version 2'')
        else if cs_network_fetch d = Some True \<or> cs_network_announce d = Some True then
          Inl (source_error path (if cs_network_fetch d = Some True then ''network_fetch'' else ''network_announce'')
                 ''schema 1 boolean network authority is no longer accepted; name exact schema 2 endpoint scopes'')
        else Inr ()
      else Inl (source_error path ''schema_version''
                  (''unsupported value '' @ show_nat (cs_schema_version d) @ ''; expected 1 or 2'')))"

definition source_canonicalize :: "space \<Rightarrow> string \<Rightarrow> capability_source \<Rightarrow> bytes live_result" where
  "source_canonicalize sp path d =
     bindE (check_schema path d) (\<lambda>_.
     bindE (parse_labels sp path ''storage_roots'' (cs_storage_roots d)) (\<lambda>roots.
     bindE (parse_endpoints sp path ''network_fetch_endpoints'' (cs_network_fetch_endpoints d)) (\<lambda>fetch.
     bindE (parse_endpoints sp path ''network_announce_endpoints'' (cs_network_announce_endpoints d)) (\<lambda>announce.
     bindE (parse_labels sp path ''publish_channels'' (cs_publish_channels d)) (\<lambda>publish.
     bindE (parse_labels sp path ''subscribe_channels'' (cs_subscribe_channels d)) (\<lambda>subscribe.
     Inr (caps_canonicalize sp
       \<lparr>storage_roots = roots, storage_quota_bytes = cs_storage_quota_bytes d, network_fetch_endpoints = fetch,
        network_announce_endpoints = announce, publish_channels = publish, subscribe_channels = subscribe,
        memory_max_bytes = cs_memory_max_bytes d, cpu_time_per_event_ms = cs_cpu_time_per_event_ms d,
        priority_weight = cs_priority_weight d\<rparr>)))))))"

text \<open>Parsing the JSON document (derived codec) is a parameter.\<close>

definition compile_source ::
  "space \<Rightarrow> (bytes \<Rightarrow> string + capability_source) \<Rightarrow> string \<Rightarrow> bytes \<Rightarrow> bytes live_result"
where
  "compile_source sp parse path source =
     bindE (map_err (\<lambda>e. Config (''parse capability source '' @ path @ '': '' @ e)) (parse source))
       (source_canonicalize sp path)"

section \<open>Canonical sets\<close>

definition empty_capabilities :: capabilities where
  "empty_capabilities = \<lparr>storage_roots = [], storage_quota_bytes = 0, network_fetch_endpoints = [],
     network_announce_endpoints = [], publish_channels = [], subscribe_channels = [], memory_max_bytes = 0,
     cpu_time_per_event_ms = 0, priority_weight = 0\<rparr>"

definition empty_canonical :: "space \<Rightarrow> bytes" where
  "empty_canonical sp = caps_canonicalize sp empty_capabilities"

definition decode_canonical :: "space \<Rightarrow> bytes \<Rightarrow> capabilities live_result" where
  "decode_canonical sp b =
     bindE (map_err (\<lambda>e. InvalidHolo (''decode required CapabilitySet: '' @ e)) (caps_decode sp b)) (\<lambda>c.
       if caps_canonicalize sp c \<noteq> b then Inl (InvalidHolo ''required CapabilitySet is not canonically encoded'')
       else Inr c)"

text \<open>A requested or delegated set: its address, its canonical bytes and what they decode to.\<close>

record capability_object =
  co_kappa :: string
  co_canonical :: bytes
  co_capabilities :: capabilities

definition decode_capability_object :: "space \<Rightarrow> string \<Rightarrow> string \<Rightarrow> bytes \<Rightarrow> capability_object live_result" where
  "decode_capability_object sp what kappa b =
     (if address_bytes sp b \<noteq> kappa then
        Inl (InvalidHolo (what @ '' CapabilitySet bytes do not match declared '' @ kappa_sign @ '' '' @ kappa))
      else bindE (decode_canonical sp b) (\<lambda>c. Inr \<lparr>co_kappa = kappa, co_canonical = b, co_capabilities = c\<rparr>))"

definition requested_decode :: "space \<Rightarrow> string \<Rightarrow> bytes \<Rightarrow> capability_object live_result" where
  "requested_decode sp kappa b = decode_capability_object sp ''required'' kappa b"

definition delegated_decode :: "space \<Rightarrow> string \<Rightarrow> bytes \<Rightarrow> capability_object live_result" where
  "delegated_decode sp kappa b = decode_capability_object sp ''delegated'' kappa b"

section \<open>Grants\<close>

datatype grant_source = LocalBaseline | DirectDevelopmentFile | ServiceDevelopmentFile | ChildDelegation

fun grant_source_name :: "grant_source \<Rightarrow> string" where
  "grant_source_name LocalBaseline = ''local_baseline''"
| "grant_source_name DirectDevelopmentFile = ''direct_development_file''"
| "grant_source_name ServiceDevelopmentFile = ''service_development_file''"
| "grant_source_name ChildDelegation = ''child_delegation''"

record effective_grant =
  eg_kappa :: string
  eg_canonical :: bytes
  eg_capabilities :: capabilities
  eg_source :: grant_source

definition local_baseline :: "space \<Rightarrow> effective_grant" where
  "local_baseline sp = \<lparr>eg_kappa = address_bytes sp (empty_canonical sp), eg_canonical = empty_canonical sp,
     eg_capabilities = empty_capabilities, eg_source = LocalBaseline\<rparr>"

definition from_canonical :: "space \<Rightarrow> bytes \<Rightarrow> grant_source \<Rightarrow> effective_grant live_result" where
  "from_canonical sp b src =
     bindE (decode_canonical sp b) (\<lambda>c. Inr \<lparr>eg_kappa = address_bytes sp b, eg_canonical = b, eg_capabilities = c, eg_source = src\<rparr>)"

definition from_development_file ::
  "space \<Rightarrow> (bytes \<Rightarrow> string + capability_source) \<Rightarrow> fs \<Rightarrow> string \<Rightarrow> grant_source \<Rightarrow> effective_grant live_result"
where
  "from_development_file sp parse t path src =
     (if src = LocalBaseline \<or> src = ChildDelegation then
        Inl (Config ''a development grant file requires a development grant source'')
      else bindE (map_err (\<lambda>e. error_io path (io_text e)) (fs_read t path)) (\<lambda>b.
           bindE (compile_source sp parse path b) (\<lambda>canonical. from_canonical sp canonical src)))"

definition from_delegation :: "capability_object \<Rightarrow> effective_grant" where
  "from_delegation d = \<lparr>eg_kappa = co_kappa d, eg_canonical = co_canonical d, eg_capabilities = co_capabilities d,
     eg_source = ChildDelegation\<rparr>"

definition caps_summary :: "capabilities \<Rightarrow> string" where
  "caps_summary c =
     ''storage_roots='' @ show_nat (length (storage_roots c))
     @ '', publish_channels='' @ show_nat (length (publish_channels c))
     @ '', subscribe_channels='' @ show_nat (length (subscribe_channels c))
     @ '', network_fetch_endpoints='' @ show_nat (length (network_fetch_endpoints c))
     @ '', network_announce_endpoints='' @ show_nat (length (network_announce_endpoints c))
     @ '', storage_quota_bytes='' @ show_nat (storage_quota_bytes c)
     @ '', memory_max_bytes='' @ show_nat (memory_max_bytes c)
     @ '', cpu_time_per_event_ms='' @ show_nat (cpu_time_per_event_ms c)
     @ '', priority_weight='' @ show_nat (priority_weight c)"

definition grant_authorize :: "space \<Rightarrow> effective_grant \<Rightarrow> string \<Rightarrow> capability_object \<Rightarrow> unit live_result" where
  "grant_authorize sp g application_kappa request =
     (if caps_admits sp (eg_capabilities g) (co_capabilities request) then Inr ()
      else Inl (Authorization (''application '' @ application_kappa @ '' requests capabilities '' @ co_kappa request
        @ '' ('' @ caps_summary (co_capabilities request) @ '') not admitted by effective grant '' @ eg_kappa g
        @ '' from '' @ grant_source_name (eg_source g) @ '' ('' @ caps_summary (eg_capabilities g) @ '')'')))"

definition authorize_child_delegation ::
  "space \<Rightarrow> string \<Rightarrow> string \<Rightarrow> capabilities \<Rightarrow> string \<Rightarrow> capability_object \<Rightarrow> capability_object \<Rightarrow> unit live_result"
where
  "authorize_child_delegation sp parent_kappa parent_grant_kappa parent_grant child_kappa delegated request =
     (if \<not> caps_admits sp parent_grant (co_capabilities delegated) then
        Inl (Authorization (''application '' @ parent_kappa @ '' delegates capabilities '' @ co_kappa delegated
          @ '' ('' @ caps_summary (co_capabilities delegated) @ '') to child '' @ child_kappa
          @ '', which is not admitted by parent grant '' @ parent_grant_kappa @ '' ('' @ caps_summary parent_grant @ '')''))
      else if \<not> caps_admits sp (co_capabilities delegated) (co_capabilities request) then
        Inl (Authorization (''child application '' @ child_kappa @ '' requests capabilities '' @ co_kappa request
          @ '' ('' @ caps_summary (co_capabilities request) @ '') not admitted by delegated grant '' @ co_kappa delegated
          @ '' ('' @ caps_summary (co_capabilities delegated) @ '') from parent '' @ parent_kappa))
      else Inr ())"

section \<open>Decisions\<close>

record capability_decision =
  cd_application_kappa :: string
  cd_parent_application_kappa :: "string option"
  cd_requested_kappa :: string
  cd_grant_kappa :: string
  cd_grant_source :: string
  cd_relation :: string
  cd_outcome :: string

definition decision_outcome :: "bool \<Rightarrow> string" where
  "decision_outcome allowed = (if allowed then ''allowed'' else ''denied'')"

definition decision_application_request ::
  "string \<Rightarrow> string option \<Rightarrow> capability_object \<Rightarrow> effective_grant \<Rightarrow> bool \<Rightarrow> capability_decision"
where
  "decision_application_request app parent request g allowed =
     \<lparr>cd_application_kappa = app, cd_parent_application_kappa = parent, cd_requested_kappa = co_kappa request,
      cd_grant_kappa = eg_kappa g, cd_grant_source = grant_source_name (eg_source g),
      cd_relation = ''application_request'', cd_outcome = decision_outcome allowed\<rparr>"

definition decision_child_delegation ::
  "string \<Rightarrow> string \<Rightarrow> capability_object \<Rightarrow> effective_grant \<Rightarrow> bool \<Rightarrow> capability_decision"
where
  "decision_child_delegation parent child delegated g allowed =
     \<lparr>cd_application_kappa = child, cd_parent_application_kappa = Some parent, cd_requested_kappa = co_kappa delegated,
      cd_grant_kappa = eg_kappa g, cd_grant_source = grant_source_name (eg_source g),
      cd_relation = ''child_delegation'', cd_outcome = decision_outcome allowed\<rparr>"

section \<open>Facts\<close>

lemma decode_canonical_Inr:
  "decode_canonical sp b = Inr c \<longleftrightarrow> caps_decode sp b = Inr c \<and> caps_canonicalize sp c = b"
  by (auto simp: decode_canonical_def bindE_eq_Inr)

lemma decode_canonical_canonicalize: "caps_codec_ok sp \<Longrightarrow> decode_canonical sp (caps_canonicalize sp c) = Inr c"
  by (simp add: decode_canonical_Inr caps_codec_ok_def)

lemma authorize_child_delegation_Inr:
  "authorize_child_delegation sp pk gk g ck d r = Inr () \<longleftrightarrow>
     caps_admits sp g (co_capabilities d) \<and> caps_admits sp (co_capabilities d) (co_capabilities r)"
  by (auto simp: authorize_child_delegation_def)

lemma grant_authorize_Inr:
  "grant_authorize sp g a r = Inr () \<longleftrightarrow> caps_admits sp (eg_capabilities g) (co_capabilities r)"
  by (auto simp: grant_authorize_def)

lemma check_ascending_Inr: "check_ascending path field i vs = Inr () \<longleftrightarrow> sorted_wrt (<) vs"
proof (induction path field i vs rule: check_ascending.induct)
  case (1 path field i a b rest)
  then show ?case by (auto simp: not_le intro: less_trans)
qed simp_all

lemma map_indexed_Inr: "map_indexed f i xs = Inr ys \<Longrightarrow> length ys = length xs \<and> (\<forall>k < length xs. f (i + k) (xs ! k) = Inr (ys ! k))"
proof (induction xs arbitrary: i ys)
  case (Cons x xs)
  then obtain y zs where y: "f i x = Inr y" "map_indexed f (Suc i) xs = Inr zs" "ys = y # zs"
    by (auto simp: bindE_eq_Inr)
  from Cons.IH[OF y(2)] y show ?case by (auto simp: less_Suc_eq_0_disj)
qed simp

lemma parse_labels_Inr:
  "parse_labels sp path field vs = Inr ys \<Longrightarrow>
     sorted_wrt (<) vs \<and> list_all canonical_label vs \<and> list_all2 (\<lambda>v y. label_parse sp v = Inr y) vs ys"
  by (auto simp: parse_labels_def bindE_eq_Inr check_ascending_Inr list_all_length list_all2_conv_all_nth parse_label_def
      dest!: map_indexed_Inr split: if_splits)

lemma parse_endpoints_Inr:
  "parse_endpoints sp path field vs = Inr ys \<Longrightarrow> sorted_wrt (<) vs \<and> list_all2 (\<lambda>v y. scope_parse sp v = Inr y) vs ys"
  by (auto simp: parse_endpoints_def bindE_eq_Inr check_ascending_Inr list_all2_conv_all_nth dest!: map_indexed_Inr)

section \<open>Properties\<close>

lemma source_canonicalize_Inr:
  assumes "source_canonicalize sp path d = Inr b"
  obtains c where "b = caps_canonicalize sp c" "check_schema path d = Inr ()"
    "parse_labels sp path ''storage_roots'' (cs_storage_roots d) = Inr (storage_roots c)"
    "parse_endpoints sp path ''network_fetch_endpoints'' (cs_network_fetch_endpoints d) = Inr (network_fetch_endpoints c)"
    "parse_endpoints sp path ''network_announce_endpoints'' (cs_network_announce_endpoints d) = Inr (network_announce_endpoints c)"
    "parse_labels sp path ''publish_channels'' (cs_publish_channels d) = Inr (publish_channels c)"
    "parse_labels sp path ''subscribe_channels'' (cs_subscribe_channels d) = Inr (subscribe_channels c)"
    "storage_quota_bytes c = cs_storage_quota_bytes d" "memory_max_bytes c = cs_memory_max_bytes d"
    "cpu_time_per_event_ms c = cs_cpu_time_per_event_ms d" "priority_weight c = cs_priority_weight d"
  using assms unfolding source_canonicalize_def bindE_eq_Inr by (elim exE conjE) (rule that, auto)

lemma check_schema_Inr:
  "check_schema path d = Inr () \<longleftrightarrow>
     cs_schema_version d = 2 \<and> cs_network_fetch d = None \<and> cs_network_announce d = None
     \<or> cs_schema_version d = 1 \<and> cs_network_fetch_endpoints d = [] \<and> cs_network_announce_endpoints d = []
        \<and> cs_network_fetch d \<noteq> Some True \<and> cs_network_announce d \<noteq> Some True"
  by (auto simp: check_schema_def)

text \<open>
  Compiling a capability source. The result is a canonical capability set: decoding it succeeds and
  gives the set the document names, with its limits unchanged and its roots, channels and endpoints the
  parsed forms of strictly ascending lists of canonical labels and scopes. A document of the
  older schema yields no network authority at all, and no document can grant it by a boolean. A grant
  file yields exactly that set with the address of its canonical bytes, and two byte strings that both
  decode as the same canonical set are equal.
\<close>
theorem capability_source_compiles:
  assumes codec: "caps_codec_ok sp"
  shows "(compile_source sp parse path source = Inr b \<longrightarrow>
      (\<exists>d c. parse source = Inr d \<and> decode_canonical sp b = Inr c
         \<and> sorted_wrt (<) (cs_storage_roots d) \<and> list_all canonical_label (cs_storage_roots d)
         \<and> list_all2 (\<lambda>v y. label_parse sp v = Inr y) (cs_storage_roots d) (storage_roots c)
         \<and> sorted_wrt (<) (cs_network_fetch_endpoints d)
         \<and> list_all2 (\<lambda>v y. scope_parse sp v = Inr y) (cs_network_fetch_endpoints d) (network_fetch_endpoints c)
         \<and> list_all2 (\<lambda>v y. label_parse sp v = Inr y) (cs_publish_channels d) (publish_channels c)
         \<and> list_all2 (\<lambda>v y. label_parse sp v = Inr y) (cs_subscribe_channels d) (subscribe_channels c)
         \<and> storage_quota_bytes c = cs_storage_quota_bytes d \<and> memory_max_bytes c = cs_memory_max_bytes d
         \<and> cpu_time_per_event_ms c = cs_cpu_time_per_event_ms d \<and> priority_weight c = cs_priority_weight d
         \<and> (cs_schema_version d = 1 \<longrightarrow> network_fetch_endpoints c = [] \<and> network_announce_endpoints c = [])
         \<and> cs_network_fetch d \<noteq> Some True \<and> cs_network_announce d \<noteq> Some True
         \<and> from_canonical sp b src =
             Inr \<lparr>eg_kappa = address_bytes sp b, eg_canonical = b, eg_capabilities = c, eg_source = src\<rparr>))
   \<and> (decode_canonical sp b1 = Inr c1 \<longrightarrow> decode_canonical sp b2 = Inr c1 \<longrightarrow> b1 = b2)"
proof (intro conjI impI)
  assume "compile_source sp parse path source = Inr b"
  then obtain d where d: "parse source = Inr d" "source_canonicalize sp path d = Inr b"
    by (auto simp: compile_source_def bindE_eq_Inr)
  from d(2) show "\<exists>d c. parse source = Inr d \<and> decode_canonical sp b = Inr c
         \<and> sorted_wrt (<) (cs_storage_roots d) \<and> list_all canonical_label (cs_storage_roots d)
         \<and> list_all2 (\<lambda>v y. label_parse sp v = Inr y) (cs_storage_roots d) (storage_roots c)
         \<and> sorted_wrt (<) (cs_network_fetch_endpoints d)
         \<and> list_all2 (\<lambda>v y. scope_parse sp v = Inr y) (cs_network_fetch_endpoints d) (network_fetch_endpoints c)
         \<and> list_all2 (\<lambda>v y. label_parse sp v = Inr y) (cs_publish_channels d) (publish_channels c)
         \<and> list_all2 (\<lambda>v y. label_parse sp v = Inr y) (cs_subscribe_channels d) (subscribe_channels c)
         \<and> storage_quota_bytes c = cs_storage_quota_bytes d \<and> memory_max_bytes c = cs_memory_max_bytes d
         \<and> cpu_time_per_event_ms c = cs_cpu_time_per_event_ms d \<and> priority_weight c = cs_priority_weight d
         \<and> (cs_schema_version d = 1 \<longrightarrow> network_fetch_endpoints c = [] \<and> network_announce_endpoints c = [])
         \<and> cs_network_fetch d \<noteq> Some True \<and> cs_network_announce d \<noteq> Some True
         \<and> from_canonical sp b src =
             Inr \<lparr>eg_kappa = address_bytes sp b, eg_canonical = b, eg_capabilities = c, eg_source = src\<rparr>"
  proof (rule source_canonicalize_Inr)
    fix c assume c: "b = caps_canonicalize sp c" "check_schema path d = Inr ()"
      "parse_labels sp path ''storage_roots'' (cs_storage_roots d) = Inr (storage_roots c)"
      "parse_endpoints sp path ''network_fetch_endpoints'' (cs_network_fetch_endpoints d) = Inr (network_fetch_endpoints c)"
      "parse_endpoints sp path ''network_announce_endpoints'' (cs_network_announce_endpoints d) = Inr (network_announce_endpoints c)"
      "parse_labels sp path ''publish_channels'' (cs_publish_channels d) = Inr (publish_channels c)"
      "parse_labels sp path ''subscribe_channels'' (cs_subscribe_channels d) = Inr (subscribe_channels c)"
      "storage_quota_bytes c = cs_storage_quota_bytes d" "memory_max_bytes c = cs_memory_max_bytes d"
      "cpu_time_per_event_ms c = cs_cpu_time_per_event_ms d" "priority_weight c = cs_priority_weight d"
    have dc: "decode_canonical sp b = Inr c" by (simp add: c(1) decode_canonical_canonicalize[OF codec])
    have sc: "cs_schema_version d = 1 \<longrightarrow> network_fetch_endpoints c = [] \<and> network_announce_endpoints c = []"
      "cs_network_fetch d \<noteq> Some True" "cs_network_announce d \<noteq> Some True"
      using c(2) parse_endpoints_Inr[OF c(4)] parse_endpoints_Inr[OF c(5)] by (auto simp: check_schema_Inr)
    show ?thesis
      using d(1) dc sc parse_labels_Inr[OF c(3)] parse_labels_Inr[OF c(6)] parse_labels_Inr[OF c(7)]
        parse_endpoints_Inr[OF c(4)] c(8-11)
      by (intro exI[of _ d] exI[of _ c]) (simp add: from_canonical_def)
  qed
qed (simp add: decode_canonical_Inr)

theorem capability_source_compiles_witness:
  "\<exists>b c. compile_source sample_space (\<lambda>_. Inr (default_capability_source\<lparr>cs_memory_max_bytes := 64\<rparr>)) ''p'' [] = Inr b
     \<and> decode_canonical sample_space b = Inr c \<and> memory_max_bytes c = 64"
proof -
  let ?p = "\<lambda>_ :: bytes. Inr (default_capability_source\<lparr>cs_memory_max_bytes := 64\<rparr>) :: string + capability_source"
  have "\<exists>b. compile_source sample_space ?p ''p'' [] = Inr b"
    by (simp add: compile_source_def source_canonicalize_def check_schema_def parse_labels_def parse_endpoints_def
        default_capability_source_def)
  then obtain b where b: "compile_source sample_space ?p ''p'' [] = Inr b" ..
  from capability_source_compiles[OF sample_space_ok(1), of ?p "''p''" "[]" b LocalBaseline "[]" empty_capabilities "[]",
      THEN conjunct1, THEN mp, OF b]
  obtain d c where "?p [] = Inr d" "decode_canonical sample_space b = Inr c" "memory_max_bytes c = cs_memory_max_bytes d"
    by blast
  then show ?thesis using b by auto
qed

end
