(* ===== verification/Holo_Directory.thy ===== *)
theory Holo_Directory
  imports Capability
begin

text \<open>
  Admission of a physical archive before planning: the format version (\<open>src/holo_format.rs\<close>), the guest
  contract names (\<open>src/holo_contract.rs\<close>) and the embedded application directory
  (\<open>src/holo_directory.rs\<close>), which must equal what the canonical manifest and the blob table imply.
\<close>

section \<open>Format\<close>

definition require_current :: "bytes \<Rightarrow> unit live_result" where
  "require_current b =
     (if length b < 6 \<or> take 4 b \<noteq> [72, 79, 76, 79] then
        Inl (InvalidHolo ''archive is missing the Hologram header'')
      else
        let version = unat (b ! 4) + 256 * unat (b ! 5) in
        if version \<noteq> 4 then
          Inl (InvalidHolo (''unsupported .holo format version '' @ show_nat version @ ''; expected 4''))
        else Inr ())"

section \<open>Guest contracts\<close>

text \<open>The contract identifiers are constants of the \<open>hologram\<close> crate.\<close>

record wasm_contracts =
  wc_core :: string
  wc_component :: string
  wc_store_read :: string
  wc_store_graph_read :: string
  wc_store_write :: string
  wc_channel_publish :: string
  wc_channel_subscribe :: string
  wc_network_fetch :: string

definition contract_list :: "wasm_contracts \<Rightarrow> string list" where
  "contract_list wc = [wc_core wc, wc_component wc, wc_store_read wc, wc_store_graph_read wc, wc_store_write wc,
     wc_channel_publish wc, wc_channel_subscribe wc, wc_network_fetch wc]"

definition normalize_wasm_contract :: "wasm_contracts \<Rightarrow> string \<Rightarrow> string + string" where
  "normalize_wasm_contract wc v =
     (if v = wc_core wc then Inr (wc_core wc)
      else if v = wc_component wc then Inr (wc_component wc)
      else if v = wc_store_read wc then Inr (wc_store_read wc)
      else if v = wc_store_graph_read wc then Inr (wc_store_graph_read wc)
      else if v = wc_store_write wc then Inr (wc_store_write wc)
      else if v = wc_channel_publish wc then Inr (wc_channel_publish wc)
      else if v = wc_channel_subscribe wc then Inr (wc_channel_subscribe wc)
      else if v = wc_network_fetch wc then Inr (wc_network_fetch wc)
      else Inl (''unsupported Wasm guest contract '' @ debug_str v @ ''; expected ''
                @ join_with '', '' (map debug_str (butlast (contract_list wc)))
                @ '', or '' @ debug_str (wc_network_fetch wc)))"

section \<open>Directory\<close>

record holo_layer =
  hl_position :: nat
  hl_kind :: string
  hl_content_kappa :: string
  hl_entry :: string
  hl_contract :: "string option"
  hl_architecture :: "string option"
  hl_surface :: "string option"
  hl_engine :: "string option"

record holo_child =
  hc_position :: nat
  hc_application_kappa :: string
  hc_capabilities_kappa :: string
  hc_parent_application_kappa :: "string option"
  hc_depth :: "nat option"
  hc_requires_kappa :: "string option"
  hc_application_source :: "string option"
  hc_capabilities_source :: "string option"

record holo_blob =
  hb_kappa :: string
  hb_byte_length :: nat

record holo_directory =
  hd_schema_version :: nat
  hd_primary_layer :: "nat option"
  hd_requires_kappa :: string
  hd_layers :: "holo_layer list"
  hd_children :: "holo_child list"
  hd_blobs :: "holo_blob list"

definition directory_extension_key :: string where
  "directory_extension_key = ''https://hologram.foundation/extension/application-directory/v1''"

text \<open>The blob table, indexed by label after checking each label against its content.\<close>

fun index_blobs :: "space \<Rightarrow> (bytes \<times> bytes) list \<Rightarrow> (string \<times> nat) list \<Rightarrow> (string \<times> nat) list live_result" where
  "index_blobs sp [] idx = Inr idx"
| "index_blobs sp ((label, content) # rest) idx =
     (if \<not> utf8_valid (map unat label) then Inl (InvalidHolo ''content blob kappa is not UTF-8'')
      else
        let name = bytes_string label; expected = address_bytes sp content in
        if expected \<noteq> name then
          Inl (InvalidHolo (''content blob '' @ name @ '' does not match its bytes; expected '' @ expected))
        else if name \<in> fst ` set idx then
          Inl (InvalidHolo (''content blob '' @ name @ '' is embedded more than once''))
        else index_blobs sp rest (map_insert name (sat64 (length content)) idx))"

definition derive_layer :: "wasm_contracts \<Rightarrow> nat \<Rightarrow> app_layer \<Rightarrow> holo_layer live_result" where
  "derive_layer wc position l =
     (if position > u32_max then Inl (InvalidHolo ''application has too many layers'')
      else
        let base = \<lparr>hl_position = position, hl_kind = [], hl_content_kappa = al_content l, hl_entry = al_entry l,
                     hl_contract = None, hl_architecture = None, hl_surface = None, hl_engine = None\<rparr>
        in case al_kind l of
             WasmCodemodule \<Rightarrow> bindE (map_err InvalidHolo (normalize_wasm_contract wc (al_aux l)))
                                (\<lambda>c. Inr (base\<lparr>hl_kind := ''wasm'', hl_contract := Some c\<rparr>))
           | TensorPlan \<Rightarrow> Inr (base\<lparr>hl_kind := ''tensor''\<rparr>)
           | RootfsImage \<Rightarrow> Inr (base\<lparr>hl_kind := ''rootfs'', hl_architecture := Some (al_aux l)\<rparr>)
           | ViewLayer \<Rightarrow> Inr (base\<lparr>hl_kind := ''view'', hl_surface := Some (al_aux l)\<rparr>)
           | InferenceModel \<Rightarrow> Inr (base\<lparr>hl_kind := ''inference-model'', hl_engine := Some (al_aux l)\<rparr>))"

definition derive_child :: "nat \<Rightarrow> string \<times> string \<Rightarrow> holo_child live_result" where
  "derive_child position c =
     (if position > u32_max then Inl (InvalidHolo ''application has too many children'')
      else Inr \<lparr>hc_position = position, hc_application_kappa = fst c, hc_capabilities_kappa = snd c,
                hc_parent_application_kappa = None, hc_depth = None, hc_requires_kappa = None,
                hc_application_source = None, hc_capabilities_source = None\<rparr>)"

definition derive_directory ::
  "space \<Rightarrow> wasm_contracts \<Rightarrow> app_manifest \<Rightarrow> (bytes \<times> bytes) list \<Rightarrow> holo_directory live_result"
where
  "derive_directory sp wc m blobs =
     bindE (map_err (\<lambda>e. InvalidHolo (''invalid application manifest: '' @ e)) (manifest_validate sp m)) (\<lambda>_.
     bindE (index_blobs sp blobs []) (\<lambda>idx.
     bindE (map_indexed (derive_layer wc) 0 (am_layers m)) (\<lambda>layers.
     bindE (map_indexed derive_child 0 (am_children m)) (\<lambda>children.
     Inr \<lparr>hd_schema_version = 1, hd_primary_layer = am_primary m, hd_requires_kappa = am_requires m,
          hd_layers = layers, hd_children = children,
          hd_blobs = map (\<lambda>(k, n). \<lparr>hb_kappa = k, hb_byte_length = n\<rparr>) idx\<rparr>))))"

text \<open>The directory's JSON codec (derived) is a parameter.\<close>

record dir_codec =
  dir_to_bytes :: "holo_directory \<Rightarrow> string + bytes"
  dir_of_bytes :: "bytes \<Rightarrow> string + holo_directory"

definition directory_encode :: "dir_codec \<Rightarrow> holo_directory \<Rightarrow> bytes live_result" where
  "directory_encode dc d = map_err Protocol (dir_to_bytes dc d)"

definition decode_layer :: "wasm_contracts \<Rightarrow> holo_layer \<Rightarrow> holo_layer live_result" where
  "decode_layer wc l =
     (if hl_kind l = ''wasm'' then
        bindE (ok_or (InvalidHolo ''Wasm directory layers require an explicit guest contract'') (hl_contract l)) (\<lambda>c.
        bindE (map_err InvalidHolo (normalize_wasm_contract wc c)) (\<lambda>n. Inr (l\<lparr>hl_contract := Some n\<rparr>)))
      else if hl_contract l \<noteq> None then
        Inl (InvalidHolo (hl_kind l @ '' directory layers do not accept a guest contract''))
      else Inr l)"

definition directory_decode :: "dir_codec \<Rightarrow> wasm_contracts \<Rightarrow> bytes \<Rightarrow> holo_directory live_result" where
  "directory_decode dc wc b =
     bindE (map_err (\<lambda>e. InvalidHolo (''decode application directory: '' @ e)) (dir_of_bytes dc b)) (\<lambda>d.
       if hd_schema_version d \<noteq> 1 then
         Inl (InvalidHolo (''unsupported application directory schema '' @ show_nat (hd_schema_version d) @ ''; expected 1''))
       else bindE (mapE (decode_layer wc) (hd_layers d)) (\<lambda>ls. Inr (d\<lparr>hd_layers := ls\<rparr>)))"

definition verify_required ::
  "space \<Rightarrow> wasm_contracts \<Rightarrow> dir_codec \<Rightarrow> app_manifest \<Rightarrow> bytes list \<Rightarrow> (bytes \<times> bytes) list \<Rightarrow> holo_directory live_result"
where
  "verify_required sp wc dc m directories blobs =
     (case directories of
        [] \<Rightarrow> Inl (InvalidHolo ''v4 application archive requires an embedded application directory'')
      | encoded # others \<Rightarrow>
          if others \<noteq> [] then Inl (InvalidHolo ''archive contains more than one application directory'')
          else bindE (directory_decode dc wc encoded) (\<lambda>declared.
               bindE (derive_directory sp wc m blobs) (\<lambda>derived.
               if declared \<noteq> derived then
                 Inl (InvalidHolo ''application directory does not match the manifest and embedded blobs'')
               else Inr derived)))"

section \<open>Facts\<close>

lemma normalize_wasm_contract_Inr:
  "normalize_wasm_contract wc v = Inr c \<longleftrightarrow> c = v \<and> v \<in> set (contract_list wc)"
  by (auto simp: normalize_wasm_contract_def contract_list_def)

lemma index_blobs_Inr:
  assumes "index_blobs sp blobs idx = Inr idx'" "sorted_wrt (<) (map fst idx)"
  shows "sorted_wrt (<) (map fst idx') \<and> distinct (map (\<lambda>x. bytes_string (fst x)) blobs)
     \<and> (\<forall>(l, c) \<in> set blobs. utf8_valid (map unat l) \<and> bytes_string l = address_bytes sp c
          \<and> bytes_string l \<notin> fst ` set idx)
     \<and> map_of idx' = map_of idx ++ map_of (map (\<lambda>(l, c). (bytes_string l, sat64 (length c))) blobs)"
  using assms
proof (induction sp blobs idx rule: index_blobs.induct)
  case (2 sp l c rest idx)
  let ?n = "bytes_string l" and ?i = "map_insert (bytes_string l) (sat64 (length c)) idx"
  have ok: "utf8_valid (map unat l)" "address_bytes sp c = ?n" "?n \<notin> fst ` set idx" "index_blobs sp rest ?i = Inr idx'"
    using "2.prems"(1) by (auto simp: Let_def split: if_splits)
  have IH: "sorted_wrt (<) (map fst idx') \<and> distinct (map (\<lambda>x. bytes_string (fst x)) rest)
     \<and> (\<forall>(l, c) \<in> set rest. utf8_valid (map unat l) \<and> bytes_string l = address_bytes sp c \<and> bytes_string l \<notin> fst ` set ?i)
     \<and> map_of idx' = map_of ?i ++ map_of (map (\<lambda>(l, c). (bytes_string l, sat64 (length c))) rest)"
    by (rule "2.IH"[OF _ refl refl]) (use ok "2.prems"(2) in \<open>simp_all add: map_insert_sorted del: map_of_map_insert\<close>)
  have fresh: "?n \<notin> (\<lambda>x. bytes_string (fst x)) ` set rest" using IH by (force simp: map_insert_fst)
  then have "map_of (map (\<lambda>(l, c). (bytes_string l, sat64 (length c))) rest) ?n = None"
    by (force simp: map_of_eq_None_iff)
  then have "map_of ?i ++ map_of (map (\<lambda>(l, c). (bytes_string l, sat64 (length c))) rest)
      = map_of idx ++ map_of (map (\<lambda>(l, c). (bytes_string l, sat64 (length c))) ((l, c) # rest))"
    by (auto simp: map_add_def fun_eq_iff split: option.splits)
  then have "map_of idx' = map_of idx ++ map_of (map (\<lambda>(l, c). (bytes_string l, sat64 (length c))) ((l, c) # rest))"
    using IH by (simp only:)
  moreover have "distinct (map (\<lambda>x. bytes_string (fst x)) ((l, c) # rest))" using IH fresh by simp
  moreover have "\<forall>(l, c) \<in> set ((l, c) # rest). utf8_valid (map unat l) \<and> bytes_string l = address_bytes sp c
      \<and> bytes_string l \<notin> fst ` set idx" using IH ok by (auto simp: map_insert_fst)
  ultimately show ?case using IH by blast
qed simp

lemma derive_layer_Inr:
  "derive_layer wc n l = Inr h \<Longrightarrow> hl_position h = n \<and> hl_content_kappa h = al_content l \<and> hl_entry h = al_entry l
     \<and> (al_kind l = WasmCodemodule \<longrightarrow> hl_contract h = Some (al_aux l) \<and> al_aux l \<in> set (contract_list wc))
     \<and> (al_kind l \<noteq> WasmCodemodule \<longrightarrow> hl_contract h = None)"
  by (auto simp: derive_layer_def Let_def bindE_eq_Inr normalize_wasm_contract_Inr split: if_splits layer_kind.splits)

lemma derive_children_Inr:
  "map_indexed derive_child n cs = Inr hs \<Longrightarrow> map (\<lambda>h. (hc_application_kappa h, hc_capabilities_kappa h)) hs = cs"
  by (induction cs arbitrary: n hs) (auto simp: bindE_eq_Inr derive_child_def split: if_splits)

section \<open>Properties\<close>

text \<open>
  The embedded directory is exactly what the archive contains. Verification succeeds for one
  directory only, the one derived from the manifest and the blob table, and refuses an archive with none
  or with several. In it the layers and the children are those of the validated manifest, in order, a Wasm
  layer carries one of the known guest contracts and no other layer carries any; every blob label is
  the address of the blob's bytes, no blob occurs twice, and the directory lists each blob once, by
  ascending address, with its length.
\<close>
theorem verify_required_exact:
  "(verify_required sp wc dc m dirs blobs = Inr d \<longleftrightarrow>
      (\<exists>enc. dirs = [enc] \<and> directory_decode dc wc enc = Inr d \<and> derive_directory sp wc m blobs = Inr d))
   \<and> (derive_directory sp wc m blobs = Inr d \<longrightarrow>
        manifest_validate sp m = Inr () \<and> hd_primary_layer d = am_primary m \<and> hd_requires_kappa d = am_requires m
        \<and> list_all2 (\<lambda>l h. hl_content_kappa h = al_content l \<and> hl_entry h = al_entry l
             \<and> hl_contract h = (if al_kind l = WasmCodemodule then Some (al_aux l) else None)
             \<and> (al_kind l = WasmCodemodule \<longrightarrow> al_aux l \<in> set (contract_list wc))) (am_layers m) (hd_layers d)
        \<and> map (\<lambda>h. (hc_application_kappa h, hc_capabilities_kappa h)) (hd_children d) = am_children m
        \<and> (\<forall>(label, content) \<in> set blobs. bytes_string label = address_bytes sp content)
        \<and> distinct (map (\<lambda>x. bytes_string (fst x)) blobs) \<and> sorted_wrt (<) (map hb_kappa (hd_blobs d))
        \<and> map_of (map (\<lambda>h. (hb_kappa h, hb_byte_length h)) (hd_blobs d))
            = map_of (map (\<lambda>(label, content). (bytes_string label, sat64 (length content))) blobs))"
proof (intro conjI impI)
  show "verify_required sp wc dc m dirs blobs = Inr d \<longleftrightarrow>
      (\<exists>enc. dirs = [enc] \<and> directory_decode dc wc enc = Inr d \<and> derive_directory sp wc m blobs = Inr d)"
    by (auto simp: verify_required_def bindE_eq_Inr split: list.splits if_splits)
next
  assume "derive_directory sp wc m blobs = Inr d"
  then obtain idx layers children where p: "manifest_validate sp m = Inr ()" "index_blobs sp blobs [] = Inr idx"
    "map_indexed (derive_layer wc) 0 (am_layers m) = Inr layers" "map_indexed derive_child 0 (am_children m) = Inr children"
    and d: "d = \<lparr>hd_schema_version = 1, hd_primary_layer = am_primary m, hd_requires_kappa = am_requires m, hd_layers = layers,
        hd_children = children, hd_blobs = map (\<lambda>(k, n). \<lparr>hb_kappa = k, hb_byte_length = n\<rparr>) idx\<rparr>"
    by (auto simp: derive_directory_def bindE_eq_Inr)
  note idx = index_blobs_Inr[OF p(2), simplified]
  have fst: "map (hb_kappa \<circ> (\<lambda>(k, n). \<lparr>hb_kappa = k, hb_byte_length = n\<rparr>)) idx = map fst idx" by (auto simp: comp_def)
  have pair: "map ((\<lambda>h. (hb_kappa h, hb_byte_length h)) \<circ> (\<lambda>(k, n). \<lparr>hb_kappa = k, hb_byte_length = n\<rparr>)) idx = idx"
    by (rule map_idI) auto
  show "manifest_validate sp m = Inr ()" "hd_primary_layer d = am_primary m" "hd_requires_kappa d = am_requires m"
    using p(1) by (simp_all add: d)
  show "map (\<lambda>h. (hc_application_kappa h, hc_capabilities_kappa h)) (hd_children d) = am_children m"
    using derive_children_Inr[OF p(4)] by (simp add: d)
  show "list_all2 (\<lambda>l h. hl_content_kappa h = al_content l \<and> hl_entry h = al_entry l
      \<and> hl_contract h = (if al_kind l = WasmCodemodule then Some (al_aux l) else None)
      \<and> (al_kind l = WasmCodemodule \<longrightarrow> al_aux l \<in> set (contract_list wc))) (am_layers m) (hd_layers d)"
    using map_indexed_Inr[OF p(3)] derive_layer_Inr by (auto simp: d list_all2_conv_all_nth dest!: derive_layer_Inr)
  show "\<forall>(label, content) \<in> set blobs. bytes_string label = address_bytes sp content" "distinct (map (\<lambda>x. bytes_string (fst x)) blobs)"
    using idx by auto
  show "sorted_wrt (<) (map hb_kappa (hd_blobs d))" using idx by (simp add: d fst)
  show "map_of (map (\<lambda>h. (hb_kappa h, hb_byte_length h)) (hd_blobs d))
      = map_of (map (\<lambda>(label, content). (bytes_string label, sat64 (length content))) blobs)"
    using idx by (simp add: d pair)
qed

theorem verify_required_exact_witness:
  "\<exists>d. derive_directory sample_space
       \<lparr>wc_core = ''core'', wc_component = ''component'', wc_store_read = ''read'', wc_store_graph_read = ''graph'', wc_store_write = ''write'',
        wc_channel_publish = ''publish'', wc_channel_subscribe = ''subscribe'', wc_network_fetch = ''fetch''\<rparr>
       \<lparr>am_layers = [\<lparr>al_kind = WasmCodemodule, al_content = ''x'', al_entry = ''main'', al_aux = ''write''\<rparr>],
        am_children = [(''c'', ''k'')], am_primary = Some 0, am_requires = ''k''\<rparr> [] = Inr d
     \<and> map hl_contract (hd_layers d) = [Some ''write'']
     \<and> map (\<lambda>h. (hc_application_kappa h, hc_capabilities_kappa h)) (hd_children d) = [(''c'', ''k'')] \<and> hd_blobs d = []"
proof -
  let ?wc = "\<lparr>wc_core = ''core'', wc_component = ''component'', wc_store_read = ''read'', wc_store_graph_read = ''graph'', wc_store_write = ''write'',
        wc_channel_publish = ''publish'', wc_channel_subscribe = ''subscribe'', wc_network_fetch = ''fetch''\<rparr>"
  let ?m = "\<lparr>am_layers = [\<lparr>al_kind = WasmCodemodule, al_content = ''x'', al_entry = ''main'', al_aux = ''write''\<rparr>],
        am_children = [(''c'', ''k'')], am_primary = Some 0, am_requires = ''k''\<rparr>"
  have "\<exists>d. derive_directory sample_space ?wc ?m [] = Inr d \<and> hd_blobs d = []"
    by (simp add: derive_directory_def sample_space_def derive_layer_def normalize_wasm_contract_def derive_child_def)
  then obtain d where d: "derive_directory sample_space ?wc ?m [] = Inr d" "hd_blobs d = []" by blast
  from verify_required_exact[of sample_space ?wc undefined ?m "[]" "[]" d] d show ?thesis by (auto simp: list_all2_Cons1)
qed

end
