(* ===== verification/Application_Plan.thy ===== *)
theory Application_Plan
  imports Holo_Directory
begin

text \<open>
  Planning of a compiled application (\<open>src/application_plan.rs\<close>): the bounded resolution of every
  object the manifest tree names, the planning report with its blockers, and the strict plan
  a run is allowed to execute. The archive loader, the manifest and capability codecs
  are parameters (theory \<open>Space\<close>); \<open>resolve_local\<close> is the caller's lookup. A \<open>HashMap\<close> is a map, a
  \<open>BTreeMap\<close> an association list sorted by key, a \<open>HashSet\<close> a list without repetitions; \<open>usize\<close> has 64
  bits.
\<close>

section \<open>Data\<close>

record holo_identity =
  archive_kappa :: string
  archive_fingerprint :: string
  application_kappa :: string

record plan_limits =
  max_layers :: nat
  max_applications :: nat
  max_depth :: nat
  max_objects :: nat
  max_resolved_bytes :: nat

definition default_limits :: plan_limits where
  "default_limits = \<lparr>max_layers = 256, max_applications = 64, max_depth = 16, max_objects = 512,
     max_resolved_bytes = 4 * 1024 * 1024 * 1024\<rparr>"

datatype resolution_source = Embedded | LocalStore | ConfiguredResolver string

record resolved_object =
  ro_kappa :: string
  ro_bytes :: bytes
  ro_source :: resolution_source

datatype manifest_edge =
    RequiredCapabilities
  | LayerEdge nat
  | ChildApplication string nat
  | DelegatedCapabilities string nat
  | ChildRequiredCapabilities string
  | ChildLayer string nat

fun edge_text :: "manifest_edge \<Rightarrow> string" where
  "edge_text RequiredCapabilities = ''required capabilities''"
| "edge_text (LayerEdge position) = ''layer '' @ show_nat position"
| "edge_text (ChildApplication parent position) = ''child '' @ show_nat position @ '' application of '' @ parent"
| "edge_text (DelegatedCapabilities parent position) =
     ''child '' @ show_nat position @ '' delegated capabilities of '' @ parent"
| "edge_text (ChildRequiredCapabilities app) = ''required capabilities of child '' @ app"
| "edge_text (ChildLayer app position) = ''layer '' @ show_nat position @ '' of child '' @ app"

datatype provider_availability = Unchecked | Available string | Unavailable string

record planned_layer =
  pl_position :: nat
  pl_kind :: layer_kind
  pl_content_kappa :: string
  pl_entry :: string
  pl_aux :: string
  pl_primary :: bool
  pl_resolution_source :: "resolution_source option"
  pl_provider :: provider_availability

record resolved_layer =
  rl_position :: nat
  rl_kind :: layer_kind
  rl_content_kappa :: string
  rl_entry :: string
  rl_aux :: string
  rl_primary :: bool
  rl_content :: bytes
  rl_resolution_source :: resolution_source
  rl_provider :: string

record child_reference =
  cr_position :: nat
  cr_parent_application_kappa :: string
  cr_application_kappa :: string
  cr_capabilities_kappa :: string
  cr_depth :: nat
  cr_requires_kappa :: "string option"
  cr_layer_count :: "nat option"
  cr_application_source :: "resolution_source option"
  cr_capabilities_source :: "resolution_source option"

datatype plan_blocker =
    MissingObject string manifest_edge
  | ContentMismatch string manifest_edge resolution_source
  | InvalidCapabilitySet string string
  | ProviderUnavailable string nat string string string
  | InvalidChildManifest string manifest_edge string
  | ChildCycle "string list"
  | LimitExceeded string nat nat "manifest_edge option"
  | ExecutionShapeUnsupported string
  | LibraryArchive

fun layer_kind_name :: "layer_kind \<Rightarrow> string" where
  "layer_kind_name WasmCodemodule = ''wasm''"
| "layer_kind_name TensorPlan = ''tensor''"
| "layer_kind_name RootfsImage = ''rootfs''"
| "layer_kind_name ViewLayer = ''view''"
| "layer_kind_name InferenceModel = ''inference-model''"

fun resolution_source_name :: "resolution_source \<Rightarrow> string" where
  "resolution_source_name Embedded = ''embedded content''"
| "resolution_source_name LocalStore = ''local store''"
| "resolution_source_name (ConfiguredResolver _) = ''configured resolver''"

fun blocker_kind :: "plan_blocker \<Rightarrow> string" where
  "blocker_kind (MissingObject _ _) = ''missing_object''"
| "blocker_kind (ContentMismatch _ _ _) = ''content_mismatch''"
| "blocker_kind (InvalidCapabilitySet _ _) = ''invalid_capability_set''"
| "blocker_kind (ProviderUnavailable _ _ _ _ _) = ''provider_unavailable''"
| "blocker_kind (InvalidChildManifest _ _ _) = ''invalid_child_manifest''"
| "blocker_kind (ChildCycle _) = ''child_cycle''"
| "blocker_kind (LimitExceeded _ _ _ _) = ''limit_exceeded''"
| "blocker_kind (ExecutionShapeUnsupported _) = ''execution_shape_unsupported''"
| "blocker_kind LibraryArchive = ''library_archive''"

fun blocker_error_code :: "plan_blocker \<Rightarrow> string" where
  "blocker_error_code (MissingObject _ _) = ''LIVE_NOT_FOUND''"
| "blocker_error_code (ContentMismatch _ _ _) = ''LIVE_HOLO_INVALID''"
| "blocker_error_code (InvalidCapabilitySet _ _) = ''LIVE_HOLO_INVALID''"
| "blocker_error_code (InvalidChildManifest _ _ _) = ''LIVE_HOLO_INVALID''"
| "blocker_error_code (ChildCycle _) = ''LIVE_HOLO_INVALID''"
| "blocker_error_code (LimitExceeded _ _ _ _) = ''LIVE_HOLO_INVALID''"
| "blocker_error_code (ProviderUnavailable _ _ _ _ _) = ''LIVE_CAPABILITY_MISSING''"
| "blocker_error_code (ExecutionShapeUnsupported _) = ''LIVE_CAPABILITY_MISSING''"
| "blocker_error_code LibraryArchive = ''LIVE_CAPABILITY_MISSING''"

fun blocker_message :: "string \<Rightarrow> plan_blocker \<Rightarrow> string" where
  "blocker_message app (MissingObject kappa edge) =
     ''application '' @ app @ '' cannot resolve '' @ kappa @ '' referenced by '' @ edge_text edge
     @ '' from embedded content or the local store''"
| "blocker_message app (ContentMismatch kappa edge source) =
     ''application '' @ app @ '' resolved '' @ kappa @ '' for '' @ edge_text edge @ '' from ''
     @ resolution_source_name source @ '' but the bytes do not match the declared kappa''"
| "blocker_message app (InvalidCapabilitySet kappa reason) =
     ''application '' @ app @ '' required capability object '' @ kappa @ '' is not a canonical CapabilitySet: '' @ reason"
| "blocker_message app (ProviderUnavailable provider_application position kind entry reason) =
     ''application '' @ provider_application @ '' layer '' @ show_nat position @ '' ('' @ kind @ '', entry '' @ entry
     @ '') has no available provider while planning root '' @ app @ '': '' @ reason"
| "blocker_message app (InvalidChildManifest kappa edge reason) =
     ''application '' @ app @ '' resolved invalid child manifest '' @ kappa @ '' referenced by '' @ edge_text edge
     @ '': '' @ reason"
| "blocker_message app (ChildCycle path) =
     ''application '' @ app @ '' child graph contains a cycle: '' @ join_with '' -> '' path"
| "blocker_message app (LimitExceeded limit maximum actual edge) =
     ''application '' @ app @ '' exceeds planning limit '' @ limit @ '': maximum '' @ show_nat maximum
     @ '', actual '' @ show_nat actual
     @ (case edge of None \<Rightarrow> [] | Some e \<Rightarrow> '' while resolving '' @ edge_text e)"
| "blocker_message app (ExecutionShapeUnsupported reason) =
     ''application '' @ app @ '' cannot execute with the current lifecycle: '' @ reason"
| "blocker_message app LibraryArchive =
     ''application '' @ app @ '' is a library archive: it declares no primary layer and cannot be executed''"

definition blocker_into_error :: "string \<Rightarrow> plan_blocker \<Rightarrow> live_error" where
  "blocker_into_error app b =
     (let message = blocker_message app b in
      if blocker_error_code b = ''LIVE_NOT_FOUND'' then NotFound message
      else if blocker_error_code b = ''LIVE_HOLO_INVALID'' then InvalidHolo message
      else Capability message)"

record provider_context =
  pc_application_kappa :: string
  pc_position :: nat
  pc_kind :: layer_kind
  pc_entry :: string
  pc_aux :: string
  pc_primary :: bool
  pc_layer_count :: nat
  pc_content :: bytes

record pending_child_admission =
  ca_position :: nat
  ca_parent_application_index :: nat
  ca_parent_application_kappa :: string
  ca_application_index :: nat
  ca_application_kappa :: string
  ca_delegated :: capability_object
  ca_requested :: "capability_object option"
  ca_primary_layer :: "nat option"
  ca_layers :: "planned_layer list"

record resolved_child =
  rc_position :: nat
  rc_parent_application_index :: nat
  rc_parent_application_kappa :: string
  rc_application_index :: nat
  rc_application_kappa :: string
  rc_delegated :: capability_object
  rc_requested :: capability_object
  rc_primary_layer :: "nat option"
  rc_layers :: "resolved_layer list"

record plan_report =
  pr_identity :: holo_identity
  pr_primary_layer :: "nat option"
  pr_requires_kappa :: string
  pr_layers :: "planned_layer list"
  pr_children :: "child_reference list"
  pr_objects :: "(string \<times> resolved_object) list"
  pr_blockers :: "plan_blocker list"
  pr_resolved_bytes :: nat
  pr_referenced_object_count :: nat
  pr_embedded_object_count :: nat
  pr_application_count :: nat
  pr_max_depth :: nat
  pr_limits :: plan_limits
  pr_requested :: "capability_object option"
  pr_admissions :: "pending_child_admission list"
  pr_manifest :: app_manifest

record application_plan =
  ap_identity :: holo_identity
  ap_primary_layer :: "nat option"
  ap_requires_kappa :: string
  ap_requested :: capability_object
  ap_layers :: "resolved_layer list"
  ap_children :: "resolved_child list"
  ap_objects :: "(string \<times> resolved_object) list"
  ap_manifest :: app_manifest

section \<open>Resolving one object\<close>

datatype resolution_failure = Missing | Mismatch resolution_source

type_synonym local_lookup = "string \<Rightarrow> bytes option live_result"

record resolver =
  rs_embedded :: "string \<rightharpoonup> bytes"
  rs_limits :: plan_limits
  rs_referenced :: "string list"
  rs_failures :: "string \<rightharpoonup> resolution_failure"
  rs_objects :: "(string \<times> resolved_object) list"
  rs_blockers :: "plan_blocker list"
  rs_resolved_bytes :: nat
  rs_embedded_count :: nat
  rs_halted :: bool

definition push_blocker :: "plan_blocker \<Rightarrow> resolver \<Rightarrow> resolver" where
  "push_blocker b c = c\<lparr>rs_blockers := rs_blockers c @ [b]\<rparr>"

definition failure_blocker :: "string \<Rightarrow> manifest_edge \<Rightarrow> resolution_failure \<Rightarrow> plan_blocker" where
  "failure_blocker kappa edge f =
     (case f of Missing \<Rightarrow> MissingObject kappa edge | Mismatch source \<Rightarrow> ContentMismatch kappa edge source)"

definition record_failure :: "string \<Rightarrow> manifest_edge \<Rightarrow> resolution_failure \<Rightarrow> resolver \<Rightarrow> resolver" where
  "record_failure kappa edge f c =
     push_blocker (failure_blocker kappa edge f) (c\<lparr>rs_failures := (rs_failures c)(kappa \<mapsto> f)\<rparr>)"

definition halt_with :: "plan_blocker \<Rightarrow> resolver \<Rightarrow> resolver" where
  "halt_with b c = (push_blocker b c)\<lparr>rs_halted := True\<rparr>"

text \<open>Counting a kappa the first time it is asked for; \<open>Inl\<close> is the halted resolver.\<close>

definition note_reference :: "string \<Rightarrow> manifest_edge \<Rightarrow> resolver \<Rightarrow> resolver + resolver" where
  "note_reference kappa edge c =
     (if kappa \<in> set (rs_referenced c) then Inr c
      else
        let actual = saturating_add64 (length (rs_referenced c)) 1 in
        if actual > max_objects (rs_limits c) then
          Inl (halt_with (LimitExceeded ''resolved_objects'' (sat64 (max_objects (rs_limits c))) (sat64 actual) (Some edge)) c)
        else
          Inr (c\<lparr>rs_referenced := kappa # rs_referenced c,
                 rs_embedded_count := (if rs_embedded c kappa \<noteq> None then saturating_add64 (rs_embedded_count c) 1
                                       else rs_embedded_count c)\<rparr>))"

text \<open>Where the bytes come from.\<close>

definition lookup_bytes :: "local_lookup \<Rightarrow> resolver \<Rightarrow> string \<Rightarrow> (bytes option \<times> resolution_source) live_result" where
  "lookup_bytes resolve_local c kappa =
     (case rs_embedded c kappa of
        Some b \<Rightarrow> Inr (Some b, Embedded)
      | None \<Rightarrow> bindE (resolve_local kappa) (\<lambda>b. Inr (b, LocalStore)))"

text \<open>Checking and admitting the bytes found.\<close>

definition admit_bytes ::
  "space \<Rightarrow> resolver \<Rightarrow> string \<Rightarrow> manifest_edge \<Rightarrow> bytes option \<Rightarrow> resolution_source \<Rightarrow> resolver \<times> resolved_object option"
where
  "admit_bytes sp c kappa edge found source =
     (case found of
        None \<Rightarrow> (record_failure kappa edge Missing c, None)
      | Some b \<Rightarrow>
          if address_bytes sp b \<noteq> kappa then (record_failure kappa edge (Mismatch source) c, None)
          else
            let next_total = saturating_add64 (rs_resolved_bytes c) (sat64 (length b)) in
            if next_total > max_resolved_bytes (rs_limits c) then
              (halt_with (LimitExceeded ''resolved_bytes'' (max_resolved_bytes (rs_limits c)) next_total (Some edge)) c, None)
            else
              let object = \<lparr>ro_kappa = kappa, ro_bytes = b, ro_source = source\<rparr> in
              (c\<lparr>rs_resolved_bytes := next_total, rs_objects := map_insert kappa object (rs_objects c)\<rparr>, Some object))"

definition resolve ::
  "space \<Rightarrow> local_lookup \<Rightarrow> resolver \<Rightarrow> string \<Rightarrow> manifest_edge \<Rightarrow> (resolver \<times> resolved_object option) live_result"
where
  "resolve sp resolve_local c kappa edge =
     (case map_of (rs_objects c) kappa of
        Some object \<Rightarrow> Inr (c, Some object)
      | None \<Rightarrow>
          (case rs_failures c kappa of
             Some failure \<Rightarrow> Inr (push_blocker (failure_blocker kappa edge failure) c, None)
           | None \<Rightarrow>
               if rs_halted c then Inr (c, None)
               else
                 (case note_reference kappa edge c of
                    Inl halted \<Rightarrow> Inr (halted, None)
                  | Inr c' \<Rightarrow>
                      bindE (lookup_bytes resolve_local c' kappa) (\<lambda>(found, source).
                        Inr (admit_bytes sp c' kappa edge found source)))))"

section \<open>The application tree\<close>

record pending_application =
  pa_application_index :: nat
  pa_admission_index :: "nat option"
  pa_application_kappa :: string
  pa_manifest :: app_manifest
  pa_depth :: nat
  pa_path :: "string list"

definition planned_layer_at :: "app_manifest \<Rightarrow> nat \<Rightarrow> app_layer \<Rightarrow> planned_layer" where
  "planned_layer_at m position l =
     \<lparr>pl_position = sat32 position, pl_kind = al_kind l, pl_content_kappa = al_content l, pl_entry = al_entry l,
      pl_aux = al_aux l, pl_primary = (am_primary m = (if position \<le> u32_max then Some position else None)),
      pl_resolution_source = None, pl_provider = Unchecked\<rparr>"

definition planned_layers :: "app_manifest \<Rightarrow> planned_layer list" where
  "planned_layers m = map (\<lambda>(position, l). planned_layer_at m position l) (enumerate 0 (am_layers m))"

definition decode_child_manifest :: "space \<Rightarrow> resolved_object \<Rightarrow> string + app_manifest" where
  "decode_child_manifest sp object =
     bindE (map_err (\<lambda>e. ''decode: '' @ e) (manifest_decode sp (ro_bytes object))) (\<lambda>m.
     bindE (map_err (\<lambda>e. ''validate: '' @ e) (manifest_validate sp m)) (\<lambda>_.
     if manifest_canonicalize sp m \<noteq> ro_bytes object then Inl ''manifest is not canonically encoded'' else Inr m))"

definition child_cycle_path :: "string list \<Rightarrow> string \<Rightarrow> string list option" where
  "child_cycle_path path child_kappa = (if child_kappa \<in> set path then Some (path @ [child_kappa]) else None)"

text \<open>The variables of the planning loop.\<close>

record plan_state =
  ps_closure :: resolver
  ps_pending :: "pending_application list"
  ps_children :: "child_reference list"
  ps_admissions :: "pending_child_admission list"
  ps_requested :: "capability_object option"
  ps_application_count :: nat
  ps_max_depth :: nat
  ps_total_layers :: nat
  ps_applications_limited :: bool

definition block :: "plan_blocker \<Rightarrow> plan_state \<Rightarrow> plan_state" where
  "block b st = st\<lparr>ps_closure := push_blocker b (ps_closure st)\<rparr>"

definition update_child :: "nat \<Rightarrow> (child_reference \<Rightarrow> child_reference) \<Rightarrow> plan_state \<Rightarrow> plan_state" where
  "update_child i f st = st\<lparr>ps_children := (ps_children st)[i := f (ps_children st ! i)]\<rparr>"

definition update_admission ::
  "nat \<Rightarrow> (pending_child_admission \<Rightarrow> pending_child_admission) \<Rightarrow> plan_state \<Rightarrow> plan_state"
where
  "update_admission i f st = st\<lparr>ps_admissions := (ps_admissions st)[i := f (ps_admissions st ! i)]\<rparr>"

definition resolve_in ::
  "space \<Rightarrow> local_lookup \<Rightarrow> plan_state \<Rightarrow> string \<Rightarrow> manifest_edge \<Rightarrow> (plan_state \<times> resolved_object option) live_result"
where
  "resolve_in sp lookup st kappa edge =
     bindE (resolve sp lookup (ps_closure st) kappa edge) (\<lambda>(c, found). Inr (st\<lparr>ps_closure := c\<rparr>, found))"

subsection \<open>One application: its requested capabilities and its layers\<close>

definition take_requested ::
  "space \<Rightarrow> pending_application \<Rightarrow> resolved_object \<Rightarrow> plan_state \<Rightarrow> plan_state"
where
  "take_requested sp app object st =
     (case requested_decode sp (ro_kappa object) (ro_bytes object) of
        Inr c \<Rightarrow>
          if pa_depth app = 0 then st\<lparr>ps_requested := Some c\<rparr>
          else (case pa_admission_index app of
                  None \<Rightarrow> st
                | Some i \<Rightarrow> update_admission i (\<lambda>a. a\<lparr>ca_requested := Some c\<rparr>) st)
      | Inl e \<Rightarrow> block (InvalidCapabilitySet (ro_kappa object) (error_message e)) st)"

definition plan_requires :: "space \<Rightarrow> local_lookup \<Rightarrow> pending_application \<Rightarrow> plan_state \<Rightarrow> plan_state live_result" where
  "plan_requires sp lookup app st =
     (let edge = (if pa_depth app = 0 then RequiredCapabilities else ChildRequiredCapabilities (pa_application_kappa app)) in
      bindE (resolve_in sp lookup st (am_requires (pa_manifest app)) edge) (\<lambda>(st', found).
        Inr (case found of None \<Rightarrow> st' | Some object \<Rightarrow> take_requested sp app object st')))"

definition layer_edge :: "pending_application \<Rightarrow> nat \<Rightarrow> manifest_edge" where
  "layer_edge app position =
     (if pa_depth app = 0 then LayerEdge (sat32 position) else ChildLayer (pa_application_kappa app) (sat32 position))"

fun plan_layer_contents ::
  "space \<Rightarrow> local_lookup \<Rightarrow> pending_application \<Rightarrow> nat \<Rightarrow> app_layer list \<Rightarrow> plan_state \<Rightarrow> plan_state live_result"
where
  "plan_layer_contents sp lookup app position [] st = Inr st"
| "plan_layer_contents sp lookup app position (l # ls) st =
     bindE (resolve_in sp lookup st (al_content l) (layer_edge app position)) (\<lambda>(st', _).
       plan_layer_contents sp lookup app (Suc position) ls st')"

subsection \<open>One child\<close>

definition child_ref :: "pending_application \<Rightarrow> nat \<Rightarrow> string \<Rightarrow> string \<Rightarrow> child_reference" where
  "child_ref app position child_kappa capabilities_kappa =
     \<lparr>cr_position = position, cr_parent_application_kappa = pa_application_kappa app,
      cr_application_kappa = child_kappa, cr_capabilities_kappa = capabilities_kappa,
      cr_depth = sat32 (saturating_add64 (pa_depth app) 1), cr_requires_kappa = None, cr_layer_count = None,
      cr_application_source = None, cr_capabilities_source = None\<rparr>"

text \<open>The delegated set of a child, decoded when it resolves.\<close>

definition plan_delegated ::
  "space \<Rightarrow> nat \<Rightarrow> resolved_object option \<Rightarrow> plan_state \<Rightarrow> plan_state \<times> capability_object option"
where
  "plan_delegated sp child_index found st =
     (case found of
        None \<Rightarrow> (st, None)
      | Some object \<Rightarrow>
          let st' = update_child child_index (\<lambda>r. r\<lparr>cr_capabilities_source := Some (ro_source object)\<rparr>) st in
          (case delegated_decode sp (ro_kappa object) (ro_bytes object) of
             Inr c \<Rightarrow> (st', Some c)
           | Inl e \<Rightarrow> (block (InvalidCapabilitySet (ro_kappa object) (error_message e)) st', None)))"

text \<open>Queueing a decoded child, with an admission when its delegated set decoded.\<close>

definition child_admission ::
  "pending_application \<Rightarrow> nat \<Rightarrow> nat \<Rightarrow> resolved_object \<Rightarrow> capability_object \<Rightarrow> pending_child_admission"
where
  "child_admission app position index object d =
     \<lparr>ca_position = position, ca_parent_application_index = pa_application_index app,
      ca_parent_application_kappa = pa_application_kappa app, ca_application_index = index,
      ca_application_kappa = ro_kappa object, ca_delegated = d, ca_requested = None,
      ca_primary_layer = None, ca_layers = []\<rparr>"

definition child_application ::
  "pending_application \<Rightarrow> nat \<Rightarrow> nat option \<Rightarrow> resolved_object \<Rightarrow> app_manifest \<Rightarrow> pending_application"
where
  "child_application app index admission_index object m =
     \<lparr>pa_application_index = index, pa_admission_index = admission_index, pa_application_kappa = ro_kappa object,
      pa_manifest = m, pa_depth = saturating_add64 (pa_depth app) 1, pa_path = pa_path app @ [ro_kappa object]\<rparr>"

definition enqueue_child ::
  "pending_application \<Rightarrow> nat \<Rightarrow> nat \<Rightarrow> resolved_object \<Rightarrow> app_manifest \<Rightarrow> capability_object option \<Rightarrow> plan_state \<Rightarrow> plan_state"
where
  "enqueue_child app position index object m delegated st =
     (case delegated of
        None \<Rightarrow> st\<lparr>ps_pending := ps_pending st @ [child_application app index None object m]\<rparr>
      | Some d \<Rightarrow>
          st\<lparr>ps_admissions := ps_admissions st @ [child_admission app position index object d],
             ps_pending := ps_pending st @ [child_application app index (Some (length (ps_admissions st))) object m]\<rparr>)"

text \<open>The child's manifest, once its object resolved.\<close>

definition plan_child_manifest ::
  "space \<Rightarrow> pending_application \<Rightarrow> nat \<Rightarrow> string \<Rightarrow> nat \<Rightarrow> nat \<Rightarrow> capability_object option \<Rightarrow> resolved_object \<Rightarrow> plan_state \<Rightarrow> plan_state"
where
  "plan_child_manifest sp app position child_kappa child_index index delegated object st =
     (let st1 = update_child child_index (\<lambda>r. r\<lparr>cr_application_source := Some (ro_source object)\<rparr>) st in
      case decode_child_manifest sp object of
        Inl reason \<Rightarrow> block (InvalidChildManifest child_kappa (ChildApplication (pa_application_kappa app) position) reason) st1
      | Inr m \<Rightarrow>
          enqueue_child app position index object m delegated
            (update_child child_index
               (\<lambda>r. r\<lparr>cr_requires_kappa := Some (am_requires m), cr_layer_count := Some (length (am_layers m))\<rparr>) st1))"

text \<open>A child within the limits, already counted.\<close>

definition plan_counted_child ::
  "space \<Rightarrow> local_lookup \<Rightarrow> pending_application \<Rightarrow> nat \<Rightarrow> string \<times> string \<Rightarrow> nat \<Rightarrow> nat \<Rightarrow> plan_state \<Rightarrow> plan_state live_result"
where
  "plan_counted_child sp lookup app position child child_index index st =
     bindE (resolve_in sp lookup st (snd child) (DelegatedCapabilities (pa_application_kappa app) position)) (\<lambda>(st1, found_caps).
       case plan_delegated sp child_index found_caps st1 of (st2, delegated) \<Rightarrow>
         bindE (resolve_in sp lookup st2 (fst child) (ChildApplication (pa_application_kappa app) position)) (\<lambda>(st3, found).
           Inr (case found of
                  None \<Rightarrow> st3
                | Some object \<Rightarrow> plan_child_manifest sp app position (fst child) child_index index delegated object st3)))"

definition plan_child ::
  "space \<Rightarrow> local_lookup \<Rightarrow> plan_limits \<Rightarrow> pending_application \<Rightarrow> nat \<Rightarrow> string \<times> string \<Rightarrow> plan_state \<Rightarrow> plan_state live_result"
where
  "plan_child sp lookup limits app raw_position child st =
     (let position = sat32 raw_position; child_kappa = fst child; capabilities_kappa = snd child;
          child_depth = saturating_add64 (pa_depth app) 1;
          application_edge = ChildApplication (pa_application_kappa app) position;
          st1 = st\<lparr>ps_children := ps_children st @ [child_ref app position child_kappa capabilities_kappa]\<rparr>;
          child_index = length (ps_children st1) - 1
      in case child_cycle_path (pa_path app) child_kappa of
           Some path \<Rightarrow> Inr (block (ChildCycle path) st1)
         | None \<Rightarrow>
             if child_depth > max_depth limits then
               Inr (block (LimitExceeded ''application_depth'' (sat64 (max_depth limits)) (sat64 child_depth)
                             (Some application_edge)) st1)
             else if ps_applications_limited st1 \<or> ps_application_count st1 \<ge> max_applications limits then
               Inr (if ps_applications_limited st1 then st1
                    else (block (LimitExceeded ''applications'' (sat64 (max_applications limits))
                                   (sat64 (saturating_add64 (ps_application_count st1) 1)) (Some application_edge)) st1)
                         \<lparr>ps_applications_limited := True\<rparr>)
             else
               plan_counted_child sp lookup app position child child_index (ps_application_count st1)
                 (st1\<lparr>ps_application_count := saturating_add64 (ps_application_count st1) 1,
                       ps_max_depth := max (ps_max_depth st1) child_depth\<rparr>))"

fun plan_children ::
  "space \<Rightarrow> local_lookup \<Rightarrow> plan_limits \<Rightarrow> pending_application \<Rightarrow> nat \<Rightarrow> (string \<times> string) list \<Rightarrow> plan_state \<Rightarrow> plan_state live_result"
where
  "plan_children sp lookup limits app position [] st = Inr st"
| "plan_children sp lookup limits app position (c # cs) st =
     bindE (plan_child sp lookup limits app position c st) (plan_children sp lookup limits app (Suc position) cs)"

subsection \<open>The loop\<close>

text \<open>One iteration of the loop on a popped application; the flag says that the loop goes on.\<close>

definition admit_layers :: "pending_application \<Rightarrow> plan_state \<Rightarrow> plan_state" where
  "admit_layers app st =
     (case pa_admission_index app of
        None \<Rightarrow> st
      | Some i \<Rightarrow> update_admission i (\<lambda>a. a\<lparr>ca_primary_layer := am_primary (pa_manifest app),
                                              ca_layers := planned_layers (pa_manifest app)\<rparr>) st)"

definition plan_application ::
  "space \<Rightarrow> local_lookup \<Rightarrow> plan_limits \<Rightarrow> pending_application \<Rightarrow> plan_state \<Rightarrow> (plan_state \<times> bool) live_result"
where
  "plan_application sp lookup limits app st0 =
     (let st1 = admit_layers app st0;
          total = saturating_add64 (ps_total_layers st1) (length (am_layers (pa_manifest app)));
          st2 = st1\<lparr>ps_total_layers := total\<rparr>
      in if total > max_layers limits then
           Inr (block (LimitExceeded ''layers'' (sat64 (max_layers limits)) (sat64 total) None) st2, False)
         else
           bindE (plan_requires sp lookup app st2) (\<lambda>st3.
           bindE (plan_layer_contents sp lookup app 0 (am_layers (pa_manifest app)) st3) (\<lambda>st4.
             if rs_halted (ps_closure st4) then Inr (st4, False)
             else bindE (plan_children sp lookup limits app 0 (am_children (pa_manifest app)) st4) (\<lambda>st5.
                    Inr (st5, \<not> rs_halted (ps_closure st5))))))"

text \<open>The \<open>while let\<close> loop, with fuel for the number of iterations; \<open>None\<close> is running out of it.\<close>

fun plan_loop ::
  "space \<Rightarrow> local_lookup \<Rightarrow> plan_limits \<Rightarrow> nat \<Rightarrow> plan_state \<Rightarrow> plan_state live_result option"
where
  "plan_loop sp lookup limits fuel st =
     (case ps_pending st of
        [] \<Rightarrow> Some (Inr st)
      | app # rest \<Rightarrow>
          (case fuel of
             0 \<Rightarrow> None
           | Suc n \<Rightarrow>
               (case plan_application sp lookup limits app (st\<lparr>ps_pending := rest\<rparr>) of
                  Inl e \<Rightarrow> Some (Inl e)
                | Inr (st', go_on) \<Rightarrow> if go_on then plan_loop sp lookup limits n st' else Some (Inr st'))))"

subsection \<open>The report\<close>

text \<open>What the archive yields before any object is resolved.\<close>

record plan_input =
  pi_identity :: holo_identity
  pi_manifest :: app_manifest
  pi_root_manifest :: app_manifest
  pi_embedded :: "string \<rightharpoonup> bytes"

fun embedded_pairs :: "(bytes \<times> bytes) list \<Rightarrow> (string \<times> bytes) list live_result" where
  "embedded_pairs [] = Inr []"
| "embedded_pairs ((label, b) # rest) =
     (if \<not> utf8_valid (map unat label) then Inl (InvalidHolo ''embedded content kappa is not UTF-8'')
      else bindE (embedded_pairs rest) (\<lambda>ps. Inr ((bytes_string label, b) # ps)))"

definition open_archive :: "space \<Rightarrow> wasm_contracts \<Rightarrow> dir_codec \<Rightarrow> bytes \<Rightarrow> plan_input live_result" where
  "open_archive sp wc dc archive_bytes =
     bindE (require_current archive_bytes) (\<lambda>_.
     bindE (map_err InvalidHolo (load_archive sp archive_bytes)) (\<lambda>archive.
     bindE (ok_or (Capability ''application planning requires an AppManifest section'') (ar_manifest archive)) (\<lambda>manifest_bytes.
     bindE (map_err (\<lambda>e. InvalidHolo (''decode application manifest: '' @ e)) (manifest_decode sp manifest_bytes)) (\<lambda>m.
     bindE (map_err (\<lambda>e. InvalidHolo (''validate application manifest: '' @ e)) (manifest_validate sp m)) (\<lambda>_.
     let canonical = manifest_canonicalize sp m;
         identity = \<lparr>archive_kappa = address_bytes sp archive_bytes, archive_fingerprint = hex (ar_fingerprint archive),
                      application_kappa = address_bytes sp canonical\<rparr>
     in
     bindE (map_err InvalidHolo (ar_extensions archive)) (\<lambda>extensions.
     bindE (map_err InvalidHolo (ar_content_blobs archive)) (\<lambda>blobs.
     bindE (verify_required sp wc dc m (map snd (filter (\<lambda>(k, _). k = directory_extension_key) extensions)) blobs) (\<lambda>_.
     bindE (embedded_pairs blobs) (\<lambda>embedded.
     bindE (map_err (\<lambda>e. InvalidHolo (''decode canonical application manifest: '' @ e)) (manifest_decode sp canonical)) (\<lambda>root.
     Inr \<lparr>pi_identity = identity, pi_manifest = m, pi_root_manifest = root, pi_embedded = map_of (rev embedded)\<rparr>))))))))))"

definition initial_resolver :: "plan_limits \<Rightarrow> (string \<rightharpoonup> bytes) \<Rightarrow> resolver" where
  "initial_resolver limits embedded =
     \<lparr>rs_embedded = embedded, rs_limits = limits, rs_referenced = [], rs_failures = (\<lambda>_. None), rs_objects = [],
      rs_blockers = [], rs_resolved_bytes = 0, rs_embedded_count = 0, rs_halted = False\<rparr>"

definition root_application :: "plan_input \<Rightarrow> pending_application" where
  "root_application i =
     \<lparr>pa_application_index = 0, pa_admission_index = None, pa_application_kappa = application_kappa (pi_identity i),
      pa_manifest = pi_root_manifest i, pa_depth = 0, pa_path = [application_kappa (pi_identity i)]\<rparr>"

definition initial_plan :: "plan_limits \<Rightarrow> plan_input \<Rightarrow> plan_state" where
  "initial_plan limits i =
     (let st = \<lparr>ps_closure = initial_resolver limits (pi_embedded i), ps_pending = [root_application i],
                ps_children = [], ps_admissions = [], ps_requested = None, ps_application_count = 1,
                ps_max_depth = 0, ps_total_layers = 0, ps_applications_limited = False\<rparr>
      in if 1 > max_applications limits then
           (block (LimitExceeded ''applications'' (sat64 (max_applications limits)) 1 None) st)
             \<lparr>ps_applications_limited := True, ps_pending := []\<rparr>
         else st)"

definition source_of :: "(string \<times> resolved_object) list \<Rightarrow> planned_layer \<Rightarrow> planned_layer" where
  "source_of objects l = l\<lparr>pl_resolution_source := map_option ro_source (map_of objects (pl_content_kappa l))\<rparr>"

definition plan_report_of :: "plan_limits \<Rightarrow> plan_input \<Rightarrow> plan_state \<Rightarrow> plan_report" where
  "plan_report_of limits i st =
     (let c = ps_closure st; m = pi_manifest i in
      \<lparr>pr_identity = pi_identity i, pr_primary_layer = am_primary m, pr_requires_kappa = am_requires m,
       pr_layers = map (source_of (rs_objects c)) (planned_layers m), pr_children = ps_children st,
       pr_objects = rs_objects c,
       pr_blockers = rs_blockers c @ (if am_primary m = None then [LibraryArchive] else []),
       pr_resolved_bytes = rs_resolved_bytes c, pr_referenced_object_count = length (rs_referenced c),
       pr_embedded_object_count = rs_embedded_count c, pr_application_count = ps_application_count st,
       pr_max_depth = ps_max_depth st, pr_limits = limits, pr_requested = ps_requested st,
       pr_admissions = map (\<lambda>a. a\<lparr>ca_layers := map (source_of (rs_objects c)) (ca_layers a)\<rparr>) (ps_admissions st),
       pr_manifest = m\<rparr>)"

text \<open>Each iteration consumes one counted application, so \<open>max_applications\<close> iterations are enough.\<close>

definition explain_application ::
  "space \<Rightarrow> wasm_contracts \<Rightarrow> dir_codec \<Rightarrow> bytes \<Rightarrow> plan_limits \<Rightarrow> local_lookup \<Rightarrow> plan_report live_result option"
where
  "explain_application sp wc dc archive_bytes limits lookup =
     (case open_archive sp wc dc archive_bytes of
        Inl e \<Rightarrow> Some (Inl e)
      | Inr i \<Rightarrow>
          map_option (\<lambda>r. bindE r (\<lambda>st. Inr (plan_report_of limits i st)))
            (plan_loop sp lookup limits (max_applications limits) (initial_plan limits i)))"

section \<open>Providers and the strict plan\<close>

fun evaluate_layer_set ::
  "(provider_context \<Rightarrow> provider_availability) \<Rightarrow> string \<Rightarrow> nat \<Rightarrow> (string \<times> resolved_object) list
     \<Rightarrow> planned_layer list \<Rightarrow> plan_blocker list \<Rightarrow> planned_layer list \<times> plan_blocker list"
where
  "evaluate_layer_set evaluate app layer_count objects [] blockers = ([], blockers)"
| "evaluate_layer_set evaluate app layer_count objects (l # ls) blockers =
     (case map_of objects (pl_content_kappa l) of
        None \<Rightarrow> (let (ls', bs) = evaluate_layer_set evaluate app layer_count objects ls blockers in (l # ls', bs))
      | Some object \<Rightarrow>
          let availability = evaluate \<lparr>pc_application_kappa = app, pc_position = pl_position l, pc_kind = pl_kind l,
                pc_entry = pl_entry l, pc_aux = pl_aux l, pc_primary = pl_primary l, pc_layer_count = layer_count,
                pc_content = ro_bytes object\<rparr>;
              blockers' = (case availability of
                  Unavailable reason \<Rightarrow>
                    blockers @ [ProviderUnavailable app (pl_position l) (layer_kind_name (pl_kind l)) (pl_entry l) reason]
                | _ \<Rightarrow> blockers);
              (ls', bs) = evaluate_layer_set evaluate app layer_count objects ls blockers'
          in (l\<lparr>pl_provider := availability\<rparr> # ls', bs))"

fun evaluate_admissions ::
  "(provider_context \<Rightarrow> provider_availability) \<Rightarrow> (string \<times> resolved_object) list
     \<Rightarrow> pending_child_admission list \<Rightarrow> plan_blocker list \<Rightarrow> pending_child_admission list \<times> plan_blocker list"
where
  "evaluate_admissions evaluate objects [] blockers = ([], blockers)"
| "evaluate_admissions evaluate objects (a # as) blockers =
     (let (ls, bs) = evaluate_layer_set evaluate (ca_application_kappa a) (length (ca_layers a)) objects (ca_layers a) blockers;
          (as', bs') = evaluate_admissions evaluate objects as bs
      in (a\<lparr>ca_layers := ls\<rparr> # as', bs'))"

definition evaluate_providers :: "(provider_context \<Rightarrow> provider_availability) \<Rightarrow> plan_report \<Rightarrow> plan_report" where
  "evaluate_providers evaluate r =
     (let (ls, bs) = evaluate_layer_set evaluate (application_kappa (pr_identity r)) (length (pr_layers r)) (pr_objects r)
                       (pr_layers r) (pr_blockers r);
          (as, bs') = evaluate_admissions evaluate (pr_objects r) (pr_admissions r) bs
      in r\<lparr>pr_layers := ls, pr_admissions := as, pr_blockers := bs'\<rparr>)"

definition is_available :: "planned_layer \<Rightarrow> bool" where
  "is_available l = (case pl_provider l of Available _ \<Rightarrow> True | _ \<Rightarrow> False)"

definition runnable :: "plan_report \<Rightarrow> bool" where
  "runnable r \<longleftrightarrow> pr_blockers r = [] \<and> list_all is_available (pr_layers r)
     \<and> list_all (\<lambda>a. list_all is_available (ca_layers a)) (pr_admissions r)"

definition strict_layer ::
  "string \<Rightarrow> (string \<times> resolved_object) list \<Rightarrow> planned_layer \<Rightarrow> resolved_layer live_result"
where
  "strict_layer app objects l =
     bindE (ok_or (Conflict (''planner lost resolved content '' @ pl_content_kappa l @ '' for application '' @ app
              @ '' layer '' @ show_nat (pl_position l))) (map_of objects (pl_content_kappa l))) (\<lambda>object.
     bindE (case pl_provider l of
              Available provider \<Rightarrow> Inr provider
            | Unchecked \<Rightarrow> Inl (Capability (''provider availability was not evaluated for application '' @ app
                                  @ '' layer '' @ show_nat (pl_position l)))
            | Unavailable reason \<Rightarrow> Inl (Capability reason)) (\<lambda>provider.
     Inr \<lparr>rl_position = pl_position l, rl_kind = pl_kind l, rl_content_kappa = pl_content_kappa l, rl_entry = pl_entry l,
          rl_aux = pl_aux l, rl_primary = pl_primary l, rl_content = ro_bytes object,
          rl_resolution_source = ro_source object, rl_provider = provider\<rparr>))"

definition strict_layers ::
  "string \<Rightarrow> (string \<times> resolved_object) list \<Rightarrow> planned_layer list \<Rightarrow> resolved_layer list live_result"
where
  "strict_layers app objects ls = mapE (strict_layer app objects) ls"

definition strict_child ::
  "(string \<times> resolved_object) list \<Rightarrow> pending_child_admission \<Rightarrow> resolved_child live_result"
where
  "strict_child objects a =
     bindE (strict_layers (ca_application_kappa a) objects (ca_layers a)) (\<lambda>ls.
     bindE (ok_or (Conflict ''planner lost decoded child requested capabilities'') (ca_requested a)) (\<lambda>requested.
     Inr \<lparr>rc_position = ca_position a, rc_parent_application_index = ca_parent_application_index a,
          rc_parent_application_kappa = ca_parent_application_kappa a, rc_application_index = ca_application_index a,
          rc_application_kappa = ca_application_kappa a, rc_delegated = ca_delegated a, rc_requested = requested,
          rc_primary_layer = ca_primary_layer a, rc_layers = ls\<rparr>))"

definition into_application_plan :: "plan_report \<Rightarrow> application_plan live_result" where
  "into_application_plan r =
     (case pr_blockers r of
        b # _ \<Rightarrow> Inl (blocker_into_error (application_kappa (pr_identity r)) b)
      | [] \<Rightarrow>
          bindE (ok_or (Conflict ''planner lost decoded requested capabilities'') (pr_requested r)) (\<lambda>requested.
          bindE (strict_layers (application_kappa (pr_identity r)) (pr_objects r) (pr_layers r)) (\<lambda>layers.
          bindE (mapE (strict_child (pr_objects r)) (pr_admissions r)) (\<lambda>children.
          Inr \<lparr>ap_identity = pr_identity r, ap_primary_layer = pr_primary_layer r, ap_requires_kappa = pr_requires_kappa r,
               ap_requested = requested, ap_layers = layers, ap_children = children, ap_objects = pr_objects r,
               ap_manifest = pr_manifest r\<rparr>))))"

section \<open>Admission of the capability tree\<close>

text \<open>The observer receives the decisions in order; the model returns them beside the result.\<close>

fun admit_children ::
  "space \<Rightarrow> resolved_child list \<Rightarrow> (nat \<rightharpoonup> effective_grant) \<Rightarrow> capability_decision list \<times> (nat \<rightharpoonup> effective_grant) live_result"
where
  "admit_children sp [] grants = ([], Inr grants)"
| "admit_children sp (c # cs) grants =
     (case grants (rc_parent_application_index c) of
        None \<Rightarrow> ([], Inl (Conflict (''planner lost parent application '' @ rc_parent_application_kappa c @ '' for child ''
                    @ rc_application_kappa c)))
      | Some parent \<Rightarrow>
          let delegation_allowed = caps_admits sp (eg_capabilities parent) (co_capabilities (rc_delegated c));
              child_grant = from_delegation (rc_delegated c);
              request_allowed = caps_admits sp (eg_capabilities child_grant) (co_capabilities (rc_requested c));
              decisions =
                decision_child_delegation (rc_parent_application_kappa c) (rc_application_kappa c) (rc_delegated c)
                  parent delegation_allowed
                # (if delegation_allowed then
                     [decision_application_request (rc_application_kappa c) (Some (rc_parent_application_kappa c))
                        (rc_requested c) child_grant request_allowed]
                   else [])
          in case authorize_child_delegation sp (rc_parent_application_kappa c) (eg_kappa parent) (eg_capabilities parent)
                    (rc_application_kappa c) (rc_delegated c) (rc_requested c) of
               Inl e \<Rightarrow> (decisions, Inl e)
             | Inr _ \<Rightarrow>
                 let (ds, r) = admit_children sp cs (grants(rc_application_index c \<mapsto> child_grant)) in (decisions @ ds, r))"

definition admitted_grants_with ::
  "space \<Rightarrow> application_plan \<Rightarrow> effective_grant \<Rightarrow> capability_decision list \<times> (nat \<rightharpoonup> effective_grant) live_result"
where
  "admitted_grants_with sp p g =
     (let app = application_kappa (ap_identity p);
          root_allowed = caps_admits sp (eg_capabilities g) (co_capabilities (ap_requested p));
          d = decision_application_request app None (ap_requested p) g root_allowed
      in case grant_authorize sp g app (ap_requested p) of
           Inl e \<Rightarrow> ([d], Inl e)
         | Inr _ \<Rightarrow> let (ds, r) = admit_children sp (ap_children p) [0 \<mapsto> g] in (d # ds, r))"

definition admitted_grants :: "space \<Rightarrow> application_plan \<Rightarrow> effective_grant \<Rightarrow> (nat \<rightharpoonup> effective_grant) live_result" where
  "admitted_grants sp p g = snd (admitted_grants_with sp p g)"

definition authorize_capability_tree :: "space \<Rightarrow> application_plan \<Rightarrow> effective_grant \<Rightarrow> unit live_result" where
  "authorize_capability_tree sp p g = bindE (admitted_grants sp p g) (\<lambda>_. Inr ())"

end
