(* ===== verification/Plan_Resolver.thy ===== *)
theory Plan_Resolver
  imports Application_Plan
begin

text \<open>
  The closure resolver of the planner: what its state guarantees about the objects it hands out, and that
  \<open>resolve\<close> keeps the guarantee, only ever adds objects and blockers, and explains every refusal.
\<close>

section \<open>Invariant\<close>

definition limits_ok :: "plan_limits \<Rightarrow> bool" where
  "limits_ok l \<longleftrightarrow> max_objects l < u64_max \<and> max_resolved_bytes l < u64_max \<and> max_applications l \<le> u64_max
     \<and> max_depth l < u64_max"

text \<open>An object is what its kappa addresses, and comes from where it says.\<close>

definition object_ok :: "space \<Rightarrow> local_lookup \<Rightarrow> (string \<rightharpoonup> bytes) \<Rightarrow> string \<Rightarrow> resolved_object \<Rightarrow> bool" where
  "object_ok sp lookup embedded k ob \<longleftrightarrow> ro_kappa ob = k \<and> address_bytes sp (ro_bytes ob) = k
     \<and> (case embedded k of
          Some b \<Rightarrow> ro_bytes ob = b \<and> ro_source ob = Embedded
        | None \<Rightarrow> lookup k = Inr (Some (ro_bytes ob)) \<and> ro_source ob = LocalStore)"

definition objects_size :: "(string \<times> resolved_object) list \<Rightarrow> nat" where
  "objects_size obs = (\<Sum>(k, ob) \<leftarrow> obs. length (ro_bytes ob))"

definition resolver_ok :: "space \<Rightarrow> local_lookup \<Rightarrow> resolver \<Rightarrow> bool" where
  "resolver_ok sp lookup c \<longleftrightarrow>
     sorted_wrt (<) (map fst (rs_objects c)) \<and> distinct (rs_referenced c)
     \<and> (\<forall>k ob. map_of (rs_objects c) k = Some ob \<longrightarrow> k \<in> set (rs_referenced c))
     \<and> length (rs_referenced c) \<le> max_objects (rs_limits c)
     \<and> (\<forall>k ob. map_of (rs_objects c) k = Some ob \<longrightarrow> object_ok sp lookup (rs_embedded c) k ob)
     \<and> (rs_halted c \<longrightarrow> rs_blockers c \<noteq> []) \<and> (\<forall>k. rs_failures c k \<noteq> None \<longrightarrow> rs_blockers c \<noteq> [])
     \<and> objects_size (rs_objects c) = rs_resolved_bytes c
     \<and> rs_resolved_bytes c \<le> max_resolved_bytes (rs_limits c)"

text \<open>Growth: nothing is taken back.\<close>

definition resolver_le :: "resolver \<Rightarrow> resolver \<Rightarrow> bool" where
  "resolver_le c c' \<longleftrightarrow> rs_limits c' = rs_limits c \<and> rs_embedded c' = rs_embedded c
     \<and> map_of (rs_objects c) \<subseteq>\<^sub>m map_of (rs_objects c') \<and> (\<exists>bs. rs_blockers c' = rs_blockers c @ bs)"

lemma resolver_le_refl [simp]: "resolver_le c c"
  by (simp add: resolver_le_def)

lemma resolver_le_trans: "resolver_le a b \<Longrightarrow> resolver_le b c \<Longrightarrow> resolver_le a c"
  by (auto simp: resolver_le_def intro: map_le_trans)

lemma resolver_le_limits: "resolver_le c c' \<Longrightarrow> rs_limits c' = rs_limits c"
  by (simp add: resolver_le_def)

lemma resolver_le_object: "resolver_le c c' \<Longrightarrow> map_of (rs_objects c) k = Some ob \<Longrightarrow> map_of (rs_objects c') k = Some ob"
  by (auto simp: resolver_le_def map_le_def dom_def)

lemma resolver_le_blockers: "resolver_le c c' \<Longrightarrow> rs_blockers c' = [] \<Longrightarrow> rs_blockers c = []"
  by (auto simp: resolver_le_def)

lemma push_blocker_simps [simp]:
  "rs_embedded (push_blocker b c) = rs_embedded c" "rs_limits (push_blocker b c) = rs_limits c"
  "rs_referenced (push_blocker b c) = rs_referenced c" "rs_failures (push_blocker b c) = rs_failures c"
  "rs_objects (push_blocker b c) = rs_objects c" "rs_blockers (push_blocker b c) = rs_blockers c @ [b]"
  "rs_resolved_bytes (push_blocker b c) = rs_resolved_bytes c" "rs_halted (push_blocker b c) = rs_halted c"
  by (simp_all add: push_blocker_def)

lemma push_blocker_keeps [intro]: "resolver_ok sp lookup c \<Longrightarrow> resolver_ok sp lookup (push_blocker b c)"
  and push_blocker_le [intro]: "resolver_le c (push_blocker b c)"
  by (auto simp: resolver_ok_def resolver_le_def)

lemma record_failure_keeps: "resolver_ok sp lookup c \<Longrightarrow> resolver_ok sp lookup (record_failure k e f c)"
  and record_failure_le: "resolver_le c (record_failure k e f c)"
  by (auto simp: resolver_ok_def resolver_le_def record_failure_def)

lemma halt_with_keeps: "resolver_ok sp lookup c \<Longrightarrow> resolver_ok sp lookup (halt_with b c)"
  and halt_with_le: "resolver_le c (halt_with b c)"
  by (auto simp: resolver_ok_def resolver_le_def halt_with_def)

lemma record_failure_blocks [simp]: "rs_blockers (record_failure k e f c) \<noteq> []"
  and halt_with_blocks [simp]: "rs_blockers (halt_with b c) \<noteq> []"
  by (simp_all add: record_failure_def halt_with_def)

section \<open>Resolution\<close>

lemma note_reference_Inr:
  assumes "note_reference k e c = Inr c'" "resolver_ok sp lookup c" "limits_ok (rs_limits c)"
  shows "resolver_ok sp lookup c'" "resolver_le c c'" "k \<in> set (rs_referenced c')"
    "rs_objects c' = rs_objects c"
proof -
  have "c' = c \<and> k \<in> set (rs_referenced c) \<or> k \<notin> set (rs_referenced c)
      \<and> Suc (length (rs_referenced c)) \<le> max_objects (rs_limits c)
      \<and> (\<exists>n. c' = c\<lparr>rs_referenced := k # rs_referenced c, rs_embedded_count := n\<rparr>)"
    using assms(1,3) by (cases "k \<in> set (rs_referenced c)")
      (auto simp: note_reference_def limits_ok_def Let_def saturating_add64_def split: if_splits
        intro!: exI[of _ "rs_embedded_count c'"])
  with assms(2) show "resolver_ok sp lookup c'" "resolver_le c c'" "k \<in> set (rs_referenced c')"
    "rs_objects c' = rs_objects c"
    unfolding resolver_ok_def resolver_le_def by auto
qed

lemma note_reference_Inl:
  assumes "note_reference k e c = Inl c'" "resolver_ok sp lookup c"
  shows "resolver_ok sp lookup c'" "resolver_le c c'" "rs_blockers c' \<noteq> []"
  using assms halt_with_keeps halt_with_le
  by (auto simp: note_reference_def Let_def split: if_splits)

lemma objects_size_insert:
  "map_of obs k = None \<Longrightarrow> objects_size (map_insert k ob obs) = objects_size obs + length (ro_bytes ob)"
  by (induction obs) (auto simp: objects_size_def split: if_splits)

lemma admit_bytes_keeps:
  assumes "admit_bytes sp c k e found src = (c', r)" "resolver_ok sp lookup c" "limits_ok (rs_limits c)"
    and fresh: "map_of (rs_objects c) k = None" and ref: "k \<in> set (rs_referenced c)"
    and src: "case rs_embedded c k of Some b \<Rightarrow> found = Some b \<and> src = Embedded
                | None \<Rightarrow> lookup k = Inr found \<and> src = LocalStore"
  shows "resolver_ok sp lookup c' \<and> resolver_le c c' \<and> (\<forall>ob. r = Some ob \<longrightarrow> map_of (rs_objects c') k = Some ob)
     \<and> (r = None \<longrightarrow> rs_blockers c' \<noteq> [])"
proof (cases r)
  case None
  with assms(1,2) show ?thesis
    by (auto simp: admit_bytes_def Let_def record_failure_keeps record_failure_le halt_with_keeps halt_with_le
        split: option.splits if_splits)
next
  case (Some ob)
  with assms(1) obtain b where b: "found = Some b" "address_bytes sp b = k"
    "ob = \<lparr>ro_kappa = k, ro_bytes = b, ro_source = src\<rparr>"
    "saturating_add64 (rs_resolved_bytes c) (sat64 (length b)) \<le> max_resolved_bytes (rs_limits c)"
    "c' = c\<lparr>rs_resolved_bytes := saturating_add64 (rs_resolved_bytes c) (sat64 (length b)),
            rs_objects := map_insert k ob (rs_objects c)\<rparr>"
    by (auto simp: admit_bytes_def Let_def split: option.splits if_splits)
  have exact: "saturating_add64 (rs_resolved_bytes c) (sat64 (length b)) = rs_resolved_bytes c + length b"
    using b(4) assms(3) by (auto simp: saturating_add64_def sat64_def limits_ok_def)
  have "object_ok sp lookup (rs_embedded c) k ob"
    using src b by (auto simp: object_ok_def split: option.splits)
  then show ?thesis using assms(2) b fresh ref exact Some
    by (auto simp: resolver_ok_def resolver_le_def objects_size_insert map_insert_sorted map_insert_fst map_le_def)
qed

lemma lookup_bytes_Inr:
  "lookup_bytes lookup c k = Inr (found, src) \<longleftrightarrow>
     (case rs_embedded c k of Some b \<Rightarrow> found = Some b \<and> src = Embedded
      | None \<Rightarrow> lookup k = Inr found \<and> src = LocalStore)"
  by (cases "rs_embedded c k") (auto simp: lookup_bytes_def bindE_eq_Inr)

lemma resolve_keeps:
  assumes "resolve sp lookup c k e = Inr (c', r)" "resolver_ok sp lookup c" "limits_ok (rs_limits c)"
  shows "resolver_ok sp lookup c' \<and> resolver_le c c' \<and> (\<forall>ob. r = Some ob \<longrightarrow> map_of (rs_objects c') k = Some ob)
     \<and> (r = None \<longrightarrow> rs_blockers c' \<noteq> [])"
proof (cases "map_of (rs_objects c) k \<noteq> None \<or> rs_failures c k \<noteq> None \<or> rs_halted c")
  case True
  have "rs_failures c k \<noteq> None \<Longrightarrow> rs_blockers c \<noteq> []" "rs_halted c \<Longrightarrow> rs_blockers c \<noteq> []"
    using assms(2) unfolding resolver_ok_def by blast+
  with True assms(1,2) show ?thesis by (auto simp: resolve_def split: option.splits)
next
  case False
  then have fresh: "map_of (rs_objects c) k = None" and eq: "resolve sp lookup c k e =
      (case note_reference k e c of Inl h \<Rightarrow> Inr (h, None)
       | Inr c1 \<Rightarrow> bindE (lookup_bytes lookup c1 k) (\<lambda>(found, src). Inr (admit_bytes sp c1 k e found src)))"
    by (auto simp: resolve_def)
  show ?thesis
  proof (cases "note_reference k e c")
    case (Inl h)
    then show ?thesis using note_reference_Inl[OF Inl assms(2)] assms(1) eq by auto
  next
    case (Inr c1)
    note n = note_reference_Inr[OF Inr assms(2,3)]
    from assms(1) eq Inr obtain found src where f: "lookup_bytes lookup c1 k = Inr (found, src)"
      "admit_bytes sp c1 k e found src = (c', r)" by (auto simp: bindE_eq_Inr)
    note src = f(1)[unfolded lookup_bytes_Inr]
    have "resolver_ok sp lookup c' \<and> resolver_le c1 c' \<and> (\<forall>ob. r = Some ob \<longrightarrow> map_of (rs_objects c') k = Some ob)
        \<and> (r = None \<longrightarrow> rs_blockers c' \<noteq> [])"
      by (rule admit_bytes_keeps[OF f(2) n(1) _ _ n(3) src])
        (use n(2,4) assms(3) fresh in \<open>simp_all add: resolver_le_def\<close>)
    then show ?thesis using resolver_le_trans[OF n(2)] by blast
  qed
qed

lemma initial_resolver_ok: "resolver_ok sp lookup (initial_resolver limits embedded)"
  by (simp add: resolver_ok_def initial_resolver_def objects_size_def)

end
