(* ===== verification/Plan_Closure.thy ===== *)
theory Plan_Closure
  imports Plan_Resolver
begin

text \<open>
  The invariant of the planning loop. Every recorded fact is tied to the resolved objects it was read
  from, indices point where they should, and as long as nothing blocked, every application of the tree is
  either still queued or completely planned. Termination of the loop within its fuel.
\<close>

section \<open>What the plan says, in terms of the resolved objects\<close>

type_synonym object_table = "(string \<times> resolved_object) list"

definition manifest_at :: "space \<Rightarrow> object_table \<Rightarrow> string \<Rightarrow> app_manifest \<Rightarrow> bool" where
  "manifest_at sp obs k m \<longleftrightarrow> (\<exists>ob. map_of obs k = Some ob \<and> decode_child_manifest sp ob = Inr m)"

definition caps_at :: "space \<Rightarrow> object_table \<Rightarrow> string \<Rightarrow> capability_object \<Rightarrow> bool" where
  "caps_at sp obs k c \<longleftrightarrow> (\<exists>ob. map_of obs k = Some ob \<and> co_kappa c = k \<and> co_canonical c = ro_bytes ob
     \<and> address_bytes sp (ro_bytes ob) = k \<and> decode_canonical sp (ro_bytes ob) = Inr (co_capabilities c))"

definition contents_at :: "object_table \<Rightarrow> app_manifest \<Rightarrow> bool" where
  "contents_at obs m \<longleftrightarrow> (\<forall>l \<in> set (am_layers m). \<exists>ob. map_of obs (al_content l) = Some ob)"

definition same_layers :: "app_manifest \<Rightarrow> pending_child_admission \<Rightarrow> bool" where
  "same_layers m a \<longleftrightarrow> ca_layers a = planned_layers m \<and> ca_primary_layer a = am_primary m"

definition admission_ok :: "space \<Rightarrow> object_table \<Rightarrow> pending_child_admission \<Rightarrow> bool" where
  "admission_ok sp obs a \<longleftrightarrow> (\<exists>m. manifest_at sp obs (ca_application_kappa a) m
     \<and> caps_at sp obs (co_kappa (ca_delegated a)) (ca_delegated a)
     \<and> (\<forall>r. ca_requested a = Some r \<longrightarrow> caps_at sp obs (am_requires m) r)
     \<and> (same_layers m a \<or> ca_layers a = []))"

text \<open>The children a plan lists under an application, in order.\<close>

definition child_edges :: "pending_child_admission list \<Rightarrow> nat \<Rightarrow> (string \<times> string) list" where
  "child_edges adms n = map (\<lambda>a. (ca_application_kappa a, co_kappa (ca_delegated a)))
     (filter (\<lambda>a. ca_parent_application_index a = n) adms)"

definition admission_closed :: "space \<Rightarrow> object_table \<Rightarrow> pending_child_admission list \<Rightarrow> pending_child_admission \<Rightarrow> bool" where
  "admission_closed sp obs adms a \<longleftrightarrow> (\<exists>m. manifest_at sp obs (ca_application_kappa a) m \<and> ca_requested a \<noteq> None
     \<and> same_layers m a \<and> contents_at obs m \<and> child_edges adms (ca_application_index a) = am_children m)"

definition root_closed :: "plan_input \<Rightarrow> plan_state \<Rightarrow> bool" where
  "root_closed i st \<longleftrightarrow> ps_requested st \<noteq> None \<and> contents_at (rs_objects (ps_closure st)) (pi_root_manifest i)
     \<and> child_edges (ps_admissions st) 0 = am_children (pi_root_manifest i)"

definition admission_key :: "pending_child_admission \<Rightarrow> nat \<times> string" where
  "admission_key a = (ca_application_index a, ca_application_kappa a)"

text \<open>The parent of an admission is the root or was admitted before it.\<close>

definition parent_ok :: "plan_input \<Rightarrow> pending_child_admission list \<Rightarrow> pending_child_admission \<Rightarrow> bool" where
  "parent_ok i earlier a \<longleftrightarrow>
     (ca_parent_application_index a, ca_parent_application_kappa a)
       \<in> insert (0, application_kappa (pi_identity i)) (set (map admission_key earlier))"

definition app_ok ::
  "space \<Rightarrow> plan_limits \<Rightarrow> plan_input \<Rightarrow> object_table \<Rightarrow> pending_child_admission list \<Rightarrow> pending_application \<Rightarrow> bool"
where
  "app_ok sp limits i obs adms app \<longleftrightarrow>
     (if pa_depth app = 0 then app = root_application i
      else manifest_at sp obs (pa_application_kappa app) (pa_manifest app)
        \<and> (\<forall>j. pa_admission_index app = Some j \<longrightarrow>
             j < length adms \<and> admission_key (adms ! j) = (pa_application_index app, pa_application_kappa app)))
     \<and> length (pa_path app) = Suc (pa_depth app) \<and> distinct (pa_path app) \<and> pa_depth app \<le> max_depth limits"

text \<open>Applications that are not completely planned yet are \<open>open\<close>.\<close>

definition complete_inv :: "space \<Rightarrow> plan_input \<Rightarrow> pending_application list \<Rightarrow> plan_state \<Rightarrow> bool" where
  "complete_inv sp i open_apps st \<longleftrightarrow>
     (root_application i \<in> set open_apps \<or> root_closed i st)
     \<and> (\<forall>app \<in> set open_apps. 0 < pa_depth app \<longrightarrow> pa_admission_index app \<noteq> None)
     \<and> (\<forall>j < length (ps_admissions st). (\<exists>app \<in> set open_apps. pa_admission_index app = Some j)
          \<or> admission_closed sp (rs_objects (ps_closure st)) (ps_admissions st) (ps_admissions st ! j))
     \<and> (\<forall>j < length (ps_admissions st). parent_ok i (take j (ps_admissions st)) (ps_admissions st ! j))"

definition counters_ok :: "plan_limits \<Rightarrow> plan_state \<Rightarrow> bool" where
  "counters_ok limits st \<longleftrightarrow> 0 < ps_application_count st \<and> ps_application_count st \<le> max 1 (max_applications limits)
     \<and> ps_max_depth st \<le> max_depth limits"

definition indices_ok :: "plan_state \<Rightarrow> bool" where
  "indices_ok st \<longleftrightarrow> sorted_wrt (<) (map ca_application_index (ps_admissions st))
     \<and> (\<forall>a \<in> set (ps_admissions st). ca_parent_application_index a < ca_application_index a
          \<and> ca_application_index a < ps_application_count st)
     \<and> distinct (map pa_application_index (ps_pending st))
     \<and> (\<forall>app \<in> set (ps_pending st). pa_application_index app < ps_application_count st
          \<and> (\<forall>a \<in> set (ps_admissions st). ca_parent_application_index a \<noteq> pa_application_index app))"

definition plan_inv ::
  "space \<Rightarrow> local_lookup \<Rightarrow> plan_limits \<Rightarrow> plan_input \<Rightarrow> pending_application list \<Rightarrow> plan_state \<Rightarrow> bool"
where
  "plan_inv sp lookup limits i open_apps st \<longleftrightarrow>
     resolver_ok sp lookup (ps_closure st) \<and> rs_limits (ps_closure st) = limits \<and> rs_embedded (ps_closure st) = pi_embedded i
     \<and> counters_ok limits st \<and> indices_ok st
     \<and> (\<forall>app \<in> set (ps_pending st). app_ok sp limits i (rs_objects (ps_closure st)) (ps_admissions st) app)
     \<and> (\<forall>a \<in> set (ps_admissions st). admission_ok sp (rs_objects (ps_closure st)) a)
     \<and> (\<forall>r. ps_requested st = Some r \<longrightarrow> caps_at sp (rs_objects (ps_closure st)) (am_requires (pi_root_manifest i)) r)
     \<and> (ps_applications_limited st \<longrightarrow> rs_blockers (ps_closure st) \<noteq> [])
     \<and> (rs_blockers (ps_closure st) = [] \<longrightarrow> complete_inv sp i open_apps st)"

subsection \<open>More objects change nothing\<close>

lemma manifest_at_mono: "manifest_at sp obs k m \<Longrightarrow> map_of obs \<subseteq>\<^sub>m map_of obs' \<Longrightarrow> manifest_at sp obs' k m"
  by (fastforce simp: manifest_at_def map_le_def dom_def)

lemma caps_at_mono: "caps_at sp obs k c \<Longrightarrow> map_of obs \<subseteq>\<^sub>m map_of obs' \<Longrightarrow> caps_at sp obs' k c"
  by (fastforce simp: caps_at_def map_le_def dom_def)

lemma contents_at_mono: "contents_at obs m \<Longrightarrow> map_of obs \<subseteq>\<^sub>m map_of obs' \<Longrightarrow> contents_at obs' m"
  unfolding contents_at_def map_le_def dom_def by (metis (mono_tags, lifting) mem_Collect_eq option.distinct(1))

lemma manifest_at_unique: "manifest_at sp obs k m \<Longrightarrow> manifest_at sp obs k m' \<Longrightarrow> m = m'"
  by (auto simp: manifest_at_def)

lemmas at_mono = manifest_at_mono caps_at_mono contents_at_mono

lemma admission_ok_mono: "admission_ok sp obs a \<Longrightarrow> map_of obs \<subseteq>\<^sub>m map_of obs' \<Longrightarrow> admission_ok sp obs' a"
  unfolding admission_ok_def by (meson at_mono)

lemma admission_closed_mono:
  "admission_closed sp obs adms a \<Longrightarrow> map_of obs \<subseteq>\<^sub>m map_of obs' \<Longrightarrow> admission_closed sp obs' adms a"
  unfolding admission_closed_def by (meson at_mono)

text \<open>Queued applications stay valid while objects are added, admissions appended and admissions
  updated in place without touching their key.\<close>

lemma app_ok_mono:
  assumes "app_ok sp limits i obs adms app" "map_of obs \<subseteq>\<^sub>m map_of obs'"
    "prefix (map admission_key adms) (map admission_key adms')"
  shows "app_ok sp limits i obs' adms' app"
proof -
  from assms(3) obtain ks where ks: "map admission_key adms' = map admission_key adms @ ks" by (auto simp: prefix_def)
  then have "length adms \<le> length adms'" by (metis length_append length_map le_add1)
  moreover have "admission_key (adms' ! j) = admission_key (adms ! j)" if "j < length adms" for j
    using ks that calculation by (metis length_map nth_append nth_map order_less_le_trans)
  ultimately show ?thesis using assms(1) manifest_at_mono[OF _ assms(2)] unfolding app_ok_def by auto
qed

section \<open>Steps that only touch the closure and the child references\<close>

definition quiet :: "space \<Rightarrow> local_lookup \<Rightarrow> plan_state \<Rightarrow> plan_state \<Rightarrow> bool" where
  "quiet sp lookup st st' \<longleftrightarrow> ps_pending st' = ps_pending st \<and> ps_admissions st' = ps_admissions st
     \<and> ps_requested st' = ps_requested st \<and> ps_application_count st' = ps_application_count st
     \<and> ps_max_depth st' = ps_max_depth st \<and> ps_applications_limited st' = ps_applications_limited st
     \<and> resolver_le (ps_closure st) (ps_closure st')
     \<and> (resolver_ok sp lookup (ps_closure st) \<longrightarrow> limits_ok (rs_limits (ps_closure st)) \<longrightarrow> resolver_ok sp lookup (ps_closure st'))"

lemma quiet_refl [simp]: "quiet sp lookup st st"
  by (simp add: quiet_def)

lemma quiet_trans [trans]: "quiet sp lookup a b \<Longrightarrow> quiet sp lookup b c \<Longrightarrow> quiet sp lookup a c"
  unfolding quiet_def by (metis resolver_le_trans resolver_le_limits)

lemma quiet_block: "quiet sp lookup st (block b st)"
  by (auto simp: quiet_def block_def)

lemma quiet_update_child: "quiet sp lookup st (update_child j f st)"
  by (simp add: quiet_def update_child_def)

lemma quiet_resolve_in:
  assumes "resolve_in sp lookup st k e = Inr (st', r)" "resolver_ok sp lookup (ps_closure st)"
    "limits_ok (rs_limits (ps_closure st))"
  shows "quiet sp lookup st st'" "r = Some ob \<Longrightarrow> map_of (rs_objects (ps_closure st')) k = Some ob"
    "r = None \<Longrightarrow> rs_blockers (ps_closure st') \<noteq> []"
proof -
  from assms(1) obtain c where c: "resolve sp lookup (ps_closure st) k e = Inr (c, r)" "st' = st\<lparr>ps_closure := c\<rparr>"
    by (auto simp: resolve_in_def bindE_eq_Inr)
  from resolve_keeps[OF c(1) assms(2,3)] c(2)
  show "quiet sp lookup st st'" "r = Some ob \<Longrightarrow> map_of (rs_objects (ps_closure st')) k = Some ob"
    "r = None \<Longrightarrow> rs_blockers (ps_closure st') \<noteq> []" by (simp_all add: quiet_def)
qed

lemma complete_inv_quiet:
  assumes "complete_inv sp i open_apps st" "quiet sp lookup st st'"
  shows "complete_inv sp i open_apps st'"
proof -
  have le: "map_of (rs_objects (ps_closure st)) \<subseteq>\<^sub>m map_of (rs_objects (ps_closure st'))"
    using assms(2) by (simp add: quiet_def resolver_le_def)
  have "root_closed i st \<Longrightarrow> root_closed i st'"
    using assms(2) contents_at_mono[OF _ le] by (auto simp: root_closed_def quiet_def)
  then show ?thesis using assms admission_closed_mono[OF _ le]
    unfolding complete_inv_def quiet_def by metis
qed

lemma plan_inv_quiet:
  assumes inv: "plan_inv sp lookup limits i open_apps st" and q: "quiet sp lookup st st'" and l: "limits_ok limits"
  shows "plan_inv sp lookup limits i open_apps st'"
proof -
  have le: "map_of (rs_objects (ps_closure st)) \<subseteq>\<^sub>m map_of (rs_objects (ps_closure st'))"
    using q by (simp add: quiet_def resolver_le_def)
  note same = q[unfolded quiet_def]
  have c: "rs_limits (ps_closure st') = limits" "rs_embedded (ps_closure st') = pi_embedded i"
    "rs_blockers (ps_closure st') = [] \<Longrightarrow> rs_blockers (ps_closure st) = []"
    using same inv by (auto simp: plan_inv_def resolver_le_def)
  have "resolver_ok sp lookup (ps_closure st')" using same inv l by (simp add: plan_inv_def)
  moreover have "counters_ok limits st'" "indices_ok st'" using same inv by (simp_all add: plan_inv_def counters_ok_def indices_ok_def)
  moreover have "\<forall>app \<in> set (ps_pending st'). app_ok sp limits i (rs_objects (ps_closure st')) (ps_admissions st') app"
    using same inv app_ok_mono[OF _ le prefix_order.refl] by (simp add: plan_inv_def)
  moreover have "\<forall>a \<in> set (ps_admissions st'). admission_ok sp (rs_objects (ps_closure st')) a"
    using same inv admission_ok_mono[OF _ le] by (simp add: plan_inv_def)
  moreover have "\<forall>r. ps_requested st' = Some r \<longrightarrow> caps_at sp (rs_objects (ps_closure st')) (am_requires (pi_root_manifest i)) r"
    using same inv caps_at_mono[OF _ le] by (simp add: plan_inv_def)
  moreover have "ps_applications_limited st' \<Longrightarrow> rs_blockers (ps_closure st') \<noteq> []"
    "rs_blockers (ps_closure st') = [] \<Longrightarrow> complete_inv sp i open_apps st'"
    using same inv c(3) complete_inv_quiet[OF _ q] by (auto simp: plan_inv_def)
  ultimately show ?thesis using c(1,2) unfolding plan_inv_def by blast
qed

section \<open>Updating an admission in place\<close>

definition same_edges :: "pending_child_admission \<Rightarrow> pending_child_admission \<Rightarrow> bool" where
  "same_edges a b \<longleftrightarrow> admission_key b = admission_key a \<and> ca_delegated b = ca_delegated a
     \<and> ca_parent_application_index b = ca_parent_application_index a
     \<and> ca_parent_application_kappa b = ca_parent_application_kappa a"

lemma same_edges_key: "same_edges a b \<Longrightarrow> ca_application_index b = ca_application_index a \<and> ca_application_kappa b = ca_application_kappa a"
  by (simp add: same_edges_def admission_key_def)

lemma map_update_same: "g b = g (xs ! j) \<Longrightarrow> map g (xs[j := b]) = map g xs"
  by (simp add: map_update) (metis list_update_beyond list_update_id not_le nth_map length_map)

lemma child_edges_update:
  assumes "same_edges (adms ! j) b"
  shows "child_edges (adms[j := b]) n = child_edges adms n"
proof -
  let ?e = "\<lambda>a. (ca_parent_application_index a, ca_application_kappa a, co_kappa (ca_delegated a))"
  have "child_edges xs n = map snd (filter (\<lambda>(p, _). p = n) (map ?e xs))" for xs
    by (simp add: child_edges_def filter_map comp_def)
  moreover have "map ?e (adms[j := b]) = map ?e adms"
    by (rule map_update_same) (use assms same_edges_key[OF assms] in \<open>simp add: same_edges_def\<close>)
  ultimately show ?thesis by simp
qed

lemma admission_closed_update:
  "same_edges (adms ! j) b \<Longrightarrow> admission_closed sp obs (adms[j := b]) a \<longleftrightarrow> admission_closed sp obs adms a"
  by (simp add: admission_closed_def child_edges_update)

lemma parent_ok_update:
  assumes "same_edges (adms ! j) b" "k < length adms" "parent_ok i (take k adms) (adms ! k)"
  shows "parent_ok i (take k (adms[j := b])) (adms[j := b] ! k)"
proof -
  have "map admission_key (adms[j := b]) = map admission_key adms"
    by (rule map_update_same) (use assms(1) in \<open>simp add: same_edges_def\<close>)
  then have "map admission_key (take k (adms[j := b])) = map admission_key (take k adms)" by (simp add: take_map[symmetric])
  then show ?thesis using assms by (cases "k = j") (auto simp: parent_ok_def same_edges_def)
qed

lemma update_admission_simps [simp]:
  "ps_closure (update_admission j f st) = ps_closure st" "ps_pending (update_admission j f st) = ps_pending st"
  "ps_requested (update_admission j f st) = ps_requested st"
  "ps_application_count (update_admission j f st) = ps_application_count st"
  "ps_max_depth (update_admission j f st) = ps_max_depth st"
  "ps_applications_limited (update_admission j f st) = ps_applications_limited st"
  "ps_admissions (update_admission j f st) = (ps_admissions st)[j := f (ps_admissions st ! j)]"
  by (simp_all add: update_admission_def)

lemma indices_ok_update:
  assumes "indices_ok st" "same_edges (ps_admissions st ! j) b" "j < length (ps_admissions st)"
    "ps_admissions st' = (ps_admissions st)[j := b]" "ps_pending st' = ps_pending st"
    "ps_application_count st' = ps_application_count st"
  shows "indices_ok st'"
proof -
  let ?e = "\<lambda>a. (ca_application_index a, ca_parent_application_index a)"
  have m: "map ?e (ps_admissions st') = map ?e (ps_admissions st)" unfolding assms(4)
    by (rule map_update_same) (use assms(2) same_edges_key[OF assms(2)] in \<open>simp add: same_edges_def\<close>)
  have "map ca_application_index (ps_admissions st') = map fst (map ?e (ps_admissions st'))" by simp
  then have "map ca_application_index (ps_admissions st') = map ca_application_index (ps_admissions st)" unfolding m by simp
  moreover have "\<exists>a \<in> set (ps_admissions st). ?e a = ?e a'" if "a' \<in> set (ps_admissions st')" for a'
    using arg_cong[OF m, of set] that by (metis (mono_tags, lifting) image_eqI image_iff set_map)
  ultimately show ?thesis using assms(1,5,6) unfolding indices_ok_def by (metis prod.inject)
qed

lemma plan_inv_update_admission:
  assumes inv: "plan_inv sp lookup limits i open_apps st" and j: "j < length (ps_admissions st)"
    and keep: "same_edges (ps_admissions st ! j) (f (ps_admissions st ! j))"
    and ok: "admission_ok sp (rs_objects (ps_closure st)) (f (ps_admissions st ! j))"
    and op: "\<exists>app \<in> set open_apps. pa_admission_index app = Some j"
  shows "plan_inv sp lookup limits i open_apps (update_admission j f st)"
proof -
  let ?st = "update_admission j f st" and ?b = "f (ps_admissions st ! j)"
  have key: "map admission_key (ps_admissions ?st) = map admission_key (ps_admissions st)"
    using map_update_same[of admission_key ?b "ps_admissions st" j] keep by (simp add: same_edges_def)
  have "indices_ok ?st" by (rule indices_ok_update[OF _ keep j]) (use inv in \<open>simp_all add: plan_inv_def\<close>)
  moreover have "counters_ok limits ?st" using inv by (simp add: plan_inv_def counters_ok_def)
  moreover have "\<forall>app \<in> set (ps_pending ?st). app_ok sp limits i (rs_objects (ps_closure ?st)) (ps_admissions ?st) app"
    using inv app_ok_mono[of sp limits i "rs_objects (ps_closure st)" "ps_admissions st" _ "rs_objects (ps_closure ?st)" "ps_admissions ?st"] key
    by (simp add: plan_inv_def)
  moreover have "\<forall>a \<in> set (ps_admissions ?st). admission_ok sp (rs_objects (ps_closure ?st)) a"
    using inv ok by (auto simp: plan_inv_def dest!: set_update_subset_insert[THEN subsetD])
  moreover have "complete_inv sp i open_apps ?st" if c: "complete_inv sp i open_apps st"
  proof -
    have "root_closed i st \<Longrightarrow> root_closed i ?st" by (simp add: root_closed_def child_edges_update[OF keep])
    moreover have "admission_closed sp (rs_objects (ps_closure ?st)) (ps_admissions ?st) (ps_admissions ?st ! k)"
      if "admission_closed sp (rs_objects (ps_closure st)) (ps_admissions st) (ps_admissions st ! k)" "k \<noteq> j" for k
      using that by (simp add: admission_closed_update[OF keep])
    moreover have "parent_ok i (take k (ps_admissions ?st)) (ps_admissions ?st ! k)" if "k < length (ps_admissions st)" for k
      using parent_ok_update[OF keep that] c that by (simp add: complete_inv_def)
    ultimately show ?thesis using c op unfolding complete_inv_def by (metis length_list_update update_admission_simps(7))
  qed
  ultimately show ?thesis using inv unfolding plan_inv_def by simp
qed

section \<open>One application\<close>

text \<open>The application being planned, beside the queue.\<close>

definition current_ok :: "space \<Rightarrow> plan_limits \<Rightarrow> plan_input \<Rightarrow> pending_application \<Rightarrow> plan_state \<Rightarrow> bool" where
  "current_ok sp limits i app st \<longleftrightarrow>
     app_ok sp limits i (rs_objects (ps_closure st)) (ps_admissions st) app
     \<and> pa_application_index app < ps_application_count st \<and> pa_application_index app \<notin> pa_application_index ` set (ps_pending st)"

text \<open>What has been read of it so far.\<close>

definition layers_taken :: "pending_application \<Rightarrow> plan_state \<Rightarrow> bool" where
  "layers_taken app st \<longleftrightarrow> (\<forall>j. pa_admission_index app = Some j \<longrightarrow> same_layers (pa_manifest app) (ps_admissions st ! j))"

definition requested_taken :: "pending_application \<Rightarrow> plan_state \<Rightarrow> bool" where
  "requested_taken app st \<longleftrightarrow> (if pa_depth app = 0 then ps_requested st \<noteq> None
     else \<exists>j. pa_admission_index app = Some j \<and> ca_requested (ps_admissions st ! j) \<noteq> None)"

lemma current_ok_quiet: "current_ok sp limits i app st \<Longrightarrow> quiet sp lookup st st' \<Longrightarrow> current_ok sp limits i app st'"
  unfolding current_ok_def quiet_def by (auto simp: resolver_le_def intro: app_ok_mono)

lemma taken_quiet:
  "quiet sp lookup st st' \<Longrightarrow> layers_taken app st' = layers_taken app st"
  "quiet sp lookup st st' \<Longrightarrow> requested_taken app st' = requested_taken app st"
  by (simp_all add: quiet_def layers_taken_def requested_taken_def)

lemma current_ok_update:
  assumes "current_ok sp limits i app st" "same_edges (ps_admissions st ! j) (f (ps_admissions st ! j))"
  shows "current_ok sp limits i app (update_admission j f st)"
proof -
  have "map admission_key ((ps_admissions st)[j := f (ps_admissions st ! j)]) = map admission_key (ps_admissions st)"
    by (rule map_update_same) (use assms(2) in \<open>simp add: same_edges_def\<close>)
  then show ?thesis using assms(1) unfolding current_ok_def by (auto intro: app_ok_mono)
qed

lemma current_admission:
  assumes "current_ok sp limits i app st" "pa_admission_index app = Some j"
  shows "0 < pa_depth app" "j < length (ps_admissions st)"
    "admission_key (ps_admissions st ! j) = (pa_application_index app, pa_application_kappa app)"
    "manifest_at sp (rs_objects (ps_closure st)) (pa_application_kappa app) (pa_manifest app)"
proof -
  have "pa_depth app \<noteq> 0"
  proof
    assume "pa_depth app = 0"
    then have "app = root_application i" using assms(1) by (simp add: current_ok_def app_ok_def)
    then show False using assms(2) by (simp add: root_application_def)
  qed
  then show "0 < pa_depth app" "j < length (ps_admissions st)"
    "admission_key (ps_admissions st ! j) = (pa_application_index app, pa_application_kappa app)"
    "manifest_at sp (rs_objects (ps_closure st)) (pa_application_kappa app) (pa_manifest app)"
    using assms by (simp_all add: current_ok_def app_ok_def)
qed

lemma current_root: "current_ok sp limits i app st \<Longrightarrow> pa_depth app = 0 \<Longrightarrow> app = root_application i"
  by (simp add: current_ok_def app_ok_def)

lemma current_admission_ok:
  assumes "plan_inv sp lookup limits i open_apps st" "current_ok sp limits i app st" "pa_admission_index app = Some j"
  shows "caps_at sp (rs_objects (ps_closure st)) (co_kappa (ca_delegated (ps_admissions st ! j))) (ca_delegated (ps_admissions st ! j))"
    "ca_requested (ps_admissions st ! j) = Some r \<Longrightarrow> caps_at sp (rs_objects (ps_closure st)) (am_requires (pa_manifest app)) r"
    "same_layers (pa_manifest app) (ps_admissions st ! j) \<or> ca_layers (ps_admissions st ! j) = []"
proof -
  note c = current_admission[OF assms(2,3)]
  have "admission_ok sp (rs_objects (ps_closure st)) (ps_admissions st ! j)" using assms(1) c(2) by (simp add: plan_inv_def)
  moreover have "ca_application_kappa (ps_admissions st ! j) = pa_application_kappa app" using c(3) by (simp add: admission_key_def)
  ultimately show "caps_at sp (rs_objects (ps_closure st)) (co_kappa (ca_delegated (ps_admissions st ! j))) (ca_delegated (ps_admissions st ! j))"
    "ca_requested (ps_admissions st ! j) = Some r \<Longrightarrow> caps_at sp (rs_objects (ps_closure st)) (am_requires (pa_manifest app)) r"
    "same_layers (pa_manifest app) (ps_admissions st ! j) \<or> ca_layers (ps_admissions st ! j) = []"
    using c(4) by (auto simp: admission_ok_def dest: manifest_at_unique)
qed

lemma admit_layers_inv:
  assumes inv: "plan_inv sp lookup limits i (app # rest) st" and cur: "current_ok sp limits i app st"
  shows "plan_inv sp lookup limits i (app # rest) (admit_layers app st)"
    "current_ok sp limits i app (admit_layers app st)" "layers_taken app (admit_layers app st)"
proof -
  let ?f = "\<lambda>a. a\<lparr>ca_primary_layer := am_primary (pa_manifest app), ca_layers := planned_layers (pa_manifest app)\<rparr>"
  have "plan_inv sp lookup limits i (app # rest) (admit_layers app st) \<and> current_ok sp limits i app (admit_layers app st)
      \<and> layers_taken app (admit_layers app st)"
  proof (cases "pa_admission_index app")
    case None
    then show ?thesis using inv cur by (simp add: admit_layers_def layers_taken_def)
  next
    case (Some j)
    note c = current_admission[OF cur Some]
    have same: "same_edges (ps_admissions st ! j) (?f (ps_admissions st ! j))" by (simp add: same_edges_def admission_key_def)
    have "admission_ok sp (rs_objects (ps_closure st)) (?f (ps_admissions st ! j))"
      using current_admission_ok[OF inv cur Some] c(3,4)
      by (auto simp: admission_ok_def admission_key_def same_layers_def intro!: exI[of _ "pa_manifest app"])
    from plan_inv_update_admission[where f = ?f, OF inv c(2) same this] current_ok_update[where f = ?f, OF cur same] Some c(2)
    show ?thesis by (simp add: admit_layers_def layers_taken_def same_layers_def)
  qed
  then show "plan_inv sp lookup limits i (app # rest) (admit_layers app st)"
    "current_ok sp limits i app (admit_layers app st)" "layers_taken app (admit_layers app st)" by simp_all
qed

lemma requested_decode_Inr:
  "map_of obs k = Some ob \<Longrightarrow> ro_kappa ob = k \<Longrightarrow> requested_decode sp (ro_kappa ob) (ro_bytes ob) = Inr c \<Longrightarrow> caps_at sp obs k c"
  by (auto simp: requested_decode_def decode_capability_object_def caps_at_def bindE_eq_Inr split: if_splits)

lemma delegated_decode_Inr:
  "map_of obs k = Some ob \<Longrightarrow> ro_kappa ob = k \<Longrightarrow> delegated_decode sp (ro_kappa ob) (ro_bytes ob) = Inr c \<Longrightarrow> caps_at sp obs k c"
  by (auto simp: delegated_decode_def decode_capability_object_def caps_at_def bindE_eq_Inr split: if_splits)

lemma plan_inv_object: "plan_inv sp lookup limits i open_apps st \<Longrightarrow> map_of (rs_objects (ps_closure st)) k = Some ob
    \<Longrightarrow> object_ok sp lookup (pi_embedded i) k ob"
  by (auto simp: plan_inv_def resolver_ok_def)

lemma take_requested_inv:
  assumes inv: "plan_inv sp lookup limits i (app # rest) st" and l: "limits_ok limits" and cur: "current_ok sp limits i app st"
    and ob: "map_of (rs_objects (ps_closure st)) (am_requires (pa_manifest app)) = Some ob"
  shows "plan_inv sp lookup limits i (app # rest) (take_requested sp app ob st) \<and> current_ok sp limits i app (take_requested sp app ob st)
    \<and> (layers_taken app st \<longrightarrow> layers_taken app (take_requested sp app ob st))
    \<and> (rs_blockers (ps_closure (take_requested sp app ob st)) = [] \<longrightarrow> requested_taken app (take_requested sp app ob st))
    \<and> resolver_le (ps_closure st) (ps_closure (take_requested sp app ob st))"
proof (cases "requested_decode sp (ro_kappa ob) (ro_bytes ob)")
  case (Inl e)
  let ?b = "block (InvalidCapabilitySet (ro_kappa ob) (error_message e)) st"
  have q: "quiet sp lookup st ?b" by (rule quiet_block)
  from Inl plan_inv_quiet[OF inv q l] current_ok_quiet[OF cur q] taken_quiet(1)[OF q] q show ?thesis
    by (simp add: take_requested_def quiet_def) (simp add: block_def)
next
  case (Inr c)
  have k: "ro_kappa ob = am_requires (pa_manifest app)" using plan_inv_object[OF inv ob] by (simp add: object_ok_def)
  have caps: "caps_at sp (rs_objects (ps_closure st)) (am_requires (pa_manifest app)) c"
    by (rule requested_decode_Inr[OF ob k Inr])
  show ?thesis
  proof (cases "pa_depth app = 0")
    case True
    then have root: "app = root_application i" by (rule current_root[OF cur])
    let ?st = "st\<lparr>ps_requested := Some c\<rparr>"
    have "complete_inv sp i (app # rest) st \<Longrightarrow> complete_inv sp i (app # rest) ?st"
      using root by (simp add: complete_inv_def)
    moreover have "current_ok sp limits i app ?st" using cur by (simp add: current_ok_def)
    ultimately have "plan_inv sp lookup limits i (app # rest) ?st" "current_ok sp limits i app ?st" "requested_taken app ?st"
      "layers_taken app st \<Longrightarrow> layers_taken app ?st"
      using inv caps root True
      by (simp_all add: plan_inv_def root_application_def counters_ok_def indices_ok_def requested_taken_def layers_taken_def)
    then show ?thesis using Inr True by (simp add: take_requested_def)
  next
    case False
    show ?thesis
    proof (cases "pa_admission_index app")
      case None
      then have "rs_blockers (ps_closure st) \<noteq> []" using inv False by (auto simp: plan_inv_def complete_inv_def)
      then show ?thesis using None inv cur False Inr by (simp add: take_requested_def)
    next
      case (Some j)
      let ?f = "\<lambda>a. a\<lparr>ca_requested := Some c\<rparr>"
      note ca = current_admission[OF cur Some]
      have same: "same_edges (ps_admissions st ! j) (?f (ps_admissions st ! j))" by (simp add: same_edges_def admission_key_def)
      have "admission_ok sp (rs_objects (ps_closure st)) (?f (ps_admissions st ! j))"
        using current_admission_ok[OF inv cur Some] ca(3,4) caps
        by (auto simp: admission_ok_def admission_key_def same_layers_def intro!: exI[of _ "pa_manifest app"])
      from plan_inv_update_admission[where f = ?f, OF inv ca(2) same this] current_ok_update[where f = ?f, OF cur same] Some ca(2)
      show ?thesis using Inr False by (simp add: take_requested_def layers_taken_def requested_taken_def same_layers_def)
    qed
  qed
qed

lemma plan_inv_resolver:
  "plan_inv sp lookup limits i open_apps st \<Longrightarrow> limits_ok limits \<Longrightarrow>
     resolver_ok sp lookup (ps_closure st) \<and> limits_ok (rs_limits (ps_closure st))"
  by (simp add: plan_inv_def)

lemma plan_requires_inv:
  assumes run: "plan_requires sp lookup app st = Inr st'" and inv: "plan_inv sp lookup limits i (app # rest) st"
    and l: "limits_ok limits" and cur: "current_ok sp limits i app st" and lt: "layers_taken app st"
  shows "plan_inv sp lookup limits i (app # rest) st' \<and> current_ok sp limits i app st' \<and> layers_taken app st'
    \<and> (rs_blockers (ps_closure st') = [] \<longrightarrow> requested_taken app st')"
proof -
  from run obtain e st1 r where r: "resolve_in sp lookup st (am_requires (pa_manifest app)) e = Inr (st1, r)"
    "st' = (case r of None \<Rightarrow> st1 | Some ob \<Rightarrow> take_requested sp app ob st1)"
    by (auto simp: plan_requires_def Let_def bindE_eq_Inr)
  note q = quiet_resolve_in[OF r(1) plan_inv_resolver[OF inv l, THEN conjunct1] plan_inv_resolver[OF inv l, THEN conjunct2]]
  note inv1 = plan_inv_quiet[OF inv q(1) l] and cur1 = current_ok_quiet[OF cur q(1)]
  have lt1: "layers_taken app st1" using lt taken_quiet(1)[OF q(1)] by simp
  show ?thesis
  proof (cases r)
    case None
    then show ?thesis using r(2) q(3) inv1 cur1 lt1 by simp
  next
    case (Some ob)
    then show ?thesis using r(2) take_requested_inv[OF inv1 l cur1 q(2)[OF Some]] lt1 by simp
  qed
qed

lemma plan_layer_contents_quiet:
  assumes "plan_layer_contents sp lookup app p ls st = Inr st'" "resolver_ok sp lookup (ps_closure st)"
    "limits_ok (rs_limits (ps_closure st))"
  shows "quiet sp lookup st st' \<and> (rs_blockers (ps_closure st') = [] \<longrightarrow>
     (\<forall>l \<in> set ls. \<exists>ob. map_of (rs_objects (ps_closure st')) (al_content l) = Some ob))"
  using assms
proof (induction ls arbitrary: p st)
  case (Cons l ls)
  from Cons.prems(1) obtain st1 r where r: "resolve_in sp lookup st (al_content l) (layer_edge app p) = Inr (st1, r)"
    "plan_layer_contents sp lookup app (Suc p) ls st1 = Inr st'" by (auto simp: bindE_eq_Inr)
  note q = quiet_resolve_in[OF r(1) Cons.prems(2,3)]
  have "limits_ok (rs_limits (ps_closure st1))" "resolver_ok sp lookup (ps_closure st1)"
    using q(1) Cons.prems(2,3) resolver_le_limits[of "ps_closure st" "ps_closure st1"] by (simp_all add: quiet_def)
  note IH = Cons.IH[OF r(2) this(2,1)]
  have le: "resolver_le (ps_closure st1) (ps_closure st')" using IH by (simp add: quiet_def)
  have "\<exists>ob. map_of (rs_objects (ps_closure st')) (al_content l) = Some ob" if "rs_blockers (ps_closure st') = []"
    using q(2,3) resolver_le_blockers[OF le that] resolver_le_object[OF le] by (cases r) auto
  then show ?case using IH quiet_trans[OF q(1)] by auto
qed simp

lemma plan_contents_inv:
  assumes run: "plan_layer_contents sp lookup app 0 (am_layers (pa_manifest app)) st = Inr st'"
    and inv: "plan_inv sp lookup limits i (app # rest) st" and l: "limits_ok limits" and cur: "current_ok sp limits i app st"
  shows "plan_inv sp lookup limits i (app # rest) st' \<and> current_ok sp limits i app st' \<and> quiet sp lookup st st'
    \<and> (rs_blockers (ps_closure st') = [] \<longrightarrow> contents_at (rs_objects (ps_closure st')) (pa_manifest app))"
proof -
  note q = plan_layer_contents_quiet[OF run plan_inv_resolver[OF inv l, THEN conjunct1] plan_inv_resolver[OF inv l, THEN conjunct2]]
  show ?thesis using q plan_inv_quiet[OF inv q[THEN conjunct1] l] current_ok_quiet[OF cur q[THEN conjunct1]]
    by (simp add: contents_at_def)
qed

section \<open>One child\<close>

text \<open>What the children loop keeps about the application it works for.\<close>

definition app_taken :: "space \<Rightarrow> pending_application \<Rightarrow> plan_state \<Rightarrow> bool" where
  "app_taken sp app st \<longleftrightarrow> layers_taken app st \<and> requested_taken app st
     \<and> contents_at (rs_objects (ps_closure st)) (pa_manifest app)"

lemma app_taken_quiet: "app_taken sp app st \<Longrightarrow> quiet sp lookup st st' \<Longrightarrow> app_taken sp app st'"
  using taken_quiet[of sp lookup st st' app] contents_at_mono[of "rs_objects (ps_closure st)" "pa_manifest app"]
  by (simp add: app_taken_def) (simp add: quiet_def resolver_le_def)

lemma child_edges_append: "child_edges (xs @ ys) n = child_edges xs n @ child_edges ys n"
  by (simp add: child_edges_def)

text \<open>Appending an admission for a child of \<open>app\<close> and queueing the child.\<close>

lemma enqueue_child_simps [simp]:
  "ps_closure (enqueue_child app p n ob m d st) = ps_closure st"
  "ps_requested (enqueue_child app p n ob m d st) = ps_requested st"
  "ps_application_count (enqueue_child app p n ob m d st) = ps_application_count st"
  "ps_max_depth (enqueue_child app p n ob m d st) = ps_max_depth st"
  "ps_applications_limited (enqueue_child app p n ob m d st) = ps_applications_limited st"
  "ps_admissions (enqueue_child app p n ob m d st) =
     ps_admissions st @ map (child_admission app p n ob) (case d of None \<Rightarrow> [] | Some c \<Rightarrow> [c])"
  "ps_pending (enqueue_child app p n ob m d st) =
     ps_pending st @ [child_application app n (map_option (\<lambda>_. length (ps_admissions st)) d) ob m]"
  by (simp_all add: enqueue_child_def split: option.splits)

text \<open>What is known of a child when it is queued.\<close>

definition child_ready ::
  "space \<Rightarrow> plan_limits \<Rightarrow> pending_application \<Rightarrow> nat \<Rightarrow> resolved_object \<Rightarrow> app_manifest \<Rightarrow> capability_object option \<Rightarrow> plan_state \<Rightarrow> bool"
where
  "child_ready sp limits app n ob m d st \<longleftrightarrow>
     map_of (rs_objects (ps_closure st)) (ro_kappa ob) = Some ob \<and> decode_child_manifest sp ob = Inr m
     \<and> ro_kappa ob \<notin> set (pa_path app) \<and> Suc (pa_depth app) \<le> max_depth limits
     \<and> (\<forall>c. d = Some c \<longrightarrow> caps_at sp (rs_objects (ps_closure st)) (co_kappa c) c)
     \<and> n < ps_application_count st \<and> pa_application_index app < n
     \<and> (\<forall>a \<in> set (ps_admissions st). ca_application_index a < n)
     \<and> (\<forall>p \<in> set (ps_pending st). pa_application_index p < n)
     \<and> (d = None \<longrightarrow> rs_blockers (ps_closure st) \<noteq> [])"

lemma child_application_ok:
  assumes "child_ready sp limits app n ob m d st" "limits_ok limits" "current_ok sp limits i app st"
  shows "app_ok sp limits i (rs_objects (ps_closure st)) (ps_admissions (enqueue_child app p n ob m d st))
     (child_application app n (map_option (\<lambda>_. length (ps_admissions st)) d) ob m)"
proof -
  have "saturating_add64 (pa_depth app) 1 = Suc (pa_depth app)"
    using assms(1,2) by (auto simp: child_ready_def limits_ok_def saturating_add64_def)
  then show ?thesis using assms
    by (cases d) (auto simp: app_ok_def child_application_def child_ready_def current_ok_def manifest_at_def
        child_admission_def admission_key_def nth_append)
qed

lemma child_admission_ok:
  "child_ready sp limits app n ob m (Some c) st \<Longrightarrow> admission_ok sp (rs_objects (ps_closure st)) (child_admission app p n ob c)"
  by (auto simp: child_ready_def admission_ok_def child_admission_def manifest_at_def)

lemma enqueue_child_indices:
  assumes "indices_ok st" "child_ready sp limits app n ob m d st" "current_ok sp limits i app st"
  shows "indices_ok (enqueue_child app p n ob m d st)"
proof -
  have old: "ca_parent_application_index a < n" if "a \<in> set (ps_admissions st)" for a
    using assms(1,2) that by (fastforce simp: indices_ok_def child_ready_def)
  have cur: "\<forall>q \<in> set (ps_pending st). pa_application_index app \<noteq> pa_application_index q"
    using assms(3) by (auto simp: current_ok_def)
  show ?thesis using assms(1,2) old cur
    by (cases d) (auto simp: indices_ok_def child_ready_def child_admission_def child_application_def sorted_wrt_append
        dest: less_imp_neq)
qed

lemma enqueue_child_complete:
  assumes inv: "plan_inv sp lookup limits i (app # ps_pending st) st" and cur: "current_ok sp limits i app st"
    and c: "complete_inv sp i (app # ps_pending st) st" and ready: "child_ready sp limits app n ob m (Some c') st"
    and st': "st' = enqueue_child app p n ob m (Some c') st"
  shows "complete_inv sp i (app # ps_pending st') st'"
proof -
  let ?a = "child_admission app p n ob c'" and ?adms = "ps_admissions st"
  have adms: "ps_admissions st' = ?adms @ [?a]" by (simp add: st')
  have pend: "set (ps_pending st) \<subseteq> set (ps_pending st')" by (auto simp: st')
  have edges: "child_edges (ps_admissions st') k = child_edges ?adms k" if "k \<noteq> pa_application_index app" for k
    using that by (simp add: adms child_edges_append) (simp add: child_edges_def child_admission_def)
  have root: "root_closed i st'" if "root_application i \<notin> set (app # ps_pending st)"
  proof -
    have "root_closed i st" "0 < pa_depth app" using c that current_root[OF cur] by (auto simp: complete_inv_def)
    then obtain j where j: "pa_admission_index app = Some j" using c by (auto simp: complete_inv_def)
    have "pa_application_index app \<noteq> 0"
      using nth_mem[OF current_admission(2)[OF cur j]] current_admission(3)[OF cur j] inv
      by (auto simp: plan_inv_def indices_ok_def admission_key_def)
    then show ?thesis using \<open>root_closed i st\<close> edges[of 0] by (simp add: root_closed_def st')
  qed
  have closed: "admission_closed sp (rs_objects (ps_closure st')) (ps_admissions st') (?adms ! j)"
    if j: "j < length ?adms" and no: "\<forall>q \<in> set (app # ps_pending st). pa_admission_index q \<noteq> Some j" for j
  proof -
    have cl: "admission_closed sp (rs_objects (ps_closure st)) ?adms (?adms ! j)" using c j no by (auto simp: complete_inv_def)
    have "ca_application_index (?adms ! j) \<noteq> pa_application_index app"
    proof (cases "pa_admission_index app")
      case None
      then have "pa_depth app = 0" using c by (auto simp: complete_inv_def)
      then have "pa_application_index app = 0" using current_root[OF cur] by (simp add: root_application_def)
      then show ?thesis using inv nth_mem[OF j] by (auto simp: plan_inv_def indices_ok_def)
    next
      case (Some k)
      then have "k \<noteq> j" using no by auto
      moreover have "distinct (map ca_application_index ?adms)"
        using inv by (auto simp: plan_inv_def indices_ok_def strict_sorted_iff)
      ultimately show ?thesis using current_admission(2,3)[OF cur Some] j
        by (metis admission_key_def fst_conv length_map nth_eq_iff_index_eq nth_map)
    qed
    then show ?thesis using cl edges by (simp add: admission_closed_def st')
  qed
  have new: "parent_ok i ?adms ?a"
  proof (cases "pa_depth app = 0")
    case True
    then show ?thesis using current_root[OF cur] by (simp add: parent_ok_def child_admission_def root_application_def)
  next
    case False
    then obtain j where j: "pa_admission_index app = Some j" using c by (auto simp: complete_inv_def)
    then show ?thesis using current_admission(2,3)[OF cur j]
      by (auto simp: parent_ok_def child_admission_def intro!: image_eqI[of _ _ "?adms ! j"])
  qed
  have "(\<exists>q \<in> set (app # ps_pending st'). pa_admission_index q = Some j)
      \<or> admission_closed sp (rs_objects (ps_closure st')) (ps_admissions st') (ps_admissions st' ! j)"
    if "j < length (ps_admissions st')" for j
  proof (cases "j < length ?adms")
    case True
    then show ?thesis using closed[OF True] pend by (auto simp: adms nth_append)
  next
    case False
    then have "j = length ?adms" using that by (simp add: adms)
    then show ?thesis by (simp add: st' child_application_def)
  qed
  moreover have "parent_ok i (take j (ps_admissions st')) (ps_admissions st' ! j)" if "j < length (ps_admissions st')" for j
    using c new that by (cases "j < length ?adms") (auto simp: complete_inv_def adms nth_append less_Suc_eq)
  moreover have "\<forall>q \<in> set (app # ps_pending st'). 0 < pa_depth q \<longrightarrow> pa_admission_index q \<noteq> None"
    using c by (auto simp: complete_inv_def st' child_application_def)
  moreover have "root_application i \<in> set (app # ps_pending st') \<or> root_closed i st'" using root pend by auto
  ultimately show ?thesis unfolding complete_inv_def by blast
qed

lemma enqueue_child_inv:
  assumes inv: "plan_inv sp lookup limits i (app # ps_pending st) st" and cur: "current_ok sp limits i app st"
    and ready: "child_ready sp limits app n ob m d st" and l: "limits_ok limits"
    and st': "st' = enqueue_child app p n ob m d st"
  shows "plan_inv sp lookup limits i (app # ps_pending st') st'" "current_ok sp limits i app st'"
proof -
  have pre: "prefix (map admission_key (ps_admissions st)) (map admission_key (ps_admissions st'))" by (simp add: st')
  have "\<forall>q \<in> set (ps_pending st'). app_ok sp limits i (rs_objects (ps_closure st')) (ps_admissions st') q"
    using inv child_application_ok[OF ready l cur, of p] app_ok_mono[OF _ _ pre]
    by (auto simp: plan_inv_def st' simp del: enqueue_child_simps(6))
  moreover have "\<forall>a \<in> set (ps_admissions st'). admission_ok sp (rs_objects (ps_closure st')) a"
    using inv ready child_admission_ok by (auto simp: plan_inv_def st' split: option.splits)
  moreover have "indices_ok st'"
    unfolding st' by (rule enqueue_child_indices[OF _ ready cur]) (use inv in \<open>simp add: plan_inv_def\<close>)
  moreover have "complete_inv sp i (app # ps_pending st') st'" if none: "rs_blockers (ps_closure st') = []"
  proof (cases d)
    case None
    then show ?thesis using none ready by (simp add: st' child_ready_def)
  next
    case (Some c)
    have "complete_inv sp i (app # ps_pending st) st" using inv none by (simp add: plan_inv_def st')
    then show ?thesis using enqueue_child_complete[OF inv cur _ ready[unfolded Some] st'[unfolded Some]] by simp
  qed
  ultimately show "plan_inv sp lookup limits i (app # ps_pending st') st'"
    using inv by (simp add: plan_inv_def st' counters_ok_def)
  show "current_ok sp limits i app st'"
    using cur ready app_ok_mono[OF _ _ pre]
    by (auto simp: current_ok_def st' child_ready_def child_application_def simp del: enqueue_child_simps(6))
qed

lemma enqueue_child_taken:
  assumes "app_taken sp app st" "current_ok sp limits i app st"
  shows "app_taken sp app (enqueue_child app p n ob m d st)"
  using assms(1) current_admission(2)[OF assms(2)]
  by (cases "pa_admission_index app") (auto simp: app_taken_def layers_taken_def requested_taken_def nth_append
      split: if_splits)

lemma plan_inv_count:
  assumes inv: "plan_inv sp lookup limits i open_apps st" and l: "limits_ok limits"
    and "ps_application_count st < max_applications limits" "d \<le> max_depth limits"
    and st': "st' = st\<lparr>ps_application_count := saturating_add64 (ps_application_count st) 1, ps_max_depth := max (ps_max_depth st) d\<rparr>"
  shows "plan_inv sp lookup limits i open_apps st'" "ps_application_count st' = Suc (ps_application_count st)"
    "current_ok sp limits i app st \<Longrightarrow> current_ok sp limits i app st'"
proof -
  have c: "saturating_add64 (ps_application_count st) 1 = Suc (ps_application_count st)"
    using assms(2,3) by (auto simp: limits_ok_def saturating_add64_def)
  note st' = st'[unfolded c]
  have "complete_inv sp i open_apps st' = complete_inv sp i open_apps st"
    by (simp add: complete_inv_def root_closed_def st')
  moreover have "indices_ok st'" using inv by (auto simp: plan_inv_def indices_ok_def st')
  ultimately show "plan_inv sp lookup limits i open_apps st'"
    using inv assms(3,4) by (simp add: plan_inv_def counters_ok_def st')
  show "ps_application_count st' = Suc (ps_application_count st)"
    "current_ok sp limits i app st \<Longrightarrow> current_ok sp limits i app st'" by (auto simp: st' current_ok_def)
qed

text \<open>The state of the children loop: what is known after the children in \<open>done\<close>.\<close>

definition children_inv ::
  "space \<Rightarrow> local_lookup \<Rightarrow> plan_limits \<Rightarrow> plan_input \<Rightarrow> pending_application \<Rightarrow> (string \<times> string) list \<Rightarrow> plan_state \<Rightarrow> bool"
where
  "children_inv sp lookup limits i app past st \<longleftrightarrow>
     plan_inv sp lookup limits i (app # ps_pending st) st \<and> current_ok sp limits i app st
     \<and> (rs_blockers (ps_closure st) = [] \<longrightarrow>
          app_taken sp app st \<and> child_edges (ps_admissions st) (pa_application_index app) = past)"

lemma children_inv_quiet:
  assumes "children_inv sp lookup limits i app past st" "quiet sp lookup st st'" "limits_ok limits"
  shows "children_inv sp lookup limits i app past st'"
proof -
  have "ps_pending st' = ps_pending st" "ps_admissions st' = ps_admissions st"
    "rs_blockers (ps_closure st') = [] \<Longrightarrow> rs_blockers (ps_closure st) = []"
    using assms(2) by (auto simp: quiet_def dest: resolver_le_blockers)
  then show ?thesis using assms(1) plan_inv_quiet[OF _ assms(2,3)] current_ok_quiet[OF _ assms(2)] app_taken_quiet[OF _ assms(2)]
    by (auto simp: children_inv_def)
qed

lemma children_inv_blocked:
  "children_inv sp lookup limits i app past st \<Longrightarrow> rs_blockers (ps_closure st) \<noteq> [] \<Longrightarrow> children_inv sp lookup limits i app past' st"
  by (simp add: children_inv_def)

lemma children_inv_block: "children_inv sp lookup limits i app past st \<Longrightarrow> limits_ok limits \<Longrightarrow> children_inv sp lookup limits i app past' (block b st)"
  by (rule children_inv_blocked[OF children_inv_quiet[OF _ quiet_block]]) (simp_all add: block_def)

lemma children_inv_resolver:
  "children_inv sp lookup limits i app past st \<Longrightarrow> limits_ok limits \<Longrightarrow>
     resolver_ok sp lookup (ps_closure st) \<and> limits_ok (rs_limits (ps_closure st))"
  by (auto simp: children_inv_def intro: plan_inv_resolver[THEN conjunct1] plan_inv_resolver[THEN conjunct2])

lemma children_inv_object:
  "children_inv sp lookup limits i app past st \<Longrightarrow> map_of (rs_objects (ps_closure st)) k = Some ob \<Longrightarrow> ro_kappa ob = k"
  by (auto simp: children_inv_def object_ok_def dest: plan_inv_object)

lemma plan_delegated_quiet:
  assumes run: "plan_delegated sp j found st = (st', d)"
    and found: "\<And>ob. found = Some ob \<Longrightarrow> map_of (rs_objects (ps_closure st)) k = Some ob \<and> ro_kappa ob = k"
      "found = None \<Longrightarrow> rs_blockers (ps_closure st) \<noteq> []"
  shows "quiet sp lookup st st'" "d = Some c \<Longrightarrow> caps_at sp (rs_objects (ps_closure st')) k c \<and> co_kappa c = k"
    "d = None \<Longrightarrow> rs_blockers (ps_closure st') \<noteq> []"
proof -
  have "quiet sp lookup st st' \<and> (d = Some c \<longrightarrow> caps_at sp (rs_objects (ps_closure st')) k c \<and> co_kappa c = k)
      \<and> (d = None \<longrightarrow> rs_blockers (ps_closure st') \<noteq> [])"
  proof (cases found)
    case None
    then show ?thesis using run found(2) by (simp add: plan_delegated_def)
  next
    case (Some ob)
    note ob = found(1)[OF Some]
    let ?f = "\<lambda>r. r\<lparr>cr_capabilities_source := Some (ro_source ob)\<rparr>"
    have q: "quiet sp lookup st (update_child j ?f st)" by (rule quiet_update_child)
    show ?thesis
    proof (cases "delegated_decode sp (ro_kappa ob) (ro_bytes ob)")
      case (Inl e)
      with run Some have "st' = block (InvalidCapabilitySet (ro_kappa ob) (error_message e)) (update_child j ?f st)" "d = None"
        by (auto simp: plan_delegated_def Let_def)
      then show ?thesis using quiet_trans[OF q quiet_block] by (simp add: block_def)
    next
      case (Inr c')
      with run Some have eq: "st' = update_child j ?f st" "d = Some c'" by (auto simp: plan_delegated_def Let_def)
      have "caps_at sp (rs_objects (ps_closure st)) k c'"
        using delegated_decode_Inr[OF ob[THEN conjunct1] ob[THEN conjunct2] Inr] .
      then show ?thesis using eq q by (auto simp: update_child_def caps_at_def)
    qed
  qed
  then show "quiet sp lookup st st'" "d = Some c \<Longrightarrow> caps_at sp (rs_objects (ps_closure st')) k c \<and> co_kappa c = k"
    "d = None \<Longrightarrow> rs_blockers (ps_closure st') \<noteq> []" by simp_all
qed

lemma plan_child_manifest_inv:
  assumes inv: "children_inv sp lookup limits i app past st" and l: "limits_ok limits"
    and ready: "\<And>m. decode_child_manifest sp ob = Inr m \<Longrightarrow> child_ready sp limits app n ob m d st"
    and edge: "ro_kappa ob = k" "\<And>c. d = Some c \<Longrightarrow> co_kappa c = c'"
  shows "children_inv sp lookup limits i app (past @ [(k, c')]) (plan_child_manifest sp app p k j n d ob st)"
proof (cases "decode_child_manifest sp ob")
  case (Inl e)
  then show ?thesis unfolding plan_child_manifest_def Let_def
    by (simp add: children_inv_block[OF children_inv_quiet[OF inv quiet_update_child l] l])
next
  case (Inr m)
  let ?u = "update_child j (\<lambda>r. r\<lparr>cr_requires_kappa := Some (am_requires m), cr_layer_count := Some (length (am_layers m))\<rparr>)
      (update_child j (\<lambda>r. r\<lparr>cr_application_source := Some (ro_source ob)\<rparr>) st)"
  let ?e = "enqueue_child app p n ob m d ?u"
  have inv': "children_inv sp lookup limits i app past ?u"
    by (rule children_inv_quiet[OF inv quiet_trans[OF quiet_update_child quiet_update_child] l])
  have ready': "child_ready sp limits app n ob m d ?u"
    using ready[OF Inr] by (simp add: child_ready_def update_child_def)
  have i: "plan_inv sp lookup limits i (app # ps_pending ?u) ?u" "current_ok sp limits i app ?u"
    using inv' by (simp_all add: children_inv_def)
  note e = enqueue_child_inv[OF i ready' l refl, of p]
  have "app_taken sp app ?e \<and> child_edges (ps_admissions ?e) (pa_application_index app) = past @ [(k, c')]"
    if none: "rs_blockers (ps_closure ?e) = []"
  proof -
    have "d \<noteq> None" using none ready' by (auto simp: child_ready_def)
    then obtain c where c: "d = Some c" by blast
    have "child_edges (ps_admissions ?u) (pa_application_index app) = past" "app_taken sp app ?u"
      using inv' none by (simp_all add: children_inv_def)
    then show ?thesis using enqueue_child_taken[OF _ i(2)] c edge
      by (simp add: child_edges_append) (simp add: child_edges_def child_admission_def)
  qed
  then have "children_inv sp lookup limits i app (past @ [(k, c')]) ?e" using e unfolding children_inv_def by blast
  then show ?thesis using Inr by (simp add: plan_child_manifest_def Let_def)
qed

text \<open>A child that passes the limits.\<close>

lemma plan_counted_child_inv:
  assumes run: "plan_counted_child sp lookup app p (k, c) j n st = Inr st'" and inv: "children_inv sp lookup limits i app past st" and l: "limits_ok limits"
    and k: "k \<notin> set (pa_path app)" and depth: "Suc (pa_depth app) \<le> max_depth limits"
    and n: "n < ps_application_count st" "pa_application_index app < n"
      "\<forall>a \<in> set (ps_admissions st). ca_application_index a < n" "\<forall>q \<in> set (ps_pending st). pa_application_index q < n"
  shows "children_inv sp lookup limits i app (past @ [(k, c)]) st'"
proof -
  obtain st3 found_caps where caps:
    "resolve_in sp lookup st c (DelegatedCapabilities (pa_application_kappa app) p) = Inr (st3, found_caps)"
    using run by (auto simp: plan_counted_child_def bindE_eq_Inr)
  obtain st4 d where deleg: "plan_delegated sp j found_caps st3 = (st4, d)" by force
  obtain st5 found where child: "resolve_in sp lookup st4 k (ChildApplication (pa_application_kappa app) p) = Inr (st5, found)"
    and st': "st' = (case found of None \<Rightarrow> st5 | Some ob \<Rightarrow> plan_child_manifest sp app p k j n d ob st5)"
    using run by (auto simp: plan_counted_child_def bindE_eq_Inr caps deleg cong: option.case_cong)
  have ok: "resolver_ok sp lookup (ps_closure s) \<and> limits_ok (rs_limits (ps_closure s))" if "children_inv sp lookup limits i app past s" for s
    by (rule children_inv_resolver[OF that l])
  note q3 = quiet_resolve_in[OF caps ok[OF inv, THEN conjunct1] ok[OF inv, THEN conjunct2]]
  note inv3 = children_inv_quiet[OF inv q3(1) l]
  have f: "\<And>ob. found_caps = Some ob \<Longrightarrow> map_of (rs_objects (ps_closure st3)) c = Some ob \<and> ro_kappa ob = c"
    using q3(2) children_inv_object[OF inv3] by blast
  have q4: "quiet sp lookup st3 st4" "\<And>x. d = Some x \<Longrightarrow> caps_at sp (rs_objects (ps_closure st4)) c x \<and> co_kappa x = c"
    "d = None \<Longrightarrow> rs_blockers (ps_closure st4) \<noteq> []"
    by (rule plan_delegated_quiet[OF deleg f q3(3)]; assumption)+
  note inv4 = children_inv_quiet[OF inv3 q4(1) l]
  note q5 = quiet_resolve_in[OF child ok[OF inv4, THEN conjunct1] ok[OF inv4, THEN conjunct2]]
  note inv5 = children_inv_quiet[OF inv4 q5(1) l]
  have q: "quiet sp lookup st st5" using quiet_trans[OF q3(1) quiet_trans[OF q4(1) q5(1)]] .
  have le: "resolver_le (ps_closure st4) (ps_closure st5)" using q5(1) by (simp add: quiet_def)
  show ?thesis
  proof (cases found)
    case None
    then show ?thesis using children_inv_blocked[OF inv5 q5(3)] by (simp add: st')
  next
    case (Some ob)
    note ob = q5(2)[OF Some]
    have kap: "ro_kappa ob = k" by (rule children_inv_object[OF inv5 ob])
    have c5: "\<And>x. d = Some x \<Longrightarrow> caps_at sp (rs_objects (ps_closure st5)) (co_kappa x) x"
      using q4(2) le by (auto simp: resolver_le_def intro: caps_at_mono)
    have none: "d = None \<Longrightarrow> rs_blockers (ps_closure st5) \<noteq> []" using q4(3) resolver_le_blockers[OF le] by blast
    have "child_ready sp limits app n ob m d st5" if "decode_child_manifest sp ob = Inr m" for m
      using that ob kap k depth n q c5 none by (simp add: child_ready_def quiet_def)
    then show ?thesis using plan_child_manifest_inv[OF inv5 l _ kap] q4(2) Some by (simp add: st')
  qed
qed

lemma plan_child_inv:
  assumes run: "plan_child sp lookup limits app p (k, c) st = Inr st'"
    and inv: "children_inv sp lookup limits i app past st" and l: "limits_ok limits"
  shows "children_inv sp lookup limits i app (past @ [(k, c)]) st'"
proof -
  let ?st1 = "st\<lparr>ps_children := ps_children st @ [child_ref app (sat32 p) k c]\<rparr>"
  let ?d = "saturating_add64 (pa_depth app) 1" and ?j = "length (ps_children ?st1) - 1"
  have inv1: "children_inv sp lookup limits i app past ?st1"
    by (rule children_inv_quiet[OF inv _ l]) (simp add: quiet_def)
  consider (cycle) "k \<in> set (pa_path app)" | (deep) "k \<notin> set (pa_path app)" "?d > max_depth limits"
    | (limited) "k \<notin> set (pa_path app)" "\<not> ?d > max_depth limits" "ps_applications_limited st"
    | (full) "k \<notin> set (pa_path app)" "\<not> ?d > max_depth limits" "\<not> ps_applications_limited st" "max_applications limits \<le> ps_application_count st"
    | (go) "k \<notin> set (pa_path app)" "\<not> ?d > max_depth limits" "\<not> ps_applications_limited st" "ps_application_count st < max_applications limits"
    by linarith
  then show ?thesis
  proof cases
    case cycle
    then show ?thesis using run children_inv_block[OF inv1 l] by (auto simp: plan_child_def child_cycle_path_def Let_def)
  next
    case deep
    then show ?thesis using run children_inv_block[OF inv1 l] by (auto simp: plan_child_def child_cycle_path_def Let_def)
  next
    case limited
    then have "rs_blockers (ps_closure ?st1) \<noteq> []" using inv by (simp add: children_inv_def plan_inv_def)
    then show ?thesis using run limited children_inv_blocked[OF inv1] by (auto simp: plan_child_def child_cycle_path_def Let_def)
  next
    case full
    then obtain b where b: "st' = (block b ?st1)\<lparr>ps_applications_limited := True\<rparr>"
      using run by (auto simp: plan_child_def child_cycle_path_def Let_def)
    have "children_inv sp lookup limits i app (past @ [(k, c)]) (block b ?st1)" by (rule children_inv_block[OF inv1 l])
    then show ?thesis
      by (simp add: b children_inv_def plan_inv_def counters_ok_def indices_ok_def current_ok_def block_def)
  next
    case go
    let ?n = "ps_application_count st"
    let ?st2 = "?st1\<lparr>ps_application_count := saturating_add64 (ps_application_count ?st1) 1, ps_max_depth := max (ps_max_depth ?st1) ?d\<rparr>"
    from go run have r: "plan_counted_child sp lookup app (sat32 p) (k, c) ?j ?n ?st2 = Inr st'"
      by (simp add: plan_child_def child_cycle_path_def Let_def)
    have d: "?d = Suc (pa_depth app)" using go l by (auto simp: saturating_add64_def limits_ok_def)
    have pi1: "plan_inv sp lookup limits i (app # ps_pending ?st1) ?st1" "current_ok sp limits i app ?st1"
      using inv1 by (simp_all add: children_inv_def)
    have c2: "plan_inv sp lookup limits i (app # ps_pending ?st1) ?st2" "ps_application_count ?st2 = Suc ?n" "current_ok sp limits i app ?st2"
      using plan_inv_count[OF pi1(1) l _ _ refl, of ?d] pi1(2) go by auto
    have "children_inv sp lookup limits i app past ?st2"
      using c2(1,3) inv1 by (simp add: children_inv_def app_taken_def layers_taken_def requested_taken_def cong: if_cong)
    then show ?thesis
      by (rule plan_counted_child_inv[OF r _ l go(1)])
        (use go c2(2) d pi1 in \<open>auto simp: current_ok_def plan_inv_def indices_ok_def\<close>)
  qed
qed

lemma plan_children_inv:
  assumes "plan_children sp lookup limits app p cs st = Inr st'" "children_inv sp lookup limits i app past st" "limits_ok limits"
  shows "children_inv sp lookup limits i app (past @ cs) st'"
  using assms
proof (induction cs arbitrary: p past st)
  case (Cons x cs)
  obtain k c where x: "x = (k, c)" by force
  with Cons.prems(1) obtain st1 where r: "plan_child sp lookup limits app p (k, c) st = Inr st1"
    "plan_children sp lookup limits app (Suc p) cs st1 = Inr st'" by (auto simp: bindE_eq_Inr)
  from Cons.IH[OF r(2) plan_child_inv[OF r(1) Cons.prems(2,3)] Cons.prems(3)] show ?case by (simp add: x)
qed simp

section \<open>The loop\<close>

lemma plan_inv_blocked:
  "plan_inv sp lookup limits i open_apps st \<Longrightarrow> rs_blockers (ps_closure st) \<noteq> [] \<Longrightarrow> plan_inv sp lookup limits i open_apps' st"
  by (simp add: plan_inv_def)

lemma halted_blocked: "plan_inv sp lookup limits i open_apps st \<Longrightarrow> rs_halted (ps_closure st) \<Longrightarrow> rs_blockers (ps_closure st) \<noteq> []"
  by (simp add: plan_inv_def resolver_ok_def)

text \<open>An application whose parts have all been taken is closed.\<close>

lemma plan_inv_close:
  assumes inv: "plan_inv sp lookup limits i (app # rest) st" and cur: "current_ok sp limits i app st"
    and taken: "rs_blockers (ps_closure st) = [] \<Longrightarrow>
      app_taken sp app st \<and> child_edges (ps_admissions st) (pa_application_index app) = am_children (pa_manifest app)"
  shows "plan_inv sp lookup limits i rest st"
proof -
  have "complete_inv sp i rest st" if none: "rs_blockers (ps_closure st) = []"
  proof -
    have c: "complete_inv sp i (app # rest) st" using inv none by (simp add: plan_inv_def)
    note t = taken[OF none]
    have "root_closed i st" if "app = root_application i"
      using t that by (simp add: root_closed_def app_taken_def requested_taken_def root_application_def)
    moreover have "admission_closed sp (rs_objects (ps_closure st)) (ps_admissions st) (ps_admissions st ! j)"
      if j: "pa_admission_index app = Some j" for j
      using t current_admission[OF cur j] j
      by (auto simp: admission_closed_def app_taken_def layers_taken_def requested_taken_def admission_key_def)
    ultimately show ?thesis using c unfolding complete_inv_def by auto
  qed
  then show ?thesis using inv by (simp add: plan_inv_def)
qed

text \<open>The steps before the children loop leave the queue and the parents alone.\<close>

abbreviation parents :: "plan_state \<Rightarrow> nat list" where
  "parents st \<equiv> map ca_parent_application_index (ps_admissions st)"

lemma admit_layers_frame: "ps_pending (admit_layers app st) = ps_pending st" "parents (admit_layers app st) = parents st"
  "ps_application_count (admit_layers app st) = ps_application_count st"
  by (auto simp: admit_layers_def intro!: map_update_same split: option.splits)

lemma take_requested_frame:
  "ps_pending (take_requested sp app ob st) = ps_pending st" "parents (take_requested sp app ob st) = parents st"
  "ps_application_count (take_requested sp app ob st) = ps_application_count st"
  by (auto simp: take_requested_def block_def intro!: map_update_same split: option.splits sum.splits)

lemma resolve_in_frame:
  "resolve_in sp lookup st k e = Inr (st', r) \<Longrightarrow>
     ps_pending st' = ps_pending st \<and> ps_admissions st' = ps_admissions st \<and> ps_application_count st' = ps_application_count st"
  by (auto simp: resolve_in_def bindE_eq_Inr)

lemma plan_requires_frame:
  "plan_requires sp lookup app st = Inr st' \<Longrightarrow>
     ps_pending st' = ps_pending st \<and> parents st' = parents st \<and> ps_application_count st' = ps_application_count st"
  by (auto simp: plan_requires_def Let_def bindE_eq_Inr take_requested_frame dest!: resolve_in_frame split: option.splits)

lemma plan_layer_contents_frame:
  "plan_layer_contents sp lookup app p ls st = Inr st' \<Longrightarrow>
     ps_pending st' = ps_pending st \<and> parents st' = parents st \<and> ps_application_count st' = ps_application_count st"
proof (induction ls arbitrary: p st)
  case (Cons l ls)
  then obtain st1 r where r: "resolve_in sp lookup st (al_content l) (layer_edge app p) = Inr (st1, r)"
    "plan_layer_contents sp lookup app (Suc p) ls st1 = Inr st'" by (auto simp: bindE_eq_Inr)
  from Cons.IH[OF r(2)] resolve_in_frame[OF r(1)] show ?case by simp
qed simp

lemma child_edges_fresh: "n \<notin> set (map ca_parent_application_index adms) \<Longrightarrow> child_edges adms n = []"
  by (auto simp: child_edges_def filter_empty_conv)

lemma plan_application_inv:
  assumes run: "plan_application sp lookup limits app st = Inr (st', go_on)"
    and inv: "plan_inv sp lookup limits i (app # ps_pending st) st" and cur: "current_ok sp limits i app st"
    and l: "limits_ok limits" and fresh: "pa_application_index app \<notin> set (parents st)"
  shows "plan_inv sp lookup limits i (ps_pending st') st' \<and> (\<not> go_on \<longrightarrow> rs_blockers (ps_closure st') \<noteq> [])"
proof -
  let ?total = "saturating_add64 (ps_total_layers (admit_layers app st)) (length (am_layers (pa_manifest app)))"
  let ?st2 = "(admit_layers app st)\<lparr>ps_total_layers := ?total\<rparr>"
  note a = admit_layers_inv[OF inv cur]
  have q2: "quiet sp lookup (admit_layers app st) ?st2" by (simp add: quiet_def)
  note inv2 = plan_inv_quiet[OF a(1) q2 l] and cur2 = current_ok_quiet[OF a(2) q2]
  have lt2: "layers_taken app ?st2" using a(3) by (simp add: layers_taken_def)
  have p2: "ps_pending ?st2 = ps_pending st" "parents ?st2 = parents st" by (simp_all add: admit_layers_frame)
  show ?thesis
  proof (cases "?total > max_layers limits")
    case True
    then obtain b where b: "st' = block b ?st2" "\<not> go_on" using run by (auto simp: plan_application_def Let_def)
    then have "rs_blockers (ps_closure st') \<noteq> []" "ps_pending st' = ps_pending st" by (simp_all add: block_def admit_layers_frame)
    then show ?thesis using plan_inv_blocked[OF plan_inv_quiet[OF inv2 quiet_block[of _ _ _ b] l]] b by simp
  next
    case False
    with run obtain st3 st4 where r: "plan_requires sp lookup app ?st2 = Inr st3"
      "plan_layer_contents sp lookup app 0 (am_layers (pa_manifest app)) st3 = Inr st4"
      and eq: "(if rs_halted (ps_closure st4) then Inr (st4, False)
         else bindE (plan_children sp lookup limits app 0 (am_children (pa_manifest app)) st4)
                (\<lambda>st5. Inr (st5, \<not> rs_halted (ps_closure st5)))) = Inr (st', go_on)"
      by (auto simp: plan_application_def Let_def bindE_eq_Inr[of "plan_requires sp lookup app _"]
          bindE_eq_Inr[of "plan_layer_contents sp lookup app _ _ _"])
    from eq have rest: "if rs_halted (ps_closure st4) then st' = st4 \<and> \<not> go_on
         else plan_children sp lookup limits app 0 (am_children (pa_manifest app)) st4 = Inr st'
           \<and> (go_on \<longleftrightarrow> \<not> rs_halted (ps_closure st'))" by (auto simp: bindE_eq_Inr split: if_splits)
    note h3 = plan_requires_inv[OF r(1) inv2 l cur2 lt2] and f3 = plan_requires_frame[OF r(1)]
    note h4 = plan_contents_inv[OF r(2) h3[THEN conjunct1] l h3[THEN conjunct2, THEN conjunct1]]
      and f4 = plan_layer_contents_frame[OF r(2)]
    have none: "app_taken sp app st4" if "rs_blockers (ps_closure st4) = []"
    proof -
      have "rs_blockers (ps_closure st3) = []" using h4 that by (auto simp: quiet_def dest: resolver_le_blockers)
      then show ?thesis using h3 h4 taken_quiet[of sp lookup st3 st4 app] that by (simp add: app_taken_def)
    qed
    have "child_edges (ps_admissions st4) (pa_application_index app) = []"
      by (rule child_edges_fresh) (use f3 f4 p2 fresh in simp)
    then have c4: "children_inv sp lookup limits i app [] st4" using h4 none f3 f4 p2 by (simp add: children_inv_def)
    show ?thesis
    proof (cases "rs_halted (ps_closure st4)")
      case True
      then show ?thesis using rest h4 halted_blocked plan_inv_blocked by metis
    next
      case False
      then have ch: "plan_children sp lookup limits app 0 (am_children (pa_manifest app)) st4 = Inr st'"
        "go_on \<longleftrightarrow> \<not> rs_halted (ps_closure st')" using rest by simp_all
      note c5 = plan_children_inv[OF ch(1) c4 l, simplified]
      have "plan_inv sp lookup limits i (ps_pending st') st'"
        by (rule plan_inv_close) (use c5 in \<open>auto simp: children_inv_def\<close>)
      then show ?thesis using ch(2) halted_blocked by blast
    qed
  qed
qed

declare plan_loop.simps [simp del]

theorem plan_loop_inv:
  assumes "plan_loop sp lookup limits fuel st = Some (Inr st')" "plan_inv sp lookup limits i (ps_pending st) st" "limits_ok limits"
  shows "plan_inv sp lookup limits i [] st'"
  using assms
proof (induction fuel arbitrary: st)
  case 0
  then show ?case by (auto simp: plan_loop.simps split: list.splits)
next
  case (Suc n)
  show ?case
  proof (cases "ps_pending st")
    case Nil
    then show ?thesis using Suc.prems by (simp add: plan_loop.simps)
  next
    case (Cons app rest)
    let ?st = "st\<lparr>ps_pending := rest\<rparr>"
    from Suc.prems(1) Cons obtain st1 go_on where r: "plan_application sp lookup limits app ?st = Inr (st1, go_on)"
      "if go_on then plan_loop sp lookup limits n st1 = Some (Inr st') else st' = st1"
      by (auto simp: plan_loop.simps[of _ _ _ "Suc n"] split: sum.splits prod.splits if_splits)
    have "plan_inv sp lookup limits i (app # ps_pending ?st) ?st" "current_ok sp limits i app ?st"
      "pa_application_index app \<notin> set (parents ?st)"
      using Suc.prems(2) Cons
      by (auto simp: plan_inv_def current_ok_def counters_ok_def indices_ok_def complete_inv_def root_closed_def)
    from plan_application_inv[OF r(1) this(1,2) Suc.prems(3) this(3)] r(2) Suc.IH[OF _ _ Suc.prems(3)] plan_inv_blocked
    show ?thesis by (cases go_on) (simp, metis)+
  qed
qed

end
