(* ===== verification/Plan_Properties.thy ===== *)
theory Plan_Properties
  imports Plan_Closure
begin

text \<open>
  The properties of the application planner: it ends within its limits, everything it hands out is what
  its address says, a report is runnable exactly when it becomes a plan, a plan mirrors the manifest
  tree, and admission of the capability tree only ever attenuates the grant it starts from.
\<close>

section \<open>Termination\<close>

definition budget :: "plan_limits \<Rightarrow> plan_state \<Rightarrow> nat" where
  "budget limits st = length (ps_pending st) + (max_applications limits - ps_application_count st)"

lemma plan_delegated_frame:
  "plan_delegated sp j found st = (st', d) \<Longrightarrow> ps_pending st' = ps_pending st \<and> ps_application_count st' = ps_application_count st"
  by (auto simp: plan_delegated_def Let_def update_child_def block_def split: option.splits sum.splits)

lemma plan_child_manifest_frame:
  "length (ps_pending (plan_child_manifest sp app p k j n d ob st)) \<le> Suc (length (ps_pending st))"
  "ps_application_count (plan_child_manifest sp app p k j n d ob st) = ps_application_count st"
  by (auto simp: plan_child_manifest_def Let_def update_child_def block_def split: sum.splits)

lemma plan_counted_child_frame:
  assumes "plan_counted_child sp lookup app p kc j n st = Inr st'"
  shows "length (ps_pending st') \<le> Suc (length (ps_pending st))" "ps_application_count st' = ps_application_count st"
proof -
  obtain st3 found_caps where caps:
    "resolve_in sp lookup st (snd kc) (DelegatedCapabilities (pa_application_kappa app) p) = Inr (st3, found_caps)"
    using assms by (auto simp: plan_counted_child_def bindE_eq_Inr)
  obtain st4 d where deleg: "plan_delegated sp j found_caps st3 = (st4, d)" by force
  obtain st5 found where child: "resolve_in sp lookup st4 (fst kc) (ChildApplication (pa_application_kappa app) p) = Inr (st5, found)"
    and st': "st' = (case found of None \<Rightarrow> st5 | Some ob \<Rightarrow> plan_child_manifest sp app p (fst kc) j n d ob st5)"
    using assms by (auto simp: plan_counted_child_def bindE_eq_Inr caps deleg cong: option.case_cong)
  show "length (ps_pending st') \<le> Suc (length (ps_pending st))" "ps_application_count st' = ps_application_count st"
    using resolve_in_frame[OF caps] plan_delegated_frame[OF deleg] resolve_in_frame[OF child]
      plan_child_manifest_frame[of sp app p "fst kc" j n d _ st5]
    by (auto simp: st' split: option.splits)
qed

lemma plan_child_budget:
  assumes run: "plan_child sp lookup limits app p c st = Inr st'" and l: "max_applications limits \<le> u64_max"
  shows "budget limits st' \<le> budget limits st"
proof (cases "child_cycle_path (pa_path app) (fst c) = None \<and> \<not> saturating_add64 (pa_depth app) 1 > max_depth limits
    \<and> \<not> ps_applications_limited st \<and> ps_application_count st < max_applications limits")
  case True
  let ?st1 = "st\<lparr>ps_children := ps_children st @ [child_ref app (sat32 p) (fst c) (snd c)]\<rparr>"
  let ?st2 = "?st1\<lparr>ps_application_count := saturating_add64 (ps_application_count ?st1) 1,
      ps_max_depth := max (ps_max_depth ?st1) (saturating_add64 (pa_depth app) 1)\<rparr>"
  have "plan_counted_child sp lookup app (sat32 p) c (length (ps_children ?st1) - 1) (ps_application_count st) ?st2 = Inr st'"
    using run True by (simp add: plan_child_def Let_def)
  note f = plan_counted_child_frame[OF this]
  have "saturating_add64 (ps_application_count st) 1 = Suc (ps_application_count st)"
    using True l by (auto simp: saturating_add64_def)
  then show ?thesis using f True by (simp add: budget_def)
next
  case False
  then show ?thesis using run
    by (auto simp: plan_child_def Let_def budget_def block_def split: option.splits if_splits)
qed

lemma plan_children_budget:
  "plan_children sp lookup limits app p cs st = Inr st' \<Longrightarrow> max_applications limits \<le> u64_max \<Longrightarrow> budget limits st' \<le> budget limits st"
proof (induction cs arbitrary: p st)
  case (Cons c cs)
  then obtain st1 where r: "plan_child sp lookup limits app p c st = Inr st1"
    "plan_children sp lookup limits app (Suc p) cs st1 = Inr st'" by (auto simp: bindE_eq_Inr)
  from Cons.IH[OF r(2) Cons.prems(2)] plan_child_budget[OF r(1) Cons.prems(2)] show ?case by simp
qed simp

lemma plan_application_budget:
  assumes run: "plan_application sp lookup limits app st = Inr (st', True)" and l: "max_applications limits \<le> u64_max"
  shows "budget limits st' \<le> budget limits st"
proof -
  let ?st2 = "(admit_layers app st)\<lparr>ps_total_layers :=
    saturating_add64 (ps_total_layers (admit_layers app st)) (length (am_layers (pa_manifest app)))\<rparr>"
  obtain st3 st4 where r: "plan_requires sp lookup app ?st2 = Inr st3"
    "plan_layer_contents sp lookup app 0 (am_layers (pa_manifest app)) st3 = Inr st4"
    "plan_children sp lookup limits app 0 (am_children (pa_manifest app)) st4 = Inr st'"
    using run by (auto simp: plan_application_def Let_def bindE_eq_Inr split: if_splits)
  have "budget limits ?st2 = budget limits st" by (simp add: budget_def admit_layers_frame)
  then show ?thesis using plan_requires_frame[OF r(1)] plan_layer_contents_frame[OF r(2)] plan_children_budget[OF r(3) l]
    by (simp add: budget_def)
qed

lemma plan_loop_ends:
  "max_applications limits \<le> u64_max \<Longrightarrow> budget limits st \<le> fuel \<Longrightarrow> plan_loop sp lookup limits fuel st \<noteq> None"
proof (induction fuel arbitrary: st)
  case 0
  then show ?case by (simp add: plan_loop.simps budget_def)
next
  case (Suc n)
  show ?case
  proof (cases "ps_pending st")
    case Nil
    then show ?thesis by (simp add: plan_loop.simps)
  next
    case (Cons app rest)
    have "plan_loop sp lookup limits n st1 \<noteq> None"
      if "plan_application sp lookup limits app (st\<lparr>ps_pending := rest\<rparr>) = Inr (st1, True)" for st1
      by (rule Suc.IH[OF Suc.prems(1)])
        (use plan_application_budget[OF that Suc.prems(1)] Suc.prems(2) Cons in \<open>simp add: budget_def\<close>)
    then show ?thesis using Cons by (auto simp: plan_loop.simps[of _ _ _ "Suc n"] split: sum.splits prod.splits)
  qed
qed

lemma initial_plan_inv: "limits_ok limits \<Longrightarrow> plan_inv sp lookup limits i (ps_pending (initial_plan limits i)) (initial_plan limits i)"
  by (auto simp: initial_plan_def Let_def plan_inv_def counters_ok_def indices_ok_def complete_inv_def block_def
      app_ok_def root_application_def initial_resolver_ok intro!: push_blocker_keeps)
    (simp_all add: initial_resolver_def)

lemma explain_application_cases:
  assumes "limits_ok limits"
  obtains (refused) e where "explain_application sp wc dc b limits lookup = Some (Inl e)"
  | (planned) i st where "open_archive sp wc dc b = Inr i" "plan_inv sp lookup limits i [] st"
      "explain_application sp wc dc b limits lookup = Some (Inr (plan_report_of limits i st))"
proof (cases "open_archive sp wc dc b")
  case (Inl e)
  then show ?thesis using refused by (simp add: explain_application_def)
next
  case (Inr i)
  have "budget limits (initial_plan limits i) \<le> max_applications limits"
    by (simp add: budget_def initial_plan_def Let_def)
  from plan_loop_ends[OF _ this, of sp lookup] assms
  obtain r where r: "plan_loop sp lookup limits (max_applications limits) (initial_plan limits i) = Some r"
    by (auto simp: limits_ok_def)
  show ?thesis
  proof (cases r)
    case (Inl e)
    then show ?thesis using refused r Inr by (simp add: explain_application_def)
  next
    case (Inr st)
    have "plan_inv sp lookup limits i [] st"
      using plan_loop_inv[OF _ initial_plan_inv[OF assms] assms] r Inr by simp
    then show ?thesis using planned r Inr \<open>open_archive sp wc dc b = Inr i\<close> by (simp add: explain_application_def)
  qed
qed

lemma objects_count:
  assumes "resolver_ok sp lookup c"
  shows "length (rs_objects c) \<le> length (rs_referenced c)"
proof -
  have "distinct (map fst (rs_objects c))" using assms by (simp add: resolver_ok_def strict_sorted_iff)
  moreover have "set (map fst (rs_objects c)) \<subseteq> set (rs_referenced c)"
    using assms weak_map_of_SomeI by (force simp: resolver_ok_def)
  ultimately show ?thesis by (metis card_mono distinct_card length_map List.finite_set order_trans card_length)
qed

section \<open>Providers\<close>

text \<open>A layer before and after its provider was looked for.\<close>

definition evaluated :: "object_table \<Rightarrow> planned_layer \<Rightarrow> planned_layer \<Rightarrow> bool" where
  "evaluated obs l l' \<longleftrightarrow> (\<exists>v. l' = l\<lparr>pl_provider := v\<rparr> \<and> (v = pl_provider l \<or> map_of obs (pl_content_kappa l) \<noteq> None))"

lemma evaluate_layer_set_spec:
  assumes "evaluate_layer_set ev app n obs ls bs = (ls', bs')"
  shows "(\<exists>more_blockers. bs' = bs @ more_blockers)
    \<and> list_all2 (evaluated obs) ls ls'"
  using assms
proof (induction ls arbitrary: bs ls')
  case (Cons l ls)
  show ?case
  proof (cases "map_of obs (pl_content_kappa l)")
    case None
    with Cons.prems obtain ls1 where "evaluate_layer_set ev app n obs ls bs = (ls1, bs')" "ls' = l # ls1"
      by (auto split: prod.splits)
    with Cons.IH show ?thesis by (auto simp: evaluated_def intro!: exI[of _ "pl_provider l"])
  next
    case (Some ob)
    with Cons.prems obtain ls1 bs1 v where "evaluate_layer_set ev app n obs ls (bs @ bs1) = (ls1, bs')" "ls' = l\<lparr>pl_provider := v\<rparr> # ls1"
      by (auto simp: Let_def split: prod.splits provider_availability.splits) (metis append_Nil2)+
    with Cons.IH Some show ?thesis by (fastforce simp: evaluated_def)
  qed
qed simp

lemma evaluate_admissions_spec:
  assumes "evaluate_admissions ev obs as bs = (as', bs')"
  shows "(\<exists>more_blockers. bs' = bs @ more_blockers)
    \<and> list_all2 (\<lambda>a a'. \<exists>ls. a' = a\<lparr>ca_layers := ls\<rparr>
         \<and> list_all2 (evaluated obs)
             (ca_layers a) ls) as as'"
  using assms
proof (induction as arbitrary: bs as')
  case (Cons a as)
  obtain ls bs1 where e: "evaluate_layer_set ev (ca_application_kappa a) (length (ca_layers a)) obs (ca_layers a) bs = (ls, bs1)" by force
  with Cons.prems obtain as1 where r: "evaluate_admissions ev obs as bs1 = (as1, bs')" "as' = a\<lparr>ca_layers := ls\<rparr> # as1"
    by (auto split: prod.splits)
  show ?case using Cons.IH[OF r(1)] evaluate_layer_set_spec[OF e] r(2) by auto
qed simp

lemma strict_layer_Inr:
  "strict_layer app obs l = Inr rl \<longleftrightarrow> (\<exists>ob v. map_of obs (pl_content_kappa l) = Some ob \<and> pl_provider l = Available v
     \<and> rl = \<lparr>rl_position = pl_position l, rl_kind = pl_kind l, rl_content_kappa = pl_content_kappa l, rl_entry = pl_entry l,
          rl_aux = pl_aux l, rl_primary = pl_primary l, rl_content = ro_bytes ob,
          rl_resolution_source = ro_source ob, rl_provider = v\<rparr>)"
  by (auto simp: strict_layer_def bindE_eq_Inr split: provider_availability.splits)

lemma is_available_iff: "is_available l \<longleftrightarrow> (\<exists>v. pl_provider l = Available v)"
  by (auto simp: is_available_def split: provider_availability.splits)

lemma strict_layers_ok_iff:
  assumes "list_all (\<lambda>l. is_available l \<longrightarrow> map_of obs (pl_content_kappa l) \<noteq> None) ls"
  shows "(\<exists>rls. strict_layers app obs ls = Inr rls) \<longleftrightarrow> list_all is_available ls"
  using assms
proof (induction ls)
  case (Cons l ls)
  have "(\<exists>rl. strict_layer app obs l = Inr rl) \<longleftrightarrow> is_available l"
    using Cons.prems by (auto simp: strict_layer_Inr is_available_iff)
  then show ?case using Cons by (auto simp: strict_layers_def bindE_eq_Inr)
qed (simp add: strict_layers_def)

section \<open>From report to plan\<close>

text \<open>What a plan says about the layers of a manifest.\<close>

definition layers_exact :: "space \<Rightarrow> app_manifest \<Rightarrow> resolved_layer list \<Rightarrow> bool" where
  "layers_exact sp m rls \<longleftrightarrow> length rls = length (am_layers m) \<and> (\<forall>n < length rls.
     rl_kind (rls ! n) = al_kind (am_layers m ! n) \<and> rl_content_kappa (rls ! n) = al_content (am_layers m ! n)
     \<and> rl_entry (rls ! n) = al_entry (am_layers m ! n) \<and> rl_aux (rls ! n) = al_aux (am_layers m ! n)
     \<and> rl_position (rls ! n) = sat32 n \<and> (n \<le> u32_max \<longrightarrow> (rl_primary (rls ! n) \<longleftrightarrow> am_primary m = Some n))
     \<and> address_bytes sp (rl_content (rls ! n)) = rl_content_kappa (rls ! n))"

lemma strict_planned_layers:
  assumes run: "strict_layers app obs ls' = Inr rls"
    and ev: "list_all2 (evaluated obs)
         (map (source_of obs) (planned_layers m)) ls'"
    and obs: "\<And>k ob. map_of obs k = Some ob \<Longrightarrow> address_bytes sp (ro_bytes ob) = k"
  shows "layers_exact sp m rls"
proof -
  have len: "length ls' = length (am_layers m)" "length rls = length ls'"
    using ev run by (auto simp: strict_layers_def planned_layers_def dest: list_all2_lengthD mapE_length)
  have "rl_kind (rls ! n) = al_kind (am_layers m ! n) \<and> rl_content_kappa (rls ! n) = al_content (am_layers m ! n)
     \<and> rl_entry (rls ! n) = al_entry (am_layers m ! n) \<and> rl_aux (rls ! n) = al_aux (am_layers m ! n)
     \<and> rl_position (rls ! n) = sat32 n \<and> (n \<le> u32_max \<longrightarrow> (rl_primary (rls ! n) \<longleftrightarrow> am_primary m = Some n))
     \<and> address_bytes sp (rl_content (rls ! n)) = rl_content_kappa (rls ! n)"
    if n: "n < length rls" for n
  proof -
    have "strict_layer app obs (ls' ! n) = Inr (rls ! n)"
      using run n len by (auto simp: strict_layers_def mapE_eq_Inr list_all2_conv_all_nth)
    moreover obtain v where "ls' ! n = (source_of obs (planned_layer_at m n (am_layers m ! n)))\<lparr>pl_provider := v\<rparr>"
      using list_all2_nthD2[OF ev, of n] n len by (auto simp: planned_layers_def nth_enumerate_eq evaluated_def)
    ultimately show ?thesis using obs by (auto simp: strict_layer_Inr source_of_def planned_layer_at_def)
  qed
  then show ?thesis using len by (simp add: layers_exact_def)
qed

text \<open>A report of the planner after its providers were evaluated.\<close>

lemma evaluated_report:
  assumes "r = evaluate_providers ev (plan_report_of limits i st)"
  obtains ls as bs where
    "r = (plan_report_of limits i st)\<lparr>pr_layers := ls, pr_admissions := as, pr_blockers := pr_blockers (plan_report_of limits i st) @ bs\<rparr>"
    "list_all2 (evaluated (rs_objects (ps_closure st))) (map (source_of (rs_objects (ps_closure st))) (planned_layers (pi_manifest i))) ls"
    "length as = length (ps_admissions st)"
    "\<And>j. j < length as \<Longrightarrow> \<exists>lj. as ! j = (ps_admissions st ! j)\<lparr>ca_layers := lj\<rparr>
       \<and> list_all2 (evaluated (rs_objects (ps_closure st))) (map (source_of (rs_objects (ps_closure st))) (ca_layers (ps_admissions st ! j))) lj"
proof -
  let ?r = "plan_report_of limits i st" and ?obs = "rs_objects (ps_closure st)"
  obtain ls bs1 where e1: "evaluate_layer_set ev (application_kappa (pr_identity ?r)) (length (pr_layers ?r)) (pr_objects ?r)
      (pr_layers ?r) (pr_blockers ?r) = (ls, bs1)" by force
  obtain as bs2 where e2: "evaluate_admissions ev (pr_objects ?r) (pr_admissions ?r) bs1 = (as, bs2)" by force
  have r: "r = ?r\<lparr>pr_layers := ls, pr_admissions := as, pr_blockers := bs2\<rparr>"
    using assms e1 e2 by (simp add: evaluate_providers_def)
  have fields: "pr_objects ?r = ?obs" "pr_layers ?r = map (source_of ?obs) (planned_layers (pi_manifest i))"
    "pr_admissions ?r = map (\<lambda>a. a\<lparr>ca_layers := map (source_of ?obs) (ca_layers a)\<rparr>) (ps_admissions st)"
    by (simp_all add: plan_report_of_def Let_def)
  note s1 = evaluate_layer_set_spec[OF e1, unfolded fields] and s2 = evaluate_admissions_spec[OF e2, unfolded fields]
  obtain bs where bs: "bs2 = pr_blockers ?r @ bs" using s1 s2 by auto
  have len: "length as = length (ps_admissions st)" using s2 by (auto dest: list_all2_lengthD)
  have "\<exists>lj. as ! j = (ps_admissions st ! j)\<lparr>ca_layers := lj\<rparr>
      \<and> list_all2 (evaluated ?obs) (map (source_of ?obs) (ca_layers (ps_admissions st ! j))) lj" if "j < length as" for j
    using list_all2_nthD2[OF conjunct2[OF s2] that] that len by auto
  with that[OF r[unfolded bs] conjunct2[OF s1] len] show ?thesis by blast
qed

lemma open_archive_Inr:
  assumes "open_archive sp wc dc b = Inr i"
  shows "require_current b = Inr ()" "manifest_validate sp (pi_manifest i) = Inr ()"
    "application_kappa (pi_identity i) = address_bytes sp (manifest_canonicalize sp (pi_manifest i))"
    "archive_kappa (pi_identity i) = address_bytes sp b"
    "manifest_decode sp (manifest_canonicalize sp (pi_manifest i)) = Inr (pi_root_manifest i)"
  using assms by (auto simp: open_archive_def bindE_eq_Inr Let_def)

text \<open>An unblocked run has closed everything.\<close>

lemma unblocked_closed:
  assumes "plan_inv sp lookup limits i [] st" "rs_blockers (ps_closure st) = []"
  shows "root_closed i st"
    "\<And>j. j < length (ps_admissions st) \<Longrightarrow> admission_closed sp (rs_objects (ps_closure st)) (ps_admissions st) (ps_admissions st ! j)"
  using assms by (auto simp: plan_inv_def complete_inv_def)

definition plan_edges :: "resolved_child list \<Rightarrow> nat \<Rightarrow> (string \<times> string) list" where
  "plan_edges cs n = map (\<lambda>c. (rc_application_kappa c, co_kappa (rc_delegated c)))
     (filter (\<lambda>c. rc_parent_application_index c = n) cs)"

lemma strict_child_Inr:
  "strict_child obs a = Inr c \<longleftrightarrow> (\<exists>ls r. strict_layers (ca_application_kappa a) obs (ca_layers a) = Inr ls \<and> ca_requested a = Some r
     \<and> c = \<lparr>rc_position = ca_position a, rc_parent_application_index = ca_parent_application_index a,
          rc_parent_application_kappa = ca_parent_application_kappa a, rc_application_index = ca_application_index a,
          rc_application_kappa = ca_application_kappa a, rc_delegated = ca_delegated a, rc_requested = r,
          rc_primary_layer = ca_primary_layer a, rc_layers = ls\<rparr>)"
  by (auto simp: strict_child_def bindE_eq_Inr)

lemma plan_edges_admissions:
  assumes "list_all2 (\<lambda>a c. strict_child obs a = Inr c) as cs"
  shows "plan_edges cs n = child_edges as n"
  using assms
  by (induction rule: list_all2_induct) (auto simp: plan_edges_def child_edges_def strict_child_Inr)

lemma child_edges_same:
  assumes "length as = length adms" "\<And>j. j < length as \<Longrightarrow> \<exists>lj. as ! j = (adms ! j)\<lparr>ca_layers := lj\<rparr>"
  shows "child_edges as n = child_edges adms n"
proof -
  let ?e = "\<lambda>a. (ca_parent_application_index a, ca_application_kappa a, co_kappa (ca_delegated a))"
  have "map ?e as = map ?e adms"
  proof (rule nth_equalityI)
    fix j assume "j < length (map ?e as)"
    moreover then obtain lj where "as ! j = (adms ! j)\<lparr>ca_layers := lj\<rparr>" using assms(2)[of j] by auto
    ultimately show "map ?e as ! j = map ?e adms ! j" using assms(1) by simp
  qed (simp add: assms(1))
  moreover have "child_edges xs n = map snd (filter (\<lambda>(p, _). p = n) (map ?e xs))" for xs
    by (simp add: child_edges_def filter_map comp_def)
  ultimately show ?thesis by simp
qed

lemma mapE_ok_iff: "(\<exists>ys. mapE f xs = Inr ys) \<longleftrightarrow> (\<forall>x \<in> set xs. \<exists>y. f x = Inr y)"
proof (induction xs)
  case (Cons x xs)
  have "(\<exists>ys. mapE f (x # xs) = Inr ys) \<longleftrightarrow> (\<exists>y. f x = Inr y) \<and> (\<exists>ys. mapE f xs = Inr ys)"
    by (auto simp: bindE_eq_Inr)
  then show ?case using Cons.IH by simp
qed simp

lemma into_plan_unblocked:
  assumes "pr_blockers r = []" "pr_requested r = Some q"
  shows "(\<exists>p. into_application_plan r = Inr p) \<longleftrightarrow>
     (\<exists>ls. strict_layers (application_kappa (pr_identity r)) (pr_objects r) (pr_layers r) = Inr ls)
     \<and> (\<forall>a \<in> set (pr_admissions r). \<exists>c. strict_child (pr_objects r) a = Inr c)"
proof -
  have "(\<exists>p. into_application_plan r = Inr p) \<longleftrightarrow>
      (\<exists>ls. strict_layers (application_kappa (pr_identity r)) (pr_objects r) (pr_layers r) = Inr ls)
      \<and> (\<exists>cs. mapE (strict_child (pr_objects r)) (pr_admissions r) = Inr cs)"
    using assms by (auto simp: into_application_plan_def bindE_eq_Inr)
  then show ?thesis by (simp only: mapE_ok_iff)
qed

text \<open>What a report without blockers provides, layer by layer.\<close>

lemma unblocked_report:
  assumes inv: "plan_inv sp lookup limits i [] st" and r: "r = evaluate_providers ev (plan_report_of limits i st)"
    and codec: "pi_root_manifest i = pi_manifest i" and none: "pr_blockers r = []"
  shows "\<exists>q. pr_requested r = Some q"
    "list_all (\<lambda>l. map_of (pr_objects r) (pl_content_kappa l) \<noteq> None) (pr_layers r)"
    "\<forall>a \<in> set (pr_admissions r). ca_requested a \<noteq> None
       \<and> list_all (\<lambda>l. map_of (pr_objects r) (pl_content_kappa l) \<noteq> None) (ca_layers a)"
proof -
  let ?obs = "rs_objects (ps_closure st)"
  obtain ls as bs where e:
    "r = (plan_report_of limits i st)\<lparr>pr_layers := ls, pr_admissions := as, pr_blockers := pr_blockers (plan_report_of limits i st) @ bs\<rparr>"
    "list_all2 (evaluated ?obs) (map (source_of ?obs) (planned_layers (pi_manifest i))) ls"
    "length as = length (ps_admissions st)"
    "\<And>j. j < length as \<Longrightarrow> \<exists>lj. as ! j = (ps_admissions st ! j)\<lparr>ca_layers := lj\<rparr>
       \<and> list_all2 (evaluated ?obs) (map (source_of ?obs) (ca_layers (ps_admissions st ! j))) lj"
    using evaluated_report[OF r] by metis
  have b: "rs_blockers (ps_closure st) = []" using none e(1) by (simp add: plan_report_of_def Let_def)
  note cl = unblocked_closed[OF inv b]
  have present: "list_all (\<lambda>l. map_of ?obs (pl_content_kappa l) \<noteq> None) ls'"
    if "list_all2 (evaluated ?obs) (map (source_of ?obs) (planned_layers m)) ls'" "contents_at ?obs m" for m ls'
  proof -
    have "list_all (\<lambda>l. map_of ?obs (pl_content_kappa l) \<noteq> None) (map (source_of ?obs) (planned_layers m))"
      using that(2) by (fastforce simp: list_all_iff planned_layers_def source_of_def planned_layer_at_def contents_at_def
          in_set_enumerate_eq)
    with that(1) show ?thesis by (induction rule: list_all2_induct) (auto simp: evaluated_def)
  qed
  have fields: "pr_objects r = ?obs" "pr_requested r = ps_requested st" "pr_layers r = ls" "pr_admissions r = as"
    by (simp_all add: e(1) plan_report_of_def Let_def)
  show "\<exists>q. pr_requested r = Some q" using cl(1) by (auto simp: fields root_closed_def)
  show "list_all (\<lambda>l. map_of (pr_objects r) (pl_content_kappa l) \<noteq> None) (pr_layers r)"
    unfolding fields by (rule present[OF e(2)]) (use cl(1) codec in \<open>simp add: root_closed_def\<close>)
  have "ca_requested (as ! j) \<noteq> None \<and> list_all (\<lambda>l. map_of ?obs (pl_content_kappa l) \<noteq> None) (ca_layers (as ! j))"
    if j: "j < length as" for j
  proof -
    obtain lj where lj: "as ! j = (ps_admissions st ! j)\<lparr>ca_layers := lj\<rparr>"
      "list_all2 (evaluated ?obs) (map (source_of ?obs) (ca_layers (ps_admissions st ! j))) lj" using e(4)[OF j] by blast
    obtain m where "ca_requested (ps_admissions st ! j) \<noteq> None" "same_layers m (ps_admissions st ! j)" "contents_at ?obs m"
      using cl(2)[of j] j e(3) by (auto simp: admission_closed_def)
    then show ?thesis using lj present[of m lj] by (simp add: same_layers_def)
  qed
  then show "\<forall>a \<in> set (pr_admissions r). ca_requested a \<noteq> None
       \<and> list_all (\<lambda>l. map_of (pr_objects r) (pl_content_kappa l) \<noteq> None) (ca_layers a)"
    unfolding fields by (metis in_set_conv_nth)
qed

lemma strict_layers_present:
  assumes "list_all (\<lambda>l. map_of obs (pl_content_kappa l) \<noteq> None) ls"
  shows "(\<exists>rls. strict_layers app obs ls = Inr rls) \<longleftrightarrow> list_all is_available ls"
    "strict_layers app obs ls = Inl e \<Longrightarrow> \<exists>msg. e = Capability msg"
proof -
  show "(\<exists>rls. strict_layers app obs ls = Inr rls) \<longleftrightarrow> list_all is_available ls"
    by (rule strict_layers_ok_iff) (use assms in \<open>simp add: list_all_iff\<close>)
  show "strict_layers app obs ls = Inl e \<Longrightarrow> \<exists>msg. e = Capability msg"
    using assms by (induction ls) (auto simp: strict_layers_def bindE_eq_Inl strict_layer_def split: provider_availability.splits)
qed

lemma into_plan_runnable:
  assumes inv: "plan_inv sp lookup limits i [] st" and r: "r = evaluate_providers ev (plan_report_of limits i st)"
    and codec: "pi_root_manifest i = pi_manifest i"
  shows "(\<exists>p. into_application_plan r = Inr p) \<longleftrightarrow> runnable r" "into_application_plan r \<noteq> Inl (Conflict msg)"
proof -
  have "((\<exists>p. into_application_plan r = Inr p) \<longleftrightarrow> runnable r) \<and> into_application_plan r \<noteq> Inl (Conflict msg)"
  proof (cases "pr_blockers r")
    case (Cons b bs)
    then show ?thesis by (auto simp: into_application_plan_def runnable_def blocker_into_error_def Let_def)
  next
    case Nil
    note u = unblocked_report[OF inv r codec Nil]
    from u(1) obtain q where q: "pr_requested r = Some q" ..
    have c: "((\<exists>c. strict_child (pr_objects r) a = Inr c) \<longleftrightarrow> list_all is_available (ca_layers a))
        \<and> (strict_child (pr_objects r) a = Inl e \<longrightarrow> (\<exists>m. e = Capability m))" if "a \<in> set (pr_admissions r)" for a e
      using bspec[OF u(3) that] strict_layers_present[of "pr_objects r" "ca_layers a" "ca_application_kappa a"]
      by (auto simp: strict_child_Inr) (auto simp: strict_child_def bindE_eq_Inl)
    have "mapE (strict_child (pr_objects r)) as = Inl e \<Longrightarrow> set as \<subseteq> set (pr_admissions r) \<Longrightarrow> \<exists>m. e = Capability m" for as e
      using c by (induction as) (auto simp: bindE_eq_Inl)
    then have "into_application_plan r \<noteq> Inl (Conflict msg)"
      using Nil q strict_layers_present(2)[OF u(2)] by (auto simp: into_application_plan_def bindE_eq_Inl)
    moreover have "(\<exists>p. into_application_plan r = Inr p) \<longleftrightarrow> runnable r"
      unfolding into_plan_unblocked[OF Nil q] runnable_def strict_layers_present(1)[OF u(2)] using c Nil by (simp add: list_all_iff)
    ultimately show ?thesis by simp
  qed
  then show "(\<exists>p. into_application_plan r = Inr p) \<longleftrightarrow> runnable r" "into_application_plan r \<noteq> Inl (Conflict msg)" by simp_all
qed

text \<open>A plan, read against the manifests it was made from.\<close>

definition plan_mirrors :: "space \<Rightarrow> application_plan \<Rightarrow> bool" where
  "plan_mirrors sp p \<longleftrightarrow>
     (\<forall>k ob. map_of (ap_objects p) k = Some ob \<longrightarrow> address_bytes sp (ro_bytes ob) = k)
     \<and> am_primary (ap_manifest p) \<noteq> None \<and> ap_primary_layer p = am_primary (ap_manifest p)
     \<and> caps_at sp (ap_objects p) (am_requires (ap_manifest p)) (ap_requested p)
     \<and> layers_exact sp (ap_manifest p) (ap_layers p)
     \<and> plan_edges (ap_children p) 0 = am_children (ap_manifest p)
     \<and> (\<forall>c \<in> set (ap_children p). \<exists>m. manifest_at sp (ap_objects p) (rc_application_kappa c) m
          \<and> layers_exact sp m (rc_layers c) \<and> rc_primary_layer c = am_primary m
          \<and> caps_at sp (ap_objects p) (am_requires m) (rc_requested c)
          \<and> caps_at sp (ap_objects p) (co_kappa (rc_delegated c)) (rc_delegated c)
          \<and> plan_edges (ap_children p) (rc_application_index c) = am_children m)"

definition plan_ordered :: "resolved_child list \<Rightarrow> bool" where
  "plan_ordered cs \<longleftrightarrow> distinct (map rc_application_index cs) \<and> 0 \<notin> rc_application_index ` set cs
     \<and> (\<forall>j < length cs. rc_parent_application_index (cs ! j) \<in> insert 0 (set (map rc_application_index (take j cs))))"

lemma strict_children_ordered:
  assumes inv: "plan_inv sp lookup limits i [] st" and none: "rs_blockers (ps_closure st) = []"
    and as: "length as = length (ps_admissions st)" "\<And>j. j < length as \<Longrightarrow> \<exists>lj. as ! j = (ps_admissions st ! j)\<lparr>ca_layers := lj\<rparr>"
    and cs: "list_all2 (\<lambda>a c. strict_child obs a = Inr c) as cs"
  shows "plan_ordered cs"
proof -
  let ?adms = "ps_admissions st"
  have len: "length cs = length ?adms" using cs as(1) by (auto dest: list_all2_lengthD)
  have nth: "rc_application_index (cs ! j) = ca_application_index (?adms ! j)
      \<and> rc_parent_application_index (cs ! j) = ca_parent_application_index (?adms ! j)" if jl: "j < length cs" for j
  proof -
    have "strict_child obs (as ! j) = Inr (cs ! j)" using list_all2_nthD2[OF cs jl] .
    moreover obtain lj where "as ! j = (?adms ! j)\<lparr>ca_layers := lj\<rparr>" using as(2)[of j] jl[unfolded len, folded as(1)] by blast
    ultimately show ?thesis by (auto simp: strict_child_Inr)
  qed
  have idx: "map rc_application_index cs = map ca_application_index ?adms"
    by (rule nth_equalityI) (use len nth in auto)
  have io: "indices_ok st" and par: "\<forall>j < length ?adms. parent_ok i (take j ?adms) (?adms ! j)"
    using inv none by (simp_all add: plan_inv_def complete_inv_def)
  have "0 \<notin> set (map ca_application_index ?adms)" "distinct (map ca_application_index ?adms)"
    using io by (auto simp: indices_ok_def strict_sorted_iff)
  moreover have "rc_parent_application_index (cs ! j) \<in> insert 0 (set (map rc_application_index (take j cs)))" if j: "j < length cs" for j
  proof -
    have "map rc_application_index (take j cs) = map ca_application_index (take j ?adms)"
      using idx by (metis take_map)
    then show ?thesis using par j len nth[OF j] by (auto simp: parent_ok_def admission_key_def)
  qed
  ultimately show ?thesis unfolding plan_ordered_def idx[symmetric] by simp
qed

lemma into_plan_mirrors:
  assumes inv: "plan_inv sp lookup limits i [] st" and r: "r = evaluate_providers ev (plan_report_of limits i st)"
    and codec: "pi_root_manifest i = pi_manifest i" and p: "into_application_plan r = Inr p"
  shows "plan_mirrors sp p" "ap_manifest p = pi_manifest i" "ap_identity p = pi_identity i" "plan_ordered (ap_children p)"
proof -
  let ?obs = "rs_objects (ps_closure st)"
  obtain ls as bs where e:
    "r = (plan_report_of limits i st)\<lparr>pr_layers := ls, pr_admissions := as, pr_blockers := pr_blockers (plan_report_of limits i st) @ bs\<rparr>"
    "list_all2 (evaluated ?obs) (map (source_of ?obs) (planned_layers (pi_manifest i))) ls"
    "length as = length (ps_admissions st)"
    "\<And>j. j < length as \<Longrightarrow> \<exists>lj. as ! j = (ps_admissions st ! j)\<lparr>ca_layers := lj\<rparr>
       \<and> list_all2 (evaluated ?obs) (map (source_of ?obs) (ca_layers (ps_admissions st ! j))) lj"
    using evaluated_report[OF r] by metis
  have none: "pr_blockers r = []" using p by (auto simp: into_application_plan_def split: list.splits)
  then have b: "rs_blockers (ps_closure st) = []" "am_primary (pi_manifest i) \<noteq> None"
    using e(1) by (auto simp: plan_report_of_def Let_def split: if_splits)
  note cl = unblocked_closed[OF inv b(1)]
  have fields: "pr_objects r = ?obs" "pr_requested r = ps_requested st" "pr_layers r = ls" "pr_admissions r = as"
    "pr_identity r = pi_identity i" "pr_manifest r = pi_manifest i" "pr_primary_layer r = am_primary (pi_manifest i)"
    by (simp_all add: e(1) plan_report_of_def Let_def)
  from p none obtain q rls cs where parts: "ps_requested st = Some q"
    "strict_layers (application_kappa (pi_identity i)) ?obs ls = Inr rls" "mapE (strict_child ?obs) as = Inr cs"
    "ap_requested p = q" "ap_layers p = rls" "ap_children p = cs" "ap_objects p = ?obs"
    "ap_manifest p = pi_manifest i" "ap_primary_layer p = am_primary (pi_manifest i)" "ap_identity p = pi_identity i"
    by (auto simp: into_application_plan_def bindE_eq_Inr fields)
  have cs: "list_all2 (\<lambda>a c. strict_child ?obs a = Inr c) as cs" using parts(3) by (simp add: mapE_eq_Inr)
  have edges: "plan_edges cs n = child_edges (ps_admissions st) n" for n
    unfolding plan_edges_admissions[OF cs] by (rule child_edges_same[OF e(3)]) (use e(4) in blast)
  have obs: "address_bytes sp (ro_bytes ob) = k" if "map_of ?obs k = Some ob" for k ob
    using plan_inv_object[OF inv that] by (simp add: object_ok_def)
  have child: "\<exists>m. manifest_at sp ?obs (rc_application_kappa c) m \<and> layers_exact sp m (rc_layers c)
      \<and> rc_primary_layer c = am_primary m \<and> caps_at sp ?obs (am_requires m) (rc_requested c)
      \<and> caps_at sp ?obs (co_kappa (rc_delegated c)) (rc_delegated c)
      \<and> plan_edges cs (rc_application_index c) = am_children m" if c: "c \<in> set cs" for c
  proof -
    from c cs obtain j where j: "j < length as" "cs ! j = c" "strict_child ?obs (as ! j) = Inr c"
      by (auto simp: in_set_conv_nth list_all2_conv_all_nth)
    let ?a = "ps_admissions st ! j"
    obtain lj where lj: "as ! j = ?a\<lparr>ca_layers := lj\<rparr>"
      "list_all2 (evaluated ?obs) (map (source_of ?obs) (ca_layers ?a)) lj" using e(4)[OF j(1)] by blast
    obtain m where m: "manifest_at sp ?obs (ca_application_kappa ?a) m" "same_layers m ?a"
      "child_edges (ps_admissions st) (ca_application_index ?a) = am_children m"
      using cl(2)[of j] j(1) e(3) by (auto simp: admission_closed_def)
    have "admission_ok sp ?obs ?a" using inv j(1) e(3) by (simp add: plan_inv_def)
    then have caps: "caps_at sp ?obs (co_kappa (ca_delegated ?a)) (ca_delegated ?a)"
      "ca_requested ?a = Some x \<Longrightarrow> caps_at sp ?obs (am_requires m) x" for x
      using m(1) by (auto simp: admission_ok_def dest: manifest_at_unique)
    from j(3) lj(1) obtain rs x where c': "strict_layers (ca_application_kappa ?a) ?obs lj = Inr rs" "ca_requested ?a = Some x"
      "rc_application_kappa c = ca_application_kappa ?a" "rc_layers c = rs" "rc_primary_layer c = ca_primary_layer ?a"
      "rc_requested c = x" "rc_delegated c = ca_delegated ?a" "rc_application_index c = ca_application_index ?a"
      by (auto simp: strict_child_Inr)
    have "layers_exact sp m rs"
      by (rule strict_planned_layers[OF c'(1) _ obs]) (use lj(2) m(2) in \<open>simp_all add: same_layers_def\<close>)
    then show ?thesis using c' m caps edges by (auto simp: same_layers_def)
  qed
  have "layers_exact sp (pi_manifest i) rls" by (rule strict_planned_layers[OF parts(2) e(2) obs])
  moreover have "caps_at sp ?obs (am_requires (pi_manifest i)) q" using inv parts(1) codec by (simp add: plan_inv_def)
  moreover have "plan_edges cs 0 = am_children (pi_manifest i)" using cl(1) edges codec by (simp add: root_closed_def)
  ultimately show "plan_mirrors sp p" using obs child b(2) parts(4-9) by (simp add: plan_mirrors_def)
  show "ap_manifest p = pi_manifest i" "ap_identity p = pi_identity i" using parts by simp_all
  show "plan_ordered (ap_children p)" unfolding parts(6)
    by (rule strict_children_ordered[OF inv b(1) e(3) _ cs]) (use e(4) in blast)
qed

section \<open>Admission\<close>

definition allowed :: "capability_decision \<Rightarrow> bool" where
  "allowed d \<longleftrightarrow> cd_outcome d = ''allowed''"

lemma allowed_simps [simp]:
  "allowed (decision_application_request app parent request g ok) = ok"
  "allowed (decision_child_delegation up child delegated g ok) = ok"
  by (simp_all add: allowed_def decision_application_request_def decision_child_delegation_def decision_outcome_def)

definition parents_present :: "(nat \<rightharpoonup> effective_grant) \<Rightarrow> resolved_child list \<Rightarrow> bool" where
  "parents_present grants cs \<longleftrightarrow>
     (\<forall>j < length cs. rc_parent_application_index (cs ! j) \<in> dom grants \<union> set (map rc_application_index (take j cs)))"

lemma parents_present_Cons:
  assumes "parents_present grants (c # cs)"
  shows "grants (rc_parent_application_index c) \<noteq> None" "parents_present (grants(rc_application_index c \<mapsto> g)) cs"
proof -
  show "grants (rc_parent_application_index c) \<noteq> None" using assms[unfolded parents_present_def, rule_format, of 0] by auto
  show "parents_present (grants(rc_application_index c \<mapsto> g)) cs"
    unfolding parents_present_def
  proof (intro allI impI)
    fix j assume "j < length cs"
    then show "rc_parent_application_index (cs ! j) \<in> dom (grants(rc_application_index c \<mapsto> g)) \<union> set (map rc_application_index (take j cs))"
      using assms[unfolded parents_present_def, rule_format, of "Suc j"] by auto
  qed
qed

text \<open>One round of the loop over the children, with its two decisions.\<close>

lemma admit_children_Cons:
  assumes "grants (rc_parent_application_index c) = Some parent"
  obtains (refused) ds e where "admit_children sp (c # cs) grants = (ds, Inl (Authorization e))" "ds \<noteq> []"
      "\<not> allowed (last ds)" "list_all allowed (butlast ds)"
      "\<not> (caps_admits sp (eg_capabilities parent) (co_capabilities (rc_delegated c))
           \<and> caps_admits sp (co_capabilities (rc_delegated c)) (co_capabilities (rc_requested c)))"
  | (granted) d1 d2 where "caps_admits sp (eg_capabilities parent) (co_capabilities (rc_delegated c))"
      "caps_admits sp (co_capabilities (rc_delegated c)) (co_capabilities (rc_requested c))" "allowed d1" "allowed d2"
      "admit_children sp (c # cs) grants =
         (let (ds, r) = admit_children sp cs (grants(rc_application_index c \<mapsto> from_delegation (rc_delegated c))) in (d1 # d2 # ds, r))"
proof -
  let ?del = "caps_admits sp (eg_capabilities parent) (co_capabilities (rc_delegated c))"
  let ?req = "caps_admits sp (co_capabilities (rc_delegated c)) (co_capabilities (rc_requested c))"
  have caps: "eg_capabilities (from_delegation (rc_delegated c)) = co_capabilities (rc_delegated c)" by (simp add: from_delegation_def)
  show ?thesis
  proof (cases "?del \<and> ?req")
    case True
    then show ?thesis using assms caps
      by (intro granted[of "decision_child_delegation (rc_parent_application_kappa c) (rc_application_kappa c) (rc_delegated c) parent True"
            "decision_application_request (rc_application_kappa c) (Some (rc_parent_application_kappa c)) (rc_requested c)
               (from_delegation (rc_delegated c)) True"])
        (auto simp: Let_def authorize_child_delegation_def split: prod.splits)
  next
    case False
    then show ?thesis using assms caps refused by (cases ?del) (auto simp: Let_def authorize_child_delegation_def)
  qed
qed

lemma admit_children_decisions:
  assumes "admit_children sp cs grants = (ds, res)" "parents_present grants cs"
  shows "case res of
      Inr gs \<Rightarrow> list_all allowed ds \<and> length ds = 2 * length cs
        \<and> gs = grants ++ map_of (rev (map (\<lambda>c. (rc_application_index c, from_delegation (rc_delegated c))) cs))
    | Inl e \<Rightarrow> (\<exists>m. e = Authorization m) \<and> ds \<noteq> [] \<and> \<not> allowed (last ds) \<and> list_all allowed (butlast ds)"
  using assms
proof (induction cs arbitrary: grants ds)
  case (Cons c cs)
  note pp = parents_present_Cons[OF Cons.prems(2)]
  then obtain parent where parent: "grants (rc_parent_application_index c) = Some parent" by blast
  let ?g = "grants(rc_application_index c \<mapsto> from_delegation (rc_delegated c))"
  show ?case
  proof (rule admit_children_Cons[where sp = sp and cs = cs and grants = grants and c = c, OF parent])
    fix ds' e assume "admit_children sp (c # cs) grants = (ds', Inl (Authorization e))" "ds' \<noteq> []"
      "\<not> allowed (last ds')" "list_all allowed (butlast ds')"
    then show ?case using Cons.prems(1) by auto
  next
    fix d1 d2 assume d: "allowed d1" "allowed d2"
      "admit_children sp (c # cs) grants = (let (ds, r) = admit_children sp cs ?g in (d1 # d2 # ds, r))"
    obtain ds' where ds': "admit_children sp cs ?g = (ds', res)" "ds = d1 # d2 # ds'"
      using d(3) Cons.prems(1) by (auto simp del: admit_children.simps split: prod.splits)
    note IH = Cons.IH[OF ds'(1) pp(2)]
    have g: "?g ++ map_of (rev (map (\<lambda>c. (rc_application_index c, from_delegation (rc_delegated c))) cs))
        = grants ++ map_of (rev (map (\<lambda>c. (rc_application_index c, from_delegation (rc_delegated c))) (c # cs)))"
      by (auto simp: fun_eq_iff map_add_def split: option.splits)
    show ?case
    proof (cases res)
      case (Inl e)
      then show ?thesis using IH ds'(2) d(1,2) by (auto simp del: map_of.simps)
    next
      case (Inr gs)
      have "list_all allowed ds' \<and> length ds' = 2 * length cs" using IH Inr by simp
      moreover have "gs = grants ++ map_of (rev (map (\<lambda>c. (rc_application_index c, from_delegation (rc_delegated c))) (c # cs)))"
        unfolding g[symmetric] using IH Inr by simp
      ultimately show ?thesis unfolding Inr sum.case using ds'(2) d(1,2) by (intro conjI) simp_all
    qed
  qed
qed auto

text \<open>Whatever a child is granted, the grant at the root of the tree admits.\<close>

lemma admit_children_attenuates:
  assumes "admit_children sp cs grants = (ds, Inr gs)" "admits_trans sp"
    "\<And>n h. grants n = Some h \<Longrightarrow> eg_capabilities h = root_caps \<or> caps_admits sp root_caps (eg_capabilities h)"
  shows "\<forall>c \<in> set cs. caps_admits sp root_caps (co_capabilities (rc_delegated c)) \<and> caps_admits sp root_caps (co_capabilities (rc_requested c))
     \<and> caps_admits sp (co_capabilities (rc_delegated c)) (co_capabilities (rc_requested c))"
  using assms
proof (induction cs arbitrary: grants ds)
  case (Cons c cs)
  obtain parent where parent: "grants (rc_parent_application_index c) = Some parent"
    using Cons.prems(1) by (cases "grants (rc_parent_application_index c)") auto
  show ?case
  proof (rule admit_children_Cons[where sp = sp and cs = cs and grants = grants and c = c, OF parent])
    fix ds' e assume "admit_children sp (c # cs) grants = (ds', Inl (Authorization e))"
    then show ?case using Cons.prems(1) by auto
  next
    let ?g = "grants(rc_application_index c \<mapsto> from_delegation (rc_delegated c))"
    fix d1 d2 assume a: "caps_admits sp (eg_capabilities parent) (co_capabilities (rc_delegated c))"
      "caps_admits sp (co_capabilities (rc_delegated c)) (co_capabilities (rc_requested c))"
      "admit_children sp (c # cs) grants = (let (ds, r) = admit_children sp cs ?g in (d1 # d2 # ds, r))"
    obtain ds' where ds': "admit_children sp cs ?g = (ds', Inr gs)"
      using a(3) Cons.prems(1) by (auto simp del: admit_children.simps split: prod.splits)
    have "caps_admits sp root_caps (co_capabilities (rc_delegated c))"
      using Cons.prems(3)[OF parent] a(1) Cons.prems(2) unfolding admits_trans_def by metis
    moreover from this have "caps_admits sp root_caps (co_capabilities (rc_requested c))"
      using a(2) Cons.prems(2) unfolding admits_trans_def by metis
    moreover have "\<forall>c \<in> set cs. caps_admits sp root_caps (co_capabilities (rc_delegated c)) \<and> caps_admits sp root_caps (co_capabilities (rc_requested c))
       \<and> caps_admits sp (co_capabilities (rc_delegated c)) (co_capabilities (rc_requested c))"
      by (rule Cons.IH[OF ds' Cons.prems(2)])
        (use Cons.prems(3) calculation(1) in \<open>auto simp: from_delegation_def split: if_splits\<close>)
    ultimately show ?case using a(2) by simp
  qed
qed simp

section \<open>A sample application\<close>

text \<open>A root application with one tensor layer and one child, all of whose objects the local lookup knows.\<close>

definition demo_caps :: bytes where
  "demo_caps = sample_caps_enc empty_capabilities"

definition demo_child :: app_manifest where
  "demo_child = \<lparr>am_layers = [], am_children = [], am_primary = None, am_requires = ''k''\<rparr>"

definition demo_root :: app_manifest where
  "demo_root = \<lparr>am_layers = [\<lparr>al_kind = RootfsImage, al_content = ''x'', al_entry = ''main'', al_aux = []\<rparr>],
     am_children = [(''c'', ''k'')], am_primary = Some 0, am_requires = ''k''\<rparr>"

definition demo_address :: "bytes \<Rightarrow> string" where
  "demo_address b = (case sample_manifest_dec b of
       Inr m \<Rightarrow> if m = demo_root then ''r'' else ''c''
     | Inl _ \<Rightarrow> if b = demo_caps then ''k'' else ''x'')"

definition demo_space :: space where
  "demo_space = sample_space\<lparr>address_bytes := demo_address,
     load_archive := (\<lambda>b. Inr \<lparr>ar_fingerprint = [], ar_manifest = Some (drop 6 b),
       ar_extensions = Inr [(directory_extension_key, [])], ar_content_blobs = Inr []\<rparr>)\<rparr>"

definition demo_directory :: holo_directory where
  "demo_directory = \<lparr>hd_schema_version = 1, hd_primary_layer = Some 0, hd_requires_kappa = ''k'',
     hd_layers = [\<lparr>hl_position = 0, hl_kind = ''rootfs'', hl_content_kappa = ''x'', hl_entry = ''main'', hl_contract = None,
                   hl_architecture = Some [], hl_surface = None, hl_engine = None\<rparr>],
     hd_children = [\<lparr>hc_position = 0, hc_application_kappa = ''c'', hc_capabilities_kappa = ''k'',
                     hc_parent_application_kappa = None, hc_depth = None, hc_requires_kappa = None,
                     hc_application_source = None, hc_capabilities_source = None\<rparr>],
     hd_blobs = []\<rparr>"

definition demo_codec :: dir_codec where
  "demo_codec = \<lparr>dir_to_bytes = (\<lambda>_. Inr []), dir_of_bytes = (\<lambda>_. Inr demo_directory)\<rparr>"

definition demo_contracts :: wasm_contracts where
  "demo_contracts = \<lparr>wc_core = ''core'', wc_component = ''component'', wc_store_read = ''read'', wc_store_graph_read = ''graph'',
     wc_store_write = ''write'', wc_channel_publish = ''publish'', wc_channel_subscribe = ''subscribe'', wc_network_fetch = ''fetch''\<rparr>"

definition demo_archive :: bytes where
  "demo_archive = [72, 79, 76, 79, 4, 0] @ sample_manifest_enc demo_root"

definition demo_lookup :: local_lookup where
  "demo_lookup k = Inr (if k = ''k'' then Some demo_caps else if k = ''c'' then Some (sample_manifest_enc demo_child)
     else if k = ''x'' then Some [] else None)"

definition demo_limits :: plan_limits where
  "demo_limits = \<lparr>max_layers = 4, max_applications = 2, max_depth = 2, max_objects = 8, max_resolved_bytes = 1000\<rparr>"

lemma demo_space_ok: "limits_ok demo_limits" "manifest_codec_ok demo_space" "admits_trans demo_space"
  using sample_space_ok by (simp_all add: limits_ok_def demo_limits_def demo_space_def manifest_codec_ok_def admits_trans_def)

lemma demo_addresses:
  "demo_address demo_caps = ''k''" "demo_address (sample_manifest_enc demo_child) = ''c''" "demo_address [] = ''x''"
proof -
  have "sample_manifest_dec demo_caps = Inl ''malformed''"
    by (simp add: demo_caps_def sample_manifest_dec_def sample_caps_enc_def dec_strs_list_enc empty_capabilities_def ok_or_def)
  then show "demo_address demo_caps = ''k''" by (simp add: demo_address_def)
  show "demo_address (sample_manifest_enc demo_child) = ''c''"
    by (simp add: demo_address_def sample_manifest_codec demo_child_def demo_root_def)
  have "demo_caps \<noteq> []" by (simp add: demo_caps_def sample_caps_enc_def enc_strs_def enc_str_def)
  then show "demo_address [] = ''x''"
    by (simp add: demo_address_def sample_manifest_dec_def dec_strs_list_def ok_or_def)
qed

lemma demo_lengths: "length demo_caps \<le> 100" "length (sample_manifest_enc demo_child) \<le> 100"
  by (simp_all add: demo_caps_def sample_caps_enc_def sample_manifest_enc_def demo_child_def empty_capabilities_def
      enc_strs_def enc_str_def show_nat.simps numeral_eq_Suc)

lemma demo_opens: "open_archive demo_space demo_contracts demo_codec demo_archive =
   Inr \<lparr>pi_identity = \<lparr>archive_kappa = demo_address demo_archive, archive_fingerprint = [], application_kappa = ''r''\<rparr>,
        pi_manifest = demo_root, pi_root_manifest = demo_root, pi_embedded = (\<lambda>_. None)\<rparr>"
proof -
  have "verify_required demo_space demo_contracts demo_codec demo_root [[]] [] = Inr demo_directory"
    by (simp add: verify_required_def directory_decode_def derive_directory_def derive_layer_def derive_child_def decode_layer_def
        demo_codec_def demo_directory_def demo_root_def demo_space_def sample_space_def)
  moreover have "require_current demo_archive = Inr ()" by (simp add: require_current_def demo_archive_def)
  moreover have "drop 6 demo_archive = sample_manifest_enc demo_root" by (simp add: demo_archive_def)
  moreover have "demo_address (sample_manifest_enc demo_root) = ''r''" by (simp add: demo_address_def sample_manifest_codec)
  ultimately show ?thesis
    by (simp add: open_archive_def demo_space_def sample_space_def sample_manifest_codec hex_def)
qed

definition demo_resolver :: "string list \<Rightarrow> object_table \<Rightarrow> nat \<Rightarrow> resolver" where
  "demo_resolver refs obs n = \<lparr>rs_embedded = (\<lambda>_. None), rs_limits = demo_limits, rs_referenced = refs, rs_failures = (\<lambda>_. None),
     rs_objects = obs, rs_blockers = [], rs_resolved_bytes = n, rs_embedded_count = 0, rs_halted = False\<rparr>"

definition demo_object :: "string \<Rightarrow> bytes \<Rightarrow> resolved_object" where
  "demo_object k b = \<lparr>ro_kappa = k, ro_bytes = b, ro_source = LocalStore\<rparr>"

lemma demo_resolve:
  assumes "map_of obs k = None" "k \<notin> set refs" "length refs < 8" "demo_lookup k = Inr (Some b)" "demo_address b = k" "n + length b \<le> 1000"
  shows "resolve demo_space demo_lookup (demo_resolver refs obs n) k e =
     Inr (demo_resolver (k # refs) (map_insert k (demo_object k b) obs) (n + length b), Some (demo_object k b))"
proof -
  have addr: "address_bytes demo_space = demo_address" by (simp add: demo_space_def)
  have "saturating_add64 n (sat64 (length b)) = n + length b" "saturating_add64 (length refs) 1 = Suc (length refs)"
    using assms(3,6) by (simp_all add: saturating_add64_def sat64_def)
  then show ?thesis using assms
    by (simp add: resolve_def note_reference_def lookup_bytes_def admit_bytes_def demo_resolver_def demo_object_def demo_limits_def
        addr Let_def)
qed

lemma demo_resolve_again:
  "map_of obs k = Some ob \<Longrightarrow> resolve sp lookup (demo_resolver refs obs n) k e = Inr (demo_resolver refs obs n, Some ob)"
  by (simp add: resolve_def demo_resolver_def)

lemma demo_decodes:
  "requested_decode demo_space ''k'' demo_caps = Inr \<lparr>co_kappa = ''k'', co_canonical = demo_caps, co_capabilities = empty_capabilities\<rparr>"
  "delegated_decode demo_space ''k'' demo_caps = Inr \<lparr>co_kappa = ''k'', co_canonical = demo_caps, co_capabilities = empty_capabilities\<rparr>"
  "decode_child_manifest demo_space (demo_object ''c'' (sample_manifest_enc demo_child)) = Inr demo_child"
  using demo_addresses(1)
  by (simp_all add: requested_decode_def delegated_decode_def decode_capability_object_def decode_canonical_def demo_space_def
      sample_space_def sample_caps_codec demo_caps_def decode_child_manifest_def sample_manifest_codec demo_object_def)

lemma demo_lookups [simp]: "demo_lookup ''k'' = Inr (Some demo_caps)" "demo_lookup ''x'' = Inr (Some [])"
  "demo_lookup ''c'' = Inr (Some (sample_manifest_enc demo_child))"
  by (simp_all add: demo_lookup_def)

lemma demo_resolver_simps [simp]:
  "rs_halted (demo_resolver refs obs n) = False" "rs_blockers (demo_resolver refs obs n) = []" "rs_objects (demo_resolver refs obs n) = obs"
  "ro_kappa (demo_object k b) = k" "ro_bytes (demo_object k b) = b"
  by (simp_all add: demo_resolver_def demo_object_def)

definition demo_set :: capability_object where
  "demo_set = \<lparr>co_kappa = ''k'', co_canonical = demo_caps, co_capabilities = empty_capabilities\<rparr>"

definition demo_objects :: object_table where
  "demo_objects = [(''c'', demo_object ''c'' (sample_manifest_enc demo_child)), (''k'', demo_object ''k'' demo_caps), (''x'', demo_object ''x'' [])]"

definition demo_admission :: pending_child_admission where
  "demo_admission = \<lparr>ca_position = 0, ca_parent_application_index = 0, ca_parent_application_kappa = ''r'', ca_application_index = 1,
     ca_application_kappa = ''c'', ca_delegated = demo_set, ca_requested = None, ca_primary_layer = None, ca_layers = []\<rparr>"

lemmas demo_resolves =
  demo_resolve[OF _ _ _ demo_lookups(1) demo_addresses(1)] demo_resolve[OF _ _ _ demo_lookups(2) demo_addresses(3)]
  demo_resolve[OF _ _ _ demo_lookups(3) demo_addresses(2)] demo_resolve_again

lemma demo_root_planned:
  "\<exists>cs. plan_application demo_space demo_lookup demo_limits
     \<lparr>pa_application_index = 0, pa_admission_index = None, pa_application_kappa = ''r'', pa_manifest = demo_root, pa_depth = 0, pa_path = [''r'']\<rparr>
     \<lparr>ps_closure = demo_resolver [] [] 0, ps_pending = [], ps_children = [], ps_admissions = [], ps_requested = None,
      ps_application_count = 1, ps_max_depth = 0, ps_total_layers = 0, ps_applications_limited = False\<rparr>
   = Inr (\<lparr>ps_closure = demo_resolver [''c'', ''x'', ''k''] demo_objects (length demo_caps + length (sample_manifest_enc demo_child)),
      ps_pending = [\<lparr>pa_application_index = 1, pa_admission_index = Some 0, pa_application_kappa = ''c'', pa_manifest = demo_child,
        pa_depth = 1, pa_path = [''r'', ''c'']\<rparr>], ps_children = cs, ps_admissions = [demo_admission], ps_requested = Some demo_set,
      ps_application_count = 2, ps_max_depth = 1, ps_total_layers = 1, ps_applications_limited = False\<rparr>, True)"
proof -
  have lim: "max_layers demo_limits = 4" "max_applications demo_limits = 2" "max_depth demo_limits = 2" by (simp_all add: demo_limits_def)
  have sat: "saturating_add64 0 1 = 1" "saturating_add64 0 (Suc 0) = 1" "saturating_add64 1 1 = 2" "saturating_add64 (Suc 0) (Suc 0) = 2" "sat32 0 = 0"
    by (simp_all add: saturating_add64_def sat32_def)
  show ?thesis using demo_lengths
    by (simp add: plan_application_def admit_layers_def plan_requires_def resolve_in_def demo_resolves demo_decodes take_requested_def
        demo_root_def Let_def lim sat child_cycle_path_def plan_child_def plan_counted_child_def plan_delegated_def
        plan_child_manifest_def enqueue_child_def child_application_def child_admission_def update_child_def demo_objects_def demo_set_def
        demo_admission_def)
qed

lemma demo_child_planned:
  "plan_application demo_space demo_lookup demo_limits
     \<lparr>pa_application_index = 1, pa_admission_index = Some 0, pa_application_kappa = ''c'', pa_manifest = demo_child,
        pa_depth = 1, pa_path = [''r'', ''c'']\<rparr>
     \<lparr>ps_closure = demo_resolver refs demo_objects n, ps_pending = [], ps_children = cs, ps_admissions = [demo_admission],
      ps_requested = Some demo_set, ps_application_count = 2, ps_max_depth = 1, ps_total_layers = 1, ps_applications_limited = False\<rparr>
   = Inr (\<lparr>ps_closure = demo_resolver refs demo_objects n, ps_pending = [], ps_children = cs,
      ps_admissions = [demo_admission\<lparr>ca_requested := Some demo_set\<rparr>],
      ps_requested = Some demo_set, ps_application_count = 2, ps_max_depth = 1, ps_total_layers = 1, ps_applications_limited = False\<rparr>, True)"
  by (simp add: plan_application_def admit_layers_def plan_requires_def resolve_in_def demo_resolves demo_decodes take_requested_def
      demo_child_def Let_def demo_limits_def saturating_add64_def update_admission_def demo_objects_def demo_set_def
      demo_admission_def planned_layers_def)

definition demo_state :: "child_reference list \<Rightarrow> plan_state" where
  "demo_state cs = \<lparr>ps_closure = demo_resolver [''c'', ''x'', ''k''] demo_objects (length demo_caps + length (sample_manifest_enc demo_child)),
     ps_pending = [], ps_children = cs, ps_admissions = [demo_admission\<lparr>ca_requested := Some demo_set\<rparr>],
     ps_requested = Some demo_set, ps_application_count = 2, ps_max_depth = 1, ps_total_layers = 1, ps_applications_limited = False\<rparr>"

definition demo_input :: plan_input where
  "demo_input = \<lparr>pi_identity = \<lparr>archive_kappa = demo_address demo_archive, archive_fingerprint = [], application_kappa = ''r''\<rparr>,
     pi_manifest = demo_root, pi_root_manifest = demo_root, pi_embedded = (\<lambda>_. None)\<rparr>"

lemma demo_explained:
  obtains cs where "explain_application demo_space demo_contracts demo_codec demo_archive demo_limits demo_lookup =
     Some (Inr (plan_report_of demo_limits demo_input (demo_state cs)))"
proof -
  obtain cs where r: "plan_application demo_space demo_lookup demo_limits
     \<lparr>pa_application_index = 0, pa_admission_index = None, pa_application_kappa = ''r'', pa_manifest = demo_root, pa_depth = 0, pa_path = [''r'']\<rparr>
     \<lparr>ps_closure = demo_resolver [] [] 0, ps_pending = [], ps_children = [], ps_admissions = [], ps_requested = None,
      ps_application_count = 1, ps_max_depth = 0, ps_total_layers = 0, ps_applications_limited = False\<rparr>
   = Inr (\<lparr>ps_closure = demo_resolver [''c'', ''x'', ''k''] demo_objects (length demo_caps + length (sample_manifest_enc demo_child)),
      ps_pending = [\<lparr>pa_application_index = 1, pa_admission_index = Some 0, pa_application_kappa = ''c'', pa_manifest = demo_child,
        pa_depth = 1, pa_path = [''r'', ''c'']\<rparr>], ps_children = cs, ps_admissions = [demo_admission], ps_requested = Some demo_set,
      ps_application_count = 2, ps_max_depth = 1, ps_total_layers = 1, ps_applications_limited = False\<rparr>, True)"
    using demo_root_planned ..
  have "max_applications demo_limits = Suc (Suc 0)" by (simp add: demo_limits_def)
  moreover have "initial_plan demo_limits demo_input =
     \<lparr>ps_closure = demo_resolver [] [] 0, ps_pending = [\<lparr>pa_application_index = 0, pa_admission_index = None, pa_application_kappa = ''r'',
        pa_manifest = demo_root, pa_depth = 0, pa_path = [''r'']\<rparr>], ps_children = [], ps_admissions = [], ps_requested = None,
      ps_application_count = 1, ps_max_depth = 0, ps_total_layers = 0, ps_applications_limited = False\<rparr>"
    by (simp add: initial_plan_def initial_resolver_def demo_resolver_def demo_input_def root_application_def demo_limits_def)
  ultimately show ?thesis using r that[of cs]
    by (simp add: explain_application_def demo_opens demo_input_def[symmetric] plan_loop.simps demo_child_planned[simplified] demo_state_def)
qed

definition demo_evaluate :: "provider_context \<Rightarrow> provider_availability" where
  "demo_evaluate c = Available (pc_entry c)"

lemma demo_plan:
  assumes "explain_application demo_space demo_contracts demo_codec demo_archive demo_limits demo_lookup = Some (Inr r)"
  shows "runnable (evaluate_providers demo_evaluate r)" "length (pr_admissions (evaluate_providers demo_evaluate r)) = 1"
    "pr_requested r = Some demo_set"
proof -
  obtain cs where r: "r = plan_report_of demo_limits demo_input (demo_state cs)" using demo_explained assms by auto
  show "runnable (evaluate_providers demo_evaluate r)" "length (pr_admissions (evaluate_providers demo_evaluate r)) = 1"
    "pr_requested r = Some demo_set"
    by (simp_all add: r plan_report_of_def Let_def evaluate_providers_def demo_state_def demo_input_def demo_root_def planned_layers_def
        planned_layer_at_def source_of_def demo_objects_def demo_evaluate_def demo_admission_def runnable_def is_available_def)
qed

text \<open>The children of a plan form a tree below the root.\<close>

lemma planned_ordered:
  assumes l: "limits_ok limits" and codec: "manifest_codec_ok sp"
    and run: "explain_application sp wc dc b limits lookup = Some (Inr r0)"
    and p: "into_application_plan (evaluate_providers ev r0) = Inr p"
  shows "plan_ordered (ap_children p)"
proof (rule explain_application_cases[OF l, of sp wc dc b lookup])
  fix i st
  assume i: "open_archive sp wc dc b = Inr i" "plan_inv sp lookup limits i [] st"
    "explain_application sp wc dc b limits lookup = Some (Inr (plan_report_of limits i st))"
  have "pi_root_manifest i = pi_manifest i" using open_archive_Inr(5)[OF i(1)] codec by (simp add: manifest_codec_ok_def)
  then show ?thesis using into_plan_mirrors(4)[OF i(2) _ _ p] run i(3) by simp
qed (use run in simp)

lemma admitted_grants_dom:
  assumes ord: "plan_ordered (ap_children p)" and a: "admitted_grants sp p g = Inr gs"
  shows "dom gs = insert 0 (rc_application_index ` set (ap_children p))"
proof -
  let ?cs = "ap_children p"
  have pp: "parents_present [0 \<mapsto> g] ?cs" using ord by (auto simp: plan_ordered_def parents_present_def)
  obtain ds res where c: "admit_children sp ?cs [0 \<mapsto> g] = (ds, res)" by force
  then have "res = Inr gs" using a by (auto simp: admitted_grants_def admitted_grants_with_def Let_def split: sum.splits)
  then have "gs = [0 \<mapsto> g] ++ map_of (rev (map (\<lambda>c. (rc_application_index c, from_delegation (rc_delegated c))) ?cs))"
    using admit_children_decisions[OF c pp] by simp
  then show ?thesis by (auto simp: dom_map_of_conv_image_fst image_image)
qed

section \<open>Properties\<close>

text \<open>
  C2 The planner always ends, and within its limits: for every archive, whatever the lookup
  answers, the loop over the application tree finishes after at most \<open>max_applications\<close> iterations. A
  report counts at most the allowed applications, depth and objects, its byte count is exactly the size
  of the objects it holds and within the byte limit, and every admitted child has an index of its own,
  above the index of its parent, so the admitted tree has no cycle.
\<close>
theorem plan_within_limits:
  assumes l: "limits_ok limits"
  shows "\<exists>res. explain_application sp wc dc b limits lookup = Some res \<and> (\<forall>r. res = Inr r \<longrightarrow>
     pr_application_count r \<le> max 1 (max_applications limits) \<and> pr_max_depth r \<le> max_depth limits
     \<and> pr_referenced_object_count r \<le> max_objects limits \<and> length (pr_objects r) \<le> pr_referenced_object_count r
     \<and> pr_resolved_bytes r = (\<Sum>(k, ob) \<leftarrow> pr_objects r. length (ro_bytes ob))
     \<and> pr_resolved_bytes r \<le> max_resolved_bytes limits
     \<and> distinct (map ca_application_index (pr_admissions r))
     \<and> (\<forall>a \<in> set (pr_admissions r). ca_parent_application_index a < ca_application_index a
          \<and> ca_application_index a < pr_application_count r))"
proof (rule explain_application_cases[OF l, of sp wc dc b lookup])
  fix i st
  assume inv: "plan_inv sp lookup limits i [] st"
    and eq: "explain_application sp wc dc b limits lookup = Some (Inr (plan_report_of limits i st))"
  have ok: "resolver_ok sp lookup (ps_closure st)" "rs_limits (ps_closure st) = limits" "counters_ok limits st" "indices_ok st"
    using inv by (simp_all add: plan_inv_def)
  moreover note objects_count[OF ok(1)]
  moreover have "distinct (map ca_application_index (ps_admissions st))" using ok(4) by (simp add: indices_ok_def strict_sorted_iff)
  ultimately show ?thesis unfolding eq
    by (auto simp: plan_report_of_def Let_def resolver_ok_def counters_ok_def indices_ok_def objects_size_def comp_def)
qed simp


theorem plan_within_limits_witness:
  "\<exists>r. explain_application demo_space demo_contracts demo_codec demo_archive demo_limits demo_lookup = Some (Inr r)
     \<and> pr_requested r = Some demo_set \<and> pr_application_count r \<le> 2 \<and> pr_resolved_bytes r \<le> 1000"
proof -
  obtain r where r: "explain_application demo_space demo_contracts demo_codec demo_archive demo_limits demo_lookup = Some (Inr r)"
    using demo_explained by blast
  have "pr_application_count r \<le> 2 \<and> pr_resolved_bytes r \<le> 1000"
    using plan_within_limits[OF demo_space_ok(1), of demo_space demo_contracts demo_codec demo_archive demo_lookup] r
    by (auto simp: demo_limits_def)
  then show ?thesis using r demo_plan(3)[OF r] by blast
qed

text \<open>
  C1 Everything the planner hands out is authentic. The identity of a report is the address of
  the archive and of the canonical manifest. Every resolved object is stored under the address of its
  bytes, an embedded blob wins over the store, anything else is exactly what the lookup returned, and the
  source recorded for it says which of the two it was.
\<close>
theorem plan_objects_authentic:
  assumes l: "limits_ok limits" and run: "explain_application sp wc dc b limits lookup = Some (Inr r)"
  shows "\<exists>i. open_archive sp wc dc b = Inr i \<and> pr_identity r = pi_identity i \<and> pr_manifest r = pi_manifest i
     \<and> archive_kappa (pr_identity r) = address_bytes sp b
     \<and> application_kappa (pr_identity r) = address_bytes sp (manifest_canonicalize sp (pr_manifest r))
     \<and> (\<forall>k ob. map_of (pr_objects r) k = Some ob \<longrightarrow> ro_kappa ob = k \<and> address_bytes sp (ro_bytes ob) = k
          \<and> (case pi_embedded i k of
               Some e \<Rightarrow> ro_bytes ob = e \<and> ro_source ob = Embedded
             | None \<Rightarrow> lookup k = Inr (Some (ro_bytes ob)) \<and> ro_source ob = LocalStore))"
proof (rule explain_application_cases[OF l, of sp wc dc b lookup])
  fix i st
  assume i: "open_archive sp wc dc b = Inr i" and inv: "plan_inv sp lookup limits i [] st"
    and eq: "explain_application sp wc dc b limits lookup = Some (Inr (plan_report_of limits i st))"
  have r: "r = plan_report_of limits i st" using run eq by simp
  show ?thesis using open_archive_Inr(3,4)[OF i] plan_inv_object[OF inv] i
    by (auto simp: r plan_report_of_def Let_def object_ok_def)
qed (use run in simp)


theorem plan_objects_authentic_witness:
  "\<exists>r ob. explain_application demo_space demo_contracts demo_codec demo_archive demo_limits demo_lookup = Some (Inr r)
     \<and> map_of (pr_objects r) ''k'' = Some ob \<and> demo_lookup ''k'' = Inr (Some (ro_bytes ob))"
proof -
  obtain cs where r: "explain_application demo_space demo_contracts demo_codec demo_archive demo_limits demo_lookup =
     Some (Inr (plan_report_of demo_limits demo_input (demo_state cs)))" by (rule demo_explained)
  let ?r = "plan_report_of demo_limits demo_input (demo_state cs)"
  have ob: "map_of (pr_objects ?r) ''k'' = Some (demo_object ''k'' demo_caps)"
    by (simp add: plan_report_of_def Let_def demo_state_def demo_objects_def)
  from plan_objects_authentic[OF demo_space_ok(1) r] ob demo_opens
  have "demo_lookup ''k'' = Inr (Some (ro_bytes (demo_object ''k'' demo_caps)))" by auto
  then show ?thesis using r ob by blast
qed

text \<open>
  C12 From report to plan. After the providers were consulted, a report becomes a plan exactly when it
  is runnable; its first blocker is the error otherwise, and the internal conflicts the conversion
  guards against never happen. The plan mirrors the manifest tree: root and every child carry exactly the
  layers of their manifest with contents that hash to the declared address, the capability sets named by
  the manifests, and under every application exactly the children its manifest lists, in order.
\<close>
theorem runnable_exactly_plan:
  assumes l: "limits_ok limits" and codec: "manifest_codec_ok sp"
    and run: "explain_application sp wc dc b limits lookup = Some (Inr r0)" and r: "r = evaluate_providers ev r0"
  shows "((\<exists>p. into_application_plan r = Inr p) \<longleftrightarrow> runnable r)
    \<and> (\<forall>bl bs. pr_blockers r = bl # bs \<longrightarrow>
         into_application_plan r = Inl (blocker_into_error (application_kappa (pr_identity r)) bl))
    \<and> (\<forall>msg. into_application_plan r \<noteq> Inl (Conflict msg))
    \<and> (\<forall>p. into_application_plan r = Inr p \<longrightarrow> plan_mirrors sp p \<and> ap_manifest p = pr_manifest r0
         \<and> application_kappa (ap_identity p) = address_bytes sp (manifest_canonicalize sp (ap_manifest p)))"
proof (rule explain_application_cases[OF l, of sp wc dc b lookup])
  fix i st
  assume i: "open_archive sp wc dc b = Inr i" and inv: "plan_inv sp lookup limits i [] st"
    and eq: "explain_application sp wc dc b limits lookup = Some (Inr (plan_report_of limits i st))"
  have r': "r = evaluate_providers ev (plan_report_of limits i st)" "r0 = plan_report_of limits i st" using run eq r by simp_all
  have same: "pi_root_manifest i = pi_manifest i"
    using open_archive_Inr(5)[OF i] codec by (simp add: manifest_codec_ok_def)
  show ?thesis
    using into_plan_runnable[OF inv r'(1) same] into_plan_mirrors[OF inv r'(1) same] open_archive_Inr(3)[OF i]
    by (auto simp: into_application_plan_def r'(2) plan_report_of_def Let_def)
qed (use run in simp)


theorem runnable_exactly_plan_witness:
  "\<exists>r p. explain_application demo_space demo_contracts demo_codec demo_archive demo_limits demo_lookup = Some (Inr r)
     \<and> into_application_plan (evaluate_providers demo_evaluate r) = Inr p \<and> plan_mirrors demo_space p"
proof -
  obtain r where r: "explain_application demo_space demo_contracts demo_codec demo_archive demo_limits demo_lookup = Some (Inr r)"
    using demo_explained by blast
  from runnable_exactly_plan[OF demo_space_ok(1,2) r refl, of demo_evaluate] demo_plan(1)[OF r] r show ?thesis by blast
qed

text \<open>Admission over a well-ordered tree.\<close>

lemma admitted_grants_tree:
  assumes ord: "plan_ordered (ap_children p)" and trans: "admits_trans sp" and adm: "admitted_grants_with sp p g = (ds, res)"
  shows "case res of
      Inl e \<Rightarrow> (\<exists>m. e = Authorization m) \<and> ds \<noteq> [] \<and> \<not> allowed (last ds) \<and> list_all allowed (butlast ds)
    | Inr gs \<Rightarrow> list_all allowed ds \<and> length ds = 1 + 2 * length (ap_children p)
        \<and> gs 0 = Some g \<and> dom gs = insert 0 (rc_application_index ` set (ap_children p))
        \<and> caps_admits sp (eg_capabilities g) (co_capabilities (ap_requested p))
        \<and> (\<forall>c \<in> set (ap_children p). gs (rc_application_index c) = Some (from_delegation (rc_delegated c))
             \<and> caps_admits sp (eg_capabilities g) (co_capabilities (rc_delegated c))
             \<and> caps_admits sp (co_capabilities (rc_delegated c)) (co_capabilities (rc_requested c))
             \<and> caps_admits sp (eg_capabilities g) (co_capabilities (rc_requested c)))"
proof -
  let ?cs = "ap_children p" and ?kv = "\<lambda>c. (rc_application_index c, from_delegation (rc_delegated c))"
  have pp: "parents_present [0 \<mapsto> g] ?cs" using ord by (auto simp: plan_ordered_def parents_present_def)
  obtain ds' res' where a: "admit_children sp ?cs [0 \<mapsto> g] = (ds', res')" by force
  note dec = admit_children_decisions[OF a pp]
  show ?thesis
  proof (cases "caps_admits sp (eg_capabilities g) (co_capabilities (ap_requested p))")
    case False
    then show ?thesis using adm by (auto simp: admitted_grants_with_def Let_def grant_authorize_def)
  next
    case True
    then have eq: "res = res'" "\<exists>d. allowed d \<and> ds = d # ds'"
      using adm a by (auto simp: admitted_grants_with_def Let_def grant_authorize_def)
    show ?thesis
    proof (cases res')
      case (Inl e)
      then show ?thesis using dec eq by auto
    next
      case (Inr gs)
      have gs: "gs = [0 \<mapsto> g] ++ map_of (rev (map ?kv ?cs))" using dec Inr by simp
      have dist: "distinct (map fst (rev (map ?kv ?cs)))" using ord by (simp add: plan_ordered_def rev_map[symmetric] comp_def)
      have "gs (rc_application_index c) = Some (from_delegation (rc_delegated c))" if "c \<in> set ?cs" for c
        using map_of_is_SomeI[OF dist, of "rc_application_index c" "from_delegation (rc_delegated c)"] that gs by (auto simp: map_add_def)
      moreover have "map_of (rev (map ?kv ?cs)) 0 = None"
        using ord by (auto simp: plan_ordered_def map_of_eq_None_iff image_image)
      then have "gs 0 = Some g" by (simp add: gs map_add_def)
      moreover have "dom gs = insert 0 (rc_application_index ` set ?cs)" by (auto simp: gs dom_map_of_conv_image_fst image_image)
      moreover have "\<forall>c \<in> set ?cs. caps_admits sp (eg_capabilities g) (co_capabilities (rc_delegated c))
          \<and> caps_admits sp (eg_capabilities g) (co_capabilities (rc_requested c))
          \<and> caps_admits sp (co_capabilities (rc_delegated c)) (co_capabilities (rc_requested c))"
        by (rule admit_children_attenuates[OF a[unfolded Inr] trans]) (simp split: if_splits)
      moreover have "list_all allowed ds \<and> length ds = 1 + 2 * length ?cs" using dec Inr eq by auto
      ultimately show ?thesis using Inr eq True by simp
    qed
  qed
qed

text \<open>
  C4 Admission of a planned capability tree. Admission either succeeds with every decision shown
  to the observer allowed, two per child and one for the root, or fails with an authorization error
  and exactly one denied decision, the last one shown; a lost parent never happens. On success the
  root runs under the given grant, every child under exactly its delegated set, and nothing is granted
  to anybody else; every delegated and every requested set in the tree is admitted by the grant at the
  root, so authority only shrinks on the way down.
\<close>
theorem admitted_grants_attenuate:
  assumes l: "limits_ok limits" and codec: "manifest_codec_ok sp" and trans: "admits_trans sp"
    and run: "explain_application sp wc dc b limits lookup = Some (Inr r0)"
    and p: "into_application_plan (evaluate_providers ev r0) = Inr p"
    and adm: "admitted_grants_with sp p g = (ds, res)"
  shows "case res of
      Inl e \<Rightarrow> (\<exists>m. e = Authorization m) \<and> ds \<noteq> [] \<and> \<not> allowed (last ds) \<and> list_all allowed (butlast ds)
    | Inr gs \<Rightarrow> list_all allowed ds \<and> length ds = 1 + 2 * length (ap_children p)
        \<and> gs 0 = Some g \<and> dom gs = insert 0 (rc_application_index ` set (ap_children p))
        \<and> caps_admits sp (eg_capabilities g) (co_capabilities (ap_requested p))
        \<and> (\<forall>c \<in> set (ap_children p). gs (rc_application_index c) = Some (from_delegation (rc_delegated c))
             \<and> caps_admits sp (eg_capabilities g) (co_capabilities (rc_delegated c))
             \<and> caps_admits sp (co_capabilities (rc_delegated c)) (co_capabilities (rc_requested c))
             \<and> caps_admits sp (eg_capabilities g) (co_capabilities (rc_requested c)))"
  by (rule admitted_grants_tree [OF planned_ordered [OF l codec run p] trans adm])


theorem admitted_grants_attenuate_witness:
  "\<exists>r p. explain_application demo_space demo_contracts demo_codec demo_archive demo_limits demo_lookup = Some (Inr r)
     \<and> into_application_plan (evaluate_providers demo_evaluate r) = Inr p \<and> ap_children p \<noteq> []
     \<and> (\<exists>ds gs. admitted_grants_with demo_space p (local_baseline demo_space) = (ds, Inr gs) \<and> length ds = 1 + 2 * length (ap_children p))"
proof -
  obtain cs where r: "explain_application demo_space demo_contracts demo_codec demo_archive demo_limits demo_lookup =
     Some (Inr (plan_report_of demo_limits demo_input (demo_state cs)))" by (rule demo_explained)
  let ?r = "plan_report_of demo_limits demo_input (demo_state cs)"
  obtain p where p: "into_application_plan (evaluate_providers demo_evaluate ?r) = Inr p"
    "ap_requested p = demo_set" "\<exists>c. ap_children p = [c] \<and> rc_parent_application_index c = 0 \<and> rc_delegated c = demo_set \<and> rc_requested c = demo_set"
    by (simp add: plan_report_of_def Let_def evaluate_providers_def demo_state_def demo_input_def demo_root_def planned_layers_def
        planned_layer_at_def source_of_def demo_objects_def demo_evaluate_def demo_admission_def into_application_plan_def
        strict_layers_def strict_layer_def strict_child_def)
  have admits: "caps_admits demo_space empty_capabilities empty_capabilities"
    by (simp add: demo_space_def sample_space_def sample_admits_def)
  have "\<exists>ds gs. admitted_grants_with demo_space p (local_baseline demo_space) = (ds, Inr gs)"
    using p(2,3) admits by (auto simp: admitted_grants_with_def grant_authorize_def authorize_child_delegation_def local_baseline_def
        demo_set_def from_delegation_def Let_def)
  then obtain ds gs where a: "admitted_grants_with demo_space p (local_baseline demo_space) = (ds, Inr gs)" by blast
  from admitted_grants_attenuate[OF demo_space_ok r p(1) a] a r p show ?thesis by auto
qed

end
