(* ===== verification/Storage_Graph.thy ===== *)
theory Storage_Graph
  imports Store_Listing Space
begin

text \<open>
  Bounded resolution of typed storage graphs (\<open>src/holo_graph.rs\<close>): starting from admitted roots, every
  object of the local store that a typed object refers to is read and checked, within limits on depth,
  objects, edges and bytes. The registry of realizations and its reference extractors belong to the
  \<open>hologram\<close> crate and are a parameter.
\<close>

section \<open>Typed references\<close>

datatype realization_error = Truncated | Malformed | OtherRealization string

type_synonym realizations = "(string \<times> (bytes \<Rightarrow> realization_error + string list)) list"

definition graph_error :: "string \<Rightarrow> live_error" where
  "graph_error message = Capability (''typed storage graph '' @ message)"

definition checked_mul64 :: "nat \<Rightarrow> nat \<Rightarrow> nat option" where
  "checked_mul64 a b = (if a * b \<le> u64_max then Some (a * b) else None)"

text \<open>Four bytes at the cursor, little endian, and the cursor behind them.\<close>

definition read_u32 :: "bytes \<Rightarrow> nat \<Rightarrow> realization_error + nat \<times> nat" where
  "read_u32 b cursor =
     bindE (ok_or Truncated (checked_add64 cursor 4)) (\<lambda>finish.
       if finish \<le> length b then
         Inr (unat (b ! cursor) + 256 * unat (b ! (cursor + 1)) + 65536 * unat (b ! (cursor + 2))
              + 16777216 * unat (b ! (cursor + 3)), finish)
       else Inl Truncated)"

definition kappa_label_bytes :: nat where
  "kappa_label_bytes = 71"

definition validate_canonical_frame :: "bytes \<Rightarrow> nat \<Rightarrow> nat \<Rightarrow> realization_error + unit" where
  "validate_canonical_frame b nul extracted_references =
     bindE (ok_or Truncated (checked_add64 nul 1)) (\<lambda>cursor0.
     bindE (read_u32 b cursor0) (\<lambda>(count, cursor1).
     if count \<noteq> extracted_references then Inl Malformed
     else
       bindE (ok_or Truncated (checked_mul64 count kappa_label_bytes)) (\<lambda>labels.
       bindE (ok_or Truncated (checked_add64 cursor1 labels)) (\<lambda>cursor2.
       bindE (read_u32 b cursor2) (\<lambda>(payload_length, cursor3).
       bindE (ok_or Truncated (checked_add64 cursor3 payload_length)) (\<lambda>finish.
       if finish \<noteq> length b then Inl (if finish > length b then Truncated else Malformed) else Inr ()))))))"

definition typed_error :: "string \<Rightarrow> realization_error \<Rightarrow> live_error" where
  "typed_error iri e = graph_error ''contains a malformed typed realization''"

definition typed_references :: "realizations \<Rightarrow> bytes \<Rightarrow> string list live_result" where
  "typed_references reg b =
     (if 0 \<notin> set b then Inr []
      else
        let nul = length (takeWhile (\<lambda>x. x \<noteq> 0) b); iri_bytes = take nul b in
        if \<not> utf8_valid (map unat iri_bytes) then Inr []
        else
          let iri = bytes_string iri_bytes in
          case map_of reg iri of
            None \<Rightarrow> Inr []
          | Some extractor \<Rightarrow>
              bindE (map_err (typed_error iri) (extractor b)) (\<lambda>references.
              bindE (map_err (typed_error iri) (validate_canonical_frame b nul (length references))) (\<lambda>_.
              Inr references)))"

section \<open>Resolution\<close>

record graph_limits =
  gl_max_depth :: nat
  gl_max_objects :: nat
  gl_max_edges :: nat
  gl_max_resolved_bytes :: nat

definition default_graph_limits :: graph_limits where
  "default_graph_limits = \<lparr>gl_max_depth = 16, gl_max_objects = 512, gl_max_edges = 4096,
     gl_max_resolved_bytes = 64 * 1024 * 1024\<rparr>"

record graph_closure =
  gc_readable :: "string list"
  gc_edge_count :: nat
  gc_resolved_bytes :: nat
  gc_max_depth :: nat

record graph_state =
  gs_queue :: "(string \<times> nat) list"
  gs_seen :: "string list"
  gs_readable :: "string list"
  gs_edge_count :: nat
  gs_resolved_bytes :: nat
  gs_observed_depth :: nat

text \<open>Reading an object for the graph.\<close>

definition graph_read :: "object_store \<Rightarrow> string \<Rightarrow> bytes live_result" where
  "graph_read s kappa =
     map_err (\<lambda>e. case e of
         NotFound _ \<Rightarrow> graph_error ''is incomplete in the local object store''
       | _ \<Rightarrow> graph_error ''could not be read from the local object store'') (store_get s kappa)"

text \<open>One object seen for the first time.\<close>

definition visit_object ::
  "space \<Rightarrow> realizations \<Rightarrow> object_store \<Rightarrow> graph_limits \<Rightarrow> string \<Rightarrow> nat \<Rightarrow> graph_state \<Rightarrow> graph_state live_result"
where
  "visit_object sp reg s limits kappa depth st =
     (if length (gs_readable st) \<ge> gl_max_objects limits then Inl (graph_error ''exceeds the host object-count limit'')
      else if depth > gl_max_depth limits then Inl (graph_error ''exceeds the host depth limit'')
      else
        bindE (graph_read s kappa) (\<lambda>b.
        if address_bytes sp b \<noteq> kappa then
          Inl (graph_error (''contains an object whose bytes do not match its '' @ [CHR 0xCE, CHR 0xBA]))
        else
          bindE (ok_or (graph_error ''exceeds the host byte limit'')
                   (checked_add64 (gs_resolved_bytes st) (sat64 (length b)))) (\<lambda>resolved.
          if resolved > gl_max_resolved_bytes limits then Inl (graph_error ''exceeds the host byte limit'')
          else
            bindE (typed_references reg b) (\<lambda>references.
            bindE (ok_or (graph_error ''exceeds the host edge-count limit'')
                     (checked_add64 (gs_edge_count st) (length references))) (\<lambda>edges.
            if edges > gl_max_edges limits then Inl (graph_error ''exceeds the host edge-count limit'')
            else if depth = gl_max_depth limits \<and> references \<noteq> [] then Inl (graph_error ''exceeds the host depth limit'')
            else Inr (st\<lparr>gs_queue := gs_queue st @ map (\<lambda>r. (r, depth + 1)) references,
                         gs_readable := gs_readable st @ [kappa], gs_edge_count := edges,
                         gs_resolved_bytes := resolved, gs_observed_depth := max (gs_observed_depth st) depth\<rparr>))))))"

lemma visit_object_Inr:
  assumes "visit_object sp reg s limits kappa depth st = Inr st'"
  obtains b refs where "store_get s kappa = Inr b" "address_bytes sp b = kappa" "typed_references reg b = Inr refs"
    "st' = st\<lparr>gs_queue := gs_queue st @ map (\<lambda>r. (r, depth + 1)) refs, gs_readable := gs_readable st @ [kappa],
        gs_edge_count := gs_edge_count st + length refs, gs_resolved_bytes := gs_resolved_bytes st + sat64 (length b),
        gs_observed_depth := max (gs_observed_depth st) depth\<rparr>"
    "gs_edge_count st + length refs \<le> gl_max_edges limits" "gs_resolved_bytes st + sat64 (length b) \<le> gl_max_resolved_bytes limits"
    "length (gs_readable st) < gl_max_objects limits" "depth \<le> gl_max_depth limits"
  using assms
  by (auto simp: visit_object_def graph_read_def bindE_eq_Inr split: if_splits)

text \<open>The loop ends because every edge put on the queue is paid for out of the edge limit.\<close>

function graph_loop ::
  "space \<Rightarrow> realizations \<Rightarrow> object_store \<Rightarrow> graph_limits \<Rightarrow> graph_state \<Rightarrow> graph_closure live_result"
where
  "graph_loop sp reg s limits st =
     (case gs_queue st of
        [] \<Rightarrow> Inr \<lparr>gc_readable = gs_readable st, gc_edge_count = gs_edge_count st,
                  gc_resolved_bytes = gs_resolved_bytes st, gc_max_depth = gs_observed_depth st\<rparr>
      | (kappa, depth) # rest \<Rightarrow>
          if kappa \<in> set (gs_seen st) then graph_loop sp reg s limits (st\<lparr>gs_queue := rest\<rparr>)
          else
            (case visit_object sp reg s limits kappa depth (st\<lparr>gs_queue := rest, gs_seen := kappa # gs_seen st\<rparr>) of
               Inl e \<Rightarrow> Inl e
             | Inr st' \<Rightarrow> graph_loop sp reg s limits st'))"
  by pat_completeness auto
termination
proof (relation "measure (\<lambda>(sp, reg, s, limits, st). length (gs_queue st) + (gl_max_edges limits - gs_edge_count st))", goal_cases)
  case 1
  show ?case by simp
next
  case (2 sp reg s limits st x rest kappa depth)
  then show ?case by simp
next
  case (3 sp reg s limits st x rest kappa depth st')
  from 3(4) show ?case by (rule visit_object_Inr) (use 3 in simp)
qed

declare graph_loop.simps [simp del]

definition resolve_storage_graph ::
  "space \<Rightarrow> realizations \<Rightarrow> object_store \<Rightarrow> string list \<Rightarrow> graph_limits \<Rightarrow> graph_closure live_result"
where
  "resolve_storage_graph sp reg s roots limits =
     (if roots = [] then Inl (graph_error ''requires at least one storage root'')
      else if gl_max_objects limits = 0 \<or> gl_max_edges limits = 0 \<or> gl_max_resolved_bytes limits = 0 then
        Inl (graph_error ''has an invalid zero host limit'')
      else graph_loop sp reg s limits
             \<lparr>gs_queue = map (\<lambda>r. (r, 0)) roots, gs_seen = [], gs_readable = [], gs_edge_count = 0,
              gs_resolved_bytes = 0, gs_observed_depth = 0\<rparr>)"

section \<open>The graph\<close>

definition object_refs :: "realizations \<Rightarrow> object_store \<Rightarrow> string \<Rightarrow> string list" where
  "object_refs reg s k = (case store_get s k of Inl _ \<Rightarrow> [] | Inr b \<Rightarrow>
     (case typed_references reg b of Inl _ \<Rightarrow> [] | Inr refs \<Rightarrow> refs))"

definition object_size :: "object_store \<Rightarrow> string \<Rightarrow> nat" where
  "object_size s k = (case store_get s k of Inl _ \<Rightarrow> 0 | Inr b \<Rightarrow> sat64 (length b))"

text \<open>Objects at a distance from the roots.\<close>

inductive graph_reach :: "realizations \<Rightarrow> object_store \<Rightarrow> string list \<Rightarrow> nat \<Rightarrow> string \<Rightarrow> bool"
  for reg s roots
where
  root: "k \<in> set roots \<Longrightarrow> graph_reach reg s roots 0 k"
| edge: "graph_reach reg s roots n k \<Longrightarrow> k' \<in> set (object_refs reg s k) \<Longrightarrow> graph_reach reg s roots (Suc n) k'"

definition readable_ok :: "space \<Rightarrow> realizations \<Rightarrow> object_store \<Rightarrow> string \<Rightarrow> bool" where
  "readable_ok sp reg s k \<longleftrightarrow> (\<exists>b refs. store_get s k = Inr b \<and> address_bytes sp b = k \<and> typed_references reg b = Inr refs)"

definition graph_inv ::
  "space \<Rightarrow> realizations \<Rightarrow> object_store \<Rightarrow> graph_limits \<Rightarrow> string list \<Rightarrow> graph_state \<Rightarrow> bool"
where
  "graph_inv sp reg s limits roots st \<longleftrightarrow>
     gs_seen st = rev (gs_readable st) \<and> distinct (gs_readable st)
     \<and> set roots \<subseteq> set (gs_readable st) \<union> fst ` set (gs_queue st)
     \<and> (\<forall>k \<in> set (gs_readable st). readable_ok sp reg s k
          \<and> set (object_refs reg s k) \<subseteq> set (gs_readable st) \<union> fst ` set (gs_queue st)
          \<and> (\<exists>n \<le> gs_observed_depth st. graph_reach reg s roots n k))
     \<and> (\<forall>(k, n) \<in> set (gs_queue st). graph_reach reg s roots n k)
     \<and> gs_edge_count st = (\<Sum>k \<leftarrow> gs_readable st. length (object_refs reg s k)) \<and> gs_edge_count st \<le> gl_max_edges limits
     \<and> gs_resolved_bytes st = (\<Sum>k \<leftarrow> gs_readable st. object_size s k) \<and> gs_resolved_bytes st \<le> gl_max_resolved_bytes limits
     \<and> length (gs_readable st) \<le> gl_max_objects limits \<and> gs_observed_depth st \<le> gl_max_depth limits"

lemma graph_inv_skip:
  assumes "graph_inv sp reg s limits roots st" "gs_queue st = (k, d) # rest" "k \<in> set (gs_seen st)"
  shows "graph_inv sp reg s limits roots (st\<lparr>gs_queue := rest\<rparr>)"
  using assms by (fastforce simp: graph_inv_def)

lemma graph_inv_visit:
  assumes inv: "graph_inv sp reg s limits roots st" and q: "gs_queue st = (k, d) # rest" and new: "k \<notin> set (gs_seen st)"
    and v: "visit_object sp reg s limits k d (st\<lparr>gs_queue := rest, gs_seen := k # gs_seen st\<rparr>) = Inr st'"
  shows "graph_inv sp reg s limits roots st'"
  using v
proof (rule visit_object_Inr)
  fix b refs
  let ?st = "st\<lparr>gs_queue := rest, gs_seen := k # gs_seen st\<rparr>"
  assume o: "store_get s k = Inr b" "address_bytes sp b = k" "typed_references reg b = Inr refs"
    and st': "st' = ?st\<lparr>gs_queue := gs_queue ?st @ map (\<lambda>r. (r, d + 1)) refs, gs_readable := gs_readable ?st @ [k],
        gs_edge_count := gs_edge_count ?st + length refs, gs_resolved_bytes := gs_resolved_bytes ?st + sat64 (length b),
        gs_observed_depth := max (gs_observed_depth ?st) d\<rparr>"
    and lim: "gs_edge_count ?st + length refs \<le> gl_max_edges limits" "gs_resolved_bytes ?st + sat64 (length b) \<le> gl_max_resolved_bytes limits"
      "length (gs_readable ?st) < gl_max_objects limits" "d \<le> gl_max_depth limits"
  have refs: "object_refs reg s k = refs" "object_size s k = sat64 (length b)" using o by (simp_all add: object_refs_def object_size_def)
  have reach: "graph_reach reg s roots d k" using inv q by (auto simp: graph_inv_def)
  have "\<forall>x \<in> set (gs_readable st'). readable_ok sp reg s x
      \<and> set (object_refs reg s x) \<subseteq> set (gs_readable st') \<union> fst ` set (gs_queue st')
      \<and> (\<exists>n \<le> gs_observed_depth st'. graph_reach reg s roots n x)"
  proof (intro ballI conjI)
    fix x assume x: "x \<in> set (gs_readable st')"
    have cover: "set (gs_readable st) \<union> fst ` set (gs_queue st) \<subseteq> set (gs_readable st') \<union> fst ` set (gs_queue st')"
      by (auto simp: st' q)
    show "readable_ok sp reg s x" using x inv o by (auto simp: st' graph_inv_def readable_ok_def)
    show "set (object_refs reg s x) \<subseteq> set (gs_readable st') \<union> fst ` set (gs_queue st')"
    proof (cases "x = k")
      case True
      then show ?thesis by (auto simp: refs st' image_Un image_image)
    next
      case False
      then have "x \<in> set (gs_readable st)" using x by (simp add: st')
      then have "set (object_refs reg s x) \<subseteq> set (gs_readable st) \<union> fst ` set (gs_queue st)" using inv by (simp add: graph_inv_def)
      then show ?thesis using cover by (rule subset_trans)
    qed
    show "\<exists>n \<le> gs_observed_depth st'. graph_reach reg s roots n x"
    proof (cases "x = k")
      case True
      then show ?thesis using reach by (intro exI[of _ d]) (simp add: st')
    next
      case False
      then obtain n where "n \<le> gs_observed_depth st" "graph_reach reg s roots n x" using x inv by (auto simp: st' graph_inv_def)
      then show ?thesis by (intro exI[of _ n]) (simp add: st')
    qed
  qed
  moreover have "\<forall>(x, n) \<in> set (gs_queue st'). graph_reach reg s roots n x"
    using inv q reach refs(1) by (auto simp: st' graph_inv_def intro: graph_reach.edge)
  moreover have "set roots \<subseteq> set (gs_readable st') \<union> fst ` set (gs_queue st')" using inv q by (auto simp: st' graph_inv_def)
  ultimately show ?thesis using inv new lim refs by (simp add: graph_inv_def st')
qed

lemma graph_loop_inv:
  assumes "graph_loop sp reg s limits st = Inr c" "graph_inv sp reg s limits roots st"
  shows "\<exists>st'. graph_inv sp reg s limits roots st' \<and> gs_queue st' = [] \<and> c = \<lparr>gc_readable = gs_readable st',
     gc_edge_count = gs_edge_count st', gc_resolved_bytes = gs_resolved_bytes st', gc_max_depth = gs_observed_depth st'\<rparr>"
  using assms
proof (induction sp reg s limits st rule: graph_loop.induct)
  case (1 sp reg s limits st)
  show ?case
  proof (cases "gs_queue st")
    case Nil
    then show ?thesis using "1.prems" by (auto simp: graph_loop.simps)
  next
    case (Cons x rest)
    obtain k d where x: "x = (k, d)" by force
    show ?thesis
    proof (cases "k \<in> set (gs_seen st)")
      case True
      then have "graph_loop sp reg s limits (st\<lparr>gs_queue := rest\<rparr>) = Inr c"
        using "1.prems"(1) Cons x by (simp add: graph_loop.simps[of _ _ _ _ st])
      from "1.IH"(1)[OF Cons x[symmetric] True this] graph_inv_skip[OF "1.prems"(2) _ True] Cons x show ?thesis by blast
    next
      case False
      then obtain st' where v: "visit_object sp reg s limits k d (st\<lparr>gs_queue := rest, gs_seen := k # gs_seen st\<rparr>) = Inr st'"
        "graph_loop sp reg s limits st' = Inr c"
        using "1.prems"(1) Cons x by (auto simp: graph_loop.simps[of _ _ _ _ st] split: sum.splits)
      from "1.IH"(2)[OF Cons x[symmetric] False v] graph_inv_visit[OF "1.prems"(2) _ False v(1)] Cons x show ?thesis by blast
    qed
  qed
qed

lemma resolve_storage_graph_state:
  assumes "resolve_storage_graph sp reg s roots limits = Inr c"
  obtains st where "graph_inv sp reg s limits roots st" "gs_queue st = []"
    "c = \<lparr>gc_readable = gs_readable st, gc_edge_count = gs_edge_count st, gc_resolved_bytes = gs_resolved_bytes st,
       gc_max_depth = gs_observed_depth st\<rparr>"
    "set (gs_readable st) = {k. \<exists>n. graph_reach reg s roots n k}"
proof -
  let ?st = "\<lparr>gs_queue = map (\<lambda>r. (r, 0)) roots, gs_seen = [], gs_readable = [], gs_edge_count = 0,
              gs_resolved_bytes = 0, gs_observed_depth = 0\<rparr>"
  have "graph_loop sp reg s limits ?st = Inr c" using assms by (auto simp: resolve_storage_graph_def split: if_splits)
  moreover have "graph_inv sp reg s limits roots ?st" by (auto simp: graph_inv_def image_image intro: graph_reach.root)
  ultimately obtain st where st: "graph_inv sp reg s limits roots st" "gs_queue st = []"
    "c = \<lparr>gc_readable = gs_readable st, gc_edge_count = gs_edge_count st, gc_resolved_bytes = gs_resolved_bytes st,
       gc_max_depth = gs_observed_depth st\<rparr>" using graph_loop_inv by blast
  have "k \<in> set (gs_readable st)" if "graph_reach reg s roots n k" for n k
    using that by induction (use st(1,2) in \<open>auto simp: graph_inv_def\<close>)
  then have "set (gs_readable st) = {k. \<exists>n. graph_reach reg s roots n k}" using st(1) by (auto simp: graph_inv_def)
  then show thesis using that st by blast
qed

text \<open>
  C27 Resolving a storage graph. The loop always ends. A result lists exactly the objects
  reachable from the roots along typed references, each once: every root and everything a listed
  object refers to is listed, and nothing else. Each listed object was read from the local store, its bytes
  have its address, and its references could be read; a missing, altered or malformed object anywhere
  in the closure is an error, never a smaller closure. The counts are exact and within the host
  limits, and no listed object is further from the roots than the reported depth.
\<close>
theorem storage_graph_exact:
  assumes "resolve_storage_graph sp reg s roots limits = Inr c"
  shows "distinct (gc_readable c) \<and> set (gc_readable c) = {k. \<exists>n. graph_reach reg s roots n k}
     \<and> (\<forall>k \<in> set (gc_readable c). readable_ok sp reg s k \<and> (\<exists>n \<le> gc_max_depth c. graph_reach reg s roots n k))
     \<and> gc_edge_count c = (\<Sum>k \<leftarrow> gc_readable c. length (object_refs reg s k)) \<and> gc_edge_count c \<le> gl_max_edges limits
     \<and> gc_resolved_bytes c = (\<Sum>k \<leftarrow> gc_readable c. object_size s k) \<and> gc_resolved_bytes c \<le> gl_max_resolved_bytes limits
     \<and> length (gc_readable c) \<le> gl_max_objects limits \<and> gc_max_depth c \<le> gl_max_depth limits"
  using assms by (rule resolve_storage_graph_state) (auto simp: graph_inv_def)

theorem storage_graph_exact_witness:
  "\<exists>c. resolve_storage_graph sample_space [] sample_filled [sample_id] default_graph_limits = Inr c
     \<and> gc_readable c = [sample_id] \<and> gc_resolved_bytes c = 2 \<and> length (gc_readable c) \<le> 512"
proof -
  have get: "store_get sample_filled sample_id = Inr [1, 2]" by (rule sample_filled_facts)
  have addr: "address_bytes sample_space [1, 2] = sample_id" by (simp add: sample_space_def sample_host_def kappa_prefix_def)
  have "\<exists>c. resolve_storage_graph sample_space [] sample_filled [sample_id] default_graph_limits = Inr c
      \<and> gc_readable c = [sample_id] \<and> gc_resolved_bytes c = 2"
    by (simp add: resolve_storage_graph_def graph_loop.simps visit_object_def graph_read_def typed_references_def get[simplified] addr[simplified]
        default_graph_limits_def checked_add64_def sat64_def)
  then obtain c where c: "resolve_storage_graph sample_space [] sample_filled [sample_id] default_graph_limits = Inr c"
    "gc_readable c = [sample_id]" "gc_resolved_bytes c = 2" by blast
  have "length (gc_readable c) \<le> gl_max_objects default_graph_limits" using storage_graph_exact[OF c(1)] by blast
  then show ?thesis using c by (auto simp: default_graph_limits_def)
qed

end
