(* ===== verification/Module_Registry.thy ===== *)
theory Module_Registry
  imports App_Config Json "HOL-Library.Multiset"
begin

text \<open>
  The module registry (\<open>src/module.rs\<close>) over the built-in modules (\<open>src/modules/\<close>): dependency
  resolution by depth-first search with cycle detection, the table of operations and the start
  sequence. Routers and OpenAPI documents are left out. Sets of ids are lists used as sets.
\<close>

section \<open>Descriptors\<close>

datatype operation_kind = Read | Mutation | Stream

record operation_descriptor =
  op_id :: string
  op_kind :: operation_kind
  fallback_safe_before_dispatch :: bool

record module_descriptor =
  mo_id :: string
  mo_name :: string
  mo_version :: string
  mo_dependencies :: "string list"
  mo_operations :: "operation_descriptor list"

definition cargo_pkg_version :: string where
  "cargo_pkg_version = ''1.0.0''"

definition read_op :: "string \<Rightarrow> operation_descriptor" where
  "read_op i = \<lparr>op_id = i, op_kind = Read, fallback_safe_before_dispatch = True\<rparr>"

definition mutation_op :: "string \<Rightarrow> operation_descriptor" where
  "mutation_op i = \<lparr>op_id = i, op_kind = Mutation, fallback_safe_before_dispatch = False\<rparr>"

definition system_module :: module_descriptor where
  "system_module = \<lparr>mo_id = ''dev.hologram.live.system'', mo_name = ''Hologram Live System'', mo_version = cargo_pkg_version, mo_dependencies = [],
     mo_operations = [read_op ''system.handshake'', read_op ''system.health'', mutation_op ''system.shutdown'',
       read_op ''modules.list'', read_op ''tracing.get'', mutation_op ''tracing.set'', read_op ''plugin.list'',
       mutation_op ''plugin.call'']\<rparr>"

definition kappa_registry_module :: module_descriptor where
  "kappa_registry_module = \<lparr>mo_id = ''dev.hologram.live.kappa-registry'', mo_name = ''Kappa Registry Provider'', mo_version = cargo_pkg_version,
     mo_dependencies = [''dev.hologram.live.system''],
     mo_operations = [read_op ''registry.list'', read_op ''registry.get'', read_op ''registry.search'', mutation_op ''registry.put'']\<rparr>"

definition files_module :: module_descriptor where
  "files_module = \<lparr>mo_id = ''dev.hologram.live.files'', mo_name = ''Artifact Files'', mo_version = cargo_pkg_version,
     mo_dependencies = [''dev.hologram.live.kappa-registry''],
     mo_operations = [read_op ''files.list'', read_op ''files.get'', mutation_op ''files.put'', read_op ''files.search'',
       mutation_op ''files.rename'']\<rparr>"

definition holo_module :: module_descriptor where
  "holo_module = \<lparr>mo_id = ''dev.hologram.live.holo'', mo_name = ''Hologram Applications'', mo_version = cargo_pkg_version,
     mo_dependencies = [''dev.hologram.live.kappa-registry''],
     mo_operations = [mutation_op ''holo.import'', read_op ''holo.list'', read_op ''holo.inspect'', read_op ''holo.plan'',
       read_op ''holo.verify'', mutation_op ''holo.remove'', mutation_op ''holo.load'', mutation_op ''holo.unload'',
       \<lparr>op_id = ''holo.run'', op_kind = Stream, fallback_safe_before_dispatch = False\<rparr>, read_op ''holo.resident'']\<rparr>"

definition history_module :: module_descriptor where
  "history_module = \<lparr>mo_id = ''dev.hologram.live.history'', mo_name = ''Conversation History'', mo_version = cargo_pkg_version,
     mo_dependencies = [''dev.hologram.live.kappa-registry''],
     mo_operations = [mutation_op ''history.create'', read_op ''history.list'', read_op ''history.get'', mutation_op ''history.append'',
       mutation_op ''history.delete'', mutation_op ''history.archive'']\<rparr>"

definition chat_module :: module_descriptor where
  "chat_module = \<lparr>mo_id = ''dev.hologram.live.chat'', mo_name = ''Chat'', mo_version = cargo_pkg_version, mo_dependencies = [''dev.hologram.live.history''],
     mo_operations = [mutation_op ''chat.send'']\<rparr>"

definition inference_module :: module_descriptor where
  "inference_module = \<lparr>mo_id = ''dev.hologram.live.inference'', mo_name = ''Inference'', mo_version = cargo_pkg_version,
     mo_dependencies = [''dev.hologram.live.kappa-registry''],
     mo_operations = [read_op ''model.list'', mutation_op ''model.import'', mutation_op ''model.remove'']\<rparr>"

definition openai_compat_module :: module_descriptor where
  "openai_compat_module = \<lparr>mo_id = ''dev.hologram.live.openai-compat'', mo_name = ''OpenAI-Compatible API'', mo_version = cargo_pkg_version,
     mo_dependencies = [''dev.hologram.live.inference''], mo_operations = []\<rparr>"

definition ollama_compat_module :: module_descriptor where
  "ollama_compat_module = \<lparr>mo_id = ''dev.hologram.live.ollama-compat'', mo_name = ''Ollama-Compatible API'', mo_version = cargo_pkg_version,
     mo_dependencies = [''dev.hologram.live.inference''], mo_operations = []\<rparr>"

definition control_plane_module :: module_descriptor where
  "control_plane_module = \<lparr>mo_id = ''dev.hologram.live.control-plane'', mo_name = ''Control Plane Foundation'', mo_version = cargo_pkg_version,
     mo_dependencies = [''dev.hologram.live.system''],
     mo_operations = [read_op ''nodes.list'', mutation_op ''nodes.heartbeat'']\<rparr>"

definition builtins :: "module_descriptor list" where
  "builtins = [system_module, kappa_registry_module, files_module, holo_module, history_module, chat_module,
     inference_module, openai_compat_module, ollama_compat_module, control_plane_module]"

lemma default_builtin_ids_builtins: "default_builtin_ids = map mo_id builtins"
  by (simp add: default_builtin_ids_def builtins_def system_module_def kappa_registry_module_def files_module_def holo_module_def
      history_module_def chat_module_def inference_module_def openai_compat_module_def ollama_compat_module_def
      control_plane_module_def)

section \<open>Building the registry\<close>

record visit_state =
  vs_visiting :: "string list"
  vs_visited :: "string list"
  vs_ordered :: "module_descriptor list"

type_synonym module_table = "string \<rightharpoonup> module_descriptor"

text \<open>Fuel bounds the depth of the recursion; \<open>None\<close> is running out of it.\<close>

function (sequential) visit ::
  "nat \<Rightarrow> string list \<Rightarrow> module_table \<Rightarrow> string \<Rightarrow> visit_state \<Rightarrow> visit_state live_result option"
and visit_dependencies ::
  "nat \<Rightarrow> string list \<Rightarrow> module_table \<Rightarrow> string \<Rightarrow> string list \<Rightarrow> visit_state \<Rightarrow> visit_state live_result option"
where
  "visit 0 enabled available i st = None"
| "visit (Suc n) enabled available i st =
     (if i \<in> set (vs_visited st) then Some (Inr st)
      else if i \<in> set (vs_visiting st) then Some (Inl (Conflict (''module dependency cycle includes '' @ i)))
      else
        (case available i of
           None \<Rightarrow> Some (Inl (Capability (''unknown module '' @ i)))
         | Some m \<Rightarrow>
             (case visit_dependencies n enabled available i (mo_dependencies m) (st\<lparr>vs_visiting := i # vs_visiting st\<rparr>) of
                None \<Rightarrow> None
              | Some (Inl e) \<Rightarrow> Some (Inl e)
              | Some (Inr st') \<Rightarrow>
                  Some (Inr (st'\<lparr>vs_visiting := removeAll i (vs_visiting st'), vs_visited := i # vs_visited st',
                                 vs_ordered := vs_ordered st' @ [m]\<rparr>)))))"
| "visit_dependencies n enabled available i [] st = Some (Inr st)"
| "visit_dependencies n enabled available i (d # ds) st =
     (if d \<notin> set enabled then Some (Inl (Capability (''module '' @ i @ '' requires disabled module '' @ d)))
      else
        (case visit n enabled available d st of
           None \<Rightarrow> None
         | Some (Inl e) \<Rightarrow> Some (Inl e)
         | Some (Inr st') \<Rightarrow> visit_dependencies n enabled available i ds st'))"
  by pat_completeness auto
termination
  by (relation "measures [\<lambda>x. case x of Inl (n, _) \<Rightarrow> n | Inr (n, _) \<Rightarrow> n,
        \<lambda>x. case x of Inl _ \<Rightarrow> 0 | Inr (_, _, _, _, ds, _) \<Rightarrow> Suc (length ds)]") auto

fun visit_all ::
  "nat \<Rightarrow> string list \<Rightarrow> module_table \<Rightarrow> string list \<Rightarrow> visit_state \<Rightarrow> visit_state live_result option"
where
  "visit_all n enabled available [] st = Some (Inr st)"
| "visit_all n enabled available (i # is) st =
     (case visit n enabled available i st of
        None \<Rightarrow> None
      | Some (Inl e) \<Rightarrow> Some (Inl e)
      | Some (Inr st') \<Rightarrow> visit_all n enabled available is st')"

record module_registry =
  mr_modules :: "module_descriptor list"
  mr_operations :: "(string \<times> operation_descriptor) list"

fun collect_operations ::
  "operation_descriptor list \<Rightarrow> (string \<times> operation_descriptor) list \<Rightarrow> (string \<times> operation_descriptor) list live_result"
where
  "collect_operations [] ops = Inr ops"
| "collect_operations (x # xs) ops =
     (if op_id x \<in> fst ` set ops then
        Inl (Conflict (''operation '' @ op_id x @ '' is provided by more than one module''))
      else collect_operations xs (map_insert (op_id x) x ops))"

definition available_modules :: "module_descriptor list \<Rightarrow> module_table" where
  "available_modules ms = map_of (rev (map (\<lambda>m. (mo_id m, m)) ms))"

text \<open>\<open>ModuleRegistry::build\<close>, for a given list of linked modules; the fuel exceeds the number of
  modules a chain of distinct visited ids can have.\<close>

definition registry_build :: "module_descriptor list \<Rightarrow> string list \<Rightarrow> module_registry live_result option" where
  "registry_build ms enabled =
     (let enabled_set = sort (remdups enabled) in
      case visit_all (Suc (length ms)) enabled_set (available_modules ms) enabled_set
             \<lparr>vs_visiting = [], vs_visited = [], vs_ordered = []\<rparr> of
        None \<Rightarrow> None
      | Some (Inl e) \<Rightarrow> Some (Inl e)
      | Some (Inr st) \<Rightarrow>
          Some (bindE (collect_operations (concat (map mo_operations (vs_ordered st))) []) (\<lambda>ops.
            Inr \<lparr>mr_modules = vs_ordered st, mr_operations = ops\<rparr>)))"

definition registry_supports :: "module_registry \<Rightarrow> string \<Rightarrow> bool" where
  "registry_supports r operation \<longleftrightarrow> map_of (mr_operations r) operation \<noteq> None"

definition registry_operation :: "module_registry \<Rightarrow> string \<Rightarrow> operation_descriptor option" where
  "registry_operation r operation = map_of (mr_operations r) operation"

definition registry_operations :: "module_registry \<Rightarrow> operation_descriptor list" where
  "registry_operations r = map snd (mr_operations r)"

record module_info =
  mi_id :: string
  mi_name :: string
  mi_version :: string
  mi_state :: string
  mi_dependencies :: "string list"
  mi_operations :: "string list"

definition registry_info :: "module_registry \<Rightarrow> module_info list" where
  "registry_info r = map (\<lambda>m. \<lparr>mi_id = mo_id m, mi_name = mo_name m, mi_version = mo_version m, mi_state = ''ready'',
     mi_dependencies = mo_dependencies m, mi_operations = map op_id (mo_operations m)\<rparr>) (mr_modules r)"

text \<open>Starting the modules in order; the world they act on is a parameter.\<close>

fun start_modules ::
  "(module_descriptor \<Rightarrow> 'w \<Rightarrow> 'w \<times> unit live_result) \<Rightarrow> module_descriptor list \<Rightarrow> 'w \<Rightarrow> 'w \<times> unit live_result"
where
  "start_modules start [] w = (w, Inr ())"
| "start_modules start (m # ms) w =
     (case start m w of
        (w', Inl e) \<Rightarrow> (w', Inl (Conflict (''start module '' @ mo_id m @ '': '' @ error_message e)))
      | (w', Inr _) \<Rightarrow> start_modules start ms w')"

definition registry_start ::
  "(module_descriptor \<Rightarrow> 'w \<Rightarrow> 'w \<times> unit live_result) \<Rightarrow> module_registry \<Rightarrow> 'w \<Rightarrow> 'w \<times> unit live_result"
where
  "registry_start start r w = start_modules start (mr_modules r) w"

section \<open>Depth-first search\<close>

definition ids :: "module_descriptor list \<Rightarrow> string list" where
  "ids ms = map mo_id ms"

text \<open>Every module comes after the modules it depends on.\<close>

definition topological :: "module_descriptor list \<Rightarrow> bool" where
  "topological ms \<longleftrightarrow> (\<forall>j < length ms. set (mo_dependencies (ms ! j)) \<subseteq> set (ids (take j ms)))"

definition visit_inv :: "string list \<Rightarrow> module_table \<Rightarrow> visit_state \<Rightarrow> bool" where
  "visit_inv enabled available st \<longleftrightarrow> ids (vs_ordered st) = rev (vs_visited st) \<and> distinct (vs_visited st)
     \<and> distinct (vs_visiting st) \<and> set (vs_visiting st) \<inter> set (vs_visited st) = {}
     \<and> set (vs_visited st) \<subseteq> set enabled \<and> (\<forall>m \<in> set (vs_ordered st). available (mo_id m) = Some m)
     \<and> topological (vs_ordered st)"

definition visit_grows :: "visit_state \<Rightarrow> visit_state \<Rightarrow> bool" where
  "visit_grows st st' \<longleftrightarrow> vs_visiting st' = vs_visiting st \<and> set (vs_visited st) \<subseteq> set (vs_visited st')"

lemma topological_snoc: "topological ms \<Longrightarrow> set (mo_dependencies m) \<subseteq> set (ids ms) \<Longrightarrow> topological (ms @ [m])"
  by (auto simp: topological_def nth_append less_Suc_eq)

lemma visit_sound:
  assumes "\<And>i m. available i = Some m \<Longrightarrow> mo_id m = i"
  shows "visit n enabled available i st = Some (Inr st') \<Longrightarrow> visit_inv enabled available st \<Longrightarrow> i \<in> set enabled
      \<Longrightarrow> visit_inv enabled available st' \<and> visit_grows st st' \<and> i \<in> set (vs_visited st')"
    and "visit_dependencies n enabled available i ds st = Some (Inr st') \<Longrightarrow> visit_inv enabled available st
      \<Longrightarrow> visit_inv enabled available st' \<and> visit_grows st st' \<and> set ds \<subseteq> set (vs_visited st')"
  using assms
proof (induction n enabled available i st and n enabled available i ds st arbitrary: st' and st' rule: visit_visit_dependencies.induct)
  case (2 n enabled available i st)
  show ?case
  proof (cases "i \<in> set (vs_visited st)")
    case True
    then show ?thesis using 2 by (auto simp: visit_grows_def)
  next
    case False
    with "2.prems"(1) obtain m st1 where m: "i \<notin> set (vs_visiting st)" "available i = Some m"
      "visit_dependencies n enabled available i (mo_dependencies m) (st\<lparr>vs_visiting := i # vs_visiting st\<rparr>) = Some (Inr st1)"
      "st' = st1\<lparr>vs_visiting := removeAll i (vs_visiting st1), vs_visited := i # vs_visited st1, vs_ordered := vs_ordered st1 @ [m]\<rparr>"
      by (auto split: if_splits option.splits sum.splits)
    have "visit_inv enabled available (st\<lparr>vs_visiting := i # vs_visiting st\<rparr>)"
      using "2.prems"(2) False m(1) by (simp add: visit_inv_def)
    note IH = "2.IH"[OF False m(1,2,3) this "2.prems"(4)]
    have vis: "vs_visiting st1 = i # vs_visiting st" using IH by (simp add: visit_grows_def)
    have "topological (vs_ordered st')" unfolding m(4)
      using IH by (auto simp: visit_inv_def ids_def intro!: topological_snoc)
    moreover have "mo_id m = i" by (rule "2.prems"(4)[OF m(2)])
    moreover have "i \<notin> set (vs_visited st1)" using IH vis by (auto simp: visit_inv_def)
    ultimately show ?thesis using IH m "2.prems"(2,3) vis by (auto simp: visit_inv_def visit_grows_def ids_def)
  qed
next
  case (4 n enabled available i d ds st)
  from "4.prems"(1) obtain st1 where r: "\<not> d \<notin> set enabled" "visit n enabled available d st = Some (Inr st1)"
    "visit_dependencies n enabled available i ds st1 = Some (Inr st')"
    by (auto split: if_splits option.splits sum.splits)
  have d: "d \<in> set enabled" using r(1) by simp
  note IH1 = "4.IH"(1)[OF r(1,2) "4.prems"(2) d "4.prems"(3)]
  from "4.IH"(2)[OF r(1,2) refl r(3) _ "4.prems"(3)] IH1 show ?case by (auto simp: visit_grows_def)
qed (auto simp: visit_grows_def)

text \<open>The recursion is never deeper than the number of modules.\<close>

lemma visit_fuel:
  assumes "\<And>i m. available i = Some m \<Longrightarrow> mo_id m = i" "finite (dom available)"
  shows "visit_inv enabled available st \<Longrightarrow> i \<in> set enabled \<Longrightarrow> card (dom available - set (vs_visiting st)) < n
      \<Longrightarrow> visit n enabled available i st \<noteq> None"
    and "visit_inv enabled available st \<Longrightarrow> card (dom available - set (vs_visiting st)) < n
      \<Longrightarrow> visit_dependencies n enabled available i ds st \<noteq> None"
  using assms
proof (induction n enabled available i st and n enabled available i ds st rule: visit_visit_dependencies.induct)
  case (2 n enabled available i st)
  show ?case
  proof (cases "i \<in> set (vs_visited st) \<or> i \<in> set (vs_visiting st) \<or> available i = None")
    case True
    then show ?thesis by auto
  next
    case False
    then obtain m where m: "i \<notin> set (vs_visited st)" "i \<notin> set (vs_visiting st)" "available i = Some m" by auto
    have "dom available - set (i # vs_visiting st) \<subset> dom available - set (vs_visiting st)" using m by auto
    then have "card (dom available - set (i # vs_visiting st)) < card (dom available - set (vs_visiting st))"
      by (rule psubset_card_mono[rotated]) (simp add: "2.prems"(5))
    then have "card (dom available - set (i # vs_visiting st)) < n" using "2.prems"(3) by simp
    moreover have "visit_inv enabled available (st\<lparr>vs_visiting := i # vs_visiting st\<rparr>)"
      using "2.prems"(1) m by (simp add: visit_inv_def)
    ultimately have "visit_dependencies n enabled available i (mo_dependencies m) (st\<lparr>vs_visiting := i # vs_visiting st\<rparr>) \<noteq> None"
      using "2.IH"[OF m] "2.prems"(4,5) by simp
    then show ?thesis using m by (auto split: sum.splits)
  qed
next
  case (4 n enabled available i d ds st)
  show ?case
  proof (cases "d \<in> set enabled")
    case True
    then have "visit n enabled available d st \<noteq> None" using "4.IH"(1) "4.prems" by simp
    then obtain r where r: "visit n enabled available d st = Some r" by blast
    show ?thesis
    proof (cases r)
      case (Inl e)
      then show ?thesis using True r by simp
    next
      case (Inr st1)
      have s: "visit_inv enabled available st1 \<and> visit_grows st st1 \<and> d \<in> set (vs_visited st1)"
        by (rule visit_sound(1)[OF "4.prems"(3) r[unfolded Inr] "4.prems"(1) True])
      then have "visit_dependencies n enabled available i ds st1 \<noteq> None"
        using "4.IH"(2)[OF _ r Inr] True "4.prems" by (simp add: visit_grows_def)
      then show ?thesis using True r Inr by simp
    qed
  qed simp
qed auto

text \<open>With all dependencies enabled and ranked, no error arises.\<close>

definition resolvable :: "string list \<Rightarrow> module_table \<Rightarrow> (string \<Rightarrow> nat) \<Rightarrow> bool" where
  "resolvable enabled available rank \<longleftrightarrow> (\<forall>i \<in> set enabled. \<exists>m. available i = Some m
     \<and> (\<forall>d \<in> set (mo_dependencies m). d \<in> set enabled \<and> rank d < rank i))"

lemma visit_complete:
  assumes "\<And>i m. available i = Some m \<Longrightarrow> mo_id m = i" "resolvable enabled available rank"
  shows "visit_inv enabled available st \<Longrightarrow> i \<in> set enabled \<Longrightarrow> \<forall>v \<in> set (vs_visiting st). rank i < rank v
      \<Longrightarrow> visit n enabled available i st \<noteq> Some (Inl e)"
    and "visit_inv enabled available st \<Longrightarrow> \<forall>d \<in> set ds. d \<in> set enabled \<and> (\<forall>v \<in> set (vs_visiting st). rank d < rank v)
      \<Longrightarrow> visit_dependencies n enabled available i ds st \<noteq> Some (Inl e)"
  using assms
proof (induction n enabled available i st and n enabled available i ds st arbitrary: e and e rule: visit_visit_dependencies.induct)
  case (2 n enabled available i st)
  show ?case
  proof (cases "i \<in> set (vs_visited st)")
    case False
    have v: "i \<notin> set (vs_visiting st)" using "2.prems"(3) by auto
    obtain m where m: "available i = Some m" "\<forall>d \<in> set (mo_dependencies m). d \<in> set enabled \<and> rank d < rank i"
      using "2.prems"(2,5) by (auto simp: resolvable_def)
    have "visit_inv enabled available (st\<lparr>vs_visiting := i # vs_visiting st\<rparr>)"
      using "2.prems"(1) False v by (simp add: visit_inv_def)
    then have "visit_dependencies n enabled available i (mo_dependencies m) (st\<lparr>vs_visiting := i # vs_visiting st\<rparr>) \<noteq> Some (Inl x)" for x
      using "2.IH"[OF False v m(1)] m(2) "2.prems"(3-5) by fastforce
    then show ?thesis using False v m(1) by (auto split: option.splits sum.splits)
  qed simp
next
  case (4 n enabled available i d ds st)
  have d: "\<not> d \<notin> set enabled" "d \<in> set enabled" using "4.prems"(2) by simp_all
  have no: "visit n enabled available d st \<noteq> Some (Inl x)" for x using "4.IH"(1)[OF d(1)] "4.prems" by simp
  show ?case
  proof (cases "visit n enabled available d st")
    case None
    then show ?thesis using d by simp
  next
    case (Some r)
    then obtain st1 where r: "visit n enabled available d st = Some (Inr st1)" using no by (cases r) auto
    have s: "visit_inv enabled available st1 \<and> visit_grows st st1 \<and> d \<in> set (vs_visited st1)"
      by (rule visit_sound(1)[OF "4.prems"(3) r "4.prems"(1) d(2)])
    then show ?thesis using "4.IH"(2)[OF d(1) r refl] "4.prems"(2-4) r d by (simp add: visit_grows_def)
  qed
qed auto

lemma visit_all_spec:
  assumes av: "\<And>i m. available i = Some m \<Longrightarrow> mo_id m = i" "finite (dom available)"
    and "visit_inv enabled available st" "vs_visiting st = []" "set js \<subseteq> set enabled" "card (dom available) < n"
  shows "\<exists>r. visit_all n enabled available js st = Some r
    \<and> (\<forall>st'. r = Inr st' \<longrightarrow> visit_inv enabled available st' \<and> set (vs_visited st) \<union> set js \<subseteq> set (vs_visited st'))
    \<and> (\<forall>rank. resolvable enabled available rank \<longrightarrow> (\<exists>st'. r = Inr st'))"
  using assms(3-5)
proof (induction js arbitrary: st)
  case (Cons i js)
  have i: "i \<in> set enabled" using Cons.prems(3) by simp
  obtain r where r: "visit n enabled available i st = Some r"
    using visit_fuel(1)[OF av Cons.prems(1) i, of n] assms(6) Cons.prems(2) by auto
  show ?case
  proof (cases r)
    case (Inl e)
    then show ?thesis using r visit_complete(1)[OF av(1) _ Cons.prems(1) i, of _ n e] Cons.prems(2) by auto
  next
    case (Inr st1)
    note s = visit_sound(1)[OF av(1) r[unfolded Inr] Cons.prems(1) i]
    have "\<exists>r. visit_all n enabled available js st1 = Some r
        \<and> (\<forall>st'. r = Inr st' \<longrightarrow> visit_inv enabled available st' \<and> set (vs_visited st1) \<union> set js \<subseteq> set (vs_visited st'))
        \<and> (\<forall>rank. resolvable enabled available rank \<longrightarrow> (\<exists>st'. r = Inr st'))"
      by (rule Cons.IH) (use s Cons.prems(2,3) in \<open>simp_all add: visit_grows_def\<close>)
    then obtain q where q: "visit_all n enabled available js st1 = Some q"
      "\<forall>st'. q = Inr st' \<longrightarrow> visit_inv enabled available st' \<and> set (vs_visited st1) \<union> set js \<subseteq> set (vs_visited st')"
      "\<forall>rank. resolvable enabled available rank \<longrightarrow> (\<exists>st'. q = Inr st')" by (elim exE conjE) (rule that)
    have "set (vs_visited st) \<union> set (i # js) \<subseteq> set (vs_visited st1) \<union> set js" using s by (auto simp: visit_grows_def)
    then show ?thesis using r Inr q by (intro exI[of _ q]) (simp, blast)
  qed
qed simp

section \<open>Operations\<close>

lemma collect_operations_ok:
  "(\<exists>ops'. collect_operations xs ops = Inr ops') \<longleftrightarrow> distinct (map op_id xs) \<and> set (map op_id xs) \<inter> fst ` set ops = {}"
  by (induction xs ops rule: collect_operations.induct) (auto simp: map_insert_fst)

lemma collect_operations_map:
  "collect_operations xs ops = Inr ops' \<Longrightarrow> map_of ops' = map_of ops ++ map_of (map (\<lambda>x. (op_id x, x)) xs)"
proof (induction xs ops rule: collect_operations.induct)
  case (2 x xs ops)
  then have step: "collect_operations xs (map_insert (op_id x) x ops) = Inr ops'" "op_id x \<notin> fst ` set ops" by (auto split: if_splits)
  then have "op_id x \<notin> set (map op_id xs)" using collect_operations_ok[of xs "map_insert (op_id x) x ops"] by (auto simp: map_insert_fst)
  then have "map_of (map (\<lambda>x. (op_id x, x)) xs) (op_id x) = None" by (auto simp: map_of_eq_None_iff image_image)
  with "2.IH"[OF step(2,1)] show ?case by (auto simp: fun_eq_iff map_add_def split: option.splits)
qed simp

lemma collect_operations_sorted:
  "collect_operations xs ops = Inr ops' \<Longrightarrow> sorted_wrt (<) (map fst ops) \<Longrightarrow> sorted_wrt (<) (map fst ops')"
  by (induction xs ops rule: collect_operations.induct) (auto simp: map_insert_sorted split: if_splits)

section \<open>The registry\<close>

text \<open>The modules enabled by a configuration, when all of them are linked.\<close>

definition enabled_modules :: "module_descriptor list \<Rightarrow> string list \<Rightarrow> module_descriptor list" where
  "enabled_modules ms enabled = map (\<lambda>i. the (available_modules ms i)) (filter (\<lambda>i. available_modules ms i \<noteq> None) (remdups enabled))"

definition operation_ids :: "module_descriptor list \<Rightarrow> string list" where
  "operation_ids ms = map op_id (concat (map mo_operations ms))"

text \<open>Everything enabled is linked, its dependencies are enabled, some ranking puts every module above
  its dependencies, and no operation is offered twice.\<close>

definition buildable :: "module_descriptor list \<Rightarrow> string list \<Rightarrow> bool" where
  "buildable ms enabled \<longleftrightarrow> (\<exists>rank. resolvable enabled (available_modules ms) rank)
     \<and> distinct (operation_ids (enabled_modules ms enabled))"

lemma available_modules_id: "available_modules ms i = Some m \<Longrightarrow> mo_id m = i"
  by (auto simp: available_modules_def dest: map_of_SomeD)

lemma available_modules_dom: "finite (dom (available_modules ms))" "card (dom (available_modules ms)) \<le> length ms"
proof -
  have "dom (available_modules ms) = mo_id ` set ms" by (simp add: available_modules_def dom_map_of_conv_image_fst image_image)
  then show "finite (dom (available_modules ms))" "card (dom (available_modules ms)) \<le> length ms"
    by (simp_all add: card_length[of "map mo_id ms", simplified])
qed

lemma resolvable_set: "set xs = set ys \<Longrightarrow> resolvable xs available rank = resolvable ys available rank"
  by (simp add: resolvable_def)

lemma topological_resolvable:
  assumes "topological ms" "distinct (ids ms)" "set (ids ms) = set enabled" "\<forall>m \<in> set ms. available (mo_id m) = Some m"
  shows "\<exists>rank. resolvable enabled available rank"
proof -
  let ?rank = "\<lambda>i. LEAST j. j < length ms \<and> mo_id (ms ! j) = i"
  have rank: "?rank (mo_id (ms ! j)) = j" if "j < length ms" for j
    by (rule Least_equality) (use that assms(2) in \<open>auto simp: ids_def distinct_conv_nth intro: leI\<close>)
  have "\<exists>m. available i = Some m \<and> (\<forall>d \<in> set (mo_dependencies m). d \<in> set enabled \<and> ?rank d < ?rank i)" if "i \<in> set enabled" for i
  proof -
    have "i \<in> set (ids ms)" using that assms(3) by simp
    then obtain j where j: "j < length ms" "i = mo_id (ms ! j)" by (auto simp: ids_def in_set_conv_nth)
    have "d \<in> set enabled \<and> ?rank d < j" if dd: "d \<in> set (mo_dependencies (ms ! j))" for d
    proof -
      have "d \<in> set (ids (take j ms))" using dd assms(1) j(1) by (auto simp: topological_def)
      then obtain k where k: "k < j" "d = mo_id (ms ! k)" by (auto simp: ids_def in_set_conv_nth)
      then show ?thesis using rank[of k] j(1) assms(3) by (auto simp: ids_def simp flip: assms(3))
    qed
    then show ?thesis using assms(4) j rank[OF j(1)] by auto
  qed
  then show ?thesis unfolding resolvable_def by (intro exI[of _ ?rank]) blast
qed

lemma enabled_modules_perm:
  assumes "distinct (ids ordered)" "set (ids ordered) = set enabled" "\<forall>m \<in> set ordered. available_modules ms (mo_id m) = Some m"
  shows "mset (enabled_modules ms enabled) = mset ordered"
proof -
  have dist: "distinct ordered" using assms(1) by (auto simp: ids_def distinct_map)
  have "set (enabled_modules ms enabled) = set ordered"
  proof (rule set_eqI)
    fix m
    have "m \<in> set (enabled_modules ms enabled) \<longleftrightarrow> (\<exists>i \<in> set (ids ordered). available_modules ms i = Some m)"
      by (auto simp: enabled_modules_def assms(2) image_iff intro!: bexI)
    also have "\<dots> \<longleftrightarrow> m \<in> set ordered" using assms(3) by (auto simp: ids_def)
    finally show "m \<in> set (enabled_modules ms enabled) \<longleftrightarrow> m \<in> set ordered" .
  qed
  moreover have "distinct (enabled_modules ms enabled)"
  proof -
    have "inj_on (\<lambda>i. the (available_modules ms i)) {i. available_modules ms i \<noteq> None}"
      by (rule inj_onI) (metis (mono_tags, lifting) available_modules_id mem_Collect_eq option.collapse)
    then show ?thesis by (auto simp: enabled_modules_def distinct_map intro: inj_on_subset)
  qed
  ultimately show ?thesis using dist by (metis set_eq_iff_mset_eq_distinct)
qed

lemma operation_ids_perm:
  assumes "mset xs = mset ys"
  shows "distinct (operation_ids xs) = distinct (operation_ids ys)"
proof -
  have "mset (operation_ids zs) = \<Sum>\<^sub># (image_mset (\<lambda>m. mset (map op_id (mo_operations m))) (mset zs))" for zs
    by (induction zs) (auto simp: operation_ids_def)
  then have "mset (operation_ids xs) = mset (operation_ids ys)" using assms by simp
  then show ?thesis by (rule mset_eq_imp_distinct_iff)
qed

lemmas builtin_defs = system_module_def kappa_registry_module_def files_module_def holo_module_def
  history_module_def chat_module_def inference_module_def openai_compat_module_def ollama_compat_module_def
  control_plane_module_def read_op_def mutation_op_def

text \<open>The modules linked into the daemon can be enabled together.\<close>

definition builtin_rank :: "string \<Rightarrow> nat" where
  "builtin_rank i = (if i = ''dev.hologram.live.system'' then 0 else if i = ''dev.hologram.live.kappa-registry'' then 1
     else if i = ''dev.hologram.live.history'' \<or> i = ''dev.hologram.live.inference'' then 2 else 3)"

lemma builtins_distinct: "distinct (map mo_id builtins)"
  unfolding default_builtin_ids_builtins[symmetric] by (simp add: default_builtin_ids_def)

lemma builtins_available: "m \<in> set builtins \<Longrightarrow> available_modules builtins (mo_id m) = Some m"
  unfolding available_modules_def using builtins_distinct
  by (intro map_of_is_SomeI) (auto simp: comp_def rev_map simp flip: rev_map)

lemma builtins_resolvable: "resolvable default_builtin_ids (available_modules builtins) builtin_rank"
proof -
  have "\<forall>m \<in> set builtins. \<forall>d \<in> set (mo_dependencies m). d \<in> set default_builtin_ids \<and> builtin_rank d < builtin_rank (mo_id m)"
    by (simp add: builtins_def builtin_defs default_builtin_ids_def builtin_rank_def)
  then show ?thesis using builtins_available by (fastforce simp: resolvable_def default_builtin_ids_builtins)
qed

lemma builtins_buildable: "buildable builtins default_builtin_ids"
proof -
  have "remdups (map mo_id builtins) = map mo_id builtins" using builtins_distinct by (rule distinct_remdups_id)
  moreover have "filter (\<lambda>i. available_modules builtins i \<noteq> None) (map mo_id builtins) = map mo_id builtins"
    using builtins_available by (auto intro: filter_True)
  moreover have "map (\<lambda>m. the (available_modules builtins (mo_id m))) builtins = builtins"
    by (rule map_idI) (simp add: builtins_available)
  ultimately have "enabled_modules builtins default_builtin_ids = builtins"
    by (simp only: enabled_modules_def default_builtin_ids_builtins comp_def map_map)
  moreover have "distinct (operation_ids builtins)" by (simp add: operation_ids_def builtins_def builtin_defs)
  ultimately show ?thesis using builtins_resolvable by (auto simp: buildable_def)
qed

text \<open>
  C26 Building the module registry. The search always ends. It succeeds exactly when the
  enabled modules are all linked, depend only on enabled modules, admit a ranking above their
  dependencies and offer no operation twice. The registry then holds every enabled module once and nothing
  else, each after all the modules it depends on, and its operation table answers for exactly the
  operations of those modules, with their own descriptors and in ascending order.
\<close>
theorem registry_build_exact:
  "\<exists>res. registry_build ms enabled = Some res \<and> (is_ok res \<longleftrightarrow> buildable ms enabled)
     \<and> (\<forall>r. res = Inr r \<longrightarrow> distinct (ids (mr_modules r)) \<and> set (ids (mr_modules r)) = set enabled
          \<and> (\<forall>m \<in> set (mr_modules r). available_modules ms (mo_id m) = Some m) \<and> topological (mr_modules r)
          \<and> (\<forall>x. registry_operation r x = map_of (map (\<lambda>d. (op_id d, d)) (concat (map mo_operations (mr_modules r)))) x)
          \<and> (\<forall>x. registry_supports r x \<longleftrightarrow> x \<in> set (operation_ids (mr_modules r)))
          \<and> sorted_wrt (<) (map fst (mr_operations r)))"
proof -
  let ?en = "sort (remdups enabled)" and ?av = "available_modules ms"
  let ?st = "\<lparr>vs_visiting = [], vs_visited = [], vs_ordered = []\<rparr>"
  have av: "\<And>i m. ?av i = Some m \<Longrightarrow> mo_id m = i" by (rule available_modules_id)
  have i0: "visit_inv ?en ?av ?st" by (simp add: visit_inv_def ids_def topological_def)
  have f0: "card (dom ?av) < Suc (length ms)" using available_modules_dom(2)[of ms] by simp
  obtain r where r: "visit_all (Suc (length ms)) ?en ?av ?en ?st = Some r"
    "\<forall>st'. r = Inr st' \<longrightarrow> visit_inv ?en ?av st' \<and> set enabled \<subseteq> set (vs_visited st')"
    "\<forall>rank. resolvable ?en ?av rank \<longrightarrow> (\<exists>st'. r = Inr st')"
    using visit_all_spec[OF av available_modules_dom(1) i0 _ _ f0, where js = ?en] by auto
  show ?thesis
  proof (cases r)
    case (Inl e)
    then have "\<not> buildable ms enabled"
      using r(3) resolvable_set[of ?en enabled ?av] by (auto simp: buildable_def)
    then show ?thesis using r(1) Inl by (auto simp: registry_build_def Let_def)
  next
    case (Inr st)
    let ?ms = "vs_ordered st"
    have inv: "visit_inv ?en ?av st" "set enabled \<subseteq> set (vs_visited st)" using r(2) Inr by simp_all
    have facts: "distinct (ids ?ms)" "set (ids ?ms) = set enabled" "\<forall>m \<in> set ?ms. ?av (mo_id m) = Some m" "topological ?ms"
      using inv by (auto simp: visit_inv_def)
    have rank: "\<exists>rank. resolvable enabled ?av rank" by (rule topological_resolvable[OF facts(4,1,2,3)])
    have ops: "distinct (operation_ids (enabled_modules ms enabled)) = distinct (operation_ids ?ms)"
      by (rule operation_ids_perm[OF enabled_modules_perm[OF facts(1-3)]])
    let ?c = "collect_operations (concat (map mo_operations ?ms)) []"
    have ok: "is_ok ?c \<longleftrightarrow> buildable ms enabled"
      using collect_operations_ok[of "concat (map mo_operations ?ms)" "[]"] rank ops by (simp add: is_ok_iff buildable_def operation_ids_def)
    have b: "registry_build ms enabled = Some (bindE ?c (\<lambda>ops. Inr \<lparr>mr_modules = ?ms, mr_operations = ops\<rparr>))"
      using r(1) Inr by (simp add: registry_build_def Let_def)
    show ?thesis
    proof (cases ?c)
      case (Inl e)
      then show ?thesis using b ok by simp
    next
      case (Inr t)
      have t: "map_of t = map_of (map (\<lambda>d. (op_id d, d)) (concat (map mo_operations ?ms)))" "sorted_wrt (<) (map fst t)"
        using collect_operations_map[OF Inr] collect_operations_sorted[OF Inr] by simp_all
      have "map_of t x \<noteq> None \<longleftrightarrow> x \<in> set (operation_ids ?ms)" for x
        unfolding t(1) operation_ids_def map_of_eq_None_iff by (simp add: image_image)
      then show ?thesis using b ok Inr facts t
        by (simp add: registry_operation_def registry_supports_def)
    qed
  qed
qed

theorem registry_build_exact_witness:
  "\<exists>r. registry_build builtins default_builtin_ids = Some (Inr r) \<and> set (ids (mr_modules r)) = set default_builtin_ids
     \<and> topological (mr_modules r)"
proof -
  obtain res where res: "registry_build builtins default_builtin_ids = Some res" "is_ok res \<longleftrightarrow> buildable builtins default_builtin_ids"
    "\<forall>r. res = Inr r \<longrightarrow> set (ids (mr_modules r)) = set default_builtin_ids \<and> topological (mr_modules r)"
    using registry_build_exact[of builtins default_builtin_ids] by blast
  then obtain r where "res = Inr r" using builtins_buildable by (auto simp: is_ok_iff)
  then show ?thesis using res by blast
qed

end
