(* ===== verification/Channel_Broker.thy ===== *)
theory Channel_Broker
  imports Prelude
begin

text \<open>
  The in-memory channel broker (\<open>src/holo_channel.rs\<close>): bounded mailboxes keyed by a channel label,
  \<open>publish\<close> and \<open>try_receive\<close>. Each call holds the broker's mutex from its first access to its
  last, so a concurrent execution is a sequence of calls in the order the lock was taken; a run is
  that sequence with the answer of every call.

  The contract a client relies on is the locale \<open>fifo_channels\<close>: what one call does to the queue
  of each channel. First-in first-out delivery, at-most-once delivery and the bound on how many
  receives a message waits for are proved once from it and hold for the broker by interpretation.
\<close>

section \<open>ChannelBroker\<close>

datatype channel_error = MessageTooLarge | MailboxFull | StateUnavailable

text \<open>\<open>cb_poisoned\<close> says that a thread panicked while it held the mutex: \<open>lock()\<close> then fails.\<close>

record channel_broker =
  cb_message_max_bytes :: nat
  cb_mailbox_capacity :: nat
  cb_mailboxes :: "string \<rightharpoonup> bytes list"
  cb_poisoned :: bool

definition channel_message_max_bytes :: nat where
  "channel_message_max_bytes = 64 * 1024"

definition channel_mailbox_capacity :: nat where
  "channel_mailbox_capacity = 64"

definition broker_new :: "nat \<Rightarrow> nat \<Rightarrow> channel_broker" where
  "broker_new message_max capacity =
     \<lparr>cb_message_max_bytes = max message_max 1, cb_mailbox_capacity = max capacity 1,
      cb_mailboxes = Map.empty, cb_poisoned = False\<rparr>"

definition default_broker :: channel_broker where
  "default_broker = broker_new channel_message_max_bytes channel_mailbox_capacity"

definition publish :: "channel_broker \<Rightarrow> string \<Rightarrow> bytes \<Rightarrow> channel_broker \<times> (channel_error + unit)" where
  "publish b channel message =
     (if length message > cb_message_max_bytes b then (b, Inl MessageTooLarge)
      else if cb_poisoned b then (b, Inl StateUnavailable)
      else
        (let mailbox = (case cb_mailboxes b channel of Some q \<Rightarrow> q | None \<Rightarrow> []);
             entered = b\<lparr>cb_mailboxes := (cb_mailboxes b)(channel \<mapsto> mailbox)\<rparr> in
         if length mailbox \<ge> cb_mailbox_capacity b then (entered, Inl MailboxFull)
         else (entered\<lparr>cb_mailboxes := (cb_mailboxes entered)(channel \<mapsto> mailbox @ [message])\<rparr>, Inr ())))"

definition try_receive :: "channel_broker \<Rightarrow> string \<Rightarrow> channel_broker \<times> (channel_error + bytes option)" where
  "try_receive b channel =
     (if cb_poisoned b then (b, Inl StateUnavailable)
      else case cb_mailboxes b channel of
        None \<Rightarrow> (b, Inr None)
      | Some mailbox \<Rightarrow>
          (let message = (case mailbox of [] \<Rightarrow> None | m # _ \<Rightarrow> Some m);
               rest = drop 1 mailbox in
           (b\<lparr>cb_mailboxes := (cb_mailboxes b)(channel := if rest = [] then None else Some rest)\<rparr>,
            Inr message)))"

section \<open>Runs\<close>

datatype channel_call = Publish string bytes | Receive string

datatype channel_event =
    Accepted string bytes
  | Rejected string bytes channel_error
  | Delivered string bytes
  | NothingQueued string
  | ReceiveFailed string channel_error

fun broker_step :: "channel_broker \<Rightarrow> channel_call \<Rightarrow> channel_broker \<times> channel_event" where
  "broker_step b (Publish c m) =
     (case publish b c m of (b', Inr _) \<Rightarrow> (b', Accepted c m) | (b', Inl e) \<Rightarrow> (b', Rejected c m e))"
| "broker_step b (Receive c) =
     (case try_receive b c of
        (b', Inr (Some m)) \<Rightarrow> (b', Delivered c m)
      | (b', Inr None) \<Rightarrow> (b', NothingQueued c)
      | (b', Inl e) \<Rightarrow> (b', ReceiveFailed c e))"

fun run_calls :: "('s \<Rightarrow> channel_call \<Rightarrow> 's \<times> channel_event) \<Rightarrow> channel_call list \<Rightarrow> 's \<Rightarrow> 's \<times> channel_event list" where
  "run_calls step [] s = (s, [])"
| "run_calls step (c # cs) s =
     (let (s1, e) = step s c; (s2, es) = run_calls step cs s1 in (s2, e # es))"

text \<open>What a run accepted on a channel and delivered from it, in order, and how often it asked.\<close>

fun accepted :: "string \<Rightarrow> channel_event list \<Rightarrow> bytes list" where
  "accepted c [] = []"
| "accepted c (Accepted d m # es) = (if d = c then m # accepted c es else accepted c es)"
| "accepted c (_ # es) = accepted c es"

fun delivered :: "string \<Rightarrow> channel_event list \<Rightarrow> bytes list" where
  "delivered c [] = []"
| "delivered c (Delivered d m # es) = (if d = c then m # delivered c es else delivered c es)"
| "delivered c (_ # es) = delivered c es"

definition receives :: "string \<Rightarrow> channel_call list \<Rightarrow> nat" where
  "receives c cs = length (filter (\<lambda>x. x = Receive c) cs)"

section \<open>The contract of a set of FIFO channels\<close>

locale fifo_channels =
  fixes queue :: "'s \<Rightarrow> string \<Rightarrow> bytes list"
    and step :: "'s \<Rightarrow> channel_call \<Rightarrow> 's \<times> channel_event"
    and ready :: "'s \<Rightarrow> bool"
  assumes step_ready: "ready s \<Longrightarrow> step s call = (s', e) \<Longrightarrow> ready s'"
    and step_publish: "ready s \<Longrightarrow> step s (Publish c m) = (s', e) \<Longrightarrow>
      (e = Accepted c m \<and> queue s' = (queue s)(c := queue s c @ [m]))
      \<or> ((\<exists>err. e = Rejected c m err) \<and> queue s' = queue s)"
    and step_receive_empty: "ready s \<Longrightarrow> step s (Receive c) = (s', e) \<Longrightarrow> queue s c = [] \<Longrightarrow>
      e = NothingQueued c \<and> queue s' = queue s"
    and step_receive: "ready s \<Longrightarrow> step s (Receive c) = (s', e) \<Longrightarrow> queue s c = m # ms \<Longrightarrow>
      e = Delivered c m \<and> queue s' = (queue s)(c := ms)"
begin

lemma step_fifo:
  assumes "ready s" and "step s call = (s', e)"
  shows "queue s c @ accepted c [e] = delivered c [e] @ queue s' c"
proof (cases call)
  case (Publish d m)
  then show ?thesis using step_publish assms by fastforce
next
  case (Receive d)
  show ?thesis
  proof (cases "queue s d")
    case Nil
    then show ?thesis using step_receive_empty assms Receive by fastforce
  next
    case (Cons m ms)
    then show ?thesis using step_receive assms Receive by fastforce
  qed
qed

lemma accepted_Cons: "accepted c (e # es) = accepted c [e] @ accepted c es"
  by (cases e) auto

lemma delivered_Cons: "delivered c (e # es) = delivered c [e] @ delivered c es"
  by (cases e) auto

lemma run_ready: "ready s \<Longrightarrow> run_calls step cs s = (s', es) \<Longrightarrow> ready s'"
  by (induction cs arbitrary: s s' es) (auto split: prod.splits dest: step_ready)

lemma run_fifo:
  "ready s \<Longrightarrow> run_calls step cs s = (s', es) \<Longrightarrow> queue s c @ accepted c es = delivered c es @ queue s' c"
proof (induction cs arbitrary: s s' es)
  case Nil
  then show ?case by simp
next
  case (Cons call cs)
  obtain s1 e where step: "step s call = (s1, e)" by fastforce
  obtain es' where rest: "run_calls step cs s1 = (s', es')" "es = e # es'"
    using Cons.prems(2) step by (auto split: prod.splits)
  have "queue s1 c @ accepted c es' = delivered c es' @ queue s' c"
    using Cons.IH rest(1) step_ready Cons.prems(1) step by blast
  then show ?case
    using step_fifo [OF Cons.prems(1) step, of c] rest(2) accepted_Cons [of c e es'] delivered_Cons [of c e es']
    by (metis append.assoc)
qed

lemma delivers_waiting:
  "ready s \<Longrightarrow> run_calls step cs s = (s', es) \<Longrightarrow> n \<le> receives c cs \<Longrightarrow> n \<le> length (queue s c)
     \<Longrightarrow> n \<le> length (delivered c es)"
proof (induction cs arbitrary: s s' es n)
  case Nil
  then show ?case by (simp add: receives_def)
next
  case (Cons call cs)
  obtain s1 e where step: "step s call = (s1, e)" by fastforce
  obtain es' where rest: "run_calls step cs s1 = (s', es')" "es = e # es'"
    using Cons.prems(2) step by (auto split: prod.splits)
  have r1: "ready s1" using step_ready Cons.prems(1) step by blast
  note law = step_fifo [OF Cons.prems(1) step, of c]
  have len: "length (queue s c) \<le> length (delivered c [e]) + length (queue s1 c)"
    using arg_cong [where f = length, OF law] by simp
  show ?case
  proof (cases "call = Receive c \<and> n > 0")
    case True
    then obtain m ms where q: "queue s c = m # ms"
      using Cons.prems(4) by (cases "queue s c") auto
    have e: "e = Delivered c m" "queue s1 c = ms"
      using step_receive [OF Cons.prems(1)] step True q by fastforce+
    have "n - 1 \<le> length (delivered c es')"
      using True Cons.prems(3,4) q e by (intro Cons.IH [OF r1 rest(1)]) (auto simp: receives_def)
    then show ?thesis using e rest(2) by simp
  next
    case False
    then have "delivered c [e] = [] \<or> n = 0"
      using step_publish [OF Cons.prems(1)] step_receive_empty [OF Cons.prems(1)]
        step_receive [OF Cons.prems(1)] step
      by (cases call; cases "queue s (case call of Receive d \<Rightarrow> d | Publish d m \<Rightarrow> d)") fastforce+
    then show ?thesis
    proof
      assume none: "delivered c [e] = []"
      have "n \<le> length (delivered c es')"
        using False Cons.prems(3,4) len none by (intro Cons.IH [OF r1 rest(1)]) (auto simp: receives_def)
      then show ?thesis using rest(2) delivered_Cons [of c e es'] by simp
    qed simp
  qed
qed

text \<open>A queued message is delivered, after exactly those ahead of it, once its channel has been
  asked often enough, whatever else happens in between.\<close>

lemma waiting_delivered:
  assumes "ready s" and "run_calls step cs s = (s', es)" and "queue s c = xs @ m # ys" and "length xs < receives c cs"
  shows "\<exists>zs. delivered c es = xs @ m # zs"
proof -
  have "Suc (length xs) \<le> length (delivered c es)"
    using delivers_waiting [OF assms(1,2), of "Suc (length xs)" c] assms(3,4) by simp
  moreover have "take (Suc (length xs)) (delivered c es @ queue s' c) = take (Suc (length xs)) (xs @ m # ys @ accepted c es)"
    using run_fifo [OF assms(1,2), of c] assms(3) by simp
  ultimately have "take (Suc (length xs)) (delivered c es) = xs @ [m]" by simp
  then show ?thesis by (metis append_take_drop_id append.assoc append_Cons append_Nil)
qed

end

section \<open>The broker keeps the contract\<close>

definition mailbox :: "channel_broker \<Rightarrow> string \<Rightarrow> bytes list" where
  "mailbox b c = (case cb_mailboxes b c of Some q \<Rightarrow> q | None \<Rightarrow> [])"

text \<open>The invariant: the limits are positive, the lock is usable, no mailbox is empty, none is over
  its capacity, and no message is over the size limit.\<close>

definition broker_ok :: "channel_broker \<Rightarrow> bool" where
  "broker_ok b \<longleftrightarrow> \<not> cb_poisoned b \<and> cb_mailbox_capacity b > 0 \<and> cb_message_max_bytes b > 0
     \<and> (\<forall>c q. cb_mailboxes b c = Some q \<longrightarrow> q \<noteq> [] \<and> length q \<le> cb_mailbox_capacity b
          \<and> (\<forall>m \<in> set q. length m \<le> cb_message_max_bytes b))"

lemma broker_new_ok: "broker_ok (broker_new n k)"
  by (simp add: broker_ok_def broker_new_def less_max_iff_disj)

lemma broker_ok_upd:
  "broker_ok b \<Longrightarrow> (\<And>q'. q = Some q' \<Longrightarrow> q' \<noteq> [] \<and> length q' \<le> cb_mailbox_capacity b \<and> (\<forall>m \<in> set q'. length m \<le> cb_message_max_bytes b))
     \<Longrightarrow> broker_ok (b\<lparr>cb_mailboxes := (cb_mailboxes b)(c := q)\<rparr>)"
  by (simp add: broker_ok_def)

lemma mailbox_ok:
  "broker_ok b \<Longrightarrow> length (mailbox b c) \<le> cb_mailbox_capacity b \<and> (\<forall>m \<in> set (mailbox b c). length m \<le> cb_message_max_bytes b)"
  by (auto simp: broker_ok_def mailbox_def split: option.splits)

lemma publish_outcome:
  assumes "broker_ok b"
  shows "publish b c m =
    (if length m > cb_message_max_bytes b then (b, Inl MessageTooLarge)
     else if length (mailbox b c) \<ge> cb_mailbox_capacity b then (b, Inl MailboxFull)
     else (b\<lparr>cb_mailboxes := (cb_mailboxes b)(c \<mapsto> mailbox b c @ [m])\<rparr>, Inr ()))"
  using assms by (auto simp: publish_def broker_ok_def mailbox_def Let_def fun_upd_idem split: option.splits)

lemma try_receive_outcome:
  assumes "broker_ok b"
  shows "try_receive b c =
    (case mailbox b c of [] \<Rightarrow> (b, Inr None)
     | m # ms \<Rightarrow> (b\<lparr>cb_mailboxes := (cb_mailboxes b)(c := if ms = [] then None else Some ms)\<rparr>, Inr (Some m)))"
  using assms by (auto simp: try_receive_def broker_ok_def mailbox_def Let_def split: option.splits list.splits)

lemma publish_ok: "broker_ok b \<Longrightarrow> publish b c m = (b', r) \<Longrightarrow> broker_ok b'"
  using mailbox_ok [of b c] by (auto simp: publish_outcome split: if_splits intro!: broker_ok_upd)

lemma try_receive_ok: "broker_ok b \<Longrightarrow> try_receive b c = (b', r) \<Longrightarrow> broker_ok b'"
  using mailbox_ok [of b c] by (auto simp: try_receive_outcome split: list.splits if_splits intro!: broker_ok_upd)

lemma broker_step_ok: "broker_ok b \<Longrightarrow> broker_step b call = (b', e) \<Longrightarrow> broker_ok b'"
  by (cases call) (auto split: prod.splits sum.splits option.splits intro: publish_ok try_receive_ok)

interpretation broker: fifo_channels mailbox broker_step broker_ok
proof
  fix b call b' e
  assume "broker_ok b" "broker_step b call = (b', e)"
  then show "broker_ok b'" by (rule broker_step_ok)
next
  fix b c m b' e
  assume "broker_ok b" "broker_step b (Publish c m) = (b', e)"
  then show "(e = Accepted c m \<and> mailbox b' = (mailbox b)(c := mailbox b c @ [m]))
      \<or> ((\<exists>err. e = Rejected c m err) \<and> mailbox b' = mailbox b)"
    by (auto simp: publish_outcome mailbox_def fun_eq_iff split: if_splits)
next
  fix b c b' e
  assume "broker_ok b" "broker_step b (Receive c) = (b', e)" "mailbox b c = []"
  then show "e = NothingQueued c \<and> mailbox b' = mailbox b"
    by (auto simp: try_receive_outcome)
next
  fix b c b' e m ms
  assume "broker_ok b" "broker_step b (Receive c) = (b', e)" "mailbox b c = m # ms"
  then show "e = Delivered c m \<and> mailbox b' = (mailbox b)(c := ms)"
    by (auto simp: try_receive_outcome mailbox_def fun_eq_iff split: if_splits)
qed

lemma run_limits:
  "run_calls broker_step cs b = (b', es) \<Longrightarrow>
     cb_mailbox_capacity b' = cb_mailbox_capacity b \<and> cb_message_max_bytes b' = cb_message_max_bytes b"
proof (induction cs arbitrary: b es)
  case (Cons c cs)
  then show ?case
    by (cases c) (fastforce simp: publish_def try_receive_def Let_def split: prod.splits sum.splits option.splits if_splits)+
qed simp

text \<open>
  C14 Channels are bounded first-in first-out queues with at-most-once delivery: after any sequence of
  calls on a new broker, the messages delivered from a channel followed by those still in its mailbox
  are exactly the messages accepted on it, in the order of acceptance; a mailbox never holds more
  messages than the capacity, no message is longer than the limit, an empty mailbox occupies no
  memory, and the limits are the configured ones raised to at least one.
\<close>
theorem channel_fifo_bounded:
  "run_calls broker_step calls (broker_new message_max capacity) = (b, events) \<longrightarrow>
     accepted c events = delivered c events @ mailbox b c
     \<and> length (mailbox b c) \<le> max capacity 1 \<and> (\<forall>m \<in> set (mailbox b c). length m \<le> max message_max 1)
     \<and> (cb_mailboxes b c = None \<longleftrightarrow> mailbox b c = [])"
proof
  assume run: "run_calls broker_step calls (broker_new message_max capacity) = (b, events)"
  have ok: "broker_ok b" by (rule broker.run_ready [OF broker_new_ok run])
  have new: "mailbox (broker_new message_max capacity) c = []"
    by (simp add: mailbox_def broker_new_def)
  have lim: "cb_mailbox_capacity b = max capacity 1" "cb_message_max_bytes b = max message_max 1"
    using run_limits [OF run] by (simp_all add: broker_new_def)
  show "accepted c events = delivered c events @ mailbox b c
     \<and> length (mailbox b c) \<le> max capacity 1 \<and> (\<forall>m \<in> set (mailbox b c). length m \<le> max message_max 1)
     \<and> (cb_mailboxes b c = None \<longleftrightarrow> mailbox b c = [])"
    using broker.run_fifo [OF broker_new_ok run, of c] new ok lim
    by (auto simp: broker_ok_def mailbox_def split: option.splits)
qed

theorem channel_fifo_bounded_witness:
  "let (b, events) = run_calls broker_step
        [Publish ''a'' [1], Publish ''b'' [7], Publish ''a'' [2], Publish ''a'' [3], Receive ''a''] (broker_new 4 2)
   in events = [Accepted ''a'' [1], Accepted ''b'' [7], Accepted ''a'' [2], Rejected ''a'' [3] MailboxFull, Delivered ''a'' [1]]
      \<and> accepted ''a'' events = delivered ''a'' events @ mailbox b ''a''"
  using channel_fifo_bounded [of "[Publish ''a'' [1], Publish ''b'' [7], Publish ''a'' [2], Publish ''a'' [3], Receive ''a'']" 4 2 _ _ "''a''"]
  by (simp add: broker_new_def publish_def try_receive_def Let_def mailbox_def)

text \<open>
  An accepted message is eventually delivered: on a broker in any reachable state, a message that
  waits in a mailbox behind \<open>n\<close> others is delivered, directly after those \<open>n\<close>, in every further
  sequence of calls that asks its channel more than \<open>n\<close> times, whatever is published or received
  on any channel in between.
\<close>
theorem channel_message_delivered:
  assumes "broker_ok b" and "mailbox b c = ahead @ m # behind"
    and "run_calls broker_step calls b = (b', events)" and "length ahead < receives c calls"
  shows "\<exists>later. delivered c events = ahead @ m # later"
  by (rule broker.waiting_delivered [OF assms(1,3,2,4)])

theorem channel_message_delivered_witness:
  "\<exists>later. delivered ''a'' (snd (run_calls broker_step [Receive ''a'', Receive ''b'', Receive ''a'']
       (fst (run_calls broker_step [Publish ''a'' [1], Publish ''a'' [2]] default_broker)))) = [1] # [2] # later"
  using channel_message_delivered
    [of "fst (run_calls broker_step [Publish ''a'' [1], Publish ''a'' [2]] default_broker)" "''a''" "[[1]]" "[2]" "[]"
        "[Receive ''a'', Receive ''b'', Receive ''a'']"
        "fst (run_calls broker_step [Receive ''a'', Receive ''b'', Receive ''a''] (fst (run_calls broker_step [Publish ''a'' [1], Publish ''a'' [2]] default_broker)))"
        "snd (run_calls broker_step [Receive ''a'', Receive ''b'', Receive ''a''] (fst (run_calls broker_step [Publish ''a'' [1], Publish ''a'' [2]] default_broker)))"]
  by (auto simp: default_broker_def channel_message_max_bytes_def channel_mailbox_capacity_def broker_new_def
    publish_def try_receive_def Let_def broker_ok_def mailbox_def receives_def split: if_splits)

end
