(* ===== verification/Artifact_Manifest.thy ===== *)
theory Artifact_Manifest
  imports Json Errors
begin

text \<open>
  The distribution format of a named artifact (\<open>src/artifact_manifest.rs\<close>): an OCI manifest whose
  layers are one archive and the payload blobs it references. Encoding, decoding, the choice of the
  archive layer, and the round trip between them. The JSON reader and writer (crate \<open>serde_json\<close>)
  are the codec parameter of theory \<open>Json\<close>.
\<close>

section \<open>ArtifactManifest\<close>

definition artifact_manifest_type :: string where
  "artifact_manifest_type = ''application/vnd.hologram.artifact.v1+json''"

definition role_annotation :: string where
  "role_annotation = ''dev.hologram.role''"

definition kind_annotation :: string where
  "kind_annotation = ''dev.hologram.kind''"

definition name_annotation :: string where
  "name_annotation = ''dev.hologram.name''"

definition tag_annotation :: string where
  "tag_annotation = ''dev.hologram.tag''"

lemmas annotation_names = role_annotation_def kind_annotation_def name_annotation_def tag_annotation_def

datatype layer_role = ArchiveRole | LayerRole

record artifact_layer =
  al_kappa :: string
  al_media_type :: string
  al_size :: nat
  al_role :: layer_role

record artifact_manifest =
  amf_layers :: "artifact_layer list"
  amf_kind :: "string option"
  amf_name :: "string option"
  amf_tag :: "string option"

definition is_blake3 :: "string \<Rightarrow> bool" where
  "is_blake3 kappa =
     (case strip_prefix ''blake3:'' kappa of None \<Rightarrow> False
      | Some digest \<Rightarrow> length digest = 64
          \<and> list_all (\<lambda>b. is_ascii_hexdigit b \<and> \<not> is_ascii_uppercase b) digest)"

definition decode_entry :: "json \<Rightarrow> artifact_layer live_result" where
  "decode_entry entry =
     bindE (ok_or (Protocol ''artifact manifest layer has no digest'') (Option.bind (json_get ''digest'' entry) as_str)) (\<lambda>kappa.
     if \<not> is_blake3 kappa
     then Inl (Protocol (''artifact manifest layer digest '' @ debug_str kappa @ '' is not a blake3 kappa''))
     else Inr \<lparr>al_kappa = kappa,
       al_media_type = (case Option.bind (json_get ''mediaType'' entry) as_str of Some t \<Rightarrow> t | None \<Rightarrow> ''application/octet-stream''),
       al_size = (case Option.bind (json_get ''size'' entry) as_u64 of Some n \<Rightarrow> n | None \<Rightarrow> 0),
       al_role = (if Option.bind (Option.bind (json_get ''annotations'' entry) (json_get role_annotation)) as_str = Some ''archive''
                  then ArchiveRole else LayerRole)\<rparr>)"

definition artifact_annotation :: "json \<Rightarrow> string \<Rightarrow> string option" where
  "artifact_annotation document key =
     Option.bind (Option.bind (json_get ''annotations'' document) as_object)
       (\<lambda>m. Option.bind (map_of m key) as_str)"

definition artifact_decode :: "json_codec \<Rightarrow> bytes \<Rightarrow> artifact_manifest live_result" where
  "artifact_decode jc body =
     bindE (map_err Protocol (json_of_bytes jc body)) (\<lambda>document.
     bindE (ok_or (Protocol ''artifact manifest has no layers'') (Option.bind (json_get ''layers'' document) as_array)) (\<lambda>entries.
     bindE (mapE decode_entry entries) (\<lambda>layers.
     Inr \<lparr>amf_layers = layers, amf_kind = artifact_annotation document kind_annotation,
          amf_name = artifact_annotation document name_annotation, amf_tag = artifact_annotation document tag_annotation\<rparr>)))"

definition artifact_archive :: "artifact_manifest \<Rightarrow> artifact_layer live_result" where
  "artifact_archive m =
     (case filter (\<lambda>l. al_role l = ArchiveRole) (amf_layers m) of
        [] \<Rightarrow> Inl (Protocol ''artifact manifest declares no archive layer'')
      | [l] \<Rightarrow> Inr l
      | _ \<Rightarrow> Inl (Protocol ''artifact manifest declares more than one archive layer''))"

definition artifact_payloads :: "artifact_manifest \<Rightarrow> artifact_layer list" where
  "artifact_payloads m = filter (\<lambda>l. al_role l = LayerRole) (amf_layers m)"

definition encode_entry :: "artifact_layer \<Rightarrow> json" where
  "encode_entry l =
     json_object
       [(''mediaType'', JStr (al_media_type l)), (''digest'', JStr (al_kappa l)), (''size'', JNum (al_size l)),
        (''annotations'', json_object [(role_annotation, JStr (case al_role l of ArchiveRole \<Rightarrow> ''archive'' | LayerRole \<Rightarrow> ''layer''))])]"

definition encode_annotations :: "artifact_manifest \<Rightarrow> json" where
  "encode_annotations m =
     json_object (concat (map (\<lambda>(key, value). case value of None \<Rightarrow> [] | Some v \<Rightarrow> [(key, JStr v)])
       [(kind_annotation, amf_kind m), (name_annotation, amf_name m), (tag_annotation, amf_tag m)]))"

definition artifact_document :: "artifact_manifest \<Rightarrow> artifact_layer \<Rightarrow> json" where
  "artifact_document m archive =
     json_object
       [(''schemaVersion'', JNum 2), (''mediaType'', JStr ''application/vnd.oci.image.manifest.v1+json''),
        (''artifactType'', JStr artifact_manifest_type),
        (''config'', json_object [(''mediaType'', JStr ''application/vnd.oci.empty.v1+json''),
                                  (''digest'', JStr (al_kappa archive)), (''size'', JNum (al_size archive))]),
        (''layers'', JArr (map encode_entry (amf_layers m))), (''annotations'', encode_annotations m)]"

definition artifact_encode :: "json_codec \<Rightarrow> artifact_manifest \<Rightarrow> bytes live_result" where
  "artifact_encode jc m =
     bindE (artifact_archive m) (\<lambda>archive. Inr (json_to_bytes jc (artifact_document m archive)))"

section \<open>Round trip\<close>

definition artifact_wf :: "artifact_manifest \<Rightarrow> bool" where
  "artifact_wf m \<longleftrightarrow> (\<forall>l \<in> set (amf_layers m). is_blake3 (al_kappa l) \<and> al_size l \<le> u64_max)"

lemma artifact_archive_iff:
  "artifact_archive m = Inr l \<longleftrightarrow> filter (\<lambda>l. al_role l = ArchiveRole) (amf_layers m) = [l]"
  by (auto simp: artifact_archive_def split: list.splits)

lemma artifact_archive_in: "artifact_archive m = Inr l \<Longrightarrow> l \<in> set (amf_layers m) \<and> al_role l = ArchiveRole"
proof -
  assume "artifact_archive m = Inr l"
  then have "l \<in> set (filter (\<lambda>l. al_role l = ArchiveRole) (amf_layers m))" by (simp add: artifact_archive_iff)
  then show ?thesis by simp
qed

lemma decode_encode_entry: "is_blake3 (al_kappa l) \<Longrightarrow> decode_entry (encode_entry l) = Inr l"
  by (cases l; cases "al_role l") (simp_all add: decode_entry_def encode_entry_def annotation_names)

lemma artifact_annotations:
  "json_get ''annotations'' document = Some (encode_annotations m) \<Longrightarrow>
     artifact_annotation document kind_annotation = amf_kind m
     \<and> artifact_annotation document name_annotation = amf_name m
     \<and> artifact_annotation document tag_annotation = amf_tag m"
  by (cases "amf_kind m"; cases "amf_name m"; cases "amf_tag m")
     (simp_all add: artifact_annotation_def encode_annotations_def json_object_def annotation_names)

lemma artifact_document_wf:
  "artifact_wf m \<Longrightarrow> artifact_archive m = Inr a \<Longrightarrow> json_wf (artifact_document m a)"
  using artifact_archive_in [of m a]
  by (auto simp: artifact_document_def artifact_wf_def encode_entry_def encode_annotations_def split: option.splits)

lemma decode_entry_wf: "decode_entry e = Inr l \<Longrightarrow> is_blake3 (al_kappa l)"
  by (auto simp: decode_entry_def bindE_eq_Inr split: if_splits)

lemma artifact_decode_layers: "artifact_decode jc b = Inr m \<Longrightarrow> l \<in> set (amf_layers m) \<Longrightarrow> is_blake3 (al_kappa l)"
  by (auto simp: artifact_decode_def bindE_eq_Inr mapE_eq_Inr list_all2_conv_all_nth in_set_conv_nth)
     (blast intro: decode_entry_wf)

lemma artifact_decode_encode:
  assumes "json_codec_ok jc" and "artifact_wf m" and "artifact_encode jc m = Inr b"
  shows "artifact_decode jc b = Inr m"
proof -
  obtain a where a: "artifact_archive m = Inr a" and b: "b = json_to_bytes jc (artifact_document m a)"
    using assms(3) by (auto simp: artifact_encode_def bindE_eq_Inr)
  let ?doc = "artifact_document m a"
  have "json_of_bytes jc b = Inr ?doc"
    using assms(1) artifact_document_wf [OF assms(2) a] by (simp add: json_codec_ok_def b)
  moreover have "json_get ''layers'' ?doc = Some (JArr (map encode_entry (amf_layers m)))"
    "json_get ''annotations'' ?doc = Some (encode_annotations m)"
    by (simp_all add: artifact_document_def)
  moreover have "mapE decode_entry (map encode_entry (amf_layers m)) = Inr (amf_layers m)"
    using assms(2) decode_encode_entry by (auto simp: artifact_wf_def mapE_eq_Inr list_all2_conv_all_nth)
  ultimately show ?thesis
    using artifact_annotations [of ?doc m] by (simp add: artifact_decode_def)
qed

text \<open>
  A published artifact manifest reads back exactly: encoding succeeds exactly when the manifest
  declares one archive layer, and decoding the document gives the same layers in the same order with
  their digests, media types, sizes and roles and the same annotations, provided every layer is
  addressed by BLAKE3. Whatever document is decoded, every layer it yields is so addressed: a layer
  under another digest axis is refused as a whole.
\<close>
theorem artifact_manifest_round_trip:
  assumes "json_codec_ok jc"
  shows "(artifact_wf m \<longrightarrow> (\<forall>b. artifact_encode jc m = Inr b \<longrightarrow> artifact_decode jc b = Inr m))
     \<and> (is_ok (artifact_encode jc m) \<longleftrightarrow> (\<exists>l. filter (\<lambda>l. al_role l = ArchiveRole) (amf_layers m) = [l]))
     \<and> (\<forall>b m'. artifact_decode jc b = Inr m' \<longrightarrow> (\<forall>l \<in> set (amf_layers m'). is_blake3 (al_kappa l)))"
proof -
  have "is_ok (artifact_encode jc m) \<longleftrightarrow> (\<exists>l. artifact_archive m = Inr l)"
    by (auto simp: artifact_encode_def is_ok_iff bindE_eq_Inr)
  then show ?thesis
    using artifact_decode_encode [OF assms] artifact_decode_layers by (auto simp: artifact_archive_iff)
qed

definition sample_digest :: "char \<Rightarrow> string" where
  "sample_digest c = ''blake3:'' @ replicate 64 c"

definition sample_artifact :: artifact_manifest where
  "sample_artifact = \<lparr>amf_layers =
       [\<lparr>al_kappa = sample_digest (CHR ''a''), al_media_type = ''application/vnd.hologram.holo'', al_size = 3, al_role = ArchiveRole\<rparr>,
        \<lparr>al_kappa = sample_digest (CHR ''b''), al_media_type = ''application/octet-stream'', al_size = 7, al_role = LayerRole\<rparr>],
     amf_kind = Some ''holo'', amf_name = Some ''app'', amf_tag = None\<rparr>"

lemma sample_digest_blake3: "is_lower_hex c \<Longrightarrow> is_blake3 (sample_digest c)"
  by (simp add: is_blake3_def sample_digest_def strip_prefix_def list_all_iff is_lower_hex_alt)

lemma sample_artifact_wf: "artifact_wf sample_artifact"
  by (simp add: artifact_wf_def sample_artifact_def sample_digest_blake3 is_lower_hex_def is_ascii_digit_def byte_of_def)

theorem artifact_manifest_round_trip_witness:
  "\<exists>b. artifact_encode sample_json sample_artifact = Inr b \<and> artifact_decode sample_json b = Inr sample_artifact"
proof -
  have "is_ok (artifact_encode sample_json sample_artifact)"
    by (simp add: artifact_encode_def artifact_archive_def sample_artifact_def)
  then show ?thesis
    using artifact_manifest_round_trip [OF sample_json_ok, of sample_artifact] sample_artifact_wf
    by (auto simp: is_ok_iff)
qed

end
