(* ===== verification/Artifact_Ref.thy ===== *)
theory Artifact_Ref
  imports App_Config
begin

text \<open>
  Names of published artifacts (\<open>src/artifact_ref.rs\<close>): \<open>[host[:port]/]namespace/name[:tag]\<close> with
  the defaults of the registry configuration, the canonical text form, and the classification of an
  input into an object id, a local path or a reference. The lemmas give the grammar of the canonical
  form and the round trip through it.
\<close>

section \<open>ArtifactRef\<close>

record artifact_ref =
  ar_host :: string
  ar_namespace :: string
  ar_name :: string
  ar_tag :: string

datatype resolution = Kappa string | File string | Reference artifact_ref

definition validate_tag :: "string \<Rightarrow> unit live_result" where
  "validate_tag tag =
     (if tag = [] \<or> length tag > 128
      then Inl (Protocol (''artifact tag '' @ debug_str tag @ '' must be 1 to 128 characters''))
      else case tag of
        [] \<Rightarrow> Inl (Protocol (''artifact tag '' @ debug_str tag @ '' must be 1 to 128 characters''))
      | first # characters \<Rightarrow>
          (if \<not> (is_ascii_alphanumeric first \<or> first = CHR ''_'')
           then Inl (Protocol (''artifact tag '' @ debug_str tag @ '' must start with an alphanumeric or underscore''))
           else if \<not> list_all (\<lambda>c. is_ascii_alphanumeric c \<or> c \<in> set ''._-'') characters
           then Inl (Protocol (''artifact tag '' @ debug_str tag @ '' contains a character outside the OCI tag grammar''))
           else Inr ()))"

definition validate_segment :: "string \<Rightarrow> string \<Rightarrow> unit live_result" where
  "validate_segment segment label =
     (if segment = [] then Inl (Protocol (''artifact reference '' @ label @ '' segment is empty''))
      else if \<not> list_all (\<lambda>c. is_ascii_lowercase c \<or> is_ascii_digit c \<or> c \<in> set ''._-'') segment
      then Inl (Protocol (''artifact reference '' @ label @ '' '' @ debug_str segment
             @ '' must be lowercase alphanumeric with '' @ [CHR 0x27] @ ''.'' @ [CHR 0x27] @ '', '' @ [CHR 0x27] @ ''_''
             @ [CHR 0x27] @ '', or '' @ [CHR 0x27] @ ''-'' @ [CHR 0x27]))
      else Inr ())"

definition is_kappa :: "string \<Rightarrow> bool" where
  "is_kappa input =
     (case strip_prefix ''blake3:'' input of None \<Rightarrow> False
      | Some digest \<Rightarrow> length digest = 64
          \<and> list_all (\<lambda>b. is_ascii_hexdigit b \<and> \<not> is_ascii_uppercase b) digest)"

definition is_host :: "string \<Rightarrow> bool" where
  "is_host segment = (CHR '':'' \<in> set segment \<or> CHR ''.'' \<in> set segment \<or> segment = ''localhost'')"

definition default_host :: "registry_config \<Rightarrow> string live_result" where
  "default_host config =
     (let endpoint = trim (reg_endpoint config);
          without_scheme = (case strip_prefix ''https://'' endpoint of Some r \<Rightarrow> r
            | None \<Rightarrow> (case strip_prefix ''http://'' endpoint of Some r \<Rightarrow> r | None \<Rightarrow> endpoint));
          host = trim_end_char (CHR ''/'') without_scheme in
      if host = [] then Inl (Config ''registry.endpoint must be set to resolve a bare artifact reference'')
      else Inr host)"

text \<open>The tag is split at the last colon, but only past the last slash.\<close>

definition split_tag :: "string \<Rightarrow> string \<times> string" where
  "split_tag input =
     (case rfind (CHR '':'') input of
        Some colon \<Rightarrow>
          (if (case rfind (CHR ''/'') input of None \<Rightarrow> True | Some slash \<Rightarrow> colon > slash)
           then (take colon input, drop (Suc colon) input) else (input, ''latest''))
      | None \<Rightarrow> (input, ''latest''))"

definition ref_namespace :: "registry_config \<Rightarrow> string list \<Rightarrow> string live_result" where
  "ref_namespace config segments =
     bindE (if segments = [] then Inr (trim_char (CHR ''/'') (reg_namespace config))
            else bindE (allE (\<lambda>s. validate_segment s ''namespace'') segments) (\<lambda>_.
              Inr (join_with ''/'' segments)))
       (\<lambda>namespace. if namespace = []
         then Inl (Protocol ''artifact reference has no namespace and registry.namespace is empty'')
         else Inr namespace)"

definition ref_parse :: "string \<Rightarrow> registry_config \<Rightarrow> artifact_ref live_result" where
  "ref_parse raw config =
     (let input = trim raw in
      if input = [] then Inl (Protocol ''artifact reference is empty'')
      else
       (let (body, tag) = split_tag input in
        bindE (validate_tag tag) (\<lambda>_.
        let segments = filter (\<lambda>s. s \<noteq> []) (split_on (CHR ''/'') body) in
        if segments = [] then Inl (Protocol (''artifact reference '' @ debug_str input @ '' has no name''))
        else
         (let name = last segments; segments = butlast segments in
          bindE (validate_segment name ''name'') (\<lambda>_.
          bindE (case segments of
                   first # rest \<Rightarrow> (if is_host first then Inr (first, rest)
                                   else bindE (default_host config) (\<lambda>h. Inr (h, segments)))
                 | [] \<Rightarrow> bindE (default_host config) (\<lambda>h. Inr (h, segments)))
            (\<lambda>(host, segments).
          bindE (ref_namespace config segments) (\<lambda>namespace.
          Inr \<lparr>ar_host = host, ar_namespace = namespace, ar_name = name, ar_tag = tag\<rparr>)))))))"

definition ref_repository :: "artifact_ref \<Rightarrow> string" where
  "ref_repository r = ar_namespace r @ ''/'' @ ar_name r"

definition ref_display :: "artifact_ref \<Rightarrow> string" where
  "ref_display r = ar_host r @ ''/'' @ ar_namespace r @ ''/'' @ ar_name r @ '':'' @ ar_tag r"

text \<open>\<open>path_exists\<close> answers \<open>Path::exists\<close> for the file system the command runs on.\<close>

definition resolve_input :: "(string \<Rightarrow> bool) \<Rightarrow> string \<Rightarrow> registry_config \<Rightarrow> resolution live_result" where
  "resolve_input path_exists input config =
     (let trimmed = trim input in
      if is_kappa trimmed then Inr (Kappa trimmed)
      else if path_exists trimmed then Inr (File trimmed)
      else bindE (ref_parse trimmed config) (\<lambda>r. Inr (Reference r)))"

section \<open>Well-formed references\<close>

definition tag_ok :: "string \<Rightarrow> bool" where
  "tag_ok tag \<longleftrightarrow> tag \<noteq> [] \<and> length tag \<le> 128 \<and> (is_ascii_alphanumeric (hd tag) \<or> hd tag = CHR ''_'')
     \<and> list_all (\<lambda>c. is_ascii_alphanumeric c \<or> c \<in> set ''._-'') tag"

definition segment_ok :: "string \<Rightarrow> bool" where
  "segment_ok s \<longleftrightarrow> s \<noteq> [] \<and> list_all (\<lambda>c. is_ascii_lowercase c \<or> is_ascii_digit c \<or> c \<in> set ''._-'') s"

definition namespace_ok :: "string \<Rightarrow> bool" where
  "namespace_ok ns \<longleftrightarrow> list_all segment_ok (split_on (CHR ''/'') ns)"

definition ref_host_ok :: "string \<Rightarrow> bool" where
  "ref_host_ok h \<longleftrightarrow> is_host h \<and> CHR ''/'' \<notin> set h \<and> trim_start h = h"

definition ref_ok :: "artifact_ref \<Rightarrow> bool" where
  "ref_ok r \<longleftrightarrow> ref_host_ok (ar_host r) \<and> namespace_ok (ar_namespace r) \<and> segment_ok (ar_name r) \<and> tag_ok (ar_tag r)"

text \<open>The configured defaults are themselves canonical: the endpoint is a host without a path, the
  namespace is empty or made of valid segments.\<close>

definition defaults_ok :: "registry_config \<Rightarrow> bool" where
  "defaults_ok config \<longleftrightarrow>
     (case default_host config of Inr h \<Rightarrow> ref_host_ok h | Inl _ \<Rightarrow> True)
     \<and> (let ns = trim_char (CHR ''/'') (reg_namespace config) in ns \<noteq> [] \<longrightarrow> namespace_ok ns)"

lemma validate_tag_iff: "validate_tag t = Inr () \<longleftrightarrow> tag_ok t"
  by (cases t) (auto simp: validate_tag_def tag_ok_def list_all_iff byte_class_defs)

lemma validate_segment_iff: "validate_segment s l = Inr () \<longleftrightarrow> segment_ok s"
  by (auto simp: validate_segment_def segment_ok_def)

lemma segment_chars: "segment_ok s \<Longrightarrow> CHR ''/'' \<notin> set s \<and> CHR '':'' \<notin> set s \<and> s \<noteq> []"
  by (auto simp: segment_ok_def list_all_iff byte_class_defs)

lemma tag_chars: "tag_ok t \<Longrightarrow> CHR ''/'' \<notin> set t \<and> CHR '':'' \<notin> set t \<and> t \<noteq> []"
  by (auto simp: tag_ok_def list_all_iff byte_class_defs)

lemma ws_chars:
  assumes "w \<in> set unicode_ws"
  shows "w \<noteq> []" "length w \<le> 3" "CHR ''.'' \<notin> set w" "CHR '':'' \<notin> set w" "byte_of (last w) \<le> 32 \<or> byte_of (last w) \<ge> 128"
  using assms by (auto simp: unicode_ws_def byte_of_def)

lemma tag_not_ws: "tag_ok t \<Longrightarrow> w \<in> set unicode_ws \<Longrightarrow> \<not> suffix w (s @ t)"
proof
  assume t: "tag_ok t" and w: "w \<in> set unicode_ws" and suf: "suffix w (s @ t)"
  have "last w = last t" using suf t ws_chars(1) [OF w] by (metis last_appendR suffix_def tag_ok_def)
  moreover have "last t \<in> set t" using t by (simp add: tag_ok_def)
  then have "is_ascii_alphanumeric (last t) \<or> last t \<in> set ''._-''" using t unfolding tag_ok_def list_all_iff by blast
  then have "32 < byte_of (last t) \<and> byte_of (last t) < 128" by (auto simp: byte_class_defs)
  ultimately show False using ws_chars(5) [OF w] by simp
qed

lemma host_not_ws: "ref_host_ok h \<Longrightarrow> w \<in> set unicode_ws \<Longrightarrow> \<not> prefix w (h @ s)"
proof
  assume h: "ref_host_ok h" and w: "w \<in> set unicode_ws" and pre: "prefix w (h @ s)"
  consider "prefix w h" | "prefix h w" using pre prefix_same_cases by (metis prefix_append prefixI)
  then show False
  proof cases
    case 1
    then show False using trim_start_done [OF w, of h] h by (simp add: ref_host_ok_def)
  next
    case 2
    then have "set h \<subseteq> set w" "length h \<le> length w" by (auto dest: set_mono_prefix prefix_length_le)
    then show False using h ws_chars(2-4) [OF w] by (auto simp: ref_host_ok_def is_host_def)
  qed
qed

lemma split_on_snoc: "split_on c (a @ c # b) = split_on c a @ split_on c b"
  by (induction a) (auto split: list.splits)

lemma namespace_segments:
  assumes "namespace_ok ns"
  shows "filter (\<lambda>s. s \<noteq> []) (split_on (CHR ''/'') ns) = split_on (CHR ''/'') ns" "ns \<noteq> []"
    and "allE (\<lambda>s. validate_segment s l) (split_on (CHR ''/'') ns) = Inr ()"
  using assms by (auto simp: namespace_ok_def list_all_iff allE_eq_Inr validate_segment_iff segment_ok_def filter_id_conv)

lemma trim_display: "ref_ok r \<Longrightarrow> trim (ref_display r) = ref_display r"
proof -
  assume r: "ref_ok r"
  have "trim_start (ref_display r) = ref_display r"
    using r host_not_ws by (intro trim_start_id) (auto simp: ref_ok_def ref_display_def)
  moreover have "trim_end (ref_display r) = ref_display r"
    using tag_not_ws [of "ar_tag r" _ "ar_host r @ ''/'' @ ar_namespace r @ ''/'' @ ar_name r @ '':''"] r
    by (intro trim_end_id) (auto simp: ref_ok_def ref_display_def)
  ultimately show ?thesis by (simp add: trim_def)
qed

lemma split_tag_display:
  assumes "ref_ok r"
  shows "split_tag (ref_display r) = (ar_host r @ ''/'' @ ar_namespace r @ ''/'' @ ar_name r, ar_tag r)"
proof -
  let ?a = "ar_host r @ ''/'' @ ar_namespace r" and ?b = "ar_name r @ '':'' @ ar_tag r"
  have cut: "take (length b) (b @ c # t) = b" "drop (Suc (length b)) (b @ c # t) = t" for b t :: string and c
    by simp_all
  have "rfind (CHR '':'') ((?a @ ''/'' @ ar_name r) @ CHR '':'' # ar_tag r) = Some (length (?a @ ''/'' @ ar_name r))"
    using assms by (intro rfind_append) (auto simp: ref_ok_def dest: tag_chars)
  moreover have "rfind (CHR ''/'') (?a @ CHR ''/'' # ?b) = Some (length ?a)"
    using assms by (intro rfind_append) (auto simp: ref_ok_def dest: tag_chars segment_chars)
  ultimately show ?thesis
    using cut [of "?a @ ''/'' @ ar_name r" "CHR '':''" "ar_tag r"] by (simp add: split_tag_def ref_display_def)
qed

lemma ref_parse_display: "ref_ok r \<Longrightarrow> ref_parse (ref_display r) config = Inr r"
proof -
  assume r: "ref_ok r"
  let ?ns = "split_on (CHR ''/'') (ar_namespace r)"
  have ok: "ref_host_ok (ar_host r)" "namespace_ok (ar_namespace r)" "segment_ok (ar_name r)" "tag_ok (ar_tag r)"
    using r by (simp_all add: ref_ok_def)
  have "split_on (CHR ''/'') (ar_host r @ ''/'' @ ar_namespace r @ ''/'' @ ar_name r)
      = ar_host r # ?ns @ [ar_name r]"
    using ok(1) segment_chars [OF ok(3)] split_on_append [of "CHR ''/''" "ar_host r" "ar_namespace r @ CHR ''/'' # ar_name r"]
    by (simp add: ref_host_ok_def split_on_snoc split_on_id)
  moreover have "ar_host r \<noteq> []" using ok(1) by (auto simp: ref_host_ok_def is_host_def)
  ultimately have seg: "filter (\<lambda>s. s \<noteq> []) (split_on (CHR ''/'') (ar_host r @ ''/'' @ ar_namespace r @ ''/'' @ ar_name r))
      = ar_host r # ?ns @ [ar_name r]"
    using namespace_segments(1) [OF ok(2)] segment_chars [OF ok(3)] by simp
  have "ref_namespace config ?ns = Inr (ar_namespace r)"
    using namespace_segments(2,3) [OF ok(2)] by (simp add: ref_namespace_def)
  moreover have "ref_display r \<noteq> []" by (simp add: ref_display_def)
  moreover have "validate_tag (ar_tag r) = Inr ()" "validate_segment (ar_name r) ''name'' = Inr ()"
    using ok by (simp_all add: validate_tag_iff validate_segment_iff)
  ultimately show ?thesis
    using ok(1) seg by (simp add: ref_parse_def Let_def trim_display [OF r] split_tag_display [OF r] ref_host_ok_def)
qed

lemma ref_namespace_ok:
  assumes "ref_namespace config segments = Inr ns" and "\<And>s. s \<in> set segments \<Longrightarrow> CHR ''/'' \<notin> set s"
    and "defaults_ok config"
  shows "namespace_ok ns"
proof (cases "segments = []")
  case True
  then show ?thesis using assms by (auto simp: ref_namespace_def defaults_ok_def Let_def split: if_splits)
next
  case False
  then have "split_on (CHR ''/'') ns = segments" "list_all segment_ok segments"
    using assms split_on_join_with [of segments "CHR ''/''"]
    by (auto simp: ref_namespace_def bindE_eq_Inr allE_eq_Inr validate_segment_iff list_all_iff split: if_splits)
  then show ?thesis by (simp add: namespace_ok_def)
qed

lemma ref_parse_ok:
  assumes p: "ref_parse input config = Inr r" and d: "defaults_ok config" and h: "trim_start (ar_host r) = ar_host r"
  shows "ref_ok r"
proof -
  obtain body tag where st: "split_tag (trim input) = (body, tag)" by fastforce
  define segs where "segs = filter (\<lambda>s. s \<noteq> []) (split_on (CHR ''/'') body)"
  have slash: "s \<in> set segs \<Longrightarrow> CHR ''/'' \<notin> set s" for s
    by (auto simp: segs_def dest: split_on_no_sep)
  obtain host rest where t: "validate_tag tag = Inr ()" and n: "segs \<noteq> []" "validate_segment (last segs) ''name'' = Inr ()"
    and hr: "(case butlast segs of
                   first # rest \<Rightarrow> (if is_host first then Inr (first, rest)
                                   else bindE (default_host config) (\<lambda>h. Inr (h, butlast segs)))
                 | [] \<Rightarrow> bindE (default_host config) (\<lambda>h. Inr (h, butlast segs))) = Inr (host, rest)"
    and ns: "ref_namespace config rest = Inr (ar_namespace r)"
    and r: "ar_host r = host" "ar_name r = last segs" "ar_tag r = tag"
    using p by (auto simp: ref_parse_def Let_def st bindE_eq_Inr segs_def [symmetric] split: if_splits)
  have sub: "s \<in> set (butlast segs) \<Longrightarrow> CHR ''/'' \<notin> set s" for s
    using slash in_set_butlastD by fast
  have host: "ref_host_ok host"
    using hr d h sub r(1) by (auto simp: defaults_ok_def ref_host_ok_def bindE_eq_Inr split: list.splits if_splits)
  have "rest = butlast segs \<or> (\<exists>first. butlast segs = first # rest)"
    using hr by (auto simp: bindE_eq_Inr split: list.splits if_splits)
  then have "set rest \<subseteq> set (butlast segs)" by (metis set_subset_Cons order_refl)
  then have "s \<in> set rest \<Longrightarrow> CHR ''/'' \<notin> set s" for s using sub by blast
  then have "namespace_ok (ar_namespace r)" by (rule ref_namespace_ok [OF ns _ d])
  then show ?thesis using host t n r by (simp add: ref_ok_def validate_tag_iff validate_segment_iff)
qed

lemma display_not_kappa: "\<not> is_kappa (ref_display r)"
proof
  assume "is_kappa (ref_display r)"
  then obtain d where d: "ref_display r = ''blake3:'' @ d" "list_all (\<lambda>b. is_ascii_hexdigit b \<and> \<not> is_ascii_uppercase b) d"
    by (auto simp: is_kappa_def split: option.splits)
  have "CHR ''/'' \<in> set (ref_display r)" by (simp add: ref_display_def)
  then have "CHR ''/'' \<in> set d" unfolding d(1) by simp
  then show False using d(2) by (auto simp: list_all_iff byte_class_defs)
qed

text \<open>
  The canonical form of an artifact reference is exact: the text of a well-formed reference parses
  back to the same host, namespace, name and tag whatever the configured defaults are, and as a
  command argument it denotes that reference unless a file of that name exists (a file wins, an
  object id never applies). Conversely, when the configured endpoint and namespace are canonical,
  everything the parser accepts is well formed, so parsing a reference and printing it loses nothing;
  the one exception is a host that starts with white space, which the parser lets through after a
  leading slash.
\<close>
theorem artifact_ref_round_trip:
  "(ref_ok r \<longrightarrow> ref_parse (ref_display r) config = Inr r
      \<and> resolve_input path_exists (ref_display r) config =
          Inr (if path_exists (ref_display r) then File (ref_display r) else Reference r))
   \<and> (defaults_ok config \<and> ref_parse input config = Inr p \<and> trim_start (ar_host p) = ar_host p
        \<longrightarrow> ref_ok p \<and> ref_parse (ref_display p) other = Inr p)"
proof (intro conjI impI)
  assume r: "ref_ok r"
  show "ref_parse (ref_display r) config = Inr r" by (rule ref_parse_display [OF r])
  then show "resolve_input path_exists (ref_display r) config =
          Inr (if path_exists (ref_display r) then File (ref_display r) else Reference r)"
    by (simp add: resolve_input_def Let_def trim_display [OF r] display_not_kappa)
next
  assume a: "defaults_ok config \<and> ref_parse input config = Inr p \<and> trim_start (ar_host p) = ar_host p"
  show "ref_ok p" using a ref_parse_ok by blast
  then show "ref_parse (ref_display p) other = Inr p" by (rule ref_parse_display)
qed

definition sample_registry :: registry_config where
  "sample_registry = \<lparr>reg_provider = ''kappa'', reg_endpoint = ''https://reg.io/'', reg_namespace = ''team'',
     reg_token = '''', reg_request_timeout_secs = 30, reg_max_scan_pages = 4\<rparr>"

lemma sample_reference:
  "ref_parse ''app:v1'' sample_registry = Inr \<lparr>ar_host = ''reg.io'', ar_namespace = ''team'', ar_name = ''app'', ar_tag = ''v1''\<rparr>"
  "defaults_ok sample_registry" "trim_start ''reg.io'' = ''reg.io''"
  by code_simp+

theorem artifact_ref_round_trip_witness:
  "ref_ok \<lparr>ar_host = ''reg.io'', ar_namespace = ''team'', ar_name = ''app'', ar_tag = ''v1''\<rparr>
   \<and> ref_parse (ref_display \<lparr>ar_host = ''reg.io'', ar_namespace = ''team'', ar_name = ''app'', ar_tag = ''v1''\<rparr>) sample_registry
      = Inr \<lparr>ar_host = ''reg.io'', ar_namespace = ''team'', ar_name = ''app'', ar_tag = ''v1''\<rparr>"
  using artifact_ref_round_trip [where config = sample_registry and input = "''app:v1''" and p = "\<lparr>ar_host = ''reg.io'', ar_namespace = ''team'', ar_name = ''app'', ar_tag = ''v1''\<rparr>" and other = sample_registry]
    sample_reference by simp

end
