(* ===== verification/Artifact_Pull.thy ===== *)
theory Artifact_Pull
  imports Artifact_Manifest Artifact_Ref Kappa_Client Object_Store
begin

text \<open>
  Fetching a named artifact into the local content store (\<open>src/artifact_pull.rs\<close>). The registry is a
  \<open>LayerFetch\<close>: any pair of functions on the state of the outside world, in the daemon the HTTP
  client of theory \<open>Kappa_Client\<close>. The progress callback is the list of the events it is called with.
  The lemmas use the store only through its content-addressed interface.
\<close>

section \<open>pull\<close>

datatype layer_source = AlreadyPresent | Fetched

record pull_progress =
  pp_kappa :: string
  pp_index :: nat
  pp_total :: nat
  pp_source :: layer_source
  pp_bytes :: nat

record pull_report =
  pr_reference :: string
  pr_manifest_digest :: "string option"
  pr_archive_kappa :: string
  pr_layers_fetched :: nat
  pr_layers_present :: nat
  pr_bytes_transferred :: nat

record 'w layer_fetch =
  lf_manifest :: "string \<Rightarrow> string \<Rightarrow> 'w \<Rightarrow> 'w \<times> (bytes \<times> string option) option live_result"
  lf_blob :: "string \<Rightarrow> string \<Rightarrow> 'w \<Rightarrow> 'w \<times> bytes live_result"

text \<open>The client of the kappa registry as a \<open>LayerFetch\<close>.\<close>

definition kappa_fetch :: "'w net \<Rightarrow> kappa_client \<Rightarrow> 'w layer_fetch" where
  "kappa_fetch n c = \<lparr>lf_manifest = fetch_manifest n c, lf_blob = fetch_blob n c\<rparr>"

text \<open>What the loop over the layers carries: the world, the store, the counters and the progress
  events so far.\<close>

record 'w pull_state =
  ps_world :: 'w
  ps_store :: object_store
  ps_fetched :: nat
  ps_present :: nat
  ps_bytes :: nat
  ps_progress :: "pull_progress list"

definition layer_missing :: "artifact_ref \<Rightarrow> artifact_layer \<Rightarrow> live_error \<Rightarrow> live_error" where
  "layer_missing r l e =
     (case e of NotFound _ \<Rightarrow> NotFound (''artifact '' @ ref_display r @ '' references layer '' @ al_kappa l
         @ '' which the registry does not hold'')
      | other \<Rightarrow> other)"

definition pull_layer ::
  "'w layer_fetch \<Rightarrow> artifact_ref \<Rightarrow> nat \<Rightarrow> nat \<Rightarrow> artifact_layer \<Rightarrow> 'w pull_state \<Rightarrow> 'w pull_state \<times> unit live_result"
where
  "pull_layer fetch r count index l st =
     (case store_get_cached (ps_store st) (al_kappa l) of
        Inl e \<Rightarrow> (st, Inl e)
      | Inr (Some _) \<Rightarrow>
          (st\<lparr>ps_present := ps_present st + 1,
              ps_progress := ps_progress st @ [\<lparr>pp_kappa = al_kappa l, pp_index = index, pp_total = count,
                pp_source = AlreadyPresent, pp_bytes = 0\<rparr>]\<rparr>, Inr ())
      | Inr None \<Rightarrow>
          (case lf_blob fetch (ref_repository r) (al_kappa l) (ps_world st) of
             (w, Inl e) \<Rightarrow> (st\<lparr>ps_world := w\<rparr>, Inl (layer_missing r l e))
           | (w, Inr b) \<Rightarrow>
               (case store_cache_addressed (ps_store st) (al_kappa l) b of
                  (s, Inl e) \<Rightarrow> (st\<lparr>ps_world := w, ps_store := s\<rparr>, Inl e)
                | (s, Inr _) \<Rightarrow>
                    (st\<lparr>ps_world := w, ps_store := s, ps_fetched := ps_fetched st + 1,
                        ps_bytes := saturating_add64 (ps_bytes st) (sat64 (length b)),
                        ps_progress := ps_progress st @ [\<lparr>pp_kappa = al_kappa l, pp_index = index, pp_total = count,
                          pp_source = Fetched, pp_bytes = sat64 (length b)\<rparr>]\<rparr>, Inr ()))))"

fun pull_layers ::
  "'w layer_fetch \<Rightarrow> artifact_ref \<Rightarrow> nat \<Rightarrow> nat \<Rightarrow> artifact_layer list \<Rightarrow> 'w pull_state \<Rightarrow> 'w pull_state \<times> unit live_result"
where
  "pull_layers fetch r count index [] st = (st, Inr ())"
| "pull_layers fetch r count index (l # ls) st =
     (case pull_layer fetch r count index l st of
        (st', Inl e) \<Rightarrow> (st', Inl e)
      | (st', Inr _) \<Rightarrow> pull_layers fetch r count (Suc index) ls st')"

definition confirm_layer :: "artifact_ref \<Rightarrow> object_store \<Rightarrow> artifact_layer \<Rightarrow> unit live_result" where
  "confirm_layer r s l =
     bindE (store_get_cached s (al_kappa l)) (\<lambda>found.
       if found = None
       then Inl (NotFound (''artifact '' @ ref_display r @ '' is incomplete: layer '' @ al_kappa l @ '' is missing after pull''))
       else Inr ())"

definition pull_start :: "'w \<Rightarrow> object_store \<Rightarrow> 'w pull_state" where
  "pull_start w s = \<lparr>ps_world = w, ps_store = s, ps_fetched = 0, ps_present = 0, ps_bytes = 0, ps_progress = []\<rparr>"

definition pull ::
  "json_codec \<Rightarrow> 'w layer_fetch \<Rightarrow> artifact_ref \<Rightarrow> 'w \<Rightarrow> object_store \<Rightarrow> 'w pull_state \<times> pull_report live_result"
where
  "pull jc fetch r w s =
     (case lf_manifest fetch (ref_repository r) (ar_tag r) w of
        (w1, Inl e) \<Rightarrow> (pull_start w1 s, Inl e)
      | (w1, Inr None) \<Rightarrow> (pull_start w1 s, Inl (NotFound (''artifact '' @ ref_display r @ '' not found'')))
      | (w1, Inr (Some (body, digest))) \<Rightarrow>
          (case bindE (artifact_decode jc body) (\<lambda>m. bindE (artifact_archive m) (\<lambda>a. Inr (m, al_kappa a))) of
             Inl e \<Rightarrow> (pull_start w1 s, Inl e)
           | Inr (m, archive_kappa) \<Rightarrow>
               (case pull_layers fetch r (length (amf_layers m)) 0 (amf_layers m) (pull_start w1 s) of
                  (st, Inl e) \<Rightarrow> (st, Inl e)
                | (st, Inr _) \<Rightarrow>
                    (st, bindE (allE (confirm_layer r (ps_store st)) (amf_layers m)) (\<lambda>_.
                       Inr \<lparr>pr_reference = ref_display r, pr_manifest_digest = digest, pr_archive_kappa = archive_kappa,
                            pr_layers_fetched = ps_fetched st, pr_layers_present = ps_present st,
                            pr_bytes_transferred = ps_bytes st\<rparr>)))))"

lemma pull_start_simps [simp]:
  "ps_store (pull_start w s) = s" "ps_world (pull_start w s) = w" "ps_fetched (pull_start w s) = 0"
  "ps_present (pull_start w s) = 0" "ps_bytes (pull_start w s) = 0" "ps_progress (pull_start w s) = []"
  by (simp_all add: pull_start_def)

section \<open>What the loop does to the store\<close>

text \<open>\<open>t\<close> extends \<open>s\<close>, and what is new is addressed by one of the keys \<open>ks\<close>.\<close>

definition extends :: "string set \<Rightarrow> object_store \<Rightarrow> object_store \<Rightarrow> bool" where
  "extends ks s t \<longleftrightarrow> cas.grows s t \<and> (\<forall>k b. store_view t k = Some b \<longrightarrow> store_view s k = Some b \<or> k \<in> ks \<and> store_addr s b = k)"

lemma extends_refl: "extends ks s s"
  by (simp add: extends_def cas.grows_refl)

lemma extends_trans: "extends ks s t \<Longrightarrow> extends ks t u \<Longrightarrow> extends ks s u"
  unfolding extends_def using cas.grows_trans by (metis cas.grows_def)

lemma extends_insert: "k \<in> ks \<Longrightarrow> extends ks s (fst (store_cache_addressed s k b))"
  using cas.ins_grows [of s k b] cas.ins_new_keys [of s k b] by (fastforce simp: extends_def)

lemma cached_view: "store_get_cached s k = Inr (Some b) \<Longrightarrow> store_view s k = Some b"
  by (auto simp: store_get_cached_def store_view_def stored_def fs_read_def bindE_eq_Inr split: option.splits io_error.splits sum.splits)

lemma cached_none: "store_get_cached s k = Inr None \<Longrightarrow> store_view s k = None"
  by (auto simp: store_get_cached_def store_view_def stored_def fs_read_def bindE_eq_Inr split: option.splits io_error.splits sum.splits)

lemma pull_layer_extends:
  "al_kappa l \<in> ks \<Longrightarrow> extends ks (ps_store st) (ps_store (fst (pull_layer fetch r count i l st)))"
  using extends_insert [of "al_kappa l" ks "ps_store st"]
  by (auto simp: pull_layer_def extends_refl split: sum.splits option.splits prod.splits) (metis fst_conv)+

lemma pull_layers_extends:
  "al_kappa ` set ls \<subseteq> ks \<Longrightarrow> extends ks (ps_store st) (ps_store (fst (pull_layers fetch r count i ls st)))"
proof (induction ls arbitrary: st i)
  case (Cons l ls)
  then have "extends ks (ps_store st) (ps_store (fst (pull_layer fetch r count i l st)))"
    by (intro pull_layer_extends) auto
  with Cons show ?case
    by (auto split: prod.splits sum.splits intro: extends_trans)
qed (simp add: extends_refl)

text \<open>The counters and the progress of a layer, when it succeeds.\<close>

lemma pull_layer_ok:
  assumes "pull_layer fetch r count i l st = (st', Inr u)"
  shows "ps_fetched st' + ps_present st' = Suc (ps_fetched st + ps_present st)"
    and "map pp_kappa (ps_progress st') = map pp_kappa (ps_progress st) @ [al_kappa l]"
    and "map pp_index (ps_progress st') = map pp_index (ps_progress st) @ [i]"
    and "ps_fetched st' = ps_fetched st + (if store_view (ps_store st) (al_kappa l) = None then 1 else 0)"
    and "store_view (ps_store st') (al_kappa l) \<noteq> None"
  using assms cached_view [of "ps_store st" "al_kappa l"] cached_none [of "ps_store st" "al_kappa l"]
  by (auto simp: pull_layer_def dest: cas.ins_present split: sum.splits option.splits prod.splits)

lemma pull_layers_ok:
  "pull_layers fetch r count i ls st = (st', Inr u) \<Longrightarrow>
     ps_fetched st' + ps_present st' = length ls + ps_fetched st + ps_present st
     \<and> map pp_kappa (ps_progress st') = map pp_kappa (ps_progress st) @ map al_kappa ls
     \<and> map pp_index (ps_progress st') = map pp_index (ps_progress st) @ [i..<i + length ls]"
proof (induction ls arbitrary: st i)
  case (Cons l ls)
  obtain st1 where one: "pull_layer fetch r count i l st = (st1, Inr ())"
    and rest: "pull_layers fetch r count (Suc i) ls st1 = (st', Inr u)"
    using Cons.prems by (auto split: prod.splits sum.splits)
  have "[i..<i + length (l # ls)] = i # [Suc i..<Suc i + length ls]" by (simp add: upt_conv_Cons del: upt_Suc)
  then show ?case using Cons.IH [OF rest] pull_layer_ok [OF one] by (simp del: upt_Suc)
qed simp

text \<open>Layers that are all present are counted and nothing else happens.\<close>

lemma pull_layers_present:
  assumes "\<And>l. l \<in> set ls \<Longrightarrow> \<exists>b. store_get_cached (ps_store st) (al_kappa l) = Inr (Some b)"
  shows "\<exists>p. pull_layers fetch r count i ls st = (st\<lparr>ps_present := ps_present st + length ls, ps_progress := p\<rparr>, Inr ())"
  using assms
proof (induction ls arbitrary: st i)
  case Nil
  then show ?case by (auto intro: exI [of _ "ps_progress st"])
next
  case (Cons l ls)
  obtain b where "store_get_cached (ps_store st) (al_kappa l) = Inr (Some b)" using Cons.prems by auto
  then show ?case using Cons.IH [of "fst (pull_layer fetch r count i l st)" "Suc i"] Cons.prems
    by (auto simp: pull_layer_def)
qed

lemma confirm_all:
  "allE (confirm_layer r s) ls = Inr () \<longleftrightarrow> (\<forall>l \<in> set ls. \<exists>b. store_get_cached s (al_kappa l) = Inr (Some b))"
  by (auto simp: allE_eq_Inr confirm_layer_def bindE_eq_Inr split: if_splits)

text \<open>The shape of a successful pull.\<close>

lemma pull_okE:
  assumes "pull jc fetch r w s = (st, Inr rep)"
  obtains w1 body digest m a
  where "lf_manifest fetch (ref_repository r) (ar_tag r) w = (w1, Inr (Some (body, digest)))"
    and "artifact_decode jc body = Inr m" and "artifact_archive m = Inr a"
    and "pull_layers fetch r (length (amf_layers m)) 0 (amf_layers m)
           (pull_start w1 s) = (st, Inr ())"
    and "\<forall>l \<in> set (amf_layers m). \<exists>b. store_get_cached (ps_store st) (al_kappa l) = Inr (Some b)"
    and "rep = \<lparr>pr_reference = ref_display r, pr_manifest_digest = digest, pr_archive_kappa = al_kappa a,
                 pr_layers_fetched = ps_fetched st, pr_layers_present = ps_present st, pr_bytes_transferred = ps_bytes st\<rparr>"
  using assms
  by (auto simp: pull_def bindE_eq_Inr bindE_eq_Inl confirm_all split: prod.splits sum.splits option.splits)

section \<open>Properties\<close>

lemma pull_extends:
  assumes "pull jc fetch r w s = (st, res)"
  shows "\<exists>ks. extends ks s (ps_store st) \<and> (ks = {} \<or> (\<exists>w1 body digest m.
      lf_manifest fetch (ref_repository r) (ar_tag r) w = (w1, Inr (Some (body, digest)))
      \<and> artifact_decode jc body = Inr m \<and> ks = al_kappa ` set (amf_layers m)))"
proof (cases "ps_store st = s")
  case True
  then show ?thesis by (auto intro: exI [of _ "{}"] simp: extends_refl)
next
  case False
  then obtain w1 body digest m where m: "lf_manifest fetch (ref_repository r) (ar_tag r) w = (w1, Inr (Some (body, digest)))"
      "artifact_decode jc body = Inr m"
    and st: "ps_store st = ps_store (fst (pull_layers fetch r (length (amf_layers m)) 0 (amf_layers m)
           (pull_start w1 s)))"
    using assms by (auto simp: pull_def bindE_eq_Inr split: prod.splits sum.splits option.splits)
  show ?thesis using m pull_layers_extends [of "amf_layers m" _ "pull_start w1 s"]
    unfolding st by (metis order_refl pull_start_simps(1))
qed

lemma cached_get: "store_get_cached s k = Inr (Some b) \<Longrightarrow> store_get s k = Inr b"
  by (cases "fs_faults (os_fs s) OpRead (blob_path s (projr (validate_id k)))"; cases "fs_get (os_fs s) (blob_path s (projr (validate_id k)))")
     (auto simp: store_get_cached_def store_get_def read_or_missing_def bindE_eq_Inr fs_read_def)

text \<open>
  C10 A pull admits nothing but authentic content, against any registry: whatever the registry answers,
  the store stays consistent, keeps every object it had, and gains only objects that are layers of
  the manifest and hash to their address. A pull that reports success has decoded the manifest
  answered for the reference, found its one archive layer, holds every layer under its own hash,
  has announced each layer once in order, and counts every layer as either fetched or present.
\<close>
theorem pull_content_authentic:
  assumes "store_ok s" and "pull jc fetch r w s = (st, res)"
  shows "store_ok (ps_store st)
     \<and> (\<forall>k b. store_view s k = Some b \<longrightarrow> store_view (ps_store st) k = Some b)
     \<and> (\<forall>k b. store_view (ps_store st) k = Some b \<longrightarrow> store_view s k = Some b
          \<or> (store_addr s b = k \<and> (\<exists>w1 body digest m l. lf_manifest fetch (ref_repository r) (ar_tag r) w = (w1, Inr (Some (body, digest)))
               \<and> artifact_decode jc body = Inr m \<and> l \<in> set (amf_layers m) \<and> al_kappa l = k)))
     \<and> (\<forall>rep. res = Inr rep \<longrightarrow>
          (\<exists>w1 body digest m a. lf_manifest fetch (ref_repository r) (ar_tag r) w = (w1, Inr (Some (body, digest)))
             \<and> artifact_decode jc body = Inr m \<and> artifact_archive m = Inr a
             \<and> pr_archive_kappa rep = al_kappa a \<and> pr_manifest_digest rep = digest \<and> pr_reference rep = ref_display r
             \<and> (\<forall>l \<in> set (amf_layers m). \<exists>b. store_get (ps_store st) (al_kappa l) = Inr b \<and> store_addr s b = al_kappa l)
             \<and> pr_layers_fetched rep + pr_layers_present rep = length (amf_layers m)
             \<and> map pp_kappa (ps_progress st) = map al_kappa (amf_layers m)
             \<and> map pp_index (ps_progress st) = [0..<length (amf_layers m)]))"
proof -
  obtain ks where ext: "extends ks s (ps_store st)" and ks: "ks = {} \<or> (\<exists>w1 body digest m.
      lf_manifest fetch (ref_repository r) (ar_tag r) w = (w1, Inr (Some (body, digest)))
      \<and> artifact_decode jc body = Inr m \<and> ks = al_kappa ` set (amf_layers m))"
    using pull_extends [OF assms(2)] by blast
  have g: "cas.grows s (ps_store st)" using ext by (simp add: extends_def)
  have ok: "store_ok (ps_store st)" and addr: "store_addr (ps_store st) = store_addr s"
    using g assms(1) by (auto simp: cas.grows_def)
  have success: "\<exists>w1 body digest m a. lf_manifest fetch (ref_repository r) (ar_tag r) w = (w1, Inr (Some (body, digest)))
             \<and> artifact_decode jc body = Inr m \<and> artifact_archive m = Inr a
             \<and> pr_archive_kappa rep = al_kappa a \<and> pr_manifest_digest rep = digest \<and> pr_reference rep = ref_display r
             \<and> (\<forall>l \<in> set (amf_layers m). \<exists>b. store_get (ps_store st) (al_kappa l) = Inr b \<and> store_addr s b = al_kappa l)
             \<and> pr_layers_fetched rep + pr_layers_present rep = length (amf_layers m)
             \<and> map pp_kappa (ps_progress st) = map al_kappa (amf_layers m)
             \<and> map pp_index (ps_progress st) = [0..<length (amf_layers m)]" if rep: "res = Inr rep" for rep
  proof -
    obtain w1 body digest m a where man: "lf_manifest fetch (ref_repository r) (ar_tag r) w = (w1, Inr (Some (body, digest)))"
      "artifact_decode jc body = Inr m" "artifact_archive m = Inr a"
      and run: "pull_layers fetch r (length (amf_layers m)) 0 (amf_layers m)
           (pull_start w1 s) = (st, Inr ())"
      and here: "\<forall>l \<in> set (amf_layers m). \<exists>b. store_get_cached (ps_store st) (al_kappa l) = Inr (Some b)"
      and rp: "rep = \<lparr>pr_reference = ref_display r, pr_manifest_digest = digest, pr_archive_kappa = al_kappa a,
                 pr_layers_fetched = ps_fetched st, pr_layers_present = ps_present st, pr_bytes_transferred = ps_bytes st\<rparr>"
      using assms(2) unfolding rep by (rule pull_okE) (rule that)
    have "\<exists>b. store_get (ps_store st) (al_kappa l) = Inr b \<and> store_addr s b = al_kappa l" if "l \<in> set (amf_layers m)" for l
      using here that cached_get cached_view cas.view_addr [OF ok] addr by metis
    then show ?thesis using man rp pull_layers_ok [OF run] by auto
  qed
  have new: "store_view s k = Some b
          \<or> (store_addr s b = k \<and> (\<exists>w1 body digest m l. lf_manifest fetch (ref_repository r) (ar_tag r) w = (w1, Inr (Some (body, digest)))
               \<and> artifact_decode jc body = Inr m \<and> l \<in> set (amf_layers m) \<and> al_kappa l = k))"
    if v: "store_view (ps_store st) k = Some b" for k b
  proof (cases "store_view s k = Some b")
    case False
    then have k: "k \<in> ks" "store_addr s b = k" using ext v by (auto simp: extends_def)
    then obtain w1 body digest m where m: "lf_manifest fetch (ref_repository r) (ar_tag r) w = (w1, Inr (Some (body, digest)))"
        "artifact_decode jc body = Inr m" and in_ks: "k \<in> al_kappa ` set (amf_layers m)" using ks by blast
    then obtain l where "l \<in> set (amf_layers m)" "al_kappa l = k" by auto
    then show ?thesis using m k(2) by blast
  qed simp
  have old: "store_view s k = Some b \<longrightarrow> store_view (ps_store st) k = Some b" for k b
    using g by (simp add: cas.grows_def)
  show ?thesis using ok old new success by (intro conjI allI) simp_all
qed

lemma blake3_valid: "is_blake3 k \<Longrightarrow> \<exists>d. k = kappa_prefix @ d \<and> validate_id k = Inr d"
  by (auto simp: is_blake3_def validate_id_Inr valid_digest_def kappa_prefix_def is_lower_hex_alt split: option.splits
      elim!: list.pred_mono_strong intro: is_lower_hex_hexdigit)

lemma cache_total:
  assumes "\<not> os_poisoned s" "fs_faults (os_fs s) = (\<lambda>_ _. None)" "is_blake3 k" "store_addr s b = k"
  shows "is_ok (snd (store_cache_addressed s k b))"
proof -
  obtain d where d: "k = kappa_prefix @ d" "validate_id k = Inr d"
    using blake3_valid [OF assms(3)] by blast
  then have "blake3_hex (os_host s) b = d" using assms(4) by (simp add: store_addr_def)
  moreover have "\<not> u64_max < sat64 (length b)" using sat64_le [of "length b"] by linarith
  ultimately show ?thesis using d assms(1,2) store_write_total [OF assms(2), of "blob_path s d" b]
    by (cases "store_write s (blob_path s d) b") (simp add: store_cache_eq store_cache_addressed_bounded_def)
qed

lemma cached_no_fault:
  assumes "fs_faults (os_fs s) = (\<lambda>_ _. None)" "is_blake3 k"
  shows "store_get_cached s k = Inr (store_view s k)"
proof -
  obtain d where d: "validate_id k = Inr d"
    using blake3_valid [OF assms(2)] by blast
  then show ?thesis using assms(1)
    by (cases "fs_get (os_fs s) (blob_path s d)") (auto simp: store_get_cached_def store_view_def stored_def fs_read_def)
qed

text \<open>A store that accepts reads and writes; no operation of the pull takes that away.\<close>

definition store_up :: "object_store \<Rightarrow> bool" where
  "store_up s \<longleftrightarrow> \<not> os_poisoned s \<and> fs_faults (os_fs s) = (\<lambda>_ _. None)"

lemma store_up_insert: "store_up s \<Longrightarrow> store_up (fst (store_cache_addressed s k b))"
  using cache_bounded_frame [of s k b u64_max] by (simp add: store_up_def store_cache_eq same_frame_def)

text \<open>The registry holds the layer: in every state of the world that satisfies \<open>up\<close> it answers with
  bytes of that address, and stays in such a state.\<close>

definition serves :: "'w layer_fetch \<Rightarrow> ('w \<Rightarrow> bool) \<Rightarrow> string \<Rightarrow> object_store \<Rightarrow> string \<Rightarrow> bool" where
  "serves fetch up repository s k \<longleftrightarrow>
     (\<forall>w. up w \<longrightarrow> (\<exists>w' b. lf_blob fetch repository k w = (w', Inr b) \<and> up w' \<and> store_addr s b = k))"

lemma pull_layer_total:
  assumes "store_up (ps_store st)" "is_blake3 (al_kappa l)" "up (ps_world st)" "serves fetch up (ref_repository r) (ps_store st) (al_kappa l)"
  shows "\<exists>st'. pull_layer fetch r n i l st = (st', Inr ()) \<and> store_up (ps_store st')
     \<and> up (ps_world st') \<and> store_addr (ps_store st') = store_addr (ps_store st)"
proof (cases "store_view (ps_store st) (al_kappa l)")
  case (Some b)
  then show ?thesis using assms by (auto simp: pull_layer_def cached_no_fault store_up_def)
next
  case None
  obtain w b where wb: "lf_blob fetch (ref_repository r) (al_kappa l) (ps_world st) = (w, Inr b)"
    "store_addr (ps_store st) b = al_kappa l" and w: "up w" using assms(3,4) unfolding serves_def by blast
  obtain s' where s': "store_cache_addressed (ps_store st) (al_kappa l) b = (s', Inr ())"
    using cache_total [OF _ _ assms(2) wb(2)] assms(1)
    by (cases "store_cache_addressed (ps_store st) (al_kappa l) b") (auto simp: store_up_def is_ok_iff)
  then have "store_up s'" "store_addr s' = store_addr (ps_store st)"
    using store_up_insert [OF assms(1), of "al_kappa l" b] cas.ins_keeps_addr [of "ps_store st" "al_kappa l" b] by simp_all
  then show ?thesis using None wb(1) w s' assms(1,2) by (simp add: pull_layer_def cached_no_fault store_up_def)
qed

lemma pull_layers_total:
  "store_up (ps_store st) \<Longrightarrow> up (ps_world st) \<Longrightarrow>
     (\<And>l. l \<in> set ls \<Longrightarrow> is_blake3 (al_kappa l) \<and> serves fetch up (ref_repository r) (ps_store st) (al_kappa l))
     \<Longrightarrow> \<exists>st'. pull_layers fetch r n i ls st = (st', Inr ()) \<and> store_up (ps_store st')"
proof (induction ls arbitrary: st i)
  case (Cons l ls)
  obtain st1 where one: "pull_layer fetch r n i l st = (st1, Inr ())" "store_up (ps_store st1)"
    "store_addr (ps_store st1) = store_addr (ps_store st)" "up (ps_world st1)"
    using pull_layer_total [OF Cons.prems(1), of l up fetch r n i] Cons.prems(2,3) by auto
  have "serves fetch up (ref_repository r) (ps_store st1) = serves fetch up (ref_repository r) (ps_store st)"
    by (simp add: serves_def fun_eq_iff one(3))
  then show ?case using Cons.IH [OF one(2,4), of "Suc i"] Cons.prems(3) one(1) by simp
qed simp

text \<open>A layer present at some point of the loop is present after it.\<close>

lemma pull_layers_views:
  "pull_layers fetch r n i ls st = (st', Inr u) \<Longrightarrow> l \<in> set ls \<Longrightarrow> store_view (ps_store st') (al_kappa l) \<noteq> None"
proof (induction ls arbitrary: st i)
  case (Cons k ls)
  obtain st1 where one: "pull_layer fetch r n i k st = (st1, Inr ())"
    and rest: "pull_layers fetch r n (Suc i) ls st1 = (st', Inr u)"
    using Cons.prems(1) by (auto split: prod.splits sum.splits)
  show ?case
  proof (cases "l \<in> set ls")
    case True
    then show ?thesis by (rule Cons.IH [OF rest])
  next
    case False
    then have "store_view (ps_store st1) (al_kappa l) \<noteq> None" using pull_layer_ok(5) [OF one] Cons.prems(2) by auto
    moreover have "extends (al_kappa ` set ls) (ps_store st1) (ps_store st')"
      using pull_layers_extends [of ls _ st1 fetch r n "Suc i"] rest by simp
    ultimately show ?thesis by (auto simp: extends_def cas.grows_def)
  qed
qed simp

lemma pull_succeeds:
  assumes "store_up s" and "up w1" and "lf_manifest fetch (ref_repository r) (ar_tag r) w = (w1, Inr (Some (body, digest)))"
    and "artifact_decode jc body = Inr m" and "artifact_archive m = Inr a"
    and "\<And>l. l \<in> set (amf_layers m) \<Longrightarrow> serves fetch up (ref_repository r) s (al_kappa l)"
  shows "\<exists>st rep. pull jc fetch r w s = (st, Inr rep) \<and> pr_archive_kappa rep = al_kappa a
     \<and> (\<forall>l \<in> set (amf_layers m). \<exists>b. store_get_cached (ps_store st) (al_kappa l) = Inr (Some b))"
proof -
  obtain st where run: "pull_layers fetch r (length (amf_layers m)) 0 (amf_layers m) (pull_start w1 s) = (st, Inr ())"
    and upst: "store_up (ps_store st)"
    using pull_layers_total [of "pull_start w1 s" up "amf_layers m" fetch r "length (amf_layers m)" 0] assms(1,2,6) artifact_decode_layers [OF assms(4)]
    by auto
  have here: "\<exists>b. store_get_cached (ps_store st) (al_kappa l) = Inr (Some b)" if "l \<in> set (amf_layers m)" for l
    using pull_layers_views [OF run that] cached_no_fault [of "ps_store st" "al_kappa l"] upst artifact_decode_layers [OF assms(4) that]
    by (auto simp: store_up_def)
  then show ?thesis
    using assms(3-5) run confirm_all [of r "ps_store st" "amf_layers m"] by (auto simp: pull_def)
qed

lemma pull_again:
  assumes "lf_manifest fetch (ref_repository r) (ar_tag r) w = (w1, Inr (Some (body, digest)))"
    and "artifact_decode jc body = Inr m" and "artifact_archive m = Inr a"
    and "\<forall>l \<in> set (amf_layers m). \<exists>b. store_get_cached s (al_kappa l) = Inr (Some b)"
  shows "\<exists>st rep. pull jc fetch r w s = (st, Inr rep) \<and> ps_store st = s \<and> ps_world st = w1
     \<and> pr_layers_fetched rep = 0 \<and> pr_layers_present rep = length (amf_layers m)
     \<and> pr_bytes_transferred rep = 0 \<and> pr_archive_kappa rep = al_kappa a"
proof -
  obtain p where "pull_layers fetch r (length (amf_layers m)) 0 (amf_layers m) (pull_start w1 s)
      = ((pull_start w1 s)\<lparr>ps_present := length (amf_layers m), ps_progress := p\<rparr>, Inr ())"
    using pull_layers_present [of "amf_layers m" "pull_start w1 s" fetch r "length (amf_layers m)" 0] assms(4) by auto
  then show ?thesis
    using assms confirm_all [of r s "amf_layers m"] by (simp add: pull_def)
qed

text \<open>A small registry: an archive \<open>[1]\<close> and a payload \<open>[2]\<close>.\<close>

definition demo_ref :: artifact_ref where
  "demo_ref = \<lparr>ar_host = ''reg.io'', ar_namespace = ''team'', ar_name = ''app'', ar_tag = ''v1''\<rparr>"

definition demo_manifest :: artifact_manifest where
  "demo_manifest = \<lparr>amf_layers =
       [\<lparr>al_kappa = store_addr sample_store [1], al_media_type = ''application/vnd.hologram.holo'', al_size = 1, al_role = ArchiveRole\<rparr>,
        \<lparr>al_kappa = store_addr sample_store [2], al_media_type = ''application/octet-stream'', al_size = 1, al_role = LayerRole\<rparr>],
     amf_kind = Some ''holo'', amf_name = Some ''app'', amf_tag = Some ''v1''\<rparr>"

definition demo_body :: bytes where
  "demo_body = json_to_bytes sample_json (artifact_document demo_manifest (hd (amf_layers demo_manifest)))"

definition demo_fetch :: "unit layer_fetch" where
  "demo_fetch = \<lparr>lf_manifest = (\<lambda>_ _ w. (w, Inr (Some (demo_body, None)))),
     lf_blob = (\<lambda>_ k w. (w, Inr (if k = store_addr sample_store [1] then [1] else [2])))\<rparr>"

lemma store_addr_blake3: "store_ok s \<Longrightarrow> is_blake3 (store_addr s b)"
  using store_okD(1) by (auto simp: is_blake3_def store_addr_def kappa_prefix_def host_ok_def is_lower_hex_alt split: option.splits)

lemma demo_setup:
  "store_up sample_store" "lf_manifest demo_fetch (ref_repository demo_ref) (ar_tag demo_ref) () = ((), Inr (Some (demo_body, None)))"
  "artifact_decode sample_json demo_body = Inr demo_manifest"
  "artifact_archive demo_manifest = Inr (hd (amf_layers demo_manifest))"
  "l \<in> set (amf_layers demo_manifest) \<Longrightarrow> serves demo_fetch (\<lambda>_. True) (ref_repository demo_ref) sample_store (al_kappa l)"
proof -
  show "store_up sample_store" by (simp add: store_up_def sample_store_up)
  show "lf_manifest demo_fetch (ref_repository demo_ref) (ar_tag demo_ref) () = ((), Inr (Some (demo_body, None)))"
    by (simp add: demo_fetch_def)
  show arch: "artifact_archive demo_manifest = Inr (hd (amf_layers demo_manifest))"
    by (simp add: artifact_archive_def demo_manifest_def)
  have wf: "artifact_wf demo_manifest"
    by (simp add: artifact_wf_def demo_manifest_def store_addr_blake3 sample_store_ok)
  show "artifact_decode sample_json demo_body = Inr demo_manifest"
    using artifact_decode_encode [OF sample_json_ok wf] arch by (simp add: artifact_encode_def demo_body_def)
  show "l \<in> set (amf_layers demo_manifest) \<Longrightarrow> serves demo_fetch (\<lambda>_. True) (ref_repository demo_ref) sample_store (al_kappa l)"
    by (auto simp: serves_def demo_fetch_def demo_manifest_def)
qed

theorem pull_content_authentic_witness:
  "\<exists>st rep. pull sample_json demo_fetch demo_ref () sample_store = (st, Inr rep)
     \<and> store_ok (ps_store st) \<and> pr_layers_fetched rep + pr_layers_present rep = 2
     \<and> map pp_index (ps_progress st) = [0, 1]"
proof -
  obtain st rep where p: "pull sample_json demo_fetch demo_ref () sample_store = (st, Inr rep)"
    using pull_succeeds [OF demo_setup(1) _ demo_setup(2-4), where up = "\<lambda>_. True"] demo_setup(5) by blast
  have "length (amf_layers demo_manifest) = 2" by (simp add: demo_manifest_def)
  then show ?thesis
    using p pull_content_authentic [OF sample_store_ok p] demo_setup(2,3) by (auto simp: upt_rec)
qed

text \<open>
  C39 A pull completes and is idempotent: when the store accepts reads and writes, the reference
  resolves to a manifest with one archive layer and the registry holds every layer (for as long as
  the world satisfies \<open>up\<close>, which fetching a layer keeps), the pull succeeds. Pulling again what a successful pull fetched, while the tag still names the same manifest,
  transfers nothing: no blob is requested, the store is unchanged, no byte is counted, and the
  report names the same archive.
\<close>
theorem pull_completes_idempotent:
  assumes "store_up s" and "up w1" and "lf_manifest fetch (ref_repository r) (ar_tag r) w = (w1, Inr (Some (body, digest)))"
    and "artifact_decode jc body = Inr m" and "is_ok (artifact_archive m)"
    and "\<And>l. l \<in> set (amf_layers m) \<Longrightarrow> serves fetch up (ref_repository r) s (al_kappa l)"
  shows "\<exists>st rep. pull jc fetch r w s = (st, Inr rep)
     \<and> (\<forall>w2 w3 digest'. lf_manifest fetch (ref_repository r) (ar_tag r) w2 = (w3, Inr (Some (body, digest'))) \<longrightarrow>
          (\<exists>st' rep'. pull jc fetch r w2 (ps_store st) = (st', Inr rep') \<and> ps_store st' = ps_store st \<and> ps_world st' = w3
             \<and> pr_layers_fetched rep' = 0 \<and> pr_layers_present rep' = length (amf_layers m)
             \<and> pr_bytes_transferred rep' = 0 \<and> pr_archive_kappa rep' = pr_archive_kappa rep))"
proof -
  obtain a where a: "artifact_archive m = Inr a" using assms(5) by (auto simp: is_ok_iff)
  obtain st rep where first: "pull jc fetch r w s = (st, Inr rep)" "pr_archive_kappa rep = al_kappa a"
    "\<forall>l \<in> set (amf_layers m). \<exists>b. store_get_cached (ps_store st) (al_kappa l) = Inr (Some b)"
    using pull_succeeds [OF assms(1-4) a assms(6)] by blast
  show ?thesis using first pull_again [OF _ assms(4) a first(3)] by metis
qed

theorem pull_completes_idempotent_witness:
  "\<exists>st rep st' rep'. pull sample_json demo_fetch demo_ref () sample_store = (st, Inr rep)
     \<and> pull sample_json demo_fetch demo_ref () (ps_store st) = (st', Inr rep')
     \<and> ps_store st' = ps_store st \<and> pr_layers_fetched rep' = 0 \<and> pr_layers_present rep' = length (amf_layers demo_manifest)"
proof -
  have "is_ok (artifact_archive demo_manifest)" by (simp add: demo_setup(4))
  from pull_completes_idempotent [OF demo_setup(1) TrueI demo_setup(2,3) this demo_setup(5)] show ?thesis
    using demo_setup(2) by blast
qed

end
