(* ===== verification/Artifact_Push.thy ===== *)
theory Artifact_Push
  imports Artifact_Pull Holo_Directory
begin

text \<open>
  Publishing a local archive under a name (\<open>src/artifact_push.rs\<close>). The registry is a
  \<open>LayerPublish\<close>, in the daemon the HTTP client; the progress callback is the list of its events.
  The order of the calls a push makes is observed by wrapping any registry in a log.
\<close>

section \<open>push\<close>

record push_report =
  pu_reference :: string
  pu_archive_kappa :: string
  pu_layers_published :: nat
  pu_bytes_transferred :: nat
  pu_replaced_existing_tag :: bool

record push_progress =
  pg_kappa :: string
  pg_index :: nat
  pg_total :: nat
  pg_bytes :: nat

record 'w layer_publish =
  lp_put_blob :: "string \<Rightarrow> string \<Rightarrow> string \<Rightarrow> bytes \<Rightarrow> 'w \<Rightarrow> 'w \<times> unit live_result"
  lp_put_manifest :: "string \<Rightarrow> string \<Rightarrow> bytes \<Rightarrow> 'w \<Rightarrow> 'w \<times> unit live_result"
  lp_tag_exists :: "string \<Rightarrow> string \<Rightarrow> 'w \<Rightarrow> 'w \<times> bool live_result"

definition kappa_publish :: "'w net \<Rightarrow> kappa_client \<Rightarrow> 'w layer_publish" where
  "kappa_publish n c =
     \<lparr>lp_put_blob = publish_blob n c, lp_put_manifest = publish_manifest n c, lp_tag_exists = tag_exists n c\<rparr>"

definition holo_media_type :: string where
  "holo_media_type = ''application/vnd.hologram.holo''"

definition layer_media_type :: string where
  "layer_media_type = ''application/octet-stream''"

text \<open>The inspection contributes its directory only. A \<open>BTreeSet\<close> iterates in ascending order.\<close>

definition external_payloads :: "holo_directory option \<Rightarrow> string list" where
  "external_payloads inspection =
     (case inspection of None \<Rightarrow> []
      | Some directory \<Rightarrow>
          (let embedded = map hb_kappa (hd_blobs directory) in
           sort (remdups (filter (\<lambda>k. k \<notin> set embedded) (map hl_content_kappa (hd_layers directory))))))"

definition gather_payload :: "object_store \<Rightarrow> string \<Rightarrow> (string \<times> bytes) live_result" where
  "gather_payload s kappa =
     bindE (store_get_cached s kappa) (\<lambda>found.
       case found of
         None \<Rightarrow> Inl (NotFound (''archive references payload '' @ kappa @ '' which is not in the local store; import or compile the archive fat before publishing it''))
       | Some b \<Rightarrow> Inr (kappa, b))"

record 'w push_state =
  pus_world :: 'w
  pus_bytes :: nat
  pus_layers :: "artifact_layer list"
  pus_progress :: "push_progress list"

text \<open>One blob is sent, counted, listed in the manifest and announced.\<close>

definition push_blob ::
  "'w layer_publish \<Rightarrow> string \<Rightarrow> nat \<Rightarrow> layer_role \<Rightarrow> string \<Rightarrow> string \<Rightarrow> bytes \<Rightarrow> 'w push_state \<Rightarrow> 'w push_state \<times> unit live_result"
where
  "push_blob publish repository count role media_type kappa b st =
     (case lp_put_blob publish repository kappa media_type b (pus_world st) of
        (w, Inl e) \<Rightarrow> (st\<lparr>pus_world := w\<rparr>, Inl e)
      | (w, Inr _) \<Rightarrow>
          (let size = sat64 (length b) in
           (st\<lparr>pus_world := w, pus_bytes := saturating_add64 (pus_bytes st) size,
               pus_layers := pus_layers st @ [\<lparr>al_kappa = kappa, al_media_type = media_type, al_size = size, al_role = role\<rparr>],
               pus_progress := pus_progress st @ [\<lparr>pg_kappa = kappa, pg_index = length (pus_layers st), pg_total = count, pg_bytes = size\<rparr>]\<rparr>,
            Inr ())))"

fun push_payloads ::
  "'w layer_publish \<Rightarrow> string \<Rightarrow> nat \<Rightarrow> (string \<times> bytes) list \<Rightarrow> 'w push_state \<Rightarrow> 'w push_state \<times> unit live_result"
where
  "push_payloads publish repository count [] st = (st, Inr ())"
| "push_payloads publish repository count ((kappa, b) # ps) st =
     (case push_blob publish repository count LayerRole layer_media_type kappa b st of
        (st', Inl e) \<Rightarrow> (st', Inl e)
      | (st', Inr _) \<Rightarrow> push_payloads publish repository count ps st')"

definition push_start :: "'w \<Rightarrow> 'w push_state" where
  "push_start w = \<lparr>pus_world = w, pus_bytes = 0, pus_layers = [], pus_progress = []\<rparr>"

definition push_layers ::
  "'w layer_publish \<Rightarrow> string \<Rightarrow> string \<Rightarrow> bytes \<Rightarrow> (string \<times> bytes) list \<Rightarrow> 'w \<Rightarrow> 'w push_state \<times> unit live_result"
where
  "push_layers publish repository archive_kappa archive payloads w =
     (let count = length payloads + 1 in
      case push_blob publish repository count ArchiveRole holo_media_type archive_kappa archive (push_start w) of
        (st, Inl e) \<Rightarrow> (st, Inl e)
      | (st, Inr _) \<Rightarrow> push_payloads publish repository count payloads st)"

definition push_manifest :: "artifact_ref \<Rightarrow> artifact_layer list \<Rightarrow> artifact_manifest" where
  "push_manifest r layers =
     \<lparr>amf_layers = layers, amf_kind = Some ''holo'', amf_name = Some (ar_name r), amf_tag = Some (ar_tag r)\<rparr>"

definition push ::
  "json_codec \<Rightarrow> 'w layer_publish \<Rightarrow> object_store \<Rightarrow> artifact_ref \<Rightarrow> bytes \<Rightarrow> holo_directory option \<Rightarrow> bool \<Rightarrow> 'w
     \<Rightarrow> 'w push_state \<times> push_report live_result"
where
  "push jc publish s r archive inspection force w =
     (let repository = ref_repository r in
      case lp_tag_exists publish repository (ar_tag r) w of
        (w1, Inl e) \<Rightarrow> (push_start w1, Inl e)
      | (w1, Inr replaced) \<Rightarrow>
          if replaced \<and> \<not> force then
            (push_start w1, Inl (Conflict (ref_display r @ '' already exists; pass --force to move the tag to this artifact'')))
          else
           (let archive_kappa = ''blake3:'' @ blake3_hex (os_host s) archive in
            case mapE (gather_payload s) (external_payloads inspection) of
              Inl e \<Rightarrow> (push_start w1, Inl e)
            | Inr payloads \<Rightarrow>
                (case push_layers publish repository archive_kappa archive payloads w1 of
                   (st, Inl e) \<Rightarrow> (st, Inl e)
                 | (st, Inr _) \<Rightarrow>
                     (case artifact_encode jc (push_manifest r (pus_layers st)) of
                        Inl e \<Rightarrow> (st, Inl e)
                      | Inr body \<Rightarrow>
                          (case lp_put_manifest publish repository (ar_tag r) body (pus_world st) of
                             (w2, Inl e) \<Rightarrow> (st\<lparr>pus_world := w2\<rparr>, Inl e)
                           | (w2, Inr _) \<Rightarrow>
                               (st\<lparr>pus_world := w2\<rparr>,
                                Inr \<lparr>pu_reference = ref_display r, pu_archive_kappa = archive_kappa,
                                     pu_layers_published = length (pus_layers st), pu_bytes_transferred = pus_bytes st,
                                     pu_replaced_existing_tag = replaced\<rparr>))))))"

section \<open>The calls of a push\<close>

text \<open>Any registry, with the calls made to it and whether each succeeded on record.\<close>

datatype publish_call =
    AskTag string string
  | PutBlob string string bytes bool
  | PutManifest string string bytes bool

definition logged :: "'w layer_publish \<Rightarrow> ('w \<times> publish_call list) layer_publish" where
  "logged publish =
     \<lparr>lp_put_blob = (\<lambda>repository kappa mt b (w, calls).
        case lp_put_blob publish repository kappa mt b w of (w', a) \<Rightarrow> ((w', calls @ [PutBlob repository kappa b (is_ok a)]), a)),
      lp_put_manifest = (\<lambda>repository tag b (w, calls).
        case lp_put_manifest publish repository tag b w of (w', a) \<Rightarrow> ((w', calls @ [PutManifest repository tag b (is_ok a)]), a)),
      lp_tag_exists = (\<lambda>repository tag (w, calls).
        case lp_tag_exists publish repository tag w of (w', a) \<Rightarrow> ((w', calls @ [AskTag repository tag]), a))\<rparr>"

fun puts_one_of :: "string \<Rightarrow> (string \<times> bytes) set \<Rightarrow> publish_call \<Rightarrow> bool" where
  "puts_one_of repository xs (PutBlob repo k b ok) \<longleftrightarrow> repo = repository \<and> (k, b) \<in> xs"
| "puts_one_of repository xs _ \<longleftrightarrow> False"

lemma push_blob_logged:
  "push_blob (logged publish) repository n role mt k b st = (st', res) \<Longrightarrow>
     snd (pus_world st') = snd (pus_world st) @ [PutBlob repository k b (is_ok res)]
     \<and> (is_ok res \<longrightarrow> pus_layers st' = pus_layers st @ [\<lparr>al_kappa = k, al_media_type = mt, al_size = sat64 (length b), al_role = role\<rparr>])"
  by (cases "pus_world st") (auto simp: push_blob_def logged_def Let_def split: prod.splits sum.splits)

lemma push_payloads_logged:
  "push_payloads (logged publish) repository n ps st = (st', res) \<Longrightarrow>
     \<exists>sent. prefix sent ps
       \<and> (is_ok res \<longrightarrow> sent = ps
           \<and> snd (pus_world st') = snd (pus_world st) @ map (\<lambda>(k, b). PutBlob repository k b True) ps
           \<and> pus_layers st' = pus_layers st @ map (\<lambda>(k, b). \<lparr>al_kappa = k, al_media_type = layer_media_type, al_size = sat64 (length b), al_role = LayerRole\<rparr>) ps)
       \<and> (\<not> is_ok res \<longrightarrow> (\<exists>k b. (k, b) \<in> set ps
           \<and> snd (pus_world st') = snd (pus_world st) @ map (\<lambda>(k, b). PutBlob repository k b True) sent @ [PutBlob repository k b False]))"
proof (induction ps arbitrary: st)
  case Nil
  then show ?case by auto
next
  case (Cons p ps)
  obtain k b where p: "p = (k, b)" by fastforce
  obtain st1 a where one: "push_blob (logged publish) repository n LayerRole layer_media_type k b st = (st1, a)" by fastforce
  note lg = push_blob_logged [OF one]
  show ?case
  proof (cases a)
    case (Inl e)
    then show ?thesis using Cons.prems one lg by (auto simp: p intro!: exI [of _ "[]"])
  next
    case (Inr u)
    then have rest: "push_payloads (logged publish) repository n ps st1 = (st', res)" using Cons.prems one by (simp add: p)
    from Cons.IH [OF rest] obtain pre where "prefix pre ps"
       "is_ok res \<longrightarrow> pre = ps
           \<and> snd (pus_world st') = snd (pus_world st1) @ map (\<lambda>(k, b). PutBlob repository k b True) ps
           \<and> pus_layers st' = pus_layers st1 @ map (\<lambda>(k, b). \<lparr>al_kappa = k, al_media_type = layer_media_type, al_size = sat64 (length b), al_role = LayerRole\<rparr>) ps"
       "\<not> is_ok res \<longrightarrow> (\<exists>k b. (k, b) \<in> set ps
           \<and> snd (pus_world st') = snd (pus_world st1) @ map (\<lambda>(k, b). PutBlob repository k b True) pre @ [PutBlob repository k b False])"
      by blast
    then show ?thesis using lg Inr by (intro exI [of _ "p # pre"]) (auto simp: p)
  qed
qed

lemma gather_ok:
  assumes "store_ok s" and "mapE (gather_payload s) ks = Inr ps"
  shows "map fst ps = ks" and "(k, b) \<in> set ps \<Longrightarrow> store_addr s b = k \<and> store_get_cached s k = Inr (Some b)"
proof -
  have g: "gather_payload s k = Inr p \<Longrightarrow> fst p = k \<and> store_get_cached s k = Inr (Some (snd p))" for k p
    by (auto simp: gather_payload_def bindE_eq_Inr split: option.splits)
  have all2: "list_all2 (\<lambda>k p. fst p = k \<and> store_get_cached s k = Inr (Some (snd p))) ks ps"
    using assms(2) g by (auto simp: mapE_eq_Inr elim!: list_all2_mono)
  then show "map fst ps = ks" by (auto simp: list_all2_conv_all_nth intro: nth_equalityI)
  have "(k, b) \<in> set ps \<Longrightarrow> store_get_cached s k = Inr (Some b)"
    using all2 by (fastforce simp: list_all2_conv_all_nth in_set_conv_nth)
  then show "(k, b) \<in> set ps \<Longrightarrow> store_addr s b = k \<and> store_get_cached s k = Inr (Some b)"
    using cached_view cas.view_addr [OF assms(1)] by blast
qed

lemma push_manifest_wf:
  assumes "\<forall>l \<in> set layers. \<exists>b. store_addr s b = al_kappa l \<and> al_size l \<le> u64_max" and "store_ok s"
  shows "artifact_wf (push_manifest r layers)"
  using assms(1) store_addr_blake3 [OF assms(2)] unfolding artifact_wf_def push_manifest_def by simp metis

definition archive_entry :: "object_store \<Rightarrow> bytes \<Rightarrow> artifact_layer" where
  "archive_entry s b = \<lparr>al_kappa = store_addr s b, al_media_type = holo_media_type, al_size = sat64 (length b), al_role = ArchiveRole\<rparr>"

definition payload_entry :: "string \<times> bytes \<Rightarrow> artifact_layer" where
  "payload_entry p = \<lparr>al_kappa = fst p, al_media_type = layer_media_type, al_size = sat64 (length (snd p)), al_role = LayerRole\<rparr>"

text \<open>The manifest a push builds: the archive, then the payloads; it can always be encoded.\<close>

lemma push_manifest_archive:
  "artifact_archive (push_manifest r (archive_entry s b # map payload_entry ps)) = Inr (archive_entry s b)"
proof -
  have "filter (\<lambda>l. al_role l = ArchiveRole) (map payload_entry ps) = []"
    by (auto simp: payload_entry_def filter_empty_conv)
  then show ?thesis by (simp add: artifact_archive_def push_manifest_def archive_entry_def)
qed

lemma push_manifest_decodes:
  assumes "json_codec_ok jc" "store_ok s" "mapE (gather_payload s) ks = Inr ps"
    and "artifact_encode jc (push_manifest r (archive_entry s b # map payload_entry ps)) = Inr body"
  shows "artifact_decode jc body = Inr (push_manifest r (archive_entry s b # map payload_entry ps))"
proof (rule artifact_decode_encode [OF assms(1) _ assms(4)])
  show "artifact_wf (push_manifest r (archive_entry s b # map payload_entry ps))"
  proof (rule push_manifest_wf [OF _ assms(2)], safe)
    fix l assume "l \<in> set (archive_entry s b # map payload_entry ps)"
    then show "\<exists>b. store_addr s b = al_kappa l \<and> al_size l \<le> u64_max"
      using gather_ok(2) [OF assms(2,3)] by (fastforce simp: archive_entry_def payload_entry_def)
  qed
qed

lemma push_payloads_layers:
  "push_payloads publish repository n ps st = (st', Inr u) \<Longrightarrow> pus_layers st' = pus_layers st @ map payload_entry ps"
proof (induction ps arbitrary: st)
  case (Cons p ps)
  then show ?case
    by (cases p) (fastforce simp: push_blob_def payload_entry_def Let_def split: prod.splits sum.splits)
qed simp

lemma push_layers_layers:
  assumes "push_layers publish repository (store_addr s b) b ps w = (st, Inr u)"
  shows "pus_layers st = archive_entry s b # map payload_entry ps"
  using assms push_payloads_layers
  by (fastforce simp: push_layers_def push_blob_def push_start_def archive_entry_def Let_def split: prod.splits sum.splits)

text \<open>The blobs a push sends, when it gets that far.\<close>

lemma push_layers_logged:
  assumes "push_layers (logged publish) repository k b ps (w, cs) = (st, res)"
  shows "\<exists>calls. snd (pus_world st) = cs @ calls \<and> calls \<noteq> []
     \<and> (\<forall>c \<in> set calls. puts_one_of repository (insert (k, b) (set ps)) c)
     \<and> (is_ok res \<longrightarrow> calls = map (\<lambda>(k, b). PutBlob repository k b True) ((k, b) # ps))"
proof -
  obtain st1 a where one: "push_blob (logged publish) repository (length ps + 1) ArchiveRole holo_media_type k b (push_start (w, cs)) = (st1, a)"
    by fastforce
  note lg = push_blob_logged [OF one]
  show ?thesis
  proof (cases a)
    case (Inl e)
    then show ?thesis using assms one lg by (auto simp: push_layers_def push_start_def)
  next
    case (Inr u)
    then have rest: "push_payloads (logged publish) repository (length ps + 1) ps st1 = (st, res)"
      using assms one by (simp add: push_layers_def Let_def)
    from push_payloads_logged [OF rest] obtain sent where sent: "prefix sent ps"
       "is_ok res \<longrightarrow> snd (pus_world st) = snd (pus_world st1) @ map (\<lambda>(k, b). PutBlob repository k b True) ps"
       "\<not> is_ok res \<longrightarrow> (\<exists>k b. (k, b) \<in> set ps
           \<and> snd (pus_world st) = snd (pus_world st1) @ map (\<lambda>(k, b). PutBlob repository k b True) sent @ [PutBlob repository k b False])"
      by blast
    have sub: "set sent \<subseteq> set ps" using sent(1) by (rule set_mono_prefix)
    show ?thesis
    proof (cases "is_ok res")
      case True
      then show ?thesis using sent(2) lg Inr
        by (intro exI [of _ "PutBlob repository k b True # map (\<lambda>(k, b). PutBlob repository k b True) ps"]) (auto simp: push_start_def)
    next
      case False
      then obtain k' b' where x: "(k', b') \<in> set ps"
        "snd (pus_world st) = snd (pus_world st1) @ map (\<lambda>(k, b). PutBlob repository k b True) sent @ [PutBlob repository k' b' False]"
        using sent(3) by blast
      show ?thesis using False x lg Inr sub
        by (intro exI [of _ "PutBlob repository k b True # map (\<lambda>(k, b). PutBlob repository k b True) sent @ [PutBlob repository k' b' False]"])
           (auto simp: push_start_def)
    qed
  qed
qed

definition call_ok :: "publish_call \<Rightarrow> bool" where
  "call_ok c = (case c of AskTag _ _ \<Rightarrow> True | PutBlob _ _ _ ok \<Rightarrow> ok | PutManifest _ _ _ ok \<Rightarrow> ok)"

fun call_kappa :: "publish_call \<Rightarrow> string" where
  "call_kappa (PutBlob _ k _ _) = k"
| "call_kappa _ = []"

lemma push_prefix:
  assumes "push jc publish s r archive inspection force w = (st, res)"
    and "lp_tag_exists publish (ref_repository r) (ar_tag r) w = (w1, a)"
  shows "(pus_world st = w1 \<and> \<not> is_ok res)
     \<or> (\<exists>replaced payloads st1 b. a = Inr replaced \<and> (replaced \<longrightarrow> force)
          \<and> mapE (gather_payload s) (external_payloads inspection) = Inr payloads
          \<and> push_layers publish (ref_repository r) (store_addr s archive) archive payloads w1 = (st1, b)
          \<and> (\<not> is_ok b \<and> st = st1 \<and> \<not> is_ok res
              \<or> is_ok b \<and> (\<exists>body w2 c. artifact_encode jc (push_manifest r (pus_layers st1)) = Inr body
                   \<and> lp_put_manifest publish (ref_repository r) (ar_tag r) body (pus_world st1) = (w2, c)
                   \<and> st = st1\<lparr>pus_world := w2\<rparr> \<and> is_ok res = is_ok c
                   \<and> (\<forall>rep. res = Inr rep \<longrightarrow> pu_archive_kappa rep = store_addr s archive))))"
proof -
  have kappa: "''blake3:'' @ blake3_hex (os_host s) archive = store_addr s archive" by (simp add: store_addr_def kappa_prefix_def)
  consider (ask) e where "a = Inl e" | (refuse) "a = Inr True" "\<not> force" | (go) x where "a = Inr x" "(x \<and> \<not> force) = False"
    by (cases a) auto
  then show ?thesis
  proof cases
    case ask
    then have "st = push_start w1 \<and> \<not> is_ok res" using assms unfolding push_def Let_def by force
    then show ?thesis by (simp add: push_start_def)
  next
    case refuse
    then have "st = push_start w1 \<and> \<not> is_ok res" using assms unfolding push_def Let_def by force
    then show ?thesis by (simp add: push_start_def)
  next
    case go
    show ?thesis
    proof (cases "mapE (gather_payload s) (external_payloads inspection)")
      case (Inl e)
      then have "st = push_start w1 \<and> \<not> is_ok res" using assms go unfolding push_def Let_def by force
      then show ?thesis by (simp add: push_start_def)
    next
      case (Inr payloads)
      obtain st1 b where l: "push_layers publish (ref_repository r) (store_addr s archive) archive payloads w1 = (st1, b)" by fastforce
      have step: "push jc publish s r archive inspection force w =
          (case b of Inl e \<Rightarrow> (st1, Inl e)
           | Inr _ \<Rightarrow> (case artifact_encode jc (push_manifest r (pus_layers st1)) of
                        Inl e \<Rightarrow> (st1, Inl e)
                      | Inr body \<Rightarrow>
                          (case lp_put_manifest publish (ref_repository r) (ar_tag r) body (pus_world st1) of
                             (w2, Inl e) \<Rightarrow> (st1\<lparr>pus_world := w2\<rparr>, Inl e)
                           | (w2, Inr _) \<Rightarrow>
                               (st1\<lparr>pus_world := w2\<rparr>,
                                Inr \<lparr>pu_reference = ref_display r, pu_archive_kappa = store_addr s archive,
                                     pu_layers_published = length (pus_layers st1), pu_bytes_transferred = pus_bytes st1,
                                     pu_replaced_existing_tag = x\<rparr>))))"
        by (simp only: push_def Let_def kappa assms(2) go Inr l prod.case sum.case if_False)
      show ?thesis
      proof (cases b)
        case (Inl e)
        then show ?thesis using assms(1) step go Inr l by auto
      next
        case (Inr u)
        then have "artifact_archive (push_manifest r (pus_layers st1)) = Inr (archive_entry s archive)"
          using push_layers_layers [of publish _ s archive payloads w1 st1 u] l push_manifest_archive by simp
        then obtain body where body: "artifact_encode jc (push_manifest r (pus_layers st1)) = Inr body"
          by (auto simp: artifact_encode_def)
        obtain w2 c where put: "lp_put_manifest publish (ref_repository r) (ar_tag r) body (pus_world st1) = (w2, c)" by fastforce
        have "st = st1\<lparr>pus_world := w2\<rparr> \<and> is_ok res = is_ok c \<and> (\<forall>rep. res = Inr rep \<longrightarrow> pu_archive_kappa rep = store_addr s archive)"
          using assms(1) step Inr body put by (cases c) auto
        then show ?thesis using go l Inr body put \<open>mapE _ _ = Inr payloads\<close> by auto
      qed
    qed
  qed
qed

text \<open>A registry in memory.\<close>

definition mem_publish :: "((string \<times> string \<rightharpoonup> bytes) \<times> (string \<times> string \<rightharpoonup> bytes)) layer_publish" where
  "mem_publish =
     \<lparr>lp_put_blob = (\<lambda>repo k mt b (bs, ms). ((bs((repo, k) \<mapsto> b), ms), Inr ())),
      lp_put_manifest = (\<lambda>repo tag b (bs, ms). ((bs, ms((repo, tag) \<mapsto> b)), Inr ())),
      lp_tag_exists = (\<lambda>repo tag (bs, ms). ((bs, ms), Inr (ms (repo, tag) \<noteq> None)))\<rparr>"

definition mem_fetch :: "((string \<times> string \<rightharpoonup> bytes) \<times> (string \<times> string \<rightharpoonup> bytes)) layer_fetch" where
  "mem_fetch =
     \<lparr>lf_manifest = (\<lambda>repo tag w. (w, Inr (map_option (\<lambda>b. (b, None)) (snd w (repo, tag))))),
      lf_blob = (\<lambda>repo k w. (w, ok_or (NotFound ''blob'') (fst w (repo, k))))\<rparr>"

lemma mem_push: "is_ok (snd (push jc mem_publish sample_store demo_ref [1] None False (Map.empty, Map.empty)))"
  by (simp add: push_def push_layers_def push_blob_def push_start_def external_payloads_def mem_publish_def Let_def
      artifact_encode_def artifact_archive_def push_manifest_def)

lemma mem_push_logged:
  "is_ok (snd (push jc (logged mem_publish) sample_store demo_ref [1] None False ((Map.empty, Map.empty), [])))"
  by (simp add: push_def push_layers_def push_blob_def push_start_def external_payloads_def mem_publish_def logged_def Let_def
      artifact_encode_def artifact_archive_def push_manifest_def)

text \<open>
  C11 A push moves a tag last and only onto a complete artifact. Against any registry, whatever it
  answers, the calls are: one question about the tag, then blobs, then at most one manifest. Every
  blob sent hashes to the digest it is sent under. No blob is sent when the tag exists and force is
  off, nor when a payload the archive references is not in the local store. A manifest is sent only
  after every blob was accepted; its first layer is the archive, its layers are exactly the blobs
  sent, in order, and its payloads exactly those the archive references without embedding. Success
  is reported exactly when the registry accepted the manifest.
\<close>
theorem push_manifest_last:
  assumes "json_codec_ok jc" and "store_ok s"
    and "push jc (logged publish) s r archive inspection force (w, []) = (st, res)"
  shows "\<exists>blobs manifest. snd (pus_world st) = AskTag (ref_repository r) (ar_tag r) # blobs @ manifest
     \<and> (\<forall>c \<in> set blobs. puts_one_of (ref_repository r) {(k, b). store_addr s b = k} c)
     \<and> (blobs \<noteq> [] \<longrightarrow> (\<forall>k \<in> set (external_payloads inspection). \<exists>b. store_get_cached s k = Inr (Some b))
          \<and> (snd (lp_tag_exists publish (ref_repository r) (ar_tag r) w) = Inr True \<longrightarrow> force))
     \<and> (manifest = [] \<longrightarrow> \<not> is_ok res)
     \<and> (manifest \<noteq> [] \<longrightarrow> (\<exists>body m. manifest = [PutManifest (ref_repository r) (ar_tag r) body (is_ok res)]
          \<and> artifact_decode jc body = Inr m \<and> map al_kappa (amf_layers m) = map call_kappa blobs \<and> list_all call_ok blobs
          \<and> al_kappa (hd (amf_layers m)) = store_addr s archive \<and> artifact_archive m = Inr (hd (amf_layers m))
          \<and> map al_kappa (artifact_payloads m) = external_payloads inspection))"
proof -
  let ?repo = "ref_repository r" and ?tag = "ar_tag r"
  obtain w1 a where q: "lp_tag_exists publish ?repo ?tag w = (w1, a)" by fastforce
  then have lq: "lp_tag_exists (logged publish) ?repo ?tag (w, []) = ((w1, [AskTag ?repo ?tag]), a)" by (simp add: logged_def)
  from push_prefix [OF assms(3) lq] consider
    (early) "pus_world st = (w1, [AskTag ?repo ?tag])" "\<not> is_ok res"
  | (blobs) replaced ps st1 b where "a = Inr replaced" "replaced \<longrightarrow> force" "mapE (gather_payload s) (external_payloads inspection) = Inr ps"
      "push_layers (logged publish) ?repo (store_addr s archive) archive ps (w1, [AskTag ?repo ?tag]) = (st1, b)"
      "\<not> is_ok b \<and> st = st1 \<and> \<not> is_ok res
              \<or> is_ok b \<and> (\<exists>body w2 c. artifact_encode jc (push_manifest r (pus_layers st1)) = Inr body
                   \<and> lp_put_manifest (logged publish) ?repo ?tag body (pus_world st1) = (w2, c)
                   \<and> st = st1\<lparr>pus_world := w2\<rparr> \<and> is_ok res = is_ok c)"
    by blast
  then show ?thesis
  proof cases
    case early
    then show ?thesis by (intro exI [of _ "[]"]) simp
  next
    case blobs
    note g = gather_ok [OF assms(2) blobs(3)]
    obtain calls where calls: "snd (pus_world st1) = [AskTag ?repo ?tag] @ calls" "calls \<noteq> []"
      "\<forall>c \<in> set calls. puts_one_of ?repo (insert (store_addr s archive, archive) (set ps)) c"
      "is_ok b \<longrightarrow> calls = map (\<lambda>(k, b). PutBlob ?repo k b True) ((store_addr s archive, archive) # ps)"
      using push_layers_logged [OF blobs(4)] by blast
    have addr: "puts_one_of ?repo {(k, b). store_addr s b = k} c" if "c \<in> set calls" for c
      using calls(3) that g(2) by (cases c) fastforce+
    have avail: "\<forall>k \<in> set (external_payloads inspection). \<exists>b. store_get_cached s k = Inr (Some b)"
      using g by (metis (no_types, lifting) in_set_conv_nth length_map list.set_map imageE prod.collapse)
    have tag: "snd (lp_tag_exists publish ?repo ?tag w) = Inr True \<longrightarrow> force" using q blobs(1,2) by auto
    show ?thesis
    proof (cases "is_ok b")
      case False
      then show ?thesis using calls addr avail tag blobs(5) by (intro exI [of _ calls] exI [of _ "[]"]) auto
    next
      case True
      then obtain body w2 c where man: "artifact_encode jc (push_manifest r (pus_layers st1)) = Inr body"
        "lp_put_manifest (logged publish) ?repo ?tag body (pus_world st1) = (w2, c)" "st = st1\<lparr>pus_world := w2\<rparr>" "is_ok res = is_ok c"
        using blobs(5) by blast
      let ?m = "push_manifest r (archive_entry s archive # map payload_entry ps)"
      have layers: "pus_layers st1 = archive_entry s archive # map payload_entry ps"
        using True blobs(4) push_layers_layers by (auto simp: is_ok_iff)
      have dec: "artifact_decode jc body = Inr ?m"
        using man(1) layers by (intro push_manifest_decodes [OF assms(1,2) blobs(3)]) simp
      have w2: "snd w2 = snd (pus_world st1) @ [PutManifest ?repo ?tag body (is_ok c)]"
        using man(2) by (cases "pus_world st1") (auto simp: logged_def split: prod.splits)
      have shape: "artifact_decode jc body = Inr ?m \<and> map al_kappa (amf_layers ?m) = map call_kappa calls \<and> list_all call_ok calls
          \<and> al_kappa (hd (amf_layers ?m)) = store_addr s archive \<and> artifact_archive ?m = Inr (hd (amf_layers ?m))
          \<and> map al_kappa (artifact_payloads ?m) = external_payloads inspection"
        using dec calls(4) True g(1) push_manifest_archive [of r s archive ps]
        by (auto simp: push_manifest_def archive_entry_def payload_entry_def artifact_payloads_def call_ok_def list_all_iff comp_def case_prod_unfold filter_map)
      show ?thesis using w2 calls(1,2) addr avail tag man(3,4) shape
        by (intro exI [of _ calls] exI [of _ "[PutManifest ?repo ?tag body (is_ok res)]"]) auto
    qed
  qed
qed

theorem push_manifest_last_witness:
  "\<exists>blobs body. snd (pus_world (fst (push sample_json (logged mem_publish) sample_store demo_ref [1] None False ((Map.empty, Map.empty), []))))
       = AskTag (ref_repository demo_ref) (ar_tag demo_ref) # blobs @ [PutManifest (ref_repository demo_ref) (ar_tag demo_ref) body True]
     \<and> list_all call_ok blobs"
proof -
  obtain st rep where p: "push sample_json (logged mem_publish) sample_store demo_ref [1] None False ((Map.empty, Map.empty), []) = (st, Inr rep)"
    using mem_push_logged [of sample_json] by (cases "push sample_json (logged mem_publish) sample_store demo_ref [1] None False ((Map.empty, Map.empty), [])")
      (auto simp: is_ok_iff)
  show ?thesis using push_manifest_last [OF sample_json_ok sample_store_ok p] p by fastforce
qed

section \<open>Publishing and fetching\<close>

text \<open>
  What a registry promises to both sides, over what it holds: \<open>blob_at\<close> the bytes under a repository
  and digest, \<open>manifest_at\<close> the document under a repository and tag. An accepted upload is stored and
  disturbs nothing else, and reads return what is stored and change nothing.
\<close>

definition registry_laws ::
  "'w layer_publish \<Rightarrow> 'w layer_fetch \<Rightarrow> ('w \<Rightarrow> string \<times> string \<rightharpoonup> bytes) \<Rightarrow> ('w \<Rightarrow> string \<times> string \<rightharpoonup> bytes) \<Rightarrow> bool"
where
  "registry_laws publish fetch blob_at manifest_at \<longleftrightarrow>
     (\<forall>repo k mt b w w' u. lp_put_blob publish repo k mt b w = (w', Inr u) \<longrightarrow>
        blob_at w' = (blob_at w)((repo, k) \<mapsto> b) \<and> manifest_at w' = manifest_at w)
     \<and> (\<forall>repo tag b w w' u. lp_put_manifest publish repo tag b w = (w', Inr u) \<longrightarrow>
        blob_at w' = blob_at w \<and> manifest_at w' = (manifest_at w)((repo, tag) \<mapsto> b))
     \<and> (\<forall>repo k w b. blob_at w (repo, k) = Some b \<longrightarrow> lf_blob fetch repo k w = (w, Inr b))
     \<and> (\<forall>repo tag w b. manifest_at w (repo, tag) = Some b \<longrightarrow> (\<exists>d. lf_manifest fetch repo tag w = (w, Inr (Some (b, d)))))"

lemma registry_lawsD:
  assumes "registry_laws publish fetch blob_at manifest_at"
  shows "lp_put_blob publish repo k mt b w = (w', Inr u) \<Longrightarrow> blob_at w' = (blob_at w)((repo, k) \<mapsto> b)"
    and "lp_put_manifest publish repo tag b w = (w', Inr u) \<Longrightarrow>
       blob_at w' = blob_at w \<and> manifest_at w' = (manifest_at w)((repo, tag) \<mapsto> b)"
    and "blob_at w (repo, k) = Some b \<Longrightarrow> lf_blob fetch repo k w = (w, Inr b)"
    and "manifest_at w (repo, tag) = Some b \<Longrightarrow> \<exists>d. lf_manifest fetch repo tag w = (w, Inr (Some (b, d)))"
  using assms unfolding registry_laws_def by metis+

text \<open>Every listed layer is held by the registry under its address.\<close>

definition layers_held :: "object_store \<Rightarrow> ('w \<Rightarrow> string \<times> string \<rightharpoonup> bytes) \<Rightarrow> string \<Rightarrow> 'w push_state \<Rightarrow> bool" where
  "layers_held s blob_at repository st \<longleftrightarrow>
     (\<forall>l \<in> set (pus_layers st). \<exists>b. blob_at (pus_world st) (repository, al_kappa l) = Some b \<and> store_addr s b = al_kappa l)"

lemma push_blob_held:
  assumes "registry_laws publish fetch blob_at manifest_at" and "layers_held s blob_at repository st"
    and "push_blob publish repository n role mt k b st = (st', Inr u)" and "store_addr s b = k"
  shows "layers_held s blob_at repository st'"
  using assms(2-4) registry_lawsD(1) [OF assms(1)]
  by (auto simp: push_blob_def layers_held_def Let_def split: prod.splits sum.splits)

lemma push_payloads_held:
  assumes "registry_laws publish fetch blob_at manifest_at"
  shows "layers_held s blob_at repository st \<Longrightarrow> push_payloads publish repository n ps st = (st', Inr u)
     \<Longrightarrow> (\<And>k b. (k, b) \<in> set ps \<Longrightarrow> store_addr s b = k) \<Longrightarrow> layers_held s blob_at repository st'"
proof (induction ps arbitrary: st)
  case (Cons p ps)
  obtain k b where p: "p = (k, b)" by fastforce
  obtain st1 where one: "push_blob publish repository n LayerRole layer_media_type k b st = (st1, Inr ())"
    and rest: "push_payloads publish repository n ps st1 = (st', Inr u)"
    using Cons.prems(2) by (auto simp: p split: prod.splits sum.splits)
  have "layers_held s blob_at repository st1"
    using push_blob_held [OF assms Cons.prems(1) one] Cons.prems(3) by (simp add: p)
  then show ?case using Cons.IH rest Cons.prems(3) by simp
qed simp

lemma push_layers_held:
  assumes "registry_laws publish fetch blob_at manifest_at"
    and "push_layers publish repository (store_addr s archive) archive ps w = (st, Inr u)"
    and "\<And>k b. (k, b) \<in> set ps \<Longrightarrow> store_addr s b = k"
  shows "layers_held s blob_at repository st"
proof -
  obtain st1 where one: "push_blob publish repository (length ps + 1) ArchiveRole holo_media_type (store_addr s archive) archive (push_start w) = (st1, Inr ())"
    and rest: "push_payloads publish repository (length ps + 1) ps st1 = (st, Inr u)"
    using assms(2) by (auto simp: push_layers_def Let_def split: prod.splits sum.splits)
  have "layers_held s blob_at repository st1"
    by (rule push_blob_held [OF assms(1) _ one refl]) (simp add: layers_held_def push_start_def)
  then show ?thesis using push_payloads_held [OF assms(1) _ rest] assms(3) by blast
qed

text \<open>What a successful push leaves at the registry.\<close>

lemma push_published:
  assumes laws: "registry_laws publish fetch blob_at manifest_at" and "json_codec_ok jc" and "store_ok s"
    and push: "push jc publish s r archive inspection force w = (st, Inr rep)"
  shows "\<exists>body m a. manifest_at (pus_world st) (ref_repository r, ar_tag r) = Some body \<and> artifact_decode jc body = Inr m
     \<and> artifact_archive m = Inr a \<and> al_kappa a = store_addr s archive \<and> pu_archive_kappa rep = store_addr s archive
     \<and> (\<forall>l \<in> set (amf_layers m). \<exists>b. blob_at (pus_world st) (ref_repository r, al_kappa l) = Some b \<and> store_addr s b = al_kappa l)
     \<and> set (external_payloads inspection) \<subseteq> al_kappa ` set (amf_layers m)"
proof -
  obtain w1 a where q: "lp_tag_exists publish (ref_repository r) (ar_tag r) w = (w1, a)" by fastforce
  obtain ps st1 body w2 where gp: "mapE (gather_payload s) (external_payloads inspection) = Inr ps"
    and pl: "push_layers publish (ref_repository r) (store_addr s archive) archive ps w1 = (st1, Inr ())"
    and enc: "artifact_encode jc (push_manifest r (pus_layers st1)) = Inr body"
    and put: "lp_put_manifest publish (ref_repository r) (ar_tag r) body (pus_world st1) = (w2, Inr ())"
    and st: "st = st1\<lparr>pus_world := w2\<rparr>" and rk: "pu_archive_kappa rep = store_addr s archive"
    using push_prefix [OF push q] by (auto simp: is_ok_iff)
  note g = gather_ok [OF assms(3) gp]
  have layers: "pus_layers st1 = archive_entry s archive # map payload_entry ps" by (rule push_layers_layers [OF pl])
  have dec: "artifact_decode jc body = Inr (push_manifest r (pus_layers st1))"
    using enc layers push_manifest_decodes [OF assms(2,3) gp] by simp
  have held: "layers_held s blob_at (ref_repository r) st1" by (rule push_layers_held [OF laws pl]) (use g(2) in blast)
  have "set (external_payloads inspection) \<subseteq> al_kappa ` set (pus_layers st1)"
    unfolding g(1) [symmetric] layers by (auto simp: payload_entry_def image_image)
  then show ?thesis
    using registry_lawsD(2) [OF laws put] dec held rk push_manifest_archive [of r s archive ps]
    by (auto simp: st layers_held_def push_manifest_def layers archive_entry_def)
qed

text \<open>
  C28 What is pushed can be pulled: after a successful push to a registry that keeps its promises, a
  pull of the same reference into any consistent, working store that hashes the same way succeeds
  without further condition, names the archive that was pushed, and leaves the archive and every
  payload it references in that store, each under its own hash.
\<close>
theorem push_then_pull:
  assumes "registry_laws publish fetch blob_at manifest_at" and "json_codec_ok jc" and "store_ok s"
    and "push jc publish s r archive inspection force w = (st, Inr rep)"
    and "store_ok t" and "store_up t" and "os_host t = os_host s"
  shows "\<exists>st' rep'. pull jc fetch r (pus_world st) t = (st', Inr rep')
     \<and> pr_archive_kappa rep' = pu_archive_kappa rep \<and> pu_archive_kappa rep = store_addr s archive
     \<and> (\<forall>k \<in> insert (store_addr s archive) (set (external_payloads inspection)).
          \<exists>b. store_get (ps_store st') k = Inr b \<and> store_addr s b = k)"
proof -
  obtain body m a where man: "manifest_at (pus_world st) (ref_repository r, ar_tag r) = Some body" "artifact_decode jc body = Inr m"
      "artifact_archive m = Inr a" "al_kappa a = store_addr s archive" "pu_archive_kappa rep = store_addr s archive"
    and held: "\<forall>l \<in> set (amf_layers m). \<exists>b. blob_at (pus_world st) (ref_repository r, al_kappa l) = Some b \<and> store_addr s b = al_kappa l"
    and ext: "set (external_payloads inspection) \<subseteq> al_kappa ` set (amf_layers m)"
    using push_published [OF assms(1-4)] by blast
  have addr: "store_addr t = store_addr s" using assms(7) by (simp add: store_addr_def fun_eq_iff)
  obtain digest where fm: "lf_manifest fetch (ref_repository r) (ar_tag r) (pus_world st) = (pus_world st, Inr (Some (body, digest)))"
    using registry_lawsD(4) [OF assms(1) man(1)] by blast
  have "serves fetch (\<lambda>w. w = pus_world st) (ref_repository r) t (al_kappa l)" if "l \<in> set (amf_layers m)" for l
    using held that registry_lawsD(3) [OF assms(1)] by (fastforce simp: serves_def addr)
  from pull_succeeds [OF assms(6) refl fm man(2,3) this] obtain st' rep' where
    p: "pull jc fetch r (pus_world st) t = (st', Inr rep')" "pr_archive_kappa rep' = al_kappa a"
      "\<forall>l \<in> set (amf_layers m). \<exists>b. store_get_cached (ps_store st') (al_kappa l) = Inr (Some b)" by blast
  obtain ks where "extends ks t (ps_store st')" using pull_extends [OF p(1)] by blast
  then have ok: "store_ok (ps_store st')" "store_addr (ps_store st') = store_addr s"
    using assms(5) addr by (auto simp: extends_def cas.grows_def)
  have "\<exists>b. store_get (ps_store st') k = Inr b \<and> store_addr s b = k" if "k \<in> al_kappa ` set (amf_layers m)" for k
    using p(3) that cached_get cached_view cas.view_addr [OF ok(1)] ok(2) by (metis imageE)
  moreover have "store_addr s archive \<in> al_kappa ` set (amf_layers m)" using artifact_archive_in [OF man(3)] man(4) by force
  ultimately have "\<forall>k \<in> insert (store_addr s archive) (set (external_payloads inspection)).
          \<exists>b. store_get (ps_store st') k = Inr b \<and> store_addr s b = k"
    using ext by (metis insertE subsetD)
  then show ?thesis using p(1,2) man(4,5) by simp
qed

lemma mem_laws: "registry_laws mem_publish mem_fetch fst snd"
  by (auto simp: registry_laws_def mem_publish_def mem_fetch_def)

theorem push_then_pull_witness:
  "\<exists>st rep st' rep'. push sample_json mem_publish sample_store demo_ref [1] None False (Map.empty, Map.empty) = (st, Inr rep)
     \<and> pull sample_json mem_fetch demo_ref (pus_world st) sample_store = (st', Inr rep')
     \<and> pr_archive_kappa rep' = store_addr sample_store [1]"
proof -
  obtain st rep where p: "push sample_json mem_publish sample_store demo_ref [1] None False (Map.empty, Map.empty) = (st, Inr rep)"
    using mem_push [of sample_json] by (cases "push sample_json mem_publish sample_store demo_ref [1] None False (Map.empty, Map.empty)")
      (auto simp: is_ok_iff)
  show ?thesis using push_then_pull [OF mem_laws sample_json_ok sample_store_ok p sample_store_ok demo_setup(1)] p by fastforce
qed

end
