(* ===== verification/Fetch_Address.thy ===== *)
theory Fetch_Address
  imports Prelude
begin

text \<open>
  The address policy of mediated fetches (\<open>is_public_destination\<close> in \<open>src/holo_fetch.rs\<close>), on
  addresses as the machine words they are: which IPv4 and IPv6 destinations a guest may reach. The
  code tests octets and segments; the specification is a table of address blocks in prefix notation,
  and the two are proved equal.
\<close>

unbundle bit_operations_syntax

section \<open>Addresses\<close>

datatype ip_address = Ipv4 "32 word" | Ipv6 "128 word"

text \<open>\<open>Ipv4Addr::octets\<close> and \<open>Ipv6Addr::segments\<close>.\<close>

definition v4_octet :: "32 word \<Rightarrow> nat \<Rightarrow> 8 word" where
  "v4_octet a i = ucast (drop_bit (24 - 8 * i) a)"

definition v6_segment :: "128 word \<Rightarrow> nat \<Rightarrow> 16 word" where
  "v6_segment a i = ucast (drop_bit (112 - 16 * i) a)"

definition to_ipv4_mapped :: "128 word \<Rightarrow> 32 word option" where
  "to_ipv4_mapped a = (if drop_bit 32 a = 0xffff then Some (ucast a) else None)"

definition v6_is_multicast :: "128 word \<Rightarrow> bool" where
  "v6_is_multicast a = (v6_segment a 0 AND 0xff00 = 0xff00)"

section \<open>The policy of the code\<close>

definition is_public_v4 :: "32 word \<Rightarrow> bool" where
  "is_public_v4 a =
     (let o0 = v4_octet a 0; o1 = v4_octet a 1; o2 = v4_octet a 2 in
      \<not> (o0 = 0 \<or> o0 = 10 \<or> o0 = 127
         \<or> (o0 = 100 \<and> 64 \<le> o1 \<and> o1 \<le> 127)
         \<or> (o0 = 169 \<and> o1 = 254)
         \<or> (o0 = 172 \<and> 16 \<le> o1 \<and> o1 \<le> 31)
         \<or> (o0 = 192 \<and> o1 = 0 \<and> o2 = 0)
         \<or> (o0 = 192 \<and> o1 = 0 \<and> o2 = 2)
         \<or> (o0 = 192 \<and> o1 = 88 \<and> o2 = 99)
         \<or> (o0 = 192 \<and> o1 = 168)
         \<or> (o0 = 198 \<and> (o1 = 18 \<or> o1 = 19))
         \<or> (o0 = 198 \<and> o1 = 51 \<and> o2 = 100)
         \<or> (o0 = 203 \<and> o1 = 0 \<and> o2 = 113)
         \<or> 224 \<le> o0))"

definition is_public_v6 :: "128 word \<Rightarrow> bool" where
  "is_public_v6 a =
     (let s0 = v6_segment a 0; s1 = v6_segment a 1 in
      case to_ipv4_mapped a of
        Some mapped \<Rightarrow> is_public_v4 mapped
      | None \<Rightarrow>
          \<not> (s0 AND 0xe000 \<noteq> 0x2000
             \<or> a = 0
             \<or> a = 1
             \<or> v6_is_multicast a
             \<or> s0 AND 0xfe00 = 0xfc00
             \<or> s0 AND 0xffc0 = 0xfe80
             \<or> (s0 = 0x2001 \<and> s1 \<le> 0x01ff)
             \<or> (s0 = 0x2001 \<and> s1 = 0x0db8)
             \<or> s0 = 0x2002))"

definition is_public_destination :: "ip_address \<Rightarrow> bool" where
  "is_public_destination address = (case address of Ipv4 a \<Rightarrow> is_public_v4 a | Ipv6 a \<Rightarrow> is_public_v6 a)"

section \<open>The policy as a table of blocks\<close>

text \<open>An address belongs to a block \<open>(n, len)\<close> when its first \<open>len\<close> bits are those of \<open>n\<close>.\<close>

definition in_block4 :: "32 word \<Rightarrow> 32 word \<times> nat \<Rightarrow> bool" where
  "in_block4 a blk = (drop_bit (32 - snd blk) a = drop_bit (32 - snd blk) (fst blk))"

definition in_block6 :: "128 word \<Rightarrow> 128 word \<times> nat \<Rightarrow> bool" where
  "in_block6 a blk = (drop_bit (128 - snd blk) a = drop_bit (128 - snd blk) (fst blk))"

definition dotted :: "nat \<Rightarrow> nat \<Rightarrow> nat \<Rightarrow> nat \<Rightarrow> 32 word" where
  "dotted a b c d = of_nat (a * 2 ^ 24 + b * 2 ^ 16 + c * 2 ^ 8 + d)"

text \<open>This network, private use, shared address space, loopback, link local, protocol assignments,
  documentation, 6to4 relay, benchmarking, multicast and reserved.\<close>

definition special_v4 :: "(32 word \<times> nat) list" where
  "special_v4 =
     [(dotted 0 0 0 0, 8), (dotted 10 0 0 0, 8), (dotted 127 0 0 0, 8), (dotted 100 64 0 0, 10),
      (dotted 169 254 0 0, 16), (dotted 172 16 0 0, 12), (dotted 192 0 0 0, 24), (dotted 192 0 2 0, 24),
      (dotted 192 88 99 0, 24), (dotted 192 168 0 0, 16), (dotted 198 18 0 0, 15), (dotted 198 51 100 0, 24),
      (dotted 203 0 113 0, 24), (dotted 224 0 0 0, 3)]"

definition hextets :: "nat \<Rightarrow> nat \<Rightarrow> 128 word" where
  "hextets s0 s1 = of_nat (s0 * 2 ^ 112 + s1 * 2 ^ 96)"

text \<open>Within the global unicast block \<open>2000::/3\<close>: protocol assignments, documentation, 6to4.\<close>

definition special_v6 :: "(128 word \<times> nat) list" where
  "special_v6 = [(hextets 0x2001 0, 23), (hextets 0x2001 0x0db8, 32), (hextets 0x2002 0, 16)]"

section \<open>Arithmetic of blocks\<close>

lemma unat_drop_bit: "unat (drop_bit n a) = unat a div 2 ^ n" for a :: "'a::len word"
  by (simp add: unsigned_drop_bit_eq drop_bit_eq_div) (metis unsigned_take_bit_eq unat_drop_bit_eq drop_bit_eq_div)

lemma unat_octet:
  "unat (v4_octet a 0) = unat a div 2 ^ 24"
  "unat (v4_octet a (Suc 0)) = unat a div 2 ^ 16 mod 256"
  "unat (v4_octet a 2) = unat a div 2 ^ 8 mod 256"
proof -
  have "unat a < 2 ^ LENGTH(32)" by (rule unsigned_less)
  then have "unat a div 2 ^ 24 < 256" by (simp add: less_mult_imp_div_less)
  then show "unat (v4_octet a 0) = unat a div 2 ^ 24"
    by (simp add: v4_octet_def unsigned_ucast_eq unat_drop_bit take_bit_eq_mod)
qed (simp_all add: v4_octet_def unsigned_ucast_eq unat_drop_bit take_bit_eq_mod)

lemma unat_segment:
  "unat (v6_segment a 0) = unat a div 2 ^ 112"
  "unat (v6_segment a (Suc 0)) = unat a div 2 ^ 96 mod 65536"
proof -
  have "unat a < 2 ^ LENGTH(128)" by (rule unsigned_less)
  then have "unat a div 2 ^ 112 < 65536" by (simp add: less_mult_imp_div_less)
  then show "unat (v6_segment a 0) = unat a div 2 ^ 112"
    by (simp add: v6_segment_def unsigned_ucast_eq unat_drop_bit take_bit_eq_mod)
qed (simp add: v6_segment_def unsigned_ucast_eq unat_drop_bit take_bit_eq_mod)

lemma in_block4_nat: "in_block4 a (n, len) \<longleftrightarrow> unat a div 2 ^ (32 - len) = unat n div 2 ^ (32 - len)"
  by (simp add: in_block4_def word_unat_eq_iff unat_drop_bit)

lemma in_block6_nat: "in_block6 a (n, len) \<longleftrightarrow> unat a div 2 ^ (128 - len) = unat n div 2 ^ (128 - len)"
  by (simp add: in_block6_def word_unat_eq_iff unat_drop_bit)

text \<open>Shorter prefixes of a number in terms of its digits to base 256.\<close>

lemma div_split: "0 < j \<Longrightarrow> m div j = m div (j * k) * k + m mod (j * k) div j" for j k m :: nat
  by (simp add: div_mult2_eq mod_mult2_eq)

lemma digit_prefixes:
  fixes m :: nat
  shows "m div 64 = m div 256 * 4 + m mod 256 div 64" "m div 16 = m div 256 * 16 + m mod 256 div 16"
    "m div 2 = m div 256 * 128 + m mod 256 div 2" "m = m div 256 * 256 + m mod 256"
  using div_split [of 64 m 4] div_split [of 16 m 16] div_split [of 2 m 128] by simp_all

lemma octet_prefixes:
  fixes n :: nat
  shows "n div 2 ^ 29 = n div 2 ^ 24 div 32"
    and "n div 2 ^ 22 = n div 2 ^ 24 * 4 + n div 2 ^ 16 mod 256 div 64"
    and "n div 2 ^ 20 = n div 2 ^ 24 * 16 + n div 2 ^ 16 mod 256 div 16"
    and "n div 2 ^ 17 = n div 2 ^ 24 * 128 + n div 2 ^ 16 mod 256 div 2"
    and "n div 2 ^ 16 = n div 2 ^ 24 * 256 + n div 2 ^ 16 mod 256"
    and "n div 2 ^ 8 = n div 2 ^ 24 * 65536 + n div 2 ^ 16 mod 256 * 256 + n div 2 ^ 8 mod 256"
proof -
  have top: "n div 2 ^ 24 = n div 2 ^ 16 div 256" "n div 2 ^ 16 = n div 2 ^ 8 div 256" by (simp_all flip: div_mult2_eq)
  show "n div 2 ^ 29 = n div 2 ^ 24 div 32" by (simp flip: div_mult2_eq)
  have "n div 2 ^ 22 = n div 2 ^ 16 div 64" "n div 2 ^ 20 = n div 2 ^ 16 div 16" "n div 2 ^ 17 = n div 2 ^ 16 div 2"
    by (simp_all flip: div_mult2_eq)
  then show "n div 2 ^ 22 = n div 2 ^ 24 * 4 + n div 2 ^ 16 mod 256 div 64"
    "n div 2 ^ 20 = n div 2 ^ 24 * 16 + n div 2 ^ 16 mod 256 div 16"
    "n div 2 ^ 17 = n div 2 ^ 24 * 128 + n div 2 ^ 16 mod 256 div 2"
    unfolding top(1) using digit_prefixes(1-3) by metis+
  show *: "n div 2 ^ 16 = n div 2 ^ 24 * 256 + n div 2 ^ 16 mod 256"
    unfolding top(1) by (rule digit_prefixes(4))
  have "n div 2 ^ 8 = n div 2 ^ 16 * 256 + n div 2 ^ 8 mod 256"
    unfolding top(2) by (rule digit_prefixes(4))
  with * show "n div 2 ^ 8 = n div 2 ^ 24 * 65536 + n div 2 ^ 16 mod 256 * 256 + n div 2 ^ 8 mod 256" by linarith
qed

lemma digit_eq: "q < k \<Longrightarrow> b < k \<Longrightarrow> p * k + q = a * k + b \<longleftrightarrow> p = a \<and> q = b" for k p q a b :: nat
  by (metis add.commute div_mult_self3 mod_mult_self3 mod_less add_0 div_less not_less_zero)

text \<open>Membership in the blocks of the table, octet by octet.\<close>

lemma special_v4_octets:
  fixes o0 o1 o2 :: nat
  assumes "o1 < 256" "o2 < 256"
  shows "o0 div 32 = 7 \<longleftrightarrow> 224 \<le> o0 \<and> o0 < 256"
    and "o0 * 4 + o1 div 64 = 401 \<longleftrightarrow> o0 = 100 \<and> 64 \<le> o1 \<and> o1 \<le> 127"
    and "o0 * 16 + o1 div 16 = 2753 \<longleftrightarrow> o0 = 172 \<and> 16 \<le> o1 \<and> o1 \<le> 31"
    and "o0 * 128 + o1 div 2 = 25353 \<longleftrightarrow> o0 = 198 \<and> (o1 = 18 \<or> o1 = 19)"
proof -
  have q: "o1 div 64 < 4" "o1 div 16 < 16" "o1 div 2 < 128" using assms(1) by auto
  show "o0 div 32 = 7 \<longleftrightarrow> 224 \<le> o0 \<and> o0 < 256"
  proof
    assume "o0 div 32 = 7"
    then show "224 \<le> o0 \<and> o0 < 256" using div_mult_mod_eq [of o0 32] mod_less_divisor [of 32 o0] by simp
  qed (auto intro: div_nat_eqI)
  have "o0 * 4 + o1 div 64 = 401 \<longleftrightarrow> o0 = 100 \<and> o1 div 64 = 1" using digit_eq [OF q(1), of 1 o0 100] by simp
  then show "o0 * 4 + o1 div 64 = 401 \<longleftrightarrow> o0 = 100 \<and> 64 \<le> o1 \<and> o1 \<le> 127" by auto
  have "o0 * 16 + o1 div 16 = 2753 \<longleftrightarrow> o0 = 172 \<and> o1 div 16 = 1" using digit_eq [OF q(2), of 1 o0 172] by simp
  then show "o0 * 16 + o1 div 16 = 2753 \<longleftrightarrow> o0 = 172 \<and> 16 \<le> o1 \<and> o1 \<le> 31" by auto
  have "o0 * 128 + o1 div 2 = 25353 \<longleftrightarrow> o0 = 198 \<and> o1 div 2 = 9" using digit_eq [OF q(3), of 9 o0 198] by simp
  then show "o0 * 128 + o1 div 2 = 25353 \<longleftrightarrow> o0 = 198 \<and> (o1 = 18 \<or> o1 = 19)" by auto
qed

lemma digit_triple:
  fixes o0 o1 o2 :: nat
  assumes "o1 < 256" "o2 < 256" "b < 256" "c < 256"
  shows "o0 * 65536 + o1 * 256 + o2 = a * 65536 + b * 256 + c \<longleftrightarrow> o0 = a \<and> o1 = b \<and> o2 = c"
  using digit_eq [OF assms(2,4), of "o0 * 256 + o1" "a * 256 + b"] digit_eq [OF assms(1,3), of o0 a]
  by (simp add: add_mult_distrib mult.commute)

section \<open>The code implements the table\<close>

lemma is_public_v4_nat:
  fixes a :: "32 word"
  defines "n \<equiv> unat a"
  defines "o0 \<equiv> n div 2 ^ 24" and "o1 \<equiv> n div 2 ^ 16 mod 256" and "o2 \<equiv> n div 2 ^ 8 mod 256"
  shows "is_public_v4 a \<longleftrightarrow> \<not> (o0 = 0 \<or> o0 = 10 \<or> o0 = 127 \<or> (o0 = 100 \<and> 64 \<le> o1 \<and> o1 \<le> 127)
         \<or> (o0 = 169 \<and> o1 = 254) \<or> (o0 = 172 \<and> 16 \<le> o1 \<and> o1 \<le> 31) \<or> (o0 = 192 \<and> o1 = 0 \<and> o2 = 0)
         \<or> (o0 = 192 \<and> o1 = 0 \<and> o2 = 2) \<or> (o0 = 192 \<and> o1 = 88 \<and> o2 = 99) \<or> (o0 = 192 \<and> o1 = 168)
         \<or> (o0 = 198 \<and> (o1 = 18 \<or> o1 = 19)) \<or> (o0 = 198 \<and> o1 = 51 \<and> o2 = 100)
         \<or> (o0 = 203 \<and> o1 = 0 \<and> o2 = 113) \<or> 224 \<le> o0)"
  by (simp only: is_public_v4_def Let_def word_unat_eq_iff word_le_nat_alt o0_def o1_def o2_def n_def
      unat_octet [symmetric]) simp

lemma special_v4_nat:
  fixes a :: "32 word"
  defines "n \<equiv> unat a"
  shows "(\<exists>blk \<in> set special_v4. in_block4 a blk) \<longleftrightarrow>
     n div 2 ^ 24 = 0 \<or> n div 2 ^ 24 = 10 \<or> n div 2 ^ 24 = 127 \<or> n div 2 ^ 22 = 401
     \<or> n div 2 ^ 16 = 169 * 256 + 254 \<or> n div 2 ^ 20 = 2753 \<or> n div 2 ^ 8 = 192 * 65536 + 0 * 256 + 0
     \<or> n div 2 ^ 8 = 192 * 65536 + 0 * 256 + 2 \<or> n div 2 ^ 8 = 192 * 65536 + 88 * 256 + 99
     \<or> n div 2 ^ 16 = 192 * 256 + 168 \<or> n div 2 ^ 17 = 25353 \<or> n div 2 ^ 8 = 198 * 65536 + 51 * 256 + 100
     \<or> n div 2 ^ 8 = 203 * 65536 + 0 * 256 + 113 \<or> n div 2 ^ 29 = 7"
  by (simp add: special_v4_def in_block4_nat dotted_def n_def)

lemma is_public_v4_table: "is_public_v4 a \<longleftrightarrow> \<not> (\<exists>blk \<in> set special_v4. in_block4 a blk)"
proof -
  define n where "n = unat a"
  define o0 where "o0 = n div 2 ^ 24"
  define o1 where "o1 = n div 2 ^ 16 mod 256"
  define o2 where "o2 = n div 2 ^ 8 mod 256"
  have "n < 2 ^ LENGTH(32)" unfolding n_def by (rule unsigned_less)
  then have b: "o0 < 256" "o1 < 256" "o2 < 256" by (simp_all add: o0_def o1_def o2_def less_mult_imp_div_less)
  note pre = octet_prefixes [of n, folded o0_def o1_def o2_def]
  note sp = special_v4_octets [OF b(2,3), of o0]
  have two: "o0 * 256 + o1 = 169 * 256 + 254 \<longleftrightarrow> o0 = 169 \<and> o1 = 254" "o0 * 256 + o1 = 192 * 256 + 168 \<longleftrightarrow> o0 = 192 \<and> o1 = 168"
    by (rule digit_eq [OF b(2)], simp)+
  have three: "o0 * 65536 + o1 * 256 + o2 = 192 * 65536 + 0 * 256 + 0 \<longleftrightarrow> o0 = 192 \<and> o1 = 0 \<and> o2 = 0"
    "o0 * 65536 + o1 * 256 + o2 = 192 * 65536 + 0 * 256 + 2 \<longleftrightarrow> o0 = 192 \<and> o1 = 0 \<and> o2 = 2"
    "o0 * 65536 + o1 * 256 + o2 = 192 * 65536 + 88 * 256 + 99 \<longleftrightarrow> o0 = 192 \<and> o1 = 88 \<and> o2 = 99"
    "o0 * 65536 + o1 * 256 + o2 = 198 * 65536 + 51 * 256 + 100 \<longleftrightarrow> o0 = 198 \<and> o1 = 51 \<and> o2 = 100"
    "o0 * 65536 + o1 * 256 + o2 = 203 * 65536 + 0 * 256 + 113 \<longleftrightarrow> o0 = 203 \<and> o1 = 0 \<and> o2 = 113"
    by (rule digit_triple [OF b(2,3)], simp, simp)+
  have "(\<exists>blk \<in> set special_v4. in_block4 a blk) \<longleftrightarrow>
     o0 = 0 \<or> o0 = 10 \<or> o0 = 127 \<or> (o0 = 100 \<and> 64 \<le> o1 \<and> o1 \<le> 127) \<or> (o0 = 169 \<and> o1 = 254)
     \<or> (o0 = 172 \<and> 16 \<le> o1 \<and> o1 \<le> 31) \<or> (o0 = 192 \<and> o1 = 0 \<and> o2 = 0) \<or> (o0 = 192 \<and> o1 = 0 \<and> o2 = 2)
     \<or> (o0 = 192 \<and> o1 = 88 \<and> o2 = 99) \<or> (o0 = 192 \<and> o1 = 168) \<or> (o0 = 198 \<and> (o1 = 18 \<or> o1 = 19))
     \<or> (o0 = 198 \<and> o1 = 51 \<and> o2 = 100) \<or> (o0 = 203 \<and> o1 = 0 \<and> o2 = 113) \<or> (224 \<le> o0 \<and> o0 < 256)"
    unfolding special_v4_nat n_def [symmetric] o0_def [symmetric] pre sp two three by (rule refl)
  then show ?thesis
    unfolding is_public_v4_nat n_def [symmetric] o0_def [symmetric] o1_def [symmetric] o2_def [symmetric]
    by (simp only: b(1) simp_thms)
qed

text \<open>A masked comparison of the high bits compares prefixes.\<close>

lemma and_not_mask: "w AND NOT (mask n) = push_bit n (drop_bit n w)" for w :: "'a::len word"
  by (rule bit_word_eqI) (auto simp: bit_simps)

lemma and_not_mask_eq:
  fixes w c :: "'a::len word"
  assumes "w AND NOT (mask n) = c"
  shows "unat w div 2 ^ n = unat c div 2 ^ n"
proof -
  have "drop_bit n (w AND NOT (mask n)) = drop_bit n w"
    unfolding and_not_mask by (rule bit_word_eqI) (auto simp: bit_simps dest: bit_imp_le_length)
  then have "drop_bit n w = drop_bit n c" using assms by simp
  then show ?thesis by (metis unat_drop_bit)
qed

lemma high_masks:
  "(0xe000 :: 16 word) = NOT (mask 13)" "(0xff00 :: 16 word) = NOT (mask 8)"
  "(0xfe00 :: 16 word) = NOT (mask 9)" "(0xffc0 :: 16 word) = NOT (mask 6)"
  by (simp_all add: mask_eq_exp_minus_1)

lemma global_unicast: "s AND 0xe000 = 0x2000 \<longleftrightarrow> unat s div 2 ^ 13 = 1" for s :: "16 word"
proof
  assume "s AND 0xe000 = 0x2000"
  from and_not_mask_eq [OF this [unfolded high_masks(1)]] show "unat s div 2 ^ 13 = 1" by simp
next
  assume "unat s div 2 ^ 13 = 1"
  then have "drop_bit 13 s = 1" by (simp add: word_unat_eq_iff unat_drop_bit)
  then show "s AND 0xe000 = 0x2000" unfolding high_masks(1) and_not_mask by simp
qed

lemma special_v6_nat:
  fixes a :: "128 word"
  defines "s0 \<equiv> unat a div 2 ^ 112" and "s1 \<equiv> unat a div 2 ^ 96 mod 65536"
  shows "(\<exists>blk \<in> set special_v6. in_block6 a blk) \<longleftrightarrow> (s0 = 0x2001 \<and> s1 \<le> 0x01ff) \<or> (s0 = 0x2001 \<and> s1 = 0x0db8) \<or> s0 = 0x2002"
    and "in_block6 a (hextets 0x2000 0, 3) \<longleftrightarrow> s0 div 2 ^ 13 = 1"
proof -
  define m where "m = unat a div 2 ^ 96"
  have s: "s0 = m div 65536" "s1 = m mod 65536" "unat a div 2 ^ 105 = m div 512" "unat a div 2 ^ 125 = s0 div 2 ^ 13"
    by (simp_all add: s0_def s1_def m_def flip: div_mult2_eq)
  have m: "m = s0 * 65536 + s1" "m div 512 = s0 * 128 + s1 div 512" unfolding s(1,2) using div_split [of 512 m 128] by simp_all
  have q: "s1 div 512 < 128" "s1 < 65536" unfolding s(2) by auto
  have "m div 512 = 0x2001 * 128 + 0 \<longleftrightarrow> s0 = 0x2001 \<and> s1 div 512 = 0" unfolding m(2) by (rule digit_eq [OF q(1)]) simp
  moreover have "m = 0x2001 * 65536 + 0x0db8 \<longleftrightarrow> s0 = 0x2001 \<and> s1 = 0x0db8" unfolding m(1) by (rule digit_eq [OF q(2)]) simp
  moreover have "s1 div 512 = 0 \<longleftrightarrow> s1 \<le> 0x01ff" by auto
  moreover have "(\<exists>blk \<in> set special_v6. in_block6 a blk) \<longleftrightarrow>
      unat a div 2 ^ 105 = 0x2001 * 128 + 0 \<or> unat a div 2 ^ 96 = 0x2001 * 65536 + 0x0db8 \<or> unat a div 2 ^ 112 = 0x2002"
    by (simp add: special_v6_def in_block6_nat hextets_def)
  ultimately show "(\<exists>blk \<in> set special_v6. in_block6 a blk) \<longleftrightarrow> (s0 = 0x2001 \<and> s1 \<le> 0x01ff) \<or> (s0 = 0x2001 \<and> s1 = 0x0db8) \<or> s0 = 0x2002"
    unfolding s(3) m_def [symmetric] s0_def [symmetric] by simp
  show "in_block6 a (hextets 0x2000 0, 3) \<longleftrightarrow> s0 div 2 ^ 13 = 1"
    using s(4) by (simp add: in_block6_nat hextets_def)
qed

lemma is_public_v6_table:
  "is_public_v6 a \<longleftrightarrow>
     (case to_ipv4_mapped a of
        Some v4 \<Rightarrow> \<not> (\<exists>blk \<in> set special_v4. in_block4 v4 blk)
      | None \<Rightarrow> in_block6 a (hextets 0x2000 0, 3) \<and> \<not> (\<exists>blk \<in> set special_v6. in_block6 a blk))"
proof (cases "to_ipv4_mapped a")
  case None
  define s0 where "s0 = v6_segment a 0"
  have s0: "unat s0 = unat a div 2 ^ 112" by (simp add: s0_def unat_segment)
  have "\<not> v6_is_multicast a" "s0 AND 0xfe00 \<noteq> 0xfc00" "s0 AND 0xffc0 \<noteq> 0xfe80" "a \<noteq> 0" "a \<noteq> 1" if h: "unat s0 div 2 ^ 13 = 1"
  proof -
    have r: "0x2000 \<le> unat s0" "unat s0 < 0x4000" using h by auto
    show "\<not> v6_is_multicast a"
      using and_not_mask_eq [of s0 8 "0xff00"] r by (auto simp: v6_is_multicast_def s0_def [symmetric] high_masks(2) [symmetric])
    show "s0 AND 0xfe00 \<noteq> 0xfc00" using and_not_mask_eq [of s0 9 "0xfc00"] r by (auto simp: high_masks(3) [symmetric])
    show "s0 AND 0xffc0 \<noteq> 0xfe80" using and_not_mask_eq [of s0 6 "0xfe80"] r by (auto simp: high_masks(4) [symmetric])
    show "a \<noteq> 0" "a \<noteq> 1" using r(1) s0 by auto
  qed
  moreover have "s0 = 0x2001 \<longleftrightarrow> unat s0 = 0x2001" "s0 = 0x2002 \<longleftrightarrow> unat s0 = 0x2002" by (simp_all add: word_unat_eq_iff)
  moreover have "v6_segment a 1 \<le> 0x01ff \<longleftrightarrow> unat a div 2 ^ 96 mod 65536 \<le> 0x01ff"
    "v6_segment a 1 = 0x0db8 \<longleftrightarrow> unat a div 2 ^ 96 mod 65536 = 0x0db8"
    by (simp_all add: word_le_nat_alt word_unat_eq_iff unat_segment)
  ultimately show ?thesis
    unfolding special_v6_nat is_public_v6_def Let_def None option.case s0_def [symmetric] s0 [symmetric] global_unicast by blast
qed (simp add: is_public_v6_def is_public_v4_table)

text \<open>The destinations a guest may reach, as a table.\<close>

fun public_by_table :: "ip_address \<Rightarrow> bool" where
  "public_by_table (Ipv4 a) \<longleftrightarrow> \<not> list_ex (in_block4 a) special_v4"
| "public_by_table (Ipv6 a) \<longleftrightarrow>
     (case to_ipv4_mapped a of
        Some v4 \<Rightarrow> \<not> list_ex (in_block4 v4) special_v4
      | None \<Rightarrow> in_block6 a (hextets 0x2000 0, 3) \<and> \<not> list_ex (in_block6 a) special_v6)"

lemma public_destination_public_by_table: "is_public_destination a \<longleftrightarrow> public_by_table a"
  by (cases a) (simp_all add: is_public_destination_def is_public_v4_table is_public_v6_table list_ex_iff split: option.splits)

text \<open>
  The address policy of mediated fetches is the table of special-purpose blocks: an IPv4 address
  is a permitted destination exactly when it lies in none of the fourteen listed blocks, an IPv6
  address that embeds an IPv4 address exactly when that address is, and any other IPv6 address
  exactly when it lies in the global unicast block and in none of the three blocks carved out of it.
\<close>
theorem public_destination_table:
  "is_public_destination a \<longleftrightarrow> public_by_table a"
  by (rule public_destination_public_by_table)

end
