(* ===== verification/Holo_Fetch.thy ===== *)
theory Holo_Fetch
  imports Space Fetch_Address
begin

text \<open>
  Capability-checked fetches for component guests (\<open>src/holo_fetch.rs\<close>): the permit counter as a
  step relation on the threads that share it, the check of a target against the admitted endpoint
  scopes, and the HTTPS transport with its address policy and the options it builds its client with.
  A fetch gives the connections its client opened beside its outcome, those of a worker thread the
  caller no longer waits for included. The name resolver, the HTTP client and the relation between
  endpoint scopes (crate \<open>hologram\<close>) are parameters, the client with its documented response to each
  option as a hypothesis; the fate of the worker thread is an argument.
\<close>

section \<open>Limits\<close>

definition fetch_target_max_bytes :: nat where
  "fetch_target_max_bytes = 2 * 1024"

definition fetch_response_max_bytes :: nat where
  "fetch_response_max_bytes = 1024 * 1024"

definition fetch_deadline_ms :: nat where
  "fetch_deadline_ms = 1500"

definition fetch_concurrency_max :: "64 word" where
  "fetch_concurrency_max = 8"

section \<open>The permit counter\<close>

text \<open>
  One thread of \<open>FetchRuntime::acquire\<close>: it loads the counter, then compares the value it saw with
  the limit and tries to swap it; a weak exchange may fail even when the value is the one seen, and
  gives the value it found. A thread that holds a permit gives it back once, when the guard drops
  (\<open>permit_drop\<close>).
\<close>

datatype permit_pc = Outside | Observed "64 word" | Holding | Refused

record permit_state =
  in_flight :: "64 word"
  threads :: "nat \<Rightarrow> permit_pc"

definition permit_drop :: "nat \<Rightarrow> permit_state \<Rightarrow> permit_state" where
  "permit_drop t st = st\<lparr>in_flight := in_flight st - 1, threads := (threads st)(t := Outside)\<rparr>"

inductive permit_step :: "64 word \<Rightarrow> permit_state \<Rightarrow> permit_state \<Rightarrow> bool" for concurrency_max where
  load: "threads st t = Outside \<or> threads st t = Refused \<Longrightarrow>
     permit_step concurrency_max st (st\<lparr>threads := (threads st)(t := Observed (in_flight st))\<rparr>)"
| refuse: "threads st t = Observed current \<Longrightarrow> current \<ge> concurrency_max \<Longrightarrow>
     permit_step concurrency_max st (st\<lparr>threads := (threads st)(t := Refused)\<rparr>)"
| exchange: "threads st t = Observed current \<Longrightarrow> current < concurrency_max \<Longrightarrow> in_flight st = current \<Longrightarrow>
     permit_step concurrency_max st (st\<lparr>in_flight := current + 1, threads := (threads st)(t := Holding)\<rparr>)"
| retry: "threads st t = Observed current \<Longrightarrow> current < concurrency_max \<Longrightarrow>
     permit_step concurrency_max st (st\<lparr>threads := (threads st)(t := Observed (in_flight st))\<rparr>)"
| release: "threads st t = Holding \<Longrightarrow>
     permit_step concurrency_max st (permit_drop t st)"

definition permits_new :: permit_state where
  "permits_new = \<lparr>in_flight = 0, threads = (\<lambda>_. Outside)\<rparr>"

text \<open>The worker threads share a second counter of the same shape.\<close>

definition network_worker_step :: "permit_state \<Rightarrow> permit_state \<Rightarrow> bool" where
  "network_worker_step = permit_step fetch_concurrency_max"

section \<open>Fetching\<close>

record fetch_response =
  fr_status :: nat
  fr_body :: bytes

text \<open>An HTTP answer as the client hands it over: a stream that ends, or breaks, after \<open>hs_data\<close>.\<close>

record http_stream =
  hs_status :: nat
  hs_content_length :: "nat option"
  hs_data :: bytes
  hs_broken :: bool

text \<open>The options of one client: HTTPS only, no proxy of the environment, whether redirects are
  followed, whether a \<open>Referer\<close> is sent, the time limit, and the addresses a host name is pinned to.\<close>

datatype redirect_policy = RedirectNone | RedirectLimited nat

record client_options =
  co_https_only :: bool
  co_no_proxy :: bool
  co_redirect :: redirect_policy
  co_referer :: bool
  co_timeout_ms :: nat
  co_resolve :: "string \<times> ip_address list"

text \<open>One connection a client opens: the URL it asks for, the address it goes to, whether that is a
  proxy, and the \<open>Referer\<close> it sends.\<close>

record http_connection =
  hc_url :: string
  hc_address :: ip_address
  hc_proxied :: bool
  hc_referer :: "string option"

record fetch_net =
  scope_admits :: "string \<Rightarrow> string \<Rightarrow> bool"
  dns_lookup :: "string \<Rightarrow> nat \<Rightarrow> ip_address list option"
  client_build :: "client_options \<Rightarrow> bool"
  client_send :: "client_options \<Rightarrow> string \<Rightarrow> http_connection list \<times> http_stream option"

definition parse_port :: "string \<Rightarrow> nat option" where
  "parse_port s = (case parse_u64 s of Some n \<Rightarrow> if n \<le> 65535 then Some n else None | None \<Rightarrow> None)"

definition target_authority :: "string \<Rightarrow> string + (string \<times> nat)" where
  "target_authority target =
     bindE (ok_or ''fetch target is not a canonical HTTPS endpoint''
       (Option.bind (strip_prefix ''https://'' target) (\<lambda>rest. map_option fst (split_once (CHR ''/'') rest)))) (\<lambda>authority.
     bindE (ok_or ''fetch target is not a canonical HTTPS endpoint''
       (map_option (\<lambda>i. (take i authority, drop (Suc i) authority)) (rfind (CHR '':'') authority))) (\<lambda>(host, port).
     bindE (ok_or ''fetch target is not a canonical HTTPS endpoint'' (parse_port port)) (\<lambda>port.
     Inr (host, port))))"

text \<open>\<open>Read::take(limit).read_to_end\<close>: a stream that breaks beyond the limit is not noticed.\<close>

definition read_limited :: "nat \<Rightarrow> http_stream \<Rightarrow> bytes option" where
  "read_limited limit r =
     (if length (hs_data r) \<ge> limit then Some (take limit (hs_data r))
      else if hs_broken r then None else Some (hs_data r))"

definition read_response :: "http_stream \<Rightarrow> string + fetch_response" where
  "read_response response =
     (if (case hs_content_length response of Some n \<Rightarrow> n > fetch_response_max_bytes | None \<Rightarrow> False)
      then Inl ''fetch response exceeds the host limit''
      else
        bindE (ok_or ''fetch response read failed'' (read_limited (fetch_response_max_bytes + 1) response)) (\<lambda>body.
        if length body > fetch_response_max_bytes then Inl ''fetch response exceeds the host limit''
        else Inr \<lparr>fr_status = hs_status response, fr_body = body\<rparr>))"

definition https_options :: "string \<Rightarrow> ip_address list \<Rightarrow> client_options" where
  "https_options host addresses =
     \<lparr>co_https_only = True, co_no_proxy = True, co_redirect = RedirectNone, co_referer = False,
      co_timeout_ms = fetch_deadline_ms, co_resolve = (host, addresses)\<rparr>"

definition https_get :: "fetch_net \<Rightarrow> string \<Rightarrow> http_connection list \<times> (string + fetch_response)" where
  "https_get net target =
     (case target_authority target of
        Inl e \<Rightarrow> ([], Inl e)
      | Inr (host, port) \<Rightarrow>
          (case dns_lookup net host port of
             None \<Rightarrow> ([], Inl ''fetch DNS resolution failed'')
           | Some resolved \<Rightarrow>
               (let addresses = filter is_public_destination resolved in
                if addresses = [] then ([], Inl ''fetch destination is forbidden by host address policy'')
                else if \<not> client_build net (https_options host addresses)
                then ([], Inl ''fetch transport initialization failed'')
                else
                  (case client_send net (https_options host addresses) target of
                     (connections, answer) \<Rightarrow>
                       (connections, bindE (ok_or ''fetch request failed'' answer) read_response)))))"

text \<open>What becomes of the worker thread of one request: its permit is refused, it does not start, it
  answers after the deadline (and goes on with its request meanwhile), it ends without an answer
  after some of its connections, or it answers in time.\<close>

datatype worker_fate = NoPermit | NoThread | Late | Vanished nat | InTime

definition transport_get :: "fetch_net \<Rightarrow> worker_fate \<Rightarrow> string \<Rightarrow> http_connection list \<times> (string + fetch_response)" where
  "transport_get net fate target =
     (case fate of
        NoPermit \<Rightarrow> ([], Inl ''fetch concurrency limit reached; retry later'')
      | NoThread \<Rightarrow> ([], Inl ''fetch transport initialization failed'')
      | Late \<Rightarrow> (fst (https_get net target), Inl ''fetch request exceeded the host deadline'')
      | Vanished n \<Rightarrow> (take n (fst (https_get net target)), Inl ''fetch request failed'')
      | InTime \<Rightarrow> https_get net target)"

text \<open>\<open>granted\<close> is the outcome of \<open>acquire\<close>.\<close>

definition fetch ::
  "space \<Rightarrow> fetch_net \<Rightarrow> string list \<Rightarrow> string \<Rightarrow> bool \<Rightarrow> worker_fate \<Rightarrow> http_connection list \<times> (string + fetch_response)"
where
  "fetch sp net scopes target granted fate =
     (if length target > fetch_target_max_bytes then ([], Inl ''fetch target exceeds the host limit'')
      else
        case scope_parse sp target of
          Inl _ \<Rightarrow> ([], Inl ''fetch target is not a canonical HTTPS endpoint'')
        | Inr endpoint \<Rightarrow>
            if \<not> list_ex (\<lambda>scope. scope_admits net scope endpoint) scopes
            then ([], Inl ''fetch target is outside the application's admitted endpoint set'')
            else if \<not> granted then ([], Inl ''fetch concurrency limit reached; retry later'')
            else if \<not> list_ex (\<lambda>scope. scope_admits net scope endpoint) scopes
            then ([], Inl ''fetch target is outside the application's admitted endpoint set'')
            else
              (case transport_get net fate endpoint of
                 (connections, outcome) \<Rightarrow>
                   (connections,
                    bindE outcome (\<lambda>response.
                      if length (fr_body response) > fetch_response_max_bytes then Inl ''fetch response exceeds the host limit''
                      else Inr response))))"

section \<open>Permits are bounded\<close>

definition holders :: "permit_state \<Rightarrow> nat set" where
  "holders st = {t. threads st t = Holding}"

text \<open>The counter counts the holders, they are finitely many and within the limit.\<close>

definition permits_ok :: "64 word \<Rightarrow> permit_state \<Rightarrow> bool" where
  "permits_ok m st \<longleftrightarrow> finite (holders st) \<and> unat (in_flight st) = card (holders st) \<and> card (holders st) \<le> unat m"

lemma holders_upd:
  "holders (st\<lparr>threads := (threads st)(t := pc)\<rparr>) = (if pc = Holding then insert t (holders st) else holders st - {t})"
  "holders (st\<lparr>in_flight := v, threads := f\<rparr>) = holders (st\<lparr>threads := f\<rparr>)"
  by (auto simp: holders_def)

lemma unat_succ_below: "c < m \<Longrightarrow> unat (c + 1) = Suc (unat c)" for c m :: "64 word"
proof -
  assume "c < m"
  moreover have "unat m < 2 ^ LENGTH(64)" by (rule unsigned_less)
  ultimately show "unat (c + 1) = Suc (unat c)" by (simp add: unat_word_ariths word_less_nat_alt)
qed

lemma unat_pred_pos: "0 < unat c \<Longrightarrow> unat (c - 1) = unat c - 1" for c :: "64 word"
  by (metis unat_minus_one unat_0 less_irrefl)

lemma permits_ok_not_holding:
  "permits_ok m st \<Longrightarrow> threads st t \<noteq> Holding \<Longrightarrow> pc \<noteq> Holding \<Longrightarrow> permits_ok m (st\<lparr>threads := (threads st)(t := pc)\<rparr>)"
proof -
  assume "permits_ok m st" "threads st t \<noteq> Holding" "pc \<noteq> Holding"
  moreover from this have "holders st - {t} = holders st" by (auto simp: holders_def)
  ultimately show ?thesis by (simp add: permits_ok_def holders_upd)
qed

lemma permit_step_ok:
  assumes "permit_step m st st'" and ok: "permits_ok m st"
  shows "permits_ok m st'"
  using assms(1)
proof (cases rule: permit_step.cases)
  case (exchange t current)
  have "t \<notin> holders st" using exchange by (simp add: holders_def)
  then show ?thesis
    using ok exchange unat_succ_below [OF exchange(3)] by (simp add: permits_ok_def holders_upd word_less_nat_alt)
next
  case (release t)
  have "t \<in> holders st" using release by (simp add: holders_def)
  then have "0 < card (holders st)" "card (holders st - {t}) = card (holders st) - 1"
    using ok card_gt_0_iff by (auto simp: permits_ok_def)
  then show ?thesis
    using ok release unat_pred_pos [of "in_flight st"] by (auto simp: permits_ok_def permit_drop_def holders_upd)
qed (use ok in \<open>auto intro: permits_ok_not_holding\<close>)

lemma permit_steps_ok: "(permit_step m)\<^sup>*\<^sup>* st st' \<Longrightarrow> permits_ok m st \<Longrightarrow> permits_ok m st'"
  by (induction rule: rtranclp_induct) (auto intro: permit_step_ok)

lemma permits_new_ok: "permits_ok m permits_new"
  by (simp add: permits_ok_def permits_new_def holders_def)

text \<open>Alone, a thread that finds a free permit obtains it in two steps.\<close>

lemma permit_available:
  assumes "permits_ok m st" and "card (holders st) < unat m" and "threads st t = Outside"
  shows "\<exists>st'. (permit_step m)\<^sup>*\<^sup>* st st' \<and> threads st' t = Holding"
proof -
  let ?st1 = "st\<lparr>threads := (threads st)(t := Observed (in_flight st))\<rparr>"
  have "in_flight st < m" using assms(1,2) by (simp add: permits_ok_def word_less_nat_alt)
  then have "permit_step m ?st1 (?st1\<lparr>in_flight := in_flight st + 1, threads := (threads ?st1)(t := Holding)\<rparr>)"
    by (intro permit_step.exchange) simp_all
  moreover have "permit_step m st ?st1" using assms(3) by (intro permit_step.load) simp
  ultimately show ?thesis by (intro exI [of _ "?st1\<lparr>in_flight := in_flight st + 1, threads := (threads ?st1)(t := Holding)\<rparr>"])
      (auto intro: converse_rtranclp_into_rtranclp)
qed

text \<open>A permit that drops takes its thread, and only it, out of the holders.\<close>

lemma permit_drop_simps [simp]:
  "threads (permit_drop t st) = (threads st)(t := Outside)"
  "in_flight (permit_drop t st) = in_flight st - 1"
  "holders (permit_drop t st) = holders st - {t}"
  by (auto simp: permit_drop_def holders_def)

lemma permit_drop_counts:
  "permits_ok m st \<Longrightarrow> threads st t = Holding \<Longrightarrow> Suc (unat (in_flight (permit_drop t st))) = unat (in_flight st)"
proof -
  assume ok: "permits_ok m st" and "threads st t = Holding"
  then have "0 < card (holders st)" using card_gt_0_iff by (auto simp: permits_ok_def holders_def)
  then show ?thesis using ok unat_pred_pos [of "in_flight st"] by (simp add: permits_ok_def)
qed

lemma permits_drain:
  "permits_ok m st \<Longrightarrow>
     \<exists>st'. (permit_step m)\<^sup>*\<^sup>* st st' \<and> holders st' = {} \<and> in_flight st' = 0
       \<and> (\<forall>t. threads st' t = (if t \<in> holders st then Outside else threads st t))"
proof (induction "card (holders st)" arbitrary: st)
  case 0
  then have "holders st = {}" "in_flight st = 0" by (auto simp: permits_ok_def unat_eq_0)
  then show ?case by (intro exI [of _ st]) auto
next
  case (Suc n)
  then obtain t where t: "t \<in> holders st" by fastforce
  then have h: "threads st t = Holding" by (simp add: holders_def)
  have step: "permit_step m st (permit_drop t st)" using h by (rule permit_step.release)
  have "n = card (holders (permit_drop t st))" using Suc.hyps(2) t by simp
  from Suc.hyps(1) [OF this permit_step_ok [OF step Suc.prems]] obtain st' where st':
    "(permit_step m)\<^sup>*\<^sup>* (permit_drop t st) st'" "holders st' = {}" "in_flight st' = 0"
    "\<forall>u. threads st' u = (if u \<in> holders (permit_drop t st) then Outside else threads (permit_drop t st) u)" by blast
  show ?case
    using st' t by (intro exI [of _ st']) (auto intro: converse_rtranclp_into_rtranclp [of "permit_step m", OF step])
qed

text \<open>
  C32 The permit counter bounds concurrent fetches under every interleaving, and permits are given
  back: however the loads, exchanges, spurious failures, retries and releases of any number of
  threads interleave, the 64-bit counter equals the number of threads that hold a permit, never
  wraps, and never exceeds the limit; while fewer threads than the limit hold one, a thread that is
  not disturbed obtains a permit. A thread that holds a permit can always give it back: dropping the
  guard is a step, it lowers the counter by exactly one and leaves every other thread as it is; the
  holder has no other step that takes it out of the holders; and from every reachable state the
  holders' drops alone bring the counter back to zero.
\<close>
theorem fetch_permits_bounded:
  assumes "(permit_step m)\<^sup>*\<^sup>* permits_new st"
  shows "unat (in_flight st) = card (holders st) \<and> card (holders st) \<le> unat m
     \<and> (card (holders st) < unat m \<longrightarrow> threads st t = Outside \<longrightarrow> (\<exists>st'. (permit_step m)\<^sup>*\<^sup>* st st' \<and> threads st' t = Holding))
     \<and> (threads st t = Holding \<longrightarrow>
          permit_step m st (permit_drop t st)
          \<and> Suc (unat (in_flight (permit_drop t st))) = unat (in_flight st)
          \<and> threads (permit_drop t st) = (threads st)(t := Outside)
          \<and> (\<forall>st'. permit_step m st st' \<longrightarrow> threads st' t = Holding \<or> st' = permit_drop t st))
     \<and> (\<exists>st'. (permit_step m)\<^sup>*\<^sup>* st st' \<and> holders st' = {} \<and> in_flight st' = 0
          \<and> (\<forall>u. threads st' u = (if u \<in> holders st then Outside else threads st u)))"
proof -
  have ok: "permits_ok m st" by (rule permit_steps_ok [OF assms permits_new_ok])
  have "threads st' t = Holding \<or> st' = permit_drop t st" if "threads st t = Holding" "permit_step m st st'" for st'
    using that(2,1) by (cases rule: permit_step.cases) auto
  then show ?thesis
    using ok permit_available [of m st t] permits_drain [OF ok] permit_drop_counts [OF ok] permit_step.release [of st t m]
    by (simp add: permits_ok_def)
qed

lemma network_workers_bounded:
  "network_worker_step\<^sup>*\<^sup>* permits_new st \<Longrightarrow> card (holders st) \<le> 8"
  using permit_steps_ok [OF _ permits_new_ok, of fetch_concurrency_max st]
  by (simp add: network_worker_step_def permits_ok_def fetch_concurrency_max_def)

lemma permit_example:
  "(permit_step 1)\<^sup>*\<^sup>* permits_new \<lparr>in_flight = 1, threads = (\<lambda>_. Outside)(0 := Holding)\<rparr>"
proof -
  have "permit_step 1 permits_new \<lparr>in_flight = 0, threads = (\<lambda>_. Outside)(0 := Observed 0)\<rparr>"
    using permit_step.load [of permits_new 0 1] by (simp add: permits_new_def)
  moreover have "permit_step 1 \<lparr>in_flight = 0, threads = (\<lambda>_. Outside)(0 := Observed 0)\<rparr>
      \<lparr>in_flight = 1, threads = (\<lambda>_. Outside)(0 := Holding)\<rparr>"
    using permit_step.exchange [of "\<lparr>in_flight = 0, threads = (\<lambda>_. Outside)(0 := Observed 0)\<rparr>" 0 0 1] by simp
  ultimately show ?thesis by (meson converse_rtranclp_into_rtranclp rtranclp.rtrancl_refl)
qed

theorem fetch_permits_bounded_witness:
  "card (holders \<lparr>in_flight = 1, threads = (\<lambda>_. Outside)(0 := Holding)\<rparr>) = 1
   \<and> permit_step 1 \<lparr>in_flight = 1, threads = (\<lambda>_. Outside)(0 := Holding)\<rparr> \<lparr>in_flight = 0, threads = (\<lambda>_. Outside)\<rparr>"
  using fetch_permits_bounded [OF permit_example, of 0] by (simp add: permit_drop_def fun_upd_idem)

section \<open>Fetches are confined\<close>

text \<open>
  What the documentation of the HTTP client promises of its options. Without redirects it asks for
  nothing but the URL it is given; without proxies it connects directly; with HTTPS only it asks
  for HTTPS URLs; unless referers are enabled it sends none; and a host name with pinned addresses
  is never looked up elsewhere.
\<close>

definition client_documented :: "fetch_net \<Rightarrow> bool" where
  "client_documented net \<longleftrightarrow>
     (\<forall>options target c. c \<in> set (fst (client_send net options target)) \<longrightarrow>
        (co_redirect options = RedirectNone \<longrightarrow> hc_url c = target)
        \<and> (co_no_proxy options \<longrightarrow> \<not> hc_proxied c)
        \<and> (co_https_only options \<longrightarrow> starts_with ''https://'' (hc_url c))
        \<and> (\<not> co_referer options \<longrightarrow> hc_referer c = None)
        \<and> (\<not> hc_proxied c \<longrightarrow> (\<forall>host port. target_authority (hc_url c) = Inr (host, port) \<longrightarrow>
              host = fst (co_resolve options) \<longrightarrow> hc_address c \<in> set (snd (co_resolve options)))))"

text \<open>A connection the host may open for a target: for exactly the admitted endpoint, directly, to a
  public address its name resolved to.\<close>

definition confined_connection :: "space \<Rightarrow> fetch_net \<Rightarrow> string list \<Rightarrow> string \<Rightarrow> http_connection \<Rightarrow> bool" where
  "confined_connection sp net scopes target c \<longleftrightarrow>
     (\<exists>scope host port resolved. scope_parse sp target = Inr (hc_url c)
        \<and> scope \<in> set scopes \<and> scope_admits net scope (hc_url c)
        \<and> starts_with ''https://'' (hc_url c) \<and> target_authority (hc_url c) = Inr (host, port)
        \<and> dns_lookup net host port = Some resolved \<and> hc_address c \<in> set resolved \<and> public_by_table (hc_address c)
        \<and> \<not> hc_proxied c \<and> hc_referer c = None)"

lemma client_documentedD:
  assumes "client_documented net" "c \<in> set (fst (client_send net (https_options host addresses) target))"
    "target_authority target = Inr (host, port)"
  shows "hc_url c = target \<and> \<not> hc_proxied c \<and> starts_with ''https://'' (hc_url c) \<and> hc_referer c = None \<and> hc_address c \<in> set addresses"
  using assms unfolding client_documented_def https_options_def by fastforce

lemma https_get_connections:
  assumes "client_documented net" and "c \<in> set (fst (https_get net target))"
  shows "\<exists>host port resolved. target_authority target = Inr (host, port) \<and> dns_lookup net host port = Some resolved
     \<and> hc_address c \<in> set resolved \<and> public_by_table (hc_address c) \<and> hc_url c = target
     \<and> \<not> hc_proxied c \<and> starts_with ''https://'' (hc_url c) \<and> hc_referer c = None"
proof -
  obtain host port resolved where h: "target_authority target = Inr (host, port)" "dns_lookup net host port = Some resolved"
    "c \<in> set (fst (client_send net (https_options host (filter is_public_destination resolved)) target))"
    using assms(2) by (auto simp: https_get_def Let_def split: sum.splits option.splits if_splits prod.splits)
  from client_documentedD [OF assms(1) h(3,1)] h(1,2) show ?thesis by (auto simp: public_destination_public_by_table)
qed

lemma transport_get_connections: "set (fst (transport_get net fate target)) \<subseteq> set (fst (https_get net target))"
  by (auto simp: transport_get_def dest: in_set_takeD split: worker_fate.splits)

lemma fetch_connections:
  assumes "c \<in> set (fst (fetch sp net scopes target granted fate))"
  shows "granted \<and> (\<exists>endpoint. scope_parse sp target = Inr endpoint \<and> list_ex (\<lambda>scope. scope_admits net scope endpoint) scopes
     \<and> c \<in> set (fst (https_get net endpoint)))"
  using assms transport_get_connections [of net fate]
  by (auto simp: fetch_def split: sum.splits if_splits prod.splits) force+

lemma read_limited_complete:
  "read_limited (n + 1) r = Some b \<Longrightarrow> length b \<le> n \<Longrightarrow> b = hs_data r \<and> \<not> hs_broken r"
  by (auto simp: read_limited_def split: if_splits)

lemma read_response_ok:
  "read_response stream = Inr resp \<Longrightarrow>
     fr_status resp = hs_status stream \<and> fr_body resp = hs_data stream \<and> \<not> hs_broken stream \<and> length (fr_body resp) \<le> fetch_response_max_bytes"
  by (auto simp: read_response_def bindE_eq_Inr read_limited_complete [simplified] split: if_splits)

lemma https_get_ok:
  assumes "snd (https_get net target) = Inr resp"
  shows "\<exists>host port resolved stream. target_authority target = Inr (host, port) \<and> dns_lookup net host port = Some resolved
     \<and> snd (client_send net (https_options host (filter public_by_table resolved)) target) = Some stream
     \<and> filter public_by_table resolved \<noteq> []
     \<and> fr_status resp = hs_status stream \<and> fr_body resp = hs_data stream \<and> \<not> hs_broken stream
     \<and> length (fr_body resp) \<le> fetch_response_max_bytes"
proof -
  have pub: "is_public_destination = public_by_table" by (simp add: fun_eq_iff public_destination_public_by_table)
  show ?thesis
    using assms unfolding https_get_def pub Let_def
    by (auto simp: bindE_eq_Inr dest: read_response_ok split: sum.splits option.splits prod.splits if_splits)
qed

text \<open>
  C31 A mediated fetch reaches only admitted endpoints at public addresses. With a client that
  respects its options as documented, every connection a fetch opens, whatever becomes of its
  worker thread and whatever the fetch returns, is opened under a permit, for exactly the canonical
  form of the target, which an admitted scope admits, over HTTPS, directly, without a referer, and
  to a public address the target's name resolved to: no redirect is followed and no proxy is used.
  A successful fetch returns the complete body of the one response to that request, at most one
  mebibyte.
\<close>
theorem fetch_confined:
  assumes "client_documented net"
  shows "(\<forall>c\<in>set (fst (fetch sp net scopes target granted fate)). granted \<and> confined_connection sp net scopes target c)
   \<and> (\<forall>resp. snd (fetch sp net scopes target granted fate) = Inr resp \<longrightarrow>
        granted \<and> length target \<le> fetch_target_max_bytes
        \<and> (\<exists>endpoint scope host port resolved stream. scope_parse sp target = Inr endpoint
             \<and> scope \<in> set scopes \<and> scope_admits net scope endpoint
             \<and> target_authority endpoint = Inr (host, port) \<and> dns_lookup net host port = Some resolved
             \<and> snd (client_send net (https_options host (filter public_by_table resolved)) endpoint) = Some stream
             \<and> fst (fetch sp net scopes target granted fate)
                 = fst (client_send net (https_options host (filter public_by_table resolved)) endpoint)
             \<and> fr_status resp = hs_status stream \<and> fr_body resp = hs_data stream \<and> \<not> hs_broken stream
             \<and> length (fr_body resp) \<le> fetch_response_max_bytes))"
proof (intro conjI allI ballI impI)
  fix c assume "c \<in> set (fst (fetch sp net scopes target granted fate))"
  from fetch_connections [OF this] show "granted" "confined_connection sp net scopes target c"
    using https_get_connections [OF assms, of c] unfolding confined_connection_def list_ex_iff by blast+
next
  fix resp assume r: "snd (fetch sp net scopes target granted fate) = Inr resp"
  then obtain endpoint where e: "scope_parse sp target = Inr endpoint" "list_ex (\<lambda>scope. scope_admits net scope endpoint) scopes"
    "granted" "length target \<le> fetch_target_max_bytes" "snd (transport_get net fate endpoint) = Inr resp"
    "fst (fetch sp net scopes target granted fate) = fst (transport_get net fate endpoint)"
    by (auto simp: fetch_def bindE_eq_Inr split: sum.splits prod.splits if_splits)
  then have t: "transport_get net fate endpoint = https_get net endpoint" by (simp add: transport_get_def split: worker_fate.splits)
  show "granted" "length target \<le> fetch_target_max_bytes" by (rule e(3), rule e(4))
  have pub: "is_public_destination = public_by_table" by (simp add: fun_eq_iff public_destination_public_by_table)
  have "snd (https_get net endpoint) = Inr resp" using e(5) t by simp
  from https_get_ok [OF this] obtain host port resolved stream where s:
    "target_authority endpoint = Inr (host, port)" "dns_lookup net host port = Some resolved"
    "snd (client_send net (https_options host (filter public_by_table resolved)) endpoint) = Some stream"
    "fr_status resp = hs_status stream" "fr_body resp = hs_data stream" "\<not> hs_broken stream" "length (fr_body resp) \<le> fetch_response_max_bytes"
    by blast
  have "fst (https_get net endpoint) = fst (client_send net (https_options host (filter public_by_table resolved)) endpoint)"
    using \<open>snd (https_get net endpoint) = Inr resp\<close> s(1,2)
    by (auto simp: https_get_def Let_def pub split: if_splits prod.splits)
  with s e(1,2,6) t show "\<exists>endpoint scope host port resolved stream. scope_parse sp target = Inr endpoint
             \<and> scope \<in> set scopes \<and> scope_admits net scope endpoint
             \<and> target_authority endpoint = Inr (host, port) \<and> dns_lookup net host port = Some resolved
             \<and> snd (client_send net (https_options host (filter public_by_table resolved)) endpoint) = Some stream
             \<and> fst (fetch sp net scopes target granted fate)
                 = fst (client_send net (https_options host (filter public_by_table resolved)) endpoint)
             \<and> fr_status resp = hs_status stream \<and> fr_body resp = hs_data stream \<and> \<not> hs_broken stream
             \<and> length (fr_body resp) \<le> fetch_response_max_bytes"
    unfolding list_ex_iff by metis
qed

text \<open>A small client: it connects to the first pinned address; left to follow redirects, it also goes
  to the address of the machine itself, and left its proxy, it goes there instead.\<close>

definition sample_send :: "client_options \<Rightarrow> string \<Rightarrow> http_connection list \<times> http_stream option" where
  "sample_send options target =
     (if \<not> starts_with ''https://'' target \<or> snd (co_resolve options) = [] then ([], None)
      else (\<lparr>hc_url = target, hc_address = hd (snd (co_resolve options)), hc_proxied = \<not> co_no_proxy options, hc_referer = None\<rparr>
              # (if co_redirect options = RedirectNone then []
                 else [\<lparr>hc_url = ''https://localhost:443/'',
                        hc_address = (if fst (co_resolve options) = ''localhost'' then hd (snd (co_resolve options)) else Ipv4 (dotted 127 0 0 1)),
                        hc_proxied = \<not> co_no_proxy options,
                        hc_referer = if co_referer options then Some target else None\<rparr>]),
            Some \<lparr>hs_status = 302, hs_content_length = Some 2, hs_data = [1, 2], hs_broken = False\<rparr>))"

definition sample_net :: fetch_net where
  "sample_net = \<lparr>scope_admits = (\<lambda>scope e. starts_with scope e), dns_lookup = (\<lambda>_ _. Some [Ipv4 (dotted 10 0 0 2), Ipv4 (dotted 8 8 8 8)]),
     client_build = (\<lambda>_. True), client_send = sample_send\<rparr>"


lemma sample_net_documented: "client_documented sample_net"
proof -
  have redirect: "starts_with ''https://'' ''https://localhost:443/''" by code_simp
  have "fst a = ''localhost''" if "target_authority ''https://localhost:443/'' = Inr a" for a
    using that by (auto simp: target_authority_def strip_prefix_def bindE_eq_Inr)
  then show ?thesis using redirect
    by (auto simp: client_documented_def sample_net_def sample_send_def split: if_splits)
qed

lemma sample_fetch:
  "fetch sample_space sample_net [''https://a.io:443/x/''] ''https://a.io:443/x/y'' True InTime
     = ([\<lparr>hc_url = ''https://a.io:443/x/y'', hc_address = Ipv4 (dotted 8 8 8 8), hc_proxied = False, hc_referer = None\<rparr>],
        Inr \<lparr>fr_status = 302, fr_body = [1, 2]\<rparr>)"
  "fetch sample_space sample_net [''https://a.io:443/x/''] ''https://a.io:443/x/y'' True Late
     = ([\<lparr>hc_url = ''https://a.io:443/x/y'', hc_address = Ipv4 (dotted 8 8 8 8), hc_proxied = False, hc_referer = None\<rparr>],
        Inl ''fetch request exceeded the host deadline'')"
proof -
  have port: "parse_port ''443'' = Some 443" by (simp add: parse_port_def parse_u64_def digits_val_def byte_class_defs)
  have a: "target_authority ''https://a.io:443/x/y'' = Inr (''a.io'', 443)"
    using port by (simp add: target_authority_def strip_prefix_def)
  have p: "\<not> is_public_destination (Ipv4 (dotted 10 0 0 2))" "is_public_destination (Ipv4 (dotted 8 8 8 8))"
    by (simp_all add: is_public_destination_def is_public_v4_nat dotted_def)
  have s: "starts_with ''https://a.io:443/x/'' ''https://a.io:443/x/y''" "starts_with ''https://'' ''https://a.io:443/x/y''" by code_simp+
  note run = fetch_def sample_net_def sample_space_def transport_get_def https_get_def sample_send_def https_options_def Let_def
    read_response_def fetch_target_max_bytes_def fetch_response_max_bytes_def read_limited_def
  show "fetch sample_space sample_net [''https://a.io:443/x/''] ''https://a.io:443/x/y'' True InTime
     = ([\<lparr>hc_url = ''https://a.io:443/x/y'', hc_address = Ipv4 (dotted 8 8 8 8), hc_proxied = False, hc_referer = None\<rparr>],
        Inr \<lparr>fr_status = 302, fr_body = [1, 2]\<rparr>)"
    using s by (simp add: run a p)
  show "fetch sample_space sample_net [''https://a.io:443/x/''] ''https://a.io:443/x/y'' True Late
     = ([\<lparr>hc_url = ''https://a.io:443/x/y'', hc_address = Ipv4 (dotted 8 8 8 8), hc_proxied = False, hc_referer = None\<rparr>],
        Inl ''fetch request exceeded the host deadline'')"
    using s by (simp add: run a p)
qed

theorem fetch_confined_witness:
  "confined_connection sample_space sample_net [''https://a.io:443/x/''] ''https://a.io:443/x/y''
     \<lparr>hc_url = ''https://a.io:443/x/y'', hc_address = Ipv4 (dotted 8 8 8 8), hc_proxied = False, hc_referer = None\<rparr>
   \<and> (\<exists>resp. snd (fetch sample_space sample_net [''https://a.io:443/x/''] ''https://a.io:443/x/y'' True InTime) = Inr resp
        \<and> fr_status resp = 302 \<and> length (fr_body resp) \<le> fetch_response_max_bytes)"
  using fetch_confined [OF sample_net_documented, of sample_space "[''https://a.io:443/x/'']" "''https://a.io:443/x/y''" True Late]
    fetch_confined [OF sample_net_documented, of sample_space "[''https://a.io:443/x/'']" "''https://a.io:443/x/y''" True InTime]
  by (auto simp: sample_fetch)

end
