(* ===== verification/Session_Table.thy ===== *)
theory Session_Table
  imports Errors "HOL-Library.AList"
begin

text \<open>
  The table of resident inference sessions (\<open>SessionTable\<close> in \<open>src/inference/weightc/session.rs\<close>): live
  session actors by key with least-recently-used eviction. An actor is its identity; whether it is
  alive is asked of the actor system. The loop that makes room is a partial function, since nothing
  in its own code makes it end. The specification is one list of sessions, oldest first.
\<close>

section \<open>SessionTable\<close>

type_synonym actor_ref = nat

record session_table =
  st_actors :: "(string \<times> actor_ref) list"
  st_recency :: "string list"

definition table_default :: session_table where
  "table_default = \<lparr>st_actors = [], st_recency = []\<rparr>"

definition table_touch :: "string \<Rightarrow> session_table \<Rightarrow> session_table" where
  "table_touch key t = t\<lparr>st_recency := filter (\<lambda>e. e \<noteq> key) (st_recency t) @ [key]\<rparr>"

definition table_remove :: "string \<Rightarrow> session_table \<Rightarrow> session_table" where
  "table_remove key t =
     t\<lparr>st_actors := AList.delete key (st_actors t), st_recency := filter (\<lambda>e. e \<noteq> key) (st_recency t)\<rparr>"

definition table_get :: "(actor_ref \<Rightarrow> bool) \<Rightarrow> string \<Rightarrow> session_table \<Rightarrow> session_table \<times> actor_ref option" where
  "table_get is_alive key t =
     (case map_of (st_actors t) key of
        None \<Rightarrow> (t, None)
      | Some actor \<Rightarrow> if is_alive actor then (table_touch key t, Some actor) else (table_remove key t, None))"

text \<open>Entries of the recency queue without an actor are passed over; the actor that is removed is
  stopped.\<close>

fun evict_loop :: "string list \<Rightarrow> (string \<times> actor_ref) list \<Rightarrow> session_table \<times> actor_ref option" where
  "evict_loop [] actors = (\<lparr>st_actors = actors, st_recency = []\<rparr>, None)"
| "evict_loop (oldest # recency) actors =
     (case map_of actors oldest of
        Some actor \<Rightarrow> (\<lparr>st_actors = AList.delete oldest actors, st_recency = recency\<rparr>, Some actor)
      | None \<Rightarrow> evict_loop recency actors)"

definition evict_oldest :: "session_table \<Rightarrow> session_table \<times> actor_ref option" where
  "evict_oldest t = evict_loop (st_recency t) (st_actors t)"

partial_function (option) make_room :: "nat \<Rightarrow> session_table \<Rightarrow> actor_ref list \<Rightarrow> (session_table \<times> actor_ref list) option" where
  [code]: "make_room limit t stopped =
     (if length (st_actors t) \<ge> limit
      then (case evict_oldest t of (t', out) \<Rightarrow> make_room limit t' (stopped @ (case out of Some a \<Rightarrow> [a] | None \<Rightarrow> [])))
      else Some (t, stopped))"

definition table_spawn :: "string \<Rightarrow> actor_ref \<Rightarrow> nat \<Rightarrow> session_table \<Rightarrow> (session_table \<times> actor_ref list) option" where
  "table_spawn key fresh limit t =
     map_option (\<lambda>(t', stopped).
       (\<lparr>st_actors = AList.update key fresh (st_actors t'), st_recency = st_recency t' @ [key]\<rparr>, stopped))
       (make_room limit t [])"

definition table_drain :: "session_table \<Rightarrow> session_table \<times> actor_ref list" where
  "table_drain t = (table_default, map snd (st_actors t))"

section \<open>Sessions of the engine\<close>

text \<open>\<open>WeightcEngine::session_actor\<close>: the live actor of the key, or a fresh one; \<open>artifact\<close> is the answer of
  \<open>artifact_dir\<close>. With the actor come the actors that were stopped to make room.\<close>

definition session_actor ::
  "(actor_ref \<Rightarrow> bool) \<Rightarrow> unit live_result \<Rightarrow> actor_ref \<Rightarrow> nat \<Rightarrow> string \<Rightarrow> session_table
     \<Rightarrow> (session_table \<times> actor_ref live_result \<times> actor_ref list) option"
where
  "session_actor is_alive artifact fresh max_sessions key t =
     (case table_get is_alive key t of
        (t', Some actor) \<Rightarrow> Some (t', Inr actor, [])
      | (t', None) \<Rightarrow>
          (case artifact of
             Inl e \<Rightarrow> Some (t', Inl e, [])
           | Inr _ \<Rightarrow> map_option (\<lambda>(t'', stopped). (t'', Inr fresh, stopped)) (table_spawn key fresh max_sessions t')))"

text \<open>What the engine does to its table: look a session up for a request, drop one whose child
  broke, shut down.\<close>

datatype table_op =
    Lookup "actor_ref \<Rightarrow> bool" "unit live_result" actor_ref string
  | Broke string
  | Shutdown

datatype table_answer =
    Session "actor_ref live_result" "actor_ref list"
  | Dropped
  | Drained "actor_ref set"

fun table_step :: "nat \<Rightarrow> table_op \<Rightarrow> session_table \<Rightarrow> (session_table \<times> table_answer) option" where
  "table_step limit (Lookup al artifact fresh key) t =
     map_option (\<lambda>(t', r, stopped). (t', Session r stopped)) (session_actor al artifact fresh limit key t)"
| "table_step limit (Broke key) t = Some (table_remove key t, Dropped)"
| "table_step limit Shutdown t = (case table_drain t of (t', actors) \<Rightarrow> Some (t', Drained (set actors)))"

fun table_run :: "nat \<Rightarrow> table_op list \<Rightarrow> session_table \<Rightarrow> (session_table \<times> table_answer list) option" where
  "table_run limit [] t = Some (t, [])"
| "table_run limit (x # xs) t =
     (case table_step limit x t of
        None \<Rightarrow> None
      | Some (t', a) \<Rightarrow> map_option (\<lambda>(t'', as). (t'', a # as)) (table_run limit xs t'))"

section \<open>Specification: a list of sessions, oldest first\<close>

type_synonym lru = "(string \<times> actor_ref) list"

definition lru_get :: "(actor_ref \<Rightarrow> bool) \<Rightarrow> string \<Rightarrow> lru \<Rightarrow> lru \<times> actor_ref option" where
  "lru_get is_alive key l =
     (case map_of l key of
        None \<Rightarrow> (l, None)
      | Some a \<Rightarrow> (filter (\<lambda>e. fst e \<noteq> key) l @ (if is_alive a then [(key, a)] else []), if is_alive a then Some a else None))"

definition lru_spawn :: "string \<Rightarrow> actor_ref \<Rightarrow> nat \<Rightarrow> lru \<Rightarrow> lru \<times> actor_ref list" where
  "lru_spawn key fresh limit l =
     (let over = Suc (length l) - limit in (drop over l @ [(key, fresh)], map snd (take over l)))"

definition lru_remove :: "string \<Rightarrow> lru \<Rightarrow> lru" where
  "lru_remove key l = filter (\<lambda>e. fst e \<noteq> key) l"

fun lru_step :: "nat \<Rightarrow> table_op \<Rightarrow> lru \<Rightarrow> lru \<times> table_answer" where
  "lru_step limit (Lookup al artifact fresh key) l =
     (case lru_get al key l of
        (l', Some a) \<Rightarrow> (l', Session (Inr a) [])
      | (l', None) \<Rightarrow>
          (case artifact of
             Inl e \<Rightarrow> (l', Session (Inl e) [])
           | Inr _ \<Rightarrow> (case lru_spawn key fresh limit l' of (l'', stopped) \<Rightarrow> (l'', Session (Inr fresh) stopped))))"
| "lru_step limit (Broke key) l = (lru_remove key l, Dropped)"
| "lru_step limit Shutdown l = ([], Drained (snd ` set l))"

fun lru_run :: "nat \<Rightarrow> table_op list \<Rightarrow> lru \<Rightarrow> lru \<times> table_answer list" where
  "lru_run limit [] l = (l, [])"
| "lru_run limit (x # xs) l = (let (l', a) = lru_step limit x l; (l'', as) = lru_run limit xs l' in (l'', a # as))"

section \<open>The table implements it\<close>

text \<open>Keys are distinct and the queue holds exactly the keys of the actors.\<close>

definition table_ok :: "session_table \<Rightarrow> bool" where
  "table_ok t \<longleftrightarrow> distinct (map fst (st_actors t)) \<and> distinct (st_recency t) \<and> set (st_recency t) = set (map fst (st_actors t))"

definition sessions :: "session_table \<Rightarrow> lru" where
  "sessions t = map (\<lambda>k. (k, the (map_of (st_actors t) k))) (st_recency t)"

lemma map_of_delete_alist: "map_of (AList.delete k m) = (map_of m)(k := None)"
  by (simp add: delete_conv')

lemma table_ok_length: "table_ok t \<Longrightarrow> length (st_recency t) = length (st_actors t)"
  unfolding table_ok_def by (metis distinct_card length_map list.set_map)

lemma sessions_fst [simp]: "map fst (sessions t) = st_recency t"
  by (simp add: sessions_def comp_def)

lemma map_of_sessions: "table_ok t \<Longrightarrow> map_of (sessions t) k = map_of (st_actors t) k"
proof -
  assume ok: "table_ok t"
  have "map_of (sessions t) k = (if k \<in> set (st_recency t) then Some (the (map_of (st_actors t) k)) else None)"
    by (simp add: sessions_def map_of_map_restrict restrict_map_def)
  moreover have "k \<in> set (st_recency t) \<longleftrightarrow> map_of (st_actors t) k \<noteq> None"
    using ok by (simp add: table_ok_def map_of_eq_None_iff)
  ultimately show ?thesis by auto
qed

lemma sessions_restrict:
  "(\<And>k. k \<in> set ks \<Longrightarrow> map_of m' k = map_of m k) \<Longrightarrow>
     sessions \<lparr>st_actors = m', st_recency = ks\<rparr> = map (\<lambda>k. (k, the (map_of m k))) ks"
  by (simp add: sessions_def)

lemma table_remove_ok: "table_ok t \<Longrightarrow> table_ok (table_remove key t)"
  by (auto simp: table_ok_def table_remove_def delete_keys distinct_removeAll simp del: set_map)

lemma sessions_remove: "sessions (table_remove key t) = lru_remove key (sessions t)"
  by (auto simp: sessions_def table_remove_def lru_remove_def filter_map comp_def intro!: map_cong)

lemma table_touch_ok: "table_ok t \<Longrightarrow> map_of (st_actors t) key = Some a \<Longrightarrow> table_ok (table_touch key t)"
proof -
  assume ok: "table_ok t" and k: "map_of (st_actors t) key = Some a"
  have "key \<in> set (map fst (st_actors t))" using k by (metis map_of_eq_None_iff option.distinct(1) list.set_map)
  then show ?thesis using ok by (auto simp: table_ok_def table_touch_def simp del: set_map)
qed

lemma sessions_touch:
  "map_of (st_actors t) key = Some a \<Longrightarrow> sessions (table_touch key t) = filter (\<lambda>e. fst e \<noteq> key) (sessions t) @ [(key, a)]"
  by (simp add: sessions_def table_touch_def filter_map comp_def)

lemma table_get_refines:
  assumes "table_ok t"
  shows "table_ok (fst (table_get al key t))"
    and "lru_get al key (sessions t) = (sessions (fst (table_get al key t)), snd (table_get al key t))"
  using assms table_remove_ok [OF assms] table_touch_ok [OF assms] sessions_touch [of t key] sessions_remove [of key t]
  by (auto simp: table_get_def lru_get_def map_of_sessions lru_remove_def split: option.splits)

lemma table_get_none: "table_ok t \<Longrightarrow> snd (table_get al key t) = None \<Longrightarrow> key \<notin> set (st_recency (fst (table_get al key t)))"
  by (cases "map_of (st_actors t) key")
     (auto simp: table_get_def table_remove_def table_ok_def weak_map_of_SomeI split: if_splits)

lemma evict_oldest_ok:
  assumes ok: "table_ok t" and r: "sessions t = (k, a) # rest"
  shows "\<exists>t'. evict_oldest t = (t', Some a) \<and> table_ok t' \<and> sessions t' = rest"
proof -
  obtain ks where ks: "st_recency t = k # ks" "rest = map (\<lambda>k. (k, the (map_of (st_actors t) k))) ks"
    and a: "the (map_of (st_actors t) k) = a"
    using r by (auto simp: sessions_def)
  have "map_of (st_actors t) k = Some a"
    using map_of_sessions [OF ok, of k] r by simp
  then have e: "evict_oldest t = (\<lparr>st_actors = AList.delete k (st_actors t), st_recency = ks\<rparr>, Some a)"
    by (simp add: evict_oldest_def ks)
  have "k \<notin> set ks" using ok ks by (simp add: table_ok_def)
  then have "sessions \<lparr>st_actors = AList.delete k (st_actors t), st_recency = ks\<rparr> = rest"
    unfolding ks(2) by (intro sessions_restrict) (metis map_of_delete)
  moreover have "table_ok \<lparr>st_actors = AList.delete k (st_actors t), st_recency = ks\<rparr>"
    using ok ks \<open>k \<notin> set ks\<close> by (auto simp: table_ok_def delete_keys distinct_removeAll simp del: set_map)
  ultimately show ?thesis using e by blast
qed

text \<open>The loop ends as soon as the limit is positive, having stopped the oldest sessions.\<close>

lemma make_room_ok:
  assumes "0 < limit"
  shows "table_ok t \<Longrightarrow> \<exists>t'. make_room limit t stopped = Some (t', stopped @ map snd (take (Suc (length (sessions t)) - limit) (sessions t)))
     \<and> table_ok t' \<and> sessions t' = drop (Suc (length (sessions t)) - limit) (sessions t)"
proof (induction "length (sessions t)" arbitrary: t stopped rule: less_induct)
  case less
  have len: "length (st_actors t) = length (sessions t)"
    using table_ok_length [OF less.prems] by (simp add: sessions_def)
  show ?case
  proof (cases "length (st_actors t) \<ge> limit")
    case False
    then show ?thesis using less.prems len by (subst make_room.simps) simp
  next
    case True
    then obtain k a rest where r: "sessions t = (k, a) # rest" using len assms by (cases "sessions t") auto
    from evict_oldest_ok [OF less.prems r] obtain t1 where e: "evict_oldest t = (t1, Some a)" "table_ok t1" "sessions t1 = rest" by blast
    have "length (sessions t1) < length (sessions t)" using e(3) r by simp
    from less.hyps [OF this e(2), of "stopped @ [a]"] obtain t' where
      "make_room limit t1 (stopped @ [a]) = Some (t', (stopped @ [a]) @ map snd (take (Suc (length rest) - limit) rest))"
      "table_ok t'" "sessions t' = drop (Suc (length rest) - limit) rest" unfolding e(3) by blast
    moreover have "Suc (length (sessions t)) - limit = Suc (Suc (length rest) - limit)" using True len r by (simp add: Suc_diff_le)
    ultimately show ?thesis using True e(1) r by (subst make_room.simps) simp
  qed
qed

lemma table_spawn_refines:
  assumes "table_ok t" "0 < limit" "key \<notin> set (st_recency t)"
  shows "\<exists>t' stopped. table_spawn key fresh limit t = Some (t', stopped) \<and> table_ok t'
     \<and> lru_spawn key fresh limit (sessions t) = (sessions t', stopped)"
proof -
  let ?over = "Suc (length (sessions t)) - limit"
  obtain t1 where r: "make_room limit t [] = Some (t1, map snd (take ?over (sessions t)))" "table_ok t1"
    "sessions t1 = drop ?over (sessions t)"
    using make_room_ok [OF assms(2,1), of "[]"] by auto
  have "st_recency t1 = drop ?over (st_recency t)" using r(3) by (metis sessions_fst drop_map)
  then have k: "key \<notin> set (st_recency t1)" using assms(3) by (metis in_set_dropD)
  then have nk: "key \<notin> fst ` set (st_actors t1)" using r(2) by (simp add: table_ok_def)
  let ?t' = "\<lparr>st_actors = AList.update key fresh (st_actors t1), st_recency = st_recency t1 @ [key]\<rparr>"
  have ok: "table_ok ?t'"
    using r(2) k nk by (auto simp: table_ok_def update_keys)
  have "sessions ?t' = sessions t1 @ [(key, fresh)]"
    using k by (auto simp: sessions_def update_conv')
  then have "lru_spawn key fresh limit (sessions t) = (sessions ?t', map snd (take ?over (sessions t)))"
    by (simp add: lru_spawn_def Let_def r(3))
  then show ?thesis using r(1) ok by (auto simp: table_spawn_def)
qed

lemma sessions_snd_set: "table_ok t \<Longrightarrow> snd ` set (sessions t) = snd ` set (st_actors t)"
proof -
  assume ok: "table_ok t"
  have "map_of (sessions t) = map_of (st_actors t)" using map_of_sessions [OF ok] by blast
  moreover have "distinct (map fst (sessions t))" "distinct (map fst (st_actors t))" using ok by (simp_all add: table_ok_def)
  ultimately have "set (sessions t) = set (st_actors t)" by (metis map_of_eqI map_of_inject_set subsetI)
  then show ?thesis by simp
qed

lemma table_default_ok: "table_ok table_default" "sessions table_default = []"
  by (simp_all add: table_ok_def table_default_def sessions_def)

lemma table_step_refines:
  assumes ok: "table_ok t" and pos: "0 < limit"
  shows "\<exists>t' a. table_step limit x t = Some (t', a) \<and> table_ok t' \<and> lru_step limit x (sessions t) = (sessions t', a)"
proof (cases x)
  case (Lookup al artifact fresh key)
  obtain t1 r where g: "table_get al key t = (t1, r)" by fastforce
  have ok1: "table_ok t1" and lg: "lru_get al key (sessions t) = (sessions t1, r)"
    using table_get_refines [OF ok, of al key] g by simp_all
  show ?thesis
  proof (cases r)
    case None
    then have "key \<notin> set (st_recency t1)" using table_get_none [OF ok, of al key] g by simp
    from table_spawn_refines [OF ok1 pos this, of fresh] obtain t' stopped where
      "table_spawn key fresh limit t1 = Some (t', stopped)" "table_ok t'" "lru_spawn key fresh limit (sessions t1) = (sessions t', stopped)" by blast
    then show ?thesis using Lookup g lg None ok1 by (cases artifact) (simp_all add: session_actor_def)
  next
    case (Some a)
    then show ?thesis using Lookup g lg ok1 by (simp add: session_actor_def)
  qed
next
  case (Broke key)
  then show ?thesis using table_remove_ok [OF ok] sessions_remove [of key t] by simp
next
  case Shutdown
  then show ?thesis using table_default_ok sessions_snd_set [OF ok] by (simp add: table_drain_def)
qed

lemma lru_spawn_length: "0 < limit \<Longrightarrow> length (fst (lru_spawn key a limit l)) \<le> limit"
  by (simp add: lru_spawn_def Let_def)

lemma lru_get_length: "length (fst (lru_get al key l)) \<le> length l"
proof (cases "map_of l key")
  case (Some a)
  then have "(key, a) \<in> set l" by (rule map_of_SomeD)
  then have "length (filter (\<lambda>e. fst e \<noteq> key) l) < length l" by (intro length_filter_less) auto
  then show ?thesis using Some by (simp add: lru_get_def)
qed (simp add: lru_get_def)

lemma lru_step_length:
  "0 < limit \<Longrightarrow> length l \<le> limit \<Longrightarrow> length (fst (lru_step limit x l)) \<le> limit"
  using lru_get_length [of "(case x of Lookup al _ _ _ \<Rightarrow> al | _ \<Rightarrow> (\<lambda>_. False))" "(case x of Lookup _ _ _ k \<Rightarrow> k | _ \<Rightarrow> [])" l]
    lru_spawn_length [of limit]
  by (cases x) (auto simp: lru_remove_def split: prod.splits option.splits sum.splits intro: order_trans length_filter_le,
    (metis fst_conv order_trans)+)

lemma table_run_refines:
  "0 < limit \<Longrightarrow> table_ok t \<Longrightarrow> length (sessions t) \<le> limit \<Longrightarrow>
     \<exists>t' as. table_run limit xs t = Some (t', as) \<and> table_ok t' \<and> length (sessions t') \<le> limit
       \<and> lru_run limit xs (sessions t) = (sessions t', as)"
proof (induction xs arbitrary: t)
  case (Cons x xs)
  obtain t1 a where one: "table_step limit x t = Some (t1, a)" "table_ok t1" "lru_step limit x (sessions t) = (sessions t1, a)"
    using table_step_refines [OF Cons.prems(2,1)] by blast
  have "length (sessions t1) \<le> limit" using lru_step_length [OF Cons.prems(1,3), of x] one(3) by simp
  from Cons.IH [OF Cons.prems(1) one(2) this] one show ?case by auto
qed simp

text \<open>
  C33 The session table is a bounded least-recently-used cache: for every positive limit, any sequence
  of requests, broken sessions and shutdowns runs to completion (the loop that makes room always
  ends), answers exactly as the specification by one list of sessions ordered by last use does, and
  stops exactly the sessions the specification drops; at no time are there more sessions than the
  limit, two under one key, or one that eviction cannot reach.
\<close>
theorem session_table_lru:
  assumes "0 < max_sessions"
  shows "\<exists>t answers. table_run max_sessions ops table_default = Some (t, answers)
     \<and> lru_run max_sessions ops [] = (sessions t, answers)
     \<and> length (st_actors t) \<le> max_sessions \<and> distinct (map fst (st_actors t))
     \<and> set (st_recency t) = set (map fst (st_actors t))"
proof -
  obtain t answers where r: "table_run max_sessions ops table_default = Some (t, answers)" "table_ok t"
    "length (sessions t) \<le> max_sessions" "lru_run max_sessions ops [] = (sessions t, answers)"
    using table_run_refines [OF assms table_default_ok(1), of ops] by (auto simp: table_default_ok)
  moreover have "length (st_actors t) = length (sessions t)" using table_ok_length [OF r(2)] by (simp add: sessions_def)
  ultimately show ?thesis by (auto simp: table_ok_def)
qed

theorem session_table_lru_witness:
  "\<exists>t. table_run 2 [Lookup (\<lambda>_. True) (Inr ()) 1 ''a'', Lookup (\<lambda>_. True) (Inr ()) 2 ''b'', Lookup (\<lambda>_. True) (Inr ()) 3 ''a'',
       Lookup (\<lambda>_. True) (Inr ()) 4 ''c''] table_default
     = Some (t, [Session (Inr 1) [], Session (Inr 2) [], Session (Inr 1) [], Session (Inr 4) [2]])"
proof -
  let ?ops = "[Lookup (\<lambda>_. True) (Inr ()) 1 ''a'', Lookup (\<lambda>_. True) (Inr ()) 2 ''b'', Lookup (\<lambda>_. True) (Inr ()) 3 ''a'',
       Lookup (\<lambda>_. True) (Inr ()) 4 ''c'']"
  have "snd (lru_run 2 ?ops []) = [Session (Inr 1) [], Session (Inr 2) [], Session (Inr 1) [], Session (Inr 4) [2]]"
    by (simp add: lru_get_def lru_spawn_def)
  then show ?thesis using session_table_lru [of 2 ?ops] by fastforce
qed

end
