(* ===== verification/Weightc_Session.thy ===== *)
theory Weightc_Session
  imports Session_Table App_Config
begin

text \<open>
  One resident inference session (\<open>WeightcSessionActor\<close> in \<open>src/inference/weightc/session.rs\<close>): the child
  process it starts on the first turn, the request line it writes, the receipt it reads, and what
  breaks the session. What the operating system, the child and the JSON codec answer during a turn
  is the turn's environment; a failing \<open>expect\<close> is the value None, so that the absence of panics is a
  statement. Requests are taken one after the other: the races of a request with the eviction of its
  own session are not modelled.
\<close>

section \<open>Types\<close>

record session_spec =
  ss_binary :: string
  ss_artifact :: string
  ss_sampling :: "string list"
  ss_timeout_secs :: nat
  ss_model :: string

record completion_request =
  cr_prompt :: string
  cr_max_tokens :: "nat option"
  cr_temperature :: "string option"
  cr_seed :: "nat option"
  cr_session_key :: "string option"

text \<open>A floating-point number is kept as its text.\<close>

definition sampling_args :: "completion_request \<Rightarrow> string list" where
  "sampling_args r =
     (case cr_max_tokens r of Some n \<Rightarrow> [''--max-tokens'', show_nat n] | None \<Rightarrow> [])
     @ (case cr_temperature r of Some x \<Rightarrow> [''--temperature'', x] | None \<Rightarrow> [])
     @ (case cr_seed r of Some n \<Rightarrow> [''--seed'', show_nat n] | None \<Rightarrow> [])"

record token_usage =
  tu_prompt_tokens :: nat
  tu_completion_tokens :: nat

definition usage_from_counts :: "nat option \<Rightarrow> nat option \<Rightarrow> token_usage option" where
  "usage_from_counts p c =
     (case (p, c) of (Some x, Some y) \<Rightarrow> Some \<lparr>tu_prompt_tokens = x, tu_completion_tokens = y\<rparr> | _ \<Rightarrow> None)"

definition usage_total :: "token_usage \<Rightarrow> nat" where
  "usage_total u = saturating_add64 (tu_prompt_tokens u) (tu_completion_tokens u)"

record completion =
  co_text :: string
  co_model :: string
  co_tokens_per_second :: "string option"
  co_elapsed_millis :: nat
  co_usage :: "token_usage option"

record session_line =
  sl_response :: "string option"
  sl_text :: "string option"
  sl_output :: "string option"
  sl_tokens_per_second :: "string option"
  sl_elapsed_ms :: "nat option"
  sl_prompt_tokens :: "nat option"
  sl_completion_tokens :: "nat option"
  sl_error :: "(string \<times> string) option"

record turn_failure =
  tf_error :: live_error
  tf_alive :: bool

definition failure_reported :: "live_error \<Rightarrow> turn_failure" where
  "failure_reported e = \<lparr>tf_error = e, tf_alive = True\<rparr>"

definition failure_broken :: "live_error \<Rightarrow> turn_failure" where
  "failure_broken e = \<lparr>tf_error = e, tf_alive = False\<rparr>"

text \<open>A child is its process id; its pipes carry the id of the child they belong to.\<close>

record weightc_actor =
  wa_key :: string
  wa_spec :: session_spec
  wa_child :: "nat option"
  wa_stdin :: "nat option"
  wa_stdout :: "nat option"
  wa_system_pending :: "string option"
  wa_greeted :: bool

definition actor_new :: "string \<Rightarrow> session_spec \<Rightarrow> weightc_actor" where
  "actor_new key spec = \<lparr>wa_key = key, wa_spec = spec, wa_child = None, wa_stdin = None, wa_stdout = None,
     wa_system_pending = None, wa_greeted = False\<rparr>"

section \<open>A turn\<close>

text \<open>Reading one line: it does not arrive in time, the read fails, or it is read; the empty line is
  the end of the stream. A child that says nothing more is one that times out.\<close>

datatype read_event = ReadTimeout | ReadFailed string | ReadLine string

record turn_env =
  te_spawn :: "string + nat"
  te_write :: "string \<Rightarrow> string + unit"
  te_events :: "read_event list"
  te_encode :: "string \<Rightarrow> string option \<Rightarrow> string"
  te_decode :: "string \<Rightarrow> string + session_line"
  te_elapsed :: nat

definition ensure_child :: "turn_env \<Rightarrow> weightc_actor \<Rightarrow> weightc_actor \<times> (turn_failure + unit)" where
  "ensure_child env a =
     (if wa_child a \<noteq> None then (a, Inr ())
      else case te_spawn env of
        Inl e \<Rightarrow> (a, Inl (failure_broken (Transport (''failed to start '' @ ss_binary (wa_spec a) @ '': '' @ e))))
      | Inr pid \<Rightarrow> (a\<lparr>wa_stdin := Some pid, wa_stdout := Some pid, wa_child := Some pid\<rparr>, Inr ()))"

definition teardown :: "weightc_actor \<Rightarrow> weightc_actor" where
  "teardown a = a\<lparr>wa_stdin := None, wa_stdout := None, wa_child := None\<rparr>"

definition write_line :: "turn_env \<Rightarrow> string \<Rightarrow> weightc_actor \<Rightarrow> (turn_failure + unit) option" where
  "write_line env line a =
     (case wa_stdin a of
        None \<Rightarrow> None
      | Some _ \<Rightarrow> Some (map_err (\<lambda>e. failure_broken (Transport (''weightc session '' @ wa_key a @ '' is gone (context lost): '' @ e)))
                     (te_write env line)))"

fun or_else :: "'a option \<Rightarrow> 'a option \<Rightarrow> 'a option" where
  "or_else (Some x) y = Some x"
| "or_else None y = y"

definition reported_error :: "string \<Rightarrow> string \<Rightarrow> live_error" where
  "reported_error code message =
     (if code = ''invalid_request'' then Protocol (''weightc rejected the turn: '' @ message)
      else if code = ''session'' then Transport (''weightc session error: '' @ message)
      else Protocol (''weightc error '' @ code @ '': '' @ message))"

definition parse_receipt :: "turn_env \<Rightarrow> string \<Rightarrow> weightc_actor \<Rightarrow> weightc_actor \<times> (turn_failure + completion)" where
  "parse_receipt env line a =
     (case te_decode env line of
        Inl e \<Rightarrow> (a, Inl (failure_broken (Protocol (''weightc session '' @ wa_key a @ '' emitted an unparsable line: '' @ e))))
      | Inr parsed \<Rightarrow>
          (case sl_error parsed of
             Some (code, message) \<Rightarrow> (a, Inl (failure_reported (reported_error code message)))
           | None \<Rightarrow>
               (case or_else (or_else (sl_response parsed) (sl_text parsed)) (sl_output parsed) of
                  None \<Rightarrow> (a, Inl (failure_broken (Protocol (''weightc session '' @ wa_key a @ '' receipt has no response, text, or output field''))))
                | Some text \<Rightarrow>
                    (a\<lparr>wa_greeted := True\<rparr>,
                     Inr \<lparr>co_text = text, co_model = ss_model (wa_spec a), co_tokens_per_second = sl_tokens_per_second parsed,
                          co_elapsed_millis = (case sl_elapsed_ms parsed of Some n \<Rightarrow> n | None \<Rightarrow> te_elapsed env),
                          co_usage = usage_from_counts (sl_prompt_tokens parsed) (sl_completion_tokens parsed)\<rparr>))))"

fun read_receipt :: "turn_env \<Rightarrow> read_event list \<Rightarrow> weightc_actor \<Rightarrow> (weightc_actor \<times> (turn_failure + completion)) option" where
  "read_receipt env events a =
     (if wa_stdout a = None then None
      else case events of
        [] \<Rightarrow> Some (a, Inl (failure_broken (Transport (''weightc session '' @ wa_key a @ '' timed out after '' @ show_nat (ss_timeout_secs (wa_spec a)) @ ''s''))))
      | ReadTimeout # _ \<Rightarrow> Some (a, Inl (failure_broken (Transport (''weightc session '' @ wa_key a @ '' timed out after '' @ show_nat (ss_timeout_secs (wa_spec a)) @ ''s''))))
      | ReadFailed e # _ \<Rightarrow> Some (a, Inl (failure_broken (Transport (''weightc session '' @ wa_key a @ '' read failed (context lost): '' @ e))))
      | ReadLine line # rest \<Rightarrow>
          (if line = [] then Some (a, Inl (failure_broken (Transport (''weightc session '' @ wa_key a @ '' exited (context lost)''))))
           else if trim line = [] then read_receipt env rest a
           else Some (parse_receipt env (trim line) a)))"

text \<open>A turn gives the actor, the line it wrote if it got that far, and its outcome.\<close>

definition turn :: "turn_env \<Rightarrow> string \<Rightarrow> weightc_actor \<Rightarrow> (weightc_actor \<times> string option \<times> (turn_failure + completion)) option" where
  "turn env prompt a =
     (case ensure_child env a of
        (a1, Inl f) \<Rightarrow> Some (a1, None, Inl f)
      | (a1, Inr _) \<Rightarrow>
          (let system = (if wa_greeted a1 then None else wa_system_pending a1);
               line = te_encode env prompt system @ [CHR 0x0A] in
           case write_line env line a1 of
             None \<Rightarrow> None
           | Some (Inl f) \<Rightarrow> Some (a1, Some line, Inl f)
           | Some (Inr _) \<Rightarrow>
               map_option (\<lambda>(a2, r). (a2, Some line, r)) (read_receipt env (te_events env) a1)))"

record session_turn =
  sn_prompt :: string
  sn_system :: "string option"

record turn_outcome =
  to_result :: "completion live_result"
  to_alive :: bool

definition handle_turn :: "turn_env \<Rightarrow> session_turn \<Rightarrow> weightc_actor \<Rightarrow> (weightc_actor \<times> string option \<times> turn_outcome) option" where
  "handle_turn env message a =
     (let a0 = (if wa_system_pending a = None then a\<lparr>wa_system_pending := sn_system message\<rparr> else a) in
      case turn env (sn_prompt message) a0 of
        None \<Rightarrow> None
      | Some (a1, line, Inr c) \<Rightarrow> Some (a1, line, \<lparr>to_result = Inr c, to_alive = True\<rparr>)
      | Some (a1, line, Inl f) \<Rightarrow>
          Some (if tf_alive f then a1 else teardown a1, line, \<lparr>to_result = Inl (tf_error f), to_alive = tf_alive f\<rparr>))"

definition handle_stop :: "weightc_actor \<Rightarrow> weightc_actor" where
  "handle_stop a = teardown a"

text \<open>An actor that has ended has dropped its state, and a child that is dropped is killed
  (\<open>kill_on_drop\<close>).\<close>

definition actor_dropped :: "weightc_actor \<Rightarrow> weightc_actor" where
  "actor_dropped a = a\<lparr>wa_stdin := None, wa_stdout := None, wa_child := None\<rparr>"

section \<open>A resident request\<close>

text \<open>The actors as a request finds them: the ended ones have dropped their child, those stopped to make
  room have handled their stop.\<close>

definition settled_actors :: "(actor_ref \<Rightarrow> bool) \<Rightarrow> actor_ref list \<Rightarrow> (actor_ref \<Rightarrow> weightc_actor) \<Rightarrow> actor_ref \<Rightarrow> weightc_actor" where
  "settled_actors is_alive stopped actors i =
     (let a = (if is_alive i then actors i else actor_dropped (actors i)) in if i \<in> set stopped then handle_stop a else a)"

text \<open>The engine's sessions: the table, and the state of each actor. \<open>ask\<close> is the environment of the
  turn, or the reason the actor could not be asked: it has ended. An actor that is not alive has
  ended too.\<close>

record resident =
  re_table :: session_table
  re_actors :: "actor_ref \<Rightarrow> weightc_actor"

record weightc_engine =
  we_binary :: string
  we_timeout_secs :: nat
  we_default_model :: string
  we_resident_sessions :: bool
  we_max_sessions :: nat
  we_mailbox_capacity :: nat

definition engine_new :: "inference_config \<Rightarrow> nat \<Rightarrow> weightc_engine" where
  "engine_new c mailbox_capacity =
     \<lparr>we_binary = weightc_path c, we_timeout_secs = inf_request_timeout_secs c, we_default_model = default_model c,
      we_resident_sessions = resident_sessions c, we_max_sessions = max (max_resident_sessions c) 1,
      we_mailbox_capacity = max mailbox_capacity 1\<rparr>"

text \<open>\<open>catalog\<close> is \<open>ModelCatalog::artifact_dir\<close>.\<close>

definition engine_artifact_dir :: "weightc_engine \<Rightarrow> (string \<Rightarrow> string live_result) \<Rightarrow> string live_result" where
  "engine_artifact_dir g catalog =
     (if trim (we_default_model g) = []
      then Inl (Capability ''the weightc engine requires inference.default_model to name an imported model'')
      else catalog (we_default_model g))"

definition engine_spec :: "weightc_engine \<Rightarrow> (string \<Rightarrow> string live_result) \<Rightarrow> completion_request \<Rightarrow> session_spec live_result" where
  "engine_spec g catalog request =
     bindE (engine_artifact_dir g catalog) (\<lambda>dir.
       Inr \<lparr>ss_binary = we_binary g, ss_artifact = dir, ss_sampling = sampling_args request,
            ss_timeout_secs = we_timeout_secs g, ss_model = we_default_model g\<rparr>)"

definition complete_resident ::
  "weightc_engine \<Rightarrow> (string \<Rightarrow> string live_result) \<Rightarrow> (actor_ref \<Rightarrow> bool) \<Rightarrow> actor_ref \<Rightarrow> (string + turn_env) \<Rightarrow> string \<Rightarrow> completion_request
     \<Rightarrow> resident \<Rightarrow> (resident \<times> completion live_result) option"
where
  "complete_resident g catalog is_alive fresh ask key request e =
     (let spec = engine_spec g catalog request in
      case session_actor is_alive (bindE spec (\<lambda>_. Inr ())) fresh (we_max_sessions g) key (re_table e) of
        None \<Rightarrow> None
      | Some (t, Inl err, _) \<Rightarrow> Some (\<lparr>re_table = t, re_actors = settled_actors is_alive [] (re_actors e)\<rparr>, Inl err)
      | Some (t, Inr actor, stopped) \<Rightarrow>
          (let halted = settled_actors is_alive stopped (re_actors e);
               spawned = (case (snd (table_get is_alive key (re_table e)), spec) of
                            (None, Inr sp) \<Rightarrow> halted(fresh := actor_new key sp) | _ \<Rightarrow> halted) in
           case ask of
             Inl err \<Rightarrow> Some (\<lparr>re_table = table_remove key t, re_actors = spawned(actor := actor_dropped (spawned actor))\<rparr>,
                              Inl (Transport (''weightc session '' @ key @ '' actor is unavailable: '' @ err)))
           | Inr env \<Rightarrow>
               map_option (\<lambda>(a, _, out).
                 (\<lparr>re_table = (if to_alive out then t else table_remove key t), re_actors = spawned(actor := a)\<rparr>, to_result out))
                 (handle_turn env \<lparr>sn_prompt = cr_prompt request, sn_system = None\<rparr> (spawned actor))))"

text \<open>The last part of an error text: at most 512 bytes, from a character boundary.\<close>

definition stderr_tail :: "string \<Rightarrow> string" where
  "stderr_tail text =
     (if length text \<le> 512 then text
      else dropWhile (\<lambda>c. 128 \<le> byte_of c \<and> byte_of c < 192) (drop (length text - 512) text))"

record ask_output =
  ao_response :: "string option"
  ao_text :: "string option"
  ao_output :: "string option"
  ao_tokens_per_second :: "string option"
  ao_prompt_tokens :: "nat option"
  ao_completion_tokens :: "nat option"

text \<open>One \<open>weightc ask\<close> process: it does not end in time, it does not start, or it ends with a status
  (its success and its text), an error output and the output the codec reads.\<close>

datatype ask_process =
    AskTimeout
  | AskNotStarted string
  | AskExit bool string string "string + ask_output"

definition complete_one_shot :: "weightc_engine \<Rightarrow> (string \<Rightarrow> string live_result) \<Rightarrow> ask_process \<Rightarrow> nat \<Rightarrow> completion live_result" where
  "complete_one_shot g catalog process elapsed =
     bindE (engine_artifact_dir g catalog) (\<lambda>_.
       case process of
         AskTimeout \<Rightarrow> Inl (Transport (''weightc ask timed out after '' @ show_nat (we_timeout_secs g) @ ''s''))
       | AskNotStarted e \<Rightarrow> Inl (Transport (''failed to start '' @ we_binary g @ '': '' @ e))
       | AskExit success status err out \<Rightarrow>
           (if \<not> success then Inl (Io (''weightc ask failed ('' @ status @ ''): '' @ stderr_tail (trim err)))
            else bindE (map_err Protocol out) (\<lambda>parsed.
              case or_else (or_else (ao_response parsed) (ao_text parsed)) (ao_output parsed) of
                None \<Rightarrow> Inl (Protocol ''weightc --json output has no response, text, or output field'')
              | Some text \<Rightarrow>
                  Inr \<lparr>co_text = text, co_model = we_default_model g, co_tokens_per_second = ao_tokens_per_second parsed,
                       co_elapsed_millis = elapsed, co_usage = usage_from_counts (ao_prompt_tokens parsed) (ao_completion_tokens parsed)\<rparr>)))"

text \<open>\<open>InferenceEngine::complete\<close> and \<open>shutdown\<close> of the engine.\<close>

definition weightc_complete ::
  "weightc_engine \<Rightarrow> (string \<Rightarrow> string live_result) \<Rightarrow> (actor_ref \<Rightarrow> bool) \<Rightarrow> actor_ref \<Rightarrow> (string + turn_env) \<Rightarrow> ask_process \<Rightarrow> nat
     \<Rightarrow> completion_request \<Rightarrow> resident \<Rightarrow> (resident \<times> completion live_result) option"
where
  "weightc_complete g catalog is_alive fresh ask process elapsed request e =
     (case (we_resident_sessions g, cr_session_key request) of
        (True, Some key) \<Rightarrow> complete_resident g catalog is_alive fresh ask key request e
      | _ \<Rightarrow> Some (e, complete_one_shot g catalog process elapsed))"

definition weightc_shutdown :: "resident \<Rightarrow> resident" where
  "weightc_shutdown e =
     (let (t, actors) = table_drain (re_table e) in
      \<lparr>re_table = t, re_actors = (\<lambda>i. if i \<in> set actors then handle_stop (re_actors e i) else re_actors e i)\<rparr>)"

section \<open>The session is well typed\<close>

text \<open>An actor has a child and both its pipes, or none of the three.\<close>

definition actor_ok :: "weightc_actor \<Rightarrow> bool" where
  "actor_ok a \<longleftrightarrow> wa_stdin a = wa_child a \<and> wa_stdout a = wa_child a"

declare read_receipt.simps [simp del]

lemma ensure_child_cases:
  assumes "actor_ok a"
  shows "(\<exists>f. ensure_child env a = (a, Inl f) \<and> \<not> tf_alive f)
     \<or> (\<exists>a1. ensure_child env a = (a1, Inr ()) \<and> actor_ok a1 \<and> wa_child a1 \<noteq> None \<and> wa_greeted a1 = wa_greeted a
          \<and> wa_system_pending a1 = wa_system_pending a \<and> wa_key a1 = wa_key a \<and> wa_spec a1 = wa_spec a)"
  using assms by (auto simp: ensure_child_def actor_ok_def failure_broken_def split: sum.splits)

lemma parse_receipt_cases:
  "(\<exists>f. parse_receipt env line a = (a, Inl f)) \<or> (\<exists>c. parse_receipt env line a = (a\<lparr>wa_greeted := True\<rparr>, Inr c) \<and> co_model c = ss_model (wa_spec a))"
  by (auto simp: parse_receipt_def split: sum.splits option.splits)

lemma read_receipt_cases:
  "wa_stdout a \<noteq> None \<Longrightarrow>
     (\<exists>f. read_receipt env events a = Some (a, Inl f))
     \<or> (\<exists>c. read_receipt env events a = Some (a\<lparr>wa_greeted := True\<rparr>, Inr c) \<and> co_model c = ss_model (wa_spec a))"
proof (induction events)
  case Nil
  then show ?case by (simp add: read_receipt.simps)
next
  case (Cons e events)
  then show ?case using parse_receipt_cases [of env _ a]
    by (subst (1 2) read_receipt.simps) (cases e; auto)
qed

lemma turn_cases:
  assumes "actor_ok a"
  obtains a1 line f where "turn env prompt a = Some (a1, line, Inl f)" "actor_ok a1" "wa_greeted a1 = wa_greeted a"
      "wa_system_pending a1 = wa_system_pending a" "tf_alive f \<longrightarrow> wa_child a1 \<noteq> None"
      "line \<in> {None, Some (te_encode env prompt (if wa_greeted a then None else wa_system_pending a) @ [CHR 0x0A])}"
    | a1 c where "turn env prompt a = Some (a1, Some (te_encode env prompt (if wa_greeted a then None else wa_system_pending a) @ [CHR 0x0A]), Inr c)"
      "actor_ok a1" "wa_greeted a1" "wa_child a1 \<noteq> None" "wa_system_pending a1 = wa_system_pending a"
proof -
  let ?line = "te_encode env prompt (if wa_greeted a then None else wa_system_pending a) @ [CHR 0x0A]"
  from ensure_child_cases [OF assms, of env] show thesis
  proof (elim disjE exE conjE)
    fix f assume "ensure_child env a = (a, Inl f)" "\<not> tf_alive f"
    then show thesis using that(1) [of a None f] assms by (simp add: turn_def)
  next
    fix a1 assume e: "ensure_child env a = (a1, Inr ())" "actor_ok a1" "wa_child a1 \<noteq> None" "wa_greeted a1 = wa_greeted a"
      "wa_system_pending a1 = wa_system_pending a"
    have pipes: "wa_stdin a1 \<noteq> None" "wa_stdout a1 \<noteq> None" using e(2,3) by (simp_all add: actor_ok_def)
    show thesis
    proof (cases "te_write env ?line")
      case (Inl x)
      then have "turn env prompt a = Some (a1, Some ?line, Inl (failure_broken (Transport (''weightc session '' @ wa_key a1 @ '' is gone (context lost): '' @ x))))"
        using e pipes by (auto simp: turn_def write_line_def Let_def)
      then show thesis using that(1) e by simp
    next
      case (Inr u)
      then have t: "turn env prompt a = map_option (\<lambda>(a2, r). (a2, Some ?line, r)) (read_receipt env (te_events env) a1)"
        using e pipes by (auto simp: turn_def write_line_def Let_def)
      from read_receipt_cases [OF pipes(2), of env "te_events env"] show thesis
      proof (elim disjE exE conjE)
        fix f assume "read_receipt env (te_events env) a1 = Some (a1, Inl f)"
        then show thesis using that(1) [of a1 "Some ?line" f] e t by simp
      next
        fix c assume "read_receipt env (te_events env) a1 = Some (a1\<lparr>wa_greeted := True\<rparr>, Inr c)"
        then show thesis using that(2) [of "a1\<lparr>wa_greeted := True\<rparr>" c] e t by (simp add: actor_ok_def)
      qed
    qed
  qed
qed

lemma handle_turn_ok:
  assumes "actor_ok a"
  shows "\<exists>a' line out. handle_turn env message a = Some (a', line, out) \<and> actor_ok a'
     \<and> (to_alive out \<longleftrightarrow> wa_child a' \<noteq> None) \<and> (is_ok (to_result out) \<longrightarrow> to_alive out)
     \<and> wa_greeted a' = (wa_greeted a \<or> is_ok (to_result out))
     \<and> line \<in> {None, Some (te_encode env (sn_prompt message) (if wa_greeted a then None
            else or_else (wa_system_pending a) (sn_system message)) @ [CHR 0x0A])}"
proof -
  let ?a0 = "if wa_system_pending a = None then a\<lparr>wa_system_pending := sn_system message\<rparr> else a"
  have p: "wa_system_pending ?a0 = or_else (wa_system_pending a) (sn_system message)" "wa_greeted ?a0 = wa_greeted a"
    by (cases "wa_system_pending a"; simp)+
  have "actor_ok ?a0" using assms by (simp add: actor_ok_def)
  then show ?thesis
  proof (cases rule: turn_cases [where env = env and prompt = "sn_prompt message"])
    case (1 a1 line f)
    then show ?thesis by (auto simp: handle_turn_def Let_def p teardown_def actor_ok_def)
  next
    case (2 a1 c)
    then show ?thesis by (auto simp: handle_turn_def Let_def p)
  qed
qed

lemma read_receipt_blank: "read_receipt env (replicate n (ReadLine [CHR 0x0A]) @ events) a = read_receipt env events a"
proof (induction n)
  case (Suc n)
  have "trim [CHR 0x0A] = []" by code_simp
  moreover have "read_receipt env (ReadLine [CHR 0x0A] # rest) a = (if wa_stdout a = None then None else read_receipt env rest a)" for rest
    using \<open>trim [CHR 0x0A] = []\<close> by (subst read_receipt.simps) simp
  moreover have "wa_stdout a = None \<Longrightarrow> read_receipt env events a = None" by (subst read_receipt.simps) simp
  ultimately show ?case using Suc by simp
qed simp

text \<open>A consistent engine: no two sessions share an actor, every session is well formed, and no child
  runs that is not the child of a session of the table.\<close>

definition resident_ok :: "nat \<Rightarrow> resident \<Rightarrow> bool" where
  "resident_ok max_sessions e \<longleftrightarrow> table_ok (re_table e) \<and> length (sessions (re_table e)) \<le> max_sessions
     \<and> distinct (map snd (sessions (re_table e)))
     \<and> (\<forall>i \<in> snd ` set (st_actors (re_table e)). actor_ok (re_actors e i))
     \<and> (\<forall>i. wa_child (re_actors e i) \<noteq> None \<longrightarrow> i \<in> snd ` set (st_actors (re_table e)))"

text \<open>The table after a lookup, from the refinement.\<close>

lemma lru_get_sets:
  "snd ` set (fst (lru_get al key l)) \<subseteq> snd ` set l"
  "snd (lru_get al key l) = Some a \<Longrightarrow> map_of l key = Some a \<and> al a \<and> map_of (fst (lru_get al key l)) key = Some a"
  by (auto simp: lru_get_def map_add_def map_of_eq_None_iff dest: map_of_SomeD split: option.splits if_splits)

lemma lru_spawn_sets:
  "snd ` set (fst (lru_spawn key fresh limit l)) \<subseteq> insert fresh (snd ` set l)"
  "key \<notin> fst ` set l \<Longrightarrow> map_of (fst (lru_spawn key fresh limit l)) key = Some fresh"
proof -
  show "snd ` set (fst (lru_spawn key fresh limit l)) \<subseteq> insert fresh (snd ` set l)"
    by (auto simp: lru_spawn_def Let_def dest: in_set_dropD)
  assume "key \<notin> fst ` set l"
  then have "map_of (drop n l) key = None" for n by (force simp: map_of_eq_None_iff dest: in_set_dropD)
  then show "map_of (fst (lru_spawn key fresh limit l)) key = Some fresh"
    by (simp add: lru_spawn_def Let_def map_add_def)
qed

lemma lru_get_frame:
  assumes "distinct (map fst l)" "distinct (map snd l)"
  shows "distinct (map snd (fst (lru_get al key l)))"
    and "snd ` set l \<subseteq> snd ` set (fst (lru_get al key l)) \<union> {i. \<not> al i}"
    and "map_of (fst (lru_get al key l)) k = Some a \<Longrightarrow> map_of l k = Some a"
proof -
  have f: "distinct (map snd (filter P l))" for P using assms(2) by (rule distinct_map_filter)
  have only: "(key, b) \<in> set l \<Longrightarrow> map_of l key = Some b" for b using assms(1) by simp
  have new: "a \<notin> snd ` set (filter (\<lambda>e. fst e \<noteq> key) l)" if "map_of l key = Some a" for a
  proof
    assume "a \<in> snd ` set (filter (\<lambda>e. fst e \<noteq> key) l)"
    then obtain k where "(k, a) \<in> set l" "k \<noteq> key" by auto
    moreover have "(key, a) \<in> set l" using that by (rule map_of_SomeD)
    ultimately show False using assms(2) by (fastforce simp: distinct_map inj_on_def)
  qed
  show "distinct (map snd (fst (lru_get al key l)))"
    using assms(2) f new by (auto simp: lru_get_def split: option.splits)
  show "snd ` set l \<subseteq> snd ` set (fst (lru_get al key l)) \<union> {i. \<not> al i}"
    using only by (force simp: lru_get_def split: option.splits)
  have "map_of (filter (\<lambda>e. fst e \<noteq> key) l) k = (if k = key then None else map_of l k)"
    by (induction l) auto
  then show "map_of (fst (lru_get al key l)) k = Some a \<Longrightarrow> map_of l k = Some a"
    by (auto simp: lru_get_def map_add_def split: option.splits if_splits)
qed

lemma lru_spawn_frame:
  assumes "distinct (map fst l)" "distinct (map snd l)" "fresh \<notin> snd ` set l"
  shows "distinct (map snd (fst (lru_spawn key fresh limit l)))"
    and "snd ` set l \<subseteq> snd ` set (fst (lru_spawn key fresh limit l)) \<union> set (snd (lru_spawn key fresh limit l))"
    and "set (snd (lru_spawn key fresh limit l)) \<inter> snd ` set (fst (lru_spawn key fresh limit l)) = {}"
    and "k \<noteq> key \<Longrightarrow> map_of (fst (lru_spawn key fresh limit l)) k = Some a \<Longrightarrow> map_of l k = Some a"
proof -
  let ?n = "Suc (length l) - limit"
  have l: "map snd l = map snd (take ?n l) @ map snd (drop ?n l)" by (metis append_take_drop_id map_append)
  then have d: "distinct (map snd (drop ?n l))" "set (map snd (take ?n l)) \<inter> set (map snd (drop ?n l)) = {}"
    using assms(2) by (metis distinct_append)+
  have fresh: "fresh \<notin> snd ` set (drop ?n l)" "fresh \<notin> snd ` set (take ?n l)"
    using assms(3) by (auto dest: in_set_dropD in_set_takeD)
  show "distinct (map snd (fst (lru_spawn key fresh limit l)))" using d fresh by (simp add: lru_spawn_def Let_def)
  have "snd ` set l = set (map snd l)" by simp
  also have "\<dots> = set (map snd (take ?n l)) \<union> set (map snd (drop ?n l))" using l by (metis set_append)
  finally show "snd ` set l \<subseteq> snd ` set (fst (lru_spawn key fresh limit l)) \<union> set (snd (lru_spawn key fresh limit l))"
    by (auto simp: lru_spawn_def Let_def)
  show "set (snd (lru_spawn key fresh limit l)) \<inter> snd ` set (fst (lru_spawn key fresh limit l)) = {}"
    using d(2) fresh by (auto simp: lru_spawn_def Let_def)
  show "map_of l k = Some a" if "k \<noteq> key" "map_of (fst (lru_spawn key fresh limit l)) k = Some a"
  proof -
    have "map_of (drop ?n l) k = Some a"
      using that by (auto simp: lru_spawn_def Let_def map_add_def split: option.splits)
    then have "(k, a) \<in> set l" by (auto dest: map_of_SomeD in_set_dropD)
    then show ?thesis using assms(1) by simp
  qed
qed

lemma session_actor_frame:
  assumes ok: "table_ok t" and lim: "0 < limit" and d: "distinct (map snd (sessions t))" and new: "fresh \<notin> snd ` set (sessions t)"
    and sa: "session_actor al artifact fresh limit key t = Some (t', r, stopped)"
  shows "distinct (map snd (sessions t'))
     \<and> snd ` set (sessions t) \<subseteq> snd ` set (sessions t') \<union> set stopped \<union> {i. \<not> al i}
     \<and> set stopped \<inter> snd ` set (sessions t') = {}
     \<and> (\<forall>k a. k \<noteq> key \<longrightarrow> map_of (sessions t') k = Some a \<longrightarrow> map_of (sessions t) k = Some a)"
proof -
  obtain t1 r1 where g: "table_get al key t = (t1, r1)" by fastforce
  note gr = table_get_refines [OF ok, of al key, unfolded g fst_conv snd_conv]
  have keys: "distinct (map fst (sessions u))" if "table_ok u" for u using that by (simp add: table_ok_def)
  note fr = lru_get_frame [OF keys [OF ok] d, of al key, unfolded gr(2) fst_conv]
  show ?thesis
  proof (cases r1)
    case (Some a)
    then show ?thesis using sa g fr by (auto simp: session_actor_def)
  next
    case None
    then have nk: "key \<notin> set (st_recency t1)" using table_get_none [OF ok, of al key] g by simp
    have new1: "fresh \<notin> snd ` set (sessions t1)" using lru_get_sets(1) [of al key "sessions t"] gr(2) new by auto
    obtain t2 stopped2 where sp:
      "table_spawn key fresh limit t1 = Some (t2, stopped2)" "lru_spawn key fresh limit (sessions t1) = (sessions t2, stopped2)"
      using table_spawn_refines [OF gr(1) lim nk, of fresh] by blast
    note fs = lru_spawn_frame [OF keys [OF gr(1)] fr(1) new1, where key = key and limit = limit, unfolded sp(2) fst_conv snd_conv]
    show ?thesis
    proof (cases artifact)
      case (Inl e)
      then show ?thesis using sa g None fr by (auto simp: session_actor_def)
    next
      case (Inr u)
      then have "t' = t2" "stopped = stopped2" using sa g None sp(1) by (auto simp: session_actor_def)
      moreover have "snd ` set (sessions t) \<subseteq> snd ` set (sessions t2) \<union> set stopped2 \<union> {i. \<not> al i}"
        using fs(2) fr(2) by blast
      moreover have "\<forall>k a. k \<noteq> key \<longrightarrow> map_of (sessions t2) k = Some a \<longrightarrow> map_of (sessions t) k = Some a"
        using fs(4) fr(3) by simp
      ultimately show ?thesis using fs(1,3) by simp
    qed
  qed
qed

lemma session_actor_ok:
  assumes "table_ok t" "length (sessions t) \<le> limit" "0 < limit"
  shows "\<exists>t' r stopped. session_actor al artifact fresh limit key t = Some (t', r, stopped) \<and> table_ok t'
     \<and> length (sessions t') \<le> limit \<and> (\<forall>actor. r = Inr actor \<longrightarrow> map_of (sessions t') key = Some actor)
     \<and> snd ` set (sessions t') \<subseteq> snd ` set (sessions t) \<union> (if snd (table_get al key t) = None \<and> is_ok artifact then {fresh} else {})
     \<and> (snd (table_get al key t) = None \<longrightarrow> (is_ok r \<longleftrightarrow> is_ok artifact) \<and> (is_ok r \<longrightarrow> r = Inr fresh))
     \<and> (\<not> is_ok r \<longrightarrow> map_of (sessions t') key = None)"
proof -
  obtain t1 r1 where g: "table_get al key t = (t1, r1)" by fastforce
  note gr = table_get_refines [OF assms(1), of al key, unfolded g fst_conv snd_conv]
  have len: "length (sessions t1) \<le> limit" using lru_get_length [of al key "sessions t"] gr(2) assms(2) by simp
  have sub: "snd ` set (sessions t1) \<subseteq> snd ` set (sessions t)" using lru_get_sets(1) [of al key "sessions t"] gr(2) by simp
  show ?thesis
  proof (cases r1)
    case (Some a)
    then have "map_of (sessions t1) key = Some a" using lru_get_sets(2) [of al key "sessions t" a] gr(2) by simp
    then show ?thesis using g Some gr(1) len sub by (simp add: session_actor_def)
  next
    case None
    then have nk: "key \<notin> set (st_recency t1)" using table_get_none [OF assms(1), of al key] g by simp
    from table_spawn_refines [OF gr(1) assms(3) nk, of fresh] obtain t' stopped where sp:
      "table_spawn key fresh limit t1 = Some (t', stopped)" "table_ok t'" "lru_spawn key fresh limit (sessions t1) = (sessions t', stopped)" by blast
    have "key \<notin> fst ` set (sessions t1)" using nk by (metis sessions_fst list.set_map)
    moreover from this have "map_of (sessions t1) key = None" by (simp add: map_of_eq_None_iff)
    ultimately have "map_of (sessions t1) key = None" "map_of (sessions t') key = Some fresh" "snd ` set (sessions t') \<subseteq> insert fresh (snd ` set (sessions t1))"
      "length (sessions t') \<le> limit"
      using lru_spawn_sets [where key = key and fresh = fresh and limit = limit and l = "sessions t1"] lru_spawn_length [OF assms(3), where key = key and a = fresh and l = "sessions t1"] sp(3) by simp_all
    then show ?thesis using g None gr(1) len sub sp(1,2) by (cases artifact) (auto simp: session_actor_def)
  qed
qed

lemma settled_actors_ok:
  "actor_ok (actors i) \<Longrightarrow> actor_ok (settled_actors is_alive stopped actors i)"
  "wa_child (settled_actors is_alive stopped actors i) \<noteq> None \<Longrightarrow> wa_child (actors i) \<noteq> None \<and> is_alive i \<and> i \<notin> set stopped"
  "i \<notin> set stopped \<Longrightarrow> settled_actors is_alive stopped actors i = (if is_alive i then actors i else actor_dropped (actors i))"
  by (auto simp: settled_actors_def Let_def actor_ok_def actor_dropped_def handle_stop_def teardown_def split: if_splits)

lemma resident_okI:
  assumes "table_ok t" "length (sessions t) \<le> n" "distinct (map snd (sessions t))"
    and "\<And>i. i \<in> snd ` set (sessions t) \<Longrightarrow> actor_ok (f i)" and "\<And>i. wa_child (f i) \<noteq> None \<Longrightarrow> i \<in> snd ` set (sessions t)"
  shows "resident_ok n \<lparr>re_table = t, re_actors = f\<rparr>"
    and "map_of (sessions t) key = Some actor \<Longrightarrow> wa_child (f actor) = None \<Longrightarrow>
      resident_ok n \<lparr>re_table = table_remove key t, re_actors = f\<rparr>"
proof -
  note set = sessions_snd_set [OF assms(1)] sessions_snd_set [OF table_remove_ok [OF assms(1), of key]]
  show "resident_ok n \<lparr>re_table = t, re_actors = f\<rparr>" using assms set by (simp add: resident_ok_def)
  assume k: "map_of (sessions t) key = Some actor" "wa_child (f actor) = None"
  have l: "sessions (table_remove key t) = lru_remove key (sessions t)" by (rule sessions_remove)
  have "length (lru_remove key (sessions t)) \<le> n" using assms(2) by (simp add: lru_remove_def le_trans [OF length_filter_le])
  moreover have "distinct (map snd (lru_remove key (sessions t)))" unfolding lru_remove_def by (rule distinct_map_filter [OF assms(3)])
  moreover have "i \<in> snd ` set (lru_remove key (sessions t)) \<Longrightarrow> i \<in> snd ` set (sessions t)" for i by (auto simp: lru_remove_def)
  moreover have "i \<in> snd ` set (lru_remove key (sessions t))" if c: "wa_child (f i) \<noteq> None" for i
  proof -
    obtain k' where k': "(k', i) \<in> set (sessions t)" using assms(5) [OF c] by auto
    have "distinct (map fst (sessions t))" using assms(1) by (simp add: table_ok_def)
    then have "map_of (sessions t) k' = Some i" using k' by (rule map_of_is_SomeI)
    then have "k' = key \<Longrightarrow> i = actor" using k(1) by simp
    then have "k' \<noteq> key" using k(2) c by auto
    then show ?thesis using k' by (force simp: lru_remove_def)
  qed
  ultimately show "resident_ok n \<lparr>re_table = table_remove key t, re_actors = f\<rparr>"
    using assms(4) set table_remove_ok [OF assms(1), of key] l by (auto simp: resident_ok_def)
qed

text \<open>What a request for the session \<open>key\<close> leaves of the engine: the key has a session exactly when the
  child of the actor that was asked runs, and the other sessions that remain are as they were.\<close>

definition request_settled :: "(actor_ref \<Rightarrow> bool) \<Rightarrow> string \<Rightarrow> resident \<Rightarrow> resident \<Rightarrow> completion live_result \<Rightarrow> bool" where
  "request_settled is_alive key e e' r \<longleftrightarrow>
     (case map_of (st_actors (re_table e')) key of
        None \<Rightarrow> \<not> is_ok r
      | Some actor \<Rightarrow> wa_child (re_actors e' actor) \<noteq> None)
     \<and> (\<forall>k i. k \<noteq> key \<longrightarrow> map_of (st_actors (re_table e')) k = Some i \<longrightarrow>
          map_of (st_actors (re_table e)) k = Some i
          \<and> re_actors e' i = (if is_alive i then re_actors e i else actor_dropped (re_actors e i)))"

lemma map_of_table_remove: "map_of (st_actors (table_remove key t)) k = (if k = key then None else map_of (st_actors t) k)"
  by (simp add: table_remove_def map_of_delete_alist)

lemma complete_resident_ok:
  assumes pos: "0 < we_max_sessions g" and ok: "resident_ok (we_max_sessions g) e" and new: "fresh \<notin> snd ` set (st_actors (re_table e))"
  shows "\<exists>e' r. complete_resident g catalog is_alive fresh ask key request e = Some (e', r)
     \<and> resident_ok (we_max_sessions g) e' \<and> request_settled is_alive key e e' r"
proof -
  let ?n = "we_max_sessions g"
  have tok: "table_ok (re_table e)" "length (sessions (re_table e)) \<le> ?n" "distinct (map snd (sessions (re_table e)))"
    and snd: "snd ` set (st_actors (re_table e)) = snd ` set (sessions (re_table e))"
    and aok: "\<And>i. i \<in> snd ` set (sessions (re_table e)) \<Longrightarrow> actor_ok (re_actors e i)"
    and run: "\<And>i. wa_child (re_actors e i) \<noteq> None \<Longrightarrow> i \<in> snd ` set (sessions (re_table e))"
    using ok sessions_snd_set by (auto simp: resident_ok_def)
  let ?spec = "engine_spec g catalog request"
  let ?art = "bindE ?spec (\<lambda>_. Inr ())" and ?miss = "snd (table_get is_alive key (re_table e)) = None"
  obtain t r stopped where sa: "session_actor is_alive ?art fresh ?n key (re_table e) = Some (t, r, stopped)"
    and t: "table_ok t" "length (sessions t) \<le> ?n" "\<forall>actor. r = Inr actor \<longrightarrow> map_of (sessions t) key = Some actor"
    and sub: "snd ` set (sessions t) \<subseteq> snd ` set (sessions (re_table e)) \<union> (if ?miss \<and> is_ok ?art then {fresh} else {})"
    and fr: "?miss \<longrightarrow> (is_ok r \<longleftrightarrow> is_ok ?art) \<and> (is_ok r \<longrightarrow> r = Inr fresh)"
    and none: "\<not> is_ok r \<longrightarrow> map_of (sessions t) key = None"
    using session_actor_ok [OF tok(1,2) pos, where al = is_alive and artifact = ?art and fresh = fresh and key = key] by metis
  have frame: "distinct (map snd (sessions t))"
    "snd ` set (sessions (re_table e)) \<subseteq> snd ` set (sessions t) \<union> set stopped \<union> {i. \<not> is_alive i}"
    "set stopped \<inter> snd ` set (sessions t) = {}"
    "\<And>k a. k \<noteq> key \<Longrightarrow> map_of (sessions t) k = Some a \<Longrightarrow> map_of (sessions (re_table e)) k = Some a"
    using session_actor_frame [OF tok(1) pos tok(3) new [unfolded snd] sa] by auto
  note maps = map_of_sessions [OF t(1)] map_of_sessions [OF tok(1)]
  define halted where "halted = settled_actors is_alive stopped (re_actors e)"
  have hok: "actor_ok (halted i)" if "i \<in> snd ` set (sessions (re_table e))" for i
    unfolding halted_def by (rule settled_actors_ok(1), rule aok [OF that])
  have hrun: "i \<in> snd ` set (sessions t)" if "wa_child (halted i) \<noteq> None" for i
    using settled_actors_ok(2) [OF that [unfolded halted_def]] run [of i] frame(2) by blast
  have hsame: "halted i = (if is_alive i then re_actors e i else actor_dropped (re_actors e i))" if "i \<in> snd ` set (sessions t)" for i
    unfolding halted_def using that frame(3) by (intro settled_actors_ok(3)) blast
  have old: "i \<noteq> fresh" if "map_of (sessions (re_table e)) k = Some i" for k i
    using that new snd by (force dest!: map_of_SomeD)
  show ?thesis
  proof (cases r)
    case (Inl err)
    then have s0: "stopped = []" using sa by (auto simp: session_actor_def split: prod.splits option.splits sum.splits)
    then have "complete_resident g catalog is_alive fresh ask key request e = Some (\<lparr>re_table = t, re_actors = halted\<rparr>, Inl err)"
      using sa Inl by (simp add: complete_resident_def Let_def halted_def)
    moreover have "snd ` set (sessions t) \<subseteq> snd ` set (sessions (re_table e))" using sub fr Inl by (auto split: if_splits)
    then have "resident_ok ?n \<lparr>re_table = t, re_actors = halted\<rparr>"
      using hok hrun by (intro resident_okI(1) [OF t(1,2) frame(1)]) blast+
    moreover have "request_settled is_alive key e \<lparr>re_table = t, re_actors = halted\<rparr> (Inl err)"
    proof -
      have "map_of (sessions (re_table e)) k = Some i \<and> halted i = (if is_alive i then re_actors e i else actor_dropped (re_actors e i))"
        if "k \<noteq> key" "map_of (sessions t) k = Some i" for k i
      proof -
        have "i \<in> snd ` set (sessions t)" using that(2) by (force dest: map_of_SomeD)
        then show ?thesis using frame(4) [OF that] hsame by simp
      qed
      then show ?thesis using none Inl maps by (simp add: request_settled_def)
    qed
    ultimately show ?thesis by blast
  next
    case (Inr actor)
    define spawned where "spawned = (case (snd (table_get is_alive key (re_table e)), ?spec) of
        (None, Inr sp) \<Rightarrow> halted(fresh := actor_new key sp) | _ \<Rightarrow> halted)"
    have there: "map_of (sessions t) key = Some actor" using t(3) Inr by simp
    have start: "spawned = halted \<and> snd ` set (sessions t) \<subseteq> snd ` set (sessions (re_table e))
        \<or> actor = fresh \<and> (\<exists>sp. spawned = halted(fresh := actor_new key sp))"
    proof (cases "?miss \<and> is_ok ?art")
      case True
      moreover from this have "actor = fresh" using fr Inr by simp
      ultimately show ?thesis by (cases ?spec) (auto simp: spawned_def)
    next
      case False
      then have "spawned = halted" by (cases ?spec; cases "snd (table_get is_alive key (re_table e))") (auto simp: spawned_def)
      then show ?thesis using False sub by auto
    qed
    have oks: "actor_ok (spawned i)" if "i \<in> snd ` set (sessions t)" for i
    proof (cases "i = fresh \<and> (\<exists>sp. spawned = halted(fresh := actor_new key sp))")
      case True
      then show ?thesis by (auto simp: actor_new_def actor_ok_def)
    next
      case False
      then have "spawned i = halted i" using start by auto
      moreover have "i \<in> snd ` set (sessions (re_table e))" using False start that sub by (auto split: if_splits)
      ultimately show ?thesis using hok by simp
    qed
    have runs: "i \<in> snd ` set (sessions t)" if c: "wa_child (spawned i) \<noteq> None" for i
    proof -
      have "spawned i = halted i" using start c by (auto simp: actor_new_def split: if_splits)
      then show ?thesis using hrun c by simp
    qed
    have apart: "i \<noteq> actor" if "k \<noteq> key" "map_of (sessions t) k = Some i" for k i
    proof
      assume "i = actor"
      then have "(k, actor) \<in> set (sessions t)" "(key, actor) \<in> set (sessions t)" using that(2) there by (auto dest: map_of_SomeD)
      then show False using frame(1) that(1) by (fastforce simp: distinct_map inj_on_def)
    qed
    have same: "map_of (sessions (re_table e)) k = Some i \<and> (spawned(actor := x)) i = (if is_alive i then re_actors e i else actor_dropped (re_actors e i))"
      if "k \<noteq> key" "map_of (sessions t) k = Some i" for k i x
    proof -
      have "i \<in> snd ` set (sessions t)" using that(2) by (force dest: map_of_SomeD)
      then show ?thesis
        using start apart [OF that] frame(4) [OF that] hsame [of i] old [of k i] by auto
    qed
    have in_t: "actor \<in> snd ` set (sessions t)" using there by (force dest: map_of_SomeD)
    have done_ok: "resident_ok ?n \<lparr>re_table = t, re_actors = spawned(actor := x)\<rparr>"
        "wa_child x = None \<Longrightarrow> resident_ok ?n \<lparr>re_table = table_remove key t, re_actors = spawned(actor := x)\<rparr>" if "actor_ok x" for x
      using oks runs in_t that there
      by (intro resident_okI(1) [OF t(1,2) frame(1)] resident_okI(2) [OF t(1,2) frame(1) _ _ there]; auto split: if_splits)+
    have settled: "wa_child x \<noteq> None \<Longrightarrow> request_settled is_alive key e \<lparr>re_table = t, re_actors = spawned(actor := x)\<rparr> res"
        "\<not> is_ok res \<Longrightarrow> request_settled is_alive key e \<lparr>re_table = table_remove key t, re_actors = spawned(actor := x)\<rparr> res" for x res
      using same there maps by (simp_all add: request_settled_def map_of_table_remove)
    have cr: "complete_resident g catalog is_alive fresh ask key request e =
        (case ask of
             Inl err \<Rightarrow> Some (\<lparr>re_table = table_remove key t, re_actors = spawned(actor := actor_dropped (spawned actor))\<rparr>,
                              Inl (Transport (''weightc session '' @ key @ '' actor is unavailable: '' @ err)))
           | Inr env \<Rightarrow>
               map_option (\<lambda>(a, _, out).
                 (\<lparr>re_table = (if to_alive out then t else table_remove key t), re_actors = spawned(actor := a)\<rparr>, to_result out))
                 (handle_turn env \<lparr>sn_prompt = cr_prompt request, sn_system = None\<rparr> (spawned actor)))"
      unfolding complete_resident_def sa option.case prod.case Inr sum.case Let_def spawned_def halted_def by (rule refl)
    show ?thesis
    proof (cases ask)
      case (Inl err)
      have "actor_ok (actor_dropped (spawned actor))" "wa_child (actor_dropped (spawned actor)) = None"
        by (simp_all add: actor_dropped_def actor_ok_def)
      then show ?thesis using cr Inl done_ok(2) settled(2) by simp
    next
      case (Inr env')
      obtain a' line out where h: "handle_turn env' \<lparr>sn_prompt = cr_prompt request, sn_system = None\<rparr> (spawned actor) = Some (a', line, out)"
        "actor_ok a'" "to_alive out \<longleftrightarrow> wa_child a' \<noteq> None" "is_ok (to_result out) \<longrightarrow> to_alive out"
        using handle_turn_ok [OF oks [OF in_t]] by blast
      then show ?thesis
        using cr Inr done_ok [OF h(2)] settled [where x = a' and res = "to_result out"] by (cases "to_alive out") auto
    qed
  qed
qed

text \<open>
  C34 A request keeps the engine's resident sessions well typed and leaks no child. For every
  configuration and every behaviour of the catalogue, the operating system, the child and the actor
  system, a request on a consistent engine completes without a panic (the pipes a turn expects are
  there), leaves at most the configured number of sessions, each with a child and both its pipes or
  none of the three, and leaves no child running that is not the child of a session of the table. A
  request that names a session keeps it under its key exactly when its child is still running: when
  the key has a session, its child runs, and when the session is gone the request failed and the
  child was killed, so that the next request starts afresh. The sessions under other keys that were
  not evicted are as they were. Every other request leaves the sessions as they are. A shutdown
  leaves no child at all. Any number of blank lines before a receipt is skipped, each with a new
  time limit.
\<close>
theorem resident_request_well_typed:
  assumes "g = engine_new config mailbox_capacity" and "resident_ok (we_max_sessions g) e"
    and "fresh \<notin> snd ` set (st_actors (re_table e))"
  shows "\<exists>e' r. weightc_complete g catalog is_alive fresh ask process elapsed request e = Some (e', r)
     \<and> resident_ok (we_max_sessions g) e'
     \<and> (\<forall>i. wa_child (re_actors e' i) \<noteq> None \<longrightarrow> i \<in> snd ` set (st_actors (re_table e')))
     \<and> (case (resident_sessions config, cr_session_key request) of
          (True, Some key) \<Rightarrow> request_settled is_alive key e e' r
        | _ \<Rightarrow> e' = e)
     \<and> (\<forall>i. wa_child (re_actors (weightc_shutdown e') i) = None)
     \<and> read_receipt env (replicate n (ReadLine [CHR 0x0A]) @ events) a = read_receipt env events a"
proof -
  have g: "0 < we_max_sessions g" "we_resident_sessions g = resident_sessions config" using assms(1) by (simp_all add: engine_new_def)
  have kept: "\<forall>i. wa_child (re_actors e' i) \<noteq> None \<longrightarrow> i \<in> snd ` set (st_actors (re_table e'))"
    if "resident_ok (we_max_sessions g) e'" for e' using that by (simp add: resident_ok_def)
  have down: "\<forall>i. wa_child (re_actors (weightc_shutdown e') i) = None" if "resident_ok (we_max_sessions g) e'" for e'
    using kept [OF that] by (auto simp: weightc_shutdown_def table_drain_def handle_stop_def teardown_def)
  show ?thesis
  proof (cases "resident_sessions config \<and> cr_session_key request \<noteq> None")
    case True
    then obtain key where key: "cr_session_key request = Some key" by blast
    with True have c: "weightc_complete g catalog is_alive fresh ask process elapsed request e = complete_resident g catalog is_alive fresh ask key request e"
      using g(2) by (simp add: weightc_complete_def)
    obtain e' r where "complete_resident g catalog is_alive fresh ask key request e = Some (e', r)"
      "resident_ok (we_max_sessions g) e'" "request_settled is_alive key e e' r"
      using complete_resident_ok [OF g(1) assms(2,3), of catalog is_alive ask key request] by blast
    then show ?thesis using True key c down [of e'] kept [of e'] read_receipt_blank by simp
  next
    case False
    then have "weightc_complete g catalog is_alive fresh ask process elapsed request e = Some (e, complete_one_shot g catalog process elapsed)"
      using g(2) by (auto simp: weightc_complete_def split: bool.splits option.splits)
    then show ?thesis using False assms(2) down [OF assms(2)] kept [OF assms(2)] read_receipt_blank
      by (auto split: bool.splits option.splits)
  qed
qed

text \<open>An engine with one resident session whose child, process 7, times out: the request fails, the
  session is gone and its child is killed.\<close>

definition demo_resident_config :: inference_config where
  "demo_resident_config = default_inference\<lparr>resident_sessions := True, default_model := ''m''\<rparr>"

definition demo_resident :: resident where
  "demo_resident =
     \<lparr>re_table = \<lparr>st_actors = [(''k'', 0)], st_recency = [''k'']\<rparr>,
      re_actors = (\<lambda>i. (actor_new ''k'' \<lparr>ss_binary = ''weightc'', ss_artifact = ''m.wc'', ss_sampling = [], ss_timeout_secs = 5, ss_model = ''m''\<rparr>)
        \<lparr>wa_child := if i = 0 then Some 7 else None, wa_stdin := if i = 0 then Some 7 else None, wa_stdout := if i = 0 then Some 7 else None\<rparr>)\<rparr>"

definition demo_completion_request :: completion_request where
  "demo_completion_request = \<lparr>cr_prompt = ''hi'', cr_max_tokens = None, cr_temperature = None, cr_seed = None, cr_session_key = Some ''k''\<rparr>"

definition demo_turn_env :: "read_event list \<Rightarrow> turn_env" where
  "demo_turn_env events =
     \<lparr>te_spawn = Inr 7, te_write = (\<lambda>_. Inr ()), te_events = events, te_encode = (\<lambda>p s. p),
      te_decode = (\<lambda>_. Inr \<lparr>sl_response = Some ''ok'', sl_text = None, sl_output = None, sl_tokens_per_second = None, sl_elapsed_ms = Some 3,
                  sl_prompt_tokens = None, sl_completion_tokens = None, sl_error = None\<rparr>), te_elapsed = 4\<rparr>"


lemma demo_resident_consistent: "resident_ok (we_max_sessions (engine_new demo_resident_config 8)) demo_resident"
  by (simp add: resident_ok_def demo_resident_def table_ok_def sessions_def actor_ok_def actor_new_def engine_new_def
      demo_resident_config_def default_inference_def)

lemma demo_resident_runs:
  "map_option (\<lambda>(e, r). (re_table e, is_ok r)) (weightc_complete (engine_new demo_resident_config 8) Inr (\<lambda>_. True) 1
     (Inr (demo_turn_env [ReadTimeout])) AskTimeout 0 demo_completion_request demo_resident) = Some (table_default, False)"
  "map_option (\<lambda>(e, r). (re_table e, is_ok r)) (weightc_complete (engine_new demo_resident_config 8) Inr (\<lambda>_. True) 1
     (Inr (demo_turn_env [ReadLine [CHR 0x0A], ReadLine ''ok''])) AskTimeout 0 demo_completion_request demo_resident)
     = Some (re_table demo_resident, True)"
proof -
  have t: "trim ''m'' = ''m''" "trim [CHR 0x0A] = []" "trim ''ok'' = ''ok''" by code_simp+
  note run = weightc_complete_def complete_resident_def session_actor_def table_get_def table_touch_def table_remove_def table_default_def
    engine_new_def engine_spec_def engine_artifact_dir_def demo_resident_def demo_resident_config_def default_inference_def demo_completion_request_def
    demo_turn_env_def actor_new_def settled_actors_def handle_turn_def turn_def ensure_child_def write_line_def failure_broken_def parse_receipt_def Let_def
  show "map_option (\<lambda>(e, r). (re_table e, is_ok r)) (weightc_complete (engine_new demo_resident_config 8) Inr (\<lambda>_. True) 1
     (Inr (demo_turn_env [ReadTimeout])) AskTimeout 0 demo_completion_request demo_resident) = Some (table_default, False)"
    by (simp add: run t read_receipt.simps)
  show "map_option (\<lambda>(e, r). (re_table e, is_ok r)) (weightc_complete (engine_new demo_resident_config 8) Inr (\<lambda>_. True) 1
     (Inr (demo_turn_env [ReadLine [CHR 0x0A], ReadLine ''ok''])) AskTimeout 0 demo_completion_request demo_resident)
     = Some (re_table demo_resident, True)"
    by (simp add: run t read_receipt.simps)
qed

theorem resident_request_well_typed_witness:
  "(\<exists>e r. weightc_complete (engine_new demo_resident_config 8) Inr (\<lambda>_. True) 1
        (Inr (demo_turn_env [ReadTimeout])) AskTimeout 0 demo_completion_request demo_resident = Some (e, Inl r)
      \<and> (\<forall>i. wa_child (re_actors e i) = None))
   \<and> (\<exists>e c. weightc_complete (engine_new demo_resident_config 8) Inr (\<lambda>_. True) 1
        (Inr (demo_turn_env [ReadLine [CHR 0x0A], ReadLine ''ok''])) AskTimeout 0 demo_completion_request demo_resident = Some (e, Inr c)
      \<and> wa_child (re_actors e 0) \<noteq> None)"
proof -
  have new: "1 \<notin> snd ` set (st_actors (re_table demo_resident))" by (simp add: demo_resident_def)
  have key: "resident_sessions demo_resident_config" "cr_session_key demo_completion_request = Some ''k''"
    by (simp_all add: demo_resident_config_def demo_completion_request_def)
  note use = resident_request_well_typed [OF refl demo_resident_consistent new, where catalog = Inr and is_alive = "\<lambda>_. True"
    and process = AskTimeout and elapsed = 0 and request = demo_completion_request]
  show ?thesis
  proof
    obtain e r where h: "weightc_complete (engine_new demo_resident_config 8) Inr (\<lambda>_. True) 1
        (Inr (demo_turn_env [ReadTimeout])) AskTimeout 0 demo_completion_request demo_resident = Some (e, r)"
      "re_table e = table_default" "\<not> is_ok r" using demo_resident_runs(1) by auto
    then obtain err where "r = Inl err" by (cases r) auto
    with h use [where ask = "Inr (demo_turn_env [ReadTimeout])"]
    show "\<exists>e r. weightc_complete (engine_new demo_resident_config 8) Inr (\<lambda>_. True) 1
        (Inr (demo_turn_env [ReadTimeout])) AskTimeout 0 demo_completion_request demo_resident = Some (e, Inl r)
      \<and> (\<forall>i. wa_child (re_actors e i) = None)"
      by (auto simp: table_default_def)
    obtain e r where h: "weightc_complete (engine_new demo_resident_config 8) Inr (\<lambda>_. True) 1
        (Inr (demo_turn_env [ReadLine [CHR 0x0A], ReadLine ''ok''])) AskTimeout 0 demo_completion_request demo_resident = Some (e, r)"
      "re_table e = re_table demo_resident" "is_ok r" using demo_resident_runs(2) by auto
    then obtain c where "r = Inr c" by (cases r) auto
    with h key use [where ask = "Inr (demo_turn_env [ReadLine [CHR 0x0A], ReadLine ''ok''])"]
    show "\<exists>e c. weightc_complete (engine_new demo_resident_config 8) Inr (\<lambda>_. True) 1
        (Inr (demo_turn_env [ReadLine [CHR 0x0A], ReadLine ''ok''])) AskTimeout 0 demo_completion_request demo_resident = Some (e, Inr c)
      \<and> wa_child (re_actors e 0) \<noteq> None"
      by (auto simp: request_settled_def demo_resident_def)
  qed
qed

end
