(* ===== verification/Provider_Registry.thy ===== *)
theory Provider_Registry
  imports Application_Plan
begin

text \<open>
  Provider selection of \<open>src/holo_provider.rs\<close>: the registry of layer providers, its construction, and
  the choice of a provider for a layer. A provider is a trait object, so it is the record of what the
  host asks of it. What \<open>prepare\<close> answers may depend on everything that happened before, the trace of
  calls; it gives the position the new instance reports.
\<close>

section \<open>Providers\<close>

datatype provider_target = Direct | Resident

fun target_name :: "provider_target \<Rightarrow> string" where
  "target_name Direct = ''direct''"
| "target_name Resident = ''resident''"

text \<open>The intent handler given to a layer is named by its application's place in the order of
  preparation.\<close>

record layer_prepare_context =
  px_identity :: holo_identity
  px_grant :: effective_grant
  px_requested :: capability_object
  px_layer :: resolved_layer
  px_target :: provider_target
  px_intents :: nat

text \<open>The calls made to providers and to the layers they prepared; an instance is its place in the
  order of successful preparations.\<close>

datatype layer_event =
    Prepared layer_prepare_context
  | PrepareFailed layer_prepare_context
  | Started nat
  | StartFailed nat
  | StopDone nat
  | StopFailed nat
  | Invoked nat "bytes list"

type_synonym layer_trace = "layer_event list"

record layer_provider =
  lp_kind :: layer_kind
  lp_contract :: "string option"
  lp_name :: string
  lp_availability :: "provider_context \<Rightarrow> provider_target \<Rightarrow> string + unit"
  lp_prepare :: "layer_trace \<Rightarrow> layer_prepare_context \<Rightarrow> nat live_result"

record provider_registry =
  reg_target :: provider_target
  reg_providers :: "layer_provider list"

section \<open>The registry\<close>

definition same_selector :: "layer_provider \<Rightarrow> layer_provider \<Rightarrow> bool" where
  "same_selector p q \<longleftrightarrow> lp_kind p = lp_kind q \<and> lp_contract p = lp_contract q"

definition check_contract :: "wasm_contracts \<Rightarrow> provider_target \<Rightarrow> layer_provider \<Rightarrow> unit live_result" where
  "check_contract wc target p =
     (if lp_kind p = WasmCodemodule then
        bindE (ok_or (Config (target_name target @ '' Wasm provider '' @ lp_name p @ '' has no guest contract selector'')) (lp_contract p)) (\<lambda>contract.
        bindE (map_err Config (normalize_wasm_contract wc contract)) (\<lambda>normalized.
          if normalized \<noteq> contract
          then Inl (Config (target_name target @ '' Wasm provider '' @ lp_name p @ '' must declare the explicit canonical contract '' @ normalized))
          else Inr ()))
      else Inr ())"

fun check_providers :: "wasm_contracts \<Rightarrow> provider_target \<Rightarrow> layer_provider list \<Rightarrow> layer_provider list \<Rightarrow> unit live_result" where
  "check_providers wc target earlier [] = Inr ()"
| "check_providers wc target earlier (p # ps) =
     bindE (check_contract wc target p) (\<lambda>_.
       if list_ex (\<lambda>q. same_selector q p) earlier then
         Inl (Config (''duplicate '' @ target_name target @ '' provider for '' @ layer_kind_name (lp_kind p) @ '' layers''
               @ (case lp_contract p of Some c \<Rightarrow> '' using contract '' @ c | None \<Rightarrow> [])))
       else if lp_kind p \<noteq> WasmCodemodule \<and> lp_contract p \<noteq> None then
         Inl (Config (target_name target @ '' provider '' @ lp_name p @ '' declares a Wasm contract for '' @ layer_kind_name (lp_kind p) @ '' layers''))
       else check_providers wc target (earlier @ [p]) ps)"

definition providers_new :: "wasm_contracts \<Rightarrow> provider_target \<Rightarrow> layer_provider list \<Rightarrow> provider_registry live_result" where
  "providers_new wc target ps = bindE (check_providers wc target [] ps) (\<lambda>_. Inr \<lparr>reg_target = target, reg_providers = ps\<rparr>)"

definition provider_select :: "wasm_contracts \<Rightarrow> provider_registry \<Rightarrow> layer_kind \<Rightarrow> string \<Rightarrow> string + layer_provider option" where
  "provider_select wc reg kind aux =
     bindE (if kind = WasmCodemodule then bindE (normalize_wasm_contract wc aux) (\<lambda>c. Inr (Some c)) else Inr None) (\<lambda>contract.
       Inr (find (\<lambda>p. lp_kind p = kind \<and> lp_contract p = contract) (reg_providers reg)))"

text \<open>The name of a guest contract in a message.\<close>

definition contract_or_aux :: "wasm_contracts \<Rightarrow> string \<Rightarrow> string" where
  "contract_or_aux wc aux = (case normalize_wasm_contract wc aux of Inr c \<Rightarrow> c | Inl _ \<Rightarrow> aux)"

definition no_provider_reason :: "wasm_contracts \<Rightarrow> provider_registry \<Rightarrow> provider_context \<Rightarrow> string" where
  "no_provider_reason wc reg c =
     (if pc_kind c = InferenceModel then
        ''inference provider for service '' @ pc_entry c @ '' ('' @ pc_aux c @ '') is not connected to '' @ target_name (reg_target reg) @ '' execution''
      else if pc_kind c = WasmCodemodule then
        target_name (reg_target reg) @ '' execution has no provider for Wasm guest contract '' @ contract_or_aux wc (pc_aux c)
          @ '' (entry '' @ pc_entry c @ '')''
      else target_name (reg_target reg) @ '' execution has no provider for '' @ layer_kind_name (pc_kind c) @ '' layer entry '' @ pc_entry c)"

definition registry_availability :: "wasm_contracts \<Rightarrow> provider_registry \<Rightarrow> provider_context \<Rightarrow> provider_availability" where
  "registry_availability wc reg c =
     (case provider_select wc reg (pc_kind c) (pc_aux c) of
        Inl reason \<Rightarrow> Unavailable reason
      | Inr None \<Rightarrow> Unavailable (no_provider_reason wc reg c)
      | Inr (Some p) \<Rightarrow>
          (case lp_availability p c (reg_target reg) of
             Inr _ \<Rightarrow> Available (lp_name p)
           | Inl reason \<Rightarrow> Unavailable reason))"

definition registry_evaluate :: "wasm_contracts \<Rightarrow> provider_registry \<Rightarrow> plan_report \<Rightarrow> plan_report" where
  "registry_evaluate wc reg r = evaluate_providers (registry_availability wc reg) r"

section \<open>Which registries are accepted\<close>

definition selector :: "layer_provider \<Rightarrow> layer_kind \<times> string option" where
  "selector p = (lp_kind p, lp_contract p)"

definition selector_ok :: "wasm_contracts \<Rightarrow> layer_provider \<Rightarrow> bool" where
  "selector_ok wc p \<longleftrightarrow> (case lp_contract p of
      None \<Rightarrow> lp_kind p \<noteq> WasmCodemodule
    | Some c \<Rightarrow> lp_kind p = WasmCodemodule \<and> c \<in> set (contract_list wc))"

lemma normalize_cases:
  "normalize_wasm_contract wc v = (if v \<in> set (contract_list wc) then Inr v else normalize_wasm_contract wc v)"
  using normalize_wasm_contract_Inr by auto

lemma check_contract_ok:
  "check_contract wc target p = Inr u \<longleftrightarrow> (lp_kind p = WasmCodemodule \<longrightarrow> (\<exists>c. lp_contract p = Some c \<and> c \<in> set (contract_list wc)))"
  by (cases "lp_contract p") (auto simp: check_contract_def bindE_eq_Inr normalize_wasm_contract_Inr map_err_eq_Inr)

lemma check_providers_ok:
  "check_providers wc target earlier ps = Inr u \<longleftrightarrow>
     list_all (selector_ok wc) ps \<and> distinct (map selector ps) \<and> selector ` set ps \<inter> selector ` set earlier = {}"
proof (induction ps arbitrary: earlier)
  case (Cons p ps)
  have dup: "list_ex (\<lambda>q. same_selector q p) earlier \<longleftrightarrow> selector p \<in> selector ` set earlier"
    by (auto simp: list_ex_iff same_selector_def selector_def image_iff) metis
  have sel: "selector_ok wc p \<longleftrightarrow> check_contract wc target p = Inr () \<and> \<not> (lp_kind p \<noteq> WasmCodemodule \<and> lp_contract p \<noteq> None)"
    by (auto simp: selector_ok_def check_contract_ok split: option.splits)
  have "check_providers wc target earlier (p # ps) = Inr u \<longleftrightarrow>
      check_contract wc target p = Inr () \<and> selector p \<notin> selector ` set earlier
      \<and> \<not> (lp_kind p \<noteq> WasmCodemodule \<and> lp_contract p \<noteq> None) \<and> check_providers wc target (earlier @ [p]) ps = Inr u"
    by (auto simp: bindE_eq_Inr dup)
  then show ?case unfolding Cons.IH by (auto simp: sel)
qed simp

text \<open>
  Provider selection is exact. A registry is accepted exactly when every Wasm provider names a
  canonical guest contract, no other provider names one, and no two providers answer for the same kind
  and contract. In an accepted registry a layer is available under a name exactly when a provider of
  that name answers for its kind and (for Wasm) its contract and says so itself, and then it is the only
  one; a Wasm layer with an unknown contract is never available.
\<close>
theorem provider_selection_exact:
  "((\<exists>reg. providers_new wc target ps = Inr reg) \<longleftrightarrow> list_all (selector_ok wc) ps \<and> distinct (map selector ps))
   \<and> (providers_new wc target ps = Inr reg \<longrightarrow>
        (registry_availability wc reg c = Available name \<longleftrightarrow>
           (\<exists>!p. p \<in> set ps \<and> lp_kind p = pc_kind c \<and> (pc_kind c = WasmCodemodule \<longrightarrow> lp_contract p = Some (pc_aux c)))
           \<and> (\<exists>p \<in> set ps. lp_kind p = pc_kind c \<and> (pc_kind c = WasmCodemodule \<longrightarrow> lp_contract p = Some (pc_aux c))
                \<and> lp_name p = name \<and> lp_availability p c target = Inr ())))"
  (is "?new \<and> (_ \<longrightarrow> ?sel)")
proof (intro conjI impI)
  show ?new by (simp add: providers_new_def bindE_eq_Inr check_providers_ok)
next
  assume "providers_new wc target ps = Inr reg"
  then have reg: "reg_target reg = target" "reg_providers reg = ps" and ok: "list_all (selector_ok wc) ps" and d: "distinct (map selector ps)"
    by (auto simp: providers_new_def bindE_eq_Inr check_providers_ok)
  let ?m = "\<lambda>p. lp_kind p = pc_kind c \<and> (pc_kind c = WasmCodemodule \<longrightarrow> lp_contract p = Some (pc_aux c))"
  have contract: "p \<in> set ps \<Longrightarrow> lp_kind p \<noteq> WasmCodemodule \<Longrightarrow> lp_contract p = None" for p
    using ok by (auto simp: list_all_iff selector_ok_def split: option.splits)
  have known: "p \<in> set ps \<Longrightarrow> lp_kind p = WasmCodemodule \<Longrightarrow> lp_contract p = Some a \<Longrightarrow> a \<in> set (contract_list wc)" for p a
    using ok by (auto simp: list_all_iff selector_ok_def)
  have uniq: "p = q" if "p \<in> set ps" "q \<in> set ps" "?m p" "?m q" for p q
  proof -
    have "selector p = selector q" using that contract [of p] contract [of q] by (cases "pc_kind c = WasmCodemodule") (auto simp: selector_def)
    then show ?thesis using d that by (auto simp: distinct_map inj_on_def)
  qed
  have sel: "provider_select wc reg (pc_kind c) (pc_aux c) = Inr (Some p) \<longleftrightarrow> p \<in> set ps \<and> ?m p" for p
  proof
    assume "provider_select wc reg (pc_kind c) (pc_aux c) = Inr (Some p)"
    then show "p \<in> set ps \<and> ?m p"
      by (auto simp: provider_select_def bindE_eq_Inr reg find_Some_iff normalize_wasm_contract_Inr split: if_splits)
  next
    assume p: "p \<in> set ps \<and> ?m p"
    let ?k = "if pc_kind c = WasmCodemodule then Some (pc_aux c) else None"
    have eq: "q \<in> set ps \<Longrightarrow> (lp_kind q = pc_kind c \<and> lp_contract q = ?k) = ?m q" for q using contract [of q] by auto
    have "find (\<lambda>q. lp_kind q = pc_kind c \<and> lp_contract q = ?k) ps = Some p"
    proof (cases "find (\<lambda>q. lp_kind q = pc_kind c \<and> lp_contract q = ?k) ps")
      case None
      then show ?thesis using p eq [of p] by (auto simp: find_None_iff)
    next
      case (Some q)
      then have "q \<in> set ps" "?m q" using eq by (auto simp: find_Some_iff)
      then show ?thesis using Some uniq p by metis
    qed
    moreover have "pc_kind c = WasmCodemodule \<Longrightarrow> normalize_wasm_contract wc (pc_aux c) = Inr (pc_aux c)"
      using known [of p "pc_aux c"] p by (simp add: normalize_wasm_contract_Inr)
    ultimately show "provider_select wc reg (pc_kind c) (pc_aux c) = Inr (Some p)"
      by (auto simp: provider_select_def reg)
  qed
  have "registry_availability wc reg c = Available name \<longleftrightarrow>
      (\<exists>p. provider_select wc reg (pc_kind c) (pc_aux c) = Inr (Some p) \<and> lp_name p = name \<and> lp_availability p c target = Inr ())"
    by (auto simp: registry_availability_def reg split: sum.splits option.splits)
  then show ?sel unfolding sel using uniq by blast
qed

theorem provider_selection_exact_witness:
  "let wc = \<lparr>wc_core = ''a'', wc_component = ''b'', wc_store_read = ''c'', wc_store_graph_read = ''d'', wc_store_write = ''e'',
              wc_channel_publish = ''f'', wc_channel_subscribe = ''g'', wc_network_fetch = ''h''\<rparr>;
       p = \<lparr>lp_kind = ViewLayer, lp_contract = None, lp_name = ''view'', lp_availability = (\<lambda>_ _. Inr ()), lp_prepare = (\<lambda>_ _. Inr 0)\<rparr>;
       reg = \<lparr>reg_target = Direct, reg_providers = [p]\<rparr>;
       c = \<lparr>pc_application_kappa = ''a'', pc_position = 0, pc_kind = ViewLayer, pc_entry = ''e'', pc_aux = [], pc_primary = True,
            pc_layer_count = 1, pc_content = []\<rparr>
   in providers_new wc Direct [p] = Inr reg \<and> registry_availability wc reg c = Available ''view''"
proof -
  let ?p = "\<lparr>lp_kind = ViewLayer, lp_contract = None, lp_name = ''view'', lp_availability = (\<lambda>_ _. Inr ()), lp_prepare = (\<lambda>_ _. Inr 0)\<rparr>"
  have new: "providers_new wc Direct [?p] = Inr \<lparr>reg_target = Direct, reg_providers = [?p]\<rparr>" for wc
    by (simp add: providers_new_def check_contract_def)
  show ?thesis unfolding Let_def
    using provider_selection_exact [where target = Direct and ps = "[?p]" and reg = "\<lparr>reg_target = Direct, reg_providers = [?p]\<rparr>"] new by (simp, intro ex1I conjI refl) auto
qed

section \<open>A plan made with a registry\<close>

text \<open>When the layers of a plan were evaluated by a registry, selecting again finds the provider the
  plan names.\<close>

definition layer_served :: "wasm_contracts \<Rightarrow> provider_registry \<Rightarrow> resolved_layer \<Rightarrow> bool" where
  "layer_served wc reg l \<longleftrightarrow> (\<exists>p. provider_select wc reg (rl_kind l) (rl_aux l) = Inr (Some p) \<and> lp_name p = rl_provider l)"

lemma availability_served:
  assumes "registry_availability wc reg c = Available v"
  shows "\<exists>p. provider_select wc reg (pc_kind c) (pc_aux c) = Inr (Some p) \<and> lp_name p = v"
  using assms by (auto simp: registry_availability_def split: sum.splits option.splits)

lemma evaluate_layer_set_served:
  assumes "evaluate_layer_set (registry_availability wc reg) app n obs ls bs = (ls', bs')" and "mapE (strict_layer app obs) ls' = Inr rls"
  shows "list_all (layer_served wc reg) rls"
  using assms
proof (induction ls arbitrary: bs ls' rls)
  case (Cons l ls)
  show ?case
  proof (cases "map_of obs (pl_content_kappa l)")
    case None
    with Cons.prems show ?thesis by (auto simp: strict_layer_def bindE_eq_Inr split: prod.splits)
  next
    case (Some ob)
    with Cons.prems(1) obtain ls1 bs1 c where e: "evaluate_layer_set (registry_availability wc reg) app n obs ls bs1 = (ls1, bs')"
      "ls' = l\<lparr>pl_provider := registry_availability wc reg c\<rparr> # ls1" "pc_kind c = pl_kind l" "pc_aux c = pl_aux l"
      by (auto simp: Let_def split: prod.splits)
    with Cons.prems(2) obtain rl rls1 where r: "rls = rl # rls1" "mapE (strict_layer app obs) ls1 = Inr rls1"
      "strict_layer app obs (l\<lparr>pl_provider := registry_availability wc reg c\<rparr>) = Inr rl"
      by (auto simp: bindE_eq_Inr)
    then have "registry_availability wc reg c = Available (rl_provider rl)" "rl_kind rl = pc_kind c" "rl_aux rl = pc_aux c"
      using Some e(3,4) by (auto simp: strict_layer_def split: provider_availability.splits)
    then have "layer_served wc reg rl" using availability_served by (simp add: layer_served_def)
    then show ?thesis using Cons.IH [OF e(1) r(2)] r(1) by simp
  qed
qed simp

lemma evaluate_admissions_served:
  assumes "evaluate_admissions (registry_availability wc reg) obs as bs = (as', bs')" and "mapE (strict_child obs) as' = Inr cs"
  shows "list_all (\<lambda>c. list_all (layer_served wc reg) (rc_layers c)) cs"
  using assms
proof (induction as arbitrary: bs as' cs)
  case (Cons a as)
  obtain ls bs1 where e: "evaluate_layer_set (registry_availability wc reg) (ca_application_kappa a) (length (ca_layers a)) obs (ca_layers a) bs = (ls, bs1)" by force
  with Cons.prems(1) obtain as1 where a: "evaluate_admissions (registry_availability wc reg) obs as bs1 = (as1, bs')" "as' = a\<lparr>ca_layers := ls\<rparr> # as1"
    by (auto split: prod.splits)
  with Cons.prems(2) obtain c cs1 where c: "cs = c # cs1" "mapE (strict_child obs) as1 = Inr cs1" "strict_child obs (a\<lparr>ca_layers := ls\<rparr>) = Inr c"
    by (auto simp: bindE_eq_Inr)
  then have "mapE (strict_layer (ca_application_kappa a) obs) ls = Inr (rc_layers c)"
    by (auto simp: strict_child_def strict_layers_def bindE_eq_Inr)
  then show ?case using evaluate_layer_set_served [OF e] Cons.IH [OF a(1) c(2)] c(1) by simp
qed simp

definition plan_served :: "wasm_contracts \<Rightarrow> provider_registry \<Rightarrow> application_plan \<Rightarrow> bool" where
  "plan_served wc reg p \<longleftrightarrow> list_all (layer_served wc reg) (ap_layers p)
     \<and> list_all (\<lambda>c. list_all (layer_served wc reg) (rc_layers c)) (ap_children p)"

lemma into_plan_served:
  assumes "into_application_plan (registry_evaluate wc reg r) = Inr p"
  shows "plan_served wc reg p"
proof -
  obtain ls bs where e: "evaluate_layer_set (registry_availability wc reg) (application_kappa (pr_identity r)) (length (pr_layers r)) (pr_objects r)
      (pr_layers r) (pr_blockers r) = (ls, bs)" by force
  obtain as bs' where a: "evaluate_admissions (registry_availability wc reg) (pr_objects r) (pr_admissions r) bs = (as, bs')" by force
  have "mapE (strict_layer (application_kappa (pr_identity r)) (pr_objects r)) ls = Inr (ap_layers p)"
    "mapE (strict_child (pr_objects r)) as = Inr (ap_children p)"
    using assms e a by (auto simp: registry_evaluate_def evaluate_providers_def into_application_plan_def strict_layers_def bindE_eq_Inr split: list.splits)
  then show ?thesis using evaluate_layer_set_served [OF e] evaluate_admissions_served [OF a] by (simp add: plan_served_def)
qed

end
