(* ===== verification/Application_Order.thy ===== *)
theory Application_Order
  imports Plan_Properties "HOL-Library.Product_Lexorder"
begin

text \<open>
  The order in which the applications of a plan are prepared (\<open>lifecycle_application_order\<close> in
  \<open>src/holo_provider.rs\<close>): the root, then every child subtree, by a loop over an explicit stack. The loop
  has no bound of its own, so it is a partial function; on the plans the planner produces it ends, and
  gives the preorder of the application tree.
\<close>

section \<open>The loop\<close>

text \<open>The children of an application, as sorted in \<open>children_by_parent\<close>.\<close>

definition children_of :: "resolved_child list \<Rightarrow> nat \<Rightarrow> resolved_child list" where
  "children_of cs i =
     sort_key (\<lambda>c. (rc_position c, rc_application_index c)) (filter (\<lambda>c. rc_parent_application_index c = i) cs)"

text \<open>The stack with its top first: extending by the reversed children puts the first child on top.\<close>

partial_function (option) order_loop :: "resolved_child list \<Rightarrow> nat list \<Rightarrow> nat list \<Rightarrow> nat list option" where
  [code]: "order_loop cs stack order =
     (case stack of
        [] \<Rightarrow> Some order
      | i # rest \<Rightarrow> order_loop cs (map rc_application_index (children_of cs i) @ rest) (order @ [i]))"

definition lifecycle_application_order :: "application_plan \<Rightarrow> nat list live_result option" where
  "lifecycle_application_order p =
     map_option (\<lambda>order.
       if length order \<noteq> length (ap_children p) + 1
       then Inl (Conflict (''runtime lifecycle traversal reached '' @ show_nat (length order) @ '' of ''
                   @ show_nat (length (ap_children p) + 1) @ '' planned applications''))
       else Inr order)
       (order_loop (ap_children p) [0] [])"

section \<open>Specification: the preorder of the tree\<close>

fun preorder :: "nat \<Rightarrow> resolved_child list \<Rightarrow> nat \<Rightarrow> nat list" where
  "preorder 0 cs i = [i]"
| "preorder (Suc n) cs i = i # concat (map (\<lambda>c. preorder n cs (rc_application_index c)) (children_of cs i))"

text \<open>The tree has at most as many levels below the root as there are children.\<close>

definition tree_preorder :: "resolved_child list \<Rightarrow> nat \<Rightarrow> nat list" where
  "tree_preorder cs i = preorder (length cs) cs i"

definition indices :: "resolved_child list \<Rightarrow> nat list" where
  "indices cs = 0 # map rc_application_index cs"

lemma set_children_of [simp]: "set (children_of cs i) = {c \<in> set cs. rc_parent_application_index c = i}"
  by (auto simp: children_of_def)

lemma plan_ordered_distinct: "plan_ordered cs \<Longrightarrow> distinct (indices cs)"
  by (auto simp: plan_ordered_def indices_def)

text \<open>A child stands behind its parent.\<close>

lemma child_behind:
  assumes "plan_ordered cs" "c \<in> set cs" "rc_parent_application_index c = indices cs ! r" "r < length (indices cs)"
  shows "\<exists>s > r. s < length (indices cs) \<and> indices cs ! s = rc_application_index c"
proof -
  obtain j where j: "j < length cs" "cs ! j = c" using assms(2) by (auto simp: in_set_conv_nth)
  have "rc_parent_application_index c \<in> insert 0 (set (map rc_application_index (take j cs)))"
    using assms(1) j by (auto simp: plan_ordered_def)
  moreover have "insert 0 (set (map rc_application_index (take j cs))) = set (take (Suc j) (indices cs))"
    by (simp add: indices_def take_map)
  ultimately have "rc_parent_application_index c \<in> set (take (Suc j) (indices cs))" by blast
  then obtain t where t: "t < Suc j" "t < length (indices cs)" "indices cs ! t = rc_parent_application_index c"
    by (auto simp: in_set_conv_nth)
  with assms(3,4) plan_ordered_distinct [OF assms(1)] have "t = r" by (simp add: nth_eq_iff_index_eq)
  then show ?thesis using t j by (intro exI [of _ "Suc j"]) (auto simp: indices_def)
qed

lemma preorder_stable:
  assumes "plan_ordered cs"
  shows "r < length (indices cs) \<Longrightarrow> length cs \<le> n + r \<Longrightarrow> preorder (Suc n) cs (indices cs ! r) = preorder n cs (indices cs ! r)"
proof (induction n arbitrary: r)
  case 0
  have "children_of cs (indices cs ! r) = []"
  proof (rule ccontr)
    assume "children_of cs (indices cs ! r) \<noteq> []"
    then obtain c where "c \<in> set cs" "rc_parent_application_index c = indices cs ! r"
      using set_children_of [of cs "indices cs ! r"] by (cases "children_of cs (indices cs ! r)") auto
    from child_behind [OF assms this 0(1)] 0 show False by (auto simp: indices_def)
  qed
  then show ?case by simp
next
  case (Suc n)
  have "preorder (Suc n) cs (rc_application_index c) = preorder n cs (rc_application_index c)"
    if "c \<in> set (children_of cs (indices cs ! r))" for c
  proof -
    from that child_behind [OF assms, of c r] Suc.prems(1)
    obtain s where "s > r" "s < length (indices cs)" "indices cs ! s = rc_application_index c" by auto
    with Suc.IH [of s] Suc.prems(2) show ?thesis by auto
  qed
  then have e: "map (\<lambda>c. preorder (Suc n) cs (rc_application_index c)) (children_of cs (indices cs ! r))
      = map (\<lambda>c. preorder n cs (rc_application_index c)) (children_of cs (indices cs ! r))" by simp
  show ?case by (subst (1 2) preorder.simps(2)) (simp only: e)
qed

lemma tree_preorder_unfold:
  assumes "plan_ordered cs" "i \<in> set (indices cs)"
  shows "tree_preorder cs i = i # concat (map (tree_preorder cs) (map rc_application_index (children_of cs i)))"
proof -
  obtain r where "r < length (indices cs)" "indices cs ! r = i" using assms(2) by (auto simp: in_set_conv_nth)
  then show ?thesis using preorder_stable [OF assms(1), of r "length cs"] by (simp add: tree_preorder_def comp_def)
qed

section \<open>The loop computes it\<close>

definition order_inv :: "resolved_child list \<Rightarrow> nat list \<Rightarrow> nat list \<Rightarrow> bool" where
  "order_inv cs stack order \<longleftrightarrow> distinct (order @ stack) \<and> set (order @ stack) \<subseteq> set (indices cs) \<and> 0 \<in> set (order @ stack)
     \<and> (\<forall>c \<in> set cs. rc_parent_application_index c \<in> set order \<longleftrightarrow> rc_application_index c \<in> set (order @ stack))"

lemma child_index_inj:
  "plan_ordered cs \<Longrightarrow> c \<in> set cs \<Longrightarrow> d \<in> set cs \<Longrightarrow> rc_application_index c = rc_application_index d \<Longrightarrow> c = d"
  by (auto simp: plan_ordered_def distinct_map inj_on_def)

lemma order_inv_step:
  assumes o: "plan_ordered cs" and inv: "order_inv cs (i # rest) order"
  shows "order_inv cs (map rc_application_index (children_of cs i) @ rest) (order @ [i])"
proof -
  let ?ch = "map rc_application_index (children_of cs i)"
  have i: "i \<notin> set order" using inv by (auto simp: order_inv_def)
  have new: "x \<notin> set (order @ i # rest)" if "x \<in> set ?ch" for x
    using that inv i by (auto simp: order_inv_def)
  have "distinct (children_of cs i)"
    using o by (auto simp: children_of_def plan_ordered_def distinct_map)
  then have "distinct ?ch" using child_index_inj [OF o] by (auto simp: distinct_map inj_on_def)
  moreover have "distinct (order @ i # rest)" using inv by (simp add: order_inv_def)
  moreover have "set ?ch \<inter> set (order @ i # rest) = {}" using new by blast
  ultimately have d: "distinct ((order @ [i]) @ ?ch @ rest)" by auto
  have iff: "rc_parent_application_index c \<in> set (order @ [i]) \<longleftrightarrow> rc_application_index c \<in> set ((order @ [i]) @ ?ch @ rest)"
    if c: "c \<in> set cs" for c
  proof -
    have "rc_application_index c \<in> set ?ch \<longleftrightarrow> rc_parent_application_index c = i"
      using child_index_inj [OF o c] c by auto
    then show ?thesis using inv c by (auto simp: order_inv_def)
  qed
  show ?thesis unfolding order_inv_def using d iff inv by (auto simp: order_inv_def indices_def)
qed

lemma order_loop_ends:
  assumes o: "plan_ordered cs"
  shows "order_inv cs stack order \<Longrightarrow>
     order_loop cs stack order = Some (order @ concat (map (tree_preorder cs) stack))
     \<and> order_inv cs [] (order @ concat (map (tree_preorder cs) stack))"
proof (induction "length (indices cs) - length order" arbitrary: stack order rule: less_induct)
  case less
  show ?case
  proof (cases stack)
    case Nil
    then show ?thesis using less.prems by (subst order_loop.simps) simp
  next
    case (Cons i rest)
    let ?stack = "map rc_application_index (children_of cs i) @ rest"
    have inv: "order_inv cs ?stack (order @ [i])" using order_inv_step [OF o] less.prems Cons by simp
    have "length (order @ [i]) \<le> length (indices cs)"
    proof -
      have "distinct (order @ [i])" "set (order @ [i]) \<subseteq> set (indices cs)" using less.prems Cons by (auto simp: order_inv_def)
      then show ?thesis by (metis card_mono distinct_card finite_set plan_ordered_distinct [OF o])
    qed
    then have "length (indices cs) - length (order @ [i]) < length (indices cs) - length order" by simp
    from less.hyps [OF this inv] have ih: "order_loop cs ?stack (order @ [i]) = Some ((order @ [i]) @ concat (map (tree_preorder cs) ?stack))"
      "order_inv cs [] ((order @ [i]) @ concat (map (tree_preorder cs) ?stack))" by simp_all
    have "tree_preorder cs i = i # concat (map (tree_preorder cs) (map rc_application_index (children_of cs i)))"
      using less.prems Cons by (intro tree_preorder_unfold [OF o]) (auto simp: order_inv_def)
    then have e: "(order @ [i]) @ concat (map (tree_preorder cs) ?stack) = order @ concat (map (tree_preorder cs) stack)"
      using Cons by simp
    have "order_loop cs stack order = order_loop cs ?stack (order @ [i])" using Cons by (subst order_loop.simps) simp
    then show ?thesis using ih unfolding e by simp
  qed
qed

lemma order_inv_all:
  assumes o: "plan_ordered cs" and inv: "order_inv cs [] order"
  shows "set order = set (indices cs)"
proof -
  have "j \<le> length cs \<Longrightarrow> rc_application_index ` set (take j cs) \<subseteq> set order" for j
  proof (induction j)
    case (Suc j)
    then have j: "j < length cs" by simp
    have "rc_parent_application_index (cs ! j) \<in> insert 0 (set (map rc_application_index (take j cs)))"
      using o j by (auto simp: plan_ordered_def)
    moreover have "insert 0 (set (map rc_application_index (take j cs))) \<subseteq> set order" using Suc inv by (simp add: order_inv_def)
    ultimately have "rc_parent_application_index (cs ! j) \<in> set order" by blast
    moreover have "cs ! j \<in> set cs" using j by simp
    ultimately have "rc_application_index (cs ! j) \<in> set order" using inv unfolding order_inv_def append_Nil2 by blast
    then show ?case using Suc j by (simp add: take_Suc_conv_app_nth)
  qed simp
  from this [of "length cs"] show ?thesis using inv by (auto simp: order_inv_def indices_def)
qed

lemma lifecycle_order:
  assumes o: "plan_ordered (ap_children p)"
  defines "order \<equiv> tree_preorder (ap_children p) 0"
  shows "lifecycle_application_order p = Some (Inr order)" "distinct order" "set order = set (indices (ap_children p))"
proof -
  let ?cs = "ap_children p"
  have "0 \<notin> rc_application_index ` set ?cs" using o by (auto simp: plan_ordered_def)
  then have "order_inv ?cs [0] []" by (auto simp: order_inv_def indices_def)
  from order_loop_ends [OF o this] have l: "order_loop ?cs [0] [] = Some order" "order_inv ?cs [] order" by (simp_all add: order_def)
  show s: "set order = set (indices ?cs)" by (rule order_inv_all [OF o l(2)])
  show d: "distinct order" using l(2) by (simp add: order_inv_def)
  have "length order = length ?cs + 1"
    using distinct_card [OF d] distinct_card [OF plan_ordered_distinct [OF o]] s by (simp add: indices_def)
  then show "lifecycle_application_order p = Some (Inr order)" using l(1) by (simp add: lifecycle_application_order_def)
qed

end
