(* ===== verification/Holo_Lifecycle.thy ===== *)
theory Holo_Lifecycle
  imports Provider_Registry Application_Order
begin

text \<open>
  The lifecycle of a planned application (\<open>src/holo_provider.rs\<close>): the layers of every application of
  the tree are prepared, the View intent brokers are bound to their primary layers, the layers are
  started, and a failure on the way stops what was prepared, in reverse. The calls that leave the
  host, to providers and to prepared layers, are recorded in a trace, and every answer may depend on
  it. A running application is its layers, its state byte and one gate per application; the gates
  serialise \<open>invoke\<close>, \<open>stop\<close> and View intents, so each of these is one step.
\<close>

section \<open>States\<close>

datatype lifecycle_state = Planned | Preparing | Running | Stopping | Stopped | Failed

fun state_name :: "lifecycle_state \<Rightarrow> string" where
  "state_name Planned = ''planned''"
| "state_name Preparing = ''preparing''"
| "state_name Running = ''running''"
| "state_name Stopping = ''stopping''"
| "state_name Stopped = ''stopped''"
| "state_name Failed = ''failed''"

fun state_value :: "lifecycle_state \<Rightarrow> 8 word" where
  "state_value Planned = 0"
| "state_value Preparing = 1"
| "state_value Running = 2"
| "state_value Stopping = 3"
| "state_value Stopped = 4"
| "state_value Failed = 5"

definition state_from_value :: "8 word \<Rightarrow> lifecycle_state" where
  "state_from_value v =
     (if v = 0 then Planned else if v = 1 then Preparing else if v = 2 then Running
      else if v = 3 then Stopping else if v = 4 then Stopped else Failed)"

lemma state_from_value_value [simp]: "state_from_value (state_value st) = st"
  by (cases st) (simp_all add: state_from_value_def)

text \<open>The derived \<open>Debug\<close> form.\<close>

fun state_debug :: "lifecycle_state \<Rightarrow> string" where
  "state_debug Planned = ''Planned''"
| "state_debug Preparing = ''Preparing''"
| "state_debug Running = ''Running''"
| "state_debug Stopping = ''Stopping''"
| "state_debug Stopped = ''Stopped''"
| "state_debug Failed = ''Failed''"

datatype layer_completion = Returned | Exited int
datatype layer_completion_role = ExitBearing | NonExitBearing

fun completion_role :: "layer_kind \<Rightarrow> layer_completion_role" where
  "completion_role WasmCodemodule = ExitBearing"
| "completion_role RootfsImage = ExitBearing"
| "completion_role TensorPlan = NonExitBearing"
| "completion_role ViewLayer = NonExitBearing"
| "completion_role InferenceModel = NonExitBearing"

record layer_invocation =
  li_outputs :: "bytes list"
  li_completion :: layer_completion
  li_elapsed_micros :: nat

record layer_runtime_status =
  lr_resident_bytes :: nat
  lr_queued :: nat
  lr_processed :: nat

text \<open>The answers of the prepared layers.\<close>

record layer_world =
  lw_start :: "layer_trace \<Rightarrow> nat \<Rightarrow> unit live_result"
  lw_stop :: "layer_trace \<Rightarrow> nat \<Rightarrow> unit live_result"
  lw_invoke :: "layer_trace \<Rightarrow> nat \<Rightarrow> bytes list \<Rightarrow> layer_invocation live_result"
  lw_status :: "layer_trace \<Rightarrow> nat \<Rightarrow> layer_runtime_status"

record prepared_layer =
  pd_application_index :: nat
  pd_application_kappa :: string
  pd_instance :: nat
  pd_position :: nat

record intent_broker =
  ib_application_kappa :: string
  ib_primary :: "nat option"

definition intent_broker_new :: "string \<Rightarrow> intent_broker" where
  "intent_broker_new kappa = \<lparr>ib_application_kappa = kappa, ib_primary = None\<rparr>"

definition broker_bind :: "nat \<Rightarrow> intent_broker \<Rightarrow> intent_broker live_result" where
  "broker_bind primary b =
     (case ib_primary b of
        None \<Rightarrow> Inr (b\<lparr>ib_primary := Some primary\<rparr>)
      | Some _ \<Rightarrow> Inl (Conflict (''application '' @ ib_application_kappa b @ '' intent broker was bound more than once'')))"

record running_application =
  ra_identity :: holo_identity
  ra_primary_layer :: nat
  ra_layers :: "prepared_layer list"
  ra_state :: "8 word"
  ra_brokers :: "intent_broker list"

section \<open>Stopping and rolling back\<close>

fun stop_all :: "layer_world \<Rightarrow> prepared_layer list \<Rightarrow> layer_trace \<Rightarrow> layer_trace \<times> string list" where
  "stop_all w [] tr = (tr, [])"
| "stop_all w (l # ls) tr =
     (case lw_stop w tr (pd_instance l) of
        Inr _ \<Rightarrow> stop_all w ls (tr @ [StopDone (pd_instance l)])
      | Inl e \<Rightarrow>
          (let (tr', failures) = stop_all w ls (tr @ [StopFailed (pd_instance l)]) in
           (tr', (''application '' @ pd_application_kappa l @ '' layer '' @ show_nat (pd_position l) @ '': '' @ error_message e) # failures)))"

definition stop_reverse :: "layer_world \<Rightarrow> prepared_layer list \<Rightarrow> layer_trace \<Rightarrow> layer_trace \<times> string list" where
  "stop_reverse w layers tr = stop_all w (rev layers) tr"

fun error_with :: "live_error \<Rightarrow> string \<Rightarrow> live_error" where
  "error_with (Io _) m = Io m"
| "error_with (Config _) m = Config m"
| "error_with (Protocol _) m = Protocol m"
| "error_with (Transport _) m = Transport m"
| "error_with (Authentication _) m = Authentication m"
| "error_with (Authorization _) m = Authorization m"
| "error_with (Capability _) m = Capability m"
| "error_with (NotFound _) m = NotFound m"
| "error_with (Conflict _) m = Conflict m"
| "error_with (InvalidHolo _) m = InvalidHolo m"
| "error_with (UnknownCommitState _) m = UnknownCommitState m"

definition with_rollback :: "live_error \<Rightarrow> string list \<Rightarrow> live_error" where
  "with_rollback e failures =
     (if failures = [] then e
      else error_with e (error_message e @ ''; rollback failures: '' @ join_with ''; '' failures))"

text \<open>The state of a preparation under way.\<close>

record preparation =
  pn_trace :: layer_trace
  pn_prepared :: "prepared_layer list"
  pn_brokers :: "intent_broker list"
  pn_state :: "8 word"

definition roll_back :: "layer_world \<Rightarrow> live_error \<Rightarrow> preparation \<Rightarrow> preparation \<times> 'a live_result" where
  "roll_back w e s =
     (let (tr, failures) = stop_reverse w (pn_prepared s) (pn_trace s) in
      (s\<lparr>pn_trace := tr, pn_state := state_value Failed\<rparr>, Inl (with_rollback e failures)))"

section \<open>Preparing\<close>

definition no_primary :: "application_plan \<Rightarrow> live_error" where
  "no_primary p = Conflict (''runtime received application '' @ application_kappa (ap_identity p)
     @ '' with no primary layer; the planner must reject library archives before preparation'')"

definition child_at :: "application_plan \<Rightarrow> nat \<Rightarrow> resolved_child option" where
  "child_at p i = find (\<lambda>c. rc_application_index c = i) (ap_children p)"

definition application_layers :: "application_plan \<Rightarrow> nat \<Rightarrow> (string \<times> resolved_layer list) live_result" where
  "application_layers p i =
     (if i = 0 then Inr (application_kappa (ap_identity p), ap_layers p)
      else case child_at p i of
        Some c \<Rightarrow> Inr (rc_application_kappa c, rc_layers c)
      | None \<Rightarrow> Inl (Conflict (''runtime lost planned child application index '' @ show_nat i)))"

definition application_requested_capabilities :: "application_plan \<Rightarrow> nat \<Rightarrow> capability_object live_result" where
  "application_requested_capabilities p i =
     (if i = 0 then Inr (ap_requested p)
      else case child_at p i of
        Some c \<Rightarrow> Inr (rc_requested c)
      | None \<Rightarrow> Inl (Conflict (''runtime lost requested capabilities for application index '' @ show_nat i)))"

definition application_primary_layer :: "application_plan \<Rightarrow> nat \<Rightarrow> nat live_result" where
  "application_primary_layer p i =
     (if i = 0 then ok_or (no_primary p) (ap_primary_layer p)
      else case child_at p i of
        None \<Rightarrow> Inl (Conflict (''runtime lost planned child application index '' @ show_nat i))
      | Some c \<Rightarrow> ok_or (Capability (''child application index '' @ show_nat i @ '' has no primary exit-bearing layer'')) (rc_primary_layer c))"

definition missing_provider :: "wasm_contracts \<Rightarrow> provider_registry \<Rightarrow> string \<Rightarrow> resolved_layer \<Rightarrow> live_error" where
  "missing_provider wc reg kappa l =
     Capability (''application '' @ kappa @ '' layer '' @ show_nat (rl_position l) @ '' has no '' @ target_name (reg_target reg)
       @ '' provider for '' @ layer_kind_name (rl_kind l)
       @ (if rl_kind l = WasmCodemodule then '' contract '' @ contract_or_aux wc (rl_aux l) else []))"

text \<open>What the layers of one application are prepared under.\<close>

record application_setup =
  as_index :: nat
  as_kappa :: string
  as_grant :: effective_grant
  as_requested :: capability_object
  as_intents :: nat

definition prepare_context :: "provider_registry \<Rightarrow> holo_identity \<Rightarrow> application_setup \<Rightarrow> resolved_layer \<Rightarrow> layer_prepare_context" where
  "prepare_context reg ident a l =
     \<lparr>px_identity = ident\<lparr>application_kappa := as_kappa a\<rparr>, px_grant = as_grant a, px_requested = as_requested a,
      px_layer = l, px_target = reg_target reg, px_intents = as_intents a\<rparr>"

fun prepare_layers ::
  "wasm_contracts \<Rightarrow> provider_registry \<Rightarrow> layer_world \<Rightarrow> holo_identity \<Rightarrow> application_setup \<Rightarrow> resolved_layer list \<Rightarrow> preparation
     \<Rightarrow> preparation \<times> unit live_result"
where
  "prepare_layers wc reg w ident a [] s = (s, Inr ())"
| "prepare_layers wc reg w ident a (l # ls) s =
     (case provider_select wc reg (rl_kind l) (rl_aux l) of
        Inl e \<Rightarrow> (s, Inl (Capability e))
      | Inr None \<Rightarrow> (s, Inl (missing_provider wc reg (as_kappa a) l))
      | Inr (Some p) \<Rightarrow>
          (if rl_provider l \<noteq> lp_name p
           then (s, Inl (Conflict (''application '' @ as_kappa a @ '' layer '' @ show_nat (rl_position l) @ '' selected provider ''
                          @ rl_provider l @ '', but registry resolved '' @ lp_name p)))
           else case lp_prepare p (pn_trace s) (prepare_context reg ident a l) of
                  Inl e \<Rightarrow> roll_back w e (s\<lparr>pn_trace := pn_trace s @ [PrepareFailed (prepare_context reg ident a l)]\<rparr>)
                | Inr pos \<Rightarrow>
                    prepare_layers wc reg w ident a ls
                      (s\<lparr>pn_trace := pn_trace s @ [Prepared (prepare_context reg ident a l)],
                         pn_prepared := pn_prepared s @ [\<lparr>pd_application_index = as_index a, pd_application_kappa = as_kappa a,
                           pd_instance = length (pn_prepared s), pd_position = pos\<rparr>]\<rparr>)))"

text \<open>Binding the broker of an application with a View to its primary layer, among the layers
  prepared since \<open>from\<close>.\<close>

definition bind_primary :: "layer_world \<Rightarrow> application_setup \<Rightarrow> nat \<Rightarrow> nat option \<Rightarrow> preparation \<Rightarrow> preparation \<times> unit live_result" where
  "bind_primary w a start primary s =
     (case primary of
        None \<Rightarrow> (s, Inr ())
      | Some pos \<Rightarrow>
          (case bindE (ok_or (Conflict (''application '' @ as_kappa a @ '' lost primary layer '' @ show_nat pos @ '' while binding View intents''))
                  (find (\<lambda>d. pd_position d = pos) (drop start (pn_prepared s))))
                  (\<lambda>d. broker_bind (pd_instance d) (pn_brokers s ! as_intents a)) of
             Inl e \<Rightarrow> roll_back w e s
           | Inr b \<Rightarrow> (s\<lparr>pn_brokers := (pn_brokers s)[as_intents a := b]\<rparr>, Inr ())))"

definition prepare_application ::
  "wasm_contracts \<Rightarrow> provider_registry \<Rightarrow> layer_world \<Rightarrow> application_plan \<Rightarrow> (nat \<rightharpoonup> effective_grant) \<Rightarrow> nat \<Rightarrow> preparation
     \<Rightarrow> preparation \<times> unit live_result"
where
  "prepare_application wc reg w p grants i s =
     (case application_layers p i of
        Inl e \<Rightarrow> (s, Inl e)
      | Inr (kappa, layers) \<Rightarrow>
          (case (if list_ex (\<lambda>l. rl_kind l = ViewLayer) layers then bindE (application_primary_layer p i) (\<lambda>x. Inr (Some x)) else Inr None) of
             Inl e \<Rightarrow> roll_back w e s
           | Inr primary \<Rightarrow>
               (let s1 = s\<lparr>pn_brokers := pn_brokers s @ [intent_broker_new kappa]\<rparr> in
                case bindE (application_requested_capabilities p i) (\<lambda>requested.
                     bindE (ok_or (Conflict (''runtime lost admitted grant for application '' @ kappa)) (grants i)) (\<lambda>grant.
                       Inr \<lparr>as_index = i, as_kappa = kappa, as_grant = grant, as_requested = requested, as_intents = length (pn_brokers s)\<rparr>)) of
                  Inl e \<Rightarrow> (s1, Inl e)
                | Inr a \<Rightarrow>
                    (case prepare_layers wc reg w (ap_identity p) a layers s1 of
                       (s2, Inl e) \<Rightarrow> (s2, Inl e)
                     | (s2, Inr _) \<Rightarrow> bind_primary w a (length (pn_prepared s)) primary s2))))"

fun prepare_applications ::
  "wasm_contracts \<Rightarrow> provider_registry \<Rightarrow> layer_world \<Rightarrow> application_plan \<Rightarrow> (nat \<rightharpoonup> effective_grant) \<Rightarrow> nat list \<Rightarrow> preparation
     \<Rightarrow> preparation \<times> unit live_result"
where
  "prepare_applications wc reg w p grants [] s = (s, Inr ())"
| "prepare_applications wc reg w p grants (i # order) s =
     (case prepare_application wc reg w p grants i s of
        (s1, Inl e) \<Rightarrow> (s1, Inl e)
      | (s1, Inr _) \<Rightarrow> prepare_applications wc reg w p grants order s1)"

fun start_layers :: "layer_world \<Rightarrow> prepared_layer list \<Rightarrow> preparation \<Rightarrow> preparation \<times> unit live_result" where
  "start_layers w [] s = (s, Inr ())"
| "start_layers w (l # ls) s =
     (case lw_start w (pn_trace s) (pd_instance l) of
        Inl e \<Rightarrow> roll_back w e (s\<lparr>pn_trace := pn_trace s @ [StartFailed (pd_instance l)]\<rparr>)
      | Inr _ \<Rightarrow> start_layers w ls (s\<lparr>pn_trace := pn_trace s @ [Started (pd_instance l)]\<rparr>))"

definition check_primary :: "application_plan \<Rightarrow> nat live_result" where
  "check_primary p =
     bindE (ok_or (no_primary p) (ap_primary_layer p)) (\<lambda>primary_layer.
     bindE (ok_or (InvalidHolo (''application '' @ application_kappa (ap_identity p) @ '' primary layer '' @ show_nat primary_layer @ '' is missing''))
              (find (\<lambda>l. rl_position l = primary_layer) (ap_layers p))) (\<lambda>primary.
       if completion_role (rl_kind primary) = NonExitBearing
       then Inl (Capability (''application '' @ application_kappa (ap_identity p) @ '' cannot use non-exit-bearing ''
              @ layer_kind_name (rl_kind primary) @ '' layer '' @ show_nat primary_layer @ '' as its primary''))
       else Inr primary_layer))"

definition prepare_and_start_with_admitted_grants ::
  "wasm_contracts \<Rightarrow> provider_registry \<Rightarrow> layer_world \<Rightarrow> application_plan \<Rightarrow> (nat \<rightharpoonup> effective_grant)
     \<Rightarrow> (layer_trace \<times> running_application live_result) option"
where
  "prepare_and_start_with_admitted_grants wc reg w p grants =
     (case check_primary p of
        Inl e \<Rightarrow> Some ([], Inl e)
      | Inr primary_layer \<Rightarrow>
          (case lifecycle_application_order p of
             None \<Rightarrow> None
           | Some (Inl e) \<Rightarrow> Some ([], Inl e)
           | Some (Inr order) \<Rightarrow>
               Some (case prepare_applications wc reg w p grants order
                        \<lparr>pn_trace = [], pn_prepared = [], pn_brokers = [], pn_state = state_value Preparing\<rparr> of
                       (s, Inl e) \<Rightarrow> (pn_trace s, Inl e)
                     | (s, Inr _) \<Rightarrow>
                         (case start_layers w (pn_prepared s) s of
                            (s1, Inl e) \<Rightarrow> (pn_trace s1, Inl e)
                          | (s1, Inr _) \<Rightarrow>
                              (pn_trace s1, Inr \<lparr>ra_identity = ap_identity p, ra_primary_layer = primary_layer, ra_layers = pn_prepared s1,
                                 ra_state = state_value Running, ra_brokers = pn_brokers s1\<rparr>)))))"

definition prepare_and_start_with_grant ::
  "space \<Rightarrow> wasm_contracts \<Rightarrow> provider_registry \<Rightarrow> layer_world \<Rightarrow> application_plan \<Rightarrow> effective_grant
     \<Rightarrow> (layer_trace \<times> running_application live_result) option"
where
  "prepare_and_start_with_grant sp wc reg w p g =
     (case admitted_grants sp p g of
        Inl e \<Rightarrow> Some ([], Inl e)
      | Inr grants \<Rightarrow> prepare_and_start_with_admitted_grants wc reg w p grants)"

definition prepare_and_start ::
  "space \<Rightarrow> wasm_contracts \<Rightarrow> provider_registry \<Rightarrow> layer_world \<Rightarrow> application_plan \<Rightarrow> (layer_trace \<times> running_application live_result) option"
where
  "prepare_and_start sp wc reg w p = prepare_and_start_with_grant sp wc reg w p (local_baseline sp)"

section \<open>Traces\<close>

fun is_prepared :: "layer_event \<Rightarrow> bool" where
  "is_prepared (Prepared _) = True"
| "is_prepared _ = False"

fun stops_instance :: "layer_event \<Rightarrow> nat \<Rightarrow> bool" where
  "stops_instance (StopDone i) j = (i = j)"
| "stops_instance (StopFailed i) j = (i = j)"
| "stops_instance _ _ = False"

definition no_stop :: "layer_trace \<Rightarrow> bool" where
  "no_stop tr \<longleftrightarrow> (\<forall>e \<in> set tr. \<forall>i. \<not> stops_instance e i)"

text \<open>Everything that was prepared was asked to stop exactly once, last prepared first, and nothing
  was called afterwards.\<close>

definition rolled_back :: "layer_trace \<Rightarrow> bool" where
  "rolled_back tr \<longleftrightarrow> (\<exists>calls stops. tr = calls @ stops \<and> no_stop calls
     \<and> list_all2 stops_instance stops (rev [0..<length (filter is_prepared calls)]))"

lemma no_stop_append [simp]: "no_stop (a @ b) \<longleftrightarrow> no_stop a \<and> no_stop b"
  by (auto simp: no_stop_def)

lemma no_stop_simps [simp]:
  "no_stop []" "no_stop [Prepared c]" "no_stop [PrepareFailed c]" "no_stop [Started i]" "no_stop [StartFailed i]" "no_stop [Invoked i xs]"
  by (auto simp: no_stop_def)

lemma stop_all_trace:
  "\<exists>stops. fst (stop_all w ls tr) = tr @ stops \<and> list_all2 stops_instance stops (map pd_instance ls)
     \<and> (snd (stop_all w ls tr) = [] \<longleftrightarrow> stops = map StopDone (map pd_instance ls))"
proof (induction ls arbitrary: tr)
  case (Cons l ls)
  show ?case
  proof (cases "lw_stop w tr (pd_instance l)")
    case (Inl e)
    obtain stops where "fst (stop_all w ls (tr @ [StopFailed (pd_instance l)])) = (tr @ [StopFailed (pd_instance l)]) @ stops"
      "list_all2 stops_instance stops (map pd_instance ls)" using Cons.IH by blast
    then show ?thesis using Inl by (intro exI [of _ "StopFailed (pd_instance l) # stops"]) (simp add: split_beta)
  next
    case (Inr u)
    obtain stops where "fst (stop_all w ls (tr @ [StopDone (pd_instance l)])) = (tr @ [StopDone (pd_instance l)]) @ stops"
      "list_all2 stops_instance stops (map pd_instance ls)"
      "snd (stop_all w ls (tr @ [StopDone (pd_instance l)])) = [] \<longleftrightarrow> stops = map StopDone (map pd_instance ls)" using Cons.IH by blast
    then show ?thesis using Inr by (intro exI [of _ "StopDone (pd_instance l) # stops"]) simp
  qed
qed simp

section \<open>Preparation is transactional\<close>

definition prep_ok :: "preparation \<Rightarrow> bool" where
  "prep_ok s \<longleftrightarrow> no_stop (pn_trace s) \<and> length (filter is_prepared (pn_trace s)) = length (pn_prepared s)
     \<and> map pd_instance (pn_prepared s) = [0..<length (pn_prepared s)]"

lemma roll_back_clean:
  assumes "prep_ok s"
  shows "\<exists>s' e'. roll_back w e s = (s', Inl e') \<and> rolled_back (pn_trace s')"
proof -
  obtain stops where st: "fst (stop_reverse w (pn_prepared s) (pn_trace s)) = pn_trace s @ stops"
    "list_all2 stops_instance stops (map pd_instance (rev (pn_prepared s)))"
    using stop_all_trace [of w "rev (pn_prepared s)" "pn_trace s"] by (auto simp: stop_reverse_def)
  have "map pd_instance (rev (pn_prepared s)) = rev [0..<length (filter is_prepared (pn_trace s))]"
    using assms by (simp add: prep_ok_def flip: rev_map)
  then have "rolled_back (pn_trace s @ stops)" using assms st(2) unfolding rolled_back_def prep_ok_def by metis
  then show ?thesis using st(1) by (auto simp: roll_back_def split_beta)
qed

lemma prep_ok_call:
  "prep_ok s \<Longrightarrow> no_stop [e] \<Longrightarrow> \<not> is_prepared e \<Longrightarrow> prep_ok (s\<lparr>pn_trace := pn_trace s @ [e]\<rparr>)"
  by (simp add: prep_ok_def)

definition prepare_one :: "application_setup \<Rightarrow> layer_prepare_context \<Rightarrow> nat \<Rightarrow> preparation \<Rightarrow> preparation" where
  "prepare_one a c pos s = s\<lparr>pn_trace := pn_trace s @ [Prepared c],
     pn_prepared := pn_prepared s @ [\<lparr>pd_application_index = as_index a, pd_application_kappa = as_kappa a,
       pd_instance = length (pn_prepared s), pd_position = pos\<rparr>]\<rparr>"

lemma prep_ok_prepare: "prep_ok s \<Longrightarrow> prep_ok (prepare_one a c pos s)"
  by (simp add: prep_ok_def prepare_one_def)

lemma prepare_layers_served:
  assumes "layer_served wc reg l"
  obtains e where "prepare_layers wc reg w ident a (l # ls) s = roll_back w e (s\<lparr>pn_trace := pn_trace s @ [PrepareFailed (prepare_context reg ident a l)]\<rparr>)"
  | pos where "prepare_layers wc reg w ident a (l # ls) s = prepare_layers wc reg w ident a ls (prepare_one a (prepare_context reg ident a l) pos s)"
proof -
  obtain p where p: "provider_select wc reg (rl_kind l) (rl_aux l) = Inr (Some p)" "lp_name p = rl_provider l"
    using assms by (auto simp: layer_served_def)
  show thesis
    using that p by (cases "lp_prepare p (pn_trace s) (prepare_context reg ident a l)") (simp_all add: prepare_one_def)
qed

lemma prepare_layers_ok:
  assumes "list_all (layer_served wc reg) ls" "prep_ok s"
  shows "(\<exists>s' e. prepare_layers wc reg w ident a ls s = (s', Inl e) \<and> rolled_back (pn_trace s'))
     \<or> (\<exists>s' new. prepare_layers wc reg w ident a ls s = (s', Inr ()) \<and> prep_ok s'
          \<and> pn_trace s' = pn_trace s @ map (\<lambda>l. Prepared (prepare_context reg ident a l)) ls
          \<and> pn_prepared s' = pn_prepared s @ new \<and> length new = length ls
          \<and> (\<forall>d \<in> set new. pd_application_index d = as_index a \<and> pd_application_kappa d = as_kappa a)
          \<and> pn_brokers s' = pn_brokers s)"
  using assms
proof (induction ls arbitrary: s)
  case (Cons l ls)
  from Cons.prems(1) have "layer_served wc reg l" by simp
  then show ?case
  proof (cases rule: prepare_layers_served [where w = w and ident = ident and a = a and ls = ls and s = s])
    case (1 e)
    have "prep_ok (s\<lparr>pn_trace := pn_trace s @ [PrepareFailed (prepare_context reg ident a l)]\<rparr>)"
      using Cons.prems(2) by (simp add: prep_ok_def)
    from roll_back_clean [OF this] 1 show ?thesis by metis
  next
    case (2 pos)
    let ?s = "prepare_one a (prepare_context reg ident a l) pos s"
    have "list_all (layer_served wc reg) ls" "prep_ok ?s" using Cons.prems prep_ok_prepare by simp_all
    from Cons.IH [OF this] show ?thesis unfolding 2 by (elim disjE exE conjE) (auto simp: prepare_one_def)
  qed
qed simp

section \<open>What a successful preparation looks like\<close>

definition app_kappa :: "application_plan \<Rightarrow> nat \<Rightarrow> string" where
  "app_kappa p i = (if i = 0 then application_kappa (ap_identity p) else rc_application_kappa (the (child_at p i)))"

definition app_layers :: "application_plan \<Rightarrow> nat \<Rightarrow> resolved_layer list" where
  "app_layers p i = (if i = 0 then ap_layers p else case child_at p i of Some c \<Rightarrow> rc_layers c | None \<Rightarrow> [])"

definition app_requested :: "application_plan \<Rightarrow> nat \<Rightarrow> capability_object" where
  "app_requested p i = (if i = 0 then ap_requested p else rc_requested (the (child_at p i)))"

text \<open>The contexts the layers of the applications of an order are prepared in, the first application
  having broker \<open>k\<close>.\<close>

fun planned_contexts :: "provider_registry \<Rightarrow> application_plan \<Rightarrow> (nat \<rightharpoonup> effective_grant) \<Rightarrow> nat \<Rightarrow> nat list \<Rightarrow> layer_prepare_context list" where
  "planned_contexts reg p grants k [] = []"
| "planned_contexts reg p grants k (i # order) =
     map (prepare_context reg (ap_identity p)
            \<lparr>as_index = i, as_kappa = app_kappa p i, as_grant = the (grants i), as_requested = app_requested p i, as_intents = k\<rparr>)
         (app_layers p i)
     @ planned_contexts reg p grants (Suc k) order"

definition has_view :: "application_plan \<Rightarrow> nat \<Rightarrow> bool" where
  "has_view p i \<longleftrightarrow> list_ex (\<lambda>l. rl_kind l = ViewLayer) (app_layers p i)"

text \<open>The broker of an application: it names the application, and with a View it is bound to an
  instance of the application at its primary position.\<close>

definition broker_ok :: "application_plan \<Rightarrow> prepared_layer list \<Rightarrow> nat \<Rightarrow> intent_broker \<Rightarrow> bool" where
  "broker_ok p prepared i b \<longleftrightarrow> ib_application_kappa b = app_kappa p i
     \<and> (if has_view p i
        then \<exists>d \<in> set prepared. ib_primary b = Some (pd_instance d) \<and> pd_application_index d = i
               \<and> application_primary_layer p i = Inr (pd_position d)
        else ib_primary b = None)"

lemma broker_ok_mono: "set ds \<subseteq> set es \<Longrightarrow> broker_ok p ds i b \<Longrightarrow> broker_ok p es i b"
  by (auto simp: broker_ok_def split: if_splits)

lemma prepare_application_ok:
  assumes served: "list_all (layer_served wc reg) (app_layers p i)" and known: "i = 0 \<or> child_at p i \<noteq> None"
    and grant: "grants i \<noteq> None" and ok: "prep_ok s"
  shows "(\<exists>s' e. prepare_application wc reg w p grants i s = (s', Inl e) \<and> rolled_back (pn_trace s'))
     \<or> (\<exists>s' new b. prepare_application wc reg w p grants i s = (s', Inr ()) \<and> prep_ok s'
          \<and> pn_trace s' = pn_trace s @ map Prepared (planned_contexts reg p grants (length (pn_brokers s)) [i])
          \<and> pn_prepared s' = pn_prepared s @ new \<and> map pd_application_kappa new = replicate (length (app_layers p i)) (app_kappa p i)
          \<and> pn_brokers s' = pn_brokers s @ [b] \<and> broker_ok p new i b)"
proof -
  have parts: "application_layers p i = Inr (app_kappa p i, app_layers p i)" "application_requested_capabilities p i = Inr (app_requested p i)"
    using known by (auto simp: application_layers_def application_requested_capabilities_def app_kappa_def app_layers_def app_requested_def)
  define primary where "primary = (if has_view p i then bindE (application_primary_layer p i) (\<lambda>x. Inr (Some x)) else Inr None)"
  let ?a = "\<lparr>as_index = i, as_kappa = app_kappa p i, as_grant = the (grants i), as_requested = app_requested p i, as_intents = length (pn_brokers s)\<rparr>"
  let ?s1 = "s\<lparr>pn_brokers := pn_brokers s @ [intent_broker_new (app_kappa p i)]\<rparr>"
  have run: "prepare_application wc reg w p grants i s =
      (case primary of Inl e \<Rightarrow> roll_back w e s
       | Inr pr \<Rightarrow> (case prepare_layers wc reg w (ap_identity p) ?a (app_layers p i) ?s1 of
                       (s2, Inl e) \<Rightarrow> (s2, Inl e)
                     | (s2, Inr _) \<Rightarrow> bind_primary w ?a (length (pn_prepared s)) pr s2))"
    using grant parts by (auto simp: prepare_application_def primary_def has_view_def Let_def split: sum.splits)
  show ?thesis
  proof (cases primary)
    case (Inl e)
    then show ?thesis using run roll_back_clean [OF ok, of w e] by auto
  next
    case (Inr pr)
    have "prep_ok ?s1" using ok by (simp add: prep_ok_def)
    from prepare_layers_ok [OF served this, of w "ap_identity p" ?a] show ?thesis
    proof (elim disjE exE conjE)
      fix s' e assume "prepare_layers wc reg w (ap_identity p) ?a (app_layers p i) ?s1 = (s', Inl e)" "rolled_back (pn_trace s')"
      then show ?thesis using run Inr by auto
    next
      fix s2 new
      assume l: "prepare_layers wc reg w (ap_identity p) ?a (app_layers p i) ?s1 = (s2, Inr ())" "prep_ok s2"
        "pn_trace s2 = pn_trace ?s1 @ map (\<lambda>l. Prepared (prepare_context reg (ap_identity p) ?a l)) (app_layers p i)"
        "pn_prepared s2 = pn_prepared ?s1 @ new" "length new = length (app_layers p i)"
        "\<forall>d \<in> set new. pd_application_index d = as_index ?a \<and> pd_application_kappa d = as_kappa ?a" "pn_brokers s2 = pn_brokers ?s1"
      have kap: "map pd_application_kappa new = replicate (length (app_layers p i)) (app_kappa p i)"
        using l(5,6) by (intro replicate_eqI) auto
      show ?thesis
      proof (cases pr)
        case None
        then have "\<not> has_view p i" using Inr by (auto simp: primary_def bindE_eq_Inr split: if_splits)
        then have "broker_ok p new i (intent_broker_new (app_kappa p i))" by (simp add: broker_ok_def intent_broker_new_def)
        then show ?thesis using run Inr None l kap by (auto simp: bind_primary_def)
      next
        case (Some pos)
        then have v: "has_view p i" "application_primary_layer p i = Inr pos"
          using Inr by (auto simp: primary_def bindE_eq_Inr split: if_splits)
        have br: "pn_brokers s2 ! length (pn_brokers s) = intent_broker_new (app_kappa p i)" using l(7) by simp
        have dr: "drop (length (pn_prepared s)) (pn_prepared s2) = new" using l(4) by simp
        show ?thesis
        proof (cases "find (\<lambda>d. pd_position d = pos) new")
          case None
          then show ?thesis using run Inr Some l(1) dr roll_back_clean [OF l(2), of w] by (auto simp: bind_primary_def)
        next
          case found: (Some d)
          then have d: "d \<in> set new" "pd_position d = pos" by (auto simp: find_Some_iff)
          let ?b = "(intent_broker_new (app_kappa p i))\<lparr>ib_primary := Some (pd_instance d)\<rparr>"
          have "broker_ok p new i ?b" using v d l(6) by (auto simp: broker_ok_def intent_broker_new_def)
          moreover have "prepare_application wc reg w p grants i s = (s2\<lparr>pn_brokers := pn_brokers s @ [?b]\<rparr>, Inr ())"
            using run Inr Some l(1,7) found dr br by (simp add: bind_primary_def broker_bind_def intent_broker_new_def)
          moreover have "prep_ok (s2\<lparr>pn_brokers := pn_brokers s @ [?b]\<rparr>)" using l(2) by (simp add: prep_ok_def)
          ultimately show ?thesis using l(3,4) kap by auto
        qed
      qed
    qed
  qed
qed

lemma planned_contexts_Cons:
  "planned_contexts reg p grants k (i # order) = planned_contexts reg p grants k [i] @ planned_contexts reg p grants (Suc k) order"
  by simp

lemma list_all2_broker_mono:
  "list_all2 (broker_ok p ds) xs bs \<Longrightarrow> set ds \<subseteq> set es \<Longrightarrow> list_all2 (broker_ok p es) xs bs"
  by (erule list_all2_mono) (rule broker_ok_mono)

lemma prepare_applications_ok:
  assumes "\<forall>i \<in> set order. list_all (layer_served wc reg) (app_layers p i) \<and> (i = 0 \<or> child_at p i \<noteq> None) \<and> grants i \<noteq> None"
    and "prep_ok s"
  shows "(\<exists>s' e. prepare_applications wc reg w p grants order s = (s', Inl e) \<and> rolled_back (pn_trace s'))
     \<or> (\<exists>s' new bs. prepare_applications wc reg w p grants order s = (s', Inr ()) \<and> prep_ok s'
          \<and> pn_trace s' = pn_trace s @ map Prepared (planned_contexts reg p grants (length (pn_brokers s)) order)
          \<and> pn_prepared s' = pn_prepared s @ new
          \<and> map pd_application_kappa new = concat (map (\<lambda>i. replicate (length (app_layers p i)) (app_kappa p i)) order)
          \<and> pn_brokers s' = pn_brokers s @ bs \<and> list_all2 (broker_ok p new) order bs)"
  using assms
proof (induction order arbitrary: s)
  case (Cons i order)
  have i: "list_all (layer_served wc reg) (app_layers p i)" "i = 0 \<or> child_at p i \<noteq> None" "grants i \<noteq> None" using Cons.prems(1) by auto
  from prepare_application_ok [where grants = grants and i = i and w = w, OF i Cons.prems(2)] show ?case
  proof (elim disjE exE conjE)
    fix s' e assume "prepare_application wc reg w p grants i s = (s', Inl e)" "rolled_back (pn_trace s')"
    then show ?case by simp
  next
    fix s1 new b
    assume a: "prepare_application wc reg w p grants i s = (s1, Inr ())" "prep_ok s1"
      "pn_trace s1 = pn_trace s @ map Prepared (planned_contexts reg p grants (length (pn_brokers s)) [i])"
      "pn_prepared s1 = pn_prepared s @ new" "map pd_application_kappa new = replicate (length (app_layers p i)) (app_kappa p i)"
      "pn_brokers s1 = pn_brokers s @ [b]" "broker_ok p new i b"
    have rest: "prepare_applications wc reg w p grants (i # order) s = prepare_applications wc reg w p grants order s1" using a(1) by simp
    have "\<forall>j \<in> set order. list_all (layer_served wc reg) (app_layers p j) \<and> (j = 0 \<or> child_at p j \<noteq> None) \<and> grants j \<noteq> None"
      using Cons.prems(1) by simp
    from Cons.IH [OF this a(2)] show ?case
    proof (elim disjE exE conjE)
      fix s' e assume "prepare_applications wc reg w p grants order s1 = (s', Inl e)" "rolled_back (pn_trace s')"
      then show ?case using rest by simp
    next
      fix s2 new2 bs
      assume b: "prepare_applications wc reg w p grants order s1 = (s2, Inr ())" "prep_ok s2"
        "pn_trace s2 = pn_trace s1 @ map Prepared (planned_contexts reg p grants (length (pn_brokers s1)) order)"
        "pn_prepared s2 = pn_prepared s1 @ new2"
        "map pd_application_kappa new2 = concat (map (\<lambda>i. replicate (length (app_layers p i)) (app_kappa p i)) order)"
        "pn_brokers s2 = pn_brokers s1 @ bs" "list_all2 (broker_ok p new2) order bs"
      have "pn_trace s2 = pn_trace s @ map Prepared (planned_contexts reg p grants (length (pn_brokers s)) (i # order))"
        using a(3,6) b(3) by (subst planned_contexts_Cons) (simp del: planned_contexts.simps)
      moreover have "broker_ok p (new @ new2) i b" using a(7) broker_ok_mono [of new "new @ new2"] by simp
      moreover have "list_all2 (broker_ok p (new @ new2)) order bs" using b(7) by (rule list_all2_broker_mono) simp
      ultimately show ?case using rest a(4-6) b(1,2,4-6)
        by (intro disjI2 exI [of _ s2] exI [of _ "new @ new2"] exI [of _ "b # bs"]) (simp del: planned_contexts.simps)
    qed
  qed
qed simp

lemma start_layers_ok:
  assumes "prep_ok s"
  shows "(\<exists>s' e. start_layers w ls s = (s', Inl e) \<and> rolled_back (pn_trace s'))
     \<or> start_layers w ls s = (s\<lparr>pn_trace := pn_trace s @ map (\<lambda>l. Started (pd_instance l)) ls\<rparr>, Inr ())"
  using assms
proof (induction ls arbitrary: s)
  case (Cons l ls)
  show ?case
  proof (cases "lw_start w (pn_trace s) (pd_instance l)")
    case (Inl e)
    have "prep_ok (s\<lparr>pn_trace := pn_trace s @ [StartFailed (pd_instance l)]\<rparr>)" using Cons.prems by (intro prep_ok_call) simp_all
    from roll_back_clean [OF this, of w e] show ?thesis using Inl by auto
  next
    case (Inr u)
    have "prep_ok (s\<lparr>pn_trace := pn_trace s @ [Started (pd_instance l)]\<rparr>)" using Cons.prems by (intro prep_ok_call) simp_all
    from Cons.IH [OF this] show ?thesis using Inr by auto
  qed
qed simp

section \<open>Preparation succeeds when nothing refuses\<close>

definition willing :: "provider_registry \<Rightarrow> layer_world \<Rightarrow> bool" where
  "willing reg w \<longleftrightarrow> (\<forall>q \<in> set (reg_providers reg). \<forall>tr c. lp_prepare q tr c = Inr (rl_position (px_layer c)))
     \<and> (\<forall>tr i. lw_start w tr i = Inr ())"

definition view_bindable :: "application_plan \<Rightarrow> nat \<Rightarrow> bool" where
  "view_bindable p i \<longleftrightarrow> (has_view p i \<longrightarrow> (\<exists>l \<in> set (app_layers p i). application_primary_layer p i = Inr (rl_position l)))"

lemma provider_select_mem: "provider_select wc reg k aux = Inr (Some q) \<Longrightarrow> q \<in> set (reg_providers reg)"
  by (auto simp: provider_select_def bindE_eq_Inr find_Some_iff)

lemma prepare_layers_live:
  assumes "willing reg w" "list_all (layer_served wc reg) ls"
  shows "\<exists>s' new. prepare_layers wc reg w ident a ls s = (s', Inr ()) \<and> pn_prepared s' = pn_prepared s @ new
     \<and> map pd_position new = map rl_position ls \<and> pn_brokers s' = pn_brokers s"
  using assms(2)
proof (induction ls arbitrary: s)
  case (Cons l ls)
  then obtain q where q: "provider_select wc reg (rl_kind l) (rl_aux l) = Inr (Some q)" "lp_name q = rl_provider l"
    by (auto simp: layer_served_def)
  then have "lp_prepare q tr (prepare_context reg ident a l) = Inr (rl_position l)" for tr
    using assms(1) provider_select_mem [OF q(1)] by (simp add: willing_def prepare_context_def)
  then have step: "prepare_layers wc reg w ident a (l # ls) s
      = prepare_layers wc reg w ident a ls (prepare_one a (prepare_context reg ident a l) (rl_position l) s)"
    using q by (simp add: prepare_one_def)
  have "list_all (layer_served wc reg) ls" using Cons.prems by simp
  from Cons.IH [OF this, of "prepare_one a (prepare_context reg ident a l) (rl_position l) s"] show ?case
    unfolding step by (auto simp: prepare_one_def)
qed simp

lemma prepare_application_live:
  assumes will: "willing reg w" and served: "list_all (layer_served wc reg) (app_layers p i)" and known: "i = 0 \<or> child_at p i \<noteq> None"
    and grant: "grants i \<noteq> None" and view: "view_bindable p i"
  shows "\<exists>s'. prepare_application wc reg w p grants i s = (s', Inr ())"
proof -
  have parts: "application_layers p i = Inr (app_kappa p i, app_layers p i)" "application_requested_capabilities p i = Inr (app_requested p i)"
    using known by (auto simp: application_layers_def application_requested_capabilities_def app_kappa_def app_layers_def app_requested_def)
  obtain grant where g: "grants i = Some grant" using grant by blast
  let ?a = "\<lparr>as_index = i, as_kappa = app_kappa p i, as_grant = grant, as_requested = app_requested p i, as_intents = length (pn_brokers s)\<rparr>"
  let ?s1 = "s\<lparr>pn_brokers := pn_brokers s @ [intent_broker_new (app_kappa p i)]\<rparr>"
  obtain s2 new where l: "prepare_layers wc reg w (ap_identity p) ?a (app_layers p i) ?s1 = (s2, Inr ())" "pn_prepared s2 = pn_prepared ?s1 @ new"
    "map pd_position new = map rl_position (app_layers p i)" "pn_brokers s2 = pn_brokers ?s1"
    using prepare_layers_live [OF will served, of "ap_identity p" ?a ?s1] by blast
  show ?thesis
  proof (cases "has_view p i")
    case False
    then show ?thesis using parts g l by (auto simp: prepare_application_def has_view_def bind_primary_def)
  next
    case True
    then obtain m where m: "m \<in> set (app_layers p i)" "application_primary_layer p i = Inr (rl_position m)" using view by (auto simp: view_bindable_def)
    have "rl_position m \<in> set (map pd_position new)" using m(1) unfolding l(3) by simp
    then obtain d where d: "find (\<lambda>d. pd_position d = rl_position m) new = Some d"
      by (cases "find (\<lambda>d. pd_position d = rl_position m) new") (auto simp: find_None_iff)
    have "\<exists>s'. bind_primary w ?a (length (pn_prepared s)) (Some (rl_position m)) s2 = (s', Inr ())"
      using d l(2,4) by (simp add: bind_primary_def broker_bind_def intent_broker_new_def)
    then show ?thesis using True parts g m(2) l(1) by (simp add: prepare_application_def has_view_def)
  qed
qed

lemma prepare_applications_live:
  assumes "willing reg w"
    and "\<forall>i \<in> set order. list_all (layer_served wc reg) (app_layers p i) \<and> (i = 0 \<or> child_at p i \<noteq> None) \<and> grants i \<noteq> None \<and> view_bindable p i"
  shows "\<exists>s'. prepare_applications wc reg w p grants order s = (s', Inr ())"
  using assms(2)
proof (induction order arbitrary: s)
  case (Cons i order)
  from Cons.prems obtain s1 where "prepare_application wc reg w p grants i s = (s1, Inr ())"
    using prepare_application_live [OF assms(1), of wc p i grants s] by auto
  then show ?case using Cons.IH [of s1] Cons.prems by simp
qed simp

lemma start_layers_live: "willing reg w \<Longrightarrow> \<exists>s'. start_layers w ls s = (s', Inr ())"
  by (induction ls arbitrary: s) (auto simp: willing_def)

text \<open>Preparation of any plan whose applications form a tree and whose layers the registry serves as
  planned.\<close>

lemma prepare_and_start_admitted:
  assumes tree: "plan_ordered (ap_children p)" and served: "plan_served wc reg p"
    and grants: "dom grants = set (indices (ap_children p))"
  defines "order \<equiv> tree_preorder (ap_children p) 0"
  shows "\<exists>tr res. prepare_and_start_with_admitted_grants wc reg w p grants = Some (tr, res)
     \<and> (case res of
          Inl e \<Rightarrow> rolled_back tr
        | Inr ra \<Rightarrow>
            tr = map Prepared (planned_contexts reg p grants 0 order) @ map Started [0..<length (ra_layers ra)]
            \<and> state_from_value (ra_state ra) = Running \<and> ra_identity ra = ap_identity p
            \<and> check_primary p = Inr (ra_primary_layer ra)
            \<and> map pd_instance (ra_layers ra) = [0..<length (ra_layers ra)]
            \<and> map pd_application_kappa (ra_layers ra) = concat (map (\<lambda>i. replicate (length (app_layers p i)) (app_kappa p i)) order)
            \<and> list_all2 (broker_ok p (ra_layers ra)) order (ra_brokers ra))
     \<and> (willing reg w \<and> is_ok (check_primary p) \<and> list_all (view_bindable p) order \<longrightarrow> is_ok res)"
proof -
  note ord = lifecycle_order [OF tree, folded order_def]
  have child: "child_at p i \<noteq> None \<and> list_all (layer_served wc reg) (app_layers p i)" if i: "i \<in> set order" "i \<noteq> 0" for i
  proof -
    obtain c where "c \<in> set (ap_children p)" "rc_application_index c = i" using i ord(3) by (auto simp: indices_def)
    then have "child_at p i \<noteq> None" by (auto simp: child_at_def find_None_iff)
    then obtain d where d: "child_at p i = Some d" by blast
    then have "d \<in> set (ap_children p)" unfolding child_at_def find_Some_iff by auto
    then show ?thesis using served i d by (auto simp: plan_served_def app_layers_def list_all_iff)
  qed
  have apps: "\<forall>i \<in> set order. list_all (layer_served wc reg) (app_layers p i) \<and> (i = 0 \<or> child_at p i \<noteq> None) \<and> grants i \<noteq> None"
  proof
    fix i assume i: "i \<in> set order"
    then have "i \<in> dom grants" using ord(3) grants by simp
    then show "list_all (layer_served wc reg) (app_layers p i) \<and> (i = 0 \<or> child_at p i \<noteq> None) \<and> grants i \<noteq> None"
      using child [OF i] served by (cases "i = 0") (auto simp: plan_served_def app_layers_def)
  qed
  let ?s0 = "\<lparr>pn_trace = [], pn_prepared = [], pn_brokers = [], pn_state = state_value Preparing\<rparr>"
  have s0: "prep_ok ?s0" by (simp add: prep_ok_def)
  show ?thesis
  proof (cases "check_primary p")
    case (Inl e)
    then have "prepare_and_start_with_admitted_grants wc reg w p grants = Some ([], Inl e)" by (simp add: prepare_and_start_with_admitted_grants_def)
    then show ?thesis using Inl by (simp add: rolled_back_def)
  next
    case (Inr pos)
    note run = prepare_and_start_with_admitted_grants_def [of wc reg w p grants, unfolded Inr ord(1), simplified]
    from prepare_applications_ok [OF apps s0, of w] show ?thesis
    proof (elim disjE exE conjE)
      fix s e assume "prepare_applications wc reg w p grants order ?s0 = (s, Inl e)" "rolled_back (pn_trace s)"
      then show ?thesis using run prepare_applications_live [of reg w order wc p grants ?s0] apps by (auto simp: list_all_iff)
    next
      fix s new bs
      assume a: "prepare_applications wc reg w p grants order ?s0 = (s, Inr ())" "prep_ok s"
        "pn_trace s = pn_trace ?s0 @ map Prepared (planned_contexts reg p grants (length (pn_brokers ?s0)) order)"
        "pn_prepared s = pn_prepared ?s0 @ new"
        "map pd_application_kappa new = concat (map (\<lambda>i. replicate (length (app_layers p i)) (app_kappa p i)) order)"
        "pn_brokers s = pn_brokers ?s0 @ bs" "list_all2 (broker_ok p new) order bs"
      have inst: "map pd_instance new = [0..<length new]" using a(2,4) by (simp add: prep_ok_def)
      then have started: "map (\<lambda>l. Started (pd_instance l)) new = map Started [0..<length new]" by (simp only: inst [symmetric] map_map comp_def)
      from start_layers_ok [OF a(2), of w "pn_prepared s"] show ?thesis
      proof (elim disjE exE conjE)
        fix s' e assume "start_layers w (pn_prepared s) s = (s', Inl e)" "rolled_back (pn_trace s')"
        then show ?thesis using run a(1) start_layers_live [of reg w "pn_prepared s" s] by auto
      next
        assume "start_layers w (pn_prepared s) s = (s\<lparr>pn_trace := pn_trace s @ map (\<lambda>l. Started (pd_instance l)) (pn_prepared s)\<rparr>, Inr ())"
        then show ?thesis using run a inst started Inr by (simp add: state_from_value_def)
      qed
    qed
  qed
qed

text \<open>An early return between two preparations skips the rollback: when the registry does not serve
  a layer as the plan says, the layers prepared before it stay prepared.\<close>

lemma early_return_skips_rollback:
  assumes "provider_select wc reg (rl_kind l) (rl_aux l) = Inr (Some p)" "lp_name p = rl_provider l"
    and "lp_prepare p (pn_trace s) (prepare_context reg ident a l) = Inr pos" and "\<not> layer_served wc reg m"
  shows "\<exists>e. prepare_layers wc reg w ident a [l, m] s = (prepare_one a (prepare_context reg ident a l) pos s, Inl e)"
  using assms by (auto simp: layer_served_def prepare_one_def split: sum.splits option.splits)

text \<open>
  C5 Preparation is transactional. For every plan the planner made with a registry, whatever providers
  and layers answer, preparing and starting it ends. When it fails, everything that was prepared has
  been asked to stop, exactly once, the last prepared first, and nothing is called afterwards. When it
  succeeds the application is running under its admitted grants: the layers of every application of
  the tree were prepared once, parents before children, each with its application's identity, its
  admitted grant and its requested capabilities, then all were started in that order; nothing was
  stopped; and every application with a View has its intent broker bound to its own primary layer. It does
  succeed when the grant admits the plan, the primary layer can bear an exit code, every View has a
  primary layer to bind to, and no provider and no layer refuses.
\<close>
theorem lifecycle_transactional:
  assumes "limits_ok limits" and "manifest_codec_ok sp"
    and "explain_application sp wc dc b limits lookup = Some (Inr r)"
    and "into_application_plan (registry_evaluate wc reg r) = Inr p"
  shows "\<exists>tr res. prepare_and_start_with_grant sp wc reg w p g = Some (tr, res)
     \<and> (case res of
          Inl e \<Rightarrow> rolled_back tr
        | Inr ra \<Rightarrow> \<exists>grants order.
            admitted_grants sp p g = Inr grants \<and> lifecycle_application_order p = Some (Inr order)
            \<and> order = tree_preorder (ap_children p) 0 \<and> distinct order \<and> set order = insert 0 (rc_application_index ` set (ap_children p))
            \<and> tr = map Prepared (planned_contexts reg p grants 0 order) @ map Started [0..<length (ra_layers ra)]
            \<and> state_from_value (ra_state ra) = Running \<and> ra_identity ra = ap_identity p
            \<and> map pd_instance (ra_layers ra) = [0..<length (ra_layers ra)]
            \<and> map pd_application_kappa (ra_layers ra) = concat (map (\<lambda>i. replicate (length (app_layers p i)) (app_kappa p i)) order)
            \<and> list_all2 (broker_ok p (ra_layers ra)) order (ra_brokers ra))
     \<and> (willing reg w \<and> is_ok (admitted_grants sp p g) \<and> is_ok (check_primary p)
         \<and> list_all (view_bindable p) (tree_preorder (ap_children p) 0) \<longrightarrow> is_ok res)"
proof (cases "admitted_grants sp p g")
  case (Inl e)
  then show ?thesis by (simp add: prepare_and_start_with_grant_def rolled_back_def)
next
  case (Inr grants)
  have tree: "plan_ordered (ap_children p)" using planned_ordered [OF assms(1-3)] assms(4) by (simp add: registry_evaluate_def)
  have "dom grants = set (indices (ap_children p))" using admitted_grants_dom [OF tree Inr] by (simp add: indices_def)
  from prepare_and_start_admitted [OF tree into_plan_served [OF assms(4)] this, of w] obtain tr res where
    "prepare_and_start_with_admitted_grants wc reg w p grants = Some (tr, res)" and
    "case res of Inl e \<Rightarrow> rolled_back tr
        | Inr ra \<Rightarrow>
            tr = map Prepared (planned_contexts reg p grants 0 (tree_preorder (ap_children p) 0)) @ map Started [0..<length (ra_layers ra)]
            \<and> state_from_value (ra_state ra) = Running \<and> ra_identity ra = ap_identity p
            \<and> check_primary p = Inr (ra_primary_layer ra)
            \<and> map pd_instance (ra_layers ra) = [0..<length (ra_layers ra)]
            \<and> map pd_application_kappa (ra_layers ra)
                = concat (map (\<lambda>i. replicate (length (app_layers p i)) (app_kappa p i)) (tree_preorder (ap_children p) 0))
            \<and> list_all2 (broker_ok p (ra_layers ra)) (tree_preorder (ap_children p) 0) (ra_brokers ra)"
    "willing reg w \<and> is_ok (check_primary p) \<and> list_all (view_bindable p) (tree_preorder (ap_children p) 0) \<longrightarrow> is_ok res" by blast
  then show ?thesis using Inr lifecycle_order [OF tree]
    by (cases res) (auto simp: prepare_and_start_with_grant_def indices_def)
qed

definition demo_provider :: layer_provider where
  "demo_provider = \<lparr>lp_kind = RootfsImage, lp_contract = None, lp_name = ''rootfs'', lp_availability = (\<lambda>_ _. Inr ()),
     lp_prepare = (\<lambda>_ c. Inr (rl_position (px_layer c)))\<rparr>"

definition demo_providers :: provider_registry where
  "demo_providers = \<lparr>reg_target = Direct, reg_providers = [demo_provider]\<rparr>"

definition demo_world :: layer_world where
  "demo_world = \<lparr>lw_start = (\<lambda>_ _. Inr ()), lw_stop = (\<lambda>_ _. Inr ()),
     lw_invoke = (\<lambda>_ _ inputs. Inr \<lparr>li_outputs = inputs, li_completion = Exited 0, li_elapsed_micros = 0\<rparr>),
     lw_status = (\<lambda>_ _. \<lparr>lr_resident_bytes = 0, lr_queued = 0, lr_processed = 0\<rparr>)\<rparr>"

lemma demo_run_plan:
  obtains r p where "explain_application demo_space demo_contracts demo_codec demo_archive demo_limits demo_lookup = Some (Inr r)"
    "into_application_plan (registry_evaluate demo_contracts demo_providers r) = Inr p"
    "is_ok (admitted_grants demo_space p (local_baseline demo_space))" "is_ok (check_primary p)" "\<forall>i. \<not> has_view p i"
proof -
  obtain cs where r: "explain_application demo_space demo_contracts demo_codec demo_archive demo_limits demo_lookup =
     Some (Inr (plan_report_of demo_limits demo_input (demo_state cs)))" by (rule demo_explained)
  let ?r = "plan_report_of demo_limits demo_input (demo_state cs)"
  obtain p where p: "into_application_plan (registry_evaluate demo_contracts demo_providers ?r) = Inr p"
    "ap_requested p = demo_set" "\<exists>c. ap_children p = [c] \<and> rc_parent_application_index c = 0 \<and> rc_delegated c = demo_set \<and> rc_requested c = demo_set \<and> rc_layers c = []"
    "ap_primary_layer p = Some 0" "map rl_position (ap_layers p) = [0]" "map rl_kind (ap_layers p) = [RootfsImage]"
    by (simp add: plan_report_of_def Let_def registry_evaluate_def registry_availability_def provider_select_def demo_providers_def demo_provider_def
        evaluate_providers_def demo_state_def demo_input_def demo_root_def planned_layers_def sat32_def
        planned_layer_at_def source_of_def demo_objects_def demo_admission_def into_application_plan_def
        strict_layers_def strict_layer_def strict_child_def)
  have admits: "caps_admits demo_space empty_capabilities empty_capabilities"
    by (simp add: demo_space_def sample_space_def sample_admits_def)
  have "is_ok (admitted_grants demo_space p (local_baseline demo_space))"
    using p(2,3) admits by (auto simp: admitted_grants_def admitted_grants_with_def grant_authorize_def authorize_child_delegation_def local_baseline_def
        demo_set_def from_delegation_def Let_def)
  moreover have "is_ok (check_primary p)" using p(4-6) by (auto simp: check_primary_def)
  moreover obtain l where l: "ap_layers p = [l]" "rl_kind l = RootfsImage" using p(6) by auto
  have "\<not> has_view p i" for i
    using p(3) l by (auto simp: has_view_def app_layers_def child_at_def split: if_splits)
  ultimately show thesis using that [OF r p(1)] by blast
qed

theorem lifecycle_transactional_witness:
  "\<exists>r p tr ra. explain_application demo_space demo_contracts demo_codec demo_archive demo_limits demo_lookup = Some (Inr r)
     \<and> into_application_plan (registry_evaluate demo_contracts demo_providers r) = Inr p
     \<and> prepare_and_start_with_grant demo_space demo_contracts demo_providers demo_world p (local_baseline demo_space) = Some (tr, Inr ra)
     \<and> state_from_value (ra_state ra) = Running"
proof -
  obtain r p where r: "explain_application demo_space demo_contracts demo_codec demo_archive demo_limits demo_lookup = Some (Inr r)"
    and p: "into_application_plan (registry_evaluate demo_contracts demo_providers r) = Inr p"
    and ok: "is_ok (admitted_grants demo_space p (local_baseline demo_space))" "is_ok (check_primary p)" "\<forall>i. \<not> has_view p i"
    by (rule demo_run_plan)
  have w: "willing demo_providers demo_world" by (simp add: willing_def demo_providers_def demo_provider_def demo_world_def)
  have v: "list_all (view_bindable p) xs" for xs using ok(3) by (simp add: view_bindable_def list_all_iff)
  from lifecycle_transactional [OF demo_space_ok(1,2) r p, of demo_world "local_baseline demo_space"] show ?thesis
    apply (elim exE conjE)
    subgoal for tr res using w v ok(1,2) r p by (cases res) auto
    done
qed

end
