(* ===== verification/Running_Application.thy ===== *)
theory Running_Application
  imports Holo_Lifecycle
begin

text \<open>
  A running application (\<open>src/holo_provider.rs\<close>): invoking its primary layer, stopping it, its status, and
  the View intents of \<open>ApplicationIntentBroker\<close> with the request format of
  \<open>crates/hologram-view-surface/src/lib.rs\<close>. Each operation is one step under the gates it holds; how
  concurrent calls share the gates is the subject of theory \<open>Session_Gates\<close>. A stop whose future is
  dropped at one of its awaits is a step of its own.
\<close>

section \<open>Operations\<close>

definition running_state :: "running_application \<Rightarrow> lifecycle_state" where
  "running_state ra = state_from_value (ra_state ra)"

definition application_kappas :: "running_application \<Rightarrow> string list" where
  "application_kappas ra =
     foldl (\<lambda>ks l. if ks \<noteq> [] \<and> last ks = pd_application_kappa l then ks else ks @ [pd_application_kappa l]) [] (ra_layers ra)"

definition running_status :: "layer_world \<Rightarrow> layer_trace \<Rightarrow> running_application \<Rightarrow> layer_runtime_status" where
  "running_status w tr ra =
     foldl (\<lambda>acc l. let s = lw_status w tr (pd_instance l) in
        \<lparr>lr_resident_bytes = saturating_add64 (lr_resident_bytes acc) (lr_resident_bytes s),
         lr_queued = saturating_add64 (lr_queued acc) (lr_queued s),
         lr_processed = saturating_add64 (lr_processed acc) (lr_processed s)\<rparr>)
       \<lparr>lr_resident_bytes = 0, lr_queued = 0, lr_processed = 0\<rparr> (ra_layers ra)"

definition running_invoke ::
  "layer_world \<Rightarrow> bytes list \<Rightarrow> layer_trace \<Rightarrow> running_application \<Rightarrow> layer_trace \<times> layer_invocation live_result"
where
  "running_invoke w inputs tr ra =
     (let kappa = application_kappa (ra_identity ra) in
      if ra_brokers ra = [] then (tr, Inl (Conflict (''running application '' @ kappa @ '' lost its invocation gate'')))
      else if running_state ra \<noteq> Running then
        (tr, Inl (Conflict (''application '' @ kappa @ '' is not running (state '' @ state_debug (running_state ra) @ '')'')))
      else case find (\<lambda>l. pd_application_index l = 0 \<and> pd_position l = ra_primary_layer ra) (ra_layers ra) of
             None \<Rightarrow> (tr, Inl (Conflict (''running application '' @ kappa @ '' lost primary layer '' @ show_nat (ra_primary_layer ra))))
           | Some l \<Rightarrow> (tr @ [Invoked (pd_instance l) inputs], lw_invoke w tr (pd_instance l) inputs))"

text \<open>The compare-and-exchange succeeds at once: nobody else writes the state while the gates are
  held.\<close>

definition running_stop :: "layer_world \<Rightarrow> layer_trace \<Rightarrow> running_application \<Rightarrow> layer_trace \<times> running_application \<times> unit live_result" where
  "running_stop w tr ra =
     (let kappa = application_kappa (ra_identity ra) in
      case running_state ra of
        Stopped \<Rightarrow> (tr, ra, Inr ())
      | Stopping \<Rightarrow> (tr, ra, Inl (Conflict (''application '' @ kappa @ '' is already stopping'')))
      | Planned \<Rightarrow> (tr, ra, Inl (Conflict (''application '' @ kappa @ '' cannot stop from state Planned'')))
      | Preparing \<Rightarrow> (tr, ra, Inl (Conflict (''application '' @ kappa @ '' cannot stop from state Preparing'')))
      | _ \<Rightarrow>
          (let (tr', failures) = stop_reverse w (ra_layers ra) tr in
           if failures = [] then (tr', ra\<lparr>ra_state := state_value Stopped\<rparr>, Inr ())
           else (tr', ra\<lparr>ra_state := state_value Failed\<rparr>,
                 Inl (Conflict (''stop application '' @ kappa @ '' failed: '' @ join_with ''; '' failures)))))"

text \<open>A stop dropped after \<open>k\<close> of its layers were asked.\<close>

definition running_stop_dropped :: "layer_world \<Rightarrow> nat \<Rightarrow> layer_trace \<Rightarrow> running_application \<Rightarrow> layer_trace \<times> running_application" where
  "running_stop_dropped w k tr ra =
     (if running_state ra \<in> {Running, Failed}
      then (fst (stop_all w (take k (rev (ra_layers ra))) tr), ra\<lparr>ra_state := state_value Stopping\<rparr>)
      else (tr, ra))"

definition running_invoke_then_stop ::
  "layer_world \<Rightarrow> bytes list \<Rightarrow> layer_trace \<Rightarrow> running_application \<Rightarrow> layer_trace \<times> running_application \<times> layer_invocation live_result"
where
  "running_invoke_then_stop w inputs tr ra =
     (let (tr1, invocation) = running_invoke w inputs tr ra;
          (tr2, ra', stopped) = running_stop w tr1 ra in
      (tr2, ra',
       case (invocation, stopped) of
         (Inr outcome, Inr _) \<Rightarrow> Inr outcome
       | (Inl e, Inr _) \<Rightarrow> Inl e
       | (Inr _, Inl e) \<Rightarrow> Inl e
       | (Inl e, Inl stop_error) \<Rightarrow> Inl (with_rollback e [error_message stop_error])))"

section \<open>View intents\<close>

definition view_intent_version :: nat where "view_intent_version = 1"
definition application_invoke_intent :: string where "application_invoke_intent = ''application.invoke''"
definition max_intent_payload_bytes :: nat where "max_intent_payload_bytes = 64 * 1024"
definition max_intent_outputs :: nat where "max_intent_outputs = 16"
definition max_intent_output_bytes :: nat where "max_intent_output_bytes = 1024 * 1024"

record view_attachment_id =
  va_token :: string
  va_application_kappa :: string
  va_layer_position :: nat

record view_intent_request =
  vr_version :: nat
  vr_name :: string
  vr_payload :: string

record view_intent_response =
  vs_version :: nat
  vs_outputs :: "string list"

definition request_validate :: "view_intent_request \<Rightarrow> string + unit" where
  "request_validate r =
     (if vr_version r \<noteq> view_intent_version then
        Inl (''unsupported portable View intent version '' @ show_nat (vr_version r) @ ''; expected '' @ show_nat view_intent_version)
      else if vr_name r \<noteq> application_invoke_intent then
        Inl (''unsupported portable View intent '' @ debug_str (vr_name r) @ ''; expected '' @ debug_str application_invoke_intent)
      else if length (vr_payload r) > max_intent_payload_bytes then
        Inl (''portable View intent payload is '' @ show_nat (length (vr_payload r)) @ '' bytes; maximum is '' @ show_nat max_intent_payload_bytes)
      else Inr ())"

text \<open>The outputs as text, the first that is not UTF-8 being the error; \<open>utf8_problem\<close> is the standard
  library's description of it.\<close>

fun decode_outputs :: "(bytes \<Rightarrow> string) \<Rightarrow> nat \<Rightarrow> bytes list \<Rightarrow> string + string list" where
  "decode_outputs utf8_problem index [] = Inr []"
| "decode_outputs utf8_problem index (x # xs) =
     (if utf8_valid (map unat x)
      then bindE (decode_outputs utf8_problem (Suc index) xs) (\<lambda>ys. Inr (bytes_string x # ys))
      else Inl (''portable View intent output '' @ show_nat index @ '' is not UTF-8: '' @ utf8_problem x))"

definition broker_handle ::
  "(bytes \<Rightarrow> string) \<Rightarrow> layer_world \<Rightarrow> view_attachment_id \<Rightarrow> view_intent_request \<Rightarrow> layer_trace \<Rightarrow> intent_broker
     \<Rightarrow> layer_trace \<times> (string + view_intent_response)"
where
  "broker_handle utf8_problem w vid request tr b =
     (case request_validate request of
        Inl e \<Rightarrow> (tr, Inl e)
      | Inr _ \<Rightarrow>
          if va_application_kappa vid \<noteq> ib_application_kappa b
          then (tr, Inl ''portable View intent does not belong to this application'')
          else case ib_primary b of
            None \<Rightarrow> (tr, Inl ''portable View application primary is not ready'')
          | Some i \<Rightarrow>
              (let inputs = [string_bytes (vr_payload request)] in
               (tr @ [Invoked i inputs],
                case lw_invoke w tr i inputs of
                  Inl e \<Rightarrow> Inl (error_message e)
                | Inr outcome \<Rightarrow>
                    if length (li_outputs outcome) > max_intent_outputs then
                      Inl (''portable View intent returned '' @ show_nat (length (li_outputs outcome)) @ '' outputs; maximum is '' @ show_nat max_intent_outputs)
                    else bindE (decode_outputs utf8_problem 0 (li_outputs outcome)) (\<lambda>outputs.
                      let output_bytes = foldl (\<lambda>n x. saturating_add64 n (length x)) 0 (li_outputs outcome) in
                      if output_bytes > max_intent_output_bytes then
                        Inl (''portable View intent returned '' @ show_nat output_bytes @ '' bytes; maximum is '' @ show_nat max_intent_output_bytes)
                      else Inr \<lparr>vs_version = view_intent_version, vs_outputs = outputs\<rparr>))))"

section \<open>Steps of a running application\<close>

inductive app_step :: "layer_world \<Rightarrow> layer_trace \<times> running_application \<Rightarrow> layer_trace \<times> running_application \<Rightarrow> bool" for w where
  invoke: "app_step w (tr, ra) (fst (running_invoke w inputs tr ra), ra)"
| stop: "running_stop w tr ra = (tr', ra', r) \<Longrightarrow> app_step w (tr, ra) (tr', ra')"
| dropped: "app_step w (tr, ra) (running_stop_dropped w k tr ra)"
| intent: "k < length (ra_brokers ra) \<Longrightarrow> app_step w (tr, ra) (fst (broker_handle u w vid request tr (ra_brokers ra ! k)), ra)"

section \<open>Lifecycle of a running application\<close>

declare state_value.simps [simp del]

lemma running_state_update [simp]: "running_state (ra\<lparr>ra_state := state_value st\<rparr>) = st"
  by (simp add: running_state_def)

definition same_app :: "running_application \<Rightarrow> running_application \<Rightarrow> bool" where
  "same_app ra0 ra \<longleftrightarrow> ra = ra0\<lparr>ra_state := ra_state ra\<rparr>"

lemma same_app_simps [simp]: "same_app ra ra" "same_app ra0 (ra\<lparr>ra_state := v\<rparr>) \<longleftrightarrow> same_app ra0 ra"
  by (simp_all add: same_app_def) (cases ra0; cases ra; simp)

lemma same_app_layers: "same_app ra0 ra \<Longrightarrow> ra_layers ra = ra_layers ra0"
  by (cases ra0; cases ra) (simp add: same_app_def)

lemma stop_reverse_trace:
  obtains stops where "fst (stop_reverse w ls tr) = tr @ stops" "list_all2 stops_instance stops (rev (map pd_instance ls))"
    "snd (stop_reverse w ls tr) = [] \<longleftrightarrow> stops = map StopDone (rev (map pd_instance ls))"
  using stop_all_trace [of w "rev ls" tr] by (auto simp: stop_reverse_def rev_map)

lemma running_invoke_cases:
  "(fst (running_invoke w inputs tr ra) = tr \<and> \<not> is_ok (snd (running_invoke w inputs tr ra)))
   \<or> (running_state ra = Running \<and> (\<exists>l \<in> set (ra_layers ra). pd_application_index l = 0 \<and> pd_position l = ra_primary_layer ra
        \<and> running_invoke w inputs tr ra = (tr @ [Invoked (pd_instance l) inputs], lw_invoke w tr (pd_instance l) inputs)))"
  by (auto simp: running_invoke_def Let_def find_Some_iff split: option.splits)

lemma broker_handle_trace: "\<exists>calls. fst (broker_handle u w vid request tr b) = tr @ calls \<and> no_stop calls"
  by (auto simp: broker_handle_def Let_def split: sum.splits option.splits)

lemma running_stop_active:
  assumes "running_state ra \<in> {Running, Failed}"
  obtains stops r where "list_all2 stops_instance stops (rev (map pd_instance (ra_layers ra)))"
    "running_stop w tr ra = (tr @ stops, ra\<lparr>ra_state := state_value (if is_ok r then Stopped else Failed)\<rparr>, r)"
    "is_ok r \<longleftrightarrow> stops = map StopDone (rev (map pd_instance (ra_layers ra)))"
proof -
  obtain stops where s: "fst (stop_reverse w (ra_layers ra) tr) = tr @ stops" "list_all2 stops_instance stops (rev (map pd_instance (ra_layers ra)))"
    "snd (stop_reverse w (ra_layers ra) tr) = [] \<longleftrightarrow> stops = map StopDone (rev (map pd_instance (ra_layers ra)))"
    by (rule stop_reverse_trace)
  define fs where "fs = snd (stop_reverse w (ra_layers ra) tr)"
  have e: "stop_reverse w (ra_layers ra) tr = (tr @ stops, fs)" using s(1) by (metis fs_def prod.collapse)
  show thesis
  proof (cases "fs = []")
    case True
    then show thesis using that [of stops "Inr ()"] assms s(2,3) e by (auto simp: running_stop_def Let_def)
  next
    case False
    then show thesis using that [of stops "Inl (Conflict (''stop application '' @ application_kappa (ra_identity ra) @ '' failed: '' @ join_with ''; '' fs))"]
      assms s(2,3) e by (auto simp: running_stop_def Let_def)
  qed
qed

definition app_history :: "layer_trace \<Rightarrow> running_application \<Rightarrow> layer_trace \<times> running_application \<Rightarrow> bool" where
  "app_history tr0 ra0 s \<longleftrightarrow> (\<exists>more. fst s = tr0 @ more
     \<and> same_app ra0 (snd s) \<and> running_state (snd s) \<in> {Running, Stopping, Stopped, Failed}
     \<and> (running_state (snd s) = Running \<longrightarrow> no_stop more)
     \<and> (running_state (snd s) = Stopped \<longrightarrow>
          (\<exists>before after. more = before @ map StopDone (rev (map pd_instance (ra_layers ra0))) @ after \<and> no_stop after)))"

lemma app_history_call:
  assumes "app_history tr0 ra0 (tr, ra)" "no_stop calls"
  shows "app_history tr0 ra0 (tr @ calls, ra)"
  using assms by (auto simp: app_history_def) (metis append.assoc no_stop_append)+

lemma app_history_state:
  assumes "app_history tr0 ra0 (tr, ra)" "st \<in> {Stopping, Failed}"
  shows "app_history tr0 ra0 (tr @ calls, ra\<lparr>ra_state := state_value st\<rparr>)"
  using assms by (auto simp: app_history_def)

lemma app_history_stopped:
  assumes "app_history tr0 ra0 (tr, ra)"
  shows "app_history tr0 ra0 (tr @ map StopDone (rev (map pd_instance (ra_layers ra0))), ra\<lparr>ra_state := state_value Stopped\<rparr>)"
proof -
  obtain more where "tr = tr0 @ more" "same_app ra0 ra" using assms by (auto simp: app_history_def)
  moreover have "\<exists>before after. more @ xs = before @ xs @ after \<and> no_stop after" for xs
    by (rule exI [of _ more], rule exI [of _ "[]"]) simp
  ultimately show ?thesis unfolding app_history_def
    by (intro exI [of _ "more @ map StopDone (rev (map pd_instance (ra_layers ra0)))"]) auto
qed

lemma app_step_history:
  assumes "app_step w s t" "app_history tr0 ra0 s"
  shows "app_history tr0 ra0 t"
  using assms(1)
proof (cases rule: app_step.cases)
  case (invoke tr ra inputs)
  then show ?thesis using running_invoke_cases [of w inputs tr ra] assms(2) app_history_call [of tr0 ra0 tr ra "[Invoked _ inputs]"] by auto
next
  case (stop tr ra tr' ra' r)
  have h: "app_history tr0 ra0 (tr, ra)" using assms(2) stop(1) by simp
  show ?thesis
  proof (cases "running_state ra \<in> {Running, Failed}")
    case True
    then obtain stops r' where s: "running_stop w tr ra = (tr @ stops, ra\<lparr>ra_state := state_value (if is_ok r' then Stopped else Failed)\<rparr>, r')"
      "is_ok r' \<longleftrightarrow> stops = map StopDone (rev (map pd_instance (ra_layers ra)))" by (rule running_stop_active)
    have lay: "ra_layers ra = ra_layers ra0" using h same_app_layers by (auto simp: app_history_def)
    show ?thesis
    proof (cases "is_ok r'")
      case True
      then show ?thesis using s stop lay app_history_stopped [OF h] by simp
    next
      case False
      then show ?thesis using s stop app_history_state [OF h, of Failed stops] by simp
    qed
  next
    case False
    then have "running_state ra \<in> {Stopping, Stopped}" using h by (auto simp: app_history_def)
    then show ?thesis using stop h by (auto simp: running_stop_def Let_def)
  qed
next
  case (dropped tr ra k)
  have h: "app_history tr0 ra0 (tr, ra)" using assms(2) dropped(1) by simp
  obtain calls where "fst (stop_all w (take k (rev (ra_layers ra))) tr) = tr @ calls" using stop_all_trace by blast
  then show ?thesis using dropped h app_history_state [OF h, of Stopping calls] by (auto simp: running_stop_dropped_def)
next
  case (intent k ra tr u vid request)
  then show ?thesis using assms(2) broker_handle_trace [of u w vid request tr "ra_brokers ra ! k"] app_history_call by metis
qed

text \<open>
  C24 The lifecycle of a running application. Whatever is invoked, stopped, dropped or sent by a View, a
  running application keeps its layers, and its state is running, stopping, stopped or failed. While it
  is running no layer was asked to stop. A stop of a running or failed application asks every layer once,
  last prepared first, whatever the earlier ones answered; it succeeds exactly when all agree, and then
  the application is stopped, else failed and a later stop asks all of them again. A stop of a stopped
  application succeeds without a call; once a stop was dropped half-way every later stop is refused
  without a call. An invocation calls a layer only while the application is running, and only the
  primary layer of the root. A stopped application had every layer stopped by one such pass, and none
  since.
\<close>
theorem running_application_lifecycle:
  assumes "(app_step w)\<^sup>*\<^sup>* (tr0, ra0) (tr, ra)" and "running_state ra0 = Running"
  shows "same_app ra0 ra \<and> running_state ra \<in> {Running, Stopping, Stopped, Failed}
     \<and> (\<exists>more. tr = tr0 @ more \<and> (running_state ra = Running \<longrightarrow> no_stop more)
          \<and> (running_state ra = Stopped \<longrightarrow>
               (\<exists>before after. more = before @ map StopDone (rev (map pd_instance (ra_layers ra0))) @ after \<and> no_stop after)))
     \<and> (case running_stop w tr ra of (tr', ra', r) \<Rightarrow>
          (case running_state ra of
             Stopped \<Rightarrow> tr' = tr \<and> ra' = ra \<and> r = Inr ()
           | Stopping \<Rightarrow> tr' = tr \<and> ra' = ra \<and> \<not> is_ok r
           | _ \<Rightarrow> \<exists>stops. tr' = tr @ stops \<and> list_all2 stops_instance stops (rev (map pd_instance (ra_layers ra)))
                  \<and> (is_ok r \<longleftrightarrow> stops = map StopDone (rev (map pd_instance (ra_layers ra))))
                  \<and> running_state ra' = (if is_ok r then Stopped else Failed)))
     \<and> (case running_invoke w inputs tr ra of (tr', r) \<Rightarrow>
          tr' = tr \<and> \<not> is_ok r
          \<or> running_state ra = Running \<and> (\<exists>l \<in> set (ra_layers ra). pd_application_index l = 0 \<and> pd_position l = ra_primary_layer ra
               \<and> tr' = tr @ [Invoked (pd_instance l) inputs] \<and> r = lw_invoke w tr (pd_instance l) inputs))"
  (is "?same \<and> ?states \<and> ?hist \<and> ?stop \<and> ?invoke")
proof -
  have "app_history tr0 ra0 (tr, ra)" using assms(1)
  proof (induction rule: rtranclp_induct)
    case base
    then show ?case using assms(2) by (auto simp: app_history_def)
  next
    case (step s t)
    then show ?case using app_step_history by blast
  qed
  then have h: ?same ?states ?hist by (auto simp: app_history_def)
  have ?stop
  proof (cases "running_state ra \<in> {Running, Failed}")
    case True
    then obtain stops r where s: "list_all2 stops_instance stops (rev (map pd_instance (ra_layers ra)))"
      "running_stop w tr ra = (tr @ stops, ra\<lparr>ra_state := state_value (if is_ok r then Stopped else Failed)\<rparr>, r)"
      "is_ok r \<longleftrightarrow> stops = map StopDone (rev (map pd_instance (ra_layers ra)))" by (rule running_stop_active)
    then show ?thesis using True by auto
  next
    case False
    then show ?thesis using h(2) by (auto simp: running_stop_def Let_def)
  qed
  moreover have ?invoke using running_invoke_cases [of w inputs tr ra] by (auto simp: split_beta)
  ultimately show ?thesis using h by blast
qed

theorem running_application_lifecycle_witness:
  "let ra = \<lparr>ra_identity = \<lparr>archive_kappa = [], archive_fingerprint = [], application_kappa = ''a''\<rparr>, ra_primary_layer = 0,
             ra_layers = [\<lparr>pd_application_index = 0, pd_application_kappa = ''a'', pd_instance = 0, pd_position = 0\<rparr>],
             ra_state = state_value Running, ra_brokers = [intent_broker_new ''a'']\<rparr>
   in running_stop demo_world [Started 0] ra
        = ([Started 0, StopDone 0], ra\<lparr>ra_state := state_value Stopped\<rparr>, Inr ())
      \<and> running_state ra \<in> {Running, Stopping, Stopped, Failed}"
proof -
  let ?ra = "\<lparr>ra_identity = \<lparr>archive_kappa = [], archive_fingerprint = [], application_kappa = ''a''\<rparr>, ra_primary_layer = 0,
             ra_layers = [\<lparr>pd_application_index = 0, pd_application_kappa = ''a'', pd_instance = 0, pd_position = 0\<rparr>],
             ra_state = state_value Running, ra_brokers = [intent_broker_new ''a'']\<rparr>"
  have "running_state ?ra = Running" by (simp add: running_state_def)
  from running_application_lifecycle [OF rtranclp.rtrancl_refl this, where w = demo_world and tr = "[Started 0]"]
  show ?thesis unfolding Let_def
    by (simp add: running_stop_def running_state_def stop_reverse_def demo_world_def)
qed

section \<open>View intents are confined\<close>

lemma decode_outputs_Inr:
  "decode_outputs u n xs = Inr ys \<longleftrightarrow> list_all (\<lambda>x. utf8_valid (map unat x)) xs \<and> ys = map bytes_string xs"
  by (induction xs arbitrary: n ys) (auto simp: bindE_eq_Inr)

lemma saturating_sum:
  "foldl (\<lambda>n x. saturating_add64 n (length x)) (min k u64_max) xs = min (k + sum_list (map length xs)) u64_max"
proof (induction xs arbitrary: k)
  case (Cons x xs)
  have "saturating_add64 (min k u64_max) (length x) = min (k + length x) u64_max" by (simp add: saturating_add64_def)
  then show ?case using Cons [of "k + length x"] by (simp add: add.assoc)
qed simp

lemma saturating_sum_bound:
  "foldl (\<lambda>n x. saturating_add64 n (length x)) 0 xs > max_intent_output_bytes \<longleftrightarrow> sum_list (map length xs) > max_intent_output_bytes"
  using saturating_sum [of 0 xs] by (simp add: max_intent_output_bytes_def)

text \<open>
  C35 View intents are confined. A View reaches exactly one layer, the primary its application's broker
  is bound to, with exactly its payload, and only with a request of the supported version and name, of at
  most 64 KiB, under the identity of that application; anything else calls no layer. It is answered with
  the outputs of that one invocation, all of them and unchanged, exactly when there are at most 16, they
  are at most 1 MiB together and each is UTF-8.
\<close>
theorem view_intent_confined:
  "fst (broker_handle u w vid request tr b) =
     (if vr_version request = 1 \<and> vr_name request = ''application.invoke'' \<and> length (vr_payload request) \<le> 65536
         \<and> va_application_kappa vid = ib_application_kappa b
      then case ib_primary b of None \<Rightarrow> tr | Some i \<Rightarrow> tr @ [Invoked i [string_bytes (vr_payload request)]]
      else tr)
   \<and> (snd (broker_handle u w vid request tr b) = Inr response \<longleftrightarrow>
        vr_version request = 1 \<and> vr_name request = ''application.invoke'' \<and> length (vr_payload request) \<le> 65536
        \<and> va_application_kappa vid = ib_application_kappa b
        \<and> (\<exists>i outcome. ib_primary b = Some i \<and> lw_invoke w tr i [string_bytes (vr_payload request)] = Inr outcome
             \<and> length (li_outputs outcome) \<le> 16 \<and> sum_list (map length (li_outputs outcome)) \<le> 1048576
             \<and> list_all (\<lambda>x. utf8_valid (map unat x)) (li_outputs outcome)
             \<and> response = \<lparr>vs_version = 1, vs_outputs = map bytes_string (li_outputs outcome)\<rparr>))"
proof -
  let ?valid = "vr_version request = 1 \<and> vr_name request = ''application.invoke'' \<and> length (vr_payload request) \<le> 65536"
  have valid: "request_validate request = Inr () \<longleftrightarrow> ?valid"
    by (auto simp: request_validate_def view_intent_version_def application_invoke_intent_def max_intent_payload_bytes_def)
  show ?thesis
  proof (cases "?valid \<and> va_application_kappa vid = ib_application_kappa b")
    case False
    then show ?thesis using valid by (cases "request_validate request") (auto simp: broker_handle_def)
  next
    case True
    then have r: "request_validate request = Inr ()" using valid by blast
    show ?thesis
    proof (cases "ib_primary b")
      case None
      then show ?thesis using True r by (simp add: broker_handle_def)
    next
      case (Some i)
      have bound: "1048576 < foldl (\<lambda>n x. saturating_add64 n (length x)) 0 xs \<longleftrightarrow> 1048576 < sum_list (map length xs)" for xs :: "bytes list"
        using saturating_sum_bound [of xs] by (simp add: max_intent_output_bytes_def)
      show ?thesis
        using True r Some
        by (cases "lw_invoke w tr i [string_bytes (vr_payload request)]")
           (auto simp: broker_handle_def Let_def bindE_eq_Inr decode_outputs_Inr max_intent_outputs_def max_intent_output_bytes_def
             view_intent_version_def bound simp flip: not_less)
    qed
  qed
qed

end
