(* ===== verification/Session_Gates.thy ===== *)
theory Session_Gates
  imports Running_Application
begin

text \<open>
  Concurrent calls on a running application (\<open>src/holo_provider.rs\<close>). Every application of the tree has
  one gate, an asynchronous mutex: an invocation of the root holds the first gate, a View intent the
  gate of its application, and a stop takes all gates one after the other before it touches a layer. A
  step is what one caller does between two points where another may run; a caller may be dropped
  while it waits for a gate and while a layer answers, which releases what it holds. The layers of
  the application, in the order a stop asks them, are a parameter.
\<close>

section \<open>Callers and steps\<close>

datatype caller =
    Idle
  | InvokeWaiting
  | InvokeBusy
  | IntentWaiting nat
  | IntentBusy nat
  | StopTaking nat
  | StopBusy "nat list" bool

record gates =
  gt_state :: lifecycle_state
  gt_owner :: "nat \<Rightarrow> nat option"
  gt_caller :: "nat \<Rightarrow> caller"

definition gates_new :: gates where
  "gates_new = \<lparr>gt_state = Running, gt_owner = (\<lambda>_. None), gt_caller = (\<lambda>_. Idle)\<rparr>"

definition go :: "nat \<Rightarrow> caller \<Rightarrow> gates \<Rightarrow> gates" where
  "go t c g = g\<lparr>gt_caller := (gt_caller g)(t := c)\<rparr>"

definition lock :: "nat \<Rightarrow> nat \<Rightarrow> gates \<Rightarrow> gates" where
  "lock t j g = g\<lparr>gt_owner := (gt_owner g)(j \<mapsto> t)\<rparr>"

text \<open>Dropping every guard a caller holds.\<close>

definition release :: "nat \<Rightarrow> gates \<Rightarrow> gates" where
  "release t g = g\<lparr>gt_owner := (\<lambda>j. if gt_owner g j = Some t then None else gt_owner g j)\<rparr>"

text \<open>\<open>n\<close> gates, and the layers a stop asks.\<close>

inductive gate_step :: "nat \<Rightarrow> nat list \<Rightarrow> gates \<Rightarrow> gates \<Rightarrow> bool" for n layers where
  begin_invoke: "gt_caller g t = Idle \<Longrightarrow> gate_step n layers g (go t InvokeWaiting g)"
| begin_intent: "gt_caller g t = Idle \<Longrightarrow> k < n \<Longrightarrow> gate_step n layers g (go t (IntentWaiting k) g)"
| begin_stop: "gt_caller g t = Idle \<Longrightarrow> gate_step n layers g (go t (StopTaking 0) g)"
| invoke_admitted:
    "gt_caller g t = InvokeWaiting \<Longrightarrow> gt_owner g 0 = None \<Longrightarrow> gt_state g = Running
       \<Longrightarrow> gate_step n layers g (go t InvokeBusy (lock t 0 g))"
| invoke_refused:
    "gt_caller g t = InvokeWaiting \<Longrightarrow> gt_owner g 0 = None \<Longrightarrow> gt_state g \<noteq> Running \<Longrightarrow> gate_step n layers g (go t Idle g)"
| invoke_done: "gt_caller g t = InvokeBusy \<Longrightarrow> gate_step n layers g (go t Idle (release t g))"
| intent_admitted:
    "gt_caller g t = IntentWaiting k \<Longrightarrow> gt_owner g k = None \<Longrightarrow> gate_step n layers g (go t (IntentBusy k) (lock t k g))"
| intent_done: "gt_caller g t = IntentBusy k \<Longrightarrow> gate_step n layers g (go t Idle (release t g))"
| stop_takes:
    "gt_caller g t = StopTaking j \<Longrightarrow> j < n \<Longrightarrow> gt_owner g j = None \<Longrightarrow> gate_step n layers g (go t (StopTaking (Suc j)) (lock t j g))"
| stop_refused:
    "gt_caller g t = StopTaking n \<Longrightarrow> gt_state g \<notin> {Running, Failed} \<Longrightarrow> gate_step n layers g (go t Idle (release t g))"
| stop_begins:
    "gt_caller g t = StopTaking n \<Longrightarrow> gt_state g \<in> {Running, Failed}
       \<Longrightarrow> gate_step n layers g (go t (StopBusy layers True) (g\<lparr>gt_state := Stopping\<rparr>))"
| stop_layer: "gt_caller g t = StopBusy (l # ls) ok \<Longrightarrow> gate_step n layers g (go t (StopBusy ls (ok \<and> agreed)) g)"
| stop_done:
    "gt_caller g t = StopBusy [] ok
       \<Longrightarrow> gate_step n layers g (go t Idle (release t (g\<lparr>gt_state := (if ok then Stopped else Failed)\<rparr>)))"
| dropped: "gt_caller g t \<noteq> Idle \<Longrightarrow> gate_step n layers g (go t Idle (release t g))"

text \<open>A step of a call under way, other than its being dropped or a new call.\<close>

definition advances :: "gates \<Rightarrow> gates \<Rightarrow> nat \<Rightarrow> bool" where
  "advances g g' t \<longleftrightarrow> gt_caller g t \<noteq> Idle \<and> gt_caller g' t \<noteq> gt_caller g t \<and> (\<forall>u. u \<noteq> t \<longrightarrow> gt_caller g' u = gt_caller g u)"

section \<open>The invariant\<close>

fun holds :: "nat \<Rightarrow> caller \<Rightarrow> nat \<Rightarrow> bool" where
  "holds n InvokeBusy j = (j = 0)"
| "holds n (IntentBusy k) j = (j = k)"
| "holds n (StopTaking m) j = (j < m)"
| "holds n (StopBusy ls ok) j = (j < n)"
| "holds n _ j = False"

fun caller_ok :: "nat \<Rightarrow> caller \<Rightarrow> bool" where
  "caller_ok n (IntentWaiting k) = (k < n)"
| "caller_ok n (IntentBusy k) = (k < n)"
| "caller_ok n (StopTaking m) = (m \<le> n)"
| "caller_ok n _ = True"

definition gates_ok :: "nat \<Rightarrow> gates \<Rightarrow> bool" where
  "gates_ok n g \<longleftrightarrow> (\<forall>t j. gt_owner g j = Some t \<longleftrightarrow> holds n (gt_caller g t) j) \<and> (\<forall>t. caller_ok n (gt_caller g t))
     \<and> (\<forall>t ls ok. gt_caller g t = StopBusy ls ok \<longrightarrow> gt_state g = Stopping)
     \<and> gt_state g \<in> {Running, Stopping, Stopped, Failed}"

lemma gates_simps [simp]:
  "gt_caller (go t c g) = (gt_caller g)(t := c)" "gt_owner (go t c g) = gt_owner g" "gt_state (go t c g) = gt_state g"
  "gt_caller (lock t j g) = gt_caller g" "gt_owner (lock t j g) = (gt_owner g)(j \<mapsto> t)" "gt_state (lock t j g) = gt_state g"
  "gt_caller (release t g) = gt_caller g" "gt_state (release t g) = gt_state g"
  "gt_owner (release t g) j = Some u \<longleftrightarrow> gt_owner g j = Some u \<and> u \<noteq> t"
  by (auto simp: go_def lock_def release_def)

lemma stop_excludes:
  assumes "gates_ok n g" "0 < n" "gt_caller g t = StopBusy ls ok \<or> gt_caller g t = StopTaking n" "u \<noteq> t"
  shows "\<not> holds n (gt_caller g u) j" "gt_caller g u \<notin> {InvokeBusy, IntentBusy k, StopBusy ls' ok'}"
proof -
  have all: "holds n (gt_caller g t) i" if "i < n" for i using assms(3) that by auto
  then have own: "gt_owner g i = Some t" if "i < n" for i using assms(1) that by (simp add: gates_ok_def)
  have "\<not> holds n (gt_caller g u) i" if "i < n" for i using own [OF that] assms(1,4) by (metis gates_ok_def option.inject)
  moreover have "holds n (gt_caller g u) i \<Longrightarrow> i < n" for i
    using assms(1,2) by (cases "gt_caller g u") (auto simp: gates_ok_def dest: spec [of _ u])
  ultimately show no: "\<not> holds n (gt_caller g u) j" for j by blast
  show "gt_caller g u \<notin> {InvokeBusy, IntentBusy k, StopBusy ls' ok'}" using no [of 0] no [of k] assms(2) by auto
qed

lemma gates_okD:
  assumes "gates_ok n g"
  shows "gt_owner g j = Some t \<longleftrightarrow> holds n (gt_caller g t) j" "caller_ok n (gt_caller g t)"
    "gt_caller g t = StopBusy ls ok \<Longrightarrow> gt_state g = Stopping" "gt_state g \<in> {Running, Stopping, Stopped, Failed}"
  using assms by (auto simp: gates_ok_def)

lemma gates_ok_lock:
  assumes ok: "gates_ok n g" and free: "gt_owner g j = None"
    and c: "\<And>i. holds n c i \<longleftrightarrow> holds n (gt_caller g t) i \<or> i = j" "caller_ok n c" "\<And>ls b. c \<noteq> StopBusy ls b"
  shows "gates_ok n (go t c (lock t j g))"
proof -
  have "\<not> holds n (gt_caller g u) j" for u using free gates_okD(1) [OF ok, of j u] by simp
  then show ?thesis using ok c by (auto simp: gates_ok_def)
qed

lemma gates_ok_release: "gates_ok n g \<Longrightarrow> gates_ok n (go t Idle (release t g))"
  by (auto simp: gates_ok_def)

lemma gates_ok_go:
  "gates_ok n g \<Longrightarrow> (\<And>i. holds n c i \<longleftrightarrow> holds n (gt_caller g t) i) \<Longrightarrow> caller_ok n c
     \<Longrightarrow> (\<And>ls b. c = StopBusy ls b \<Longrightarrow> gt_state g = Stopping) \<Longrightarrow> gates_ok n (go t c g)"
  by (auto simp: gates_ok_def)

lemma gates_ok_state:
  assumes "gates_ok n g" "\<And>u ls b. u \<noteq> t \<Longrightarrow> gt_caller g u \<noteq> StopBusy ls b" "st \<in> {Running, Stopping, Stopped, Failed}"
    "\<And>ls b. gt_caller g t = StopBusy ls b \<Longrightarrow> st = Stopping"
  shows "gates_ok n (g\<lparr>gt_state := st\<rparr>)"
  using assms by (fastforce simp: gates_ok_def)

lemma gate_step_ok:
  assumes "gate_step n layers g g'" and ok: "gates_ok n g" and n: "0 < n"
  shows "gates_ok n g'"
  using assms(1)
proof cases
  case (invoke_admitted t)
  then show ?thesis by (auto intro!: gates_ok_lock [OF ok])
next
  case (intent_admitted t k)
  then show ?thesis using gates_okD(2) [OF ok, of t] by (auto intro!: gates_ok_lock [OF ok])
next
  case (stop_takes t j)
  then show ?thesis by (auto intro!: gates_ok_lock [OF ok])
next
  case (stop_begins t)
  have "gt_caller g u \<noteq> StopBusy ls b" if "u \<noteq> t" for u ls b
    using stop_excludes(2) [OF ok n disjI2 [OF stop_begins(2)] that, of 0 ls b] by auto
  then have "gates_ok n (g\<lparr>gt_state := Stopping\<rparr>)" using stop_begins by (intro gates_ok_state [OF ok]) auto
  then show ?thesis using stop_begins by (auto intro!: gates_ok_go)
next
  case (stop_layer t l ls b agreed)
  then show ?thesis using gates_okD(3) [OF ok stop_layer(2)] by (auto intro!: gates_ok_go [OF ok])
next
  case (stop_done t b)
  have other: "gt_caller g u \<noteq> StopBusy ls b'" if "u \<noteq> t" for u ls b'
    using stop_excludes(2) [OF ok n disjI1 [OF stop_done(2)] that, of 0 ls b'] by auto
  have "gates_ok n (go t Idle (release t g))" by (rule gates_ok_release [OF ok])
  then have "gates_ok n ((go t Idle (release t g))\<lparr>gt_state := (if b then Stopped else Failed)\<rparr>)"
    by (rule gates_ok_state [where t = t]) (use other in auto)
  moreover have "go t Idle (release t (g\<lparr>gt_state := st\<rparr>)) = (go t Idle (release t g))\<lparr>gt_state := st\<rparr>" for st
    by (cases g) (simp add: go_def release_def fun_eq_iff)
  ultimately show ?thesis using stop_done by simp
qed (use gates_ok_release [OF ok] in \<open>auto intro!: gates_ok_go [OF ok]\<close>)

lemma gates_reachable_ok: "(gate_step n layers)\<^sup>*\<^sup>* gates_new g \<Longrightarrow> 0 < n \<Longrightarrow> gates_ok n g"
proof (induction rule: rtranclp_induct)
  case base
  show ?case by (simp add: gates_ok_def gates_new_def)
next
  case (step g g')
  then show ?case using gate_step_ok by blast
qed

section \<open>No deadlock\<close>

lemma advancesI:
  assumes "gate_step n layers g (go t c h)" "gt_caller h = gt_caller g" "gt_caller g t \<noteq> Idle" "c \<noteq> gt_caller g t"
  shows "\<exists>u g'. gate_step n layers g g' \<and> advances g g' u"
  using assms by (intro exI [of _ t] exI [of _ "go t c h"]) (simp add: advances_def)

lemma advance_busy:
  assumes "gt_caller g t = InvokeBusy \<or> (\<exists>k. gt_caller g t = IntentBusy k) \<or> (\<exists>ls b. gt_caller g t = StopBusy ls b)"
  shows "\<exists>u g'. gate_step n layers g g' \<and> advances g g' u"
proof -
  from assms consider "gt_caller g t = InvokeBusy" | k where "gt_caller g t = IntentBusy k" | b where "gt_caller g t = StopBusy [] b"
    | l ls b where "gt_caller g t = StopBusy (l # ls) b"
    by (metis list.exhaust)
  then show ?thesis
  proof cases
    case 1
    then show ?thesis by (intro advancesI [OF invoke_done [OF 1]]) simp_all
  next
    case (2 k)
    then show ?thesis by (intro advancesI [OF intent_done [OF 2]]) simp_all
  next
    case (3 b)
    then show ?thesis by (intro advancesI [OF stop_done [OF 3]]) simp_all
  next
    case (4 l ls b)
    then show ?thesis by (intro advancesI [OF stop_layer [OF 4, of _ _ True]]) simp_all
  qed
qed

text \<open>The owner of a gate can go on, or waits for a gate whose owner can.\<close>

lemma advance_stop:
  assumes ok: "gates_ok n g" and n: "0 < n" and t: "gt_caller g t = StopTaking m" and m: "0 < m"
  shows "\<exists>u g'. gate_step n layers g g' \<and> advances g g' u"
proof (cases "m < n")
  case False
  then have t': "gt_caller g t = StopTaking n" using t gates_okD(2) [OF ok, of t] by simp
  show ?thesis
  proof (cases "gt_state g \<in> {Running, Failed}")
    case True
    then show ?thesis using t by (intro advancesI [OF stop_begins [OF t']]) simp_all
  next
    case False
    then show ?thesis using t by (intro advancesI [OF stop_refused [OF t']]) simp_all
  qed
next
  case True
  show ?thesis
  proof (cases "gt_owner g m")
    case None
    then show ?thesis using t by (intro advancesI [OF stop_takes [OF t True]]) simp_all
  next
    case (Some u)
    have own0: "gt_owner g 0 = Some t" using gates_okD(1) [OF ok, of 0 t] t m by simp
    have h: "holds n (gt_caller g u) m" using Some gates_okD(1) [OF ok] by simp
    then have "u \<noteq> t" using t by auto
    then have "\<not> holds n (gt_caller g u) 0" using own0 gates_okD(1) [OF ok, of 0 u] by simp
    then obtain k where "gt_caller g u = IntentBusy k" using h n by (cases "gt_caller g u") auto
    then show ?thesis using advance_busy [of g u] by blast
  qed
qed

lemma advance_owner:
  assumes ok: "gates_ok n g" and n: "0 < n" and h: "gt_owner g j = Some t"
  shows "\<exists>u g'. gate_step n layers g g' \<and> advances g g' u"
proof -
  have "holds n (gt_caller g t) j" using h gates_okD(1) [OF ok] by simp
  then show ?thesis
  proof (cases "gt_caller g t")
    case (StopTaking m)
    then show ?thesis using advance_stop [OF ok n StopTaking] \<open>holds n (gt_caller g t) j\<close> by auto
  qed (use advance_busy [of g t n layers] in auto)
qed

lemma gates_progress:
  assumes ok: "gates_ok n g" and n: "0 < n" and t: "gt_caller g t \<noteq> Idle"
  shows "\<exists>u g'. gate_step n layers g g' \<and> advances g g' u"
proof (cases "gt_caller g t")
  case InvokeWaiting
  show ?thesis
  proof (cases "gt_owner g 0")
    case None
    show ?thesis
    proof (cases "gt_state g = Running")
      case True
      then show ?thesis using InvokeWaiting by (intro advancesI [OF invoke_admitted [OF InvokeWaiting None]]) simp_all
    next
      case False
      then show ?thesis using InvokeWaiting by (intro advancesI [OF invoke_refused [OF InvokeWaiting None]]) simp_all
    qed
  qed (use advance_owner [OF ok n] in blast)
next
  case (IntentWaiting k)
  show ?thesis
  proof (cases "gt_owner g k")
    case None
    then show ?thesis using IntentWaiting by (intro advancesI [OF intent_admitted [OF IntentWaiting None]]) simp_all
  qed (use advance_owner [OF ok n] in blast)
next
  case (StopTaking m)
  show ?thesis
  proof (cases "m = 0")
    case True
    show ?thesis
    proof (cases "gt_owner g 0")
      case None
      then show ?thesis using StopTaking True n by (intro advancesI [OF stop_takes [of g t 0]]) simp_all
    qed (use advance_owner [OF ok n] in blast)
  qed (use advance_stop [OF ok n StopTaking] in simp)
qed (use t advance_busy [of g t n layers] in auto)

text \<open>A View intent that waited at its gate while the application was stopped is admitted afterwards:
  it does not look at the state.\<close>

lemma intent_after_stop:
  "\<exists>g. (gate_step 1 [0])\<^sup>*\<^sup>* gates_new g \<and> gt_state g = Stopped \<and> gt_caller g 7 = IntentBusy 0"
proof -
  let ?g1 = "go 7 (IntentWaiting 0) gates_new"
  let ?g2 = "go 5 (StopTaking 0) ?g1"
  let ?g3 = "go 5 (StopTaking 1) (lock 5 0 ?g2)"
  let ?g4 = "go 5 (StopBusy [0] True) (?g3\<lparr>gt_state := Stopping\<rparr>)"
  let ?g5 = "go 5 (StopBusy [] True) ?g4"
  let ?g6 = "go 5 Idle (release 5 (?g5\<lparr>gt_state := Stopped\<rparr>))"
  let ?g7 = "go 7 (IntentBusy 0) (lock 7 0 ?g6)"
  have 1: "gate_step 1 [0] gates_new ?g1" by (rule begin_intent) (simp_all add: gates_new_def)
  have 2: "gate_step 1 [0] ?g1 ?g2" by (rule begin_stop) (simp add: gates_new_def)
  have 3: "gate_step 1 [0] ?g2 ?g3" using stop_takes [of ?g2 5 0 1 "[0]"] by (simp add: gates_new_def)
  have 4: "gate_step 1 [0] ?g3 ?g4" by (rule stop_begins) (simp_all add: gates_new_def)
  have 5: "gate_step 1 [0] ?g4 ?g5" using stop_layer [of ?g4 5 0 "[]" True 1 "[0]" True] by simp
  have 6: "gate_step 1 [0] ?g5 ?g6" using stop_done [of ?g5 5 True 1 "[0]"] by simp
  have 7: "gate_step 1 [0] ?g6 ?g7" by (rule intent_admitted) (simp_all add: release_def lock_def go_def gates_new_def)
  have "(gate_step 1 [0])\<^sup>*\<^sup>* gates_new ?g7"
    using 1 2 3 4 5 6 7 by (meson rtranclp.rtrancl_into_rtrancl rtranclp.rtrancl_refl)
  then show ?thesis by (intro exI [of _ ?g7]) (simp add: go_def lock_def release_def)
qed

text \<open>
  C15 The gates keep a stop and the calls apart. Under every interleaving of invocations, View intents
  and stops, dropped at any point or not, at most one stop is asking layers; while it does, the state
  is stopping and no invocation and no intent is inside a layer, and at most one call at a time is
  inside under any gate. Gates are taken in one order, so as long as a call is under way some call can
  take its next step: there is no deadlock. The gates do not keep a View intent that waited during a stop
  from entering the primary layer afterwards, when the application is stopped.
\<close>
theorem session_gates_safe:
  assumes "(gate_step n layers)\<^sup>*\<^sup>* gates_new g" and "0 < n"
  shows "(\<forall>t u ls ok. gt_caller g t = StopBusy ls ok \<and> u \<noteq> t \<longrightarrow>
            gt_state g = Stopping \<and> gt_caller g u \<noteq> InvokeBusy \<and> (\<forall>k. gt_caller g u \<noteq> IntentBusy k)
            \<and> (\<forall>ls' ok'. gt_caller g u \<noteq> StopBusy ls' ok'))
     \<and> (\<forall>t u. gt_caller g t = InvokeBusy \<and> u \<noteq> t \<longrightarrow> gt_caller g u \<noteq> InvokeBusy \<and> gt_caller g u \<noteq> IntentBusy 0)
     \<and> (\<forall>t u k. gt_caller g t = IntentBusy k \<and> u \<noteq> t \<longrightarrow> gt_caller g u \<noteq> IntentBusy k)
     \<and> ((\<exists>t. gt_caller g t \<noteq> Idle) \<longrightarrow> (\<exists>g' t. gate_step n layers g g' \<and> advances g g' t))
     \<and> (\<exists>g' t. (gate_step 1 [0])\<^sup>*\<^sup>* gates_new g' \<and> gt_state g' = Stopped \<and> gt_caller g' t = IntentBusy 0)"
proof -
  have ok: "gates_ok n g" using gates_reachable_ok assms by blast
  have one: "\<not> (holds n (gt_caller g t) j \<and> holds n (gt_caller g u) j)" if "u \<noteq> t" for t u j
    using gates_okD(1) [OF ok, of j t] gates_okD(1) [OF ok, of j u] that by auto
  have stop: "gt_state g = Stopping \<and> gt_caller g u \<noteq> InvokeBusy \<and> (\<forall>k. gt_caller g u \<noteq> IntentBusy k) \<and> (\<forall>ls' ok'. gt_caller g u \<noteq> StopBusy ls' ok')"
    if "gt_caller g t = StopBusy ls b" "u \<noteq> t" for t u ls b
    using gates_okD(3) [OF ok that(1)] stop_excludes(2) [OF ok assms(2) disjI1 [OF that(1)] that(2)] by auto
  have invoke: "gt_caller g u \<noteq> InvokeBusy \<and> gt_caller g u \<noteq> IntentBusy 0" if "gt_caller g t = InvokeBusy" "u \<noteq> t" for t u
    using one [OF that(2), of 0] that(1) by auto
  have intent: "gt_caller g u \<noteq> IntentBusy k" if "gt_caller g t = IntentBusy k" "u \<noteq> t" for t u k
    using one [OF that(2), of k] that(1) by auto
  have go_on: "(\<exists>t. gt_caller g t \<noteq> Idle) \<longrightarrow> (\<exists>g' t. gate_step n layers g g' \<and> advances g g' t)"
    using gates_progress [OF ok assms(2), of _ layers] by blast
  show ?thesis using stop invoke intent go_on intent_after_stop by (intro conjI allI impI) blast+
qed

theorem session_gates_safe_witness:
  "(gate_step 1 [0])\<^sup>*\<^sup>* gates_new (go 5 (StopTaking 0) gates_new)
   \<and> (\<exists>g' t. gate_step 1 [0] (go 5 (StopTaking 0) gates_new) g' \<and> advances (go 5 (StopTaking 0) gates_new) g' t)"
proof -
  have r: "(gate_step 1 [0])\<^sup>*\<^sup>* gates_new (go 5 (StopTaking 0) gates_new)"
    by (intro r_into_rtranclp begin_stop) (simp add: gates_new_def)
  moreover have "gt_caller (go 5 (StopTaking 0) gates_new) 5 \<noteq> Idle" by simp
  ultimately show ?thesis using session_gates_safe [OF r zero_less_one] by blast
qed

end
