(* ===== verification/Holo_Catalog.thy ===== *)
theory Holo_Catalog
  imports Provider_Registry Plan_Properties Store_Listing
begin

text \<open>
  The catalogue of archives (\<open>HoloCatalog\<close> in \<open>src/holo.rs\<close>) over the object store, the inspection of an
  archive, and the plan as the protocol reports it (\<open>HoloPlan::from_report\<close> in \<open>src/protocol.rs\<close>). Lemmas:
  importing an archive makes exactly its bytes and its embedded blobs readable under their addresses and
  disturbs nothing else; what the catalogue hands out is authentic; a report is summarised faithfully.
\<close>

section \<open>What the catalogue is given\<close>

record holo_section =
  sc_kind :: string
  sc_offset :: nat
  sc_length :: nat

text \<open>The archive format of the \<open>hologram\<close> crate with its section table, the guest contracts and the
  directory codec.\<close>

record holo_env =
  he_space :: space
  he_contracts :: wasm_contracts
  he_directory :: dir_codec
  he_sections :: "bytes \<Rightarrow> holo_section list"

section \<open>Inspection\<close>

record holo_inspection =
  in_kappa :: string
  in_application_kappa :: "string option"
  in_name :: string
  in_format_version :: nat
  in_byte_length :: nat
  in_archive_fingerprint :: string
  in_footer_verified :: bool
  in_sections :: "holo_section list"
  in_directory :: "holo_directory option"
  in_directory_embedded :: bool

definition archive_of :: "holo_env \<Rightarrow> bytes \<Rightarrow> holo_archive live_result" where
  "archive_of env b = bindE (require_current b) (\<lambda>_. map_err InvalidHolo (load_archive (he_space env) b))"

definition inspect_directory ::
  "holo_env \<Rightarrow> holo_archive \<Rightarrow> bytes list \<Rightarrow> (holo_directory option \<times> string option) live_result"
where
  "inspect_directory env archive directories =
     (case ar_manifest archive of
        Some manifest_bytes \<Rightarrow>
          bindE (map_err (\<lambda>e. InvalidHolo (''decode application manifest: '' @ e)) (manifest_decode (he_space env) manifest_bytes)) (\<lambda>m.
          bindE (map_err InvalidHolo (ar_content_blobs archive)) (\<lambda>blobs.
          bindE (verify_required (he_space env) (he_contracts env) (he_directory env) m directories blobs) (\<lambda>derived.
            Inr (Some derived, Some (address_bytes (he_space env) (manifest_canonicalize (he_space env) m))))))
      | None \<Rightarrow>
          if directories \<noteq> [] then Inl (InvalidHolo ''application directory requires an application manifest'')
          else Inr (None, None))"

definition inspect_bytes :: "holo_env \<Rightarrow> string \<Rightarrow> string \<Rightarrow> bytes \<Rightarrow> holo_inspection live_result" where
  "inspect_bytes env kappa name b =
     bindE (archive_of env b) (\<lambda>archive.
     bindE (map_err InvalidHolo (ar_extensions archive)) (\<lambda>extensions.
     bindE (inspect_directory env archive (map snd (filter (\<lambda>(k, _). k = directory_extension_key) extensions))) (\<lambda>(directory, app_kappa).
       Inr \<lparr>in_kappa = kappa, in_application_kappa = app_kappa, in_name = name, in_format_version = unat (b ! 4) + 256 * unat (b ! 5),
            in_byte_length = sat64 (length b), in_archive_fingerprint = hex (ar_fingerprint archive), in_footer_verified = True,
            in_sections = he_sections env b, in_directory = directory, in_directory_embedded = (directory \<noteq> None)\<rparr>)))"

section \<open>Plans on the wire\<close>

record holo_plan_object =
  po_kappa :: string
  po_resolution_source :: "string option"
  po_byte_length :: "nat option"

record holo_plan_provider =
  pp_status :: string
  pp_name :: "string option"
  pp_reason :: "string option"

record holo_plan_layer =
  hp_position :: nat
  hp_kind :: string
  hp_content_kappa :: string
  hp_entry :: string
  hp_contract :: "string option"
  hp_architecture :: "string option"
  hp_surface :: "string option"
  hp_engine :: "string option"
  hp_primary :: bool
  hp_resolution_source :: "string option"
  hp_byte_length :: "nat option"
  hp_provider :: holo_plan_provider

record holo_plan_blocker =
  pb_kind :: string
  pb_error_code :: string
  pb_message :: string

record holo_plan =
  pn_archive_kappa :: string
  pn_archive_fingerprint :: string
  pn_application_kappa :: string
  pn_execution_target :: string
  pn_packaging :: string
  pn_primary_layer :: "nat option"
  pn_capabilities :: holo_plan_object
  pn_layers :: "holo_plan_layer list"
  pn_children :: "holo_child list"
  pn_resolved_object_count :: nat
  pn_resolved_bytes :: nat
  pn_application_count :: nat
  pn_max_depth :: nat
  pn_limits :: plan_limits
  pn_runnable :: bool
  pn_blockers :: "holo_plan_blocker list"

fun source_label :: "resolution_source \<Rightarrow> string" where
  "source_label Embedded = ''embedded''"
| "source_label LocalStore = ''local_store''"
| "source_label (ConfiguredResolver name) = ''configured:'' @ name"

definition packaging :: "plan_report \<Rightarrow> string" where
  "packaging r =
     (if pr_embedded_object_count r = 0 then ''thin''
      else if pr_embedded_object_count r \<ge> pr_referenced_object_count r then ''fat''
      else ''hybrid'')"

fun provider_report :: "provider_availability \<Rightarrow> holo_plan_provider" where
  "provider_report Unchecked = \<lparr>pp_status = ''unchecked'', pp_name = None, pp_reason = None\<rparr>"
| "provider_report (Available p) = \<lparr>pp_status = ''available'', pp_name = Some p, pp_reason = None\<rparr>"
| "provider_report (Unavailable reason) = \<lparr>pp_status = ''unavailable'', pp_name = None, pp_reason = Some reason\<rparr>"

definition plan_object :: "plan_report \<Rightarrow> string \<Rightarrow> holo_plan_object" where
  "plan_object r kappa =
     (let object = map_of (pr_objects r) kappa in
      \<lparr>po_kappa = kappa, po_resolution_source = map_option (\<lambda>x. source_label (ro_source x)) object,
       po_byte_length = map_option (\<lambda>x. sat64 (length (ro_bytes x))) object\<rparr>)"

definition report_layer :: "wasm_contracts \<Rightarrow> plan_report \<Rightarrow> planned_layer \<Rightarrow> holo_plan_layer" where
  "report_layer wc r l =
     \<lparr>hp_position = pl_position l, hp_kind = layer_kind_name (pl_kind l), hp_content_kappa = pl_content_kappa l, hp_entry = pl_entry l,
      hp_contract = (if pl_kind l = WasmCodemodule then (case normalize_wasm_contract wc (pl_aux l) of Inr c \<Rightarrow> Some c | Inl _ \<Rightarrow> None) else None),
      hp_architecture = (if pl_kind l = RootfsImage then Some (pl_aux l) else None),
      hp_surface = (if pl_kind l = ViewLayer then Some (pl_aux l) else None),
      hp_engine = (if pl_kind l = InferenceModel then Some (pl_aux l) else None),
      hp_primary = pl_primary l, hp_resolution_source = map_option source_label (pl_resolution_source l),
      hp_byte_length = map_option (\<lambda>x. sat64 (length (ro_bytes x))) (map_of (pr_objects r) (pl_content_kappa l)),
      hp_provider = provider_report (pl_provider l)\<rparr>"

definition report_child :: "child_reference \<Rightarrow> holo_child" where
  "report_child c =
     \<lparr>hc_position = cr_position c, hc_application_kappa = cr_application_kappa c, hc_capabilities_kappa = cr_capabilities_kappa c,
      hc_parent_application_kappa = Some (cr_parent_application_kappa c), hc_depth = Some (cr_depth c),
      hc_requires_kappa = cr_requires_kappa c, hc_application_source = map_option source_label (cr_application_source c),
      hc_capabilities_source = map_option source_label (cr_capabilities_source c)\<rparr>"

definition report_blocker :: "string \<Rightarrow> plan_blocker \<Rightarrow> holo_plan_blocker" where
  "report_blocker app b = \<lparr>pb_kind = blocker_kind b, pb_error_code = blocker_error_code b, pb_message = blocker_message app b\<rparr>"

definition from_report :: "wasm_contracts \<Rightarrow> plan_report \<Rightarrow> string \<Rightarrow> holo_plan" where
  "from_report wc r target =
     \<lparr>pn_archive_kappa = archive_kappa (pr_identity r), pn_archive_fingerprint = archive_fingerprint (pr_identity r),
      pn_application_kappa = application_kappa (pr_identity r), pn_execution_target = target, pn_packaging = packaging r,
      pn_primary_layer = pr_primary_layer r, pn_capabilities = plan_object r (pr_requires_kappa r),
      pn_layers = map (report_layer wc r) (pr_layers r), pn_children = map report_child (pr_children r),
      pn_resolved_object_count = sat64 (length (pr_objects r)), pn_resolved_bytes = pr_resolved_bytes r,
      pn_application_count = sat64 (pr_application_count r), pn_max_depth = sat64 (pr_max_depth r),
      pn_limits = \<lparr>max_layers = sat64 (max_layers (pr_limits r)), max_applications = sat64 (max_applications (pr_limits r)),
        max_depth = sat64 (max_depth (pr_limits r)), max_objects = sat64 (max_objects (pr_limits r)),
        max_resolved_bytes = max_resolved_bytes (pr_limits r)\<rparr>,
      pn_runnable = runnable r, pn_blockers = map (report_blocker (application_kappa (pr_identity r))) (pr_blockers r)\<rparr>"

section \<open>The catalogue\<close>

definition holo_media :: string where
  "holo_media = ''application/vnd.hologram.holo''"

text \<open>Caching the embedded blobs, the first failure ending the loop.\<close>

fun cache_blobs :: "(bytes \<times> bytes) list \<Rightarrow> object_store \<Rightarrow> object_store \<times> unit live_result" where
  "cache_blobs [] s = (s, Inr ())"
| "cache_blobs ((label, content) # rest) s =
     (if \<not> utf8_valid (map unat label) then (s, Inl (InvalidHolo ''content blob kappa is not valid UTF-8''))
      else case store_cache_addressed s (bytes_string label) content of
             (t, Inl e) \<Rightarrow> (t, Inl e)
           | (t, Inr _) \<Rightarrow> cache_blobs rest t)"

definition cache_content_blobs :: "holo_env \<Rightarrow> bytes \<Rightarrow> object_store \<Rightarrow> object_store \<times> unit live_result" where
  "cache_content_blobs env b s =
     (case bindE (archive_of env b) (\<lambda>archive. map_err InvalidHolo (ar_content_blobs archive)) of
        Inl e \<Rightarrow> (s, Inl e)
      | Inr blobs \<Rightarrow> cache_blobs blobs s)"

definition catalog_import :: "holo_env \<Rightarrow> string \<Rightarrow> bytes \<Rightarrow> nat \<Rightarrow> object_store \<Rightarrow> object_store \<times> holo_inspection live_result" where
  "catalog_import env name b now s =
     (case inspect_bytes env ''pending'' name b of
        Inl e \<Rightarrow> (s, Inl e)
      | Inr inspection \<Rightarrow>
          (case cache_content_blobs env b s of
             (t, Inl e) \<Rightarrow> (t, Inl e)
           | (t, Inr _) \<Rightarrow>
               (case store_put t ''holo'' holo_media (Some name) b now of
                  (u, Inl e) \<Rightarrow> (u, Inl e)
                | (u, Inr m) \<Rightarrow> (u, Inr (inspection\<lparr>in_kappa := md_id m, in_name := name\<rparr>)))))"

definition catalog_name :: "object_metadata \<Rightarrow> string" where
  "catalog_name m = (case md_filename m of Some name \<Rightarrow> name | None \<Rightarrow> ''application.holo'')"

definition catalog_list :: "holo_env \<Rightarrow> object_store \<Rightarrow> holo_inspection list live_result" where
  "catalog_list env s =
     bindE (store_list s (Some ''holo'')) (mapE (\<lambda>m. bindE (store_get s (md_id m)) (inspect_bytes env (md_id m) (catalog_name m))))"

definition require_holo :: "object_store \<Rightarrow> string \<Rightarrow> object_metadata live_result" where
  "require_holo s kappa =
     bindE (store_metadata s kappa) (\<lambda>m.
       if md_kind m \<noteq> ''holo'' then Inl (InvalidHolo (''object '' @ kappa @ '' is not cataloged as a .holo archive'')) else Inr m)"

definition require_verified :: "object_store \<Rightarrow> string \<Rightarrow> unit live_result" where
  "require_verified s kappa =
     bindE (store_verify s kappa) (\<lambda>ok.
       if ok then Inr () else Inl (InvalidHolo (''content address verification failed for '' @ kappa)))"

definition catalog_inspect :: "holo_env \<Rightarrow> object_store \<Rightarrow> string \<Rightarrow> holo_inspection live_result" where
  "catalog_inspect env s kappa =
     bindE (require_holo s kappa) (\<lambda>m. bindE (store_get s kappa) (inspect_bytes env kappa (catalog_name m)))"

definition catalog_verify :: "holo_env \<Rightarrow> object_store \<Rightarrow> string \<Rightarrow> holo_inspection live_result" where
  "catalog_verify env s kappa = bindE (require_verified s kappa) (\<lambda>_. catalog_inspect env s kappa)"

definition catalog_bytes :: "object_store \<Rightarrow> string \<Rightarrow> bytes live_result" where
  "catalog_bytes s kappa = bindE (require_holo s kappa) (\<lambda>_. bindE (require_verified s kappa) (\<lambda>_. store_get s kappa))"

definition resolve_content :: "object_store \<Rightarrow> local_lookup" where
  "resolve_content s kappa = store_get_cached s kappa"

definition catalog_remove :: "object_store \<Rightarrow> string \<Rightarrow> object_store \<times> unit live_result" where
  "catalog_remove s kappa = store_remove_metadata s kappa"

text \<open>Planning with the providers of a target; \<open>None\<close> would be a planning loop out of fuel.\<close>

definition evaluated_report ::
  "holo_env \<Rightarrow> provider_target \<Rightarrow> layer_provider list \<Rightarrow> bytes \<Rightarrow> local_lookup \<Rightarrow> (provider_registry \<times> plan_report) live_result option"
where
  "evaluated_report env target ps b lookup =
     map_option (\<lambda>r. bindE r (\<lambda>report.
       bindE (providers_new (he_contracts env) target ps) (\<lambda>reg. Inr (reg, registry_evaluate (he_contracts env) reg report))))
     (explain_application (he_space env) (he_contracts env) (he_directory env) b default_limits lookup)"

definition catalog_plan :: "holo_env \<Rightarrow> layer_provider list \<Rightarrow> object_store \<Rightarrow> string \<Rightarrow> holo_plan live_result option" where
  "catalog_plan env ps s kappa =
     (case catalog_bytes s kappa of
        Inl e \<Rightarrow> Some (Inl e)
      | Inr b \<Rightarrow> map_option (\<lambda>r. bindE r (\<lambda>(reg, report). Inr (from_report (he_contracts env) report ''resident'')))
                  (evaluated_report env Resident ps b (resolve_content s)))"

definition plan_bytes :: "holo_env \<Rightarrow> layer_provider list \<Rightarrow> bytes \<Rightarrow> holo_plan live_result option" where
  "plan_bytes env ps b =
     map_option (\<lambda>r. bindE r (\<lambda>(reg, report). Inr (from_report (he_contracts env) report ''direct'')))
       (evaluated_report env Direct ps b (\<lambda>_. Inr None))"

section \<open>Importing\<close>

text \<open>An archive that can be imported: it inspects, and its blobs are labelled with their addresses.\<close>

definition importable :: "holo_env \<Rightarrow> object_store \<Rightarrow> bytes \<Rightarrow> (bytes \<times> bytes) list \<Rightarrow> bool" where
  "importable env s b blobs \<longleftrightarrow> is_ok (inspect_bytes env [] [] b)
     \<and> bindE (archive_of env b) (\<lambda>archive. map_err InvalidHolo (ar_content_blobs archive)) = Inr blobs
     \<and> list_all (\<lambda>(l, c). utf8_valid (map unat l) \<and> store_addr s c = bytes_string l) blobs"

lemma inspect_rename:
  "inspect_bytes env k n b = bindE (inspect_bytes env k' n' b) (\<lambda>i. Inr (i\<lparr>in_kappa := k, in_name := n\<rparr>))"
  by (auto simp: inspect_bytes_def bindE_def split: sum.splits prod.splits)

lemma store_cache_total:
  assumes "host_ok (os_host s)" "\<not> os_poisoned s" "fs_faults (os_fs s) = (\<lambda>_ _. None)" "store_addr s c = k"
  shows "is_ok (snd (store_cache_addressed s k c))"
proof -
  have "validate_id k = Inr (blake3_hex (os_host s) c)" using assms host_ok_digest by (auto simp: store_addr_def validate_id_Inr)
  then have "is_ok (snd (store_cache_addressed_bounded s k c u64_max))"
    using assms(2) store_write_total [OF assms(3), of "blob_path s (blake3_hex (os_host s) c)" c]
    sat64_le [of "length c"]
    by (auto simp: store_cache_addressed_bounded_def split_beta Let_def is_ok_def simp del: sat64_le)
  then show ?thesis by (simp add: store_cache_eq(2))
qed

lemma cache_meta: "valid_digest e \<Longrightarrow> meta_at (fst (store_cache_addressed s k c)) e = meta_at s e"
  by (simp add: store_cache_eq cache_bounded_meta)

lemma cache_frame: "same_frame s (fst (store_cache_addressed s k c))"
  by (simp add: store_cache_eq cache_bounded_frame)

lemma cache_blobs_grows: "cas.grows s (fst (cache_blobs bs s)) \<and> same_frame s (fst (cache_blobs bs s))
    \<and> (\<forall>e. valid_digest e \<longrightarrow> meta_at (fst (cache_blobs bs s)) e = meta_at s e)"
proof (induction bs s rule: cache_blobs.induct)
  case (2 l c rest s)
  show ?case
  proof (cases "utf8_valid (map unat l)")
    case True
    obtain t r where c: "store_cache_addressed s (bytes_string l) c = (t, r)" by fastforce
    then have t: "cas.grows s t" "same_frame s t" "valid_digest e \<Longrightarrow> meta_at t e = meta_at s e" for e
      using cas.ins_grows [of s "bytes_string l" c] cache_frame [of s "bytes_string l" c] cache_meta [of e s "bytes_string l" c] by simp_all
    show ?thesis
    proof (cases r)
      case (Inr u)
      then show ?thesis using 2 [OF _ c [symmetric] Inr] True c t cas.grows_trans same_frame_trans by (simp; blast)
    qed (use True c t in simp)
  qed (simp add: cas.grows_refl)
qed (simp add: cas.grows_refl)

lemma cache_blobs_view:
  "cache_blobs bs s = (t, Inr u) \<Longrightarrow>
     list_all (\<lambda>(l, c). utf8_valid (map unat l) \<and> store_addr s c = bytes_string l \<and> store_view t (bytes_string l) \<noteq> None) bs"
proof (induction bs s rule: cache_blobs.induct)
  case (2 l c rest s)
  obtain s1 v where c: "utf8_valid (map unat l)" "store_cache_addressed s (bytes_string l) c = (s1, Inr v)" "cache_blobs rest s1 = (t, Inr u)"
    using 2(2) by (auto split: if_splits prod.splits sum.splits)
  have "store_view s1 (bytes_string l) \<noteq> None" by (rule cas.ins_present [OF c(2)])
  then have "store_view t (bytes_string l) \<noteq> None" using cache_blobs_grows [of s1 rest] c(3) by (auto simp: cas.grows_def)
  moreover have "store_addr s1 = store_addr s" using cas.ins_grows [of s "bytes_string l" c] c(2) by (simp add: cas.grows_def)
  moreover have "store_addr s c = bytes_string l" by (rule cas.ins_match [OF c(2)])
  ultimately show ?case using 2(1) [OF _ c(2) [symmetric] refl c(3)] c(1) by (auto simp: list_all_iff)
qed simp

lemma cache_blobs_total:
  assumes "store_ok s" "\<not> os_poisoned s" "fs_faults (os_fs s) = (\<lambda>_ _. None)"
    and "list_all (\<lambda>(l, c). utf8_valid (map unat l) \<and> store_addr s c = bytes_string l) bs"
  shows "is_ok (snd (cache_blobs bs s))"
  using assms
proof (induction bs s rule: cache_blobs.induct)
  case (2 l c rest s)
  have "is_ok (snd (store_cache_addressed s (bytes_string l) c))" by (rule store_cache_total) (use 2(2-5) in \<open>auto dest: store_okD\<close>)
  then obtain s1 v where c: "store_cache_addressed s (bytes_string l) c = (s1, Inr v)" by (cases "store_cache_addressed s (bytes_string l) c") (auto simp: is_ok_iff)
  have g: "cas.grows s s1" "same_frame s s1" using cas.ins_grows [of s "bytes_string l" c] cache_frame [of s "bytes_string l" c] c by simp_all
  have "is_ok (snd (cache_blobs rest s1))"
    by (rule 2(1) [OF _ c [symmetric] refl]) (use 2(2-5) g in \<open>auto simp: cas.grows_def same_frame_def\<close>)
  then show ?case using c 2(5) by simp
qed simp

lemma cache_blobs_new:
  "store_view (fst (cache_blobs bs u)) k = Some y \<Longrightarrow> store_view u k = Some y \<or> y \<in> snd ` set bs"
proof (induction bs u rule: cache_blobs.induct)
  case (2 l c rest u)
  obtain u1 r2 where c2: "store_cache_addressed u (bytes_string l) c = (u1, r2)" by fastforce
  have k1: "store_view u1 k = Some y \<Longrightarrow> store_view u k = Some y \<or> y = c" using cas.ins_new_keys [of u "bytes_string l" c k y] c2 by auto
  show ?case
  proof (cases r2)
    case (Inr w)
    then show ?thesis using 2(1) [OF _ c2 [symmetric] Inr] 2(2) c2 k1 by (auto split: if_splits)
  qed (use 2(2) c2 k1 in \<open>auto split: if_splits\<close>)
qed simp

lemma store_view_get:
  assumes "store_ok s" "fs_faults (os_fs s) = (\<lambda>_ _. None)"
  shows "store_get s i = Inr x \<longleftrightarrow> store_view s i = Some x" and "store_get_cached s i = Inr (Some x) \<longleftrightarrow> store_view s i = Some x"
  using assms
  by (auto simp: store_get_def store_get_cached_def store_view_def stored_def read_or_missing_def fs_read_def bindE_def map_err_def
      split: sum.splits option.splits)

lemma store_put_grows:
  assumes "store_ok s" "store_put s k mt f b now = (t, Inr m)"
  shows "cas.grows s t"
proof -
  have d: "valid_digest (blake3_hex (os_host s) b)" by (simp add: host_ok_digest store_okD(1) assms(1))
  have "stored t e = Some x" if "valid_digest e" "stored s e = Some x" for e x
    using store_put_ok(3) [OF assms] store_put_ok(4) [OF assms, of e] that by (cases "e = blake3_hex (os_host s) b") auto
  then have "store_view t i = Some x" if "store_view s i = Some x" for i x
    using that by (auto simp: store_view_def validate_id_Inr split: sum.splits)
  moreover have "store_ok t" using store_put_store_ok [OF assms(1), of k mt f b now] assms(2) by simp
  ultimately show ?thesis using store_put_ok(5) [OF assms] by (auto simp: cas.grows_def same_frame_def store_addr_def)
qed

lemma store_metadata_cong:
  assumes "same_frame s t" "\<And>d. validate_id i = Inr d \<Longrightarrow> meta_at t d = meta_at s d"
  shows "store_metadata t i = store_metadata s i"
proof -
  have "metadata_path t = metadata_path s" "fs_faults (os_fs t) = fs_faults (os_fs s)" "decode_metadata t = decode_metadata s"
    using assms(1) same_frame_paths [OF assms(1)] by (auto simp: same_frame_def decode_metadata_def fun_eq_iff)
  then have eq: "metadata_path t = metadata_path s" "decode_metadata t = decode_metadata s"
    and rd: "validate_id i = Inr d \<Longrightarrow> fs_read (os_fs t) (metadata_path s d) = fs_read (os_fs s) (metadata_path s d)" for d
    using assms(2) [of d] by (auto simp: meta_at_def fs_read_def split: option.splits)
  show ?thesis unfolding store_metadata_def read_or_missing_def eq using rd by (cases "validate_id i") simp_all
qed

lemma grows_keeps:
  assumes "store_ok s" "fs_faults (os_fs s) = (\<lambda>_ _. None)" "cas.grows s u" "same_frame s u"
  shows "store_ok u \<and> (\<forall>i x. store_get s i = Inr x \<longrightarrow> store_get u i = Inr x)"
proof -
  have u: "store_ok u" "fs_faults (os_fs u) = (\<lambda>_ _. None)" using assms by (auto simp: cas.grows_def same_frame_def)
  then show ?thesis using store_view_get(1) [OF u] store_view_get(1) [OF assms(1,2)] assms(3) by (auto simp: cas.grows_def)
qed

text \<open>An import either ends while the blobs are cached, or records the archive.\<close>

lemma catalog_import_cases:
  assumes ok: "store_ok s" and up: "\<not> os_poisoned s" "fs_faults (os_fs s) = (\<lambda>_ _. None)"
    and run: "catalog_import env name b now s = (t, r)"
  obtains (refused) e bs where "\<nexists>blobs. importable env s b blobs" "r = Inl e" "t = fst (cache_blobs bs s)"
  | (recorded) ins bs s1 m where "importable env s b bs" "cache_blobs bs s = (s1, Inr ())"
      "store_put s1 ''holo'' holo_media (Some name) b now = (t, Inr m)" "r = Inr (ins\<lparr>in_kappa := md_id m, in_name := name\<rparr>)"
      "inspect_bytes env ''pending'' name b = Inr ins"
proof (cases "inspect_bytes env ''pending'' name b")
  case (Inl e)
  then have "\<not> is_ok (inspect_bytes env [] [] b)" using inspect_rename [of env "''pending''" name b "[]" "[]"] by (auto simp: is_ok_def bindE_def split: sum.splits)
  then show ?thesis using run Inl by (intro refused [of e "[]"]) (auto simp: importable_def catalog_import_def)
next
  case (Inr ins0)
  then have ins: "is_ok (inspect_bytes env [] [] b)" using inspect_rename [of env "[]" "[]" b "''pending''" name] by (auto simp: is_ok_def)
  show ?thesis
  proof (cases "bindE (archive_of env b) (\<lambda>archive. map_err InvalidHolo (ar_content_blobs archive))")
    case (Inl e)
    then show ?thesis using run Inr by (intro refused [of e "[]"]) (auto simp: importable_def catalog_import_def cache_content_blobs_def)
  next
    case blobs: (Inr bs)
    obtain s1 r1 where c: "cache_blobs bs s = (s1, r1)" by fastforce
    show ?thesis
    proof (cases r1)
      case (Inl e)
      then have "\<not> importable env s b bs'" for bs' using cache_blobs_total [OF ok up, of bs] c blobs by (auto simp: importable_def)
      then show ?thesis using run Inr Inl c blobs by (intro refused [of e bs]) (auto simp: catalog_import_def cache_content_blobs_def)
    next
      case u: (Inr u)
      have imp: "importable env s b bs" using ins blobs cache_blobs_view [OF c [unfolded u]] by (auto simp: importable_def list_all_iff)
      have ok1: "\<not> os_poisoned s1" "fs_faults (os_fs s1) = (\<lambda>_ _. None)" using cache_blobs_grows [of s bs] c up by (auto simp: same_frame_def)
      obtain t' m where p: "store_put s1 ''holo'' holo_media (Some name) b now = (t', Inr m)"
        using store_put_total [OF ok1, of "''holo''" holo_media "Some name" b now]
        by (cases "store_put s1 ''holo'' holo_media (Some name) b now") (auto simp: is_ok_iff)
      then show ?thesis using run Inr blobs c u imp by (intro recorded [of bs s1 m ins0]) (auto simp: catalog_import_def cache_content_blobs_def)
    qed
  qed
qed

text \<open>
  C16 Importing an archive. On a consistent store that accepts writes an import succeeds exactly when the
  archive inspects and every embedded blob carries the address of its bytes; the result is the
  inspection under the archive's address. Afterwards the catalogue hands out bytes of that address, the
  very bytes unless stored or embedded ones have the same hash, and inspects them to the same answer,
  every embedded blob is readable under its address, and no other record has changed. A refused import
  changes no record. Neither loses or changes any stored content.
\<close>
theorem catalog_import_exact:
  assumes ok: "store_ok s" and up: "\<not> os_poisoned s" "fs_faults (os_fs s) = (\<lambda>_ _. None)"
    and run: "catalog_import env name b now s = (t, r)"
  shows "store_ok t \<and> (\<forall>i x. store_get s i = Inr x \<longrightarrow> store_get t i = Inr x)
     \<and> (is_ok r \<longleftrightarrow> (\<exists>blobs. importable env s b blobs))
     \<and> (case r of
          Inl e \<Rightarrow> \<forall>i. store_metadata t i = store_metadata s i
        | Inr ins \<Rightarrow>
            in_kappa ins = store_addr s b \<and> inspect_bytes env (store_addr s b) name b = Inr ins
            \<and> (\<exists>c. catalog_bytes t (store_addr s b) = Inr c \<and> store_addr s c = store_addr s b
                 \<and> (c = b \<longrightarrow> catalog_inspect env t (store_addr s b) = Inr ins)
                 \<and> (c = b \<or> store_get s (store_addr s b) = Inr c \<or> (\<exists>blobs. importable env s b blobs \<and> c \<in> snd ` set blobs)))
            \<and> (\<forall>blobs. importable env s b blobs \<longrightarrow>
                 list_all (\<lambda>(l, _). \<exists>x. resolve_content t (bytes_string l) = Inr (Some x) \<and> store_addr s x = bytes_string l) blobs)
            \<and> (\<forall>i. i \<noteq> store_addr s b \<longrightarrow> store_metadata t i = store_metadata s i))"
  using ok up run
proof (cases rule: catalog_import_cases [consumes 4])
  case (refused e bs)
  note g = cache_blobs_grows [of s bs]
  have "store_metadata t i = store_metadata s i" for i
    using g refused(3) by (intro store_metadata_cong) (auto simp: validate_id_Inr)
  then show ?thesis using grows_keeps [OF ok up(2), of t] g refused by (simp add: is_ok_def)
next
  case (recorded ins bs s1 m)
  note c = recorded(2) and p = recorded(3) and r = recorded(4) and pend = recorded(5)
  note v = cache_blobs_view [OF c]
  note g = cache_blobs_grows [of s bs, unfolded c fst_conv]
  have ok1: "store_ok s1" "\<not> os_poisoned s1" "fs_faults (os_fs s1) = (\<lambda>_ _. None)" "os_host s1 = os_host s"
    using g ok up by (auto simp: cas.grows_def same_frame_def)
  note o = store_put_ok [OF ok1(1) p]
  have grow: "cas.grows s1 t" "cas.grows s t" "same_frame s t"
    using store_put_grows [OF ok1(1) p] g cas.grows_trans o(5) same_frame_trans by auto
  have okt: "store_ok t" "fs_faults (os_fs t) = (\<lambda>_ _. None)" "store_addr t = store_addr s" using grow ok up by (auto simp: cas.grows_def same_frame_def)
  have id: "md_id m = store_addr s b" "md_kind m = ''holo''" "md_filename m = Some name"
    using o(1) ok1(4) by (simp_all add: put_record_def store_addr_def)
  have d: "valid_digest (blake3_hex (os_host s) b)" by (simp add: host_ok_digest store_okD(1) ok)
  obtain x where x: "store_view t (store_addr s b) = Some x" "store_view s1 (store_addr s b) \<in> {None, Some x}" "store_view s1 (store_addr s b) = None \<Longrightarrow> x = b"
    using o(3) d ok1(4) by (auto simp: store_view_def store_addr_def split: option.splits)
  have get: "store_get t (store_addr s b) = Inr x" using store_view_get(1) [OF okt(1,2)] x(1) by simp
  have hx: "store_addr s x = store_addr s b" using cas.view_addr [OF okt(1) x(1)] okt(3) by simp
  have held: "require_holo t (store_addr s b) = Inr m" using o(2) ok1 id by (simp add: require_holo_def)
  have vfy: "store_verify t (store_addr s b) = Inr True"
    using get hx okt(3) by (simp add: store_verify_def store_addr_def [of t, symmetric])
  have rename: "inspect_bytes env (store_addr s b) name b = Inr (ins\<lparr>in_kappa := md_id m, in_name := name\<rparr>)"
    using inspect_rename [of env "store_addr s b" name b "''pending''" name] pend id by simp
  have orig: "x = b \<or> store_get s (store_addr s b) = Inr x \<or> x \<in> snd ` set bs"
    using x(2,3) cache_blobs_new [of bs s "store_addr s b" x] c store_view_get(1) [OF ok up(2)] by auto
  have blobs_read: "\<exists>y. resolve_content t (bytes_string l) = Inr (Some y) \<and> store_addr s y = bytes_string l" if mem: "(l, w) \<in> set bs" for l w
  proof -
    obtain y where "store_view s1 (bytes_string l) = Some y" using v mem by (auto simp: list_all_iff)
    then have y: "store_view t (bytes_string l) = Some y" using grow(1) by (simp add: cas.grows_def)
    then show ?thesis using store_view_get(2) [OF okt(1,2)] cas.view_addr [OF okt(1) y] okt(3) by (simp add: resolve_content_def)
  qed
  have others: "store_metadata t i = store_metadata s i" if "i \<noteq> store_addr s b" for i
  proof (rule store_metadata_cong [OF grow(3)])
    fix e assume e: "validate_id i = Inr e"
    then have "valid_digest e" "e \<noteq> blake3_hex (os_host s1) b" using that ok1(4) by (auto simp: validate_id_Inr store_addr_def)
    then show "meta_at t e = meta_at s e" using o(4) [of e] g by simp
  qed
  have only: "importable env s b bs' \<longleftrightarrow> bs' = bs" for bs' using recorded(1) by (auto simp: importable_def)
  show ?thesis
    using grows_keeps [OF ok up(2) grow(2,3)] held vfy get hx id rename orig blobs_read others
    by (auto simp: r only catalog_bytes_def require_verified_def catalog_inspect_def catalog_name_def list_all_iff is_ok_def)
qed

definition demo_catalog_env :: holo_env where
  "demo_catalog_env =
     \<lparr>he_space = sample_space\<lparr>load_archive := (\<lambda>b. Inr \<lparr>ar_fingerprint = [1], ar_manifest = None, ar_extensions = Inr [],
                    ar_content_blobs = Inr [(string_bytes (store_addr sample_store [7]), [7])]\<rparr>)\<rparr>,
      he_contracts = demo_contracts, he_directory = demo_codec, he_sections = (\<lambda>_. [])\<rparr>"

theorem catalog_import_exact_witness:
  "\<exists>t ins. catalog_import demo_catalog_env ''a.holo'' [72, 79, 76, 79, 4, 0] 9 sample_store = (t, Inr ins)
     \<and> in_kappa ins = store_addr sample_store [72, 79, 76, 79, 4, 0] \<and> resolve_content t (store_addr sample_store [7]) \<noteq> Inr None"
proof -
  let ?b = "[72, 79, 76, 79, 4, 0] :: bytes" and ?l = "string_bytes (store_addr sample_store [7])"
  obtain t r where run: "catalog_import demo_catalog_env ''a.holo'' ?b 9 sample_store = (t, r)" by fastforce
  have "store_addr sample_store [7] = kappa_prefix @ blake3_hex sample_host [7]" by (simp add: store_addr_def sample_store_up)
  moreover have "list_all (\<lambda>c. byte_of c < 128) (blake3_hex sample_host [7])"
    using host_ok_digest [OF sample_host_ok, of "[7]"] by (force simp: valid_digest_def list_all_iff byte_class_defs)
  ultimately have l: "utf8_valid (map unat ?l)" "bytes_string ?l = store_addr sample_store [7]"
    using utf8_ascii [of "store_addr sample_store [7]"]
    by (auto simp: string_bytes_inverse kappa_prefix_def byte_class_defs)
  have imp: "importable demo_catalog_env sample_store ?b [(?l, [7])]"
    using l by (simp add: importable_def inspect_bytes_def archive_of_def require_current_def demo_catalog_env_def inspect_directory_def is_ok_def)
  note e = catalog_import_exact [OF sample_store_ok sample_store_up(1,2) run]
  have "is_ok r" using e imp by blast
  then obtain ins where r: "r = Inr ins" by (auto simp: is_ok_iff)
  have "in_kappa ins = store_addr sample_store ?b" using e unfolding r sum.case by blast
  moreover have "list_all (\<lambda>(l, _). \<exists>x. resolve_content t (bytes_string l) = Inr (Some x) \<and> store_addr sample_store x = bytes_string l) [(?l, [7 :: 8 word])]"
    using e imp unfolding r sum.case by blast
  ultimately show ?thesis using run l r by auto
qed

end
