(* ===== verification/Audit_Log.thy ===== *)
theory Audit_Log
  imports Application_Plan
begin

text \<open>
  The audit log (\<open>src/audit.rs\<close>) and the audited admission of a plan (\<open>admit_with_audit\<close> in
  \<open>src/holo.rs\<close>). The buffered file writer, the JSON encoder, the clock and the actor mailbox belong to other
  crates and the operating system: their answers are parameters that may depend on every earlier call to
  the writer, the trace. Lemmas: what a successful admission has left in the log.
\<close>

section \<open>Events\<close>

record audit_event =
  ae_timestamp_millis :: nat
  ae_principal :: string
  ae_operation :: string
  ae_resource :: "string option"
  ae_outcome :: string
  ae_capability_decision :: "capability_decision option"

definition event_new :: "nat \<Rightarrow> string \<Rightarrow> string \<Rightarrow> string option \<Rightarrow> string \<Rightarrow> audit_event" where
  "event_new now who operation resource outcome =
     \<lparr>ae_timestamp_millis = now, ae_principal = who, ae_operation = operation, ae_resource = resource,
      ae_outcome = outcome, ae_capability_decision = None\<rparr>"

definition event_decision :: "nat \<Rightarrow> string \<Rightarrow> capability_decision \<Rightarrow> audit_event" where
  "event_decision now who d =
     \<lparr>ae_timestamp_millis = now, ae_principal = who, ae_operation = ''holo.capability.authorize'',
      ae_resource = Some (cd_application_kappa d), ae_outcome = cd_outcome d, ae_capability_decision = Some d\<rparr>"

section \<open>The log\<close>

datatype writer_event = WriteDone bytes | WriteFailed bytes | FlushDone | FlushFailed

type_synonym writer_trace = "writer_event list"

text \<open>\<open>aw_reachable\<close> says whether the actor takes a message, or the text of the error; a handler that
  fails is reported to the caller with the text \<open>aw_handler_error\<close> makes of its error.\<close>

record audit_world =
  aw_now :: "writer_trace \<Rightarrow> nat"
  aw_encode :: "audit_event \<Rightarrow> string + bytes"
  aw_write :: "writer_trace \<Rightarrow> bytes \<Rightarrow> string + unit"
  aw_flush :: "writer_trace \<Rightarrow> string + unit"
  aw_reachable :: "writer_trace \<Rightarrow> string + unit"
  aw_handler_error :: "live_error \<Rightarrow> string"

definition handle_record :: "audit_world \<Rightarrow> audit_event \<Rightarrow> writer_trace \<Rightarrow> writer_trace \<times> unit live_result" where
  "handle_record w e tr =
     (case aw_encode w e of
        Inl m \<Rightarrow> (tr, Inl (Protocol m))
      | Inr encoded \<Rightarrow>
          (let line = encoded @ [10] in
           case aw_write w tr line of
             Inl m \<Rightarrow> (tr @ [WriteFailed line], Inl (Io m))
           | Inr _ \<Rightarrow> (tr @ [WriteDone line], Inr ())))"

definition handle_flush :: "audit_world \<Rightarrow> writer_trace \<Rightarrow> writer_trace \<times> unit live_result" where
  "handle_flush w tr =
     (case aw_flush w tr of
        Inl m \<Rightarrow> (tr @ [FlushFailed], Inl (Io m))
      | Inr _ \<Rightarrow> (tr @ [FlushDone], Inr ()))"

definition audit_ask ::
  "audit_world \<Rightarrow> string \<Rightarrow> (writer_trace \<Rightarrow> writer_trace \<times> unit live_result) \<Rightarrow> writer_trace \<Rightarrow> writer_trace \<times> unit live_result"
where
  "audit_ask w what handler tr =
     (case aw_reachable w tr of
        Inl m \<Rightarrow> (tr, Inl (Conflict (what @ '': '' @ m)))
      | Inr _ \<Rightarrow> (let (tr', r) = handler tr in (tr', map_err (\<lambda>e. Conflict (what @ '': '' @ aw_handler_error w e)) r)))"

definition audit_record :: "audit_world \<Rightarrow> audit_event \<Rightarrow> writer_trace \<Rightarrow> writer_trace \<times> unit live_result" where
  "audit_record w e tr = audit_ask w ''write audit event'' (handle_record w e) tr"

definition audit_flush :: "audit_world \<Rightarrow> writer_trace \<Rightarrow> writer_trace \<times> unit live_result" where
  "audit_flush w tr = audit_ask w ''flush audit log'' (handle_flush w) tr"

section \<open>Audited admission\<close>

text \<open>The loop over the decisions, which the first failure ends.\<close>

fun record_decisions :: "audit_world \<Rightarrow> string \<Rightarrow> capability_decision list \<Rightarrow> writer_trace \<Rightarrow> writer_trace \<times> unit live_result" where
  "record_decisions w who [] tr = (tr, Inr ())"
| "record_decisions w who (d # ds) tr =
     (case audit_record w (event_decision (aw_now w tr) who d) tr of
        (tr', Inl e) \<Rightarrow> (tr', Inl e)
      | (tr', Inr _) \<Rightarrow> record_decisions w who ds tr')"

definition audit_decisions ::
  "(audit_world \<times> string) option \<Rightarrow> capability_decision list \<Rightarrow> writer_trace \<Rightarrow> writer_trace \<times> unit live_result"
where
  "audit_decisions audit decisions tr =
     (case audit of
        None \<Rightarrow> (tr, Inr ())
      | Some (w, who) \<Rightarrow>
          (case record_decisions w who decisions tr of
             (tr', Inl e) \<Rightarrow> (tr', Inl e)
           | (tr', Inr _) \<Rightarrow> audit_flush w tr'))"

definition admit_with_audit ::
  "space \<Rightarrow> application_plan \<Rightarrow> effective_grant \<Rightarrow> (audit_world \<times> string) option \<Rightarrow> writer_trace
     \<Rightarrow> writer_trace \<times> (nat \<rightharpoonup> effective_grant) live_result"
where
  "admit_with_audit sp plan g audit tr =
     (let (decisions, admission) = admitted_grants_with sp plan g;
          (tr', audit_result) = audit_decisions audit decisions tr in
      (tr', case (admission, audit_result) of
              (Inl e, _) \<Rightarrow> Inl e
            | (Inr _, Inl e) \<Rightarrow> Inl e
            | (Inr grants, Inr _) \<Rightarrow> Inr grants))"

section \<open>What is in the log\<close>

text \<open>The line of a decision, at some time.\<close>

definition decision_line :: "audit_world \<Rightarrow> string \<Rightarrow> capability_decision \<Rightarrow> bytes \<Rightarrow> bool" where
  "decision_line w who d line \<longleftrightarrow> (\<exists>now encoded. aw_encode w (event_decision now who d) = Inr encoded \<and> line = encoded @ [10])"

lemma record_decisions_ok:
  "record_decisions w who ds tr = (tr', Inr u) \<Longrightarrow>
     \<exists>lines. tr' = tr @ map WriteDone lines \<and> list_all2 (decision_line w who) ds lines"
proof (induction ds arbitrary: tr)
  case (Cons d ds)
  obtain tr1 where r: "audit_record w (event_decision (aw_now w tr) who d) tr = (tr1, Inr ())" "record_decisions w who ds tr1 = (tr', Inr u)"
    using Cons.prems by (auto split: prod.splits sum.splits)
  then obtain b where b: "aw_encode w (event_decision (aw_now w tr) who d) = Inr b" "tr1 = tr @ [WriteDone (b @ [10])]"
    by (auto simp: audit_record_def audit_ask_def handle_record_def Let_def map_err_eq_Inr split: sum.splits prod.splits)
  then have "decision_line w who d (b @ [10])" by (auto simp: decision_line_def)
  moreover from Cons.IH [OF r(2)] obtain lines where "tr' = tr1 @ map WriteDone lines" "list_all2 (decision_line w who) ds lines" by blast
  ultimately show ?case using b by (intro exI [of _ "(b @ [10]) # lines"]) simp
qed simp

lemma audit_flush_ok: "audit_flush w tr = (tr', Inr u) \<Longrightarrow> tr' = tr @ [FlushDone]"
  by (auto simp: audit_flush_def audit_ask_def handle_flush_def Let_def map_err_eq_Inr split: sum.splits prod.splits)

text \<open>An audited admission succeeds only when the grant admits the plan and every decision has been
  written and flushed.\<close>

definition audited :: "(audit_world \<times> string) option \<Rightarrow> capability_decision list \<Rightarrow> writer_trace \<Rightarrow> writer_trace \<Rightarrow> bool" where
  "audited audit decisions tr tr' \<longleftrightarrow>
     (case audit of
        None \<Rightarrow> tr' = tr
      | Some (w, who) \<Rightarrow> \<exists>lines. tr' = tr @ map WriteDone lines @ [FlushDone] \<and> list_all2 (decision_line w who) decisions lines)"

lemma admit_with_audit_ok:
  assumes "admit_with_audit sp plan g audit tr = (tr', Inr grants)"
  shows "\<exists>decisions. admitted_grants_with sp plan g = (decisions, Inr grants) \<and> audited audit decisions tr tr'"
proof -
  obtain decisions where d: "admitted_grants_with sp plan g = (decisions, Inr grants)" "audit_decisions audit decisions tr = (tr', Inr ())"
    using assms by (auto simp: admit_with_audit_def Let_def split: prod.splits sum.splits)
  have "audited audit decisions tr tr'"
  proof (cases audit)
    case (Some a)
    then obtain tr1 where "record_decisions (fst a) (snd a) decisions tr = (tr1, Inr ())" "audit_flush (fst a) tr1 = (tr', Inr ())"
      using d(2) by (auto simp: audit_decisions_def split: prod.splits sum.splits)
    then show ?thesis using Some by (auto simp: audited_def split_beta dest!: record_decisions_ok audit_flush_ok)
  qed (use d(2) in \<open>simp add: audit_decisions_def audited_def\<close>)
  then show ?thesis using d(1) by blast
qed

lemma admit_with_audit_refused:
  "admit_with_audit sp plan g audit tr = (tr', Inl e) \<Longrightarrow>
     admitted_grants sp plan g = Inl e \<or> is_ok (admitted_grants sp plan g) \<and> audit \<noteq> None"
  by (auto simp: admit_with_audit_def admitted_grants_def audit_decisions_def is_ok_def Let_def split: prod.splits sum.splits option.splits)

end
