(* ===== verification/Holo_Executor.thy ===== *)
theory Holo_Executor
  imports Holo_Catalog Audit_Log Running_Application
begin

text \<open>
  Direct execution of an archive (\<open>HoloExecutor\<close> and \<open>HoloApplicationSession\<close> in \<open>src/holo.rs\<close>): planning,
  audited admission, preparation and start, one invocation, stop. The providers of a registry are
  given as a list; which selectors the two registries of \<open>src/holo.rs\<close> hold is the subject of theory
  \<open>Holo_Providers\<close>. The theorem composes the planner, the admission, the lifecycle and the audit log.
\<close>

section \<open>Starting an application\<close>

text \<open>The part shared by sessions and resident applications: planning through start. \<open>None\<close> would be a
  loop that does not end.\<close>

definition start_application ::
  "holo_env \<Rightarrow> provider_target \<Rightarrow> layer_provider list \<Rightarrow> layer_world \<Rightarrow> bytes \<Rightarrow> local_lookup \<Rightarrow> effective_grant
     \<Rightarrow> (audit_world \<times> string) option \<Rightarrow> writer_trace
     \<Rightarrow> (writer_trace \<times> layer_trace \<times> (application_plan \<times> running_application) live_result) option"
where
  "start_application env target ps w b lookup g audit log =
     (case evaluated_report env target ps b lookup of
        None \<Rightarrow> None
      | Some (Inl e) \<Rightarrow> Some (log, [], Inl e)
      | Some (Inr (reg, report)) \<Rightarrow>
          (case into_application_plan report of
             Inl e \<Rightarrow> Some (log, [], Inl e)
           | Inr plan \<Rightarrow>
               (case admit_with_audit (he_space env) plan g audit log of
                  (log', Inl e) \<Rightarrow> Some (log', [], Inl e)
                | (log', Inr grants) \<Rightarrow>
                    map_option (\<lambda>(tr, r). (log', tr, bindE r (\<lambda>ra. Inr (plan, ra))))
                      (prepare_and_start_with_admitted_grants (he_contracts env) reg w plan grants))))"

section \<open>Sessions\<close>

record application_session =
  se_kappa :: string
  se_application :: running_application
  se_resident_bytes :: nat
  se_requested_capabilities_kappa :: string
  se_effective_grant_kappa :: string
  se_grant_source :: string

record holo_run_result =
  hr_kappa :: string
  hr_outputs :: "bytes list"
  hr_elapsed_micros :: nat
  hr_resident_bytes :: nat
  hr_completion :: layer_completion
  hr_requested_capabilities_kappa :: string
  hr_effective_grant_kappa :: string
  hr_grant_source :: string
  hr_authorization :: string

text \<open>\<open>archive_hash\<close> is the hexadecimal BLAKE3 digest.\<close>

definition start_session_internal ::
  "(bytes \<Rightarrow> string) \<Rightarrow> holo_env \<Rightarrow> layer_provider list \<Rightarrow> layer_world \<Rightarrow> bytes \<Rightarrow> effective_grant
     \<Rightarrow> (audit_world \<times> string) option \<Rightarrow> writer_trace \<Rightarrow> (writer_trace \<times> layer_trace \<times> application_session live_result) option"
where
  "start_session_internal archive_hash env ps w b g audit log =
     map_option (\<lambda>(log', tr, r). (log', tr,
       bindE r (\<lambda>(plan, ra). Inr
         \<lparr>se_kappa = ''blake3:'' @ archive_hash b, se_application = ra, se_resident_bytes = lr_resident_bytes (running_status w tr ra),
          se_requested_capabilities_kappa = co_kappa (ap_requested plan), se_effective_grant_kappa = eg_kappa g,
          se_grant_source = grant_source_name (eg_source g)\<rparr>)))
       (start_application env Direct ps w b (\<lambda>_. Inr None) g audit log)"

definition session_result :: "application_session \<Rightarrow> layer_invocation \<Rightarrow> holo_run_result" where
  "session_result s outcome =
     \<lparr>hr_kappa = se_kappa s, hr_outputs = li_outputs outcome, hr_elapsed_micros = li_elapsed_micros outcome,
      hr_resident_bytes = se_resident_bytes s, hr_completion = li_completion outcome,
      hr_requested_capabilities_kappa = se_requested_capabilities_kappa s, hr_effective_grant_kappa = se_effective_grant_kappa s,
      hr_grant_source = se_grant_source s, hr_authorization = ''allowed''\<rparr>"

definition session_invoke ::
  "layer_world \<Rightarrow> bytes list \<Rightarrow> layer_trace \<Rightarrow> application_session \<Rightarrow> layer_trace \<times> holo_run_result live_result"
where
  "session_invoke w inputs tr s =
     (let (tr', r) = running_invoke w inputs tr (se_application s) in (tr', bindE r (\<lambda>outcome. Inr (session_result s outcome))))"

definition session_stop :: "layer_world \<Rightarrow> layer_trace \<Rightarrow> application_session \<Rightarrow> layer_trace \<times> application_session \<times> unit live_result" where
  "session_stop w tr s =
     (let (tr', ra, r) = running_stop w tr (se_application s) in (tr', s\<lparr>se_application := ra\<rparr>, r))"

definition session_invoke_then_stop ::
  "layer_world \<Rightarrow> bytes list \<Rightarrow> layer_trace \<Rightarrow> application_session \<Rightarrow> layer_trace \<times> application_session \<times> holo_run_result live_result"
where
  "session_invoke_then_stop w inputs tr s =
     (let (tr', ra, r) = running_invoke_then_stop w inputs tr (se_application s) in
      (tr', s\<lparr>se_application := ra\<rparr>, bindE r (\<lambda>outcome. Inr (session_result s outcome))))"

definition execute_internal ::
  "(bytes \<Rightarrow> string) \<Rightarrow> holo_env \<Rightarrow> layer_provider list \<Rightarrow> layer_world \<Rightarrow> bytes \<Rightarrow> bytes list \<Rightarrow> effective_grant
     \<Rightarrow> (audit_world \<times> string) option \<Rightarrow> writer_trace \<Rightarrow> (writer_trace \<times> layer_trace \<times> holo_run_result live_result) option"
where
  "execute_internal archive_hash env ps w b inputs g audit log =
     map_option (\<lambda>(log', tr, r).
       (case r of
          Inl e \<Rightarrow> (log', tr, Inl e)
        | Inr s \<Rightarrow> (let (tr', _, res) = session_invoke_then_stop w inputs tr s in (log', tr', res))))
       (start_session_internal archive_hash env ps w b g audit log)"

text \<open>\<open>execute\<close> and \<open>start_session\<close> use the local baseline and no audit.\<close>

definition execute ::
  "(bytes \<Rightarrow> string) \<Rightarrow> holo_env \<Rightarrow> layer_provider list \<Rightarrow> layer_world \<Rightarrow> bytes \<Rightarrow> bytes list
     \<Rightarrow> (writer_trace \<times> layer_trace \<times> holo_run_result live_result) option"
where
  "execute archive_hash env ps w b inputs =
     execute_internal archive_hash env ps w b inputs (local_baseline (he_space env)) None []"

definition start_session ::
  "(bytes \<Rightarrow> string) \<Rightarrow> holo_env \<Rightarrow> layer_provider list \<Rightarrow> layer_world \<Rightarrow> bytes
     \<Rightarrow> (writer_trace \<times> layer_trace \<times> application_session live_result) option"
where
  "start_session archive_hash env ps w b =
     start_session_internal archive_hash env ps w b (local_baseline (he_space env)) None []"

section \<open>Facts\<close>

lemma default_limits_ok: "limits_ok default_limits"
  by (simp add: limits_ok_def default_limits_def)

text \<open>Every layer is prepared with the admitted grant and the requested capabilities of its application.\<close>

definition context_of :: "application_plan \<Rightarrow> (nat \<rightharpoonup> effective_grant) \<Rightarrow> layer_prepare_context \<Rightarrow> bool" where
  "context_of p grants c \<longleftrightarrow> (\<exists>i. grants i = Some (px_grant c) \<and> application_requested_capabilities p i = Inr (px_requested c))"

definition prepared_under :: "application_plan \<Rightarrow> (nat \<rightharpoonup> effective_grant) \<Rightarrow> layer_trace \<Rightarrow> bool" where
  "prepared_under p grants tr \<longleftrightarrow> (\<forall>c. Prepared c \<in> set tr \<longrightarrow> context_of p grants c)"

lemma prepared_under_append [simp]: "prepared_under p grants (a @ b) \<longleftrightarrow> prepared_under p grants a \<and> prepared_under p grants b"
  by (auto simp: prepared_under_def)

lemma prepared_under_simps [simp]:
  "prepared_under p grants []" "prepared_under p grants [PrepareFailed c]" "prepared_under p grants [Started i]" "prepared_under p grants [StartFailed i]"
  "prepared_under p grants [StopDone i]" "prepared_under p grants [StopFailed i]" "prepared_under p grants [Invoked i xs]"
  "prepared_under p grants [Prepared c] \<longleftrightarrow> context_of p grants c"
  by (auto simp: prepared_under_def)

lemma stop_all_under: "prepared_under p grants tr \<Longrightarrow> prepared_under p grants (fst (stop_all w ls tr))"
  by (induction w ls tr rule: stop_all.induct) (auto simp: Let_def split: sum.splits prod.splits)

lemma roll_back_under: "prepared_under p grants (pn_trace s) \<Longrightarrow> prepared_under p grants (pn_trace (fst (roll_back w e s)))"
  using stop_all_under [of p grants "pn_trace s" w "rev (pn_prepared s)"] by (auto simp: roll_back_def stop_reverse_def Let_def split: prod.splits)

lemma prepare_layers_under:
  assumes "grants i = Some (as_grant a)" "application_requested_capabilities p i = Inr (as_requested a)"
  shows "prepared_under p grants (pn_trace s) \<Longrightarrow> prepared_under p grants (pn_trace (fst (prepare_layers wc reg w ident a ls s)))"
proof (induction ls arbitrary: s)
  case (Cons l ls)
  have c: "context_of p grants (prepare_context reg ident a l)" using assms by (auto simp: context_of_def prepare_context_def)
  show ?case
  proof (cases "provider_select wc reg (rl_kind l) (rl_aux l)")
    case (Inr po)
    show ?thesis
    proof (cases po)
      case (Some q)
      show ?thesis
      proof (cases "lp_prepare q (pn_trace s) (prepare_context reg ident a l)")
        case e: (Inl e)
        then show ?thesis using Inr Some Cons.prems by (simp add: roll_back_under)
      next
        case p: (Inr pos)
        then show ?thesis using Inr Some Cons.prems c by (simp add: Cons.IH)
      qed
    qed (use Inr Cons.prems in simp)
  qed (use Cons.prems in simp)
qed simp

lemma prepare_application_under:
  assumes "prepared_under p grants (pn_trace s)"
  shows "prepared_under p grants (pn_trace (fst (prepare_application wc reg w p grants i s)))"
proof (cases "application_layers p i")
  case (Inr kl)
  obtain kappa layers where kl: "kl = (kappa, layers)" by fastforce
  let ?primary = "if list_ex (\<lambda>l. rl_kind l = ViewLayer) layers then bindE (application_primary_layer p i) (\<lambda>x. Inr (Some x)) else Inr None"
  show ?thesis
  proof (cases ?primary)
    case e: (Inl e)
    then show ?thesis using Inr kl assms by (simp add: prepare_application_def roll_back_under)
  next
    case primary: (Inr primary)
    let ?s = "s\<lparr>pn_brokers := pn_brokers s @ [intent_broker_new kappa]\<rparr>"
    have bind: "prepared_under p grants (pn_trace t) \<Longrightarrow> prepared_under p grants (pn_trace (fst (bind_primary w a k primary t)))" for a k t
      by (auto simp: bind_primary_def roll_back_under split: option.splits sum.splits)
    show ?thesis
    proof (cases "is_ok (application_requested_capabilities p i) \<and> grants i \<noteq> None")
      case True
      then obtain requested grant where rg: "application_requested_capabilities p i = Inr requested" "grants i = Some grant" by (auto simp: is_ok_iff)
      let ?a = "\<lparr>as_index = i, as_kappa = kappa, as_grant = grant, as_requested = requested, as_intents = length (pn_brokers s)\<rparr>"
      obtain t r where t: "prepare_layers wc reg w (ap_identity p) ?a layers ?s = (t, r)" by fastforce
      have "prepared_under p grants (pn_trace t)"
        using prepare_layers_under [of grants i ?a p ?s wc reg w "ap_identity p" layers] rg assms t by simp
      then show ?thesis using Inr kl primary rg t bind by (cases r) (simp_all add: prepare_application_def Let_def ok_or_def)
    next
      case False
      then show ?thesis using Inr kl primary assms
        by (cases "application_requested_capabilities p i"; cases "grants i") (auto simp: prepare_application_def Let_def ok_or_def is_ok_def)
    qed
  qed
qed (use assms in \<open>simp add: prepare_application_def\<close>)

lemma prepare_applications_under:
  "prepared_under p grants (pn_trace s) \<Longrightarrow> prepared_under p grants (pn_trace (fst (prepare_applications wc reg w p grants order s)))"
proof (induction order arbitrary: s)
  case (Cons i order)
  obtain t r where t: "prepare_application wc reg w p grants i s = (t, r)" by fastforce
  have "prepared_under p grants (pn_trace t)" using prepare_application_under [OF Cons.prems, of wc reg w i] t by simp
  then show ?case using t Cons.IH by (cases r) simp_all
qed simp

lemma start_layers_under: "prepared_under p grants (pn_trace s) \<Longrightarrow> prepared_under p grants (pn_trace (fst (start_layers w ls s)))"
  by (induction ls arbitrary: s) (auto simp: roll_back_under split: sum.splits)

lemma prepare_and_start_under:
  assumes "prepare_and_start_with_admitted_grants wc reg w p grants = Some (tr, res)"
  shows "prepared_under p grants tr"
proof (cases "check_primary p")
  case (Inr primary_layer)
  show ?thesis
  proof (cases "lifecycle_application_order p")
    case (Some ord)
    show ?thesis
    proof (cases ord)
      case o: (Inr order)
      let ?s0 = "\<lparr>pn_trace = [], pn_prepared = [], pn_brokers = [], pn_state = state_value Preparing\<rparr>"
      obtain s r where s: "prepare_applications wc reg w p grants order ?s0 = (s, r)" by fastforce
      then have "prepared_under p grants (pn_trace s)" using prepare_applications_under [of p grants ?s0 wc reg w order] by simp
      moreover from this have "prepared_under p grants (pn_trace (fst (start_layers w (pn_prepared s) s)))" by (rule start_layers_under)
      ultimately show ?thesis using assms Inr Some o s
        by (cases r) (auto simp: prepare_and_start_with_admitted_grants_def split: prod.splits sum.splits)
    qed (use assms Inr Some in \<open>simp add: prepare_and_start_with_admitted_grants_def\<close>)
  qed (use assms Inr in \<open>simp add: prepare_and_start_with_admitted_grants_def\<close>)
qed (use assms in \<open>simp add: prepare_and_start_with_admitted_grants_def\<close>)

section \<open>What a start guarantees\<close>

text \<open>Authority: a layer runs under the given grant or one it admits, and its application's request is
  admitted by the grant it runs under.\<close>

definition confined :: "space \<Rightarrow> effective_grant \<Rightarrow> layer_trace \<Rightarrow> bool" where
  "confined sp g tr \<longleftrightarrow> (\<forall>c. Prepared c \<in> set tr \<longrightarrow>
     (px_grant c = g \<or> caps_admits sp (eg_capabilities g) (eg_capabilities (px_grant c)))
     \<and> caps_admits sp (eg_capabilities (px_grant c)) (co_capabilities (px_requested c)))"

lemma confined_append [simp]: "confined sp g (a @ b) \<longleftrightarrow> confined sp g a \<and> confined sp g b"
  by (auto simp: confined_def)

lemma confined_stops: "list_all2 stops_instance stops is' \<Longrightarrow> confined sp g stops"
  by (induction stops is' rule: list_all2_induct) (auto simp: confined_def)

lemma stops_under: "list_all2 stops_instance stops is' \<Longrightarrow> prepared_under p grants stops"
  by (induction stops is' rule: list_all2_induct) (auto simp: prepared_under_def)

lemma admitted_confined:
  assumes ord: "plan_ordered (ap_children p)" and trans: "admits_trans sp"
    and adm: "admitted_grants_with sp p g = (ds, Inr grants)" and under: "prepared_under p grants tr"
  shows "confined sp g tr"
proof -
  note t = admitted_grants_tree [OF ord trans adm]
  have "(px_grant c = g \<or> caps_admits sp (eg_capabilities g) (eg_capabilities (px_grant c)))
     \<and> caps_admits sp (eg_capabilities (px_grant c)) (co_capabilities (px_requested c))" if c: "context_of p grants c" for c
  proof -
    obtain i where i: "grants i = Some (px_grant c)" "application_requested_capabilities p i = Inr (px_requested c)" using c by (auto simp: context_of_def)
    show ?thesis
    proof (cases "i = 0")
      case True
      then show ?thesis using i t by (auto simp: application_requested_capabilities_def)
    next
      case False
      then obtain d where d: "child_at p i = Some d" "rc_requested d = px_requested c"
        using i(2) by (auto simp: application_requested_capabilities_def split: option.splits)
      then have m: "d \<in> set (ap_children p)" "rc_application_index d = i" unfolding child_at_def find_Some_iff by auto
      then have "px_grant c = from_delegation (rc_delegated d)" using t i(1) by auto
      then show ?thesis using t m(1) d(2) by (auto simp: from_delegation_def)
    qed
  qed
  then show ?thesis using under by (auto simp: confined_def prepared_under_def)
qed

fun is_invoked :: "layer_event \<Rightarrow> bool" where
  "is_invoked (Invoked _ _) = True"
| "is_invoked _ = False"

text \<open>The plan of an archive.\<close>

definition planned_as :: "holo_env \<Rightarrow> provider_target \<Rightarrow> layer_provider list \<Rightarrow> bytes \<Rightarrow> local_lookup \<Rightarrow> application_plan \<Rightarrow> bool" where
  "planned_as env target ps b lookup plan \<longleftrightarrow>
     (\<exists>reg report. evaluated_report env target ps b lookup = Some (Inr (reg, report)) \<and> into_application_plan report = Inr plan)"

definition start_ok ::
  "space \<Rightarrow> (application_plan \<Rightarrow> bool) \<Rightarrow> effective_grant \<Rightarrow> (audit_world \<times> string) option \<Rightarrow> writer_trace \<Rightarrow> writer_trace \<Rightarrow> layer_trace
     \<Rightarrow> (application_plan \<times> running_application) live_result \<Rightarrow> bool"
where
  "start_ok sp planned g audit log log' tr res \<longleftrightarrow>
     confined sp g tr
     \<and> (tr \<noteq> [] \<or> is_ok res \<longrightarrow> (\<exists>plan decisions grants. planned plan \<and> admitted_grants_with sp plan g = (decisions, Inr grants)
          \<and> list_all allowed decisions \<and> audited audit decisions log log' \<and> prepared_under plan grants tr))
     \<and> (case res of
          Inl e \<Rightarrow> rolled_back tr
        | Inr (plan, ra) \<Rightarrow> running_state ra = Running \<and> no_stop tr \<and> list_all (\<lambda>e. \<not> is_invoked e) tr \<and> ra_identity ra = ap_identity plan
            \<and> map pd_instance (ra_layers ra) = [0..<length (filter is_prepared tr)])"

lemma planned_contexts_length:
  "length (planned_contexts reg p grants k order) = length (concat (map (\<lambda>i. replicate (length (app_layers p i)) (app_kappa p i)) order))"
  by (induction order arbitrary: k) simp_all

lemma evaluated_report_cases:
  obtains (failed) e where "evaluated_report env target ps b lookup = Some (Inl e)"
  | (report) reg r0 where "evaluated_report env target ps b lookup = Some (Inr (reg, registry_evaluate (he_contracts env) reg r0))"
      "explain_application (he_space env) (he_contracts env) (he_directory env) b default_limits lookup = Some (Inr r0)"
proof (rule explain_application_cases [OF default_limits_ok, of "he_space env" "he_contracts env" "he_directory env" b lookup])
  fix e assume "explain_application (he_space env) (he_contracts env) (he_directory env) b default_limits lookup = Some (Inl e)"
  then show thesis using failed by (simp add: evaluated_report_def)
next
  fix i st assume e: "explain_application (he_space env) (he_contracts env) (he_directory env) b default_limits lookup = Some (Inr (plan_report_of default_limits i st))"
  then show thesis using failed report by (cases "providers_new (he_contracts env) target ps") (auto simp: evaluated_report_def)
qed

lemma start_application_ok:
  assumes codec: "manifest_codec_ok (he_space env)" and trans: "admits_trans (he_space env)"
  shows "\<exists>log' tr res. start_application env target ps w b lookup g audit log = Some (log', tr, res)
     \<and> start_ok (he_space env) (planned_as env target ps b lookup) g audit log log' tr res"
proof -
  let ?sp = "he_space env" and ?wc = "he_contracts env"
  let ?planned = "planned_as env target ps b lookup"
  have none: "start_ok ?sp ?planned g audit log log' [] (Inl e)" for log' e by (simp add: start_ok_def confined_def rolled_back_def is_ok_def)
  show ?thesis
  proof (cases rule: evaluated_report_cases [of env target ps b lookup])
    case (failed e)
    then show ?thesis using none by (simp add: start_application_def)
  next
    case (report reg r0)
    show ?thesis
    proof (cases "into_application_plan (registry_evaluate ?wc reg r0)")
      case (Inl e)
      then show ?thesis using report none by (simp add: start_application_def)
    next
      case p: (Inr p)
      have tree: "plan_ordered (ap_children p)"
        using planned_ordered [OF default_limits_ok codec report(2)] p by (simp add: registry_evaluate_def)
      obtain log' r where a: "admit_with_audit ?sp p g audit log = (log', r)" by fastforce
      show ?thesis
      proof (cases r)
        case (Inl e)
        then show ?thesis using report p a none by (simp add: start_application_def)
      next
        case grants: (Inr grants)
        obtain decisions where ds: "admitted_grants_with ?sp p g = (decisions, Inr grants)" "audited audit decisions log log'"
          using admit_with_audit_ok [OF a [unfolded grants]] by blast
        have dom: "dom grants = set (indices (ap_children p))"
          using admitted_grants_dom [OF tree, of ?sp g grants] ds(1) by (simp add: admitted_grants_def indices_def)
        from prepare_and_start_admitted [OF tree into_plan_served [OF p] dom, of w] obtain tr res where
          s: "prepare_and_start_with_admitted_grants ?wc reg w p grants = Some (tr, res)" and
          r: "case res of Inl e \<Rightarrow> rolled_back tr
            | Inr ra \<Rightarrow> tr = map Prepared (planned_contexts reg p grants 0 (tree_preorder (ap_children p) 0)) @ map Started [0..<length (ra_layers ra)]
               \<and> state_from_value (ra_state ra) = Running \<and> ra_identity ra = ap_identity p
               \<and> check_primary p = Inr (ra_primary_layer ra)
               \<and> map pd_instance (ra_layers ra) = [0..<length (ra_layers ra)]
               \<and> map pd_application_kappa (ra_layers ra) = concat (map (\<lambda>i. replicate (length (app_layers p i)) (app_kappa p i)) (tree_preorder (ap_children p) 0))
               \<and> list_all2 (broker_ok p (ra_layers ra)) (tree_preorder (ap_children p) 0) (ra_brokers ra)"
          by blast
        have under: "prepared_under p grants tr" by (rule prepare_and_start_under [OF s])
        have conf: "confined ?sp g tr" by (rule admitted_confined [OF tree trans ds(1) under])
        have planned: "?planned p" using report(1) p by (auto simp: planned_as_def)
        have "list_all allowed decisions" using admitted_grants_tree [OF tree trans ds(1)] by simp
        moreover have "case res of Inl e \<Rightarrow> rolled_back tr | Inr ra \<Rightarrow> running_state ra = Running \<and> no_stop tr \<and> list_all (\<lambda>e. \<not> is_invoked e) tr \<and> ra_identity ra = ap_identity p
            \<and> map pd_instance (ra_layers ra) = [0..<length (filter is_prepared tr)]"
        proof (cases res)
          case (Inr ra)
          have "map pd_application_kappa (ra_layers ra) = concat (map (\<lambda>i. replicate (length (app_layers p i)) (app_kappa p i)) (tree_preorder (ap_children p) 0))"
            using r Inr by simp
          from arg_cong [OF this, of length] have "length (ra_layers ra) = length (planned_contexts reg p grants 0 (tree_preorder (ap_children p) 0))"
            unfolding planned_contexts_length by simp
          then show ?thesis using r Inr by (auto simp: running_state_def no_stop_def filter_map comp_def list_all_iff)
        qed (use r in simp)
        ultimately show ?thesis using report p a grants s conf ds under planned
          by (cases res) (auto simp: start_application_def start_ok_def)
      qed
    qed
  qed
qed

section \<open>Executing an archive\<close>

definition one_run :: "layer_world \<Rightarrow> bytes list \<Rightarrow> layer_trace \<Rightarrow> layer_invocation \<Rightarrow> bool" where
  "one_run w inputs tr outcome \<longleftrightarrow> (\<exists>calls i stops. tr = calls @ Invoked i inputs # map StopDone stops
     \<and> list_all (\<lambda>e. \<not> is_invoked e) calls \<and> lw_invoke w calls i inputs = Inr outcome)"

lemma invoke_then_stop_trace:
  assumes run: "running_state ra = Running" "no_stop tr" "map pd_instance (ra_layers ra) = [0..<length (filter is_prepared tr)]"
    and r: "running_invoke_then_stop w inputs tr ra = (tr', ra', res)"
  shows "\<exists>more stops. tr' = tr @ more @ stops \<and> (more = [] \<or> (\<exists>i. more = [Invoked i inputs]))
     \<and> list_all2 stops_instance stops (rev [0..<length (filter is_prepared tr)])
     \<and> (\<forall>outcome. res = Inr outcome \<longrightarrow> (\<exists>i. more = [Invoked i inputs] \<and> lw_invoke w tr i inputs = Inr outcome)
          \<and> stops = map StopDone (rev [0..<length (filter is_prepared tr)]))"
proof -
  obtain tr1 inv where i: "running_invoke w inputs tr ra = (tr1, inv)" by fastforce
  obtain more where more: "tr1 = tr @ more" "more = [] \<and> \<not> is_ok inv \<or> (\<exists>k. more = [Invoked k inputs] \<and> inv = lw_invoke w tr k inputs)"
    using running_invoke_cases [of w inputs tr ra] i by auto
  obtain stops sr where s: "list_all2 stops_instance stops (rev (map pd_instance (ra_layers ra)))"
    "running_stop w tr1 ra = (tr1 @ stops, ra\<lparr>ra_state := state_value (if is_ok sr then Stopped else Failed)\<rparr>, sr)"
    "is_ok sr \<longleftrightarrow> stops = map StopDone (rev (map pd_instance (ra_layers ra)))"
    using running_stop_active [of ra w tr1] run(1) by blast
  have eq: "tr' = tr @ more @ stops" and res: "res = Inr outcome \<Longrightarrow> inv = Inr outcome \<and> is_ok sr" for outcome
    using r i s(2) more(1) by (auto simp: running_invoke_then_stop_def is_ok_def split: sum.splits)
  show ?thesis using eq more(2) s(1,3) res unfolding run(3) by (intro exI [of _ more] exI [of _ stops]) (auto simp: is_ok_def)
qed

lemma rolled_back_confined: "no_stop calls \<Longrightarrow> list_all2 stops_instance stops (rev [0..<length (filter is_prepared calls)]) \<Longrightarrow> rolled_back (calls @ stops)"
  unfolding rolled_back_def by blast

text \<open>
  C6 Executing an archive leaves nothing behind and stays within its grant. For every archive, grant,
  inputs and audit log, whatever providers, layers and the log answer, the execution ends. Everything that
  was prepared has then been asked to stop, exactly once, last prepared first, and nothing is called
  afterwards. Every layer was prepared under the given grant or one it admits, and under it its
  application's request is admitted. No provider is called at all unless the archive has a plan that the grant admits
  as a whole and, where there is an audit log, every decision on that plan has been written to it in order and
  flushed; every layer is then prepared with the requests of that plan and the grants of that admission. A result is the
  outcome of one invocation with the given inputs, after which every layer has stopped.
\<close>
theorem execute_contained:
  assumes codec: "manifest_codec_ok (he_space env)" and trans: "admits_trans (he_space env)"
  shows "\<exists>log' tr res. execute_internal archive_hash env ps w b inputs g audit log = Some (log', tr, res)
     \<and> rolled_back tr \<and> confined (he_space env) g tr
     \<and> (tr \<noteq> [] \<longrightarrow> (\<exists>plan decisions grants. planned_as env Direct ps b (\<lambda>_. Inr None) plan
          \<and> admitted_grants_with (he_space env) plan g = (decisions, Inr grants)
          \<and> list_all allowed decisions \<and> audited audit decisions log log' \<and> prepared_under plan grants tr))
     \<and> (\<forall>out. res = Inr out \<longrightarrow> hr_kappa out = ''blake3:'' @ archive_hash b \<and> hr_effective_grant_kappa out = eg_kappa g
          \<and> (\<exists>outcome. one_run w inputs tr outcome \<and> hr_outputs out = li_outputs outcome \<and> hr_completion out = li_completion outcome))"
proof -
  let ?sp = "he_space env" and ?planned = "planned_as env Direct ps b (\<lambda>_. Inr None)"
  obtain log' tr res where s: "start_application env Direct ps w b (\<lambda>_. Inr None) g audit log = Some (log', tr, res)" "start_ok ?sp ?planned g audit log log' tr res"
    using start_application_ok [OF assms] by blast
  show ?thesis
  proof (cases res)
    case (Inl e)
    then show ?thesis using s by (simp add: execute_internal_def start_session_internal_def start_ok_def)
  next
    case (Inr pr)
    obtain plan ra where pr: "pr = (plan, ra)" by fastforce
    have ok: "running_state ra = Running" "no_stop tr" "map pd_instance (ra_layers ra) = [0..<length (filter is_prepared tr)]" "confined ?sp g tr"
      using s(2) Inr pr by (simp_all add: start_ok_def)
    obtain tr' ra' inv where r: "running_invoke_then_stop w inputs tr ra = (tr', ra', inv)" by (rule prod_cases3)
    from invoke_then_stop_trace [OF ok(1-3) r] obtain more stops where m: "tr' = tr @ more @ stops" "more = [] \<or> (\<exists>i. more = [Invoked i inputs])"
      "list_all2 stops_instance stops (rev [0..<length (filter is_prepared tr)])"
      "\<forall>outcome. inv = Inr outcome \<longrightarrow> (\<exists>i. more = [Invoked i inputs] \<and> lw_invoke w tr i inputs = Inr outcome)
          \<and> stops = map StopDone (rev [0..<length (filter is_prepared tr)])" by blast
    have undone: "rolled_back tr'" using rolled_back_confined [of "tr @ more" stops] ok(2) m by auto
    have conf: "confined ?sp g tr'" using ok(4) m confined_stops [OF m(3)] by (auto simp: confined_def)
    have calls: "list_all (\<lambda>e. \<not> is_invoked e) tr" using s(2) Inr pr by (simp add: start_ok_def)
    have once: "one_run w inputs tr' outcome" if out: "inv = Inr outcome" for outcome
    proof -
      obtain i where "more = [Invoked i inputs]" "lw_invoke w tr i inputs = Inr outcome" "stops = map StopDone (rev [0..<length (filter is_prepared tr)])"
        using m(4) out by blast
      then show ?thesis using m(1) calls unfolding one_run_def
        by (intro exI [of _ tr] exI [of _ i] exI [of _ "rev [0..<length (filter is_prepared tr)]"]) simp
    qed
    have under: "prepared_under plan' grants tr'" if "prepared_under plan' grants tr" for plan' grants
      using that m stops_under [OF m(3)] by auto
    have adm: "\<exists>plan decisions grants. ?planned plan \<and> admitted_grants_with ?sp plan g = (decisions, Inr grants)
          \<and> list_all allowed decisions \<and> audited audit decisions log log' \<and> prepared_under plan grants tr'"
      using s(2) Inr under by (auto simp: start_ok_def is_ok_def)
    show ?thesis using s(1) Inr pr r undone conf adm once
      by (auto simp: execute_internal_def start_session_internal_def session_invoke_then_stop_def session_result_def bindE_eq_Inr)
  qed
qed

section \<open>A sealed archive\<close>

text \<open>A root application with one layer, whose objects are embedded in its archive.\<close>

definition solo_root :: app_manifest where
  "solo_root = \<lparr>am_layers = [\<lparr>al_kind = RootfsImage, al_content = ''x'', al_entry = ''main'', al_aux = []\<rparr>],
     am_children = [], am_primary = Some 0, am_requires = ''k''\<rparr>"

definition solo_blobs :: "(bytes \<times> bytes) list" where
  "solo_blobs = [(string_bytes ''k'', demo_caps), (string_bytes ''x'', [])]"

definition solo_space :: space where
  "solo_space = demo_space\<lparr>load_archive := (\<lambda>b. Inr \<lparr>ar_fingerprint = [], ar_manifest = Some (drop 6 b),
     ar_extensions = Inr [(directory_extension_key, [])], ar_content_blobs = Inr solo_blobs\<rparr>)\<rparr>"

definition solo_directory :: holo_directory where
  "solo_directory = \<lparr>hd_schema_version = 1, hd_primary_layer = Some 0, hd_requires_kappa = ''k'',
     hd_layers = [\<lparr>hl_position = 0, hl_kind = ''rootfs'', hl_content_kappa = ''x'', hl_entry = ''main'', hl_contract = None,
                   hl_architecture = Some [], hl_surface = None, hl_engine = None\<rparr>],
     hd_children = [], hd_blobs = [\<lparr>hb_kappa = ''k'', hb_byte_length = sat64 (length demo_caps)\<rparr>, \<lparr>hb_kappa = ''x'', hb_byte_length = 0\<rparr>]\<rparr>"

definition solo_env :: holo_env where
  "solo_env = \<lparr>he_space = solo_space, he_contracts = demo_contracts,
     he_directory = \<lparr>dir_to_bytes = (\<lambda>_. Inr []), dir_of_bytes = (\<lambda>_. Inr solo_directory)\<rparr>, he_sections = (\<lambda>_. [])\<rparr>"

definition solo_archive :: bytes where
  "solo_archive = [72, 79, 76, 79, 4, 0] @ sample_manifest_enc solo_root"

definition solo_embedded :: "string \<rightharpoonup> bytes" where
  "solo_embedded = [''k'' \<mapsto> demo_caps, ''x'' \<mapsto> []]"

definition solo_input :: plan_input where
  "solo_input = \<lparr>pi_identity = \<lparr>archive_kappa = demo_address solo_archive, archive_fingerprint = [], application_kappa = ''c''\<rparr>,
     pi_manifest = solo_root, pi_root_manifest = solo_root, pi_embedded = solo_embedded\<rparr>"

lemma solo_blob_texts: "bytes_string (string_bytes ''k'') = ''k''" "bytes_string (string_bytes ''x'') = ''x''"
    "utf8_valid (map unat (string_bytes ''k''))" "utf8_valid (map unat (string_bytes ''x''))"
  using string_bytes_inverse(1) [of "''k''"] string_bytes_inverse(1) [of "''x''"] by (simp_all add: string_bytes_def unat_byte_of byte_of_def)

lemma solo_opens: "open_archive solo_space demo_contracts (he_directory solo_env) solo_archive = Inr solo_input"
proof -
  have "verify_required solo_space demo_contracts (he_directory solo_env) solo_root [[]] solo_blobs = Inr solo_directory"
    by (simp add: verify_required_def directory_decode_def derive_directory_def derive_layer_def decode_layer_def solo_blobs_def solo_blob_texts
        solo_env_def solo_directory_def solo_root_def solo_space_def demo_space_def sample_space_def demo_addresses Let_def sat64_def)
  moreover have "require_current solo_archive = Inr ()" by (simp add: require_current_def solo_archive_def)
  moreover have "drop 6 solo_archive = sample_manifest_enc solo_root" by (simp add: solo_archive_def)
  moreover have "demo_address (sample_manifest_enc solo_root) = ''c''" by (simp add: demo_address_def sample_manifest_codec solo_root_def demo_root_def)
  moreover have "bindE (embedded_pairs solo_blobs) (\<lambda>e. Inr (map_of (rev e))) = Inr solo_embedded"
    by (auto simp: solo_blobs_def solo_embedded_def solo_blob_texts bindE_def fun_eq_iff)
  ultimately show ?thesis
    by (auto simp: open_archive_def solo_space_def demo_space_def sample_space_def sample_manifest_codec hex_def solo_input_def bindE_eq_Inr)
qed

definition solo_objects :: object_table where
  "solo_objects = [(''k'', \<lparr>ro_kappa = ''k'', ro_bytes = demo_caps, ro_source = Embedded\<rparr>), (''x'', \<lparr>ro_kappa = ''x'', ro_bytes = [], ro_source = Embedded\<rparr>)]"

definition solo_state :: plan_state where
  "solo_state = \<lparr>ps_closure = (initial_resolver default_limits solo_embedded)\<lparr>rs_referenced := [''x'', ''k''], rs_objects := solo_objects,
       rs_resolved_bytes := length demo_caps, rs_embedded_count := 2\<rparr>,
     ps_pending = [], ps_children = [], ps_admissions = [], ps_requested = Some demo_set,
     ps_application_count = 1, ps_max_depth = 0, ps_total_layers = 1, ps_applications_limited = False\<rparr>"

lemma solo_address: "address_bytes solo_space = demo_address"
  by (simp add: solo_space_def demo_space_def)

lemma solo_decodes: "requested_decode solo_space ''k'' demo_caps = Inr demo_set"
  using demo_addresses(1)
  by (simp add: requested_decode_def decode_capability_object_def decode_canonical_def solo_space_def demo_space_def sample_space_def
      sample_caps_codec demo_caps_def demo_set_def)

lemma solo_planned: "plan_application solo_space lookup default_limits (root_application solo_input) (initial_plan default_limits solo_input\<lparr>ps_pending := []\<rparr>)
   = Inr (solo_state, True)"
proof -
  have "\<exists>n. length demo_caps = n \<and> n \<le> 100" using demo_lengths(1) by blast
  moreover have "map_insert ''x'' \<lparr>ro_kappa = ''x'', ro_bytes = [], ro_source = Embedded\<rparr>
      (map_insert ''k'' \<lparr>ro_kappa = ''k'', ro_bytes = demo_caps, ro_source = Embedded\<rparr> []) = solo_objects"
    by (simp add: solo_objects_def)
  ultimately show ?thesis
    by (auto simp: plan_application_def admit_layers_def plan_requires_def resolve_in_def resolve_def note_reference_def lookup_bytes_def
        admit_bytes_def solo_address demo_addresses solo_decodes take_requested_def root_application_def initial_plan_def initial_resolver_def
        solo_input_def solo_root_def solo_embedded_def default_limits_def Let_def saturating_add64_def sat64_def solo_state_def)
qed

lemma solo_plan:
  "\<exists>reg report p. evaluated_report solo_env target [demo_provider] solo_archive lookup = Some (Inr (reg, report))
     \<and> into_application_plan report = Inr p \<and> admitted_grants solo_space p (local_baseline solo_space) = Inr [0 \<mapsto> local_baseline solo_space]
     \<and> willing reg demo_world \<and> check_primary p = Inr 0 \<and> (\<forall>i. \<not> has_view p i) \<and> length (ap_layers p) = 1 \<and> ap_children p = []"
proof -
  let ?r = "plan_report_of default_limits solo_input solo_state"
  have "explain_application solo_space demo_contracts (he_directory solo_env) solo_archive default_limits lookup = Some (Inr ?r)"
  proof -
    have "max_applications default_limits = Suc 63" by (simp add: default_limits_def)
    moreover have "ps_pending (initial_plan default_limits solo_input) = [root_application solo_input]" by (simp add: initial_plan_def default_limits_def)
    ultimately show ?thesis
      by (simp add: explain_application_def solo_opens plan_loop.simps solo_planned) (simp add: solo_state_def)
  qed
  moreover have "providers_new demo_contracts target [demo_provider] = Inr \<lparr>reg_target = target, reg_providers = [demo_provider]\<rparr>"
    by (simp add: providers_new_def demo_provider_def check_contract_def)
  ultimately have report: "evaluated_report solo_env target [demo_provider] solo_archive lookup = Some (Inr (\<lparr>reg_target = target, reg_providers = [demo_provider]\<rparr>,
      registry_evaluate demo_contracts \<lparr>reg_target = target, reg_providers = [demo_provider]\<rparr> ?r))"
    by (simp add: evaluated_report_def solo_env_def)
  obtain p where p: "into_application_plan (registry_evaluate demo_contracts \<lparr>reg_target = target, reg_providers = [demo_provider]\<rparr> ?r) = Inr p"
    "ap_requested p = demo_set" "ap_children p = []" "ap_primary_layer p = Some 0" "map rl_position (ap_layers p) = [0]" "map rl_kind (ap_layers p) = [RootfsImage]"
    by (simp add: plan_report_of_def Let_def registry_evaluate_def registry_availability_def provider_select_def demo_provider_def
        evaluate_providers_def solo_state_def solo_input_def solo_root_def planned_layers_def sat32_def initial_resolver_def
        planned_layer_at_def source_of_def solo_objects_def into_application_plan_def strict_layers_def strict_layer_def)
  have admits: "caps_admits solo_space empty_capabilities empty_capabilities"
    by (simp add: solo_space_def demo_space_def sample_space_def sample_admits_def)
  have "admitted_grants solo_space p (local_baseline solo_space) = Inr [0 \<mapsto> local_baseline solo_space]"
    using p(2,3) admits by (simp add: admitted_grants_def admitted_grants_with_def grant_authorize_def local_baseline_def demo_set_def Let_def)
  moreover have "check_primary p = Inr 0" using p(4-6) by (auto simp: check_primary_def)
  moreover obtain l where l: "ap_layers p = [l]" "rl_kind l = RootfsImage" using p(6) by auto
  have "\<not> has_view p i" for i using p(3) l by (auto simp: has_view_def app_layers_def child_at_def split: if_splits)
  moreover have "willing \<lparr>reg_target = target, reg_providers = [demo_provider]\<rparr> demo_world"
    by (simp add: willing_def demo_provider_def demo_world_def)
  ultimately show ?thesis using report p(1,3) l(1) by auto
qed

lemma solo_space_ok: "manifest_codec_ok (he_space solo_env)" "admits_trans (he_space solo_env)" "he_space solo_env = solo_space"
  using demo_space_ok by (simp_all add: solo_env_def solo_space_def manifest_codec_ok_def admits_trans_def)

text \<open>An audit log that takes every event.\<close>

definition demo_audit :: audit_world where
  "demo_audit = \<lparr>aw_now = (\<lambda>_. 0), aw_encode = (\<lambda>_. Inr [65]), aw_write = (\<lambda>_ _. Inr ()), aw_flush = (\<lambda>_. Inr ()),
     aw_reachable = (\<lambda>_. Inr ()), aw_handler_error = error_message\<rparr>"

lemma solo_starts:
  assumes audit: "audit \<in> {None, Some (demo_audit, who)}"
  shows "\<exists>log' tr plan ra. start_application solo_env target [demo_provider] demo_world solo_archive lookup (local_baseline solo_space) audit log
     = Some (log', tr, Inr (plan, ra)) \<and> length (filter is_prepared tr) = 1"
proof -
  obtain reg report p where p: "evaluated_report solo_env target [demo_provider] solo_archive lookup = Some (Inr (reg, report))"
    "into_application_plan report = Inr p" "admitted_grants solo_space p (local_baseline solo_space) = Inr [0 \<mapsto> local_baseline solo_space]"
    "willing reg demo_world" "check_primary p = Inr 0" "\<forall>i. \<not> has_view p i" "length (ap_layers p) = 1"
    and children: "ap_children p = []"
    using solo_plan [of target lookup] by blast
  obtain log' where admit: "admit_with_audit solo_space p (local_baseline solo_space) audit log = (log', Inr [0 \<mapsto> local_baseline solo_space])"
  proof -
    obtain ds where ds: "admitted_grants_with solo_space p (local_baseline solo_space) = (ds, Inr [0 \<mapsto> local_baseline solo_space])"
      using p(3) by (cases "admitted_grants_with solo_space p (local_baseline solo_space)") (simp add: admitted_grants_def)
    have "\<exists>tr'. record_decisions demo_audit who ds tr = (tr', Inr ())" for tr
      by (induction ds arbitrary: tr) (auto simp: audit_record_def audit_ask_def handle_record_def demo_audit_def)
    then obtain tr' where "record_decisions demo_audit who ds log = (tr', Inr ())" by blast
    then have "\<exists>log'. audit_decisions audit ds log = (log', Inr ())" using audit
      by (auto simp: audit_decisions_def audit_flush_def audit_ask_def) (auto simp: demo_audit_def handle_flush_def)
    then show thesis using ds that by (auto simp: admit_with_audit_def)
  qed
  obtain r0 where r0: "report = registry_evaluate demo_contracts reg r0"
    "explain_application solo_space demo_contracts (he_directory solo_env) solo_archive default_limits lookup = Some (Inr r0)"
    using p(1) by (cases rule: evaluated_report_cases [of solo_env target "[demo_provider]" solo_archive lookup]) (auto simp: solo_env_def)
  have tree: "plan_ordered (ap_children p)"
    using planned_ordered [OF default_limits_ok solo_space_ok(1) [unfolded solo_space_ok(3)] r0(2)] p(2) r0(1) by (simp add: registry_evaluate_def)
  have served: "plan_served demo_contracts reg p" using into_plan_served p(2) r0(1) by blast
  have dom: "dom [0 \<mapsto> local_baseline solo_space] = set (indices (ap_children p))"
    using admitted_grants_dom [OF tree p(3)] by (simp add: indices_def)
  have views: "list_all (view_bindable p) order" for order using p(6) by (simp add: list_all_iff view_bindable_def)
  let ?prepared = "map Prepared (planned_contexts reg p [0 \<mapsto> local_baseline solo_space] 0 (tree_preorder (ap_children p) 0))"
  obtain tr res where run: "prepare_and_start_with_admitted_grants demo_contracts reg demo_world p [0 \<mapsto> local_baseline solo_space] = Some (tr, res)"
    "\<forall>ra. res = Inr ra \<longrightarrow> tr = ?prepared @ map Started [0..<length (ra_layers ra)]" "is_ok res"
    using prepare_and_start_admitted [OF tree served dom, of demo_world] p(4,5) views by fastforce
  then obtain ra where s: "prepare_and_start_with_admitted_grants demo_contracts reg demo_world p [0 \<mapsto> local_baseline solo_space] = Some (tr, Inr ra)"
    "tr = ?prepared @ map Started [0..<length (ra_layers ra)]" by (auto simp: is_ok_iff)
  have "length (filter is_prepared tr) = 1" using s(2) p(7) children
    by (simp add: filter_map comp_def tree_preorder_def app_layers_def)
  moreover have "start_application solo_env target [demo_provider] demo_world solo_archive lookup (local_baseline solo_space) audit log
      = Some (log', tr, Inr (p, ra))"
    using p(1,2) admit s(1) by (simp add: start_application_def solo_space_ok(3)) (simp add: solo_env_def)
  ultimately show ?thesis by blast
qed

lemma stops_not_prepared: "list_all2 stops_instance stops is' \<Longrightarrow> filter is_prepared stops = []"
  by (induction stops is' rule: list_all2_induct) (auto elim: stops_instance.elims)

lemma execute_trace:
  assumes "manifest_codec_ok (he_space env)" "admits_trans (he_space env)"
    and s: "start_application env Direct ps w b (\<lambda>_. Inr None) g audit log = Some (log', tr, Inr (plan, ra))"
    and x: "execute_internal archive_hash env ps w b inputs g audit log = Some (log'', tr', res)"
  shows "\<exists>calls. tr' = tr @ calls \<and> filter is_prepared calls = []"
proof -
  have "start_ok (he_space env) (planned_as env Direct ps b (\<lambda>_. Inr None)) g audit log log' tr (Inr (plan, ra))"
    using start_application_ok [OF assms(1,2), of Direct ps w b "\<lambda>_. Inr None" g audit log] s by auto
  then have ok: "running_state ra = Running" "no_stop tr" "map pd_instance (ra_layers ra) = [0..<length (filter is_prepared tr)]"
    by (simp_all add: start_ok_def)
  obtain tr1 ra' inv where r: "running_invoke_then_stop w inputs tr ra = (tr1, ra', inv)" by (rule prod_cases3)
  have "tr' = tr1" using x s r by (auto simp: execute_internal_def start_session_internal_def session_invoke_then_stop_def)
  moreover obtain more stops where "tr1 = tr @ more @ stops" "more = [] \<or> (\<exists>i. more = [Invoked i inputs])"
    "list_all2 stops_instance stops (rev [0..<length (filter is_prepared tr)])" using invoke_then_stop_trace [OF ok r] by blast
  ultimately show ?thesis using stops_not_prepared by (intro exI [of _ "more @ stops"]) auto
qed

theorem execute_contained_witness:
  "\<exists>log tr res plan decisions grants. execute_internal (\<lambda>_. ''h'') solo_env [demo_provider] demo_world solo_archive [[1]] (local_baseline solo_space)
       (Some (demo_audit, ''me'')) [] = Some (log, tr, res)
     \<and> rolled_back tr \<and> confined solo_space (local_baseline solo_space) tr \<and> length (filter is_prepared tr) = 1
     \<and> planned_as solo_env Direct [demo_provider] solo_archive (\<lambda>_. Inr None) plan
     \<and> admitted_grants_with solo_space plan (local_baseline solo_space) = (decisions, Inr grants)
     \<and> audited (Some (demo_audit, ''me'')) decisions [] log"
proof -
  let ?audit = "Some (demo_audit, ''me'')"
  obtain log tr plan ra where s: "start_application solo_env Direct [demo_provider] demo_world solo_archive (\<lambda>_. Inr None) (local_baseline solo_space) ?audit []
     = Some (log, tr, Inr (plan, ra))" "length (filter is_prepared tr) = 1"
    using solo_starts [of ?audit "''me''" Direct "\<lambda>_. Inr None" "[]"] by auto
  obtain log' tr' res where x: "execute_internal (\<lambda>_. ''h'') solo_env [demo_provider] demo_world solo_archive [[1]] (local_baseline solo_space) ?audit []
     = Some (log', tr', res)"
    and ok: "rolled_back tr'" "confined solo_space (local_baseline solo_space) tr'"
      "tr' \<noteq> [] \<longrightarrow> (\<exists>plan decisions grants. planned_as solo_env Direct [demo_provider] solo_archive (\<lambda>_. Inr None) plan
          \<and> admitted_grants_with solo_space plan (local_baseline solo_space) = (decisions, Inr grants)
          \<and> list_all allowed decisions \<and> audited ?audit decisions [] log' \<and> prepared_under plan grants tr')"
    using execute_contained [OF solo_space_ok(1,2), of "\<lambda>_. ''h''" "[demo_provider]" demo_world solo_archive "[[1]]" "local_baseline solo_space" ?audit "[]"]
    unfolding solo_space_ok(3) by blast
  obtain calls where "tr' = tr @ calls" "filter is_prepared calls = []"
    using execute_trace [OF solo_space_ok(1,2) s(1) x] by blast
  then have "length (filter is_prepared tr') = 1" using s(2) by auto
  then show ?thesis using x ok by (cases tr') auto
qed

end
