(* ===== verification/Holo_Runtime.thy ===== *)
theory Holo_Runtime
  imports Holo_Executor
begin

text \<open>
  Resident applications (\<open>HoloRuntime\<close> in \<open>src/holo.rs\<close>). The applications are shared handles: the table, a load on
  its way into it, an unload that is stopping one and a run that looked one up refer to them by number. No call holds
  the table's lock while it waits, so every call is split where it waits, and \<open>runtime_step\<close> interleaves the parts
  of concurrent calls; a call may also be dropped while it waits. Stopping and invoking one application exclude each
  other by its gates (theory \<open>Session_Gates\<close>) and are one step each. Every load gets fresh providers, whose layers
  answer on their own trace: both are indexed by the number of the load. A poisoned lock is a state.
\<close>

section \<open>State\<close>

text \<open>A started application with the calls its layers got. \<open>ac_dropped\<close> notes that a call dropped the handle
  before or while stopping it; the code has no such flag.\<close>

record app_cell =
  ac_load :: nat
  ac_application :: running_application
  ac_trace :: layer_trace
  ac_dropped :: bool

record resident_entry =
  re_app :: nat
  re_input_count :: nat
  re_output_count :: nat
  re_requested_capabilities_kappa :: string
  re_effective_grant_kappa :: string
  re_grant_source :: string

text \<open>\<open>ht_loads\<close> counts the starts and \<open>ht_partial\<close> has the calls of the starts that were dropped before they
  finished. The order of the table is the unspecified one of the hash map.\<close>

record holo_runtime =
  ht_store :: object_store
  ht_grant :: effective_grant
  ht_audit :: "audit_world option"
  ht_resident :: "(string \<times> resident_entry) list"
  ht_poisoned :: bool
  ht_log :: writer_trace
  ht_loads :: nat
  ht_apps :: "app_cell list"
  ht_partial :: "layer_trace list"

record runtime_world =
  rw_providers :: "nat \<Rightarrow> layer_provider list"
  rw_layers :: "nat \<Rightarrow> layer_world"

record resident_holo =
  rh_kappa :: string
  rh_state :: string
  rh_input_count :: nat
  rh_output_count :: nat
  rh_resident_bytes :: nat
  rh_queued :: nat
  rh_processed :: nat
  rh_requested_capabilities_kappa :: string
  rh_effective_grant_kappa :: string
  rh_grant_source :: string
  rh_authorization :: string

definition runtime_new :: "object_store \<Rightarrow> effective_grant \<Rightarrow> audit_world option \<Rightarrow> holo_runtime" where
  "runtime_new s g audit =
     \<lparr>ht_store = s, ht_grant = g, ht_audit = audit, ht_resident = [], ht_poisoned = False, ht_log = [], ht_loads = 0, ht_apps = [], ht_partial = []\<rparr>"

section \<open>Operations\<close>

definition entry_record :: "runtime_world \<Rightarrow> holo_runtime \<Rightarrow> string \<Rightarrow> resident_entry \<Rightarrow> resident_holo" where
  "entry_record W rt kappa e =
     (let c = ht_apps rt ! re_app e; status = running_status (rw_layers W (ac_load c)) (ac_trace c) (ac_application c) in
      \<lparr>rh_kappa = kappa, rh_state = state_name (running_state (ac_application c)), rh_input_count = re_input_count e,
       rh_output_count = re_output_count e, rh_resident_bytes = lr_resident_bytes status, rh_queued = lr_queued status,
       rh_processed = lr_processed status, rh_requested_capabilities_kappa = re_requested_capabilities_kappa e,
       rh_effective_grant_kappa = re_effective_grant_kappa e, rh_grant_source = re_grant_source e, rh_authorization = ''allowed''\<rparr>)"

definition lock_resident :: "holo_runtime \<Rightarrow> (string \<times> resident_entry) list live_result" where
  "lock_resident rt = (if ht_poisoned rt then Inl (Conflict ''resident holo registry lock poisoned'') else Inr (ht_resident rt))"

definition resident_record :: "runtime_world \<Rightarrow> holo_runtime \<Rightarrow> string \<Rightarrow> resident_holo option live_result" where
  "resident_record W rt kappa = bindE (lock_resident rt) (\<lambda>m. Inr (map_option (entry_record W rt kappa) (map_of m kappa)))"

definition resident_lookup :: "holo_runtime \<Rightarrow> string \<Rightarrow> resident_entry option live_result" where
  "resident_lookup rt kappa = bindE (lock_resident rt) (\<lambda>m. Inr (map_of m kappa))"

subsection \<open>Applications\<close>

definition app_stop :: "runtime_world \<Rightarrow> nat \<Rightarrow> holo_runtime \<Rightarrow> holo_runtime \<times> unit live_result" where
  "app_stop W h rt =
     (let c = ht_apps rt ! h; (tr, ra, r) = running_stop (rw_layers W (ac_load c)) (ac_trace c) (ac_application c) in
      (rt\<lparr>ht_apps := (ht_apps rt)[h := c\<lparr>ac_trace := tr, ac_application := ra\<rparr>]\<rparr>, r))"

text \<open>A stop dropped after \<open>k\<close> layers were asked, and a handle dropped without a stop.\<close>

definition app_stop_dropped :: "runtime_world \<Rightarrow> nat \<Rightarrow> nat \<Rightarrow> holo_runtime \<Rightarrow> holo_runtime" where
  "app_stop_dropped W k h rt =
     (let c = ht_apps rt ! h; (tr, ra) = running_stop_dropped (rw_layers W (ac_load c)) k (ac_trace c) (ac_application c) in
      rt\<lparr>ht_apps := (ht_apps rt)[h := c\<lparr>ac_trace := tr, ac_application := ra, ac_dropped := True\<rparr>]\<rparr>)"

definition app_abandon :: "nat \<Rightarrow> holo_runtime \<Rightarrow> holo_runtime" where
  "app_abandon h rt = rt\<lparr>ht_apps := (ht_apps rt)[h := (ht_apps rt ! h)\<lparr>ac_dropped := True\<rparr>]\<rparr>"

subsection \<open>Loading\<close>

text \<open>A start with the archive's bytes and what the store answers meanwhile.\<close>

definition load_start_from ::
  "holo_env \<Rightarrow> runtime_world \<Rightarrow> string \<Rightarrow> bytes \<Rightarrow> local_lookup \<Rightarrow> holo_runtime \<Rightarrow> (holo_runtime \<times> resident_entry live_result) option"
where
  "load_start_from env W who b lookup rt =
     map_option (\<lambda>(log, tr, r).
       (case r of
          Inl e \<Rightarrow> (rt\<lparr>ht_log := log, ht_loads := Suc (ht_loads rt)\<rparr>, Inl e)
        | Inr (plan, ra) \<Rightarrow>
            (rt\<lparr>ht_log := log, ht_loads := Suc (ht_loads rt),
                ht_apps := ht_apps rt @ [\<lparr>ac_load = ht_loads rt, ac_application = ra, ac_trace = tr, ac_dropped = False\<rparr>]\<rparr>,
             Inr \<lparr>re_app = length (ht_apps rt), re_input_count = 1, re_output_count = 1,
               re_requested_capabilities_kappa = co_kappa (ap_requested plan), re_effective_grant_kappa = eg_kappa (ht_grant rt),
               re_grant_source = grant_source_name (eg_source (ht_grant rt))\<rparr>)))
       (start_application env Resident (rw_providers W (ht_loads rt)) (rw_layers W (ht_loads rt)) b lookup
          (ht_grant rt) (map_option (\<lambda>a. (a, who)) (ht_audit rt)) (ht_log rt))"

definition load_start :: "holo_env \<Rightarrow> runtime_world \<Rightarrow> string \<Rightarrow> string \<Rightarrow> holo_runtime \<Rightarrow> (holo_runtime \<times> resident_entry live_result) option" where
  "load_start env W kappa who rt =
     (case catalog_bytes (ht_store rt) kappa of
        Inl e \<Rightarrow> Some (rt, Inl e)
      | Inr b \<Rightarrow> load_start_from env W who b (resolve_content (ht_store rt)) rt)"

text \<open>Entering the table: the record of the entry that is in it, and whether the own application is a duplicate
  to be stopped. A poisoned lock drops the application.\<close>

definition load_enter :: "runtime_world \<Rightarrow> string \<Rightarrow> resident_entry \<Rightarrow> holo_runtime \<Rightarrow> holo_runtime \<times> (resident_holo \<times> bool) live_result" where
  "load_enter W kappa e rt =
     (case lock_resident rt of
        Inl err \<Rightarrow> (app_abandon (re_app e) rt, Inl err)
      | Inr m \<Rightarrow>
          (case map_of m kappa of
             Some existing \<Rightarrow> (rt, Inr (entry_record W rt kappa existing, True))
           | None \<Rightarrow> (rt\<lparr>ht_resident := (kappa, e) # m\<rparr>, Inr (entry_record W rt kappa e, False))))"

definition load_commit :: "runtime_world \<Rightarrow> string \<Rightarrow> resident_entry \<Rightarrow> holo_runtime \<Rightarrow> holo_runtime \<times> resident_holo live_result" where
  "load_commit W kappa e rt =
     (case load_enter W kappa e rt of
        (rt1, Inl err) \<Rightarrow> (rt1, Inl err)
      | (rt1, Inr (entry, duplicate)) \<Rightarrow>
          if duplicate then (let (rt2, r) = app_stop W (re_app e) rt1 in (rt2, bindE r (\<lambda>_. Inr entry)))
          else (rt1, Inr entry))"

definition load_for :: "holo_env \<Rightarrow> runtime_world \<Rightarrow> string \<Rightarrow> string \<Rightarrow> holo_runtime \<Rightarrow> (holo_runtime \<times> resident_holo live_result) option" where
  "load_for env W kappa who rt =
     (case resident_record W rt kappa of
        Inl e \<Rightarrow> Some (rt, Inl e)
      | Inr (Some record) \<Rightarrow> Some (rt, Inr record)
      | Inr None \<Rightarrow>
          (case load_start env W kappa who rt of
             None \<Rightarrow> None
           | Some (rt', Inl e) \<Rightarrow> Some (rt', Inl e)
           | Some (rt', Inr e) \<Rightarrow> Some (load_commit W kappa e rt')))"

definition load :: "holo_env \<Rightarrow> runtime_world \<Rightarrow> string \<Rightarrow> holo_runtime \<Rightarrow> (holo_runtime \<times> resident_holo live_result) option" where
  "load env W kappa rt = load_for env W kappa ''local-runtime'' rt"

fun load_declared ::
  "holo_env \<Rightarrow> runtime_world \<Rightarrow> string list \<Rightarrow> holo_runtime \<Rightarrow> (holo_runtime \<times> (string \<times> resident_holo live_result) list) option"
where
  "load_declared env W [] rt = Some (rt, [])"
| "load_declared env W (kappa # kappas) rt =
     (case load_for env W kappa ''local-runtime'' rt of
        None \<Rightarrow> None
      | Some (rt', outcome) \<Rightarrow>
          map_option (\<lambda>(rt'', outcomes). (rt'', (kappa, outcome) # outcomes)) (load_declared env W kappas rt'))"

subsection \<open>Unloading and running\<close>

definition unload_take :: "string \<Rightarrow> holo_runtime \<Rightarrow> holo_runtime \<times> resident_entry option live_result" where
  "unload_take kappa rt =
     (case lock_resident rt of
        Inl e \<Rightarrow> (rt, Inl e)
      | Inr m \<Rightarrow> (rt\<lparr>ht_resident := AList.delete kappa m\<rparr>, Inr (map_of m kappa)))"

definition unload :: "runtime_world \<Rightarrow> string \<Rightarrow> holo_runtime \<Rightarrow> holo_runtime \<times> unit live_result" where
  "unload W kappa rt =
     (case unload_take kappa rt of
        (rt1, Inl e) \<Rightarrow> (rt1, Inl e)
      | (rt1, Inr None) \<Rightarrow> (rt1, Inr ())
      | (rt1, Inr (Some e)) \<Rightarrow> app_stop W (re_app e) rt1)"

definition not_resident :: "string \<Rightarrow> live_error" where
  "not_resident kappa =
     NotFound (kappa @ '' is not loaded as a resident holo; run `hologram holo load '' @ kappa @ ''` first'')"

definition run_lookup :: "string \<Rightarrow> holo_runtime \<Rightarrow> resident_entry live_result" where
  "run_lookup kappa rt = bindE (resident_lookup rt kappa) (ok_or (not_resident kappa))"

definition run_invoke :: "runtime_world \<Rightarrow> string \<Rightarrow> resident_entry \<Rightarrow> bytes list \<Rightarrow> holo_runtime \<Rightarrow> holo_runtime \<times> holo_run_result live_result" where
  "run_invoke W kappa e inputs rt =
     (let c = ht_apps rt ! re_app e; w = rw_layers W (ac_load c);
          (tr, r) = running_invoke w inputs (ac_trace c) (ac_application c) in
      (rt\<lparr>ht_apps := (ht_apps rt)[re_app e := c\<lparr>ac_trace := tr\<rparr>]\<rparr>,
       bindE r (\<lambda>outcome. Inr
         \<lparr>hr_kappa = kappa, hr_outputs = li_outputs outcome, hr_elapsed_micros = li_elapsed_micros outcome,
          hr_resident_bytes = lr_resident_bytes (running_status w tr (ac_application c)), hr_completion = li_completion outcome,
          hr_requested_capabilities_kappa = re_requested_capabilities_kappa e, hr_effective_grant_kappa = re_effective_grant_kappa e,
          hr_grant_source = re_grant_source e, hr_authorization = ''allowed''\<rparr>)))"

definition runtime_run :: "runtime_world \<Rightarrow> string \<Rightarrow> bytes list \<Rightarrow> holo_runtime \<Rightarrow> holo_runtime \<times> holo_run_result live_result" where
  "runtime_run W kappa inputs rt =
     (case run_lookup kappa rt of Inl e \<Rightarrow> (rt, Inl e) | Inr e \<Rightarrow> run_invoke W kappa e inputs rt)"

definition runtime_list :: "runtime_world \<Rightarrow> holo_runtime \<Rightarrow> resident_holo list live_result" where
  "runtime_list W rt = bindE (lock_resident rt) (\<lambda>m. Inr (map (\<lambda>(kappa, e). entry_record W rt kappa e) m))"

section \<open>Interleaving\<close>

text \<open>Where a call under way waits: a load with its started application, an unload or a duplicate load before it
  stops one, a run before it invokes one.\<close>

datatype runtime_call = Entering string resident_entry | Ending nat | Invoking string resident_entry "bytes list"

definition call_dropped :: "runtime_call \<Rightarrow> holo_runtime \<Rightarrow> holo_runtime" where
  "call_dropped c rt = (case c of Entering _ e \<Rightarrow> app_abandon (re_app e) rt | Ending h \<Rightarrow> app_abandon h rt | Invoking _ _ _ \<Rightarrow> rt)"

text \<open>
  A load may start at any time: it found no entry earlier, and others may have changed the table and the
  store since. A start dropped on its way leaves the layers it prepared without a stop. An invocation whose caller
  goes away has still been made.
\<close>

inductive runtime_step ::
  "holo_env \<Rightarrow> runtime_world \<Rightarrow> holo_runtime \<times> runtime_call list \<Rightarrow> holo_runtime \<times> runtime_call list \<Rightarrow> bool"
  for env W
where
  start: "load_start_from env W who b lookup rt = Some (rt', Inr e) \<Longrightarrow> runtime_step env W (rt, cs) (rt', Entering kappa e # cs)"
| start_failed: "load_start_from env W who b lookup rt = Some (rt', Inl err) \<Longrightarrow> runtime_step env W (rt, cs) (rt', cs)"
| start_dropped: "start_application env Resident (rw_providers W (ht_loads rt)) (rw_layers W (ht_loads rt)) b lookup (ht_grant rt)
      (map_option (\<lambda>a. (a, who)) (ht_audit rt)) (ht_log rt) = Some (log, tr, r) \<Longrightarrow>
    runtime_step env W (rt, cs) (rt\<lparr>ht_loads := Suc (ht_loads rt), ht_partial := ht_partial rt @ [take k tr]\<rparr>, cs)"
| enter: "load_enter W kappa e rt = (rt', Inr (entry, duplicate)) \<Longrightarrow>
    runtime_step env W (rt, before @ Entering kappa e # after) (rt', before @ (if duplicate then [Ending (re_app e)] else []) @ after)"
| enter_failed: "load_enter W kappa e rt = (rt', Inl err) \<Longrightarrow> runtime_step env W (rt, before @ Entering kappa e # after) (rt', before @ after)"
| take_out: "unload_take kappa rt = (rt', Inr (Some e)) \<Longrightarrow> runtime_step env W (rt, cs) (rt', Ending (re_app e) # cs)"
| stop: "runtime_step env W (rt, before @ Ending h # after) (fst (app_stop W h rt), before @ after)"
| stop_dropped: "runtime_step env W (rt, before @ Ending h # after) (app_stop_dropped W k h rt, before @ after)"
| look: "run_lookup kappa rt = Inr e \<Longrightarrow> runtime_step env W (rt, cs) (rt, Invoking kappa e inputs # cs)"
| invoke: "runtime_step env W (rt, before @ Invoking kappa e inputs # after) (fst (run_invoke W kappa e inputs rt), before @ after)"
| dropped: "runtime_step env W (rt, before @ c # after) (call_dropped c rt, before @ after)"
| others: "runtime_step env W (rt, cs) (rt\<lparr>ht_store := s, ht_log := log\<rparr>, cs)"
| poison: "runtime_step env W (rt, cs) (rt\<lparr>ht_poisoned := True\<rparr>, cs)"

section \<open>Invariant\<close>

definition cell_live :: "holo_env \<Rightarrow> effective_grant \<Rightarrow> app_cell \<Rightarrow> bool" where
  "cell_live env g c \<longleftrightarrow> running_state (ac_application c) = Running \<and> no_stop (ac_trace c) \<and> confined (he_space env) g (ac_trace c)
     \<and> map pd_instance (ra_layers (ac_application c)) = [0..<length (filter is_prepared (ac_trace c))]"

text \<open>An application nobody will stop any more: it has ended, or its handle was dropped.\<close>

definition cell_over :: "holo_env \<Rightarrow> effective_grant \<Rightarrow> app_cell \<Rightarrow> bool" where
  "cell_over env g c \<longleftrightarrow> confined (he_space env) g (ac_trace c)
     \<and> (rolled_back (ac_trace c) \<and> running_state (ac_application c) \<in> {Stopped, Failed}
        \<or> ac_dropped c \<and> running_state (ac_application c) \<in> {Running, Stopping})"

fun held :: "runtime_call \<Rightarrow> nat list" where
  "held (Entering _ e) = [re_app e]"
| "held (Ending h) = [h]"
| "held (Invoking _ _ _) = []"

definition holders :: "holo_runtime \<Rightarrow> runtime_call list \<Rightarrow> nat list" where
  "holders rt cs = map (\<lambda>x. re_app (snd x)) (ht_resident rt) @ concat (map held cs)"

definition runtime_ok :: "holo_env \<Rightarrow> effective_grant \<Rightarrow> holo_runtime \<times> runtime_call list \<Rightarrow> bool" where
  "runtime_ok env g st \<longleftrightarrow> (case st of (rt, cs) \<Rightarrow>
     ht_grant rt = g \<and> distinct (map fst (ht_resident rt)) \<and> distinct (holders rt cs)
     \<and> (\<forall>h \<in> set (holders rt cs). h < length (ht_apps rt) \<and> cell_live env g (ht_apps rt ! h))
     \<and> (\<forall>h < length (ht_apps rt). h \<notin> set (holders rt cs) \<longrightarrow> cell_over env g (ht_apps rt ! h))
     \<and> (\<forall>tr \<in> set (ht_partial rt). confined (he_space env) g tr)
     \<and> (\<forall>kappa e inputs. Invoking kappa e inputs \<in> set cs \<longrightarrow> re_app e < length (ht_apps rt)))"

lemma runtime_okI:
  assumes "ht_grant rt = g" "distinct (map fst (ht_resident rt))" "distinct (holders rt cs)"
    and "\<And>h. h \<in> set (holders rt cs) \<Longrightarrow> h < length (ht_apps rt) \<and> cell_live env g (ht_apps rt ! h)"
    and "\<And>h. h < length (ht_apps rt) \<Longrightarrow> h \<notin> set (holders rt cs) \<Longrightarrow> cell_over env g (ht_apps rt ! h)"
    and "\<And>tr. tr \<in> set (ht_partial rt) \<Longrightarrow> confined (he_space env) g tr"
    and "\<And>kappa e inputs. Invoking kappa e inputs \<in> set cs \<Longrightarrow> re_app e < length (ht_apps rt)"
  shows "runtime_ok env g (rt, cs)"
  using assms unfolding runtime_ok_def by blast

lemma runtime_okD:
  assumes "runtime_ok env g (rt, cs)"
  shows "ht_grant rt = g" "distinct (map fst (ht_resident rt))" "distinct (holders rt cs)"
    and "h \<in> set (holders rt cs) \<Longrightarrow> h < length (ht_apps rt) \<and> cell_live env g (ht_apps rt ! h)"
    and "h < length (ht_apps rt) \<Longrightarrow> h \<notin> set (holders rt cs) \<Longrightarrow> cell_over env g (ht_apps rt ! h)"
    and "tr \<in> set (ht_partial rt) \<Longrightarrow> confined (he_space env) g tr"
    and "Invoking kappa e inputs \<in> set cs \<Longrightarrow> re_app e < length (ht_apps rt)"
  using assms unfolding runtime_ok_def by blast+

subsection \<open>What the operations do to an application\<close>

lemma running_stop_ends:
  assumes "cell_live env g c" "running_stop w (ac_trace c) (ac_application c) = (tr, ra, r)"
  shows "cell_over env g (c\<lparr>ac_trace := tr, ac_application := ra\<rparr>)"
proof -
  let ?tr = "ac_trace c" and ?ra = "ac_application c"
  obtain stops sr where s: "list_all2 stops_instance stops (rev (map pd_instance (ra_layers ?ra)))"
    "running_stop w ?tr ?ra = (?tr @ stops, ?ra\<lparr>ra_state := state_value (if is_ok sr then Stopped else Failed)\<rparr>, sr)"
    using running_stop_active [of ?ra w ?tr] assms(1) unfolding cell_live_def by blast
  have "rolled_back (?tr @ stops)" by (rule rolled_back_confined) (use assms(1) s(1) in \<open>auto simp: cell_live_def\<close>)
  moreover have "confined (he_space env) g (?tr @ stops)" using assms(1) confined_stops [OF s(1)] by (simp add: cell_live_def)
  ultimately show ?thesis using assms(2) s(2) by (cases "is_ok sr") (auto simp: cell_over_def)
qed

lemma running_stop_dropped_left:
  assumes "cell_live env g c" "running_stop_dropped w k (ac_trace c) (ac_application c) = (tr, ra)"
  shows "cell_over env g (c\<lparr>ac_trace := tr, ac_application := ra, ac_dropped := True\<rparr>)"
proof -
  obtain stops where s: "fst (stop_all w (take k (rev (ra_layers (ac_application c)))) (ac_trace c)) = ac_trace c @ stops"
    "list_all2 stops_instance stops (map pd_instance (take k (rev (ra_layers (ac_application c)))))"
    using stop_all_trace by blast
  have "tr = ac_trace c @ stops" "ra = (ac_application c)\<lparr>ra_state := state_value Stopping\<rparr>"
    using assms s(1) by (auto simp: running_stop_dropped_def cell_live_def)
  then show ?thesis using assms(1) confined_stops [OF s(2)] by (simp add: cell_live_def cell_over_def)
qed

lemma abandoned_over: "cell_live env g c \<Longrightarrow> cell_over env g (c\<lparr>ac_dropped := True\<rparr>)"
  by (simp add: cell_live_def cell_over_def)

lemma invoked_cell:
  assumes "running_invoke w inputs (ac_trace c) (ac_application c) = (tr, r)"
  shows "cell_live env g c \<Longrightarrow> cell_live env g (c\<lparr>ac_trace := tr\<rparr>)" "cell_over env g c \<Longrightarrow> cell_over env g (c\<lparr>ac_trace := tr\<rparr>)"
proof -
  have "tr = ac_trace c \<or> running_state (ac_application c) = Running \<and> (\<exists>k. tr = ac_trace c @ [Invoked k inputs])"
    using running_invoke_cases [of w inputs "ac_trace c" "ac_application c"] assms by auto
  then show "cell_live env g c \<Longrightarrow> cell_live env g (c\<lparr>ac_trace := tr\<rparr>)" "cell_over env g c \<Longrightarrow> cell_over env g (c\<lparr>ac_trace := tr\<rparr>)"
    by (auto simp: cell_live_def cell_over_def confined_def)
qed

subsection \<open>Steps\<close>

text \<open>A call lets its application go, in a state nobody has to end.\<close>

lemma release_ok:
  assumes ok: "runtime_ok env g (rt, before @ c # after)" and h: "held c = [h]" and over: "cell_over env g x"
  shows "runtime_ok env g (rt\<lparr>ht_apps := (ht_apps rt)[h := x]\<rparr>, before @ after)"
proof -
  note d = runtime_okD [OF ok]
  let ?rt = "rt\<lparr>ht_apps := (ht_apps rt)[h := x]\<rparr>"
  have hs: "set (holders rt (before @ c # after)) = insert h (set (holders ?rt (before @ after)))"
    and fresh: "distinct (holders ?rt (before @ after))" "h \<notin> set (holders ?rt (before @ after))"
    using d(3) h by (auto simp: holders_def)
  show ?thesis
  proof (rule runtime_okI)
    fix i assume i: "i \<in> set (holders ?rt (before @ after))"
    then have "i \<noteq> h" using fresh(2) by blast
    then show "i < length (ht_apps ?rt) \<and> cell_live env g (ht_apps ?rt ! i)" using d(4) [of i] i hs by auto
  next
    fix i assume i: "i < length (ht_apps ?rt)" "i \<notin> set (holders ?rt (before @ after))"
    then show "cell_over env g (ht_apps ?rt ! i)" using d(5) [of i] hs over by (cases "i = h") auto
  qed (use d(1,2,6,7) fresh(1) in auto)
qed

text \<open>What only changes a cell in place, or who waits without holding.\<close>

lemma keep_ok:
  assumes ok: "runtime_ok env g (rt, before @ c # after)" and h: "held c = []"
  shows "runtime_ok env g (rt, before @ after)"
proof -
  note d = runtime_okD [OF ok]
  have same: "holders rt (before @ after) = holders rt (before @ c # after)" using h by (simp add: holders_def)
  have calls: "set (before @ after) \<subseteq> set (before @ c # after)" by auto
  show ?thesis by (rule runtime_okI, unfold same) (use d(1-6) in \<open>blast+\<close>, use d(7) calls in blast)
qed

lemma invoke_ok:
  assumes ok: "runtime_ok env g (rt, cs)"
  shows "runtime_ok env g (fst (run_invoke W kappa e inputs rt), cs)"
proof -
  note d = runtime_okD [OF ok]
  let ?c = "ht_apps rt ! re_app e"
  obtain tr r where i: "running_invoke (rw_layers W (ac_load ?c)) inputs (ac_trace ?c) (ac_application ?c) = (tr, r)" by fastforce
  let ?rt = "rt\<lparr>ht_apps := (ht_apps rt)[re_app e := ?c\<lparr>ac_trace := tr\<rparr>]\<rparr>"
  have same: "holders ?rt cs = holders rt cs" by (simp add: holders_def)
  have cell: "ht_apps ?rt ! h = (if h = re_app e \<and> h < length (ht_apps rt) then ?c\<lparr>ac_trace := tr\<rparr> else ht_apps rt ! h)" for h
    by (cases "re_app e < length (ht_apps rt)") (auto simp: nth_list_update list_update_beyond)
  have "runtime_ok env g (?rt, cs)"
    by (rule runtime_okI, unfold same cell) (use d invoked_cell [OF i, of env g] in \<open>auto split: if_splits\<close>)
  then show ?thesis using i by (simp add: run_invoke_def Let_def)
qed

lemma alist_delete_handles:
  assumes "distinct (map fst m)" "map_of m k = Some e"
  shows "set (map (\<lambda>x. re_app (snd x)) m) = insert (re_app e) (set (map (\<lambda>x. re_app (snd x)) (AList.delete k m)))"
    and "distinct (map (\<lambda>x. re_app (snd x)) m) \<Longrightarrow> distinct (map (\<lambda>x. re_app (snd x)) (AList.delete k m)) \<and> re_app e \<notin> set (map (\<lambda>x. re_app (snd x)) (AList.delete k m))"
proof -
  obtain a b where m: "m = a @ (k, e) # b" using map_of_SomeD [OF assms(2)] by (auto simp: in_set_conv_decomp)
  then have "k \<notin> fst ` set a" "k \<notin> fst ` set b" using assms(1) by (auto simp: image_iff)
  then have "AList.delete k m = a @ b" unfolding m by (induction a) (auto simp: AList.delete_eq filter_id_conv image_iff)
  then show "set (map (\<lambda>x. re_app (snd x)) m) = insert (re_app e) (set (map (\<lambda>x. re_app (snd x)) (AList.delete k m)))"
    "distinct (map (\<lambda>x. re_app (snd x)) m) \<Longrightarrow> distinct (map (\<lambda>x. re_app (snd x)) (AList.delete k m)) \<and> re_app e \<notin> set (map (\<lambda>x. re_app (snd x)) (AList.delete k m))"
    unfolding m by auto
qed

lemma take_out_ok:
  assumes ok: "runtime_ok env g (rt, cs)" and t: "unload_take kappa rt = (rt', Inr (Some e))"
  shows "runtime_ok env g (rt', Ending (re_app e) # cs)"
proof -
  note d = runtime_okD [OF ok]
  have m: "map_of (ht_resident rt) kappa = Some e" "rt' = rt\<lparr>ht_resident := AList.delete kappa (ht_resident rt)\<rparr>"
    using t by (auto simp: unload_take_def lock_resident_def split: if_splits)
  note hs = alist_delete_handles [OF d(2) m(1)]
  have same: "set (holders rt' (Ending (re_app e) # cs)) = set (holders rt cs)" using hs(1) by (auto simp: holders_def m(2))
  show ?thesis
  proof (rule runtime_okI, unfold same)
    show "distinct (holders rt' (Ending (re_app e) # cs))" using d(3) hs by (auto simp: holders_def m(2))
    show "distinct (map fst (ht_resident rt'))" using d(2) by (simp add: m(2) distinct_delete)
  qed (use d in \<open>auto simp: m(2)\<close>)
qed

lemma enter_ok:
  assumes ok: "runtime_ok env g (rt, before @ Entering kappa e # after)" and t: "load_enter W kappa e rt = (rt', r)"
  shows "case r of Inl _ \<Rightarrow> runtime_ok env g (rt', before @ after)
    | Inr (_, duplicate) \<Rightarrow> runtime_ok env g (rt', before @ (if duplicate then [Ending (re_app e)] else []) @ after)"
proof -
  note d = runtime_okD [OF ok]
  have live: "cell_live env g (ht_apps rt ! re_app e)" using d(4) [of "re_app e"] by (auto simp: holders_def)
  consider (poisoned) "ht_poisoned rt" | (duplicate) x where "\<not> ht_poisoned rt" "map_of (ht_resident rt) kappa = Some x"
    | (vacant) "\<not> ht_poisoned rt" "map_of (ht_resident rt) kappa = None" by fastforce
  then show ?thesis
  proof cases
    case poisoned
    then show ?thesis using t release_ok [OF ok _ abandoned_over [OF live]] by (auto simp: load_enter_def lock_resident_def app_abandon_def)
  next
    case duplicate
    have "holders rt (before @ Ending (re_app e) # after) = holders rt (before @ Entering kappa e # after)" by (simp add: holders_def)
    then have "runtime_ok env g (rt, before @ Ending (re_app e) # after)" using d by (intro runtime_okI) auto
    then show ?thesis using duplicate t by (auto simp: load_enter_def lock_resident_def)
  next
    case vacant
    let ?rt = "rt\<lparr>ht_resident := (kappa, e) # ht_resident rt\<rparr>"
    have "kappa \<notin> fst ` set (ht_resident rt)" using vacant(2) by (simp add: map_of_eq_None_iff)
    moreover have "set (holders ?rt (before @ after)) = set (holders rt (before @ Entering kappa e # after))"
      "distinct (holders ?rt (before @ after))" using d(3) by (auto simp: holders_def)
    ultimately have "runtime_ok env g (?rt, before @ after)" using d by (intro runtime_okI) auto
    then show ?thesis using vacant t by (auto simp: load_enter_def lock_resident_def)
  qed
qed

lemma load_start_from_live:
  assumes codec: "manifest_codec_ok (he_space env)" and trans: "admits_trans (he_space env)"
  shows "\<exists>log r. load_start_from env W who b lookup rt = Some (case r of
       Inl err \<Rightarrow> (rt\<lparr>ht_log := log, ht_loads := Suc (ht_loads rt)\<rparr>, Inl err)
     | Inr (e, c) \<Rightarrow> (rt\<lparr>ht_log := log, ht_loads := Suc (ht_loads rt), ht_apps := ht_apps rt @ [c]\<rparr>, Inr e))
     \<and> (\<forall>e c. r = Inr (e, c) \<longrightarrow> re_app e = length (ht_apps rt) \<and> cell_live env (ht_grant rt) c \<and> re_effective_grant_kappa e = eg_kappa (ht_grant rt))"
proof -
  let ?start = "start_application env Resident (rw_providers W (ht_loads rt)) (rw_layers W (ht_loads rt)) b lookup
    (ht_grant rt) (map_option (\<lambda>a. (a, who)) (ht_audit rt)) (ht_log rt)"
  obtain log tr res where s: "?start = Some (log, tr, res)"
    "start_ok (he_space env) (planned_as env Resident (rw_providers W (ht_loads rt)) b lookup) (ht_grant rt)
       (map_option (\<lambda>a. (a, who)) (ht_audit rt)) (ht_log rt) log tr res"
    using start_application_ok [OF assms] by blast
  show ?thesis
  proof (cases res)
    case (Inl err)
    then show ?thesis using s by (intro exI [of _ log] exI [of _ "Inl err"]) (simp add: load_start_from_def)
  next
    case (Inr p)
    let ?c = "\<lparr>ac_load = ht_loads rt, ac_application = snd p, ac_trace = tr, ac_dropped = False\<rparr>"
    let ?e = "\<lparr>re_app = length (ht_apps rt), re_input_count = 1, re_output_count = 1,
               re_requested_capabilities_kappa = co_kappa (ap_requested (fst p)), re_effective_grant_kappa = eg_kappa (ht_grant rt),
               re_grant_source = grant_source_name (eg_source (ht_grant rt))\<rparr>"
    show ?thesis using s Inr by (intro exI [of _ log] exI [of _ "Inr (?e, ?c)"]) (auto simp: load_start_from_def cell_live_def start_ok_def split_beta)
  qed
qed

lemma started_ok:
  assumes "manifest_codec_ok (he_space env)" "admits_trans (he_space env)" and ok: "runtime_ok env g (rt, cs)"
    and t: "load_start_from env W who b lookup rt = Some (rt', r)"
  shows "case r of Inl _ \<Rightarrow> runtime_ok env g (rt', cs) | Inr e \<Rightarrow> runtime_ok env g (rt', Entering kappa e # cs)"
proof -
  note d = runtime_okD [OF ok]
  from load_start_from_live [OF assms(1,2), of W who b lookup rt] t obtain log x where
    x: "(rt', r) = (case x of Inl err \<Rightarrow> (rt\<lparr>ht_log := log, ht_loads := Suc (ht_loads rt)\<rparr>, Inl err)
       | Inr (e, c) \<Rightarrow> (rt\<lparr>ht_log := log, ht_loads := Suc (ht_loads rt), ht_apps := ht_apps rt @ [c]\<rparr>, Inr e))"
    and e: "\<forall>e c. x = Inr (e, c) \<longrightarrow> re_app e = length (ht_apps rt) \<and> cell_live env (ht_grant rt) c" by auto
  show ?thesis
  proof (cases x)
    case (Inl err)
    then have "rt' = rt\<lparr>ht_log := log, ht_loads := Suc (ht_loads rt)\<rparr>" "r = Inl err" using x by simp_all
    moreover have "holders (rt\<lparr>ht_log := log, ht_loads := Suc (ht_loads rt)\<rparr>) cs = holders rt cs" by (simp add: holders_def)
    ultimately show ?thesis using d by (auto intro!: runtime_okI)
  next
    case (Inr ec)
    obtain e c where ec: "ec = (e, c)" by fastforce
    let ?rt = "rt\<lparr>ht_log := log, ht_loads := Suc (ht_loads rt), ht_apps := ht_apps rt @ [c]\<rparr>"
    have r: "rt' = ?rt" "r = Inr e" "re_app e = length (ht_apps rt)" "cell_live env g c" using x Inr ec d(1) e by auto
    have hs: "set (holders ?rt (Entering kappa e # cs)) = insert (length (ht_apps rt)) (set (holders rt cs))" using r(3) by (auto simp: holders_def)
    have new: "length (ht_apps rt) \<notin> set (holders rt cs)" using d(4) by blast
    have "runtime_ok env g (?rt, Entering kappa e # cs)"
    proof (rule runtime_okI, unfold hs)
      show "distinct (holders ?rt (Entering kappa e # cs))" using d(3) new r(3) by (auto simp: holders_def)
      fix h assume "h \<in> insert (length (ht_apps rt)) (set (holders rt cs))"
      then show "h < length (ht_apps ?rt) \<and> cell_live env g (ht_apps ?rt ! h)" using d(4) [of h] r(4) by (auto simp: nth_append)
    next
      fix h assume "h < length (ht_apps ?rt)" "h \<notin> insert (length (ht_apps rt)) (set (holders rt cs))"
      then show "cell_over env g (ht_apps ?rt ! h)" using d(5) [of h] by (auto simp: nth_append)
    next
      fix k x i assume "Invoking k x i \<in> set (Entering kappa e # cs)"
      then show "re_app x < length (ht_apps ?rt)" using d(7) [of k x i] by simp
    qed (use d(1,2,6) in auto)
    then show ?thesis using r by simp
  qed
qed

lemma start_dropped_ok:
  assumes "manifest_codec_ok (he_space env)" "admits_trans (he_space env)" and ok: "runtime_ok env g (rt, cs)"
    and t: "start_application env Resident ps w b lookup (ht_grant rt) audit log = Some (log', tr, r)"
  shows "runtime_ok env g (rt\<lparr>ht_loads := n, ht_partial := ht_partial rt @ [take k tr]\<rparr>, cs)"
proof -
  note d = runtime_okD [OF ok]
  have "start_ok (he_space env) (planned_as env Resident ps b lookup) (ht_grant rt) audit log log' tr r"
    using start_application_ok [OF assms(1,2), of Resident ps w b lookup "ht_grant rt" audit log] t by auto
  then have "confined (he_space env) g tr" using d(1) by (simp add: start_ok_def)
  then have part: "confined (he_space env) g (take k tr)" by (auto simp: confined_def dest: in_set_takeD)
  have "holders (rt\<lparr>ht_loads := n, ht_partial := ht_partial rt @ [take k tr]\<rparr>) cs = holders rt cs" by (simp add: holders_def)
  then show ?thesis using d part by (auto intro!: runtime_okI)
qed

lemma runtime_step_ok:
  assumes codec: "manifest_codec_ok (he_space env)" and trans: "admits_trans (he_space env)"
    and step: "runtime_step env W st st'" and ok: "runtime_ok env g st"
  shows "runtime_ok env g st'"
  using step
proof (cases rule: runtime_step.cases)
  case (start who b lookup rt rt' e cs kappa)
  then show ?thesis using started_ok [OF codec trans, of g rt cs W who b lookup rt' "Inr e" kappa] ok by simp
next
  case (start_failed who b lookup rt rt' err cs)
  then show ?thesis using started_ok [OF codec trans, of g rt cs W who b lookup rt' "Inl err"] ok by simp
next
  case start_dropped
  then show ?thesis using start_dropped_ok [OF codec trans] ok by simp
next
  case (enter kappa e rt rt' entry duplicate before after)
  then show ?thesis using enter_ok [of env g rt before kappa e after W rt' "Inr (entry, duplicate)"] ok by simp
next
  case (enter_failed kappa e rt rt' err before after)
  then show ?thesis using enter_ok [of env g rt before kappa e after W rt' "Inl err"] ok by simp
next
  case take_out
  then show ?thesis using take_out_ok ok by simp
next
  case (stop rt before h after)
  let ?c = "ht_apps rt ! h"
  obtain tr ra r where s: "running_stop (rw_layers W (ac_load ?c)) (ac_trace ?c) (ac_application ?c) = (tr, ra, r)" by (rule prod_cases3)
  have "cell_live env g ?c" using runtime_okD(4) [OF ok [unfolded stop(1)], of h] by (simp add: holders_def)
  then show ?thesis using release_ok [OF ok [unfolded stop(1)] _ running_stop_ends [OF _ s]] s stop(2) by (simp add: app_stop_def Let_def)
next
  case (stop_dropped rt before h after k)
  let ?c = "ht_apps rt ! h"
  obtain tr ra where s: "running_stop_dropped (rw_layers W (ac_load ?c)) k (ac_trace ?c) (ac_application ?c) = (tr, ra)" by fastforce
  have "cell_live env g ?c" using runtime_okD(4) [OF ok [unfolded stop_dropped(1)], of h] by (simp add: holders_def)
  then show ?thesis using release_ok [OF ok [unfolded stop_dropped(1)] _ running_stop_dropped_left [OF _ s]] s stop_dropped(2)
    by (simp add: app_stop_dropped_def Let_def)
next
  case (look kappa rt e cs inputs)
  note d = runtime_okD [OF ok [unfolded look(1)]]
  have "e \<in> snd ` set (ht_resident rt)" using look(3) map_of_SomeD [of "ht_resident rt" kappa e]
    by (force simp: run_lookup_def resident_lookup_def lock_resident_def bindE_eq_Inr split: if_splits)
  then have "re_app e \<in> set (holders rt cs)" by (auto simp: holders_def)
  then have e: "re_app e < length (ht_apps rt)" using d(4) by blast
  have "holders rt (Invoking kappa e inputs # cs) = holders rt cs" by (simp add: holders_def)
  then show ?thesis unfolding look(2) by (intro runtime_okI) (use d e in auto)
next
  case (invoke rt before kappa e inputs after)
  show ?thesis unfolding invoke(2) by (rule invoke_ok [OF keep_ok]) (use ok invoke(1) in auto)
next
  case (dropped rt before c after)
  note ok' = ok [unfolded dropped(1)]
  show ?thesis
  proof (cases c)
    case (Entering kappa e)
    have "cell_live env g (ht_apps rt ! re_app e)" using runtime_okD(4) [OF ok', of "re_app e"] Entering by (simp add: holders_def)
    from release_ok [OF ok' _ abandoned_over [OF this]] show ?thesis using dropped(2) Entering by (simp add: call_dropped_def app_abandon_def)
  next
    case (Ending h)
    have "cell_live env g (ht_apps rt ! h)" using runtime_okD(4) [OF ok', of h] Ending by (simp add: holders_def)
    from release_ok [OF ok' _ abandoned_over [OF this]] show ?thesis using dropped(2) Ending by (simp add: call_dropped_def app_abandon_def)
  next
    case (Invoking kappa e inputs)
    then show ?thesis using keep_ok [OF ok'] dropped(2) by (simp add: call_dropped_def)
  qed
next
  case (others rt cs s log)
  then show ?thesis using ok by (simp add: runtime_ok_def holders_def)
next
  case (poison rt cs)
  then show ?thesis using ok by (simp add: runtime_ok_def holders_def)
qed

lemma runtime_reachable_ok:
  assumes "manifest_codec_ok (he_space env)" "admits_trans (he_space env)" "(runtime_step env W)\<^sup>*\<^sup>* st st'" "runtime_ok env g st"
  shows "runtime_ok env g st'"
  using assms(3,4) by (induction rule: rtranclp_induct) (auto intro: runtime_step_ok [OF assms(1,2)])

section \<open>Resident applications\<close>

lemma unload_take_forgets:
  assumes "unload_take kappa rt = (rt1, Inr found)"
  shows "map_of (ht_resident rt1) kappa = None \<and> ht_apps rt1 = ht_apps rt \<and> unload W kappa rt1 = (rt1, Inr ())"
proof -
  have rt1: "rt1 = rt\<lparr>ht_resident := AList.delete kappa (ht_resident rt)\<rparr>" "\<not> ht_poisoned rt"
    using assms by (auto simp: unload_take_def lock_resident_def split: if_splits)
  then have none: "map_of (ht_resident rt1) kappa = None" by (simp add: delete_conv')
  have "AList.delete kappa (ht_resident rt1) = ht_resident rt1" by (simp add: rt1(1) delete_idem)
  then show ?thesis using rt1 none by (simp add: unload_def unload_take_def lock_resident_def)
qed

lemma load_for_returns:
  assumes "manifest_codec_ok (he_space env)" "admits_trans (he_space env)"
  shows "\<exists>rt' r. load_for env W kappa who rt = Some (rt', r) \<and> (is_ok r \<longrightarrow> map_of (ht_resident rt') kappa \<noteq> None)"
proof (cases "ht_poisoned rt \<or> map_of (ht_resident rt) kappa \<noteq> None")
  case True
  then show ?thesis by (auto simp: load_for_def resident_record_def lock_resident_def is_ok_def)
next
  case False
  show ?thesis
  proof (cases "catalog_bytes (ht_store rt) kappa")
    case (Inl e)
    then show ?thesis using False by (auto simp: load_for_def load_start_def resident_record_def lock_resident_def is_ok_def)
  next
    case (Inr b)
    from load_start_from_live [OF assms, of W who b "resolve_content (ht_store rt)" rt] obtain log r where
      s: "load_start env W kappa who rt = Some (case r of Inl err \<Rightarrow> (rt\<lparr>ht_log := log, ht_loads := Suc (ht_loads rt)\<rparr>, Inl err)
       | Inr (e, c) \<Rightarrow> (rt\<lparr>ht_log := log, ht_loads := Suc (ht_loads rt), ht_apps := ht_apps rt @ [c]\<rparr>, Inr e))"
      using Inr by (auto simp: load_start_def)
    then show ?thesis using False
      by (cases r) (auto simp: load_for_def resident_record_def lock_resident_def load_commit_def load_enter_def is_ok_def)
  qed
qed

lemma run_invoke_running:
  "is_ok (snd (run_invoke W kappa e inputs rt)) \<Longrightarrow> running_state (ac_application (ht_apps rt ! re_app e)) = Running"
  using running_invoke_cases [of "rw_layers W (ac_load (ht_apps rt ! re_app e))" inputs "ac_trace (ht_apps rt ! re_app e)"
      "ac_application (ht_apps rt ! re_app e)"]
  by (auto simp: run_invoke_def Let_def is_ok_iff bindE_eq_Inr split: prod.splits)

text \<open>
  C7 Resident applications. Whatever loads, unloads, runs, changes of the store and a poisoned lock interleave, with
  calls dropped at any point where they wait, and with any providers: an archive is resident at most once, and every
  application is held at most once, by the table, by a load on its way into it or by a call that is to stop it. While
  it is held it is running and no layer of it was asked to stop. An application that nobody holds had every layer
  asked to stop once, last prepared first; the only exceptions are those whose load or stop was dropped, or whose load
  found the lock poisoned, which run on or stay at stopping for good. All layers run within the grant of the runtime,
  those of dropped starts too. A run succeeds only while its application is running, also when it was unloaded since
  the run looked it up. A load always returns, and what it reports as loaded is resident. An unload takes the application
  out of the table before it stops it: from then on, while the application still runs and whatever becomes of the
  stop, another unload reports success at once.
\<close>
theorem resident_applications_sound:
  assumes codec: "manifest_codec_ok (he_space env)" and trans: "admits_trans (he_space env)"
    and reach: "(runtime_step env W)\<^sup>*\<^sup>* (runtime_new s g audit, []) (rt, calls)"
  shows "distinct (map fst (ht_resident rt)) \<and> distinct (holders rt calls)
     \<and> (\<forall>h \<in> set (holders rt calls). h < length (ht_apps rt)
          \<and> running_state (ac_application (ht_apps rt ! h)) = Running \<and> no_stop (ac_trace (ht_apps rt ! h)))
     \<and> (\<forall>h < length (ht_apps rt). h \<notin> set (holders rt calls) \<longrightarrow>
          rolled_back (ac_trace (ht_apps rt ! h)) \<and> running_state (ac_application (ht_apps rt ! h)) \<in> {Stopped, Failed}
          \<or> ac_dropped (ht_apps rt ! h) \<and> running_state (ac_application (ht_apps rt ! h)) \<in> {Running, Stopping})
     \<and> (\<forall>tr \<in> ac_trace ` set (ht_apps rt) \<union> set (ht_partial rt). confined (he_space env) g tr)
     \<and> (\<forall>kappa e inputs. Invoking kappa e inputs \<in> set calls \<and> is_ok (snd (run_invoke W kappa e inputs rt)) \<longrightarrow>
          running_state (ac_application (ht_apps rt ! re_app e)) = Running)
     \<and> (\<exists>rt' r. load_for env W kappa who rt = Some (rt', r) \<and> (is_ok r \<longrightarrow> map_of (ht_resident rt') kappa \<noteq> None))
     \<and> (\<forall>rt' e. unload_take kappa rt = (rt', Inr (Some e)) \<longrightarrow>
          unload W kappa rt' = (rt', Inr ()) \<and> running_state (ac_application (ht_apps rt' ! re_app e)) = Running)"
proof -
  have "runtime_ok env g (runtime_new s g audit, [])" by (simp add: runtime_ok_def runtime_new_def holders_def)
  from runtime_reachable_ok [OF codec trans reach this] have ok: "runtime_ok env g (rt, calls)" .
  note d = runtime_okD [OF ok]
  have traces: "confined (he_space env) g (ac_trace c)" if c: "c \<in> set (ht_apps rt)" for c
  proof -
    obtain h where "h < length (ht_apps rt)" "c = ht_apps rt ! h" using c by (auto simp: in_set_conv_nth)
    then show ?thesis using d(4,5) [of h] by (cases "h \<in> set (holders rt calls)") (auto simp: cell_live_def cell_over_def)
  qed
  show ?thesis
  proof (intro conjI allI impI ballI, goal_cases)
    case (3 h) then show ?case using d(4) by blast
  next
    case (4 h) then show ?case using d(4) by (simp add: cell_live_def)
  next
    case (5 h) then show ?case using d(4) by (simp add: cell_live_def)
  next
    case (6 h) then show ?case using d(5) [of h] by (simp add: cell_over_def)
  next
    case (7 tr) then show ?case using traces d(6) by blast
  next
    case (8 kappa e inputs) then show ?case using run_invoke_running by blast
  next
    case 9 show ?case by (rule load_for_returns [OF codec trans])
  next
    case (10 rt' e) then show ?case using unload_take_forgets by blast
  next
    case (11 rt' e)
    then show ?case using runtime_okD(4) [OF take_out_ok [OF ok], of kappa rt' e "re_app e"] by (simp add: holders_def cell_live_def)
  qed (use d(2,3) in blast)+
qed

text \<open>An archive is loaded, made resident, taken out and stopped.\<close>

definition demo_runtime_world :: runtime_world where
  "demo_runtime_world = \<lparr>rw_providers = (\<lambda>_. [demo_provider]), rw_layers = (\<lambda>_. demo_world)\<rparr>"

theorem resident_applications_sound_witness:
  "\<exists>rt1 rt2. (runtime_step solo_env demo_runtime_world)\<^sup>*\<^sup>* (runtime_new sample_store (local_baseline solo_space) None, []) (rt1, [])
     \<and> map_of (ht_resident rt1) ''a'' \<noteq> None \<and> running_state (ac_application (ht_apps rt1 ! 0)) = Running
     \<and> (runtime_step solo_env demo_runtime_world)\<^sup>*\<^sup>* (rt1, []) (rt2, [])
     \<and> ht_resident rt2 = [] \<and> length (ht_apps rt2) = 1 \<and> rolled_back (ac_trace (ht_apps rt2 ! 0))"
proof -
  let ?W = demo_runtime_world and ?rt0 = "runtime_new sample_store (local_baseline solo_space) None"
  obtain log tr plan ra where s: "start_application solo_env Resident [demo_provider] demo_world solo_archive (\<lambda>_. Inr None) (local_baseline solo_space) None []
      = Some (log, tr, Inr (plan, ra))" using solo_starts [of None "[]" Resident "\<lambda>_. Inr None" "[]"] by auto
  define c where "c = \<lparr>ac_load = 0, ac_application = ra, ac_trace = tr, ac_dropped = False\<rparr>"
  define rt where "rt = ?rt0\<lparr>ht_log := log, ht_loads := 1, ht_apps := [c]\<rparr>"
  obtain e where e: "load_start_from solo_env ?W ''me'' solo_archive (\<lambda>_. Inr None) ?rt0 = Some (rt, Inr e)" "re_app e = 0"
    using s by (simp add: load_start_from_def runtime_new_def demo_runtime_world_def rt_def c_def)
  let ?rt1 = "rt\<lparr>ht_resident := [(''a'', e)]\<rparr>"
  have start: "runtime_step solo_env ?W (?rt0, []) (rt, [Entering ''a'' e])" by (rule runtime_step.start [OF e(1)])
  have "load_enter ?W ''a'' e rt = (?rt1, Inr (entry_record ?W rt ''a'' e, False))"
    by (simp add: load_enter_def lock_resident_def rt_def runtime_new_def)
  from runtime_step.enter [OF this, where before = "[]" and after = "[]" and env = solo_env]
  have enter: "runtime_step solo_env ?W (rt, [Entering ''a'' e]) (?rt1, [])" by simp
  have to1: "(runtime_step solo_env ?W)\<^sup>*\<^sup>* (?rt0, []) (?rt1, [])" using start enter by (meson rtranclp.rtrancl_into_rtrancl rtranclp.rtrancl_refl)
  have "unload_take ''a'' ?rt1 = (rt, Inr (Some e))" by (simp add: unload_take_def lock_resident_def rt_def runtime_new_def)
  from runtime_step.take_out [OF this] have out: "runtime_step solo_env ?W (?rt1, []) (rt, [Ending 0])" by (simp add: e(2))
  let ?rt2 = "fst (app_stop ?W 0 rt)"
  have "runtime_step solo_env ?W (rt, [Ending 0]) (?rt2, [])" using runtime_step.stop [of solo_env ?W rt "[]" 0 "[]"] by simp
  then have to2: "(runtime_step solo_env ?W)\<^sup>*\<^sup>* (?rt1, []) (?rt2, [])" using out by (meson rtranclp.rtrancl_into_rtrancl rtranclp.rtrancl_refl)
  have two: "ht_resident ?rt2 = []" "length (ht_apps ?rt2) = 1" "\<not> ac_dropped (ht_apps ?rt2 ! 0)"
    by (simp_all add: app_stop_def Let_def rt_def runtime_new_def c_def split_beta)
  note sound = resident_applications_sound [OF solo_space_ok(1,2)]
  have "rolled_back (ac_trace (ht_apps ?rt2 ! 0))" using sound [OF rtranclp_trans [OF to1 to2]] two by (auto simp: holders_def)
  moreover have "running_state (ac_application (ht_apps ?rt1 ! 0)) = Running" using sound [OF to1] e(2) by (simp add: holders_def)
  ultimately show ?thesis using to1 to2 two by (intro exI [of _ ?rt1] exI [of _ ?rt2]) simp
qed

end
