(* ===== verification/Component_Host.thy ===== *)
theory Component_Host
  imports Storage_Graph Channel_Broker Holo_Fetch Holo_Lifecycle
begin

text \<open>
  The provider of Component Model guests (\<open>src/holo_component.rs\<close>): its seven contract profiles, the
  limits of a guest, the host functions a guest may call, one run per input, and the prepared layer.

  The \<open>wasmtime\<close> engine is a parameter. A guest is a tree of the calls it makes and what it does with each
  answer; the tree has no infinite branch because the engine gives every store a finite amount of fuel and
  traps when it is used up. It may depend on all that happened before, and ends by returning, by a trap or,
  for a fault in the engine, by a panic. The object store and the channel broker are shared with other
  threads, which may change files and mailboxes before every call.
\<close>

section \<open>Limits\<close>

definition component_memory_max_bytes :: nat where
  "component_memory_max_bytes = 64 * 1024 * 1024"

definition component_instance_max :: nat where
  "component_instance_max = 128"

definition component_table_max :: nat where
  "component_table_max = 32"

definition component_memory_count_max :: nat where
  "component_memory_count_max = 32"

definition component_fuel_per_input :: nat where
  "component_fuel_per_input = 100000000"

definition component_input_max_bytes :: nat where
  "component_input_max_bytes = 1024 * 1024"

definition component_output_max_bytes :: nat where
  "component_output_max_bytes = 1024 * 1024"

definition component_deadline_ms :: nat where
  "component_deadline_ms = 2 * 1000"

definition component_v1_entry :: string where
  "component_v1_entry = ''run''"

record component_limits =
  ml_memory_max_bytes :: nat
  ml_fuel_per_input :: nat
  ml_input_max_bytes :: nat
  ml_output_max_bytes :: nat
  ml_deadline_ms :: nat

definition default_component_limits :: component_limits where
  "default_component_limits =
     \<lparr>ml_memory_max_bytes = component_memory_max_bytes, ml_fuel_per_input = component_fuel_per_input,
      ml_input_max_bytes = component_input_max_bytes, ml_output_max_bytes = component_output_max_bytes,
      ml_deadline_ms = component_deadline_ms\<rparr>"

text \<open>Zero stands for no limit of its own. Sizes are 64 bits wide, so the conversion of a \<open>u64\<close> loses
  nothing.\<close>

definition tighten_usize :: "nat \<Rightarrow> nat \<Rightarrow> nat \<Rightarrow> nat" where
  "tighten_usize host requested granted = foldl min host (filter (\<lambda>v. v > 0) [requested, granted])"

definition tighten_u64 :: "nat \<Rightarrow> nat \<Rightarrow> nat \<Rightarrow> nat" where
  "tighten_u64 host requested granted = foldl min host (filter (\<lambda>v. v > 0) [requested, granted])"

definition tighten :: "layer_prepare_context \<Rightarrow> component_limits \<Rightarrow> component_limits" where
  "tighten c l =
     (let request = co_capabilities (px_requested c); grant = eg_capabilities (px_grant c);
          cpu_ms = tighten_u64 (sat64 (ml_deadline_ms l)) (cpu_time_per_event_ms request) (cpu_time_per_event_ms grant) in
      l\<lparr>ml_memory_max_bytes := tighten_usize (ml_memory_max_bytes l) (memory_max_bytes request) (memory_max_bytes grant),
        ml_deadline_ms := max cpu_ms 1\<rparr>)"

section \<open>The provider\<close>

datatype component_profile =
  ImportFree | StoreRead | StoreGraphRead | StoreWrite | ChannelPublish | ChannelSubscribe | NetworkFetch

text \<open>A backend is a shared handle: the provider has it or not, the store and the broker themselves are
  part of the state below.\<close>

record component_provider =
  cp_target :: provider_target
  cp_limits :: component_limits
  cp_profile :: component_profile
  cp_object_store :: bool
  cp_channel_broker :: bool

definition component_new :: "provider_target \<Rightarrow> component_provider" where
  "component_new target = \<lparr>cp_target = target, cp_limits = default_component_limits, cp_profile = ImportFree,
     cp_object_store = False, cp_channel_broker = False\<rparr>"

definition provider_store_read :: "provider_target \<Rightarrow> bool \<Rightarrow> component_provider" where
  "provider_store_read target object_store = \<lparr>cp_target = target, cp_limits = default_component_limits, cp_profile = StoreRead,
     cp_object_store = object_store, cp_channel_broker = False\<rparr>"

definition provider_store_graph_read :: "provider_target \<Rightarrow> bool \<Rightarrow> component_provider" where
  "provider_store_graph_read target object_store = \<lparr>cp_target = target, cp_limits = default_component_limits,
     cp_profile = StoreGraphRead, cp_object_store = object_store, cp_channel_broker = False\<rparr>"

definition provider_store_write :: "provider_target \<Rightarrow> bool \<Rightarrow> component_provider" where
  "provider_store_write target object_store = \<lparr>cp_target = target, cp_limits = default_component_limits, cp_profile = StoreWrite,
     cp_object_store = object_store, cp_channel_broker = False\<rparr>"

definition provider_channel :: "provider_target \<Rightarrow> component_profile \<Rightarrow> component_provider" where
  "provider_channel target profile = \<lparr>cp_target = target, cp_limits = default_component_limits, cp_profile = profile,
     cp_object_store = False, cp_channel_broker = True\<rparr>"

definition provider_network_fetch :: "provider_target \<Rightarrow> component_provider" where
  "provider_network_fetch target = \<lparr>cp_target = target, cp_limits = default_component_limits, cp_profile = NetworkFetch,
     cp_object_store = False, cp_channel_broker = False\<rparr>"

fun profile_contract :: "wasm_contracts \<Rightarrow> component_profile \<Rightarrow> string" where
  "profile_contract wc ImportFree = wc_component wc"
| "profile_contract wc StoreRead = wc_store_read wc"
| "profile_contract wc StoreGraphRead = wc_store_graph_read wc"
| "profile_contract wc StoreWrite = wc_store_write wc"
| "profile_contract wc ChannelPublish = wc_channel_publish wc"
| "profile_contract wc ChannelSubscribe = wc_channel_subscribe wc"
| "profile_contract wc NetworkFetch = wc_network_fetch wc"

definition component_contract :: "wasm_contracts \<Rightarrow> component_provider \<Rightarrow> string option" where
  "component_contract wc p = Some (profile_contract wc (cp_profile p))"

fun component_name_of :: "provider_target \<Rightarrow> component_profile \<Rightarrow> string" where
  "component_name_of Direct ImportFree = ''wasmtime-component-direct''"
| "component_name_of Resident ImportFree = ''wasmtime-component-resident''"
| "component_name_of Direct StoreRead = ''wasmtime-component-store-read-direct''"
| "component_name_of Resident StoreRead = ''wasmtime-component-store-read-resident''"
| "component_name_of Direct StoreGraphRead = ''wasmtime-component-store-graph-read-direct''"
| "component_name_of Resident StoreGraphRead = ''wasmtime-component-store-graph-read-resident''"
| "component_name_of Direct StoreWrite = ''wasmtime-component-store-write-direct''"
| "component_name_of Resident StoreWrite = ''wasmtime-component-store-write-resident''"
| "component_name_of Direct ChannelPublish = ''wasmtime-component-channel-publish-direct''"
| "component_name_of Resident ChannelPublish = ''wasmtime-component-channel-publish-resident''"
| "component_name_of Direct ChannelSubscribe = ''wasmtime-component-channel-subscribe-direct''"
| "component_name_of Resident ChannelSubscribe = ''wasmtime-component-channel-subscribe-resident''"
| "component_name_of Direct NetworkFetch = ''wasmtime-component-network-fetch-direct''"
| "component_name_of Resident NetworkFetch = ''wasmtime-component-network-fetch-resident''"

definition component_name :: "component_provider \<Rightarrow> string" where
  "component_name p = component_name_of (cp_target p) (cp_profile p)"

definition entry_error :: "string \<Rightarrow> string" where
  "entry_error entry = ''Component v1 entry must be '' @ debug_str component_v1_entry @ '', got '' @ debug_str entry"

definition component_availability :: "component_provider \<Rightarrow> provider_context \<Rightarrow> provider_target \<Rightarrow> string + unit" where
  "component_availability p c target =
     (if target \<noteq> cp_target p then
        Inl (component_name p @ '' provider is configured for '' @ target_name (cp_target p) @ '', not '' @ target_name target)
      else if pc_entry c \<noteq> component_v1_entry then Inl (entry_error (pc_entry c))
      else Inr ())"

section \<open>Host functions\<close>

text \<open>The store and the channel handles of the code's hosts are the shared state; the quota cell of a
  writing host is the state's \<open>cs_quota\<close>.\<close>

datatype component_host =
    HostImportFree
  | HostStoreRead "string list"
  | HostStoreWrite "string list"
  | HostChannelPublish "string list"
  | HostChannelSubscribe "string list"
  | HostNetworkFetch "string list"

datatype host_call =
    CallRead string
  | CallWrite string bytes
  | CallPublish string bytes
  | CallTryReceive string
  | CallFetch string

datatype host_answer =
    AnswerBytes "string + bytes"
  | AnswerUnit "string + unit"
  | AnswerMessage "string + bytes option"
  | AnswerResponse "string + fetch_response"

text \<open>A call with its answer, and whether the store reported a new object.\<close>

datatype host_event = HostEvent host_call host_answer bool

record component_state =
  cs_store :: object_store
  cs_broker :: channel_broker
  cs_quota :: nat
  cs_quota_poisoned :: bool
  cs_serial_poisoned :: bool
  cs_events :: "host_event list"

definition storage_denied :: string where
  "storage_denied = ''object is outside the application's admitted storage roots''"

definition host_read :: "component_host \<Rightarrow> string \<Rightarrow> component_state \<Rightarrow> string + bytes" where
  "host_read h kappa s =
     (case h of
        HostStoreRead roots \<Rightarrow>
          if \<not> list_ex (\<lambda>root. root = kappa) roots then Inl storage_denied
          else map_err (\<lambda>e. case e of NotFound _ \<Rightarrow> ''object was not found'' | _ \<Rightarrow> ''object-store read failed'')
                 (store_get (cs_store s) kappa)
      | _ \<Rightarrow> Inl ''store.read is not linked for this contract'')"

text \<open>The subtraction is that of \<open>u64\<close>, with its wrap-around written out.\<close>

definition sub64 :: "nat \<Rightarrow> nat \<Rightarrow> nat" where
  "sub64 a b = (a + 2 ^ 64 - b) mod 2 ^ 64"

definition host_write :: "component_host \<Rightarrow> string \<Rightarrow> bytes \<Rightarrow> component_state \<Rightarrow> component_state \<times> (string + unit) \<times> bool" where
  "host_write h kappa b s =
     (case h of
        HostStoreWrite roots \<Rightarrow>
          if \<not> list_ex (\<lambda>root. root = kappa) roots then (s, Inl storage_denied, False)
          else if cs_quota_poisoned s then (s, Inl ''store.write quota state is unavailable'', False)
          else
            (case store_cache_addressed_bounded (cs_store s) kappa b (cs_quota s) of
               (t, Inl e) \<Rightarrow>
                 (s\<lparr>cs_store := t\<rparr>,
                  Inl (case e of
                         InvalidHolo _ \<Rightarrow> ''object bytes do not match the admitted content address''
                       | Capability _ \<Rightarrow> ''write exceeds the application's admitted storage quota''
                       | _ \<Rightarrow> ''object-store write failed''), False)
             | (t, Inr created) \<Rightarrow>
                 (if created
                  then (s\<lparr>cs_store := t, cs_quota := sub64 (cs_quota s) (sat64 (length b))\<rparr>, Inr (), True)
                  else (s\<lparr>cs_store := t\<rparr>, Inr (), False)))
      | _ \<Rightarrow> (s, Inl ''store.write is not linked for this contract'', False))"

definition host_publish :: "component_host \<Rightarrow> string \<Rightarrow> bytes \<Rightarrow> component_state \<Rightarrow> component_state \<times> (string + unit)" where
  "host_publish h channel message s =
     (case h of
        HostChannelPublish channels \<Rightarrow>
          if \<not> list_ex (\<lambda>allowed. allowed = channel) channels
          then (s, Inl ''channel is outside the application's admitted publish set'')
          else
            (let (b, r) = publish (cs_broker s) channel message in
             (s\<lparr>cs_broker := b\<rparr>,
              map_err (\<lambda>e. case e of
                  MessageTooLarge \<Rightarrow> ''channel message exceeds the host limit''
                | MailboxFull \<Rightarrow> ''channel mailbox is full; retry later''
                | StateUnavailable \<Rightarrow> ''channel broker is unavailable'') r))
      | _ \<Rightarrow> (s, Inl ''channel.publish is not linked for this contract''))"

definition host_try_receive :: "component_host \<Rightarrow> string \<Rightarrow> component_state \<Rightarrow> component_state \<times> (string + bytes option)" where
  "host_try_receive h channel s =
     (case h of
        HostChannelSubscribe channels \<Rightarrow>
          if \<not> list_ex (\<lambda>allowed. allowed = channel) channels
          then (s, Inl ''channel is outside the application's admitted subscribe set'')
          else
            (let (b, r) = try_receive (cs_broker s) channel in
             (s\<lparr>cs_broker := b\<rparr>, map_err (\<lambda>_. ''channel broker is unavailable'') r))
      | _ \<Rightarrow> (s, Inl ''channel.subscribe is not linked for this contract''))"

text \<open>What lies outside the component provider: the network and its permits, the other threads, the
  realizations of storage graphs.\<close>

record component_world =
  cw_space :: space
  cw_realizations :: realizations
  cw_net :: fetch_net
  cw_granted :: "host_event list \<Rightarrow> bool"
  cw_fate :: "host_event list \<Rightarrow> worker_fate"
  cw_disturb_store :: "host_event list \<Rightarrow> object_store \<Rightarrow> object_store"
  cw_disturb_broker :: "host_event list \<Rightarrow> channel_broker \<Rightarrow> channel_broker"

definition host_fetch :: "component_world \<Rightarrow> component_host \<Rightarrow> string \<Rightarrow> component_state \<Rightarrow> string + fetch_response" where
  "host_fetch w h target s =
     (case h of
        HostNetworkFetch scopes \<Rightarrow>
          snd (fetch (cw_space w) (cw_net w) scopes target (cw_granted w (cs_events s)) (cw_fate w (cs_events s)))
      | _ \<Rightarrow> Inl ''network.fetch is not linked for this contract'')"

text \<open>Other threads act on the shared objects before a call.\<close>

definition disturb :: "component_world \<Rightarrow> component_state \<Rightarrow> component_state" where
  "disturb w s =
     s\<lparr>cs_store := (cs_store s)\<lparr>os_fs := os_fs (cw_disturb_store w (cs_events s) (cs_store s)),
                                os_poisoned := os_poisoned (cw_disturb_store w (cs_events s) (cs_store s))\<rparr>,
       cs_broker := cw_disturb_broker w (cs_events s) (cs_broker s)\<rparr>"

fun perform :: "component_world \<Rightarrow> component_host \<Rightarrow> host_call \<Rightarrow> component_state \<Rightarrow> component_state \<times> host_answer \<times> bool" where
  "perform w h (CallRead kappa) s = (s, AnswerBytes (host_read h kappa s), False)"
| "perform w h (CallWrite kappa b) s = (case host_write h kappa b s of (s', r, created) \<Rightarrow> (s', AnswerUnit r, created))"
| "perform w h (CallPublish channel message) s = (case host_publish h channel message s of (s', r) \<Rightarrow> (s', AnswerUnit r, False))"
| "perform w h (CallTryReceive channel) s = (case host_try_receive h channel s of (s', r) \<Rightarrow> (s', AnswerMessage r, False))"
| "perform w h (CallFetch target) s = (s, AnswerResponse (host_fetch w h target s), False)"

definition answer_call :: "component_world \<Rightarrow> component_host \<Rightarrow> host_call \<Rightarrow> component_state \<Rightarrow> component_state \<times> host_answer" where
  "answer_call w h c s =
     (case perform w h c (disturb w s) of
        (s', a, created) \<Rightarrow> (s'\<lparr>cs_events := cs_events s' @ [HostEvent c a created]\<rparr>, a))"

section \<open>Guests\<close>

datatype 'a guest =
    GuestDone 'a
  | GuestTrap string
  | GuestPanic string
  | GuestCall host_call "host_answer \<Rightarrow> 'a guest"

datatype 'a guest_outcome = Finished 'a | Trapped string | Panicked string

primrec run_guest :: "component_world \<Rightarrow> component_host \<Rightarrow> 'a guest \<Rightarrow> component_state \<Rightarrow> component_state \<times> 'a guest_outcome" where
  "run_guest w h (GuestDone x) s = (s, Finished x)"
| "run_guest w h (GuestTrap e) s = (s, Trapped e)"
| "run_guest w h (GuestPanic e) s = (s, Panicked e)"
| "run_guest w h (GuestCall c k) s = (case answer_call w h c s of (s', a) \<Rightarrow> run_guest w h (k a) s')"


section \<open>The engine\<close>

record guest_error =
  ge_code :: string
  ge_message :: string

text \<open>The store limits a guest runs under, as handed to the engine with the fuel.\<close>

record store_limits =
  sl_memory_size :: nat
  sl_instances :: nat
  sl_tables :: nat
  sl_memories :: nat
  sl_fuel :: nat

text \<open>\<open>ce_new\<close> configures an engine, \<open>ce_component\<close> compiles, \<open>ce_link\<close> adds the one interface of a host to a
  linker. Instantiation may run start functions of the guest, so it is a guest as well.\<close>

record component_engine =
  ce_new :: "string + unit"
  ce_component :: "bytes \<Rightarrow> string + unit"
  ce_set_fuel :: "nat \<Rightarrow> string + unit"
  ce_link :: "component_host \<Rightarrow> string + unit"
  ce_instantiate :: "host_event list \<Rightarrow> bytes \<Rightarrow> store_limits \<Rightarrow> component_host \<Rightarrow> unit guest"
  ce_call_run :: "host_event list \<Rightarrow> bytes \<Rightarrow> store_limits \<Rightarrow> component_host \<Rightarrow> bytes \<Rightarrow> (guest_error + bytes) guest"

definition new_store :: "component_engine \<Rightarrow> component_limits \<Rightarrow> store_limits live_result" where
  "new_store en l =
     bindE (map_err (\<lambda>e. Conflict (''configure Component v1 fuel: '' @ e)) (ce_set_fuel en (ml_fuel_per_input l))) (\<lambda>_.
       Inr \<lparr>sl_memory_size = ml_memory_max_bytes l, sl_instances = component_instance_max, sl_tables = component_table_max,
            sl_memories = component_memory_count_max, sl_fuel = ml_fuel_per_input l\<rparr>)"

fun host_interface :: "component_host \<Rightarrow> string" where
  "host_interface HostImportFree = ''''"
| "host_interface (HostStoreRead _) = ''store.read''"
| "host_interface (HostStoreWrite _) = ''store.write''"
| "host_interface (HostChannelPublish _) = ''channel.publish''"
| "host_interface (HostChannelSubscribe _) = ''channel.subscribe''"
| "host_interface (HostNetworkFetch _) = ''network.fetch''"

fun host_label :: "component_host \<Rightarrow> string" where
  "host_label HostImportFree = ''Component v1''"
| "host_label (HostStoreRead _) = ''Component store-read v1''"
| "host_label (HostStoreWrite _) = ''Component store-write v1''"
| "host_label (HostChannelPublish _) = ''Component channel-publish v1''"
| "host_label (HostChannelSubscribe _) = ''Component channel-subscribe v1''"
| "host_label (HostNetworkFetch _) = ''Component network-fetch v1''"

fun world_rule :: "component_host \<Rightarrow> string" where
  "world_rule HostImportFree = ''Component v1 must export the import-free hologram:application/application@1.0.0 world: ''"
| "world_rule (HostStoreRead _) = ''Component store-read v1 must export hologram:application-store-read/application@1.0.0 and import only hologram:host/store@1.0.0: ''"
| "world_rule (HostStoreWrite _) = ''Component store-write v1 must export hologram:application-store-write/application@1.0.0 and import only hologram:host/store-write@1.0.0: ''"
| "world_rule (HostChannelPublish _) = ''Component channel-publish v1 must export hologram:application-channel-publish/application@1.0.0 and import only hologram:host/channel-publish@1.0.0: ''"
| "world_rule (HostChannelSubscribe _) = ''Component channel-subscribe v1 must export hologram:application-channel-subscribe/application@1.0.0 and import only hologram:host/channel-subscribe@1.0.0: ''"
| "world_rule (HostNetworkFetch _) = ''Component network-fetch v1 must export hologram:application-network-fetch/application@1.0.0 and import only hologram:host/network-fetch@1.0.0: ''"

text \<open>No interface is added for an import-free host.\<close>

definition link_host :: "component_engine \<Rightarrow> component_host \<Rightarrow> unit live_result" where
  "link_host en h =
     (if h = HostImportFree then Inr ()
      else map_err (\<lambda>e. Conflict (''link Component '' @ host_interface h @ '' interface: '' @ e)) (ce_link en h))"

text \<open>A panic is \<open>Inl\<close>; otherwise the result of the function.\<close>

type_synonym 'a joined = "string + 'a live_result"

fun joined_guest :: "(string \<Rightarrow> live_error) \<Rightarrow> 'a guest_outcome \<Rightarrow> 'a joined" where
  "joined_guest trap (Finished x) = Inr (Inr x)"
| "joined_guest trap (Trapped e) = Inr (Inl (trap e))"
| "joined_guest trap (Panicked e) = Inl e"

definition instantiate ::
  "component_world \<Rightarrow> component_engine \<Rightarrow> bytes \<Rightarrow> component_limits \<Rightarrow> component_host \<Rightarrow> component_state
     \<Rightarrow> component_state \<times> unit joined"
where
  "instantiate w en payload l h s =
     (case bindE (new_store en l) (\<lambda>sl. bindE (link_host en h) (\<lambda>_. Inr sl)) of
        Inl e \<Rightarrow> (s, Inr (Inl e))
      | Inr sl \<Rightarrow>
          (case run_guest w h (ce_instantiate en (cs_events s) payload sl h) s of
             (s', r) \<Rightarrow> (s', joined_guest (\<lambda>e. Protocol (world_rule h @ e)) r)))"

definition compile ::
  "component_world \<Rightarrow> component_engine \<Rightarrow> string \<Rightarrow> bytes \<Rightarrow> component_limits \<Rightarrow> component_host \<Rightarrow> component_state
     \<Rightarrow> component_state \<times> unit joined"
where
  "compile w en kappa payload l h s =
     (case bindE (map_err (\<lambda>e. Conflict (''configure Component v1 engine: '' @ e)) (ce_new en)) (\<lambda>_.
           map_err (\<lambda>e. InvalidHolo (''compile Component v1 layer of '' @ kappa @ '': '' @ e)) (ce_component en payload)) of
        Inl e \<Rightarrow> (s, Inr (Inl e))
      | Inr _ \<Rightarrow> instantiate w en payload l h s)"

definition input_error :: "component_limits \<Rightarrow> bytes \<Rightarrow> live_error" where
  "input_error l input = Capability (''Component v1 input is '' @ show_nat (length input) @ '' bytes; limit is ''
     @ show_nat (ml_input_max_bytes l) @ '' bytes'')"

definition output_error :: "component_limits \<Rightarrow> bytes \<Rightarrow> live_error" where
  "output_error l output = Capability (''Component v1 output is '' @ show_nat (length output) @ '' bytes; limit is ''
     @ show_nat (ml_output_max_bytes l) @ '' bytes'')"

definition run_once ::
  "component_world \<Rightarrow> component_engine \<Rightarrow> bytes \<Rightarrow> component_limits \<Rightarrow> component_host \<Rightarrow> bytes \<Rightarrow> component_state
     \<Rightarrow> component_state \<times> bytes joined"
where
  "run_once w en payload l h input s =
     (if length input > ml_input_max_bytes l then (s, Inr (Inl (input_error l input)))
      else case bindE (new_store en l) (\<lambda>sl. bindE (link_host en h) (\<lambda>_. Inr sl)) of
        Inl e \<Rightarrow> (s, Inr (Inl e))
      | Inr sl \<Rightarrow>
          (case run_guest w h (ce_instantiate en (cs_events s) payload sl h) s of
             (s1, Panicked e) \<Rightarrow> (s1, Inl e)
           | (s1, Trapped e) \<Rightarrow> (s1, Inr (Inl (Protocol (''instantiate '' @ host_label h @ '': '' @ e))))
           | (s1, Finished _) \<Rightarrow>
               (case run_guest w h (ce_call_run en (cs_events s1) payload sl h input) s1 of
                  (s2, Panicked e) \<Rightarrow> (s2, Inl e)
                | (s2, Trapped e) \<Rightarrow> (s2, Inr (Inl (Protocol (''execute '' @ host_label h @ '' run: '' @ e))))
                | (s2, Finished (Inl ge)) \<Rightarrow>
                    (s2, Inr (Inl (Protocol (host_label h @ '' guest returned '' @ ge_code ge @ '': '' @ ge_message ge))))
                | (s2, Finished (Inr output)) \<Rightarrow>
                    (if length output > ml_output_max_bytes l then (s2, Inr (Inl (output_error l output)))
                     else (s2, Inr (Inr output))))))"

definition cancelled_error :: live_error where
  "cancelled_error = Capability ''Component v1 invocation was cancelled''"

text \<open>The loop of \<open>run_inputs\<close>; \<open>cancelled\<close> says before which inputs the flag is found set.\<close>

fun run_each ::
  "(bytes \<Rightarrow> component_state \<Rightarrow> component_state \<times> bytes joined) \<Rightarrow> (nat \<Rightarrow> bool) \<Rightarrow> bytes list \<Rightarrow> bytes list \<Rightarrow> component_state
     \<Rightarrow> component_state \<times> bytes list joined"
where
  "run_each once cancelled outputs [] s = (s, Inr (Inr outputs))"
| "run_each once cancelled outputs (input # inputs) s =
     (if cancelled (length outputs) then (s, Inr (Inl cancelled_error))
      else case once input s of
        (s', Inl e) \<Rightarrow> (s', Inl e)
      | (s', Inr (Inl e)) \<Rightarrow> (s', Inr (Inl e))
      | (s', Inr (Inr output)) \<Rightarrow> run_each once cancelled (outputs @ [output]) inputs s')"

text \<open>A panic while the serial lock is held poisons it.\<close>

definition run_inputs ::
  "component_world \<Rightarrow> component_engine \<Rightarrow> bytes \<Rightarrow> component_limits \<Rightarrow> component_host \<Rightarrow> (nat \<Rightarrow> bool) \<Rightarrow> bytes list
     \<Rightarrow> component_state \<Rightarrow> component_state \<times> bytes list joined"
where
  "run_inputs w en payload l h cancelled inputs s =
     (if cs_serial_poisoned s then (s, Inr (Inl (Conflict ''Component v1 execution lock poisoned'')))
      else case run_each (run_once w en payload l h) cancelled [] inputs s of
        (s', Inl e) \<Rightarrow> (s'\<lparr>cs_serial_poisoned := True\<rparr>, Inl e)
      | (s', r) \<Rightarrow> (s', r))"

section \<open>Preparation\<close>

record component_layer =
  cl_position :: nat
  cl_target :: provider_target
  cl_payload :: bytes
  cl_limits :: component_limits
  cl_host :: component_host
  cl_resident_bytes :: nat
  cl_running :: bool
  cl_queued :: nat
  cl_processed :: nat

definition no_entry :: "string \<Rightarrow> string \<Rightarrow> string \<Rightarrow> layer_prepare_context \<Rightarrow> live_error" where
  "no_entry interface adjective field c = Authorization (interface @ '' requires '' @ adjective @ '' admitted '' @ field
     @ '' for application '' @ application_kappa (px_identity c))"

text \<open>The host of a profile, with the quota of a writing host.\<close>

definition prepare_host ::
  "component_world \<Rightarrow> component_provider \<Rightarrow> layer_prepare_context \<Rightarrow> object_store \<Rightarrow> (component_host \<times> nat) live_result"
where
  "prepare_host w p c store =
     (let request = co_capabilities (px_requested c) in
      case cp_profile p of
        ImportFree \<Rightarrow> Inr (HostImportFree, 0)
      | StoreRead \<Rightarrow>
          if storage_roots request = []
          then Inl (no_entry ''Component interface hologram:host/store@1.0.0'' ''at least one'' ''storage_roots entry'' c)
          else if \<not> cp_object_store p
          then Inl (Capability ''Component interface hologram:host/store@1.0.0 has no object-store backend'')
          else Inr (HostStoreRead (storage_roots request), 0)
      | StoreGraphRead \<Rightarrow>
          if storage_roots request = []
          then Inl (no_entry ''Component graph-read interface hologram:host/store@1.0.0'' ''at least one'' ''storage_roots entry'' c)
          else if \<not> cp_object_store p then Inl (Capability ''Component graph-read interface has no object-store backend'')
          else bindE (resolve_storage_graph (cw_space w) (cw_realizations w) store (storage_roots request) default_graph_limits)
                 (\<lambda>closure. Inr (HostStoreRead (gc_readable closure), 0))
      | StoreWrite \<Rightarrow>
          if storage_roots request = []
          then Inl (no_entry ''Component interface hologram:host/store-write@1.0.0'' ''at least one'' ''storage_roots entry'' c)
          else if storage_quota_bytes request = 0
          then Inl (no_entry ''Component interface hologram:host/store-write@1.0.0'' ''a nonzero'' ''storage_quota_bytes value'' c)
          else if \<not> cp_object_store p
          then Inl (Capability ''Component interface hologram:host/store-write@1.0.0 has no object-store backend'')
          else Inr (HostStoreWrite (storage_roots request), storage_quota_bytes request)
      | ChannelPublish \<Rightarrow>
          if publish_channels request = []
          then Inl (no_entry ''Component interface hologram:host/channel-publish@1.0.0'' ''at least one'' ''publish_channels entry'' c)
          else if \<not> cp_channel_broker p then Inl (Capability ''Component channel-publish interface has no broker backend'')
          else Inr (HostChannelPublish (publish_channels request), 0)
      | ChannelSubscribe \<Rightarrow>
          if subscribe_channels request = []
          then Inl (no_entry ''Component interface hologram:host/channel-subscribe@1.0.0'' ''at least one'' ''subscribe_channels entry'' c)
          else if \<not> cp_channel_broker p then Inl (Capability ''Component channel-subscribe interface has no broker backend'')
          else Inr (HostChannelSubscribe (subscribe_channels request), 0)
      | NetworkFetch \<Rightarrow>
          if network_fetch_endpoints request = []
          then Inl (no_entry ''Component interface hologram:host/network-fetch@1.0.0'' ''at least one'' ''network_fetch_endpoints entry'' c)
          else Inr (HostNetworkFetch (network_fetch_endpoints request), 0))"

definition component_prepare ::
  "component_world \<Rightarrow> component_engine \<Rightarrow> component_provider \<Rightarrow> layer_prepare_context \<Rightarrow> object_store \<Rightarrow> channel_broker
     \<Rightarrow> component_state \<times> component_layer live_result"
where
  "component_prepare w en p c store broker =
     (let idle = \<lparr>cs_store = store, cs_broker = broker, cs_quota = 0, cs_quota_poisoned = False, cs_serial_poisoned = False, cs_events = []\<rparr> in
      if px_target c \<noteq> cp_target p then
        (idle, Inl (Conflict (''provider '' @ component_name p @ '' cannot prepare a '' @ target_name (px_target c) @ '' layer'')))
      else if rl_entry (px_layer c) \<noteq> component_v1_entry then (idle, Inl (Protocol (entry_error (rl_entry (px_layer c)))))
      else
        (let l = tighten c (cp_limits p); payload = rl_content (px_layer c) in
         case prepare_host w p c store of
           Inl e \<Rightarrow> (idle, Inl e)
         | Inr (h, quota) \<Rightarrow>
             (case compile w en (archive_kappa (px_identity c)) payload l h (idle\<lparr>cs_quota := quota\<rparr>) of
                (s, Inl e) \<Rightarrow> (s, Inl (Conflict (''join component prepare: '' @ e)))
              | (s, Inr (Inl e)) \<Rightarrow> (s, Inl e)
              | (s, Inr (Inr _)) \<Rightarrow>
                  (s, Inr \<lparr>cl_position = rl_position (px_layer c), cl_target = cp_target p, cl_payload = payload, cl_limits = l,
                       cl_host = h, cl_resident_bytes = length payload, cl_running = False, cl_queued = 0, cl_processed = 0\<rparr>))))"

section \<open>The prepared layer\<close>

definition component_start :: "component_layer \<Rightarrow> component_layer \<times> unit live_result" where
  "component_start l = (l\<lparr>cl_running := True\<rparr>, Inr ())"

definition component_stop :: "component_layer \<Rightarrow> component_layer \<times> unit live_result" where
  "component_stop l = (l\<lparr>cl_running := False\<rparr>, Inr ())"

definition component_status :: "component_layer \<Rightarrow> layer_runtime_status" where
  "component_status l = \<lparr>lr_resident_bytes = cl_resident_bytes l, lr_queued = cl_queued l, lr_processed = cl_processed l\<rparr>"

text \<open>The clock of one invocation: the task ends before the deadline, or the deadline passes first and the
  flag is found set before the inputs given; and the time taken. A task that ends in time is never
  cancelled.\<close>

datatype invocation_clock = OnTime nat | Overdue "nat \<Rightarrow> bool"

definition component_invoke ::
  "component_world \<Rightarrow> component_engine \<Rightarrow> invocation_clock \<Rightarrow> bytes list \<Rightarrow> component_state \<Rightarrow> component_layer
     \<Rightarrow> component_state \<times> component_layer \<times> layer_invocation live_result"
where
  "component_invoke w en clock inputs s l =
     (if \<not> cl_running l then
        (s, l, Inl (Conflict (target_name (cl_target l) @ '' Component v1 layer '' @ show_nat (cl_position l) @ '' is not running'')))
      else case find (\<lambda>input. length input > ml_input_max_bytes (cl_limits l)) inputs of
        Some input \<Rightarrow> (s, l, Inl (input_error (cl_limits l) input))
      | None \<Rightarrow>
          (case clock of
             OnTime elapsed \<Rightarrow>
               (case run_inputs w en (cl_payload l) (cl_limits l) (cl_host l) (\<lambda>_. False) inputs s of
                  (s', Inl e) \<Rightarrow> (s', l, Inl (Conflict (''join Component v1 invocation: '' @ e)))
                | (s', Inr (Inl e)) \<Rightarrow> (s', l, Inl e)
                | (s', Inr (Inr outputs)) \<Rightarrow>
                    (s', l\<lparr>cl_processed := (cl_processed l + 1) mod 2 ^ 64\<rparr>,
                     Inr \<lparr>li_outputs = outputs, li_completion = Returned, li_elapsed_micros = sat64 elapsed\<rparr>))
           | Overdue cancelled \<Rightarrow>
               (case run_inputs w en (cl_payload l) (cl_limits l) (cl_host l) cancelled inputs s of
                  (s', _) \<Rightarrow> (s', l, Inl (Capability (''Component v1 invocation exceeded the ''
                     @ show_nat (ml_deadline_ms (cl_limits l)) @ '' ms deadline''))))))"


section \<open>The life of a layer\<close>

datatype component_call = ComponentStart | ComponentStop | ComponentInvoke invocation_clock "bytes list"

fun component_step ::
  "component_world \<Rightarrow> component_engine \<Rightarrow> component_state \<times> component_layer \<Rightarrow> component_call \<Rightarrow> component_state \<times> component_layer"
where
  "component_step w en (s, l) ComponentStart = (s, fst (component_start l))"
| "component_step w en (s, l) ComponentStop = (s, fst (component_stop l))"
| "component_step w en (s, l) (ComponentInvoke clock inputs) =
     (case component_invoke w en clock inputs s l of (s', l', _) \<Rightarrow> (s', l'))"

definition component_run ::
  "component_world \<Rightarrow> component_engine \<Rightarrow> component_call list \<Rightarrow> component_state \<times> component_layer \<Rightarrow> component_state \<times> component_layer"
where
  "component_run w en calls sl = foldl (component_step w en) sl calls"

section \<open>Confinement\<close>

text \<open>The calls a host admits, by their target.\<close>

fun in_scope :: "component_world \<Rightarrow> component_host \<Rightarrow> host_call \<Rightarrow> bool" where
  "in_scope w (HostStoreRead roots) (CallRead kappa) \<longleftrightarrow> kappa \<in> set roots"
| "in_scope w (HostStoreWrite roots) (CallWrite kappa _) \<longleftrightarrow> kappa \<in> set roots"
| "in_scope w (HostChannelPublish channels) (CallPublish channel _) \<longleftrightarrow> channel \<in> set channels"
| "in_scope w (HostChannelSubscribe channels) (CallTryReceive channel) \<longleftrightarrow> channel \<in> set channels"
| "in_scope w (HostNetworkFetch scopes) (CallFetch target) \<longleftrightarrow>
     (\<exists>endpoint scope. scope_parse (cw_space w) target = Inr endpoint \<and> scope \<in> set scopes \<and> scope_admits (cw_net w) scope endpoint)"
| "in_scope w _ _ \<longleftrightarrow> False"

fun answer_ok :: "host_answer \<Rightarrow> bool" where
  "answer_ok (AnswerBytes r) = is_ok r"
| "answer_ok (AnswerUnit r) = is_ok r"
| "answer_ok (AnswerMessage r) = is_ok r"
| "answer_ok (AnswerResponse r) = is_ok r"

lemma out_of_scope:
  assumes "\<not> in_scope w h c"
  shows "\<exists>a. perform w h c s = (s, a, False) \<and> \<not> answer_ok a"
proof (cases c)
  case (CallRead k)
  then show ?thesis using assms by (cases h) (auto simp: host_read_def list_ex_iff)
next
  case (CallWrite k b)
  then show ?thesis using assms by (cases h) (auto simp: host_write_def list_ex_iff)
next
  case (CallPublish k b)
  then show ?thesis using assms by (cases h) (auto simp: host_publish_def list_ex_iff)
next
  case (CallTryReceive k)
  then show ?thesis using assms by (cases h) (auto simp: host_try_receive_def list_ex_iff)
next
  case (CallFetch t)
  then show ?thesis using assms
    by (cases h) (auto simp: host_fetch_def fetch_def list_ex_iff is_ok_iff bindE_eq_Inr split: if_splits sum.splits prod.splits)
qed

text \<open>What an event may be: an answered call is in scope, a write has the bytes its address names, and
  only an answered write creates an object.\<close>

fun event_ok :: "component_world \<Rightarrow> host \<Rightarrow> component_host \<Rightarrow> host_event \<Rightarrow> bool" where
  "event_ok w ho h (HostEvent c a created) \<longleftrightarrow>
     (answer_ok a \<longrightarrow> in_scope w h c \<and> (\<forall>kappa b. c = CallWrite kappa b \<longrightarrow> kappa = kappa_prefix @ blake3_hex ho b))
     \<and> (created \<longrightarrow> answer_ok a \<and> (\<exists>kappa b. c = CallWrite kappa b))"

fun charge :: "host_event \<Rightarrow> nat" where
  "charge (HostEvent (CallWrite _ b) _ True) = sat64 (length b)"
| "charge _ = 0"

text \<open>The state of a layer whose admitted quota is \<open>q\<close>.\<close>

definition component_ok :: "component_world \<Rightarrow> host \<Rightarrow> component_host \<Rightarrow> nat \<Rightarrow> component_state \<Rightarrow> bool" where
  "component_ok w ho h q s \<longleftrightarrow>
     os_host (cs_store s) = ho \<and> \<not> cs_quota_poisoned s \<and> list_all (event_ok w ho h) (cs_events s)
     \<and> (\<Sum>e \<leftarrow> cs_events s. charge e) + cs_quota s = q"

lemma sub64_exact:
  assumes "b \<le> a" "a \<le> u64_max"
  shows "sub64 a b = a - b"
proof -
  have "a - b < 2 ^ 64" using assms(2) by simp
  moreover have "sub64 a b = (a - b + 2 ^ 64) mod 2 ^ 64" using assms(1) by (simp add: sub64_def)
  ultimately show ?thesis by (simp only: mod_add_self2 mod_less)
qed

lemma host_write_ok:
  assumes "host_write h kappa b s = (s', r, created)" and "cs_quota s \<le> u64_max"
  shows "cs_events s' = cs_events s \<and> cs_quota_poisoned s' = cs_quota_poisoned s \<and> os_host (cs_store s') = os_host (cs_store s)
     \<and> (is_ok r \<longrightarrow> kappa = kappa_prefix @ blake3_hex (os_host (cs_store s)) b) \<and> (created \<longrightarrow> is_ok r)
     \<and> cs_quota s' + (if created then sat64 (length b) else 0) = cs_quota s"
proof (cases "\<exists>roots. h = HostStoreWrite roots \<and> list_ex (\<lambda>root. root = kappa) roots \<and> \<not> cs_quota_poisoned s")
  case True
  then obtain roots where h: "h = HostStoreWrite roots" "list_ex (\<lambda>root. root = kappa) roots" "\<not> cs_quota_poisoned s" by blast
  obtain t x where t: "store_cache_addressed_bounded (cs_store s) kappa b (cs_quota s) = (t, x)" by fastforce
  have frame: "os_host t = os_host (cs_store s)" using cache_bounded_frame [of "cs_store s" kappa b "cs_quota s"] t by (simp add: same_frame_def)
  show ?thesis
  proof (cases x)
    case (Inl e)
    then show ?thesis using assms(1) h t frame by (auto simp: host_write_def)
  next
    case (Inr made)
    obtain d where d: "kappa = kappa_prefix @ d" "blake3_hex (os_host (cs_store s)) b = d" "made \<longrightarrow> sat64 (length b) \<le> cs_quota s"
      using cache_bounded_ok [OF t [unfolded Inr]] by metis
    then show ?thesis using assms h t frame Inr by (cases made) (auto simp: host_write_def sub64_exact)
  qed
next
  case False
  then show ?thesis using assms(1) by (cases h) (auto simp: host_write_def split: if_splits)
qed

lemma same_broker: "\<exists>b. s = s\<lparr>cs_broker := b\<rparr>" for s :: component_state
  by (rule exI [of _ "cs_broker s"]) simp

lemma channel_frame:
  "\<exists>b. fst (host_publish h channel m s) = s\<lparr>cs_broker := b\<rparr>"
  "\<exists>b. fst (host_try_receive h channel s) = s\<lparr>cs_broker := b\<rparr>"
proof -
  show "\<exists>b. fst (host_publish h channel m s) = s\<lparr>cs_broker := b\<rparr>"
    by (auto simp: host_publish_def same_broker split: component_host.split prod.split)
  show "\<exists>b. fst (host_try_receive h channel s) = s\<lparr>cs_broker := b\<rparr>"
    by (auto simp: host_try_receive_def same_broker split: component_host.split prod.split)
qed

lemma perform_ok:
  assumes "perform w h c s = (s', a, created)" and "component_ok w ho h q s" and "q \<le> u64_max"
  shows "component_ok w ho h q (s'\<lparr>cs_events := cs_events s' @ [HostEvent c a created]\<rparr>)"
proof -
  have scope: "answer_ok a \<longrightarrow> in_scope w h c" using out_of_scope [of w h c s] assms(1) by auto
  show ?thesis
  proof (cases c)
    case (CallWrite kappa b)
    have "cs_quota s \<le> u64_max" using assms(2,3) by (simp add: component_ok_def)
    moreover obtain r where "host_write h kappa b s = (s', r, created)" "a = AnswerUnit r"
      using assms(1) CallWrite by (auto split: prod.splits)
    ultimately show ?thesis using assms(2) scope host_write_ok [of h kappa b s s' r created] CallWrite
      by (cases created) (auto simp: component_ok_def)
  next
    case (CallPublish channel m)
    then show ?thesis using assms(1,2) scope channel_frame(1) [of h channel m s] by (auto simp: component_ok_def split: prod.splits)
  next
    case (CallTryReceive channel)
    then show ?thesis using assms(1,2) scope channel_frame(2) [of h channel s] by (auto simp: component_ok_def split: prod.splits)
  qed (use assms(1,2) scope in \<open>auto simp: component_ok_def\<close>)
qed

lemma answer_call_ok:
  assumes "component_ok w ho h q s" and "q \<le> u64_max"
  shows "component_ok w ho h q (fst (answer_call w h c s))"
proof -
  have "component_ok w ho h q (disturb w s)" using assms(1) by (simp add: component_ok_def disturb_def)
  then show ?thesis using perform_ok [OF _ _ assms(2)] by (auto simp: answer_call_def split: prod.splits)
qed

text \<open>What every host call and the poisoning of the serial lock keep, a run keeps.\<close>

locale guest_invariant =
  fixes w :: component_world and h :: component_host and I :: "component_state \<Rightarrow> bool"
  assumes call: "I s \<Longrightarrow> I (fst (answer_call w h c s))"
    and serial: "I s \<Longrightarrow> I (s\<lparr>cs_serial_poisoned := True\<rparr>)"
begin

lemma guest: "I s \<Longrightarrow> I (fst (run_guest w h g s))"
proof (induction g arbitrary: s)
  case (GuestCall c k)
  obtain s' a where a: "answer_call w h c s = (s', a)" by fastforce
  then have "I s'" using call [OF GuestCall.prems, of c] by simp
  then show ?case using GuestCall.IH a by auto
qed simp_all

lemma guest_result: "run_guest w h g s = (s', r) \<Longrightarrow> I s \<Longrightarrow> I s'"
  using guest [of s g] by simp

lemma instantiates: "I s \<Longrightarrow> I (fst (instantiate w en payload l h s))"
  using guest_result by (fastforce simp: instantiate_def split: sum.split prod.split)

lemma compiles: "I s \<Longrightarrow> I (fst (compile w en kappa payload l h s))"
  using instantiates by (auto simp: compile_def split: sum.split)

lemma once: "I s \<Longrightarrow> I (fst (run_once w en payload l h input s))"
proof (cases "length input > ml_input_max_bytes l \<or> \<not> is_ok (bindE (new_store en l) (\<lambda>sl. bindE (link_host en h) (\<lambda>_. Inr sl)))")
  case False
  assume I: "I s"
  from False obtain sl where sl: "bindE (new_store en l) (\<lambda>sl. bindE (link_host en h) (\<lambda>_. Inr sl)) = Inr sl" by (auto simp: is_ok_iff)
  obtain s1 r1 where s1: "run_guest w h (ce_instantiate en (cs_events s) payload sl h) s = (s1, r1)" by fastforce
  obtain s2 r2 where s2: "run_guest w h (ce_call_run en (cs_events s1) payload sl h input) s1 = (s2, r2)" by fastforce
  note J = guest_result [OF s1 I]
  from J guest_result [OF s2 J] False sl s1 s2 show ?thesis
    by (auto simp: run_once_def split: guest_outcome.split sum.split)
qed (auto simp: run_once_def is_ok_def split: sum.splits)

lemma each: "(\<And>input s. I s \<Longrightarrow> I (fst (once' input s))) \<Longrightarrow> I s \<Longrightarrow> I (fst (run_each once' cancelled outputs inputs s))"
proof (induction inputs arbitrary: outputs s)
  case (Cons input inputs)
  obtain s' r where "once' input s = (s', r)" by fastforce
  moreover from this have "I s'" using Cons.prems by (metis fst_conv)
  ultimately show ?case using Cons by (auto split: sum.split)
qed simp

lemma inputs: "I s \<Longrightarrow> I (fst (run_inputs w en payload l h cancelled xs s))"
proof -
  assume "I s"
  moreover from this have "I (fst (run_each (run_once w en payload l h) cancelled [] xs s))" using each once by blast
  ultimately show ?thesis using serial by (auto simp: run_inputs_def split: prod.split sum.split)
qed

lemma invoke: "I s \<Longrightarrow> cl_host l = h \<Longrightarrow> I (fst (component_invoke w en clock xs s l))"
  using inputs [of s en "cl_payload l" "cl_limits l" _ xs]
  by (auto simp: component_invoke_def split: invocation_clock.split option.split prod.split sum.split) (metis fst_conv)+

end

lemma component_ok_serial: "component_ok w ho h q s \<Longrightarrow> component_ok w ho h q (s\<lparr>cs_serial_poisoned := True\<rparr>)"
  by (simp add: component_ok_def)

interpretation quota: guest_invariant w h "\<lambda>s. component_ok w ho h q s \<and> q \<le> u64_max" for w ho h q
  by unfold_locales (auto intro: answer_call_ok component_ok_serial)

section \<open>Results of an invocation\<close>

lemma run_once_output:
  "run_once w en payload l h input s = (s', Inr (Inr out)) \<Longrightarrow> length input \<le> ml_input_max_bytes l \<and> length out \<le> ml_output_max_bytes l"
  by (auto simp: run_once_def split: if_splits sum.splits prod.splits guest_outcome.splits)

lemma run_each_outputs:
  assumes "run_each once cancelled outs inputs s = (s', Inr (Inr res))"
    and "\<And>input s t out. once input s = (t, Inr (Inr out)) \<Longrightarrow> P input out"
  shows "\<exists>more. res = outs @ more \<and> list_all2 P inputs more"
  using assms(1)
proof (induction inputs arbitrary: outs s)
  case (Cons input inputs)
  then obtain t out where o: "once input s = (t, Inr (Inr out))" "run_each once cancelled (outs @ [out]) inputs t = (s', Inr (Inr res))"
    by (auto split: if_splits prod.splits sum.splits)
  then obtain more where "res = (outs @ [out]) @ more" "list_all2 P inputs more" using Cons.IH by blast
  then show ?case using assms(2) [OF o(1)] by (intro exI [of _ "out # more"]) auto
qed simp

definition within_limits :: "component_limits \<Rightarrow> bytes \<Rightarrow> bytes \<Rightarrow> bool" where
  "within_limits l input out \<longleftrightarrow> length input \<le> ml_input_max_bytes l \<and> length out \<le> ml_output_max_bytes l"

lemma component_invoke_outputs:
  assumes "component_invoke w en clock inputs s l = (s', l', Inr r)"
  shows "cl_running l \<and> list_all2 (within_limits (cl_limits l)) inputs (li_outputs r) \<and> li_completion r = Returned
     \<and> l' = l\<lparr>cl_processed := (cl_processed l + 1) mod 2 ^ 64\<rparr>"
proof -
  let ?run = "run_each (run_once w en (cl_payload l) (cl_limits l) (cl_host l)) (\<lambda>_. False) [] inputs s"
  obtain outs where "?run = (s', Inr (Inr outs))" "li_outputs r = outs" and rest: "cl_running l" "li_completion r = Returned"
    "l' = l\<lparr>cl_processed := (cl_processed l + 1) mod 2 ^ 64\<rparr>"
    using assms by (auto simp: component_invoke_def run_inputs_def split: if_splits invocation_clock.splits option.splits prod.splits sum.splits)
  with run_each_outputs [of _ "\<lambda>_. False" "[]" inputs s s' outs "within_limits (cl_limits l)"] run_once_output
  show ?thesis unfolding within_limits_def by fastforce
qed

lemma component_invoke_same:
  "component_invoke w en clock inputs s l = (s', l', r) \<Longrightarrow>
     cl_host l' = cl_host l \<and> cl_limits l' = cl_limits l \<and> cl_running l' = cl_running l"
  by (auto simp: component_invoke_def split: if_splits invocation_clock.splits option.splits prod.splits sum.splits)

lemma component_run_keeps:
  assumes "component_run w en calls (s, l) = (s', l')" "component_ok w ho (cl_host l) q s" "q \<le> u64_max"
  shows "component_ok w ho (cl_host l) q s' \<and> cl_host l' = cl_host l \<and> cl_limits l' = cl_limits l"
  using assms
proof (induction calls arbitrary: s l)
  case (Cons c calls)
  obtain t m where t: "component_step w en (s, l) c = (t, m)" by fastforce
  have "component_ok w ho (cl_host l) q t \<and> cl_host m = cl_host l \<and> cl_limits m = cl_limits l"
  proof (cases c)
    case (ComponentInvoke clock inputs)
    then show ?thesis using t component_invoke_same [of w en clock inputs s l] quota.invoke [of w ho "cl_host l" q s l en clock inputs] Cons.prems(2,3)
      by (auto split: prod.splits)
  qed (use t Cons.prems(2) in \<open>auto simp: component_start_def component_stop_def\<close>)
  then show ?case using Cons.IH [of t m] Cons.prems(1,3) t by (simp add: component_run_def)
qed (simp add: component_run_def)

section \<open>The guarantee\<close>

text \<open>The host a profile gives a guest, from the capabilities its application requested.\<close>

definition host_granted :: "component_world \<Rightarrow> component_profile \<Rightarrow> capabilities \<Rightarrow> object_store \<Rightarrow> component_host \<Rightarrow> bool" where
  "host_granted w profile request store h \<longleftrightarrow>
     (case profile of
        ImportFree \<Rightarrow> h = HostImportFree
      | StoreRead \<Rightarrow> h = HostStoreRead (storage_roots request)
      | StoreGraphRead \<Rightarrow> (\<exists>roots. h = HostStoreRead roots
          \<and> set roots = {k. \<exists>n. graph_reach (cw_realizations w) store (storage_roots request) n k})
      | StoreWrite \<Rightarrow> h = HostStoreWrite (storage_roots request)
      | ChannelPublish \<Rightarrow> h = HostChannelPublish (publish_channels request)
      | ChannelSubscribe \<Rightarrow> h = HostChannelSubscribe (subscribe_channels request)
      | NetworkFetch \<Rightarrow> h = HostNetworkFetch (network_fetch_endpoints request))"

lemma prepare_host_granted:
  assumes "prepare_host w p c store = Inr (h, q)"
  shows "host_granted w (cp_profile p) (co_capabilities (px_requested c)) store h
     \<and> q = (if cp_profile p = StoreWrite then storage_quota_bytes (co_capabilities (px_requested c)) else 0)"
proof (cases "cp_profile p")
  case StoreGraphRead
  then obtain cl where cl: "resolve_storage_graph (cw_space w) (cw_realizations w) store
      (storage_roots (co_capabilities (px_requested c))) default_graph_limits = Inr cl" "h = HostStoreRead (gc_readable cl)" "q = 0"
    using assms by (auto simp: prepare_host_def Let_def bindE_eq_Inr split: if_splits)
  from cl(1) show ?thesis
    by (rule resolve_storage_graph_state) (use StoreGraphRead cl in \<open>simp add: host_granted_def\<close>)
qed (use assms in \<open>auto simp: prepare_host_def host_granted_def Let_def split: if_splits\<close>)

text \<open>A limit is the host's, or a smaller nonzero one of the request or the grant.\<close>

lemma tighten_min:
  "tighten_usize host r g \<le> host \<and> (r > 0 \<longrightarrow> tighten_usize host r g \<le> r) \<and> (g > 0 \<longrightarrow> tighten_usize host r g \<le> g)"
  "tighten_u64 host r g \<le> host \<and> (r > 0 \<longrightarrow> tighten_u64 host r g \<le> r) \<and> (g > 0 \<longrightarrow> tighten_u64 host r g \<le> g)"
  by (auto simp: tighten_usize_def tighten_u64_def)

definition tightened :: "layer_prepare_context \<Rightarrow> component_limits \<Rightarrow> component_limits \<Rightarrow> bool" where
  "tightened c l0 l \<longleftrightarrow>
     ml_memory_max_bytes l \<le> ml_memory_max_bytes l0 \<and> ml_deadline_ms l \<le> max (ml_deadline_ms l0) 1 \<and> 0 < ml_deadline_ms l
     \<and> (\<forall>caps \<in> {co_capabilities (px_requested c), eg_capabilities (px_grant c)}.
          (memory_max_bytes caps > 0 \<longrightarrow> ml_memory_max_bytes l \<le> memory_max_bytes caps)
          \<and> (cpu_time_per_event_ms caps > 0 \<longrightarrow> ml_deadline_ms l \<le> cpu_time_per_event_ms caps))
     \<and> ml_fuel_per_input l = ml_fuel_per_input l0 \<and> ml_input_max_bytes l = ml_input_max_bytes l0
     \<and> ml_output_max_bytes l = ml_output_max_bytes l0"

lemma tighten_tightened: "tightened c l (tighten c l)"
proof -
  let ?r = "co_capabilities (px_requested c)" and ?g = "eg_capabilities (px_grant c)"
  have d: "sat64 (ml_deadline_ms l) \<le> ml_deadline_ms l" by (rule sat64_le_self)
  note m = tighten_min(1) [of "ml_memory_max_bytes l" "memory_max_bytes ?r" "memory_max_bytes ?g"]
    and t = tighten_min(2) [of "sat64 (ml_deadline_ms l)" "cpu_time_per_event_ms ?r" "cpu_time_per_event_ms ?g"]
  show ?thesis using m t d by (auto simp: tightened_def tighten_def Let_def)
qed

lemma component_prepare_ok:
  assumes "component_prepare w en p c store broker = (s, Inr l)"
    and q: "storage_quota_bytes (co_capabilities (px_requested c)) \<le> u64_max"
  shows "host_granted w (cp_profile p) (co_capabilities (px_requested c)) store (cl_host l) \<and> cl_limits l = tighten c (cp_limits p)
     \<and> component_ok w (os_host store) (cl_host l)
         (if cp_profile p = StoreWrite then storage_quota_bytes (co_capabilities (px_requested c)) else 0) s"
proof -
  let ?q = "if cp_profile p = StoreWrite then storage_quota_bytes (co_capabilities (px_requested c)) else 0"
  let ?s = "\<lambda>quota. \<lparr>cs_store = store, cs_broker = broker, cs_quota = quota, cs_quota_poisoned = False, cs_serial_poisoned = False, cs_events = []\<rparr>"
  obtain h quota where h: "prepare_host w p c store = Inr (h, quota)" "cl_host l = h" "cl_limits l = tighten c (cp_limits p)"
    and s: "s = fst (compile w en (archive_kappa (px_identity c)) (rl_content (px_layer c)) (tighten c (cp_limits p)) h (?s quota))"
    using assms(1) by (auto simp: component_prepare_def Let_def split: if_splits sum.splits prod.splits)
  note g = prepare_host_granted [OF h(1)]
  have "component_ok w (os_host store) h quota (?s quota) \<and> quota \<le> u64_max" using g q by (auto simp: component_ok_def)
  from quota.compiles [OF this] show ?thesis using g h s by auto
qed

text \<open>
  C8 A Component guest stays within what its application was admitted for, whatever it calls, however its
  runs end and whatever other threads do to the shared store and channels in between. Its host carries
  exactly the requested roots, channels or endpoints of its profile (for graph reads, exactly the objects
  reachable from the requested roots when it was prepared). Through preparation and any sequence of starts,
  invocations and stops, every call that was answered is within these, a written object has the bytes
  its address names, and a call outside them or of another interface changes nothing and answers an error.
  The quota is exact: the bytes of the objects the guest created and what is left of the quota add up to
  the admitted quota, so the subtraction never wraps. Memory and time limits are at most the host's, the
  request's and the grant's, and an invocation that returns has one output per input, all within
  the limits.
\<close>
theorem component_guest_confined:
  assumes "component_prepare w en p c store broker = (s0, Inr l0)"
    and "component_run w en calls (s0, l0) = (s, l)"
    and "storage_quota_bytes (co_capabilities (px_requested c)) \<le> u64_max"
  shows "host_granted w (cp_profile p) (co_capabilities (px_requested c)) store (cl_host l)
     \<and> list_all (event_ok w (os_host store) (cl_host l)) (cs_events s)
     \<and> (\<forall>call t. \<not> in_scope w (cl_host l) call \<longrightarrow> (\<exists>a. perform w (cl_host l) call t = (t, a, False) \<and> \<not> answer_ok a))
     \<and> (\<Sum>e \<leftarrow> cs_events s. charge e) + cs_quota s =
         (if cp_profile p = StoreWrite then storage_quota_bytes (co_capabilities (px_requested c)) else 0)
     \<and> tightened c (cp_limits p) (cl_limits l)
     \<and> (\<forall>clock inputs s' l' r. component_invoke w en clock inputs s l = (s', l', Inr r) \<longrightarrow>
          cl_running l \<and> list_all2 (within_limits (cl_limits l)) inputs (li_outputs r))"
proof -
  note p = component_prepare_ok [OF assms(1,3)]
  let ?q = "if cp_profile p = StoreWrite then storage_quota_bytes (co_capabilities (px_requested c)) else 0"
  have "?q \<le> u64_max" using assms(3) by simp
  with component_run_keeps [OF assms(2), of "os_host store" ?q] p
  have k: "component_ok w (os_host store) (cl_host l) ?q s" "cl_host l = cl_host l0" "cl_limits l = cl_limits l0" by auto
  moreover have "tightened c (cp_limits p) (cl_limits l)" using k p tighten_tightened by simp
  ultimately show ?thesis using p out_of_scope component_invoke_outputs unfolding component_ok_def by fastforce
qed

section \<open>A guest that writes\<close>

definition demo_component_world :: component_world where
  "demo_component_world = \<lparr>cw_space = sample_space, cw_realizations = [], cw_net = sample_net, cw_granted = (\<lambda>_. True),
     cw_fate = (\<lambda>_. Holo_Fetch.InTime), cw_disturb_store = (\<lambda>_ s. s), cw_disturb_broker = (\<lambda>_ b. b)\<rparr>"

abbreviation guest_demo_object :: string where
  "guest_demo_object \<equiv> kappa_prefix @ blake3_hex sample_host [1, 2]"

definition demo_engine :: component_engine where
  "demo_engine = \<lparr>ce_new = Inr (), ce_component = (\<lambda>_. Inr ()), ce_set_fuel = (\<lambda>_. Inr ()), ce_link = (\<lambda>_. Inr ()),
     ce_instantiate = (\<lambda>_ _ _ _. GuestDone ()),
     ce_call_run = (\<lambda>_ _ _ _ input. GuestCall (CallWrite guest_demo_object input) (\<lambda>_. GuestDone (Inr [])))\<rparr>"

definition demo_component_context :: layer_prepare_context where
  "demo_component_context = \<lparr>px_identity = \<lparr>archive_kappa = ''a'', archive_fingerprint = '''', application_kappa = ''b''\<rparr>,
     px_grant = local_baseline sample_space,
     px_requested = \<lparr>co_kappa = '''', co_canonical = [], co_capabilities = empty_capabilities\<lparr>storage_roots := [guest_demo_object], storage_quota_bytes := 10\<rparr>\<rparr>,
     px_layer = \<lparr>rl_position = 0, rl_kind = WasmCodemodule, rl_content_kappa = '''', rl_entry = ''run'', rl_aux = '''', rl_primary = True,
       rl_content = [], rl_resolution_source = Embedded, rl_provider = ''''\<rparr>,
     px_target = Direct, px_intents = 0\<rparr>"

definition demo_layer :: component_layer where
  "demo_layer = \<lparr>cl_position = 0, cl_target = Direct, cl_payload = [], cl_limits = tighten demo_component_context default_component_limits,
     cl_host = HostStoreWrite [guest_demo_object], cl_resident_bytes = 0, cl_running = False, cl_queued = 0, cl_processed = 0\<rparr>"

definition guest_demo_state :: component_state where
  "guest_demo_state = \<lparr>cs_store = sample_store, cs_broker = default_broker, cs_quota = 10, cs_quota_poisoned = False,
     cs_serial_poisoned = False, cs_events = []\<rparr>"

lemma demo_prepare:
  "component_prepare demo_component_world demo_engine (provider_store_write Direct True) demo_component_context sample_store default_broker
     = (guest_demo_state, Inr demo_layer)"
  by (simp add: component_prepare_def provider_store_write_def prepare_host_def compile_def instantiate_def new_store_def link_host_def
      demo_engine_def demo_component_context_def demo_layer_def guest_demo_state_def component_v1_entry_def Let_def)

lemma guest_demo_write:
  "\<exists>t. store_cache_addressed_bounded sample_store guest_demo_object [1, 2] 10 = (t, Inr True)"
proof -
  have "validate_id guest_demo_object = Inr (blake3_hex sample_host [1, 2])" using host_ok_digest [OF sample_host_ok] by (simp add: validate_id_Inr)
  then show ?thesis using store_write_total [OF sample_store_up(2), of "blob_path sample_store (blake3_hex sample_host [1, 2])" "[1, 2]"]
    by (auto simp: store_cache_addressed_bounded_def sample_store_up is_ok_iff sat64_def fs_exists_def fs_get_def
        sample_store_def [THEN arg_cong, of os_fs] split: prod.splits)
qed

theorem component_guest_confined_witness:
  "\<exists>s l. component_run demo_component_world demo_engine [ComponentStart, ComponentInvoke (OnTime 7) [[1, 2]]] (guest_demo_state, demo_layer) = (s, l)
     \<and> length (cs_events s) = 1 \<and> cs_quota s = 8 \<and> list_all (event_ok demo_component_world sample_host (cl_host l)) (cs_events s)"
proof -
  let ?calls = "[ComponentStart, ComponentInvoke (OnTime 7) [[1, 2 :: 8 word]]]"
  obtain t where t: "store_cache_addressed_bounded sample_store guest_demo_object [1, 2] 10 = (t, Inr True)" using guest_demo_write by blast
  obtain s l where run: "component_run demo_component_world demo_engine ?calls (guest_demo_state, demo_layer) = (s, l)" by fastforce
  have "s\<lparr>cs_store := t\<rparr> = s \<and> cs_events s = [HostEvent (CallWrite guest_demo_object [1, 2]) (AnswerUnit (Inr ())) True]"
    using run t by (auto simp: component_run_def component_start_def component_invoke_def run_inputs_def run_once_def new_store_def link_host_def
        demo_engine_def demo_layer_def guest_demo_state_def answer_call_def disturb_def demo_component_world_def host_write_def
        tighten_def default_component_limits_def component_input_max_bytes_def component_output_max_bytes_def Let_def split: if_splits)
  moreover note component_guest_confined [OF demo_prepare run, unfolded provider_store_write_def]
  ultimately show ?thesis using run
    by (simp add: sample_store_up demo_component_context_def empty_capabilities_def sat64_def)
qed

end
