(* ===== verification/Wasm_Guest.thy ===== *)
theory Wasm_Guest
  imports Holo_Lifecycle
begin

text \<open>
  The provider of core Wasm guests (\<open>src/holo_wasm.rs\<close>): the guest contract, one run per input in a fresh
  instance with its packed pointers, the direct layer and the resident layer with its actor.

  The \<open>wasmtime\<close> engine is a parameter: what a module compiles to, its exports, and what a call of an
  export does to the instance. A call has no fuel here, so it may not return: then the value is \<open>None\<close>. An
  instance is its linear memory and whatever else it keeps, of any type.
\<close>

section \<open>The engine\<close>

type_synonym 'g vm = "bytes \<times> 'g"

text \<open>The exports of an instance as looked up under their required types.\<close>

record 'g wasm_instance =
  wi_vm :: "'g vm"
  wi_memory :: bool
  wi_alloc :: "('g vm \<Rightarrow> 32 word \<Rightarrow> ('g vm \<times> (string + 32 word)) option) option"
  wi_entry :: "string \<Rightarrow> ('g vm \<Rightarrow> 32 word \<Rightarrow> 32 word \<Rightarrow> ('g vm \<times> (string + 64 word)) option) option"

text \<open>\<open>we_module\<close> compiles, \<open>we_instantiate\<close> makes a fresh instance without imports and runs its start function,
  \<open>we_out_of_bounds\<close> is the text of a failed memory access.\<close>

record 'g wasm_engine =
  we_module :: "bytes \<Rightarrow> string + bytes"
  we_instantiate :: "bytes \<Rightarrow> (string + 'g wasm_instance) option"
  we_out_of_bounds :: string

text \<open>Sequencing of computations that may not end or may fail.\<close>

definition bindT :: "'a live_result option \<Rightarrow> ('a \<Rightarrow> 'b live_result option) \<Rightarrow> 'b live_result option" where
  "bindT m f = (case m of None \<Rightarrow> None | Some (Inl e) \<Rightarrow> Some (Inl e) | Some (Inr x) \<Rightarrow> f x)"

lemma bindT_simps [simp]: "bindT None f = None" "bindT (Some (Inl e)) f = Some (Inl e)" "bindT (Some (Inr x)) f = f x"
  by (simp_all add: bindT_def)

lemma bindT_Inr: "bindT m f = Some (Inr y) \<longleftrightarrow> (\<exists>x. m = Some (Inr x) \<and> f x = Some (Inr y))"
  by (auto simp: bindT_def split: option.splits sum.splits)

section \<open>The guest contract\<close>

definition core_wasm_v1 :: string where
  "core_wasm_v1 = ''core-wasm-v1''"

definition core_wasm_v1_default_entry :: string where
  "core_wasm_v1_default_entry = ''holo_run''"

definition validate_entry_name :: "string \<Rightarrow> string + unit" where
  "validate_entry_name entry =
     (if entry = [] then Inl ''must not be empty''
      else if length entry > 256 then Inl ''must be at most 256 UTF-8 bytes''
      else if has_control entry then Inl ''must not contain control characters''
      else Inr ())"

definition contract_export_error :: "string \<Rightarrow> string \<Rightarrow> live_error" where
  "contract_export_error export entry = Protocol (''wasm guest does not satisfy '' @ core_wasm_v1 @ '' for manifest entry ''
     @ debug_str entry @ '': required export `'' @ export @ ''` is missing or has an incompatible type'')"

type_synonym 'g contract =
  "('g vm \<Rightarrow> 32 word \<Rightarrow> ('g vm \<times> (string + 32 word)) option) \<times> ('g vm \<Rightarrow> 32 word \<Rightarrow> 32 word \<Rightarrow> ('g vm \<times> (string + 64 word)) option)"

definition contract_exports :: "'g wasm_instance \<Rightarrow> string \<Rightarrow> 'g contract live_result" where
  "contract_exports inst entry =
     (if \<not> wi_memory inst then Inl (contract_export_error ''memory'' entry)
      else
        bindE (ok_or (contract_export_error ''holo_alloc(len: i32) -> i32'' entry) (wi_alloc inst)) (\<lambda>alloc.
        bindE (ok_or (contract_export_error (entry @ ''(ptr: i32, len: i32) -> i64'') entry) (wi_entry inst entry)) (\<lambda>run.
        Inr (alloc, run))))"

definition wasm_instantiate :: "'g wasm_engine \<Rightarrow> bytes \<Rightarrow> 'g wasm_instance live_result option" where
  "wasm_instantiate en module = map_option (map_err (\<lambda>e. Protocol (''instantiate wasm guest: '' @ e))) (we_instantiate en module)"

definition validate_contract :: "'g wasm_engine \<Rightarrow> bytes \<Rightarrow> string \<Rightarrow> unit live_result option" where
  "validate_contract en module entry =
     bindT (wasm_instantiate en module) (\<lambda>inst. Some (bindE (contract_exports inst entry) (\<lambda>_. Inr ())))"

record core_guest =
  cg_module :: bytes
  cg_entry :: string

definition guest_compile :: "'g wasm_engine \<Rightarrow> string \<Rightarrow> bytes \<Rightarrow> string \<Rightarrow> core_guest live_result option" where
  "guest_compile en kappa wasm entry =
     bindT (Some (map_err (\<lambda>reason. Protocol (''invalid '' @ core_wasm_v1 @ '' manifest entry '' @ debug_str entry @ '': '' @ reason))
              (validate_entry_name entry))) (\<lambda>_.
     bindT (Some (map_err (\<lambda>e. InvalidHolo (''compile wasm layer of '' @ kappa @ '': '' @ e)) (we_module en wasm))) (\<lambda>module.
     bindT (validate_contract en module entry) (\<lambda>_. Some (Inr \<lparr>cg_module = module, cg_entry = entry\<rparr>))))"

section \<open>One run\<close>

definition show_i32 :: "32 word \<Rightarrow> string" where
  "show_i32 v = (if sint v < 0 then ''-'' @ show_nat (nat (- sint v)) else show_nat (nat (sint v)))"

definition guest_offset :: "string \<Rightarrow> 32 word \<Rightarrow> nat live_result" where
  "guest_offset kappa pointer =
     (if sint pointer < 0 then Inl (Protocol (''guest '' @ kappa @ '' returned the negative pointer '' @ show_i32 pointer))
      else Inr (nat (sint pointer)))"

definition trap_error :: "string \<Rightarrow> string \<Rightarrow> string \<Rightarrow> live_error" where
  "trap_error kappa export e = Protocol (''guest '' @ kappa @ '' trapped in `'' @ export @ ''`: '' @ e)"

text \<open>\<open>Memory::write\<close> and \<open>Memory::read\<close>: the range must lie in the memory.\<close>

definition memory_write :: "nat \<Rightarrow> bytes \<Rightarrow> bytes \<Rightarrow> bytes option" where
  "memory_write offset b mem =
     (if offset + length b \<le> length mem then Some (take offset mem @ b @ drop (offset + length b) mem) else None)"

definition memory_read :: "nat \<Rightarrow> nat \<Rightarrow> bytes \<Rightarrow> bytes option" where
  "memory_read offset len mem = (if offset + len \<le> length mem then Some (take len (drop offset mem)) else None)"

definition output_pointer :: "64 word \<Rightarrow> 64 word" where
  "output_pointer packed = drop_bit 32 packed"

definition output_length :: "64 word \<Rightarrow> 64 word" where
  "output_length packed = and packed 0xFFFFFFFF"

definition core_run_once :: "'g wasm_engine \<Rightarrow> bytes \<Rightarrow> string \<Rightarrow> string \<Rightarrow> bytes \<Rightarrow> bytes live_result option" where
  "core_run_once en module kappa entry input =
     bindT (wasm_instantiate en module) (\<lambda>inst.
     bindT (Some (contract_exports inst entry)) (\<lambda>(alloc, run).
     if length input \<ge> 2 ^ 31 then
       Some (Inl (Protocol (''input of '' @ show_nat (length input) @ '' bytes exceeds the 2 GiB guest contract limit for '' @ kappa)))
     else
       (case alloc (wi_vm inst) (of_nat (length input)) of
          None \<Rightarrow> None
        | Some (_, Inl e) \<Rightarrow> Some (Inl (trap_error kappa ''holo_alloc'' e))
        | Some ((mem, rest), Inr input_ptr) \<Rightarrow>
            bindT (Some (guest_offset kappa input_ptr)) (\<lambda>offset.
            bindT (Some (ok_or (Protocol (''write input into guest memory of '' @ kappa @ '': '' @ we_out_of_bounds en))
                     (memory_write offset input mem))) (\<lambda>written.
            case run (written, rest) input_ptr (of_nat (length input)) of
              None \<Rightarrow> None
            | Some (_, Inl e) \<Rightarrow> Some (Inl (trap_error kappa entry e))
            | Some ((mem', _), Inr packed) \<Rightarrow>
                Some (if unat (output_pointer packed) \<ge> 2 ^ 32
                      then Inl (Protocol (''guest '' @ kappa @ '' returned an out-of-range output pointer''))
                      else ok_or (Protocol (''read output from guest memory of '' @ kappa @ '': '' @ we_out_of_bounds en))
                             (memory_read (unat (output_pointer packed)) (unat (output_length packed)) mem')))))))"

fun run_guest_inputs :: "'g wasm_engine \<Rightarrow> core_guest \<Rightarrow> string \<Rightarrow> bytes list \<Rightarrow> bytes list live_result option" where
  "run_guest_inputs en g kappa [] = Some (Inr [])"
| "run_guest_inputs en g kappa (input # inputs) =
     bindT (core_run_once en (cg_module g) kappa (cg_entry g) input) (\<lambda>out.
     bindT (run_guest_inputs en g kappa inputs) (\<lambda>outs. Some (Inr (out # outs))))"

section \<open>The provider and its layers\<close>

record wasm_provider =
  wp_target :: provider_target
  wp_resident_root :: bool
  wp_mailbox_capacity :: nat

definition wasm_direct :: wasm_provider where
  "wasm_direct = \<lparr>wp_target = Direct, wp_resident_root = False, wp_mailbox_capacity = 1\<rparr>"

definition wasm_resident :: "bool \<Rightarrow> nat \<Rightarrow> wasm_provider" where
  "wasm_resident root mailbox_capacity = \<lparr>wp_target = Resident, wp_resident_root = root, wp_mailbox_capacity = max mailbox_capacity 1\<rparr>"

definition wasm_contract :: "wasm_contracts \<Rightarrow> wasm_provider \<Rightarrow> string option" where
  "wasm_contract wc p = Some (wc_core wc)"

definition wasm_name :: "wasm_provider \<Rightarrow> string" where
  "wasm_name p = (case wp_target p of Direct \<Rightarrow> ''wasmtime-direct'' | Resident \<Rightarrow> ''wasmtime-resident'')"

definition wasm_availability :: "wasm_provider \<Rightarrow> provider_context \<Rightarrow> provider_target \<Rightarrow> string + unit" where
  "wasm_availability p c target =
     (if target = wp_target p then Inr ()
      else Inl (wasm_name p @ '' provider is configured for '' @ target_name (wp_target p) @ '', not '' @ target_name target))"

record direct_wasm =
  dw_position :: nat
  dw_kappa :: string
  dw_guest :: core_guest
  dw_resident_bytes :: nat
  dw_running :: bool
  dw_processed :: nat

text \<open>An actor is the guest it was made of; the counter of processed messages is shared with the layer.\<close>

record resident_actor =
  ra_guest :: core_guest
  ra_actor_kappa :: string

record resident_wasm =
  rw_position :: nat
  rw_mailbox_capacity :: nat
  rw_prepared :: "resident_actor option"
  rw_actor :: "resident_actor option"
  rw_prepared_poisoned :: bool
  rw_actor_poisoned :: bool
  rw_resident_bytes :: nat
  rw_queued :: nat
  rw_processed :: nat

datatype wasm_layer = DirectLayer direct_wasm | ResidentLayer resident_wasm

definition wasm_prepare :: "'g wasm_engine \<Rightarrow> wasm_provider \<Rightarrow> layer_prepare_context \<Rightarrow> wasm_layer live_result option" where
  "wasm_prepare en p c =
     (let kappa = archive_kappa (px_identity c); l = px_layer c in
      if px_target c \<noteq> wp_target p then
        Some (Inl (Conflict (''provider '' @ wasm_name p @ '' cannot prepare a '' @ target_name (px_target c) @ '' layer'')))
      else case wp_target p of
        Direct \<Rightarrow>
          bindT (guest_compile en kappa (rl_content l) (rl_entry l)) (\<lambda>g.
            Some (Inr (DirectLayer \<lparr>dw_position = rl_position l, dw_kappa = kappa, dw_guest = g,
              dw_resident_bytes = length (rl_content l), dw_running = False, dw_processed = 0\<rparr>)))
      | Resident \<Rightarrow>
          if \<not> wp_resident_root p then Some (Inl (Conflict ''resident Wasm provider has no actor root''))
          else
            bindT (guest_compile en kappa (rl_content l) (rl_entry l)) (\<lambda>g.
              Some (Inr (ResidentLayer \<lparr>rw_position = rl_position l, rw_mailbox_capacity = wp_mailbox_capacity p,
                rw_prepared = Some \<lparr>ra_guest = g, ra_actor_kappa = kappa\<rparr>, rw_actor = None,
                rw_prepared_poisoned = False, rw_actor_poisoned = False, rw_resident_bytes = length (rl_content l),
                rw_queued = 0, rw_processed = 0\<rparr>))))"

definition direct_start :: "direct_wasm \<Rightarrow> direct_wasm \<times> unit live_result" where
  "direct_start l = (l\<lparr>dw_running := True\<rparr>, Inr ())"

definition direct_invoke ::
  "'g wasm_engine \<Rightarrow> nat \<Rightarrow> direct_wasm \<Rightarrow> bytes list \<Rightarrow> (direct_wasm \<times> layer_invocation live_result) option"
where
  "direct_invoke en elapsed l inputs =
     (if \<not> dw_running l then Some (l, Inl (Conflict (''direct Wasm layer '' @ show_nat (dw_position l) @ '' is not running'')))
      else
        map_option (\<lambda>r. case r of
            Inl e \<Rightarrow> (l, Inl e)
          | Inr outs \<Rightarrow> (l\<lparr>dw_processed := (dw_processed l + 1) mod 2 ^ 64\<rparr>,
              Inr \<lparr>li_outputs = outs, li_completion = Returned, li_elapsed_micros = sat64 elapsed\<rparr>))
          (run_guest_inputs en (dw_guest l) (dw_kappa l) inputs))"

definition direct_stop :: "direct_wasm \<Rightarrow> direct_wasm \<times> unit live_result" where
  "direct_stop l = (l\<lparr>dw_running := False\<rparr>, Inr ())"

definition direct_status :: "direct_wasm \<Rightarrow> layer_runtime_status" where
  "direct_status l = \<lparr>lr_resident_bytes = dw_resident_bytes l, lr_queued = 0, lr_processed = dw_processed l\<rparr>"

definition lock_actor :: "resident_wasm \<Rightarrow> resident_actor option live_result" where
  "lock_actor l = (if rw_actor_poisoned l then Inl (Conflict ''resident Wasm actor lock poisoned'') else Inr (rw_actor l))"

definition resident_start :: "resident_wasm \<Rightarrow> resident_wasm \<times> unit live_result" where
  "resident_start l =
     (case lock_actor l of
        Inl e \<Rightarrow> (l, Inl e)
      | Inr (Some _) \<Rightarrow> (l, Inr ())
      | Inr None \<Rightarrow>
          if rw_prepared_poisoned l then (l, Inl (Conflict ''prepared Wasm layer lock poisoned''))
          else (case rw_prepared l of
                  None \<Rightarrow> (l, Inl (Conflict (''resident Wasm layer '' @ show_nat (rw_position l) @ '' has no prepared actor'')))
                | Some prepared \<Rightarrow> (l\<lparr>rw_prepared := None, rw_actor := Some prepared\<rparr>, Inr ())))"

text \<open>The handler of \<open>Run\<close>, and what becomes of a message: the actor library delivers it, or the actor is
  gone.\<close>

definition actor_run :: "'g wasm_engine \<Rightarrow> resident_actor \<Rightarrow> bytes list \<Rightarrow> bytes list live_result option" where
  "actor_run en a inputs = run_guest_inputs en (ra_guest a) (ra_actor_kappa a) inputs"

datatype ask_fate = AskDelivered nat | AskFailed string

definition resident_invoke ::
  "'g wasm_engine \<Rightarrow> ask_fate \<Rightarrow> resident_wasm \<Rightarrow> bytes list \<Rightarrow> (resident_wasm \<times> layer_invocation live_result) option"
where
  "resident_invoke en fate l inputs =
     (case bindE (lock_actor l) (ok_or (Conflict (''resident Wasm layer '' @ show_nat (rw_position l) @ '' is not running''))) of
        Inl e \<Rightarrow> Some (l, Inl e)
      | Inr a \<Rightarrow>
          (case fate of
             AskFailed e \<Rightarrow> Some (l, Inl (Conflict (''resident Wasm layer '' @ show_nat (rw_position l) @ '' is unavailable: '' @ e)))
           | AskDelivered elapsed \<Rightarrow>
               map_option (\<lambda>r. case r of
                   Inl e \<Rightarrow> (l, Inl e)
                 | Inr outs \<Rightarrow> (l\<lparr>rw_processed := (rw_processed l + 1) mod 2 ^ 64\<rparr>,
                     Inr \<lparr>li_outputs = outs, li_completion = Returned, li_elapsed_micros = sat64 elapsed\<rparr>))
                 (actor_run en a inputs)))"

definition resident_stop :: "resident_wasm \<Rightarrow> resident_wasm \<times> unit live_result" where
  "resident_stop l =
     (case lock_actor l of Inl e \<Rightarrow> (l, Inl e) | Inr _ \<Rightarrow> (l\<lparr>rw_actor := None\<rparr>, Inr ()))"

definition resident_status :: "resident_wasm \<Rightarrow> layer_runtime_status" where
  "resident_status l = \<lparr>lr_resident_bytes = rw_resident_bytes l, lr_queued = rw_queued l, lr_processed = rw_processed l\<rparr>"

text \<open>Execution without a layer.\<close>

definition execute_entry :: "'g wasm_engine \<Rightarrow> string \<Rightarrow> bytes \<Rightarrow> string \<Rightarrow> bytes list \<Rightarrow> bytes list live_result option" where
  "execute_entry en kappa wasm entry inputs =
     bindT (guest_compile en kappa wasm entry) (\<lambda>g. run_guest_inputs en g kappa inputs)"

definition execute_wasm :: "'g wasm_engine \<Rightarrow> string \<Rightarrow> bytes \<Rightarrow> bytes list \<Rightarrow> bytes list live_result option" where
  "execute_wasm en kappa wasm inputs = execute_entry en kappa wasm core_wasm_v1_default_entry inputs"

section \<open>Memory accesses\<close>

lemma output_pointer_unat: "unat (output_pointer packed) = unat packed div 2 ^ 32"
  by (simp add: output_pointer_def drop_bit_eq_div unat_div_distrib)

lemma output_pointer_small: "unat (output_pointer packed) < 2 ^ 32"
proof -
  have "unat packed < 2 ^ 64" using unsigned_less [of packed] by simp
  then show ?thesis unfolding output_pointer_unat by (simp add: less_mult_imp_div_less)
qed

lemma output_length_unat: "unat (output_length packed) = unat packed mod 2 ^ 32"
proof -
  have "(0xFFFFFFFF :: 64 word) = mask 32" by (simp add: mask_eq_exp_minus_1)
  then have "output_length packed = take_bit 32 packed" by (simp add: output_length_def take_bit_eq_mask)
  then show ?thesis by (simp add: take_bit_eq_mod unat_mod_distrib)
qed

text \<open>What a run that returns did: it wrote the input where the guest allocated it and read the range the
  guest named, both inside the memory of a fresh instance.\<close>

lemma core_run_once_ok:
  assumes "core_run_once en module kappa entry input = Some (Inr out)"
  obtains inst alloc run mem rest ptr mem' rest' packed where
    "we_instantiate en module = Some (Inr inst)" "contract_exports inst entry = Inr (alloc, run)" "length input < 2 ^ 31"
    "alloc (wi_vm inst) (of_nat (length input)) = Some ((mem, rest), Inr ptr)" "0 \<le> sint ptr" "nat (sint ptr) + length input \<le> length mem"
    "run (take (nat (sint ptr)) mem @ input @ drop (nat (sint ptr) + length input) mem, rest) ptr (of_nat (length input)) = Some ((mem', rest'), Inr packed)"
    "unat packed div 2 ^ 32 + unat packed mod 2 ^ 32 \<le> length mem'"
    "out = take (unat packed mod 2 ^ 32) (drop (unat packed div 2 ^ 32) mem')"
proof -
  obtain inst alloc run where i: "we_instantiate en module = Some (Inr inst)" "contract_exports inst entry = Inr (alloc, run)"
    using assms by (auto simp: core_run_once_def wasm_instantiate_def bindT_Inr)
  have len: "length input < 2 ^ 31" using assms i by (auto simp: core_run_once_def wasm_instantiate_def split: if_splits)
  obtain mem rest ptr where a: "alloc (wi_vm inst) (of_nat (length input)) = Some ((mem, rest), Inr ptr)"
    using assms i len by (auto simp: core_run_once_def wasm_instantiate_def split: option.splits sum.splits)
  have w: "0 \<le> sint ptr" "nat (sint ptr) + length input \<le> length mem"
    using assms i len a by (auto simp: core_run_once_def wasm_instantiate_def guest_offset_def memory_write_def bindT_Inr split: if_splits)
  obtain mem' rest' packed where r: "run (take (nat (sint ptr)) mem @ input @ drop (nat (sint ptr) + length input) mem, rest) ptr
      (of_nat (length input)) = Some ((mem', rest'), Inr packed)"
    using assms i len a w
    by (auto simp: core_run_once_def wasm_instantiate_def guest_offset_def memory_write_def split: option.splits sum.splits)
  have "memory_read (unat (output_pointer packed)) (unat (output_length packed)) mem' = Some out"
    using assms i len a w r output_pointer_small [of packed]
    by (simp add: core_run_once_def wasm_instantiate_def guest_offset_def memory_write_def)
  then show thesis using that [OF i len a w r]
    by (auto simp: memory_read_def output_pointer_unat output_length_unat split: if_splits)
qed

section \<open>Layers that serve batches\<close>

text \<open>The answer to a batch.\<close>

definition invocation_of :: "nat \<Rightarrow> bytes list live_result \<Rightarrow> layer_invocation live_result" where
  "invocation_of elapsed r =
     bindE r (\<lambda>outs. Inr \<lparr>li_outputs = outs, li_completion = Returned, li_elapsed_micros = sat64 elapsed\<rparr>)"

fun serve ::
  "('l \<Rightarrow> bytes list \<Rightarrow> ('l \<times> layer_invocation live_result) option) \<Rightarrow> 'l \<Rightarrow> bytes list list
     \<Rightarrow> ('l \<times> layer_invocation live_result list) option"
where
  "serve invoke l [] = Some (l, [])"
| "serve invoke l (b # bs) =
     (case invoke l b of
        None \<Rightarrow> None
      | Some (l', r) \<Rightarrow> map_option (\<lambda>(l'', rs). (l'', r # rs)) (serve invoke l' bs))"

definition count_ok :: "'a live_result list \<Rightarrow> nat" where
  "count_ok rs = length (filter is_ok rs)"

text \<open>A layer that is up runs its guest on each batch and counts the successes.\<close>

locale batch_server =
  fixes run :: "bytes list \<Rightarrow> bytes list live_result option" and elapsed :: nat
    and invoke :: "'l \<Rightarrow> bytes list \<Rightarrow> ('l \<times> layer_invocation live_result) option"
    and up :: "'l \<Rightarrow> bool" and processed :: "'l \<Rightarrow> nat" and set_processed :: "nat \<Rightarrow> 'l \<Rightarrow> 'l"
  assumes invoke_up: "up l \<Longrightarrow> invoke l b = map_option (\<lambda>r.
      (if is_ok r then set_processed ((processed l + 1) mod 2 ^ 64) l else l, invocation_of elapsed r)) (run b)"
    and up_set: "up l \<Longrightarrow> up (set_processed n l)"
    and processed_set: "processed (set_processed n l) = n"
    and set_set: "set_processed n (set_processed m l) = set_processed n l"
    and set_same: "set_processed (processed l) l = l"
begin

lemma served:
  "up l \<Longrightarrow> processed l < 2 ^ 64 \<Longrightarrow> serve invoke l bs =
     map_option (\<lambda>rs. (set_processed ((processed l + count_ok rs) mod 2 ^ 64) l, rs))
       (those (map (\<lambda>b. map_option (invocation_of elapsed) (run b)) bs))"
proof (induction bs arbitrary: l)
  case Nil
  then show ?case by (simp add: count_ok_def set_same)
next
  case (Cons b bs)
  show ?case
  proof (cases "run b")
    case None
    then show ?thesis using invoke_up [OF Cons.prems(1)] by simp
  next
    case (Some r)
    let ?l = "if is_ok r then set_processed ((processed l + 1) mod 2 ^ 64) l else l"
    have l: "up ?l" "processed ?l < 2 ^ 64" using Cons.prems up_set processed_set by auto
    have ok: "is_ok (invocation_of elapsed r) = is_ok r" by (cases r) (simp_all add: invocation_of_def)
    have "set_processed ((processed ?l + count_ok rs) mod 2 ^ 64) ?l
        = set_processed ((processed l + count_ok (invocation_of elapsed r # rs)) mod 2 ^ 64) l" for rs :: "layer_invocation live_result list"
      by (cases "is_ok r") (simp_all add: count_ok_def ok processed_set set_set mod_add_left_eq)
    then show ?thesis using Some invoke_up [OF Cons.prems(1), of b] Cons.IH [OF l]
      by (auto simp: option.map_comp comp_def intro: option.map_cong)
  qed
qed

end

abbreviation direct_up :: "core_guest \<Rightarrow> string \<Rightarrow> direct_wasm \<Rightarrow> bool" where
  "direct_up g kappa l \<equiv> dw_running l \<and> dw_guest l = g \<and> dw_kappa l = kappa"

abbreviation resident_up :: "core_guest \<Rightarrow> string \<Rightarrow> resident_wasm \<Rightarrow> bool" where
  "resident_up g kappa l \<equiv> \<not> rw_actor_poisoned l \<and> rw_actor l = Some \<lparr>ra_guest = g, ra_actor_kappa = kappa\<rparr>"

interpretation direct: batch_server "run_guest_inputs en g kappa" t "direct_invoke en t" "direct_up g kappa" dw_processed
  "\<lambda>n l. l\<lparr>dw_processed := n\<rparr>" for en :: "'g wasm_engine" and g kappa t
  by unfold_locales (auto simp: direct_invoke_def invocation_of_def is_ok_def split: sum.splits intro!: option.map_cong)

interpretation resident: batch_server "run_guest_inputs en g kappa" t "resident_invoke en (AskDelivered t)" "resident_up g kappa" rw_processed
  "\<lambda>n l. l\<lparr>rw_processed := n\<rparr>" for en :: "'g wasm_engine" and g kappa t
  by unfold_locales (auto simp: resident_invoke_def lock_actor_def actor_run_def invocation_of_def is_ok_def split: sum.splits intro!: option.map_cong)

section \<open>Both targets serve the same guest\<close>

text \<open>
  C22 A core Wasm guest behaves the same run directly and resident, and carries nothing from one input to
  the next. Preparing a layer for either target does not end, fails with the same error, or succeeds, in
  the same cases, decided by the entry name, the compiler and the guest contract. Once started, the two
  layers answer any sequence of batches alike, as long as the actor receives its messages: each answer is
  that of the guest run on the batch alone, whatever ran before and whether it failed; a batch answers
  with its first failure or with one output per input. After it, both layers report the same status, which
  counts the batches that succeeded.
\<close>
theorem wasm_layers_agree:
  assumes "px_target c = Direct"
  shows "case guest_compile en (archive_kappa (px_identity c)) (rl_content (px_layer c)) (rl_entry (px_layer c)) of
       None \<Rightarrow> wasm_prepare en wasm_direct c = None \<and> wasm_prepare en (wasm_resident True n) (c\<lparr>px_target := Resident\<rparr>) = None
     | Some (Inl e) \<Rightarrow> wasm_prepare en wasm_direct c = Some (Inl e)
         \<and> wasm_prepare en (wasm_resident True n) (c\<lparr>px_target := Resident\<rparr>) = Some (Inl e)
     | Some (Inr g) \<Rightarrow> (\<exists>d r. wasm_prepare en wasm_direct c = Some (Inr (DirectLayer d))
         \<and> wasm_prepare en (wasm_resident True n) (c\<lparr>px_target := Resident\<rparr>) = Some (Inr (ResidentLayer r))
         \<and> (\<forall>t bs. let answers = those (map (\<lambda>b. map_option (invocation_of t) (run_guest_inputs en g (archive_kappa (px_identity c)) b)) bs);
               status = (\<lambda>rs. \<lparr>lr_resident_bytes = length (rl_content (px_layer c)), lr_queued = 0,
                                lr_processed = count_ok rs mod 2 ^ 64\<rparr>) in
               map_option (map_prod direct_status id) (serve (direct_invoke en t) (fst (direct_start d)) bs)
                 = map_option (\<lambda>rs. (status rs, rs)) answers
               \<and> map_option (map_prod resident_status id) (serve (resident_invoke en (AskDelivered t)) (fst (resident_start r)) bs)
                 = map_option (\<lambda>rs. (status rs, rs)) answers))"
proof (cases "guest_compile en (archive_kappa (px_identity c)) (rl_content (px_layer c)) (rl_entry (px_layer c))")
  case (Some res)
  show ?thesis
  proof (cases res)
    case (Inr g)
    let ?k = "archive_kappa (px_identity c)" and ?l = "px_layer c"
    let ?d = "\<lparr>dw_position = rl_position ?l, dw_kappa = ?k, dw_guest = g, dw_resident_bytes = length (rl_content ?l),
       dw_running = False, dw_processed = 0\<rparr>"
    let ?r = "\<lparr>rw_position = rl_position ?l, rw_mailbox_capacity = max n 1, rw_prepared = Some \<lparr>ra_guest = g, ra_actor_kappa = ?k\<rparr>,
       rw_actor = None, rw_prepared_poisoned = False, rw_actor_poisoned = False, rw_resident_bytes = length (rl_content ?l),
       rw_queued = 0, rw_processed = 0\<rparr>"
    have "wasm_prepare en wasm_direct c = Some (Inr (DirectLayer ?d))"
      "wasm_prepare en (wasm_resident True n) (c\<lparr>px_target := Resident\<rparr>) = Some (Inr (ResidentLayer ?r))"
      using assms Some Inr by (simp_all add: wasm_prepare_def wasm_direct_def wasm_resident_def Let_def)
    moreover have up: "direct_up g ?k (fst (direct_start ?d))" "resident_up g ?k (fst (resident_start ?r))"
      by (simp_all add: direct_start_def resident_start_def lock_actor_def)
    have "map_option (map_prod direct_status id) (serve (direct_invoke en t) (fst (direct_start ?d)) bs)
        = map_option (\<lambda>rs. (\<lparr>lr_resident_bytes = length (rl_content ?l), lr_queued = 0, lr_processed = count_ok rs mod 2 ^ 64\<rparr>, rs))
            (those (map (\<lambda>b. map_option (invocation_of t) (run_guest_inputs en g ?k b)) bs))" for t bs
      by (subst direct.served [OF up(1)]) (auto simp: option.map_comp comp_def direct_status_def direct_start_def)
    moreover have "map_option (map_prod resident_status id) (serve (resident_invoke en (AskDelivered t)) (fst (resident_start ?r)) bs)
        = map_option (\<lambda>rs. (\<lparr>lr_resident_bytes = length (rl_content ?l), lr_queued = 0, lr_processed = count_ok rs mod 2 ^ 64\<rparr>, rs))
            (those (map (\<lambda>b. map_option (invocation_of t) (run_guest_inputs en g ?k b)) bs))" for t bs
      by (subst resident.served [OF up(2)]) (auto simp: option.map_comp comp_def resident_status_def resident_start_def lock_actor_def)
    ultimately show ?thesis using Some Inr unfolding Let_def by auto
  qed (use assms Some in \<open>simp add: wasm_prepare_def wasm_direct_def wasm_resident_def\<close>)
qed (use assms in \<open>simp add: wasm_prepare_def wasm_direct_def wasm_resident_def\<close>)


section \<open>A guest that echoes\<close>

definition echo_engine :: "unit wasm_engine" where
  "echo_engine = \<lparr>we_module = Inr,
     we_instantiate = (\<lambda>_. Some (Inr \<lparr>wi_vm = ([0, 0, 0, 0], ()), wi_memory = True, wi_alloc = Some (\<lambda>vm _. Some (vm, Inr 1)),
       wi_entry = (\<lambda>e. if e = core_wasm_v1_default_entry then Some (\<lambda>vm ptr len. Some (vm, Inr 0x0000000100000002)) else None)\<rparr>)),
     we_out_of_bounds = ''out of bounds memory access''\<rparr>"

definition echo_context :: layer_prepare_context where
  "echo_context = \<lparr>px_identity = \<lparr>archive_kappa = ''a'', archive_fingerprint = '''', application_kappa = ''b''\<rparr>,
     px_grant = local_baseline sample_space, px_requested = \<lparr>co_kappa = '''', co_canonical = [], co_capabilities = empty_capabilities\<rparr>,
     px_layer = \<lparr>rl_position = 0, rl_kind = WasmCodemodule, rl_content_kappa = '''', rl_entry = ''holo_run'', rl_aux = '''', rl_primary = True,
       rl_content = [7], rl_resolution_source = Embedded, rl_provider = ''''\<rparr>,
     px_target = Direct, px_intents = 0\<rparr>"

lemma echo_compile: "guest_compile echo_engine kappa wasm ''holo_run'' = Some (Inr \<lparr>cg_module = wasm, cg_entry = ''holo_run''\<rparr>)"
  by (simp add: guest_compile_def validate_entry_name_def byte_of_def validate_contract_def wasm_instantiate_def contract_exports_def echo_engine_def
      core_wasm_v1_default_entry_def)

lemma echo_run:
  "run_guest_inputs echo_engine \<lparr>cg_module = wasm, cg_entry = ''holo_run''\<rparr> kappa [[8, 9]] = Some (Inr [[8, 9]])"
proof -
  have "sint (1 :: 32 word) = 1" by simp
  moreover have "unat (output_pointer 0x0000000100000002) = 1" "unat (output_length 0x0000000100000002) = 2"
    unfolding output_pointer_unat output_length_unat by simp_all
  ultimately show ?thesis
    by (simp add: core_run_once_def wasm_instantiate_def contract_exports_def echo_engine_def core_wasm_v1_default_entry_def guest_offset_def
        memory_write_def memory_read_def)
qed

theorem wasm_layers_agree_witness:
  "\<exists>r. wasm_prepare echo_engine (wasm_resident True 4) (echo_context\<lparr>px_target := Resident\<rparr>) = Some (Inr (ResidentLayer r))
     \<and> map_option (map_prod resident_status id)
         (serve (resident_invoke echo_engine (AskDelivered 3)) (fst (resident_start r)) [[[8, 9]]])
       = Some (\<lparr>lr_resident_bytes = 1, lr_queued = 0, lr_processed = 1\<rparr>, [Inr \<lparr>li_outputs = [[8, 9]], li_completion = Returned, li_elapsed_micros = 3\<rparr>])"
proof -
  have "px_target echo_context = Direct" by (simp add: echo_context_def)
  note w = wasm_layers_agree [OF this, of echo_engine 4]
  have c: "rl_entry (px_layer echo_context) = ''holo_run''" by (simp add: echo_context_def)
  obtain r where r: "wasm_prepare echo_engine (wasm_resident True 4) (echo_context\<lparr>px_target := Resident\<rparr>) = Some (Inr (ResidentLayer r))"
    "map_option (map_prod resident_status id) (serve (resident_invoke echo_engine (AskDelivered 3)) (fst (resident_start r)) [[[8, 9]]])
      = map_option (\<lambda>rs. (\<lparr>lr_resident_bytes = length (rl_content (px_layer echo_context)), lr_queued = 0, lr_processed = count_ok rs mod 2 ^ 64\<rparr>, rs))
          (those (map (\<lambda>b. map_option (invocation_of 3) (run_guest_inputs echo_engine
             \<lparr>cg_module = rl_content (px_layer echo_context), cg_entry = ''holo_run''\<rparr> (archive_kappa (px_identity echo_context)) b)) [[[8, 9]]]))"
    using w unfolding c echo_compile option.case sum.case Let_def by blast
  moreover have "length (rl_content (px_layer echo_context)) = 1" by (simp add: echo_context_def)
  ultimately show ?thesis
    by (intro exI [of _ r] conjI r(1), unfold r(2)) (simp del: run_guest_inputs.simps add: echo_run invocation_of_def count_ok_def sat64_def)
qed

end
