(* ===== verification/View_Bundle.thy ===== *)
theory View_Bundle
  imports Errors
begin

text \<open>
  The payload of a portable View layer (\<open>src/holo_view.rs\<close>): a binary bundle of asset files with its
  encoder, its decoder over a bounds-checked reader, the validation both share, and the compilation of
  a directory. Lengths are numbers with their limits written out; a \<open>usize\<close> has 64 bits. A directory tree
  is a datatype with the failures the operating system may report at every node.
\<close>

section \<open>Format\<close>

definition view_magic :: bytes where
  "view_magic = map (\<lambda>c. of_nat (byte_of c)) ''HOLOVIEW''"

definition view_bundle_version :: nat where "view_bundle_version = 1"
definition portable_surface :: string where "portable_surface = ''portable''"
definition portable_entry :: string where "portable_entry = ''index.html''"
definition max_view_files :: nat where "max_view_files = 4096"
definition max_path_bytes :: nat where "max_path_bytes = 1024"
definition max_file_bytes :: nat where "max_file_bytes = 64 * 1024 * 1024"
definition max_bundle_bytes :: nat where "max_bundle_bytes = 256 * 1024 * 1024"

lemmas view_limits = view_bundle_version_def portable_surface_def portable_entry_def max_view_files_def max_path_bytes_def
  max_file_bytes_def max_bundle_bytes_def

record view_file =
  vf_path :: string
  vf_bytes :: bytes

record view_bundle =
  vb_version :: nat
  vb_entry :: string
  vb_files :: "view_file list"

definition invalid :: "string \<Rightarrow> live_error" where
  "invalid m = InvalidHolo m"

definition validate_surface :: "string \<Rightarrow> unit live_result" where
  "validate_surface surface =
     (if surface = portable_surface then Inr ()
      else Inl (Config (''unsupported View surface '' @ debug_str surface @ ''; expected '' @ debug_str portable_surface)))"

section \<open>Paths\<close>

text \<open>\<open>Path::components\<close> on Unix: repeated and trailing separators and inner dots disappear.\<close>

datatype path_component = RootDir | CurDir | ParentDir | Normal string

definition segment_component :: "string \<Rightarrow> path_component list" where
  "segment_component s = (if s = [] \<or> s = ''.'' then [] else if s = ''..'' then [ParentDir] else [Normal s])"

definition path_components :: "string \<Rightarrow> path_component list" where
  "path_components p =
     (if starts_with ''/'' p then [RootDir] else if hd (split_on (CHR ''/'') p) = ''.'' then [CurDir] else [])
     @ concat (map segment_component (split_on (CHR ''/'') p))"

definition ascii_lower :: "char \<Rightarrow> char" where
  "ascii_lower c = (if is_ascii_uppercase c then char_of (byte_of c + 32) else c)"

definition ascii_upper :: "char \<Rightarrow> char" where
  "ascii_upper c = (if is_ascii_lowercase c then char_of (byte_of c - 32) else c)"

definition component_valid :: "string \<Rightarrow> bool" where
  "component_valid c \<longleftrightarrow> c \<noteq> [] \<and> c \<noteq> ''.'' \<and> c \<noteq> ''..'' \<and> last c \<noteq> CHR ''.''
     \<and> list_all (\<lambda>x. is_ascii_alphanumeric x \<or> x \<in> {CHR ''-'', CHR ''_'', CHR ''.''}) c"

definition component_reserved :: "string \<Rightarrow> bool" where
  "component_reserved c =
     (let stem = map ascii_upper (case split_once (CHR ''.'') c of Some (s, _) \<Rightarrow> s | None \<Rightarrow> c);
          number = (case strip_prefix ''COM'' stem of Some n \<Rightarrow> Some n | None \<Rightarrow> strip_prefix ''LPT'' stem) in
      stem \<in> {''CON'', ''PRN'', ''AUX'', ''NUL''}
      \<or> (case number of Some n \<Rightarrow> n \<in> {''1'', ''2'', ''3'', ''4'', ''5'', ''6'', ''7'', ''8'', ''9''} | None \<Rightarrow> False))"

definition validate_component :: "string \<Rightarrow> string \<Rightarrow> unit live_result" where
  "validate_component path c =
     (if component_valid c \<and> \<not> component_reserved c then Inr ()
      else Inl (Config (''View asset path '' @ path @ '' contains non-portable component '' @ debug_str c)))"

fun portable_component :: "string \<Rightarrow> path_component \<Rightarrow> string live_result" where
  "portable_component path (Normal part) =
     (if \<not> utf8_valid (map byte_of part) then Inl (Config (''View asset path '' @ path @ '' is not valid UTF-8''))
      else bindE (validate_component path part) (\<lambda>_. Inr part))"
| "portable_component path _ = Inl (Config (''View asset path '' @ path @ '' is not relative and normalized''))"

definition portable_path :: "string \<Rightarrow> string live_result" where
  "portable_path path =
     bindE (mapE (portable_component path) (path_components path)) (\<lambda>parts.
       let logical = join_with ''/'' parts in
       if logical = [] \<or> length logical > max_path_bytes
       then Inl (Config (''View asset path '' @ path @ '' must contain 1..='' @ show_nat max_path_bytes @ '' bytes''))
       else Inr logical)"

section \<open>Validation\<close>

definition bundle_error :: "bool \<Rightarrow> string \<Rightarrow> live_error" where
  "bundle_error archive m = (if archive then invalid m else Config m)"

fun validate_files ::
  "bool \<Rightarrow> string \<Rightarrow> string option \<Rightarrow> string list \<Rightarrow> bool \<Rightarrow> nat \<Rightarrow> view_file list \<Rightarrow> (bool \<times> nat) live_result"
where
  "validate_files archive entry previous folded has_entry acc [] = Inr (has_entry, acc)"
| "validate_files archive entry previous folded has_entry acc (f # fs) =
     bindE (map_err (\<lambda>_. bundle_error archive ''invalid View asset path'') (portable_path (vf_path f))) (\<lambda>_.
       if (case previous of Some v \<Rightarrow> v \<ge> vf_path f | None \<Rightarrow> False)
       then Inl (bundle_error archive ''View assets must be strictly lexically ordered'')
       else if map ascii_lower (vf_path f) \<in> set folded
       then Inl (bundle_error archive ''View assets contain a case-insensitive path collision'')
       else if length (vf_bytes f) > max_file_bytes then Inl (bundle_error archive ''View asset exceeds the format limit'')
       else bindE (ok_or (bundle_error archive ''View bundle byte length overflowed'') (checked_add64 acc (length (vf_bytes f)))) (\<lambda>acc'.
         validate_files archive entry (Some (vf_path f)) (map ascii_lower (vf_path f) # folded) (has_entry \<or> vf_path f = entry) acc' fs))"

definition validate_bundle :: "view_bundle \<Rightarrow> bool \<Rightarrow> unit live_result" where
  "validate_bundle v archive =
     (if vb_version v \<noteq> view_bundle_version then Inl (bundle_error archive ''unsupported View bundle version'')
      else if vb_entry v \<noteq> portable_entry then Inl (bundle_error archive ''View bundle entry must be index.html'')
      else if vb_files v = [] \<or> length (vb_files v) > max_view_files
      then Inl (bundle_error archive ''View bundle file count is outside the format limit'')
      else bindE (validate_files archive (vb_entry v) None [] False 0 (vb_files v)) (\<lambda>(has_entry, acc).
        if acc > max_bundle_bytes then Inl (bundle_error archive ''View bundle exceeds the format limit'')
        else if \<not> has_entry then Inl (bundle_error archive ''View bundle is missing index.html'')
        else Inr ()))"

section \<open>Encoding\<close>

text \<open>\<open>to_be_bytes\<close> and \<open>from_be_bytes\<close> for an integer of \<open>n\<close> bytes.\<close>

fun be_bytes :: "nat \<Rightarrow> nat \<Rightarrow> bytes" where
  "be_bytes 0 x = []"
| "be_bytes (Suc n) x = be_bytes n (x div 256) @ [of_nat (x mod 256)]"

definition from_be :: "bytes \<Rightarrow> nat" where
  "from_be b = foldl (\<lambda>a x. a * 256 + unat x) 0 b"

definition write_len :: "nat \<Rightarrow> string \<Rightarrow> bytes live_result" where
  "write_len n description = (if n > u32_max then Inl (Config (description @ '' is too large'')) else Inr (be_bytes 4 n))"

definition encode_view_file :: "view_file \<Rightarrow> bytes live_result" where
  "encode_view_file f =
     bindE (write_len (length (vf_path f)) ''View asset path'') (\<lambda>n.
       Inr (n @ string_bytes (vf_path f) @ be_bytes 8 (length (vf_bytes f)) @ vf_bytes f))"

definition view_encode :: "view_bundle \<Rightarrow> bytes live_result" where
  "view_encode v =
     bindE (validate_bundle v False) (\<lambda>_.
     bindE (write_len (length (vb_entry v)) ''View entry path'') (\<lambda>e.
     bindE (write_len (length (vb_files v)) ''View file count'') (\<lambda>c.
     bindE (mapE encode_view_file (vb_files v)) (\<lambda>fs.
       Inr (view_magic @ be_bytes 2 (vb_version v) @ e @ string_bytes (vb_entry v) @ c @ concat fs)))))"

section \<open>Decoding\<close>

text \<open>The reader is the bytes it has not yet taken.\<close>

definition reader_take :: "nat \<Rightarrow> bytes \<Rightarrow> (bytes \<times> bytes) live_result" where
  "reader_take n r = (if n \<le> length r then Inr (take n r, drop n r) else Inl (invalid ''truncated View bundle''))"

definition reader_uint :: "nat \<Rightarrow> bytes \<Rightarrow> (nat \<times> bytes) live_result" where
  "reader_uint n r = bindE (reader_take n r) (\<lambda>(x, r'). Inr (from_be x, r'))"

definition reader_string :: "bytes \<Rightarrow> (string \<times> bytes) live_result" where
  "reader_string r =
     bindE (reader_uint 4 r) (\<lambda>(n, r').
       if n = 0 \<or> n > max_path_bytes then Inl (invalid ''View string length is outside the format limit'')
       else bindE (reader_take n r') (\<lambda>(x, r'').
         if utf8_valid (map unat x) then Inr (bytes_string x, r'') else Inl (invalid ''View path is not valid UTF-8'')))"

fun decode_view_files :: "nat \<Rightarrow> nat \<Rightarrow> bytes \<Rightarrow> (view_file list \<times> bytes) live_result" where
  "decode_view_files 0 acc r = Inr ([], r)"
| "decode_view_files (Suc k) acc r =
     bindE (reader_string r) (\<lambda>(path, r1).
     bindE (reader_uint 8 r1) (\<lambda>(n, r2).
       if n > max_file_bytes then Inl (invalid ''View asset exceeds the format limit'')
       else case checked_add64 acc n of
         None \<Rightarrow> Inl (invalid ''View bundle exceeds the format limit'')
       | Some acc' \<Rightarrow>
           if acc' > max_bundle_bytes then Inl (invalid ''View bundle exceeds the format limit'')
           else bindE (reader_take n r2) (\<lambda>(x, r3).
             bindE (decode_view_files k acc' r3) (\<lambda>(fs, r4). Inr (\<lparr>vf_path = path, vf_bytes = x\<rparr> # fs, r4)))))"

definition view_decode :: "bytes \<Rightarrow> view_bundle live_result" where
  "view_decode b =
     bindE (reader_take (length view_magic) b) (\<lambda>(m, r0).
       if m \<noteq> view_magic then Inl (invalid ''invalid View bundle magic'')
       else bindE (reader_uint 2 r0) (\<lambda>(version, r1).
            bindE (reader_string r1) (\<lambda>(entry, r2).
            bindE (reader_uint 4 r2) (\<lambda>(count, r3).
              if count > max_view_files then Inl (invalid ''View file count exceeds the format limit'')
              else bindE (decode_view_files count 0 r3) (\<lambda>(files, r4).
                if r4 \<noteq> [] then Inl (invalid ''View bundle has trailing bytes'')
                else let v = \<lparr>vb_version = version, vb_entry = entry, vb_files = files\<rparr> in
                  bindE (validate_bundle v True) (\<lambda>_. Inr v))))))"

section \<open>Compiling a directory\<close>

text \<open>A node of the file system as the walk finds it: a regular file with the length its metadata
  gives and what reading it gives; a failure to list or to stat.\<close>

datatype view_node =
    Regular nat "string + bytes"
  | Directory "view_entry list"
  | Unlisted string
  | Symlink
  | Special
  | NoMetadata string
and view_entry =
    Entry string view_node
  | EntryFailed string

record view_walk =
  vw_files :: "(string \<times> bytes) list"
  vw_folded :: "string list"
  vw_sum :: nat

definition display_path :: "string \<Rightarrow> string list \<Rightarrow> string" where
  "display_path root rel = root @ concat (map (\<lambda>n. ''/'' @ n) rel)"

definition collect_file :: "string \<Rightarrow> string list \<Rightarrow> nat \<Rightarrow> string + bytes \<Rightarrow> view_walk \<Rightarrow> view_walk live_result" where
  "collect_file root rel len content st =
     (let path = display_path root rel in
      if length (vw_files st) \<ge> max_view_files then Inl (Config (''View bundle exceeds the '' @ show_nat max_view_files @ ''-file limit''))
      else if len > max_file_bytes then Inl (Config (''View asset '' @ path @ '' exceeds the '' @ show_nat max_file_bytes @ ''-byte limit''))
      else bindE (ok_or (Config ''View bundle byte length overflowed'') (checked_add64 (vw_sum st) len)) (\<lambda>acc'.
        if acc' > max_bundle_bytes then Inl (Config (''View bundle exceeds the '' @ show_nat max_bundle_bytes @ ''-byte limit''))
        else bindE (portable_path (join_with ''/'' rel)) (\<lambda>logical.
          if map ascii_lower logical \<in> set (vw_folded st)
          then Inl (Config (''View bundle contains case-insensitive path collision at '' @ debug_str logical))
          else bindE (map_err (error_io path) content) (\<lambda>b.
            Inr \<lparr>vw_files = AList.update logical b (vw_files st), vw_folded = map ascii_lower logical # vw_folded st, vw_sum = acc'\<rparr>))))"

fun collect_node :: "string \<Rightarrow> string list \<Rightarrow> view_node \<Rightarrow> view_walk \<Rightarrow> view_walk live_result"
and collect_entries :: "string \<Rightarrow> string list \<Rightarrow> view_entry list \<Rightarrow> view_walk \<Rightarrow> view_walk live_result" where
  "collect_node root rel (NoMetadata e) st = Inl (error_io (display_path root rel) e)"
| "collect_node root rel Symlink st = Inl (Config (''View bundles do not permit symlinks: '' @ display_path root rel))"
| "collect_node root rel (Unlisted e) st = Inl (error_io (display_path root rel) e)"
| "collect_node root rel (Directory es) st = collect_entries root rel es st"
| "collect_node root rel Special st = Inl (Config (''View bundles contain only regular files: '' @ display_path root rel))"
| "collect_node root rel (Regular len content) st = collect_file root rel len content st"
| "collect_entries root rel [] st = Inr st"
| "collect_entries root rel (EntryFailed e # es) st = Inl (error_io (display_path root rel) e)"
| "collect_entries root rel (Entry name node # es) st =
     bindE (collect_node root (rel @ [name]) node st) (collect_entries root rel es)"

definition compile_directory :: "string \<Rightarrow> view_node \<Rightarrow> bytes live_result" where
  "compile_directory root node =
     (case node of
        NoMetadata e \<Rightarrow> Inl (error_io root e)
      | Directory _ \<Rightarrow>
          bindE (collect_node root [] node \<lparr>vw_files = [], vw_folded = [], vw_sum = 0\<rparr>) (\<lambda>st.
            if portable_entry \<notin> fst ` set (vw_files st)
            then Inl (Config (''View bundle '' @ root @ '' must contain '' @ portable_entry))
            else view_encode \<lparr>vb_version = view_bundle_version, vb_entry = portable_entry,
                   vb_files = map (\<lambda>(p, b). \<lparr>vf_path = p, vf_bytes = b\<rparr>) (sort_key fst (vw_files st))\<rparr>)
      | Unlisted e \<Rightarrow> Inl (error_io root e)
      | _ \<Rightarrow> Inl (Config (''View layer path '' @ root @ '' must be a directory, not a file or symlink'')))"

section \<open>Big-endian integers and the reader\<close>

lemma length_be_bytes [simp]: "length (be_bytes n x) = n"
  by (induction n arbitrary: x) auto

lemma from_be_snoc: "from_be (b @ [y]) = from_be b * 256 + unat y"
  by (simp add: from_be_def)

lemma from_be_be: "x < 256 ^ n \<Longrightarrow> from_be (be_bytes n x) = x"
proof (induction n arbitrary: x)
  case (Suc n)
  then have "x div 256 < 256 ^ n" by (simp add: div_less_iff_less_mult mult.commute)
  moreover have "unat (of_nat (x mod 256) :: 8 word) = x mod 256" by (simp add: unsigned_of_nat take_bit_eq_mod)
  ultimately show ?case using Suc.IH by (simp add: from_be_snoc)
qed (simp add: from_be_def)

lemma be_from: "be_bytes (length b) (from_be b) = b"
proof (induction b rule: rev_induct)
  case (snoc y b)
  have "(from_be b * 256 + unat y) div 256 = from_be b" "(from_be b * 256 + unat y) mod 256 = unat y"
    using unat_byte_less [of y] by simp_all
  then show ?case using snoc by (simp add: from_be_snoc)
qed simp

lemma from_be_less: "from_be b < 256 ^ length b"
proof (induction b rule: rev_induct)
  case (snoc y b)
  then have "from_be b + 1 \<le> 256 ^ length b" by simp
  then have "(from_be b + 1) * 256 \<le> 256 ^ length b * 256" by (rule mult_le_mono1)
  then show ?case using unat_byte_less [of y] by (simp add: from_be_snoc)
qed (simp add: from_be_def)

lemma reader_take_iff: "reader_take n r = Inr (a, r') \<longleftrightarrow> r = a @ r' \<and> length a = n"
  by (auto simp: reader_take_def)

lemma reader_uint_iff: "reader_uint n r = Inr (x, r') \<longleftrightarrow> x < 256 ^ n \<and> r = be_bytes n x @ r'"
proof
  assume "reader_uint n r = Inr (x, r')"
  then obtain a where "r = a @ r'" "length a = n" "x = from_be a" by (auto simp: reader_uint_def bindE_eq_Inr reader_take_iff)
  then show "x < 256 ^ n \<and> r = be_bytes n x @ r'" using from_be_less [of a] be_from [of a] by simp
next
  assume "x < 256 ^ n \<and> r = be_bytes n x @ r'"
  then have "reader_take n r = Inr (be_bytes n x, r')" "from_be (be_bytes n x) = x" by (simp_all add: reader_take_iff from_be_be)
  then show "reader_uint n r = Inr (x, r')" by (simp add: reader_uint_def)
qed

lemma reader_string_iff:
  "reader_string r = Inr (s, r') \<longleftrightarrow> 0 < length s \<and> length s \<le> max_path_bytes \<and> utf8_valid (map byte_of s)
     \<and> r = be_bytes 4 (length s) @ string_bytes s @ r'"
proof
  assume "reader_string r = Inr (s, r')"
  then obtain n r1 x where "reader_uint 4 r = Inr (n, r1)" "n \<noteq> 0" "n \<le> max_path_bytes" "reader_take n r1 = Inr (x, r')" "utf8_valid (map unat x)"
    "s = bytes_string x"
    by (auto simp: reader_string_def bindE_eq_Inr split: if_splits)
  then show "0 < length s \<and> length s \<le> max_path_bytes \<and> utf8_valid (map byte_of s) \<and> r = be_bytes 4 (length s) @ string_bytes s @ r'"
    using string_bytes_inverse(3) [of "bytes_string x", symmetric]
    by (auto simp: reader_uint_iff reader_take_iff string_bytes_inverse(2,4,5))
next
  assume a: "0 < length s \<and> length s \<le> max_path_bytes \<and> utf8_valid (map byte_of s) \<and> r = be_bytes 4 (length s) @ string_bytes s @ r'"
  then have "reader_uint 4 r = Inr (length s, string_bytes s @ r')" by (simp add: reader_uint_iff max_path_bytes_def)
  moreover have "reader_take (length s) (string_bytes s @ r') = Inr (string_bytes s, r')" by (simp add: reader_take_iff string_bytes_inverse)
  ultimately show "reader_string r = Inr (s, r')" using a by (simp add: reader_string_def string_bytes_inverse)
qed

section \<open>Layout\<close>

definition file_layout :: "view_file \<Rightarrow> bytes" where
  "file_layout f = be_bytes 4 (length (vf_path f)) @ string_bytes (vf_path f) @ be_bytes 8 (length (vf_bytes f)) @ vf_bytes f"

definition bundle_layout :: "view_bundle \<Rightarrow> bytes" where
  "bundle_layout v = view_magic @ be_bytes 2 (vb_version v) @ be_bytes 4 (length (vb_entry v)) @ string_bytes (vb_entry v)
     @ be_bytes 4 (length (vb_files v)) @ concat (map file_layout (vb_files v))"

definition file_readable :: "view_file \<Rightarrow> bool" where
  "file_readable f \<longleftrightarrow> 0 < length (vf_path f) \<and> length (vf_path f) \<le> max_path_bytes \<and> utf8_valid (map byte_of (vf_path f))
     \<and> length (vf_bytes f) \<le> max_file_bytes"

definition files_size :: "view_file list \<Rightarrow> nat" where
  "files_size fs = sum_list (map (\<lambda>f. length (vf_bytes f)) fs)"

lemma files_size_simps [simp]: "files_size [] = 0" "files_size (f # fs) = length (vf_bytes f) + files_size fs"
  by (simp_all add: files_size_def)

lemma checked_add_some: "checked_add64 a b = Some c \<longleftrightarrow> c = a + b \<and> a + b \<le> u64_max"
  by (auto simp: checked_add64_def)

lemma decode_files_iff:
  "acc \<le> max_bundle_bytes \<Longrightarrow>
     decode_view_files k acc r = Inr (fs, r') \<longleftrightarrow> length fs = k \<and> r = concat (map file_layout fs) @ r' \<and> list_all file_readable fs
       \<and> acc + files_size fs \<le> max_bundle_bytes"
proof (induction k arbitrary: acc r fs)
  case (Suc k)
  show ?case
  proof
    assume "decode_view_files (Suc k) acc r = Inr (fs, r')"
    then obtain p r1 n r2 x r3 gs where s: "reader_string r = Inr (p, r1)" "reader_uint 8 r1 = Inr (n, r2)" "n \<le> max_file_bytes"
      "checked_add64 acc n = Some (acc + n)" "acc + n \<le> max_bundle_bytes" "reader_take n r2 = Inr (x, r3)"
      "decode_view_files k (acc + n) r3 = Inr (gs, r')" "fs = \<lparr>vf_path = p, vf_bytes = x\<rparr> # gs"
      by (auto simp: bindE_eq_Inr checked_add_some split: if_splits option.splits)
    from s(7) Suc.IH [OF s(5)] have "length gs = k" "r3 = concat (map file_layout gs) @ r'" "list_all file_readable gs"
      "acc + n + files_size gs \<le> max_bundle_bytes" by simp_all
    then show "length fs = Suc k \<and> r = concat (map file_layout fs) @ r' \<and> list_all file_readable fs \<and> acc + files_size fs \<le> max_bundle_bytes"
      using s(1-3,6,8) by (auto simp: reader_string_iff reader_uint_iff reader_take_iff file_layout_def file_readable_def)
  next
    assume a: "length fs = Suc k \<and> r = concat (map file_layout fs) @ r' \<and> list_all file_readable fs \<and> acc + files_size fs \<le> max_bundle_bytes"
    then obtain f gs where f: "fs = f # gs" "length gs = k" by (cases fs) auto
    let ?r3 = "concat (map file_layout gs) @ r'" and ?n = "length (vf_bytes f)"
    have "reader_string r = Inr (vf_path f, be_bytes 8 ?n @ vf_bytes f @ ?r3)"
      using a f by (simp add: reader_string_iff file_layout_def file_readable_def)
    moreover have "reader_uint 8 (be_bytes 8 ?n @ vf_bytes f @ ?r3) = Inr (?n, vf_bytes f @ ?r3)"
      using a f by (simp add: reader_uint_iff file_readable_def max_file_bytes_def)
    moreover have "checked_add64 acc ?n = Some (acc + ?n)" "acc + ?n \<le> max_bundle_bytes" "?n \<le> max_file_bytes"
      using a f by (simp_all add: checked_add_some file_readable_def max_bundle_bytes_def)
    moreover have "reader_take ?n (vf_bytes f @ ?r3) = Inr (vf_bytes f, ?r3)" by (simp add: reader_take_iff)
    moreover have "decode_view_files k (acc + ?n) ?r3 = Inr (gs, r')" using Suc.IH [of "acc + ?n" ?r3 gs] a f by simp
    moreover have "checked_add64 acc ?n = Some (acc + ?n)" by fact
    ultimately show "decode_view_files (Suc k) acc r = Inr (fs, r')" unfolding decode_view_files.simps
      by (simp only: bindE_Inr prod.case option.case) (simp add: f)
  qed
qed auto

section \<open>What validation accepts\<close>

definition bundle_ok :: "view_bundle \<Rightarrow> bool" where
  "bundle_ok v \<longleftrightarrow> vb_version v = 1 \<and> vb_entry v = ''index.html'' \<and> length (vb_files v) \<le> 4096
     \<and> ''index.html'' \<in> vf_path ` set (vb_files v)
     \<and> (\<forall>f \<in> set (vb_files v). is_ok (portable_path (vf_path f)) \<and> length (vf_bytes f) \<le> max_file_bytes)
     \<and> sorted_wrt (<) (map vf_path (vb_files v)) \<and> distinct (map (\<lambda>f. map ascii_lower (vf_path f)) (vb_files v))
     \<and> files_size (vb_files v) \<le> max_bundle_bytes"

lemma sorted_wrt_two: "sorted_wrt (<) (a # b # xs) \<longleftrightarrow> a < b \<and> sorted_wrt (<) (b # xs)" for a :: "'a :: order"
  by (auto dest: less_trans)

lemma validate_files_iff:
  "acc + length fs * max_file_bytes \<le> u64_max \<Longrightarrow>
   validate_files archive entry previous folded has_entry acc fs = Inr (h, n) \<longleftrightarrow>
     (\<forall>f \<in> set fs. is_ok (portable_path (vf_path f)) \<and> length (vf_bytes f) \<le> max_file_bytes)
     \<and> sorted_wrt (<) ((case previous of Some p \<Rightarrow> [p] | None \<Rightarrow> []) @ map vf_path fs)
     \<and> distinct (map (\<lambda>f. map ascii_lower (vf_path f)) fs) \<and> (\<lambda>f. map ascii_lower (vf_path f)) ` set fs \<inter> set folded = {}
     \<and> h = (has_entry \<or> entry \<in> vf_path ` set fs) \<and> n = acc + files_size fs"
proof (induction fs arbitrary: previous folded has_entry acc)
  case Nil
  then show ?case by (auto split: option.splits)
next
  case (Cons f fs)
  let ?p = "vf_path f" and ?n = "length (vf_bytes f)"
  have step: "validate_files archive entry previous folded has_entry acc (f # fs) = Inr (h, n) \<longleftrightarrow>
      is_ok (portable_path ?p) \<and> (case previous of Some q \<Rightarrow> q < ?p | None \<Rightarrow> True) \<and> map ascii_lower ?p \<notin> set folded
      \<and> ?n \<le> max_file_bytes
      \<and> validate_files archive entry (Some ?p) (map ascii_lower ?p # folded) (has_entry \<or> ?p = entry) (acc + ?n) fs = Inr (h, n)"
    if "?n \<le> max_file_bytes \<longrightarrow> acc + ?n \<le> u64_max"
  proof -
    have n: "?n \<le> max_file_bytes \<Longrightarrow> checked_add64 acc ?n = Some (acc + ?n)" using that by (simp add: checked_add64_def)
    show ?thesis
      by (cases "portable_path ?p"; cases previous; cases "?n \<le> max_file_bytes") (simp_all only: validate_files.simps map_err_Inl map_err_Inr
         bindE_Inl bindE_Inr n ok_or_Some option.case is_ok_simps, simp_all flip: not_le)
  qed
  have fits: "?n \<le> max_file_bytes \<longrightarrow> acc + ?n \<le> u64_max \<and> acc + ?n + length fs * max_file_bytes \<le> u64_max"
    using Cons.prems by auto
  show ?case
  proof (cases "?n \<le> max_file_bytes")
    case False
    then show ?thesis using step by auto
  next
    case True
    then have le: "acc + ?n \<le> u64_max" "acc + ?n + length fs * max_file_bytes \<le> u64_max" using fits by simp_all
    have ord: "sorted_wrt (<) ((case previous of Some q \<Rightarrow> [q] | None \<Rightarrow> []) @ map vf_path (f # fs))
        \<longleftrightarrow> (case previous of Some q \<Rightarrow> q < ?p | None \<Rightarrow> True) \<and> sorted_wrt (<) (?p # map vf_path fs)"
      by (cases previous) (simp_all only: option.case append_Nil append_Cons list.map sorted_wrt_two simp_thms)
    show ?thesis unfolding step [OF impI, OF le(1)] Cons.IH [OF le(2)] ord by (auto simp: True)
  qed
qed

lemma validate_bundle_iff: "validate_bundle v archive = Inr () \<longleftrightarrow> bundle_ok v"
proof (cases "vb_version v = 1 \<and> vb_entry v = ''index.html'' \<and> vb_files v \<noteq> [] \<and> length (vb_files v) \<le> 4096")
  case False
  then show ?thesis by (auto simp: validate_bundle_def bundle_ok_def view_limits)
next
  case True
  have "length (vb_files v) * max_file_bytes \<le> 4096 * max_file_bytes" using True by (intro mult_le_mono1) simp
  then have "0 + length (vb_files v) * max_file_bytes \<le> u64_max" by (simp add: max_file_bytes_def)
  from validate_files_iff [OF this, of archive "vb_entry v" None "[]" False] show ?thesis
    using True by (auto simp: validate_bundle_def bundle_ok_def view_bundle_version_def portable_entry_def max_view_files_def bindE_eq_Inr
        not_less split: prod.splits)
qed

section \<open>Portable paths are ASCII\<close>

lemma component_ascii: "component_valid c \<Longrightarrow> x \<in> set c \<Longrightarrow> byte_of x < 128"
  by (auto simp: component_valid_def list_all_iff byte_class_defs)

lemma set_segments: "set p \<subseteq> insert (CHR ''/'') (\<Union> (set ` set (split_on (CHR ''/'') p)))"
proof (induction p)
  case (Cons x xs)
  then show ?case by (cases "split_on (CHR ''/'') xs") auto
qed simp

lemma portable_path_ok:
  assumes "is_ok (portable_path p)"
  shows "p \<noteq> []" "list_all (\<lambda>c. byte_of c < 128) p"
proof -
  obtain parts where parts: "mapE (portable_component p) (path_components p) = Inr parts" "join_with ''/'' parts \<noteq> []"
    using assms by (auto simp: portable_path_def is_ok_iff bindE_eq_Inr Let_def split: if_splits)
  then have comp: "c \<in> set (path_components p) \<Longrightarrow> \<exists>s. c = Normal s \<and> component_valid s" for c
    by (cases c) (auto simp: mapE_eq_Inr list_all2_conv_all_nth in_set_conv_nth bindE_eq_Inr validate_component_def split: if_splits)
  show "p \<noteq> []"
  proof
    assume "p = []"
    then have "path_components p = []" by (simp add: path_components_def segment_component_def starts_with_def)
    then show False using parts by simp
  qed
  have "byte_of x < 128" if "s \<in> set (split_on (CHR ''/'') p)" "x \<in> set s" for s x
  proof (cases "s \<in> {[], ''.'', ''..''}")
    case True
    then show ?thesis using that(2) by (auto simp: byte_of_def)
  next
    case False
    then have "Normal s \<in> set (path_components p)" using that(1) by (auto simp: path_components_def segment_component_def)
    then show ?thesis using comp component_ascii that(2) by blast
  qed
  then show "list_all (\<lambda>c. byte_of c < 128) p" using set_segments [of p] by (fastforce simp: list_all_iff byte_of_def)
qed

section \<open>The format is canonical\<close>

definition short_paths :: "view_bundle \<Rightarrow> bool" where
  "short_paths v \<longleftrightarrow> list_all (\<lambda>f. length (vf_path f) \<le> 1024) (vb_files v)"

lemma encode_files_iff:
  "mapE encode_view_file fs = Inr bs \<longleftrightarrow> list_all (\<lambda>f. length (vf_path f) \<le> u32_max) fs \<and> bs = map file_layout fs"
  by (induction fs arbitrary: bs) (auto simp: encode_view_file_def write_len_def file_layout_def bindE_eq_Inr split: if_splits)

lemma view_encode_iff:
  "view_encode v = Inr b \<longleftrightarrow> bundle_ok v \<and> list_all (\<lambda>f. length (vf_path f) \<le> u32_max) (vb_files v) \<and> b = bundle_layout v"
proof -
  have "bundle_ok v \<Longrightarrow> write_len (length (vb_entry v)) d = Inr (be_bytes 4 (length (vb_entry v)))
      \<and> write_len (length (vb_files v)) d' = Inr (be_bytes 4 (length (vb_files v)))" for d d'
    by (simp add: bundle_ok_def write_len_def)
  then show ?thesis
    using validate_bundle_iff [of v False] by (auto simp: view_encode_def bindE_eq_Inr encode_files_iff bundle_layout_def)
qed

lemma view_decode_iff: "view_decode b = Inr v \<longleftrightarrow> bundle_ok v \<and> short_paths v \<and> b = bundle_layout v"
proof
  assume "view_decode b = Inr v"
  then obtain r0 version r1 entry r2 count r3 files where d: "reader_take (length view_magic) b = Inr (view_magic, r0)"
    "reader_uint 2 r0 = Inr (version, r1)" "reader_string r1 = Inr (entry, r2)" "reader_uint 4 r2 = Inr (count, r3)"
    "decode_view_files count 0 r3 = Inr (files, [])" "v = \<lparr>vb_version = version, vb_entry = entry, vb_files = files\<rparr>" "validate_bundle v True = Inr ()"
    by (auto simp: view_decode_def bindE_eq_Inr Let_def split: if_splits)
  have "bundle_ok v" using d(7) validate_bundle_iff by simp
  moreover have fs: "length files = count \<and> r3 = concat (map file_layout files) \<and> list_all file_readable files"
    using d(5) decode_files_iff [of 0 count r3 files "[]"] by simp
  moreover have "short_paths v" using fs d(6) by (auto simp: short_paths_def list_all_iff file_readable_def max_path_bytes_def)
  ultimately show "bundle_ok v \<and> short_paths v \<and> b = bundle_layout v"
    using d(1-4,6) by (simp add: reader_take_iff reader_uint_iff reader_string_iff bundle_layout_def)
next
  assume a: "bundle_ok v \<and> short_paths v \<and> b = bundle_layout v"
  let ?fs = "concat (map file_layout (vb_files v))"
  have 1: "reader_uint 2 (be_bytes 2 (vb_version v) @ r) = Inr (vb_version v, r)" for r using a by (simp add: reader_uint_iff bundle_ok_def)
  have "utf8_valid (map byte_of ''index.html'')" by code_simp
  then have 2: "reader_string (be_bytes 4 (length (vb_entry v)) @ string_bytes (vb_entry v) @ r) = Inr (vb_entry v, r)" for r
    using a by (simp add: reader_string_iff bundle_ok_def max_path_bytes_def)
  have 3: "reader_uint 4 (be_bytes 4 (length (vb_files v)) @ r) = Inr (length (vb_files v), r)" for r
    using a by (simp add: reader_uint_iff bundle_ok_def)
  have "list_all file_readable (vb_files v)"
    using a portable_path_ok utf8_ascii by (auto simp: bundle_ok_def short_paths_def list_all_iff file_readable_def max_path_bytes_def)
  then have 4: "decode_view_files (length (vb_files v)) 0 ?fs = Inr (vb_files v, [])"
    using a decode_files_iff [of 0 "length (vb_files v)" ?fs "vb_files v" "[]"] by (simp add: bundle_ok_def)
  have 5: "validate_bundle v True = Inr ()" using a validate_bundle_iff by simp
  have 6: "reader_take (length view_magic) (view_magic @ r) = Inr (view_magic, r)" for r by (simp add: reader_take_iff)
  have "length (vb_files v) \<le> max_view_files" using a by (simp add: bundle_ok_def max_view_files_def)
  then have "view_decode b = bindE (validate_bundle w True) (\<lambda>_. Inr w)" if "w = \<lparr>vb_version = vb_version v, vb_entry = vb_entry v, vb_files = vb_files v\<rparr>" for w
    using a 4 that by (simp add: view_decode_def bundle_layout_def 1 2 3 6 Let_def)
  from this [of v] show "view_decode b = Inr v" using 5 by simp
qed

text \<open>
  C36 The View bundle format is canonical. A byte string decodes to a bundle exactly when the bundle
  encodes to it and its paths are at most 1024 bytes long: decoding inverts encoding, no two byte
  strings decode to the same bundle, and nothing is accepted that would not be written. What decodes is
  within the limits: at most 4096 files of at most 64 MiB, 256 MiB together, strictly ordered by path
  with no two equal but for case, and index.html among them. The path check looks at the components
  of a path, not at its text, so a path with a trailing separator passes beside the path without it.
\<close>
theorem view_bundle_canonical:
  "(view_decode b = Inr v \<longleftrightarrow> view_encode v = Inr b \<and> list_all (\<lambda>f. length (vf_path f) \<le> 1024) (vb_files v))
   \<and> (view_decode b = Inr v \<longrightarrow>
        vb_version v = 1 \<and> length (vb_files v) \<le> 4096 \<and> ''index.html'' \<in> vf_path ` set (vb_files v)
        \<and> (\<forall>f \<in> set (vb_files v). length (vf_bytes f) \<le> 67108864) \<and> sum_list (map (\<lambda>f. length (vf_bytes f)) (vb_files v)) \<le> 268435456
        \<and> sorted_wrt (<) (map vf_path (vb_files v)) \<and> distinct (map (\<lambda>f. map ascii_lower (vf_path f)) (vb_files v)))
   \<and> (\<exists>b v. view_decode b = Inr v \<and> map vf_path (vb_files v) = [''index.html'', ''index.html/''])"
proof (intro conjI impI)
  show "view_decode b = Inr v \<longleftrightarrow> view_encode v = Inr b \<and> list_all (\<lambda>f. length (vf_path f) \<le> 1024) (vb_files v)"
  proof -
    have "short_paths v \<Longrightarrow> list_all (\<lambda>f. length (vf_path f) \<le> u32_max) (vb_files v)" by (auto simp: short_paths_def list_all_iff)
    then show ?thesis unfolding view_decode_iff view_encode_iff by (auto simp: short_paths_def)
  qed
next
  let ?v = "\<lparr>vb_version = 1, vb_entry = ''index.html'', vb_files = [\<lparr>vf_path = ''index.html'', vf_bytes = []\<rparr>, \<lparr>vf_path = ''index.html/'', vf_bytes = []\<rparr>]\<rparr>"
  have "is_ok (portable_path ''index.html'')" "is_ok (portable_path ''index.html/'')" by code_simp+
  then have "bundle_ok ?v" by (simp add: bundle_ok_def ascii_lower_def byte_class_defs)
  then have "view_decode (bundle_layout ?v) = Inr ?v" by (simp add: view_decode_iff short_paths_def)
  then show "\<exists>b v. view_decode b = Inr v \<and> map vf_path (vb_files v) = [''index.html'', ''index.html/'']" by fastforce
qed (auto simp: view_decode_iff bundle_ok_def max_file_bytes_def max_bundle_bytes_def files_size_def)

theorem view_bundle_canonical_witness:
  "\<exists>b. view_decode b = Inr \<lparr>vb_version = 1, vb_entry = ''index.html'', vb_files = [\<lparr>vf_path = ''index.html'', vf_bytes = [60, 62]\<rparr>]\<rparr>
     \<and> view_encode \<lparr>vb_version = 1, vb_entry = ''index.html'', vb_files = [\<lparr>vf_path = ''index.html'', vf_bytes = [60, 62]\<rparr>]\<rparr> = Inr b"
proof -
  let ?v = "\<lparr>vb_version = 1, vb_entry = ''index.html'', vb_files = [\<lparr>vf_path = ''index.html'', vf_bytes = [60, 62]\<rparr>]\<rparr>"
  have "is_ok (portable_path ''index.html'')" by code_simp
  then have e: "view_encode ?v = Inr (bundle_layout ?v)" by (simp add: view_encode_iff bundle_ok_def max_file_bytes_def max_bundle_bytes_def)
  then have "view_decode (bundle_layout ?v) = Inr ?v" using view_bundle_canonical [of "bundle_layout ?v" ?v] by simp
  then show ?thesis using e by blast
qed

section \<open>Compiling a directory\<close>

text \<open>The regular files of a tree, and whether the walk meets nothing it refuses.\<close>

fun tree_files :: "string list \<Rightarrow> view_node \<Rightarrow> (string list \<times> (string + bytes)) list"
and entry_files :: "string list \<Rightarrow> view_entry list \<Rightarrow> (string list \<times> (string + bytes)) list" where
  "tree_files rel (Directory es) = entry_files rel es"
| "tree_files rel (Regular len content) = [(rel, content)]"
| "tree_files rel _ = []"
| "entry_files rel [] = []"
| "entry_files rel (EntryFailed e # es) = entry_files rel es"
| "entry_files rel (Entry name node # es) = tree_files (rel @ [name]) node @ entry_files rel es"

fun tree_plain :: "view_node \<Rightarrow> bool" and entries_plain :: "view_entry list \<Rightarrow> bool" where
  "tree_plain (Directory es) = entries_plain es"
| "tree_plain (Regular len content) = is_ok content"
| "tree_plain _ = False"
| "entries_plain [] = True"
| "entries_plain (EntryFailed e # es) = False"
| "entries_plain (Entry name node # es) = (tree_plain node \<and> entries_plain es)"

definition walk_ok :: "view_walk \<Rightarrow> bool" where
  "walk_ok st \<longleftrightarrow> set (vw_folded st) = map ascii_lower ` fst ` set (vw_files st) \<and> distinct (map fst (vw_files st))
     \<and> list_all (\<lambda>(p, b). length p \<le> 1024) (vw_files st)"

definition logical_file :: "string list \<times> (string + bytes) \<Rightarrow> string \<times> bytes \<Rightarrow> bool" where
  "logical_file x y \<longleftrightarrow> portable_path (join_with ''/'' (fst x)) = Inr (fst y) \<and> snd x = Inr (snd y)"

lemma alist_update_new: "k \<notin> fst ` set al \<Longrightarrow> AList.update k x al = al @ [(k, x)]"
  by (induction al) auto

lemma collect_file_ok:
  assumes "collect_file root rel len content st = Inr st'" "walk_ok st"
  shows "walk_ok st' \<and> is_ok content \<and> (\<exists>y. vw_files st' = vw_files st @ [y] \<and> logical_file (rel, content) y)"
proof -
  obtain logical b acc where c: "portable_path (join_with ''/'' rel) = Inr logical" "map ascii_lower logical \<notin> set (vw_folded st)" "content = Inr b"
    "st' = \<lparr>vw_files = AList.update logical b (vw_files st), vw_folded = map ascii_lower logical # vw_folded st, vw_sum = acc\<rparr>"
    using assms(1) by (auto simp: collect_file_def Let_def bindE_eq_Inr split: if_splits)
  have new: "logical \<notin> fst ` set (vw_files st)" using c(2) assms(2) by (auto simp: walk_ok_def)
  have "length logical \<le> 1024" using c(1) by (auto simp: portable_path_def bindE_eq_Inr Let_def max_path_bytes_def split: if_splits)
  then show ?thesis using c new assms(2) by (auto simp: walk_ok_def alist_update_new logical_file_def)
qed

lemma collect_ok:
  "collect_node root rel node st = Inr st' \<Longrightarrow> walk_ok st \<Longrightarrow>
     walk_ok st' \<and> tree_plain node \<and> (\<exists>ys. vw_files st' = vw_files st @ ys \<and> list_all2 logical_file (tree_files rel node) ys)"
  "collect_entries root rel es st = Inr st' \<Longrightarrow> walk_ok st \<Longrightarrow>
     walk_ok st' \<and> entries_plain es \<and> (\<exists>ys. vw_files st' = vw_files st @ ys \<and> list_all2 logical_file (entry_files rel es) ys)"
proof (induction root rel node st and root rel es st arbitrary: st' and st' rule: collect_node_collect_entries.induct)
  case (6 root rel len content st)
  then show ?case using collect_file_ok [of root rel len content st st'] by auto
next
  case (9 root rel name node es st)
  then obtain st1 where s: "collect_node root (rel @ [name]) node st = Inr st1" "collect_entries root rel es st1 = Inr st'"
    by (auto simp: bindE_eq_Inr)
  from 9(1) [OF s(1) 9(4)] obtain ys where a: "walk_ok st1" "tree_plain node" "vw_files st1 = vw_files st @ ys"
    "list_all2 logical_file (tree_files (rel @ [name]) node) ys" by blast
  from 9(2) [OF s(2) a(1)] obtain zs where b: "walk_ok st'" "entries_plain es" "vw_files st' = vw_files st1 @ zs"
    "list_all2 logical_file (entry_files rel es) zs" by blast
  show ?case using a b by (auto intro!: exI [of _ "ys @ zs"] list_all2_appendI)
qed auto

text \<open>
  Compiling a directory into a View. A directory compiles only when its whole tree is directories and
  readable regular files: a symbolic link, a special file or a failure anywhere refuses it. The bytes it
  gives decode, to exactly the regular files of the tree, each under its portable path with the bytes
  that were read, ordered by path.
\<close>
theorem view_compile_exact:
  assumes "compile_directory root node = Inr b"
  shows "tree_plain node \<and> (\<exists>v. view_decode b = Inr v \<and> sorted_wrt (<) (map vf_path (vb_files v))
     \<and> (\<exists>ys. list_all2 logical_file (tree_files [] node) ys \<and> set (map (\<lambda>f. (vf_path f, vf_bytes f)) (vb_files v)) = set ys
          \<and> length (vb_files v) = length (tree_files [] node)))"
proof -
  obtain es st where d: "node = Directory es" "collect_node root [] node \<lparr>vw_files = [], vw_folded = [], vw_sum = 0\<rparr> = Inr st"
    and e: "view_encode \<lparr>vb_version = view_bundle_version, vb_entry = portable_entry,
                   vb_files = map (\<lambda>(p, b). \<lparr>vf_path = p, vf_bytes = b\<rparr>) (sort_key fst (vw_files st))\<rparr> = Inr b" (is "view_encode ?v = _")
    using assms by (auto simp: compile_directory_def bindE_eq_Inr split: view_node.splits if_splits)
  have "walk_ok \<lparr>vw_files = [], vw_folded = [], vw_sum = 0\<rparr>" by (simp add: walk_ok_def)
  from collect_ok(1) [OF d(2) this] have w: "walk_ok st" "tree_plain node" "list_all2 logical_file (tree_files [] node) (vw_files st)" by auto
  have "short_paths ?v" using w(1) by (auto simp: short_paths_def walk_ok_def list_all_iff)
  then have dec: "view_decode b = Inr ?v" using e by (auto simp: view_decode_iff view_encode_iff)
  have "set (map (\<lambda>f. (vf_path f, vf_bytes f)) (vb_files ?v)) = set (vw_files st)" by (force simp: split_beta image_iff)
  moreover have "length (vb_files ?v) = length (tree_files [] node)" using list_all2_lengthD [OF w(3)] by simp
  moreover have "sorted_wrt (<) (map vf_path (vb_files ?v))" using e by (simp add: view_encode_iff bundle_ok_def)
  ultimately show ?thesis using w dec by blast
qed

theorem view_compile_exact_witness:
  "\<exists>b v. compile_directory ''r'' (Directory [Entry ''css'' (Directory [Entry ''a.css'' (Regular 1 (Inr [7]))]), Entry ''index.html'' (Regular 2 (Inr [8, 9]))]) = Inr b
     \<and> view_decode b = Inr v \<and> length (vb_files v) = 2"
proof -
  let ?t = "Directory [Entry ''css'' (Directory [Entry ''a.css'' (Regular 1 (Inr [7]))]), Entry ''index.html'' (Regular 2 (Inr [8, 9]))]"
  have p: "portable_path ''css/a.css'' = Inr ''css/a.css''" "portable_path ''index.html'' = Inr ''index.html''" by code_simp+
  have "is_ok (compile_directory ''r'' ?t)"
    using p by (simp add: compile_directory_def collect_file_def Let_def view_limits checked_add64_def is_ok_iff view_encode_iff bundle_ok_def
        ascii_lower_def byte_class_defs)
  then obtain b where b: "compile_directory ''r'' ?t = Inr b" by (auto simp: is_ok_iff)
  from view_compile_exact [OF b] b show ?thesis by auto
qed

end
