(* ===== verification/Python_Runtime.thy ===== *)
theory Python_Runtime
  imports Holo_Lifecycle View_Bundle
begin

text \<open>
  The Python runtime (\<open>src/holo_python.rs\<close>): the checks of a Python source, the bundle around an image
  archive, and its execution through the Docker command line. Docker is outside this repository: every
  command may answer anything, depending on the commands before it. The build of an image is modelled
  by the pure functions it is made of.
\<close>

section \<open>Constants\<close>

definition python_magic :: bytes where
  "python_magic = string_bytes ''HOLOPYR2''"

definition bundle_schema_version :: nat where "bundle_schema_version = 3"
definition bundle_provider :: string where "bundle_provider = ''normalized-docker-archive-zstd-v1''"
definition max_metadata_bytes :: nat where "max_metadata_bytes = 64 * 1024"
definition max_input_bytes :: nat where "max_input_bytes = 16 * 1024 * 1024"
definition max_output_bytes :: nat where "max_output_bytes = 16 * 1024 * 1024"
definition max_diagnostic_bytes :: nat where "max_diagnostic_bytes = 64 * 1024"
definition max_image_bytes :: nat where "max_image_bytes = 2 * 1024 * 1024 * 1024"
definition run_timeout_secs :: nat where "run_timeout_secs = 30"

section \<open>Sources\<close>

definition valid_identifier :: "string \<Rightarrow> bool" where
  "valid_identifier v =
     (case v of
        [] \<Rightarrow> False
      | c # cs \<Rightarrow> (c = CHR ''_'' \<or> (is_ascii_alphanumeric c \<and> \<not> is_ascii_digit c))
          \<and> list_all (\<lambda>x. x = CHR ''_'' \<or> is_ascii_alphanumeric x) cs)"

definition valid_module :: "string \<Rightarrow> bool" where
  "valid_module v = (v \<noteq> [] \<and> list_all valid_identifier (split_on (CHR ''.'') v))"

definition validate_entry :: "string \<Rightarrow> unit live_result" where
  "validate_entry entry =
     (case split_once (CHR '':'') entry of
        None \<Rightarrow> Inl (Config ''Python entry must use module:function syntax'')
      | Some (module, function') \<Rightarrow>
          if \<not> valid_module module \<or> \<not> valid_identifier function'
          then Inl (Config (''invalid Python entry '' @ entry @ ''; expected module.path:function''))
          else Inr ())"

definition validate_base :: "string \<Rightarrow> unit live_result" where
  "validate_base base =
     (if base = [] \<or> starts_with ''-'' base
         \<or> \<not> list_all (\<lambda>c. is_ascii_alphanumeric c \<or> c \<in> set ''-._/:@'') base
      then Inl (Config (''invalid Python OCI base image '' @ base)) else Inr ())"

text \<open>\<open>rsplit_once\<close> with a string: at its last occurrence.\<close>

fun rsplit_once_str :: "string \<Rightarrow> string \<Rightarrow> (string \<times> string) option" where
  "rsplit_once_str pat [] = (if pat = [] then Some ([], []) else None)"
| "rsplit_once_str pat (x # xs) =
     (case rsplit_once_str pat xs of
        Some (a, b) \<Rightarrow> Some (x # a, b)
      | None \<Rightarrow> map_option (\<lambda>rest. ([], rest)) (strip_prefix pat (x # xs)))"

definition digest_pinned_base :: "string \<Rightarrow> bool" where
  "digest_pinned_base base =
     (case rsplit_once_str ''@sha256:'' base of
        None \<Rightarrow> False
      | Some (_, digest) \<Rightarrow> length digest = 64 \<and> list_all (\<lambda>c. is_ascii_hexdigit c \<and> \<not> is_ascii_uppercase c) digest)"

definition valid_image_id :: "string \<Rightarrow> bool" where
  "valid_image_id i =
     (case strip_prefix ''sha256:'' i of None \<Rightarrow> False | Some digest \<Rightarrow> length digest = 64 \<and> list_all is_ascii_hexdigit digest)"

text \<open>\<open>os_arch\<close> is the architecture the program was compiled for.\<close>

definition host_arch :: "string \<Rightarrow> string live_result" where
  "host_arch os_arch =
     (if os_arch = ''arm64'' \<or> os_arch = ''aarch64'' then Inr ''arm64''
      else if os_arch = ''x86_64'' \<or> os_arch = ''amd64'' then Inr ''x86_64''
      else Inl (Capability (''Python rootfs execution is unsupported on host architecture '' @ os_arch)))"

definition normalize_arch :: "string \<Rightarrow> string \<Rightarrow> string live_result" where
  "normalize_arch os_arch arch =
     (if arch = ''host'' then host_arch os_arch
      else if arch = ''arm64'' \<or> arch = ''aarch64'' then Inr ''arm64''
      else if arch = ''x86_64'' \<or> arch = ''amd64'' then Inr ''x86_64''
      else Inl (Config (''unsupported Python rootfs architecture '' @ arch @ ''; expected host, arm64, or x86_64'')))"

definition docker_platform :: "string \<Rightarrow> string \<Rightarrow> string live_result" where
  "docker_platform os_arch arch =
     bindE (normalize_arch os_arch arch) (\<lambda>a. Inr (if a = ''arm64'' then ''linux/arm64'' else ''linux/amd64''))"

datatype python_profile = RootfsProfile | WasiComponent

record python_source =
  py_project :: string
  py_entry :: string
  py_lock :: string
  py_profile :: python_profile
  py_base :: string

definition validate_source :: "string \<Rightarrow> python_source \<Rightarrow> string option \<Rightarrow> unit live_result" where
  "validate_source os_arch s arch =
     (if py_profile s \<noteq> RootfsProfile then Inl (Config ''Python source currently supports only the rootfs profile'')
      else
        bindE (validate_entry (py_entry s)) (\<lambda>_.
        bindE (validate_base (py_base s)) (\<lambda>_.
        bindE (bindE (ok_or (Config ''Python rootfs layers require arch'') arch) (normalize_arch os_arch)) (\<lambda>_.
        if starts_with ''/'' (py_project s) \<or> starts_with ''/'' (py_lock s)
        then Inl (Config ''Python project and lock paths must be relative to hologram.json'')
        else Inr ()))))"

definition docker_build_args :: "string \<Rightarrow> string \<Rightarrow> string \<Rightarrow> string \<Rightarrow> bool \<Rightarrow> string list" where
  "docker_build_args platform image_tag dockerfile source_date_epoch no_build_cache =
     [''build'', ''--platform'', platform, ''--tag'', image_tag, ''--file'', dockerfile, ''--build-arg'', source_date_epoch,
      ''--provenance=false''] @ (if no_build_cache then [''--no-cache''] else []) @ [''.'']"

definition base_repository :: "string \<Rightarrow> string" where
  "base_repository base =
     (let without_digest = (case split_once (CHR ''@'') base of Some (repository, _) \<Rightarrow> repository | None \<Rightarrow> base) in
      case rfind (CHR '':'') without_digest of
        Some tag_separator \<Rightarrow>
          if (case rfind (CHR ''/'') without_digest of Some slash \<Rightarrow> tag_separator > slash | None \<Rightarrow> True)
          then take tag_separator without_digest else without_digest
      | None \<Rightarrow> without_digest)"

text \<open>\<open>manifest_schema\<close> reads the schema version of a registry manifest, \<open>sha256_hex\<close> is the digest.\<close>

definition resolved_base_reference ::
  "(bytes \<Rightarrow> string + nat) \<Rightarrow> (bytes \<Rightarrow> string) \<Rightarrow> string \<Rightarrow> bytes \<Rightarrow> string live_result"
where
  "resolved_base_reference manifest_schema sha256_hex base manifest =
     (if manifest = [] then Inl (Protocol (''Docker returned an empty registry manifest for '' @ base))
      else
        bindE (map_err (\<lambda>e. Protocol (''Docker returned an invalid registry manifest for '' @ base @ '': '' @ e)) (manifest_schema manifest)) (\<lambda>v.
        if v \<noteq> 2 then Inl (Protocol (''Docker returned unsupported registry manifest schema '' @ show_nat v @ '' for '' @ base @ ''; expected 2''))
        else Inr (base_repository base @ ''@sha256:'' @ sha256_hex manifest)))"

section \<open>Bundles\<close>

record bundle_metadata =
  bm_schema_version :: nat
  bm_provider :: string
  bm_image_tag :: string
  bm_image_id :: "string option"
  bm_entry :: string
  bm_arch :: string
  bm_image_uncompressed_bytes :: nat

text \<open>The JSON form of the metadata is derived code over \<open>serde_json\<close>.\<close>

record metadata_codec =
  mc_encode :: "bundle_metadata \<Rightarrow> bytes"
  mc_decode :: "bytes \<Rightarrow> string + bundle_metadata"

definition le_bytes :: "nat \<Rightarrow> nat \<Rightarrow> bytes" where
  "le_bytes n x = rev (be_bytes n x)"

definition le_val :: "bytes \<Rightarrow> nat" where
  "le_val b = from_be (rev b)"

definition encode_bundle :: "metadata_codec \<Rightarrow> bundle_metadata \<Rightarrow> bytes \<Rightarrow> bytes live_result" where
  "encode_bundle mc metadata img =
     (let encoded = mc_encode mc metadata in
      if length encoded > max_metadata_bytes then Inl (Config ''Python rootfs metadata exceeds its size limit'')
      else if length encoded \<ge> 2 ^ 32 then Inl (Config ''Python rootfs metadata is too large'')
      else Inr (python_magic @ le_bytes 4 (length encoded) @ encoded @ img))"

definition is_python_rootfs :: "bytes \<Rightarrow> bool" where
  "is_python_rootfs b = (take (length python_magic) b = python_magic)"

definition decode_bundle :: "string \<Rightarrow> metadata_codec \<Rightarrow> bytes \<Rightarrow> (bundle_metadata \<times> bytes) live_result" where
  "decode_bundle os_arch mc bundle =
     (if length bundle < length python_magic + 4 \<or> \<not> is_python_rootfs bundle
      then Inl (InvalidHolo ''rootfs payload is not a Hologram Python OCI bundle'')
      else
        let start = length python_magic + 4; len = le_val (take 4 (drop (length python_magic) bundle)) in
        if len > max_metadata_bytes \<or> start + len \<ge> length bundle then Inl (InvalidHolo ''invalid Python rootfs metadata boundary'')
        else
          bindE (map_err (\<lambda>e. InvalidHolo (''decode Python metadata: '' @ e)) (mc_decode mc (take len (drop start bundle)))) (\<lambda>m.
          if bm_schema_version m \<noteq> bundle_schema_version \<or> bm_provider m \<noteq> bundle_provider
          then Inl (Capability (''unsupported Python rootfs provider '' @ bm_provider m @ '' schema '' @ show_nat (bm_schema_version m)))
          else
            bindE (map_err (\<lambda>e. InvalidHolo (error_message e)) (validate_entry (bm_entry m))) (\<lambda>_.
            bindE (map_err (\<lambda>e. InvalidHolo (error_message e)) (normalize_arch os_arch (bm_arch m))) (\<lambda>_.
            if \<not> (case bm_image_id m of Some i \<Rightarrow> valid_image_id i | None \<Rightarrow> False)
            then Inl (InvalidHolo ''Python rootfs bundle is missing a valid Docker image ID'')
            else if bm_image_uncompressed_bytes m = 0 \<or> bm_image_uncompressed_bytes m > max_image_bytes
            then Inl (InvalidHolo (''invalid Python OCI image size '' @ show_nat (bm_image_uncompressed_bytes m)))
            else Inr (m, drop (start + len) bundle)))))"

definition validate_bundle_metadata :: "string \<Rightarrow> bundle_metadata \<Rightarrow> string \<Rightarrow> string \<Rightarrow> string live_result" where
  "validate_bundle_metadata os_arch m layer_entry layer_arch =
     (if bm_entry m \<noteq> layer_entry then
        Inl (InvalidHolo (''Python rootfs entry '' @ bm_entry m @ '' does not match layer entry '' @ layer_entry))
      else
        bindE (normalize_arch os_arch layer_arch) (\<lambda>arch.
        if bm_arch m \<noteq> arch then
          Inl (InvalidHolo (''Python rootfs architecture '' @ bm_arch m @ '' does not match layer architecture '' @ arch))
        else
          bindE (host_arch os_arch) (\<lambda>host.
          if arch \<noteq> host then
            Inl (Capability (''Python rootfs requires '' @ arch @ '', but this host is '' @ host @ ''; compile for the host architecture''))
          else Inr arch)))"

definition validate_bundle_for_layer :: "string \<Rightarrow> metadata_codec \<Rightarrow> bytes \<Rightarrow> string \<Rightarrow> string \<Rightarrow> unit live_result" where
  "validate_bundle_for_layer os_arch mc bundle layer_entry layer_arch =
     bindE (decode_bundle os_arch mc bundle) (\<lambda>(m, _).
     bindE (validate_bundle_metadata os_arch m layer_entry layer_arch) (\<lambda>_. Inr ()))"

section \<open>Docker\<close>

text \<open>The result of a finished command; the error text is what \<open>from_utf8_lossy\<close> makes of its bytes.\<close>

record command_output =
  ou_success :: bool
  ou_stdout :: bytes
  ou_stderr :: string

datatype container_end =
    NotStarted string
  | WriteFailed string
  | WaitFailed string
  | ReadFailed string
  | WorkerGone
  | TimedOut
  | ContainerExited bool bytes string

datatype docker_event =
    DockerCommand "string list"
  | ImageLoaded bytes
  | ContainerRun "string list" bytes

type_synonym docker_trace = "docker_event list"

text \<open>\<open>dk_load\<close> is an image load from a temporary file, whose creation and writing may fail first;
  \<open>dk_decompress\<close> reads the compressed image up to a limit.\<close>

record docker_world =
  dk_command :: "docker_trace \<Rightarrow> string list \<Rightarrow> string + command_output"
  dk_prepare_load :: "docker_trace \<Rightarrow> unit live_result"
  dk_load :: "docker_trace \<Rightarrow> bytes \<Rightarrow> string + command_output"
  dk_run :: "docker_trace \<Rightarrow> string list \<Rightarrow> bytes \<Rightarrow> container_end"
  dk_decompress :: "bytes \<Rightarrow> nat \<Rightarrow> live_error + bytes"
  dk_utf8_error :: "bytes \<Rightarrow> string"
  dk_os_arch :: string
  dk_pid :: nat

text \<open>Characters of a UTF-8 text, to count and cut them.\<close>

fun utf8_chars :: "string \<Rightarrow> string list" where
  "utf8_chars [] = []"
| "utf8_chars (c # cs) =
     (case utf8_chars cs of
        [] \<Rightarrow> [[c]]
      | w # ws \<Rightarrow> if 128 \<le> byte_of (hd w) \<and> byte_of (hd w) < 192 then (c # w) # ws else [c] # w # ws)"

definition diagnostic :: "string \<Rightarrow> string" where
  "diagnostic text =
     (let chars = utf8_chars (trim text) in
      if length chars \<le> 4096 then trim text
      else concat (take 2048 chars) @ [CHR 0x0A, CHR 0xE2, CHR 0x80, CHR 0xA6, CHR 0x0A] @ concat (drop (length chars - 2048) chars))"

definition command_succeeded :: "string \<Rightarrow> command_output \<Rightarrow> unit live_result" where
  "command_succeeded name o' = (if ou_success o' then Inr () else Inl (Conflict (name @ '' failed: '' @ diagnostic (ou_stderr o'))))"

definition docker :: "docker_world \<Rightarrow> string list \<Rightarrow> docker_trace \<Rightarrow> docker_trace \<times> (string + command_output)" where
  "docker w args tr = (tr @ [DockerCommand args], dk_command w tr args)"

definition ensure_docker :: "docker_world \<Rightarrow> string \<Rightarrow> docker_trace \<Rightarrow> docker_trace \<times> unit live_result" where
  "ensure_docker w action tr =
     (case docker w [''version'', ''--format'', ''{{.Server.Version}}''] tr of
        (tr', Inl e) \<Rightarrow> (tr', Inl (Capability (action @ '' requires the Docker CLI and a running Docker-compatible engine: '' @ e)))
      | (tr', Inr o') \<Rightarrow>
          (tr', if \<not> ou_success o' \<or> ou_stdout o' = []
                then Inl (Capability (action @ '' requires a running Docker-compatible engine: '' @ diagnostic (ou_stderr o')))
                else Inr ()))"

definition inspect_args :: "string \<Rightarrow> string list" where
  "inspect_args image_tag = [''image'', ''inspect'', ''--format'', ''{{.Id}}'', image_tag]"

definition inspect_answer :: "docker_world \<Rightarrow> string \<Rightarrow> string + command_output \<Rightarrow> string option live_result" where
  "inspect_answer w image_tag r =
     (case r of
        Inl e \<Rightarrow> Inl (Io (''inspect Docker image '' @ image_tag @ '': '' @ e))
      | Inr o' \<Rightarrow>
          if \<not> ou_success o' then Inr None
          else if \<not> utf8_valid (map unat (ou_stdout o'))
          then Inl (Protocol (''decode Docker image ID: '' @ dk_utf8_error w (ou_stdout o')))
          else (let image_id = trim (bytes_string (ou_stdout o')) in
                if valid_image_id image_id then Inr (Some image_id)
                else Inl (Protocol (''Docker returned invalid image ID '' @ image_id @ '' for '' @ image_tag))))"

definition inspect_image_id :: "docker_world \<Rightarrow> string \<Rightarrow> docker_trace \<Rightarrow> docker_trace \<times> string option live_result" where
  "inspect_image_id w image_tag tr =
     (case docker w (inspect_args image_tag) tr of (tr', r) \<Rightarrow> (tr', inspect_answer w image_tag r))"

definition cached_image_matches :: "docker_world \<Rightarrow> bundle_metadata \<Rightarrow> docker_trace \<Rightarrow> docker_trace \<times> bool live_result" where
  "cached_image_matches w m tr =
     (case bm_image_id m of
        None \<Rightarrow> (tr, Inr False)
      | Some expected \<Rightarrow>
          (case inspect_image_id w (bm_image_tag m) tr of (tr', r) \<Rightarrow> (tr', bindE r (\<lambda>i. Inr (i = Some expected)))))"

definition decompress_image :: "docker_world \<Rightarrow> bytes \<Rightarrow> nat \<Rightarrow> bytes live_result" where
  "decompress_image w compressed expected =
     bindE (dk_decompress w compressed (max_image_bytes + 1)) (\<lambda>img.
       if sat64 (length img) \<noteq> expected then
         Inl (InvalidHolo (''Python OCI image expanded to '' @ show_nat (sat64 (length img)) @ '' bytes; expected '' @ show_nat expected))
       else Inr img)"

definition load_embedded_image :: "docker_world \<Rightarrow> bundle_metadata \<Rightarrow> bytes \<Rightarrow> docker_trace \<Rightarrow> docker_trace \<times> unit live_result" where
  "load_embedded_image w m compressed tr =
     (case bindE (decompress_image w compressed (bm_image_uncompressed_bytes m)) (\<lambda>img.
           bindE (dk_prepare_load w tr) (\<lambda>_. Inr img)) of
        Inl e \<Rightarrow> (tr, Inl e)
      | Inr img \<Rightarrow>
          let tr1 = tr @ [ImageLoaded img] in
          (case bindE (map_err (\<lambda>e. Io (''start Docker image load: '' @ e)) (dk_load w tr img)) (command_succeeded ''Docker image load'') of
             Inl e \<Rightarrow> (tr1, Inl e)
           | Inr _ \<Rightarrow>
               (case bm_image_id m of
                  None \<Rightarrow> (tr1, Inr ())
                | Some expected \<Rightarrow>
                    (case inspect_image_id w (bm_image_tag m) tr1 of
                       (tr2, Inl e) \<Rightarrow> (tr2, Inl e)
                     | (tr2, Inr None) \<Rightarrow> (tr2, Inl (InvalidHolo (''embedded Python image did not load tag '' @ bm_image_tag m)))
                     | (tr2, Inr (Some actual)) \<Rightarrow>
                         (tr2, if actual \<noteq> expected
                               then Inl (InvalidHolo (''embedded Python image loaded as '' @ actual @ ''; expected '' @ expected))
                               else Inr ())))))"

section \<open>Execution\<close>

text \<open>\<open>sequence\<close> is the number of the run in this process.\<close>

definition container_name :: "docker_world \<Rightarrow> nat \<Rightarrow> string" where
  "container_name w sequence = ''hologram-python-'' @ show_nat (dk_pid w) @ ''-'' @ show_nat sequence"

definition run_args :: "string \<Rightarrow> string \<Rightarrow> string \<Rightarrow> string list" where
  "run_args name platform image_tag =
     [''run'', ''--rm'', ''--name'', name, ''--interactive'', ''--platform'', platform, ''--network'', ''none'', ''--read-only'',
      ''--cap-drop'', ''ALL'', ''--security-opt'', ''no-new-privileges'', ''--pids-limit'', ''64'', ''--memory'', ''1g'', ''--cpus'', ''1'',
      ''--tmpfs'', ''/tmp:rw,noexec,nosuid,size=64m'', image_tag]"

text \<open>\<open>Read::take\<close> with one byte more than the limit.\<close>

definition read_bounded :: "nat \<Rightarrow> bytes \<Rightarrow> bytes" where
  "read_bounded limit b = take (limit + 1) b"

definition run_container ::
  "docker_world \<Rightarrow> nat \<Rightarrow> bundle_metadata \<Rightarrow> string \<Rightarrow> bytes \<Rightarrow> docker_trace \<Rightarrow> docker_trace \<times> bytes live_result"
where
  "run_container w sequence m arch input tr =
     (case docker_platform (dk_os_arch w) arch of
        Inl e \<Rightarrow> (tr, Inl e)
      | Inr platform \<Rightarrow>
          let args = run_args (container_name w sequence) platform (bm_image_tag m); tr1 = tr @ [ContainerRun args input] in
          (case dk_run w tr args input of
             NotStarted e \<Rightarrow> (tr1, Inl (Io (''start Python rootfs container: '' @ e)))
           | WriteFailed e \<Rightarrow> (tr1, Inl (Io (''write Python rootfs input: '' @ e)))
           | WaitFailed e \<Rightarrow> (tr1, Inl (Io (''wait for Python rootfs: '' @ e)))
           | ReadFailed e \<Rightarrow> (tr1, Inl (Io (''read Python rootfs output: '' @ e)))
           | WorkerGone \<Rightarrow> (tr1, Inl (Io ''Python rootfs execution worker stopped unexpectedly''))
           | TimedOut \<Rightarrow>
               (tr1 @ [DockerCommand [''container'', ''rm'', ''--force'', container_name w sequence]],
                Inl (Conflict (''Python entrypoint '' @ bm_entry m @ '' exceeded the '' @ show_nat run_timeout_secs @ '' second execution limit'')))
           | ContainerExited ok out err \<Rightarrow>
               (let stdout = read_bounded max_output_bytes out in
                (tr1,
                 if length stdout > max_output_bytes
                 then Inl (Protocol (''Python output is '' @ show_nat (length stdout) @ '' bytes; limit is '' @ show_nat max_output_bytes))
                 else if \<not> ok then Inl (Protocol (''Python entrypoint '' @ bm_entry m @ '' failed: '' @ diagnostic err))
                 else Inr stdout))))"

fun run_containers ::
  "docker_world \<Rightarrow> bundle_metadata \<Rightarrow> string \<Rightarrow> nat \<Rightarrow> bytes list \<Rightarrow> docker_trace \<Rightarrow> docker_trace \<times> bytes list live_result"
where
  "run_containers w m arch sequence [] tr = (tr, Inr [])"
| "run_containers w m arch sequence (input # inputs) tr =
     (if length input > max_input_bytes
      then (tr, Inl (Protocol (''Python input is '' @ show_nat (length input) @ '' bytes; limit is '' @ show_nat max_input_bytes)))
      else case run_container w sequence m arch input tr of
        (tr', Inl e) \<Rightarrow> (tr', Inl e)
      | (tr', Inr out) \<Rightarrow>
          (case run_containers w m arch ((sequence + 1) mod 2 ^ 64) inputs tr' of
             (tr'', r) \<Rightarrow> (tr'', bindE r (\<lambda>outs. Inr (out # outs)))))"

definition python_execute ::
  "docker_world \<Rightarrow> metadata_codec \<Rightarrow> nat \<Rightarrow> bytes \<Rightarrow> string \<Rightarrow> string \<Rightarrow> bytes list \<Rightarrow> docker_trace \<Rightarrow> docker_trace \<times> bytes list live_result"
where
  "python_execute w mc sequence bundle layer_entry layer_arch inputs tr =
     (case bindE (decode_bundle (dk_os_arch w) mc bundle) (\<lambda>(m, img).
           bindE (validate_bundle_metadata (dk_os_arch w) m layer_entry layer_arch) (\<lambda>arch. Inr (m, img, arch))) of
        Inl e \<Rightarrow> (tr, Inl e)
      | Inr (m, img, arch) \<Rightarrow>
          (case ensure_docker w ''execute a Python rootfs'' tr of
             (tr1, Inl e) \<Rightarrow> (tr1, Inl e)
           | (tr1, Inr _) \<Rightarrow>
               (case cached_image_matches w m tr1 of
                  (tr2, Inl e) \<Rightarrow> (tr2, Inl e)
                | (tr2, Inr cached) \<Rightarrow>
                    (case (if cached then (tr2, Inr ()) else load_embedded_image w m img tr2) of
                       (tr3, Inl e) \<Rightarrow> (tr3, Inl e)
                     | (tr3, Inr _) \<Rightarrow> run_containers w m arch sequence inputs tr3))))"

section \<open>The provider\<close>

definition python_availability :: "provider_context \<Rightarrow> provider_target \<Rightarrow> string + unit" where
  "python_availability c target =
     (if target \<noteq> Direct then Inl ''Python OCI rootfs execution is direct-only''
      else if \<not> is_python_rootfs (pc_content c)
      then Inl (''direct execution has no compatible rootfs provider for entry '' @ pc_entry c)
      else Inr ())"

record python_layer =
  pl_position :: nat
  pl_content :: bytes
  pl_entry :: string
  pl_arch :: string
  pl_running :: bool
  pl_processed :: nat

definition python_prepare :: "docker_world \<Rightarrow> metadata_codec \<Rightarrow> layer_prepare_context \<Rightarrow> python_layer live_result" where
  "python_prepare w mc c =
     (if px_target c \<noteq> Direct then Inl (Capability ''Python OCI rootfs execution is direct-only'')
      else
        let l = px_layer c in
        bindE (validate_bundle_for_layer (dk_os_arch w) mc (rl_content l) (rl_entry l) (rl_aux l)) (\<lambda>_.
          Inr \<lparr>pl_position = rl_position l, pl_content = rl_content l, pl_entry = rl_entry l, pl_arch = rl_aux l,
               pl_running = False, pl_processed = 0\<rparr>))"

definition python_start :: "docker_world \<Rightarrow> docker_trace \<Rightarrow> python_layer \<Rightarrow> docker_trace \<times> python_layer \<times> unit live_result" where
  "python_start w tr l =
     (case ensure_docker w ''execute a Python rootfs'' tr of
        (tr', Inl e) \<Rightarrow> (tr', l, Inl e)
      | (tr', Inr _) \<Rightarrow> (tr', l\<lparr>pl_running := True\<rparr>, Inr ()))"

definition python_invoke ::
  "docker_world \<Rightarrow> metadata_codec \<Rightarrow> nat \<Rightarrow> nat \<Rightarrow> bytes list \<Rightarrow> docker_trace \<Rightarrow> python_layer
     \<Rightarrow> docker_trace \<times> python_layer \<times> layer_invocation live_result"
where
  "python_invoke w mc sequence elapsed inputs tr l =
     (if \<not> pl_running l then (tr, l, Inl (Conflict (''Python rootfs layer '' @ show_nat (pl_position l) @ '' is not running'')))
      else case python_execute w mc sequence (pl_content l) (pl_entry l) (pl_arch l) inputs tr of
        (tr', Inl e) \<Rightarrow> (tr', l, Inl e)
      | (tr', Inr outs) \<Rightarrow>
          (tr', l\<lparr>pl_processed := (pl_processed l + 1) mod 2 ^ 64\<rparr>,
           Inr \<lparr>li_outputs = outs, li_completion = Exited 0, li_elapsed_micros = sat64 elapsed\<rparr>))"

definition python_stop :: "python_layer \<Rightarrow> python_layer \<times> unit live_result" where
  "python_stop l = (l\<lparr>pl_running := False\<rparr>, Inr ())"

definition python_status :: "python_layer \<Rightarrow> layer_runtime_status" where
  "python_status l = \<lparr>lr_resident_bytes = length (pl_content l), lr_queued = 0, lr_processed = pl_processed l\<rparr>"

section \<open>Bundles round trip\<close>

definition metadata_ok :: "string \<Rightarrow> bundle_metadata \<Rightarrow> bool" where
  "metadata_ok os_arch m \<longleftrightarrow>
     bm_schema_version m = bundle_schema_version \<and> bm_provider m = bundle_provider \<and> is_ok (validate_entry (bm_entry m))
     \<and> is_ok (normalize_arch os_arch (bm_arch m)) \<and> (\<exists>i. bm_image_id m = Some i \<and> valid_image_id i)
     \<and> 0 < bm_image_uncompressed_bytes m \<and> bm_image_uncompressed_bytes m \<le> max_image_bytes"

lemma magic_length: "length python_magic = 8"
  by (simp add: python_magic_def string_bytes_def)

lemma decode_bundle_ok:
  assumes "decode_bundle os_arch mc b = Inr (m, img)"
  shows "metadata_ok os_arch m \<and> is_python_rootfs b \<and> img \<noteq> []"
  using assms by (auto simp: decode_bundle_def metadata_ok_def is_ok_iff bindE_eq_Inr Let_def split: if_splits option.splits)

lemma le_bytes_val: "x < 256 ^ n \<Longrightarrow> le_val (le_bytes n x) = x \<and> length (le_bytes n x) = n"
  by (simp add: le_val_def le_bytes_def from_be_be)

text \<open>
  A Python bundle reads back. Whatever metadata and non-empty image are encoded, the bundle is recognised
  by its magic, and it decodes to exactly them if and only if the metadata is one the decoder accepts;
  what decodes always has accepted metadata and a non-empty image.
\<close>
theorem python_bundle_round_trip:
  assumes "mc_decode mc (mc_encode mc m) = Inr m" and "encode_bundle mc m img = Inr b" and "img \<noteq> []"
  shows "is_python_rootfs b \<and> (decode_bundle os_arch mc b = Inr (m, img) \<longleftrightarrow> metadata_ok os_arch m)
     \<and> (\<forall>b' m' img'. decode_bundle os_arch mc b' = Inr (m', img') \<longrightarrow> metadata_ok os_arch m' \<and> is_python_rootfs b' \<and> img' \<noteq> [])"
proof -
  let ?e = "mc_encode mc m"
  have e: "length ?e \<le> max_metadata_bytes" "b = python_magic @ le_bytes 4 (length ?e) @ ?e @ img"
    using assms(2) by (auto simp: encode_bundle_def Let_def split: if_splits)
  have "length ?e < 256 ^ 4" using e(1) by (simp add: max_metadata_bytes_def)
  note l = le_bytes_val [OF this]
  have magic: "is_python_rootfs b" by (simp add: is_python_rootfs_def e(2))
  have "decode_bundle os_arch mc b = Inr (m, img)" if "metadata_ok os_arch m"
    using that l e assms(1,3) magic
    by (auto simp: decode_bundle_def metadata_ok_def is_ok_iff magic_length Let_def e(2))
  then show ?thesis using magic decode_bundle_ok by blast
qed

section \<open>Execution is confined\<close>

text \<open>The containers of a run over inputs, in order.\<close>

fun expected_runs :: "docker_world \<Rightarrow> string \<Rightarrow> string \<Rightarrow> nat \<Rightarrow> bytes list \<Rightarrow> docker_trace" where
  "expected_runs w platform image_tag sequence [] = []"
| "expected_runs w platform image_tag sequence (input # inputs) =
     ContainerRun (run_args (container_name w sequence) platform image_tag) input
     # expected_runs w platform image_tag ((sequence + 1) mod 2 ^ 64) inputs"

definition python_io_ok :: "bytes \<Rightarrow> bytes \<Rightarrow> bool" where
  "python_io_ok input out \<longleftrightarrow> length input \<le> max_input_bytes \<and> length out \<le> max_output_bytes"

fun is_run :: "docker_event \<Rightarrow> bool" where
  "is_run (ContainerRun _ _) = True"
| "is_run _ = False"

definition cleanup_events :: "docker_world \<Rightarrow> docker_trace \<Rightarrow> bool" where
  "cleanup_events w tr \<longleftrightarrow> tr = [] \<or> (\<exists>n. tr = [DockerCommand [''container'', ''rm'', ''--force'', container_name w n]])"

lemma run_container_events:
  assumes "run_container w sequence m arch input tr = (tr', r)" and "docker_platform (dk_os_arch w) arch = Inr platform"
  shows "\<exists>c. cleanup_events w c \<and> tr' = tr @ ContainerRun (run_args (container_name w sequence) platform (bm_image_tag m)) input # c
     \<and> (\<forall>out. r = Inr out \<longrightarrow> c = [] \<and> length out \<le> max_output_bytes)"
  using assms by (auto simp: run_container_def cleanup_events_def Let_def split: container_end.splits if_splits)

lemma run_containers_events:
  assumes "run_containers w m arch sequence inputs tr = (tr', r)" and "docker_platform (dk_os_arch w) arch = Inr platform"
  shows "\<exists>k c. cleanup_events w c \<and> tr' = tr @ take k (expected_runs w platform (bm_image_tag m) sequence inputs) @ c
     \<and> (\<forall>outs. r = Inr outs \<longrightarrow> c = [] \<and> length inputs \<le> k \<and> list_all2 python_io_ok inputs outs)"
  using assms(1)
proof (induction inputs arbitrary: sequence tr tr' r)
  case Nil
  then show ?case by (auto simp: cleanup_events_def)
next
  case (Cons input inputs)
  show ?case
  proof (cases "length input > max_input_bytes")
    case True
    then show ?thesis using Cons.prems by (intro exI [of _ 0] exI [of _ "[]"]) (auto simp: cleanup_events_def)
  next
    case False
    obtain t x where t: "run_container w sequence m arch input tr = (t, x)" by fastforce
    obtain c where c: "cleanup_events w c" "t = tr @ ContainerRun (run_args (container_name w sequence) platform (bm_image_tag m)) input # c"
      "\<forall>out. x = Inr out \<longrightarrow> c = [] \<and> length out \<le> max_output_bytes" using run_container_events [OF t assms(2)] by blast
    show ?thesis
    proof (cases x)
      case (Inl e)
      then show ?thesis using Cons.prems False t c by (intro exI [of _ 1] exI [of _ c]) auto
    next
      case (Inr out)
      obtain t' x' where t': "run_containers w m arch ((sequence + 1) mod 2 ^ 64) inputs t = (t', x')" by fastforce
      obtain k c' where k: "cleanup_events w c'" "t' = t @ take k (expected_runs w platform (bm_image_tag m) ((sequence + 1) mod 2 ^ 64) inputs) @ c'"
        "\<forall>outs. x' = Inr outs \<longrightarrow> c' = [] \<and> length inputs \<le> k \<and> list_all2 python_io_ok inputs outs" using Cons.IH [OF t'] by blast
      have "tr' = t'" "r = bindE x' (\<lambda>outs. Inr (out # outs))" using Cons.prems False t t' Inr by auto
      then show ?thesis using False c Inr k
        by (intro exI [of _ "Suc k"] exI [of _ c']) (auto simp: bindE_eq_Inr python_io_ok_def [of input out])
    qed
  qed
qed

text \<open>The last command inspected the image tag and Docker answered the id the bundle names.\<close>

definition image_verified :: "docker_world \<Rightarrow> bundle_metadata \<Rightarrow> docker_trace \<Rightarrow> bool" where
  "image_verified w m tr \<longleftrightarrow>
     (\<exists>pre. tr = pre @ [DockerCommand (inspect_args (bm_image_tag m))]
        \<and> inspect_answer w (bm_image_tag m) (dk_command w pre (inspect_args (bm_image_tag m))) = Inr (bm_image_id m))"

definition no_runs :: "docker_trace \<Rightarrow> docker_trace \<Rightarrow> bool" where
  "no_runs tr tr' \<longleftrightarrow> (\<exists>own. tr' = tr @ own \<and> list_all (\<lambda>e. \<not> is_run e) own)"

lemma no_runs_trans: "no_runs a b \<Longrightarrow> no_runs b c \<Longrightarrow> no_runs a c"
  by (auto simp: no_runs_def)

lemma no_runs_steps:
  "no_runs tr tr" "no_runs tr (tr @ [DockerCommand a])" "no_runs tr (tr @ [ImageLoaded b])"
  "ensure_docker w action tr = (t, r) \<Longrightarrow> no_runs tr t"
  "inspect_image_id w tag tr = (t, q) \<Longrightarrow> no_runs tr t"
  by (auto simp: no_runs_def ensure_docker_def inspect_image_id_def docker_def split: sum.splits)

lemma cached_image_verified:
  assumes "cached_image_matches w m tr = (t, r)"
  shows "no_runs tr t \<and> (r = Inr True \<longrightarrow> image_verified w m t)"
  using assms by (auto simp: cached_image_matches_def inspect_image_id_def docker_def bindE_eq_Inr image_verified_def no_runs_def
      split: option.splits prod.splits)

lemma load_image_verified:
  assumes "load_embedded_image w m compressed tr = (t, r)" and "bm_image_id m \<noteq> None"
  shows "no_runs tr t \<and> (r = Inr () \<longrightarrow> image_verified w m t)"
proof -
  obtain expected where i: "bm_image_id m = Some expected" using assms(2) by blast
  show ?thesis using assms(1) i
    by (auto simp: load_embedded_image_def inspect_image_id_def docker_def image_verified_def no_runs_def Let_def
        split: sum.splits option.splits if_splits)
qed

text \<open>
  C9 A Python layer runs only what its bundle names, only inside the sandbox. Whatever Docker answers, an
  execution starts a container only after the bundle was decoded, its entry equals the layer's entry, its
  architecture is the host's, and the last command before the first container inspected the bundle's image tag
  and answered the bundle's image id (a missing or different image is first loaded from the bundle).
  After that it does nothing but run one container per input, in order, each with the fixed isolation
  options (no network, read-only, no capabilities or new privileges, bounded processes, memory, processor and
  scratch space), and removes a container that overran its time. If it succeeds, every input had its
  container and one output, all within the size limits.
\<close>
theorem python_execute_confined:
  assumes "python_execute w mc sequence bundle layer_entry layer_arch inputs tr = (tr', r)"
  shows "no_runs tr tr' \<and> \<not> is_ok r
     \<or> (\<exists>m img arch platform checked k c. decode_bundle (dk_os_arch w) mc bundle = Inr (m, img) \<and> metadata_ok (dk_os_arch w) m
          \<and> bm_entry m = layer_entry \<and> bm_arch m = arch \<and> host_arch (dk_os_arch w) = Inr arch
          \<and> docker_platform (dk_os_arch w) arch = Inr platform
          \<and> no_runs tr checked \<and> image_verified w m checked
          \<and> tr' = checked @ take k (expected_runs w platform (bm_image_tag m) sequence inputs) @ c \<and> cleanup_events w c
          \<and> (\<forall>outs. r = Inr outs \<longrightarrow> c = [] \<and> length inputs \<le> k \<and> list_all2 python_io_ok inputs outs))"
proof (cases "bindE (decode_bundle (dk_os_arch w) mc bundle) (\<lambda>(m, img).
    bindE (validate_bundle_metadata (dk_os_arch w) m layer_entry layer_arch) (\<lambda>arch. Inr (m, img, arch)))")
  case (Inl e)
  then show ?thesis using assms no_runs_steps(1) by (auto simp: python_execute_def)
next
  case (Inr x)
  obtain m img arch where x: "x = (m, img, arch)" by (cases x)
  have d: "decode_bundle (dk_os_arch w) mc bundle = Inr (m, img)" "validate_bundle_metadata (dk_os_arch w) m layer_entry layer_arch = Inr arch"
    using Inr x by (auto simp: bindE_eq_Inr split: prod.splits)
  have v: "bm_entry m = layer_entry" "bm_arch m = arch" "host_arch (dk_os_arch w) = Inr arch"
    using d(2) by (auto simp: validate_bundle_metadata_def bindE_eq_Inr split: if_splits)
  have "arch = ''arm64'' \<or> arch = ''x86_64''" using v(3) by (auto simp: host_arch_def split: if_splits)
  then obtain platform where platform: "docker_platform (dk_os_arch w) arch = Inr platform" by (auto simp: docker_platform_def normalize_arch_def)
  have ok: "metadata_ok (dk_os_arch w) m" using decode_bundle_ok [OF d(1)] by blast
  then have id: "bm_image_id m \<noteq> None" by (auto simp: metadata_ok_def)
  obtain t1 r1 where t1: "ensure_docker w ''execute a Python rootfs'' tr = (t1, r1)" by fastforce
  obtain t2 r2 where t2: "cached_image_matches w m t1 = (t2, r2)" by fastforce
  note n1 = no_runs_steps(4) [OF t1] and n2 = cached_image_verified [OF t2]
  show ?thesis
  proof (cases "is_ok r1 \<and> is_ok r2")
    case False
    then show ?thesis using assms Inr x t1 t2 n1 n2 no_runs_trans [of tr t1 t2]
      by (cases r1; cases r2) (auto simp: python_execute_def)
  next
    case True
    then obtain cached where r2: "r2 = Inr cached" "is_ok r1" by (auto simp: is_ok_iff)
    obtain t3 r3 where t3: "(if cached then (t2, Inr ()) else load_embedded_image w m img t2) = (t3, r3)" by fastforce
    have n3: "no_runs tr t3 \<and> (r3 = Inr () \<longrightarrow> image_verified w m t3)"
    proof (cases cached)
      case True
      then have "t3 = t2" using t3 by simp
      then show ?thesis using n2 r2 True no_runs_trans [OF n1] by simp
    next
      case False
      then have "load_embedded_image w m img t2 = (t3, r3)" using t3 by simp
      from load_image_verified [OF this id] show ?thesis using n2 no_runs_trans [OF n1] no_runs_trans [of tr t2 t3] by simp
    qed
    show ?thesis
    proof (cases r3)
      case e: (Inl e)
      then show ?thesis using assms Inr x t1 t2 t3 r2 n3 by (auto simp: python_execute_def is_ok_iff)
    next
      case u: (Inr u)
      then have "run_containers w m arch sequence inputs t3 = (tr', r)" using assms Inr x t1 t2 t3 r2 by (auto simp: python_execute_def is_ok_iff)
      from run_containers_events [OF this platform] obtain k c where ev: "cleanup_events w c
          \<and> tr' = t3 @ take k (expected_runs w platform (bm_image_tag m) sequence inputs) @ c
          \<and> (\<forall>outs. r = Inr outs \<longrightarrow> c = [] \<and> length inputs \<le> k \<and> list_all2 python_io_ok inputs outs)" by (elim exE)
      have checked: "no_runs tr t3" "image_verified w m t3" using n3 u by simp_all
      show ?thesis
        by (rule disjI2, intro exI conjI)
          (fact d(1) ok v platform checked ev [THEN conjunct1] ev [THEN conjunct2, THEN conjunct1] ev [THEN conjunct2, THEN conjunct2])+
    qed
  qed
qed

section \<open>A sample run\<close>

definition demo_image_id :: string where
  "demo_image_id = ''sha256:'' @ replicate 64 (CHR ''a'')"

definition demo_metadata :: bundle_metadata where
  "demo_metadata = \<lparr>bm_schema_version = 3, bm_provider = bundle_provider, bm_image_tag = ''t'', bm_image_id = Some demo_image_id,
     bm_entry = ''app:main'', bm_arch = ''arm64'', bm_image_uncompressed_bytes = 3\<rparr>"

definition python_demo_codec :: metadata_codec where
  "python_demo_codec = \<lparr>mc_encode = (\<lambda>_. [5]), mc_decode = (\<lambda>_. Inr demo_metadata)\<rparr>"

definition demo_bundle :: bytes where
  "demo_bundle = python_magic @ le_bytes 4 1 @ [5, 9]"

definition demo_docker :: docker_world where
  "demo_docker = \<lparr>dk_command = (\<lambda>_ args. Inr \<lparr>ou_success = True, ou_stdout = string_bytes demo_image_id, ou_stderr = []\<rparr>),
     dk_prepare_load = (\<lambda>_. Inr ()), dk_load = (\<lambda>_ _. Inl ''no''), dk_run = (\<lambda>_ _ input. ContainerExited True (7 # input) []),
     dk_decompress = (\<lambda>_ _. Inr []), dk_utf8_error = (\<lambda>_. []), dk_os_arch = ''aarch64'', dk_pid = 4\<rparr>"

lemma demo_metadata_ok: "metadata_ok ''aarch64'' demo_metadata"
  by (simp add: metadata_ok_def demo_metadata_def bundle_schema_version_def validate_entry_def valid_module_def valid_identifier_def byte_class_defs
      normalize_arch_def demo_image_id_def valid_image_id_def strip_prefix_def list_all_iff max_image_bytes_def)

lemma demo_encode: "encode_bundle python_demo_codec demo_metadata [9] = Inr demo_bundle"
  by (simp add: encode_bundle_def python_demo_codec_def demo_bundle_def max_metadata_bytes_def Let_def)

theorem python_bundle_round_trip_witness:
  "decode_bundle ''aarch64'' python_demo_codec demo_bundle = Inr (demo_metadata, [9])"
proof -
  have "mc_decode python_demo_codec (mc_encode python_demo_codec demo_metadata) = Inr demo_metadata" by (simp add: python_demo_codec_def)
  from python_bundle_round_trip [OF this demo_encode, of "''aarch64''"] show ?thesis using demo_metadata_ok by simp
qed

lemma demo_decode: "decode_bundle ''aarch64'' python_demo_codec demo_bundle = Inr (demo_metadata, [9])"
proof -
  have "le_val (le_bytes 4 1) = 1" "length (le_bytes 4 1) = 4" using le_bytes_val [of 1 4] by simp_all
  then show ?thesis using demo_metadata_ok
    by (auto simp: decode_bundle_def demo_bundle_def magic_length is_python_rootfs_def Let_def max_metadata_bytes_def python_demo_codec_def
        metadata_ok_def is_ok_iff)
qed

lemma demo_inspect: "inspect_answer demo_docker ''t'' (dk_command demo_docker pre args) = Inr (Some demo_image_id)"
proof -
  have ascii: "byte_of c < 128" if "c \<in> set demo_image_id" for c using that by (auto simp: demo_image_id_def byte_of_def)
  have "utf8_valid (map unat (string_bytes demo_image_id))" using utf8_ascii [of demo_image_id] ascii by (simp add: string_bytes_inverse list_all_iff)
  moreover have "trim demo_image_id = demo_image_id"
    by (simp add: trim_def trim_start_def trim_end_def demo_image_id_def unicode_ws_def starts_with_def numeral_eq_Suc)
  moreover have "valid_image_id demo_image_id" using demo_metadata_ok by (simp add: metadata_ok_def demo_metadata_def)
  ultimately show ?thesis by (simp add: inspect_answer_def demo_docker_def string_bytes_inverse Let_def)
qed

lemma demo_execute:
  "\<exists>tr'. python_execute demo_docker python_demo_codec 1 demo_bundle ''app:main'' ''arm64'' [[1]] [] = (tr', Inr [[7, 1]])"
proof -
  have h: "dk_os_arch demo_docker = ''aarch64''" "bm_image_id demo_metadata = Some demo_image_id" "bm_image_tag demo_metadata = ''t''"
    "bm_entry demo_metadata = ''app:main''" "bm_arch demo_metadata = ''arm64''"
    "dk_run demo_docker p a b = ContainerExited True (7 # b) []" for p a b by (simp_all add: demo_docker_def demo_metadata_def)
  have "\<exists>t. ensure_docker demo_docker ''execute a Python rootfs'' [] = (t, Inr ())"
    by (simp add: ensure_docker_def docker_def demo_docker_def demo_image_id_def string_bytes_def)
  then obtain t where t: "ensure_docker demo_docker ''execute a Python rootfs'' [] = (t, Inr ())" by blast
  have c: "cached_image_matches demo_docker demo_metadata t = (t @ [DockerCommand (inspect_args ''t'')], Inr True)"
    by (simp add: cached_image_matches_def inspect_image_id_def docker_def h demo_inspect)
  have r: "\<exists>tr. run_containers demo_docker demo_metadata ''arm64'' 1 [[1]] u = (tr, Inr [[7, 1]])" for u
    by (simp add: run_container_def docker_platform_def normalize_arch_def h max_input_bytes_def max_output_bytes_def read_bounded_def Let_def)
  show ?thesis using r by (simp add: python_execute_def h demo_decode validate_bundle_metadata_def normalize_arch_def host_arch_def t c)
qed

theorem python_execute_confined_witness:
  "\<exists>tr' m checked. python_execute demo_docker python_demo_codec 1 demo_bundle ''app:main'' ''arm64'' [[1]] [] = (tr', Inr [[7, 1]])
     \<and> image_verified demo_docker m checked \<and> bm_image_tag m = ''t'' \<and> prefix checked tr'"
proof -
  obtain tr' where e: "python_execute demo_docker python_demo_codec 1 demo_bundle ''app:main'' ''arm64'' [[1]] [] = (tr', Inr [[7, 1]])" using demo_execute by blast
  from python_execute_confined [OF e] obtain m img checked c where
    "decode_bundle ''aarch64'' python_demo_codec demo_bundle = Inr (m, img)" "image_verified demo_docker m checked" "prefix checked tr'"
    by (auto simp: demo_docker_def [THEN arg_cong, of dk_os_arch])
  moreover from this(1) have "m = demo_metadata" by (simp add: demo_decode)
  moreover have "bm_image_tag demo_metadata = ''t''" by (simp add: demo_metadata_def)
  ultimately show ?thesis using e by blast
qed

end
