(* ===== verification/View_Provider.thy ===== *)
theory View_Provider
  imports Running_Application View_Bundle
begin

text \<open>
  The portable View provider (\<open>src/holo_view_provider.rs\<close>) and the registry of host surfaces
  (\<open>crates/hologram-view-surface/src/lib.rs\<close>). A surface is a trait object of the host: it is a name,
  and its answers to \<open>attach\<close> and \<open>detach\<close> may depend on every call made to surfaces before, the trace.
  A prepared layer holds its state behind a mutex for the whole of a call, so a call is one step.
\<close>

section \<open>The registry of surfaces\<close>

type_synonym surface = nat

record surface_registry =
  sr_portable :: "surface option"
  sr_poisoned :: bool

definition surfaces_new :: surface_registry where
  "surfaces_new = \<lparr>sr_portable = None, sr_poisoned = False\<rparr>"

definition surfaces_poisoned :: string where
  "surfaces_poisoned = ''portable View surface registry lock poisoned''"

definition register_portable :: "surface \<Rightarrow> surface_registry \<Rightarrow> surface_registry \<times> (string + unit)" where
  "register_portable s r = (if sr_poisoned r then (r, Inl surfaces_poisoned) else (r\<lparr>sr_portable := Some s\<rparr>, Inr ()))"

definition unregister_portable :: "surface_registry \<Rightarrow> surface_registry \<times> (string + surface option)" where
  "unregister_portable r = (if sr_poisoned r then (r, Inl surfaces_poisoned) else (r\<lparr>sr_portable := None\<rparr>, Inr (sr_portable r)))"

definition registry_portable :: "surface_registry \<Rightarrow> string + surface option" where
  "registry_portable r = (if sr_poisoned r then Inl surfaces_poisoned else Inr (sr_portable r))"

section \<open>Attachments and surfaces\<close>

record view_asset =
  as_path :: string
  as_bytes :: bytes

record view_attachment =
  at_id :: view_attachment_id
  at_entry :: string
  at_assets :: "view_asset list"
  at_intents :: nat

datatype surface_event =
    Attached surface view_attachment
  | AttachFailed surface view_attachment
  | Detached surface view_attachment_id
  | DetachFailed surface view_attachment_id

type_synonym surface_trace = "surface_event list"

record surface_world =
  sw_attach :: "surface_trace \<Rightarrow> surface \<Rightarrow> view_attachment \<Rightarrow> string + unit"
  sw_detach :: "surface_trace \<Rightarrow> surface \<Rightarrow> view_attachment_id \<Rightarrow> string + unit"

section \<open>The provider\<close>

definition resolve_surface :: "surface_registry \<Rightarrow> provider_target \<Rightarrow> string + surface" where
  "resolve_surface r target =
     bindE (registry_portable r) (\<lambda>s.
       ok_or (case target of
           Direct \<Rightarrow> ''portable View surface is unavailable for direct/headless execution; ''
                     @ ''run the application through a host that publishes a portable surface''
         | Resident \<Rightarrow> ''portable View surface is unavailable for resident execution'') s)"

definition view_availability :: "surface_registry \<Rightarrow> provider_context \<Rightarrow> provider_target \<Rightarrow> string + unit" where
  "view_availability r c target =
     bindE (map_err error_message (validate_surface (pc_aux c))) (\<lambda>_.
     bindE (map_err error_message (view_decode (pc_content c))) (\<lambda>_.
     bindE (resolve_surface r target) (\<lambda>_. Inr ())))"

text \<open>\<open>token_hash\<close> is the hexadecimal BLAKE3 digest; the sequence is the process-wide 64-bit counter,
  whose \<open>fetch_add\<close> wraps.\<close>

definition attachment_id :: "(bytes \<Rightarrow> string) \<Rightarrow> nat \<Rightarrow> resolved_layer \<Rightarrow> string \<Rightarrow> nat \<times> view_attachment_id" where
  "attachment_id token_hash sequence layer kappa =
     ((sequence + 1) mod 2 ^ 64,
      \<lparr>va_token = token_hash (string_bytes kappa @ be_bytes 4 (rl_position layer) @ be_bytes 8 sequence),
       va_application_kappa = kappa, va_layer_position = rl_position layer\<rparr>)"

datatype attachment_state = ViewPrepared | ViewAttached | ViewStopped

record view_layer =
  vl_position :: nat
  vl_surface :: surface
  vl_attachment :: view_attachment
  vl_id :: view_attachment_id
  vl_resident_bytes :: nat
  vl_state :: attachment_state

definition view_prepare ::
  "(bytes \<Rightarrow> string) \<Rightarrow> surface_registry \<Rightarrow> layer_prepare_context \<Rightarrow> nat \<Rightarrow> nat \<times> view_layer live_result"
where
  "view_prepare token_hash r c sequence =
     (case bindE (validate_surface (rl_aux (px_layer c))) (\<lambda>_.
           bindE (view_decode (rl_content (px_layer c))) (\<lambda>bundle.
           bindE (map_err Capability (resolve_surface r (px_target c))) (\<lambda>s. Inr (bundle, s)))) of
        Inl e \<Rightarrow> (sequence, Inl e)
      | Inr (bundle, s) \<Rightarrow>
          let (sequence', vid) = attachment_id token_hash sequence (px_layer c) (application_kappa (px_identity c)) in
          (sequence', Inr \<lparr>vl_position = rl_position (px_layer c), vl_surface = s,
             vl_attachment = \<lparr>at_id = vid, at_entry = vb_entry bundle,
               at_assets = map (\<lambda>f. \<lparr>as_path = vf_path f, as_bytes = vf_bytes f\<rparr>) (vb_files bundle), at_intents = px_intents c\<rparr>,
             vl_id = vid, vl_resident_bytes = length (rl_content (px_layer c)), vl_state = ViewPrepared\<rparr>))"

section \<open>The prepared layer\<close>

definition view_start :: "surface_world \<Rightarrow> surface_trace \<Rightarrow> view_layer \<Rightarrow> surface_trace \<times> view_layer \<times> unit live_result" where
  "view_start w tr l =
     (case vl_state l of
        ViewPrepared \<Rightarrow>
          (case sw_attach w tr (vl_surface l) (vl_attachment l) of
             Inl e \<Rightarrow> (tr @ [AttachFailed (vl_surface l) (vl_attachment l)], l,
                       Inl (Transport (''attach portable View layer '' @ show_nat (vl_position l) @ '': '' @ e)))
           | Inr _ \<Rightarrow> (tr @ [Attached (vl_surface l) (vl_attachment l)], l\<lparr>vl_state := ViewAttached\<rparr>, Inr ()))
      | ViewAttached \<Rightarrow> (tr, l, Inr ())
      | ViewStopped \<Rightarrow>
          (tr, l, Inl (Conflict (''portable View layer '' @ show_nat (vl_position l) @ '' cannot start after it stopped''))))"

definition view_invoke :: "view_layer \<Rightarrow> bytes list \<Rightarrow> layer_invocation live_result" where
  "view_invoke l inputs =
     Inl (Capability (''portable View layer '' @ show_nat (vl_position l) @ '' is non-exit-bearing and cannot be invoked''))"

definition view_stop :: "surface_world \<Rightarrow> surface_trace \<Rightarrow> view_layer \<Rightarrow> surface_trace \<times> view_layer \<times> unit live_result" where
  "view_stop w tr l =
     (case vl_state l of
        ViewPrepared \<Rightarrow> (tr, l\<lparr>vl_state := ViewStopped\<rparr>, Inr ())
      | ViewAttached \<Rightarrow>
          (case sw_detach w tr (vl_surface l) (vl_id l) of
             Inl e \<Rightarrow> (tr @ [DetachFailed (vl_surface l) (vl_id l)], l,
                       Inl (Transport (''detach portable View layer '' @ show_nat (vl_position l) @ '': '' @ e)))
           | Inr _ \<Rightarrow> (tr @ [Detached (vl_surface l) (vl_id l)], l\<lparr>vl_state := ViewStopped\<rparr>, Inr ()))
      | ViewStopped \<Rightarrow> (tr, l, Inr ()))"

definition view_status :: "view_layer \<Rightarrow> layer_runtime_status" where
  "view_status l = \<lparr>lr_resident_bytes = vl_resident_bytes l, lr_queued = 0, lr_processed = 0\<rparr>"

section \<open>The life of a layer\<close>

text \<open>Any calls in any order, the registry changing in between.\<close>

datatype view_call = CallStart | CallStop | CallInvoke "bytes list" | Register surface | Unregister

fun view_step :: "surface_world \<Rightarrow> surface_trace \<times> surface_registry \<times> view_layer \<Rightarrow> view_call \<Rightarrow> surface_trace \<times> surface_registry \<times> view_layer" where
  "view_step w (tr, r, l) CallStart = (case view_start w tr l of (tr', l', _) \<Rightarrow> (tr', r, l'))"
| "view_step w (tr, r, l) CallStop = (case view_stop w tr l of (tr', l', _) \<Rightarrow> (tr', r, l'))"
| "view_step w (tr, r, l) (CallInvoke xs) = (tr, r, l)"
| "view_step w (tr, r, l) (Register s) = (tr, fst (register_portable s r), l)"
| "view_step w (tr, r, l) Unregister = (tr, fst (unregister_portable r), l)"

definition view_run :: "surface_world \<Rightarrow> surface_trace \<times> surface_registry \<times> view_layer \<Rightarrow> view_call list \<Rightarrow> surface_trace \<times> surface_registry \<times> view_layer" where
  "view_run w = foldl (view_step w)"

text \<open>What a layer has put on its surface: tries to attach until one succeeds, then tries to detach.\<close>

definition layer_events :: "view_layer \<Rightarrow> surface_trace \<Rightarrow> bool" where
  "layer_events l tr \<longleftrightarrow>
     (\<exists>m n. case vl_state l of
        ViewPrepared \<Rightarrow> tr = replicate m (AttachFailed (vl_surface l) (vl_attachment l))
      | ViewAttached \<Rightarrow> tr = replicate m (AttachFailed (vl_surface l) (vl_attachment l)) @ [Attached (vl_surface l) (vl_attachment l)]
                            @ replicate n (DetachFailed (vl_surface l) (vl_id l))
      | ViewStopped \<Rightarrow> tr = replicate m (AttachFailed (vl_surface l) (vl_attachment l))
          \<or> tr = replicate m (AttachFailed (vl_surface l) (vl_attachment l)) @ [Attached (vl_surface l) (vl_attachment l)]
                   @ replicate n (DetachFailed (vl_surface l) (vl_id l)) @ [Detached (vl_surface l) (vl_id l)])"

definition same_layer :: "view_layer \<Rightarrow> view_layer \<Rightarrow> bool" where
  "same_layer l l' \<longleftrightarrow> l' = l\<lparr>vl_state := vl_state l'\<rparr>"

lemma layer_events_simps:
  "layer_events (l\<lparr>vl_state := ViewPrepared\<rparr>) tr \<longleftrightarrow> (\<exists>m. tr = replicate m (AttachFailed (vl_surface l) (vl_attachment l)))"
  "layer_events (l\<lparr>vl_state := ViewAttached\<rparr>) tr \<longleftrightarrow>
     (\<exists>m n. tr = replicate m (AttachFailed (vl_surface l) (vl_attachment l)) @ [Attached (vl_surface l) (vl_attachment l)]
              @ replicate n (DetachFailed (vl_surface l) (vl_id l)))"
  "layer_events (l\<lparr>vl_state := ViewStopped\<rparr>) tr \<longleftrightarrow>
     (\<exists>m n. tr = replicate m (AttachFailed (vl_surface l) (vl_attachment l))
        \<or> tr = replicate m (AttachFailed (vl_surface l) (vl_attachment l)) @ [Attached (vl_surface l) (vl_attachment l)]
                 @ replicate n (DetachFailed (vl_surface l) (vl_id l)) @ [Detached (vl_surface l) (vl_id l)])"
  by (simp_all add: layer_events_def)

lemma view_state_cases:
  obtains "l = l\<lparr>vl_state := ViewPrepared\<rparr>" | "l = l\<lparr>vl_state := ViewAttached\<rparr>" | "l = l\<lparr>vl_state := ViewStopped\<rparr>"
  by (cases l, rename_tac st more, case_tac st) auto

lemma replicate_snoc: "replicate n x @ [x] = replicate (Suc n) x"
  by (induction n) auto

lemma layer_events_more:
  "layer_events (l\<lparr>vl_state := ViewPrepared\<rparr>) own \<Longrightarrow> layer_events (l\<lparr>vl_state := ViewPrepared\<rparr>) (own @ [AttachFailed (vl_surface l) (vl_attachment l)])"
  "layer_events (l\<lparr>vl_state := ViewPrepared\<rparr>) own \<Longrightarrow> layer_events (l\<lparr>vl_state := ViewAttached\<rparr>) (own @ [Attached (vl_surface l) (vl_attachment l)])"
  "layer_events (l\<lparr>vl_state := ViewPrepared\<rparr>) own \<Longrightarrow> layer_events (l\<lparr>vl_state := ViewStopped\<rparr>) own"
  "layer_events (l\<lparr>vl_state := ViewAttached\<rparr>) own \<Longrightarrow> layer_events (l\<lparr>vl_state := ViewAttached\<rparr>) (own @ [DetachFailed (vl_surface l) (vl_id l)])"
  "layer_events (l\<lparr>vl_state := ViewAttached\<rparr>) own \<Longrightarrow> layer_events (l\<lparr>vl_state := ViewStopped\<rparr>) (own @ [Detached (vl_surface l) (vl_id l)])"
proof -
  show "layer_events (l\<lparr>vl_state := ViewPrepared\<rparr>) own \<Longrightarrow> layer_events (l\<lparr>vl_state := ViewAttached\<rparr>) (own @ [Attached (vl_surface l) (vl_attachment l)])"
    unfolding layer_events_simps by (elim exE) (rule exI, rule exI [of _ 0], simp)
qed (unfold layer_events_simps, auto simp only: append_assoc replicate_snoc, blast+)

lemma view_start_events:
  assumes "view_start w (tr0 @ own) l = (tr, l', res)" "layer_events l own"
  shows "same_layer l l' \<and> (\<exists>own'. tr = tr0 @ own' \<and> layer_events l' own')"
proof (cases l rule: view_state_cases)
  case 1
  have st: "vl_state l = ViewPrepared" by (subst 1) simp
  show ?thesis
  proof (cases "sw_attach w (tr0 @ own) (vl_surface l) (vl_attachment l)")
    case (Inl e)
    then show ?thesis using assms layer_events_more(1) [of l own] 1 by (auto simp: view_start_def st same_layer_def)
  next
    case (Inr u)
    then show ?thesis using assms layer_events_more(2) [of l own] 1 by (auto simp: view_start_def st same_layer_def)
  qed
next
  case 2
  have "vl_state l = ViewAttached" by (subst 2) simp
  then show ?thesis using assms by (auto simp: view_start_def same_layer_def)
next
  case 3
  have "vl_state l = ViewStopped" by (subst 3) simp
  then show ?thesis using assms by (auto simp: view_start_def same_layer_def)
qed

lemma view_stop_events:
  assumes "view_stop w (tr0 @ own) l = (tr, l', res)" "layer_events l own"
  shows "same_layer l l' \<and> (\<exists>own'. tr = tr0 @ own' \<and> layer_events l' own')"
proof (cases l rule: view_state_cases)
  case 1
  have "vl_state l = ViewPrepared" by (subst 1) simp
  then show ?thesis using assms layer_events_more(3) [of l own] 1 by (auto simp: view_stop_def same_layer_def)
next
  case 2
  have st: "vl_state l = ViewAttached" by (subst 2) simp
  show ?thesis
  proof (cases "sw_detach w (tr0 @ own) (vl_surface l) (vl_id l)")
    case (Inl e)
    then show ?thesis using assms layer_events_more(4) [of l own] 2 by (auto simp: view_stop_def st same_layer_def)
  next
    case (Inr u)
    then show ?thesis using assms layer_events_more(5) [of l own] 2 by (auto simp: view_stop_def st same_layer_def)
  qed
next
  case 3
  have "vl_state l = ViewStopped" by (subst 3) simp
  then show ?thesis using assms by (auto simp: view_stop_def same_layer_def)
qed

lemma same_layer_trans: "same_layer a b \<Longrightarrow> same_layer b c \<Longrightarrow> same_layer a c"
  by (cases a; cases b; cases c) (auto simp: same_layer_def)

lemma view_step_events:
  assumes "view_step w (tr0 @ own, r, l) call = (tr, r', l')" "layer_events l own"
  shows "same_layer l l' \<and> (\<exists>own'. tr = tr0 @ own' \<and> layer_events l' own')"
proof (cases call)
  case CallStart
  then show ?thesis using assms view_start_events [of w tr0 own l tr l'] by (auto split: prod.splits)
next
  case CallStop
  then show ?thesis using assms view_stop_events [of w tr0 own l tr l'] by (auto split: prod.splits)
qed (use assms in \<open>auto simp: same_layer_def\<close>)

lemma view_run_events:
  assumes "view_run w (tr0 @ own, r, l) calls = (tr, r', l')" "layer_events l own"
  shows "same_layer l l' \<and> (\<exists>own'. tr = tr0 @ own' \<and> layer_events l' own')"
  using assms
proof (induction calls arbitrary: own r l)
  case Nil
  then show ?case by (auto simp: view_run_def same_layer_def)
next
  case (Cons c calls)
  obtain tr1 r1 l1 where s: "view_step w (tr0 @ own, r, l) c = (tr1, r1, l1)" by (rule prod_cases3)
  from view_step_events [OF s Cons.prems(2)] obtain own1 where o1: "same_layer l l1" "tr1 = tr0 @ own1" "layer_events l1 own1" by blast
  have "view_run w (tr0 @ own1, r1, l1) calls = (tr, r', l')" using Cons.prems(1) s o1(2) by (simp add: view_run_def)
  from Cons.IH [OF this o1(3)] show ?case using same_layer_trans [OF o1(1)] by blast
qed

lemma view_run_stopped: "vl_state l = ViewStopped \<Longrightarrow> fst (view_run w (tr, r, l) calls) = tr"
proof (induction calls arbitrary: r)
  case (Cons c calls)
  then show ?case by (cases c) (simp_all add: view_run_def view_start_def view_stop_def)
qed (simp add: view_run_def)

lemma view_prepare_ok:
  "view_prepare token_hash r c sq = (sq', Inr l) \<Longrightarrow>
     vl_state l = ViewPrepared \<and> at_id (vl_attachment l) = vl_id l \<and> registry_portable r = Inr (Some (vl_surface l))
     \<and> rl_aux (px_layer c) = portable_surface
     \<and> (\<exists>v. view_decode (rl_content (px_layer c)) = Inr v
          \<and> map (\<lambda>a. (as_path a, as_bytes a)) (at_assets (vl_attachment l)) = map (\<lambda>f. (vf_path f, vf_bytes f)) (vb_files v))"
  by (auto simp: view_prepare_def Let_def attachment_id_def bindE_eq_Inr resolve_surface_def map_err_eq_Inr ok_or_eq_Inr validate_surface_def
      split: sum.splits prod.splits if_splits)

text \<open>
  C37 The life of a View on its host. A layer is prepared only for the portable surface and with content
  that decodes, and holds the files of that bundle and the surface registered at the time. Whatever calls
  follow, in any order and with the registry changing in between, it keeps both, and all it ever does to
  surfaces is on that one: attempts to attach its files until one succeeds, then attempts to detach the
  same attachment until one succeeds. Once it has stopped it never touches a surface again.
\<close>
theorem view_layer_lifecycle:
  assumes "view_prepare token_hash r0 c sq = (sq', Inr l)" "view_run w (tr0, r, l) calls = (tr, r', l')"
  shows "rl_aux (px_layer c) = portable_surface \<and> registry_portable r0 = Inr (Some (vl_surface l)) \<and> at_id (vl_attachment l) = vl_id l
     \<and> (\<exists>v. view_decode (rl_content (px_layer c)) = Inr v
          \<and> map (\<lambda>a. (as_path a, as_bytes a)) (at_assets (vl_attachment l)) = map (\<lambda>f. (vf_path f, vf_bytes f)) (vb_files v))
     \<and> l' = l\<lparr>vl_state := vl_state l'\<rparr> \<and> (\<exists>own. tr = tr0 @ own \<and> layer_events l' own)
     \<and> (vl_state l' = ViewStopped \<longrightarrow> fst (view_run w (tr, r', l') more_calls) = tr)"
proof -
  have p: "vl_state l = ViewPrepared" using view_prepare_ok [OF assms(1)] by blast
  then have "layer_events l []" by (auto simp: layer_events_def)
  then have "same_layer l l' \<and> (\<exists>own. tr = tr0 @ own \<and> layer_events l' own)"
    using view_run_events [of w tr0 "[]" r l calls tr r' l'] assms(2) by simp
  then show ?thesis using view_prepare_ok [OF assms(1)] view_run_stopped by (simp add: same_layer_def)
qed

definition demo_view_content :: bytes where
  "demo_view_content = bundle_layout \<lparr>vb_version = 1, vb_entry = ''index.html'', vb_files = [\<lparr>vf_path = ''index.html'', vf_bytes = [60, 62]\<rparr>]\<rparr>"

definition demo_view_context :: layer_prepare_context where
  "demo_view_context = \<lparr>px_identity = \<lparr>archive_kappa = ''a'', archive_fingerprint = ''f'', application_kappa = ''k''\<rparr>,
     px_grant = \<lparr>eg_kappa = ''g'', eg_canonical = [], eg_capabilities = empty_capabilities, eg_source = LocalBaseline\<rparr>,
     px_requested = \<lparr>co_kappa = ''q'', co_canonical = [], co_capabilities = empty_capabilities\<rparr>,
     px_layer = \<lparr>rl_position = 1, rl_kind = ViewLayer, rl_content_kappa = ''c'', rl_entry = [], rl_aux = ''portable'', rl_primary = False,
       rl_content = demo_view_content, rl_resolution_source = Embedded, rl_provider = ''portable-view''\<rparr>,
     px_target = Direct, px_intents = 0\<rparr>"

definition demo_surfaces :: surface_world where
  "demo_surfaces = \<lparr>sw_attach = \<lambda>_ _ _. Inr (), sw_detach = \<lambda>tr _ _. if length tr = 1 then Inl ''busy'' else Inr ()\<rparr>"

lemma demo_view_decodes:
  "view_decode demo_view_content = Inr \<lparr>vb_version = 1, vb_entry = ''index.html'', vb_files = [\<lparr>vf_path = ''index.html'', vf_bytes = [60, 62]\<rparr>]\<rparr>"
proof -
  have "is_ok (portable_path ''index.html'')" by code_simp
  then show ?thesis by (simp add: view_decode_iff demo_view_content_def bundle_ok_def short_paths_def max_file_bytes_def max_bundle_bytes_def)
qed

theorem view_layer_lifecycle_witness:
  "\<exists>l l' own. view_prepare (\<lambda>_. ''t'') \<lparr>sr_portable = Some 5, sr_poisoned = False\<rparr> demo_view_context 1 = (2, Inr l)
     \<and> vl_surface l = 5 \<and> vl_state l' = ViewStopped \<and> length own = 3 \<and> layer_events l' own"
proof -
  obtain l where l: "view_prepare (\<lambda>_. ''t'') \<lparr>sr_portable = Some 5, sr_poisoned = False\<rparr> demo_view_context 1 = (2, Inr l)"
      "vl_surface l = 5" "vl_state l = ViewPrepared"
    by (simp add: view_prepare_def demo_view_context_def validate_surface_def portable_surface_def demo_view_decodes resolve_surface_def
        registry_portable_def ok_or_def attachment_id_def Let_def)
  have run: "view_run demo_surfaces ([], surfaces_new, l) [CallStart, CallStop, Unregister, CallStop]
      = ([Attached 5 (vl_attachment l), DetachFailed 5 (vl_id l), Detached 5 (vl_id l)], surfaces_new, l\<lparr>vl_state := ViewStopped\<rparr>)"
    using l by (simp add: view_run_def view_start_def view_stop_def demo_surfaces_def unregister_portable_def surfaces_new_def)
  from view_layer_lifecycle [OF l(1) run] have "layer_events (l\<lparr>vl_state := ViewStopped\<rparr>)
      [Attached 5 (vl_attachment l), DetachFailed 5 (vl_id l), Detached 5 (vl_id l)]" by simp
  then show ?thesis using l by (intro exI [of _ l] exI [of _ "l\<lparr>vl_state := ViewStopped\<rparr>"]
      exI [of _ "[Attached 5 (vl_attachment l), DetachFailed 5 (vl_id l), Detached 5 (vl_id l)]"]) simp
qed

end
