(* ===== verification/Holo_Providers.thy ===== *)
theory Holo_Providers
  imports Component_Host Wasm_Guest Python_Runtime View_Provider Plan_Properties
begin

text \<open>
  The two provider registries of \<open>src/holo.rs\<close> (\<open>direct_registry\<close>, \<open>resident_registry\<close>): which providers they
  hold, that they are accepted, and exactly which layers are available under each. What a preparation does
  is modelled with each provider; here it is a parameter.
\<close>

section \<open>The registries\<close>

record preparations =
  pr_wasm :: "wasm_provider \<Rightarrow> layer_trace \<Rightarrow> layer_prepare_context \<Rightarrow> nat live_result"
  pr_component :: "component_provider \<Rightarrow> layer_trace \<Rightarrow> layer_prepare_context \<Rightarrow> nat live_result"
  pr_python :: "layer_trace \<Rightarrow> layer_prepare_context \<Rightarrow> nat live_result"
  pr_view :: "surface_registry \<Rightarrow> layer_trace \<Rightarrow> layer_prepare_context \<Rightarrow> nat live_result"

definition wasm_layers :: "wasm_contracts \<Rightarrow> preparations \<Rightarrow> wasm_provider \<Rightarrow> layer_provider" where
  "wasm_layers wc pr p = \<lparr>lp_kind = WasmCodemodule, lp_contract = wasm_contract wc p, lp_name = wasm_name p,
     lp_availability = wasm_availability p, lp_prepare = pr_wasm pr p\<rparr>"

definition component_layers :: "wasm_contracts \<Rightarrow> preparations \<Rightarrow> component_provider \<Rightarrow> layer_provider" where
  "component_layers wc pr p = \<lparr>lp_kind = WasmCodemodule, lp_contract = component_contract wc p, lp_name = component_name p,
     lp_availability = component_availability p, lp_prepare = pr_component pr p\<rparr>"

definition python_layers :: "preparations \<Rightarrow> layer_provider" where
  "python_layers pr = \<lparr>lp_kind = RootfsImage, lp_contract = None, lp_name = ''python-oci-direct'',
     lp_availability = python_availability, lp_prepare = pr_python pr\<rparr>"

definition view_layers :: "preparations \<Rightarrow> surface_registry \<Rightarrow> layer_provider" where
  "view_layers pr surfaces = \<lparr>lp_kind = ViewLayer, lp_contract = None, lp_name = ''portable-view'',
     lp_availability = view_availability surfaces, lp_prepare = pr_view pr surfaces\<rparr>"

text \<open>The Component providers of a target, with or without an object store.\<close>

definition component_providers :: "provider_target \<Rightarrow> bool \<Rightarrow> component_provider list" where
  "component_providers target object_store =
     [component_new target, provider_store_read target object_store, provider_store_graph_read target object_store,
      provider_store_write target object_store, provider_channel target ChannelPublish, provider_channel target ChannelSubscribe,
      provider_network_fetch target]"

definition direct_registry ::
  "wasm_contracts \<Rightarrow> preparations \<Rightarrow> surface_registry \<Rightarrow> bool \<Rightarrow> provider_registry live_result"
where
  "direct_registry wc pr view_surfaces object_store =
     providers_new wc Direct (wasm_layers wc pr wasm_direct # map (component_layers wc pr) (component_providers Direct object_store)
       @ [python_layers pr, view_layers pr view_surfaces])"

definition resident_registry ::
  "wasm_contracts \<Rightarrow> preparations \<Rightarrow> bool \<Rightarrow> nat \<Rightarrow> bool \<Rightarrow> provider_registry live_result"
where
  "resident_registry wc pr root mailbox_capacity object_store =
     providers_new wc Resident (wasm_layers wc pr (wasm_resident root mailbox_capacity)
       # map (component_layers wc pr) (component_providers Resident object_store) @ [view_layers pr surfaces_new])"

section \<open>What is available\<close>

definition all_profiles :: "component_profile list" where
  "all_profiles = [ImportFree, StoreRead, StoreGraphRead, StoreWrite, ChannelPublish, ChannelSubscribe, NetworkFetch]"

text \<open>The provider a layer runs under, if any. A Component layer must have the one entry of its contract.\<close>

definition available_provider :: "wasm_contracts \<Rightarrow> surface_registry \<Rightarrow> provider_target \<Rightarrow> provider_context \<Rightarrow> string option" where
  "available_provider wc surfaces target c =
     (case pc_kind c of
        WasmCodemodule \<Rightarrow>
          if pc_aux c = wc_core wc then Some (case target of Direct \<Rightarrow> ''wasmtime-direct'' | Resident \<Rightarrow> ''wasmtime-resident'')
          else (case find (\<lambda>p. profile_contract wc p = pc_aux c) all_profiles of
                  Some p \<Rightarrow> if pc_entry c = component_v1_entry then Some (component_name_of target p) else None
                | None \<Rightarrow> None)
      | RootfsImage \<Rightarrow> if target = Direct \<and> is_python_rootfs (pc_content c) then Some ''python-oci-direct'' else None
      | ViewLayer \<Rightarrow> if target = Direct \<and> is_ok (view_availability surfaces c Direct) then Some ''portable-view'' else None
      | _ \<Rightarrow> None)"

definition answers_as :: "provider_availability \<Rightarrow> string option \<Rightarrow> bool" where
  "answers_as a expected \<longleftrightarrow>
     (case expected of Some name \<Rightarrow> a = Available name | None \<Rightarrow> (\<exists>reason. a = Unavailable reason))"

section \<open>Both registries\<close>

lemma registry_accepted:
  "list_all (selector_ok wc) ps \<Longrightarrow> distinct (map selector ps) \<Longrightarrow> providers_new wc target ps = Inr \<lparr>reg_target = target, reg_providers = ps\<rparr>"
  using check_providers_ok [of wc target "[]" ps "()"] by (simp add: providers_new_def)

lemmas provider_layer_defs = wasm_layers_def component_layers_def python_layers_def view_layers_def component_providers_def
  component_new_def provider_store_read_def provider_store_graph_read_def provider_store_write_def provider_channel_def
  provider_network_fetch_def wasm_direct_def wasm_resident_def wasm_contract_def component_contract_def

lemma direct_accepted:
  assumes "distinct (contract_list wc)"
  shows "direct_registry wc pr surfaces os = Inr \<lparr>reg_target = Direct, reg_providers = wasm_layers wc pr wasm_direct
     # map (component_layers wc pr) (component_providers Direct os) @ [python_layers pr, view_layers pr surfaces]\<rparr>"
  unfolding direct_registry_def
  by (rule registry_accepted) (use assms in \<open>simp_all add: provider_layer_defs selector_ok_def selector_def contract_list_def\<close>)

lemma resident_accepted:
  assumes "distinct (contract_list wc)"
  shows "resident_registry wc pr root n os = Inr \<lparr>reg_target = Resident, reg_providers = wasm_layers wc pr (wasm_resident root n)
     # map (component_layers wc pr) (component_providers Resident os) @ [view_layers pr surfaces_new]\<rparr>"
  unfolding resident_registry_def
  by (rule registry_accepted) (use assms in \<open>simp_all add: provider_layer_defs selector_ok_def selector_def contract_list_def\<close>)

lemma profile_contracts: "contract_list wc = wc_core wc # map (profile_contract wc) all_profiles"
  by (simp add: contract_list_def all_profiles_def)

lemma headless_view: "\<exists>e. view_availability surfaces_new c target = Inl e"
proof -
  have "\<not> is_ok (view_availability surfaces_new c target)"
    by (auto simp: view_availability_def resolve_surface_def registry_portable_def surfaces_new_def is_ok_iff bindE_eq_Inr)
  then show ?thesis by (cases "view_availability surfaces_new c target") (auto simp: is_ok_def)
qed

text \<open>A Wasm contract the registry knows is answered by exactly its provider.\<close>

lemma wasm_selected:
  assumes "distinct (contract_list wc)" and "reg_providers reg = wasm_layers wc pr wp # map (component_layers wc pr) (component_providers target os) @ rest"
    and "wp_target wp = target" and "reg_target reg = target" and "pc_kind c = WasmCodemodule"
  shows "answers_as (registry_availability wc reg c) (available_provider wc surfaces target c)"
proof -
  consider "pc_aux c \<notin> set (contract_list wc)" | "pc_aux c = wc_core wc" | p where "p \<in> set all_profiles" "pc_aux c = profile_contract wc p"
    using profile_contracts [of wc] by auto
  then show ?thesis
  proof cases
    case 1
    then have "\<exists>e. normalize_wasm_contract wc (pc_aux c) = Inl e" using normalize_wasm_contract_Inr [of wc "pc_aux c"]
      by (cases "normalize_wasm_contract wc (pc_aux c)") auto
    moreover have "available_provider wc surfaces target c = None" using 1 assms(5)
      by (auto simp: available_provider_def contract_list_def all_profiles_def)
    ultimately show ?thesis using assms(5) by (auto simp: answers_as_def registry_availability_def provider_select_def)
  next
    case 2
    then have "normalize_wasm_contract wc (pc_aux c) = Inr (pc_aux c)" by (simp add: normalize_wasm_contract_Inr contract_list_def)
    then show ?thesis using 2 assms
      by (auto simp: answers_as_def registry_availability_def provider_select_def available_provider_def wasm_layers_def wasm_contract_def
          wasm_availability_def wasm_name_def)
  next
    case 3
    then have "normalize_wasm_contract wc (pc_aux c) = Inr (pc_aux c)" by (auto simp: normalize_wasm_contract_Inr profile_contracts)
    note n = this
    have d: "distinct [wc_core wc, wc_component wc, wc_store_read wc, wc_store_graph_read wc, wc_store_write wc,
        wc_channel_publish wc, wc_channel_subscribe wc, wc_network_fetch wc]" using assms(1) by (simp only: contract_list_def)
    have "find (\<lambda>q. lp_kind q = WasmCodemodule \<and> lp_contract q = Some (pc_aux c)) (reg_providers reg)
        = map_option (component_layers wc pr) (find (\<lambda>q. cp_profile q = p) (component_providers target os))"
      using d 3(2) assms(2) by (cases p) (simp_all add: provider_layer_defs)
    moreover have "\<exists>q. find (\<lambda>q. cp_profile q = p) (component_providers target os) = Some q \<and> cp_profile q = p \<and> cp_target q = target"
      by (cases p) (simp_all add: provider_layer_defs)
    ultimately obtain q where q: "find (\<lambda>q. lp_kind q = WasmCodemodule \<and> lp_contract q = Some (pc_aux c)) (reg_providers reg) = Some (component_layers wc pr q)"
      "cp_profile q = p" "cp_target q = target" by auto
    have core: "pc_aux c \<noteq> wc_core wc" using d 3(2) by (cases p) auto
    have profile: "find (\<lambda>q. profile_contract wc q = pc_aux c) all_profiles = Some p"
      unfolding 3(2) all_profiles_def using d by (cases p) simp_all
    show ?thesis using n q core profile assms(4,5)
      by (simp add: answers_as_def registry_availability_def provider_select_def available_provider_def component_layers_def
          component_availability_def component_name_def)
  qed
qed

text \<open>
  Both registries are accepted, and what each can run is exact. With eight distinct contract
  identifiers, the direct and the resident registry are accepted, and a layer is available under a
  registry exactly as follows: a core Wasm layer always; a Component layer of each of the seven
  profiles exactly when its entry is the one the contract fixes; a root filesystem exactly under direct
  execution and with the bundle's magic; a View exactly under direct execution with a decodable
  bundle, its surface kind and a registered surface; tensor plans and inference models never. The name it
  is available under is that of the one provider of its kind and contract.
\<close>
theorem provider_registries_exact:
  assumes "distinct (contract_list wc)"
  shows "\<exists>d r. direct_registry wc pr surfaces object_store = Inr d \<and> resident_registry wc pr root n object_store = Inr r
     \<and> (\<forall>c. answers_as (registry_availability wc d c) (available_provider wc surfaces Direct c)
          \<and> answers_as (registry_availability wc r c) (available_provider wc surfaces Resident c))"
proof -
  let ?d = "\<lparr>reg_target = Direct, reg_providers = wasm_layers wc pr wasm_direct
     # map (component_layers wc pr) (component_providers Direct object_store) @ [python_layers pr, view_layers pr surfaces]\<rparr>"
  let ?r = "\<lparr>reg_target = Resident, reg_providers = wasm_layers wc pr (wasm_resident root n)
     # map (component_layers wc pr) (component_providers Resident object_store) @ [view_layers pr surfaces_new]\<rparr>"
  have "answers_as (registry_availability wc ?d c) (available_provider wc surfaces Direct c)
     \<and> answers_as (registry_availability wc ?r c) (available_provider wc surfaces Resident c)" for c
  proof (cases "pc_kind c = WasmCodemodule")
    case True
    then show ?thesis using wasm_selected [OF assms, of ?d pr wasm_direct Direct] wasm_selected [OF assms, of ?r pr "wasm_resident root n" Resident]
      by (simp add: wasm_direct_def wasm_resident_def)
  next
    case False
    obtain e where e: "view_availability surfaces_new c Resident = Inl e" using headless_view by blast
    then show ?thesis using False
      by (cases "pc_kind c"; cases "view_availability surfaces c Direct")
        (simp_all add: answers_as_def registry_availability_def provider_select_def available_provider_def provider_layer_defs python_availability_def)
  qed
  then show ?thesis using direct_accepted [OF assms] resident_accepted [OF assms] by blast
qed

theorem provider_registries_exact_witness:
  "\<forall>pr. \<exists>d r. direct_registry demo_contracts pr surfaces_new True = Inr d \<and> resident_registry demo_contracts pr True 4 True = Inr r
     \<and> registry_availability demo_contracts r \<lparr>pc_application_kappa = [], pc_position = 0, pc_kind = WasmCodemodule, pc_entry = ''run'',
          pc_aux = wc_store_write demo_contracts, pc_primary = True, pc_layer_count = 1, pc_content = []\<rparr>
       = Available ''wasmtime-component-store-write-resident''"
proof
  fix pr
  let ?c = "\<lparr>pc_application_kappa = [], pc_position = 0, pc_kind = WasmCodemodule, pc_entry = ''run'',
          pc_aux = wc_store_write demo_contracts, pc_primary = True, pc_layer_count = 1, pc_content = []\<rparr>"
  have d: "distinct (contract_list demo_contracts)" by (simp add: contract_list_def demo_contracts_def)
  have "available_provider demo_contracts surfaces_new Resident ?c = Some ''wasmtime-component-store-write-resident''"
    by (simp add: available_provider_def demo_contracts_def all_profiles_def component_v1_entry_def)
  moreover obtain dr r where r: "direct_registry demo_contracts pr surfaces_new True = Inr dr" "resident_registry demo_contracts pr True 4 True = Inr r"
    "answers_as (registry_availability demo_contracts r ?c) (available_provider demo_contracts surfaces_new Resident ?c)"
    using provider_registries_exact [OF d, of pr surfaces_new True True 4] by blast
  ultimately have "registry_availability demo_contracts r ?c = Available ''wasmtime-component-store-write-resident''" by (simp add: answers_as_def)
  then show "\<exists>d r. direct_registry demo_contracts pr surfaces_new True = Inr d \<and> resident_registry demo_contracts pr True 4 True = Inr r
     \<and> registry_availability demo_contracts r ?c
       = Available ''wasmtime-component-store-write-resident''"
    using r(1,2) by blast
qed

end
