(* ===== verification/Rootfs_Archive.thy ===== *)
theory Rootfs_Archive
  imports View_Bundle Json "HOL-Library.Multiset"
begin

text \<open>
  The canonical Docker archive of a Python root filesystem (\<open>src/holo_rootfs_archive.rs\<close>): reading the
  regular members of an archive under its limits, rebuilding it with content-addressed members, and
  writing it with fixed headers. The \<open>tar\<close> format, the JSON form of the manifest and SHA-256 are
  third-party code and parameters.
\<close>

section \<open>Third-party code\<close>

datatype tar_type = TarDirectory | TarRegular | TarOther

record tar_entry =
  te_type :: tar_type
  te_path :: "string + string"
  te_size :: nat
  te_contents :: "string + bytes"

text \<open>The header fields the code sets.\<close>

record tar_header =
  th_mode :: nat
  th_uid :: nat
  th_gid :: nat
  th_mtime :: nat
  th_size :: nat

record docker_manifest =
  dm_config :: string
  dm_repo_tags :: "string list"
  dm_layers :: "string list"

record archive_lib =
  tb_entries :: "bytes \<Rightarrow> string + (string + tar_entry) list"
  tb_member :: "tar_header \<Rightarrow> string \<Rightarrow> bytes \<Rightarrow> string + bytes"
  tb_trailer :: "string + bytes"
  tb_manifest_decode :: "bytes \<Rightarrow> string + docker_manifest list"
  tb_manifest_encode :: "docker_manifest list \<Rightarrow> bytes"
  tb_sha256 :: "bytes \<Rightarrow> bytes"

section \<open>Reading\<close>

definition max_archive_bytes :: nat where
  "max_archive_bytes = 2 * 1024 * 1024 * 1024"

definition normal_component :: "path_component \<Rightarrow> bool" where
  "normal_component c \<longleftrightarrow> (case c of Normal _ \<Rightarrow> True | _ \<Rightarrow> False)"

definition validate_path :: "string \<Rightarrow> unit live_result" where
  "validate_path path =
     (if path = [] \<or> list_ex (\<lambda>c. \<not> normal_component c) (path_components path)
      then Inl (Protocol (''Docker archive contains unsafe member path '' @ path)) else Inr ())"

text \<open>Members by path; paths are equal when their components are.\<close>

type_synonym member_map = "path_component list \<rightharpoonup> bytes"

fun read_entries :: "nat \<Rightarrow> member_map \<Rightarrow> (string + tar_entry) list \<Rightarrow> member_map live_result" where
  "read_entries total' files [] = Inr files"
| "read_entries total' files (Inl e # es) = Inl (Protocol (''read Docker archive entry: '' @ e))"
| "read_entries total' files (Inr t # es) =
     (if te_type t = TarDirectory then read_entries total' files es
      else if te_type t \<noteq> TarRegular then Inl (Protocol ''Docker archive contains a non-file member'')
      else
        bindE (map_err (\<lambda>e. Protocol (''decode Docker archive path: '' @ e)) (te_path t)) (\<lambda>path.
        bindE (validate_path path) (\<lambda>_.
        bindE (ok_or (Protocol ''Docker archive expanded size overflowed'') (checked_add64 total' (te_size t))) (\<lambda>sum'.
        if sum' > max_archive_bytes then Inl (Protocol (''Docker archive expands beyond '' @ show_nat max_archive_bytes @ '' bytes''))
        else
          bindE (map_err (\<lambda>e. Protocol (''read Docker archive member: '' @ e)) (te_contents t)) (\<lambda>contents.
          if files (path_components path) \<noteq> None then Inl (Protocol (''Docker archive contains duplicate member '' @ path))
          else read_entries sum' (files(path_components path \<mapsto> contents)) es)))))"

definition read_regular_files :: "archive_lib \<Rightarrow> bytes \<Rightarrow> member_map live_result" where
  "read_regular_files al b =
     bindE (map_err (\<lambda>e. Protocol (''read Docker archive: '' @ e)) (tb_entries al b)) (read_entries 0 Map.empty)"

definition required_member :: "member_map \<Rightarrow> string \<Rightarrow> string \<Rightarrow> bytes live_result" where
  "required_member files path kind =
     bindE (validate_path path) (\<lambda>_.
       ok_or (Protocol (''Docker archive is missing '' @ kind @ '' '' @ path)) (files (path_components path)))"

section \<open>Rebuilding\<close>

definition sha256_hex :: "archive_lib \<Rightarrow> bytes \<Rightarrow> string" where
  "sha256_hex al b = hex (tb_sha256 al b)"

definition blob_member :: "archive_lib \<Rightarrow> bytes \<Rightarrow> string" where
  "blob_member al contents = ''blobs/sha256/'' @ sha256_hex al contents"

text \<open>The paths of the new archive are \<open>manifest.json\<close> and digests below one directory, on which the order
  of the strings is that of their components.\<close>

fun insert_layers :: "archive_lib \<Rightarrow> member_map \<Rightarrow> string list \<Rightarrow> (string \<times> bytes) list \<Rightarrow> ((string \<times> bytes) list \<times> string list) live_result" where
  "insert_layers al files [] out = Inr (out, [])"
| "insert_layers al files (l # ls) out =
     bindE (required_member files l ''layer'') (\<lambda>contents.
     bindE (insert_layers al files ls (map_insert (blob_member al contents) contents out)) (\<lambda>(out', paths).
     Inr (out', blob_member al contents # paths)))"

definition manifest_path :: string where
  "manifest_path = ''manifest.json''"

definition one_manifest :: "archive_lib \<Rightarrow> member_map \<Rightarrow> string \<Rightarrow> docker_manifest live_result" where
  "one_manifest al files expected_tag =
     bindE (ok_or (Protocol ''Docker archive is missing manifest.json'') (files (path_components manifest_path))) (\<lambda>b.
     bindE (map_err (\<lambda>e. Protocol (''decode Docker archive manifest: '' @ e)) (tb_manifest_decode al b)) (\<lambda>ms.
     case ms of
       [m] \<Rightarrow>
         (let tags = remdups_adj (sort (dm_repo_tags m)) in
          if \<not> list_ex (\<lambda>tag. tag = expected_tag) tags
          then Inl (Protocol (''Docker archive does not contain expected tag '' @ expected_tag))
          else Inr (m\<lparr>dm_repo_tags := tags\<rparr>))
     | _ \<Rightarrow> Inl (Protocol (''Docker archive contains '' @ show_nat (length ms) @ '' images; expected exactly one''))))"

definition normalized_files :: "archive_lib \<Rightarrow> string \<Rightarrow> member_map \<Rightarrow> (string \<times> (string \<times> bytes) list) live_result" where
  "normalized_files al expected_tag files =
     bindE (one_manifest al files expected_tag) (\<lambda>m.
     bindE (required_member files (dm_config m) ''image config'') (\<lambda>config.
     bindE (insert_layers al files (dm_layers m) [(blob_member al config, config)]) (\<lambda>(out, layers).
     Inr (''sha256:'' @ sha256_hex al config,
          map_insert manifest_path (tb_manifest_encode al [m\<lparr>dm_config := blob_member al config, dm_layers := layers\<rparr>]) out))))"

section \<open>Writing\<close>

text \<open>The mode is octal 644.\<close>

definition member_header :: "bytes \<Rightarrow> tar_header" where
  "member_header contents = \<lparr>th_mode = 420, th_uid = 0, th_gid = 0, th_mtime = 0, th_size = length contents\<rparr>"

fun write_members :: "archive_lib \<Rightarrow> (string \<times> bytes) list \<Rightarrow> bytes live_result" where
  "write_members al [] = map_err (\<lambda>e. Io (''finish normalized Docker archive: '' @ e)) (tb_trailer al)"
| "write_members al ((path, contents) # ms) =
     bindE (map_err (\<lambda>e. Io (''write normalized Docker archive member '' @ path @ '': '' @ e))
              (tb_member al (member_header contents) path contents)) (\<lambda>b.
     bindE (write_members al ms) (\<lambda>rest. Inr (b @ rest)))"

record normalized_archive =
  na_bytes :: bytes
  na_image_id :: string

definition normalize_archive :: "archive_lib \<Rightarrow> bytes \<Rightarrow> string \<Rightarrow> normalized_archive live_result" where
  "normalize_archive al b expected_tag =
     bindE (read_regular_files al b) (\<lambda>files.
     bindE (normalized_files al expected_tag files) (\<lambda>(image_id, members).
     bindE (write_members al members) (\<lambda>out. Inr \<lparr>na_bytes = out, na_image_id = image_id\<rparr>)))"


section \<open>Reading is a function of the set of members\<close>

text \<open>What the code relies on: an archive of the paths it writes reads back, and so does a manifest; a SHA-256
  digest has 32 bytes.\<close>

definition written_path :: "archive_lib \<Rightarrow> string \<Rightarrow> bool" where
  "written_path al p \<longleftrightarrow> p = manifest_path \<or> (\<exists>c. p = blob_member al c)"

definition member_entry :: "string \<times> bytes \<Rightarrow> tar_entry" where
  "member_entry m = \<lparr>te_type = TarRegular, te_path = Inr (fst m), te_size = length (snd m), te_contents = Inr (snd m)\<rparr>"

definition archive_lib_ok :: "archive_lib \<Rightarrow> bool" where
  "archive_lib_ok al \<longleftrightarrow>
     (\<forall>ms b. write_members al ms = Inr b \<longrightarrow> list_all (written_path al \<circ> fst) ms \<longrightarrow>
        tb_entries al b = Inr (map (Inr \<circ> member_entry) ms))
     \<and> (\<forall>ms. tb_manifest_decode al (tb_manifest_encode al ms) = Inr ms)
     \<and> (\<forall>b. length (tb_sha256 al b) = 32)"

text \<open>A member that can be read, with its key and contents.\<close>

fun entry_member :: "string + tar_entry \<Rightarrow> (path_component list \<times> bytes) option" where
  "entry_member (Inl e) = None"
| "entry_member (Inr t) =
     (case (te_path t, te_contents t) of
        (Inr p, Inr c) \<Rightarrow> if te_type t = TarRegular \<and> validate_path p = Inr () then Some (path_components p, c) else None
      | _ \<Rightarrow> None)"

fun is_directory :: "string + tar_entry \<Rightarrow> bool" where
  "is_directory (Inl e) = False"
| "is_directory (Inr t) = (te_type t = TarDirectory)"

fun entry_size :: "string + tar_entry \<Rightarrow> nat" where
  "entry_size (Inl e) = 0"
| "entry_size (Inr t) = te_size t"

definition file_entries :: "(string + tar_entry) list \<Rightarrow> (string + tar_entry) list" where
  "file_entries es = filter (\<lambda>e. \<not> is_directory e) es"

definition entry_pairs :: "(string + tar_entry) list \<Rightarrow> (path_component list \<times> bytes) list" where
  "entry_pairs es = map (\<lambda>e. the (entry_member e)) (file_entries es)"

definition readable_entries :: "nat \<Rightarrow> member_map \<Rightarrow> (string + tar_entry) list \<Rightarrow> bool" where
  "readable_entries t files es \<longleftrightarrow>
     (\<forall>e \<in> set (file_entries es). entry_member e \<noteq> None)
     \<and> (t \<le> max_archive_bytes \<longrightarrow> t + (\<Sum>e \<leftarrow> file_entries es. entry_size e) \<le> max_archive_bytes)
     \<and> distinct (map fst (entry_pairs es)) \<and> fst ` set (entry_pairs es) \<inter> dom files = {}"

lemma readable_step:
  fixes t n m S S' :: nat
  assumes "A = A'" "S = n + S'" "ks = k # ks'" "files k = None" "t + n \<le> m" "t \<le> m"
  shows "(A \<and> (t \<le> m \<longrightarrow> t + S \<le> m) \<and> distinct ks \<and> set ks \<inter> dom files = {})
     = (A' \<and> (t + n \<le> m \<longrightarrow> t + n + S' \<le> m) \<and> distinct ks' \<and> set ks' \<inter> dom (files(k \<mapsto> c)) = {})"
  using assms by (auto simp: add.assoc)

lemma read_entries_exact:
  "t \<le> max_archive_bytes \<Longrightarrow>
     (\<exists>f. read_entries t files es = Inr f) = readable_entries t files es
     \<and> (\<forall>f. read_entries t files es = Inr f \<longrightarrow> f = files ++ map_of (entry_pairs es))"
proof (induction es arbitrary: t files)
  case Nil
  then show ?case by (simp add: readable_entries_def file_entries_def entry_pairs_def)
next
  case (Cons e es)
  show ?case
  proof (cases "entry_member e")
    case None
    show ?thesis
    proof (cases e)
      case (Inr x)
      show ?thesis
      proof (cases "te_type x = TarDirectory")
        case True
        then show ?thesis using Cons Inr by (simp add: readable_entries_def file_entries_def entry_pairs_def)
      next
        case False
        then show ?thesis using None Inr
          by (cases "te_path x"; cases "te_contents x")
            (auto simp: readable_entries_def file_entries_def bindE_eq_Inr split: if_splits)
      qed
    qed (use None in \<open>simp add: readable_entries_def file_entries_def\<close>)
  next
    case (Some kv)
    then obtain x p c where x: "e = Inr x" "te_path x = Inr p" "te_contents x = Inr c" "te_type x = TarRegular" "validate_path p = Inr ()"
      "kv = (path_components p, c)" by (cases e) (auto split: sum.splits if_splits)
    let ?k = "path_components p" and ?t = "t + te_size x"
    have pairs: "file_entries (Inr x # es) = Inr x # file_entries es" "entry_pairs (Inr x # es) = (?k, c) # entry_pairs es"
      using x Some by (simp_all add: file_entries_def entry_pairs_def)
    show ?thesis
    proof (cases "?t \<le> max_archive_bytes \<and> files ?k = None")
      case True
      have "?t \<le> u64_max" using True by (simp add: max_archive_bytes_def)
      then have step: "read_entries t files (e # es) = read_entries ?t (files(?k \<mapsto> c)) es"
        using x True by (simp add: checked_add64_def)
      have all: "(\<forall>e' \<in> set (file_entries (e # es)). entry_member e' \<noteq> None) = (\<forall>e' \<in> set (file_entries es). entry_member e' \<noteq> None)"
        and sizes: "(\<Sum>e' \<leftarrow> file_entries (e # es). entry_size e') = te_size x + (\<Sum>e' \<leftarrow> file_entries es. entry_size e')"
        and keys: "map fst (entry_pairs (e # es)) = ?k # map fst (entry_pairs es)"
        using Some unfolding x(1) pairs by (simp_all del: not_None_eq)
      have eq: "readable_entries t files (e # es) = readable_entries ?t (files(?k \<mapsto> c)) es"
        unfolding readable_entries_def set_map [symmetric]
        by (rule readable_step [OF all sizes keys]) (use True Cons.prems in auto)
      have files': "files(?k \<mapsto> c) ++ map_of (entry_pairs es) = files ++ map_of (entry_pairs (Inr x # es))"
        if "readable_entries ?t (files(?k \<mapsto> c)) es"
      proof -
        have "?k \<notin> dom (map_of (entry_pairs es))" using that by (auto simp: readable_entries_def dom_map_of_conv_image_fst)
        then show ?thesis by (auto simp: pairs map_add_def fun_eq_iff split: option.splits)
      qed
      have "?t \<le> max_archive_bytes" using True by simp
      note ih = Cons.IH [OF this, of "files(?k \<mapsto> c)"]
      show ?thesis
      proof (intro conjI allI impI)
        show "(\<exists>f. read_entries t files (e # es) = Inr f) = readable_entries t files (e # es)" unfolding step eq using ih by (rule conjunct1)
        fix f assume "read_entries t files (e # es) = Inr f"
        then have "read_entries ?t (files(?k \<mapsto> c)) es = Inr f" by (simp only: step)
        then have "readable_entries ?t (files(?k \<mapsto> c)) es" "f = files(?k \<mapsto> c) ++ map_of (entry_pairs es)" using ih by blast+
        then show "f = files ++ map_of (entry_pairs (e # es))" using files' x(1) by simp
      qed
    next
      case False
      then have "\<not> readable_entries t files (e # es)" using x Cons.prems by (auto simp: readable_entries_def pairs)
      moreover have "\<nexists>f. read_entries t files (e # es) = Inr f" using False x by (auto simp: bindE_eq_Inr split: if_splits)
      ultimately show ?thesis by auto
    qed
  qed
qed

text \<open>Two archives with the same entries in any order read alike.\<close>

lemma read_permuted:
  assumes "read_entries 0 Map.empty es = Inr f" and "mset es' = mset es"
  shows "read_entries 0 Map.empty es' = Inr f"
proof -
  have files: "mset (file_entries es') = mset (file_entries es)" using assms(2) by (simp add: file_entries_def mset_filter)
  then have pairs: "mset (entry_pairs es') = mset (entry_pairs es)" unfolding entry_pairs_def by (simp add: mset_map)
  note r = read_entries_exact [of 0 Map.empty, OF le0]
  have e: "readable_entries 0 Map.empty es" "f = map_of (entry_pairs es)" using r [of es] assms(1) by auto
  have "mset (map entry_size (file_entries es')) = mset (map entry_size (file_entries es))"
    "mset (map fst (entry_pairs es')) = mset (map fst (entry_pairs es))" using files pairs by (simp_all add: mset_map)
  then have s: "(\<Sum>e \<leftarrow> file_entries es'. entry_size e) = (\<Sum>e \<leftarrow> file_entries es. entry_size e)"
    "distinct (map fst (entry_pairs es')) = distinct (map fst (entry_pairs es))"
    by (metis sum_mset_sum_list, metis mset_eq_imp_distinct_iff)
  have "set (file_entries es') = set (file_entries es)" "set (entry_pairs es') = set (entry_pairs es)"
    using files pairs mset_eq_setD by blast+
  then have "readable_entries 0 Map.empty es'" using e(1) s unfolding readable_entries_def by simp
  moreover have "map_of (entry_pairs es') = map_of (entry_pairs es)"
    using e(1) s(2) \<open>set (entry_pairs es') = set (entry_pairs es)\<close> by (auto simp: readable_entries_def intro: map_of_inject_set [THEN iffD2])
  ultimately show ?thesis using r [of es'] e(2) by auto
qed

section \<open>The normal form\<close>

text \<open>The paths the code writes are safe and told apart by their components.\<close>

lemma hex_no_slash: "CHR ''/'' \<notin> set (hex b)"
proof
  assume "CHR ''/'' \<in> set (hex b)"
  then have "is_lower_hex (CHR ''/'')" using hex_lower [of b] by (auto simp: list_all_iff)
  then show False by (simp add: is_lower_hex_def byte_class_defs)
qed

lemma hex_not_dots: "hex b \<noteq> ''.''" "hex b \<noteq> ''..''"
proof -
  have dot: "CHR ''.'' \<notin> set (hex b)"
  proof
    assume "CHR ''.'' \<in> set (hex b)"
    then have "is_lower_hex (CHR ''.'')" using hex_lower [of b] by (auto simp: list_all_iff)
    then show False by (simp add: is_lower_hex_def byte_class_defs)
  qed
  then show "hex b \<noteq> ''.''" by (metis list.set_intros(1))
  from dot show "hex b \<noteq> ''..''" by (metis list.set_intros(1))
qed

lemma written_components:
  "archive_lib_ok al \<Longrightarrow> path_components (blob_member al c) = [Normal ''blobs'', Normal ''sha256'', Normal (sha256_hex al c)]"
  "path_components manifest_path = [Normal manifest_path]"
proof -
  assume "archive_lib_ok al"
  then have "length (tb_sha256 al c) = 32" by (simp add: archive_lib_ok_def)
  then have "hex (tb_sha256 al c) \<noteq> []" by (metis length_hex list.size(3) mult_eq_0_iff zero_neq_numeral)
  then show "path_components (blob_member al c) = [Normal ''blobs'', Normal ''sha256'', Normal (sha256_hex al c)]"
    by (simp add: blob_member_def sha256_hex_def path_components_def segment_component_def starts_with_def split_on_id [OF hex_no_slash] hex_not_dots)
next
  show "path_components manifest_path = [Normal manifest_path]"
    by (simp add: manifest_path_def path_components_def segment_component_def starts_with_def)
qed

lemma written_path_ok:
  assumes "archive_lib_ok al" "written_path al p"
  shows "validate_path p = Inr ()"
  using assms written_components(1) [OF assms(1)] written_components(2) by (auto simp: written_path_def validate_path_def normal_component_def blob_member_def manifest_path_def)

lemma written_path_inj:
  assumes "archive_lib_ok al" "written_path al p" "written_path al p'" "path_components p = path_components p'"
  shows "p = p'"
  using assms written_components(1) [OF assms(1)] written_components(2) by (auto simp: written_path_def blob_member_def manifest_path_def sha256_hex_def)

definition blob_pair :: "archive_lib \<Rightarrow> bytes \<Rightarrow> string \<times> bytes" where
  "blob_pair al c = (blob_member al c, c)"

lemma insert_layers_ok:
  "insert_layers al files ls out = Inr (out', paths) \<Longrightarrow>
     \<exists>cs. list_all2 (\<lambda>l c. required_member files l ''layer'' = Inr c) ls cs \<and> paths = map (blob_member al) cs
       \<and> out' = foldl (\<lambda>m (k, v). map_insert k v m) out (map (blob_pair al) cs)"
proof (induction ls arbitrary: out paths)
  case (Cons l ls)
  then obtain c paths' where c: "required_member files l ''layer'' = Inr c" "paths = blob_member al c # paths'"
    "insert_layers al files ls (map_insert (blob_member al c) c out) = Inr (out', paths')" by (auto simp: bindE_eq_Inr)
  from Cons.IH [OF c(3)] obtain cs where "list_all2 (\<lambda>l c. required_member files l ''layer'' = Inr c) ls cs"
    "paths' = map (blob_member al) cs" "out' = foldl (\<lambda>m (k, v). map_insert k v m) (map_insert (blob_member al c) c out) (map (blob_pair al) cs)" by blast
  then show ?case using c(1,2) by (intro exI [of _ "c # cs"]) (simp add: blob_pair_def [abs_def])
qed simp

lemma insert_layers_run:
  "list_all2 (\<lambda>l c. required_member files l ''layer'' = Inr c) ls cs \<Longrightarrow>
     insert_layers al files ls out = Inr (foldl (\<lambda>m (k, v). map_insert k v m) out (map (blob_pair al) cs), map (blob_member al) cs)"
  by (induction ls cs arbitrary: out rule: list_all2_induct) (simp_all add: blob_pair_def [abs_def])

text \<open>What the rebuilt archive holds: the manifest and the contents it names, under their digests.\<close>

definition rebuilt :: "archive_lib \<Rightarrow> docker_manifest \<Rightarrow> bytes \<Rightarrow> bytes list \<Rightarrow> (string \<times> bytes) list" where
  "rebuilt al m config layers =
     map_build (map (blob_pair al) (config # layers)
       @ [(manifest_path, tb_manifest_encode al [m\<lparr>dm_config := blob_member al config, dm_layers := map (blob_member al) layers\<rparr>])])"

lemma foldl_map_build: "foldl (\<lambda>m (k, v). map_insert k v m) [(k, v)] kvs = map_build ((k, v) # kvs)"
  by (simp add: map_build_def)

lemma map_build_snoc: "map_build (kvs @ [(k, v)]) = map_insert k v (map_build kvs)"
  by (simp add: map_build_def)

lemma normalized_files_iff:
  "normalized_files al tag files = Inr (i, ms) \<longleftrightarrow>
     (\<exists>m config layers. one_manifest al files tag = Inr m \<and> required_member files (dm_config m) ''image config'' = Inr config
        \<and> list_all2 (\<lambda>l c. required_member files l ''layer'' = Inr c) (dm_layers m) layers
        \<and> i = ''sha256:'' @ sha256_hex al config \<and> ms = rebuilt al m config layers)"
proof
  assume "normalized_files al tag files = Inr (i, ms)"
  then obtain m config out paths where m: "one_manifest al files tag = Inr m" "required_member files (dm_config m) ''image config'' = Inr config"
    "insert_layers al files (dm_layers m) [(blob_member al config, config)] = Inr (out, paths)" "i = ''sha256:'' @ sha256_hex al config"
    "ms = map_insert manifest_path (tb_manifest_encode al [m\<lparr>dm_config := blob_member al config, dm_layers := paths\<rparr>]) out"
    by (auto simp: normalized_files_def bindE_eq_Inr)
  from insert_layers_ok [OF m(3)] obtain cs where cs: "list_all2 (\<lambda>l c. required_member files l ''layer'' = Inr c) (dm_layers m) cs"
    "paths = map (blob_member al) cs" "out = map_build (map (blob_pair al) (config # cs))"
    by (auto simp: foldl_map_build blob_pair_def [abs_def])
  then have "ms = rebuilt al m config cs" using m(5) unfolding rebuilt_def map_build_snoc by simp
  then show "\<exists>m config layers. one_manifest al files tag = Inr m \<and> required_member files (dm_config m) ''image config'' = Inr config
        \<and> list_all2 (\<lambda>l c. required_member files l ''layer'' = Inr c) (dm_layers m) layers
        \<and> i = ''sha256:'' @ sha256_hex al config \<and> ms = rebuilt al m config layers" using m cs(1) by blast
next
  assume "\<exists>m config layers. one_manifest al files tag = Inr m \<and> required_member files (dm_config m) ''image config'' = Inr config
        \<and> list_all2 (\<lambda>l c. required_member files l ''layer'' = Inr c) (dm_layers m) layers
        \<and> i = ''sha256:'' @ sha256_hex al config \<and> ms = rebuilt al m config layers"
  then show "normalized_files al tag files = Inr (i, ms)" unfolding rebuilt_def map_build_snoc
    by (auto simp: normalized_files_def insert_layers_run foldl_map_build blob_pair_def [abs_def])
qed

lemma map_of_sorted_unique:
  assumes "sorted_wrt (<) (map fst xs)" "sorted_wrt (<) (map fst ys)" "map_of xs = map_of ys"
  shows "xs = (ys :: (string \<times> bytes) list)"
proof -
  have "set (map fst xs) = set (map fst ys)" using arg_cong [OF assms(3), of dom] by (simp add: dom_map_of_conv_image_fst)
  then have keys: "map fst xs = map fst ys" using assms(1,2) by (simp add: strict_sorted_equal)
  have "zs = map (\<lambda>k. (k, the (map_of zs k))) (map fst zs)" if "sorted_wrt (<) (map fst zs)" for zs :: "(string \<times> bytes) list"
  proof -
    have "distinct (map fst zs)" using that strict_sorted_iff by blast
    then have "map (\<lambda>kv. (fst kv, the (map_of zs (fst kv)))) zs = zs" by (intro map_idI) auto
    then show ?thesis by (simp add: comp_def)
  qed
  from this [OF assms(1)] this [OF assms(2)] show ?thesis using keys assms(3) by simp
qed

lemma rebuilt_facts:
  "sorted_wrt (<) (map fst (rebuilt al m config layers))"
  "list_all (written_path al \<circ> fst) (rebuilt al m config layers)"
  "map_of (rebuilt al m config layers) = (map_of (rev (map (blob_pair al) (config # layers))))
     (manifest_path \<mapsto> tb_manifest_encode al [m\<lparr>dm_config := blob_member al config, dm_layers := map (blob_member al) layers\<rparr>])"
proof -
  show "sorted_wrt (<) (map fst (rebuilt al m config layers))" unfolding rebuilt_def using map_build_wf by blast
  have "fst kv \<in> {manifest_path} \<union> blob_member al ` set (config # layers)" if "kv \<in> set (rebuilt al m config layers)" for kv
    using that map_build_wf unfolding rebuilt_def by (fastforce simp: blob_pair_def)
  then show "list_all (written_path al \<circ> fst) (rebuilt al m config layers)" by (fastforce simp: list_all_iff written_path_def)
  show "map_of (rebuilt al m config layers) = (map_of (rev (map (blob_pair al) (config # layers))))
     (manifest_path \<mapsto> tb_manifest_encode al [m\<lparr>dm_config := blob_member al config, dm_layers := map (blob_member al) layers\<rparr>])"
    unfolding rebuilt_def by simp
qed

lemma manifest_not_blob [simp]: "blob_member al c \<noteq> manifest_path" "manifest_path \<noteq> blob_member al c"
  by (simp_all add: blob_member_def manifest_path_def)

lemma read_back:
  assumes "archive_lib_ok al" "list_all (written_path al \<circ> fst) ms" "distinct (map fst ms)" "(\<Sum>m \<leftarrow> ms. length (snd m)) \<le> max_archive_bytes"
  shows "\<exists>f. read_entries 0 Map.empty (map (Inr \<circ> member_entry) ms) = Inr f \<and> (\<forall>p. written_path al p \<longrightarrow> f (path_components p) = map_of ms p)"
proof -
  let ?es = "map (Inr \<circ> member_entry) ms" and ?pairs = "map (\<lambda>m. (path_components (fst m), snd m)) ms"
  have ok: "validate_path (fst m) = Inr ()" if "m \<in> set ms" for m
    using that assms(2) written_path_ok [OF assms(1)] by (auto simp: list_all_iff)
  have files: "file_entries ?es = ?es" by (auto simp: file_entries_def member_entry_def filter_id_conv)
  have pairs: "entry_pairs ?es = ?pairs" unfolding entry_pairs_def files using ok by (auto simp: member_entry_def)
  have inj: "inj_on path_components (insert p (fst ` set ms))" if "written_path al p" for p
    using that assms(2) written_path_inj [OF assms(1)] by (auto simp: inj_on_def list_all_iff)
  have look: "map_of (map (\<lambda>m. (path_components (fst m), snd m)) xs) (path_components p) = map_of xs p"
    if "written_path al p" "list_all (written_path al \<circ> fst) xs" for p and xs :: "(string \<times> bytes) list"
    using that(2) by (induction xs) (use written_path_inj [OF assms(1) that(1)] in auto)
  have "inj_on path_components (fst ` set ms)" using inj [of manifest_path] by (rule inj_on_subset) (auto simp: written_path_def)
  then have "distinct (map path_components (map fst ms))" using assms(3) by (subst distinct_map) (simp only: set_map simp_thms)
  then have "distinct (map fst (entry_pairs ?es))" unfolding pairs map_map by (simp only: comp_def fst_conv)
  then have "readable_entries 0 Map.empty ?es" unfolding readable_entries_def files
    using assms(4) ok by (auto simp: member_entry_def comp_def)
  then have "read_entries 0 Map.empty ?es = Inr (map_of ?pairs)"
    using read_entries_exact [of 0 Map.empty ?es] pairs by auto
  then show ?thesis using look assms(2) by auto
qed

lemma tags_normal: "remdups_adj (sort (remdups_adj (sort (ts :: string list)))) = remdups_adj (sort ts)"
  using distinct_adj_remdups_adj [of "sort ts"] by (simp add: sorted_sort_id sorted_remdups_adj distinct_adj_altdef)

lemma map_of_graph: "map_of (rev (map (\<lambda>c. (k c, h (k c))) cs)) x = (if x \<in> k ` set cs then Some (h x) else None)"
  by (induction cs) (auto simp: map_add_def)

lemma one_manifest_tags:
  assumes "one_manifest al files tag = Inr m"
  obtains ts where "dm_repo_tags m = remdups_adj (sort ts)" "list_ex (\<lambda>t. t = tag) (dm_repo_tags m)"
proof -
  obtain ms where "(case ms of [m0] \<Rightarrow>
      (let tags = remdups_adj (sort (dm_repo_tags m0)) in
       if \<not> list_ex (\<lambda>t. t = tag) tags then Inl (Protocol (''Docker archive does not contain expected tag '' @ tag))
       else Inr (m0\<lparr>dm_repo_tags := tags\<rparr>))
    | _ \<Rightarrow> Inl (Protocol (''Docker archive contains '' @ show_nat (length ms) @ '' images; expected exactly one''))) = Inr m"
    using assms unfolding one_manifest_def bindE_eq_Inr by blast
  then show thesis by (cases ms rule: list.exhaust; cases "tl ms") (auto simp: Let_def intro: that split: if_splits)
qed

lemma normalized_files_again:
  assumes lib: "archive_lib_ok al" and m: "one_manifest al files tag = Inr m"
    and f: "\<And>p. written_path al p \<Longrightarrow> f (path_components p) = map_of (rebuilt al m config layers) p"
  shows "normalized_files al tag f = Inr (''sha256:'' @ sha256_hex al config, rebuilt al m config layers)"
proof -
  let ?ms = "rebuilt al m config layers"
  let ?m = "m\<lparr>dm_config := blob_member al config, dm_layers := map (blob_member al) layers\<rparr>"
  let ?h = "\<lambda>k. the (map_of ?ms k)"
  have keep: "map_of ?ms (blob_member al c) = Some (?h (blob_member al c)) \<and> blob_member al (?h (blob_member al c)) = blob_member al c"
    if "c \<in> set (config # layers)" for c
  proof -
    have "blob_member al c \<in> fst ` set (rev (map (blob_pair al) (config # layers)))" using that by (force simp: blob_pair_def)
    then obtain v where v: "map_of (rev (map (blob_pair al) (config # layers))) (blob_member al c) = Some v"
      by (metis map_of_eq_None_iff not_None_eq)
    then have "blob_member al v = blob_member al c" using map_of_SomeD [OF v] by (auto simp: blob_pair_def)
    then show ?thesis using v by (simp add: rebuilt_facts(3))
  qed
  have w: "written_path al (blob_member al c)" "written_path al manifest_path" for c by (auto simp: written_path_def)
  have req: "required_member f (blob_member al c) kind = Inr (?h (blob_member al c))" if "c \<in> set (config # layers)" for c kind
    using keep [OF that] f [OF w(1)] written_path_ok [OF lib w(1)] by (simp add: required_member_def)
  have "f (path_components manifest_path) = Some (tb_manifest_encode al [?m])" unfolding f [OF w(2)] by (simp add: rebuilt_facts(3))
  moreover have "tb_manifest_decode al (tb_manifest_encode al [?m]) = Inr [?m]" using lib by (simp add: archive_lib_ok_def)
  moreover obtain ts where "dm_repo_tags m = remdups_adj (sort ts)" "list_ex (\<lambda>t. t = tag) (dm_repo_tags m)"
    using m by (rule one_manifest_tags)
  ultimately have one: "one_manifest al f tag = Inr ?m" by (simp add: one_manifest_def tags_normal Let_def)
  have ls: "list_all2 (\<lambda>l c. required_member f l ''layer'' = Inr c) (dm_layers ?m) (map (\<lambda>c. ?h (blob_member al c)) layers)"
    using req by (auto simp: list_all2_map1 list_all2_map2 list.rel_refl_strong)
  have paths: "map (blob_member al) (map (\<lambda>c. ?h (blob_member al c)) layers) = map (blob_member al) layers" using keep by simp
  have "rebuilt al ?m (?h (blob_member al config)) (map (\<lambda>c. ?h (blob_member al c)) layers) = ?ms"
  proof (rule map_of_sorted_unique)
    have pairs: "map (blob_pair al) (?h (blob_member al config) # map (\<lambda>c. ?h (blob_member al c)) layers)
        = map (\<lambda>c. (blob_member al c, ?h (blob_member al c))) (config # layers)"
      using keep by (simp add: blob_pair_def)
    show "map_of (rebuilt al ?m (?h (blob_member al config)) (map (\<lambda>c. ?h (blob_member al c)) layers)) = map_of ?ms"
    proof
      fix k
      show "map_of (rebuilt al ?m (?h (blob_member al config)) (map (\<lambda>c. ?h (blob_member al c)) layers)) k = map_of ?ms k"
      proof (cases "k = manifest_path")
        case True
        then show ?thesis unfolding rebuilt_facts(3) [of al ?m] paths using keep [of config] by (simp add: rebuilt_facts(3))
      next
        case False
        have "map_of (rebuilt al ?m (?h (blob_member al config)) (map (\<lambda>c. ?h (blob_member al c)) layers)) k
            = map_of (rev (map (\<lambda>c. (blob_member al c, ?h (blob_member al c))) (config # layers))) k"
          unfolding rebuilt_facts(3) [of al ?m] pairs using False by (rule fun_upd_other)
        also have "\<dots> = (if k \<in> blob_member al ` set (config # layers) then Some (?h k) else None)" by (rule map_of_graph)
        also have "\<dots> = map_of ?ms k"
        proof (cases "k \<in> blob_member al ` set (config # layers)")
          case True
          then show ?thesis using keep by force
        next
          case out: False
          have "map_of ?ms k = map_of (rev (map (blob_pair al) (config # layers))) k"
            unfolding rebuilt_facts(3) using False by (rule fun_upd_other)
          moreover have "map_of (rev (map (blob_pair al) (config # layers))) k = None"
            using out by (subst map_of_eq_None_iff) (auto simp: blob_pair_def)
          ultimately have "map_of ?ms k = None" by (rule trans)
          then show ?thesis by (simp only: out if_False)
        qed
        finally show ?thesis .
      qed
    qed
  qed (rule rebuilt_facts)+
  moreover have "sha256_hex al (?h (blob_member al config)) = sha256_hex al config"
    using keep [of config] by (simp add: blob_member_def)
  ultimately show ?thesis unfolding normalized_files_iff
    using one req [of config "''image config''"] ls
    by (intro exI [of _ ?m] exI [of _ "?h (blob_member al config)"] exI [of _ "map (\<lambda>c. ?h (blob_member al c)) layers"] conjI) auto
qed

text \<open>
  C23 A normalised Docker archive is canonical. Whenever an archive is normalised: any archive with the
  same entries in another order gives the same bytes and image id; the members of the result are sorted
  by path without duplicates, and each is the manifest or lies under the SHA-256 digest of its contents;
  the image id is the digest of a member that was the image configuration; and, unless its members
  exceed the size limit, normalising the result again returns it unchanged.
\<close>
theorem rootfs_normalize_canonical:
  assumes "archive_lib_ok al" and "normalize_archive al b tag = Inr na"
  shows "(\<forall>b' es es'. tb_entries al b = Inr es \<longrightarrow> tb_entries al b' = Inr es' \<longrightarrow> mset es' = mset es \<longrightarrow> normalize_archive al b' tag = Inr na)
     \<and> (\<exists>members files config. read_regular_files al b = Inr files \<and> config \<in> ran files
          \<and> na_image_id na = ''sha256:'' @ sha256_hex al config
          \<and> tb_entries al (na_bytes na) = Inr (map (Inr \<circ> member_entry) members) \<and> sorted_wrt (<) (map fst members)
          \<and> list_all (\<lambda>(p, c). p = manifest_path \<or> p = blob_member al c) members
          \<and> ((\<Sum>m \<leftarrow> members. length (snd m)) \<le> max_archive_bytes \<longrightarrow> normalize_archive al (na_bytes na) tag = Inr na))"
proof -
  obtain es files i ms out where n: "tb_entries al b = Inr es" "read_entries 0 Map.empty es = Inr files"
    "normalized_files al tag files = Inr (i, ms)" "write_members al ms = Inr out" "na = \<lparr>na_bytes = out, na_image_id = i\<rparr>"
    using assms(2) by (auto simp: normalize_archive_def read_regular_files_def bindE_eq_Inr)
  have perm: "normalize_archive al b' tag = Inr na" if "tb_entries al b' = Inr es'" "mset es' = mset es" for b' es'
    using read_permuted [OF n(2) that(2)] that(1) n by (simp add: normalize_archive_def read_regular_files_def)
  obtain m config layers where m: "one_manifest al files tag = Inr m" "required_member files (dm_config m) ''image config'' = Inr config"
    "i = ''sha256:'' @ sha256_hex al config" "ms = rebuilt al m config layers" using n(3) unfolding normalized_files_iff by blast
  note facts = rebuilt_facts [of al m config layers, folded m(4)]
  have readback: "tb_entries al out = Inr (map (Inr \<circ> member_entry) ms)" using assms(1) n(4) facts(2) by (auto simp: archive_lib_ok_def)
  have again: "normalize_archive al out tag = Inr na" if small: "(\<Sum>m \<leftarrow> ms. length (snd m)) \<le> max_archive_bytes"
  proof -
    have "distinct (map fst ms)" using facts(1) strict_sorted_iff by blast
    then obtain f where f: "read_entries 0 Map.empty (map (Inr \<circ> member_entry) ms) = Inr f"
      "\<And>p. written_path al p \<Longrightarrow> f (path_components p) = map_of ms p" using read_back [OF assms(1) facts(2) _ small] by blast
    have "normalized_files al tag f = Inr (i, ms)"
      using normalized_files_again [OF assms(1) m(1), of f config layers] f(2) unfolding m(3,4) by blast
    then show ?thesis using readback f(1) n(4,5) by (simp add: normalize_archive_def read_regular_files_def)
  qed
  have "p = manifest_path \<or> p = blob_member al c" if "(p, c) \<in> set ms" for p c
  proof -
    have "(p, c) \<in> set (map (blob_pair al) (config # layers)) \<or> p = manifest_path"
      using that map_build_wf unfolding m(4) rebuilt_def by fastforce
    then show ?thesis by (auto simp: blob_pair_def)
  qed
  then have named: "list_all (\<lambda>(p, c). p = manifest_path \<or> p = blob_member al c) ms"
    by (auto simp: list_all_iff)
  have "config \<in> ran files" using m(2) by (auto simp: required_member_def ran_def bindE_eq_Inr)
  then show ?thesis using perm n readback facts(1) named again m(3)
    by (intro conjI allI impI exI [of _ ms] exI [of _ files] exI [of _ config]) (auto simp: read_regular_files_def)
qed

section \<open>A sample archive format\<close>

fun demo_members :: "nat \<Rightarrow> bytes \<Rightarrow> (string \<times> bytes) list" where
  "demo_members 0 b = []"
| "demo_members (Suc n) b =
     (case dec_str b of
        None \<Rightarrow> []
      | Some (p, r) \<Rightarrow> (case dec_str r of None \<Rightarrow> [] | Some (c, r') \<Rightarrow> (p, string_bytes c) # demo_members n r'))"

definition demo_member :: "string \<times> bytes \<Rightarrow> bytes" where
  "demo_member m = enc_str (fst m) @ enc_str (bytes_string (snd m))"

lemma demo_members_enc: "length ms \<le> n \<Longrightarrow> demo_members n (concat (map demo_member ms)) = ms"
proof (induction ms arbitrary: n)
  case Nil
  then show ?case by (cases n) simp_all
next
  case (Cons m ms)
  then obtain k where "n = Suc k" "length ms \<le> k" by (cases n) auto
  then show ?case using Cons.IH [of k] by (simp add: demo_member_def dec_enc_str string_bytes_inverse)
qed

definition manifest_json :: "docker_manifest \<Rightarrow> json" where
  "manifest_json m = JArr [JStr (dm_config m), JArr (map JStr (dm_repo_tags m)), JArr (map JStr (dm_layers m))]"

fun json_manifest :: "json \<Rightarrow> docker_manifest" where
  "json_manifest (JArr [JStr c, JArr ts, JArr ls]) =
     \<lparr>dm_config = c, dm_repo_tags = map (\<lambda>j. the (as_str j)) ts, dm_layers = map (\<lambda>j. the (as_str j)) ls\<rparr>"
| "json_manifest _ = \<lparr>dm_config = [], dm_repo_tags = [], dm_layers = []\<rparr>"

definition demo_lib :: archive_lib where
  "demo_lib = \<lparr>tb_entries = (\<lambda>b. Inr (map (Inr \<circ> member_entry) (demo_members (length b) b))),
     tb_member = (\<lambda>h p c. Inr (demo_member (p, c))), tb_trailer = Inr [],
     tb_manifest_decode = (\<lambda>b. bindE (json_of_bytes sample_json b) (\<lambda>j. Inr (map json_manifest (case j of JArr js \<Rightarrow> js | _ \<Rightarrow> [])))),
     tb_manifest_encode = (\<lambda>ms. json_to_bytes sample_json (JArr (map manifest_json ms))),
     tb_sha256 = (\<lambda>b. take 32 (b @ replicate 32 0))\<rparr>"

lemma demo_entries: "tb_entries demo_lib (concat (map demo_member ms)) = Inr (map (Inr \<circ> member_entry) ms)"
proof -
  have pos: "0 < length (demo_member m)" for m by (simp add: demo_member_def enc_str_def)
  have "length ms \<le> length (concat (map demo_member ms))"
  proof (induction ms)
    case (Cons m ms)
    then show ?case using pos [of m] unfolding list.map concat.simps length_append list.size by linarith
  qed simp
  then show ?thesis by (simp add: demo_lib_def demo_members_enc)
qed

lemma archive_demo_write: "write_members demo_lib ms = Inr (concat (map demo_member ms))"
  by (induction ms) (auto simp: demo_lib_def)

lemma demo_lib_ok: "archive_lib_ok demo_lib"
proof -
  have "tb_manifest_decode demo_lib (tb_manifest_encode demo_lib ms) = Inr ms" for ms
    using sample_json_ok by (simp add: demo_lib_def json_codec_ok_def manifest_json_def comp_def) (simp add: map_idI)
  then show ?thesis by (auto simp: archive_lib_ok_def archive_demo_write demo_entries) (simp add: demo_lib_def)
qed

definition archive_demo_input :: bytes where
  "archive_demo_input = concat (map demo_member [(''l'', [2]), (manifest_path, tb_manifest_encode demo_lib
     [\<lparr>dm_config = ''c'', dm_repo_tags = [''t''], dm_layers = [''l'']\<rparr>]), (''c'', [1])])"

lemma archive_demo_normalize: "\<exists>na. normalize_archive demo_lib archive_demo_input ''t'' = Inr na"
proof -
  let ?m = "\<lparr>dm_config = ''c'', dm_repo_tags = [''t''], dm_layers = [''l'']\<rparr>"
  have dec: "tb_manifest_decode demo_lib (tb_manifest_encode demo_lib [?m]) = Inr [?m]" using demo_lib_ok by (simp add: archive_lib_ok_def)
  define M where "M = tb_manifest_encode demo_lib [?m]"
  have "length M < 1000" by (simp add: M_def demo_lib_def sample_json_def manifest_json_def enc_str_def)
  moreover have "tb_entries demo_lib archive_demo_input = Inr (map (Inr \<circ> member_entry) [(''l'', [2]), (manifest_path, M), (''c'', [1])])"
    unfolding archive_demo_input_def M_def [symmetric] by (rule demo_entries)
  ultimately show ?thesis using dec unfolding M_def [symmetric]
    by (simp add: normalize_archive_def read_regular_files_def member_entry_def validate_path_def path_components_def
        segment_component_def starts_with_def normal_component_def manifest_path_def checked_add64_def max_archive_bytes_def normalized_files_def
        one_manifest_def required_member_def archive_demo_write Let_def)
qed

theorem rootfs_normalize_canonical_witness:
  "\<exists>na. normalize_archive demo_lib archive_demo_input ''t'' = Inr na
     \<and> (\<exists>members. tb_entries demo_lib (na_bytes na) = Inr (map (Inr \<circ> member_entry) members) \<and> sorted_wrt (<) (map fst members))"
proof -
  obtain na where na: "normalize_archive demo_lib archive_demo_input ''t'' = Inr na" using archive_demo_normalize by blast
  from rootfs_normalize_canonical [OF demo_lib_ok na] show ?thesis using na by blast
qed

end
