(* ===== verification/Repo_Manifest.thy ===== *)
theory Repo_Manifest
  imports Space Object_Store "HOL-Library.Multiset"
begin

text \<open>
  The model repository manifest (\<open>src/repo_manifest.rs\<close>): one revision of a repository as a list of files,
  each with its whole-file addresses and the ordered chunks that make it up. The module is pure: a reader,
  a writer and a fetch closure are values its caller passes in. A reader is the list of what its calls to
  \<open>read\<close> answer; the fetch closure and the sink are functions on a state of their own. The hash functions
  and the JSON codec are parameters; a hasher that is updated piece by piece is the hash of the concatenated pieces.
\<close>

section \<open>Types\<close>

record manifest_source =
  ms_kind :: string
  ms_repo :: string
  ms_revision :: string

record manifest_chunk =
  mc_kappa :: string
  mc_offset :: nat
  mc_size :: nat

record manifest_file =
  mf_path :: string
  mf_size :: nat
  mf_media_type :: "string option"
  mf_sha256 :: "string option"
  mf_blake3 :: string
  mf_chunks :: "manifest_chunk list"

record repo_manifest =
  rm_format :: string
  rm_name :: string
  rm_source :: "manifest_source option"
  rm_files :: "manifest_file list"

record repo_lib =
  rl_blake3 :: "bytes \<Rightarrow> string"
  rl_sha256 :: "bytes \<Rightarrow> string"
  rl_to_vec :: "repo_manifest \<Rightarrow> string + bytes"
  rl_from_slice :: "bytes \<Rightarrow> string + repo_manifest"

abbreviation repo_manifest_format :: string where
  "repo_manifest_format \<equiv> ''hologram.repo-manifest/v1''"

definition default_chunk_bytes :: nat where
  "default_chunk_bytes = 64 * 1024 * 1024"

definition max_chunk_bytes :: nat where
  "max_chunk_bytes = 256 * 1024 * 1024"

definition repo_manifest_new :: "string \<Rightarrow> repo_manifest" where
  "repo_manifest_new name = \<lparr>rm_format = repo_manifest_format, rm_name = name, rm_source = None, rm_files = []\<rparr>"

definition repo_file :: "repo_manifest \<Rightarrow> string \<Rightarrow> manifest_file option" where
  "repo_file m path = find (\<lambda>f. mf_path f = path) (rm_files m)"

definition repo_kappa :: "repo_lib \<Rightarrow> bytes \<Rightarrow> string" where
  "repo_kappa lib b = ''blake3:'' @ rl_blake3 lib b"

section \<open>Validation\<close>

definition validate_repo_name :: "string \<Rightarrow> unit live_result" where
  "validate_repo_name name =
     (let parts = split_on CHR ''/'' name in
      if length parts \<noteq> 2 \<or> [] \<in> set parts then
        Inl (Protocol (''repo name '' @ debug_str name @ '' must be \"namespace/repo\" with non-empty parts''))
      else
        allE (\<lambda>part.
          if \<not> list_all (\<lambda>c. is_ascii_alphanumeric c \<or> c \<in> {CHR ''.'', CHR ''_'', CHR ''-''}) part then
            Inl (Protocol (''repo name part '' @ debug_str part @ '' may only contain [A-Za-z0-9._-]''))
          else Inr ()) parts)"

definition validate_repo_path :: "string \<Rightarrow> unit live_result" where
  "validate_repo_path path =
     (if path = [] \<or> starts_with ''/'' path \<or> CHR 0x5C \<in> set path
         \<or> list_ex (\<lambda>segment. segment = [] \<or> segment = ''.'' \<or> segment = ''..'') (split_on CHR ''/'' path)
         \<or> has_control path
      then Inl (Protocol (''invalid repo file path '' @ debug_str path))
      else Inr ())"

definition validate_repo_digest :: "string \<Rightarrow> string \<Rightarrow> unit live_result" where
  "validate_repo_digest v pre =
     (if (case strip_prefix pre v of None \<Rightarrow> False | Some digest \<Rightarrow> length digest = 64 \<and> list_all is_lower_hex digest)
      then Inr ()
      else Inl (Protocol (debug_str v @ '' must be '' @ debug_str pre @ '' followed by 64 lowercase hex characters'')))"

definition validate_repo_kappa :: "string \<Rightarrow> unit live_result" where
  "validate_repo_kappa k = validate_repo_digest k ''blake3:''"

text \<open>The loop over the chunks of a file, with the offset expected next.\<close>

fun validate_chunks :: "string \<Rightarrow> manifest_chunk list \<Rightarrow> nat \<Rightarrow> nat live_result" where
  "validate_chunks path [] expected = Inr expected"
| "validate_chunks path (c # cs) expected =
     bindE (validate_repo_kappa (mc_kappa c)) (\<lambda>_.
     if mc_size c = 0 \<or> mc_size c > max_chunk_bytes then
       Inl (Protocol (''file '' @ debug_str path @ '' declares a '' @ show_nat (mc_size c) @ '' byte chunk; chunks must be 1 to ''
         @ show_nat max_chunk_bytes @ '' bytes''))
     else if mc_offset c \<noteq> expected then
       Inl (Protocol (''file '' @ debug_str path @ '' chunks are not contiguous: offset '' @ show_nat (mc_offset c) @ '' where ''
         @ show_nat expected @ '' was expected''))
     else
       bindE (ok_or (Protocol (''file '' @ debug_str path @ '' chunk offsets overflow'')) (checked_add64 expected (mc_size c)))
         (validate_chunks path cs))"

definition validate_repo_file :: "manifest_file \<Rightarrow> unit live_result" where
  "validate_repo_file f =
     bindE (validate_repo_path (mf_path f)) (\<lambda>_.
     bindE (case mf_media_type f of
              None \<Rightarrow> Inr ()
            | Some t \<Rightarrow> if CHR ''/'' \<notin> set t \<or> \<not> list_all is_ascii_graphic t then
                          Inl (Protocol (''file '' @ debug_str (mf_path f) @ '' media type '' @ debug_str t @ '' is malformed''))
                        else Inr ()) (\<lambda>_.
     bindE (case mf_sha256 f of None \<Rightarrow> Inr () | Some s \<Rightarrow> validate_repo_digest s ''sha256:'') (\<lambda>_.
     bindE (validate_repo_kappa (mf_blake3 f)) (\<lambda>_.
     bindE (validate_chunks (mf_path f) (mf_chunks f) 0) (\<lambda>covered.
     if covered \<noteq> mf_size f then
       Inl (Protocol (''file '' @ debug_str (mf_path f) @ '' chunks cover '' @ show_nat covered @ '' bytes but the manifest declares ''
         @ show_nat (mf_size f)))
     else Inr ())))))"

text \<open>The loop over the files, with the paths seen so far.\<close>

fun validate_repo_files :: "manifest_file list \<Rightarrow> string set \<Rightarrow> unit live_result" where
  "validate_repo_files [] seen = Inr ()"
| "validate_repo_files (f # fs) seen =
     bindE (validate_repo_file f) (\<lambda>_.
     if mf_path f \<in> seen then
       Inl (Protocol (''duplicate file path '' @ debug_str (mf_path f) @ '' in repo manifest''))
     else validate_repo_files fs (insert (mf_path f) seen))"

definition validate_repo_source :: "manifest_source \<Rightarrow> unit live_result" where
  "validate_repo_source src =
     allE (\<lambda>(field, v).
       if v = [] \<or> \<not> list_all is_ascii_graphic v then
         Inl (Protocol (''manifest source '' @ field @ '' '' @ debug_str v @ '' must be non-empty printable ASCII''))
       else Inr ())
       [(''kind'', ms_kind src), (''repo'', ms_repo src), (''revision'', ms_revision src)]"

definition validate_repo_manifest :: "repo_manifest \<Rightarrow> unit live_result" where
  "validate_repo_manifest m =
     (if rm_format m \<noteq> repo_manifest_format then
        Inl (Protocol (''unsupported repo manifest format '' @ debug_str (rm_format m) @ ''; expected '' @ debug_str repo_manifest_format))
      else
        bindE (validate_repo_name (rm_name m)) (\<lambda>_.
        bindE (case rm_source m of None \<Rightarrow> Inr () | Some src \<Rightarrow> validate_repo_source src) (\<lambda>_.
        validate_repo_files (rm_files m) {})))"

section \<open>Encoding\<close>

definition repo_encode :: "repo_lib \<Rightarrow> repo_manifest \<Rightarrow> bytes live_result" where
  "repo_encode lib m =
     bindE (validate_repo_manifest m) (\<lambda>_.
     map_err (\<lambda>e. Protocol (''encode repo manifest: '' @ e)) (rl_to_vec lib (m\<lparr>rm_files := sort_key mf_path (rm_files m)\<rparr>)))"

definition repo_decode :: "repo_lib \<Rightarrow> bytes \<Rightarrow> repo_manifest live_result" where
  "repo_decode lib b =
     bindE (map_err (\<lambda>e. Protocol (''decode repo manifest: '' @ e)) (rl_from_slice lib b)) (\<lambda>m.
     bindE (repo_encode lib m) (\<lambda>canonical.
     if canonical \<noteq> b then Inl (Protocol ''repo manifest is not canonically encoded'') else Inr m))"

definition repo_revision :: "repo_lib \<Rightarrow> repo_manifest \<Rightarrow> string live_result" where
  "repo_revision lib m = bindE (repo_encode lib m) (\<lambda>b. Inr (repo_kappa lib b))"

section \<open>Reading\<close>

text \<open>
  What the calls to \<open>read\<close> of a reader answer, in order: some bytes, of which a short buffer takes the first
  and leaves the rest for the next call (none at all is the end of the input), an interruption, or an error.
\<close>

datatype read_event = ReadSome bytes | ReadInterrupted | ReadFailed string

datatype read_answer = ReadBytes bytes | ReadAgain | ReadError string

fun read_call :: "nat \<Rightarrow> read_event list \<Rightarrow> read_answer \<times> read_event list" where
  "read_call n [] = (ReadBytes [], [])"
| "read_call n (ReadSome b # r) = (ReadBytes (take n b), if length b \<le> n then r else ReadSome (drop n b) # r)"
| "read_call n (ReadInterrupted # r) = (ReadAgain, r)"
| "read_call n (ReadFailed e # r) = (ReadError e, r)"

text \<open>\<open>read_full\<close>; the bytes read so far are the filled part of the buffer of length \<open>n\<close>.\<close>

function read_full :: "nat \<Rightarrow> bytes \<Rightarrow> read_event list \<Rightarrow> (string + bytes) \<times> read_event list" where
  "read_full n filled r =
     (if length filled < n then
        (case read_call (n - length filled) r of
           (ReadBytes b, r') \<Rightarrow> if b = [] then (Inr filled, r') else read_full n (filled @ b) r'
         | (ReadAgain, r') \<Rightarrow> read_full n filled r'
         | (ReadError e, r') \<Rightarrow> (Inl e, r'))
      else (Inr filled, r))"
  by pat_completeness auto
termination
proof (relation "measures [\<lambda>(n, filled, r). n - length filled, \<lambda>(n, filled, r). length r]", goal_cases)
  case (2 n filled r a r' b)
  then have "0 < length b" by simp
  then have "n - (length filled + length b) < n - length filled" using 2(1) by linarith
  then show ?case by simp
next
  case (3 n filled r a r')
  then have "length r' < length r" by (cases r rule: list.exhaust; cases "hd r") auto
  then show ?case using 3 by simp
qed simp

declare read_full.simps [simp del]

text \<open>The bytes a reader still holds.\<close>

fun event_bytes :: "read_event \<Rightarrow> nat" where
  "event_bytes (ReadSome b) = length b"
| "event_bytes ReadInterrupted = 0"
| "event_bytes (ReadFailed e) = 0"

abbreviation reader_bytes :: "read_event list \<Rightarrow> nat" where
  "reader_bytes r \<equiv> sum_list (map event_bytes r)"

lemma read_call_bytes: "read_call n r = (ReadBytes b, r') \<Longrightarrow> reader_bytes r = length b + reader_bytes r'"
  by (cases "(n, r)" rule: read_call.cases) (auto split: if_splits)

lemma read_call_again: "read_call n r = (ReadAgain, r') \<Longrightarrow> reader_bytes r' = reader_bytes r"
  by (cases "(n, r)" rule: read_call.cases) (auto split: if_splits)

lemma read_full_bytes:
  "read_full n filled r = (Inr b, r') \<Longrightarrow> length filled + reader_bytes r = length b + reader_bytes r'"
proof (induction n filled r rule: read_full.induct)
  case (1 n filled r)
  obtain a r1 where c: "read_call (n - length filled) r = (a, r1)" by fastforce
  show ?case
  proof (cases "length filled < n")
    case True
    show ?thesis
    proof (cases a)
      case (ReadBytes x)
      then show ?thesis using 1 c True read_call_bytes [of _ r x r1] by (auto simp: read_full.simps [of n filled] split: if_splits)
    next
      case ReadAgain
      then show ?thesis using 1 c True read_call_again [of _ r r1] by (auto simp: read_full.simps [of n filled])
    next
      case (ReadError e)
      then show ?thesis using 1 c True by (auto simp: read_full.simps [of n filled])
    qed
  qed (use 1 in \<open>auto simp: read_full.simps [of n filled]\<close>)
qed

text \<open>
  The loop of \<open>describe_file\<close>: the chunks found, and the bytes fed to the two hashers. The offset is a
  64-bit counter.
\<close>

function describe_loop ::
  "repo_lib \<Rightarrow> nat \<Rightarrow> read_event list \<Rightarrow> bytes \<Rightarrow> manifest_chunk list \<Rightarrow> nat
     \<Rightarrow> string + (bytes \<times> manifest_chunk list \<times> nat)" where
  "describe_loop lib capacity r whole chunks off =
     (case read_full capacity [] r of
        (Inl e, _) \<Rightarrow> Inl e
      | (Inr b, r') \<Rightarrow>
          if b = [] then Inr (whole, chunks, off)
          else
            let size = sat64 (length b);
                chunks' = chunks @ [\<lparr>mc_kappa = repo_kappa lib b, mc_offset = off, mc_size = size\<rparr>];
                off' = (off + size) mod 2 ^ 64
            in if length b < capacity then Inr (whole @ b, chunks', off')
               else describe_loop lib capacity r' (whole @ b) chunks' off')"
  by pat_completeness auto
termination
proof (relation "measure (\<lambda>(lib, capacity, r, whole, chunks, off). reader_bytes r)", goal_cases)
  case (2 lib capacity r whole chunks off e r' b)
  then show ?case using read_full_bytes [of capacity "[]" r b r'] length_greater_0_conv [of b] by simp
qed simp

declare describe_loop.simps [simp del]

definition describe_file :: "repo_lib \<Rightarrow> string \<Rightarrow> read_event list \<Rightarrow> nat \<Rightarrow> manifest_file live_result" where
  "describe_file lib path r chunk_bytes =
     bindE (validate_repo_path path) (\<lambda>_.
     if chunk_bytes = 0 \<or> chunk_bytes > max_chunk_bytes then
       Inl (Protocol (''chunk size '' @ show_nat chunk_bytes @ '' must be between 1 and '' @ show_nat max_chunk_bytes @ '' bytes''))
     else
       bindE (map_err (\<lambda>e. Io (''read '' @ debug_str path @ '': '' @ e)) (describe_loop lib chunk_bytes r [] [] 0)) (\<lambda>(whole, chunks, off).
       Inr \<lparr>mf_path = path, mf_size = off, mf_media_type = None, mf_sha256 = Some (''sha256:'' @ rl_sha256 lib whole),
            mf_blake3 = ''blake3:'' @ rl_blake3 lib whole, mf_chunks = chunks\<rparr>))"

section \<open>Reassembling\<close>

text \<open>
  The loop of \<open>reassemble_file_to\<close>: the state of the fetch closure, the sink, the bytes fed to the hashers
  and the count of bytes written.
\<close>

fun reassemble_loop ::
  "repo_lib \<Rightarrow> ('f \<Rightarrow> string \<Rightarrow> 'f \<times> bytes option live_result) \<Rightarrow> ('k \<Rightarrow> bytes \<Rightarrow> 'k \<times> (string + unit)) \<Rightarrow> string
     \<Rightarrow> manifest_chunk list \<Rightarrow> 'f \<Rightarrow> 'k \<Rightarrow> bytes \<Rightarrow> nat \<Rightarrow> 'f \<times> 'k \<times> (bytes \<times> nat) live_result" where
  "reassemble_loop lib fetch write path [] fs k whole written = (fs, k, Inr (whole, written))"
| "reassemble_loop lib fetch write path (c # cs) fs k whole written =
     (case fetch fs (mc_kappa c) of
        (fs', Inl e) \<Rightarrow> (fs', k, Inl e)
      | (fs', Inr None) \<Rightarrow> (fs', k, Inl (NotFound (''chunk '' @ mc_kappa c @ '' of '' @ debug_str path @ '' is not available'')))
      | (fs', Inr (Some b)) \<Rightarrow>
          if sat64 (length b) \<noteq> mc_size c then
            (fs', k, Inl (InvalidHolo (''chunk '' @ mc_kappa c @ '' of '' @ debug_str path @ '' is '' @ show_nat (length b)
               @ '' bytes but the manifest declares '' @ show_nat (mc_size c))))
          else if repo_kappa lib b \<noteq> mc_kappa c then
            (fs', k, Inl (InvalidHolo (''chunk at offset '' @ show_nat (mc_offset c) @ '' of '' @ debug_str path
               @ '' does not match its kappa '' @ mc_kappa c)))
          else
            (case write k b of
               (k', Inl e) \<Rightarrow> (fs', k', Inl (Io (''write '' @ debug_str path @ '': '' @ e)))
             | (k', Inr _) \<Rightarrow> reassemble_loop lib fetch write path cs fs' k' (whole @ b) (written + mc_size c)))"

definition reassemble_file_to ::
  "repo_lib \<Rightarrow> ('f \<Rightarrow> string \<Rightarrow> 'f \<times> bytes option live_result) \<Rightarrow> ('k \<Rightarrow> bytes \<Rightarrow> 'k \<times> (string + unit))
     \<Rightarrow> manifest_file \<Rightarrow> 'f \<Rightarrow> 'k \<Rightarrow> 'f \<times> 'k \<times> nat live_result" where
  "reassemble_file_to lib fetch write f fs k =
     (case validate_repo_file f of
        Inl e \<Rightarrow> (fs, k, Inl e)
      | Inr _ \<Rightarrow>
          (case reassemble_loop lib fetch write (mf_path f) (mf_chunks f) fs k [] 0 of
             (fs', k', Inl e) \<Rightarrow> (fs', k', Inl e)
           | (fs', k', Inr (whole, written)) \<Rightarrow>
               let blake3 = ''blake3:'' @ rl_blake3 lib whole; sha256 = ''sha256:'' @ rl_sha256 lib whole in
               if blake3 \<noteq> mf_blake3 f then
                 (fs', k', Inl (InvalidHolo (''reassembled '' @ debug_str (mf_path f) @ '' is '' @ blake3
                    @ '' but the manifest declares '' @ mf_blake3 f)))
               else
                 (fs', k', case mf_sha256 f of
                    None \<Rightarrow> Inr written
                  | Some expected \<Rightarrow>
                      if sha256 \<noteq> expected then
                        Inl (InvalidHolo (''reassembled '' @ debug_str (mf_path f) @ '' is '' @ sha256
                          @ '' but the manifest declares '' @ expected))
                      else Inr written)))"

text \<open>\<open>reassemble_file\<close>: the sink is a vector, and its bytes are given out only on success.\<close>

definition push_vec :: "bytes \<Rightarrow> bytes \<Rightarrow> bytes \<times> (string + unit)" where
  "push_vec out b = (out @ b, Inr ())"

definition reassemble_file ::
  "repo_lib \<Rightarrow> ('f \<Rightarrow> string \<Rightarrow> 'f \<times> bytes option live_result) \<Rightarrow> manifest_file \<Rightarrow> 'f \<Rightarrow> 'f \<times> bytes live_result" where
  "reassemble_file lib fetch f fs =
     (case reassemble_file_to lib fetch push_vec f fs [] of
        (fs', out, Inl e) \<Rightarrow> (fs', Inl e)
      | (fs', out, Inr _) \<Rightarrow> (fs', Inr out))"

section \<open>What a reader delivers\<close>

text \<open>The bytes up to the first end of the input, or the first error.\<close>

fun stream_of :: "read_event list \<Rightarrow> string + bytes" where
  "stream_of [] = Inr []"
| "stream_of (ReadSome b # r) = (if b = [] then Inr [] else map_sum id ((@) b) (stream_of r))"
| "stream_of (ReadInterrupted # r) = stream_of r"
| "stream_of (ReadFailed e # r) = Inl e"

lemma map_sum_append: "map_sum id ((@) a) (map_sum id ((@) b) s) = map_sum id ((@) (a @ b)) s"
  by (cases s) auto

lemma read_call_stream:
  "read_call n r = (ReadBytes [], r') \<Longrightarrow> 0 < n \<Longrightarrow> stream_of r = Inr []"
  "read_call n r = (ReadBytes b, r') \<Longrightarrow> b \<noteq> [] \<Longrightarrow> length b \<le> n \<and> stream_of r = map_sum id ((@) b) (stream_of r')"
  "read_call n r = (ReadAgain, r') \<Longrightarrow> stream_of r' = stream_of r"
  "read_call n r = (ReadError e, r') \<Longrightarrow> stream_of r = Inl e"
  by (cases "(n, r)" rule: read_call.cases; auto simp: map_sum_append split: if_splits)+

text \<open>What \<open>read_full\<close> has done to a reader: read up to its end, filled the buffer, or met its error.\<close>

definition full_read :: "nat \<Rightarrow> bytes \<Rightarrow> read_event list \<Rightarrow> (string + bytes) \<times> read_event list \<Rightarrow> bool" where
  "full_read n filled r out \<longleftrightarrow>
     (case out of
        (Inl e, _) \<Rightarrow> stream_of r = Inl e
      | (Inr b, r') \<Rightarrow> \<exists>x. b = filled @ x \<and> length b \<le> n
          \<and> (if length b = n then stream_of r = map_sum id ((@) x) (stream_of r') else stream_of r = Inr x))"

lemma full_read_after:
  assumes "full_read n (filled @ x) r1 out" "stream_of r = map_sum id ((@) x) (stream_of r1)"
  shows "full_read n filled r out"
proof -
  obtain y r2 where out: "out = (y, r2)" by fastforce
  show ?thesis
  proof (cases y)
    case (Inl e)
    then show ?thesis using assms by (simp add: full_read_def out)
  next
    case (Inr b)
    then obtain z where "b = (filled @ x) @ z" "length b \<le> n"
      "if length b = n then stream_of r1 = map_sum id ((@) z) (stream_of r2) else stream_of r1 = Inr z"
      using assms(1) by (auto simp: full_read_def out)
    then show ?thesis using assms(2) Inr by (simp add: full_read_def out map_sum_append)
  qed
qed

lemma read_full_stream: "length filled \<le> n \<Longrightarrow> full_read n filled r (read_full n filled r)"
proof (induction n filled r rule: read_full.induct)
  case (1 n filled r)
  obtain a r1 where c: "read_call (n - length filled) r = (a, r1)" by fastforce
  show ?case
  proof (cases "length filled < n")
    case full: True
    show ?thesis
    proof (cases a)
      case (ReadBytes x)
      show ?thesis
      proof (cases "x = []")
        case True
        then show ?thesis using full c ReadBytes read_call_stream(1) [of "n - length filled" r r1]
          by (auto simp: read_full.simps [of n filled] full_read_def)
      next
        case False
        note x = read_call_stream(2) [OF c [unfolded ReadBytes] False]
        have "read_full n filled r = read_full n (filled @ x) r1" using full c ReadBytes False by (simp add: read_full.simps [of n filled r])
        moreover have "length (filled @ x) \<le> n" using x full by (simp add: le_diff_conv2 add.commute)
        ultimately show ?thesis using 1(1) [OF full c [symmetric] ReadBytes False] x full_read_after by metis
      qed
    next
      case ReadAgain
      have st: "stream_of r1 = stream_of r" using read_call_stream(3) [OF c [unfolded ReadAgain]] .
      have rf: "read_full n filled r = read_full n filled r1" using c full ReadAgain by (simp add: read_full.simps [of n filled r])
      show ?thesis using 1(2) [OF full c [symmetric] ReadAgain 1(3)] unfolding rf full_read_def st .
    next
      case (ReadError e)
      then show ?thesis using c full read_call_stream(4) [of _ r e r1] by (simp add: read_full.simps [of n filled r] full_read_def)
    qed
  next
    case False
    then show ?thesis using 1(3) by (cases "stream_of r") (auto simp: read_full.simps [of n filled r] full_read_def)
  qed
qed

text \<open>The content cut into pieces of \<open>n\<close> bytes, the last one possibly shorter, and their chunks.\<close>

function pieces :: "nat \<Rightarrow> bytes \<Rightarrow> bytes list" where
  "pieces n c = (if n = 0 \<or> c = [] then [] else take n c # pieces n (drop n c))"
  by pat_completeness auto
termination by (relation "measure (length \<circ> snd)") auto

declare pieces.simps [simp del]

fun chunks_from :: "repo_lib \<Rightarrow> nat \<Rightarrow> bytes list \<Rightarrow> manifest_chunk list" where
  "chunks_from lib off [] = []"
| "chunks_from lib off (p # ps) = \<lparr>mc_kappa = repo_kappa lib p, mc_offset = off, mc_size = length p\<rparr> # chunks_from lib (off + length p) ps"

definition described :: "repo_lib \<Rightarrow> string \<Rightarrow> nat \<Rightarrow> bytes \<Rightarrow> manifest_file" where
  "described lib path n c =
     \<lparr>mf_path = path, mf_size = length c, mf_media_type = None, mf_sha256 = Some (''sha256:'' @ rl_sha256 lib c),
      mf_blake3 = ''blake3:'' @ rl_blake3 lib c, mf_chunks = chunks_from lib 0 (pieces n c)\<rparr>"

lemma pieces_Nil [simp]: "pieces n [] = []"
  by (simp add: pieces.simps)

lemma pieces_cons: "length b = n \<Longrightarrow> 0 < n \<Longrightarrow> pieces n (b @ c) = b # pieces n c"
  by (subst pieces.simps) auto

lemma pieces_last: "b \<noteq> [] \<Longrightarrow> length b < n \<Longrightarrow> pieces n b = [b]"
  by (subst pieces.simps) auto

lemma concat_pieces: "0 < n \<Longrightarrow> concat (pieces n c) = c"
  by (induction n c rule: pieces.induct) (subst pieces.simps, auto)

lemma pieces_size: "p \<in> set (pieces n c) \<Longrightarrow> 0 < length p \<and> length p \<le> n"
  by (induction n c rule: pieces.induct) (subst (asm) (2) pieces.simps, auto split: if_splits)

lemma pieces_nth: "k < length (pieces n c) \<Longrightarrow> pieces n c ! k = take n (drop (k * n) c) \<and> k * n < length c"
proof (induction n c arbitrary: k rule: pieces.induct)
  case (1 n c)
  then have p: "pieces n c = take n c # pieces n (drop n c)" "n \<noteq> 0" "c \<noteq> []" by (auto simp: pieces.simps [of n c] split: if_splits)
  then show ?case using 1 by (cases k) (auto simp: add.commute less_diff_conv)
qed

lemma pieces_offset: "0 < n \<Longrightarrow> k < length (pieces n c) \<Longrightarrow> length (concat (take k (pieces n c))) = k * n"
proof (induction k)
  case (Suc k)
  then have "pieces n c ! k = take n (drop (k * n) c)" "Suc k * n < length c" using pieces_nth [of k n c] pieces_nth [of "Suc k" n c] by auto
  then show ?case using Suc by (simp add: take_Suc_conv_app_nth)
qed simp

lemma describe_loop_error:
  "0 < n \<Longrightarrow> stream_of r = Inl e \<Longrightarrow> describe_loop lib n r whole chunks off = Inl e"
proof (induction lib n r whole chunks off rule: describe_loop.induct)
  case (1 lib n r whole chunks off)
  obtain x r' where x: "read_full n [] r = (x, r')" by fastforce
  show ?case
  proof (cases x)
    case (Inr b)
    then have b: "length b = n" "stream_of r' = Inl e" using read_full_stream [of "[]" n r, unfolded full_read_def] x 1(3)
      by (cases "stream_of r'"; auto split: if_splits)+
    then have "b \<noteq> []" using 1(2) by auto
    then show ?thesis using x Inr b 1(1) [OF x [symmetric] Inr _ refl refl refl] 1(2) by (simp add: describe_loop.simps [of lib n r] Let_def)
  qed (use read_full_stream [of "[]" n r, unfolded full_read_def] x 1(3) in \<open>auto simp: describe_loop.simps [of lib n r]\<close>)
qed

lemma describe_loop_exact:
  "0 < n \<Longrightarrow> stream_of r = Inr c \<Longrightarrow> off + length c \<le> u64_max \<Longrightarrow>
     describe_loop lib n r whole chunks off = Inr (whole @ c, chunks @ chunks_from lib off (pieces n c), off + length c)"
proof (induction lib n r whole chunks off arbitrary: c rule: describe_loop.induct)
  case (1 lib n r whole chunks off)
  obtain x r' where x: "read_full n [] r = (x, r')" by fastforce
  obtain b where b: "x = Inr b" "length b \<le> n"
    "if length b = n then stream_of r = map_sum id ((@) b) (stream_of r') else stream_of r = Inr b"
    using read_full_stream [of "[]" n r, unfolded full_read_def] 1(3) x by (cases x) auto
  show ?case
  proof (cases "length b = n")
    case True
    then obtain c' where c': "stream_of r' = Inr c'" "c = b @ c'" using b(3) 1(3) by (cases "stream_of r'") auto
    have ne: "b \<noteq> []" using True 1(2) by auto
    have size: "sat64 (length b) = length b" "(off + length b) mod 2 ^ 64 = off + length b"
      using 1(4) c'(2) by (auto simp: sat64_def)
    have "describe_loop lib n r' (whole @ b) (chunks @ [\<lparr>mc_kappa = repo_kappa lib b, mc_offset = off, mc_size = length b\<rparr>]) (off + length b)
        = Inr ((whole @ b) @ c', (chunks @ [\<lparr>mc_kappa = repo_kappa lib b, mc_offset = off, mc_size = length b\<rparr>])
            @ chunks_from lib (off + length b) (pieces n c'), off + length b + length c')"
      using 1(1) [OF x [symmetric] b(1) ne refl refl refl, of c'] True 1(2,4) c' size by simp
    then show ?thesis using x b(1) ne True size c' 1(2) by (simp add: describe_loop.simps [of lib n r] Let_def pieces_cons)
  next
    case False
    then have c: "c = b" "length b < n" using b 1(3) by auto
    have size: "sat64 (length b) = length b" "(off + length b) mod 2 ^ 64 = off + length b"
      using 1(4) c(1) by (auto simp: sat64_def)
    then show ?thesis using x b(1) c by (cases "b = []") (simp_all add: describe_loop.simps [of lib n r] Let_def pieces_last)
  qed
qed

lemma describe_file_exact:
  assumes "validate_repo_path path = Inr ()" "0 < n" "n \<le> max_chunk_bytes" "stream_of r = Inr c" "length c \<le> u64_max"
  shows "describe_file lib path r n = Inr (described lib path n c)"
  using assms by (simp add: describe_file_def described_def describe_loop_exact)


section \<open>Chunks\<close>

definition repo_lib_ok :: "repo_lib \<Rightarrow> bool" where
  "repo_lib_ok lib \<longleftrightarrow> (\<forall>b. length (rl_blake3 lib b) = 64 \<and> list_all is_lower_hex (rl_blake3 lib b)
     \<and> length (rl_sha256 lib b) = 64 \<and> list_all is_lower_hex (rl_sha256 lib b))"

lemma validate_repo_digest_Inr:
  "validate_repo_digest v pre = Inr () \<longleftrightarrow> (\<exists>d. v = pre @ d \<and> length d = 64 \<and> list_all is_lower_hex d)"
  by (auto simp: validate_repo_digest_def split: option.splits)

lemma validate_chunks_covered:
  "validate_chunks path cs off = Inr t \<Longrightarrow> t = off + sum_list (map mc_size cs)
     \<and> (\<forall>c \<in> set cs. 0 < mc_size c \<and> mc_size c \<le> max_chunk_bytes)"
  by (induction cs arbitrary: off) (force simp: result_simps split: if_splits)+

lemma digest_ok: "length d = 64 \<Longrightarrow> list_all is_lower_hex d \<Longrightarrow> validate_repo_digest (pre @ d) pre = Inr ()"
  by (simp add: validate_repo_digest_Inr)

lemma lib_digests:
  assumes "repo_lib_ok lib"
  shows "validate_repo_kappa (repo_kappa lib b) = Inr ()" "validate_repo_kappa (''blake3:'' @ rl_blake3 lib b) = Inr ()"
    "validate_repo_digest (''sha256:'' @ rl_sha256 lib b) ''sha256:'' = Inr ()"
  unfolding validate_repo_kappa_def repo_kappa_def by (rule digest_ok; use assms in \<open>simp add: repo_lib_ok_def\<close>)+

lemma validate_chunks_from:
  assumes "repo_lib_ok lib"
  shows "(\<And>p. p \<in> set ps \<Longrightarrow> 0 < length p \<and> length p \<le> max_chunk_bytes) \<Longrightarrow> off + length (concat ps) \<le> u64_max \<Longrightarrow>
    validate_chunks path (chunks_from lib off ps) off = Inr (off + length (concat ps))"
proof (induction ps arbitrary: off)
  case (Cons p ps)
  have "0 < length p" "length p \<le> max_chunk_bytes" using Cons.prems(1) [of p] by simp_all
  then have p: "mc_size c \<noteq> 0 \<and> \<not> max_chunk_bytes < mc_size c" if "mc_size c = length p" for c using that by simp
  show ?case using Cons p lib_digests(1) [OF assms, of p] by (simp add: checked_add64_def not_less)
qed simp

lemma described_valid:
  assumes "repo_lib_ok lib" "validate_repo_path path = Inr ()" "0 < n" "n \<le> max_chunk_bytes" "length c \<le> u64_max"
  shows "validate_repo_file (described lib path n c) = Inr ()"
proof -
  have size: "0 < length p \<and> length p \<le> max_chunk_bytes" if "p \<in> set (pieces n c)" for p using pieces_size [OF that] assms(4) by simp
  have "validate_chunks path (chunks_from lib 0 (pieces n c)) 0 = Inr (length c)"
    using validate_chunks_from [OF assms(1), of "pieces n c" 0 path] size assms(5) concat_pieces [OF assms(3), of c] by simp
  then show ?thesis using assms(2) lib_digests(2,3) [OF assms(1), of c] by (simp add: validate_repo_file_def described_def)
qed

lemma chunks_from_nth:
  "k < length ps \<Longrightarrow> chunks_from lib off ps ! k
     = \<lparr>mc_kappa = repo_kappa lib (ps ! k), mc_offset = off + length (concat (take k ps)), mc_size = length (ps ! k)\<rparr>"
proof (induction ps arbitrary: off k)
  case (Cons p ps)
  then show ?case by (cases k) simp_all
qed simp

lemma chunks_from_length [simp]: "length (chunks_from lib off ps) = length ps"
  by (induction ps arbitrary: off) auto

section \<open>What is written\<close>

text \<open>Pieces that answer to the first chunks of a list, in order.\<close>

definition answers_chunks :: "repo_lib \<Rightarrow> manifest_chunk list \<Rightarrow> bytes list \<Rightarrow> bool" where
  "answers_chunks lib cs ps \<longleftrightarrow> length ps \<le> length cs
     \<and> (\<forall>i < length ps. repo_kappa lib (ps ! i) = mc_kappa (cs ! i) \<and> length (ps ! i) = mc_size (cs ! i))"

lemma answers_Nil [simp]: "answers_chunks lib cs []"
  by (simp add: answers_chunks_def)

lemma answers_Cons [simp]:
  "answers_chunks lib (c # cs) (p # ps) \<longleftrightarrow> repo_kappa lib p = mc_kappa c \<and> length p = mc_size c \<and> answers_chunks lib cs ps"
  by (auto simp: answers_chunks_def less_Suc_eq_0_disj)

lemma answers_length: "answers_chunks lib cs ps \<Longrightarrow> length ps = length cs \<Longrightarrow> sum_list (map mc_size cs) = length (concat ps)"
proof (induction cs arbitrary: ps)
  case (Cons c cs)
  then show ?case by (cases ps) auto
qed simp

definition write_all :: "('k \<Rightarrow> bytes \<Rightarrow> 'k \<times> (string + unit)) \<Rightarrow> bytes list \<Rightarrow> 'k \<Rightarrow> 'k" where
  "write_all write ps k = fold (\<lambda>b k. fst (write k b)) ps k"

lemma write_all_simps [simp]: "write_all write [] k = k" "write_all write (p # ps) k = write_all write ps (fst (write k p))"
  by (simp_all add: write_all_def)

lemma write_all_vec: "write_all push_vec ps out = out @ concat ps"
  by (induction ps arbitrary: out) (auto simp: push_vec_def)

lemma reassemble_loop_written:
  "reassemble_loop lib fetch write path cs fs k whole written = (fs', k', res)
     \<Longrightarrow> (\<And>c. c \<in> set cs \<Longrightarrow> mc_size c \<le> max_chunk_bytes)
     \<Longrightarrow> \<exists>ps. answers_chunks lib cs ps \<and> k' = write_all write ps k
       \<and> (\<forall>w n. res = Inr (w, n) \<longrightarrow> length ps = length cs \<and> w = whole @ concat ps \<and> n = written + length (concat ps))"
proof (induction cs arbitrary: fs k whole written)
  case Nil
  then show ?case by (intro exI [of _ "[]"]) auto
next
  case (Cons c cs)
  obtain fs1 r where f: "fetch fs (mc_kappa c) = (fs1, r)" by fastforce
  consider (stop) e where "k' = k" "res = Inl e"
    | (piece) b where "r = Inr (Some b)" "sat64 (length b) = mc_size c" "repo_kappa lib b = mc_kappa c"
    using Cons.prems(1) f by (auto split: sum.splits option.splits if_splits)
  then show ?case
  proof cases
    case stop
    then show ?thesis by (intro exI [of _ "[]"]) auto
  next
    case piece
    have len: "length b = mc_size c" using piece(2) Cons.prems(2) [of c] by (auto simp: sat64_def max_chunk_bytes_def min_def split: if_splits)
    obtain k1 x where w: "write k b = (k1, x)" by fastforce
    show ?thesis
    proof (cases x)
      case (Inl e)
      then show ?thesis using Cons.prems(1) f piece w len by (intro exI [of _ "[b]"]) auto
    next
      case (Inr u)
      have "reassemble_loop lib fetch write path cs fs1 k1 (whole @ b) (written + mc_size c) = (fs', k', res)"
        using Cons.prems(1) f piece w Inr by simp
      from Cons.IH [OF this] Cons.prems(2) obtain ps where "answers_chunks lib cs ps" "k' = write_all write ps k1"
        "\<forall>w n. res = Inr (w, n) \<longrightarrow> length ps = length cs \<and> w = (whole @ b) @ concat ps \<and> n = written + mc_size c + length (concat ps)"
        by auto
      then show ?thesis using piece w len by (intro exI [of _ "b # ps"]) auto
    qed
  qed
qed

lemma reassemble_loop_served:
  assumes "\<And>p fs. p \<in> set ps \<Longrightarrow> \<exists>fs'. fetch fs (repo_kappa lib p) = (fs', Inr (Some p))" "\<And>p. p \<in> set ps \<Longrightarrow> length p \<le> max_chunk_bytes"
  shows "\<exists>fs'. reassemble_loop lib fetch push_vec path (chunks_from lib off ps) fs out whole written
     = (fs', out @ concat ps, Inr (whole @ concat ps, written + length (concat ps)))"
  using assms
proof (induction ps arbitrary: off fs out whole written)
  case (Cons p ps)
  obtain fs1 where f: "fetch fs (repo_kappa lib p) = (fs1, Inr (Some p))" using Cons.prems(1) [of p] by auto
  have "sat64 (length p) = length p" using Cons.prems(2) [of p] by (simp add: sat64_def max_chunk_bytes_def)
  then show ?case using f Cons.IH [of "off + length p" fs1 "out @ p" "whole @ p" "written + length p"] Cons.prems
    by (auto simp: push_vec_def)
qed auto

lemma reassemble_written:
  assumes "reassemble_file_to lib fetch write f fs k = (fs', k', res)"
  shows "\<exists>ps. k' = write_all write ps k \<and> answers_chunks lib (mf_chunks f) ps
    \<and> (\<forall>n. res = Inr n \<longrightarrow> length ps = length (mf_chunks f) \<and> n = mf_size f \<and> length (concat ps) = mf_size f
         \<and> mf_blake3 f = repo_kappa lib (concat ps) \<and> (\<forall>s. mf_sha256 f = Some s \<longrightarrow> s = ''sha256:'' @ rl_sha256 lib (concat ps)))"
proof (cases "validate_repo_file f")
  case (Inl e)
  then show ?thesis using assms by (intro exI [of _ "[]"]) (auto simp: reassemble_file_to_def)
next
  case (Inr u)
  then have covered: "validate_chunks (mf_path f) (mf_chunks f) 0 = Inr (mf_size f)"
    by (auto simp: validate_repo_file_def result_simps split: if_splits)
  note covered = validate_chunks_covered [OF covered]
  obtain r where loop: "reassemble_loop lib fetch write (mf_path f) (mf_chunks f) fs k [] 0 = (fs', k', r)"
    using assms Inr by (auto simp: reassemble_file_to_def Let_def split: sum.splits if_splits prod.splits)
  from reassemble_loop_written [OF loop] covered obtain ps where ps: "answers_chunks lib (mf_chunks f) ps" "k' = write_all write ps k"
    "\<forall>w n. r = Inr (w, n) \<longrightarrow> length ps = length (mf_chunks f) \<and> w = concat ps \<and> n = length (concat ps)" by auto
  have "length ps = length (mf_chunks f) \<and> n = mf_size f \<and> length (concat ps) = mf_size f \<and> mf_blake3 f = repo_kappa lib (concat ps)
      \<and> (\<forall>s. mf_sha256 f = Some s \<longrightarrow> s = ''sha256:'' @ rl_sha256 lib (concat ps))" if ok: "res = Inr n" for n
  proof -
    obtain w written where r: "r = Inr (w, written)" using assms loop Inr ok by (cases r) (simp_all add: reassemble_file_to_def, fast)
    then have w: "length ps = length (mf_chunks f)" "w = concat ps" "written = length (concat ps)" using ps(3) by auto
    moreover have "length (concat ps) = mf_size f" using answers_length [OF ps(1) w(1)] covered by simp
    moreover have "written = n \<and> mf_blake3 f = repo_kappa lib w \<and> (\<forall>s. mf_sha256 f = Some s \<longrightarrow> s = ''sha256:'' @ rl_sha256 lib w)"
      using assms loop Inr ok r unfolding reassemble_file_to_def repo_kappa_def Let_def
      by (auto split: if_splits option.splits)
    ultimately show ?thesis by simp
  qed
  then show ?thesis using ps(1,2) by blast
qed

lemma described_reassembles:
  assumes "repo_lib_ok lib" "validate_repo_path path = Inr ()" "0 < n" "n \<le> max_chunk_bytes" "length c \<le> u64_max"
    and "\<And>fs p. p \<in> set (pieces n c) \<Longrightarrow> \<exists>fs'. fetch fs (repo_kappa lib p) = (fs', Inr (Some p))"
  shows "\<exists>fs'. reassemble_file lib fetch (described lib path n c) fs = (fs', Inr c)"
proof -
  have size: "length p \<le> max_chunk_bytes" if "p \<in> set (pieces n c)" for p using pieces_size [OF that] assms(4) by simp
  obtain fs1 where loop: "reassemble_loop lib fetch push_vec path (chunks_from lib 0 (pieces n c)) fs [] [] 0 = (fs1, c, Inr (c, length c))"
    using reassemble_loop_served [of "pieces n c" fetch lib path 0 fs "[]" "[]" 0] assms(6) size concat_pieces [OF assms(3), of c] by auto
  then show ?thesis using described_valid [OF assms(1-5)]
    by (simp add: reassemble_file_def reassemble_file_to_def described_def Let_def)
qed

section \<open>Canonical form\<close>

definition repo_codec_ok :: "repo_lib \<Rightarrow> bool" where
  "repo_codec_ok lib \<longleftrightarrow> (\<forall>m. \<exists>b. rl_to_vec lib m = Inr b \<and> rl_from_slice lib b = Inr m)"

definition ordered :: "repo_manifest \<Rightarrow> repo_manifest" where
  "ordered m = m\<lparr>rm_files := sort_key mf_path (rm_files m)\<rparr>"

lemma validate_repo_files_Inr:
  "validate_repo_files fs seen = Inr () \<longleftrightarrow> (\<forall>f \<in> set fs. validate_repo_file f = Inr ()) \<and> distinct (map mf_path fs)
     \<and> mf_path ` set fs \<inter> seen = {}"
  by (induction fs arbitrary: seen) (auto simp: result_simps)

lemma validate_repo_manifest_Inr:
  "validate_repo_manifest m = Inr () \<longleftrightarrow> validate_repo_manifest (m\<lparr>rm_files := []\<rparr>) = Inr ()
     \<and> (\<forall>f \<in> set (rm_files m). validate_repo_file f = Inr ()) \<and> distinct (map mf_path (rm_files m))"
  by (auto simp: validate_repo_manifest_def result_simps validate_repo_files_Inr)

lemma validate_perm:
  assumes "m\<lparr>rm_files := []\<rparr> = m'\<lparr>rm_files := []\<rparr>" "mset (rm_files m) = mset (rm_files m')"
  shows "validate_repo_manifest m = Inr () \<longleftrightarrow> validate_repo_manifest m' = Inr ()"
proof -
  have "distinct (map mf_path (rm_files m)) \<longleftrightarrow> distinct (map mf_path (rm_files m'))"
    using assms(2) by (metis mset_map mset_eq_imp_distinct_iff)
  then show ?thesis using assms(1) mset_eq_setD [OF assms(2)] by (simp add: validate_repo_manifest_Inr [of m] validate_repo_manifest_Inr [of m'])
qed

lemma validate_ordered: "validate_repo_manifest (ordered m) = Inr () \<longleftrightarrow> validate_repo_manifest m = Inr ()"
  by (rule validate_perm) (simp_all add: ordered_def)

lemma ordered_idem: "ordered (ordered m) = ordered m"
  by (simp add: ordered_def sort_key_id_if_sorted)

lemma ordered_id:
  assumes "validate_repo_manifest m = Inr ()"
  shows "ordered m = m \<longleftrightarrow> sorted_wrt (<) (map mf_path (rm_files m))"
proof -
  have "distinct (map mf_path (rm_files m))" using assms by (simp add: validate_repo_manifest_Inr [of m])
  then have "sorted_wrt (<) (map mf_path (rm_files m)) \<longleftrightarrow> sorted (map mf_path (rm_files m))" by (simp add: strict_sorted_iff)
  moreover have "ordered m = m \<longleftrightarrow> sort_key mf_path (rm_files m) = rm_files m" by (cases m) (simp add: ordered_def)
  ultimately show ?thesis by (metis sort_key_id_if_sorted sorted_sort_key)
qed

lemma ordered_eq:
  assumes "validate_repo_manifest m = Inr ()"
  shows "ordered m' = ordered m \<longleftrightarrow> m\<lparr>rm_files := []\<rparr> = m'\<lparr>rm_files := []\<rparr> \<and> mset (rm_files m) = mset (rm_files m')"
proof -
  have inj: "inj_on mf_path (set (rm_files m))" using assms by (simp add: validate_repo_manifest_Inr [of m] distinct_map)
  have "sort_key mf_path (rm_files m') = sort_key mf_path (rm_files m) \<longleftrightarrow> mset (rm_files m) = mset (rm_files m')"
    using sort_key_inj_key_eq [OF _ inj, of "sort_key mf_path (rm_files m')"] by (metis mset_sort sorted_sort_key)
  then show ?thesis by (cases m; cases m') (auto simp: ordered_def)
qed

section \<open>Properties\<close>

text \<open>
  C18. Describing a file and putting it together again is a round trip, whatever way its reader delivers it.
  Let a reader deliver the content \<open>c\<close>, in any split into reads and with any interruptions, and let the path
  be valid and the chunk size within its bounds. Then the file is described by a valid entry of the size of
  \<open>c\<close>, whose chunks are the consecutive pieces of the chunk size (the last one possibly shorter); the entry
  depends on the content alone; and any source that serves those pieces by their addresses gives back exactly
  \<open>c\<close>. A reader that fails before its end gives an I/O error in place of an entry.
\<close>
theorem repo_file_round_trip:
  assumes "repo_lib_ok lib" "validate_repo_path path = Inr ()" "0 < n" "n \<le> max_chunk_bytes" "stream_of r = Inr c" "length c \<le> u64_max"
    and "\<And>fs p. p \<in> set (pieces n c) \<Longrightarrow> \<exists>fs'. fetch fs (repo_kappa lib p) = (fs', Inr (Some p))"
  shows "\<exists>f. describe_file lib path r n = Inr f \<and> validate_repo_file f = Inr () \<and> mf_size f = length c
     \<and> length (mf_chunks f) = length (pieces n c)
     \<and> (\<forall>k < length (mf_chunks f). mc_offset (mf_chunks f ! k) = k * n \<and> mc_size (mf_chunks f ! k) = min n (length c - k * n)
          \<and> mc_kappa (mf_chunks f ! k) = repo_kappa lib (take n (drop (k * n) c)))
     \<and> (\<forall>r'. stream_of r' = Inr c \<longrightarrow> describe_file lib path r' n = Inr f)
     \<and> (\<forall>r' e. stream_of r' = Inl e \<longrightarrow> describe_file lib path r' n = Inl (Io (''read '' @ debug_str path @ '': '' @ e)))
     \<and> (\<exists>fs'. reassemble_file lib fetch f fs = (fs', Inr c))"
proof -
  let ?f = "described lib path n c"
  have same: "\<forall>r'. stream_of r' = Inr c \<longrightarrow> describe_file lib path r' n = Inr ?f"
    using describe_file_exact [OF assms(2,3,4) _ assms(6)] by blast
  have failed: "\<forall>r' e. stream_of r' = Inl e \<longrightarrow> describe_file lib path r' n = Inl (Io (''read '' @ debug_str path @ '': '' @ e))"
    using assms(2,3,4) by (simp add: describe_file_def describe_loop_error)
  have valid: "validate_repo_file ?f = Inr ()" using described_valid assms(1-4,6) by blast
  have "\<exists>fs'. reassemble_file lib fetch ?f fs = (fs', Inr c)" by (rule described_reassembles [OF assms(1-4,6,7)])
  moreover have "mc_offset (mf_chunks ?f ! k) = k * n \<and> mc_size (mf_chunks ?f ! k) = min n (length c - k * n)
      \<and> mc_kappa (mf_chunks ?f ! k) = repo_kappa lib (take n (drop (k * n) c))" if "k < length (mf_chunks ?f)" for k
  proof -
    have k: "k < length (pieces n c)" using that by (simp add: described_def)
    then have "length (concat (take k (pieces n c))) = k * n" using pieces_offset [OF assms(3)] by simp
    then show ?thesis using pieces_nth [OF k] k by (simp add: described_def chunks_from_nth)
  qed
  moreover have "mf_size ?f = length c \<and> length (mf_chunks ?f) = length (pieces n c)" by (simp add: described_def)
  ultimately show ?thesis using same failed valid assms(5) by blast
qed

text \<open>
  C19. What leaves a reassembly is authentic, whatever the source of the chunks and the sink do. The bytes handed
  to the sink are pieces that answer to the first chunks of the file, each with the size and the address its
  chunk declares; a reassembly that succeeds has written all of them, as many bytes as the file declares, and
  their concatenation has the BLAKE3 address of the file and its SHA-256 where it has one. In memory, bytes are
  given out only then. A file that does not validate reaches neither the source nor the sink.
\<close>
theorem repo_reassembly_authentic:
  assumes "reassemble_file_to lib fetch write f fs k = (fs', k', res)"
  shows "(\<exists>ps. k' = write_all write ps k \<and> answers_chunks lib (mf_chunks f) ps
       \<and> (\<forall>n. res = Inr n \<longrightarrow> length ps = length (mf_chunks f) \<and> n = mf_size f \<and> length (concat ps) = mf_size f
            \<and> mf_blake3 f = repo_kappa lib (concat ps) \<and> (\<forall>s. mf_sha256 f = Some s \<longrightarrow> s = ''sha256:'' @ rl_sha256 lib (concat ps))))
     \<and> (\<forall>e. validate_repo_file f = Inl e \<longrightarrow> fs' = fs \<and> k' = k \<and> res = Inl e)
     \<and> (\<forall>gs gs' out. reassemble_file lib fetch f gs = (gs', Inr out) \<longrightarrow> validate_repo_file f = Inr () \<and> length out = mf_size f
          \<and> mf_blake3 f = repo_kappa lib out \<and> (\<forall>s. mf_sha256 f = Some s \<longrightarrow> s = ''sha256:'' @ rl_sha256 lib out))"
proof -
  have memory: "validate_repo_file f = Inr () \<and> length out = mf_size f
      \<and> mf_blake3 f = repo_kappa lib out \<and> (\<forall>s. mf_sha256 f = Some s \<longrightarrow> s = ''sha256:'' @ rl_sha256 lib out)"
    if got: "reassemble_file lib fetch f gs = (gs', Inr out)" for gs gs' out
  proof -
    obtain g1 o1 res1 where to: "reassemble_file_to lib fetch push_vec f gs [] = (g1, o1, res1)" by (metis prod_cases3)
    then obtain n where run: "reassemble_file_to lib fetch push_vec f gs [] = (gs', out, Inr n)"
      using got by (cases res1) (simp_all add: reassemble_file_def)
    then have "validate_repo_file f = Inr ()" by (auto simp: reassemble_file_to_def split: sum.splits)
    with reassemble_written [OF run] show ?thesis by (auto simp: write_all_vec)
  qed
  show ?thesis using reassemble_written [OF assms] memory assms by (auto simp: reassemble_file_to_def)
qed

text \<open>
  A manifest has one encoding and one revision. It encodes exactly when it is valid; its bytes decode to the
  manifest with its files ordered by path; bytes decode to a manifest exactly when they are its encoding and its
  files are in order; and two valid manifests have the same bytes, hence the same revision, exactly when they
  differ in the order of their files at most.
\<close>
theorem repo_manifest_canonical:
  assumes "repo_codec_ok lib"
  shows "(is_ok (repo_encode lib m) \<longleftrightarrow> validate_repo_manifest m = Inr ())
     \<and> (repo_encode lib m = Inr b \<longrightarrow> repo_revision lib m = Inr (repo_kappa lib b)
          \<and> repo_decode lib b = Inr (m\<lparr>rm_files := sort_key mf_path (rm_files m)\<rparr>))
     \<and> (repo_decode lib b = Inr m \<longleftrightarrow> repo_encode lib m = Inr b \<and> sorted_wrt (<) (map mf_path (rm_files m)))
     \<and> (repo_encode lib m = Inr b \<longrightarrow>
          (repo_encode lib m' = Inr b \<longleftrightarrow> m\<lparr>rm_files := []\<rparr> = m'\<lparr>rm_files := []\<rparr> \<and> mset (rm_files m) = mset (rm_files m')))"
proof -
  have enc: "repo_encode lib m = Inr b \<longleftrightarrow> validate_repo_manifest m = Inr () \<and> rl_to_vec lib (ordered m) = Inr b" for m b
    by (auto simp: repo_encode_def ordered_def result_simps)
  obtain v where v: "\<And>m. rl_to_vec lib m = Inr (v m)" "\<And>m. rl_from_slice lib (v m) = Inr m"
    using assms unfolding repo_codec_ok_def by metis
  have inj: "v a = v c \<longleftrightarrow> a = c" for a c using v(2) by (metis sum.inject(2))
  have dec: "repo_decode lib b = Inr m \<longleftrightarrow> repo_encode lib m = Inr b \<and> rl_from_slice lib b = Inr m" for m
    by (auto simp: repo_decode_def result_simps)
  have part1: "is_ok (repo_encode lib m) \<longleftrightarrow> validate_repo_manifest m = Inr ()" by (auto simp: is_ok_iff enc v)
  have part2: "repo_revision lib m = Inr (repo_kappa lib b) \<and> repo_decode lib b = Inr (ordered m)" if "repo_encode lib m = Inr b"
  proof
    show "repo_revision lib m = Inr (repo_kappa lib b)" unfolding repo_revision_def that by simp
    show "repo_decode lib b = Inr (ordered m)" using that validate_ordered [of m] ordered_idem [of m] v by (auto simp: dec enc)
  qed
  have part3: "repo_decode lib b = Inr m \<longleftrightarrow> repo_encode lib m = Inr b \<and> sorted_wrt (<) (map mf_path (rm_files m))"
    using v ordered_id by (auto simp: dec enc)
  have part4: "repo_encode lib m' = Inr b \<longleftrightarrow> m\<lparr>rm_files := []\<rparr> = m'\<lparr>rm_files := []\<rparr> \<and> mset (rm_files m) = mset (rm_files m')"
    if "repo_encode lib m = Inr b"
    using that ordered_eq [of m m'] validate_perm [of m m'] by (auto simp: enc v inj)
  show ?thesis using part1 part2 part3 part4 unfolding ordered_def by blast
qed

section \<open>Instances\<close>

fun chunks_of :: "string list \<Rightarrow> manifest_chunk list" where
  "chunks_of (k # off # n # r) = \<lparr>mc_kappa = k, mc_offset = digits_val off, mc_size = digits_val n\<rparr> # chunks_of r"
| "chunks_of _ = []"

lemma chunks_of_concat: "chunks_of (concat (map (\<lambda>c. [mc_kappa c, show_nat (mc_offset c), show_nat (mc_size c)]) cs)) = cs"
  by (induction cs) (simp_all add: digits_val_show_nat)

definition enc_file :: "manifest_file \<Rightarrow> bytes" where
  "enc_file f = enc_strs [mf_path f, show_nat (mf_size f), mf_blake3 f] @ enc_strs (opt_strs (mf_media_type f))
     @ enc_strs (opt_strs (mf_sha256 f)) @ enc_strs (concat (map (\<lambda>c. [mc_kappa c, show_nat (mc_offset c), show_nat (mc_size c)]) (mf_chunks f)))"

definition dec_file :: "bytes \<Rightarrow> (manifest_file \<times> bytes) option" where
  "dec_file b =
     (case dec_strs_list b of
        Some ([p, n, h], b1) \<Rightarrow>
          (case dec_strs_list b1 of None \<Rightarrow> None | Some (t, b2) \<Rightarrow>
           (case dec_strs_list b2 of None \<Rightarrow> None | Some (s, b3) \<Rightarrow>
            (case dec_strs_list b3 of None \<Rightarrow> None | Some (cs, b4) \<Rightarrow>
               Some (\<lparr>mf_path = p, mf_size = digits_val n, mf_media_type = strs_opt t, mf_sha256 = strs_opt s, mf_blake3 = h,
                     mf_chunks = chunks_of cs\<rparr>, b4))))
      | _ \<Rightarrow> None)"

fun dec_files :: "nat \<Rightarrow> bytes \<Rightarrow> manifest_file list option" where
  "dec_files 0 b = Some []"
| "dec_files (Suc n) b = (case dec_file b of None \<Rightarrow> None | Some (f, r) \<Rightarrow> map_option ((#) f) (dec_files n r))"

lemma dec_enc_file: "dec_file (enc_file f @ r) = Some (f, r)"
  by (simp add: dec_file_def enc_file_def dec_strs_list_enc digits_val_show_nat chunks_of_concat)

lemma dec_enc_files: "dec_files (length fs) (concat (map enc_file fs) @ r) = Some fs"
  by (induction fs) (simp_all add: dec_enc_file)

definition demo_repo_enc :: "repo_manifest \<Rightarrow> bytes" where
  "demo_repo_enc m = enc_strs [rm_format m, rm_name m, show_nat (length (rm_files m))]
     @ enc_strs (case rm_source m of None \<Rightarrow> [] | Some s \<Rightarrow> [ms_kind s, ms_repo s, ms_revision s]) @ concat (map enc_file (rm_files m))"

definition demo_repo_dec :: "bytes \<Rightarrow> string + repo_manifest" where
  "demo_repo_dec b = ok_or ''malformed''
     (case dec_strs_list b of
        Some ([f, n, k], b1) \<Rightarrow>
          (case dec_strs_list b1 of None \<Rightarrow> None | Some (src, b2) \<Rightarrow>
             map_option (\<lambda>fs. \<lparr>rm_format = f, rm_name = n,
               rm_source = (case src of [a, r, v] \<Rightarrow> Some \<lparr>ms_kind = a, ms_repo = r, ms_revision = v\<rparr> | _ \<Rightarrow> None), rm_files = fs\<rparr>)
               (dec_files (digits_val k) b2))
      | _ \<Rightarrow> None)"

definition demo_repo_lib :: repo_lib where
  "demo_repo_lib = \<lparr>rl_blake3 = sample_hash, rl_sha256 = sample_hash, rl_to_vec = Inr \<circ> demo_repo_enc, rl_from_slice = demo_repo_dec\<rparr>"

lemma demo_repo_codec: "demo_repo_dec (demo_repo_enc m) = Inr m"
  using dec_enc_files [of "rm_files m" "[]"]
  by (cases "rm_source m") (simp_all add: demo_repo_dec_def demo_repo_enc_def dec_strs_list_enc digits_val_show_nat)

lemma demo_repo_ok: "repo_lib_ok demo_repo_lib" "repo_codec_ok demo_repo_lib"
  by (simp_all add: repo_lib_ok_def repo_codec_ok_def demo_repo_lib_def sample_hash_shape demo_repo_codec)

definition demo_reader :: "read_event list" where
  "demo_reader = [ReadSome [1, 2, 3], ReadInterrupted, ReadSome [4]]"

definition demo_chunk_source :: "nat \<Rightarrow> string \<Rightarrow> nat \<times> bytes option live_result" where
  "demo_chunk_source calls k = (calls + 1, Inr (find (\<lambda>p. repo_kappa demo_repo_lib p = k) [[1, 2], [3, 4]]))"

lemma demo_pieces: "pieces 2 [1, 2, 3, 4] = [[1, 2], [3, 4 :: 8 word]]"
  by (simp add: pieces.simps)

lemma demo_served: "p \<in> set (pieces 2 [1, 2, 3, 4]) \<Longrightarrow> \<exists>c'. demo_chunk_source c (repo_kappa demo_repo_lib p) = (c', Inr (Some p))"
  by (auto simp: demo_pieces demo_chunk_source_def repo_kappa_def demo_repo_lib_def sample_hash_def hex_def hex_byte_def hex_digit_def)

lemma demo_path: "validate_repo_path ''a/b'' = Inr ()"
  by (simp add: validate_repo_path_def starts_with_def byte_class_defs)

theorem repo_file_round_trip_witness:
  "\<exists>f c'. describe_file demo_repo_lib ''a/b'' demo_reader 2 = Inr f \<and> mf_size f = 4
     \<and> reassemble_file demo_repo_lib demo_chunk_source f 0 = (c', Inr [1, 2, 3, 4])"
proof -
  have "stream_of demo_reader = Inr [1, 2, 3, 4]" by (simp add: demo_reader_def)
  from repo_file_round_trip [where fetch = demo_chunk_source and n = 2 and fs = 0, OF demo_repo_ok(1) demo_path _ _ this _ demo_served]
  show ?thesis by (auto simp: max_chunk_bytes_def)
qed

theorem repo_reassembly_authentic_witness:
  "\<exists>c'. reassemble_file demo_repo_lib demo_chunk_source (described demo_repo_lib ''a/b'' 2 [1, 2, 3, 4]) 0 = (c', Inr [1, 2, 3, 4])
     \<and> mf_blake3 (described demo_repo_lib ''a/b'' 2 [1, 2, 3, 4]) = repo_kappa demo_repo_lib [1, 2, 3, 4]"
proof -
  let ?f = "described demo_repo_lib ''a/b'' 2 [1, 2, 3, 4]"
  obtain c' where run: "reassemble_file demo_repo_lib demo_chunk_source ?f 0 = (c', Inr [1, 2, 3, 4])"
    using described_reassembles [where fetch = demo_chunk_source and n = 2 and c = "[1, 2, 3, 4]" and fs = 0, OF demo_repo_ok(1) demo_path _ _ _ demo_served] by (auto simp: max_chunk_bytes_def)
  obtain c1 out res where "reassemble_file_to demo_repo_lib demo_chunk_source push_vec ?f 0 [] = (c1, out, res)" by (metis prod_cases3)
  from repo_reassembly_authentic [OF this] run show ?thesis by blast
qed

theorem repo_manifest_canonical_witness:
  "let a = described demo_repo_lib ''a'' 2 [1]; b = described demo_repo_lib ''b'' 2 [] in
   \<exists>bytes. repo_encode demo_repo_lib ((repo_manifest_new ''n/r'')\<lparr>rm_files := [b, a]\<rparr>) = Inr bytes
     \<and> repo_encode demo_repo_lib ((repo_manifest_new ''n/r'')\<lparr>rm_files := [a, b]\<rparr>) = Inr bytes"
proof -
  let ?a = "described demo_repo_lib ''a'' 2 [1]" and ?b = "described demo_repo_lib ''b'' 2 []"
  let ?m = "(repo_manifest_new ''n/r'')\<lparr>rm_files := [?b, ?a]\<rparr>" and ?m' = "(repo_manifest_new ''n/r'')\<lparr>rm_files := [?a, ?b]\<rparr>"
  have paths: "validate_repo_path ''a'' = Inr ()" "validate_repo_path ''b'' = Inr ()"
    by (simp_all add: validate_repo_path_def starts_with_def byte_class_defs)
  have files: "validate_repo_file ?a = Inr ()" "validate_repo_file ?b = Inr ()"
    using described_valid [OF demo_repo_ok(1) paths(1), of 2] described_valid [OF demo_repo_ok(1) paths(2), of 2]
    by (simp_all add: max_chunk_bytes_def)
  have "validate_repo_manifest ?m = Inr ()" unfolding validate_repo_manifest_Inr [of ?m]
    using files by (simp add: validate_repo_manifest_def repo_manifest_new_def validate_repo_name_def described_def byte_class_defs)
  then obtain bytes where "repo_encode demo_repo_lib ?m = Inr bytes"
    using repo_manifest_canonical [OF demo_repo_ok(2), of ?m] by (auto simp: is_ok_iff)
  then show ?thesis using repo_manifest_canonical [OF demo_repo_ok(2), of ?m bytes ?m'] by (simp add: Let_def add_mset_commute)
qed

end
