(* ===== verification/Archive_Compiler.thy ===== *)
theory Archive_Compiler
  imports Holo_Catalog Python_Runtime Wasm_Guest Component_Host
begin

text \<open>
  The archive compiler (\<open>src/compile.rs\<close>, and the source check of \<open>src/holo_python_component.rs\<close>): a source
  manifest, the files it names, and the child archives it composes become one archive with its canonical
  manifest, its directory and its content. Parsing JSON, writing an archive and the layer constructors are code of
  other crates and so are parameters; so are the builds of Python sources, which run tools in containers.
\<close>

section \<open>Source manifests\<close>

datatype compile_layer_kind = KindWasm | KindTensor | KindRootfs | KindView | KindInferenceModel

datatype compile_source_kind = Python python_source

record compile_layer =
  sl_kind :: compile_layer_kind
  sl_path :: "string option"
  sl_source :: "compile_source_kind option"
  sl_entry :: "string option"
  sl_contract :: "string option"
  sl_arch :: "string option"
  sl_surface :: "string option"
  sl_engine :: "string option"

record compile_child =
  sc_application :: string
  sc_capabilities :: string

record compile_spec =
  cs_version :: nat
  cs_primary :: "nat option"
  cs_library :: bool
  cs_requires :: "string option"
  cs_layers :: "compile_layer list"
  cs_children :: "compile_child list"

definition current_manifest_schema_version :: nat where
  "current_manifest_schema_version = 4"

datatype holo_packaging = Fat | Thin

datatype ('r, 'c) python_provenance = RootfsProvenance 'r | ComponentProvenance 'c

record ('r, 'c) layer_provenance =
  lp_layer_index :: nat
  lp_source :: "('r, 'c) python_provenance"

record ('r, 'c) compiled_holo =
  ch_bytes :: bytes
  ch_layer_count :: nat
  ch_child_count :: nat
  ch_packaging :: holo_packaging
  ch_identity :: holo_identity
  ch_capabilities_kappa :: string
  ch_provenance :: "('r, 'c) layer_provenance list"

record ('r, 'c) checked_manifest =
  ck_specification :: compile_spec
  ck_capabilities_kappa :: string
  ck_provenance :: "('r, 'c) layer_provenance list"

section \<open>What the compiler is given\<close>

text \<open>The sections put into a \<open>HoloWriter\<close>, and the layer constructors, of the \<open>hologram\<close> crate.\<close>

record holo_draft =
  hw_manifest :: bytes
  hw_metadata :: bytes
  hw_extensions :: "(string \<times> bytes) list"
  hw_blobs :: "(bytes \<times> bytes) list"

record layer_constructors =
  lc_wasm :: "string \<Rightarrow> string \<Rightarrow> string \<Rightarrow> app_layer"
  lc_tensor :: "string \<Rightarrow> string \<Rightarrow> app_layer"
  lc_rootfs :: "string \<Rightarrow> string \<Rightarrow> string \<Rightarrow> app_layer"
  lc_view :: "string \<Rightarrow> string \<Rightarrow> app_layer"
  lc_inference :: "string \<Rightarrow> string \<Rightarrow> string \<Rightarrow> app_layer"

text \<open>
  \<open>kw_fs\<close> and \<open>kw_tree\<close> are what reading a file and walking a directory find; \<open>kw_fingerprint\<close> loads an archive
  for its fingerprint alone.
\<close>

record ('r, 'c) compile_world =
  kw_env :: holo_env
  kw_fs :: fs
  kw_tree :: "string \<Rightarrow> view_node"
  kw_parse :: "bytes \<Rightarrow> string + compile_spec"
  kw_caps_parse :: "bytes \<Rightarrow> string + capability_source"
  kw_layers :: layer_constructors
  kw_references :: "bytes \<Rightarrow> string + string list"
  kw_finish :: "holo_draft \<Rightarrow> string + bytes"
  kw_fingerprint :: "bytes \<Rightarrow> string + bytes"
  kw_os_arch :: string
  kw_rootfs_check :: "string \<Rightarrow> python_source \<Rightarrow> string \<Rightarrow> 'r live_result"
  kw_component_check :: "string \<Rightarrow> python_source \<Rightarrow> 'c live_result"
  kw_rootfs_build :: "string \<Rightarrow> python_source \<Rightarrow> string \<Rightarrow> bool \<Rightarrow> (bytes \<times> 'r) live_result"
  kw_component_build :: "string \<Rightarrow> python_source \<Rightarrow> (bytes \<times> 'c) live_result"

abbreviation kw_space :: "('r, 'c) compile_world \<Rightarrow> space" where
  "kw_space w \<equiv> he_space (kw_env w)"

abbreviation kw_contracts :: "('r, 'c) compile_world \<Rightarrow> wasm_contracts" where
  "kw_contracts w \<equiv> he_contracts (kw_env w)"

section \<open>Layers\<close>

fun kind_name :: "compile_layer_kind \<Rightarrow> string" where
  "kind_name KindWasm = ''wasm''"
| "kind_name KindTensor = ''tensor''"
| "kind_name KindRootfs = ''rootfs''"
| "kind_name KindView = ''view''"
| "kind_name KindInferenceModel = ''inference-model''"

definition source_layer_name :: "compile_layer \<Rightarrow> string" where
  "source_layer_name l =
     (case sl_path l of
        Some path \<Rightarrow> path
      | None \<Rightarrow> (case sl_source l of Some (Python src) \<Rightarrow> py_project src | None \<Rightarrow> ''<missing>''))"

definition layer_config_error :: "compile_layer \<Rightarrow> string \<Rightarrow> live_error" where
  "layer_config_error l message = Config (''compile layer '' @ source_layer_name l @ '' ('' @ kind_name (sl_kind l) @ ''): '' @ message)"

definition reject_aux :: "compile_layer \<Rightarrow> string \<Rightarrow> string option \<Rightarrow> unit live_result" where
  "reject_aux l field v =
     (if v \<noteq> None then Inl (layer_config_error l (kind_name (sl_kind l) @ '' layers do not accept '' @ field)) else Inr ())"

definition required_field :: "compile_layer \<Rightarrow> string \<Rightarrow> string option \<Rightarrow> string live_result" where
  "required_field l field v =
     (case v of
        Some x \<Rightarrow> if x = [] then Inl (layer_config_error l (kind_name (sl_kind l) @ '' layers require '' @ field)) else Inr x
      | None \<Rightarrow> Inl (layer_config_error l (kind_name (sl_kind l) @ '' layers require '' @ field)))"

definition effective_entry :: "compile_layer \<Rightarrow> string option" where
  "effective_entry l =
     (case sl_entry l of
        Some e \<Rightarrow> Some e
      | None \<Rightarrow> (case sl_source l of
                   Some (Python src) \<Rightarrow> if py_profile src = RootfsProfile then Some (py_entry src) else None
                 | None \<Rightarrow> None))"

definition component_contracts :: "wasm_contracts \<Rightarrow> string list" where
  "component_contracts wc = [wc_component wc, wc_store_read wc, wc_store_graph_read wc, wc_store_write wc,
     wc_channel_publish wc, wc_channel_subscribe wc, wc_network_fetch wc]"

definition entry_or :: "compile_layer \<Rightarrow> string \<Rightarrow> string" where
  "entry_or l default' = (case effective_entry l of Some e \<Rightarrow> e | None \<Rightarrow> default')"

definition build_wasm_layer :: "('r, 'c) compile_world \<Rightarrow> compile_layer \<Rightarrow> string \<Rightarrow> app_layer live_result" where
  "build_wasm_layer w l kappa =
     bindE (reject_aux l ''arch'' (sl_arch l)) (\<lambda>_.
     bindE (reject_aux l ''surface'' (sl_surface l)) (\<lambda>_.
     bindE (reject_aux l ''engine'' (sl_engine l)) (\<lambda>_.
     bindE (ok_or (layer_config_error l ''Wasm layers require an explicit entry'') (sl_entry l)) (\<lambda>entry.
     bindE (map_err (\<lambda>e. layer_config_error l (''invalid entry: '' @ e)) (validate_entry_name entry)) (\<lambda>_.
     case sl_contract l of
       None \<Rightarrow> Inl (layer_config_error l ''Wasm layers require an explicit canonical contract'')
     | Some v \<Rightarrow>
         if v = [] then Inl (layer_config_error l ''contract must be a non-empty canonical identifier'')
         else
           bindE (map_err (layer_config_error l) (normalize_wasm_contract (kw_contracts w) v)) (\<lambda>contract.
           if contract \<in> set (component_contracts (kw_contracts w)) \<and> entry \<noteq> component_v1_entry
           then Inl (layer_config_error l (''Component v1 entry must be '' @ debug_str component_v1_entry @ '', got '' @ debug_str entry))
           else Inr (lc_wasm (kw_layers w) kappa entry contract)))))))"

definition build_layer :: "('r, 'c) compile_world \<Rightarrow> compile_layer \<Rightarrow> string \<Rightarrow> app_layer live_result" where
  "build_layer w l kappa =
     (case sl_kind l of
        KindWasm \<Rightarrow> build_wasm_layer w l kappa
      | KindTensor \<Rightarrow>
          bindE (reject_aux l ''contract'' (sl_contract l)) (\<lambda>_.
          bindE (reject_aux l ''arch'' (sl_arch l)) (\<lambda>_.
          bindE (reject_aux l ''surface'' (sl_surface l)) (\<lambda>_.
          bindE (reject_aux l ''engine'' (sl_engine l)) (\<lambda>_.
          Inr (lc_tensor (kw_layers w) kappa (entry_or l ''session''))))))
      | KindRootfs \<Rightarrow>
          bindE (reject_aux l ''contract'' (sl_contract l)) (\<lambda>_.
          bindE (reject_aux l ''surface'' (sl_surface l)) (\<lambda>_.
          bindE (reject_aux l ''engine'' (sl_engine l)) (\<lambda>_.
          bindE (required_field l ''arch'' (sl_arch l)) (\<lambda>arch.
          bindE (if sl_source l \<noteq> None then normalize_arch (kw_os_arch w) arch else Inr arch) (\<lambda>arch.
          Inr (lc_rootfs (kw_layers w) kappa (entry_or l ''boot'') arch))))))
      | KindView \<Rightarrow>
          bindE (reject_aux l ''contract'' (sl_contract l)) (\<lambda>_.
          bindE (reject_aux l ''arch'' (sl_arch l)) (\<lambda>_.
          bindE (reject_aux l ''engine'' (sl_engine l)) (\<lambda>_.
          if sl_entry l \<noteq> None then Inl (layer_config_error l ''view layers do not accept an entry field'')
          else
            bindE (required_field l ''surface'' (sl_surface l)) (\<lambda>surface.
            bindE (map_err (\<lambda>_. layer_config_error l (''unsupported surface '' @ debug_str surface @ ''; expected '' @ debug_str portable_surface))
                    (validate_surface surface)) (\<lambda>_.
            Inr (lc_view (kw_layers w) kappa surface))))))
      | KindInferenceModel \<Rightarrow>
          bindE (reject_aux l ''contract'' (sl_contract l)) (\<lambda>_.
          bindE (reject_aux l ''arch'' (sl_arch l)) (\<lambda>_.
          bindE (reject_aux l ''surface'' (sl_surface l)) (\<lambda>_.
          bindE (required_field l ''entry'' (sl_entry l)) (\<lambda>entry.
          bindE (required_field l ''engine'' (sl_engine l)) (\<lambda>engine.
          Inr (lc_inference (kw_layers w) kappa entry engine)))))))"

text \<open>\<open>holo_python_component::validate_source\<close>.\<close>

definition default_rootfs_base :: string where
  "default_rootfs_base = ''python:3.12-slim''"

definition validate_component_source :: "python_source \<Rightarrow> unit live_result" where
  "validate_component_source s =
     (if py_profile s \<noteq> WasiComponent then Inl (Config ''Python Component compilation requires profile wasi-component'')
      else
        bindE (validate_entry (py_entry s)) (\<lambda>_.
        if starts_with ''/'' (py_project s) \<or> starts_with ''/'' (py_lock s)
        then Inl (Config ''Python project and lock paths must be relative to hologram.json'')
        else if py_base s \<noteq> default_rootfs_base
        then Inl (Config ''Python wasi-component sources do not accept an OCI base image'')
        else Inr ()))"

definition one_source_error :: "compile_layer \<Rightarrow> live_error" where
  "one_source_error l = layer_config_error l ''exactly one of path or source is required''"

definition validate_layer_source :: "('r, 'c) compile_world \<Rightarrow> compile_layer \<Rightarrow> unit live_result" where
  "validate_layer_source w l =
     (case (sl_path l, sl_source l) of
        (Some path, None) \<Rightarrow> if path \<noteq> [] then Inr () else Inl (one_source_error l)
      | (None, Some (Python src)) \<Rightarrow>
          (case py_profile src of
             RootfsProfile \<Rightarrow>
               if sl_kind l \<noteq> KindRootfs then Inl (layer_config_error l ''Python rootfs sources require kind rootfs'')
               else if sl_entry l \<noteq> None then Inl (layer_config_error l ''Python source entry belongs inside source'')
               else validate_source (kw_os_arch w) src (sl_arch l)
           | WasiComponent \<Rightarrow>
               if sl_kind l \<noteq> KindWasm then Inl (layer_config_error l ''Python wasi-component sources require kind wasm'')
               else if sl_entry l \<noteq> Some component_v1_entry \<or> sl_contract l \<noteq> Some (wc_component (kw_contracts w))
               then Inl (layer_config_error l
                 ''Python wasi-component sources require entry \"run\" and contract \"hologram:guest/component@1\"'')
               else bindE (reject_aux l ''arch'' (sl_arch l)) (\<lambda>_. validate_component_source src))
      | _ \<Rightarrow> Inl (one_source_error l))"

definition validate_child_source :: "compile_child \<Rightarrow> unit live_result" where
  "validate_child_source c =
     (if sc_application c = [] then Inl (Config ''child application archive path cannot be empty'')
      else if sc_capabilities c = [] then Inl (Config ''child delegated capability path cannot be empty'')
      else Inr ())"

definition validate_compile_manifest :: "('r, 'c) compile_world \<Rightarrow> compile_spec \<Rightarrow> unit live_result" where
  "validate_compile_manifest w s =
     (let nothing = address_bytes (kw_space w) [] in
      if cs_version s \<noteq> current_manifest_schema_version then
        Inl (Config (''unsupported compile manifest schema '' @ show_nat (cs_version s) @ ''; expected '' @ show_nat current_manifest_schema_version))
      else if cs_library s \<noteq> (cs_primary s = None) then
        Inl (Config (if cs_library s
          then ''a library manifest declares no primary layer; remove \"primary\" or remove \"library\"''
          else ''a manifest without a primary layer must declare \"library\": true''))
      else
        bindE (mapE (\<lambda>l. bindE (validate_layer_source w l) (\<lambda>_. build_layer w l nothing)) (cs_layers s)) (\<lambda>layers.
        bindE (mapE (\<lambda>c. bindE (validate_child_source c) (\<lambda>_. Inr (nothing, nothing))) (cs_children s)) (\<lambda>children.
        map_err (\<lambda>e. Config (''invalid application manifest: '' @ e)) (manifest_validate (kw_space w)
          \<lparr>am_layers = layers, am_children = children, am_primary = cs_primary s, am_requires = nothing\<rparr>))))"

section \<open>Content\<close>

definition read_path :: "('r, 'c) compile_world \<Rightarrow> string \<Rightarrow> bytes live_result" where
  "read_path w path = map_err (\<lambda>e. error_io path (io_text e)) (fs_read (kw_fs w) path)"

definition compile_capabilities :: "('r, 'c) compile_world \<Rightarrow> string \<Rightarrow> string option \<Rightarrow> bytes live_result" where
  "compile_capabilities w root path =
     (case path of
        None \<Rightarrow> Inr (empty_canonical (kw_space w))
      | Some p \<Rightarrow> bindE (read_path w (path_join root p)) (compile_source (kw_space w) (kw_caps_parse w) (path_join root p)))"

definition read_required :: "('r, 'c) compile_world \<Rightarrow> string \<Rightarrow> string \<Rightarrow> bytes live_result" where
  "read_required w root path = read_path w (path_join root path)"

definition layer_file :: "('r, 'c) compile_world \<Rightarrow> string \<Rightarrow> compile_layer \<Rightarrow> string \<Rightarrow> bytes live_result" where
  "layer_file w root l path =
     (if sl_kind l = KindView then compile_directory (path_join root path) (kw_tree w (path_join root path))
      else read_required w root path)"

definition compile_layer_content ::
  "('r, 'c) compile_world \<Rightarrow> string \<Rightarrow> compile_layer \<Rightarrow> bool \<Rightarrow> (bytes \<times> ('r, 'c) python_provenance option) live_result"
where
  "compile_layer_content w root l no_build_cache =
     (case (sl_path l, sl_source l) of
        (Some path, None) \<Rightarrow> bindE (layer_file w root l path) (\<lambda>b. Inr (b, None))
      | (None, Some (Python src)) \<Rightarrow>
          (case py_profile src of
             RootfsProfile \<Rightarrow>
               bindE (required_field l ''arch'' (sl_arch l)) (\<lambda>arch.
               bindE (kw_rootfs_build w root src arch no_build_cache) (\<lambda>(b, p). Inr (b, Some (RootfsProvenance p))))
           | WasiComponent \<Rightarrow> bindE (kw_component_build w root src) (\<lambda>(b, p). Inr (b, Some (ComponentProvenance p))))
      | _ \<Rightarrow> Inl (one_source_error l))"

text \<open>A \<open>BTreeMap<Vec<u8>, Vec<u8>>\<close>: the blobs by ascending label, a later insertion replacing the content.\<close>

fun blob_insert :: "bytes \<Rightarrow> bytes \<Rightarrow> (bytes \<times> bytes) list \<Rightarrow> (bytes \<times> bytes) list" where
  "blob_insert k v [] = [(k, v)]"
| "blob_insert k v ((k', v') # m) =
     (if k < k' then (k, v) # (k', v') # m else if k = k' then (k, v) # m else (k', v') # blob_insert k v m)"

definition blob_extend :: "(bytes \<times> bytes) list \<Rightarrow> (bytes \<times> bytes) list \<Rightarrow> (bytes \<times> bytes) list" where
  "blob_extend new m = fold (\<lambda>(k, v). blob_insert k v) new m"

definition put_content :: "space \<Rightarrow> bytes \<Rightarrow> (bytes \<times> bytes) list \<Rightarrow> (bytes \<times> bytes) list" where
  "put_content sp b = blob_insert (string_bytes (address_bytes sp b)) b"

section \<open>Children\<close>

record compiled_child =
  cc_application :: string
  cc_capabilities :: string
  cc_blobs :: "(bytes \<times> bytes) list"

text \<open>The loop over the blobs of a child archive.\<close>

fun collect_child_blobs :: "space \<Rightarrow> string \<Rightarrow> (bytes \<times> bytes) list \<Rightarrow> (bytes \<times> bytes) list \<Rightarrow> (bytes \<times> bytes) list live_result" where
  "collect_child_blobs sp path [] m = Inr m"
| "collect_child_blobs sp path ((label, content) # rest) m =
     (if string_bytes (address_bytes sp content) \<noteq> label then
        Inl (InvalidHolo (''child archive '' @ path @ '' contains a blob whose label does not match its bytes; expected '' @ address_bytes sp content))
      else collect_child_blobs sp path rest (blob_insert label content m))"

definition child_manifest :: "('r, 'c) compile_world \<Rightarrow> string \<Rightarrow> holo_archive \<Rightarrow> (app_manifest \<times> bytes) live_result" where
  "child_manifest w path archive =
     bindE (ok_or (InvalidHolo (''child archive '' @ path @ '' has no application manifest'')) (ar_manifest archive)) (\<lambda>manifest_bytes.
     bindE (map_err (\<lambda>e. InvalidHolo (''decode child application manifest '' @ path @ '': '' @ e)) (manifest_decode (kw_space w) manifest_bytes)) (\<lambda>m.
     bindE (map_err (\<lambda>e. InvalidHolo (''invalid child application manifest '' @ path @ '': '' @ e)) (manifest_validate (kw_space w) m)) (\<lambda>_.
     if manifest_canonicalize (kw_space w) m \<noteq> manifest_bytes then
       Inl (InvalidHolo (''child archive '' @ path @ '' contains a non-canonical application manifest''))
     else Inr (m, manifest_canonicalize (kw_space w) m))))"

definition compile_child_archive :: "('r, 'c) compile_world \<Rightarrow> string \<Rightarrow> compile_child \<Rightarrow> compiled_child live_result" where
  "compile_child_archive w root child =
     bindE (validate_child_source child) (\<lambda>_.
     let sp = kw_space w; path = path_join root (sc_application child) in
     bindE (read_path w path) (\<lambda>archive_bytes.
     bindE (require_current archive_bytes) (\<lambda>_.
     bindE (map_err (\<lambda>e. InvalidHolo (''read child archive '' @ path @ '': '' @ e)) (load_archive sp archive_bytes)) (\<lambda>archive.
     bindE (child_manifest w path archive) (\<lambda>(m, canonical).
     bindE (map_err InvalidHolo (ar_extensions archive)) (\<lambda>extensions.
     bindE (map_err InvalidHolo (ar_content_blobs archive)) (\<lambda>content_blobs.
     bindE (verify_required sp (kw_contracts w) (he_directory (kw_env w)) m
       (map snd (filter (\<lambda>(k, _). k = directory_extension_key) extensions)) content_blobs) (\<lambda>_.
     bindE (collect_child_blobs sp path content_blobs (put_content sp canonical [])) (\<lambda>blobs.
     bindE (map_err (\<lambda>e. InvalidHolo (''read child application references '' @ path @ '': '' @ e)) (kw_references w canonical)) (\<lambda>references.
     bindE (allE (\<lambda>r. if string_bytes r \<notin> fst ` set blobs then
         Inl (Config (''child archive '' @ path @ '' is not self-contained; missing referenced object '' @ r)) else Inr ()) references) (\<lambda>_.
     bindE (compile_capabilities w root (Some (sc_capabilities child))) (\<lambda>capabilities.
     Inr \<lparr>cc_application = address_bytes sp canonical, cc_capabilities = address_bytes sp capabilities,
          cc_blobs = put_content sp capabilities blobs\<rparr>))))))))))))"

section \<open>Compiling\<close>

record ('r, 'c) compile_state =
  kt_blobs :: "(bytes \<times> bytes) list"
  kt_layers :: "app_layer list"
  kt_provenance :: "('r, 'c) layer_provenance list"

text \<open>The loop over the layers, and the loop over the children.\<close>

fun compile_layers ::
  "('r, 'c) compile_world \<Rightarrow> string \<Rightarrow> bool \<Rightarrow> nat \<Rightarrow> compile_layer list \<Rightarrow> ('r, 'c) compile_state \<Rightarrow> ('r, 'c) compile_state live_result"
where
  "compile_layers w root no_build_cache i [] st = Inr st"
| "compile_layers w root no_build_cache i (l # ls) st =
     bindE (compile_layer_content w root l no_build_cache) (\<lambda>(content, provenance).
     let kappa = address_bytes (kw_space w) content in
     bindE (build_layer w l kappa) (\<lambda>layer.
     compile_layers w root no_build_cache (Suc i) ls
       \<lparr>kt_blobs = put_content (kw_space w) content (kt_blobs st), kt_layers = kt_layers st @ [layer],
        kt_provenance = (case provenance of
            None \<Rightarrow> kt_provenance st
          | Some p \<Rightarrow> kt_provenance st @ [\<lparr>lp_layer_index = i, lp_source = p\<rparr>])\<rparr>))"

fun compile_children ::
  "('r, 'c) compile_world \<Rightarrow> string \<Rightarrow> compile_child list \<Rightarrow> (bytes \<times> bytes) list \<Rightarrow> (string \<times> string) list
     \<Rightarrow> ((bytes \<times> bytes) list \<times> (string \<times> string) list) live_result"
where
  "compile_children w root [] blobs children = Inr (blobs, children)"
| "compile_children w root (c # cs) blobs children =
     bindE (compile_child_archive w root c) (\<lambda>child.
     compile_children w root cs (blob_extend (cc_blobs child) blobs) (children @ [(cc_application child, cc_capabilities child)]))"

definition compile_root :: "string \<Rightarrow> string" where
  "compile_root path = (if path = [] \<or> path = ''/'' then ''.'' else path_parent path)"

definition parse_compile_manifest :: "('r, 'c) compile_world \<Rightarrow> string \<Rightarrow> bytes \<Rightarrow> compile_spec live_result" where
  "parse_compile_manifest w path source = map_err (\<lambda>e. Config (''parse compile manifest '' @ path @ '': '' @ e)) (kw_parse w source)"

definition finish_archive ::
  "('r, 'c) compile_world \<Rightarrow> bytes \<Rightarrow> holo_packaging \<Rightarrow> app_manifest \<Rightarrow> (bytes \<times> bytes) list \<Rightarrow> (bytes \<times> holo_identity) live_result"
where
  "finish_archive w source pack m blobs =
     (let sp = kw_space w; manifest_bytes = manifest_canonicalize sp m; embedded = (case pack of Fat \<Rightarrow> blobs | Thin \<Rightarrow> []) in
      bindE (derive_directory sp (kw_contracts w) m embedded) (\<lambda>directory.
      bindE (directory_encode (he_directory (kw_env w)) directory) (\<lambda>encoded.
      bindE (map_err InvalidHolo (kw_finish w \<lparr>hw_manifest = manifest_bytes, hw_metadata = source,
          hw_extensions = [(directory_extension_key, encoded)], hw_blobs = (if pack = Fat then blobs else [])\<rparr>)) (\<lambda>b.
      bindE (map_err InvalidHolo (kw_fingerprint w b)) (\<lambda>fingerprint.
      Inr (b, \<lparr>archive_kappa = address_bytes sp b, archive_fingerprint = hex fingerprint,
               application_kappa = address_bytes sp manifest_bytes\<rparr>))))))"

definition compile_manifest_with_options ::
  "('r, 'c) compile_world \<Rightarrow> string \<Rightarrow> holo_packaging \<Rightarrow> bool \<Rightarrow> ('r, 'c) compiled_holo live_result"
where
  "compile_manifest_with_options w path pack no_build_cache =
     bindE (read_path w path) (\<lambda>source.
     bindE (parse_compile_manifest w path source) (\<lambda>s.
     bindE (validate_compile_manifest w s) (\<lambda>_.
     let sp = kw_space w; root = compile_root path in
     bindE (compile_capabilities w root (cs_requires s)) (\<lambda>requires_bytes.
     let requires = address_bytes sp requires_bytes in
     bindE (compile_layers w root no_build_cache 0 (cs_layers s)
       \<lparr>kt_blobs = put_content sp requires_bytes [], kt_layers = [], kt_provenance = []\<rparr>) (\<lambda>st.
     bindE (compile_children w root (cs_children s) (kt_blobs st) []) (\<lambda>(blobs, children).
     let m = \<lparr>am_layers = kt_layers st, am_children = children, am_primary = cs_primary s, am_requires = requires\<rparr> in
     bindE (map_err (\<lambda>e. InvalidHolo (''invalid application manifest: '' @ e)) (manifest_validate sp m)) (\<lambda>_.
     bindE (finish_archive w source pack m blobs) (\<lambda>(b, identity).
     Inr \<lparr>ch_bytes = b, ch_layer_count = length (kt_layers st), ch_child_count = length children, ch_packaging = pack,
          ch_identity = identity, ch_capabilities_kappa = requires, ch_provenance = kt_provenance st\<rparr>))))))))"

definition compile_manifest_with :: "('r, 'c) compile_world \<Rightarrow> string \<Rightarrow> holo_packaging \<Rightarrow> ('r, 'c) compiled_holo live_result" where
  "compile_manifest_with w path pack = compile_manifest_with_options w path pack False"

definition compile_manifest :: "('r, 'c) compile_world \<Rightarrow> string \<Rightarrow> ('r, 'c) compiled_holo live_result" where
  "compile_manifest w path = compile_manifest_with w path Fat"

section \<open>Checking\<close>

text \<open>The two loops of \<open>check_manifest\<close>.\<close>

definition check_layer ::
  "('r, 'c) compile_world \<Rightarrow> string \<Rightarrow> compile_layer \<Rightarrow> ('r, 'c) python_provenance option live_result"
where
  "check_layer w root l =
     (case (sl_path l, sl_source l) of
        (Some path, None) \<Rightarrow> bindE (layer_file w root l path) (\<lambda>_. Inr None)
      | (None, Some (Python src)) \<Rightarrow>
          (case py_profile src of
             RootfsProfile \<Rightarrow>
               bindE (required_field l ''arch'' (sl_arch l)) (\<lambda>arch.
               bindE (kw_rootfs_check w root src arch) (\<lambda>p. Inr (Some (RootfsProvenance p))))
           | WasiComponent \<Rightarrow> bindE (kw_component_check w root src) (\<lambda>p. Inr (Some (ComponentProvenance p))))
      | _ \<Rightarrow> Inl (one_source_error l))"

fun check_layers ::
  "('r, 'c) compile_world \<Rightarrow> string \<Rightarrow> nat \<Rightarrow> compile_layer list \<Rightarrow> ('r, 'c) layer_provenance list live_result"
where
  "check_layers w root i [] = Inr []"
| "check_layers w root i (l # ls) =
     bindE (check_layer w root l) (\<lambda>p.
     bindE (check_layers w root (Suc i) ls) (\<lambda>ps.
     Inr (case p of None \<Rightarrow> ps | Some x \<Rightarrow> \<lparr>lp_layer_index = i, lp_source = x\<rparr> # ps)))"

definition check_manifest :: "('r, 'c) compile_world \<Rightarrow> string \<Rightarrow> ('r, 'c) checked_manifest live_result" where
  "check_manifest w path =
     bindE (read_path w path) (\<lambda>source.
     bindE (parse_compile_manifest w path source) (\<lambda>s.
     bindE (validate_compile_manifest w s) (\<lambda>_.
     let root = compile_root path in
     bindE (compile_capabilities w root (cs_requires s)) (\<lambda>capabilities.
     bindE (check_layers w root 0 (cs_layers s)) (\<lambda>provenance.
     bindE (allE (\<lambda>c. bindE (compile_child_archive w root c) (\<lambda>_. Inr ())) (cs_children s)) (\<lambda>_.
     Inr \<lparr>ck_specification = s, ck_capabilities_kappa = address_bytes (kw_space w) capabilities, ck_provenance = provenance\<rparr>))))))"

end
