(* ===== verification/Compiler_Properties.thy ===== *)
theory Compiler_Properties
  imports Archive_Compiler
begin

text \<open>
  What the archive compiler guarantees: the archives it writes are accepted by the catalogue and carry what they
  name, and checking a manifest predicts compiling it.
\<close>

section \<open>Building layers\<close>

text \<open>The content of a layer does not influence whether it is accepted.\<close>

lemma bindE_same:
  "bindE m f = Inl e \<Longrightarrow> (\<And>x. f x = Inl e \<Longrightarrow> g x = Inl e) \<Longrightarrow> bindE m g = Inl e"
  by (cases m) auto

lemma build_wasm_layer_any:
  "build_wasm_layer w l k = Inl e \<Longrightarrow> build_wasm_layer w l k' = Inl e"
  unfolding build_wasm_layer_def
  by (cases "sl_contract l") ((erule bindE_same)+, simp, (erule bindE_same)+, simp split: if_splits, (erule bindE_same)?, simp split: if_splits)

lemma build_layer_any:
  assumes "build_layer w l k = Inl e"
  shows "build_layer w l k' = Inl e"
proof (cases "sl_kind l")
  case KindWasm
  show ?thesis using assms unfolding build_layer_def KindWasm compile_layer_kind.case by (rule build_wasm_layer_any)
next
  case KindTensor
  show ?thesis using assms unfolding build_layer_def KindTensor compile_layer_kind.case by - ((erule bindE_same)+, simp)
next
  case KindRootfs
  show ?thesis using assms unfolding build_layer_def KindRootfs compile_layer_kind.case by - ((erule bindE_same)+, simp)
next
  case KindView
  show ?thesis using assms unfolding build_layer_def KindView compile_layer_kind.case
    by - ((erule bindE_same)+, simp split: if_splits, (erule bindE_same)+, simp)
next
  case KindInferenceModel
  show ?thesis using assms unfolding build_layer_def KindInferenceModel compile_layer_kind.case by - ((erule bindE_same)+, simp)
qed

lemma build_layer_ok:
  assumes "build_layer w l k = Inr x"
  obtains y where "build_layer w l k' = Inr y"
  using assms build_layer_any [of w l k' _ k] by (cases "build_layer w l k'") auto

lemma validated_layers:
  "validate_compile_manifest w s = Inr () \<Longrightarrow> l \<in> set (cs_layers s) \<Longrightarrow> \<exists>x. build_layer w l (address_bytes (kw_space w) []) = Inr x"
  unfolding validate_compile_manifest_def
  by (auto simp: Let_def result_simps list_all2_conv_all_nth in_set_conv_nth split: if_splits)

section \<open>Checking predicts compiling\<close>

lemma path_layer_content:
  assumes "sl_source l = None"
  shows "case check_layer w root l of
      Inl e \<Rightarrow> compile_layer_content w root l nb = Inl e
    | Inr p \<Rightarrow> p = None \<and> (\<exists>b. compile_layer_content w root l nb = Inr (b, None))"
  using assms by (cases "sl_path l"; cases "layer_file w root l (the (sl_path l))") (auto simp: check_layer_def compile_layer_content_def)

lemma check_layers_predicts:
  assumes "\<And>l. l \<in> set ls \<Longrightarrow> sl_source l = None" "\<And>l. l \<in> set ls \<Longrightarrow> \<exists>x. build_layer w l k = Inr x"
  shows "case check_layers w root i ls of
      Inl e \<Rightarrow> compile_layers w root nb i ls st = Inl e
    | Inr ps \<Rightarrow> ps = [] \<and> (\<exists>st'. compile_layers w root nb i ls st = Inr st' \<and> kt_provenance st' = kt_provenance st
        \<and> length (kt_layers st') = length (kt_layers st) + length ls)"
  using assms
proof (induction ls arbitrary: i st)
  case (Cons l ls)
  show ?case
  proof (cases "check_layer w root l")
    case (Inl e)
    then show ?thesis using path_layer_content [of l w root nb] Cons.prems(1) [of l] by simp
  next
    case (Inr p)
    then obtain b where b: "p = None" "compile_layer_content w root l nb = Inr (b, None)"
      using path_layer_content [of l w root nb] Cons.prems(1) [of l] by auto
    obtain x where x: "build_layer w l (address_bytes (kw_space w) b) = Inr x" using Cons.prems(2) [of l] build_layer_ok by (metis list.set_intros(1))
    have IH: "case check_layers w root (Suc i) ls of
        Inl e \<Rightarrow> compile_layers w root nb (Suc i) ls st1 = Inl e
      | Inr ps \<Rightarrow> ps = [] \<and> (\<exists>st'. compile_layers w root nb (Suc i) ls st1 = Inr st' \<and> kt_provenance st' = kt_provenance st1
          \<and> length (kt_layers st') = length (kt_layers st1) + length ls)" for st1
      using Cons.IH [of "Suc i" st1] Cons.prems by simp
    from IH [of "\<lparr>kt_blobs = put_content (kw_space w) b (kt_blobs st), kt_layers = kt_layers st @ [x], kt_provenance = kt_provenance st\<rparr>"]
    show ?thesis using Inr b x by (cases "check_layers w root (Suc i) ls") (auto simp: Let_def)
  qed
qed simp

lemma check_children_predicts:
  "case allE (\<lambda>c. bindE (compile_child_archive w root c) (\<lambda>_. Inr ())) cs of
      Inl e \<Rightarrow> compile_children w root cs blobs children = Inl e
    | Inr _ \<Rightarrow> \<exists>blobs' more. compile_children w root cs blobs children = Inr (blobs', children @ more) \<and> length more = length cs"
proof (induction cs arbitrary: blobs children)
  case (Cons c cs)
  show ?case
  proof (cases "compile_child_archive w root c")
    case (Inr x)
    have "case allE (\<lambda>c. bindE (compile_child_archive w root c) (\<lambda>_. Inr ())) cs of
        Inl e \<Rightarrow> compile_children w root cs (blob_extend (cc_blobs x) blobs) (children @ [(cc_application x, cc_capabilities x)]) = Inl e
      | Inr _ \<Rightarrow> \<exists>blobs' more. compile_children w root cs (blob_extend (cc_blobs x) blobs) (children @ [(cc_application x, cc_capabilities x)])
            = Inr (blobs', (children @ [(cc_application x, cc_capabilities x)]) @ more) \<and> length more = length cs"
      by (rule Cons.IH)
    then show ?thesis using Inr by (auto split: sum.splits)
  qed simp
qed simp

text \<open>
  C38. Checking a manifest predicts compiling it. For a manifest that names files only, what makes the check fail
  makes every compilation fail with the same error. When the check passes, the capabilities, every layer and every
  child of this manifest compile, and the compilation fails exactly when the application manifest assembled from
  them does not validate or the archive of that manifest and those blobs cannot be written, with that error; an
  archive that is compiled is the one written, has the capabilities the check reported and as many layers and
  children as the manifest.
\<close>
theorem check_predicts_compile:
  fixes w :: "('r, 'c) compile_world"
  assumes "read_path w path = Inr source" "parse_compile_manifest w path source = Inr s" "\<forall>l \<in> set (cs_layers s). sl_source l = None"
  shows "case check_manifest w path of
      Inl e \<Rightarrow> compile_manifest_with_options w path pack nb = Inl e
    | Inr k \<Rightarrow> ck_specification k = s \<and> ck_provenance k = []
        \<and> (\<exists>caps st blobs children m.
             compile_capabilities w (compile_root path) (cs_requires s) = Inr caps
             \<and> ck_capabilities_kappa k = address_bytes (kw_space w) caps
             \<and> compile_layers w (compile_root path) nb 0 (cs_layers s)
                 \<lparr>kt_blobs = put_content (kw_space w) caps [], kt_layers = [], kt_provenance = []\<rparr> = Inr st
             \<and> compile_children w (compile_root path) (cs_children s) (kt_blobs st) [] = Inr (blobs, children)
             \<and> length (kt_layers st) = length (cs_layers s) \<and> length children = length (cs_children s)
             \<and> m = \<lparr>am_layers = kt_layers st, am_children = children, am_primary = cs_primary s,
                    am_requires = ck_capabilities_kappa k\<rparr>
             \<and> (case compile_manifest_with_options w path pack nb of
                  Inl e \<Rightarrow>
                    (\<exists>x. manifest_validate (kw_space w) m = Inl x \<and> e = InvalidHolo (''invalid application manifest: '' @ x))
                    \<or> manifest_validate (kw_space w) m = Inr () \<and> finish_archive w source pack m blobs = Inl e
                | Inr c \<Rightarrow>
                    manifest_validate (kw_space w) m = Inr () \<and> finish_archive w source pack m blobs = Inr (ch_bytes c, ch_identity c)
                    \<and> ch_capabilities_kappa c = ck_capabilities_kappa k \<and> ch_provenance c = []
                    \<and> ch_layer_count c = length (cs_layers s) \<and> ch_child_count c = length (cs_children s)))"
proof -
  let ?root = "compile_root path" and ?sp = "kw_space w"
  show ?thesis
  proof (cases "validate_compile_manifest w s")
    case (Inl e)
    then show ?thesis using assms(1,2) by (simp add: check_manifest_def compile_manifest_with_options_def)
  next
    case valid: (Inr u)
    show ?thesis
    proof (cases "compile_capabilities w ?root (cs_requires s)")
      case (Inl e)
      then show ?thesis using assms(1,2) valid by (simp add: check_manifest_def compile_manifest_with_options_def Let_def)
    next
      case caps: (Inr caps)
      let ?st = "\<lparr>kt_blobs = put_content ?sp caps [], kt_layers = [], kt_provenance = []\<rparr> :: ('r, 'c) compile_state"
      have layers: "case check_layers w ?root 0 (cs_layers s) of
          Inl e \<Rightarrow> compile_layers w ?root nb 0 (cs_layers s) ?st = Inl e
        | Inr ps \<Rightarrow> ps = [] \<and> (\<exists>st'. compile_layers w ?root nb 0 (cs_layers s) ?st = Inr st' \<and> kt_provenance st' = kt_provenance ?st
            \<and> length (kt_layers st') = length (kt_layers ?st) + length (cs_layers s))"
        by (rule check_layers_predicts) (use assms(3) validated_layers [of w s] valid in auto)
      show ?thesis
      proof (cases "check_layers w ?root 0 (cs_layers s)")
        case (Inl e)
        then show ?thesis using assms(1,2) valid caps layers by (simp add: check_manifest_def compile_manifest_with_options_def Let_def)
      next
        case (Inr ps)
        then obtain st where st: "ps = []" "compile_layers w ?root nb 0 (cs_layers s) ?st = Inr st" "kt_provenance st = []"
          "length (kt_layers st) = length (cs_layers s)" using layers by auto
        let ?all = "allE (\<lambda>c. bindE (compile_child_archive w ?root c) (\<lambda>_. Inr ())) (cs_children s)"
        note children = check_children_predicts [of w ?root "cs_children s" "kt_blobs st" "[]"]
        show ?thesis
        proof (cases ?all)
          case (Inl e)
          then show ?thesis using assms(1,2) valid caps Inr st children
            by (simp add: check_manifest_def compile_manifest_with_options_def Let_def)
        next
          case all: (Inr v)
          then obtain blobs cs where cs: "compile_children w ?root (cs_children s) (kt_blobs st) [] = Inr (blobs, cs)"
            "length cs = length (cs_children s)" using children by auto
          let ?m = "\<lparr>am_layers = kt_layers st, am_children = cs, am_primary = cs_primary s, am_requires = address_bytes ?sp caps\<rparr>"
          have check: "check_manifest w path = Inr \<lparr>ck_specification = s, ck_capabilities_kappa = address_bytes ?sp caps, ck_provenance = []\<rparr>"
            using assms(1,2) valid caps Inr st all by (simp add: check_manifest_def Let_def)
          have "compile_manifest_with_options w path pack nb =
              bindE (map_err (\<lambda>e. InvalidHolo (''invalid application manifest: '' @ e)) (manifest_validate ?sp ?m)) (\<lambda>_.
              bindE (finish_archive w source pack ?m blobs) (\<lambda>(b, identity).
              Inr \<lparr>ch_bytes = b, ch_layer_count = length (kt_layers st), ch_child_count = length cs, ch_packaging = pack,
                   ch_identity = identity, ch_capabilities_kappa = address_bytes ?sp caps, ch_provenance = kt_provenance st\<rparr>))"
            using assms(1,2) valid caps st cs by (simp add: compile_manifest_with_options_def Let_def)
          then have "case compile_manifest_with_options w path pack nb of
                  Inl e \<Rightarrow>
                    (\<exists>x. manifest_validate ?sp ?m = Inl x \<and> e = InvalidHolo (''invalid application manifest: '' @ x))
                    \<or> manifest_validate ?sp ?m = Inr () \<and> finish_archive w source pack ?m blobs = Inl e
                | Inr c \<Rightarrow>
                    manifest_validate ?sp ?m = Inr () \<and> finish_archive w source pack ?m blobs = Inr (ch_bytes c, ch_identity c)
                    \<and> ch_capabilities_kappa c = address_bytes ?sp caps \<and> ch_provenance c = []
                    \<and> ch_layer_count c = length (cs_layers s) \<and> ch_child_count c = length (cs_children s)"
            using st(3,4) cs(2)
            by (cases "manifest_validate ?sp ?m"; cases "finish_archive w source pack ?m blobs") (simp_all add: case_prod_unfold)
          then show ?thesis unfolding check using caps st(2,4) cs
            by (cases "compile_manifest_with_options w path pack nb") simp_all
        qed
      qed
    qed
  qed
qed

section \<open>Compiled archives\<close>

text \<open>Every blob is stored under the address of its bytes.\<close>

definition labelled :: "space \<Rightarrow> (bytes \<times> bytes) list \<Rightarrow> bool" where
  "labelled sp blobs \<longleftrightarrow> (\<forall>(label, content) \<in> set blobs. label = string_bytes (address_bytes sp content))"

abbreviation labels :: "(bytes \<times> bytes) list \<Rightarrow> bytes set" where
  "labels blobs \<equiv> fst ` set blobs"

lemma labels_insert: "labels (blob_insert k v m) = insert k (labels m)"
  by (induction k v m rule: blob_insert.induct) auto

lemma blob_insert_set: "set (blob_insert k v m) \<subseteq> insert (k, v) (set m)"
  by (induction k v m rule: blob_insert.induct) auto

lemma labelled_insert: "labelled sp m \<Longrightarrow> k = string_bytes (address_bytes sp v) \<Longrightarrow> labelled sp (blob_insert k v m)"
  using blob_insert_set [of k v m] unfolding labelled_def by blast

lemma put_content: "labelled sp m \<Longrightarrow> labelled sp (put_content sp b m)"
  "labels (put_content sp b m) = insert (string_bytes (address_bytes sp b)) (labels m)"
  by (simp_all add: put_content_def labels_insert labelled_insert)

lemma blob_extend: "labelled sp new \<Longrightarrow> labelled sp m \<Longrightarrow> labelled sp (blob_extend new m) \<and> labels (blob_extend new m) = labels new \<union> labels m"
proof (induction new arbitrary: m)
  case (Cons x new)
  obtain k v where x: "x = (k, v)" by fastforce
  have "labelled sp (blob_insert k v m)" using Cons.prems x by (intro labelled_insert) (auto simp: labelled_def)
  moreover have "labelled sp new" using Cons.prems(1) by (auto simp: labelled_def)
  ultimately show ?case using Cons.IH [of "blob_insert k v m"] x by (simp add: blob_extend_def labels_insert)
qed (simp add: blob_extend_def)

lemma collect_child_blobs_Inr:
  "collect_child_blobs sp path new m = Inr m' \<Longrightarrow> labelled sp m \<Longrightarrow> labelled sp m' \<and> labels m' = labels new \<union> labels m"
  by (induction sp path new m rule: collect_child_blobs.induct) (auto simp: labels_insert labelled_insert split: if_splits)

text \<open>A child of the manifest with its delegated capabilities, its own manifest and the objects that
  manifest refers to directly among the labels. What its own children refer to in turn is not asked for.\<close>

definition child_embedded :: "('r, 'c) compile_world \<Rightarrow> bytes set \<Rightarrow> string \<times> string \<Rightarrow> bool" where
  "child_embedded w ls child \<longleftrightarrow> string_bytes (snd child) \<in> ls \<and> string_bytes (fst child) \<in> ls
     \<and> (\<exists>canonical refs. fst child = address_bytes (kw_space w) canonical \<and> kw_references w canonical = Inr refs
          \<and> string_bytes ` set refs \<subseteq> ls)"

lemma compile_child_Inr:
  assumes "compile_child_archive w root c = Inr x"
  shows "labelled (kw_space w) (cc_blobs x) \<and> child_embedded w (labels (cc_blobs x)) (cc_application x, cc_capabilities x)"
proof -
  let ?sp = "kw_space w"
  obtain content_blobs canonical blobs refs caps where x: "collect_child_blobs ?sp (path_join root (sc_application c)) content_blobs (put_content ?sp canonical []) = Inr blobs"
    "kw_references w canonical = Inr refs" "\<forall>r \<in> set refs. string_bytes r \<in> labels blobs"
    "x = \<lparr>cc_application = address_bytes ?sp canonical, cc_capabilities = address_bytes ?sp caps, cc_blobs = put_content ?sp caps blobs\<rparr>"
    using assms by (auto simp: compile_child_archive_def result_simps Let_def split: if_splits prod.splits)
  have "labelled ?sp (put_content ?sp canonical [])" by (rule put_content) (simp add: labelled_def)
  note blobs = collect_child_blobs_Inr [OF x(1) this]
  then show ?thesis using x(2-4) by (auto simp: put_content child_embedded_def)
qed

lemma compile_layers_Inr:
  "compile_layers w root nb i ls st = Inr st' \<Longrightarrow> labelled (kw_space w) (kt_blobs st) \<Longrightarrow>
     labelled (kw_space w) (kt_blobs st') \<and> labels (kt_blobs st) \<subseteq> labels (kt_blobs st')
     \<and> (\<exists>new. kt_layers st' = kt_layers st @ new
          \<and> list_all2 (\<lambda>l x. \<exists>b p. compile_layer_content w root l nb = Inr (b, p) \<and> build_layer w l (address_bytes (kw_space w) b) = Inr x
               \<and> string_bytes (address_bytes (kw_space w) b) \<in> labels (kt_blobs st')) ls new)"
proof (induction ls arbitrary: i st)
  case (Cons l ls)
  obtain b p x st1 where step: "compile_layer_content w root l nb = Inr (b, p)" "build_layer w l (address_bytes (kw_space w) b) = Inr x"
    "compile_layers w root nb (Suc i) ls st1 = Inr st'" "kt_blobs st1 = put_content (kw_space w) b (kt_blobs st)" "kt_layers st1 = kt_layers st @ [x]"
    using Cons.prems(1) by (auto simp: result_simps Let_def)
  have "labelled (kw_space w) (kt_blobs st1)" using Cons.prems(2) step(4) by (simp add: put_content)
  from Cons.IH [OF step(3) this] obtain new where new: "labelled (kw_space w) (kt_blobs st')" "labels (kt_blobs st1) \<subseteq> labels (kt_blobs st')"
    "kt_layers st' = kt_layers st1 @ new"
    "list_all2 (\<lambda>l x. \<exists>b p. compile_layer_content w root l nb = Inr (b, p) \<and> build_layer w l (address_bytes (kw_space w) b) = Inr x
               \<and> string_bytes (address_bytes (kw_space w) b) \<in> labels (kt_blobs st')) ls new" by blast
  moreover have "labels (kt_blobs st1) = insert (string_bytes (address_bytes (kw_space w) b)) (labels (kt_blobs st))" using step(4) by (simp add: put_content)
  ultimately show ?case using step by (intro conjI exI [of _ "x # new"]) auto
qed simp

lemma compile_children_Inr:
  "compile_children w root cs blobs children = Inr (blobs', children') \<Longrightarrow> labelled (kw_space w) blobs \<Longrightarrow>
     labelled (kw_space w) blobs' \<and> labels blobs \<subseteq> labels blobs'
     \<and> (\<exists>new. children' = children @ new \<and> length new = length cs \<and> (\<forall>c \<in> set new. child_embedded w (labels blobs') c))"
proof (induction cs arbitrary: blobs children)
  case (Cons c cs)
  obtain x where x: "compile_child_archive w root c = Inr x"
    "compile_children w root cs (blob_extend (cc_blobs x) blobs) (children @ [(cc_application x, cc_capabilities x)]) = Inr (blobs', children')"
    using Cons.prems(1) by (auto simp: result_simps)
  note child = compile_child_Inr [OF x(1)]
  have ext: "labelled (kw_space w) (blob_extend (cc_blobs x) blobs) \<and> labels (blob_extend (cc_blobs x) blobs) = labels (cc_blobs x) \<union> labels blobs"
    using blob_extend child Cons.prems(2) by blast
  obtain new where new: "labelled (kw_space w) blobs'" "labels (blob_extend (cc_blobs x) blobs) \<subseteq> labels blobs'"
    "children' = (children @ [(cc_application x, cc_capabilities x)]) @ new" "length new = length cs" "\<forall>c \<in> set new. child_embedded w (labels blobs') c"
    using Cons.IH [OF x(2)] ext by blast
  have "child_embedded w (labels blobs') (cc_application x, cc_capabilities x)"
    using child new(2) ext unfolding child_embedded_def by (auto; blast)
  then show ?case using new ext by (intro conjI exI [of _ "(cc_application x, cc_capabilities x) # new"]) auto
qed simp

text \<open>The contracts of the archive writer, the codecs and the layer constructors.\<close>

definition writer_ok :: "('r, 'c) compile_world \<Rightarrow> bool" where
  "writer_ok w \<longleftrightarrow> (\<forall>d b. kw_finish w d = Inr b \<longrightarrow> require_current b = Inr ()
     \<and> (\<exists>a. load_archive (kw_space w) b = Inr a \<and> ar_manifest a = Some (hw_manifest d) \<and> ar_extensions a = Inr (hw_extensions d)
          \<and> ar_content_blobs a = Inr (hw_blobs d)))"

definition dir_codec_ok :: "dir_codec \<Rightarrow> bool" where
  "dir_codec_ok dc \<longleftrightarrow> (\<forall>d b. dir_to_bytes dc d = Inr b \<longrightarrow> dir_of_bytes dc b = Inr d)"

definition constructors_ok :: "layer_constructors \<Rightarrow> bool" where
  "constructors_ok lc \<longleftrightarrow>
     (\<forall>k e a. lc_wasm lc k e a = \<lparr>al_kind = WasmCodemodule, al_content = k, al_entry = e, al_aux = a\<rparr>
        \<and> al_kind (lc_tensor lc k e) = TensorPlan \<and> al_content (lc_tensor lc k e) = k \<and> al_entry (lc_tensor lc k e) = e
        \<and> lc_rootfs lc k e a = \<lparr>al_kind = RootfsImage, al_content = k, al_entry = e, al_aux = a\<rparr>
        \<and> al_kind (lc_view lc k a) = ViewLayer \<and> al_content (lc_view lc k a) = k \<and> al_aux (lc_view lc k a) = a
        \<and> lc_inference lc k e a = \<lparr>al_kind = InferenceModel, al_content = k, al_entry = e, al_aux = a\<rparr>)"

fun layer_kind_of :: "compile_layer_kind \<Rightarrow> layer_kind" where
  "layer_kind_of KindWasm = WasmCodemodule"
| "layer_kind_of KindTensor = TensorPlan"
| "layer_kind_of KindRootfs = RootfsImage"
| "layer_kind_of KindView = ViewLayer"
| "layer_kind_of KindInferenceModel = InferenceModel"

lemma build_layer_Inr:
  assumes "constructors_ok (kw_layers w)" "build_layer w l k = Inr x"
  shows "al_kind x = layer_kind_of (sl_kind l) \<and> al_content x = k
     \<and> (sl_kind l = KindWasm \<longrightarrow> sl_contract l = Some (al_aux x) \<and> al_aux x \<in> set (contract_list (kw_contracts w))
          \<and> sl_entry l = Some (al_entry x) \<and> (al_aux x \<in> set (component_contracts (kw_contracts w)) \<longrightarrow> al_entry x = component_v1_entry))
     \<and> (sl_kind l = KindView \<longrightarrow> al_aux x = portable_surface)"
  using assms
  by (cases "sl_kind l")
    (auto simp: build_layer_def build_wasm_layer_def constructors_ok_def result_simps normalize_wasm_contract_Inr validate_surface_def required_field_def
      split: option.splits if_splits)

lemma decode_derived_layers: "map_indexed (derive_layer wc) i ls = Inr hs \<Longrightarrow> mapE (decode_layer wc) hs = Inr hs"
proof (induction ls arbitrary: i hs)
  case (Cons l ls)
  then obtain h hs' where h: "hs = h # hs'" "derive_layer wc i l = Inr h" "map_indexed (derive_layer wc) (Suc i) ls = Inr hs'"
    by (auto simp: result_simps)
  have "decode_layer wc h = Inr h" using h(2)
    by (cases "al_kind l") (auto simp: derive_layer_def decode_layer_def result_simps normalize_wasm_contract_Inr Let_def split: if_splits)
  then show ?case using h Cons.IH by simp
qed simp

lemma verify_derived:
  assumes "dir_codec_ok dc" "derive_directory sp wc m blobs = Inr d" "directory_encode dc d = Inr b"
  shows "verify_required sp wc dc m [b] blobs = Inr d"
proof -
  have "dir_of_bytes dc b = Inr d" using assms(1,3) by (auto simp: directory_encode_def dir_codec_ok_def)
  moreover have "mapE (decode_layer wc) (hd_layers d) = Inr (hd_layers d)" "hd_schema_version d = 1"
    using assms(2) by (auto simp: derive_directory_def bindE_eq_Inr decode_derived_layers)
  ultimately have "directory_decode dc wc b = Inr d" by (simp add: directory_decode_def)
  then show ?thesis using assms(2) by (simp add: verify_required_def)
qed

lemma finish_archive_Inr:
  assumes "finish_archive w source pack m blobs = Inr (b, i)"
  shows "\<exists>d enc f. derive_directory (kw_space w) (kw_contracts w) m (if pack = Fat then blobs else []) = Inr d
     \<and> directory_encode (he_directory (kw_env w)) d = Inr enc
     \<and> kw_finish w \<lparr>hw_manifest = manifest_canonicalize (kw_space w) m, hw_metadata = source, hw_extensions = [(directory_extension_key, enc)],
          hw_blobs = (if pack = Fat then blobs else [])\<rparr> = Inr b
     \<and> i = \<lparr>archive_kappa = address_bytes (kw_space w) b, archive_fingerprint = hex f,
            application_kappa = address_bytes (kw_space w) (manifest_canonicalize (kw_space w) m)\<rparr>"
  using assms by (cases pack) (force simp: finish_archive_def result_simps Let_def)+

text \<open>
  C17. What the compiler writes, the catalogue accepts, and a fat archive carries what its manifest and the manifests of its
  children refer to. Let the archive writer keep what it is given. Every archive compiled from a manifest is inspected without error under any name, and its application
  address is the one the compiler reports; its manifest has the layers of the source manifest in order, each of
  its kind and addressing the content it was compiled from, a Wasm layer with the contract and entry it was declared
  with and a View with the portable surface; the reported archive address is that of its bytes and its
  capabilities those of the manifest. Every embedded blob is labelled with the address of its bytes. A fat archive
  embeds the capabilities, every layer, and for every child its manifest, the objects that manifest refers to
  directly and the capabilities delegated to it (what a grandchild refers to is not checked); a thin archive
  embeds nothing.
\<close>
theorem compiled_archive_accepted:
  assumes "writer_ok w" "dir_codec_ok (he_directory (kw_env w))" "manifest_codec_ok (kw_space w)" "constructors_ok (kw_layers w)"
    and "compile_manifest_with_options w path pack nb = Inr c"
  shows "\<exists>source s m a blobs. read_path w path = Inr source \<and> parse_compile_manifest w path source = Inr s
     \<and> load_archive (kw_space w) (ch_bytes c) = Inr a \<and> ar_manifest a = Some (manifest_canonicalize (kw_space w) m)
     \<and> ar_content_blobs a = Inr blobs
     \<and> (\<forall>kappa name. \<exists>i. inspect_bytes (kw_env w) kappa name (ch_bytes c) = Inr i
          \<and> in_application_kappa i = Some (application_kappa (ch_identity c)))
     \<and> archive_kappa (ch_identity c) = address_bytes (kw_space w) (ch_bytes c)
     \<and> am_primary m = cs_primary s \<and> am_requires m = ch_capabilities_kappa c \<and> length (am_children m) = length (cs_children s)
     \<and> list_all2 (\<lambda>l x. al_kind x = layer_kind_of (sl_kind l)
          \<and> (\<exists>b p. compile_layer_content w (compile_root path) l nb = Inr (b, p) \<and> al_content x = address_bytes (kw_space w) b)
          \<and> (sl_kind l = KindWasm \<longrightarrow> sl_contract l = Some (al_aux x) \<and> sl_entry l = Some (al_entry x))
          \<and> (sl_kind l = KindView \<longrightarrow> al_aux x = portable_surface)) (cs_layers s) (am_layers m)
     \<and> labelled (kw_space w) blobs
     \<and> (if pack = Fat
        then string_bytes (am_requires m) \<in> labels blobs \<and> (\<forall>x \<in> set (am_layers m). string_bytes (al_content x) \<in> labels blobs)
          \<and> (\<forall>x \<in> set (am_children m). child_embedded w (labels blobs) x)
        else blobs = [])"
proof -
  let ?sp = "kw_space w" and ?root = "compile_root path"
  obtain source s caps st blobs children where run: "read_path w path = Inr source" "parse_compile_manifest w path source = Inr s"
    "compile_layers w ?root nb 0 (cs_layers s) \<lparr>kt_blobs = put_content ?sp caps [], kt_layers = [], kt_provenance = []\<rparr> = Inr st"
    "compile_children w ?root (cs_children s) (kt_blobs st) [] = Inr (blobs, children)"
    and c: "finish_archive w source pack \<lparr>am_layers = kt_layers st, am_children = children, am_primary = cs_primary s,
        am_requires = address_bytes ?sp caps\<rparr> blobs = Inr (ch_bytes c, ch_identity c)" "ch_capabilities_kappa c = address_bytes ?sp caps"
    using assms(5) by (auto simp: compile_manifest_with_options_def result_simps Let_def)
  let ?m = "\<lparr>am_layers = kt_layers st, am_children = children, am_primary = cs_primary s, am_requires = address_bytes ?sp caps\<rparr>"
  let ?embedded = "if pack = Fat then blobs else []"
  have "labelled ?sp (put_content ?sp caps [])" by (rule put_content) (simp add: labelled_def)
  with compile_layers_Inr [OF run(3)] have layers: "labelled ?sp (kt_blobs st)" "string_bytes (address_bytes ?sp caps) \<in> labels (kt_blobs st)"
    "list_all2 (\<lambda>l x. \<exists>b p. compile_layer_content w ?root l nb = Inr (b, p) \<and> build_layer w l (address_bytes ?sp b) = Inr x
               \<and> string_bytes (address_bytes ?sp b) \<in> labels (kt_blobs st)) (cs_layers s) (kt_layers st)"
    by (auto simp: put_content)
  note children = compile_children_Inr [OF run(4) layers(1)]
  have built: "list_all2 (\<lambda>l x. al_kind x = layer_kind_of (sl_kind l)
          \<and> (\<exists>b p. compile_layer_content w ?root l nb = Inr (b, p) \<and> al_content x = address_bytes ?sp b)
          \<and> (sl_kind l = KindWasm \<longrightarrow> sl_contract l = Some (al_aux x) \<and> sl_entry l = Some (al_entry x))
          \<and> (sl_kind l = KindView \<longrightarrow> al_aux x = portable_surface)) (cs_layers s) (kt_layers st)"
    using layers(3) by (rule list_all2_mono) (metis build_layer_Inr [OF assms(4)])
  have embedded: "string_bytes (al_content x) \<in> labels blobs" if x: "x \<in> set (kt_layers st)" for x
  proof -
    obtain l b where "build_layer w l (address_bytes ?sp b) = Inr x" "string_bytes (address_bytes ?sp b) \<in> labels (kt_blobs st)"
      using layers(3) x unfolding list_all2_conv_all_nth in_set_conv_nth by metis
    then show ?thesis using build_layer_Inr [OF assms(4)] children by auto
  qed
  obtain d enc f where fin: "derive_directory ?sp (kw_contracts w) ?m ?embedded = Inr d" "directory_encode (he_directory (kw_env w)) d = Inr enc"
    "kw_finish w \<lparr>hw_manifest = manifest_canonicalize ?sp ?m, hw_metadata = source, hw_extensions = [(directory_extension_key, enc)],
        hw_blobs = ?embedded\<rparr> = Inr (ch_bytes c)"
    "ch_identity c = \<lparr>archive_kappa = address_bytes ?sp (ch_bytes c), archive_fingerprint = hex f, application_kappa = address_bytes ?sp (manifest_canonicalize ?sp ?m)\<rparr>"
    using finish_archive_Inr [OF c(1)] by blast
  obtain a where a: "require_current (ch_bytes c) = Inr ()" "load_archive ?sp (ch_bytes c) = Inr a" "ar_manifest a = Some (manifest_canonicalize ?sp ?m)"
    "ar_extensions a = Inr [(directory_extension_key, enc)]" "ar_content_blobs a = Inr ?embedded"
    using assms(1) fin(3) unfolding writer_ok_def by fastforce
  have m: "manifest_decode ?sp (manifest_canonicalize ?sp ?m) = Inr ?m" using assms(3) by (simp add: manifest_codec_ok_def)
  have "\<exists>i. inspect_bytes (kw_env w) kappa name (ch_bytes c) = Inr i \<and> in_application_kappa i = Some (application_kappa (ch_identity c))" for kappa name
    using a m verify_derived [OF assms(2) fin(1,2)] fin(4) by (simp add: inspect_bytes_def archive_of_def inspect_directory_def)
  moreover have "labelled ?sp ?embedded" using children by (auto simp: labelled_def)
  ultimately show ?thesis using run(1,2) a(2,3,5) fin(4) c(2) built embedded children layers(2)
    by (intro exI [of _ source] exI [of _ s] exI [of _ ?m] exI [of _ a] exI [of _ ?embedded]) auto
qed

section \<open>An instance\<close>

definition dir_lists :: "holo_directory \<Rightarrow> string list list" where
  "dir_lists d =
     [[show_nat (hd_schema_version d), hd_requires_kappa d, show_nat (length (hd_layers d)), show_nat (length (hd_children d))],
      opt_strs (map_option show_nat (hd_primary_layer d)), concat (map (\<lambda>b. [hb_kappa b, show_nat (hb_byte_length b)]) (hd_blobs d))]
     @ concat (map (\<lambda>l. [[show_nat (hl_position l), hl_kind l, hl_content_kappa l, hl_entry l], opt_strs (hl_contract l),
         opt_strs (hl_architecture l), opt_strs (hl_surface l), opt_strs (hl_engine l)]) (hd_layers d))
     @ concat (map (\<lambda>c. [[show_nat (hc_position c), hc_application_kappa c, hc_capabilities_kappa c], opt_strs (hc_parent_application_kappa c),
         opt_strs (map_option show_nat (hc_depth c)), opt_strs (hc_requires_kappa c), opt_strs (hc_application_source c),
         opt_strs (hc_capabilities_source c)]) (hd_children d))"

fun lists_blobs :: "string list \<Rightarrow> holo_blob list" where
  "lists_blobs (k # n # r) = \<lparr>hb_kappa = k, hb_byte_length = digits_val n\<rparr> # lists_blobs r"
| "lists_blobs _ = []"

fun lists_layers :: "nat \<Rightarrow> string list list \<Rightarrow> holo_layer list" where
  "lists_layers (Suc n) ([p, k, c, e] # con # arch # surf # eng # r) =
     \<lparr>hl_position = digits_val p, hl_kind = k, hl_content_kappa = c, hl_entry = e, hl_contract = strs_opt con,
      hl_architecture = strs_opt arch, hl_surface = strs_opt surf, hl_engine = strs_opt eng\<rparr> # lists_layers n r"
| "lists_layers _ _ = []"

fun lists_children :: "string list list \<Rightarrow> holo_child list" where
  "lists_children ([p, a, k] # par # dep # req # asrc # csrc # r) =
     \<lparr>hc_position = digits_val p, hc_application_kappa = a, hc_capabilities_kappa = k, hc_parent_application_kappa = strs_opt par,
      hc_depth = map_option digits_val (strs_opt dep), hc_requires_kappa = strs_opt req, hc_application_source = strs_opt asrc,
      hc_capabilities_source = strs_opt csrc\<rparr> # lists_children r"
| "lists_children _ = []"

definition lists_dir :: "string list list \<Rightarrow> holo_directory option" where
  "lists_dir ls =
     (case ls of
        [v, req, nl, nc] # primary # blobs # r \<Rightarrow>
          Some \<lparr>hd_schema_version = digits_val v, hd_primary_layer = map_option digits_val (strs_opt primary), hd_requires_kappa = req,
                hd_layers = lists_layers (digits_val nl) r, hd_children = lists_children (drop (5 * digits_val nl) r),
                hd_blobs = lists_blobs blobs\<rparr>
      | _ \<Rightarrow> None)"

lemma lists_blobs_concat: "lists_blobs (concat (map (\<lambda>b. [hb_kappa b, show_nat (hb_byte_length b)]) bs)) = bs"
  by (induction bs) (simp_all add: digits_val_show_nat)

lemma lists_layers_concat:
  "lists_layers (length ls) (concat (map (\<lambda>l. [[show_nat (hl_position l), hl_kind l, hl_content_kappa l, hl_entry l], opt_strs (hl_contract l),
         opt_strs (hl_architecture l), opt_strs (hl_surface l), opt_strs (hl_engine l)]) ls) @ r) = ls"
  by (induction ls) (simp_all add: digits_val_show_nat)

lemma drop_layers:
  "drop (5 * length ls) (concat (map (\<lambda>l. [[show_nat (hl_position l), hl_kind l, hl_content_kappa l, hl_entry l], opt_strs (hl_contract l),
         opt_strs (hl_architecture l), opt_strs (hl_surface l), opt_strs (hl_engine l)]) ls) @ r) = r"
  by (induction ls) (simp_all add: numeral_eq_Suc)

lemma opt_nat: "map_option digits_val (map_option show_nat x) = x"
  by (cases x) (simp_all add: digits_val_show_nat)

lemma lists_children_concat:
  "lists_children (concat (map (\<lambda>c. [[show_nat (hc_position c), hc_application_kappa c, hc_capabilities_kappa c], opt_strs (hc_parent_application_kappa c),
         opt_strs (map_option show_nat (hc_depth c)), opt_strs (hc_requires_kappa c), opt_strs (hc_application_source c),
         opt_strs (hc_capabilities_source c)]) cs)) = cs"
  by (induction cs) (simp_all add: digits_val_show_nat opt_nat)

lemma lists_dir_lists: "lists_dir (dir_lists d) = Some d"
  by (simp add: lists_dir_def dir_lists_def digits_val_show_nat opt_nat lists_blobs_concat lists_layers_concat drop_layers lists_children_concat
      del: drop_append)

definition draft_lists :: "holo_draft \<Rightarrow> string list list" where
  "draft_lists d = [[bytes_string (hw_manifest d)], concat (map (\<lambda>(k, v). [k, bytes_string v]) (hw_extensions d)),
     concat (map (\<lambda>(k, v). [bytes_string k, bytes_string v]) (hw_blobs d))]"

definition demo_finish :: "holo_draft \<Rightarrow> string + bytes" where
  "demo_finish d = Inr ([72, 79, 76, 79, 4, 0] @ enc_lists (draft_lists d))"

definition demo_load :: "bytes \<Rightarrow> string + holo_archive" where
  "demo_load b =
     (case dec_lists (drop 6 b) of
        Some [[m], exts, blobs] \<Rightarrow>
          Inr \<lparr>ar_fingerprint = [7], ar_manifest = Some (string_bytes m), ar_extensions = Inr (map (\<lambda>(k, v). (k, string_bytes v)) (pairs_of exts)),
               ar_content_blobs = Inr (map (\<lambda>(k, v). (string_bytes k, string_bytes v)) (pairs_of blobs))\<rparr>
      | _ \<Rightarrow> Inl ''malformed'')"

lemma pairs_of_strings:
  "map (\<lambda>(k, v). (f k, string_bytes v)) (pairs_of (concat (map (\<lambda>(k, v). [g k, bytes_string v]) xs))) = map (\<lambda>(k, v). (f (g k), v)) xs"
  by (induction xs) (auto simp: string_bytes_inverse)

lemma demo_load_finish:
  "demo_finish d = Inr b \<Longrightarrow> require_current b = Inr () \<and> demo_load b = Inr \<lparr>ar_fingerprint = [7], ar_manifest = Some (hw_manifest d),
     ar_extensions = Inr (hw_extensions d), ar_content_blobs = Inr (hw_blobs d)\<rparr>"
  using pairs_of_strings [of "\<lambda>x. x" "\<lambda>x. x" "hw_extensions d"] pairs_of_strings [of string_bytes bytes_string "hw_blobs d"]
  by (auto simp: demo_finish_def demo_load_def draft_lists_def require_current_def dec_lists_enc string_bytes_inverse)

definition compiler_env :: holo_env where
  "compiler_env = \<lparr>he_space = sample_space\<lparr>load_archive := demo_load\<rparr>, he_contracts = demo_contracts,
     he_directory = \<lparr>dir_to_bytes = (\<lambda>d. Inr (enc_lists (dir_lists d))),
       dir_of_bytes = (\<lambda>b. ok_or ''malformed'' (case dec_lists b of None \<Rightarrow> None | Some ls \<Rightarrow> lists_dir ls))\<rparr>,
     he_sections = (\<lambda>_. [])\<rparr>"

definition demo_source_layer :: compile_layer where
  "demo_source_layer = \<lparr>sl_kind = KindWasm, sl_path = Some ''guest.wasm'', sl_source = None, sl_entry = Some ''main'', sl_contract = Some ''core'',
     sl_arch = None, sl_surface = None, sl_engine = None\<rparr>"

definition demo_spec :: compile_spec where
  "demo_spec = \<lparr>cs_version = 4, cs_primary = Some 0, cs_library = False, cs_requires = None, cs_layers = [demo_source_layer], cs_children = []\<rparr>"

definition demo_compiler :: "(unit, unit) compile_world" where
  "demo_compiler = \<lparr>kw_env = compiler_env, kw_fs = \<lparr>fs_files = [(''p/hologram.json'', [9]), (''p/guest.wasm'', [1, 2])], fs_faults = (\<lambda>_ _. None), fs_torn = (\<lambda>_. None)\<rparr>,
     kw_tree = (\<lambda>_. Symlink), kw_parse = (\<lambda>_. Inr demo_spec), kw_caps_parse = (\<lambda>_. Inl ''none''),
     kw_layers = \<lparr>lc_wasm = (\<lambda>k e a. \<lparr>al_kind = WasmCodemodule, al_content = k, al_entry = e, al_aux = a\<rparr>),
       lc_tensor = (\<lambda>k e. \<lparr>al_kind = TensorPlan, al_content = k, al_entry = e, al_aux = []\<rparr>),
       lc_rootfs = (\<lambda>k e a. \<lparr>al_kind = RootfsImage, al_content = k, al_entry = e, al_aux = a\<rparr>),
       lc_view = (\<lambda>k a. \<lparr>al_kind = ViewLayer, al_content = k, al_entry = [], al_aux = a\<rparr>),
       lc_inference = (\<lambda>k e a. \<lparr>al_kind = InferenceModel, al_content = k, al_entry = e, al_aux = a\<rparr>)\<rparr>,
     kw_references = (\<lambda>_. Inr []), kw_finish = demo_finish, kw_fingerprint = (\<lambda>_. Inr [7]), kw_os_arch = ''x86_64'',
     kw_rootfs_check = (\<lambda>_ _ _. Inr ()), kw_component_check = (\<lambda>_ _. Inr ()), kw_rootfs_build = (\<lambda>_ _ _ _. Inr ([], ())),
     kw_component_build = (\<lambda>_ _. Inr ([], ()))\<rparr>"

lemma demo_compiler_ok:
  "writer_ok demo_compiler" "dir_codec_ok (he_directory (kw_env demo_compiler))" "manifest_codec_ok (kw_space demo_compiler)"
  "constructors_ok (kw_layers demo_compiler)"
  using demo_load_finish sample_space_ok(2)
  by (auto simp: writer_ok_def dir_codec_ok_def manifest_codec_ok_def constructors_ok_def demo_compiler_def compiler_env_def dec_lists_enc lists_dir_lists)

lemma demo_builds:
  "build_layer demo_compiler demo_source_layer k = Inr \<lparr>al_kind = WasmCodemodule, al_content = k, al_entry = ''main'', al_aux = ''core''\<rparr>"
  by (simp add: build_layer_def build_wasm_layer_def demo_compiler_def demo_source_layer_def reject_aux_def validate_entry_name_def byte_class_defs
      compiler_env_def demo_contracts_def normalize_wasm_contract_def component_contracts_def)

lemma demo_valid: "validate_compile_manifest demo_compiler demo_spec = Inr ()"
proof -
  have "validate_layer_source demo_compiler demo_source_layer = Inr ()" by (simp add: validate_layer_source_def demo_source_layer_def)
  then show ?thesis
    by (simp add: validate_compile_manifest_def demo_spec_def demo_builds current_manifest_schema_version_def Let_def)
      (simp add: demo_compiler_def compiler_env_def sample_space_def)
qed

lemma demo_content: "compile_layer_content demo_compiler ''p'' demo_source_layer nb = Inr ([1, 2], None)"
  by (simp add: compile_layer_content_def demo_source_layer_def layer_file_def read_required_def read_path_def path_join_def fs_read_def fs_get_def
      demo_compiler_def starts_with_def)

lemma demo_reads: "read_path demo_compiler ''p/hologram.json'' = Inr [9]" "parse_compile_manifest demo_compiler ''p/hologram.json'' [9] = Inr demo_spec"
  "compile_root ''p/hologram.json'' = ''p''"
  by (simp_all add: read_path_def fs_read_def fs_get_def parse_compile_manifest_def demo_compiler_def compile_root_def path_parent_def)

lemma index_labelled:
  assumes "\<And>b. utf8_valid (map byte_of (address_bytes sp b))"
  shows "labelled sp m \<Longrightarrow> distinct (map fst m) \<Longrightarrow> (\<forall>x \<in> set m. bytes_string (fst x) \<notin> fst ` set idx) \<Longrightarrow> \<exists>idx'. index_blobs sp m idx = Inr idx'"
proof (induction m arbitrary: idx)
  case (Cons x m)
  obtain l b where x: "x = (l, b)" "l = string_bytes (address_bytes sp b)" using Cons.prems(1) by (cases x) (auto simp: labelled_def)
  have name: "bytes_string l = address_bytes sp b" using x(2) by (simp add: string_bytes_inverse)
  have inj: "bytes_string l' \<noteq> bytes_string l" if "l' \<noteq> l" for l' using that string_bytes_inverse(2) by metis
  have "\<forall>y \<in> set m. bytes_string (fst y) \<notin> fst ` set (map_insert (bytes_string l) (sat64 (length b)) idx)"
  proof
    fix y
    assume y: "y \<in> set m"
    then have "fst y \<noteq> l" using Cons.prems(2) x(1) by auto
    then show "bytes_string (fst y) \<notin> fst ` set (map_insert (bytes_string l) (sat64 (length b)) idx)"
      using inj [of "fst y"] Cons.prems(3) y by (simp add: map_insert_fst)
  qed
  moreover have "labelled sp m" using Cons.prems(1) by (auto simp: labelled_def)
  moreover have "map unat l = map byte_of (address_bytes sp b)" by (simp add: x(2) string_bytes_def comp_def unat_byte_of)
  ultimately show ?case using Cons.IH [of "map_insert (bytes_string l) (sat64 (length b)) idx"] Cons.prems(2,3) x(1) name assms [of b]
    by (simp add: Let_def)
qed simp

lemma demo_utf8: "utf8_valid (map byte_of (address_bytes (kw_space demo_compiler) b))"
proof -
  have "list_all (\<lambda>c. byte_of c < 128) (sample_hash b)"
    using sample_hash_shape [of b] by (auto simp: list_all_iff byte_class_defs)
  then show ?thesis by (intro utf8_ascii) (simp add: demo_compiler_def compiler_env_def sample_space_def byte_class_defs)
qed

lemma demo_compiles: "is_ok (compile_manifest_with_options demo_compiler ''p/hologram.json'' Fat False)"
proof -
  let ?sp = "kw_space demo_compiler"
  define E where "E = empty_canonical ?sp"
  define blobs where "blobs = put_content ?sp [1, 2] (put_content ?sp E [])"
  have caps: "compile_capabilities demo_compiler ''p'' None = Inr E" by (simp add: compile_capabilities_def E_def)
  have "labelled ?sp blobs" unfolding blobs_def by (intro put_content) (simp add: labelled_def)
  moreover have "distinct (map fst blobs)" by (auto simp: blobs_def put_content_def)
  ultimately obtain idx where idx: "index_blobs ?sp blobs [] = Inr idx" using index_labelled [OF demo_utf8, of blobs "[]"] by auto
  let ?m = "\<lparr>am_layers = [\<lparr>al_kind = WasmCodemodule, al_content = address_bytes ?sp [1, 2], al_entry = ''main'', al_aux = ''core''\<rparr>], am_children = [],
      am_primary = Some 0, am_requires = address_bytes ?sp E\<rparr>"
  have ok: "manifest_validate ?sp m = Inr ()" for m by (simp add: demo_compiler_def compiler_env_def sample_space_def)
  obtain d where d: "derive_directory ?sp (kw_contracts demo_compiler) ?m blobs = Inr d"
    using idx ok by (simp add: derive_directory_def derive_layer_def normalize_wasm_contract_def demo_compiler_def compiler_env_def demo_contracts_def)
  have "\<exists>r. finish_archive demo_compiler [9] Fat ?m blobs = Inr r"
    using d by (simp add: finish_archive_def directory_encode_def demo_compiler_def compiler_env_def demo_finish_def Let_def)
  then obtain r where "finish_archive demo_compiler [9] Fat ?m blobs = Inr r" ..
  then show ?thesis using demo_reads demo_valid caps demo_builds demo_content [of False] ok
    by (cases r) (simp add: compile_manifest_with_options_def demo_spec_def Let_def blobs_def [symmetric])
qed

theorem compiled_archive_accepted_witness:
  "\<exists>c i. compile_manifest_with_options demo_compiler ''p/hologram.json'' Fat False = Inr c
     \<and> inspect_bytes compiler_env ''k'' ''n'' (ch_bytes c) = Inr i \<and> in_application_kappa i = Some (application_kappa (ch_identity c))"
proof -
  obtain c where c: "compile_manifest_with_options demo_compiler ''p/hologram.json'' Fat False = Inr c" using demo_compiles by (auto simp: is_ok_iff)
  have "kw_env demo_compiler = compiler_env" by (simp add: demo_compiler_def)
  then show ?thesis using compiled_archive_accepted [OF demo_compiler_ok c] c by metis
qed

theorem check_predicts_compile_witness:
  "\<exists>k. check_manifest demo_compiler ''p/hologram.json'' = Inr k \<and> ck_specification k = demo_spec \<and> ck_provenance k = []"
proof -
  have "\<forall>l \<in> set (cs_layers demo_spec). sl_source l = None" by (simp add: demo_spec_def demo_source_layer_def)
  from check_predicts_compile [OF demo_reads(1,2) this, of Fat False] demo_compiles show ?thesis by (auto simp: is_ok_iff split: sum.splits)
qed

end
