(* ===== verification/View_Surface.thy ===== *)
theory View_Surface
  imports View_Provider
begin

text \<open>
  The portable View surface of the desktop shell (\<open>src/apps/desktop/src-tauri/src/view_surface.rs\<close>): the store of the attached Views
  with what it serves to their windows, and the surface that keeps the store and the windows together. Windows, URLs
  and the JSON codec belong to other crates; the answers of the window host may depend on every call before. Each
  operation on the store holds its lock, and an attachment or a detachment waits for the window host between them.
\<close>

section \<open>Names\<close>

definition view_scheme :: string where "view_scheme = ''hologram-view''"

definition view_csp :: string where
  "view_csp = ''default-src 'self'; base-uri 'none'; connect-src 'self'; form-action 'none'; frame-ancestors 'none'; object-src 'none'; ''
     @ ''script-src 'self' 'unsafe-inline'; style-src 'self' 'unsafe-inline'; img-src 'self' data:; font-src 'self'' @ [CHR 0x27]"

definition window_label :: "string \<Rightarrow> string" where
  "window_label token = ''hologram-view-'' @ token"

definition validate_token :: "string \<Rightarrow> string + unit" where
  "validate_token token =
     (if length token = 64 \<and> list_all is_lower_hex token then Inr ()
      else Inl ''portable View attachment token must be a 64-character hex digest'')"

definition validate_asset_path :: "string \<Rightarrow> string + unit" where
  "validate_asset_path path =
     (if path = [] \<or> starts_with ''/'' path \<or> last path = CHR ''/'' \<or> CHR ''%'' \<in> set path \<or> CHR 0x5C \<in> set path
         \<or> list_ex (\<lambda>part. part = [] \<or> part = ''.'' \<or> part = ''..'') (split_on CHR ''/'' path)
      then Inl (''invalid portable View asset path '' @ debug_str path)
      else if \<not> list_all (\<lambda>c. is_ascii_alphanumeric c \<or> c \<in> {CHR ''.'', CHR ''_'', CHR ''-'', CHR ''/''}) path
      then Inl (''invalid portable View asset path '' @ debug_str path)
      else Inr ())"

section \<open>The store\<close>

record stored_attachment =
  st_generation :: nat
  st_id :: view_attachment_id
  st_token :: string
  st_entry :: string
  st_assets :: "(string \<times> bytes) list"
  st_intents :: nat

record view_store =
  vs_next_generation :: nat
  vs_attachments :: "(string \<times> stored_attachment) list"
  vs_poisoned :: bool

record staged_attachment =
  sg_generation :: nat
  sg_token :: string
  sg_label :: string
  sg_entry :: string
  sg_previous :: "stored_attachment option"

record removed_attachment =
  rv_label :: string
  rv_attachment :: stored_attachment

definition view_store_new :: view_store where
  "view_store_new = \<lparr>vs_next_generation = 0, vs_attachments = [], vs_poisoned = False\<rparr>"

definition store_lock_error :: string where
  "store_lock_error = ''portable View asset store lock poisoned''"

abbreviation stored :: "view_store \<Rightarrow> string \<Rightarrow> stored_attachment option" where
  "stored s \<equiv> map_of (vs_attachments s)"

definition labels_for_applications :: "view_store \<Rightarrow> string list \<Rightarrow> string + string list" where
  "labels_for_applications s kappas =
     (if vs_poisoned s then Inl store_lock_error
      else Inr (sort (map fst (filter (\<lambda>(_, a). va_application_kappa (st_id a) \<in> set kappas) (vs_attachments s)))))"

text \<open>The loop over the assets of a View.\<close>

fun collect_assets :: "view_asset list \<Rightarrow> (string \<times> bytes) list \<Rightarrow> string + (string \<times> bytes) list" where
  "collect_assets [] m = Inr m"
| "collect_assets (a # as) m =
     bindE (validate_asset_path (as_path a)) (\<lambda>_.
     if as_path a \<in> fst ` set m then Inl (''duplicate portable View asset '' @ debug_str (as_path a))
     else collect_assets as ((as_path a, as_bytes a) # m))"

definition stage :: "view_attachment \<Rightarrow> view_store \<Rightarrow> view_store \<times> (string + staged_attachment)" where
  "stage v s =
     (let token = va_token (at_id v); label = window_label token in
      case bindE (validate_token token) (\<lambda>_. collect_assets (at_assets v) []) of
        Inl e \<Rightarrow> (s, Inl e)
      | Inr assets \<Rightarrow>
          if at_entry v \<notin> fst ` set assets then
            (s, Inl (''portable View entry '' @ debug_str (at_entry v) @ '' is not present in its assets''))
          else if vs_poisoned s then (s, Inl store_lock_error)
          else
            let bumped = (vs_next_generation s + 1) mod 2 ^ 64; generation = (if bumped = 0 then 1 else bumped) in
            (s\<lparr>vs_next_generation := generation,
               vs_attachments := AList.update label
                 \<lparr>st_generation = generation, st_id = at_id v, st_token = token, st_entry = at_entry v, st_assets = assets, st_intents = at_intents v\<rparr>
                 (vs_attachments s)\<rparr>,
             Inr \<lparr>sg_generation = generation, sg_token = token, sg_label = label, sg_entry = at_entry v, sg_previous = stored s label\<rparr>))"

definition rollback :: "staged_attachment \<Rightarrow> view_store \<Rightarrow> view_store \<times> (string + bool)" where
  "rollback g s =
     (if vs_poisoned s then (s, Inl store_lock_error)
      else if (case stored s (sg_label g) of None \<Rightarrow> True | Some a \<Rightarrow> st_generation a \<noteq> sg_generation g) then (s, Inr False)
      else
        (s\<lparr>vs_attachments := (case sg_previous g of
             Some previous \<Rightarrow> AList.update (sg_label g) previous (vs_attachments s)
           | None \<Rightarrow> AList.delete (sg_label g) (vs_attachments s))\<rparr>, Inr True))"

definition remove_attachment :: "view_attachment_id \<Rightarrow> view_store \<Rightarrow> view_store \<times> (string + removed_attachment option)" where
  "remove_attachment i s =
     (let label = window_label (va_token i) in
      if vs_poisoned s then (s, Inl store_lock_error)
      else
        (case stored s label of
           None \<Rightarrow> (s, Inr None)
         | Some a \<Rightarrow>
             if st_id a \<noteq> i then (s, Inr None)
             else (s\<lparr>vs_attachments := AList.delete label (vs_attachments s)\<rparr>, Inr (Some \<lparr>rv_label = label, rv_attachment = a\<rparr>))))"

definition restore_attachment :: "removed_attachment \<Rightarrow> view_store \<Rightarrow> view_store \<times> (string + unit)" where
  "restore_attachment r s =
     (if vs_poisoned s then (s, Inl store_lock_error)
      else if stored s (rv_label r) \<noteq> None then
        (s, Inl (''portable View attachment '' @ va_token (st_id (rv_attachment r)) @ '' changed while detach was rolling back''))
      else (s\<lparr>vs_attachments := AList.update (rv_label r) (rv_attachment r) (vs_attachments s)\<rparr>, Inr ()))"

section \<open>Serving\<close>

datatype http_method = GET | HEAD | POST | OtherMethod string

record view_request =
  rq_method :: http_method
  rq_scheme :: "string option"
  rq_host :: "string option"
  rq_path :: string
  rq_query :: "string option"
  rq_content_type :: "string option"
  rq_body :: bytes

record http_reply =
  rs_status :: nat
  rs_headers :: "(string \<times> string) list"
  rs_body :: bytes

definition response_headers :: "(string \<times> string) list" where
  "response_headers = [(''cache-control'', ''no-store''), (''content-security-policy'', view_csp),
     (''x-content-type-options'', ''nosniff''), (''referrer-policy'', ''no-referrer'')]"

definition content_type :: "string \<Rightarrow> string" where
  "content_type path =
     (let extension = (case rfind CHR ''.'' path of None \<Rightarrow> [] | Some i \<Rightarrow> map ascii_lower (drop (i + 1) path)) in
      if extension \<in> {''html'', ''htm''} then ''text/html; charset=utf-8''
      else if extension = ''css'' then ''text/css; charset=utf-8''
      else if extension \<in> {''js'', ''mjs''} then ''text/javascript; charset=utf-8''
      else if extension \<in> {''json'', ''map''} then ''application/json''
      else if extension = ''svg'' then ''image/svg+xml''
      else if extension = ''png'' then ''image/png''
      else if extension \<in> {''jpg'', ''jpeg''} then ''image/jpeg''
      else if extension = ''gif'' then ''image/gif''
      else if extension = ''webp'' then ''image/webp''
      else if extension = ''ico'' then ''image/x-icon''
      else if extension = ''woff'' then ''font/woff''
      else if extension = ''woff2'' then ''font/woff2''
      else if extension = ''ttf'' then ''font/ttf''
      else if extension = ''otf'' then ''font/otf''
      else if extension = ''wasm'' then ''application/wasm''
      else if extension = ''txt'' then ''text/plain; charset=utf-8''
      else ''application/octet-stream'')"

definition asset_response :: "http_method \<Rightarrow> string \<Rightarrow> bytes \<Rightarrow> http_reply" where
  "asset_response method path asset =
     \<lparr>rs_status = 200, rs_headers = response_headers @ [(''content-type'', content_type path), (''content-length'', show_nat (length asset))],
      rs_body = (if method = HEAD then [] else asset)\<rparr>"

definition error_response :: "nat \<Rightarrow> string \<Rightarrow> http_reply" where
  "error_response status message =
     \<lparr>rs_status = status, rs_headers = response_headers @ [(''content-type'', ''text/plain; charset=utf-8'')], rs_body = string_bytes message\<rparr>"

text \<open>The attachment of a window, when the request comes from its own origin.\<close>

definition attachment_for :: "view_store \<Rightarrow> string \<Rightarrow> view_request \<Rightarrow> (nat \<times> string) + stored_attachment" where
  "attachment_for s label r =
     (if vs_poisoned s then Inl (500, store_lock_error)
      else
        bindE (ok_or (403, ''portable View attachment is unavailable'') (stored s label)) (\<lambda>a.
        if rq_host r \<noteq> Some (st_token a) then Inl (403, ''portable View origin does not match its attachment'') else Inr a))"

definition intent_target :: "view_store \<Rightarrow> string \<Rightarrow> view_request \<Rightarrow> (nat \<times> string) + (view_attachment_id \<times> nat)" where
  "intent_target s label r = bindE (attachment_for s label r) (\<lambda>a. Inr (st_id a, st_intents a))"

definition asset_lookup :: "view_store \<Rightarrow> string \<Rightarrow> view_request \<Rightarrow> (nat \<times> string) + (string \<times> bytes)" where
  "asset_lookup s label r =
     (if rq_method r \<noteq> GET \<and> rq_method r \<noteq> HEAD then Inl (405, ''method not allowed'')
      else if rq_scheme r \<noteq> Some view_scheme \<or> rq_query r \<noteq> None then Inl (400, ''invalid portable View URL'')
      else
        bindE (attachment_for s label r) (\<lambda>a.
        let path = (if rq_path r = ''/'' then st_entry a else case strip_prefix ''/'' (rq_path r) of Some p \<Rightarrow> p | None \<Rightarrow> rq_path r) in
        bindE (map_err (\<lambda>e. (400, e)) (validate_asset_path path)) (\<lambda>_.
        bindE (ok_or (404, ''portable View asset '' @ debug_str path @ '' was not found'') (map_of (st_assets a) path)) (\<lambda>asset.
        Inr (path, asset)))))"

text \<open>An intent that reached its handler, with the answer.\<close>

datatype intent_event = IntentHandled nat view_attachment_id view_intent_request "string + view_intent_response"

record intent_world =
  iw_decode :: "bytes \<Rightarrow> string + view_intent_request"
  iw_encode :: "view_intent_response \<Rightarrow> string + bytes"
  iw_handle :: "intent_event list \<Rightarrow> nat \<Rightarrow> view_attachment_id \<Rightarrow> view_intent_request \<Rightarrow> string + view_intent_response"

definition intent_response ::
  "intent_world \<Rightarrow> view_store \<Rightarrow> string \<Rightarrow> view_request \<Rightarrow> intent_event list \<Rightarrow> intent_event list \<times> http_reply"
where
  "intent_response w s label r tr =
     (if rq_scheme r \<noteq> Some view_scheme \<or> rq_query r \<noteq> None \<or> rq_path r \<noteq> ''/_hologram/intent'' then
        (tr, error_response 400 ''invalid portable View intent URL'')
      else if length (rq_body r) > max_intent_payload_bytes + 1024 then
        (tr, error_response 413 ''portable View intent request is too large'')
      else if (case rq_content_type r of None \<Rightarrow> True | Some v \<Rightarrow> hd (split_on CHR '';'' v) \<noteq> ''application/json'') then
        (tr, error_response 415 ''portable View intents require application/json'')
      else
        (case iw_decode w (rq_body r) of
           Inl e \<Rightarrow> (tr, error_response 400 (''decode portable View intent: '' @ e))
         | Inr intent \<Rightarrow>
             (case intent_target s label r of
                Inl (status, message) \<Rightarrow> (tr, error_response status message)
              | Inr (i, handler) \<Rightarrow>
                  let answer = iw_handle w tr handler i intent in
                  (tr @ [IntentHandled handler i intent answer],
                   case answer of
                     Inl e \<Rightarrow> error_response 422 e
                   | Inr response \<Rightarrow>
                       (case iw_encode w response of
                          Inl e \<Rightarrow> error_response 500 (''encode portable View intent response: '' @ e)
                        | Inr body \<Rightarrow>
                            \<lparr>rs_status = 200, rs_headers = response_headers
                               @ [(''content-type'', ''application/json''), (''content-length'', show_nat (length body))],
                             rs_body = body\<rparr>)))))"

definition view_response ::
  "intent_world \<Rightarrow> view_store \<Rightarrow> string \<Rightarrow> view_request \<Rightarrow> intent_event list \<Rightarrow> intent_event list \<times> http_reply"
where
  "view_response w s label r tr =
     (if rq_method r = POST then intent_response w s label r tr
      else
        (tr, case asset_lookup s label r of
               Inr (path, asset) \<Rightarrow> asset_response (rq_method r) path asset
             | Inl (status, message) \<Rightarrow> error_response status message))"

section \<open>The surface\<close>

text \<open>Opening a window navigates to the URL of an attachment; \<open>vw_url\<close> parses its text.\<close>

datatype window_event =
    WindowOpened string string string "string + unit"
  | WindowClosed string "string + unit"

record window_world =
  vw_url :: "string \<Rightarrow> string + unit"
  vw_open :: "window_event list \<Rightarrow> string \<Rightarrow> string \<Rightarrow> string \<Rightarrow> string + unit"
  vw_close :: "window_event list \<Rightarrow> string \<Rightarrow> string + unit"

definition attachment_url :: "window_world \<Rightarrow> string \<Rightarrow> string \<Rightarrow> string + unit" where
  "attachment_url w token entry =
     map_err (\<lambda>e. ''construct portable View URL: '' @ e) (vw_url w (view_scheme @ ''://'' @ token @ ''/'' @ entry))"

definition open_window ::
  "window_world \<Rightarrow> string \<Rightarrow> string \<Rightarrow> string \<Rightarrow> window_event list \<Rightarrow> window_event list \<times> (string + unit)"
where
  "open_window w label token entry tr = (let a = vw_open w tr label token entry in (tr @ [WindowOpened label token entry a], a))"

definition close_window :: "window_world \<Rightarrow> string \<Rightarrow> window_event list \<Rightarrow> window_event list \<times> (string + unit)" where
  "close_window w label tr = (let a = vw_close w tr label in (tr @ [WindowClosed label a], a))"

text \<open>The end of an attachment whose window did not open: clean up, roll back, open the window of what was there.\<close>

definition attach_failed ::
  "window_world \<Rightarrow> staged_attachment \<Rightarrow> string \<Rightarrow> view_store \<Rightarrow> window_event list \<Rightarrow> view_store \<times> window_event list \<times> (string + unit)"
where
  "attach_failed w g e s tr =
     (case close_window w (sg_label g) tr of (tr1, cleanup) \<Rightarrow>
      case rollback g s of
        (s1, Inl e1) \<Rightarrow> (s1, tr1, Inl e1)
      | (s1, Inr _) \<Rightarrow>
          let message = ''create portable View window: '' @ e
              @ (case cleanup of Inl c \<Rightarrow> ''; clean up failed window: '' @ c | Inr _ \<Rightarrow> []) in
          (case sg_previous g of
             None \<Rightarrow> (s1, tr1, Inl message)
           | Some previous \<Rightarrow>
               (case attachment_url w (st_token previous) (st_entry previous) of
                  Inl u \<Rightarrow> (s1, tr1, Inl u)
                | Inr _ \<Rightarrow>
                    (case open_window w (sg_label g) (st_token previous) (st_entry previous) tr1 of (tr2, restored) \<Rightarrow>
                     (s1, tr2, Inl (message @ (case restored of Inl c \<Rightarrow> ''; restore previous window: '' @ c | Inr _ \<Rightarrow> [])))))))"

definition surface_attach ::
  "window_world \<Rightarrow> view_attachment \<Rightarrow> view_store \<Rightarrow> window_event list \<Rightarrow> view_store \<times> window_event list \<times> (string + unit)"
where
  "surface_attach w v s tr =
     (case stage v s of
        (s1, Inl e) \<Rightarrow> (s1, tr, Inl e)
      | (s1, Inr g) \<Rightarrow>
          (case attachment_url w (sg_token g) (sg_entry g) of
             Inl e \<Rightarrow> (s1, tr, Inl e)
           | Inr _ \<Rightarrow>
               (case (if sg_previous g \<noteq> None then close_window w (sg_label g) tr else (tr, Inr ())) of
                  (tr1, Inl e) \<Rightarrow>
                    (case rollback g s1 of
                       (s2, Inl e2) \<Rightarrow> (s2, tr1, Inl e2)
                     | (s2, Inr _) \<Rightarrow> (s2, tr1, Inl (''replace portable View window: '' @ e)))
                | (tr1, Inr _) \<Rightarrow>
                    (case open_window w (sg_label g) (sg_token g) (sg_entry g) tr1 of
                       (tr2, Inl e) \<Rightarrow> attach_failed w g e s1 tr2
                     | (tr2, Inr _) \<Rightarrow> (s1, tr2, Inr ())))))"

definition surface_detach ::
  "window_world \<Rightarrow> view_attachment_id \<Rightarrow> view_store \<Rightarrow> window_event list \<Rightarrow> view_store \<times> window_event list \<times> (string + unit)"
where
  "surface_detach w i s tr =
     (case remove_attachment i s of
        (s1, Inl e) \<Rightarrow> (s1, tr, Inl e)
      | (s1, Inr None) \<Rightarrow> (s1, tr, Inr ())
      | (s1, Inr (Some removed)) \<Rightarrow>
          (case close_window w (rv_label removed) tr of
             (tr1, Inr _) \<Rightarrow> (s1, tr1, Inr ())
           | (tr1, Inl e) \<Rightarrow>
               (case restore_attachment removed s1 of
                  (s2, Inl e2) \<Rightarrow> (s2, tr1, Inl e2)
                | (s2, Inr _) \<Rightarrow> (s2, tr1, Inl (''destroy portable View window: '' @ e)))))"

text \<open>Where a window may navigate; \<open>rewritten\<close> says whether the platform rewrites custom schemes to a host.\<close>

definition navigation_is_local :: "bool \<Rightarrow> string \<Rightarrow> string option \<Rightarrow> string \<Rightarrow> bool" where
  "navigation_is_local rewritten scheme host token =
     (if scheme = view_scheme then host = Some token
      else rewritten \<and> (scheme = ''http'' \<or> scheme = ''https'') \<and> host = Some (view_scheme @ ''.'' @ token))"

section \<open>The store under every interleaving\<close>

definition attachment_ok :: "string \<Rightarrow> stored_attachment \<Rightarrow> bool" where
  "attachment_ok label a \<longleftrightarrow> label = window_label (st_token a) \<and> validate_token (st_token a) = Inr () \<and> va_token (st_id a) = st_token a
     \<and> (\<forall>x \<in> set (st_assets a). validate_asset_path (fst x) = Inr ()) \<and> st_entry a \<in> fst ` set (st_assets a)"

definition store_ok :: "view_store \<Rightarrow> bool" where
  "store_ok s \<longleftrightarrow> (\<forall>label a. stored s label = Some a \<longrightarrow> attachment_ok label a)"

text \<open>
  The store with the stagings and removals that calls under way still hold. Attachments and detachments touch the
  store by these operations only, so every interleaving of them is a sequence of these steps.
\<close>

inductive surface_reach :: "view_store \<Rightarrow> staged_attachment list \<Rightarrow> removed_attachment list \<Rightarrow> bool" where
  opened: "surface_reach view_store_new [] []"
| staging: "surface_reach s gs rs \<Longrightarrow> stage v s = (s', Inr g) \<Longrightarrow> surface_reach s' (g # gs) rs"
| rolling_back: "surface_reach s gs rs \<Longrightarrow> g \<in> set gs \<Longrightarrow> surface_reach (fst (rollback g s)) gs rs"
| removing: "surface_reach s gs rs \<Longrightarrow> remove_attachment i s = (s', Inr (Some r)) \<Longrightarrow> surface_reach s' gs (r # rs)"
| restoring: "surface_reach s gs rs \<Longrightarrow> r \<in> set rs \<Longrightarrow> surface_reach (fst (restore_attachment r s)) gs rs"
| panicked: "surface_reach s gs rs \<Longrightarrow> surface_reach (s\<lparr>vs_poisoned := True\<rparr>) gs rs"

lemmas store_ops = update_conv' delete_conv'

lemma collect_assets_Inr:
  "collect_assets as m = Inr m' \<Longrightarrow> (\<forall>x \<in> set m. validate_asset_path (fst x) = Inr ()) \<Longrightarrow>
     (\<forall>x \<in> set m'. validate_asset_path (fst x) = Inr ()) \<and> set m' = set m \<union> (\<lambda>a. (as_path a, as_bytes a)) ` set as \<and> (distinct (map fst m) \<longrightarrow> distinct (map fst m'))"
  by (induction as m rule: collect_assets.induct) (auto simp: bindE_eq_Inr split: if_splits)

lemma stage_Inr:
  assumes "stage v s = (s', Inr g)"
  shows "\<exists>a. attachment_ok (sg_label g) a \<and> stored s' = (stored s)(sg_label g \<mapsto> a) \<and> vs_poisoned s' = vs_poisoned s \<and> \<not> vs_poisoned s
     \<and> sg_label g = window_label (va_token (at_id v)) \<and> sg_token g = va_token (at_id v) \<and> sg_entry g = at_entry v \<and> sg_previous g = stored s (sg_label g)
     \<and> st_generation a = sg_generation g \<and> st_id a = at_id v \<and> st_entry a = at_entry v \<and> st_token a = va_token (at_id v) \<and> st_intents a = at_intents v
     \<and> set (st_assets a) = (\<lambda>a. (as_path a, as_bytes a)) ` set (at_assets v) \<and> distinct (map fst (st_assets a))"
proof -
  obtain assets where a: "validate_token (va_token (at_id v)) = Inr ()" "collect_assets (at_assets v) [] = Inr assets" "at_entry v \<in> fst ` set assets"
    using assms by (auto simp: stage_def Let_def bindE_eq_Inr split: sum.splits if_splits)
  define G where "G = (if (vs_next_generation s + 1) mod 2 ^ 64 = 0 then 1 else (vs_next_generation s + 1) mod 2 ^ 64)"
  let ?l = "window_label (va_token (at_id v))"
  let ?a = "\<lparr>st_generation = G, st_id = at_id v, st_token = va_token (at_id v), st_entry = at_entry v, st_assets = assets, st_intents = at_intents v\<rparr>"
  have "\<not> vs_poisoned s \<and> s' = s\<lparr>vs_next_generation := G, vs_attachments := AList.update ?l ?a (vs_attachments s)\<rparr>
      \<and> g = \<lparr>sg_generation = G, sg_token = va_token (at_id v), sg_label = ?l, sg_entry = at_entry v, sg_previous = stored s ?l\<rparr>"
    using assms a unfolding stage_def Let_def G_def [symmetric] by (simp split: if_splits)
  moreover have "\<forall>x \<in> set assets. validate_asset_path (fst x) = Inr ()" "set assets = (\<lambda>a. (as_path a, as_bytes a)) ` set (at_assets v)" "distinct (map fst assets)"
    using collect_assets_Inr [OF a(2)] by auto
  ultimately show ?thesis using a(1,3) by (intro exI [of _ ?a]) (simp add: attachment_ok_def store_ops)
qed

lemma stage_Inl: "stage v s = (s', Inl e) \<Longrightarrow> s' = s"
  by (auto simp: stage_def Let_def split: sum.splits if_splits)

lemma surface_reach_ok:
  "surface_reach s gs rs \<Longrightarrow> store_ok s \<and> (\<forall>g \<in> set gs. \<forall>a. sg_previous g = Some a \<longrightarrow> attachment_ok (sg_label g) a)
     \<and> (\<forall>r \<in> set rs. attachment_ok (rv_label r) (rv_attachment r))"
proof (induction rule: surface_reach.induct)
  case (staging s gs rs v s' g)
  then show ?case using stage_Inr [OF staging(2)] by (auto simp: store_ok_def split: if_splits)
next
  case (rolling_back s gs rs g)
  then show ?case by (auto simp: rollback_def store_ok_def store_ops split: option.splits if_splits)
next
  case (removing s gs rs i s' r)
  then show ?case by (auto simp: remove_attachment_def store_ok_def store_ops Let_def split: option.splits if_splits)
next
  case (restoring s gs rs r)
  then show ?case by (auto simp: restore_attachment_def store_ok_def store_ops)
qed (auto simp: store_ok_def view_store_new_def)

section \<open>What is served\<close>

lemma attachment_for_Inr: "attachment_for s label r = Inr a \<longleftrightarrow> \<not> vs_poisoned s \<and> stored s label = Some a \<and> rq_host r = Some (st_token a)"
  by (auto simp: attachment_for_def bindE_eq_Inr split: if_splits)

lemma attachment_for_Inl: "attachment_for s label r = Inl (n, e) \<Longrightarrow> n \<in> {403, 500}"
  by (auto simp: attachment_for_def bindE_eq_Inl split: if_splits)

lemma asset_lookup_Inl: "asset_lookup s label r = Inl (n, e) \<Longrightarrow> n \<in> {400, 403, 404, 405, 500}"
  using attachment_for_Inl [of s label r] unfolding asset_lookup_def
  by (cases "attachment_for s label r") (auto simp: bindE_eq_Inl map_err_eq_Inl Let_def split: if_splits)

definition requested_path :: "view_request \<Rightarrow> stored_attachment \<Rightarrow> string" where
  "requested_path r a = (if rq_path r = ''/'' then st_entry a else case strip_prefix ''/'' (rq_path r) of Some p \<Rightarrow> p | None \<Rightarrow> rq_path r)"

lemma requested_asset:
  assumes "attachment_ok label a" "rq_path r = ''/'' @ p \<and> map_of (st_assets a) p = Some b \<or> rq_path r = ''/'' \<and> map_of (st_assets a) (st_entry a) = Some b"
  shows "map_of (st_assets a) (requested_path r a) = Some b"
proof (cases "rq_path r = ''/''")
  case True
  have "map_of (st_assets a) [] = None"
    using assms(1) by (auto simp: attachment_ok_def validate_asset_path_def map_of_eq_None_iff)
  then show ?thesis using assms(2) True by (auto simp: requested_path_def)
next
  case False
  then show ?thesis using assms(2) by (auto simp: requested_path_def strip_prefix_def)
qed

lemma asset_lookup_Inr:
  "asset_lookup s label r = Inr (path, b) \<longleftrightarrow> rq_method r \<in> {GET, HEAD} \<and> rq_scheme r = Some view_scheme \<and> rq_query r = None
     \<and> (\<exists>a. attachment_for s label r = Inr a \<and> path = requested_path r a \<and> validate_asset_path path = Inr () \<and> map_of (st_assets a) path = Some b)"
  unfolding asset_lookup_def requested_path_def by (auto simp: bindE_eq_Inr Let_def)

text \<open>
  C20. A window is served its own View and nothing else. In every state of the store that any interleaving of
  attachments, replacements, detachments and rollbacks can reach, whatever a page requests, every response carries
  the security headers; a successful one goes only to a request from the origin of the attachment of that very
  window, and is an asset of that attachment under a validated path, or the answer of its own handler to one decoded
  intent. No request reaches any other handler, and a window without an attachment is never answered
  with success. Conversely every asset of an attachment, and its entry at the root, is served to its window.
\<close>
theorem view_response_confined:
  assumes "surface_reach s gs rs" "view_response w s label r tr = (tr', x)"
  shows "set response_headers \<subseteq> set (rs_headers x)
     \<and> (rs_status x = 200 \<longrightarrow> (\<exists>a. stored s label = Some a \<and> attachment_ok label a \<and> rq_host r = Some (st_token a)
          \<and> rq_scheme r = Some view_scheme \<and> rq_query r = None
          \<and> (if rq_method r = POST
             then \<exists>intent response. rq_path r = ''/_hologram/intent'' \<and> iw_decode w (rq_body r) = Inr intent
               \<and> tr' = tr @ [IntentHandled (st_intents a) (st_id a) intent (Inr response)] \<and> iw_encode w response = Inr (rs_body x)
             else rq_method r \<in> {GET, HEAD} \<and> tr' = tr \<and> (\<exists>b. validate_asset_path (requested_path r a) = Inr ()
               \<and> map_of (st_assets a) (requested_path r a) = Some b \<and> rs_body x = (if rq_method r = HEAD then [] else b)))))
     \<and> (tr' \<noteq> tr \<longrightarrow> (\<exists>a intent answer. stored s label = Some a \<and> rq_host r = Some (st_token a) \<and> rq_method r = POST
          \<and> tr' = tr @ [IntentHandled (st_intents a) (st_id a) intent answer]))
     \<and> (\<forall>a p b. \<not> vs_poisoned s \<longrightarrow> stored s label = Some a \<longrightarrow> rq_method r = GET \<longrightarrow> rq_scheme r = Some view_scheme \<longrightarrow> rq_query r = None
          \<longrightarrow> rq_host r = Some (st_token a) \<longrightarrow> (rq_path r = ''/'' @ p \<and> map_of (st_assets a) p = Some b
             \<or> rq_path r = ''/'' \<and> map_of (st_assets a) (st_entry a) = Some b) \<longrightarrow> rs_status x = 200 \<and> rs_body x = b)"
proof -
  note ok = surface_reach_ok [OF assms(1), THEN conjunct1, unfolded store_ok_def, rule_format]
  show ?thesis
  proof (cases "rq_method r = POST")
    case False
    then have x: "tr' = tr" "x = (case asset_lookup s label r of Inr (path, asset) \<Rightarrow> asset_response (rq_method r) path asset
        | Inl (status, message) \<Rightarrow> error_response status message)" using assms(2) by (auto simp: view_response_def)
    show ?thesis
    proof (cases "asset_lookup s label r")
      case (Inl e)
      then have "x = error_response (fst e) (snd e)" "fst e \<noteq> 200" using x(2) asset_lookup_Inl [of s label r "fst e" "snd e"] by (auto split: prod.splits)
      moreover have "\<not> (rq_method r = GET \<and> rq_scheme r = Some view_scheme \<and> rq_query r = None \<and> attachment_for s label r = Inr a
          \<and> map_of (st_assets a) (requested_path r a) = Some b)" for a b
      proof
        assume h: "rq_method r = GET \<and> rq_scheme r = Some view_scheme \<and> rq_query r = None \<and> attachment_for s label r = Inr a
          \<and> map_of (st_assets a) (requested_path r a) = Some b"
        then have "attachment_ok label a" using ok by (simp add: attachment_for_Inr)
        then have "validate_asset_path (requested_path r a) = Inr ()" using h map_of_SomeD [of "st_assets a" "requested_path r a" b]
          by (auto simp: attachment_ok_def)
        then have "asset_lookup s label r = Inr (requested_path r a, b)" using h by (simp add: asset_lookup_Inr)
        then show False using Inl by simp
      qed
      ultimately show ?thesis using x(1) requested_asset [OF ok] by (fastforce simp: error_response_def attachment_for_Inr)
    next
      case (Inr p)
      then have look: "asset_lookup s label r = Inr (fst p, snd p)" by simp
      from this [unfolded asset_lookup_Inr] obtain a where a: "rq_method r \<in> {GET, HEAD}" "rq_scheme r = Some view_scheme" "rq_query r = None"
        "attachment_for s label r = Inr a" "fst p = requested_path r a" "validate_asset_path (fst p) = Inr ()" "map_of (st_assets a) (fst p) = Some (snd p)" by blast
      have "x = asset_response (rq_method r) (fst p) (snd p)" using x(2) Inr by (simp add: split_beta)
      then show ?thesis using a ok [of label a] x(1) False requested_asset [OF ok [of label a]]
        by (fastforce simp: asset_response_def attachment_for_Inr)
    qed
  next
    case True
    then have run: "intent_response w s label r tr = (tr', x)" using assms(2) by (simp add: view_response_def)
    consider (refused) n e where "tr' = tr" "x = error_response n e" "n \<noteq> 200"
      | (target) intent a where "rq_scheme r = Some view_scheme" "rq_query r = None" "rq_path r = ''/_hologram/intent''" "iw_decode w (rq_body r) = Inr intent"
          "attachment_for s label r = Inr a"
      using run attachment_for_Inl [of s label r] unfolding intent_response_def intent_target_def
      by (cases "attachment_for s label r") (auto split: if_splits sum.splits)
    then show ?thesis
    proof cases
      case refused
      then show ?thesis using True by (auto simp: error_response_def)
    next
      case target
      let ?answer = "iw_handle w tr (st_intents a) (st_id a) intent"
      have "tr' = tr \<and> rs_status x \<noteq> 200 \<and> set response_headers \<subseteq> set (rs_headers x)
          \<or> tr' = tr @ [IntentHandled (st_intents a) (st_id a) intent ?answer] \<and> set response_headers \<subseteq> set (rs_headers x)
             \<and> (rs_status x = 200 \<longrightarrow> (\<exists>response. ?answer = Inr response \<and> iw_encode w response = Inr (rs_body x)))"
        using run target unfolding intent_response_def intent_target_def
        by (auto simp: error_response_def Let_def split: if_splits sum.splits)
      then show ?thesis using target True ok [of label a] by (auto simp: attachment_for_Inr)
    qed
  qed
qed

section \<open>The store and the windows together\<close>

text \<open>Attachments and detachments one after another, whatever the windows answer.\<close>

inductive surface_run :: "window_world \<Rightarrow> view_store \<Rightarrow> window_event list \<Rightarrow> bool" for w where
  start: "surface_run w view_store_new []"
| attach: "surface_run w s tr \<Longrightarrow> surface_attach w v s tr = (s', tr', x) \<Longrightarrow> surface_run w s' tr'"
| detach: "surface_run w s tr \<Longrightarrow> surface_detach w i s tr = (s', tr', x) \<Longrightarrow> surface_run w s' tr'"

text \<open>The token and entry a window shows after the calls of a trace: a failed call leaves it as it was.\<close>

fun window_step :: "window_event \<Rightarrow> (string \<rightharpoonup> string \<times> string) \<Rightarrow> (string \<rightharpoonup> string \<times> string)" where
  "window_step (WindowOpened l t e (Inr _)) m = m(l \<mapsto> (t, e))"
| "window_step (WindowClosed l (Inr _)) m = m(l := None)"
| "window_step _ m = m"

definition windows_shown :: "window_event list \<Rightarrow> (string \<rightharpoonup> string \<times> string)" where
  "windows_shown tr = foldl (\<lambda>m ev. window_step ev m) Map.empty tr"

lemma windows_shown_simps [simp]:
  "windows_shown [] = Map.empty" "windows_shown (tr @ evs) = foldl (\<lambda>m ev. window_step ev m) (windows_shown tr) evs"
  by (simp_all add: windows_shown_def)

definition urls_parse :: "window_world \<Rightarrow> bool" where
  "urls_parse w \<longleftrightarrow> (\<forall>token entry. validate_token token = Inr () \<longrightarrow> validate_asset_path entry = Inr ()
     \<longrightarrow> vw_url w (view_scheme @ ''://'' @ token @ ''/'' @ entry) = Inr ())"

lemma attachment_ok_url: "urls_parse w \<Longrightarrow> attachment_ok l a \<Longrightarrow> attachment_url w (st_token a) (st_entry a) = Inr ()"
  by (auto simp: urls_parse_def attachment_ok_def attachment_url_def)

lemma stage_rollback:
  assumes "stage v s = (s1, Inr g)"
  shows "\<exists>s2. rollback g s1 = (s2, Inr True) \<and> stored s2 = stored s \<and> \<not> vs_poisoned s2"
proof -
  obtain a where a: "stored s1 = (stored s)(sg_label g \<mapsto> a)" "vs_poisoned s1 = vs_poisoned s" "\<not> vs_poisoned s"
    "sg_previous g = stored s (sg_label g)" "st_generation a = sg_generation g" using stage_Inr [OF assms] by blast
  then show ?thesis by (auto simp: rollback_def store_ops split: option.splits)
qed

definition windows_match :: "view_store \<Rightarrow> window_event list \<Rightarrow> bool" where
  "windows_match s tr \<longleftrightarrow> (\<forall>l t e. windows_shown tr l = Some (t, e) \<longrightarrow> (\<exists>a. stored s l = Some a \<and> st_token a = t \<and> st_entry a = e))"

lemma answer_flip:
  "(Inr y = vw_close w tr l) = (vw_close w tr l = Inr y)" "(Inl e = vw_close w tr l) = (vw_close w tr l = Inl e)"
  "(Inr y = vw_open w tr l t n) = (vw_open w tr l t n = Inr y)" "(Inl e = vw_open w tr l t n) = (vw_open w tr l t n = Inl e)"
  by auto

lemma surface_attach_outcome:
  assumes "surface_attach w v s tr = (s', tr', x)" "urls_parse w" "store_ok s" "\<not> vs_poisoned s" "windows_match s tr"
  shows "store_ok s' \<and> \<not> vs_poisoned s' \<and> windows_match s' tr'
     \<and> (case x of
          Inl _ \<Rightarrow> stored s' = stored s
        | Inr _ \<Rightarrow> \<exists>a. attachment_ok (window_label (va_token (at_id v))) a \<and> stored s' = (stored s)(window_label (va_token (at_id v)) \<mapsto> a)
            \<and> st_id a = at_id v \<and> st_entry a = at_entry v \<and> st_intents a = at_intents v
            \<and> set (st_assets a) = (\<lambda>a. (as_path a, as_bytes a)) ` set (at_assets v)
            \<and> windows_shown tr' (window_label (va_token (at_id v))) = Some (va_token (at_id v), at_entry v))"
proof (cases "stage v s")
  case (Pair s1 y)
  show ?thesis
  proof (cases y)
    case (Inl e)
    then show ?thesis using assms Pair stage_Inl [of v s s1 e] by (auto simp: surface_attach_def)
  next
    case (Inr g)
    note staged = Pair [unfolded Inr]
    obtain a where a: "attachment_ok (sg_label g) a" "stored s1 = (stored s)(sg_label g \<mapsto> a)" "\<not> vs_poisoned s1"
      "sg_label g = window_label (va_token (at_id v))" "sg_token g = va_token (at_id v)" "sg_entry g = at_entry v" "sg_previous g = stored s (sg_label g)"
      "st_id a = at_id v" "st_entry a = at_entry v" "st_token a = va_token (at_id v)" "st_intents a = at_intents v"
      "set (st_assets a) = (\<lambda>a. (as_path a, as_bytes a)) ` set (at_assets v)" using stage_Inr [OF staged] by auto
    obtain s2 where s2: "rollback g s1 = (s2, Inr True)" "stored s2 = stored s" "\<not> vs_poisoned s2" using stage_rollback [OF staged] by blast
    have url: "attachment_url w (va_token (at_id v)) (at_entry v) = Inr ()" using attachment_ok_url [OF assms(2) a(1)] a by simp
    have prev: "attachment_url w (st_token p) (st_entry p) = Inr ()" if "stored s (window_label (va_token (at_id v))) = Some p" for p
      using attachment_ok_url [OF assms(2)] assms(3) that by (auto simp: store_ok_def)
    have "store_ok s1" using a(1,2) assms(3) by (auto simp: store_ok_def split: if_splits)
    then show ?thesis using assms staged a s2
      by (auto simp: answer_flip url prev surface_attach_def attach_failed_def open_window_def close_window_def Let_def store_ok_def windows_match_def
          split: if_splits sum.splits option.splits prod.splits)
  qed
qed

lemma surface_detach_outcome:
  assumes "surface_detach w i s tr = (s', tr', x)" "store_ok s" "\<not> vs_poisoned s" "windows_match s tr"
  shows "store_ok s' \<and> \<not> vs_poisoned s' \<and> windows_match s' tr'
     \<and> (case stored s (window_label (va_token i)) of
          None \<Rightarrow> x = Inr () \<and> s' = s \<and> tr' = tr
        | Some a \<Rightarrow>
            if st_id a \<noteq> i then x = Inr () \<and> s' = s \<and> tr' = tr
            else (case x of
                Inl _ \<Rightarrow> stored s' = stored s
              | Inr _ \<Rightarrow> stored s' = (stored s)(window_label (va_token i) := None) \<and> windows_shown tr' (window_label (va_token i)) = None))"
proof (cases "\<exists>a. stored s (window_label (va_token i)) = Some a \<and> st_id a = i")
  case False
  then show ?thesis using assms
    by (auto simp: surface_detach_def remove_attachment_def Let_def split: option.splits if_splits)
next
  case True
  then obtain a where a: "stored s (window_label (va_token i)) = Some a" "st_id a = i" by blast
  have keep: "(stored s)(window_label (va_token i) \<mapsto> a) = stored s" using a(1) by auto
  show ?thesis using assms a
    by (auto simp: surface_detach_def remove_attachment_def restore_attachment_def close_window_def Let_def store_ops store_ok_def
        windows_match_def keep fun_upd_idem answer_flip split: if_splits sum.splits)
qed

lemma surface_run_ok:
  "surface_run w s tr \<Longrightarrow> urls_parse w \<Longrightarrow> store_ok s \<and> \<not> vs_poisoned s \<and> windows_match s tr"
proof (induction rule: surface_run.induct)
  case start
  then show ?case by (simp add: store_ok_def view_store_new_def windows_match_def)
next
  case attach
  then show ?case using surface_attach_outcome [OF attach(2)] by blast
next
  case detach
  then show ?case using surface_detach_outcome [OF detach(2)] by blast
qed

text \<open>
  C21. Attaching and detaching a View is all or nothing. After any sequence of attachments and detachments whose windows
  opened, failed to open, or failed to close in any way, every window that shows a View shows the entry of the attachment
  that is served to it. From there an attachment either succeeds, with its View stored as given under the label of its
  token and its window showing its entry, or fails and leaves every attachment as it was, the one it was to replace
  included; a detachment of the attachment that is stored removes it with its window, or fails and keeps it, and any
  other detachment does nothing. No other attachment changes.
\<close>
theorem surface_attach_transactional:
  assumes "surface_run w s tr" "urls_parse w"
  shows "(\<forall>l t e. windows_shown tr l = Some (t, e) \<longrightarrow> (\<exists>a. stored s l = Some a \<and> st_token a = t \<and> st_entry a = e \<and> l = window_label t))
     \<and> (\<forall>v s' tr' x. surface_attach w v s tr = (s', tr', x) \<longrightarrow>
         (case x of
            Inl _ \<Rightarrow> stored s' = stored s
          | Inr _ \<Rightarrow> \<exists>a. stored s' = (stored s)(window_label (va_token (at_id v)) \<mapsto> a)
              \<and> st_id a = at_id v \<and> st_entry a = at_entry v \<and> st_intents a = at_intents v
              \<and> set (st_assets a) = (\<lambda>a. (as_path a, as_bytes a)) ` set (at_assets v)
              \<and> windows_shown tr' (window_label (va_token (at_id v))) = Some (va_token (at_id v), at_entry v)))
     \<and> (\<forall>i s' tr' x. surface_detach w i s tr = (s', tr', x) \<longrightarrow>
         (if \<exists>a. stored s (window_label (va_token i)) = Some a \<and> st_id a = i
          then (case x of
              Inl _ \<Rightarrow> stored s' = stored s
            | Inr _ \<Rightarrow> stored s' = (stored s)(window_label (va_token i) := None) \<and> windows_shown tr' (window_label (va_token i)) = None)
          else x = Inr () \<and> s' = s \<and> tr' = tr))"
proof (intro conjI allI impI)
  note ok = surface_run_ok [OF assms]
  {
    fix l t e assume "windows_shown tr l = Some (t, e)"
    then obtain a where "stored s l = Some a" "st_token a = t" "st_entry a = e" using ok unfolding windows_match_def by blast
    then show "\<exists>a. stored s l = Some a \<and> st_token a = t \<and> st_entry a = e \<and> l = window_label t"
      using ok by (auto simp: store_ok_def attachment_ok_def)
  next
    fix v s' tr' x assume "surface_attach w v s tr = (s', tr', x)"
    from surface_attach_outcome [OF this assms(2)] ok
    show "case x of Inl _ \<Rightarrow> stored s' = stored s
          | Inr _ \<Rightarrow> \<exists>a. stored s' = (stored s)(window_label (va_token (at_id v)) \<mapsto> a)
              \<and> st_id a = at_id v \<and> st_entry a = at_entry v \<and> st_intents a = at_intents v
              \<and> set (st_assets a) = (\<lambda>a. (as_path a, as_bytes a)) ` set (at_assets v)
              \<and> windows_shown tr' (window_label (va_token (at_id v))) = Some (va_token (at_id v), at_entry v)"
      by (auto split: sum.splits)
  next
    fix i s' tr' x assume "surface_detach w i s tr = (s', tr', x)"
    from surface_detach_outcome [OF this] ok
    show "if \<exists>a. stored s (window_label (va_token i)) = Some a \<and> st_id a = i
          then (case x of Inl _ \<Rightarrow> stored s' = stored s
            | Inr _ \<Rightarrow> stored s' = (stored s)(window_label (va_token i) := None) \<and> windows_shown tr' (window_label (va_token i)) = None)
          else x = Inr () \<and> s' = s \<and> tr' = tr"
      by (auto split: sum.splits option.splits if_splits)
  }
qed

section \<open>Both at a concrete View\<close>

definition sample_token :: string where "sample_token = replicate 64 CHR ''a''"

definition sample_windows :: window_world where
  "sample_windows = \<lparr>vw_url = (\<lambda>_. Inr ()), vw_open = (\<lambda>tr _ _ e. if e = ''bad.html'' then Inl ''no window'' else Inr ()), vw_close = (\<lambda>_ _. Inr ())\<rparr>"

definition sample_intents :: intent_world where
  "sample_intents = \<lparr>iw_decode = (\<lambda>_. Inl ''no json''), iw_encode = (\<lambda>_. Inl ''no json''), iw_handle = (\<lambda>_ _ _ _. Inl ''no handler'')\<rparr>"

definition sample_view :: "string \<Rightarrow> view_attachment" where
  "sample_view entry = \<lparr>at_id = \<lparr>va_token = sample_token, va_application_kappa = ''k'', va_layer_position = 0\<rparr>, at_entry = entry,
     at_assets = [\<lparr>as_path = ''index.html'', as_bytes = [1]\<rparr>, \<lparr>as_path = ''bad.html'', as_bytes = [2]\<rparr>], at_intents = 3\<rparr>"

definition sample_request :: "string \<Rightarrow> view_request" where
  "sample_request host = \<lparr>rq_method = GET, rq_scheme = Some view_scheme, rq_host = Some host, rq_path = ''/'', rq_query = None,
     rq_content_type = None, rq_body = []\<rparr>"

definition sample_store :: view_store where
  "sample_store = fst (stage (sample_view ''index.html'') view_store_new)"

lemma sample_paths: "validate_asset_path ''index.html'' = Inr ()" "validate_asset_path ''bad.html'' = Inr ()" "validate_token sample_token = Inr ()"
  by code_simp+

lemma sample_staged:
  "\<exists>g. stage (sample_view ''index.html'') view_store_new = (sample_store, Inr g)"
  "stored sample_store (window_label sample_token) = Some \<lparr>st_generation = 1, st_id = at_id (sample_view ''index.html''), st_token = sample_token,
     st_entry = ''index.html'', st_assets = [(''bad.html'', [2]), (''index.html'', [1])], st_intents = 3\<rparr>"
  "\<not> vs_poisoned sample_store"
  by (simp_all add: sample_store_def stage_def sample_view_def sample_paths view_store_new_def Let_def)

theorem view_response_confined_witness:
  "rs_status (snd (view_response sample_intents sample_store (window_label sample_token) (sample_request sample_token) [])) = 200
     \<and> rs_status (snd (view_response sample_intents sample_store (window_label sample_token) (sample_request ''b'') [])) = 403"
proof -
  obtain g where g: "stage (sample_view ''index.html'') view_store_new = (sample_store, Inr g)" using sample_staged(1) by blast
  have reach: "surface_reach sample_store [g] []" by (rule surface_reach.staging [OF surface_reach.opened g])
  have "rs_status (snd (view_response sample_intents sample_store (window_label sample_token) (sample_request sample_token) [])) = 200"
    using view_response_confined [OF reach surjective_pairing, of sample_intents "window_label sample_token" "sample_request sample_token" "[]"]
      sample_staged(2,3) by (auto simp: sample_request_def)
  moreover have "rs_status (snd (view_response sample_intents sample_store (window_label sample_token) (sample_request ''b'') [])) = 403"
    using sample_staged(2,3) by (simp add: view_response_def asset_lookup_def attachment_for_def sample_request_def error_response_def bindE_def ok_or_def
        sample_token_def numeral_eq_Suc)
  ultimately show ?thesis by simp
qed

theorem surface_attach_transactional_witness:
  "\<exists>s tr. surface_run sample_windows s tr \<and> length tr = 5 \<and> windows_shown tr (window_label sample_token) = Some (sample_token, ''index.html'')
     \<and> (\<exists>a. stored s (window_label sample_token) = Some a \<and> st_entry a = ''index.html'')"
proof -
  let ?t1 = "[WindowOpened (window_label sample_token) sample_token ''index.html'' (Inr ())]"
  let ?t2 = "?t1 @ [WindowClosed (window_label sample_token) (Inr ()), WindowOpened (window_label sample_token) sample_token ''bad.html'' (Inl ''no window''),
    WindowClosed (window_label sample_token) (Inr ()), WindowOpened (window_label sample_token) sample_token ''index.html'' (Inr ())]"
  have 1: "surface_attach sample_windows (sample_view ''index.html'') view_store_new [] = (sample_store, ?t1, Inr ())"
    by (simp add: surface_attach_def sample_store_def stage_def sample_view_def sample_paths view_store_new_def Let_def attachment_url_def
        sample_windows_def open_window_def)
  obtain s2 x2 where 2: "surface_attach sample_windows (sample_view ''bad.html'') sample_store ?t1 = (s2, ?t2, x2)"
    by (simp add: surface_attach_def attach_failed_def sample_store_def stage_def sample_view_def sample_paths view_store_new_def Let_def
        attachment_url_def sample_windows_def open_window_def close_window_def rollback_def)
  have run: "surface_run sample_windows s2 ?t2" by (rule surface_run.attach [OF surface_run.attach [OF surface_run.start 1] 2])
  have shown: "windows_shown ?t2 (window_label sample_token) = Some (sample_token, ''index.html'')" by (simp add: windows_shown_def)
  have urls: "urls_parse sample_windows" by (simp add: urls_parse_def sample_windows_def)
  from surface_attach_transactional [OF run urls, THEN conjunct1] shown
  have "\<exists>a. stored s2 (window_label sample_token) = Some a \<and> st_entry a = ''index.html''" by blast
  then show ?thesis using run shown by (intro exI [of _ s2] exI [of _ ?t2]) simp
qed

end
