(* ===== verification/Spec2Isabelle.thy ===== *)
theory Spec2Isabelle
  imports Store_Listing Kappa_Search Config_Properties Plan_Properties
    Storage_Graph Module_Registry Channel_Broker Artifact_Push
    Holo_Fetch Weightc_Session Session_Gates Holo_Runtime
    Holo_Providers Rootfs_Archive Repo_Manifest Compiler_Properties View_Surface
begin

text \<open>
  A verification library for the hologram registry daemon (\<open>src/src/\<close>, and parts of \<open>src/crates/\<close>).

  \<^bold>\<open>The program.\<close> The daemon keeps a content-addressed store of objects on disk. A registry provider,
  local or backed by an external registry, serves that content. Archives of applications are admitted,
  planned into a closed tree of applications and layers, given grants, and run by providers, one
  per kind of layer, under a lifecycle that starts and stops them as a whole. Guests reach the
  outside only through mediators: channels, storage graphs, fetches and View intents. Around this stand
  the configuration, the module registry of the HTTP server, named artifacts with pull and push, and an
  inference engine with resident sessions.

  \<^bold>\<open>Foundations.\<close> \<open>Prelude\<close>, \<open>Rust_String\<close> and \<open>Json\<close> hold what the code uses of Rust's standard library
  and of \<open>serde_json::Value\<close>: results as sums with \<open>bindE\<close>, checked and saturating 64-bit arithmetic, strings
  as the lists of their bytes. \<open>Errors\<close> is \<open>error.rs\<close>, \<open>Util_Fs\<close> is \<open>util.rs\<close> with a file system that
  may refuse every kind of call on every path independently, also a rename after the remove before it; only
  looking whether a file exists does not fail. A crash is a prefix of the system calls. \<open>Host\<close> and \<open>Space\<close> gather
  the functions of other crates (BLAKE3, JSON and TOML codecs, the archive and manifest formats of the
  \<open>hologram\<close> crate) as records of parameters; a theorem that needs more of them than that they are
  functions names the assumption and has an instance that meets it.

  \<^bold>\<open>Components.\<close>
  \<^item> \<open>Object_Query\<close>, \<open>Object_Store\<close>, \<open>Store_Listing\<close>: \<open>protocol.rs\<close> (records and queries) and \<open>store.rs\<close>. The
    state is the directory tree. Every operation of the store is a step of \<open>store_step\<close>; by rule
    induction every reachable state serves only bytes that hash to their id. The locale
    \<open>content_addressed\<close> is the contract of such a store, interpreted on the model.
  \<^item> \<open>Registry_Provider\<close>, \<open>Registry_Local\<close>, \<open>Kappa_Client\<close>, \<open>Registry_Kappa\<close>, \<open>Kappa_Search\<close>: \<open>registry/\<close>. The HTTP
    transport is a parameter. Whatever disk or server hold, content that is served was verified. The
    locale \<open>registry_search\<close> says what paging through a catalogue promises; both providers are
    interpretations of it.
  \<^item> \<open>Socket_Addr\<close>, \<open>App_Config\<close>, \<open>Config_Properties\<close>: \<open>config.rs\<close>, with migration of old schemas, environment
    overrides and validation: exactly which configurations pass and which files loading may change.
  \<^item> \<open>Capability\<close>, \<open>Holo_Directory\<close>, \<open>Application_Plan\<close>, \<open>Plan_Resolver\<close>, \<open>Plan_Closure\<close>, \<open>Plan_Properties\<close>:
    \<open>holo_capability.rs\<close>, \<open>holo_directory.rs\<close>, \<open>holo_format.rs\<close>, \<open>holo_contract.rs\<close>, \<open>application_plan.rs\<close>. The planner
    ends for every archive, hands out only authentic objects, gives a plan exactly when nothing blocks,
    and admission of the tree only ever shrinks authority.
  \<^item> \<open>Provider_Registry\<close>, \<open>Application_Order\<close>, \<open>Holo_Lifecycle\<close>, \<open>Running_Application\<close>, \<open>Session_Gates\<close>:
    \<open>holo_provider.rs\<close>. Providers and prepared layers are trait objects, so their answers are parameters
    that may depend on the whole trace of calls. Starting is transactional, the states of a running
    application are followed under any calls, and \<open>gate_step\<close> interleaves stops, invocations and intents
    at the granularity of the locks: they exclude each other and cannot deadlock.
  \<^item> \<open>View_Bundle\<close>, \<open>View_Provider\<close>: \<open>holo_view.rs\<close>, \<open>holo_view_provider.rs\<close> and the crate
    \<open>hologram-view-surface\<close>: a canonical bundle format, its compiler, and the life of a View on its host.
  \<^item> \<open>View_Surface\<close>: \<open>view_surface.rs\<close> of the desktop application: the store of the attachments, what it serves to which
    window, and the attaching and detaching of windows, under interleavings and failures of the window host.
  \<^item> \<open>Storage_Graph\<close>, \<open>Channel_Broker\<close>, \<open>Fetch_Address\<close>, \<open>Holo_Fetch\<close>: \<open>holo_graph.rs\<close>, \<open>holo_channel.rs\<close> and
    \<open>holo_fetch.rs\<close>. Channels implement the locale \<open>fifo_channels\<close>; \<open>permit_step\<close> interleaves concurrent
    fetches over the atomic counter. A fetch gives the connections its HTTP client opened; the client is a parameter
    that gets the options the code builds it with, and what its documentation says of each option is the
    hypothesis \<open>client_documented\<close>.
  \<^item> \<open>Artifact_Ref\<close>, \<open>Artifact_Manifest\<close>, \<open>Artifact_Pull\<close>, \<open>Artifact_Push\<close>: \<open>artifact_*.rs\<close>. The registry is any
    state machine behind the two traits; pushing then pulling is a round trip when it keeps what it took.
  \<^item> \<open>Module_Registry\<close>: \<open>module.rs\<close> and the descriptors of \<open>modules/\<close>. It builds exactly for closed and
    acyclic sets of modules, in dependency order.
  \<^item> \<open>Holo_Catalog\<close>, \<open>Audit_Log\<close>, \<open>Holo_Executor\<close>, \<open>Holo_Runtime\<close>: \<open>holo.rs\<close> and \<open>audit.rs\<close>. The catalogue imports,
    inspects and plans archives over the registry provider; the executor composes catalogue, planner,
    admission, audit and lifecycle into the direct and the resident run of an archive; \<open>runtime_step\<close>
    interleaves loads, unloads and runs over the table of resident applications, each split where it waits, and any
    of them may be dropped there.
  \<^item> \<open>Component_Host\<close>: \<open>holo_component.rs\<close>. The engine is a parameter; a guest is a tree of calls into its host,
    of any shape. The host functions for storage, channels and fetches, the limits and the life of a layer are the code's.
    The locale \<open>guest_invariant\<close> lifts what every host call keeps to every guest.
  \<^item> \<open>Wasm_Guest\<close>: \<open>holo_wasm.rs\<close>, the ABI of core Wasm guests. The locale \<open>batch_server\<close> has
    the direct and the resident layer as its interpretations.
  \<^item> \<open>Python_Runtime\<close>, \<open>Rootfs_Archive\<close>: \<open>holo_python.rs\<close> and \<open>holo_rootfs_archive.rs\<close>. The bundle format of a Python layer and its execution
    in containers, with the container engine as a parameter; the normal form of Docker archives.
  \<^item> \<open>Holo_Providers\<close>: \<open>holo.rs\<close>, the assembly of the two registries of providers from the
    providers above, and which layers each registry takes.
  \<^item> \<open>Archive_Compiler\<close>, \<open>Compiler_Properties\<close>: \<open>compile.rs\<close>. The archive writer, the layer constructors and the builds of
    Python sources are parameters; what the compiler writes is what the catalogue accepts.
  \<^item> \<open>Repo_Manifest\<close>: \<open>repo_manifest.rs\<close>. A reader is the list of what its calls answer, so files are described
    under every split into reads; reassembly takes any source of chunks and any sink.
  \<^item> \<open>Session_Table\<close>, \<open>Weightc_Session\<close>: \<open>inference/weightc/\<close>. The table refines a list of sessions, least
    recently used first; a request keeps every session well formed whatever its process does and leaves no child behind.
    Requests are taken one after the other: the race of a request with the eviction of its own session is not modelled.

  \<^bold>\<open>Loops, fuel and bounds.\<close> Most loops are structural recursion. \<open>plan_loop\<close> has the limit on
  applications as fuel, and every iteration takes one counted application, so it is never exhausted;
  this is part of \<open>plan_within_limits\<close>. \<open>visit\<close> of the module registry has the depth of its recursion as
  fuel; \<open>registry_build\<close> gives it more than there are modules, and since every level puts a module on the
  path that was not on it, \<open>registry_build_exact\<close> holds with no case for exhausted fuel. \<open>graph_loop\<close> terminates by the length of its queue and the
  remaining limit on edges. \<open>make_room\<close> and \<open>order_loop\<close> may run
  forever on arguments the program does not rule out locally, so they are partial functions; they are
  proved to return for a positive session limit and for the plans the planner makes. Guests of the
  component engine are finite trees of host calls, as the engine's fuel makes them; a call into a core
  Wasm guest may not return, which is the value \<open>None\<close>. Integers
  are kept at their width where they can wrap or are checked (permit counter, totals of a plan, sizes of
  a bundle, attachment sequence) and are natural numbers where the code only compares lengths.

  \<^bold>\<open>Concurrency.\<close> A call under one lock is one step. Where a call takes several locks or atomics, its
  parts are the steps of an inductive relation with program counters (\<open>permit_step\<close>, \<open>gate_step\<close>);
  where an asynchronous call waits, it is split there and may be dropped there (\<open>runtime_step\<close>). A stop and an invocation
  of one application are one step of \<open>runtime_step\<close>, which \<open>gate_step\<close> justifies. A poisoned mutex is a state.

  \<^bold>\<open>Not modelled.\<close> Code that binds the services to a framework: HTTP and gRPC handlers with their
  serialisation, the command line, terminal output, tracing and telemetry, the desktop shell
  beyond its View surface (start-up, tray and menu, file watching); code
  that drives third-party engines (the wasmtime bindings themselves, tar readers and writers, child process
  supervision); and the builds of Python images and Python components, which run compilers in containers.
  The functions of other crates are parameters.
\<close>

end
